(* ===== verification/Minix_Prelude.thy ===== *)
theory Minix_Prelude
  imports Main "HOL-Library.Word" "HOL-Library.Monad_Syntax"
begin

text \<open>
  Shared vocabulary of the development: the system's numeric constants and error codes
  (\<^verbatim>\<open>include/minix/const.h\<close>, \<^verbatim>\<open>include/errno.h\<close> with
  \<^verbatim>\<open>_SYSTEM\<close> defined, so errors are negative), the byte-addressed memory that
  message passing and copying work on, and the theory of linked chains: the kernel, the memory
  manager and the file system all keep their queues as pointer chains through a field of a
  fixed table (\<^verbatim>\<open>p_nextready\<close>, \<^verbatim>\<open>p_sendlink\<close>,
  \<^verbatim>\<open>h_next\<close>, \<^verbatim>\<open>b_next\<close>, \<^verbatim>\<open>b_hash\<close>).
  A C pointer into a table is modelled as an \<open>option\<close> of the slot's index, \<open>None\<close>
  being the null pointer.
\<close>

unbundle bit_operations_syntax

named_theorems chain_simps \<open>rewriting chains after a pointer assignment\<close>
named_theorems code_defs \<open>definitions a component unfolds to reach its record fields\<close>

subsection \<open>Numbers of the configuration\<close>

type_synonym u8 = "8 word"
type_synonym u16 = "16 word"
type_synonym u32 = "32 word"

abbreviation OK :: int where "OK \<equiv> 0"
abbreviation EPERM :: int where "EPERM \<equiv> -1"
abbreviation ENOENT :: int where "ENOENT \<equiv> -2"
abbreviation ESRCH :: int where "ESRCH \<equiv> -3"
abbreviation EINTR :: int where "EINTR \<equiv> -4"
abbreviation EIO :: int where "EIO \<equiv> -5"
abbreviation EBADF :: int where "EBADF \<equiv> -9"
abbreviation ECHILD :: int where "ECHILD \<equiv> -10"
abbreviation EAGAIN :: int where "EAGAIN \<equiv> -11"
abbreviation ENOMEM :: int where "ENOMEM \<equiv> -12"
abbreviation EACCES :: int where "EACCES \<equiv> -13"
abbreviation EFAULT :: int where "EFAULT \<equiv> -14"
abbreviation EBUSY :: int where "EBUSY \<equiv> -16"
abbreviation EEXIST :: int where "EEXIST \<equiv> -17"
abbreviation EXDEV :: int where "EXDEV \<equiv> -18"
abbreviation ENOTDIR :: int where "ENOTDIR \<equiv> -20"
abbreviation EISDIR :: int where "EISDIR \<equiv> -21"
abbreviation EINVAL :: int where "EINVAL \<equiv> -22"
abbreviation ENFILE :: int where "ENFILE \<equiv> -23"
abbreviation EMFILE :: int where "EMFILE \<equiv> -24"
abbreviation EFBIG :: int where "EFBIG \<equiv> -27"
abbreviation ENOSPC :: int where "ENOSPC \<equiv> -28"
abbreviation EROFS :: int where "EROFS \<equiv> -30"
abbreviation EMLINK :: int where "EMLINK \<equiv> -31"
abbreviation ENOLCK :: int where "ENOLCK \<equiv> -37"
abbreviation ENOSYS :: int where "ENOSYS \<equiv> -38"
abbreviation ELOCKED :: int where "ELOCKED \<equiv> -101"
abbreviation E_BAD_DEST :: int where "E_BAD_DEST \<equiv> -1001"
abbreviation E_NO_PERM :: int where "E_NO_PERM \<equiv> -1008"

text \<open>
  \<^verbatim>\<open>NR_TASKS = 8 + NR_CTRLRS\<close> with the network, printer and sound tasks
  configured out (\<^verbatim>\<open>include/minix/config.h\<close>).
\<close>

abbreviation NR_TASKS :: int where "NR_TASKS \<equiv> 10"
abbreviation NR_PROCS :: int where "NR_PROCS \<equiv> 32"
abbreviation NR_HOLES :: nat where "NR_HOLES \<equiv> 64"
abbreviation CLICK_SHIFT :: nat where "CLICK_SHIFT \<equiv> 10"

abbreviation MM_PROC_NR :: int where "MM_PROC_NR \<equiv> 0"
abbreviation FS_PROC_NR :: int where "FS_PROC_NR \<equiv> 1"
abbreviation INIT_PROC_NR :: int where "INIT_PROC_NR \<equiv> 2"
abbreviation HARDWARE :: int where "HARDWARE \<equiv> -1"
abbreviation SYSTASK :: int where "SYSTASK \<equiv> -2"
abbreviation CLOCK :: int where "CLOCK \<equiv> -3"
abbreviation IDLE :: int where "IDLE \<equiv> -6"
abbreviation ANY :: int where "ANY \<equiv> 31438"

subsection \<open>Signal sets\<close>

text \<open>Signals are numbers from 1 to 17; a set of them is a bit map (\<^verbatim>\<open>lib/posix/_sigset.c\<close>).\<close>

abbreviation SIGHUP :: int where "SIGHUP \<equiv> 1"
abbreviation SIGINT :: int where "SIGINT \<equiv> 2"
abbreviation SIGQUIT :: int where "SIGQUIT \<equiv> 3"
abbreviation SIGTRAP :: int where "SIGTRAP \<equiv> 5"
abbreviation SIGKILL :: int where "SIGKILL \<equiv> 9"
abbreviation SIGPIPE :: int where "SIGPIPE \<equiv> 13"
abbreviation SIGALRM :: int where "SIGALRM \<equiv> 14"
abbreviation SIGCHLD :: int where "SIGCHLD \<equiv> 17"
abbreviation NSIG :: int where "NSIG \<equiv> 17"

definition sigisvalid :: "int \<Rightarrow> bool" where
  "sigisvalid n \<longleftrightarrow> 0 \<le> n \<and> n \<le> 17"

definition sigismember :: "u32 \<Rightarrow> int \<Rightarrow> int" where
  "sigismember sgs n = (if \<not> sigisvalid n then -1 else if sgs AND push_bit (nat n) 1 \<noteq> 0 then 1 else 0)"

definition sigaddset :: "u32 \<Rightarrow> int \<Rightarrow> u32" where
  "sigaddset sgs n = (if \<not> sigisvalid n then sgs else sgs OR push_bit (nat n) 1)"

definition sigdelset :: "u32 \<Rightarrow> int \<Rightarrow> u32" where
  "sigdelset sgs n = (if \<not> sigisvalid n then sgs else sgs AND NOT (push_bit (nat n) 1))"

lemma sigismember_bit: "sigismember sgs n = (if \<not> sigisvalid n then -1 else if bit sgs (nat n) then 1 else 0)"
  by (simp add: sigismember_def push_bit_eq_mult and_exp_eq_0_iff_not_bit)

lemma bit_sigaddset: "sigisvalid n \<Longrightarrow> bit (sigaddset sgs n) k \<longleftrightarrow> bit sgs k \<or> k = nat n"
  by (auto simp: sigaddset_def sigisvalid_def bit_or_iff bit_exp_iff)

lemma bit_sigdelset: "sigisvalid n \<Longrightarrow> bit (sigdelset sgs n) k \<longleftrightarrow> bit sgs k \<and> k \<noteq> nat n"
  by (auto simp: sigdelset_def sigisvalid_def bit_and_iff bit_not_iff bit_exp_iff dest: bit_imp_le_length)

lemma sigismember_add: "sigisvalid m \<Longrightarrow> sigisvalid n \<Longrightarrow>
    sigismember (sigaddset sgs n) m = (if m = n then 1 else sigismember sgs m)"
  by (auto simp: sigismember_bit bit_sigaddset sigisvalid_def eq_nat_nat_iff)

lemma sigismember_del: "sigisvalid m \<Longrightarrow> sigisvalid n \<Longrightarrow>
    sigismember (sigdelset sgs n) m = (if m = n then 0 else sigismember sgs m)"
  by (auto simp: sigismember_bit bit_sigdelset sigisvalid_def eq_nat_nat_iff)

lemma sigismember_or: "sigisvalid m \<Longrightarrow> sigismember (a OR b) m = (if sigismember a m = 1 then 1 else sigismember b m)"
  by (simp add: sigismember_bit bit_or_iff)

subsection \<open>Memory maps of a process\<close>

datatype seg = SegT | SegD | SegS

record mem_map =
  mem_vir :: u32
  mem_phys :: u32
  mem_len :: u32

subsection \<open>Byte-addressed memory\<close>

type_synonym memory = "u32 \<Rightarrow> u8"

text \<open>Little-endian store and load of a 32-bit word, byte by byte.\<close>

definition put32 :: "memory \<Rightarrow> u32 \<Rightarrow> u32 \<Rightarrow> memory" where
  "put32 m a v = m(a := ucast v, a + 1 := ucast (drop_bit 8 v),
                   a + 2 := ucast (drop_bit 16 v), a + 3 := ucast (drop_bit 24 v))"

definition get32 :: "memory \<Rightarrow> u32 \<Rightarrow> u32" where
  "get32 m a = ucast (m a) OR push_bit 8 (ucast (m (a + 1)))
     OR push_bit 16 (ucast (m (a + 2))) OR push_bit 24 (ucast (m (a + 3)))"

text \<open>One \<^verbatim>\<open>movs\<close> of a double word: four bytes are read, then written.\<close>

definition movs32 :: "u32 \<Rightarrow> u32 \<Rightarrow> memory \<Rightarrow> memory" where
  "movs32 src dst m = m(dst := m src, dst + 1 := m (src + 1),
                        dst + 2 := m (src + 2), dst + 3 := m (src + 3))"

lemma get32_put32 [simp]: "get32 (put32 m a v) a = v"
proof (rule bit_word_eqI)
  fix n
  assume "n < LENGTH(32)"
  then consider "n < 8" | "8 \<le> n" "n < 16" | "16 \<le> n" "n < 24" | "24 \<le> n" "n < 32"
    by force
  then show "bit (get32 (put32 m a v) a) n \<longleftrightarrow> bit v n"
    by cases (simp_all add: get32_def put32_def bit_or_iff bit_push_bit_iff bit_ucast_iff
        bit_drop_bit_eq, arith+)
qed

lemma put32_outside:
  "b \<noteq> a \<Longrightarrow> b \<noteq> a + 1 \<Longrightarrow> b \<noteq> a + 2 \<Longrightarrow> b \<noteq> a + 3 \<Longrightarrow> put32 m a v b = m b"
  by (simp add: put32_def)

subsection \<open>Chains through a table\<close>

text \<open>
  \<open>chain nx p xs\<close>: following \<open>nx\<close> from the pointer \<open>p\<close> visits the slots \<open>xs\<close> in this
  order and then the null pointer.
\<close>

fun chain :: "('a \<Rightarrow> 'a option) \<Rightarrow> 'a option \<Rightarrow> 'a list \<Rightarrow> bool" where
  "chain nx p [] \<longleftrightarrow> p = None"
| "chain nx p (x # xs) \<longleftrightarrow> p = Some x \<and> chain nx (nx x) xs"

lemma chain_None [simp]: "chain nx None xs \<longleftrightarrow> xs = []"
  by (cases xs) auto

lemma chain_Some: "chain nx (Some x) xs \<longleftrightarrow> (\<exists>ys. xs = x # ys \<and> chain nx (nx x) ys)"
  by (cases xs) auto

lemma chain_unique: "chain nx p xs \<Longrightarrow> chain nx p ys \<Longrightarrow> xs = ys"
proof (induction xs arbitrary: p ys)
  case Nil
  then show ?case by simp
next
  case (Cons x xs)
  then obtain zs where "ys = x # zs" and "chain nx (nx x) zs"
    by (auto simp: chain_Some)
  with Cons show ?case by auto
qed

lemma chain_append:
  "chain nx p (xs @ y # ys) \<Longrightarrow> chain nx (Some y) (y # ys)"
  by (induction xs arbitrary: p) auto

lemma chain_distinct: "chain nx p xs \<Longrightarrow> distinct xs"
proof (induction xs arbitrary: p)
  case Nil
  then show ?case by simp
next
  case (Cons x xs)
  have "x \<notin> set xs"
  proof
    assume "x \<in> set xs"
    then obtain us vs where xs: "xs = us @ x # vs" by (auto simp: in_set_conv_decomp)
    from Cons.prems xs have "chain nx (Some x) (x # us @ x # vs)" by auto
    moreover have "chain nx (Some x) (x # vs)"
      using Cons.prems xs chain_append [of nx p "x # us" x vs] by auto
    ultimately have "x # us @ x # vs = x # vs" by (rule chain_unique)
    then show False by simp
  qed
  with Cons show ?case by auto
qed

text \<open>Assigning the link of a slot outside the chain changes nothing.\<close>

lemma chain_upd_other [chain_simps]:
  "x \<notin> set xs \<Longrightarrow> chain (nx(x := q)) p xs \<longleftrightarrow> chain nx p xs"
  by (induction xs arbitrary: p) auto

lemma chain_cong:
  "(\<And>x. x \<in> set xs \<Longrightarrow> nx x = ny x) \<Longrightarrow> chain nx p xs \<longleftrightarrow> chain ny p xs"
  by (induction xs arbitrary: p) auto

lemma chain_last_None: "chain nx p xs \<Longrightarrow> xs \<noteq> [] \<Longrightarrow> nx (last xs) = None"
  by (induction xs arbitrary: p) (auto split: if_splits)

lemma chain_hd: "chain nx p xs \<Longrightarrow> p = (if xs = [] then None else Some (hd xs))"
  by (cases xs) auto

lemma chain_push:
  "chain nx p xs \<Longrightarrow> x \<notin> set xs \<Longrightarrow> chain (nx(x := p)) (Some x) (x # xs)"
  by (simp add: chain_upd_other)

text \<open>Appending: the link of the last slot is set to a new slot whose own link is null.\<close>

lemma chain_snoc:
  assumes "chain nx p xs" "xs \<noteq> []" "x \<notin> set xs"
  shows "chain (nx(last xs := Some x, x := None)) p (xs @ [x])"
  using assms
proof (induction xs arbitrary: p)
  case Nil
  then show ?case by simp
next
  case (Cons y ys)
  have d: "distinct (y # ys)" using Cons.prems(1) by (rule chain_distinct)
  show ?case
  proof (cases "ys = []")
    case True
    with Cons.prems show ?thesis by auto
  next
    case False
    have IH: "chain (nx(last ys := Some x, x := None)) (nx y) (ys @ [x])"
      by (rule Cons.IH) (use Cons.prems False in auto)
    from d False have "y \<noteq> last ys" by auto
    moreover have "y \<noteq> x" using Cons.prems by auto
    ultimately have "(nx(last ys := Some x, x := None)) y = nx y" by simp
    with IH False Cons.prems show ?thesis by (simp del: fun_upd_apply)
  qed
qed

text \<open>Unlinking: the predecessor's link skips the removed slot.\<close>

lemma chain_unlink:
  assumes "chain nx p (us @ a # x # vs)"
  shows "chain (nx(a := nx x)) p (us @ a # vs)"
proof -
  have d: "distinct (us @ a # x # vs)" using assms by (rule chain_distinct)
  from assms d show ?thesis
    by (induction us arbitrary: p) (auto simp: chain_upd_other)
qed

text \<open>Two loops the code runs over chains: to the last slot, and to the predecessor of a slot.\<close>

partial_function (option) chain_last :: "('a \<Rightarrow> 'a option) \<Rightarrow> 'a \<Rightarrow> 'a option" where
  "chain_last nx x = (case nx x of None \<Rightarrow> Some x | Some y \<Rightarrow> chain_last nx y)"

lemma chain_last_eq: "chain nx p xs \<Longrightarrow> p = Some x \<Longrightarrow> chain_last nx x = Some (last xs)"
proof (induction xs arbitrary: p x)
  case Nil
  then show ?case by simp
next
  case (Cons y ys)
  then have y: "y = x" and ch: "chain nx (nx x) ys" by auto
  show ?case
  proof (cases ys)
    case Nil
    with ch y show ?thesis by (subst chain_last.simps) simp
  next
    case (Cons z zs)
    with ch have "nx x = Some z" by simp
    then have "chain_last nx z = Some (last ys)" using Cons.IH ch by blast
    with \<open>nx x = Some z\<close> y \<open>ys = z # zs\<close> show ?thesis by (subst chain_last.simps) simp
  qed
qed

text \<open>
  \<open>chain_pred nx x t\<close> is the loop
  \<^verbatim>\<open>while (xp->next != rp) if ((xp = xp->next) == NIL) return;\<close>: \<open>Some (Some a)\<close> when it
  stops at the predecessor \<open>a\<close> of \<open>t\<close>, \<open>Some None\<close> when it runs off the end,
  \<open>None\<close> when it does not stop.
\<close>

partial_function (option) chain_pred :: "('a \<Rightarrow> 'a option) \<Rightarrow> 'a \<Rightarrow> 'a \<Rightarrow> 'a option option" where
  "chain_pred nx x t =
     (if nx x = Some t then Some (Some x)
      else case nx x of None \<Rightarrow> Some None | Some y \<Rightarrow> chain_pred nx y t)"

lemma chain_pred_found:
  "chain nx (Some x) (us @ a # t # vs) \<Longrightarrow> chain_pred nx x t = Some (Some a)"
proof (induction us arbitrary: x)
  case Nil
  then show ?case by (subst chain_pred.simps) auto
next
  case (Cons u us)
  then have u: "u = x" and ch: "chain nx (nx x) (us @ a # t # vs)" by auto
  then obtain y where y: "nx x = Some y" by (cases "nx x") auto
  have "distinct (u # us @ a # t # vs)" using chain_distinct Cons.prems by fastforce
  moreover have "y = hd (us @ a # t # vs)" using ch y by (cases us) auto
  ultimately have "y \<noteq> t" by (cases us) auto
  with y Cons.IH ch show ?case by (subst chain_pred.simps) auto
qed

lemma chain_pred_absent:
  "chain nx (Some x) (x # xs) \<Longrightarrow> t \<notin> set xs \<Longrightarrow> chain_pred nx x t = Some None"
proof (induction xs arbitrary: x)
  case Nil
  then show ?case by (subst chain_pred.simps) auto
next
  case (Cons y ys)
  then have "nx x = Some y" "chain nx (Some y) (y # ys)" "t \<notin> set ys" "y \<noteq> t" by auto
  with Cons.IH [of y] show ?case by (subst chain_pred.simps) auto
qed

lemma split_before: "x \<in> set ys \<Longrightarrow> \<exists>us a vs. y # ys = us @ a # x # vs"
proof (induction ys arbitrary: y)
  case Nil
  then show ?case by simp
next
  case (Cons z zs)
  show ?case
  proof (cases "x = z")
    case True
    then have "y # z # zs = [] @ y # x # zs" by simp
    then show ?thesis by blast
  next
    case False
    with Cons.prems Cons.IH [of z] obtain us a vs where "z # zs = us @ a # x # vs" by force
    then have "y # z # zs = (y # us) @ a # x # vs" by simp
    then show ?thesis by blast
  qed
qed

lemma remove1_before:
  "distinct (us @ a # x # vs) \<Longrightarrow> remove1 x (us @ a # x # vs) = us @ a # vs"
  by (simp add: remove1_append)

end
