(* ===== verification/Kernel_Sched.thy ===== *)
theory Kernel_Sched
  imports Minix_Prelude
begin

text \<open>
  The kernel's state and its scheduler: the process table of
  \<^verbatim>\<open>src/kernel/proc.h\<close> and the ready queues of
  \<^verbatim>\<open>src/kernel/proc.c\<close> (\<^verbatim>\<open>pick_proc\<close>,
  \<^verbatim>\<open>ready\<close>, \<^verbatim>\<open>unready\<close>, \<^verbatim>\<open>sched\<close> and
  their safe gateways), for the configuration CHIP = INTEL, 32-bit words.

  A \<^verbatim>\<open>struct proc *\<close> is the number of the slot it points to (the macros
  \<^verbatim>\<open>proc_addr\<close> and \<^verbatim>\<open>proc_number\<close> are inverse to each other once
  \<^verbatim>\<open>main()\<close> has filled \<^verbatim>\<open>pproc_addr\<close> and
  \<^verbatim>\<open>p_nr\<close>); a nullable one is an \<open>int option\<close>.  Memory is bytes at 32-bit
  physical addresses.  An operation yields \<open>None\<close> exactly when the kernel does not come
  back from it: it panics, follows a null pointer, indexes outside the process table or loops
  for ever.  LDTs of a process are not modelled; \<^verbatim>\<open>p_stguard\<close> is the word the guard
  pointer points to, \<^verbatim>\<open>p_pendcount\<close> and the accounting times are 32-bit words.
\<close>

subsection \<open>State\<close>

datatype pflag = NO_MAP | SENDING | RECEIVING | PENDING | SIG_PENDING | P_STOP

datatype ppri = PPRI_NONE | PPRI_TASK | PPRI_SERVER | PPRI_USER | PPRI_IDLE

datatype rdyq = TASK_Q | SERVER_Q | USER_Q

text \<open>The registers of \<^verbatim>\<open>struct stackframe_s\<close>, in the order they are stored.\<close>

datatype reg = R_gs | R_fs | R_es | R_ds | R_di | R_si | R_fp | R_st | R_bx | R_dx | R_cx
  | R_retreg | R_retadr | R_pc | R_cs | R_psw | R_sp | R_ss

record proc =
  p_reg :: "reg \<Rightarrow> u32"
  p_stguard :: u32
  p_int_blocked :: bool
  p_int_held :: bool
  p_nextheld :: "int option"
  p_flags :: "pflag set"
  p_map :: "seg \<Rightarrow> mem_map"
  p_pid :: int
  p_priority :: ppri
  user_time :: u32
  sys_time :: u32
  child_utime :: u32
  child_stime :: u32
  p_exptimers :: "nat option"
  p_callerq :: "int option"
  p_sendlink :: "int option"
  p_messbuf :: u32
  p_getfrom :: int
  p_sendto :: int
  p_nextready :: "int option"
  p_pending :: u32
  p_pendcount :: u32
  p_name :: "u8 list"

text \<open>
  A timer of \<^verbatim>\<open>type.h\<close>.  Timers are numbered: those of the array
  \<^verbatim>\<open>tmr_alarm\<close> by the process they belong to, the drivers' own from
  \<^verbatim>\<open>NR_PROCS\<close> up.  The function a driver's timer runs is only named.
\<close>

datatype tmr_func = CAUSE_ALARM | CAUSE_SYNALARM | DRIVER_FUNC nat

record timer =
  tmr_next :: "nat option"
  tmr_task :: int
  tmr_exp_time :: int
  tmr_func :: tmr_func
  tmr_arg :: int

text \<open>
  The globals of \<^verbatim>\<open>glo.h\<close> and \<^verbatim>\<open>proc.h\<close> the code works on, the
  state of \<^verbatim>\<open>clock.c\<close> (\<^verbatim>\<open>clock_t\<close> as \<open>int\<close>: overflow of the signed type is
  undefined and takes years), the chunks of free memory, the physical memory, the base \<^verbatim>\<open>data_base\<close> of the kernel's data and the address
  of the static message \<^verbatim>\<open>m\<close> of \<^verbatim>\<open>system.c\<close>.
\<close>

record kstate =
  procs :: "int \<Rightarrow> proc"
  proc_ptr :: int
  bill_ptr :: int
  rdy_head :: "rdyq \<Rightarrow> int option"
  rdy_tail :: "rdyq \<Rightarrow> int option"
  held_head :: "int option"
  held_tail :: "int option"
  k_reenter :: u8
  switching :: bool
  sig_procs :: int
  timers :: "nat option"
  tmr :: "nat \<Rightarrow> timer"
  next_timer :: int
  realtime :: int
  sched_ticks :: int
  prev_ptr :: "int option"
  pending_ticks :: int
  lost_ticks :: int
  boot_time :: int
  tty_timeout :: int
  mem :: "(u32 \<times> u32) list"
  tot_mem_size :: u32
  kmem :: memory
  data_base :: u32
  sys_m :: u32

definition STACK_GUARD :: u32 where "STACK_GUARD = 0xDEADBEEF"

definition upd_proc :: "int \<Rightarrow> (proc \<Rightarrow> proc) \<Rightarrow> kstate \<Rightarrow> kstate" where
  [code_defs]: "upd_proc n f s = s\<lparr>procs := (procs s)(n := f (procs s n))\<rparr>"

abbreviation nextready :: "kstate \<Rightarrow> int \<Rightarrow> int option" where
  "nextready s \<equiv> \<lambda>n. p_nextready (procs s n)"

abbreviation sendlink :: "kstate \<Rightarrow> int \<Rightarrow> int option" where
  "sendlink s \<equiv> \<lambda>n. p_sendlink (procs s n)"

abbreviation nextheld :: "kstate \<Rightarrow> int \<Rightarrow> int option" where
  "nextheld s \<equiv> \<lambda>n. p_nextheld (procs s n)"

abbreviation flags :: "kstate \<Rightarrow> int \<Rightarrow> pflag set" where
  "flags s n \<equiv> p_flags (procs s n)"

abbreviation prio :: "kstate \<Rightarrow> int \<Rightarrow> ppri" where
  "prio s n \<equiv> p_priority (procs s n)"

abbreviation set_nextready :: "int \<Rightarrow> int option \<Rightarrow> kstate \<Rightarrow> kstate" where
  "set_nextready n v \<equiv> upd_proc n (\<lambda>p. p\<lparr>p_nextready := v\<rparr>)"

abbreviation set_sendlink :: "int \<Rightarrow> int option \<Rightarrow> kstate \<Rightarrow> kstate" where
  "set_sendlink n v \<equiv> upd_proc n (\<lambda>p. p\<lparr>p_sendlink := v\<rparr>)"

abbreviation set_head :: "rdyq \<Rightarrow> int option \<Rightarrow> kstate \<Rightarrow> kstate" where
  "set_head q v s \<equiv> s\<lparr>rdy_head := (rdy_head s)(q := v)\<rparr>"

abbreviation set_tail :: "rdyq \<Rightarrow> int option \<Rightarrow> kstate \<Rightarrow> kstate" where
  "set_tail q v s \<equiv> s\<lparr>rdy_tail := (rdy_tail s)(q := v)\<rparr>"

text \<open>The macros of \<^verbatim>\<open>proc.h\<close>.\<close>

definition isokprocn :: "int \<Rightarrow> bool" where
  "isokprocn n \<longleftrightarrow> - NR_TASKS \<le> n \<and> n < NR_PROCS"

definition isoksrc_dest :: "int \<Rightarrow> bool" where
  "isoksrc_dest n \<longleftrightarrow> isokprocn n \<or> n = ANY"

definition isrxhardware :: "int \<Rightarrow> bool" where
  "isrxhardware n \<longleftrightarrow> n = ANY \<or> n = HARDWARE"

definition issysentn :: "int \<Rightarrow> bool" where
  "issysentn n \<longleftrightarrow> n = FS_PROC_NR \<or> n = MM_PROC_NR"

abbreviation isemptyp :: "proc \<Rightarrow> bool" where "isemptyp p \<equiv> p_priority p = PPRI_NONE"
abbreviation istaskp :: "proc \<Rightarrow> bool" where "istaskp p \<equiv> p_priority p = PPRI_TASK"
abbreviation isservp :: "proc \<Rightarrow> bool" where "isservp p \<equiv> p_priority p = PPRI_SERVER"
abbreviation isuserp :: "proc \<Rightarrow> bool" where "isuserp p \<equiv> p_priority p = PPRI_USER"

subsection \<open>Scheduling\<close>

definition pick_proc :: "kstate \<Rightarrow> kstate" where
  "pick_proc s =
     (case rdy_head s TASK_Q of
        Some rp \<Rightarrow> s\<lparr>proc_ptr := rp\<rparr>
      | None \<Rightarrow>
        (case rdy_head s SERVER_Q of
           Some rp \<Rightarrow> s\<lparr>proc_ptr := rp\<rparr>
         | None \<Rightarrow>
           (case rdy_head s USER_Q of
              Some rp \<Rightarrow> s\<lparr>proc_ptr := rp, bill_ptr := rp\<rparr>
            | None \<Rightarrow> s\<lparr>proc_ptr := IDLE, bill_ptr := IDLE\<rparr>)))"

definition ready :: "int \<Rightarrow> kstate \<Rightarrow> kstate option" where
  "ready rp s =
     (if istaskp (procs s rp) then
        do {
          s1 \<leftarrow> (if rdy_head s TASK_Q \<noteq> None
                then (case rdy_tail s TASK_Q of
                        Some t \<Rightarrow> Some (set_nextready t (Some rp) s)
                      | None \<Rightarrow> None)
                else Some ((set_head TASK_Q (Some rp) s)\<lparr>proc_ptr := rp\<rparr>));
          Some (set_nextready rp None (set_tail TASK_Q (Some rp) s1))
        }
      else if isservp (procs s rp) then
        do {
          s1 \<leftarrow> (if rdy_head s SERVER_Q \<noteq> None
                then (case rdy_tail s SERVER_Q of
                        Some t \<Rightarrow> Some (set_nextready t (Some rp) s)
                      | None \<Rightarrow> None)
                else Some (set_head SERVER_Q (Some rp) s));
          Some (set_nextready rp None (set_tail SERVER_Q (Some rp) s1))
        }
      else
        let s1 = (if rdy_head s USER_Q = None then set_tail USER_Q (Some rp) s else s);
            s2 = set_nextready rp (rdy_head s1 USER_Q) s1
        in Some (set_head USER_Q (Some rp) s2))"

text \<open>The search through the body of a queue that ends \<^verbatim>\<open>unready()\<close>.\<close>

definition unready_body :: "rdyq \<Rightarrow> int \<Rightarrow> int \<Rightarrow> kstate \<Rightarrow> kstate option" where
  "unready_body qtail xp rp s =
     do {
       r \<leftarrow> chain_pred (nextready s) xp rp;
       (case r of
          None \<Rightarrow> Some s
        | Some a \<Rightarrow>
            (let s1 = set_nextready a (p_nextready (procs s rp)) s
             in Some (if rdy_tail s1 qtail = Some rp then set_tail qtail (Some a) s1 else s1)))
     }"

definition unready :: "int \<Rightarrow> kstate \<Rightarrow> kstate option" where
  "unready rp s =
     (if istaskp (procs s rp) then
        (if p_stguard (procs s rp) \<noteq> STACK_GUARD then None
         else case rdy_head s TASK_Q of
           None \<Rightarrow> Some s
         | Some xp \<Rightarrow>
             if xp = rp then
               (let s1 = set_head TASK_Q (p_nextready (procs s xp)) s
                in Some (if rp = proc_ptr s1 then pick_proc s1 else s1))
             else unready_body TASK_Q xp rp s)
      else if isservp (procs s rp) then
        (case rdy_head s SERVER_Q of
           None \<Rightarrow> Some s
         | Some xp \<Rightarrow>
             if xp = rp then
               Some (pick_proc (set_head SERVER_Q (p_nextready (procs s xp)) s))
             else unready_body SERVER_Q xp rp s)
      else
        (case rdy_head s USER_Q of
           None \<Rightarrow> Some s
         | Some xp \<Rightarrow>
             if xp = rp then
               Some (pick_proc (set_head USER_Q (p_nextready (procs s xp)) s))
             else unready_body USER_Q xp rp s))"

definition sched :: "kstate \<Rightarrow> kstate option" where
  "sched s =
     (case rdy_head s USER_Q of
        None \<Rightarrow> Some s
      | Some h \<Rightarrow>
          (case rdy_tail s USER_Q of
             None \<Rightarrow> None
           | Some t \<Rightarrow>
               (let s1 = set_nextready t (Some h) s;
                    s2 = set_tail USER_Q (Some h) s1;
                    s3 = set_head USER_Q (p_nextready (procs s2 h)) s2
                in Some (pick_proc (set_nextready h None s3)))))"

text \<open>The safe gateways for tasks: \<^verbatim>\<open>interrupt()\<close> holds back while they run.\<close>

definition lock_pick_proc :: "kstate \<Rightarrow> kstate" where
  "lock_pick_proc s = (pick_proc (s\<lparr>switching := True\<rparr>))\<lparr>switching := False\<rparr>"

definition lock_ready :: "int \<Rightarrow> kstate \<Rightarrow> kstate option" where
  "lock_ready rp s =
     map_option (\<lambda>s'. s'\<lparr>switching := False\<rparr>) (ready rp (s\<lparr>switching := True\<rparr>))"

definition lock_unready :: "int \<Rightarrow> kstate \<Rightarrow> kstate option" where
  "lock_unready rp s =
     map_option (\<lambda>s'. s'\<lparr>switching := False\<rparr>) (unready rp (s\<lparr>switching := True\<rparr>))"

definition lock_sched :: "kstate \<Rightarrow> kstate option" where
  "lock_sched s =
     map_option (\<lambda>s'. s'\<lparr>switching := False\<rparr>) (sched (s\<lparr>switching := True\<rparr>))"

subsection \<open>The ready queues as lists\<close>

text \<open>
  \<open>rq_ok s rq\<close>: the linked queues of \<open>s\<close> hold the lists \<open>rq\<close>, the tail pointer of a nonempty
  queue is its last entry, and every entry is in the queue of its priority.
\<close>

definition class_of :: "ppri \<Rightarrow> rdyq" where
  "class_of r = (case r of PPRI_TASK \<Rightarrow> TASK_Q | PPRI_SERVER \<Rightarrow> SERVER_Q | _ \<Rightarrow> USER_Q)"

definition rq_ok :: "kstate \<Rightarrow> (rdyq \<Rightarrow> int list) \<Rightarrow> bool" where
  "rq_ok s rq \<longleftrightarrow> (\<forall>q. chain (nextready s) (rdy_head s q) (rq q)
     \<and> (rq q \<noteq> [] \<longrightarrow> rdy_tail s q = Some (last (rq q)))
     \<and> (\<forall>p \<in> set (rq q). class_of (prio s p) = q))"

text \<open>The queue after a process has been made ready: tasks and servers wait their turn, a user
  process goes to the front.\<close>

definition enlist :: "rdyq \<Rightarrow> int \<Rightarrow> int list \<Rightarrow> int list" where
  "enlist q p xs = (if q = USER_Q then p # xs else xs @ [p])"

text \<open>What the scheduler never touches: everything but the queue fields and the choice of the
  running and the billed process.\<close>

definition unqueued :: "kstate \<Rightarrow> kstate" where
  "unqueued s = s\<lparr>procs := \<lambda>n. (procs s n)\<lparr>p_nextready := None\<rparr>,
     rdy_head := \<lambda>_. None, rdy_tail := \<lambda>_. None, proc_ptr := 0, bill_ptr := 0\<rparr>"

lemma rdyq_exhaust: "q = TASK_Q \<or> q = SERVER_Q \<or> q = USER_Q"
  by (cases q) auto

lemma rq_okI [intro?]:
  "(\<And>q. chain (nextready s) (rdy_head s q) (rq q)) \<Longrightarrow>
   (\<And>q. rq q \<noteq> [] \<Longrightarrow> rdy_tail s q = Some (last (rq q))) \<Longrightarrow>
   (\<And>q p. p \<in> set (rq q) \<Longrightarrow> class_of (prio s p) = q) \<Longrightarrow> rq_ok s rq"
  by (simp add: rq_ok_def)

lemma rq_ok_chain: "rq_ok s rq \<Longrightarrow> chain (nextready s) (rdy_head s q) (rq q)"
  by (simp add: rq_ok_def)

lemma rq_ok_tail: "rq_ok s rq \<Longrightarrow> rq q \<noteq> [] \<Longrightarrow> rdy_tail s q = Some (last (rq q))"
  by (simp add: rq_ok_def)

lemma rq_ok_class: "rq_ok s rq \<Longrightarrow> p \<in> set (rq q) \<Longrightarrow> class_of (prio s p) = q"
  by (simp add: rq_ok_def)

lemma rq_ok_distinct: "rq_ok s rq \<Longrightarrow> distinct (rq q)"
  using rq_ok_chain chain_distinct by blast

lemma rq_ok_head: "rq_ok s rq \<Longrightarrow> rdy_head s q = (if rq q = [] then None else Some (hd (rq q)))"
  using rq_ok_chain chain_hd by blast

lemma rq_ok_cong:
  assumes "rq_ok s rq"
    and "nextready s' = nextready s" "rdy_head s' = rdy_head s" "rdy_tail s' = rdy_tail s"
    and "\<And>p. prio s' p = prio s p"
  shows "rq_ok s' rq"
  using assms by (simp add: rq_ok_def)

lemma nextready_upd [simp]:
  "nextready (s\<lparr>procs := (procs s)(n := (procs s n)\<lparr>p_nextready := v\<rparr>)\<rparr>) = (nextready s)(n := v)"
  by auto

text \<open>Changing one queue and the links of its own class leaves the others as they are.\<close>

lemma rq_ok_update:
  assumes ok: "rq_ok s rq"
    and ch: "chain (nextready s') (rdy_head s' q) xs"
    and tl: "xs \<noteq> [] \<Longrightarrow> rdy_tail s' q = Some (last xs)"
    and cl: "\<And>p. p \<in> set xs \<Longrightarrow> class_of (prio s p) = q"
    and pr: "\<And>p. prio s' p = prio s p"
    and hd: "\<And>r. r \<noteq> q \<Longrightarrow> rdy_head s' r = rdy_head s r"
    and tr: "\<And>r. r \<noteq> q \<Longrightarrow> rdy_tail s' r = rdy_tail s r"
    and nx: "\<And>p. class_of (prio s p) \<noteq> q \<Longrightarrow> nextready s' p = nextready s p"
  shows "rq_ok s' (rq(q := xs))"
proof
  fix r
  show "chain (nextready s') (rdy_head s' r) ((rq(q := xs)) r)"
  proof (cases "r = q")
    case True
    with ch show ?thesis by simp
  next
    case False
    have "chain (nextready s') (rdy_head s r) (rq r) \<longleftrightarrow> chain (nextready s) (rdy_head s r) (rq r)"
      by (rule chain_cong) (use ok False nx rq_ok_class in auto)
    with False hd ok rq_ok_chain show ?thesis by auto
  qed
next
  fix r
  assume "(rq(q := xs)) r \<noteq> []"
  with tl tr rq_ok_tail [OF ok] show "rdy_tail s' r = Some (last ((rq(q := xs)) r))"
    by (cases "r = q") auto
next
  fix r p
  assume "p \<in> set ((rq(q := xs)) r)"
  with cl pr rq_ok_class [OF ok] show "class_of (prio s' p) = r" by (cases "r = q") auto
qed

lemma pick_proc_frame [simp]:
  "procs (pick_proc s) = procs s" "rdy_head (pick_proc s) = rdy_head s"
  "rdy_tail (pick_proc s) = rdy_tail s" "switching (pick_proc s) = switching s"
  by (auto simp: pick_proc_def split: option.splits)

lemma pick_proc_unqueued [simp]: "unqueued (pick_proc s) = unqueued s"
  by (auto simp: pick_proc_def unqueued_def split: option.splits)

lemma pick_proc_rq_ok [simp]: "rq_ok (pick_proc s) rq \<longleftrightarrow> rq_ok s rq"
  by (simp add: rq_ok_def)

lemma unqueued_set_head [simp]: "unqueued (s\<lparr>rdy_head := h\<rparr>) = unqueued s"
  by (simp add: unqueued_def)

lemma unqueued_set_tail [simp]: "unqueued (s\<lparr>rdy_tail := h\<rparr>) = unqueued s"
  by (simp add: unqueued_def)

lemma unqueued_set_ptr [simp]: "unqueued (s\<lparr>proc_ptr := h\<rparr>) = unqueued s"
  by (simp add: unqueued_def)

lemma unqueued_set_nextready [simp]: "unqueued (set_nextready n v s) = unqueued s"
  by (simp add: unqueued_def upd_proc_def fun_eq_iff)

subsection \<open>Functional behaviour of the queue operations\<close>

lemma class_task: "istaskp p \<longleftrightarrow> class_of (p_priority p) = TASK_Q"
  by (cases "p_priority p") (auto simp: class_of_def)

lemma class_serv: "isservp p \<longleftrightarrow> class_of (p_priority p) = SERVER_Q"
  by (cases "p_priority p") (auto simp: class_of_def)

text \<open>Appending to a queue, as \<^verbatim>\<open>ready()\<close> does for tasks and servers.\<close>

lemma append_rq_ok:
  assumes ok: "rq_ok s rq" and new: "p \<notin> set (rq q)" and cl: "class_of (prio s p) = q"
    and s1: "s1 = (case rdy_tail s q of Some t \<Rightarrow> set_nextready t (Some p) s | None \<Rightarrow> s)"
    and ne: "rq q \<noteq> []"
  shows "rq_ok (set_nextready p None (set_tail q (Some p) s1)) (rq(q := rq q @ [p]))" (is "rq_ok ?t _")
proof -
  from ne ok have tl: "rdy_tail s q = Some (last (rq q))" by (simp add: rq_ok_tail)
  with s1 have s1': "s1 = set_nextready (last (rq q)) (Some p) s" by simp
  have nx: "nextready ?t = (nextready s)(last (rq q) := Some p, p := None)"
    by (auto simp: s1' upd_proc_def)
  have lastin: "last (rq q) \<in> set (rq q)" using ne by simp
  show ?thesis
  proof (rule rq_ok_update [OF ok])
    show "chain (nextready ?t) (rdy_head ?t q) (rq q @ [p])"
      using chain_snoc [OF rq_ok_chain [OF ok] ne new] unfolding nx
      by (simp add: s1' upd_proc_def)
    show "class_of (prio s x) = q" if "x \<in> set (rq q @ [p])" for x
      using that cl rq_ok_class [OF ok] by auto
    show "nextready ?t x = nextready s x" if "class_of (prio s x) \<noteq> q" for x
      using that cl rq_ok_class [OF ok lastin] by (auto simp: s1' upd_proc_def)
  qed (auto simp: s1' upd_proc_def)
qed

lemma append_first_rq_ok:
  assumes ok: "rq_ok s rq" and cl: "class_of (prio s p) = q" and e: "rq q = []"
    and s1: "procs s1 = procs s" "rdy_head s1 = (rdy_head s)(q := Some p)" "rdy_tail s1 = rdy_tail s"
  shows "rq_ok (set_nextready p None (set_tail q (Some p) s1)) (rq(q := [p]))"
  by (rule rq_ok_update [OF ok]) (use cl s1 in \<open>auto simp: upd_proc_def\<close>)

lemma push_rq_ok:
  assumes ok: "rq_ok s rq" and new: "p \<notin> set (rq USER_Q)" and cl: "class_of (prio s p) = USER_Q"
  shows "rq_ok (set_head USER_Q (Some p) (set_nextready p (rdy_head s USER_Q)
           (if rq USER_Q = [] then set_tail USER_Q (Some p) s else s)))
         (rq(USER_Q := p # rq USER_Q))" (is "rq_ok ?t _")
proof (rule rq_ok_update [OF ok])
  have nx: "nextready ?t = (nextready s)(p := rdy_head s USER_Q)" by (auto simp: upd_proc_def)
  show "chain (nextready ?t) (rdy_head ?t USER_Q) (p # rq USER_Q)"
    using chain_push [OF rq_ok_chain [OF ok] new] unfolding nx by (simp add: upd_proc_def)
  show "rdy_tail ?t USER_Q = Some (last (p # rq USER_Q))"
    using rq_ok_tail [OF ok] by (auto simp: upd_proc_def)
  show "class_of (prio s x) = USER_Q" if "x \<in> set (p # rq USER_Q)" for x
    using that cl rq_ok_class [OF ok] by auto
  show "nextready ?t x = nextready s x" if "class_of (prio s x) \<noteq> USER_Q" for x
    using that cl by (auto simp: upd_proc_def)
qed (auto simp: upd_proc_def)

lemma ready_refines:
  assumes ok: "rq_ok s rq" and q: "q = class_of (prio s p)" and new: "p \<notin> set (rq q)"
  shows "\<exists>s'. ready p s = Some s' \<and> rq_ok s' (rq(q := enlist q p (rq q)))
     \<and> unqueued s' = unqueued s"
proof (cases "q = USER_Q")
  case True
  then have "\<not> istaskp (procs s p)" "\<not> isservp (procs s p)"
    using q by (auto simp: class_task class_serv)
  moreover have "rdy_head s USER_Q = None \<longleftrightarrow> rq USER_Q = []" using rq_ok_head [OF ok] by simp
  ultimately show ?thesis
    using push_rq_ok [OF ok, of p] new q True
    by (auto simp: ready_def enlist_def Let_def)
next
  case False
  then have pr: "(q = TASK_Q \<and> istaskp (procs s p)) \<or> (q = SERVER_Q \<and> isservp (procs s p))"
    using rdyq_exhaust [of q] q by (auto simp: class_task class_serv)
  show ?thesis
  proof (cases "rq q = []")
    case True
    then have "rdy_head s q = None" using rq_ok_head [OF ok] by simp
    moreover have "rq_ok (set_nextready p None (set_tail q (Some p) s1)) (rq(q := [p]))"
      if "procs s1 = procs s" "rdy_head s1 = (rdy_head s)(q := Some p)" "rdy_tail s1 = rdy_tail s" for s1
      by (rule append_first_rq_ok [OF ok]) (use q True that in auto)
    ultimately show ?thesis using pr q False True by (auto simp: ready_def enlist_def)
  next
    case ne: False
    have tl: "rdy_tail s q = Some (last (rq q))" using rq_ok_tail [OF ok ne] .
    have hd: "rdy_head s q \<noteq> None" using rq_ok_head [OF ok] ne by simp
    have "rq_ok (set_nextready p None (set_tail q (Some p) (set_nextready (last (rq q)) (Some p) s)))
        (rq(q := rq q @ [p]))"
      by (rule append_rq_ok [OF ok new _ _ ne]) (use q tl in auto)
    with pr q False ne tl hd show ?thesis by (auto simp: ready_def enlist_def)
  qed
qed

lemma tail_pred_last: "us @ a # vs \<noteq> [] \<Longrightarrow> last (us @ a # vs) = (if vs = [] then a else last vs)"
  by auto

lemma unready_body_refines:
  assumes ok: "rq_ok s rq" and q: "q = class_of (prio s p)"
    and hd: "rdy_head s q = Some x" and ne: "x \<noteq> p"
  shows "\<exists>s'. unready_body q x p s = Some s' \<and> rq_ok s' (rq(q := remove1 p (rq q)))
     \<and> unqueued s' = unqueued s"
proof -
  from hd rq_ok_head [OF ok, of q] obtain xs where xs: "rq q = x # xs"
    by (cases "rq q") auto
  have ch: "chain (nextready s) (Some x) (x # xs)" using rq_ok_chain [OF ok, of q] hd xs by simp
  show ?thesis
  proof (cases "p \<in> set xs")
    case False
    then have "chain_pred (nextready s) x p = Some None" by (rule chain_pred_absent [OF ch])
    moreover have "rq(q := remove1 p (rq q)) = rq"
      using False ne xs by (auto simp: fun_eq_iff remove1_idem)
    ultimately show ?thesis using ok by (auto simp: unready_body_def)
  next
    case True
    then obtain us a vs where sp: "x # xs = us @ a # p # vs" using split_before by fast
    have cp: "chain_pred (nextready s) x p = Some (Some a)"
      using chain_pred_found ch unfolding sp by fast
    have d: "distinct (us @ a # p # vs)" using rq_ok_distinct [OF ok, of q] xs sp by simp
    have rm: "remove1 p (rq q) = us @ a # vs" using remove1_before [OF d] xs sp by simp
    have cl: "class_of (prio s y) = q" if "y \<in> set (us @ a # p # vs)" for y
      using rq_ok_class [OF ok, of y q] that xs sp by simp
    let ?s1 = "set_nextready a (nextready s p) s"
    let ?t = "if rdy_tail ?s1 q = Some p then set_tail q (Some a) ?s1 else ?s1"
    have nx: "nextready ?t = (nextready s)(a := nextready s p)" by (auto simp: upd_proc_def)
    have tl: "rdy_tail s q = Some (last (us @ a # p # vs))"
      using rq_ok_tail [OF ok, of q] xs sp by simp
    have ot: "rq_ok ?t (rq(q := us @ a # vs))"
    proof (rule rq_ok_update [OF ok])
      show "chain (nextready ?t) (rdy_head ?t q) (us @ a # vs)"
        using chain_unlink [of "nextready s" "rdy_head s q" us a p vs] ch hd sp
        unfolding nx by (simp add: upd_proc_def)
      show "rdy_tail ?t q = Some (last (us @ a # vs))"
        using tl d by (cases "vs = []") (auto simp: upd_proc_def last_in_set)
      show "class_of (prio s y) = q" if "y \<in> set (us @ a # vs)" for y
        using that cl by auto
      show "nextready ?t y = nextready s y" if "class_of (prio s y) \<noteq> q" for y
        using that cl [of a] by (auto simp: upd_proc_def)
    qed (auto simp: upd_proc_def)
    then show ?thesis by (auto simp: unready_body_def cp Let_def rm)
  qed
qed

lemma drop_head_rq_ok:
  assumes ok: "rq_ok s rq" and xs: "rq q = p # xs"
  shows "rq_ok (set_head q (nextready s p) s) (rq(q := xs))"
proof (rule rq_ok_update [OF ok])
  show "chain (nextready (set_head q (nextready s p) s)) (rdy_head (set_head q (nextready s p) s) q) xs"
    using rq_ok_chain [OF ok, of q] xs by simp
  show "rdy_tail (set_head q (nextready s p) s) q = Some (last xs)" if "xs \<noteq> []"
    using rq_ok_tail [OF ok, of q] xs that by simp
  show "class_of (prio s y) = q" if "y \<in> set xs" for y
    using rq_ok_class [OF ok, of y q] that xs by simp
qed auto

text \<open>
  Taking a process off its queue removes it wherever it is, and leaves everything else alone;
  the only failure is a task whose stack guard has been overwritten.
\<close>

lemma unready_refines:
  assumes ok: "rq_ok s rq" and q: "q = class_of (prio s p)"
    and guard: "istaskp (procs s p) \<Longrightarrow> p_stguard (procs s p) = STACK_GUARD"
  shows "\<exists>s'. unready p s = Some s' \<and> rq_ok s' (rq(q := remove1 p (rq q)))
     \<and> unqueued s' = unqueued s"
proof (cases "rdy_head s q")
  case None
  then have "rq q = []" using rq_ok_head [OF ok, of q] by (auto split: if_splits)
  then have "rq(q := remove1 p (rq q)) = rq" by (auto simp: fun_eq_iff)
  with None q guard ok show ?thesis
    using rdyq_exhaust [of q] by (auto simp: unready_def class_task class_serv)
next
  case (Some x)
  show ?thesis
  proof (cases "x = p")
    case True
    then obtain xs where xs: "rq q = p # xs"
      using rq_ok_head [OF ok, of q] Some by (cases "rq q") auto
    with drop_head_rq_ok [OF ok xs] Some True q guard show ?thesis
      using rdyq_exhaust [of q] by (auto simp: unready_def class_task class_serv Let_def)
  next
    case False
    with unready_body_refines [OF ok q Some False] Some q guard show ?thesis
      using rdyq_exhaust [of q] by (auto simp: unready_def class_task class_serv)
  qed
qed

text \<open>Round robin among the users: the first one goes to the back.\<close>

lemma sched_refines:
  assumes ok: "rq_ok s rq"
  shows "\<exists>s'. sched s = Some s' \<and> unqueued s' = unqueued s
     \<and> rq_ok s' (rq(USER_Q := (case rq USER_Q of [] \<Rightarrow> [] | x # xs \<Rightarrow> xs @ [x])))"
proof (cases "rq USER_Q")
  case Nil
  then have "rq(USER_Q := []) = rq" by (auto simp: fun_eq_iff)
  with Nil ok rq_ok_head [OF ok, of USER_Q] show ?thesis by (simp add: sched_def)
next
  case (Cons x xs)
  have hd: "rdy_head s USER_Q = Some x" using rq_ok_head [OF ok, of USER_Q] Cons by simp
  have tl: "rdy_tail s USER_Q = Some (last (x # xs))" using rq_ok_tail [OF ok, of USER_Q] Cons by simp
  have ch: "chain (nextready s) (Some x) (x # xs)" using rq_ok_chain [OF ok, of USER_Q] hd Cons by simp
  have d: "distinct (x # xs)" using ch by (rule chain_distinct)
  define t where "t = last (x # xs)"
  define s' where "s' = pick_proc (set_nextready x None (set_head USER_Q
      (nextready (set_tail USER_Q (Some x) (set_nextready t (Some x) s)) x)
      (set_tail USER_Q (Some x) (set_nextready t (Some x) s))))"
  have r: "sched s = Some s'" using hd tl by (simp add: sched_def s'_def t_def Let_def)
  have cl: "class_of (prio s y) = USER_Q" if "y \<in> set (x # xs)" for y
    using rq_ok_class [OF ok, of y USER_Q] that Cons by simp
  have "rq_ok s' (rq(USER_Q := xs @ [x]))"
  proof (rule rq_ok_update [OF ok])
    show "chain (nextready s') (rdy_head s' USER_Q) (xs @ [x])"
    proof (cases "xs = []")
      case True
      then show ?thesis by (auto simp: s'_def t_def upd_proc_def)
    next
      case False
      then have tx: "t \<noteq> x" "t = last xs" using d by (auto simp: t_def)
      have "chain (nextready s) (nextready s x) xs" using ch by simp
      then have "chain ((nextready s)(last xs := Some x, x := None)) (nextready s x) (xs @ [x])"
        using False d by (intro chain_snoc) auto
      moreover have "nextready s' = (nextready s)(last xs := Some x, x := None)"
        using tx by (auto simp: s'_def upd_proc_def fun_eq_iff)
      moreover have "rdy_head s' USER_Q = nextready s x" using tx by (simp add: s'_def upd_proc_def)
      ultimately show ?thesis by simp
    qed
    show "class_of (prio s y) = USER_Q" if "y \<in> set (xs @ [x])" for y
      using that cl by auto
    show "nextready s' y = nextready s y" if "class_of (prio s y) \<noteq> USER_Q" for y
      using that cl [of t] cl [of x] by (auto simp: s'_def upd_proc_def t_def)
  qed (auto simp: s'_def upd_proc_def)
  moreover have "unqueued s' = unqueued s" by (simp add: s'_def)
  ultimately show ?thesis using r Cons by simp
qed

text \<open>Strict priorities: the head of the first nonempty queue runs, users are billed.\<close>

lemma pick_proc_choice:
  assumes "rq_ok s rq"
  shows "proc_ptr (pick_proc s) = hd (rq TASK_Q @ rq SERVER_Q @ rq USER_Q @ [IDLE])"
    and "bill_ptr (pick_proc s) = (if rq TASK_Q = [] \<and> rq SERVER_Q = [] then hd (rq USER_Q @ [IDLE])
           else bill_ptr s)"
  using rq_ok_head [OF assms, of TASK_Q] rq_ok_head [OF assms, of SERVER_Q]
    rq_ok_head [OF assms, of USER_Q]
  by (auto simp: pick_proc_def hd_append)

subsection \<open>The contract the message code relies on\<close>

text \<open>
  Blocking and unblocking see the ready queues only through this interface: which processes are
  queued, and that nothing else of the state changes.
\<close>

locale ready_queues =
  fixes ok :: "'s \<Rightarrow> ('q \<Rightarrow> 'p list) \<Rightarrow> bool"
    and cls :: "'s \<Rightarrow> 'p \<Rightarrow> 'q"
    and rdy :: "'p \<Rightarrow> 's \<Rightarrow> 's option"
    and unrdy :: "'p \<Rightarrow> 's \<Rightarrow> 's option"
    and guard :: "'s \<Rightarrow> 'p \<Rightarrow> bool"
    and rest :: "'s \<Rightarrow> 'r"
    and ins :: "'q \<Rightarrow> 'p \<Rightarrow> 'p list \<Rightarrow> 'p list"
  assumes rdy_law: "ok s rq \<Longrightarrow> p \<notin> set (rq (cls s p)) \<Longrightarrow>
      \<exists>s'. rdy p s = Some s' \<and> ok s' (rq(cls s p := ins (cls s p) p (rq (cls s p)))) \<and> rest s' = rest s"
    and unrdy_law: "ok s rq \<Longrightarrow> guard s p \<Longrightarrow>
      \<exists>s'. unrdy p s = Some s' \<and> ok s' (rq(cls s p := remove1 p (rq (cls s p)))) \<and> rest s' = rest s"
    and ins_set: "set (ins q p xs) = insert p (set xs)"
    and ok_distinct: "ok s rq \<Longrightarrow> distinct (rq q)"
    and ok_cls: "ok s rq \<Longrightarrow> p \<in> set (rq q) \<Longrightarrow> cls s p = q"
begin

definition queued :: "('q \<Rightarrow> 'p list) \<Rightarrow> 'p set" where
  "queued rq = (\<Union>q. set (rq q))"

lemma queued_cls: "ok s rq \<Longrightarrow> p \<in> queued rq \<longleftrightarrow> p \<in> set (rq (cls s p))"
  unfolding queued_def using ok_cls by blast

lemma rdy_set:
  assumes "ok s rq" "p \<notin> queued rq"
  shows "\<exists>s' rq'. rdy p s = Some s' \<and> ok s' rq' \<and> rest s' = rest s \<and> queued rq' = insert p (queued rq)"
proof -
  have n: "p \<notin> set (rq (cls s p))" using assms by (auto simp: queued_def)
  have "queued (rq(cls s p := ins (cls s p) p (rq (cls s p)))) = insert p (queued rq)"
    by (auto simp: queued_def ins_set split: if_splits)
  with rdy_law [OF assms(1) n] show ?thesis by blast
qed

lemma unrdy_set:
  assumes "ok s rq" "guard s p"
  shows "\<exists>s' rq'. unrdy p s = Some s' \<and> ok s' rq' \<and> rest s' = rest s \<and> queued rq' = queued rq - {p}"
proof -
  have "queued (rq(cls s p := remove1 p (rq (cls s p)))) = queued rq - {p}"
    using assms ok_distinct ok_cls unfolding queued_def by (auto split: if_splits)
  with unrdy_law [OF assms] show ?thesis by blast
qed

end

definition guard_ok :: "kstate \<Rightarrow> int \<Rightarrow> bool" where
  "guard_ok s p \<longleftrightarrow> (istaskp (procs s p) \<longrightarrow> p_stguard (procs s p) = STACK_GUARD)"

interpretation rqs: ready_queues rq_ok "\<lambda>s p. class_of (prio s p)" ready unready guard_ok unqueued enlist
proof
  show "\<exists>s'. ready p s = Some s' \<and> rq_ok s' (rq(class_of (prio s p) :=
      enlist (class_of (prio s p)) p (rq (class_of (prio s p))))) \<and> unqueued s' = unqueued s"
    if "rq_ok s rq" "p \<notin> set (rq (class_of (prio s p)))" for s rq p
    using ready_refines that by simp
  show "\<exists>s'. unready p s = Some s' \<and> rq_ok s' (rq(class_of (prio s p) :=
      remove1 p (rq (class_of (prio s p))))) \<and> unqueued s' = unqueued s"
    if "rq_ok s rq" "guard_ok s p" for s rq p
    using unready_refines that by (simp add: guard_ok_def)
qed (auto simp: enlist_def rq_ok_distinct rq_ok_class)

end
