(* ===== verification/Kernel_IPC.thy ===== *)
theory Kernel_IPC
  imports Kernel_Sched
begin

text \<open>
  Message passing and interrupts: \<^verbatim>\<open>mini_send\<close>, \<^verbatim>\<open>mini_rec\<close>,
  \<^verbatim>\<open>sys_call\<close>, \<^verbatim>\<open>interrupt\<close> and \<^verbatim>\<open>unhold\<close> of
  \<^verbatim>\<open>src/kernel/proc.c\<close>; \<^verbatim>\<open>cp_mess\<close> of
  \<^verbatim>\<open>src/kernel/klib386.s\<close>; and the part of \<^verbatim>\<open>src/kernel/system.c\<close> that
  takes part in it: \<^verbatim>\<open>inform\<close>, \<^verbatim>\<open>cause_sig\<close>,
  \<^verbatim>\<open>do_kill\<close>, \<^verbatim>\<open>do_endsig\<close>, \<^verbatim>\<open>do_xit\<close> and the
  address translation \<^verbatim>\<open>umap\<close>.
\<close>

subsection \<open>Copying a message\<close>

abbreviation SEND :: int where "SEND \<equiv> 1"
abbreviation RECEIVE :: int where "RECEIVE \<equiv> 2"
abbreviation BOTH :: int where "BOTH \<equiv> 3"
abbreviation HARD_INT :: u32 where "HARD_INT \<equiv> 2"
abbreviation KSIG :: u32 where "KSIG \<equiv> 64"
abbreviation MESS_SIZE :: u32 where "MESS_SIZE \<equiv> 36"

definition cp_mess :: "int \<Rightarrow> u32 \<Rightarrow> u32 \<Rightarrow> u32 \<Rightarrow> u32 \<Rightarrow> memory \<Rightarrow> memory" where
  "cp_mess src src_clicks src_offset dst_clicks dst_offset m =
     (let esi = push_bit CLICK_SHIFT src_clicks + src_offset;
          edi = push_bit CLICK_SHIFT dst_clicks + dst_offset
      in fold (\<lambda>i. movs32 (esi + 4 + 4 * of_nat i) (edi + 4 + 4 * of_nat i)) [0..<8]
           (put32 m edi (word_of_int src)))"

text \<open>The macro \<^verbatim>\<open>CopyMess\<close>.\<close>

definition copy_mess :: "int \<Rightarrow> u32 \<Rightarrow> int \<Rightarrow> u32 \<Rightarrow> kstate \<Rightarrow> kstate" where
  "copy_mess sp sm dp dm s =
     s\<lparr>kmem := cp_mess sp (mem_phys (p_map (procs s sp) SegD)) sm
                          (mem_phys (p_map (procs s dp) SegD)) dm (kmem s)\<rparr>"

text \<open>A store through a pointer of the kernel's own data space (\<^verbatim>\<open>vir2phys\<close>).\<close>

definition kstore :: "u32 \<Rightarrow> u32 \<Rightarrow> kstate \<Rightarrow> kstate" where
  "kstore vir v s = s\<lparr>kmem := put32 (kmem s) (data_base s + vir) v\<rparr>"

definition hard_int_mess :: "u32 \<Rightarrow> kstate \<Rightarrow> kstate" where
  "hard_int_mess m s = kstore (m + 4) HARD_INT (kstore m (word_of_int HARDWARE) s)"

subsection \<open>Sending\<close>

text \<open>The bounds check on the message buffer (\<^verbatim>\<open>ALLOW_GAP_MESSAGES\<close>).\<close>

definition mess_in_range :: "proc \<Rightarrow> u32 \<Rightarrow> bool" where
  "mess_in_range p vb =
     (let vlo = drop_bit CLICK_SHIFT vb; vhi = drop_bit CLICK_SHIFT (vb + MESS_SIZE - 1)
      in \<not> (vlo < mem_vir (p_map p SegD) \<or> vlo > vhi
            \<or> vhi \<ge> mem_vir (p_map p SegS) + mem_len (p_map p SegS)))"

text \<open>The deadlock search \<^verbatim>\<open>while (TRUE)\<close>: does the chain of senders come to the caller?\<close>

partial_function (option) send_chain :: "(int \<Rightarrow> proc) \<Rightarrow> int \<Rightarrow> int \<Rightarrow> bool option" where
  "send_chain tab caller next_ptr =
     (if next_ptr = caller then Some True
      else if SENDING \<in> p_flags (tab next_ptr)
           then send_chain tab caller (p_sendto (tab next_ptr))
           else Some False)"

text \<open>The caller goes to the end of the destination's queue of senders.\<close>

definition enqueue_sender :: "int \<Rightarrow> int \<Rightarrow> kstate \<Rightarrow> kstate option" where
  "enqueue_sender caller dest s =
     do {
       s1 \<leftarrow> (case p_callerq (procs s dest) of
               None \<Rightarrow> Some (upd_proc dest (\<lambda>p. p\<lparr>p_callerq := Some caller\<rparr>) s)
             | Some q \<Rightarrow> do {
                 l \<leftarrow> chain_last (sendlink s) q;
                 Some (set_sendlink l (Some caller) s)
               });
       Some (set_sendlink caller None s1)
     }"

text \<open>The branch of \<^verbatim>\<open>mini_send()\<close> that delivers.\<close>

definition send_deliver :: "int \<Rightarrow> int \<Rightarrow> u32 \<Rightarrow> kstate \<Rightarrow> kstate option" where
  "send_deliver caller dest m s =
     (let s2 = upd_proc dest (\<lambda>p. p\<lparr>p_flags := p_flags p - {RECEIVING}\<rparr>)
                 (copy_mess caller m dest (p_messbuf (procs s dest)) s)
      in if flags s2 dest = {} then ready dest s2 else Some s2)"

text \<open>The branch that blocks and queues the caller.\<close>

definition send_queue :: "int \<Rightarrow> int \<Rightarrow> u32 \<Rightarrow> kstate \<Rightarrow> kstate option" where
  "send_queue caller dest m s =
     do {
       let s1 = upd_proc caller (\<lambda>p. p\<lparr>p_messbuf := m\<rparr>) s;
       s2 \<leftarrow> (if flags s1 caller = {} then unready caller s1 else Some s1);
       enqueue_sender caller dest
         (upd_proc caller (\<lambda>p. p\<lparr>p_flags := insert SENDING (p_flags p), p_sendto := dest\<rparr>) s2)
     }"

definition mini_send :: "int \<Rightarrow> int \<Rightarrow> u32 \<Rightarrow> kstate \<Rightarrow> (int \<times> kstate) option" where
  "mini_send caller dest m_ptr s =
     (if isuserp (procs s caller) \<and> \<not> issysentn dest then Some (E_BAD_DEST, s)
      else if \<not> isokprocn dest then None
      else if isemptyp (procs s dest) then Some (E_BAD_DEST, s)
      else if \<not> mess_in_range (procs s caller) m_ptr then Some (EFAULT, s)
      else do {
        locked \<leftarrow> (if SENDING \<in> flags s dest
                  then send_chain (procs s) caller (p_sendto (procs s dest))
                  else Some False);
        if locked then Some (ELOCKED, s)
        else if RECEIVING \<in> flags s dest \<and> SENDING \<notin> flags s dest
                \<and> (p_getfrom (procs s dest) = ANY \<or> p_getfrom (procs s dest) = caller)
        then map_option (Pair OK) (send_deliver caller dest m_ptr s)
        else map_option (Pair OK) (send_queue caller dest m_ptr s)
      })"

definition lock_mini_send :: "int \<Rightarrow> int \<Rightarrow> u32 \<Rightarrow> kstate \<Rightarrow> (int \<times> kstate) option" where
  "lock_mini_send caller dest m_ptr s =
     map_option (\<lambda>(r, s'). (r, s'\<lparr>switching := False\<rparr>))
       (mini_send caller dest m_ptr (s\<lparr>switching := True\<rparr>))"

subsection \<open>Telling the memory manager about signals\<close>

text \<open>The first process at or above slot 0 with the PENDING flag.\<close>

definition first_pending :: "kstate \<Rightarrow> int option" where
  "first_pending s = find (\<lambda>n. PENDING \<in> flags s n) [0..31]"

definition inform :: "kstate \<Rightarrow> kstate option" where
  "inform s =
     (case first_pending s of
        None \<Rightarrow> Some s
      | Some rp \<Rightarrow> do {
          let s1 = kstore (sys_m s + 4) KSIG s;
          let s2 = kstore (sys_m s + 8) (word_of_int rp) s1;
          let s3 = kstore (sys_m s + 20) (p_pending (procs s2 rp)) s2;
          let s4 = s3\<lparr>sig_procs := sig_procs s3 - 1\<rparr>;
          (r, s5) \<leftarrow> lock_mini_send HARDWARE MM_PROC_NR (sys_m s) s4;
          if r \<noteq> OK then None
          else Some (lock_pick_proc
                 (upd_proc rp (\<lambda>p. p\<lparr>p_pending := 0, p_flags := p_flags p - {PENDING}\<rparr>) s5))
        })"

definition cause_sig :: "int \<Rightarrow> int \<Rightarrow> kstate \<Rightarrow> kstate option" where
  "cause_sig proc_nr sig_nr s =
     (if \<not> isokprocn proc_nr then None
      else if sigismember (p_pending (procs s proc_nr)) sig_nr \<noteq> 0 then Some s
      else let s1 = upd_proc proc_nr (\<lambda>p. p\<lparr>p_pending := sigaddset (p_pending p) sig_nr,
                        p_pendcount := p_pendcount p + 1\<rparr>) s
      in if PENDING \<in> flags s1 proc_nr then Some s1
      else do {
        s2 \<leftarrow> (if flags s1 proc_nr = {} then lock_unready proc_nr s1 else Some s1);
        let s3 = upd_proc proc_nr (\<lambda>p. p\<lparr>p_flags := p_flags p \<union> {PENDING, SIG_PENDING}\<rparr>) s2;
        let s4 = s3\<lparr>sig_procs := sig_procs s3 + 1\<rparr>;
        if RECEIVING \<notin> flags s4 MM_PROC_NR \<or> p_getfrom (procs s4 MM_PROC_NR) \<noteq> ANY then Some s4
        else inform s4
      })"

definition do_kill :: "int \<Rightarrow> int \<Rightarrow> kstate \<Rightarrow> (int \<times> kstate) option" where
  "do_kill pr signum s =
     (if \<not> isokprocn pr \<or> \<not> isuserp (procs s pr) then None
      else map_option (\<lambda>s'. (OK, s')) (cause_sig pr signum s))"

abbreviation E_BAD_PROC :: int where "E_BAD_PROC \<equiv> -1011"

definition do_endsig :: "int \<Rightarrow> kstate \<Rightarrow> (int \<times> kstate) option" where
  "do_endsig proc1 s =
     (if \<not> isokprocn proc1 then None
      else if isemptyp (procs s proc1) then Some (E_BAD_PROC, s)
      else if \<not> isuserp (procs s proc1) then None
      else if p_pendcount (procs s proc1) = 0 then Some (OK, s)
      else let s1 = upd_proc proc1 (\<lambda>p. p\<lparr>p_pendcount := p_pendcount p - 1\<rparr>) s
      in if p_pendcount (procs s1 proc1) \<noteq> 0 then Some (OK, s1)
      else let s2 = upd_proc proc1 (\<lambda>p. p\<lparr>p_flags := p_flags p - {SIG_PENDING}\<rparr>) s1
      in if flags s2 proc1 = {} then map_option (\<lambda>s'. (OK, s')) (lock_ready proc1 s2)
         else Some (OK, s2))"

subsection \<open>Receiving\<close>

text \<open>
  The \<^verbatim>\<open>for\<close> loop over the caller queue: the first acceptable sender, with the
  sender looked at before it.
\<close>

partial_function (option) find_sender ::
    "(int \<Rightarrow> int option) \<Rightarrow> int \<Rightarrow> int option \<Rightarrow> int \<Rightarrow> (int option \<times> int) option option" where
  "find_sender link src previous sender =
     (if src = ANY \<or> src = sender then Some (Some (previous, sender))
      else case link sender of
             None \<Rightarrow> Some None
           | Some c \<Rightarrow> find_sender link src (Some sender) c)"

definition unlink_sender :: "int \<Rightarrow> int option \<Rightarrow> int \<Rightarrow> kstate \<Rightarrow> kstate option" where
  "unlink_sender caller previous sender s =
     (if p_callerq (procs s caller) = Some sender
      then Some (upd_proc caller (\<lambda>p. p\<lparr>p_callerq := p_sendlink (procs s sender)\<rparr>) s)
      else case previous of
             None \<Rightarrow> None
           | Some a \<Rightarrow> Some (set_sendlink a (p_sendlink (procs s sender)) s))"

text \<open>An acceptable message has been found: copy it, unlink the sender and deblock it.\<close>

definition rec_accept :: "int \<Rightarrow> u32 \<Rightarrow> int option \<Rightarrow> int \<Rightarrow> kstate \<Rightarrow> (int \<times> kstate) option" where
  "rec_accept caller m_ptr previous sender s =
     do {
       let s1 = copy_mess sender (p_messbuf (procs s sender)) caller m_ptr s;
       s2 \<leftarrow> unlink_sender caller previous sender s1;
       let s3 = upd_proc sender (\<lambda>p. p\<lparr>p_flags := p_flags p - {SENDING}\<rparr>) s2;
       s4 \<leftarrow> (if flags s3 sender = {} then ready sender s3 else Some s3);
       Some (OK, s4)
     }"

text \<open>No suitable message is available: block the caller, and let MM hear of pending signals.\<close>

definition rec_block :: "int \<Rightarrow> int \<Rightarrow> u32 \<Rightarrow> kstate \<Rightarrow> (int \<times> kstate) option" where
  "rec_block caller src m_ptr s =
     do {
       let s1 = upd_proc caller (\<lambda>p. p\<lparr>p_getfrom := src, p_messbuf := m_ptr\<rparr>) s;
       s2 \<leftarrow> (if flags s1 caller = {} then unready caller s1 else Some s1);
       let s3 = upd_proc caller (\<lambda>p. p\<lparr>p_flags := insert RECEIVING (p_flags p)\<rparr>) s2;
       s4 \<leftarrow> (if sig_procs s3 > 0 \<and> caller = MM_PROC_NR \<and> src = ANY then inform s3 else Some s3);
       Some (OK, s4)
     }"

definition mini_rec :: "int \<Rightarrow> int \<Rightarrow> u32 \<Rightarrow> kstate \<Rightarrow> (int \<times> kstate) option" where
  "mini_rec caller src m_ptr s =
     do {
       found \<leftarrow> (if SENDING \<notin> flags s caller
                then (case p_callerq (procs s caller) of
                        None \<Rightarrow> Some None
                      | Some q \<Rightarrow> find_sender (sendlink s) src None q)
                else Some None);
       case found of
         Some (previous, sender) \<Rightarrow> rec_accept caller m_ptr previous sender s
       | None \<Rightarrow>
           if SENDING \<notin> flags s caller \<and> p_int_blocked (procs s caller) \<and> isrxhardware src
           then Some (OK, upd_proc caller (\<lambda>p. p\<lparr>p_int_blocked := False\<rparr>) (hard_int_mess m_ptr s))
           else rec_block caller src m_ptr s
     }"

definition sys_call :: "int \<Rightarrow> int \<Rightarrow> u32 \<Rightarrow> kstate \<Rightarrow> (int \<times> kstate) option" where
  "sys_call function src_dest m_ptr s =
     (if \<not> isoksrc_dest src_dest then Some (E_BAD_DEST, s)
      else let rp = proc_ptr s
      in if isuserp (procs s rp) \<and> function \<noteq> BOTH then Some (E_NO_PERM, s)
      else if function AND SEND \<noteq> 0 then
        do {
          (n, s1) \<leftarrow> mini_send rp src_dest m_ptr s;
          if function = SEND \<or> n \<noteq> OK then Some (n, s1) else mini_rec rp src_dest m_ptr s1
        }
      else mini_rec rp src_dest m_ptr s)"

subsection \<open>Interrupts\<close>

text \<open>Putting a task on the queue of held-up interrupts.\<close>

definition hold :: "int \<Rightarrow> kstate \<Rightarrow> kstate option" where
  "hold rp s =
     (if p_int_held (procs s rp) then Some s
      else do {
        let s1 = upd_proc rp (\<lambda>p. p\<lparr>p_int_held := True\<rparr>) s;
        s2 \<leftarrow> (if held_head s1 \<noteq> None
              then (case held_tail s1 of
                      None \<Rightarrow> None
                    | Some t \<Rightarrow> Some (upd_proc t (\<lambda>p. p\<lparr>p_nextheld := Some rp\<rparr>) s1))
              else Some (s1\<lparr>held_head := Some rp\<rparr>));
        Some (upd_proc rp (\<lambda>p. p\<lparr>p_nextheld := None\<rparr>) (s2\<lparr>held_tail := Some rp\<rparr>))
      })"

definition interrupt :: "int \<Rightarrow> kstate \<Rightarrow> kstate option" where
  "interrupt task s =
     (if k_reenter s \<noteq> 0 \<or> switching s then hold task s
      else let s0 = s\<lparr>switching := True\<rparr>
      in if \<not> (RECEIVING \<in> flags s0 task \<and> SENDING \<notin> flags s0 task)
            \<or> \<not> isrxhardware (p_getfrom (procs s0 task))
      then Some ((upd_proc task (\<lambda>p. p\<lparr>p_int_blocked := True\<rparr>) s0)\<lparr>switching := False\<rparr>)
      else do {
        let s1 = hard_int_mess (p_messbuf (procs s0 task)) s0;
        let s2 = upd_proc task (\<lambda>p. p\<lparr>p_flags := p_flags p - {RECEIVING}, p_int_blocked := False\<rparr>) s1;
        s3 \<leftarrow> ready task s2;
        Some (s3\<lparr>switching := False\<rparr>)
      })"

text \<open>
  \<^verbatim>\<open>unhold()\<close>.  Interrupts are enabled while a held one is delivered; those that arrive in
  the window nest (\<^verbatim>\<open>k_reenter > 0\<close>) and are held.  They are the environment's choice:
  \<open>irqs\<close> lists, round by round, the tasks interrupted in the window.
\<close>

fun hold_all :: "int list \<Rightarrow> kstate \<Rightarrow> kstate option" where
  "hold_all [] s = Some s"
| "hold_all (t # ts) s = do { s1 \<leftarrow> hold t s; hold_all ts s1 }"

definition unhold_round :: "int list \<Rightarrow> int \<Rightarrow> kstate \<Rightarrow> kstate option" where
  "unhold_round ts rp s =
     do {
       let s1 = s\<lparr>held_head := p_nextheld (procs s rp)\<rparr>;
       let s2 = (if held_head s1 = None then s1\<lparr>held_tail := None\<rparr> else s1);
       let s3 = upd_proc rp (\<lambda>p. p\<lparr>p_int_held := False\<rparr>) s2;
       s4 \<leftarrow> interrupt rp s3;
       hold_all ts s4
     }"

partial_function (option) unhold_loop :: "int list list \<Rightarrow> int \<Rightarrow> kstate \<Rightarrow> kstate option" where
  "unhold_loop irqs rp s =
     do {
       s1 \<leftarrow> unhold_round (case irqs of [] \<Rightarrow> [] | ts # _ \<Rightarrow> ts) rp s;
       case held_head s1 of
         None \<Rightarrow> Some s1
       | Some rp' \<Rightarrow> unhold_loop (case irqs of [] \<Rightarrow> [] | _ # r \<Rightarrow> r) rp' s1
     }"

definition unhold :: "int list list \<Rightarrow> kstate \<Rightarrow> kstate option" where
  "unhold irqs s =
     (if switching s then Some s
      else case held_head s of None \<Rightarrow> None | Some rp \<Rightarrow> unhold_loop irqs rp s)"

subsection \<open>Address translation\<close>

definition umap :: "proc \<Rightarrow> seg \<Rightarrow> u32 \<Rightarrow> u32 \<Rightarrow> u32" where
  "umap rp seg vir_addr bytes =
     (if bytes = 0 then 0
      else let vc = drop_bit CLICK_SHIFT (vir_addr + bytes - 1);
               seg' = (if seg \<noteq> SegT
                       then (if vc < mem_vir (p_map rp SegD) + mem_len (p_map rp SegD) then SegD else SegS)
                       else seg)
      in if drop_bit CLICK_SHIFT vir_addr \<ge> mem_vir (p_map rp seg') + mem_len (p_map rp seg') then 0
      else push_bit CLICK_SHIFT (mem_phys (p_map rp seg'))
             + (vir_addr - push_bit CLICK_SHIFT (mem_vir (p_map rp seg'))))"

definition numap :: "int \<Rightarrow> u32 \<Rightarrow> u32 \<Rightarrow> kstate \<Rightarrow> u32 option" where
  "numap proc_nr vir_addr bytes s =
     (if \<not> isokprocn proc_nr then None else Some (umap (procs s proc_nr) SegD vir_addr bytes))"

text \<open>\<^verbatim>\<open>phys_copy\<close>: a forward copy of bytes.\<close>

fun phys_copy :: "nat \<Rightarrow> u32 \<Rightarrow> u32 \<Rightarrow> memory \<Rightarrow> memory" where
  "phys_copy 0 src dst m = m"
| "phys_copy (Suc n) src dst m = phys_copy n (src + 1) (dst + 1) (m(dst := m src))"

definition vir_copy :: "int \<Rightarrow> u32 \<Rightarrow> int \<Rightarrow> u32 \<Rightarrow> u32 \<Rightarrow> kstate \<Rightarrow> (int \<times> kstate) option" where
  "vir_copy src_proc src_vir dst_proc dst_vir bytes s =
     do {
       src_phys \<leftarrow> numap src_proc src_vir bytes s;
       dst_phys \<leftarrow> numap dst_proc dst_vir bytes s;
       if src_phys = 0 \<or> dst_phys = 0 then Some (EFAULT, s)
       else Some (OK, s\<lparr>kmem := phys_copy (unat bytes) src_phys dst_phys (kmem s)\<rparr>)
     }"

subsection \<open>A process exits\<close>

text \<open>
  \<^verbatim>\<open>cancel_alarm\<close> and \<^verbatim>\<open>tmr_clrtimer\<close> of
  \<^verbatim>\<open>src/kernel/clock.c\<close>: the timer leaves the list of active timers, or else its
  task's list of expired ones.
\<close>

definition unlink_timer :: "nat \<Rightarrow> nat option \<Rightarrow> kstate \<Rightarrow> (nat option \<times> kstate) option option" where
  "unlink_timer tp head s =
     (case head of
        None \<Rightarrow> Some None
      | Some h \<Rightarrow>
          if h = tp then Some (Some (tmr_next (tmr s tp), s))
          else do {
            r \<leftarrow> chain_pred (\<lambda>t. tmr_next (tmr s t)) h tp;
            Some (map_option (\<lambda>a. (head, s\<lparr>tmr := (tmr s)(a := (tmr s a)\<lparr>tmr_next := tmr_next (tmr s tp)\<rparr>)\<rparr>)) r)
          })"

definition tmr_clrtimer :: "nat \<Rightarrow> kstate \<Rightarrow> kstate option" where
  "tmr_clrtimer tp s0 =
     do {
       let s = s0\<lparr>tmr := (tmr s0)(tp := (tmr s0 tp)\<lparr>tmr_exp_time := 2147483647\<rparr>)\<rparr>;
       r \<leftarrow> unlink_timer tp (timers s) s;
       (case r of
          Some (h, s1) \<Rightarrow> Some (s1\<lparr>timers := h\<rparr>)
        | None \<Rightarrow> do {
            let p = tmr_task (tmr s tp);
            r2 \<leftarrow> (if isokprocn p then unlink_timer tp (p_exptimers (procs s p)) s else None);
            Some (case r2 of
                    Some (h, s1) \<Rightarrow> upd_proc p (\<lambda>q. q\<lparr>p_exptimers := h\<rparr>) s1
                  | None \<Rightarrow> s)
          })
     }"

definition cancel_alarm :: "int \<Rightarrow> kstate \<Rightarrow> kstate option" where
  "cancel_alarm proc_nr s = tmr_clrtimer (nat proc_nr) s"

text \<open>The scan over all slots that takes an exiting sender off the queue it is on.\<close>

fun xit_unqueue :: "int list \<Rightarrow> int \<Rightarrow> kstate \<Rightarrow> kstate option" where
  "xit_unqueue [] rc s = Some s"
| "xit_unqueue (rp # rps) rc s =
     (case p_callerq (procs s rp) of
        None \<Rightarrow> xit_unqueue rps rc s
      | Some h \<Rightarrow>
          if h = rc then Some (upd_proc rp (\<lambda>p. p\<lparr>p_callerq := p_sendlink (procs s rc)\<rparr>) s)
          else do {
            r \<leftarrow> chain_pred (sendlink s) h rc;
            xit_unqueue rps rc (case r of None \<Rightarrow> s
                                | Some np \<Rightarrow> set_sendlink np (p_sendlink (procs s rc)) s)
          })"

text \<open>The characters of \<^verbatim>\<open>"<noname>"\<close>.\<close>

definition noname :: "u8 list" where
  "noname = [60, 110, 111, 110, 97, 109, 101, 62]"

definition do_xit :: "int \<Rightarrow> int \<Rightarrow> kstate \<Rightarrow> (int \<times> kstate) option" where
  "do_xit parent proc_nr s =
     (if \<not> isokprocn parent \<or> \<not> isokprocn proc_nr then None
      else if \<not> isuserp (procs s parent) \<or> \<not> isuserp (procs s proc_nr) then None
      else do {
        let rc = procs s proc_nr;
        let s1 = upd_proc parent (\<lambda>p. p\<lparr>child_utime := child_utime p + (user_time rc + child_utime rc)\<rparr>) s;
        let s1 = upd_proc parent (\<lambda>p. p\<lparr>child_stime := child_stime p
                   + (sys_time (procs s1 proc_nr) + child_stime (procs s1 proc_nr))\<rparr>) s1;
        s2 \<leftarrow> cancel_alarm proc_nr s1;
        s3 \<leftarrow> (if flags s2 proc_nr = {} then lock_unready proc_nr s2 else Some s2);
        let s3 = upd_proc proc_nr (\<lambda>p. p\<lparr>p_name := noname\<rparr>) s3;
        s4 \<leftarrow> (if SENDING \<in> flags s3 proc_nr
              then xit_unqueue [- NR_TASKS..NR_PROCS - 1] proc_nr s3 else Some s3);
        let s5 = (if PENDING \<in> flags s4 proc_nr then s4\<lparr>sig_procs := sig_procs s4 - 1\<rparr> else s4);
        Some (OK, upd_proc proc_nr (\<lambda>p. p\<lparr>p_pending := 0, p_pendcount := 0, p_flags := {},
                                       p_priority := PPRI_NONE\<rparr>) s5)
      })"

subsection \<open>The invariant of the process table\<close>

text \<open>
  Who is runnable (\<^verbatim>\<open>p_flags == 0\<close>; the HARDWARE slot and the idle process are never
  queued), who waits to send to whom, and the queues of senders as lists.
\<close>

definition schedulable :: "ppri \<Rightarrow> bool" where
  "schedulable r \<longleftrightarrow> r = PPRI_TASK \<or> r = PPRI_SERVER \<or> r = PPRI_USER"

definition runnable :: "kstate \<Rightarrow> int set" where
  "runnable s = {p. isokprocn p \<and> p \<noteq> HARDWARE \<and> schedulable (prio s p) \<and> flags s p = {}}"

definition senders :: "kstate \<Rightarrow> int \<Rightarrow> int set" where
  "senders s d = {c. SENDING \<in> flags s c \<and> p_sendto (procs s c) = d}"

definition waits :: "kstate \<Rightarrow> (int \<times> int) set" where
  "waits s = {(c, d). SENDING \<in> flags s c \<and> p_sendto (procs s c) = d}"

definition sched_inv :: "kstate \<Rightarrow> bool" where
  "sched_inv s \<longleftrightarrow> (\<exists>rq. rq_ok s rq \<and> rqs.queued rq = runnable s)"

definition cq_ok :: "kstate \<Rightarrow> (int \<Rightarrow> int list) \<Rightarrow> bool" where
  "cq_ok s cq \<longleftrightarrow> (\<forall>d. isokprocn d \<longrightarrow>
     chain (sendlink s) (p_callerq (procs s d)) (cq d) \<and> set (cq d) = senders s d)"

definition queue_inv :: "kstate \<Rightarrow> bool" where
  "queue_inv s \<longleftrightarrow> (\<exists>cq. cq_ok s cq)
     \<and> (\<forall>c. SENDING \<in> flags s c \<longrightarrow> isokprocn c \<and> isokprocn (p_sendto (procs s c)))"

definition sig_inv :: "kstate \<Rightarrow> bool" where
  "sig_inv s \<longleftrightarrow> (\<forall>p. PENDING \<in> flags s p \<longrightarrow> 0 \<le> p \<and> p < NR_PROCS \<and> SIG_PENDING \<in> flags s p)
     \<and> sig_procs s = int (card {p. PENDING \<in> flags s p})"

definition sys_inv :: "kstate \<Rightarrow> bool" where
  "sys_inv s \<longleftrightarrow> prio s HARDWARE = PPRI_TASK \<and> prio s MM_PROC_NR = PPRI_SERVER
     \<and> prio s FS_PROC_NR = PPRI_SERVER
     \<and> mess_in_range (procs s HARDWARE) (sys_m s)
     \<and> flags s HARDWARE = {}
     \<and> (\<forall>p. p \<noteq> HARDWARE \<longrightarrow> guard_ok s p)
     \<and> (\<forall>p. istaskp (procs s p) \<longrightarrow> p < 0 \<and> flags s p \<subseteq> {SENDING, RECEIVING})
     \<and> (\<forall>p. \<not> schedulable (prio s p) \<longrightarrow> flags s p = {})"

text \<open>A receiver that accepts anyone is not at the same time sending.\<close>

definition mm_inv :: "kstate \<Rightarrow> bool" where
  "mm_inv s \<longleftrightarrow> (RECEIVING \<in> flags s MM_PROC_NR \<and> p_getfrom (procs s MM_PROC_NR) = ANY
                 \<longrightarrow> SENDING \<notin> flags s MM_PROC_NR)"

definition table_inv :: "kstate \<Rightarrow> bool" where
  "table_inv s \<longleftrightarrow> sched_inv s \<and> queue_inv s \<and> acyclic (waits s) \<and> sys_inv s \<and> mm_inv s"

definition kinv :: "kstate \<Rightarrow> bool" where
  "kinv s \<longleftrightarrow> table_inv s \<and> sig_inv s"

text \<open>What the scheduler leaves alone, field by field.\<close>

lemma unqueued_fields:
  assumes "unqueued s' = unqueued s"
  shows "p_flags (procs s' n) = p_flags (procs s n)" "p_priority (procs s' n) = p_priority (procs s n)"
    "p_callerq (procs s' n) = p_callerq (procs s n)" "p_sendlink (procs s' n) = p_sendlink (procs s n)"
    "p_sendto (procs s' n) = p_sendto (procs s n)" "p_getfrom (procs s' n) = p_getfrom (procs s n)"
    "p_messbuf (procs s' n) = p_messbuf (procs s n)" "p_map (procs s' n) = p_map (procs s n)"
    "p_stguard (procs s' n) = p_stguard (procs s n)" "p_int_blocked (procs s' n) = p_int_blocked (procs s n)"
    "p_int_held (procs s' n) = p_int_held (procs s n)" "p_nextheld (procs s' n) = p_nextheld (procs s n)"
    "p_pending (procs s' n) = p_pending (procs s n)" "p_pendcount (procs s' n) = p_pendcount (procs s n)"
    "kmem s' = kmem s" "sig_procs s' = sig_procs s" "sys_m s' = sys_m s" "data_base s' = data_base s"
    "held_head s' = held_head s" "held_tail s' = held_tail s" "k_reenter s' = k_reenter s"
    "switching s' = switching s"
proof -
  have f: "(procs s' n)\<lparr>p_nextready := None\<rparr> = (procs s n)\<lparr>p_nextready := None\<rparr>"
    using arg_cong [OF assms, of "\<lambda>s. procs s n"] by (simp add: unqueued_def)
  show "p_flags (procs s' n) = p_flags (procs s n)" using arg_cong [OF f, of p_flags] by simp
  show "p_priority (procs s' n) = p_priority (procs s n)" using arg_cong [OF f, of p_priority] by simp
  show "p_callerq (procs s' n) = p_callerq (procs s n)" using arg_cong [OF f, of p_callerq] by simp
  show "p_sendlink (procs s' n) = p_sendlink (procs s n)" using arg_cong [OF f, of p_sendlink] by simp
  show "p_sendto (procs s' n) = p_sendto (procs s n)" using arg_cong [OF f, of p_sendto] by simp
  show "p_getfrom (procs s' n) = p_getfrom (procs s n)" using arg_cong [OF f, of p_getfrom] by simp
  show "p_messbuf (procs s' n) = p_messbuf (procs s n)" using arg_cong [OF f, of p_messbuf] by simp
  show "p_map (procs s' n) = p_map (procs s n)" using arg_cong [OF f, of p_map] by simp
  show "p_stguard (procs s' n) = p_stguard (procs s n)" using arg_cong [OF f, of p_stguard] by simp
  show "p_int_blocked (procs s' n) = p_int_blocked (procs s n)" using arg_cong [OF f, of p_int_blocked] by simp
  show "p_int_held (procs s' n) = p_int_held (procs s n)" using arg_cong [OF f, of p_int_held] by simp
  show "p_nextheld (procs s' n) = p_nextheld (procs s n)" using arg_cong [OF f, of p_nextheld] by simp
  show "p_pending (procs s' n) = p_pending (procs s n)" using arg_cong [OF f, of p_pending] by simp
  show "p_pendcount (procs s' n) = p_pendcount (procs s n)" using arg_cong [OF f, of p_pendcount] by simp
  show "kmem s' = kmem s" using arg_cong [OF assms, of kmem] by (simp add: unqueued_def)
  show "sig_procs s' = sig_procs s" using arg_cong [OF assms, of sig_procs] by (simp add: unqueued_def)
  show "sys_m s' = sys_m s" using arg_cong [OF assms, of sys_m] by (simp add: unqueued_def)
  show "data_base s' = data_base s" using arg_cong [OF assms, of data_base] by (simp add: unqueued_def)
  show "held_head s' = held_head s" using arg_cong [OF assms, of held_head] by (simp add: unqueued_def)
  show "held_tail s' = held_tail s" using arg_cong [OF assms, of held_tail] by (simp add: unqueued_def)
  show "k_reenter s' = k_reenter s" using arg_cong [OF assms, of k_reenter] by (simp add: unqueued_def)
  show "switching s' = switching s" using arg_cong [OF assms, of switching] by (simp add: unqueued_def)
qed

text \<open>Each part of the invariant depends on few fields.\<close>

lemma sched_inv_cong:
  assumes "sched_inv s"
    and "\<And>p. p_nextready (procs s' p) = p_nextready (procs s p)"
    and "rdy_head s' = rdy_head s" "rdy_tail s' = rdy_tail s"
    and "\<And>p. prio s' p = prio s p" "\<And>p. flags s' p = {} \<longleftrightarrow> flags s p = {}"
  shows "sched_inv s'"
proof -
  from assms(1) obtain rq where rq: "rq_ok s rq" "rqs.queued rq = runnable s" by (auto simp: sched_inv_def)
  have "rq_ok s' rq" by (rule rq_ok_cong [OF rq(1)]) (use assms in auto)
  moreover have "runnable s' = runnable s" using assms by (simp add: runnable_def)
  ultimately show ?thesis using rq by (auto simp: sched_inv_def)
qed

lemma senders_cong:
  assumes "\<And>p. SENDING \<in> flags s' p \<longleftrightarrow> SENDING \<in> flags s p"
    and "\<And>p. SENDING \<in> flags s p \<Longrightarrow> p_sendto (procs s' p) = p_sendto (procs s p)"
  shows "senders s' = senders s" "waits s' = waits s"
  using assms by (auto simp: senders_def waits_def fun_eq_iff)

lemma queue_inv_cong:
  assumes "queue_inv s"
    and "\<And>p. p_sendlink (procs s' p) = p_sendlink (procs s p)" "\<And>p. p_callerq (procs s' p) = p_callerq (procs s p)"
    and "\<And>p. SENDING \<in> flags s' p \<longleftrightarrow> SENDING \<in> flags s p"
    and "\<And>p. SENDING \<in> flags s p \<Longrightarrow> p_sendto (procs s' p) = p_sendto (procs s p)"
  shows "queue_inv s'"
proof -
  have "senders s' = senders s" by (rule senders_cong) (use assms in auto)
  with assms(1) show ?thesis unfolding queue_inv_def cq_ok_def by (auto simp: assms(2-5))
qed

lemma sig_inv_cong:
  assumes "sig_inv s" and "\<And>p. PENDING \<in> flags s' p \<longleftrightarrow> PENDING \<in> flags s p"
    and "\<And>p. PENDING \<in> flags s p \<Longrightarrow> SIG_PENDING \<in> flags s' p" and "sig_procs s' = sig_procs s"
  shows "sig_inv s'"
  using assms by (auto simp: sig_inv_def)

end
