(* ===== verification/Kernel_IPC_Inv.thy ===== *)
theory Kernel_IPC_Inv
  imports Kernel_IPC
begin

text \<open>
  The correctness of message passing: a message arrives unchanged but for its source, the
  deadlock search ends and is exact, and every operation of \<^verbatim>\<open>Kernel_IPC\<close> returns and
  keeps the invariant of the process table.
\<close>

subsection \<open>Blocking and unblocking\<close>

lemma sched_inv_block:
  assumes inv: "sched_inv s" and g: "guard_ok s p"
  shows "\<exists>s2. (if flags s p = {} then unready p s else Some s) = Some s2 \<and> unqueued s2 = unqueued s
    \<and> (\<forall>f. (\<forall>P. p_nextready (f P) = p_nextready P \<and> p_priority (f P) = p_priority P \<and> p_flags (f P) \<noteq> {})
         \<longrightarrow> sched_inv (upd_proc p f s2))"
proof -
  from inv obtain rq where rq: "rq_ok s rq" "rqs.queued rq = runnable s" by (auto simp: sched_inv_def)
  have main: "sched_inv (upd_proc p f s2)"
    if u: "unqueued s2 = unqueued s" and ok: "rq_ok s2 rq2" and qd: "rqs.queued rq2 = runnable s - {p}"
      and f: "\<forall>P. p_nextready (f P) = p_nextready P \<and> p_priority (f P) = p_priority P \<and> p_flags (f P) \<noteq> {}"
    for s2 rq2 f
  proof -
    have "rq_ok (upd_proc p f s2) rq2"
      by (rule rq_ok_cong [OF ok]) (use f in \<open>auto simp: upd_proc_def\<close>)
    moreover have "runnable (upd_proc p f s2) = runnable s - {p}"
      using f unqueued_fields [OF u] by (auto simp: runnable_def upd_proc_def)
    ultimately show ?thesis using qd by (auto simp: sched_inv_def)
  qed
  show ?thesis
  proof (cases "flags s p = {}")
    case True
    obtain s2 rq2 where s2: "unready p s = Some s2" "rq_ok s2 rq2" "unqueued s2 = unqueued s"
      "rqs.queued rq2 = rqs.queued rq - {p}"
      using rqs.unrdy_set [OF rq(1) g] by blast
    with True rq main [OF s2(3,2)] show ?thesis by auto
  next
    case False
    then have "runnable s - {p} = runnable s" by (auto simp: runnable_def)
    with False rq main [OF refl rq(1)] show ?thesis by auto
  qed
qed

text \<open>
  Taking flags off a blocked process and readying it when none is left: \<open>s2\<close> is the state
  after the flags of \<open>p\<close> were changed.
\<close>

lemma sched_inv_unblock:
  assumes inv: "sched_inv s" and blocked: "flags s p \<noteq> {}"
    and p: "isokprocn p" "p \<noteq> HARDWARE" "schedulable (prio s p)"
    and same: "\<And>n. p_nextready (procs s2 n) = p_nextready (procs s n)" "rdy_head s2 = rdy_head s"
      "rdy_tail s2 = rdy_tail s" "\<And>n. prio s2 n = prio s n"
      "\<And>n. n \<noteq> p \<Longrightarrow> flags s2 n = {} \<longleftrightarrow> flags s n = {}"
  shows "\<exists>s3. (if flags s2 p = {} then ready p s2 else Some s2) = Some s3
    \<and> unqueued s3 = unqueued s2 \<and> sched_inv s3"
proof -
  from inv obtain rq where rq: "rq_ok s rq" "rqs.queued rq = runnable s" by (auto simp: sched_inv_def)
  have ok2: "rq_ok s2 rq" by (rule rq_ok_cong [OF rq(1)]) (use same in auto)
  show ?thesis
  proof (cases "flags s2 p = {}")
    case True
    have "p \<notin> rqs.queued rq" using rq blocked by (simp add: runnable_def)
    then obtain s3 rq3 where s3: "ready p s2 = Some s3" "rq_ok s3 rq3" "unqueued s3 = unqueued s2"
      "rqs.queued rq3 = insert p (rqs.queued rq)"
      using rqs.rdy_set [OF ok2] by blast
    have "runnable s3 = insert p (runnable s)"
    proof (rule set_eqI)
      fix n
      show "n \<in> runnable s3 \<longleftrightarrow> n \<in> insert p (runnable s)"
        using unqueued_fields(1,2) [OF s3(3), of n] same(4) [of n] same(5) [of n] True p
        by (cases "n = p") (auto simp: runnable_def)
    qed
    with s3 rq True show ?thesis by (auto simp: sched_inv_def)
  next
    case False
    have "runnable s2 = runnable s"
    proof (rule set_eqI)
      fix n
      show "n \<in> runnable s2 \<longleftrightarrow> n \<in> runnable s"
        using same(4) [of n] same(5) [of n] False blocked by (cases "n = p") (auto simp: runnable_def)
    qed
    with ok2 rq False show ?thesis by (auto simp: sched_inv_def)
  qed
qed

subsection \<open>The queue of senders\<close>

lemma enqueue_sender_spec:
  assumes ch: "\<And>d. isokprocn d \<Longrightarrow> chain (sendlink s) (p_callerq (procs s d)) (cq d)"
    and new: "\<And>d. isokprocn d \<Longrightarrow> c \<notin> set (cq d)"
    and disj: "\<And>d e. isokprocn d \<Longrightarrow> isokprocn e \<Longrightarrow> d \<noteq> e \<Longrightarrow> set (cq d) \<inter> set (cq e) = {}"
    and d: "isokprocn dest"
  shows "\<exists>s'. enqueue_sender c dest s = Some s'
    \<and> (\<forall>d. isokprocn d \<longrightarrow> chain (sendlink s') (p_callerq (procs s' d)) ((cq(dest := cq dest @ [c])) d))
    \<and> (\<forall>n. (procs s' n)\<lparr>p_sendlink := None, p_callerq := None\<rparr> = (procs s n)\<lparr>p_sendlink := None, p_callerq := None\<rparr>)
    \<and> s'\<lparr>procs := procs s\<rparr> = s"
proof (cases "cq dest = []")
  case True
  then have n: "p_callerq (procs s dest) = None" using ch [OF d] by simp
  define s' where "s' = set_sendlink c None (upd_proc dest (\<lambda>p. p\<lparr>p_callerq := Some c\<rparr>) s)"
  have cq': "p_callerq (procs s' e) = (if e = dest then Some c else p_callerq (procs s e))" for e
    by (simp add: s'_def upd_proc_def)
  have "chain (sendlink s') (p_callerq (procs s' e)) ((cq(dest := cq dest @ [c])) e)" if "isokprocn e" for e
  proof (cases "e = dest")
    case True
    with \<open>cq dest = []\<close> show ?thesis by (simp add: s'_def upd_proc_def)
  next
    case False
    have "chain (sendlink s') (p_callerq (procs s e)) (cq e) \<longleftrightarrow> chain (sendlink s) (p_callerq (procs s e)) (cq e)"
      by (rule chain_cong) (use new [OF that] in \<open>auto simp: s'_def upd_proc_def\<close>)
    with False ch [OF that] show ?thesis by (simp add: cq')
  qed
  then show ?thesis using n by (auto simp: enqueue_sender_def s'_def upd_proc_def)
next
  case False
  then obtain h where h: "p_callerq (procs s dest) = Some h" using ch [OF d] by (cases "cq dest") auto
  define l where "l = last (cq dest)"
  have l: "chain_last (sendlink s) h = Some l" using chain_last_eq [OF ch [OF d] h] by (simp add: l_def)
  define s' where "s' = set_sendlink c None (set_sendlink l (Some c) s)"
  have lin: "l \<in> set (cq dest)" using False by (simp add: l_def)
  have lc: "l \<noteq> c" using lin new [OF d] by auto
  have sl: "sendlink s' = (sendlink s)(l := Some c, c := None)"
    using lc by (auto simp: s'_def upd_proc_def fun_eq_iff)
  have cq': "p_callerq (procs s' e) = p_callerq (procs s e)" for e by (simp add: s'_def upd_proc_def)
  have "chain (sendlink s') (p_callerq (procs s' e)) ((cq(dest := cq dest @ [c])) e)" if e: "isokprocn e" for e
  proof (cases "e = dest")
    case True
    with chain_snoc [OF ch [OF d] False new [OF d]] show ?thesis by (simp add: sl cq' l_def)
  next
    case ne: False
    have "l \<notin> set (cq e)" using disj [OF d e] ne lin by auto
    then show ?thesis using ne ch [OF e] new [OF e] by (simp add: sl cq' chain_upd_other)
  qed
  then show ?thesis using h l by (auto simp: enqueue_sender_def s'_def upd_proc_def)
qed

text \<open>The fields of a state that differs from another in the senders' links only.\<close>

definition relinked :: "kstate \<Rightarrow> kstate \<Rightarrow> bool" where
  "relinked s s' \<longleftrightarrow> (\<forall>n. (procs s' n)\<lparr>p_sendlink := None, p_callerq := None\<rparr>
       = (procs s n)\<lparr>p_sendlink := None, p_callerq := None\<rparr>) \<and> s'\<lparr>procs := procs s\<rparr> = s"

lemma relinked_fields:
  assumes "relinked s s'"
  shows "p_flags (procs s' n) = p_flags (procs s n)" "p_priority (procs s' n) = p_priority (procs s n)"
    "p_nextready (procs s' n) = p_nextready (procs s n)" "p_sendto (procs s' n) = p_sendto (procs s n)"
    "p_getfrom (procs s' n) = p_getfrom (procs s n)" "p_map (procs s' n) = p_map (procs s n)"
    "p_stguard (procs s' n) = p_stguard (procs s n)" "p_messbuf (procs s' n) = p_messbuf (procs s n)"
    "rdy_head s' = rdy_head s" "rdy_tail s' = rdy_tail s" "sig_procs s' = sig_procs s"
    "sys_m s' = sys_m s" "kmem s' = kmem s" "proc_ptr s' = proc_ptr s"
proof -
  have f: "(procs s' n)\<lparr>p_sendlink := None, p_callerq := None\<rparr>
       = (procs s n)\<lparr>p_sendlink := None, p_callerq := None\<rparr>" using assms by (auto simp: relinked_def)
  have g: "s'\<lparr>procs := procs s\<rparr> = s" using assms by (simp add: relinked_def)
  show "p_flags (procs s' n) = p_flags (procs s n)" using arg_cong [OF f, of p_flags] by simp
  show "p_priority (procs s' n) = p_priority (procs s n)" using arg_cong [OF f, of p_priority] by simp
  show "p_nextready (procs s' n) = p_nextready (procs s n)" using arg_cong [OF f, of p_nextready] by simp
  show "p_sendto (procs s' n) = p_sendto (procs s n)" using arg_cong [OF f, of p_sendto] by simp
  show "p_getfrom (procs s' n) = p_getfrom (procs s n)" using arg_cong [OF f, of p_getfrom] by simp
  show "p_map (procs s' n) = p_map (procs s n)" using arg_cong [OF f, of p_map] by simp
  show "p_stguard (procs s' n) = p_stguard (procs s n)" using arg_cong [OF f, of p_stguard] by simp
  show "p_messbuf (procs s' n) = p_messbuf (procs s n)" using arg_cong [OF f, of p_messbuf] by simp
  show "rdy_head s' = rdy_head s" using arg_cong [OF g, of rdy_head] by simp
  show "rdy_tail s' = rdy_tail s" using arg_cong [OF g, of rdy_tail] by simp
  show "sig_procs s' = sig_procs s" using arg_cong [OF g, of sig_procs] by simp
  show "sys_m s' = sys_m s" using arg_cong [OF g, of sys_m] by simp
  show "kmem s' = kmem s" using arg_cong [OF g, of kmem] by simp
  show "proc_ptr s' = proc_ptr s" using arg_cong [OF g, of proc_ptr] by simp
qed

lemma senders_disjoint: "d \<noteq> e \<Longrightarrow> senders s d \<inter> senders s e = {}"
  by (auto simp: senders_def)

lemma cq_ok_unique: "cq_ok s cq \<Longrightarrow> cq_ok s cq' \<Longrightarrow> isokprocn d \<Longrightarrow> cq' d = cq d"
  unfolding cq_ok_def using chain_unique by metis

lemma queue_inv_send:
  assumes inv: "queue_inv s" and new: "SENDING \<notin> flags s c"
    and ok: "isokprocn c" "isokprocn dest"
    and s3: "\<And>n. p_sendlink (procs s3 n) = p_sendlink (procs s n)"
      "\<And>n. p_callerq (procs s3 n) = p_callerq (procs s n)"
      "\<And>n. SENDING \<in> flags s3 n \<longleftrightarrow> n = c \<or> SENDING \<in> flags s n"
      "\<And>n. p_sendto (procs s3 n) = (if n = c then dest else p_sendto (procs s n))"
  shows "\<exists>s4. enqueue_sender c dest s3 = Some s4 \<and> queue_inv s4 \<and> relinked s3 s4
    \<and> (\<forall>cq. cq_ok s cq \<longrightarrow> cq_ok s4 (cq(dest := cq dest @ [c])))"
proof -
  from inv obtain cq where cq: "cq_ok s cq" by (auto simp: queue_inv_def)
  have "\<exists>s4. enqueue_sender c dest s3 = Some s4
    \<and> (\<forall>d. isokprocn d \<longrightarrow> chain (sendlink s4) (p_callerq (procs s4 d)) ((cq(dest := cq dest @ [c])) d))
    \<and> (\<forall>n. (procs s4 n)\<lparr>p_sendlink := None, p_callerq := None\<rparr> = (procs s3 n)\<lparr>p_sendlink := None, p_callerq := None\<rparr>)
    \<and> s4\<lparr>procs := procs s3\<rparr> = s3"
  proof (rule enqueue_sender_spec)
    show "chain (sendlink s3) (p_callerq (procs s3 d)) (cq d)" if "isokprocn d" for d
      using cq that by (simp add: cq_ok_def s3)
    show "c \<notin> set (cq d)" if "isokprocn d" for d
      using cq that new by (simp add: cq_ok_def senders_def)
    show "set (cq d) \<inter> set (cq e) = {}" if "isokprocn d" "isokprocn e" "d \<noteq> e" for d e
      using cq that senders_disjoint by (simp add: cq_ok_def)
  qed (rule ok)
  then obtain s4 where s4: "enqueue_sender c dest s3 = Some s4" and rel: "relinked s3 s4"
    and ch: "\<forall>d. isokprocn d \<longrightarrow> chain (sendlink s4) (p_callerq (procs s4 d)) ((cq(dest := cq dest @ [c])) d)"
    by (auto simp: relinked_def)
  have sn: "senders s4 d = (if d = dest then insert c (senders s d) else senders s d)" for d
    using new by (auto simp: senders_def relinked_fields [OF rel] s3)
  have cq4: "cq_ok s4 (cq(dest := cq dest @ [c]))"
    using ch cq by (auto simp: cq_ok_def sn)
  have any: "cq_ok s4 (cq'(dest := cq' dest @ [c]))" if "cq_ok s cq'" for cq'
  proof -
    have "(cq'(dest := cq' dest @ [c])) d = (cq(dest := cq dest @ [c])) d" if "isokprocn d" for d
      using cq_ok_unique [OF cq \<open>cq_ok s cq'\<close>] that ok(2) by (metis fun_upd_apply)
    with cq4 show ?thesis unfolding cq_ok_def by presburger
  qed
  note cq4
  moreover have "isokprocn n \<and> isokprocn (p_sendto (procs s4 n))" if "SENDING \<in> flags s4 n" for n
    using that inv ok by (auto simp: queue_inv_def relinked_fields [OF rel] s3)
  ultimately have "queue_inv s4" by (auto simp: queue_inv_def)
  with s4 rel any show ?thesis by blast
qed

subsection \<open>The deadlock search\<close>

lemma waits_finite: "queue_inv s \<Longrightarrow> finite (waits s)"
proof -
  assume "queue_inv s"
  then have "waits s \<subseteq> {- NR_TASKS..<NR_PROCS} \<times> {- NR_TASKS..<NR_PROCS}"
    by (auto simp: queue_inv_def waits_def isokprocn_def)
  then show ?thesis by (rule finite_subset) simp
qed

text \<open>
  The search follows the chain of senders from \<open>x\<close>; without a cycle it ends, and it answers
  whether the chain comes to the caller.
\<close>

lemma send_chain_exact:
  assumes fin: "finite (waits s)" and ac: "acyclic (waits s)"
  shows "send_chain (procs s) c x = Some ((x, c) \<in> (waits s)\<^sup>*)"
proof -
  have wf: "wf ((waits s)\<inverse>)" using fin ac by (rule finite_acyclic_wf_converse)
  show ?thesis
  proof (induction x rule: wf_induct_rule [OF wf])
    case (1 x)
    show ?case
    proof (cases "x = c")
      case True
      then show ?thesis by (subst send_chain.simps) simp
    next
      case ne: False
      show ?thesis
      proof (cases "SENDING \<in> flags s x")
        case True
        let ?y = "p_sendto (procs s x)"
        have e: "(x, ?y) \<in> waits s" using True by (simp add: waits_def)
        have u: "z = ?y" if "(x, z) \<in> waits s" for z using that by (simp add: waits_def)
        have "(x, c) \<in> (waits s)\<^sup>* \<longleftrightarrow> (?y, c) \<in> (waits s)\<^sup>*"
        proof
          assume "(x, c) \<in> (waits s)\<^sup>*"
          then obtain z where "(x, z) \<in> waits s" "(z, c) \<in> (waits s)\<^sup>*"
            using ne by (auto elim: converse_rtranclE)
          then show "(?y, c) \<in> (waits s)\<^sup>*" using u by simp
        next
          assume "(?y, c) \<in> (waits s)\<^sup>*"
          with e show "(x, c) \<in> (waits s)\<^sup>*" by (rule converse_rtrancl_into_rtrancl)
        qed
        moreover have "send_chain (procs s) c ?y = Some ((?y, c) \<in> (waits s)\<^sup>*)"
          using 1 e by blast
        ultimately show ?thesis using True ne by (subst send_chain.simps) simp
      next
        case False
        then have "(x, z) \<notin> waits s" for z by (simp add: waits_def)
        then have "(x, c) \<notin> (waits s)\<^sup>*" using ne by (auto elim: converse_rtranclE)
        with False ne show ?thesis by (subst send_chain.simps) simp
      qed
    qed
  qed
qed

lemma dest_chain_exact:
  assumes fin: "finite (waits s)" and ac: "acyclic (waits s)" and ne: "dest \<noteq> c"
  shows "(if SENDING \<in> flags s dest then send_chain (procs s) c (p_sendto (procs s dest)) else Some False)
    = Some ((dest, c) \<in> (waits s)\<^sup>*)"
  using send_chain_exact [OF fin ac, of c dest] ne by (subst (asm) send_chain.simps) simp

subsection \<open>Sending keeps the invariant\<close>

lemma sys_inv_cong:
  assumes "sys_inv s" and "\<And>p. prio s' p = prio s p" "sys_m s' = sys_m s"
    and "p_map (procs s' HARDWARE) = p_map (procs s HARDWARE)" "\<And>p. p_stguard (procs s' p) = p_stguard (procs s p)"
    and "flags s' HARDWARE = {}"
    and "\<And>p. istaskp (procs s p) \<Longrightarrow> flags s' p \<subseteq> flags s p \<union> {SENDING, RECEIVING}"
    and "\<And>p. \<not> schedulable (prio s p) \<Longrightarrow> flags s' p = {}"
  shows "sys_inv s'"
proof -
  have r: "mess_in_range (procs s' HARDWARE) m = mess_in_range (procs s HARDWARE) m" for m
    by (simp add: mess_in_range_def assms(4))
  have g: "guard_ok s' = guard_ok s"
    by (simp add: guard_ok_def fun_eq_iff assms(2,5))
  have t: "p < 0 \<and> flags s' p \<subseteq> {SENDING, RECEIVING}" if "istaskp (procs s' p)" for p
  proof -
    have "istaskp (procs s p)" using that assms(2) by simp
    moreover from this have "p < 0 \<and> flags s p \<subseteq> {SENDING, RECEIVING}"
      using assms(1) by (simp add: sys_inv_def)
    ultimately show ?thesis using assms(7) [of p] by blast
  qed
  have n: "flags s' p = {}" if "\<not> schedulable (prio s' p)" for p
    using that assms(2,8) by simp
  from assms(1) t n show ?thesis unfolding sys_inv_def by (auto simp: r g assms(2,3,6))
qed

lemma table_invD:
  assumes "table_inv s"
  shows "sched_inv s" "queue_inv s" "acyclic (waits s)" "sys_inv s" "mm_inv s"
  using assms by (simp_all add: table_inv_def)

lemma table_inv_flags:
  assumes "table_inv s" "flags s p \<noteq> {}"
  shows "schedulable (prio s p)" "p \<noteq> HARDWARE" "SENDING \<in> flags s p \<Longrightarrow> isokprocn p"
  using assms by (auto simp: table_inv_def sys_inv_def queue_inv_def)

lemma schedulable_not_empty: "schedulable (p_priority p) \<Longrightarrow> \<not> isemptyp p"
  by (auto simp: schedulable_def)

lemma send_deliver_inv:
  assumes inv: "table_inv s" and d: "isokprocn dest" "RECEIVING \<in> flags s dest" "SENDING \<notin> flags s dest"
  shows "\<exists>s'. send_deliver c dest m s = Some s' \<and> table_inv s' \<and> sig_procs s' = sig_procs s \<and> (\<forall>n. prio s' n = prio s n)
    \<and> (\<forall>n. flags s' n = (if n = dest then flags s n - {RECEIVING} else flags s n))
    \<and> kmem s' = cp_mess c (mem_phys (p_map (procs s c) SegD)) m
          (mem_phys (p_map (procs s dest) SegD)) (p_messbuf (procs s dest)) (kmem s)"
proof -
  define s2 where "s2 = upd_proc dest (\<lambda>p. p\<lparr>p_flags := p_flags p - {RECEIVING}\<rparr>)
                 (copy_mess c m dest (p_messbuf (procs s dest)) s)"
  have ne: "flags s dest \<noteq> {}" using d by auto
  note k = table_invD [OF inv] and kf = table_inv_flags [OF inv ne]
  have s2f: "p_nextready (procs s2 n) = p_nextready (procs s n)" "prio s2 n = prio s n"
    "flags s2 n = (if n = dest then flags s n - {RECEIVING} else flags s n)"
    "p_sendlink (procs s2 n) = p_sendlink (procs s n)" "p_callerq (procs s2 n) = p_callerq (procs s n)"
    "p_sendto (procs s2 n) = p_sendto (procs s n)" "p_map (procs s2 n) = p_map (procs s n)"
    "p_stguard (procs s2 n) = p_stguard (procs s n)" "p_getfrom (procs s2 n) = p_getfrom (procs s n)" for n
    by (simp_all add: s2_def upd_proc_def copy_mess_def)
  have s2g: "rdy_head s2 = rdy_head s" "rdy_tail s2 = rdy_tail s" "sig_procs s2 = sig_procs s" "sys_m s2 = sys_m s"
    by (simp_all add: s2_def upd_proc_def copy_mess_def)
  obtain s3 where s3: "(if flags s2 dest = {} then ready dest s2 else Some s2) = Some s3"
    "unqueued s3 = unqueued s2" "sched_inv s3"
    using sched_inv_unblock [OF k(1) ne d(1) kf(2,1), of s2] s2f s2g by auto
  note u = unqueued_fields [OF s3(2)]
  have q: "queue_inv s3" by (rule queue_inv_cong [OF k(2)]) (auto simp: u s2f)
  have w: "waits s3 = waits s" by (rule senders_cong) (auto simp: u s2f)
  have y: "sys_inv s3" by (rule sys_inv_cong [OF k(4)]) (use k(4) in \<open>auto simp: u s2f s2g sys_inv_def\<close>)
  have m: "mm_inv s3" using k(5) by (auto simp: mm_inv_def u s2f)
  have "table_inv s3" using s3(3) q w y m k(3) by (simp add: table_inv_def)
  moreover have "send_deliver c dest m s = Some s3" using s3(1) unfolding send_deliver_def Let_def s2_def .
  moreover have "kmem s3 = cp_mess c (mem_phys (p_map (procs s c) SegD)) m
          (mem_phys (p_map (procs s dest) SegD)) (p_messbuf (procs s dest)) (kmem s)"
    by (simp add: u s2_def upd_proc_def copy_mess_def)
  ultimately show ?thesis by (auto simp: u s2f s2g)
qed

lemma send_queue_inv:
  assumes inv: "table_inv s" and c: "isokprocn c" "c \<noteq> HARDWARE" "schedulable (prio s c)"
      "SENDING \<notin> flags s c" "RECEIVING \<notin> flags s c"
    and d: "isokprocn dest" and nc: "(dest, c) \<notin> (waits s)\<^sup>*"
  shows "\<exists>s'. send_queue c dest m s = Some s' \<and> table_inv s' \<and> sig_procs s' = sig_procs s \<and> (\<forall>n. prio s' n = prio s n)
    \<and> (\<forall>n. flags s' n = (if n = c then insert SENDING (flags s n) else flags s n))
    \<and> p_sendto (procs s' c) = dest \<and> kmem s' = kmem s \<and> p_messbuf (procs s' c) = m
    \<and> (\<forall>n. p_map (procs s' n) = p_map (procs s n))
    \<and> (\<forall>cq. cq_ok s cq \<longrightarrow> cq_ok s' (cq(dest := cq dest @ [c])))"
proof -
  define s1 where "s1 = upd_proc c (\<lambda>p. p\<lparr>p_messbuf := m\<rparr>) s"
  let ?f = "\<lambda>p. p\<lparr>p_flags := insert SENDING (p_flags p), p_sendto := dest\<rparr>"
  note k = table_invD [OF inv]
  have s1f: "p_nextready (procs s1 n) = p_nextready (procs s n)" "prio s1 n = prio s n"
    "flags s1 n = flags s n"
    "p_sendlink (procs s1 n) = p_sendlink (procs s n)" "p_callerq (procs s1 n) = p_callerq (procs s n)"
    "p_sendto (procs s1 n) = p_sendto (procs s n)" "p_map (procs s1 n) = p_map (procs s n)"
    "p_stguard (procs s1 n) = p_stguard (procs s n)" "p_getfrom (procs s1 n) = p_getfrom (procs s n)" for n
    by (simp_all add: s1_def upd_proc_def)
  have s1g: "rdy_head s1 = rdy_head s" "rdy_tail s1 = rdy_tail s" "sig_procs s1 = sig_procs s"
    "sys_m s1 = sys_m s" "kmem s1 = kmem s"
    by (simp_all add: s1_def upd_proc_def)
  have si: "sched_inv s1" by (rule sched_inv_cong [OF k(1)]) (auto simp: s1f s1g)
  have gu: "guard_ok s1 c" using k(4) c(2) by (simp add: sys_inv_def guard_ok_def s1f)
  obtain s2 where s2: "(if flags s1 c = {} then unready c s1 else Some s1) = Some s2"
    "unqueued s2 = unqueued s1" "sched_inv (upd_proc c ?f s2)"
    using sched_inv_block [OF si gu] by fastforce
  note u = unqueued_fields [OF s2(2)]
  define s3 where "s3 = upd_proc c ?f s2"
  have s3f: "prio s3 n = prio s n" "flags s3 n = (if n = c then insert SENDING (flags s n) else flags s n)"
    "p_sendlink (procs s3 n) = p_sendlink (procs s n)" "p_callerq (procs s3 n) = p_callerq (procs s n)"
    "p_sendto (procs s3 n) = (if n = c then dest else p_sendto (procs s n))"
    "p_map (procs s3 n) = p_map (procs s n)"
    "p_stguard (procs s3 n) = p_stguard (procs s n)" "p_getfrom (procs s3 n) = p_getfrom (procs s n)" for n
    by (simp_all add: s3_def upd_proc_def u s1f)
  have s3g: "sig_procs s3 = sig_procs s" "sys_m s3 = sys_m s" "kmem s3 = kmem s"
    by (simp_all add: s3_def upd_proc_def u s1g)
  have "\<exists>s4. enqueue_sender c dest s3 = Some s4 \<and> queue_inv s4 \<and> relinked s3 s4
    \<and> (\<forall>cq. cq_ok s cq \<longrightarrow> cq_ok s4 (cq(dest := cq dest @ [c])))"
    by (rule queue_inv_send [OF k(2) c(4) c(1) d]) (auto simp: s3f)
  then obtain s4 where s4: "enqueue_sender c dest s3 = Some s4" "queue_inv s4" "relinked s3 s4"
    and fifo: "\<forall>cq. cq_ok s cq \<longrightarrow> cq_ok s4 (cq(dest := cq dest @ [c]))"
    by blast
  note r = relinked_fields [OF s4(3)]
  have sc: "sched_inv s4"
    by (rule sched_inv_cong [OF s2(3)]) (use r in \<open>auto simp: s3_def\<close>)
  have w: "waits s4 = insert (c, dest) (waits s)" using c(4) by (auto simp: waits_def r s3f split: if_splits)
  have ac: "acyclic (waits s4)" using k(3) nc by (simp add: w acyclic_insert)
  have y: "sys_inv s4"
    by (rule sys_inv_cong [OF k(4)]) (use k(4) c in \<open>auto simp: r s3f s3g sys_inv_def\<close>)
  have m: "mm_inv s4" using k(5) c(5) by (auto simp: mm_inv_def r s3f)
  have "table_inv s4" using sc s4(2) ac y m by (simp add: table_inv_def)
  moreover have "send_queue c dest m s = Some s4"
    unfolding send_queue_def Let_def s1_def [symmetric]
    by (simp only: s2(1) Option.bind.bind_lunit s4(1) [unfolded s3_def])
  moreover have "p_messbuf (procs s4 c) = m" by (simp add: r s3_def upd_proc_def u s1_def)
  ultimately show ?thesis using fifo by (auto simp: r s3f s3g)
qed


text \<open>What \<^verbatim>\<open>mini_send()\<close> answers and does, on every branch.\<close>

lemma mini_send_cases:
  assumes inv: "table_inv s" and d: "isokprocn dest" "dest \<noteq> c"
  shows "mini_send c dest m s =
     (if isuserp (procs s c) \<and> \<not> issysentn dest then Some (E_BAD_DEST, s)
      else if isemptyp (procs s dest) then Some (E_BAD_DEST, s)
      else if \<not> mess_in_range (procs s c) m then Some (EFAULT, s)
      else if (dest, c) \<in> (waits s)\<^sup>* then Some (ELOCKED, s)
      else if RECEIVING \<in> flags s dest \<and> SENDING \<notin> flags s dest
              \<and> (p_getfrom (procs s dest) = ANY \<or> p_getfrom (procs s dest) = c)
      then map_option (Pair OK) (send_deliver c dest m s)
      else map_option (Pair OK) (send_queue c dest m s))"
  unfolding mini_send_def
    dest_chain_exact [OF waits_finite [OF table_invD(2) [OF inv]] table_invD(3) [OF inv] d(2)]
  using d(1) by simp

lemma sig_inv_flags:
  assumes "sig_inv s" "sig_procs s' = sig_procs s"
    and "\<And>n. flags s' n = (if n = p then f (flags s n) else flags s n)"
    and "\<And>F. PENDING \<in> f F \<longleftrightarrow> PENDING \<in> F" "\<And>F. SIG_PENDING \<in> F \<Longrightarrow> SIG_PENDING \<in> f F"
  shows "sig_inv s'"
  by (rule sig_inv_cong [OF assms(1)]) (use assms in \<open>auto simp: sig_inv_def\<close>)

lemma mini_send_inv:
  assumes inv: "kinv s" and c: "isokprocn c" "schedulable (prio s c)" "SENDING \<notin> flags s c" "RECEIVING \<notin> flags s c"
    and d: "isokprocn dest" "dest \<noteq> c" and hw: "c \<noteq> HARDWARE"
  shows "\<exists>r s'. mini_send c dest m s = Some (r, s') \<and> kinv s' \<and> (\<forall>n. prio s' n = prio s n)
    \<and> (r \<noteq> OK \<longrightarrow> s' = s) \<and> (SENDING \<in> flags s' c \<longrightarrow> p_sendto (procs s' c) = dest)
    \<and> RECEIVING \<notin> flags s' c"
proof -
  from inv have t: "table_inv s" and g: "sig_inv s" by (simp_all add: kinv_def)
  let ?del = "RECEIVING \<in> flags s dest \<and> SENDING \<notin> flags s dest
              \<and> (p_getfrom (procs s dest) = ANY \<or> p_getfrom (procs s dest) = c)"
  have A: ?thesis if e: "mini_send c dest m s = map_option (Pair OK) (send_deliver c dest m s)" and del: ?del
  proof -
    obtain s' where s': "send_deliver c dest m s = Some s'" "table_inv s'" "sig_procs s' = sig_procs s"
      "\<forall>n. prio s' n = prio s n"
      "\<forall>n. flags s' n = (if n = dest then flags s n - {RECEIVING} else flags s n)"
      using send_deliver_inv [OF t d(1), of c m] del by blast
    have "sig_inv s'" by (rule sig_inv_flags [OF g s'(3), of dest "\<lambda>F. F - {RECEIVING}"]) (use s'(5) in auto)
    with s' e c(3,4) d(2) show ?thesis by (auto simp: kinv_def)
  qed
  have B: ?thesis if e: "mini_send c dest m s = map_option (Pair OK) (send_queue c dest m s)"
    and nc: "(dest, c) \<notin> (waits s)\<^sup>*"
  proof -
    obtain s' where s': "send_queue c dest m s = Some s'" "table_inv s'" "sig_procs s' = sig_procs s"
      "\<forall>n. prio s' n = prio s n"
      "\<forall>n. flags s' n = (if n = c then insert SENDING (flags s n) else flags s n)" "p_sendto (procs s' c) = dest"
      using send_queue_inv [OF t c(1) hw c(2,3,4) d(1) nc, of m] by blast
    have "sig_inv s'" by (rule sig_inv_flags [OF g s'(3), of c "insert SENDING"]) (use s'(5) in auto)
    with s' e c(4) show ?thesis by (auto simp: kinv_def)
  qed
  have C: ?thesis if "mini_send c dest m s = Some (r, s)" "r \<noteq> OK" for r
    using that inv c(3,4) by auto
  show ?thesis
    using A B C mini_send_cases [OF t d, of m] by (auto split: if_splits)
qed

subsection \<open>Telling the memory manager\<close>

lemma table_inv_same:
  assumes "table_inv s" "procs s' = procs s" "rdy_head s' = rdy_head s" "rdy_tail s' = rdy_tail s" "sys_m s' = sys_m s"
  shows "table_inv s'"
proof -
  note t = table_invD [OF assms(1)]
  have "sched_inv s'" by (rule sched_inv_cong [OF t(1)]) (simp_all add: assms)
  moreover have "queue_inv s'" by (rule queue_inv_cong [OF t(2)]) (simp_all add: assms)
  moreover have "waits s' = waits s" by (rule senders_cong) (simp_all add: assms)
  moreover have "sys_inv s'" using t(4)
    by (intro sys_inv_cong [OF t(4)]) (auto simp: assms sys_inv_def)
  moreover have "mm_inv s'" using t(5) by (simp add: mm_inv_def assms)
  ultimately show ?thesis using t(3) by (simp add: table_inv_def)
qed

lemma not_waiting: "SENDING \<notin> flags s d \<Longrightarrow> d \<noteq> c \<Longrightarrow> (d, c) \<notin> (waits s)\<^sup>*"
  by (auto simp: waits_def elim: converse_rtranclE)

text \<open>A process that loses a flag but keeps another stays blocked.\<close>

lemma table_inv_keep_blocked:
  assumes inv: "table_inv s" and f: "p_flags (f (procs s p)) = F"
      "\<And>P. p_nextready (f P) = p_nextready P" "\<And>P. p_priority (f P) = p_priority P"
      "\<And>P. p_sendlink (f P) = p_sendlink P" "\<And>P. p_callerq (f P) = p_callerq P"
      "\<And>P. p_sendto (f P) = p_sendto P" "\<And>P. p_getfrom (f P) = p_getfrom P"
      "\<And>P. p_map (f P) = p_map P" "\<And>P. p_stguard (f P) = p_stguard P"
    and ne: "flags s p \<noteq> {}" "F \<noteq> {}" and sub: "F \<subseteq> flags s p" "SENDING \<in> F \<longleftrightarrow> SENDING \<in> flags s p"
  shows "table_inv (upd_proc p f s)"
proof -
  note t = table_invD [OF inv]
  have fl: "flags (upd_proc p f s) n = (if n = p then F else flags s n)" for n by (simp add: upd_proc_def f)
  have "sched_inv (upd_proc p f s)"
    by (rule sched_inv_cong [OF t(1)]) (use ne in \<open>auto simp: upd_proc_def f\<close>)
  moreover have "queue_inv (upd_proc p f s)"
    by (rule queue_inv_cong [OF t(2)]) (use sub in \<open>auto simp: upd_proc_def f\<close>)
  moreover have "waits (upd_proc p f s) = waits s"
    by (rule senders_cong) (use sub in \<open>auto simp: upd_proc_def f\<close>)
  moreover have "sys_inv (upd_proc p f s)"
    by (rule sys_inv_cong [OF t(4)]) (use t(4) sub ne in \<open>auto simp: upd_proc_def f sys_inv_def\<close>)
  moreover have "p_getfrom (procs (upd_proc p f s) n) = p_getfrom (procs s n)" for n
    by (simp add: upd_proc_def f)
  then have "mm_inv (upd_proc p f s)" using t(5) sub by (auto simp: mm_inv_def fl)
  ultimately show ?thesis using t(3) by (simp add: table_inv_def)
qed

lemma first_pending_SomeD:
  "first_pending s = Some rp \<Longrightarrow> PENDING \<in> flags s rp \<and> 0 \<le> rp \<and> rp < NR_PROCS"
  by (auto simp: first_pending_def find_Some_iff dest!: nth_mem)

lemma pending_finite: "sig_inv s \<Longrightarrow> finite {p. PENDING \<in> flags s p}"
  by (rule finite_subset [of _ "{0..<NR_PROCS}"]) (auto simp: sig_inv_def)

lemma hardware_send:
  assumes inv: "table_inv s" and mm: "RECEIVING \<in> flags s MM_PROC_NR" "p_getfrom (procs s MM_PROC_NR) = ANY"
  shows "\<exists>s'. lock_mini_send HARDWARE MM_PROC_NR (sys_m s) s = Some (OK, s') \<and> table_inv s'
    \<and> sig_procs s' = sig_procs s \<and> (\<forall>n. prio s' n = prio s n)
    \<and> (\<forall>n. flags s' n = (if n = MM_PROC_NR then flags s n - {RECEIVING} else flags s n))"
proof -
  define s0 where "s0 = s\<lparr>switching := True\<rparr>"
  have t0: "table_inv s0" by (rule table_inv_same [OF inv]) (simp_all add: s0_def)
  have sn: "SENDING \<notin> flags s0 MM_PROC_NR" using table_invD(5) [OF inv] mm by (simp add: mm_inv_def s0_def)
  have y: "prio s0 HARDWARE = PPRI_TASK" "prio s0 MM_PROC_NR = PPRI_SERVER"
    "mess_in_range (procs s0 HARDWARE) (sys_m s)"
    using table_invD(4) [OF inv] by (simp_all add: sys_inv_def s0_def)
  have nw: "(MM_PROC_NR, HARDWARE) \<notin> (waits s0)\<^sup>*" by (rule not_waiting [OF sn]) simp
  have md: "isokprocn MM_PROC_NR" by (simp add: isokprocn_def)
  have e: "mini_send HARDWARE MM_PROC_NR (sys_m s) s0
      = map_option (Pair OK) (send_deliver HARDWARE MM_PROC_NR (sys_m s) s0)"
    using mini_send_cases [OF t0 md, of HARDWARE "sys_m s"] y nw sn mm by (simp add: s0_def)
  obtain s1 where s1: "send_deliver HARDWARE MM_PROC_NR (sys_m s) s0 = Some s1" "table_inv s1"
    "sig_procs s1 = sig_procs s0" "\<forall>n. prio s1 n = prio s0 n"
    "\<forall>n. flags s1 n = (if n = MM_PROC_NR then flags s0 n - {RECEIVING} else flags s0 n)"
    using send_deliver_inv [OF t0 md, of HARDWARE "sys_m s"] sn mm by (auto simp: s0_def)
  have "lock_mini_send HARDWARE MM_PROC_NR (sys_m s) s = Some (OK, s1\<lparr>switching := False\<rparr>)"
    using e s1(1) by (simp add: lock_mini_send_def s0_def)
  moreover have "table_inv (s1\<lparr>switching := False\<rparr>)" by (rule table_inv_same [OF s1(2)]) simp_all
  ultimately show ?thesis using s1 by (auto simp: s0_def)
qed

lemma lock_pick_proc_table [simp]: "table_inv (lock_pick_proc s) \<longleftrightarrow> table_inv s"
proof -
  have sm: "sys_m (pick_proc s) = sys_m s" for s by (auto simp: pick_proc_def split: option.splits)
  show ?thesis unfolding lock_pick_proc_def
    by (rule iffI; erule table_inv_same) (simp_all add: sm)
qed

lemma lock_pick_proc_fields [simp]:
  "procs (lock_pick_proc s) = procs s" "sig_procs (lock_pick_proc s) = sig_procs s"
  by (auto simp: lock_pick_proc_def pick_proc_def split: option.splits)

lemma inform_inv:
  assumes inv: "table_inv s" and g: "sig_inv s"
    and mm: "RECEIVING \<in> flags s MM_PROC_NR" "p_getfrom (procs s MM_PROC_NR) = ANY"
  shows "\<exists>s'. inform s = Some s' \<and> kinv s' \<and> (\<forall>n. prio s' n = prio s n)
    \<and> (\<forall>n. flags s' n \<subseteq> flags s n)"
proof (cases "first_pending s")
  case None
  with inv g show ?thesis by (auto simp: inform_def kinv_def)
next
  case (Some rp)
  note rp = first_pending_SomeD [OF Some]
  have sp: "SIG_PENDING \<in> flags s rp" using g rp by (simp add: sig_inv_def)
  define s4 where "s4 = (let s1 = kstore (sys_m s + 4) KSIG s;
          s2 = kstore (sys_m s + 8) (word_of_int rp) s1;
          s3 = kstore (sys_m s + 20) (p_pending (procs s2 rp)) s2
     in s3\<lparr>sig_procs := sig_procs s3 - 1\<rparr>)"
  have s4f: "procs s4 = procs s" "rdy_head s4 = rdy_head s" "rdy_tail s4 = rdy_tail s" "sys_m s4 = sys_m s"
    "sig_procs s4 = sig_procs s - 1"
    by (simp_all add: s4_def kstore_def Let_def)
  have t4: "table_inv s4" by (rule table_inv_same [OF inv]) (simp_all add: s4f)
  obtain s5 where s5: "lock_mini_send HARDWARE MM_PROC_NR (sys_m s) s4 = Some (OK, s5)" "table_inv s5"
    "sig_procs s5 = sig_procs s - 1" "\<forall>n. prio s5 n = prio s n"
    "\<forall>n. flags s5 n = (if n = MM_PROC_NR then flags s n - {RECEIVING} else flags s n)"
    using hardware_send [OF t4] mm by (auto simp: s4f)
  let ?f = "\<lambda>p. p\<lparr>p_pending := 0, p_flags := p_flags p - {PENDING}\<rparr>"
  define s6 where "s6 = upd_proc rp ?f s5"
  have sp5: "SIG_PENDING \<in> flags s5 rp" using sp s5(5) by auto
  have t6: "table_inv s6"
    unfolding s6_def by (rule table_inv_keep_blocked [OF s5(2), where F = "flags s5 rp - {PENDING}"])
      (use sp5 in auto)
  have fl: "flags s6 n = (if n = rp then flags s5 n - {PENDING} else flags s5 n)" for n
    by (simp add: s6_def upd_proc_def)
  have ps: "{p. PENDING \<in> flags s6 p} = {p. PENDING \<in> flags s p} - {rp}"
    using s5(5) by (auto simp: fl)
  let ?P = "{p. PENDING \<in> flags s p}"
  have c1: "card ?P \<noteq> 0" using rp pending_finite [OF g] by auto
  have "int (card (?P - {rp})) = int (card ?P) - 1"
    using rp c1 by (simp add: card_Diff_singleton)
  moreover have "sig_procs s6 = int (card ?P) - 1"
    using g s5(3) by (simp add: s6_def upd_proc_def sig_inv_def)
  moreover have "0 \<le> n \<and> n < NR_PROCS \<and> SIG_PENDING \<in> flags s6 n" if "PENDING \<in> flags s6 n" for n
    using that g s5(5) by (auto simp: fl sig_inv_def split: if_splits)
  ultimately have g6: "sig_inv s6" by (simp add: sig_inv_def ps)
  have "inform s = Some (lock_pick_proc s6)"
    using Some s5(1) by (simp add: inform_def s4_def s6_def Let_def)
  moreover have "kinv (lock_pick_proc s6)" using t6 g6 by (simp add: kinv_def sig_inv_def)
  moreover have "prio s6 n = prio s n" for n using s5(4) by (simp add: s6_def upd_proc_def)
  moreover have "flags s6 n \<subseteq> flags s n" for n using s5(5) by (auto simp: fl)
  ultimately show ?thesis by auto
qed

subsection \<open>Receiving\<close>

text \<open>
  The scan of the caller queue: the first sender for \<^verbatim>\<open>ANY\<close>, else the wanted one,
  with its predecessor.
\<close>

lemma find_sender_any: "find_sender link ANY prev h = Some (Some (prev, h))"
  by (subst find_sender.simps) simp

lemma find_sender_found:
  assumes "chain link (Some h) (us @ c # vs)" "src = c" "src \<noteq> ANY"
  shows "find_sender link src prev h = Some (Some (if us = [] then prev else Some (last us), c))"
  using assms
proof (induction us arbitrary: h prev)
  case Nil
  then show ?case by (subst find_sender.simps) simp
next
  case (Cons u us)
  then have u: "u = h" and ch: "chain link (link h) (us @ c # vs)" by auto
  then obtain y where y: "link h = Some y" by (cases "link h") auto
  have "distinct ((u # us) @ c # vs)" using chain_distinct Cons.prems(1) by fastforce
  then have "h \<noteq> c" using u by auto
  with y u Cons.prems(2,3) Cons.IH [of y] ch show ?case by (subst find_sender.simps) simp
qed

lemma find_sender_absent:
  assumes "chain link (Some h) cs" "src \<notin> set cs" "src \<noteq> ANY"
  shows "find_sender link src prev h = Some None"
  using assms
proof (induction cs arbitrary: h prev)
  case Nil
  then show ?case by simp
next
  case (Cons u us)
  then show ?case
    by (subst find_sender.simps) (auto split: option.splits)
qed

lemma unlink_sender_spec:
  assumes ch: "chain (sendlink s) (p_callerq (procs s d)) (us @ c # vs)"
  shows "\<exists>s'. unlink_sender d (if us = [] then None else Some (last us)) c s = Some s' \<and> relinked s s'
    \<and> chain (sendlink s') (p_callerq (procs s' d)) (us @ vs)
    \<and> (\<forall>e xs. e \<noteq> d \<longrightarrow> set xs \<inter> set us = {} \<longrightarrow>
         chain (sendlink s) (p_callerq (procs s e)) xs \<longrightarrow> chain (sendlink s') (p_callerq (procs s' e)) xs)"
proof (cases "us = []")
  case True
  define s' where "s' = upd_proc d (\<lambda>p. p\<lparr>p_callerq := p_sendlink (procs s c)\<rparr>) s"
  have sl: "sendlink s' = sendlink s" by (auto simp: s'_def upd_proc_def)
  have cq: "p_callerq (procs s' e) = (if e = d then p_sendlink (procs s c) else p_callerq (procs s e))" for e
    by (simp add: s'_def upd_proc_def)
  have "unlink_sender d None c s = Some s'" using ch True by (simp add: unlink_sender_def s'_def)
  moreover have "relinked s s'" by (simp add: relinked_def s'_def upd_proc_def)
  ultimately show ?thesis using ch True by (auto simp: sl cq)
next
  case False
  define a where "a = last us"
  define s' where "s' = set_sendlink a (p_sendlink (procs s c)) s"
  obtain ws where us: "us = ws @ [a]" using False unfolding a_def by (metis append_butlast_last_id)
  have sl: "sendlink s' = (sendlink s)(a := p_sendlink (procs s c))" by (auto simp: s'_def upd_proc_def)
  have cq: "p_callerq (procs s' e) = p_callerq (procs s e)" for e by (simp add: s'_def upd_proc_def)
  have "distinct (us @ c # vs)" using ch by (rule chain_distinct)
  then have "p_callerq (procs s d) \<noteq> Some c" using ch us by (cases ws) auto
  then have "unlink_sender d (Some a) c s = Some s'" by (simp add: unlink_sender_def s'_def)
  moreover have "relinked s s'" by (simp add: relinked_def s'_def upd_proc_def)
  moreover have "chain (sendlink s') (p_callerq (procs s' d)) (us @ vs)"
    unfolding sl cq using chain_unlink [of "sendlink s" _ ws a c vs] ch us by simp
  moreover have "chain (sendlink s') (p_callerq (procs s' e)) xs"
    if "set xs \<inter> set us = {}" "chain (sendlink s) (p_callerq (procs s e)) xs" for e xs
    unfolding sl cq using that us by (subst chain_upd_other) auto
  ultimately show ?thesis using False unfolding a_def by auto
qed

lemma rec_accept_inv:
  assumes inv: "table_inv s" and cq: "cq_ok s cq" and r: "isokprocn rcv"
    and q: "cq rcv = us @ c # vs" and prev: "prev = (if us = [] then None else Some (last us))"
  shows "\<exists>s'. rec_accept rcv m prev c s = Some (OK, s') \<and> table_inv s' \<and> sig_procs s' = sig_procs s
    \<and> cq_ok s' (cq(rcv := us @ vs)) \<and> (\<forall>n. prio s' n = prio s n)
    \<and> (\<forall>n. flags s' n = (if n = c then flags s n - {SENDING} else flags s n))
    \<and> kmem s' = cp_mess c (mem_phys (p_map (procs s c) SegD)) (p_messbuf (procs s c))
          (mem_phys (p_map (procs s rcv) SegD)) m (kmem s)"
proof -
  note t = table_invD [OF inv]
  define s1 where "s1 = copy_mess c (p_messbuf (procs s c)) rcv m s"
  have s1f: "procs s1 = procs s" "rdy_head s1 = rdy_head s" "rdy_tail s1 = rdy_tail s" "sig_procs s1 = sig_procs s"
    "sys_m s1 = sys_m s"
    by (simp_all add: s1_def copy_mess_def)
  have cqr: "chain (sendlink s1) (p_callerq (procs s1 d)) (cq d)" "set (cq d) = senders s d" if "isokprocn d" for d
    using cq that by (simp_all add: cq_ok_def s1f)
  have csend: "SENDING \<in> flags s c" "p_sendto (procs s c) = rcv"
    using cqr(2) [OF r] q by (auto simp: senders_def)
  obtain s2 where s2: "unlink_sender rcv prev c s1 = Some s2" "relinked s1 s2"
    "chain (sendlink s2) (p_callerq (procs s2 rcv)) (us @ vs)"
    "\<forall>e xs. e \<noteq> rcv \<longrightarrow> set xs \<inter> set us = {} \<longrightarrow>
       chain (sendlink s1) (p_callerq (procs s1 e)) xs \<longrightarrow> chain (sendlink s2) (p_callerq (procs s2 e)) xs"
    using unlink_sender_spec [of s1 rcv us c vs] cqr(1) [OF r] q prev by auto
  note l = relinked_fields [OF s2(2)]
  define s3 where "s3 = upd_proc c (\<lambda>p. p\<lparr>p_flags := p_flags p - {SENDING}\<rparr>) s2"
  have s3f: "p_nextready (procs s3 n) = p_nextready (procs s n)" "prio s3 n = prio s n"
    "flags s3 n = (if n = c then flags s n - {SENDING} else flags s n)"
    "p_sendlink (procs s3 n) = p_sendlink (procs s2 n)" "p_callerq (procs s3 n) = p_callerq (procs s2 n)"
    "p_sendto (procs s3 n) = p_sendto (procs s n)" "p_map (procs s3 n) = p_map (procs s n)"
    "p_stguard (procs s3 n) = p_stguard (procs s n)" "p_getfrom (procs s3 n) = p_getfrom (procs s n)" for n
    by (simp_all add: s3_def upd_proc_def l s1f)
  have s3g: "rdy_head s3 = rdy_head s" "rdy_tail s3 = rdy_tail s" "sig_procs s3 = sig_procs s" "sys_m s3 = sys_m s"
    by (simp_all add: s3_def upd_proc_def l s1f)
  have ne: "flags s c \<noteq> {}" using csend by auto
  have "isokprocn c" using t(2) csend by (simp add: queue_inv_def)
  then obtain s4 where s4: "(if flags s3 c = {} then ready c s3 else Some s3) = Some s4"
    "unqueued s4 = unqueued s3" "sched_inv s4"
    using sched_inv_unblock [OF t(1) ne _ table_inv_flags(2,1) [OF inv ne], of s3] s3f s3g by auto
  note u = unqueued_fields [OF s4(2)]
  have sn: "senders s4 d = (if d = rcv then senders s d - {c} else senders s d)" for d
    using csend by (auto simp: senders_def u s3f)
  have "chain (sendlink s4) (p_callerq (procs s4 d)) ((cq(rcv := us @ vs)) d)
      \<and> set ((cq(rcv := us @ vs)) d) = senders s4 d" if d: "isokprocn d" for d
  proof (cases "d = rcv")
    case True
    have "distinct (us @ c # vs)" using chain_distinct [OF cqr(1) [OF r]] q by simp
    then have "set (us @ vs) = senders s rcv - {c}" using cqr(2) [OF r] q by auto
    with True s2(3) show ?thesis by (simp add: u s3f sn)
  next
    case False
    have "set (cq d) \<inter> set us = {}"
      using senders_disjoint [OF False, of s] cqr(2) [OF d] cqr(2) [OF r] q by auto
    with False s2(4) cqr [OF d] show ?thesis by (simp add: u s3f sn)
  qed
  then have cq4: "cq_ok s4 (cq(rcv := us @ vs))" by (simp add: cq_ok_def)
  have "isokprocn n \<and> isokprocn (p_sendto (procs s4 n))" if "SENDING \<in> flags s4 n" for n
    using that t(2) by (auto simp: queue_inv_def u s3f split: if_splits)
  with cq4 have q4: "queue_inv s4" by (auto simp: queue_inv_def)
  have "waits s4 \<subseteq> waits s" by (auto simp: waits_def u s3f split: if_splits)
  then have w4: "acyclic (waits s4)" using t(3) acyclic_subset by blast
  have y4: "sys_inv s4"
    by (rule sys_inv_cong [OF t(4)]) (use t(4) in \<open>auto simp: u s3f s3g sys_inv_def\<close>)
  have m4: "mm_inv s4" using t(5) by (auto simp: mm_inv_def u s3f split: if_splits)
  have "rec_accept rcv m prev c s = Some (OK, s4)"
    using s2(1) s4(1) unfolding rec_accept_def Let_def s1_def [symmetric]
    by (simp only: Option.bind.bind_lunit s3_def)
  moreover have "table_inv s4" using s4(3) q4 w4 y4 m4 by (simp add: table_inv_def)
  moreover have "kmem s4 = cp_mess c (mem_phys (p_map (procs s c) SegD)) (p_messbuf (procs s c))
          (mem_phys (p_map (procs s rcv) SegD)) m (kmem s)"
    by (simp add: u s3_def upd_proc_def l) (simp add: s1_def copy_mess_def)
  ultimately show ?thesis using cq4 by (auto simp: u s3f s3g)
qed

lemma find_sender_scan:
  assumes inv: "cq_ok s cq" and d: "isokprocn d"
  shows "(case p_callerq (procs s d) of None \<Rightarrow> Some None | Some q \<Rightarrow> find_sender (sendlink s) src None q)
    = Some (case dropWhile (\<lambda>c. src \<noteq> ANY \<and> src \<noteq> c) (cq d) of
        [] \<Rightarrow> None
      | c # _ \<Rightarrow> Some (let us = takeWhile (\<lambda>c. src \<noteq> ANY \<and> src \<noteq> c) (cq d)
                    in (if us = [] then None else Some (last us), c)))"
proof (cases "p_callerq (procs s d)")
  case None
  with inv d have "cq d = []" by (auto simp: cq_ok_def)
  with None show ?thesis by simp
next
  case (Some h)
  have ch: "chain (sendlink s) (Some h) (cq d)" using inv d Some by (auto simp: cq_ok_def)
  then obtain zs where zs: "cq d = h # zs" by (cases "cq d") auto
  show ?thesis
  proof (cases "src = ANY")
    case True
    with Some zs show ?thesis by (simp add: find_sender_any)
  next
    case False
    show ?thesis
    proof (cases "src \<in> set (cq d)")
      case True
      then obtain us vs where sp: "cq d = us @ src # vs" "src \<notin> set us"
        by (meson split_list_first)
      have all: "\<And>x. x \<in> set us \<Longrightarrow> src \<noteq> x" using sp(2) by auto
      have "takeWhile (\<lambda>c. src \<noteq> ANY \<and> src \<noteq> c) (cq d) = us"
        using all False unfolding sp(1) by (simp add: takeWhile_append2)
      moreover have "dropWhile (\<lambda>c. src \<noteq> ANY \<and> src \<noteq> c) (cq d) = src # vs"
        using all False unfolding sp(1) by (simp add: dropWhile_append2)
      moreover have "find_sender (sendlink s) src None h
          = Some (Some (if us = [] then None else Some (last us), src))"
        using find_sender_found [of "sendlink s" h us src vs src None] ch sp False by simp
      ultimately show ?thesis using Some by simp
    next
      case no: False
      have "dropWhile (\<lambda>c. src \<noteq> ANY \<and> src \<noteq> c) (cq d) = []"
        using no False by auto
      then show ?thesis using Some find_sender_absent [OF ch no False]
        by (simp del: dropWhile_eq_Nil_conv)
    qed
  qed
qed

lemma rec_block_inv:
  assumes inv: "kinv s" and c: "isokprocn c" "c \<noteq> HARDWARE" "schedulable (prio s c)"
    and mm: "SENDING \<in> flags s c \<Longrightarrow> src \<noteq> ANY"
  shows "\<exists>s'. rec_block c src m s = Some (OK, s') \<and> kinv s' \<and> (\<forall>n. prio s' n = prio s n)"
proof -
  from inv have ti: "table_inv s" and g: "sig_inv s" by (simp_all add: kinv_def)
  note t = table_invD [OF ti]
  define s1 where "s1 = upd_proc c (\<lambda>p. p\<lparr>p_getfrom := src, p_messbuf := m\<rparr>) s"
  let ?f = "\<lambda>p. p\<lparr>p_flags := insert RECEIVING (p_flags p)\<rparr>"
  have s1f: "p_nextready (procs s1 n) = p_nextready (procs s n)" "prio s1 n = prio s n" "flags s1 n = flags s n"
    "p_sendlink (procs s1 n) = p_sendlink (procs s n)" "p_callerq (procs s1 n) = p_callerq (procs s n)"
    "p_sendto (procs s1 n) = p_sendto (procs s n)" "p_map (procs s1 n) = p_map (procs s n)"
    "p_stguard (procs s1 n) = p_stguard (procs s n)"
    "p_getfrom (procs s1 n) = (if n = c then src else p_getfrom (procs s n))" for n
    by (simp_all add: s1_def upd_proc_def)
  have s1g: "rdy_head s1 = rdy_head s" "rdy_tail s1 = rdy_tail s" "sig_procs s1 = sig_procs s" "sys_m s1 = sys_m s"
    by (simp_all add: s1_def upd_proc_def)
  have si: "sched_inv s1" by (rule sched_inv_cong [OF t(1)]) (auto simp: s1f s1g)
  have gu: "guard_ok s1 c" using t(4) c(2) by (simp add: sys_inv_def guard_ok_def s1f)
  obtain s2 where s2: "(if flags s1 c = {} then unready c s1 else Some s1) = Some s2"
    "unqueued s2 = unqueued s1" "sched_inv (upd_proc c ?f s2)"
    using sched_inv_block [OF si gu] by fastforce
  note u = unqueued_fields [OF s2(2)]
  define s3 where "s3 = upd_proc c ?f s2"
  have s3f: "prio s3 n = prio s n" "flags s3 n = (if n = c then insert RECEIVING (flags s n) else flags s n)"
    "p_sendlink (procs s3 n) = p_sendlink (procs s n)" "p_callerq (procs s3 n) = p_callerq (procs s n)"
    "p_sendto (procs s3 n) = p_sendto (procs s n)"
    "p_map (procs s3 n) = p_map (procs s n)" "p_stguard (procs s3 n) = p_stguard (procs s n)"
    "p_getfrom (procs s3 n) = (if n = c then src else p_getfrom (procs s n))" for n
    by (simp_all add: s3_def upd_proc_def u s1f)
  have s3g: "sig_procs s3 = sig_procs s" "sys_m s3 = sys_m s" by (simp_all add: s3_def upd_proc_def u s1g)
  have q: "queue_inv s3" by (rule queue_inv_cong [OF t(2)]) (auto simp: s3f)
  have w: "waits s3 = waits s" by (rule senders_cong) (auto simp: s3f)
  have y: "sys_inv s3" by (rule sys_inv_cong [OF t(4)]) (use t(4) c in \<open>auto simp: s3f s3g sys_inv_def\<close>)
  have m3: "mm_inv s3" using t(5) mm by (auto simp: mm_inv_def s3f)
  have t3: "table_inv s3" using s2(3) q w y m3 t(3) by (simp add: table_inv_def s3_def)
  have g3: "sig_inv s3" by (rule sig_inv_cong [OF g]) (use g in \<open>auto simp: s3f s3g sig_inv_def\<close>)
  let ?more = "sig_procs s3 > 0 \<and> c = MM_PROC_NR \<and> src = ANY"
  have e: "rec_block c src m s = do { s4 \<leftarrow> (if ?more then inform s3 else Some s3); Some (OK, s4) }"
    unfolding rec_block_def Let_def s1_def [symmetric]
    by (simp only: s2(1) Option.bind.bind_lunit s3_def)
  show ?thesis
  proof (cases ?more)
    case True
    then obtain s4 where "inform s3 = Some s4" "kinv s4" "\<forall>n. prio s4 n = prio s3 n"
      using inform_inv [OF t3 g3] by (auto simp: s3f)
    with True e show ?thesis by (simp add: s3f)
  next
    case False
    with e t3 g3 show ?thesis by (auto simp: s3f kinv_def)
  qed
qed

lemma mini_rec_inv:
  assumes inv: "kinv s" and c: "isokprocn c" "c \<noteq> HARDWARE" "schedulable (prio s c)"
    and mm: "SENDING \<in> flags s c \<Longrightarrow> src \<noteq> ANY"
  shows "\<exists>s'. mini_rec c src m s = Some (OK, s') \<and> kinv s' \<and> (\<forall>n. prio s' n = prio s n)"
proof -
  from inv have ti: "table_inv s" and g: "sig_inv s" by (simp_all add: kinv_def)
  from ti obtain cq where cq: "cq_ok s cq" by (auto simp: table_inv_def queue_inv_def)
  let ?P = "\<lambda>c. src \<noteq> ANY \<and> src \<noteq> c"
  note scan = find_sender_scan [OF cq c(1), of src]
  show ?thesis
  proof (cases "SENDING \<in> flags s c")
    case True
    with rec_block_inv [OF inv c mm, of m] show ?thesis by (simp add: mini_rec_def)
  next
    case False
    show ?thesis
    proof (cases "dropWhile ?P (cq c)")
      case Nil
      let ?hw = "p_int_blocked (procs s c) \<and> isrxhardware src"
      have e: "mini_rec c src m s = (if ?hw then Some (OK, upd_proc c (\<lambda>p. p\<lparr>p_int_blocked := False\<rparr>) (hard_int_mess m s))
          else rec_block c src m s)"
        using scan Nil False by (simp add: mini_rec_def)
      define s1 where "s1 = upd_proc c (\<lambda>p. p\<lparr>p_int_blocked := False\<rparr>) (hard_int_mess m s)"
      have s1f: "p_nextready (procs s1 n) = p_nextready (procs s n)" "prio s1 n = prio s n" "flags s1 n = flags s n"
        "p_sendlink (procs s1 n) = p_sendlink (procs s n)" "p_callerq (procs s1 n) = p_callerq (procs s n)"
        "p_sendto (procs s1 n) = p_sendto (procs s n)" "p_map (procs s1 n) = p_map (procs s n)"
        "p_stguard (procs s1 n) = p_stguard (procs s n)" "p_getfrom (procs s1 n) = p_getfrom (procs s n)"
        "rdy_head s1 = rdy_head s" "rdy_tail s1 = rdy_tail s" "sig_procs s1 = sig_procs s" "sys_m s1 = sys_m s" for n
        by (simp_all add: s1_def upd_proc_def hard_int_mess_def kstore_def)
      note t = table_invD [OF ti]
      have "sched_inv s1" by (rule sched_inv_cong [OF t(1)]) (auto simp: s1f)
      moreover have "queue_inv s1" by (rule queue_inv_cong [OF t(2)]) (auto simp: s1f)
      moreover have "waits s1 = waits s" by (rule senders_cong) (auto simp: s1f)
      moreover have "sys_inv s1" by (rule sys_inv_cong [OF t(4)]) (use t(4) in \<open>auto simp: s1f sys_inv_def\<close>)
      moreover have "mm_inv s1" using t(5) by (simp add: mm_inv_def s1f)
      moreover have "sig_inv s1" using g by (simp add: sig_inv_def s1f)
      ultimately have "kinv s1" using t(3) by (simp add: kinv_def table_inv_def)
      with e rec_block_inv [OF inv c mm, of m] show ?thesis by (auto simp: s1_def [symmetric] s1f)
    next
      case (Cons x vs)
      define us where "us = takeWhile ?P (cq c)"
      have q: "cq c = us @ x # vs" using Cons takeWhile_dropWhile_id [of ?P "cq c"] by (simp add: us_def)
      obtain s' where s': "rec_accept c m (if us = [] then None else Some (last us)) x s = Some (OK, s')"
        "table_inv s'" "sig_procs s' = sig_procs s" "\<forall>n. prio s' n = prio s n"
        "\<forall>n. flags s' n = (if n = x then flags s n - {SENDING} else flags s n)"
        using rec_accept_inv [OF ti cq c(1) q refl, of m] by blast
      have "sig_inv s'" by (rule sig_inv_flags [OF g s'(3), of x "\<lambda>F. F - {SENDING}"]) (use s'(5) in auto)
      have f: "(case p_callerq (procs s c) of None \<Rightarrow> Some None
          | Some q \<Rightarrow> find_sender (sendlink s) src None q)
        = Some (Some (if us = [] then None else Some (last us), x))"
        by (simp add: scan Cons us_def Let_def)
      have "mini_rec c src m s = rec_accept c m (if us = [] then None else Some (last us)) x s"
        by (simp only: mini_rec_def f False not_False_eq_True if_True Option.bind.bind_lunit
            option.case prod.case)
      with \<open>sig_inv s'\<close> show ?thesis using s' by (simp add: kinv_def)
    qed
  qed
qed

end
