(* ===== verification/Kernel_Props.thy ===== *)
theory Kernel_Props
  imports Kernel_IPC_Inv
begin

text \<open>
  The remaining operations of the kernel's message layer (system calls, signals, interrupts,
  the copy of a message) and the properties of the kernel components.
\<close>

subsection \<open>System calls\<close>

lemma sys_call_inv:
  assumes inv: "kinv s" and u: "isuserp (procs s (proc_ptr s))" and ok: "isokprocn (proc_ptr s)"
    and idle: "flags s (proc_ptr s) = {}"
  shows "\<exists>r s'. sys_call function src_dest m s = Some (r, s') \<and> kinv s'"
proof -
  let ?p = "proc_ptr s"
  have t: "table_inv s" using inv by (simp add: kinv_def)
  have y: "sys_inv s" using table_invD(4) [OF t] .
  have hw: "?p \<noteq> HARDWARE" using y u by (auto simp: sys_inv_def)
  have sysd: "d \<noteq> ?p \<and> isokprocn d" if "issysentn d" for d
    using that y u by (auto simp: sys_inv_def issysentn_def isokprocn_def)
  show ?thesis
  proof (cases "isoksrc_dest src_dest \<and> function = BOTH")
    case False
    with u inv show ?thesis by (auto simp: sys_call_def Let_def)
  next
    case True
    show ?thesis
    proof (cases "issysentn src_dest")
      case False
      with True u inv show ?thesis by (simp add: sys_call_def mini_send_def)
    next
      case d: True
      have sch: "schedulable (prio s ?p)" using u by (simp add: schedulable_def)
      obtain r s1 where s1: "mini_send ?p src_dest m s = Some (r, s1)" "kinv s1" "\<forall>n. prio s1 n = prio s n"
        "SENDING \<in> flags s1 ?p \<longrightarrow> p_sendto (procs s1 ?p) = src_dest"
        using mini_send_inv [OF inv ok sch, of src_dest m] sysd [OF d] idle hw by auto
      have "src_dest \<noteq> ANY" using d by (auto simp: issysentn_def)
      then obtain s2 where "mini_rec ?p src_dest m s1 = Some (OK, s2)" "kinv s2"
        using mini_rec_inv [OF s1(2) ok hw, of src_dest m] s1(3) sch by auto
      with s1 True u show ?thesis by (auto simp: sys_call_def Let_def)
    qed
  qed
qed

subsection \<open>Signals\<close>

lemma cause_sig_inv:
  assumes inv: "kinv s" and p: "0 \<le> p" "p < NR_PROCS" and sch: "schedulable (prio s p)"
  shows "\<exists>s'. cause_sig p sg s = Some s' \<and> kinv s' \<and> (\<forall>n. prio s' n = prio s n)
    \<and> (\<forall>n. n \<noteq> p \<longrightarrow> flags s' n \<subseteq> flags s n)"
proof (cases "sigismember (p_pending (procs s p)) sg \<noteq> 0")
  case True
  with inv p show ?thesis by (simp add: cause_sig_def isokprocn_def)
next
  case new: False
  have okp: "isokprocn p" using p by (simp add: isokprocn_def)
  have ti: "table_inv s" and g: "sig_inv s" using inv by (simp_all add: kinv_def)
  note t = table_invD [OF ti]
  define s1 where "s1 = upd_proc p (\<lambda>p. p\<lparr>p_pending := sigaddset (p_pending p) sg,
                        p_pendcount := p_pendcount p + 1\<rparr>) s"
  have s1f: "p_nextready (procs s1 n) = p_nextready (procs s n)" "prio s1 n = prio s n" "flags s1 n = flags s n"
    "p_sendlink (procs s1 n) = p_sendlink (procs s n)" "p_callerq (procs s1 n) = p_callerq (procs s n)"
    "p_sendto (procs s1 n) = p_sendto (procs s n)" "p_map (procs s1 n) = p_map (procs s n)"
    "p_stguard (procs s1 n) = p_stguard (procs s n)" "p_getfrom (procs s1 n) = p_getfrom (procs s n)"
    "rdy_head s1 = rdy_head s" "rdy_tail s1 = rdy_tail s" "sig_procs s1 = sig_procs s" "sys_m s1 = sys_m s" for n
    by (simp_all add: s1_def upd_proc_def)
  have si1: "sched_inv s1" by (rule sched_inv_cong [OF t(1)]) (auto simp: s1f)
  have y1: "sys_inv s1" by (rule sys_inv_cong [OF t(4)]) (use t(4) in \<open>auto simp: s1f sys_inv_def\<close>)
  have q1: "queue_inv s1" by (rule queue_inv_cong [OF t(2)]) (auto simp: s1f)
  have w1: "waits s1 = waits s" by (rule senders_cong) (auto simp: s1f)
  have m1: "mm_inv s1" using t(5) by (simp add: mm_inv_def s1f)
  have g1: "sig_inv s1" using g by (simp add: sig_inv_def s1f)
  show ?thesis
  proof (cases "PENDING \<in> flags s p")
    case True
    have "cause_sig p sg s = Some s1" using new True okp by (simp add: cause_sig_def s1_def upd_proc_def)
    moreover have "kinv s1" using si1 y1 q1 w1 m1 g1 t(3) by (simp add: kinv_def table_inv_def)
    ultimately show ?thesis by (simp add: s1f)
  next
    case np: False
    let ?f = "\<lambda>p. p\<lparr>p_flags := p_flags p \<union> {PENDING, SIG_PENDING}\<rparr>"
    define s0 where "s0 = s1\<lparr>switching := True\<rparr>"
    have si0: "sched_inv s0" by (rule sched_inv_cong [OF si1]) (auto simp: s0_def)
    have gu: "guard_ok s0 p" using y1 p by (simp add: sys_inv_def guard_ok_def s0_def)
    obtain s2 where s2: "(if flags s0 p = {} then unready p s0 else Some s0) = Some s2"
      "unqueued s2 = unqueued s0" "sched_inv (upd_proc p ?f s2)"
      using sched_inv_block [OF si0 gu] by fastforce
    note u = unqueued_fields [OF s2(2)]
    define s2' where "s2' = (if flags s1 p = {} then s2\<lparr>switching := False\<rparr> else s1)"
    have s2'e: "(if flags s1 p = {} then lock_unready p s1 else Some s1) = Some s2'"
      using s2(1) by (auto simp: s2'_def lock_unready_def s0_def)
    have s2f: "procs s2' = procs s2" "rdy_head s2' = rdy_head s2" "rdy_tail s2' = rdy_tail s2"
      "sig_procs s2' = sig_procs s" "sys_m s2' = sys_m s"
    proof -
      have ug: "sig_procs s2 = sig_procs s" "sys_m s2 = sys_m s" by (simp_all add: u s0_def s1f)
      have "s2' = s2\<lparr>switching := False\<rparr> \<or> s2' = s1 \<and> s2 = s0"
        using s2(1) by (auto simp: s2'_def s0_def split: if_splits)
      with ug show "procs s2' = procs s2" "rdy_head s2' = rdy_head s2" "rdy_tail s2' = rdy_tail s2"
        "sig_procs s2' = sig_procs s" "sys_m s2' = sys_m s"
        by (auto simp: s0_def)
    qed
    define s4 where "s4 = (upd_proc p ?f s2')\<lparr>sig_procs := sig_procs (upd_proc p ?f s2') + 1\<rparr>"
    have s4f: "prio s4 n = prio s n"
      "flags s4 n = (if n = p then flags s n \<union> {PENDING, SIG_PENDING} else flags s n)"
      "p_sendlink (procs s4 n) = p_sendlink (procs s n)" "p_callerq (procs s4 n) = p_callerq (procs s n)"
      "p_sendto (procs s4 n) = p_sendto (procs s n)" "p_map (procs s4 n) = p_map (procs s n)"
      "p_stguard (procs s4 n) = p_stguard (procs s n)" "p_getfrom (procs s4 n) = p_getfrom (procs s n)"
      "sig_procs s4 = sig_procs s + 1" "sys_m s4 = sys_m s" for n
      by (simp_all add: s4_def upd_proc_def s2f u) (simp_all add: s0_def s1f)
    have si4: "sched_inv s4" by (rule sched_inv_cong [OF s2(3)]) (simp_all add: s4_def upd_proc_def s2f)
    have q4: "queue_inv s4" by (rule queue_inv_cong [OF t(2)]) (auto simp: s4f)
    have w4: "waits s4 = waits s" by (rule senders_cong) (auto simp: s4f)
    have tk: "\<not> istaskp (procs s p)" using y1 p by (auto simp: sys_inv_def s1f)
    have hw: "p \<noteq> HARDWARE" using p by auto
    have y4: "sys_inv s4"
      by (rule sys_inv_cong [OF t(4)]) (use t(4) sch tk hw in \<open>auto simp: s4f sys_inv_def\<close>)
    have m4: "mm_inv s4" using t(5) by (auto simp: mm_inv_def s4f)
    have t4: "table_inv s4" using si4 q4 w4 y4 m4 t(3) by (simp add: table_inv_def)
    have "{n. PENDING \<in> flags s4 n} = insert p {n. PENDING \<in> flags s n}" by (auto simp: s4f)
    then have g4: "sig_inv s4"
      using g np p pending_finite [OF g] by (auto simp: sig_inv_def s4f)
    let ?mm = "RECEIVING \<notin> flags s4 MM_PROC_NR \<or> p_getfrom (procs s4 MM_PROC_NR) \<noteq> ANY"
    have e: "cause_sig p sg s = (if ?mm then Some s4 else inform s4)"
    proof -
      have np1: "PENDING \<notin> flags s1 p" using np by (simp add: s1f)
      show ?thesis
        unfolding cause_sig_def Let_def s1_def [symmetric]
        using new by (simp only: okp np1 simp_thms if_False if_True s2'e Option.bind.bind_lunit s4_def)
    qed
    show ?thesis
    proof (cases ?mm)
      case True
      with e t4 g4 show ?thesis by (simp add: kinv_def s4f)
    next
      case False
      then obtain s' where "inform s4 = Some s'" "kinv s'" "\<forall>n. prio s' n = prio s4 n" "\<forall>n. flags s' n \<subseteq> flags s4 n"
        using inform_inv [OF t4 g4] by auto
      with e False show ?thesis by (auto simp: s4f split: if_splits)
    qed
  qed
qed

subsection \<open>The copy of a message\<close>

text \<open>The regions of 36 bytes at \<open>a\<close> and \<open>b\<close> do not meet.\<close>

definition mess_disjoint :: "u32 \<Rightarrow> u32 \<Rightarrow> bool" where
  "mess_disjoint a b \<longleftrightarrow> (\<forall>i < 36. \<forall>j < 36. a + of_nat i \<noteq> b + of_nat j)"

lemma of_nat32_eq: "i < 2 ^ 32 \<Longrightarrow> j < 2 ^ 32 \<Longrightarrow> (of_nat i :: u32) = of_nat j \<longleftrightarrow> i = j"
  by (simp add: word_of_nat_eq_iff take_bit_nat_eq_self)

lemma movs32_at:
  assumes "k < 2 ^ 32" "n < 2 ^ 31"
  shows "movs32 (si + of_nat n) (di + of_nat n) m (di + of_nat k)
    = (if n \<le> k \<and> k < n + 4 then m (si + of_nat k) else m (di + of_nat k))"
proof -
  have e: "of_nat n + (1::u32) = of_nat (n + 1)" "of_nat n + (2::u32) = of_nat (n + 2)"
    "of_nat n + (3::u32) = of_nat (n + 3)" by simp_all
  have k: "n \<le> k \<and> k < n + 4 \<longleftrightarrow> k = n \<or> k = n + 1 \<or> k = n + 2 \<or> k = n + 3" by auto
  have i: "(of_nat k :: u32) = of_nat (n + j) \<longleftrightarrow> k = n + j" if "j < 4" for j
    using of_nat32_eq [of k "n + j"] assms that by simp
  show ?thesis
    unfolding movs32_def k add.assoc e fun_upd_apply add_left_cancel
    using i [of 0] i [of 1] i [of 2] i [of 3] by (auto simp del: of_nat_add)
qed

lemma cp_fold:
  assumes dj: "mess_disjoint si di" and "n \<le> 8" "k < 36"
  shows "fold (\<lambda>i. movs32 (si + 4 + 4 * of_nat i) (di + 4 + 4 * of_nat i)) [0..<n] m (di + of_nat k)
      = (if 4 \<le> k \<and> k < 4 + 4 * n then m (si + of_nat k) else m (di + of_nat k))
    \<and> (\<forall>a. (\<forall>j < 36. a \<noteq> di + of_nat j) \<longrightarrow>
        fold (\<lambda>i. movs32 (si + 4 + 4 * of_nat i) (di + 4 + 4 * of_nat i)) [0..<n] m a = m a)"
  using assms(2,3)
proof (induction n arbitrary: k)
  case 0
  then show ?case by auto
next
  case (Suc n)
  let ?M = "fold (\<lambda>i. movs32 (si + 4 + 4 * of_nat i) (di + 4 + 4 * of_nat i)) [0..<n] m"
  have e: "si + 4 + 4 * of_nat n = si + of_nat (4 + 4 * n)" "di + 4 + 4 * of_nat n = di + of_nat (4 + 4 * n)"
    by (simp_all add: add.assoc)
  have out: "?M a = m a" if "\<forall>j < 36. a \<noteq> di + of_nat j" for a
    using Suc.IH [of 0] Suc.prems that by simp
  have src: "?M (si + of_nat j) = m (si + of_nat j)" if "j < 36" for j
    using dj that by (intro out) (simp add: mess_disjoint_def)
  have "movs32 (si + of_nat (4 + 4 * n)) (di + of_nat (4 + 4 * n)) ?M (di + of_nat k)
      = (if 4 \<le> k \<and> k < 4 + 4 * Suc n then m (si + of_nat k) else m (di + of_nat k))"
    using Suc.IH [of k] Suc.prems src [of k] by (subst movs32_at) auto
  moreover have "movs32 (si + of_nat (4 + 4 * n)) (di + of_nat (4 + 4 * n)) ?M a = m a"
    if a: "\<forall>j < 36. a \<noteq> di + of_nat j" for a
  proof -
    have "a \<noteq> di + of_nat (4 + 4 * n + j)" if "j < 4" for j
    proof -
      have "4 + 4 * n + j < 36" using that Suc.prems by simp
      then show ?thesis using a by blast
    qed
    from this [of 0] this [of 1] this [of 2] this [of 3] show ?thesis
      using out [OF a] by (simp add: movs32_def add.assoc)
  qed
  ultimately show ?case by (simp add: e del: of_nat_add of_nat_mult)
qed

lemma put32_at: "4 \<le> k \<Longrightarrow> k < 36 \<Longrightarrow> put32 m d v (d + of_nat k) = m (d + of_nat k)"
proof -
  assume k: "4 \<le> k" "k < 36"
  have "(of_nat k :: u32) \<noteq> of_nat j" if "j < 4" for j using of_nat32_eq [of k j] k that by simp
  from this [of 0] this [of 1] this [of 2] this [of 3] show ?thesis
    by (intro put32_outside) auto
qed

subsection \<open>Interrupts\<close>

text \<open>The queue of held-up interrupts as a list: each held task is on it once.\<close>

definition held_ok :: "kstate \<Rightarrow> int list \<Rightarrow> bool" where
  "held_ok s hs \<longleftrightarrow> chain (nextheld s) (held_head s) hs
     \<and> (hs \<noteq> [] \<longrightarrow> held_tail s = Some (last hs)) \<and> (\<forall>t. p_int_held (procs s t) \<longleftrightarrow> t \<in> set hs)"

definition held_frame :: "kstate \<Rightarrow> kstate \<Rightarrow> bool" where
  "held_frame s s' \<longleftrightarrow> (\<forall>n. (procs s' n)\<lparr>p_nextheld := None, p_int_held := False\<rparr>
       = (procs s n)\<lparr>p_nextheld := None, p_int_held := False\<rparr>)
     \<and> s'\<lparr>procs := procs s, held_head := held_head s, held_tail := held_tail s\<rparr> = s"

lemma held_frame_fields:
  assumes "held_frame s s'"
  shows "p_flags (procs s' n) = p_flags (procs s n)" "p_priority (procs s' n) = p_priority (procs s n)"
    "p_nextready (procs s' n) = p_nextready (procs s n)" "p_sendto (procs s' n) = p_sendto (procs s n)"
    "p_getfrom (procs s' n) = p_getfrom (procs s n)" "p_map (procs s' n) = p_map (procs s n)"
    "p_stguard (procs s' n) = p_stguard (procs s n)" "p_sendlink (procs s' n) = p_sendlink (procs s n)"
    "p_callerq (procs s' n) = p_callerq (procs s n)" "p_int_blocked (procs s' n) = p_int_blocked (procs s n)"
    "rdy_head s' = rdy_head s" "rdy_tail s' = rdy_tail s" "sig_procs s' = sig_procs s"
    "sys_m s' = sys_m s" "k_reenter s' = k_reenter s" "switching s' = switching s"
proof -
  have f: "(procs s' n)\<lparr>p_nextheld := None, p_int_held := False\<rparr>
       = (procs s n)\<lparr>p_nextheld := None, p_int_held := False\<rparr>" using assms by (auto simp: held_frame_def)
  have g: "s'\<lparr>procs := procs s, held_head := held_head s, held_tail := held_tail s\<rparr> = s"
    using assms by (simp add: held_frame_def)
  show "p_flags (procs s' n) = p_flags (procs s n)" using arg_cong [OF f, of p_flags] by simp
  show "p_priority (procs s' n) = p_priority (procs s n)" using arg_cong [OF f, of p_priority] by simp
  show "p_nextready (procs s' n) = p_nextready (procs s n)" using arg_cong [OF f, of p_nextready] by simp
  show "p_sendto (procs s' n) = p_sendto (procs s n)" using arg_cong [OF f, of p_sendto] by simp
  show "p_getfrom (procs s' n) = p_getfrom (procs s n)" using arg_cong [OF f, of p_getfrom] by simp
  show "p_map (procs s' n) = p_map (procs s n)" using arg_cong [OF f, of p_map] by simp
  show "p_stguard (procs s' n) = p_stguard (procs s n)" using arg_cong [OF f, of p_stguard] by simp
  show "p_sendlink (procs s' n) = p_sendlink (procs s n)" using arg_cong [OF f, of p_sendlink] by simp
  show "p_callerq (procs s' n) = p_callerq (procs s n)" using arg_cong [OF f, of p_callerq] by simp
  show "p_int_blocked (procs s' n) = p_int_blocked (procs s n)" using arg_cong [OF f, of p_int_blocked] by simp
  show "rdy_head s' = rdy_head s" using arg_cong [OF g, of rdy_head] by simp
  show "rdy_tail s' = rdy_tail s" using arg_cong [OF g, of rdy_tail] by simp
  show "sig_procs s' = sig_procs s" using arg_cong [OF g, of sig_procs] by simp
  show "sys_m s' = sys_m s" using arg_cong [OF g, of sys_m] by simp
  show "k_reenter s' = k_reenter s" using arg_cong [OF g, of k_reenter] by simp
  show "switching s' = switching s" using arg_cong [OF g, of switching] by simp
qed

text \<open>The invariant reads none of the fields the interrupt code writes for itself.\<close>

lemma kinv_frame:
  assumes inv: "kinv s"
    and f: "\<And>n. p_flags (procs s' n) = p_flags (procs s n)" "\<And>n. p_priority (procs s' n) = p_priority (procs s n)"
    "\<And>n. p_nextready (procs s' n) = p_nextready (procs s n)" "\<And>n. p_sendto (procs s' n) = p_sendto (procs s n)"
    "\<And>n. p_getfrom (procs s' n) = p_getfrom (procs s n)" "p_map (procs s' HARDWARE) = p_map (procs s HARDWARE)"
    "\<And>n. p_stguard (procs s' n) = p_stguard (procs s n)" "\<And>n. p_sendlink (procs s' n) = p_sendlink (procs s n)"
    "\<And>n. p_callerq (procs s' n) = p_callerq (procs s n)"
    "rdy_head s' = rdy_head s" "rdy_tail s' = rdy_tail s" "sig_procs s' = sig_procs s" "sys_m s' = sys_m s"
  shows "kinv s'"
proof -
  have ti: "table_inv s" and g: "sig_inv s" using inv by (simp_all add: kinv_def)
  note t = table_invD [OF ti]
  have "sched_inv s'" by (rule sched_inv_cong [OF t(1)]) (simp_all add: f)
  moreover have "queue_inv s'" by (rule queue_inv_cong [OF t(2)]) (simp_all add: f)
  moreover have "waits s' = waits s" by (rule senders_cong) (simp_all add: f)
  moreover have "sys_inv s'" by (rule sys_inv_cong [OF t(4)]) (use t(4) in \<open>auto simp: f sys_inv_def\<close>)
  moreover have "mm_inv s'" using t(5) by (simp add: mm_inv_def f)
  moreover have "sig_inv s'" using g by (simp add: sig_inv_def f)
  ultimately show ?thesis using t(3) by (simp add: kinv_def table_inv_def)
qed

lemma held_frame_kinv: "kinv s \<Longrightarrow> held_frame s s' \<Longrightarrow> kinv s'"
  by (erule kinv_frame) (simp_all add: held_frame_fields)

lemma held_frame_trans: "held_frame s s' \<Longrightarrow> held_frame s' s'' \<Longrightarrow> held_frame s s''"
  by (cases s; cases s'; cases s'') (auto simp: held_frame_def)

lemma held_frame_refl [simp]: "held_frame s s"
  by (simp add: held_frame_def)

abbreviation hold_add :: "int \<Rightarrow> int list \<Rightarrow> int list" where
  "hold_add t hs \<equiv> if t \<in> set hs then hs else hs @ [t]"

lemma hold_spec:
  assumes ok: "held_ok s hs"
  shows "\<exists>s'. hold t s = Some s' \<and> held_ok s' (hold_add t hs) \<and> held_frame s s'"
proof (cases "t \<in> set hs")
  case True
  with ok show ?thesis by (auto simp: hold_def held_ok_def)
next
  case False
  then have nh: "\<not> p_int_held (procs s t)" using ok by (simp add: held_ok_def)
  show ?thesis
  proof (cases "hs = []")
    case True
    define s' where "s' = upd_proc t (\<lambda>p. p\<lparr>p_nextheld := None\<rparr>)
      ((upd_proc t (\<lambda>p. p\<lparr>p_int_held := True\<rparr>) s)\<lparr>held_head := Some t, held_tail := Some t\<rparr>)"
    have "hold t s = Some s'"
      using nh ok True by (simp add: hold_def s'_def held_ok_def upd_proc_def)
    moreover have "held_ok s' [t]" using ok True by (auto simp: held_ok_def s'_def upd_proc_def)
    moreover have "held_frame s s'" by (simp add: held_frame_def s'_def upd_proc_def)
    ultimately show ?thesis using True by auto
  next
    case ne: False
    define l where "l = last hs"
    have l: "l \<in> set hs" "l \<noteq> t" using ne False by (auto simp: l_def)
    have h: "held_head s = Some (hd hs)" "held_tail s = Some l"
      using ok ne chain_hd unfolding held_ok_def l_def by (auto dest: chain_hd)
    define s' where "s' = upd_proc t (\<lambda>p. p\<lparr>p_nextheld := None\<rparr>)
      ((upd_proc l (\<lambda>p. p\<lparr>p_nextheld := Some t\<rparr>) (upd_proc t (\<lambda>p. p\<lparr>p_int_held := True\<rparr>) s))\<lparr>held_tail := Some t\<rparr>)"
    have "hold t s = Some s'" using nh h by (simp add: hold_def s'_def upd_proc_def)
    moreover have "held_ok s' (hs @ [t])"
    proof -
      have "nextheld s' = (nextheld s)(l := Some t, t := None)"
        using l by (auto simp: s'_def upd_proc_def fun_eq_iff)
      moreover have "held_head s' = held_head s" "held_tail s' = Some t"
        "\<And>x. p_int_held (procs s' x) \<longleftrightarrow> x = t \<or> p_int_held (procs s x)"
        using l by (auto simp: s'_def upd_proc_def)
      moreover have "chain ((nextheld s)(l := Some t, t := None)) (held_head s) (hs @ [t])"
        using chain_snoc ok ne False unfolding held_ok_def l_def by fast
      ultimately show ?thesis using ok by (auto simp: held_ok_def)
    qed
    moreover have "held_frame s s'" using l by (simp add: held_frame_def s'_def upd_proc_def)
    ultimately show ?thesis using False by auto
  qed
qed

lemma hold_all_spec:
  assumes "held_ok s hs"
  shows "\<exists>s'. hold_all ts s = Some s' \<and> held_ok s' (fold hold_add ts hs) \<and> held_frame s s'"
  using assms
proof (induction ts arbitrary: s hs)
  case Nil
  then show ?case by auto
next
  case (Cons t ts)
  obtain s1 where s1: "hold t s = Some s1" "held_ok s1 (hold_add t hs)" "held_frame s s1"
    using hold_spec [OF Cons.prems] by blast
  obtain s2 where "hold_all ts s1 = Some s2" "held_ok s2 (fold hold_add ts (hold_add t hs))" "held_frame s1 s2"
    using Cons.IH [OF s1(2)] by blast
  with s1 held_frame_trans show ?case by auto
qed

text \<open>
  An interrupt that is not held back reaches its task: either the task was waiting for it and is
  made ready with the message, or it will find the interrupt recorded.
\<close>

lemma interrupt_direct:
  assumes inv: "kinv s" and sw: "k_reenter s = 0" "\<not> switching s"
    and task: "istaskp (procs s t)" "isokprocn t"
  shows "\<exists>s'. interrupt t s = Some s' \<and> kinv s' \<and> k_reenter s' = 0 \<and> \<not> switching s'
    \<and> (\<forall>n. prio s' n = prio s n)
    \<and> held_head s' = held_head s \<and> held_tail s' = held_tail s
    \<and> (\<forall>n. p_nextheld (procs s' n) = p_nextheld (procs s n) \<and> p_int_held (procs s' n) = p_int_held (procs s n))
    \<and> (if RECEIVING \<in> flags s t \<and> SENDING \<notin> flags s t \<and> isrxhardware (p_getfrom (procs s t))
       then flags s' t = {} \<and> \<not> p_int_blocked (procs s' t)
         \<and> kmem s' = kmem (hard_int_mess (p_messbuf (procs s t)) s)
       else p_int_blocked (procs s' t) \<and> (\<forall>n. flags s' n = flags s n))
    \<and> (\<forall>n. n \<noteq> t \<longrightarrow> flags s' n = flags s n \<and> p_int_blocked (procs s' n) = p_int_blocked (procs s n))"
proof (cases "RECEIVING \<in> flags s t \<and> SENDING \<notin> flags s t \<and> isrxhardware (p_getfrom (procs s t))")
  case False
  define s' where "s' = (upd_proc t (\<lambda>p. p\<lparr>p_int_blocked := True\<rparr>) (s\<lparr>switching := True\<rparr>))\<lparr>switching := False\<rparr>"
  have "kinv s'" by (rule kinv_frame [OF inv]) (simp_all add: s'_def upd_proc_def)
  moreover have "interrupt t s = Some s'" using sw False by (auto simp: interrupt_def s'_def Let_def)
  ultimately show ?thesis using False sw by (auto simp: s'_def upd_proc_def)
next
  case True
  have ti: "table_inv s" and g: "sig_inv s" using inv by (simp_all add: kinv_def)
  note t = table_invD [OF ti]
  have ne: "flags s t \<noteq> {}" using True by auto
  have fl: "flags s t = {RECEIVING}" using True t(4) task by (auto simp: sys_inv_def)
  define s2 where "s2 = upd_proc t (\<lambda>p. p\<lparr>p_flags := p_flags p - {RECEIVING}, p_int_blocked := False\<rparr>)
    (hard_int_mess (p_messbuf (procs s t)) (s\<lparr>switching := True\<rparr>))"
  have s2f: "p_nextready (procs s2 n) = p_nextready (procs s n)" "prio s2 n = prio s n"
    "flags s2 n = (if n = t then {} else flags s n)"
    "p_sendlink (procs s2 n) = p_sendlink (procs s n)" "p_callerq (procs s2 n) = p_callerq (procs s n)"
    "p_sendto (procs s2 n) = p_sendto (procs s n)" "p_map (procs s2 n) = p_map (procs s n)"
    "p_stguard (procs s2 n) = p_stguard (procs s n)" "p_getfrom (procs s2 n) = p_getfrom (procs s n)"
    "p_nextheld (procs s2 n) = p_nextheld (procs s n)" "p_int_held (procs s2 n) = p_int_held (procs s n)"
    "p_int_blocked (procs s2 n) = (n \<noteq> t \<and> p_int_blocked (procs s n))" for n
    using fl by (auto simp: s2_def upd_proc_def hard_int_mess_def kstore_def)
  have s2g: "rdy_head s2 = rdy_head s" "rdy_tail s2 = rdy_tail s" "sig_procs s2 = sig_procs s"
    "sys_m s2 = sys_m s" "held_head s2 = held_head s" "held_tail s2 = held_tail s"
    "k_reenter s2 = k_reenter s" "kmem s2 = kmem (hard_int_mess (p_messbuf (procs s t)) s)"
    by (simp_all add: s2_def upd_proc_def hard_int_mess_def kstore_def)
  obtain s3 where s3: "ready t s2 = Some s3" "unqueued s3 = unqueued s2" "sched_inv s3"
    using sched_inv_unblock [OF t(1) ne task(2) table_inv_flags(2,1) [OF ti ne], of s2] s2f s2g by auto
  note u = unqueued_fields [OF s3(2)]
  have q: "queue_inv s3" by (rule queue_inv_cong [OF t(2)]) (use True in \<open>auto simp: u s2f\<close>)
  have w: "waits s3 = waits s" by (rule senders_cong) (use True in \<open>auto simp: u s2f\<close>)
  have g3: "sig_inv s3"
    by (rule sig_inv_cong [OF g]) (use g fl in \<open>auto simp: u s2f s2g sig_inv_def\<close>)
  have y: "sys_inv s3" by (rule sys_inv_cong [OF t(4)]) (use t(4) in \<open>auto simp: u s2f s2g sys_inv_def\<close>)
  have m: "mm_inv s3" using t(5) by (auto simp: mm_inv_def u s2f)
  have "kinv s3" using s3(3) q w g3 y m t(3) by (simp add: kinv_def table_inv_def)
  then have "kinv (s3\<lparr>switching := False\<rparr>)" by (rule kinv_frame) simp_all
  moreover have "interrupt t s = Some (s3\<lparr>switching := False\<rparr>)"
    using sw True s3(1) by (simp add: interrupt_def s2_def Let_def)
  ultimately show ?thesis using True sw by (auto simp: u s2f s2g)
qed

text \<open>
  One round of \<^verbatim>\<open>unhold()\<close>: the first held task gets its interrupt, the interrupts
  that arrive meanwhile join the queue.
\<close>

definition served :: "kstate \<Rightarrow> int \<Rightarrow> bool" where
  "served s t \<longleftrightarrow> p_int_blocked (procs s t) \<or> flags s t = {}"

definition all_tasks :: "kstate \<Rightarrow> int set \<Rightarrow> bool" where
  "all_tasks s T \<longleftrightarrow> (\<forall>t \<in> T. istaskp (procs s t) \<and> isokprocn t)"

lemma fold_hold_add_set: "set (fold hold_add ts hs) = set hs \<union> set ts"
  by (induction ts arbitrary: hs) auto

lemma fold_hold_add_length: "length (fold hold_add ts hs) \<le> length hs + length ts"
proof (induction ts arbitrary: hs)
  case Nil
  then show ?case by simp
next
  case (Cons a ts)
  have "length (fold hold_add ts hs) \<le> length hs + length ts"
    "length (fold hold_add ts (hs @ [a])) \<le> length hs + length ts + 1"
    using Cons.IH [of hs] Cons.IH [of "hs @ [a]"] by simp_all
  then show ?case by simp
qed

lemma unhold_round_spec:
  assumes inv: "kinv s" and ok: "held_ok s (t # hs)" and sw: "k_reenter s = 0" "\<not> switching s"
    and tk: "istaskp (procs s t)" "isokprocn t"
  shows "\<exists>s'. unhold_round ts t s = Some s' \<and> kinv s' \<and> held_ok s' (fold hold_add ts hs)
    \<and> k_reenter s' = 0 \<and> \<not> switching s' \<and> (\<forall>n. prio s' n = prio s n)
    \<and> served s' t \<and> (\<forall>n. served s n \<longrightarrow> served s' n)"
proof -
  define s1 where "s1 = s\<lparr>held_head := p_nextheld (procs s t)\<rparr>"
  define s2 where "s2 = (if held_head s1 = None then s1\<lparr>held_tail := None\<rparr> else s1)"
  define s3 where "s3 = upd_proc t (\<lambda>p. p\<lparr>p_int_held := False\<rparr>) s2"
  have ch: "chain (nextheld s) (p_nextheld (procs s t)) hs" using ok by (simp add: held_ok_def)
  have d: "t \<notin> set hs" using ok chain_distinct unfolding held_ok_def by fastforce
  have s3f: "p_flags (procs s3 n) = p_flags (procs s n)" "p_priority (procs s3 n) = p_priority (procs s n)"
    "p_nextready (procs s3 n) = p_nextready (procs s n)" "p_sendto (procs s3 n) = p_sendto (procs s n)"
    "p_getfrom (procs s3 n) = p_getfrom (procs s n)" "p_map (procs s3 n) = p_map (procs s n)"
    "p_stguard (procs s3 n) = p_stguard (procs s n)" "p_sendlink (procs s3 n) = p_sendlink (procs s n)"
    "p_callerq (procs s3 n) = p_callerq (procs s n)" "p_int_blocked (procs s3 n) = p_int_blocked (procs s n)"
    "p_nextheld (procs s3 n) = p_nextheld (procs s n)"
    "p_int_held (procs s3 n) \<longleftrightarrow> n \<noteq> t \<and> p_int_held (procs s n)" for n
    by (simp_all add: s3_def s2_def s1_def upd_proc_def)
  have s3g: "rdy_head s3 = rdy_head s" "rdy_tail s3 = rdy_tail s" "sig_procs s3 = sig_procs s" "sys_m s3 = sys_m s"
    "k_reenter s3 = k_reenter s" "switching s3 = switching s" "held_head s3 = p_nextheld (procs s t)"
    "held_tail s3 = (if p_nextheld (procs s t) = None then None else held_tail s)"
    by (simp_all add: s3_def s2_def s1_def upd_proc_def)
  have k3: "kinv s3" by (rule kinv_frame [OF inv]) (simp_all add: s3f s3g)
  have "held_tail s = Some (last hs)" if "hs \<noteq> []" using ok that by (simp add: held_ok_def)
  moreover have "p_nextheld (procs s t) = None \<longleftrightarrow> hs = []" using chain_hd [OF ch] by simp
  ultimately have h3: "held_ok s3 hs" using ch ok d unfolding held_ok_def by (auto simp: s3f s3g)
  obtain s4 where s4: "interrupt t s3 = Some s4" "kinv s4" "k_reenter s4 = 0" "\<not> switching s4"
    "\<forall>n. prio s4 n = prio s3 n" "held_head s4 = held_head s3" "held_tail s4 = held_tail s3"
    "\<forall>n. p_nextheld (procs s4 n) = p_nextheld (procs s3 n) \<and> p_int_held (procs s4 n) = p_int_held (procs s3 n)"
    "if RECEIVING \<in> flags s3 t \<and> SENDING \<notin> flags s3 t \<and> isrxhardware (p_getfrom (procs s3 t))
       then flags s4 t = {} \<and> \<not> p_int_blocked (procs s4 t)
         \<and> kmem s4 = kmem (hard_int_mess (p_messbuf (procs s3 t)) s3)
       else p_int_blocked (procs s4 t) \<and> (\<forall>n. flags s4 n = flags s3 n)"
    "\<forall>n. n \<noteq> t \<longrightarrow> flags s4 n = flags s3 n \<and> p_int_blocked (procs s4 n) = p_int_blocked (procs s3 n)"
    using interrupt_direct [OF k3, of t] sw tk s3f s3g by auto
  have h4: "held_ok s4 hs" using h3 s4(6,7,8) by (simp add: held_ok_def)
  have v4: "served s4 t" using s4(9) by (auto simp: served_def split: if_splits)
  have o4: "served s4 n" if "served s n" for n
    using that v4 s4(10) by (cases "n = t") (auto simp: served_def s3f)
  obtain s5 where s5: "hold_all ts s4 = Some s5" "held_ok s5 (fold hold_add ts hs)" "held_frame s4 s5"
    using hold_all_spec [OF h4] by blast
  note f = held_frame_fields [OF s5(3)]
  have "unhold_round ts t s = Some s5"
    unfolding unhold_round_def Let_def
    by (simp only: s1_def [symmetric] s2_def [symmetric] s3_def [symmetric] s4(1) s5(1)
        Option.bind.bind_lunit)
  moreover have "kinv s5" by (rule held_frame_kinv [OF s4(2) s5(3)])
  ultimately show ?thesis using s5(2) s4(3,4,5) v4 o4 by (auto simp: f s3f served_def)
qed

lemma unhold_loop_spec:
  assumes "kinv s" and "held_ok s (t # hs)" and "k_reenter s = 0" "\<not> switching s"
    and "all_tasks s (insert t (set hs) \<union> set (concat irqs))"
  shows "\<exists>s'. unhold_loop irqs t s = Some s' \<and> kinv s' \<and> held_ok s' []
    \<and> (\<forall>n \<in> insert t (set hs). served s' n) \<and> (\<forall>n. served s n \<longrightarrow> served s' n)"
  using assms
proof (induction "length irqs + length (concat irqs) + length hs" arbitrary: s t hs irqs rule: less_induct)
  case less
  define ts where "ts = (case irqs of [] \<Rightarrow> [] | ts # _ \<Rightarrow> ts)"
  define r where "r = (case irqs of [] \<Rightarrow> [] | _ # r \<Rightarrow> r)"
  have ir: "set (concat irqs) = set ts \<union> set (concat r)"
    "length irqs + length (concat irqs) \<ge> length r + length (concat r) + length ts"
    "irqs \<noteq> [] \<Longrightarrow> length irqs + length (concat irqs) > length r + length (concat r) + length ts"
    "irqs = [] \<Longrightarrow> ts = []"
    by (cases irqs; simp add: ts_def r_def)+
  have tk: "istaskp (procs s t)" "isokprocn t" using less.prems(5) by (simp_all add: all_tasks_def)
  obtain s1 where s1: "unhold_round ts t s = Some s1" "kinv s1" "held_ok s1 (fold hold_add ts hs)"
    "k_reenter s1 = 0" "\<not> switching s1" "\<forall>n. prio s1 n = prio s n" "served s1 t"
    "\<forall>n. served s n \<longrightarrow> served s1 n"
    using unhold_round_spec [OF less.prems(1,2,3,4) tk] by blast
  have e: "unhold_loop irqs t s = (case held_head s1 of None \<Rightarrow> Some s1 | Some t' \<Rightarrow> unhold_loop r t' s1)"
    unfolding unhold_loop.simps [of irqs t s] ts_def [symmetric] r_def [symmetric] s1(1) by simp
  note len = fold_hold_add_length [of ts hs]
  show ?case
  proof (cases "fold hold_add ts hs")
    case Nil
    then have "hs = []" using fold_hold_add_set [of ts hs] by simp
    with Nil s1 e show ?thesis by (auto simp: held_ok_def)
  next
    case (Cons t' hs')
    have h: "held_head s1 = Some t'" using s1(3) Cons by (simp add: held_ok_def)
    have m: "length r + length (concat r) + length hs' < length irqs + length (concat irqs) + length hs"
      using len Cons ir(2,3,4) by (cases "irqs = []") auto
    have st: "set (t' # hs') = set hs \<union> set ts" using fold_hold_add_set [of ts hs] Cons by simp
    have a: "all_tasks s1 (insert t' (set hs') \<union> set (concat r))"
      using less.prems(5) st ir(1) s1(6) by (auto simp: all_tasks_def)
    obtain s2 where s2: "unhold_loop r t' s1 = Some s2" "kinv s2" "held_ok s2 []"
      "\<forall>n \<in> insert t' (set hs'). served s2 n" "\<forall>n. served s1 n \<longrightarrow> served s2 n"
      using less.hyps [OF m s1(2) _ s1(4,5) a] s1(3) Cons by auto
    have "\<forall>n \<in> set hs. served s2 n" using s2(4) st by auto
    with s2 s1(7,8) e h show ?thesis by auto
  qed
qed


end
