(* ===== verification/Kernel_Boot.thy ===== *)
theory Kernel_Boot
  imports Kernel_Props
begin

text \<open>
  The start of the system: \<^verbatim>\<open>main()\<close> of \<^verbatim>\<open>src/kernel/main.c\<close>
  (the process table is filled and every task and server is made ready), the task table of
  \<^verbatim>\<open>src/kernel/table.c\<close> with \<^verbatim>\<open>mapdrivers()\<close>, and
  \<^verbatim>\<open>alloc_segments()\<close> of \<^verbatim>\<open>src/kernel/system.c\<close>.  The a.out headers left
  by the boot monitor, the entry points of the tasks and the chunks of memory are arguments.
  Hardware initialisation and the local descriptor tables are not modelled.  The lemmas show that
  the table \<^verbatim>\<open>main()\<close> leaves satisfies the invariant of the message code.
\<close>

subsection \<open>The task table\<close>

record tasktab =
  initial_pc :: u32
  stksize :: u32
  tt_name :: string

abbreviation SMALL_STACK :: u32 where "SMALL_STACK \<equiv> 512"
abbreviation NR_CTRLRS :: nat where "NR_CTRLRS \<equiv> 2"

text \<open>Entry \<open>i\<close> of \<^verbatim>\<open>tasktab\<close> is that of process \<open>i - NR_TASKS\<close>; \<open>pc\<close> gives
  the addresses of the task functions.\<close>

definition tasktab :: "(nat \<Rightarrow> u32) \<Rightarrow> tasktab list" where
  "tasktab pc =
     [\<lparr>initial_pc = pc 0, stksize = 3 * SMALL_STACK, tt_name = ''TTY''\<rparr>,
      \<lparr>initial_pc = pc 1, stksize = 2 * SMALL_STACK, tt_name = ''(C1)''\<rparr>,
      \<lparr>initial_pc = pc 2, stksize = 2 * SMALL_STACK, tt_name = ''(C0)''\<rparr>,
      \<lparr>initial_pc = pc 3, stksize = SMALL_STACK, tt_name = ''SYN_AL''\<rparr>,
      \<lparr>initial_pc = pc 4, stksize = 40, tt_name = ''IDLE''\<rparr>,
      \<lparr>initial_pc = pc 5, stksize = 3 * SMALL_STACK, tt_name = ''FLOPPY''\<rparr>,
      \<lparr>initial_pc = pc 6, stksize = SMALL_STACK, tt_name = ''MEMORY''\<rparr>,
      \<lparr>initial_pc = pc 7, stksize = SMALL_STACK, tt_name = ''CLOCK''\<rparr>,
      \<lparr>initial_pc = pc 8, stksize = SMALL_STACK, tt_name = ''SYS''\<rparr>,
      \<lparr>initial_pc = 0, stksize = 0, tt_name = ''HARDWAR''\<rparr>,
      \<lparr>initial_pc = 0, stksize = 0, tt_name = ''MM''\<rparr>,
      \<lparr>initial_pc = 0, stksize = 0, tt_name = ''FS''\<rparr>,
      \<lparr>initial_pc = 0, stksize = 0, tt_name = ''INIT''\<rparr>]"

text \<open>The boot variables \<^verbatim>\<open>c0\<close>, \<^verbatim>\<open>c1\<close> select a driver per controller.\<close>

definition mapdrivers :: "(string \<Rightarrow> string option) \<Rightarrow> (string \<times> u32) list \<Rightarrow> tasktab list \<Rightarrow> tasktab list" where
  "mapdrivers getenv drivertab tab =
     fold (\<lambda>c tab.
         (case getenv (''c'' @ [char_of (48 + c)]) of
            None \<Rightarrow> tab
          | Some drivername \<Rightarrow>
              fold (\<lambda>dp tab. if drivername = fst dp
                       then tab[nat (- 8 - int c + NR_TASKS) :=
                         (tab ! nat (- 8 - int c + NR_TASKS))\<lparr>initial_pc := snd dp, tt_name := drivername\<rparr>]
                       else tab) drivertab tab))
       [0..<NR_CTRLRS] tab"

subsection \<open>Segments\<close>

text \<open>The segment registers set by \<^verbatim>\<open>alloc_segments()\<close> in protected mode: a
  selector into the process's descriptor table with the privilege of its kind.\<close>

definition alloc_segments :: "int \<Rightarrow> kstate \<Rightarrow> kstate" where
  "alloc_segments rp s =
     (let privilege = (if istaskp (procs s rp) then 1 else 3);
          csel = 4 OR privilege; dsel = 8 OR 4 OR privilege
      in upd_proc rp (\<lambda>p. p\<lparr>p_reg := (p_reg p)(R_cs := csel, R_gs := dsel, R_fs := dsel,
                               R_ss := dsel, R_es := dsel, R_ds := dsel)\<rparr>) s)"

subsection \<open>Filling the process table\<close>

record exec_hdr =
  a_text :: u32
  a_total :: u32
  a_syms :: u32
  a_sep :: bool

definition to_clicks :: "u32 \<Rightarrow> u32" where
  "to_clicks n = drop_bit CLICK_SHIFT (n + 1023)"

text \<open>The map of a process, from its header.\<close>

definition boot_map :: "exec_hdr \<Rightarrow> seg \<Rightarrow> mem_map" where
  "boot_map e_hdr =
     (let text_base = drop_bit CLICK_SHIFT (a_syms e_hdr);
          text_clicks = (if \<not> a_sep e_hdr then 0 else to_clicks (a_text e_hdr));
          data_clicks = to_clicks (a_total e_hdr)
      in (\<lambda>g. case g of
           SegT \<Rightarrow> \<lparr>mem_vir = 0, mem_phys = text_base, mem_len = text_clicks\<rparr>
         | SegD \<Rightarrow> \<lparr>mem_vir = 0, mem_phys = text_base + text_clicks, mem_len = data_clicks\<rparr>
         | SegS \<Rightarrow> \<lparr>mem_vir = data_clicks, mem_phys = text_base + text_clicks + data_clicks, mem_len = 0\<rparr>))"

definition take_chunk :: "u32 \<Rightarrow> u32 \<Rightarrow> u32 \<times> u32 \<Rightarrow> u32 \<times> u32" where
  "take_chunk text_base clicks memp =
     (if fst memp = text_base then (fst memp + clicks, snd memp - clicks) else memp)"

definition isidlehardware :: "int \<Rightarrow> bool" where
  "isidlehardware n \<longleftrightarrow> n = IDLE \<or> n = HARDWARE"

text \<open>The body of the loop over the slots, up to making the process ready; the counter \<^verbatim>\<open>ktsb\<close> of the stack space is
  threaded through.\<close>

definition boot_fill :: "(nat \<Rightarrow> exec_hdr) \<Rightarrow> tasktab list \<Rightarrow> int \<Rightarrow> u32 \<times> kstate \<Rightarrow> u32 \<times> kstate" where
  "boot_fill hdr tab t st =
     (let (ktsb, s) = st;
          ttp = tab ! nat (t + NR_TASKS);
          s1 = upd_proc t (\<lambda>p. p\<lparr>p_name := map of_char (tt_name ttp)\<rparr>) s;
          s2 = (if t < 0
                then upd_proc t (\<lambda>p. p\<lparr>p_stguard := (if stksize ttp > 0 then STACK_GUARD else p_stguard p),
                                       p_reg := (p_reg p)(R_sp := ktsb + stksize ttp),
                                       p_priority := PPRI_TASK\<rparr>) s1
                else upd_proc t (\<lambda>p. p\<lparr>p_priority := (if t < INIT_PROC_NR then PPRI_SERVER else PPRI_USER)\<rparr>) s1);
          ktsb1 = (if t < 0 then ktsb + stksize ttp else ktsb);
          mp = boot_map (hdr (if t < 0 then 0 else nat (1 + t)));
          s3 = upd_proc t (\<lambda>p. p\<lparr>p_map := mp\<rparr>) s2;
          s4 = s3\<lparr>mem := map (take_chunk (mem_phys (mp SegT)) (mem_len (mp SegT) + mem_len (mp SegD))) (mem s3)\<rparr>;
          s5 = upd_proc t (\<lambda>p. p\<lparr>p_reg := (p_reg p)(R_pc := initial_pc ttp,
                                    R_psw := (if istaskp p then 0x1200 else 0x0200))\<rparr>) s4;
          s6 = (if t \<ge> 0
                then upd_proc t (\<lambda>p. p\<lparr>p_reg := (p_reg p)(R_sp :=
                         push_bit CLICK_SHIFT (mem_vir (p_map p SegS) + mem_len (p_map p SegS)) - 4)\<rparr>) s5
                else s5)
      in (ktsb1, s6))"

definition boot_slot :: "(nat \<Rightarrow> exec_hdr) \<Rightarrow> tasktab list \<Rightarrow> int \<Rightarrow> u32 \<times> kstate \<Rightarrow> (u32 \<times> kstate) option" where
  "boot_slot hdr tab t st =
     (let (ktsb1, s6) = boot_fill hdr tab t st
      in do {
           s7 \<leftarrow> (if \<not> isidlehardware t then lock_ready t s6 else Some s6);
           Some (ktsb1, alloc_segments t (upd_proc t (\<lambda>p. p\<lparr>p_flags := {}\<rparr>) s7))
         })"

fun boot_slots :: "(nat \<Rightarrow> exec_hdr) \<Rightarrow> tasktab list \<Rightarrow> int list \<Rightarrow> u32 \<times> kstate \<Rightarrow> (u32 \<times> kstate) option" where
  "boot_slots hdr tab [] st = Some st"
| "boot_slots hdr tab (t # ts) st = do { st' \<leftarrow> boot_slot hdr tab t st; boot_slots hdr tab ts st' }"

definition boot_main :: "(nat \<Rightarrow> exec_hdr) \<Rightarrow> tasktab list \<Rightarrow> u32 \<Rightarrow> kstate \<Rightarrow> kstate option" where
  "boot_main hdr tab t_stack s =
     do {
       st \<leftarrow> boot_slots hdr tab [- NR_TASKS..INIT_PROC_NR] (t_stack, s);
       let s1 = upd_proc INIT_PROC_NR (\<lambda>p. p\<lparr>p_pid := 1\<rparr>) (snd st);
       let s2 = s1\<lparr>bill_ptr := IDLE\<rparr>;
       Some (lock_pick_proc (upd_proc IDLE (\<lambda>p. p\<lparr>p_priority := PPRI_IDLE\<rparr>) s2))
     }"

text \<open>The kernel's variables before \<^verbatim>\<open>main()\<close>: zeroes, and the chunks of memory found
  by \<^verbatim>\<open>mem_init()\<close>.\<close>

abbreviation TMR_NEVER :: int where "TMR_NEVER \<equiv> 2147483647"

definition zero_proc :: proc where
  "zero_proc = \<lparr>p_reg = \<lambda>_. 0, p_stguard = 0, p_int_blocked = False, p_int_held = False, p_nextheld = None,
     p_flags = {}, p_map = \<lambda>_. \<lparr>mem_vir = 0, mem_phys = 0, mem_len = 0\<rparr>, p_pid = 0, p_priority = PPRI_NONE,
     user_time = 0, sys_time = 0, child_utime = 0, child_stime = 0, p_exptimers = None, p_callerq = None,
     p_sendlink = None, p_messbuf = 0, p_getfrom = 0, p_sendto = 0, p_nextready = None, p_pending = 0,
     p_pendcount = 0, p_name = []\<rparr>"

definition bss :: "memory \<Rightarrow> u32 \<Rightarrow> u32 \<Rightarrow> (u32 \<times> u32) list \<Rightarrow> u32 \<Rightarrow> kstate" where
  "bss m base sysm chunks total_mem =
     \<lparr>procs = \<lambda>_. zero_proc, proc_ptr = 0, bill_ptr = 0, rdy_head = \<lambda>_. None, rdy_tail = \<lambda>_. None,
      held_head = None, held_tail = None, k_reenter = 0, switching = False, sig_procs = 0,
      timers = None, tmr = \<lambda>_. \<lparr>tmr_next = None, tmr_task = 0, tmr_exp_time = 0, tmr_func = DRIVER_FUNC 0, tmr_arg = 0\<rparr>,
      next_timer = 0, realtime = 0, sched_ticks = 6, prev_ptr = None, pending_ticks = 0, lost_ticks = 0,
      boot_time = 0, tty_timeout = 0, mem = chunks, tot_mem_size = total_mem,
      kmem = m, data_base = base, sys_m = sysm\<rparr>"


subsection \<open>The invariant holds when the system starts\<close>

text \<open>What the loop of \<^verbatim>\<open>main()\<close> has established for the slots \<open>T\<close>.\<close>

definition booted :: "(nat \<Rightarrow> exec_hdr) \<Rightarrow> u32 \<Rightarrow> int set \<Rightarrow> kstate \<Rightarrow> bool" where
  "booted hdr sysm T s \<longleftrightarrow>
     (\<exists>rq. rq_ok s rq \<and> rqs.queued rq = T - {IDLE, HARDWARE})
     \<and> (\<forall>n. prio s n = (if n \<notin> T then PPRI_NONE else if n < 0 then PPRI_TASK
                      else if n < INIT_PROC_NR then PPRI_SERVER else PPRI_USER))
     \<and> (\<forall>n. flags s n = {} \<and> p_callerq (procs s n) = None)
     \<and> (\<forall>n \<in> T. n < 0 \<and> n \<noteq> HARDWARE \<longrightarrow> p_stguard (procs s n) = STACK_GUARD)
     \<and> (HARDWARE \<in> T \<longrightarrow> p_map (procs s HARDWARE) = boot_map (hdr 0))
     \<and> sig_procs s = 0 \<and> sys_m s = sysm"

definition guarded_tab :: "tasktab list \<Rightarrow> bool" where
  "guarded_tab tab \<longleftrightarrow> length tab = 13 \<and> (\<forall>i < 9. stksize (tab ! i) > 0)"

lemma guarded_tasktab: "guarded_tab (tasktab pc)"
proof -
  have "stksize (tasktab pc ! i) > 0" if "i < 9" for i
  proof -
    from that have "i \<in> {0, 1, 2, 3, 4, 5, 6, 7, 8}" by auto
    then show ?thesis by (auto simp: tasktab_def)
  qed
  then show ?thesis by (simp add: guarded_tab_def tasktab_def)
qed

lemma guarded_update:
  "guarded_tab tab \<Longrightarrow> guarded_tab (tab[j := (tab ! j)\<lparr>initial_pc := a, tt_name := b\<rparr>])"
  by (cases "j < length tab") (auto simp: guarded_tab_def nth_list_update)

lemma fold_invariant_simple: "P x \<Longrightarrow> (\<And>a x. P x \<Longrightarrow> P (f a x)) \<Longrightarrow> P (fold f xs x)"
  by (induction xs arbitrary: x) auto

lemma guarded_mapdrivers: "guarded_tab tab \<Longrightarrow> guarded_tab (mapdrivers getenv drvs tab)"
  unfolding mapdrivers_def
  by (erule fold_invariant_simple)
    (auto split: option.split intro!: fold_invariant_simple [where P = guarded_tab] guarded_update)

lemma unqueued_switching: "unqueued (s\<lparr>switching := b\<rparr>) = (unqueued s)\<lparr>switching := b\<rparr>"
  by (cases s) (simp add: unqueued_def)

lemma boot_slot_booted:
  assumes b: "booted hdr sysm T s" and t: "t \<notin> T" "- NR_TASKS \<le> t" "t \<le> INIT_PROC_NR"
    and tab: "guarded_tab tab"
  shows "\<exists>k' s'. boot_slot hdr tab t (k, s) = Some (k', s') \<and> booted hdr sysm (insert t T) s'"
proof -
  let ?ttp = "tab ! nat (t + NR_TASKS)"
  define pri where "pri = (if t < 0 then PPRI_TASK else if t < INIT_PROC_NR then PPRI_SERVER else PPRI_USER)"
  define k6 where "k6 = fst (boot_fill hdr tab t (k, s))"
  define s6 where "s6 = snd (boot_fill hdr tab t (k, s))"
  have s6: "boot_slot hdr tab t (k, s) = do {
           s7 \<leftarrow> (if \<not> isidlehardware t then lock_ready t s6 else Some s6);
           Some (k6, alloc_segments t (upd_proc t (\<lambda>p. p\<lparr>p_flags := {}\<rparr>) s7)) }"
    by (simp add: boot_slot_def k6_def s6_def case_prod_beta)
  have f: "p_flags (procs s6 n) = p_flags (procs s n)" "p_callerq (procs s6 n) = p_callerq (procs s n)"
    "p_nextready (procs s6 n) = p_nextready (procs s n)"
    "prio s6 n = (if n = t then pri else prio s n)"
    "n \<noteq> t \<Longrightarrow> p_stguard (procs s6 n) = p_stguard (procs s n)"
    "t < 0 \<and> stksize ?ttp > 0 \<Longrightarrow> p_stguard (procs s6 t) = STACK_GUARD"
    "n \<noteq> t \<Longrightarrow> p_map (procs s6 n) = p_map (procs s n)"
    "p_map (procs s6 t) = boot_map (hdr (if t < 0 then 0 else nat (1 + t)))"
    "rdy_head s6 = rdy_head s" "rdy_tail s6 = rdy_tail s" "sig_procs s6 = sig_procs s" "sys_m s6 = sys_m s" for n
    unfolding s6_def boot_fill_def Let_def prod.case snd_conv by (simp_all add: upd_proc_def pri_def)
  obtain rq where rq: "rq_ok s rq" "rqs.queued rq = T - {IDLE, HARDWARE}" using b by (auto simp: booted_def)
  have nq: "t \<notin> rqs.queued rq" using rq t by simp
  define s7' where "s7' = s6\<lparr>switching := True\<rparr>"
  have rq6: "rq_ok s6 rq"
  proof
    show "chain (nextready s6) (rdy_head s6 q) (rq q)" for q
      using rq_ok_chain [OF rq(1)] by (simp add: f)
    show "rq q \<noteq> [] \<Longrightarrow> rdy_tail s6 q = Some (last (rq q))" for q using rq_ok_tail [OF rq(1)] by (simp add: f)
    show "p \<in> set (rq q) \<Longrightarrow> class_of (prio s6 p) = q" for q p
      using rq_ok_class [OF rq(1)] nq by (auto simp: f rqs.queued_def)
  qed
  have "\<exists>s7 rq7. (if \<not> isidlehardware t then lock_ready t s6 else Some s6) = Some s7
      \<and> unqueued (s7\<lparr>switching := False\<rparr>) = unqueued (s6\<lparr>switching := False\<rparr>)
      \<and> rq_ok s7 rq7 \<and> rqs.queued rq7 = insert t T - {IDLE, HARDWARE}"
  proof (cases "isidlehardware t")
    case True
    with rq6 rq(2) show ?thesis by (auto simp: isidlehardware_def intro!: exI [of _ rq])
  next
    case False
    have "rq_ok s7' rq" using rq6 by (auto simp: rq_ok_def s7'_def)
    from rqs.rdy_set [OF this nq] obtain s7 rq7 where s7: "ready t s7' = Some s7" "rq_ok s7 rq7"
      "unqueued s7 = unqueued s7'" "rqs.queued rq7 = insert t (rqs.queued rq)" by blast
    have "rq_ok (s7\<lparr>switching := False\<rparr>) rq7" using s7(2) by (auto simp: rq_ok_def)
    moreover have "unqueued (s7\<lparr>switching := False\<rparr>) = unqueued (s6\<lparr>switching := False\<rparr>)"
      using arg_cong [OF s7(3), of "\<lambda>s. s\<lparr>switching := False\<rparr>"] by (simp add: s7'_def flip: unqueued_switching)
    ultimately show ?thesis using False s7(1,4) rq(2)
      by (auto simp: lock_ready_def s7'_def isidlehardware_def intro!: exI [of _ rq7])
  qed
  then obtain s7 rq7 where s7: "(if \<not> isidlehardware t then lock_ready t s6 else Some s6) = Some s7"
    "unqueued (s7\<lparr>switching := False\<rparr>) = unqueued (s6\<lparr>switching := False\<rparr>)"
    "rq_ok s7 rq7" "rqs.queued rq7 = insert t T - {IDLE, HARDWARE}" by blast
  note u = unqueued_fields [OF s7(2), simplified]
  define s' where "s' = alloc_segments t (upd_proc t (\<lambda>p. p\<lparr>p_flags := {}\<rparr>) s7)"
  have g: "p_callerq (procs s' n) = p_callerq (procs s n)" "prio s' n = (if n = t then pri else prio s n)"
    "p_stguard (procs s' n) = p_stguard (procs s6 n)" "p_map (procs s' n) = p_map (procs s6 n)"
    "flags s' n = (if n = t then {} else flags s n)"
    "p_nextready (procs s' n) = p_nextready (procs s7 n)" "rdy_head s' = rdy_head s7" "rdy_tail s' = rdy_tail s7"
    "sig_procs s' = sig_procs s" "sys_m s' = sys_m s" "prio s7 n = prio s6 n" for n
    by (simp_all add: s'_def alloc_segments_def upd_proc_def Let_def u f)
  have rq': "rq_ok s' rq7" by (rule rq_ok_cong [OF s7(3)]) (auto simp: g f)
  have guard: "p_stguard (procs s6 t) = STACK_GUARD" if "t < 0" "t \<noteq> HARDWARE"
  proof (rule f(6))
    have "nat (t + NR_TASKS) < 9" using that t by simp
    then show "t < 0 \<and> stksize ?ttp > 0" using that(1) tab by (simp add: guarded_tab_def)
  qed
  have hw: "p_map (procs s' HARDWARE) = boot_map (hdr 0)" if "HARDWARE \<in> insert t T"
    using b f(7) [of HARDWARE] f(8) that by (cases "t = HARDWARE") (auto simp: booted_def g)
  have gd: "p_stguard (procs s' n) = STACK_GUARD" if "n \<in> insert t T" "n < 0 \<and> n \<noteq> HARDWARE" for n
    using b guard f(5) [of n] that by (cases "n = t") (auto simp: booted_def g)
  have pr: "prio s' n = (if n \<notin> insert t T then PPRI_NONE else if n < 0 then PPRI_TASK
                      else if n < INIT_PROC_NR then PPRI_SERVER else PPRI_USER)" for n
    using b by (auto simp: booted_def g pri_def)
  have "booted hdr sysm (insert t T) s'"
    unfolding booted_def
    by (intro conjI exI [of _ rq7] allI ballI impI rq' s7(4) pr gd hw)
      (use b in \<open>simp_all add: booted_def g\<close>)
  then show ?thesis using s6 s7(1) by (simp add: s'_def)
qed

lemma boot_slots_booted:
  assumes "booted hdr sysm T s" "distinct ts" "set ts \<inter> T = {}" "set ts \<subseteq> {- NR_TASKS..INIT_PROC_NR}"
    and "guarded_tab tab"
  shows "\<exists>k' s'. boot_slots hdr tab ts (k, s) = Some (k', s') \<and> booted hdr sysm (T \<union> set ts) s'"
  using assms
proof (induction ts arbitrary: T s k)
  case Nil
  then show ?case by simp
next
  case (Cons t ts)
  obtain k1 s1 where s1: "boot_slot hdr tab t (k, s) = Some (k1, s1)" "booted hdr sysm (insert t T) s1"
    using boot_slot_booted [OF Cons.prems(1), of t tab k] Cons.prems by auto
  have "\<exists>k' s'. boot_slots hdr tab ts (k1, s1) = Some (k', s') \<and> booted hdr sysm (insert t T \<union> set ts) s'"
    by (rule Cons.IH [OF s1(2)]) (use Cons.prems in auto)
  with s1(1) show ?case by auto
qed

lemma booted_bss: "booted hdr sysm {} (bss m base sysm chunks total_mem)"
proof -
  have "rq_ok (bss m base sysm chunks total_mem) (\<lambda>_. [])" by (simp add: rq_ok_def bss_def)
  moreover have "rqs.queued (\<lambda>_. []) = {}" by (simp add: rqs.queued_def)
  ultimately show ?thesis unfolding booted_def by (auto simp: bss_def zero_proc_def)
qed

lemma boot_main_kinv:
  assumes tab: "guarded_tab tab"
    and m: "sysm + 35 \<ge> sysm" "drop_bit CLICK_SHIFT (sysm + 35) < to_clicks (a_total (hdr 0))"
  shows "\<exists>s. boot_main hdr tab t_stack (bss mm base sysm chunks total_mem) = Some s \<and> kinv s
    \<and> (\<forall>n. prio s n = (if n = IDLE then PPRI_IDLE else if n \<notin> {- NR_TASKS..INIT_PROC_NR} then PPRI_NONE
           else if n < 0 then PPRI_TASK else if n < INIT_PROC_NR then PPRI_SERVER else PPRI_USER))"
proof -
  let ?T = "{- NR_TASKS..INIT_PROC_NR}"
  have "\<exists>k s0. boot_slots hdr tab [- NR_TASKS..INIT_PROC_NR] (t_stack, bss mm base sysm chunks total_mem) = Some (k, s0)
    \<and> booted hdr sysm ({} \<union> set [- NR_TASKS..INIT_PROC_NR]) s0"
    by (rule boot_slots_booted [OF booted_bss _ _ _ tab]) (simp_all del: upto_rec_numeral)
  then obtain k s0 where
    s0: "boot_slots hdr tab [- NR_TASKS..INIT_PROC_NR] (t_stack, bss mm base sysm chunks total_mem) = Some (k, s0)"
    "booted hdr sysm ?T s0"
    unfolding set_upto Un_empty_left by blast
  define s1 where "s1 = upd_proc IDLE (\<lambda>p. p\<lparr>p_priority := PPRI_IDLE\<rparr>)
      ((upd_proc INIT_PROC_NR (\<lambda>p. p\<lparr>p_pid := 1\<rparr>) s0)\<lparr>bill_ptr := IDLE\<rparr>)"
  have e: "boot_main hdr tab t_stack (bss mm base sysm chunks total_mem) = Some (lock_pick_proc s1)"
    unfolding boot_main_def s0(1) Option.bind.bind_lunit Let_def s1_def snd_conv by (rule refl)
  obtain rq where rq: "rq_ok s0 rq" "rqs.queued rq = ?T - {IDLE, HARDWARE}" using s0(2) by (auto simp: booted_def)
  have f: "flags s1 n = {}" "p_callerq (procs s1 n) = None" "p_nextready (procs s1 n) = p_nextready (procs s0 n)"
    "prio s1 n = (if n = IDLE then PPRI_IDLE else prio s0 n)" "p_map (procs s1 n) = p_map (procs s0 n)"
    "p_stguard (procs s1 n) = p_stguard (procs s0 n)" for n
    using s0(2) by (auto simp: s1_def upd_proc_def booted_def)
  have g: "rdy_head s1 = rdy_head s0" "rdy_tail s1 = rdy_tail s0" "sig_procs s1 = 0" "sys_m s1 = sysm"
    using s0(2) by (auto simp: s1_def upd_proc_def booted_def)
  have pr: "prio s0 n = (if n \<notin> ?T then PPRI_NONE else if n < 0 then PPRI_TASK
                      else if n < INIT_PROC_NR then PPRI_SERVER else PPRI_USER)" for n
    using s0(2) unfolding booted_def by blast
  have "rq_ok s1 rq"
  proof
    show "chain (nextready s1) (rdy_head s1 q) (rq q)" for q using rq_ok_chain [OF rq(1)] by (simp add: f g)
    show "rq q \<noteq> [] \<Longrightarrow> rdy_tail s1 q = Some (last (rq q))" for q using rq_ok_tail [OF rq(1)] by (simp add: g)
    show "p \<in> set (rq q) \<Longrightarrow> class_of (prio s1 p) = q" for q p
    proof -
      assume p: "p \<in> set (rq q)"
      then have "p \<in> rqs.queued rq" by (auto simp: rqs.queued_def)
      with rq(2) have "p \<noteq> IDLE" by auto
      with rq_ok_class [OF rq(1) p] show "class_of (prio s1 p) = q" by (simp add: f)
    qed
  qed
  moreover have "runnable s1 = ?T - {IDLE, HARDWARE}"
    by (auto simp: runnable_def f pr schedulable_def isokprocn_def)
  ultimately have si: "sched_inv s1" using rq(2) by (auto simp: sched_inv_def)
  have q: "queue_inv s1" by (auto simp: queue_inv_def cq_ok_def senders_def f intro!: exI [of _ "\<lambda>_. []"])
  have w: "waits s1 = {}" by (auto simp: waits_def f)
  have mp: "p_map (procs s1 HARDWARE) = boot_map (hdr 0)" using s0(2) by (simp add: booted_def f)
  have mr: "mess_in_range (procs s1 HARDWARE) sysm"
  proof -
    have "drop_bit CLICK_SHIFT sysm \<le> drop_bit CLICK_SHIFT (sysm + 35)"
      using m(1) unfolding word_le_nat_alt unat_drop_bit_eq
      unfolding drop_bit_eq_div by (rule div_le_mono)
    then show ?thesis using m(2) by (simp add: mess_in_range_def mp boot_map_def Let_def linorder_not_less linorder_not_le add.commute)
  qed
  have y: "sys_inv s1"
    using mr s0(2) unfolding sys_inv_def booted_def
    by (auto simp: f g guard_ok_def pr schedulable_def split: if_splits)
  have "kinv s1" using si q w y by (simp add: kinv_def table_inv_def mm_inv_def sig_inv_def acyclic_def f g)
  then have "kinv (lock_pick_proc s1)" by (simp add: kinv_def sig_inv_def)
  moreover have "\<forall>n. prio (lock_pick_proc s1) n = (if n = IDLE then PPRI_IDLE else if n \<notin> ?T then PPRI_NONE
           else if n < 0 then PPRI_TASK else if n < INIT_PROC_NR then PPRI_SERVER else PPRI_USER)"
    unfolding lock_pick_proc_fields f pr by (rule allI) (rule refl)
  ultimately show ?thesis using e by blast
qed

end
