(* ===== verification/Kernel_Clock.thy ===== *)
theory Kernel_Clock
  imports Kernel_Boot
begin

text \<open>
  The clock task of \<^verbatim>\<open>src/kernel/clock.c\<close>: the list of active timers, the per-task lists
  of expired ones, alarms, the low-level interrupt handler and the quantum of the round robin.
  The functions of the drivers' timers and \<^verbatim>\<open>tty_wakeup()\<close> are arguments; the 8253
  chip and the micro-second delays are not modelled.  (\<^verbatim>\<open>tmr_clrtimer\<close> and
  \<^verbatim>\<open>cancel_alarm\<close> are in theory \<open>Kernel_IPC\<close>, where \<^verbatim>\<open>do_xit\<close>
  needs them.)
\<close>

abbreviation CLOCK_INT :: u32 where "CLOCK_INT \<equiv> 2"
abbreviation SYN_ALRM_TASK :: int where "SYN_ALRM_TASK \<equiv> -7"
abbreviation HZ :: int where "HZ \<equiv> 60"
abbreviation SCHED_RATE :: int where "SCHED_RATE \<equiv> 6"

abbreviation tmr_chain :: "kstate \<Rightarrow> nat \<Rightarrow> nat option" where
  "tmr_chain s \<equiv> \<lambda>t. tmr_next (tmr s t)"

definition upd_tmr :: "nat \<Rightarrow> (timer \<Rightarrow> timer) \<Rightarrow> kstate \<Rightarrow> kstate" where
  [code_defs]: "upd_tmr t f s = s\<lparr>tmr := (tmr s)(t := f (tmr s t))\<rparr>"

subsection \<open>Setting a timer\<close>

text \<open>
  The loop \<^verbatim>\<open>for (atp = &timers; ...)\<close>: it stops behind a timer (or at the list head,
  \<open>None\<close>) whose successor, if any, expires later.
\<close>

partial_function (option) settimer_place :: "(nat \<Rightarrow> timer) \<Rightarrow> int \<Rightarrow> nat option \<Rightarrow> nat \<Rightarrow> nat option option" where
  "settimer_place tab exp_time prev c =
     (if exp_time < tmr_exp_time (tab c) then Some prev
      else case tmr_next (tab c) of
             None \<Rightarrow> Some (Some c)
           | Some d \<Rightarrow> settimer_place tab exp_time (Some c) d)"

definition tmr_settimer :: "nat \<Rightarrow> int \<Rightarrow> int \<Rightarrow> tmr_func \<Rightarrow> kstate \<Rightarrow> kstate option" where
  "tmr_settimer tp task exp_time fp s =
     do {
       s1 \<leftarrow> (if tmr_exp_time (tmr s tp) \<noteq> TMR_NEVER then tmr_clrtimer tp s else Some s);
       let s2 = upd_tmr tp (\<lambda>t. t\<lparr>tmr_task := task, tmr_exp_time := exp_time, tmr_func := fp\<rparr>) s1;
       atp \<leftarrow> (case timers s2 of None \<Rightarrow> Some None | Some h \<Rightarrow> settimer_place (tmr s2) exp_time None h);
       let s3 = (case atp of
                   None \<Rightarrow> (upd_tmr tp (\<lambda>t. t\<lparr>tmr_next := timers s2\<rparr>) s2)\<lparr>timers := Some tp\<rparr>
                 | Some a \<Rightarrow> upd_tmr a (\<lambda>t. t\<lparr>tmr_next := Some tp\<rparr>)
                               (upd_tmr tp (\<lambda>t. t\<lparr>tmr_next := tmr_next (tmr s2 a)\<rparr>) s2));
       case timers s3 of
         None \<Rightarrow> None
       | Some h \<Rightarrow> Some (s3\<lparr>next_timer := tmr_exp_time (tmr s3 h)\<rparr>)
     }"

subsection \<open>Expiry\<close>

text \<open>The \<^verbatim>\<open>while\<close> loop of \<^verbatim>\<open>do_clocktick()\<close>: expired timers move to the
  list of their task, which is interrupted when it had none.\<close>

definition expire_one :: "nat \<Rightarrow> kstate \<Rightarrow> kstate option" where
  "expire_one tp s =
     do {
       let s1 = s\<lparr>timers := tmr_next (tmr s tp)\<rparr>;
       let p = tmr_task (tmr s1 tp);
       s2 \<leftarrow> (if \<not> isokprocn p then None
             else if p_exptimers (procs s1 p) = None \<and> p \<noteq> proc_ptr s1 then interrupt p s1 else Some s1);
       let s3 = upd_tmr tp (\<lambda>t. t\<lparr>tmr_next := p_exptimers (procs s2 p)\<rparr>) s2;
       Some (upd_proc p (\<lambda>q. q\<lparr>p_exptimers := Some tp\<rparr>) s3)
     }"

partial_function (option) move_expired :: "kstate \<Rightarrow> kstate option" where
  "move_expired s =
     (case timers s of
        None \<Rightarrow> Some s
      | Some tp \<Rightarrow>
          if tmr_exp_time (tmr s tp) \<le> realtime s
          then do { s1 \<leftarrow> expire_one tp s; move_expired s1 }
          else Some s)"

text \<open>The function a timer runs; \<open>mess\<close> is the address of the message on the stack of the
  synchronous alarm task.\<close>

definition cause_alarm :: "nat \<Rightarrow> kstate \<Rightarrow> kstate option" where
  "cause_alarm tp s = cause_sig (tmr_arg (tmr s tp)) SIGALRM s"

definition cause_synalarm :: "u32 \<Rightarrow> nat \<Rightarrow> kstate \<Rightarrow> kstate option" where
  "cause_synalarm mess tp s =
     map_option snd (sys_call SEND (tmr_arg (tmr s tp)) mess (kstore (mess + 4) CLOCK_INT s))"

definition run_timer :: "(nat \<Rightarrow> nat \<Rightarrow> kstate \<Rightarrow> kstate option) \<Rightarrow> u32 \<Rightarrow> nat \<Rightarrow> kstate \<Rightarrow> kstate option" where
  "run_timer drv mess tp s =
     (case tmr_func (tmr s tp) of
        CAUSE_ALARM \<Rightarrow> cause_alarm tp s
      | CAUSE_SYNALARM \<Rightarrow> cause_synalarm mess tp s
      | DRIVER_FUNC k \<Rightarrow> drv k tp s)"

text \<open>
  \<^verbatim>\<open>tmr_exptimers()\<close>.  When a function has blocked the task (a message the receiver is
  not ready for), the loop is suspended: it is entered again from the top once the task runs.
\<close>

partial_function (option) exp_loop ::
    "(nat \<Rightarrow> nat \<Rightarrow> kstate \<Rightarrow> kstate option) \<Rightarrow> u32 \<Rightarrow> int \<Rightarrow> kstate \<Rightarrow> kstate option" where
  "exp_loop drv mess p s =
     (case p_exptimers (procs s p) of
        None \<Rightarrow> Some s
      | Some tp \<Rightarrow> do {
          let s1 = upd_proc p (\<lambda>q. q\<lparr>p_exptimers := tmr_next (tmr s tp)\<rparr>) s;
          s2 \<leftarrow> run_timer drv mess tp (upd_tmr tp (\<lambda>t. t\<lparr>tmr_exp_time := TMR_NEVER\<rparr>) s1);
          if flags s2 p \<noteq> {} then Some s2 else exp_loop drv mess p s2
        })"

definition tmr_exptimers :: "(nat \<Rightarrow> nat \<Rightarrow> kstate \<Rightarrow> kstate option) \<Rightarrow> u32 \<Rightarrow> kstate \<Rightarrow> kstate option" where
  "tmr_exptimers drv mess s = exp_loop drv mess (proc_ptr s) s"

text \<open>The end of \<^verbatim>\<open>do_clocktick()\<close>: when the quantum is over and the same user process has
  been billed all along, another one gets its turn.\<close>

definition quantum :: "kstate \<Rightarrow> kstate option" where
  "quantum s0 =
     (let s = s0\<lparr>sched_ticks := sched_ticks s0 - 1\<rparr>
      in if sched_ticks s = 0
         then do {
           s1 \<leftarrow> (if Some (bill_ptr s) = prev_ptr s then lock_sched s else Some s);
           Some (s1\<lparr>sched_ticks := SCHED_RATE, prev_ptr := Some (bill_ptr s1)\<rparr>)
         }
         else Some s)"

definition do_clocktick :: "(nat \<Rightarrow> nat \<Rightarrow> kstate \<Rightarrow> kstate option) \<Rightarrow> u32 \<Rightarrow> kstate \<Rightarrow> kstate option" where
  "do_clocktick drv mess s =
     do {
       s1 \<leftarrow> (if next_timer s \<le> realtime s
             then do {
               t \<leftarrow> move_expired s;
               let t1 = t\<lparr>next_timer := (case timers t of None \<Rightarrow> TMR_NEVER
                                        | Some h \<Rightarrow> tmr_exp_time (tmr t h))\<rparr>;
               tmr_exptimers drv mess t1
             }
             else Some s);
       quantum s1
     }"

subsection \<open>The requests of the clock task\<close>

definition get_uptime :: "kstate \<Rightarrow> int" where
  "get_uptime s = realtime s + pending_ticks s"

text \<open>At the top of the main loop: ticks seen by the handler are added to the clock.\<close>

definition transfer_ticks :: "kstate \<Rightarrow> kstate" where
  "transfer_ticks s = s\<lparr>realtime := realtime s + pending_ticks s, pending_ticks := 0\<rparr>"

definition do_getuptime :: "kstate \<Rightarrow> int" where
  "do_getuptime s = realtime s"

definition do_get_time :: "kstate \<Rightarrow> int" where
  "do_get_time s = boot_time s + realtime s div HZ"

definition do_set_time :: "int \<Rightarrow> kstate \<Rightarrow> kstate" where
  "do_set_time newtime s = s\<lparr>boot_time := newtime - realtime s div HZ\<rparr>"

definition do_setalarm :: "int \<Rightarrow> int \<Rightarrow> int \<Rightarrow> tmr_func \<Rightarrow> kstate \<Rightarrow> (int \<times> kstate) option" where
  "do_setalarm proc_nr delta_ticks handler function s =
     (if proc_nr < 0 \<or> proc_nr \<ge> NR_PROCS then None
      else do {
        let tp = nat proc_nr;
        let old = tmr_exp_time (tmr s tp);
        let seconds_left = (if old \<le> realtime s \<or> old = TMR_NEVER then 0
                            else (old - realtime s + (HZ - 1)) div HZ);
        s1 \<leftarrow> (if delta_ticks = 0 then tmr_clrtimer tp s
              else tmr_settimer tp handler (get_uptime s + delta_ticks) function
                     (upd_tmr tp (\<lambda>t. t\<lparr>tmr_arg := proc_nr\<rparr>) s));
        Some (seconds_left, s1)
      })"

subsection \<open>The interrupt handler\<close>

definition clock_handler :: "(int \<Rightarrow> kstate \<Rightarrow> kstate) \<Rightarrow> kstate \<Rightarrow> kstate option" where
  "clock_handler tty_wakeup s =
     (let rp = (if k_reenter s \<noteq> 0 then HARDWARE else proc_ptr s);
          ticks = lost_ticks s + 1;
          s1 = s\<lparr>lost_ticks := 0\<rparr>;
          s2 = upd_proc rp (\<lambda>p. p\<lparr>user_time := user_time p + word_of_int ticks\<rparr>) s1;
          s3 = (if rp \<noteq> bill_ptr s2 \<and> rp \<noteq> IDLE
                then upd_proc (bill_ptr s2) (\<lambda>p. p\<lparr>sys_time := sys_time p + word_of_int ticks\<rparr>) s2 else s2);
          s4 = s3\<lparr>pending_ticks := pending_ticks s3 + ticks\<rparr>;
          now = realtime s4 + pending_ticks s4;
          s5 = (if tty_timeout s4 \<le> now then tty_wakeup now s4 else s4)
      in if next_timer s5 \<le> now
            \<or> (sched_ticks s5 = 1 \<and> Some (bill_ptr s5) = prev_ptr s5 \<and> rdy_head s5 USER_Q \<noteq> None)
         then interrupt CLOCK s5
         else (let s6 = s5\<lparr>sched_ticks := sched_ticks s5 - 1\<rparr>
               in Some (if sched_ticks s6 = 0
                        then s6\<lparr>sched_ticks := SCHED_RATE, prev_ptr := Some (bill_ptr s6)\<rparr> else s6)))"

end
