(* ===== verification/Kernel_System.thy ===== *)
theory Kernel_System
  imports Kernel_Clock
begin

text \<open>
  The system task of \<^verbatim>\<open>src/kernel/system.c\<close>: fork, exec, memory maps, copying,
  accounting, signal frames and tracing.  (Exit, kill and end of signal are in theory
  \<open>Kernel_IPC\<close>.)  An operation takes the fields of its request message; \<open>None\<close> is a
  failed \<^verbatim>\<open>assert\<close>, a panic or an access outside the process table.  Structures that
  cross an address space (memory maps, signal contexts, copy vectors) are read and written word by
  word at their offsets.  \<^verbatim>\<open>SYS_ABORT\<close> and \<^verbatim>\<open>SYSGETENV\<close> are not
  modelled; the layout of \<^verbatim>\<open>struct proc\<close> beyond the registers, which
  \<^verbatim>\<open>T_GETUSER\<close> reads, is an argument.
\<close>

abbreviation EDOM :: int where "EDOM \<equiv> -33"
abbreviation CPVEC_NR :: int where "CPVEC_NR \<equiv> 16"
abbreviation ABS :: int where "ABS \<equiv> -999"

subsection \<open>Words in memory\<close>

fun write_words :: "u32 \<Rightarrow> u32 list \<Rightarrow> memory \<Rightarrow> memory" where
  "write_words a [] m = m"
| "write_words a (w # ws) m = write_words (a + 4) ws (put32 m a w)"

fun read_words :: "u32 \<Rightarrow> nat \<Rightarrow> memory \<Rightarrow> u32 list" where
  "read_words a 0 m = []"
| "read_words a (Suc n) m = get32 m a # read_words (a + 4) n m"

fun read_bytes :: "u32 \<Rightarrow> nat \<Rightarrow> memory \<Rightarrow> u8 list" where
  "read_bytes a 0 m = []"
| "read_bytes a (Suc n) m = m a # read_bytes (a + 1) n m"

definition map_words :: "(seg \<Rightarrow> mem_map) \<Rightarrow> u32 list" where
  "map_words mp = concat (map (\<lambda>g. [mem_vir (mp g), mem_phys (mp g), mem_len (mp g)]) [SegT, SegD, SegS])"

definition words_map :: "u32 list \<Rightarrow> seg \<Rightarrow> mem_map" where
  "words_map ws g =
     (let i = (case g of SegT \<Rightarrow> 0 | SegD \<Rightarrow> 3 | SegS \<Rightarrow> 6)
      in \<lparr>mem_vir = ws ! i, mem_phys = ws ! (i + 1), mem_len = ws ! (i + 2)\<rparr>)"

subsection \<open>Processes and their maps\<close>

definition do_fork :: "int \<Rightarrow> int \<Rightarrow> int \<Rightarrow> kstate \<Rightarrow> (int \<times> kstate) option" where
  "do_fork proc1 proc2 pid s =
     (if \<not> isokprocn proc1 \<or> \<not> isokprocn proc2 then None
      else if \<not> isuserp (procs s proc1) \<or> \<not> isemptyp (procs s proc2) then None
      else let s1 = upd_proc proc2 (\<lambda>_. procs s proc1) s;
               s2 = upd_proc proc2 (\<lambda>p. p\<lparr>p_flags := insert NO_MAP (p_flags p)\<rparr>) s1;
               s3 = upd_proc proc2 (\<lambda>p. p\<lparr>p_flags := p_flags p - {PENDING, SIG_PENDING, P_STOP}\<rparr>) s2
      in Some (OK, upd_proc proc2 (\<lambda>p. p\<lparr>p_pending := 0, p_pendcount := 0, p_pid := pid,
                 p_reg := (p_reg p)(R_retreg := 0),
                 user_time := 0, sys_time := 0, child_utime := 0, child_stime := 0\<rparr>) s3))"

definition do_newmap :: "int \<Rightarrow> int \<Rightarrow> u32 \<Rightarrow> kstate \<Rightarrow> (int \<times> kstate) option" where
  "do_newmap caller k map_ptr s =
     (if \<not> isokprocn k then Some (E_BAD_PROC, s)
      else if \<not> isokprocn caller then None
      else let src_phys = umap (procs s caller) SegD map_ptr 36
      in if src_phys = 0 then None
      else let s1 = upd_proc k (\<lambda>p. p\<lparr>p_map := words_map (read_words src_phys 9 (kmem s))\<rparr>) s;
               s2 = alloc_segments k s1;
               old_flags = flags s2 k;
               s3 = upd_proc k (\<lambda>p. p\<lparr>p_flags := p_flags p - {NO_MAP}\<rparr>) s2
      in if old_flags \<noteq> {} \<and> flags s3 k = {} then map_option (Pair OK) (lock_ready k s3)
         else Some (OK, s3))"

definition do_getmap :: "int \<Rightarrow> int \<Rightarrow> u32 \<Rightarrow> kstate \<Rightarrow> (int \<times> kstate) option" where
  "do_getmap caller k map_ptr s =
     (if \<not> isokprocn k \<or> \<not> isokprocn caller then None
      else let dst_phys = umap (procs s caller) SegD map_ptr 36
      in if dst_phys = 0 then None
      else Some (OK, s\<lparr>kmem := write_words dst_phys (map_words (p_map (procs s k))) (kmem s)\<rparr>))"

definition do_exec :: "int \<Rightarrow> int \<Rightarrow> bool \<Rightarrow> u32 \<Rightarrow> u32 \<Rightarrow> u32 \<Rightarrow> kstate \<Rightarrow> (int \<times> kstate) option" where
  "do_exec source proc1 traced stack_ptr name_ptr ip_ptr s =
     (if \<not> isokprocn proc1 \<or> \<not> isuserp (procs s proc1) then None
      else do {
        s1 \<leftarrow> (if traced then cause_sig proc1 SIGTRAP s else Some s);
        let s2 = upd_proc proc1 (\<lambda>p. p\<lparr>p_reg := (p_reg p)(R_sp := stack_ptr, R_pc := ip_ptr),
                                       p_flags := p_flags p - {RECEIVING}\<rparr>) s1;
        s3 \<leftarrow> (if flags s2 proc1 = {} then lock_ready proc1 s2 else Some s2);
        phys_name \<leftarrow> numap source name_ptr 15 s3;
        Some (OK, if phys_name = 0 then s3
                  else upd_proc proc1 (\<lambda>p. p\<lparr>p_name :=
                         takeWhile (\<lambda>c. c \<ge> 32) (read_bytes phys_name 15 (kmem s3))\<rparr>) s3)
      })"

definition do_getsp :: "int \<Rightarrow> kstate \<Rightarrow> (int \<times> u32) option" where
  "do_getsp proc1 s =
     (if \<not> isokprocn proc1 \<or> \<not> isuserp (procs s proc1) then None
      else Some (OK, p_reg (procs s proc1) R_sp))"

definition do_times :: "int \<Rightarrow> kstate \<Rightarrow> (u32 \<times> u32 \<times> u32 \<times> u32 \<times> int) option" where
  "do_times proc1 s =
     (if \<not> isokprocn proc1 then None
      else let rp = procs s proc1
      in Some (user_time rp, sys_time rp, child_utime rp, child_stime rp, get_uptime s))"

text \<open>The chunks of memory are handed out one per call; a last reply has size 0.\<close>

fun mem_loop :: "(u32 \<times> u32) list \<Rightarrow> u32 \<times> u32 \<Rightarrow> (u32 \<times> u32) \<times> (u32 \<times> u32) list" where
  "mem_loop [] r = (r, [])"
| "mem_loop (memp # memps) r =
     (if snd memp \<noteq> 0 then (memp, (fst memp, 0) # memps)
      else let (r', memps') = mem_loop memps (fst memp, 0) in (r', (fst memp, 0) # memps'))"

definition do_mem :: "u32 \<times> u32 \<Rightarrow> kstate \<Rightarrow> (u32 \<times> u32) \<times> kstate" where
  "do_mem request s = (let (r, memps) = mem_loop (mem s) request in (r, s\<lparr>mem := memps\<rparr>))"

subsection \<open>Copying\<close>

definition phys_of :: "int \<Rightarrow> seg \<Rightarrow> u32 \<Rightarrow> u32 \<Rightarrow> kstate \<Rightarrow> u32 option" where
  "phys_of pr space buf bytes s =
     (if pr = ABS then Some buf
      else if \<not> isokprocn pr then None
      else Some (umap (procs s pr) space buf bytes))"

definition do_copy :: "int \<Rightarrow> seg \<Rightarrow> u32 \<Rightarrow> int \<Rightarrow> seg \<Rightarrow> u32 \<Rightarrow> u32 \<Rightarrow> kstate \<Rightarrow> (int \<times> kstate) option" where
  "do_copy src_proc src_space src_buffer dst_proc dst_space dst_buffer bytes s =
     do {
       src_phys \<leftarrow> phys_of src_proc src_space src_buffer bytes s;
       dst_phys \<leftarrow> phys_of dst_proc dst_space dst_buffer bytes s;
       if src_phys = 0 \<or> dst_phys = 0 then Some (EFAULT, s)
       else Some (OK, s\<lparr>kmem := phys_copy (unat bytes) src_phys dst_phys (kmem s)\<rparr>)
     }"

fun vcopy_loop :: "int \<Rightarrow> int \<Rightarrow> (u32 \<times> u32 \<times> u32) list \<Rightarrow> kstate \<Rightarrow> (int \<times> kstate) option" where
  "vcopy_loop src_proc dst_proc [] s = Some (OK, s)"
| "vcopy_loop src_proc dst_proc ((src_vir, dst_vir, bytes) # vec) s =
     do {
       src_phys \<leftarrow> numap src_proc src_vir bytes s;
       dst_phys \<leftarrow> numap dst_proc dst_vir bytes s;
       if src_phys = 0 \<or> dst_phys = 0 then Some (EFAULT, s)
       else vcopy_loop src_proc dst_proc vec (s\<lparr>kmem := phys_copy (unat bytes) src_phys dst_phys (kmem s)\<rparr>)
     }"

fun triples :: "u32 list \<Rightarrow> (u32 \<times> u32 \<times> u32) list" where
  "triples (a # b # c # ws) = (a, b, c) # triples ws"
| "triples _ = []"

text \<open>A negative count passes the check against \<^verbatim>\<open>CPVEC_NR\<close>; multiplied as an unsigned
  number it asks for gigabytes, and the copy into the table overwrites the kernel: \<open>None\<close>.\<close>

definition do_vcopy :: "int \<Rightarrow> int \<Rightarrow> int \<Rightarrow> int \<Rightarrow> u32 \<Rightarrow> kstate \<Rightarrow> (int \<times> kstate) option" where
  "do_vcopy source src_proc dst_proc vect_s vect_addr s =
     (if vect_s > CPVEC_NR then Some (EDOM, s)
      else do {
        src_phys \<leftarrow> numap source vect_addr (word_of_int vect_s * 12) s;
        if src_phys = 0 then Some (EFAULT, s)
        else if vect_s < 0 then None
        else vcopy_loop src_proc dst_proc (triples (read_words src_phys (3 * nat vect_s) (kmem s))) s
      })"

definition do_umap :: "int \<Rightarrow> seg \<Rightarrow> u32 \<Rightarrow> u32 \<Rightarrow> kstate \<Rightarrow> u32 option" where
  "do_umap pr space buf bytes s = (if \<not> isokprocn pr then None else Some (umap (procs s pr) space buf bytes))"

subsection \<open>Signal frames\<close>

abbreviation SC_SIGCONTEXT :: u32 where "SC_SIGCONTEXT \<equiv> 2"
abbreviation SC_NOREGLOCALS :: u32 where "SC_NOREGLOCALS \<equiv> 4"

text \<open>The 64 bytes of \<^verbatim>\<open>struct sigregs\<close>: four 16-bit segment registers, then words.\<close>

definition reg_words :: "(reg \<Rightarrow> u32) \<Rightarrow> u32 list" where
  "reg_words r =
     (take_bit 16 (r R_gs) OR push_bit 16 (r R_fs)) # (take_bit 16 (r R_es) OR push_bit 16 (r R_ds))
     # map r [R_di, R_si, R_fp, R_st, R_bx, R_dx, R_cx, R_retreg, R_retadr, R_pc, R_cs, R_psw, R_sp, R_ss]"

definition words_reg :: "u32 list \<Rightarrow> reg \<Rightarrow> u32" where
  "words_reg ws r =
     (case r of R_gs \<Rightarrow> take_bit 16 (ws ! 0) | R_fs \<Rightarrow> drop_bit 16 (ws ! 0)
      | R_es \<Rightarrow> take_bit 16 (ws ! 1) | R_ds \<Rightarrow> drop_bit 16 (ws ! 1)
      | R_di \<Rightarrow> ws ! 2 | R_si \<Rightarrow> ws ! 3 | R_fp \<Rightarrow> ws ! 4 | R_st \<Rightarrow> ws ! 5 | R_bx \<Rightarrow> ws ! 6 | R_dx \<Rightarrow> ws ! 7
      | R_cx \<Rightarrow> ws ! 8 | R_retreg \<Rightarrow> ws ! 9 | R_retadr \<Rightarrow> ws ! 10 | R_pc \<Rightarrow> ws ! 11 | R_cs \<Rightarrow> ws ! 12
      | R_psw \<Rightarrow> ws ! 13 | R_sp \<Rightarrow> ws ! 14 | R_ss \<Rightarrow> ws ! 15)"

record sigmsg =
  sm_signo :: u32
  sm_mask :: u32
  sm_sighandler :: u32
  sm_sigreturn :: u32
  sm_stkptr :: u32

definition words_sigmsg :: "u32 list \<Rightarrow> sigmsg" where
  "words_sigmsg ws = \<lparr>sm_signo = ws ! 0, sm_mask = ws ! 1, sm_sighandler = ws ! 2,
                      sm_sigreturn = ws ! 3, sm_stkptr = ws ! 4\<rparr>"

text \<open>After the message has been fetched: build the two frames on the user's stack.\<close>

definition put_sigframe :: "int \<Rightarrow> sigmsg \<Rightarrow> kstate \<Rightarrow> int \<times> kstate" where
  "put_sigframe proc1 smsg s =
     (let scp = sm_stkptr smsg - 72;
          regs = p_reg (procs s proc1);
          sc = [SC_SIGCONTEXT, sm_mask smsg] @ reg_words regs;
          dst_phys = umap (procs s proc1) SegD scp 72
      in if dst_phys = 0 then (EFAULT, s)
      else let s1 = s\<lparr>kmem := write_words dst_phys sc (kmem s)\<rparr>;
               frp = scp - 28;
               s2 = upd_proc proc1 (\<lambda>p. p\<lparr>p_reg := (p_reg p)(R_fp := frp + 16)\<rparr>) s1;
               fr = [sm_sigreturn smsg, sm_signo smsg, 0, scp, regs R_fp, regs R_pc, scp];
               dst_phys2 = umap (procs s2 proc1) SegD frp 28
      in if dst_phys2 = 0 then (EFAULT, s2)
      else let s3 = s2\<lparr>kmem := write_words dst_phys2 fr (kmem s2)\<rparr>
      in (OK, upd_proc proc1 (\<lambda>p. p\<lparr>p_reg := (p_reg p)(R_sp := frp, R_pc := sm_sighandler smsg)\<rparr>) s3))"

definition do_sendsig :: "int \<Rightarrow> u32 \<Rightarrow> kstate \<Rightarrow> (int \<times> kstate) option" where
  "do_sendsig proc1 sig_ctxt_ptr s =
     (if \<not> isokprocn proc1 \<or> \<not> isuserp (procs s proc1) then None
      else let src_phys = umap (procs s MM_PROC_NR) SegD sig_ctxt_ptr 20
      in if src_phys = 0 then None
      else Some (put_sigframe proc1 (words_sigmsg (read_words src_phys 5 (kmem s))) s))"

definition do_sigreturn :: "int \<Rightarrow> u32 \<Rightarrow> kstate \<Rightarrow> (int \<times> kstate) option" where
  "do_sigreturn proc1 sig_ctxt_ptr s =
     (if \<not> isokprocn proc1 \<or> \<not> isuserp (procs s proc1) then None
      else let rp = procs s proc1;
               src_phys = umap rp SegD sig_ctxt_ptr 72
      in if src_phys = 0 then Some (EFAULT, s)
      else let ws = read_words src_phys 18 (kmem s);
               sc_flags = ws ! 0;
               sc_regs = words_reg (drop 2 ws)
      in if sc_flags AND SC_SIGCONTEXT = 0 then Some (EINVAL, s)
      else if sc_flags AND SC_NOREGLOCALS \<noteq> 0
      then Some (OK, upd_proc proc1 (\<lambda>p. p\<lparr>p_reg := (p_reg p)(R_retreg := sc_regs R_retreg, R_fp := sc_regs R_fp,
                                               R_pc := sc_regs R_pc, R_sp := sc_regs R_sp)\<rparr>) s)
      else Some (OK, upd_proc proc1 (\<lambda>p. p\<lparr>p_reg := sc_regs(R_psw := p_reg p R_psw, R_cs := p_reg p R_cs,
                   R_ds := take_bit 16 (p_reg p R_ds), R_es := take_bit 16 (p_reg p R_es),
                   R_fs := take_bit 16 (p_reg p R_fs), R_gs := take_bit 16 (p_reg p R_gs))\<rparr>) s))"

subsection \<open>Tracing\<close>

abbreviation TRACEBIT :: u32 where "TRACEBIT \<equiv> 0x100"

datatype trace_req = T_STOP | T_GETINS | T_GETDATA | T_GETUSER | T_SETINS | T_SETDATA | T_SETUSER
  | T_RESUME | T_STEP | T_OTHER

text \<open>The register at a word offset of \<^verbatim>\<open>struct stackframe_s\<close>; the words at 0 and 4 hold
  segment registers.\<close>

definition reg_at :: "u32 \<Rightarrow> reg" where
  "reg_at off = [R_gs, R_es, R_di, R_si, R_fp, R_st, R_bx, R_dx, R_cx, R_retreg, R_retadr, R_pc, R_cs,
                 R_psw, R_sp, R_ss] ! (unat off div 4)"

definition SETPSW :: "u32 \<Rightarrow> u32 \<Rightarrow> u32" where
  "SETPSW old new = (old AND NOT 0xCD5) OR (new AND 0xCD5)"

definition trace_get :: "int \<Rightarrow> seg \<Rightarrow> u32 \<Rightarrow> u32 \<Rightarrow> kstate \<Rightarrow> (int \<times> u32 \<times> kstate) option" where
  "trace_get pr g addr data s =
     (let src = umap (procs s pr) g addr 4
      in Some (if src = 0 then (EIO, data, s) else (OK, get32 (kmem s) src, s)))"

definition trace_set :: "int \<Rightarrow> seg \<Rightarrow> u32 \<Rightarrow> u32 \<Rightarrow> kstate \<Rightarrow> (int \<times> u32 \<times> kstate) option" where
  "trace_set pr g addr data s =
     (let dst = umap (procs s pr) g addr 4
      in Some (if dst = 0 then (EIO, data, s) else (OK, 0, s\<lparr>kmem := put32 (kmem s) dst data\<rparr>)))"

definition trace_run :: "int \<Rightarrow> (u32 \<Rightarrow> u32) \<Rightarrow> kstate \<Rightarrow> (int \<times> u32 \<times> kstate) option" where
  "trace_run pr f s =
     (let s1 = upd_proc pr (\<lambda>p. p\<lparr>p_reg := (p_reg p)(R_psw := f (p_reg p R_psw)),
                                  p_flags := p_flags p - {P_STOP}\<rparr>) s
      in map_option (\<lambda>s'. (OK, 0, s')) (if flags s1 pr = {} then lock_ready pr s1 else Some s1))"

definition do_trace :: "u32 \<Rightarrow> (proc \<Rightarrow> u32 \<Rightarrow> u32) \<Rightarrow> int \<Rightarrow> trace_req \<Rightarrow> u32 \<Rightarrow> u32 \<Rightarrow> kstate \<Rightarrow> (int \<times> u32 \<times> kstate) option" where
  "do_trace proc_size proc_word pr req addr data s =
     (if \<not> isokprocn pr then None
      else if isemptyp (procs s pr) then Some (EIO, data, s)
      else case req of
        T_STOP \<Rightarrow> do {
          s1 \<leftarrow> (if flags s pr = {} then lock_unready pr s else Some s);
          Some (OK, data, upd_proc pr (\<lambda>p. p\<lparr>p_flags := insert P_STOP (p_flags p),
                   p_reg := (p_reg p)(R_psw := p_reg p R_psw AND NOT TRACEBIT)\<rparr>) s1)
        }
      | T_GETINS \<Rightarrow> trace_get pr (if mem_len (p_map (procs s pr) SegT) \<noteq> 0 then SegT else SegD) addr data s
      | T_GETDATA \<Rightarrow> trace_get pr SegD addr data s
      | T_GETUSER \<Rightarrow>
          (if addr AND 3 \<noteq> 0 \<or> addr > proc_size - 4 then Some (EIO, data, s)
           else Some (OK, proc_word (procs s pr) addr, s))
      | T_SETINS \<Rightarrow> trace_set pr (if mem_len (p_map (procs s pr) SegT) \<noteq> 0 then SegT else SegD) addr data s
      | T_SETDATA \<Rightarrow> trace_set pr SegD addr data s
      | T_SETUSER \<Rightarrow>
          (if addr AND 3 \<noteq> 0 \<or> addr > 60 then Some (EIO, data, s)
           else let r = reg_at addr
           in if r \<in> {R_cs, R_es, R_gs, R_ss} then Some (EIO, data, s)
           else Some (OK, 0, upd_proc pr (\<lambda>p. p\<lparr>p_reg := (p_reg p)(r :=
                    (if r = R_psw then SETPSW (p_reg p R_psw) data else data))\<rparr>) s))
      | T_RESUME \<Rightarrow> trace_run pr (\<lambda>psw. psw) s
      | T_STEP \<Rightarrow> trace_run pr (\<lambda>psw. psw OR TRACEBIT) s
      | T_OTHER \<Rightarrow> Some (EIO, data, s))"

subsection \<open>Servers\<close>

text \<open>\<^verbatim>\<open>SYSSIGNON\<close> of \<^verbatim>\<open>do_sysctl()\<close>: a privileged user process becomes a
  server; \<open>info\<close> is the address of the answer on the stack of the system task.\<close>

definition do_signon :: "u32 \<Rightarrow> int \<Rightarrow> bool \<Rightarrow> u32 \<Rightarrow> kstate \<Rightarrow> (int \<times> kstate) option" where
  "do_signon info proc_nr priv argp s =
     (if \<not> isokprocn proc_nr then None
      else if \<not> priv \<or> \<not> isuserp (procs s proc_nr) then Some (EPERM, s)
      else do {
        (r, s1) \<leftarrow> vir_copy SYSTASK info proc_nr argp 4 (kstore info (word_of_int proc_nr) s);
        if r \<noteq> OK then Some (EFAULT, s1)
        else Some (OK, upd_proc proc_nr (\<lambda>p. p\<lparr>p_priority := PPRI_SERVER, p_pid := 0\<rparr>) s1)
      })"

definition do_findproc :: "u8 list \<Rightarrow> kstate \<Rightarrow> int option" where
  "do_findproc name s =
     find (\<lambda>n. (istaskp (procs s n) \<or> isservp (procs s n)) \<and> take 14 (p_name (procs s n)) = take 14 name)
       [- NR_TASKS..NR_PROCS - 1]"

end
