(* ===== verification/Kernel_Clock_Inv.thy ===== *)
theory Kernel_Clock_Inv
  imports Kernel_System
begin

text \<open>
  The timers of the clock task as lists: the active ones, sorted by expiry, and per task the expired
  ones.  The lemmas give the effect of setting, clearing and expiring a timer on these lists.
\<close>

definition exp_at :: "kstate \<Rightarrow> nat \<Rightarrow> int" where
  "exp_at s t = tmr_exp_time (tmr s t)"

definition tmr_inv :: "kstate \<Rightarrow> nat list \<Rightarrow> (int \<Rightarrow> nat list) \<Rightarrow> bool" where
  "tmr_inv s ts es \<longleftrightarrow> chain (tmr_chain s) (timers s) ts \<and> sorted (map (exp_at s) ts)
     \<and> (\<forall>p. isokprocn p \<longrightarrow> chain (tmr_chain s) (p_exptimers (procs s p)) (es p))
     \<and> (\<forall>p t. t \<in> set (es p) \<longrightarrow> isokprocn p \<and> tmr_task (tmr s t) = p \<and> t \<notin> set ts \<and> exp_at s t \<noteq> TMR_NEVER)
     \<and> (\<forall>t \<in> set ts. isokprocn (tmr_task (tmr s t)) \<and> exp_at s t \<noteq> TMR_NEVER)
     \<and> (ts \<noteq> [] \<longrightarrow> next_timer s \<le> exp_at s (hd ts))"

lemma tmr_invD:
  assumes "tmr_inv s ts es"
  shows "chain (tmr_chain s) (timers s) ts" "sorted (map (exp_at s) ts)"
    "\<And>p. isokprocn p \<Longrightarrow> chain (tmr_chain s) (p_exptimers (procs s p)) (es p)"
    "\<And>p t. t \<in> set (es p) \<Longrightarrow> isokprocn p \<and> tmr_task (tmr s t) = p \<and> t \<notin> set ts \<and> exp_at s t \<noteq> TMR_NEVER"
    "\<And>t. t \<in> set ts \<Longrightarrow> isokprocn (tmr_task (tmr s t)) \<and> exp_at s t \<noteq> TMR_NEVER"
    "ts \<noteq> [] \<Longrightarrow> next_timer s \<le> exp_at s (hd ts)"
  using assms unfolding tmr_inv_def by blast+

lemma tmr_inv_cong:
  assumes "tmr_inv s ts es" "tmr s' = tmr s" "timers s' = timers s" "next_timer s' = next_timer s"
    "\<And>p. p_exptimers (procs s' p) = p_exptimers (procs s p)"
  shows "tmr_inv s' ts es"
proof -
  have "exp_at s' = exp_at s" using assms by (simp add: exp_at_def fun_eq_iff)
  then show ?thesis using assms by (simp add: tmr_inv_def)
qed

subsection \<open>Clearing\<close>

lemma unlink_timer_absent:
  "chain (tmr_chain s) h xs \<Longrightarrow> tp \<notin> set xs \<Longrightarrow> unlink_timer tp h s = Some None"
  by (cases xs) (auto simp: unlink_timer_def chain_pred_absent)

lemma unlink_timer_found:
  assumes ch: "chain (tmr_chain s) h xs" and tp: "tp \<in> set xs"
  shows "\<exists>h' s'. unlink_timer tp h s = Some (Some (h', s')) \<and> chain (tmr_chain s') h' (remove1 tp xs)
    \<and> (\<forall>p ys. set ys \<inter> set xs = {} \<longrightarrow> chain (tmr_chain s) p ys \<longrightarrow> chain (tmr_chain s') p ys)
    \<and> (\<forall>t. (tmr s' t)\<lparr>tmr_next := None\<rparr> = (tmr s t)\<lparr>tmr_next := None\<rparr>) \<and> s'\<lparr>tmr := tmr s\<rparr> = s"
proof -
  from tp obtain x ys where xs: "xs = x # ys" by (cases xs) auto
  have h: "h = Some x" using ch xs by simp
  show ?thesis
  proof (cases "x = tp")
    case True
    with ch xs h show ?thesis by (simp add: unlink_timer_def)
  next
    case False
    with tp xs obtain us a vs where sp: "x # ys = us @ a # tp # vs" using split_before [of tp ys x] by auto
    have ch': "chain (tmr_chain s) (Some x) (us @ a # tp # vs)" using ch xs h sp by simp
    have d: "distinct (us @ a # tp # vs)" using ch' by (rule chain_distinct)
    let ?s' = "s\<lparr>tmr := (tmr s)(a := (tmr s a)\<lparr>tmr_next := tmr_next (tmr s tp)\<rparr>)\<rparr>"
    have r: "unlink_timer tp h s = Some (Some (h, ?s'))"
      using chain_pred_found [OF ch'] False h by (simp add: unlink_timer_def)
    have nx: "tmr_chain ?s' = (tmr_chain s)(a := tmr_chain s tp)" by auto
    have "chain (tmr_chain ?s') h (remove1 tp xs)"
      using chain_unlink [OF ch'] remove1_before [OF d] sp xs h unfolding nx by simp
    moreover have "chain (tmr_chain ?s') p zs" if "set zs \<inter> set xs = {}" "chain (tmr_chain s) p zs" for p zs
    proof -
      have "a \<in> set xs" using sp xs by simp
      with that have "a \<notin> set zs" by blast
      with that(2) show ?thesis unfolding nx by (simp add: chain_upd_other)
    qed
    ultimately show ?thesis using r by auto
  qed
qed

text \<open>The effect of clearing on the two kinds of lists: the timer is on none of them afterwards.\<close>

lemma tmr_clrtimer_spec:
  assumes inv: "tmr_inv s ts es" and tk: "isokprocn (tmr_task (tmr s tp))"
  shows "\<exists>s'. tmr_clrtimer tp s = Some s' \<and> tmr_inv s' (remove1 tp ts) (\<lambda>p. remove1 tp (es p))
    \<and> exp_at s' tp = TMR_NEVER \<and> (\<forall>t. t \<noteq> tp \<longrightarrow> exp_at s' t = exp_at s t)
    \<and> (\<forall>t. tmr_task (tmr s' t) = tmr_task (tmr s t) \<and> tmr_func (tmr s' t) = tmr_func (tmr s t)
         \<and> tmr_arg (tmr s' t) = tmr_arg (tmr s t))
    \<and> (\<forall>n. (procs s' n)\<lparr>p_exptimers := None\<rparr> = (procs s n)\<lparr>p_exptimers := None\<rparr>)
    \<and> s'\<lparr>procs := procs s, tmr := tmr s, timers := timers s\<rparr> = s"
proof -
  note i = tmr_invD [OF inv]
  define s0 where "s0 = s\<lparr>tmr := (tmr s)(tp := (tmr s tp)\<lparr>tmr_exp_time := TMR_NEVER\<rparr>)\<rparr>"
  have nx: "tmr_chain s0 = tmr_chain s" by (auto simp: s0_def)
  have ch: "chain (tmr_chain s0) (timers s0) ts" using i(1) nx by (simp add: s0_def)
  have che: "chain (tmr_chain s0) (p_exptimers (procs s0 p)) (es p)" if "isokprocn p" for p
    using i(3) [OF that] nx by (simp add: s0_def)
  have f0: "exp_at s0 t = (if t = tp then TMR_NEVER else exp_at s t)" "tmr_task (tmr s0 t) = tmr_task (tmr s t)"
    "tmr_func (tmr s0 t) = tmr_func (tmr s t)" "tmr_arg (tmr s0 t) = tmr_arg (tmr s t)" for t
    by (simp_all add: s0_def exp_at_def)
  have d: "distinct ts" using i(1) by (rule chain_distinct)
  have de: "distinct (es p)" for p
    using i(3) [of p] chain_distinct i(4) [of _ p] by (cases "es p") fastforce+
  have srt: "sorted (map f (remove1 tp ts))" if "\<And>t. t \<noteq> tp \<Longrightarrow> f t = exp_at s t" for f
  proof -
    have "map f (remove1 tp ts) = map (exp_at s) (remove1 tp ts)" using that d by (auto simp: distinct_remove1 set_remove1_eq)
    then show ?thesis using sorted_map_remove1 [OF i(2), of tp] by (simp only:)
  qed
  have hdle: "next_timer s \<le> exp_at s (hd (remove1 tp ts))" if "remove1 tp ts \<noteq> []"
  proof -
    have ne: "ts \<noteq> []" using that by auto
    then have "\<forall>t \<in> set ts. exp_at s (hd ts) \<le> exp_at s t" using i(2) by (cases ts) auto
    moreover have "hd (remove1 tp ts) \<in> set ts" using hd_in_set [OF that] set_remove1_subset by fast
    ultimately show ?thesis using i(6) [OF ne] by fastforce
  qed
  have rest: "tmr_inv s' (remove1 tp ts) (\<lambda>p. remove1 tp (es p))"
    if c: "chain (tmr_chain s') (timers s') (remove1 tp ts)"
      "\<And>p. isokprocn p \<Longrightarrow> chain (tmr_chain s') (p_exptimers (procs s' p)) (remove1 tp (es p))"
      and ex: "\<And>t. t \<noteq> tp \<Longrightarrow> exp_at s' t = exp_at s t" and tsk: "\<And>t. tmr_task (tmr s' t) = tmr_task (tmr s t)"
      and nt: "next_timer s' = next_timer s" for s'
  proof -
    have "hd (remove1 tp ts) \<noteq> tp" if "remove1 tp ts \<noteq> []" using hd_in_set [OF that] d by auto
    then show ?thesis
      unfolding tmr_inv_def using c srt [OF ex] hdle i(4,5) d de
      by (auto simp: tsk nt ex set_remove1_eq)
  qed
  show ?thesis
  proof (cases "tp \<in> set ts")
    case True
    obtain h' s1 where s1: "unlink_timer tp (timers s0) s0 = Some (Some (h', s1))"
      "chain (tmr_chain s1) h' (remove1 tp ts)"
      "\<forall>p ys. set ys \<inter> set ts = {} \<longrightarrow> chain (tmr_chain s0) p ys \<longrightarrow> chain (tmr_chain s1) p ys"
      "\<forall>t. (tmr s1 t)\<lparr>tmr_next := None\<rparr> = (tmr s0 t)\<lparr>tmr_next := None\<rparr>" "s1\<lparr>tmr := tmr s0\<rparr> = s0"
      using unlink_timer_found [OF ch True] by blast
    have g: "tmr_exp_time (tmr s1 t) = tmr_exp_time (tmr s0 t)" "tmr_task (tmr s1 t) = tmr_task (tmr s0 t)"
      "tmr_func (tmr s1 t) = tmr_func (tmr s0 t)" "tmr_arg (tmr s1 t) = tmr_arg (tmr s0 t)" for t
      using arg_cong [OF spec [OF s1(4), of t], of tmr_exp_time] arg_cong [OF spec [OF s1(4), of t], of tmr_task]
        arg_cong [OF spec [OF s1(4), of t], of tmr_func] arg_cong [OF spec [OF s1(4), of t], of tmr_arg] by simp_all
    have g2: "procs s1 = procs s" "next_timer s1 = next_timer s"
      using arg_cong [OF s1(5), of procs] arg_cong [OF s1(5), of next_timer] by (simp_all add: s0_def)
    have r: "tmr_clrtimer tp s = Some (s1\<lparr>timers := h'\<rparr>)"
      unfolding tmr_clrtimer_def Let_def s0_def [symmetric] using s1(1) by simp
    have ne: "tp \<notin> set (es p)" for p using i(4) True by blast
    have "tmr_inv (s1\<lparr>timers := h'\<rparr>) (remove1 tp ts) (\<lambda>p. remove1 tp (es p))"
    proof (rule rest)
      show "chain (tmr_chain (s1\<lparr>timers := h'\<rparr>)) (p_exptimers (procs (s1\<lparr>timers := h'\<rparr>) p)) (remove1 tp (es p))"
        if "isokprocn p" for p
      proof -
        have "set (es p) \<inter> set ts = {}" using i(4) by blast
        with s1(3) che [OF that] have "chain (tmr_chain s1) (p_exptimers (procs s0 p)) (es p)" by blast
        then show ?thesis using ne [of p] g2 by (simp add: remove1_idem s0_def)
      qed
    qed (use s1(2) g g2 f0 in \<open>auto simp: exp_at_def\<close>)
    moreover have "(s1\<lparr>timers := h'\<rparr>)\<lparr>procs := procs s, tmr := tmr s, timers := timers s\<rparr> = s"
      using s1(5) by (cases s1; cases s) (simp add: s0_def)
    ultimately show ?thesis using r g g2 f0 by (auto simp: exp_at_def)
  next
    case False
    let ?p = "tmr_task (tmr s tp)"
    have u: "unlink_timer tp (timers s0) s0 = Some None" by (rule unlink_timer_absent [OF ch False])
    show ?thesis
    proof (cases "tp \<in> set (es ?p)")
      case ne: False
      have "tp \<notin> set (es p)" for p using i(4) ne by blast
      then have e: "remove1 tp ts = ts" "remove1 tp (es p) = es p" for p
        using False by (auto simp: remove1_idem)
      have "tmr_clrtimer tp s = Some s0"
        unfolding tmr_clrtimer_def Let_def s0_def [symmetric]
        using u unlink_timer_absent [OF che [OF tk] ne] tk f0(2) by simp
      moreover have "tmr_inv s0 (remove1 tp ts) (\<lambda>p. remove1 tp (es p))"
        by (rule rest) (use ch che f0 in \<open>auto simp: s0_def e\<close>)
      ultimately show ?thesis using f0 by (auto simp: s0_def)
    next
      case True
      obtain h' s1 where s1: "unlink_timer tp (p_exptimers (procs s0 ?p)) s0 = Some (Some (h', s1))"
        "chain (tmr_chain s1) h' (remove1 tp (es ?p))"
        "\<forall>p ys. set ys \<inter> set (es ?p) = {} \<longrightarrow> chain (tmr_chain s0) p ys \<longrightarrow> chain (tmr_chain s1) p ys"
        "\<forall>t. (tmr s1 t)\<lparr>tmr_next := None\<rparr> = (tmr s0 t)\<lparr>tmr_next := None\<rparr>" "s1\<lparr>tmr := tmr s0\<rparr> = s0"
        using unlink_timer_found [OF che [OF tk] True] by blast
      have g: "tmr_exp_time (tmr s1 t) = tmr_exp_time (tmr s0 t)" "tmr_task (tmr s1 t) = tmr_task (tmr s0 t)"
        "tmr_func (tmr s1 t) = tmr_func (tmr s0 t)" "tmr_arg (tmr s1 t) = tmr_arg (tmr s0 t)" for t
        using arg_cong [OF spec [OF s1(4), of t], of tmr_exp_time] arg_cong [OF spec [OF s1(4), of t], of tmr_task]
          arg_cong [OF spec [OF s1(4), of t], of tmr_func] arg_cong [OF spec [OF s1(4), of t], of tmr_arg] by simp_all
      have g2: "procs s1 = procs s" "next_timer s1 = next_timer s" "timers s1 = timers s"
        using arg_cong [OF s1(5), of procs] arg_cong [OF s1(5), of next_timer] arg_cong [OF s1(5), of timers]
        by (simp_all add: s0_def)
      define s2 where "s2 = upd_proc ?p (\<lambda>q. q\<lparr>p_exptimers := h'\<rparr>) s1"
      have r: "tmr_clrtimer tp s = Some s2"
        unfolding tmr_clrtimer_def Let_def s0_def [symmetric] s2_def using u s1(1) tk f0(2) by simp
      have ts: "remove1 tp ts = ts" using False by (simp add: remove1_idem)
      have "tmr_inv s2 (remove1 tp ts) (\<lambda>p. remove1 tp (es p))"
      proof (rule rest)
        have "set ts \<inter> set (es ?p) = {}" using i(4) by blast
        then show "chain (tmr_chain s2) (timers s2) (remove1 tp ts)"
          using s1(3) ch g2 unfolding ts by (simp add: s2_def upd_proc_def s0_def)
        show "chain (tmr_chain s2) (p_exptimers (procs s2 p)) (remove1 tp (es p))" if "isokprocn p" for p
        proof (cases "p = ?p")
          case True
          with s1(2) show ?thesis by (simp add: s2_def upd_proc_def)
        next
          case ne: False
          have "set (es p) \<inter> set (es ?p) = {}" "tp \<notin> set (es p)" using i(4) ne by blast+
          with s1(3) che [OF that] ne g2 show ?thesis by (simp add: s2_def upd_proc_def remove1_idem s0_def)
        qed
      qed (use g g2 f0 in \<open>auto simp: s2_def upd_proc_def exp_at_def\<close>)
      moreover have "s2\<lparr>procs := procs s, tmr := tmr s, timers := timers s\<rparr> = s"
        using s1(5) by (cases s1; cases s) (simp add: s0_def s2_def upd_proc_def)
      ultimately show ?thesis using r g g2 f0 by (auto simp: s2_def upd_proc_def exp_at_def)
    qed
  qed
qed

subsection \<open>Setting\<close>

lemma settimer_place_spec:
  "chain (\<lambda>t. tmr_next (tab t)) (Some c) (c # cs) \<Longrightarrow>
   settimer_place tab e prev c = Some (let us = takeWhile (\<lambda>t. tmr_exp_time (tab t) \<le> e) (c # cs)
      in if us = [] then prev else Some (last us))"
proof (induction cs arbitrary: c prev)
  case Nil
  then show ?case by (subst settimer_place.simps) auto
next
  case (Cons d ds)
  then have "tmr_next (tab c) = Some d" "chain (\<lambda>t. tmr_next (tab t)) (Some d) (d # ds)" by auto
  with Cons.IH [of d "Some c"] show ?case by (subst settimer_place.simps) (auto simp: Let_def)
qed

text \<open>Inserting a slot into a chain behind \<open>us\<close>.\<close>

lemma chain_insert:
  assumes "chain nx p (us @ vs)" "x \<notin> set (us @ vs)"
  shows "us = [] \<Longrightarrow> chain (nx(x := p)) (Some x) (x # vs)"
    and "us \<noteq> [] \<Longrightarrow> chain (nx(x := nx (last us), last us := Some x)) p (us @ x # vs)"
proof -
  show "chain (nx(x := p)) (Some x) (x # vs)" if "us = []" using assms that by (simp add: chain_upd_other)
  show "chain (nx(x := nx (last us), last us := Some x)) p (us @ x # vs)" if "us \<noteq> []"
    using assms that
  proof (induction us arbitrary: p)
    case Nil
    then show ?case by simp
  next
    case (Cons u us)
    have d: "distinct ((u # us) @ vs)" using Cons.prems(1) by (rule chain_distinct)
    show ?case
    proof (cases "us = []")
      case True
      have "chain (nx(x := nx u, u := Some x)) (nx u) vs \<longleftrightarrow> chain nx (nx u) vs"
        by (rule chain_cong) (use Cons.prems d in auto)
      with Cons.prems True show ?thesis by (simp add: fun_upd_def)
    next
      case False
      then have "chain (nx(x := nx (last us), last us := Some x)) (nx u) (us @ x # vs)"
        by (intro Cons.IH) (use Cons.prems in auto)
      moreover have "u \<noteq> x" "u \<noteq> last us" using Cons.prems d False by auto
      ultimately show ?thesis using Cons.prems False by (simp add: fun_upd_def)
    qed
  qed
qed

lemma sorted_insert:
  assumes "sorted (map f ts)"
  shows "sorted (map f (takeWhile (\<lambda>t. f t \<le> e) ts)) \<and> (\<forall>t \<in> set (dropWhile (\<lambda>t. f t \<le> e) ts). e < f t)
    \<and> sorted (map f (dropWhile (\<lambda>t. f t \<le> e) ts))"
  using assms
proof (induction ts)
  case Nil
  then show ?case by simp
next
  case (Cons t ts)
  then show ?case by (auto dest: set_takeWhileD)
qed

definition settimer_list :: "(nat \<Rightarrow> int) \<Rightarrow> int \<Rightarrow> nat \<Rightarrow> nat list \<Rightarrow> nat list" where
  "settimer_list f e tp ts = takeWhile (\<lambda>t. f t \<le> e) ts @ tp # dropWhile (\<lambda>t. f t \<le> e) ts"

lemma tmr_settimer_absent:
  assumes inv: "tmr_inv s ts es" and tp: "tp \<notin> set ts" "\<And>p. tp \<notin> set (es p)"
    and ok: "isokprocn task" "e \<noteq> TMR_NEVER" and never: "exp_at s tp = TMR_NEVER"
  shows "\<exists>s'. tmr_settimer tp task e fp s = Some s' \<and> tmr_inv s' (settimer_list (exp_at s) e tp ts) es
    \<and> exp_at s' tp = e \<and> (\<forall>t. t \<noteq> tp \<longrightarrow> exp_at s' t = exp_at s t)
    \<and> tmr_task (tmr s' tp) = task \<and> tmr_func (tmr s' tp) = fp \<and> (\<forall>t. tmr_arg (tmr s' t) = tmr_arg (tmr s t))
    \<and> (\<forall>t. t \<noteq> tp \<longrightarrow> tmr_task (tmr s' t) = tmr_task (tmr s t) \<and> tmr_func (tmr s' t) = tmr_func (tmr s t))
    \<and> procs s' = procs s \<and> s'\<lparr>tmr := tmr s, timers := timers s, next_timer := next_timer s\<rparr> = s"
proof -
  note i = tmr_invD [OF inv]
  define us where "us = takeWhile (\<lambda>t. exp_at s t \<le> e) ts"
  define vs where "vs = dropWhile (\<lambda>t. exp_at s t \<le> e) ts"
  have uv: "us @ vs = ts" by (simp add: us_def vs_def)
  define s2 where "s2 = upd_tmr tp (\<lambda>t. t\<lparr>tmr_task := task, tmr_exp_time := e, tmr_func := fp\<rparr>) s"
  have f2: "tmr_chain s2 = tmr_chain s" "timers s2 = timers s" "exp_at s2 t = (if t = tp then e else exp_at s t)"
    "tmr_arg (tmr s2 t) = tmr_arg (tmr s t)" "procs s2 = procs s" for t
    by (auto simp: s2_def upd_tmr_def exp_at_def)
  have ch: "chain (tmr_chain s2) (timers s2) ts" using i(1) f2 by simp
  define atp where "atp = (if us = [] then None else Some (last us))"
  have tw: "takeWhile (\<lambda>t. tmr_exp_time (tmr s2 t) \<le> e) ts = us"
    unfolding us_def by (rule takeWhile_cong) (use tp(1) in \<open>auto simp: s2_def upd_tmr_def exp_at_def\<close>)
  have place: "(case timers s2 of None \<Rightarrow> Some None | Some h \<Rightarrow> settimer_place (tmr s2) e None h) = Some atp"
  proof (cases ts)
    case Nil
    with ch show ?thesis using uv by (simp add: atp_def)
  next
    case (Cons c cs)
    with ch have h: "timers s2 = Some c" "chain (tmr_chain s2) (Some c) (c # cs)" by auto
    from settimer_place_spec [OF h(2), of e None] h(1) tw Cons show ?thesis by (simp add: atp_def Let_def)
  qed
  define s3 where "s3 = (case atp of
                   None \<Rightarrow> (upd_tmr tp (\<lambda>t. t\<lparr>tmr_next := timers s2\<rparr>) s2)\<lparr>timers := Some tp\<rparr>
                 | Some a \<Rightarrow> upd_tmr a (\<lambda>t. t\<lparr>tmr_next := Some tp\<rparr>)
                               (upd_tmr tp (\<lambda>t. t\<lparr>tmr_next := tmr_next (tmr s2 a)\<rparr>) s2))"
  have lu: "us \<noteq> [] \<Longrightarrow> last us \<noteq> tp" using tp(1) uv last_in_set [of us] by auto
  have f3: "exp_at s3 t = exp_at s2 t" "tmr_arg (tmr s3 t) = tmr_arg (tmr s2 t)"
    "tmr_task (tmr s3 t) = tmr_task (tmr s2 t)" "tmr_func (tmr s3 t) = tmr_func (tmr s2 t)"
    "procs s3 = procs s2" for t
    by (auto simp: s3_def upd_tmr_def exp_at_def split: option.split)
  have nx3: "us = [] \<Longrightarrow> tmr_chain s3 = (tmr_chain s2)(tp := timers s2)" "us = [] \<Longrightarrow> timers s3 = Some tp"
    "us \<noteq> [] \<Longrightarrow> tmr_chain s3 = (tmr_chain s2)(tp := tmr_chain s2 (last us), last us := Some tp)"
    "us \<noteq> [] \<Longrightarrow> timers s3 = timers s2"
    using lu by (auto simp: s3_def atp_def upd_tmr_def fun_eq_iff)
  have c3: "chain (tmr_chain s3) (timers s3) (us @ tp # vs)"
    using chain_insert [of "tmr_chain s2" "timers s2" us vs tp] ch tp(1) uv nx3 by (cases "us = []") auto
  define h where "h = hd (us @ tp # vs)"
  have th: "timers s3 = Some h" using chain_hd [OF c3] by (simp add: h_def)
  have never': "\<not> tmr_exp_time (tmr s tp) \<noteq> TMR_NEVER" using never by (simp add: exp_at_def)
  have r: "tmr_settimer tp task e fp s = Some (s3\<lparr>next_timer := exp_at s3 h\<rparr>)"
    unfolding tmr_settimer_def Let_def using never' place th
    by (simp only: if_False Option.bind.bind_lunit s2_def [symmetric] s3_def [symmetric] option.case exp_at_def)
  let ?s' = "s3\<lparr>next_timer := exp_at s3 h\<rparr>"
  have g: "exp_at ?s' t = (if t = tp then e else exp_at s t)" for t
    using f3(1) [of t] f2(3) [of t] by (simp add: exp_at_def)
  have srt: "sorted (map (exp_at ?s') (us @ tp # vs))"
  proof -
    have m: "map (exp_at ?s') us = map (exp_at s) us" "map (exp_at ?s') vs = map (exp_at s) vs"
      using tp(1) uv by (auto simp: g)
    have u: "\<forall>t \<in> set us. exp_at s t \<le> e" by (auto simp: us_def dest: set_takeWhileD)
    have v: "sorted (map (exp_at s) us)" "\<forall>t \<in> set vs. e < exp_at s t" "sorted (map (exp_at s) vs)"
      using sorted_insert [OF i(2), of e] unfolding us_def vs_def by blast+
    have "exp_at s x \<le> exp_at s y" if "x \<in> set us" "y \<in> set vs" for x y using u v(2) that by fastforce
    with u v show ?thesis unfolding map_append list.map m by (auto simp: sorted_append g)
  qed
  have che: "chain (tmr_chain ?s') (p_exptimers (procs ?s' p)) (es p)" if "isokprocn p" for p
  proof -
    have "chain (tmr_chain s3) (p_exptimers (procs s p)) (es p) \<longleftrightarrow> chain (tmr_chain s) (p_exptimers (procs s p)) (es p)"
    proof (rule chain_cong)
      fix x assume x: "x \<in> set (es p)"
      have "x \<noteq> tp" "x \<notin> set ts" using x tp(2) i(4) by blast+
      moreover have "us \<noteq> [] \<Longrightarrow> last us \<in> set ts" using uv last_in_set [of us] by auto
      ultimately show "tmr_chain s3 x = tmr_chain s x"
        using fun_cong [OF nx3(1), of x] fun_cong [OF nx3(3), of x] fun_cong [OF f2(1), of x]
        by (cases "us = []") auto
    qed
    with i(3) [OF that] f2 f3 show ?thesis by simp
  qed
  have tk: "tmr_task (tmr ?s' t) = (if t = tp then task else tmr_task (tmr s t))" for t
    using f3(3) [of t] by (simp add: s2_def upd_tmr_def)
  have "tmr_inv ?s' (us @ tp # vs) es"
    unfolding tmr_inv_def
  proof (intro conjI allI impI ballI)
    show "chain (tmr_chain ?s') (timers ?s') (us @ tp # vs)" using c3 by simp
    show "sorted (map (exp_at ?s') (us @ tp # vs))" by (rule srt)
    show "isokprocn p \<Longrightarrow> chain (tmr_chain ?s') (p_exptimers (procs ?s' p)) (es p)" for p by (rule che)
    show "isokprocn p" if "t \<in> set (es p)" for p t using i(4) [OF that] by blast
    show "tmr_task (tmr ?s' t) = p" if "t \<in> set (es p)" for p t using i(4) [OF that] tp(2) that tk [of t] by auto
    show "t \<notin> set (us @ tp # vs)" if "t \<in> set (es p)" for p t
      using i(4) [OF that] tp(2) [of p] that by (auto simp flip: uv)
    show "exp_at ?s' t \<noteq> TMR_NEVER" if "t \<in> set (es p)" for p t using i(4) [OF that] ok g [of t] by auto
    show "isokprocn (tmr_task (tmr ?s' t))" if "t \<in> set (us @ tp # vs)" for t
      using i(5) [of t] that ok tk [of t] by (auto simp flip: uv)
    show "exp_at ?s' t \<noteq> TMR_NEVER" if "t \<in> set (us @ tp # vs)" for t
      using i(5) [of t] that ok g [of t] by (auto simp flip: uv)
    show "next_timer ?s' \<le> exp_at ?s' (hd (us @ tp # vs))" by (simp add: h_def exp_at_def)
  qed
  moreover have "?s'\<lparr>tmr := tmr s, timers := timers s, next_timer := next_timer s\<rparr> = s"
    by (cases s) (auto simp: s3_def s2_def upd_tmr_def split: option.split)
  moreover have "tmr_func (tmr ?s' t) = (if t = tp then fp else tmr_func (tmr s t))"
    "tmr_arg (tmr ?s' t) = tmr_arg (tmr s t)" for t
    using f3(2,4) [of t] f2(4) [of t] by (simp_all add: s2_def upd_tmr_def)
  ultimately show ?thesis
    using r g tk f2(5) f3(5) by (simp add: settimer_list_def us_def vs_def)
qed

lemma not_never: "tmr_inv s ts es \<Longrightarrow> exp_at s tp = TMR_NEVER \<Longrightarrow> tp \<notin> set ts \<and> (\<forall>p. tp \<notin> set (es p))"
  by (auto dest: tmr_invD(4,5))

lemma remove1_never:
  assumes "tmr_inv s ts es"
  shows "tp \<notin> set (remove1 tp ts)" "tp \<notin> set (remove1 tp (es p))"
proof -
  note i = tmr_invD [OF assms]
  show "tp \<notin> set (remove1 tp ts)" using chain_distinct [OF i(1)] by simp
  show "tp \<notin> set (remove1 tp (es p))"
  proof (cases "tp \<in> set (es p)")
    case True
    then have "isokprocn p" using i(4) by blast
    then show ?thesis using chain_distinct [OF i(3)] by simp
  next
    case False
    then show ?thesis by (simp add: remove1_idem)
  qed
qed

text \<open>Setting a timer, active, expired or idle before: it is exactly once on the list of active
  timers, in order of expiry and behind those that expire at the same time.\<close>

lemma tmr_settimer_spec:
  assumes inv: "tmr_inv s ts es" and tk: "isokprocn (tmr_task (tmr s tp))"
    and ok: "isokprocn task" "e \<noteq> TMR_NEVER"
  shows "\<exists>s'. tmr_settimer tp task e fp s = Some s'
    \<and> tmr_inv s' (settimer_list (exp_at s) e tp (remove1 tp ts)) (\<lambda>p. remove1 tp (es p))
    \<and> exp_at s' tp = e \<and> (\<forall>t. t \<noteq> tp \<longrightarrow> exp_at s' t = exp_at s t)
    \<and> tmr_task (tmr s' tp) = task \<and> tmr_func (tmr s' tp) = fp \<and> (\<forall>t. tmr_arg (tmr s' t) = tmr_arg (tmr s t))
    \<and> (\<forall>t. t \<noteq> tp \<longrightarrow> tmr_task (tmr s' t) = tmr_task (tmr s t) \<and> tmr_func (tmr s' t) = tmr_func (tmr s t))
    \<and> (\<forall>n. (procs s' n)\<lparr>p_exptimers := None\<rparr> = (procs s n)\<lparr>p_exptimers := None\<rparr>)
    \<and> s'\<lparr>procs := procs s, tmr := tmr s, timers := timers s, next_timer := next_timer s\<rparr> = s"
proof (cases "exp_at s tp = TMR_NEVER")
  case True
  note n = not_never [OF inv True]
  then have "remove1 tp ts = ts" "(\<lambda>p. remove1 tp (es p)) = es" by (simp_all add: remove1_idem fun_eq_iff)
  moreover have "s'\<lparr>procs := procs s, tmr := tmr s, timers := timers s, next_timer := next_timer s\<rparr> = s"
    if "procs s' = procs s" "s'\<lparr>tmr := tmr s, timers := timers s, next_timer := next_timer s\<rparr> = s" for s'
    using that by (cases s; cases s') simp
  ultimately show ?thesis using tmr_settimer_absent [OF inv _ _ ok True, of fp] n by auto
next
  case False
  obtain s1 where s1: "tmr_clrtimer tp s = Some s1" "tmr_inv s1 (remove1 tp ts) (\<lambda>p. remove1 tp (es p))"
    "exp_at s1 tp = TMR_NEVER" "\<forall>t. t \<noteq> tp \<longrightarrow> exp_at s1 t = exp_at s t"
    "\<forall>t. tmr_task (tmr s1 t) = tmr_task (tmr s t) \<and> tmr_func (tmr s1 t) = tmr_func (tmr s t)
         \<and> tmr_arg (tmr s1 t) = tmr_arg (tmr s t)"
    "\<forall>n. (procs s1 n)\<lparr>p_exptimers := None\<rparr> = (procs s n)\<lparr>p_exptimers := None\<rparr>"
    "s1\<lparr>procs := procs s, tmr := tmr s, timers := timers s\<rparr> = s"
    using tmr_clrtimer_spec [OF inv tk] by blast
  have n1: "tmr_exp_time (tmr s1 tp) = TMR_NEVER" "tmr_exp_time (tmr s tp) \<noteq> TMR_NEVER"
    using s1(3) False by (simp_all add: exp_at_def)
  then have e: "tmr_settimer tp task e fp s = tmr_settimer tp task e fp s1"
    by (simp add: tmr_settimer_def s1(1))
  have sl: "settimer_list (exp_at s1) e tp (remove1 tp ts) = settimer_list (exp_at s) e tp (remove1 tp ts)"
  proof -
    have "exp_at s1 t = exp_at s t" if "t \<in> set (remove1 tp ts)" for t
      using remove1_never(1) [OF inv, of tp] s1(4) that by metis
    then show ?thesis by (simp add: settimer_list_def cong: takeWhile_cong dropWhile_cong)
  qed
  obtain s2 where s2: "tmr_settimer tp task e fp s1 = Some s2"
    "tmr_inv s2 (settimer_list (exp_at s1) e tp (remove1 tp ts)) (\<lambda>p. remove1 tp (es p))"
    "exp_at s2 tp = e" "\<forall>t. t \<noteq> tp \<longrightarrow> exp_at s2 t = exp_at s1 t"
    "tmr_task (tmr s2 tp) = task" "tmr_func (tmr s2 tp) = fp" "\<forall>t. tmr_arg (tmr s2 t) = tmr_arg (tmr s1 t)"
    "\<forall>t. t \<noteq> tp \<longrightarrow> tmr_task (tmr s2 t) = tmr_task (tmr s1 t) \<and> tmr_func (tmr s2 t) = tmr_func (tmr s1 t)"
    "procs s2 = procs s1" "s2\<lparr>tmr := tmr s1, timers := timers s1, next_timer := next_timer s1\<rparr> = s1"
    using tmr_settimer_absent [OF s1(2) remove1_never(1) [OF inv] remove1_never(2) [OF inv] ok s1(3), of fp] by blast
  have "s2\<lparr>procs := procs s, tmr := tmr s, timers := timers s, next_timer := next_timer s\<rparr>
      = (s2\<lparr>tmr := tmr s1, timers := timers s1, next_timer := next_timer s1\<rparr>)
          \<lparr>procs := procs s, tmr := tmr s, timers := timers s, next_timer := next_timer s\<rparr>"
    by (cases s2) simp
  also have "\<dots> = (s1\<lparr>procs := procs s, tmr := tmr s, timers := timers s\<rparr>)\<lparr>next_timer := next_timer s\<rparr>"
    unfolding s2(10) by (cases s1) simp
  also have "\<dots> = s" unfolding s1(7) by simp
  finally show ?thesis using e s1 s2 sl by simp
qed

subsection \<open>Expiring\<close>

text \<open>At task level (\<^verbatim>\<open>k_reenter\<close> is not 0) an interrupt is held.\<close>

lemma interrupt_task_level:
  assumes "held_ok s hs" "k_reenter s \<noteq> 0"
  shows "\<exists>s'. interrupt t s = Some s' \<and> held_ok s' (hold_add t hs) \<and> held_frame s s'"
  using hold_spec [OF assms(1), of t] assms(2) by (simp add: interrupt_def)

lemma held_frame_more:
  assumes "held_frame s s'"
  shows "p_exptimers (procs s' n) = p_exptimers (procs s n)" "tmr s' = tmr s" "timers s' = timers s"
    "next_timer s' = next_timer s" "realtime s' = realtime s" "proc_ptr s' = proc_ptr s" "kmem s' = kmem s"
    "bill_ptr s' = bill_ptr s" "sched_ticks s' = sched_ticks s" "prev_ptr s' = prev_ptr s"
proof -
  have f: "(procs s' n)\<lparr>p_nextheld := None, p_int_held := False\<rparr>
       = (procs s n)\<lparr>p_nextheld := None, p_int_held := False\<rparr>" using assms by (auto simp: held_frame_def)
  have g: "s'\<lparr>procs := procs s, held_head := held_head s, held_tail := held_tail s\<rparr> = s"
    using assms by (simp add: held_frame_def)
  show "p_exptimers (procs s' n) = p_exptimers (procs s n)" using arg_cong [OF f, of p_exptimers] by simp
  show "tmr s' = tmr s" using arg_cong [OF g, of tmr] by simp
  show "timers s' = timers s" using arg_cong [OF g, of timers] by simp
  show "next_timer s' = next_timer s" using arg_cong [OF g, of next_timer] by simp
  show "realtime s' = realtime s" using arg_cong [OF g, of realtime] by simp
  show "proc_ptr s' = proc_ptr s" using arg_cong [OF g, of proc_ptr] by simp
  show "kmem s' = kmem s" using arg_cong [OF g, of kmem] by simp
  show "bill_ptr s' = bill_ptr s" using arg_cong [OF g, of bill_ptr] by simp
  show "sched_ticks s' = sched_ticks s" using arg_cong [OF g, of sched_ticks] by simp
  show "prev_ptr s' = prev_ptr s" using arg_cong [OF g, of prev_ptr] by simp
qed

lemma expire_one_spec:
  assumes inv: "tmr_inv s (t # ts) es" and held: "held_ok s hs" and lvl: "k_reenter s \<noteq> 0" and k: "kinv s"
  defines "p \<equiv> tmr_task (tmr s t)"
  shows "\<exists>s'. expire_one t s = Some s' \<and> tmr_inv s' ts (es(p := t # es p)) \<and> kinv s'
    \<and> held_ok s' (if es p = [] \<and> p \<noteq> proc_ptr s then hold_add p hs else hs)
    \<and> k_reenter s' = k_reenter s \<and> realtime s' = realtime s \<and> proc_ptr s' = proc_ptr s
    \<and> (\<forall>u. exp_at s' u = exp_at s u \<and> tmr_task (tmr s' u) = tmr_task (tmr s u)
         \<and> tmr_func (tmr s' u) = tmr_func (tmr s u) \<and> tmr_arg (tmr s' u) = tmr_arg (tmr s u))
    \<and> (\<forall>n. prio s' n = prio s n \<and> flags s' n = flags s n)"
proof -
  note i = tmr_invD [OF inv]
  have okp: "isokprocn p" using i(5) [of t] by (simp add: p_def)
  have nt: "t \<notin> set ts" "t \<notin> set (es q)" for q using chain_distinct [OF i(1)] i(4) [of t q] by auto
  define s1 where "s1 = s\<lparr>timers := tmr_next (tmr s t)\<rparr>"
  have emp: "p_exptimers (procs s1 p) = None \<longleftrightarrow> es p = []" using chain_hd [OF i(3) [OF okp]] by (simp add: s1_def)
  have h1: "held_ok s1 hs" using held by (simp add: held_ok_def s1_def)
  have k1: "kinv s1" by (rule kinv_frame [OF k]) (simp_all add: s1_def)
  let ?c = "p_exptimers (procs s1 p) = None \<and> p \<noteq> proc_ptr s1"
  obtain s2 where s2: "(if ?c then interrupt p s1 else Some s1) = Some s2"
    "held_ok s2 (if ?c then hold_add p hs else hs)" "held_frame s1 s2"
    using interrupt_task_level [OF h1, of p] lvl h1 by (cases ?c) (auto simp: s1_def)
  note f = held_frame_fields [OF s2(3)] and f' = held_frame_more [OF s2(3)]
  define s3 where "s3 = upd_tmr t (\<lambda>u. u\<lparr>tmr_next := p_exptimers (procs s2 p)\<rparr>) s2"
  define s4 where "s4 = upd_proc p (\<lambda>q. q\<lparr>p_exptimers := Some t\<rparr>) s3"
  have nx: "tmr_chain s4 = (tmr_chain s)(t := p_exptimers (procs s p))"
    by (auto simp: s4_def s3_def upd_tmr_def upd_proc_def f' s1_def)
  have g: "timers s4 = tmr_next (tmr s t)" "next_timer s4 = next_timer s" "realtime s4 = realtime s"
    "proc_ptr s4 = proc_ptr s" "k_reenter s4 = k_reenter s" "exp_at s4 u = exp_at s u"
    "tmr_task (tmr s4 u) = tmr_task (tmr s u)" "tmr_func (tmr s4 u) = tmr_func (tmr s u)"
    "tmr_arg (tmr s4 u) = tmr_arg (tmr s u)" "prio s4 q = prio s q" "flags s4 q = flags s q"
    "p_exptimers (procs s4 q) = (if q = p then Some t else p_exptimers (procs s q))" for u q
    by (auto simp: s4_def s3_def upd_tmr_def upd_proc_def f f' s1_def exp_at_def)
  have ch: "chain (tmr_chain s4) (timers s4) ts" using i(1) nt unfolding nx g by (simp add: chain_upd_other)
  have che: "chain (tmr_chain s4) (p_exptimers (procs s4 q)) ((es(p := t # es p)) q)" if "isokprocn q" for q
    using i(3) [OF that] nt unfolding nx g by (auto simp: chain_upd_other)
  have "tmr_inv s4 ts (es(p := t # es p))"
    unfolding tmr_inv_def
  proof (intro conjI allI impI ballI)
    show "chain (tmr_chain s4) (timers s4) ts" by (rule ch)
    have "exp_at s4 = exp_at s" using g(6) by (simp add: fun_eq_iff)
    then show "sorted (map (exp_at s4) ts)" using i(2) by simp
    show "isokprocn q \<Longrightarrow> chain (tmr_chain s4) (p_exptimers (procs s4 q)) ((es(p := t # es p)) q)" for q by (rule che)
    fix q u assume u: "u \<in> set ((es(p := t # es p)) q)"
    show "isokprocn q" using u i(4) [of u q] okp by (auto split: if_splits)
    show "tmr_task (tmr s4 u) = q" using u i(4) [of u q] by (auto simp: g p_def split: if_splits)
    show "u \<notin> set ts" using u i(4) [of u q] nt by (auto split: if_splits)
    show "exp_at s4 u \<noteq> TMR_NEVER" using u i(4) [of u q] i(5) [of t] by (auto simp: g split: if_splits)
  next
    fix u assume "u \<in> set ts"
    then show "isokprocn (tmr_task (tmr s4 u))" "exp_at s4 u \<noteq> TMR_NEVER" using i(5) [of u] by (auto simp: g)
  next
    assume "ts \<noteq> []"
    then show "next_timer s4 \<le> exp_at s4 (hd ts)" using i(2,6) by (cases ts) (auto simp: g)
  qed
  moreover have "kinv s4"
    by (rule kinv_frame [OF held_frame_kinv [OF k1 s2(3)]]) (auto simp: s4_def s3_def upd_tmr_def upd_proc_def)
  moreover have "held_ok s4 (if ?c then hold_add p hs else hs)"
  proof -
    have "nextheld s4 = nextheld s2" "held_head s4 = held_head s2" "held_tail s4 = held_tail s2"
      "(\<lambda>n. p_int_held (procs s4 n)) = (\<lambda>n. p_int_held (procs s2 n))"
      by (auto simp: s4_def s3_def upd_tmr_def upd_proc_def)
    then show ?thesis using s2(2) unfolding held_ok_def by (simp add: fun_eq_iff)
  qed
  moreover have "expire_one t s = Some s4"
  proof -
    have tk1: "tmr_task (tmr s1 t) = p" by (simp add: s1_def p_def)
    have "(if \<not> isokprocn p then None else if ?c then interrupt p s1 else Some s1) = Some s2"
      using okp s2(1) by simp
    then show ?thesis
      unfolding expire_one_def Let_def s1_def [symmetric] tk1
      by (simp only: Option.bind.bind_lunit s3_def [symmetric] s4_def [symmetric])
  qed
  ultimately show ?thesis using emp g by (simp add: s1_def)
qed

text \<open>
  The loop: exactly the timers that are due leave the list of active ones, each for the list of its
  task; a task that had none and is not the clock task itself has an interrupt held for it.
\<close>

lemma move_expired_spec:
  assumes "tmr_inv s ts es" "held_ok s hs" "k_reenter s \<noteq> 0" "kinv s"
  shows "\<exists>s' hs'. move_expired s = Some s' \<and> kinv s' \<and> held_ok s' hs' \<and> k_reenter s' = k_reenter s
    \<and> realtime s' = realtime s \<and> proc_ptr s' = proc_ptr s
    \<and> tmr_inv s' (dropWhile (\<lambda>t. exp_at s t \<le> realtime s) ts)
        (\<lambda>p. rev (filter (\<lambda>t. tmr_task (tmr s t) = p) (takeWhile (\<lambda>t. exp_at s t \<le> realtime s) ts)) @ es p)
    \<and> (\<forall>u. exp_at s' u = exp_at s u \<and> tmr_task (tmr s' u) = tmr_task (tmr s u)
         \<and> tmr_func (tmr s' u) = tmr_func (tmr s u) \<and> tmr_arg (tmr s' u) = tmr_arg (tmr s u))
    \<and> (\<forall>n. prio s' n = prio s n \<and> flags s' n = flags s n)
    \<and> set hs \<subseteq> set hs' \<and> set hs' \<subseteq> set hs \<union> (\<lambda>t. tmr_task (tmr s t)) ` set ts
    \<and> (\<forall>t \<in> set (takeWhile (\<lambda>t. exp_at s t \<le> realtime s) ts).
         es (tmr_task (tmr s t)) = [] \<and> tmr_task (tmr s t) \<noteq> proc_ptr s \<longrightarrow> tmr_task (tmr s t) \<in> set hs')"
  using assms
proof (induction ts arbitrary: s es hs)
  case Nil
  then have "timers s = None" using tmr_invD(1) [OF Nil.prems(1)] by simp
  then have "move_expired s = Some s" by (subst move_expired.simps) simp
  with Nil.prems show ?case by (auto intro!: exI [of _ hs])
next
  case (Cons t ts)
  have h: "timers s = Some t" using tmr_invD(1) [OF Cons.prems(1)] by simp
  show ?case
  proof (cases "exp_at s t \<le> realtime s")
    case False
    then have "move_expired s = Some s" using h by (subst move_expired.simps) (simp add: exp_at_def)
    with False Cons.prems show ?thesis by (auto intro!: exI [of _ hs])
  next
    case True
    define p where "p = tmr_task (tmr s t)"
    define hs1 where "hs1 = (if es p = [] \<and> p \<noteq> proc_ptr s then hold_add p hs else hs)"
    obtain s1 where s1: "expire_one t s = Some s1" "tmr_inv s1 ts (es(p := t # es p))" "kinv s1"
      "held_ok s1 hs1" "k_reenter s1 = k_reenter s" "realtime s1 = realtime s" "proc_ptr s1 = proc_ptr s"
      "\<And>u. exp_at s1 u = exp_at s u" "\<And>u. tmr_task (tmr s1 u) = tmr_task (tmr s u)"
      "\<And>u. tmr_func (tmr s1 u) = tmr_func (tmr s u)" "\<And>u. tmr_arg (tmr s1 u) = tmr_arg (tmr s u)"
      "\<And>n. prio s1 n = prio s n" "\<And>n. flags s1 n = flags s n"
      using expire_one_spec [OF Cons.prems] unfolding p_def [symmetric] hs1_def [symmetric] by blast
    have e1: "exp_at s1 = exp_at s" using s1(8) by (simp add: fun_eq_iff)
    obtain s' hs' where s': "move_expired s1 = Some s'" "kinv s'" "held_ok s' hs'" "k_reenter s' = k_reenter s1"
      "realtime s' = realtime s1" "proc_ptr s' = proc_ptr s1"
      "tmr_inv s' (dropWhile (\<lambda>t. exp_at s t \<le> realtime s) ts)
        (\<lambda>q. rev (filter (\<lambda>t. tmr_task (tmr s t) = q) (takeWhile (\<lambda>t. exp_at s t \<le> realtime s) ts))
             @ (es(p := t # es p)) q)"
      "\<forall>u. exp_at s' u = exp_at s1 u \<and> tmr_task (tmr s' u) = tmr_task (tmr s1 u)
         \<and> tmr_func (tmr s' u) = tmr_func (tmr s1 u) \<and> tmr_arg (tmr s' u) = tmr_arg (tmr s1 u)"
      "set hs1 \<subseteq> set hs'" "set hs' \<subseteq> set hs1 \<union> (\<lambda>t. tmr_task (tmr s t)) ` set ts"
      "\<forall>u \<in> set (takeWhile (\<lambda>t. exp_at s t \<le> realtime s) ts). (es(p := t # es p)) (tmr_task (tmr s u)) = []
         \<and> tmr_task (tmr s u) \<noteq> proc_ptr s \<longrightarrow> tmr_task (tmr s u) \<in> set hs'"
      "\<forall>n. prio s' n = prio s1 n \<and> flags s' n = flags s1 n"
      using Cons.IH [OF s1(2,4) _ s1(3)] Cons.prems(3) s1(5,6,7,9) unfolding e1 by auto
    have es: "(\<lambda>q. rev (filter (\<lambda>u. tmr_task (tmr s u) = q) (takeWhile (\<lambda>t. exp_at s t \<le> realtime s) ts))
             @ (es(p := t # es p)) q)
      = (\<lambda>q. rev (filter (\<lambda>u. tmr_task (tmr s u) = q) (takeWhile (\<lambda>t. exp_at s t \<le> realtime s) (t # ts))) @ es q)"
      using True by (auto simp: fun_eq_iff p_def)
    have m: "move_expired s = Some s'"
      using h True s1(1) s'(1) by (subst move_expired.simps) (simp add: exp_at_def)
    have hs: "set hs \<subseteq> set hs1" "es p = [] \<Longrightarrow> p \<noteq> proc_ptr s \<Longrightarrow> p \<in> set hs1"
      "set hs1 \<subseteq> insert p (set hs)" by (auto simp: hs1_def)
    have bnd: "set hs' \<subseteq> set hs \<union> (\<lambda>t. tmr_task (tmr s t)) ` set (t # ts)"
      using s'(10) hs(3) by (auto simp: p_def)
    have last: "tmr_task (tmr s u) \<in> set hs'"
      if "u \<in> set (takeWhile (\<lambda>t. exp_at s t \<le> realtime s) (t # ts))" "es (tmr_task (tmr s u)) = []"
        "tmr_task (tmr s u) \<noteq> proc_ptr s" for u
    proof (cases "tmr_task (tmr s u) = p")
      case True
      with hs that s'(9) show ?thesis by auto
    next
      case False
      then have "u \<noteq> t" by (auto simp: p_def)
      with that True False s'(11) show ?thesis by (auto split: if_splits)
    qed
    show ?thesis
      by (rule exI [of _ s'], rule exI [of _ hs'])
        (use m s' s1(5-13) True hs(1) last es bnd in \<open>auto simp: s1(8-13)\<close>)
  qed
qed

subsection \<open>What the message code leaves of the timers and of held interrupts\<close>

definition tmr_view where
  "tmr_view s = (tmr s, timers s, next_timer s, realtime s, pending_ticks s, held_head s, held_tail s,
     (\<lambda>p. (p_exptimers (procs s p), p_nextheld (procs s p), p_int_held (procs s p))))"

lemma tmr_view_simps [simp]:
  "tmr_view (pick_proc s) = tmr_view s" "tmr_view (s\<lparr>kmem := m\<rparr>) = tmr_view s"
  "tmr_view (s\<lparr>switching := b\<rparr>) = tmr_view s" "tmr_view (s\<lparr>sig_procs := i\<rparr>) = tmr_view s"
  "tmr_view (s\<lparr>proc_ptr := n\<rparr>) = tmr_view s" "tmr_view (s\<lparr>rdy_head := hq\<rparr>) = tmr_view s"
  "tmr_view (s\<lparr>rdy_tail := hq\<rparr>) = tmr_view s"
  by (simp_all add: tmr_view_def pick_proc_def split: option.split)

lemma tmr_view_upd [simp]:
  "(\<And>p. p_exptimers (f p) = p_exptimers p) \<Longrightarrow> (\<And>p. p_nextheld (f p) = p_nextheld p) \<Longrightarrow>
   (\<And>p. p_int_held (f p) = p_int_held p) \<Longrightarrow> tmr_view (upd_proc n f s) = tmr_view s"
  by (auto simp: tmr_view_def upd_proc_def fun_eq_iff)

lemma ready_view: "ready p s = Some s' \<Longrightarrow> tmr_view s' = tmr_view s"
  by (auto simp: ready_def Let_def split: if_splits option.splits)

lemma unready_view: "unready p s = Some s' \<Longrightarrow> tmr_view s' = tmr_view s"
  by (auto simp: unready_def unready_body_def Let_def bind_eq_Some_conv split: if_splits option.splits)

lemma lock_view: "lock_unready p s = Some s' \<Longrightarrow> tmr_view s' = tmr_view s"
  "tmr_view (lock_pick_proc s) = tmr_view s"
  by (auto simp: lock_unready_def lock_pick_proc_def dest: unready_view)

lemma mini_send_view: "mini_send c d m s = Some (r, s') \<Longrightarrow> tmr_view s' = tmr_view s"
  by (auto simp: mini_send_def send_deliver_def send_queue_def enqueue_sender_def copy_mess_def Let_def
      bind_eq_Some_conv split: if_splits option.splits dest!: ready_view unready_view)

lemma cause_sig_view: "cause_sig p sg s = Some s' \<Longrightarrow> tmr_view s' = tmr_view s"
  by (auto simp: cause_sig_def inform_def lock_mini_send_def kstore_def Let_def bind_eq_Some_conv lock_view
      split: if_splits option.splits dest!: lock_view(1) mini_send_view)

lemma tmr_view_inv:
  assumes "tmr_inv s ts es" "tmr_view s' = tmr_view s"
  shows "tmr_inv s' ts es"
proof -
  have "p_exptimers (procs s' p) = p_exptimers (procs s p)" for p
    using assms(2) by (simp add: tmr_view_def fun_eq_iff)
  with assms show ?thesis by (intro tmr_inv_cong [OF assms(1)]) (simp_all add: tmr_view_def)
qed

lemma tmr_view_held:
  assumes "held_ok s hs" "tmr_view s' = tmr_view s"
  shows "held_ok s' hs"
proof -
  have "nextheld s' = nextheld s" "\<And>p. p_int_held (procs s' p) = p_int_held (procs s p)"
    "held_head s' = held_head s" "held_tail s' = held_tail s"
    using assms(2) by (simp_all add: tmr_view_def fun_eq_iff)
  then show ?thesis using assms(1) by (simp add: held_ok_def)
qed

subsection \<open>A clock tick\<close>

text \<open>An alarm of a live user process, run by the clock task.\<close>

definition alarm_ok :: "kstate \<Rightarrow> nat \<Rightarrow> bool" where
  "alarm_ok s t \<longleftrightarrow> tmr_func (tmr s t) = CAUSE_ALARM \<and> 0 \<le> tmr_arg (tmr s t) \<and> tmr_arg (tmr s t) < NR_PROCS
     \<and> schedulable (prio s (tmr_arg (tmr s t)))"

lemma exp_loop_alarms:
  assumes "tmr_inv s ts es" "kinv s" "isokprocn p" "p < 0" "flags s p = {}" "es p = xs"
    and "\<forall>t \<in> set xs. alarm_ok s t"
  shows "\<exists>s'. exp_loop drv mess p s = Some s' \<and> kinv s' \<and> tmr_inv s' ts (es(p := []))
    \<and> realtime s' = realtime s \<and> next_timer s' = next_timer s \<and> (\<forall>t. t \<notin> set xs \<longrightarrow> tmr s' t = tmr s t)
    \<and> (\<forall>n. prio s' n = prio s n) \<and> (\<forall>t. tmr_task (tmr s' t) = tmr_task (tmr s t)) \<and> (\<forall>hs. held_ok s hs \<longrightarrow> held_ok s' hs)"
  using assms
proof (induction xs arbitrary: s es)
  case Nil
  have "p_exptimers (procs s p) = None" using tmr_invD(3) [OF Nil.prems(1,3)] Nil.prems(6) by simp
  moreover have "es(p := []) = es" using Nil.prems(6) by (auto simp: fun_eq_iff)
  ultimately show ?case using Nil.prems by (subst exp_loop.simps) simp
next
  case (Cons t xs)
  note i = tmr_invD [OF Cons.prems(1)]
  have ch: "chain (tmr_chain s) (p_exptimers (procs s p)) (t # xs)" using i(3) [OF Cons.prems(3)] Cons.prems(6) by simp
  have hd: "p_exptimers (procs s p) = Some t" using ch by simp
  have tx: "t \<notin> set xs" using chain_distinct [OF ch] by simp
  have mem: "u \<in> set (es p) \<longleftrightarrow> u = t \<or> u \<in> set xs" for u using Cons.prems(6) by auto
  have tin: "t \<in> set (es p)" by (simp add: mem)
  have tq: "t \<notin> set (es q)" if "q \<noteq> p" for q using i(4) [of t q] i(4) [OF tin] that by blast
  have tts: "t \<notin> set ts" using i(4) [OF tin] by blast
  define s1 where "s1 = upd_tmr t (\<lambda>u. u\<lparr>tmr_exp_time := TMR_NEVER\<rparr>)
      (upd_proc p (\<lambda>q. q\<lparr>p_exptimers := tmr_next (tmr s t)\<rparr>) s)"
  have f: "tmr_chain s1 = tmr_chain s" "timers s1 = timers s" "next_timer s1 = next_timer s" "realtime s1 = realtime s"
    by (auto simp: s1_def upd_tmr_def upd_proc_def)
  have g: "exp_at s1 u = (if u = t then TMR_NEVER else exp_at s u)" "tmr_task (tmr s1 u) = tmr_task (tmr s u)"
    "p_exptimers (procs s1 q) = (if q = p then tmr_next (tmr s t) else p_exptimers (procs s q))"
    "flags s1 n = flags s n" "prio s1 n = prio s n" "u \<noteq> t \<Longrightarrow> tmr s1 u = tmr s u"
    "tmr_func (tmr s1 t) = tmr_func (tmr s t)" "tmr_arg (tmr s1 t) = tmr_arg (tmr s t)" for u q n
    by (auto simp: s1_def upd_tmr_def upd_proc_def exp_at_def)
  have mp: "map (exp_at s1) ts = map (exp_at s) ts" using tts by (auto simp: g)
  have "tmr_inv s1 ts (es(p := xs))"
    unfolding tmr_inv_def
  proof (intro conjI allI impI ballI)
    show "chain (tmr_chain s1) (timers s1) ts" using i(1) f by simp
    show "sorted (map (exp_at s1) ts)" unfolding mp by (rule i(2))
    show "chain (tmr_chain s1) (p_exptimers (procs s1 q)) ((es(p := xs)) q)" if "isokprocn q" for q
      using i(3) [OF that] ch unfolding f(1) g(3) by simp
    fix q u assume u: "u \<in> set ((es(p := xs)) q)"
    have uq: "u \<in> set (es q)" using u mem [of u] by (auto split: if_splits)
    have ut: "u \<noteq> t" using u tx tq [of q] by (auto split: if_splits)
    show "isokprocn q" "tmr_task (tmr s1 u) = q" "u \<notin> set ts" "exp_at s1 u \<noteq> TMR_NEVER"
      using i(4) [OF uq] ut by (simp_all add: g)
  next
    fix u assume "u \<in> set ts"
    then show "isokprocn (tmr_task (tmr s1 u))" "exp_at s1 u \<noteq> TMR_NEVER"
      using i(5) [of u] tts by (auto simp: g)
  next
    assume "ts \<noteq> []"
    then show "next_timer s1 \<le> exp_at s1 (hd ts)" using i(6) tts by (auto simp: f g)
  qed
  moreover have k1: "kinv s1" by (rule kinv_frame [OF Cons.prems(2)]) (auto simp: s1_def upd_tmr_def upd_proc_def)
  moreover have a: "alarm_ok s t" using Cons.prems(7) by simp
  ultimately obtain s2 where s2: "cause_sig (tmr_arg (tmr s t)) SIGALRM s1 = Some s2" "kinv s2"
    "\<forall>n. prio s2 n = prio s1 n" "\<forall>n. n \<noteq> tmr_arg (tmr s t) \<longrightarrow> flags s2 n \<subseteq> flags s1 n"
    "tmr_inv s1 ts (es(p := xs))"
    using cause_sig_inv [OF k1, of "tmr_arg (tmr s t)" SIGALRM] by (auto simp: alarm_ok_def g)
  note v = cause_sig_view [OF s2(1)]
  have vt: "tmr s2 = tmr s1" "realtime s2 = realtime s1" "next_timer s2 = next_timer s1"
    using v by (simp_all add: tmr_view_def)
  have i2: "tmr_inv s2 ts (es(p := xs))" by (rule tmr_view_inv [OF s2(5) v])
  have fl: "flags s2 p = {}" using spec [OF s2(4), of p] Cons.prems(4,5) a by (auto simp: alarm_ok_def g)
  have al: "\<forall>u \<in> set xs. alarm_ok s2 u"
  proof
    fix u assume u: "u \<in> set xs"
    then have "u \<noteq> t" using tx by blast
    then have "tmr s2 u = tmr s u" using vt(1) g(6) by simp
    then show "alarm_ok s2 u" using Cons.prems(7) u s2(3) by (simp add: alarm_ok_def g(5))
  qed
  have r: "run_timer drv mess t s1 = Some s2" using a s2(1) by (simp add: run_timer_def alarm_ok_def g cause_alarm_def)
  obtain s' where s': "exp_loop drv mess p s2 = Some s'" "kinv s'" "tmr_inv s' ts ((es(p := xs))(p := []))"
    "realtime s' = realtime s2" "next_timer s' = next_timer s2" "\<forall>u. u \<notin> set xs \<longrightarrow> tmr s' u = tmr s2 u"
    "\<forall>n. prio s' n = prio s2 n" "\<forall>t. tmr_task (tmr s' t) = tmr_task (tmr s2 t)" "\<forall>hs. held_ok s2 hs \<longrightarrow> held_ok s' hs"
    using Cons.IH [OF i2 s2(2) Cons.prems(3,4) fl _ al] by (simp del: fun_upd_apply add: fun_upd_same) blast
  have "exp_loop drv mess p s = Some s'"
    by (subst exp_loop.simps) (simp add: hd s1_def [symmetric] r fl s'(1) Let_def)
  moreover have "tmr_inv s' ts (es(p := []))" using s'(3) by (simp only: fun_upd_upd)
  moreover have "realtime s' = realtime s" "next_timer s' = next_timer s"
    "\<forall>u. u \<notin> set (t # xs) \<longrightarrow> tmr s' u = tmr s u" "\<forall>n. prio s' n = prio s n"
    "\<forall>t. tmr_task (tmr s' t) = tmr_task (tmr s t)"
    using s'(4-8) s2(3) by (simp_all add: vt f g)
  moreover have "held_ok s' hs" if "held_ok s hs" for hs
  proof -
    have "nextheld s1 = nextheld s" "\<And>n. p_int_held (procs s1 n) = p_int_held (procs s n)"
      "held_head s1 = held_head s" "held_tail s1 = held_tail s"
      by (auto simp: s1_def upd_tmr_def upd_proc_def)
    then have "held_ok s1 hs" using that by (simp add: held_ok_def)
    then have "held_ok s2 hs" using v by (rule tmr_view_held)
    then show ?thesis using s'(9) by blast
  qed
  ultimately show ?case using s'(2) by blast
qed

lemma lock_sched_kinv:
  assumes "kinv s"
  shows "\<exists>s'. lock_sched s = Some s' \<and> kinv s' \<and> tmr_view s' = tmr_view s \<and> (\<forall>n. prio s' n = prio s n)"
proof -
  have ti: "table_inv s" and g: "sig_inv s" using assms by (simp_all add: kinv_def)
  note t = table_invD [OF ti]
  obtain rq where rq: "rq_ok s rq" "rqs.queued rq = runnable s" using t(1) by (auto simp: sched_inv_def)
  let ?s1 = "s\<lparr>switching := True\<rparr>"
  have "rq_ok ?s1 rq" using rq(1) by (auto simp: rq_ok_def)
  from sched_refines [OF this] obtain s2 where s2: "sched ?s1 = Some s2" "unqueued s2 = unqueued ?s1"
    "rq_ok s2 (rq(USER_Q := (case rq USER_Q of [] \<Rightarrow> [] | x # xs \<Rightarrow> xs @ [x])))" by blast
  let ?rq = "rq(USER_Q := (case rq USER_Q of [] \<Rightarrow> [] | x # xs \<Rightarrow> xs @ [x]))"
  note u = unqueued_fields [OF s2(2), simplified]
  have "set (?rq q) = set (rq q)" for q by (cases "rq USER_Q") auto
  then have q: "rqs.queued ?rq = runnable s" using rq(2) unfolding rqs.queued_def by simp
  let ?s' = "s2\<lparr>switching := False\<rparr>"
  have "runnable s2 = runnable s" by (simp add: runnable_def u)
  then have "sched_inv s2" using s2(3) q unfolding sched_inv_def by auto
  then have "sched_inv ?s'" by (rule sched_inv_cong) simp_all
  moreover have "queue_inv ?s'" by (rule queue_inv_cong [OF t(2)]) (simp_all add: u)
  moreover have "waits ?s' = waits s" by (rule senders_cong) (simp_all add: u)
  moreover have "sys_inv ?s'" by (rule sys_inv_cong [OF t(4)]) (use t(4) in \<open>auto simp: u sys_inv_def\<close>)
  moreover have "mm_inv ?s'" using t(5) by (simp add: mm_inv_def u)
  moreover have "sig_inv ?s'" using g by (simp add: sig_inv_def u)
  moreover have "tmr_view s2 = tmr_view s"
    using s2(1) by (auto simp: sched_def Let_def split: option.splits)
  moreover have "prio s2 n = prio s n" for n by (simp add: u)
  ultimately show ?thesis using s2(1) t(3) by (auto simp: lock_sched_def kinv_def table_inv_def)
qed

lemma quantum_kinv:
  assumes "kinv s"
  shows "\<exists>s'. quantum s = Some s' \<and> kinv s' \<and> tmr_view s' = tmr_view s \<and> (\<forall>n. prio s' n = prio s n)"
proof -
  define s1 where "s1 = s\<lparr>sched_ticks := sched_ticks s - 1\<rparr>"
  have v1: "tmr_view s1 = tmr_view s" by (simp add: s1_def tmr_view_def)
  have p1: "prio s1 n = prio s n" for n by (simp add: s1_def)
  have k1: "kinv s1" by (rule kinv_frame [OF assms]) (simp_all add: s1_def)
  obtain s2 where s2: "(if Some (bill_ptr s1) = prev_ptr s1 then lock_sched s1 else Some s1) = Some s2" "kinv s2"
    "tmr_view s2 = tmr_view s1" "\<forall>n. prio s2 n = prio s1 n"
    using lock_sched_kinv [OF k1] k1 by (cases "Some (bill_ptr s1) = prev_ptr s1") auto
  have "kinv (s2\<lparr>sched_ticks := SCHED_RATE, prev_ptr := Some (bill_ptr s2)\<rparr>)"
    by (rule kinv_frame [OF s2(2)]) simp_all
  moreover have "tmr_view (s2\<lparr>sched_ticks := SCHED_RATE, prev_ptr := Some (bill_ptr s2)\<rparr>) = tmr_view s2"
    by (simp add: tmr_view_def)
  ultimately show ?thesis
    using k1 v1 s2(2-4) p1 unfolding quantum_def Let_def s1_def [symmetric] s2(1) by auto
qed


text \<open>
  A tick served by the clock task: it returns, the tables stay consistent, the timers still active are
  those that are not due, and the clock task's own expired ones have all run.
\<close>

lemma do_clocktick_spec:
  assumes inv: "tmr_inv s ts es" "held_ok s hs" "k_reenter s \<noteq> 0" "kinv s"
    and run: "proc_ptr s = CLOCK" "flags s CLOCK = {}"
    and al: "\<forall>t. t \<in> set (es CLOCK) \<or> t \<in> set ts \<and> tmr_task (tmr s t) = CLOCK \<longrightarrow> alarm_ok s t"
    and due: "next_timer s \<le> realtime s"
  shows "\<exists>s' es'. do_clocktick drv mess s = Some s' \<and> kinv s' \<and> realtime s' = realtime s
    \<and> tmr_inv s' (dropWhile (\<lambda>t. exp_at s t \<le> realtime s) ts) es' \<and> es' CLOCK = []
    \<and> (\<forall>p. p \<noteq> CLOCK \<longrightarrow> es' p
          = rev (filter (\<lambda>t. tmr_task (tmr s t) = p) (takeWhile (\<lambda>t. exp_at s t \<le> realtime s) ts)) @ es p)
    \<and> (realtime s < TMR_NEVER \<longrightarrow> realtime s' < next_timer s') \<and> (\<forall>n. prio s' n = prio s n)
    \<and> (\<exists>hs'. held_ok s' hs' \<and> set hs' \<subseteq> set hs \<union> (\<lambda>t. tmr_task (tmr s t)) ` set ts)
    \<and> (\<forall>t. tmr_task (tmr s' t) = tmr_task (tmr s t))
    \<and> (\<forall>t \<in> set (dropWhile (\<lambda>t. exp_at s t \<le> realtime s) ts).
         tmr_func (tmr s' t) = tmr_func (tmr s t) \<and> tmr_arg (tmr s' t) = tmr_arg (tmr s t))"
proof -
  let ?due = "\<lambda>t. exp_at s t \<le> realtime s"
  let ?ts = "dropWhile ?due ts"
  let ?es = "\<lambda>p. rev (filter (\<lambda>t. tmr_task (tmr s t) = p) (takeWhile ?due ts)) @ es p"
  obtain s1 hs1 where s1: "move_expired s = Some s1" "kinv s1" "realtime s1 = realtime s" "proc_ptr s1 = proc_ptr s"
    "tmr_inv s1 ?ts ?es"
    "\<forall>u. exp_at s1 u = exp_at s u \<and> tmr_task (tmr s1 u) = tmr_task (tmr s u)
         \<and> tmr_func (tmr s1 u) = tmr_func (tmr s u) \<and> tmr_arg (tmr s1 u) = tmr_arg (tmr s u)"
    "\<forall>n. prio s1 n = prio s n \<and> flags s1 n = flags s n"
    "held_ok s1 hs1" "set hs1 \<subseteq> set hs \<union> (\<lambda>t. tmr_task (tmr s t)) ` set ts"
    using move_expired_spec [OF inv] by (elim exE conjE) (rule that; assumption)
  define s2 where "s2 = s1\<lparr>next_timer := (case timers s1 of None \<Rightarrow> TMR_NEVER | Some h \<Rightarrow> tmr_exp_time (tmr s1 h))\<rparr>"
  note i1 = tmr_invD [OF s1(5)]
  have e2: "exp_at s2 = exp_at s1" by (simp add: s2_def exp_at_def fun_eq_iff)
  have nt: "next_timer s2 = (case ?ts of [] \<Rightarrow> TMR_NEVER | h # _ \<Rightarrow> exp_at s h)"
  proof (cases ?ts)
    case Nil
    with i1(1) have "timers s1 = None" by simp
    then show ?thesis unfolding Nil by (simp add: s2_def)
  next
    case (Cons h r)
    with i1(1) have "timers s1 = Some h" by simp
    moreover have "tmr_exp_time (tmr s1 h) = exp_at s h" using s1(6) by (simp add: exp_at_def)
    ultimately show ?thesis unfolding Cons by (simp add: s2_def)
  qed
  have i2: "tmr_inv s2 ?ts ?es"
  proof -
    have "next_timer s2 \<le> exp_at s2 (hd ?ts)" if "?ts \<noteq> []"
      using nt that s1(6) by (cases ?ts) (auto simp: e2)
    then show ?thesis using s1(5) unfolding tmr_inv_def e2 by (simp add: s2_def)
  qed
  have k2: "kinv s2" by (rule kinv_frame [OF s1(2)]) (simp_all add: s2_def)
  have al2: "\<forall>t \<in> set (?es CLOCK). alarm_ok s2 t"
    using al s1(6,7) by (auto simp: s2_def alarm_ok_def dest: set_takeWhileD)
  obtain s3 where s3: "exp_loop drv mess CLOCK s2 = Some s3" "kinv s3" "tmr_inv s3 ?ts (?es(CLOCK := []))"
    "realtime s3 = realtime s2" "next_timer s3 = next_timer s2" "\<forall>t. t \<notin> set (?es CLOCK) \<longrightarrow> tmr s3 t = tmr s2 t"
    "\<forall>n. prio s3 n = prio s2 n" "\<forall>t. tmr_task (tmr s3 t) = tmr_task (tmr s2 t)" "\<forall>hs. held_ok s2 hs \<longrightarrow> held_ok s3 hs"
    using exp_loop_alarms [OF i2 k2, of CLOCK "?es CLOCK" drv mess] al2 run s1(7)
    by (auto simp: s2_def isokprocn_def)
  have h2: "held_ok s2 hs1" using s1(8) by (simp add: held_ok_def s2_def)
  obtain s4 where s4: "quantum s3 = Some s4" "kinv s4" "tmr_view s4 = tmr_view s3" "\<forall>n. prio s4 n = prio s3 n"
    using quantum_kinv [OF s3(2)] by blast
  have r: "do_clocktick drv mess s = Some s4"
  proof -
    have p2: "proc_ptr s2 = CLOCK" using s1(4) run by (simp add: s2_def)
    have "(if next_timer s \<le> realtime s
             then do {
               t \<leftarrow> move_expired s;
               let t1 = t\<lparr>next_timer := (case timers t of None \<Rightarrow> TMR_NEVER
                                        | Some h \<Rightarrow> tmr_exp_time (tmr t h))\<rparr>;
               tmr_exptimers drv mess t1
             }
             else Some s) = Some s3"
      using due unfolding s1(1) Option.bind.bind_lunit Let_def s2_def [symmetric] tmr_exptimers_def p2 s3(1) by simp
    then show ?thesis unfolding do_clocktick_def using s4(1) by simp
  qed
  have v4: "realtime s4 = realtime s" "next_timer s4 = next_timer s2"
    using s4(3) s3(4,5) s1(3) by (simp_all add: tmr_view_def s2_def)
  have "realtime s < next_timer s2" if "realtime s < TMR_NEVER"
    using nt that hd_dropWhile [of ?due ts] by (cases ?ts) auto
  moreover have "held_ok s4 hs1" using s3(9) h2 tmr_view_held [OF _ s4(3)] by blast
  moreover have t4: "tmr s4 = tmr s3" using s4(3) by (simp add: tmr_view_def)
  moreover have "tmr_task (tmr s4 t) = tmr_task (tmr s t)" for t using s3(8) s1(6) t4 by (simp add: s2_def)
  moreover have "tmr_func (tmr s4 t) = tmr_func (tmr s t) \<and> tmr_arg (tmr s4 t) = tmr_arg (tmr s t)"
    if "t \<in> set ?ts" for t
  proof -
    have "t \<notin> set (?es CLOCK)" using i1(4) [of t CLOCK] that by blast
    then have "tmr s4 t = tmr s2 t" using s3(6) t4 by simp
    then show ?thesis using s1(6) by (simp add: s2_def)
  qed
  moreover have "\<forall>n. prio s4 n = prio s n" using s4(4) s3(7) s1(7) by (simp add: s2_def)
  moreover have "tmr_inv s4 ?ts (?es(CLOCK := []))" by (rule tmr_view_inv [OF s3(3) s4(3)])
  ultimately show ?thesis using r s4(2) v4 s1(9)
    by (intro exI [of _ s4] exI [of _ "?es(CLOCK := [])"] conjI exI [of _ hs1]) simp_all
qed

end
