(* ===== verification/Kernel_Steps.thy ===== *)
theory Kernel_Steps
  imports Kernel_Clock_Inv
begin

text \<open>
  The kernel as a transition system: the entry points of the message code, the interrupts, the signals,
  the alarms and the system task's operations on processes, as steps from the state \<^verbatim>\<open>main()\<close>
  leaves.  The lemmas show that each of them keeps the invariant of the process table, the queue
  of held interrupts and the timer lists.
\<close>

subsection \<open>Operations of the system task\<close>

text \<open>Taking blocking flags other than SENDING and PENDING off a process, which runs again when none is left.\<close>

lemma release_kinv:
  assumes inv: "kinv s" and p: "isokprocn p" "p \<noteq> HARDWARE" "schedulable (prio s p)" "flags s p \<noteq> {}"
    and F: "SENDING \<notin> F" "PENDING \<notin> F" "SIG_PENDING \<in> F \<Longrightarrow> PENDING \<notin> flags s p"
    and f: "\<And>P. p_flags (f P) = p_flags P - F" "\<And>P. p_nextready (f P) = p_nextready P"
      "\<And>P. p_priority (f P) = p_priority P" "\<And>P. p_sendlink (f P) = p_sendlink P"
      "\<And>P. p_callerq (f P) = p_callerq P" "\<And>P. p_sendto (f P) = p_sendto P"
      "\<And>P. p_getfrom (f P) = p_getfrom P" "\<And>P. p_stguard (f P) = p_stguard P"
    and s1: "s1 = upd_proc p f s"
  shows "\<exists>s'. (if flags s1 p = {} then lock_ready p s1 else Some s1) = Some s' \<and> kinv s'
    \<and> (\<forall>n. prio s' n = prio s n) \<and> (\<forall>n. flags s' n = (if n = p then flags s n - F else flags s n))"
proof -
  have ti: "table_inv s" and g: "sig_inv s" using inv by (simp_all add: kinv_def)
  note t = table_invD [OF ti]
  have s1f: "p_nextready (procs s1 n) = p_nextready (procs s n)" "prio s1 n = prio s n"
    "flags s1 n = (if n = p then flags s n - F else flags s n)"
    "p_sendlink (procs s1 n) = p_sendlink (procs s n)" "p_callerq (procs s1 n) = p_callerq (procs s n)"
    "p_sendto (procs s1 n) = p_sendto (procs s n)" "p_getfrom (procs s1 n) = p_getfrom (procs s n)"
    "p_stguard (procs s1 n) = p_stguard (procs s n)" "p_map (procs s1 HARDWARE) = p_map (procs s HARDWARE)"
    "rdy_head s1 = rdy_head s" "rdy_tail s1 = rdy_tail s" "sig_procs s1 = sig_procs s" "sys_m s1 = sys_m s" for n
    using p(2) by (simp_all add: s1 upd_proc_def f)
  define s2 where "s2 = s1\<lparr>switching := True\<rparr>"
  obtain s3 where s3: "(if flags s2 p = {} then ready p s2 else Some s2) = Some s3"
    "unqueued s3 = unqueued s2" "sched_inv s3"
    using sched_inv_unblock [OF t(1) p(4) p(1-3), of s2] s1f by (auto simp: s2_def)
  note u = unqueued_fields [OF s3(2)]
  define s' where "s' = (if flags s1 p = {} then s3\<lparr>switching := False\<rparr> else s1)"
  have r: "(if flags s1 p = {} then lock_ready p s1 else Some s1) = Some s'"
    using s3(1) by (auto simp: s'_def lock_ready_def s2_def)
  have same: "procs s' = procs s3" "rdy_head s' = rdy_head s3" "rdy_tail s' = rdy_tail s3"
    "sig_procs s' = sig_procs s" "sys_m s' = sys_m s"
    using s3(1) u s1f by (auto simp: s'_def s2_def split: if_splits)
  have sf: "prio s' n = prio s n" "flags s' n = (if n = p then flags s n - F else flags s n)"
    "p_sendlink (procs s' n) = p_sendlink (procs s n)" "p_callerq (procs s' n) = p_callerq (procs s n)"
    "p_sendto (procs s' n) = p_sendto (procs s n)" "p_getfrom (procs s' n) = p_getfrom (procs s n)"
    "p_stguard (procs s' n) = p_stguard (procs s n)" "p_map (procs s' HARDWARE) = p_map (procs s HARDWARE)" for n
    by (simp_all add: same u) (simp_all add: s2_def s1f)
  have "sched_inv s'" by (rule sched_inv_cong [OF s3(3)]) (simp_all add: same)
  moreover have "queue_inv s'" by (rule queue_inv_cong [OF t(2)]) (use F in \<open>auto simp: sf\<close>)
  moreover have "waits s' = waits s" by (rule senders_cong) (use F in \<open>auto simp: sf\<close>)
  moreover have "sys_inv s'" by (rule sys_inv_cong [OF t(4)]) (use t(4) in \<open>auto simp: sf same(5) sys_inv_def\<close>)
  moreover have "mm_inv s'" using t(5) F by (auto simp: mm_inv_def sf)
  moreover have "sig_inv s'"
    by (rule sig_inv_cong [OF g]) (use F g in \<open>auto simp: sf same(4) sig_inv_def split: if_splits\<close>)
  ultimately have "kinv s'" using t(3) by (simp add: kinv_def table_inv_def)
  with r sf show ?thesis by auto
qed

lemma kinv_proc_upd:
  assumes "kinv s"
    and "\<And>P. p_flags (f P) = p_flags P" "\<And>P. p_priority (f P) = p_priority P" "\<And>P. p_nextready (f P) = p_nextready P"
    and "\<And>P. p_sendto (f P) = p_sendto P" "\<And>P. p_getfrom (f P) = p_getfrom P"
    and "n \<noteq> HARDWARE" "\<And>P. p_stguard (f P) = p_stguard P"
    and "\<And>P. p_sendlink (f P) = p_sendlink P" "\<And>P. p_callerq (f P) = p_callerq P"
  shows "kinv (upd_proc n f s)"
  by (rule kinv_frame [OF assms(1)]) (use assms in \<open>auto simp: upd_proc_def\<close>)

lemma do_endsig_kinv:
  assumes inv: "kinv s" and p: "isokprocn p" "isuserp (procs s p)"
    and sp: "p_pendcount (procs s p) \<noteq> 0 \<Longrightarrow> SIG_PENDING \<in> flags s p"
      "p_pendcount (procs s p) = 1 \<Longrightarrow> PENDING \<notin> flags s p"
  shows "\<exists>s'. do_endsig p s = Some (OK, s') \<and> kinv s' \<and> (\<forall>n. prio s' n = prio s n)
    \<and> (\<forall>n. flags s' n = (if n = p \<and> p_pendcount (procs s p) = 1 then flags s n - {SIG_PENDING} else flags s n))"
proof -
  have sch: "schedulable (prio s p)" "\<not> isemptyp (procs s p)" using p by (simp_all add: schedulable_def)
  have hw: "p \<noteq> HARDWARE" using inv p by (auto simp: kinv_def table_inv_def sys_inv_def)
  define s1 where "s1 = upd_proc p (\<lambda>p. p\<lparr>p_pendcount := p_pendcount p - 1\<rparr>) s"
  have k1: "kinv s1" unfolding s1_def by (rule kinv_proc_upd [OF inv _ _ _ _ _ hw]) simp_all
  have f1: "flags s1 n = flags s n" "prio s1 n = prio s n" for n by (simp_all add: s1_def upd_proc_def)
  consider "p_pendcount (procs s p) = 0" | "p_pendcount (procs s p) = 1"
    | "p_pendcount (procs s p) \<noteq> 0" "p_pendcount (procs s p) \<noteq> 1" by blast
  then show ?thesis
  proof cases
    case 1
    with inv p sch show ?thesis by (simp add: do_endsig_def)
  next
    case 3
    have "p_pendcount (procs s1 p) \<noteq> 0" using 3 by (simp add: s1_def upd_proc_def)
    then have "do_endsig p s = Some (OK, s1)" using 3 p sch by (simp add: do_endsig_def Let_def s1_def)
    with k1 f1 3 show ?thesis by simp
  next
    case 2
    define s2 where "s2 = upd_proc p (\<lambda>p. p\<lparr>p_flags := p_flags p - {SIG_PENDING}\<rparr>) s1"
    have "\<exists>s'. (if flags s2 p = {} then lock_ready p s2 else Some s2) = Some s' \<and> kinv s'
      \<and> (\<forall>n. prio s' n = prio s1 n) \<and> (\<forall>n. flags s' n = (if n = p then flags s1 n - {SIG_PENDING} else flags s1 n))"
      by (rule release_kinv [OF k1 p(1) hw _ _ _ _ _ _ _ _ _ _ _ _ _ s2_def]) (use sch sp 2 in \<open>auto simp: f1\<close>)
    then obtain s' where s': "(if flags s2 p = {} then lock_ready p s2 else Some s2) = Some s'" "kinv s'"
      "\<forall>n. prio s' n = prio s1 n" "\<forall>n. flags s' n = (if n = p then flags s1 n - {SIG_PENDING} else flags s1 n)" by blast
    have "p_pendcount (procs s1 p) = 0" using 2 by (simp add: s1_def upd_proc_def)
    then have "do_endsig p s = Some (OK, s')"
      using 2 p sch s'(1) unfolding do_endsig_def Let_def s1_def [symmetric] s2_def [symmetric]
      by (auto split: if_splits)
    with s' f1 2 show ?thesis by simp
  qed
qed

lemma do_newmap_kinv:
  assumes inv: "kinv s" and k: "isokprocn k" "k \<noteq> HARDWARE" "schedulable (prio s k)" and c: "isokprocn c"
    and m: "umap (procs s c) SegD map_ptr 36 \<noteq> 0"
  shows "\<exists>s'. do_newmap c k map_ptr s = Some (OK, s') \<and> kinv s' \<and> (\<forall>n. prio s' n = prio s n)
    \<and> (\<forall>n. flags s' n = (if n = k then flags s n - {NO_MAP} else flags s n))"
proof -
  let ?src = "umap (procs s c) SegD map_ptr 36"
  define s1 where "s1 = alloc_segments k (upd_proc k (\<lambda>p. p\<lparr>p_map := words_map (read_words ?src 9 (kmem s))\<rparr>) s)"
  have f1: "flags s1 n = flags s n" "prio s1 n = prio s n" for n
    by (simp_all add: s1_def alloc_segments_def upd_proc_def Let_def)
  have k1: "kinv s1" unfolding s1_def alloc_segments_def Let_def
    by (intro kinv_proc_upd k(2) inv) simp_all
  define s3 where "s3 = upd_proc k (\<lambda>p. p\<lparr>p_flags := p_flags p - {NO_MAP}\<rparr>) s1"
  have e: "do_newmap c k map_ptr s = (if flags s1 k \<noteq> {} \<and> flags s3 k = {} then map_option (Pair OK) (lock_ready k s3)
         else Some (OK, s3))"
    using k(1) c m unfolding do_newmap_def Let_def s1_def [symmetric] s3_def [symmetric] by simp
  show ?thesis
  proof (cases "flags s k = {}")
    case True
    have "(procs s1 k)\<lparr>p_flags := {}\<rparr> = procs s1 k" using True f1(1) [of k] by (cases "procs s1 k") simp
    moreover have "s3 = s1\<lparr>procs := (procs s1)(k := (procs s1 k)\<lparr>p_flags := {}\<rparr>)\<rparr>"
      using True f1(1) [of k] by (simp add: s3_def upd_proc_def)
    ultimately have "s3 = s1" by (simp only: fun_upd_triv) simp
    with e True f1 k1 show ?thesis by simp
  next
    case False
    have "\<exists>s'. (if flags s3 k = {} then lock_ready k s3 else Some s3) = Some s' \<and> kinv s'
      \<and> (\<forall>n. prio s' n = prio s1 n) \<and> (\<forall>n. flags s' n = (if n = k then flags s1 n - {NO_MAP} else flags s1 n))"
      by (rule release_kinv [OF k1 k(1,2) _ _ _ _ _ _ _ _ _ _ _ _ _ s3_def]) (use k(3) False in \<open>auto simp: f1\<close>)
    then obtain s' where "(if flags s3 k = {} then lock_ready k s3 else Some s3) = Some s'" "kinv s'"
      "\<forall>n. prio s' n = prio s1 n" "\<forall>n. flags s' n = (if n = k then flags s1 n - {NO_MAP} else flags s1 n)" by blast
    with e False f1 show ?thesis by (auto split: if_splits)
  qed
qed

text \<open>Fork: the parent is a user process waiting for the answer of the memory manager, the child's
  slot is free and nobody waits to send to it.\<close>

lemma do_fork_kinv:
  assumes inv: "kinv s" and p: "isokprocn p" "isuserp (procs s p)" "SENDING \<notin> flags s p" "RECEIVING \<in> flags s p"
    and q: "p_callerq (procs s p) = None" and c: "isokprocn c" "isemptyp (procs s c)" "senders s c = {}"
  shows "\<exists>s'. do_fork p c pid s = Some (OK, s') \<and> kinv s'
    \<and> (\<forall>n. n \<noteq> c \<longrightarrow> procs s' n = procs s n) \<and> flags s' c = insert NO_MAP (flags s p - {PENDING, SIG_PENDING, P_STOP})
    \<and> isuserp (procs s' c) \<and> p_map (procs s' c) = p_map (procs s p)
    \<and> (\<forall>r. p_reg (procs s' c) r = (if r = R_retreg then 0 else p_reg (procs s p) r))"
proof -
  have ti: "table_inv s" and g: "sig_inv s" using inv by (simp_all add: kinv_def)
  note t = table_invD [OF ti]
  define s' where "s' = upd_proc c (\<lambda>_. (procs s p)\<lparr>p_flags := insert NO_MAP (flags s p) - {PENDING, SIG_PENDING, P_STOP},
      p_pending := 0, p_pendcount := 0, p_pid := pid, p_reg := (p_reg (procs s p))(R_retreg := 0),
      user_time := 0, sys_time := 0, child_utime := 0, child_stime := 0\<rparr>) s"
  have e: "do_fork p c pid s = Some (OK, s')" using p c by (simp add: do_fork_def s'_def upd_proc_def)
  have ec: "\<not> schedulable (prio s c)" using c by (simp add: schedulable_def)
  have fc: "flags s c = {}" using t(4) ec by (simp add: sys_inv_def)
  have pc: "p \<noteq> c" using p c by auto
  have f: "flags s' n = (if n = c then insert NO_MAP (flags s p - {PENDING, SIG_PENDING, P_STOP}) else flags s n)"
    "prio s' n = (if n = c then PPRI_USER else prio s n)"
    "p_nextready (procs s' n) = (if n = c then p_nextready (procs s p) else p_nextready (procs s n))"
    "p_callerq (procs s' n) = (if n = c then None else p_callerq (procs s n))"
    "p_sendlink (procs s' n) = (if n = c then p_sendlink (procs s p) else p_sendlink (procs s n))"
    "p_sendto (procs s' n) = (if n = c then p_sendto (procs s p) else p_sendto (procs s n))"
    "p_getfrom (procs s' n) = (if n = c then p_getfrom (procs s p) else p_getfrom (procs s n))"
    "n \<noteq> c \<Longrightarrow> procs s' n = procs s n"
    "rdy_head s' = rdy_head s" "rdy_tail s' = rdy_tail s" "sig_procs s' = sig_procs s" "sys_m s' = sys_m s" for n
    using p(2) q by (auto simp: s'_def upd_proc_def)
  obtain rq where rq: "rq_ok s rq" "rqs.queued rq = runnable s" using t(1) by (auto simp: sched_inv_def)
  have cq: "c \<notin> set (rq r)" for r using rq(2) ec by (auto simp: rqs.queued_def runnable_def)
  have "rq_ok s' rq"
  proof
    show "chain (nextready s') (rdy_head s' r) (rq r)" for r
    proof -
      have "chain (nextready s') (rdy_head s r) (rq r) \<longleftrightarrow> chain (nextready s) (rdy_head s r) (rq r)"
        by (rule chain_cong) (use cq in \<open>auto simp: f\<close>)
      then show ?thesis using rq_ok_chain [OF rq(1), of r] f(9) by simp
    qed
    show "rq r \<noteq> [] \<Longrightarrow> rdy_tail s' r = Some (last (rq r))" for r using rq_ok_tail [OF rq(1)] by (simp add: f)
    show "x \<in> set (rq r) \<Longrightarrow> class_of (prio s' x) = r" for r x using rq_ok_class [OF rq(1)] cq by (auto simp: f)
  qed
  moreover have "runnable s' = runnable s" using ec by (auto simp: runnable_def f)
  ultimately have si: "sched_inv s'" using rq(2) by (auto simp: sched_inv_def)
  have sn: "SENDING \<in> flags s' n \<longleftrightarrow> SENDING \<in> flags s n" for n using p(3) fc by (simp add: f)
  have st: "p_sendto (procs s' n) = p_sendto (procs s n)" if "SENDING \<in> flags s n" for n
    using that fc by (auto simp: f)
  have se: "senders s' = senders s" "waits s' = waits s" by (rule senders_cong; use sn st in blast)+
  obtain cqs where cqs: "cq_ok s cqs" using t(2) by (auto simp: queue_inv_def)
  have "cq_ok s' cqs"
    unfolding cq_ok_def
  proof (intro allI impI conjI)
    fix d assume d: "isokprocn d"
    have ch: "chain (sendlink s) (p_callerq (procs s d)) (cqs d)" "set (cqs d) = senders s d"
      using cqs d by (simp_all add: cq_ok_def)
    show "set (cqs d) = senders s' d" using ch se by simp
    have "c \<notin> set (cqs d)" using ch fc by (auto simp: senders_def)
    then have ce: "chain (sendlink s') x (cqs d) \<longleftrightarrow> chain (sendlink s) x (cqs d)" for x
      by (intro chain_cong) (auto simp: f(5))
    show "chain (sendlink s') (p_callerq (procs s' d)) (cqs d)"
    proof (cases "d = c")
      case True
      have "set (cqs d) = {}" using ch(2) c(3) True by simp
      then show ?thesis unfolding f(4) by (simp add: True)
    next
      case False
      then show ?thesis using ch(1) unfolding f(4) ce by simp
    qed
  qed
  moreover have "isokprocn n \<and> isokprocn (p_sendto (procs s' n))" if "SENDING \<in> flags s' n" for n
    using t(2) that sn [of n] st [of n] by (simp add: queue_inv_def)
  ultimately have q': "queue_inv s'" unfolding queue_inv_def by blast
  have hw: "c \<noteq> HARDWARE" "c \<noteq> MM_PROC_NR" "c \<noteq> FS_PROC_NR" using t(4) c(2) by (auto simp: sys_inv_def)
  have y: "sys_inv s'" using t(4) hw unfolding sys_inv_def
    by (auto simp: f guard_ok_def schedulable_def mess_in_range_def)
  have m: "mm_inv s'" using t(5) hw by (simp add: mm_inv_def f)
  have g': "sig_inv s'" by (rule sig_inv_cong [OF g]) (use fc g in \<open>auto simp: f sig_inv_def\<close>)
  have "kinv s'" using si q' se(2) t(3) y m g' by (simp add: kinv_def table_inv_def)
  moreover have "p_map (procs s' c) = p_map (procs s p)"
    "\<forall>r. p_reg (procs s' c) r = (if r = R_retreg then 0 else p_reg (procs s p) r)"
    by (simp_all add: s'_def upd_proc_def)
  ultimately show ?thesis using e f(1) [of c] f(2) [of c] f(8) by auto
qed

subsection \<open>Exit\<close>

text \<open>The scan over the slots: a slot whose queue does not hold the process is passed over, and the
  queue that holds it is changed as \<open>unlink_sender\<close> does.\<close>

lemma xit_unqueue_skip:
  assumes "\<And>d. d \<in> set ds \<Longrightarrow> chain (sendlink s) (p_callerq (procs s d)) (cq d) \<and> rc \<notin> set (cq d)"
  shows "xit_unqueue (ds @ es) rc s = xit_unqueue es rc s"
  using assms
proof (induction ds)
  case Nil
  then show ?case by simp
next
  case (Cons d ds)
  have IH: "xit_unqueue (ds @ es) rc s = xit_unqueue es rc s" by (rule Cons.IH) (use Cons.prems in auto)
  have ch: "chain (sendlink s) (p_callerq (procs s d)) (cq d)" "rc \<notin> set (cq d)" using Cons.prems by auto
  show ?case
  proof (cases "cq d")
    case Nil
    with ch IH show ?thesis by simp
  next
    case (Cons h hs)
    with ch have "p_callerq (procs s d) = Some h" "chain (sendlink s) (Some h) (h # hs)" "rc \<notin> set hs" "h \<noteq> rc" by auto
    with chain_pred_absent [of "sendlink s" h hs rc] IH show ?thesis by simp
  qed
qed

lemma xit_unqueue_found:
  assumes ch: "\<And>d. d \<in> set ds \<Longrightarrow> chain (sendlink s) (p_callerq (procs s d)) (cq d)"
    and e: "e \<in> set ds" "distinct ds" and q: "cq e = us @ rc # vs"
    and disj: "\<And>d. d \<in> set ds \<Longrightarrow> d \<noteq> e \<Longrightarrow> set (cq d) \<inter> set (cq e) = {}"
  shows "\<exists>s'. xit_unqueue ds rc s = Some s' \<and> relinked s s'
    \<and> (\<forall>d \<in> set ds. chain (sendlink s') (p_callerq (procs s' d)) ((cq(e := us @ vs)) d))"
proof -
  obtain ds1 ds2 where ds: "ds = ds1 @ e # ds2" using e(1) by (auto simp: in_set_conv_decomp)
  have ne: "e \<notin> set ds1" "e \<notin> set ds2" using e(2) ds by auto
  have che: "chain (sendlink s) (p_callerq (procs s e)) (us @ rc # vs)" using ch [OF e(1)] q by simp
  have d: "distinct (us @ rc # vs)" using che by (rule chain_distinct)
  obtain s' where s': "unlink_sender e (if us = [] then None else Some (last us)) rc s = Some s'" "relinked s s'"
    "chain (sendlink s') (p_callerq (procs s' e)) (us @ vs)"
    "\<And>f xs. f \<noteq> e \<Longrightarrow> set xs \<inter> set us = {} \<Longrightarrow>
         chain (sendlink s) (p_callerq (procs s f)) xs \<Longrightarrow> chain (sendlink s') (p_callerq (procs s' f)) xs"
    using unlink_sender_spec [OF che] by blast
  have all: "chain (sendlink s') (p_callerq (procs s' f)) ((cq(e := us @ vs)) f)" if "f \<in> set ds" for f
  proof (cases "f = e")
    case True
    with s'(3) show ?thesis by simp
  next
    case False
    have "set (cq f) \<inter> set us = {}" using disj [OF that False] q by auto
    from s'(4) [OF False this ch [OF that]] False show ?thesis by simp
  qed
  have notin: "rc \<notin> set (cq f)" if "f \<in> set ds" "f \<noteq> e" for f using disj [OF that] q by auto
  have "xit_unqueue ds rc s = xit_unqueue (e # ds2) rc s"
    unfolding ds by (rule xit_unqueue_skip [of ds1 s cq]) (use ch notin ds ne in auto)
  also have "\<dots> = Some s'"
  proof (cases us)
    case Nil
    with che have "p_callerq (procs s e) = Some rc" by simp
    with s'(1) Nil show ?thesis by (simp add: unlink_sender_def)
  next
    case (Cons h hs)
    then have h: "p_callerq (procs s e) = Some h" "h \<noteq> rc" using che d by auto
    have b: "us @ rc # vs = butlast us @ last us # rc # vs" using Cons by simp
    have "chain (sendlink s) (Some h) (butlast us @ last us # rc # vs)" using che h(1) by (simp only: b [symmetric])
    then have "chain_pred (sendlink s) h rc = Some (Some (last us))" by (rule chain_pred_found)
    moreover have "xit_unqueue ds2 rc s' = Some s'"
    proof -
      have "xit_unqueue (ds2 @ []) rc s' = xit_unqueue [] rc s'"
      proof (rule xit_unqueue_skip)
        fix d assume d: "d \<in> set ds2"
        then have "d \<in> set ds" "d \<noteq> e" using ds ne by auto
        then show "chain (sendlink s') (p_callerq (procs s' d)) (cq d) \<and> rc \<notin> set (cq d)"
          using all [of d] notin [of d] by simp
      qed
      then show ?thesis by simp
    qed
    ultimately show ?thesis using h s'(1) Cons by (simp add: unlink_sender_def split: if_splits)
  qed
  finally show ?thesis using s'(2) all by blast
qed

lemma relinked_view: "relinked s s' \<Longrightarrow> tmr_view s' = tmr_view s"
proof -
  assume r: "relinked s s'"
  have f: "(procs s' n)\<lparr>p_sendlink := None, p_callerq := None\<rparr> = (procs s n)\<lparr>p_sendlink := None, p_callerq := None\<rparr>" for n
    using r by (simp add: relinked_def)
  have "p_exptimers (procs s' n) = p_exptimers (procs s n)" "p_nextheld (procs s' n) = p_nextheld (procs s n)"
    "p_int_held (procs s' n) = p_int_held (procs s n)" for n
    using arg_cong [OF f, of p_exptimers n] arg_cong [OF f, of p_nextheld n] arg_cong [OF f, of p_int_held n] by simp_all
  moreover have "tmr s' = tmr s" "timers s' = timers s" "next_timer s' = next_timer s" "realtime s' = realtime s"
    "pending_ticks s' = pending_ticks s" "held_head s' = held_head s" "held_tail s' = held_tail s"
  proof -
    have g: "s'\<lparr>procs := procs s\<rparr> = s" using r by (simp add: relinked_def)
    show "tmr s' = tmr s" using arg_cong [OF g, of tmr] by simp
    show "timers s' = timers s" using arg_cong [OF g, of timers] by simp
    show "next_timer s' = next_timer s" using arg_cong [OF g, of next_timer] by simp
    show "realtime s' = realtime s" using arg_cong [OF g, of realtime] by simp
    show "pending_ticks s' = pending_ticks s" using arg_cong [OF g, of pending_ticks] by simp
    show "held_head s' = held_head s" using arg_cong [OF g, of held_head] by simp
    show "held_tail s' = held_tail s" using arg_cong [OF g, of held_tail] by simp
  qed
  ultimately show ?thesis by (simp add: tmr_view_def)
qed

text \<open>The exit proper, after the accounts and the alarm: the process leaves the ready queue, the queue of
  senders it is on and the count of processes with pending signals, and its slot becomes free.\<close>

lemma exit_kinv:
  assumes inv: "kinv s" and p: "isokprocn p" "isuserp (procs s p)"
  defines "fin \<equiv> \<lambda>P. P\<lparr>p_pending := 0, p_pendcount := 0, p_flags := {}, p_priority := PPRI_NONE\<rparr>"
  shows "\<exists>r3 s3 s4 s'. (if flags s p = {} then lock_unready p s else Some s) = Some r3
    \<and> s3 = upd_proc p (\<lambda>p. p\<lparr>p_name := noname\<rparr>) r3
    \<and> (if SENDING \<in> flags s3 p then xit_unqueue [- NR_TASKS..NR_PROCS - 1] p s3 else Some s3) = Some s4
    \<and> s' = upd_proc p fin (if PENDING \<in> flags s4 p then s4\<lparr>sig_procs := sig_procs s4 - 1\<rparr> else s4)
    \<and> kinv s' \<and> (\<forall>n. prio s' n = (if n = p then PPRI_NONE else prio s n))
    \<and> (\<forall>n. flags s' n = (if n = p then {} else flags s n)) \<and> (\<forall>d. senders s' d = senders s d - {p})
    \<and> tmr_view s' = tmr_view s"
proof -
  have ti: "table_inv s" and g: "sig_inv s" using inv by (simp_all add: kinv_def)
  note t = table_invD [OF ti]
  have sys: "p \<noteq> HARDWARE" "p \<noteq> MM_PROC_NR" "p \<noteq> FS_PROC_NR" using t(4) p by (auto simp: sys_inv_def)
  have gu: "guard_ok s p" using t(4) sys by (simp add: sys_inv_def)
  obtain rq where rq: "rq_ok s rq" "rqs.queued rq = runnable s" using t(1) by (auto simp: sched_inv_def)
  have "\<exists>s3 rq3. (if flags s p = {} then lock_unready p s else Some s) = Some s3
    \<and> unqueued (s3\<lparr>switching := False\<rparr>) = unqueued (s\<lparr>switching := False\<rparr>)
    \<and> rq_ok s3 rq3 \<and> rqs.queued rq3 = runnable s - {p} \<and> tmr_view s3 = tmr_view s"
  proof (cases "flags s p = {}")
    case False
    with rq show ?thesis by (auto simp: runnable_def intro!: exI [of _ rq])
  next
    case True
    have "rq_ok (s\<lparr>switching := True\<rparr>) rq" "guard_ok (s\<lparr>switching := True\<rparr>) p"
      using rq(1) gu by (auto simp: rq_ok_def guard_ok_def)
    from rqs.unrdy_set [OF this] obtain s3 rq3 where s3: "unready p (s\<lparr>switching := True\<rparr>) = Some s3" "rq_ok s3 rq3"
      "unqueued s3 = unqueued (s\<lparr>switching := True\<rparr>)" "rqs.queued rq3 = rqs.queued rq - {p}" by blast
    have "unqueued (s3\<lparr>switching := False\<rparr>) = unqueued (s\<lparr>switching := False\<rparr>)"
      using arg_cong [OF s3(3), of "\<lambda>s. s\<lparr>switching := False\<rparr>"] by (simp flip: unqueued_switching)
    moreover have "rq_ok (s3\<lparr>switching := False\<rparr>) rq3" using s3(2) by (auto simp: rq_ok_def)
    moreover have "tmr_view s3 = tmr_view s" using unready_view [OF s3(1)] by simp
    ultimately show ?thesis using True s3(1,4) rq(2)
      by (auto simp: lock_unready_def intro!: exI [of _ rq3])
  qed
  then obtain r3 rq3 where r3: "(if flags s p = {} then lock_unready p s else Some s) = Some r3"
    "unqueued (r3\<lparr>switching := False\<rparr>) = unqueued (s\<lparr>switching := False\<rparr>)"
    "rq_ok r3 rq3" "rqs.queued rq3 = runnable s - {p}" "tmr_view r3 = tmr_view s" by blast
  define s3 where "s3 = upd_proc p (\<lambda>p. p\<lparr>p_name := noname\<rparr>) r3"
  have s3: "rq_ok s3 rq3" "rqs.queued rq3 = runnable s - {p}" "tmr_view s3 = tmr_view s"
    using rq_ok_cong [OF r3(3), of s3] r3(4,5) by (simp_all add: s3_def upd_proc_def tmr_view_def fun_eq_iff)
  have u: "p_flags (procs s3 n) = p_flags (procs s n)" "p_priority (procs s3 n) = p_priority (procs s n)"
    "p_callerq (procs s3 n) = p_callerq (procs s n)" "p_sendlink (procs s3 n) = p_sendlink (procs s n)"
    "p_sendto (procs s3 n) = p_sendto (procs s n)" "p_getfrom (procs s3 n) = p_getfrom (procs s n)"
    "p_map (procs s3 n) = p_map (procs s n)" "p_stguard (procs s3 n) = p_stguard (procs s n)"
    "sig_procs s3 = sig_procs s" "sys_m s3 = sys_m s" for n
    using unqueued_fields [OF r3(2), simplified] by (simp_all add: s3_def upd_proc_def)
  obtain cq where cq: "cq_ok s cq" using t(2) by (auto simp: queue_inv_def)
  have cqd: "chain (sendlink s3) (p_callerq (procs s3 d)) (cq d)" "set (cq d) = senders s d" if "isokprocn d" for d
    using cq that by (simp_all add: cq_ok_def u)
  have rng: "d \<in> set [- NR_TASKS..NR_PROCS - 1] \<longleftrightarrow> isokprocn d" for d
    unfolding set_upto isokprocn_def by auto
  define cq' where "cq' = (\<lambda>d. remove1 p (cq d))"
  have "\<exists>s4. (if SENDING \<in> flags s3 p then xit_unqueue [- NR_TASKS..NR_PROCS - 1] p s3 else Some s3) = Some s4
    \<and> relinked s3 s4 \<and> (\<forall>d. isokprocn d \<longrightarrow> chain (sendlink s4) (p_callerq (procs s4 d)) (cq' d))"
  proof (cases "SENDING \<in> flags s p")
    case False
    then have "remove1 p (cq d) = cq d" if "isokprocn d" for d
      using cqd(2) [OF that] by (simp add: remove1_idem senders_def)
    with False cqd(1) show ?thesis by (auto simp: u cq'_def relinked_def)
  next
    case True
    define e where "e = p_sendto (procs s p)"
    have oke: "isokprocn e" using t(2) True by (simp add: queue_inv_def e_def)
    have "p \<in> set (cq e)" using cqd(2) [OF oke] True by (simp add: senders_def e_def)
    then obtain us vs where sp: "cq e = us @ p # vs" by (auto simp: in_set_conv_decomp)
    have dj: "set (cq d) \<inter> set (cq e) = {}" if "isokprocn d" "d \<noteq> e" for d
      using cqd(2) [OF that(1)] cqd(2) [OF oke] that(2) by (auto simp: senders_def)
    have "\<exists>s4. xit_unqueue [- NR_TASKS..NR_PROCS - 1] p s3 = Some s4 \<and> relinked s3 s4
      \<and> (\<forall>d \<in> set [- NR_TASKS..NR_PROCS - 1]. chain (sendlink s4) (p_callerq (procs s4 d)) ((cq(e := us @ vs)) d))"
    proof (rule xit_unqueue_found)
      show "chain (sendlink s3) (p_callerq (procs s3 d)) (cq d)" if "d \<in> set [- NR_TASKS..NR_PROCS - 1]" for d
        using that unfolding rng by (rule cqd(1))
      show "e \<in> set [- NR_TASKS..NR_PROCS - 1]" unfolding rng by (rule oke)
      show "distinct [- NR_TASKS..NR_PROCS - 1]" by (rule distinct_upto)
      show "cq e = us @ p # vs" by (rule sp)
      show "set (cq d) \<inter> set (cq e) = {}" if "d \<in> set [- NR_TASKS..NR_PROCS - 1]" "d \<noteq> e" for d
        using that unfolding rng by (rule dj)
    qed
    then obtain s4 where s4: "xit_unqueue [- NR_TASKS..NR_PROCS - 1] p s3 = Some s4" "relinked s3 s4"
      "\<And>d. isokprocn d \<Longrightarrow> chain (sendlink s4) (p_callerq (procs s4 d)) ((cq(e := us @ vs)) d)"
      unfolding rng [symmetric] by blast
    have cqe: "(cq(e := us @ vs)) d = cq' d" if "isokprocn d" for d
    proof -
      have "p \<notin> set us" using chain_distinct [OF cqd(1) [OF oke]] sp by auto
      moreover have "p \<notin> set (cq d)" if "d \<noteq> e" using dj [OF \<open>isokprocn d\<close> that] sp by auto
      ultimately show ?thesis using sp by (auto simp: cq'_def remove1_append remove1_idem)
    qed
    have c4: "chain (sendlink s4) (p_callerq (procs s4 d)) (cq' d)" if "isokprocn d" for d
      using s4(3) [OF that] unfolding cqe [OF that] .
    have fs: "SENDING \<in> flags s3 p" using True by (simp add: u)
    show ?thesis
      by (rule exI [of _ s4]) (intro conjI allI impI s4(2) c4; simp only: if_P [OF fs] s4(1))
  qed
  then obtain s4 where s4: "(if SENDING \<in> flags s3 p then xit_unqueue [- NR_TASKS..NR_PROCS - 1] p s3 else Some s3) = Some s4"
    "relinked s3 s4" "\<forall>d. isokprocn d \<longrightarrow> chain (sendlink s4) (p_callerq (procs s4 d)) (cq' d)" by blast
  note l = relinked_fields [OF s4(2)]
  define s5 where "s5 = (if PENDING \<in> flags s4 p then s4\<lparr>sig_procs := sig_procs s4 - 1\<rparr> else s4)"
  define s' where "s' = upd_proc p fin s5"
  have f: "prio s' n = (if n = p then PPRI_NONE else prio s n)" "flags s' n = (if n = p then {} else flags s n)"
    "p_nextready (procs s' n) = p_nextready (procs s3 n)" "p_sendto (procs s' n) = p_sendto (procs s n)"
    "p_getfrom (procs s' n) = p_getfrom (procs s n)" "p_map (procs s' n) = p_map (procs s n)"
    "p_stguard (procs s' n) = p_stguard (procs s n)" "p_sendlink (procs s' n) = p_sendlink (procs s4 n)"
    "p_callerq (procs s' n) = p_callerq (procs s4 n)"
    "rdy_head s' = rdy_head s3" "rdy_tail s' = rdy_tail s3" "sys_m s' = sys_m s"
    "sig_procs s' = (if PENDING \<in> flags s p then sig_procs s - 1 else sig_procs s)" for n
    by (auto simp: s'_def s5_def fin_def upd_proc_def l u)
  have nq: "p \<notin> set (rq3 r)" for r using s3(2) by (auto simp: rqs.queued_def)
  have "rq_ok s' rq3"
  proof
    show "chain (nextready s') (rdy_head s' r) (rq3 r)" for r using rq_ok_chain [OF s3(1)] by (simp add: f)
    show "rq3 r \<noteq> [] \<Longrightarrow> rdy_tail s' r = Some (last (rq3 r))" for r using rq_ok_tail [OF s3(1)] by (simp add: f)
    show "x \<in> set (rq3 r) \<Longrightarrow> class_of (prio s' x) = r" for r x
      using rq_ok_class [OF s3(1), of x r] nq [of r] by (auto simp: f u)
  qed
  moreover have "runnable s' = runnable s - {p}" by (auto simp: runnable_def f schedulable_def)
  ultimately have si: "sched_inv s'" using s3(2) by (auto simp: sched_inv_def)
  have se: "senders s' d = senders s d - {p}" for d by (auto simp: senders_def f)
  have "cq_ok s' cq'"
    unfolding cq_ok_def
  proof (intro allI impI conjI)
    fix d assume d: "isokprocn d"
    show "chain (sendlink s') (p_callerq (procs s' d)) (cq' d)" using s4(3) d by (simp add: f)
    show "set (cq' d) = senders s' d"
      using chain_distinct [OF cqd(1) [OF d]] cqd(2) [OF d] by (simp add: cq'_def se set_remove1_eq)
  qed
  moreover have "isokprocn n \<and> isokprocn (p_sendto (procs s' n))" if "SENDING \<in> flags s' n" for n
    using t(2) that by (auto simp: queue_inv_def f split: if_splits)
  ultimately have q: "queue_inv s'" unfolding queue_inv_def by blast
  have w: "acyclic (waits s')" by (rule acyclic_subset [OF t(3)]) (auto simp: waits_def f split: if_splits)
  have y: "sys_inv s'" using t(4) sys unfolding sys_inv_def
    by (auto simp: f guard_ok_def schedulable_def mess_in_range_def)
  have m: "mm_inv s'" using t(5) sys by (simp add: mm_inv_def f)
  have pe: "{n. PENDING \<in> flags s' n} = {n. PENDING \<in> flags s n} - {p}" by (auto simp: f)
  have "sig_procs s' = int (card {n. PENDING \<in> flags s' n})"
  proof (cases "PENDING \<in> flags s p")
    case True
    have "card {n. PENDING \<in> flags s n} > 0" using True pending_finite [OF g] by (auto simp: card_gt_0_iff)
    with True g show ?thesis unfolding pe f(13) by (simp add: sig_inv_def card_Diff_singleton of_nat_diff)
  next
    case False
    with g show ?thesis unfolding pe f(13) by (simp add: sig_inv_def)
  qed
  then have "sig_inv s'" using g unfolding sig_inv_def by (auto simp: f(2) split: if_splits)
  then have "kinv s'" using si q w y m by (simp add: kinv_def table_inv_def)
  moreover have "tmr_view s' = tmr_view s"
    using relinked_view [OF s4(2)] s3(3) by (simp add: s'_def s5_def fin_def)
  ultimately show ?thesis
    by (intro exI [of _ r3] exI [of _ s3] exI [of _ s4] exI [of _ s'] conjI allI r3(1) s3_def s4(1) f(1,2) se)
      (simp_all only: s'_def s5_def)
qed

text \<open>The timer operations write the lists of expired timers, the timers and the two list variables.\<close>

definition exp_frame :: "kstate \<Rightarrow> kstate \<Rightarrow> bool" where
  "exp_frame s s' \<longleftrightarrow> (\<forall>n. (procs s' n)\<lparr>p_exptimers := None\<rparr> = (procs s n)\<lparr>p_exptimers := None\<rparr>)
     \<and> s'\<lparr>procs := procs s, tmr := tmr s, timers := timers s, next_timer := next_timer s\<rparr> = s"

lemma exp_frame_fields:
  assumes "exp_frame s s'"
  shows "p_flags (procs s' n) = p_flags (procs s n)" "p_priority (procs s' n) = p_priority (procs s n)"
    "p_sendto (procs s' n) = p_sendto (procs s n)"
    "p_nextready (procs s' n) = p_nextready (procs s n)" "p_getfrom (procs s' n) = p_getfrom (procs s n)"
    "p_map (procs s' n) = p_map (procs s n)" "p_stguard (procs s' n) = p_stguard (procs s n)"
    "p_sendlink (procs s' n) = p_sendlink (procs s n)" "p_callerq (procs s' n) = p_callerq (procs s n)"
    "p_nextheld (procs s' n) = p_nextheld (procs s n)" "p_int_held (procs s' n) = p_int_held (procs s n)"
    "rdy_head s' = rdy_head s" "rdy_tail s' = rdy_tail s" "sig_procs s' = sig_procs s" "sys_m s' = sys_m s"
    "held_head s' = held_head s" "held_tail s' = held_tail s"
proof -
  have e: "(procs s' n)\<lparr>p_exptimers := None\<rparr> = (procs s n)\<lparr>p_exptimers := None\<rparr>"
    and g: "s'\<lparr>procs := procs s, tmr := tmr s, timers := timers s, next_timer := next_timer s\<rparr> = s"
    using assms by (auto simp: exp_frame_def)
  show "p_flags (procs s' n) = p_flags (procs s n)" using arg_cong [OF e, of p_flags] by simp
  show "p_priority (procs s' n) = p_priority (procs s n)" using arg_cong [OF e, of p_priority] by simp
  show "p_sendto (procs s' n) = p_sendto (procs s n)" using arg_cong [OF e, of p_sendto] by simp
  show "p_nextready (procs s' n) = p_nextready (procs s n)" using arg_cong [OF e, of p_nextready] by simp
  show "p_getfrom (procs s' n) = p_getfrom (procs s n)" using arg_cong [OF e, of p_getfrom] by simp
  show "p_map (procs s' n) = p_map (procs s n)" using arg_cong [OF e, of p_map] by simp
  show "p_stguard (procs s' n) = p_stguard (procs s n)" using arg_cong [OF e, of p_stguard] by simp
  show "p_sendlink (procs s' n) = p_sendlink (procs s n)" using arg_cong [OF e, of p_sendlink] by simp
  show "p_callerq (procs s' n) = p_callerq (procs s n)" using arg_cong [OF e, of p_callerq] by simp
  show "p_nextheld (procs s' n) = p_nextheld (procs s n)" using arg_cong [OF e, of p_nextheld] by simp
  show "p_int_held (procs s' n) = p_int_held (procs s n)" using arg_cong [OF e, of p_int_held] by simp
  show "rdy_head s' = rdy_head s" using arg_cong [OF g, of rdy_head] by simp
  show "rdy_tail s' = rdy_tail s" using arg_cong [OF g, of rdy_tail] by simp
  show "sig_procs s' = sig_procs s" using arg_cong [OF g, of sig_procs] by simp
  show "sys_m s' = sys_m s" using arg_cong [OF g, of sys_m] by simp
  show "held_head s' = held_head s" using arg_cong [OF g, of held_head] by simp
  show "held_tail s' = held_tail s" using arg_cong [OF g, of held_tail] by simp
qed

lemma exp_frame_kinv: "kinv s \<Longrightarrow> exp_frame s s' \<Longrightarrow> kinv s'"
  by (erule kinv_frame) (simp_all add: exp_frame_fields)

lemma exp_frame_held: "held_ok s hs \<Longrightarrow> exp_frame s s' \<Longrightarrow> held_ok s' hs"
  by (simp add: held_ok_def exp_frame_fields)

lemma clrtimer_exp_frame:
  assumes "\<forall>n. (procs s' n)\<lparr>p_exptimers := None\<rparr> = (procs s n)\<lparr>p_exptimers := None\<rparr>"
    "s'\<lparr>procs := procs s, tmr := tmr s, timers := timers s\<rparr> = s"
  shows "exp_frame s s'"
  using assms(1) arg_cong [OF assms(2), of "\<lambda>x. x\<lparr>next_timer := next_timer s\<rparr>"] by (simp add: exp_frame_def)

lemma do_xit_kinv:
  assumes inv: "kinv s" "tmr_inv s ts es" and p: "isokprocn parent" "isuserp (procs s parent)"
    and c: "0 \<le> pr" "pr < NR_PROCS" "isuserp (procs s pr)" and tk: "isokprocn (tmr_task (tmr s (nat pr)))"
  shows "\<exists>s'. do_xit parent pr s = Some (OK, s') \<and> kinv s'
    \<and> tmr_inv s' (remove1 (nat pr) ts) (\<lambda>p. remove1 (nat pr) (es p))
    \<and> (\<forall>n. prio s' n = (if n = pr then PPRI_NONE else prio s n))
    \<and> (\<forall>n. flags s' n = (if n = pr then {} else flags s n)) \<and> (\<forall>d. senders s' d = senders s d - {pr})
    \<and> (\<forall>t. tmr_task (tmr s' t) = tmr_task (tmr s t) \<and> tmr_func (tmr s' t) = tmr_func (tmr s t)
         \<and> tmr_arg (tmr s' t) = tmr_arg (tmr s t))
    \<and> (\<forall>hs. held_ok s hs \<longrightarrow> held_ok s' hs)"
proof -
  have okp: "isokprocn pr" using c by (simp add: isokprocn_def)
  have hwp: "parent \<noteq> HARDWARE" using inv(1) p by (auto simp: kinv_def table_inv_def sys_inv_def)
  define s0 where "s0 = upd_proc parent (\<lambda>p. p\<lparr>child_utime := child_utime p
      + (user_time (procs s pr) + child_utime (procs s pr))\<rparr>) s"
  define s1 where "s1 = upd_proc parent (\<lambda>p. p\<lparr>child_stime := child_stime p
      + (sys_time (procs s0 pr) + child_stime (procs s0 pr))\<rparr>) s0"
  have k1: "kinv s1" unfolding s1_def s0_def by (intro kinv_proc_upd inv(1) hwp) simp_all
  have v1: "tmr_view s1 = tmr_view s" by (simp add: s1_def s0_def)
  have f1: "prio s1 n = prio s n" "flags s1 n = flags s n" "p_sendto (procs s1 n) = p_sendto (procs s n)"
    "tmr s1 = tmr s" for n
    by (simp_all add: s1_def s0_def upd_proc_def)
  obtain s2 where s2: "cancel_alarm pr s1 = Some s2" "tmr_inv s2 (remove1 (nat pr) ts) (\<lambda>p. remove1 (nat pr) (es p))"
    "\<forall>t. tmr_task (tmr s2 t) = tmr_task (tmr s1 t) \<and> tmr_func (tmr s2 t) = tmr_func (tmr s1 t)
         \<and> tmr_arg (tmr s2 t) = tmr_arg (tmr s1 t)"
    "\<forall>n. (procs s2 n)\<lparr>p_exptimers := None\<rparr> = (procs s1 n)\<lparr>p_exptimers := None\<rparr>"
    "s2\<lparr>procs := procs s1, tmr := tmr s1, timers := timers s1\<rparr> = s1"
    using tmr_clrtimer_spec [OF tmr_view_inv [OF inv(2) v1], of "nat pr"] tk f1(4) by (auto simp: cancel_alarm_def)
  have fr: "exp_frame s1 s2" by (rule clrtimer_exp_frame [OF s2(4,5)])
  note f2 = exp_frame_fields(1,2,3) [OF fr, unfolded f1(1,2,3)]
  have k2: "kinv s2" by (rule exp_frame_kinv [OF k1 fr])
  have u2: "isuserp (procs s2 pr)" using c(3) f2 by simp
  have h2: "held_ok s2 hs" if "held_ok s hs" for hs
    by (rule exp_frame_held [OF tmr_view_held [OF that v1] fr])
  obtain r3 s3 s4 s' where x: "(if flags s2 pr = {} then lock_unready pr s2 else Some s2) = Some r3"
    "s3 = upd_proc pr (\<lambda>p. p\<lparr>p_name := noname\<rparr>) r3"
    "(if SENDING \<in> flags s3 pr then xit_unqueue [- NR_TASKS..NR_PROCS - 1] pr s3 else Some s3) = Some s4"
    "s' = upd_proc pr (\<lambda>P. P\<lparr>p_pending := 0, p_pendcount := 0, p_flags := {}, p_priority := PPRI_NONE\<rparr>)
        (if PENDING \<in> flags s4 pr then s4\<lparr>sig_procs := sig_procs s4 - 1\<rparr> else s4)"
    "kinv s'" "\<forall>n. prio s' n = (if n = pr then PPRI_NONE else prio s2 n)"
    "\<forall>n. flags s' n = (if n = pr then {} else flags s2 n)" "\<forall>d. senders s' d = senders s2 d - {pr}"
    "tmr_view s' = tmr_view s2"
    using exit_kinv [OF k2 okp u2] by (elim exE conjE) (rule that; assumption)
  have "do_xit parent pr s = Some (OK, s')"
    unfolding do_xit_def Let_def s0_def [symmetric] s1_def [symmetric] s2(1) x(1) Option.bind.bind_lunit x(2) [symmetric] x(3) Option.bind.bind_lunit x(4)
    by (simp only: p c(3) okp simp_thms if_False if_True)
  moreover have "senders s2 d = senders s d" for d by (simp add: senders_def f2)
  moreover have "tmr s' = tmr s2" using x(9) by (simp add: tmr_view_def)
  moreover have "\<forall>hs. held_ok s hs \<longrightarrow> held_ok s' hs" using tmr_view_held [OF h2 x(9)] by blast
  moreover have "tmr_inv s' (remove1 (nat pr) ts) (\<lambda>p. remove1 (nat pr) (es p))"
    by (rule tmr_view_inv [OF s2(2) x(9)])
  ultimately show ?thesis using x(5-8) s2(3) f1(4)
    by (intro exI [of _ s']) (simp only: f2 simp_thms)
qed

subsection \<open>What the remaining operations leave alone\<close>

lemma inform_view: "inform s = Some s' \<Longrightarrow> tmr_view s' = tmr_view s"
  by (auto simp: inform_def lock_mini_send_def kstore_def Let_def bind_eq_Some_conv lock_view
      split: if_splits option.splits dest!: mini_send_view)

lemma rec_accept_view: "rec_accept c m prev sender s = Some (r, s') \<Longrightarrow> tmr_view s' = tmr_view s"
  by (auto simp: rec_accept_def unlink_sender_def copy_mess_def Let_def bind_eq_Some_conv
      split: if_splits option.splits dest!: ready_view)

lemma rec_block_view: "rec_block c src m s = Some (r, s') \<Longrightarrow> tmr_view s' = tmr_view s"
  by (auto simp: rec_block_def Let_def bind_eq_Some_conv split: if_splits dest!: unready_view inform_view)

lemma hard_int_mess_view [simp]: "tmr_view (hard_int_mess m s) = tmr_view s"
  by (simp add: hard_int_mess_def kstore_def)

lemma mini_rec_view:
  assumes "mini_rec c src m s = Some (r, s')"
  shows "tmr_view s' = tmr_view s"
proof -
  obtain found where found: "(case found of
         Some (previous, sender) \<Rightarrow> rec_accept c m previous sender s
       | None \<Rightarrow>
           if SENDING \<notin> flags s c \<and> p_int_blocked (procs s c) \<and> isrxhardware src
           then Some (OK, upd_proc c (\<lambda>p. p\<lparr>p_int_blocked := False\<rparr>) (hard_int_mess m s))
           else rec_block c src m s) = Some (r, s')"
    using assms unfolding mini_rec_def by (auto simp only: bind_eq_Some_conv)
  show ?thesis
  proof (cases found)
    case None
    with found show ?thesis by (auto split: if_splits dest: rec_block_view)
  next
    case (Some x)
    with found show ?thesis by (cases x) (auto dest: rec_accept_view)
  qed
qed

lemma sys_call_view: "sys_call f d m s = Some (r, s') \<Longrightarrow> tmr_view s' = tmr_view s"
  by (auto simp: sys_call_def Let_def bind_eq_Some_conv split: if_splits dest!: mini_send_view mini_rec_view)

lemma lock_ready_view: "lock_ready p s = Some s' \<Longrightarrow> tmr_view s' = tmr_view s"
  by (auto simp: lock_ready_def dest: ready_view)

lemma do_endsig_view: "do_endsig p s = Some (r, s') \<Longrightarrow> tmr_view s' = tmr_view s"
  by (auto simp: do_endsig_def Let_def split: if_splits dest!: lock_ready_view)

lemma do_newmap_view: "do_newmap c k a s = Some (r, s') \<Longrightarrow> tmr_view s' = tmr_view s"
  by (auto simp: do_newmap_def alloc_segments_def Let_def split: if_splits dest!: lock_ready_view)

text \<open>A system call of any running process but HARDWARE.  A system process names an existing
  destination other than itself when it sends; the system does not check that.\<close>

lemma sys_call_any:
  assumes inv: "kinv s" and c: "isokprocn (proc_ptr s)" "proc_ptr s \<noteq> HARDWARE" "schedulable (prio s (proc_ptr s))"
      "flags s (proc_ptr s) = {}"
    and f: "f = SEND \<or> f = RECEIVE \<or> f = BOTH"
    and d: "f \<noteq> RECEIVE \<Longrightarrow> \<not> isuserp (procs s (proc_ptr s)) \<Longrightarrow> isokprocn d \<and> d \<noteq> proc_ptr s"
  shows "\<exists>r s'. sys_call f d m s = Some (r, s') \<and> kinv s' \<and> (\<forall>n. prio s' n = prio s n)"
proof -
  let ?p = "proc_ptr s"
  have fs: "f AND SEND \<noteq> 0 \<longleftrightarrow> f \<noteq> RECEIVE" using f by auto
  have br: "f = BOTH \<Longrightarrow> f \<noteq> RECEIVE" by simp
  consider "\<not> isoksrc_dest d" | "isoksrc_dest d" "isuserp (procs s ?p)" "f \<noteq> BOTH"
    | "isoksrc_dest d" "f = RECEIVE" "\<not> isuserp (procs s ?p)"
    | "isoksrc_dest d" "f \<noteq> RECEIVE" "isuserp (procs s ?p) \<longrightarrow> f = BOTH" using br by blast
  then show ?thesis
  proof cases
    case 1
    with inv show ?thesis by (simp add: sys_call_def)
  next
    case 2
    with inv show ?thesis by (simp add: sys_call_def Let_def)
  next
    case 3
    have "\<exists>s'. mini_rec ?p d m s = Some (OK, s') \<and> kinv s' \<and> (\<forall>n. prio s' n = prio s n)"
      by (rule mini_rec_inv [OF inv c(1-3)]) (use c(4) in simp)
    with 3 fs show ?thesis by (auto simp: sys_call_def Let_def)
  next
    case 4
    have ms: "\<exists>r s1. mini_send ?p d m s = Some (r, s1) \<and> kinv s1 \<and> (\<forall>n. prio s1 n = prio s n)
      \<and> (SENDING \<in> flags s1 ?p \<longrightarrow> p_sendto (procs s1 ?p) = d \<and> d \<noteq> ANY)"
    proof (cases "isuserp (procs s ?p) \<and> \<not> issysentn d")
      case True
      with inv c(4) show ?thesis by (simp add: mini_send_def)
    next
      case False
      have "isokprocn d \<and> d \<noteq> ?p \<and> d \<noteq> ANY"
      proof (cases "isuserp (procs s ?p)")
        case True
        with False have "d = FS_PROC_NR \<or> d = MM_PROC_NR" by (simp add: issysentn_def)
        moreover have "prio s MM_PROC_NR = PPRI_SERVER" "prio s FS_PROC_NR = PPRI_SERVER"
          using inv by (simp_all add: kinv_def table_inv_def sys_inv_def)
        ultimately show ?thesis using True by (auto simp: isokprocn_def)
      next
        case False
        with d 4(2) show ?thesis by (auto simp: isokprocn_def)
      qed
      with mini_send_inv [OF inv c(1,3) _ _ _ _ c(2), of d m] c(4) show ?thesis by auto
    qed
    then obtain r s1 where s1: "mini_send ?p d m s = Some (r, s1)" "kinv s1" "\<forall>n. prio s1 n = prio s n"
      "SENDING \<in> flags s1 ?p \<longrightarrow> p_sendto (procs s1 ?p) = d \<and> d \<noteq> ANY" by blast
    have e: "sys_call f d m s = (if f = SEND \<or> r \<noteq> OK then Some (r, s1) else mini_rec ?p d m s1)"
      using 4 fs s1(1) by (auto simp: sys_call_def Let_def)
    have "\<exists>s'. mini_rec ?p d m s1 = Some (OK, s') \<and> kinv s' \<and> (\<forall>n. prio s' n = prio s1 n)"
      by (rule mini_rec_inv [OF s1(2) c(1,2)]) (use s1 c(3) in auto)
    with e s1 show ?thesis by auto
  qed
qed

end
