(* ===== verification/Kernel_Run.thy ===== *)
theory Kernel_Run
  imports Kernel_Steps
begin

text \<open>
  Runs of the kernel: its entry points as operations, when its surroundings may invoke each of them, and
  the invariant that holds of every state reached from the one \<^verbatim>\<open>main()\<close> leaves.
\<close>

subsection \<open>Interrupts keep the timers and the priorities\<close>

definition keep_view where
  "keep_view s = (tmr s, timers s, next_timer s, (\<lambda>p. (p_exptimers (procs s p), prio s p)))"

lemma keep_view_simps [simp]:
  "keep_view (s\<lparr>kmem := m\<rparr>) = keep_view s" "keep_view (s\<lparr>switching := b\<rparr>) = keep_view s"
  "keep_view (s\<lparr>proc_ptr := n\<rparr>) = keep_view s" "keep_view (s\<lparr>rdy_head := hq\<rparr>) = keep_view s"
  "keep_view (s\<lparr>rdy_tail := hq\<rparr>) = keep_view s" "keep_view (s\<lparr>held_head := h\<rparr>) = keep_view s"
  "keep_view (s\<lparr>held_tail := h\<rparr>) = keep_view s"
  by (simp_all add: keep_view_def)

lemma keep_view_upd [simp]:
  "(\<And>p. p_exptimers (f p) = p_exptimers p) \<Longrightarrow> (\<And>p. p_priority (f p) = p_priority p) \<Longrightarrow>
   keep_view (upd_proc n f s) = keep_view s"
  by (auto simp: keep_view_def upd_proc_def fun_eq_iff)

lemma ready_keep: "ready p s = Some s' \<Longrightarrow> keep_view s' = keep_view s"
  by (auto simp: ready_def Let_def split: if_splits option.splits)

lemma hold_keep: "hold t s = Some s' \<Longrightarrow> keep_view s' = keep_view s"
  by (auto simp: hold_def Let_def split: if_splits option.splits)

lemma interrupt_keep: "interrupt t s = Some s' \<Longrightarrow> keep_view s' = keep_view s"
  by (auto simp: interrupt_def hard_int_mess_def kstore_def Let_def bind_eq_Some_conv
      split: if_splits dest!: ready_keep hold_keep)

lemma hold_all_keep: "hold_all ts s = Some s' \<Longrightarrow> keep_view s' = keep_view s"
  by (induction ts arbitrary: s) (auto simp: bind_eq_Some_conv dest!: hold_keep)

lemma unhold_round_keep: "unhold_round ts t s = Some s' \<Longrightarrow> keep_view s' = keep_view s"
  by (auto simp: unhold_round_def Let_def bind_eq_Some_conv split: if_splits dest!: interrupt_keep hold_all_keep)

lemma unhold_loop_keep:
  assumes "unhold_loop irqs t s = Some s'"
  shows "keep_view s' = keep_view s"
proof (rule unhold_loop.raw_induct [where P = "\<lambda>irqs t s s'. keep_view s' = keep_view s", OF _ assms])
  fix loop :: "int list list \<Rightarrow> int \<Rightarrow> kstate \<Rightarrow> kstate option" and irqs t s s'
  assume IH: "\<And>irqs t s s'. loop irqs t s = Some s' \<Longrightarrow> keep_view s' = keep_view s"
  assume "do {
       s1 \<leftarrow> unhold_round (case irqs of [] \<Rightarrow> [] | ts # _ \<Rightarrow> ts) t s;
       case held_head s1 of
         None \<Rightarrow> Some s1
       | Some rp' \<Rightarrow> loop (case irqs of [] \<Rightarrow> [] | _ # r \<Rightarrow> r) rp' s1
     } = Some s'"
  then obtain s1 where s1: "unhold_round (case irqs of [] \<Rightarrow> [] | ts # _ \<Rightarrow> ts) t s = Some s1"
    "(case held_head s1 of None \<Rightarrow> Some s1 | Some t' \<Rightarrow> loop (case irqs of [] \<Rightarrow> [] | _ # r \<Rightarrow> r) t' s1) = Some s'"
    by (auto simp: bind_eq_Some_conv)
  with unhold_round_keep [OF s1(1)] show "keep_view s' = keep_view s"
    by (cases "held_head s1") (auto dest: IH)
qed

subsection \<open>The invariant\<close>

text \<open>The active timers and the clock task's expired ones are alarms: timer \<open>t\<close> is that of process \<open>t\<close>.\<close>

definition alarms :: "kstate \<Rightarrow> nat list \<Rightarrow> (int \<Rightarrow> nat list) \<Rightarrow> bool" where
  "alarms s ts es \<longleftrightarrow> (\<forall>t. t \<in> set ts \<or> t \<in> set (es CLOCK) \<longrightarrow>
     tmr_task (tmr s t) = CLOCK \<and> alarm_ok s t \<and> tmr_arg (tmr s t) = int t)"

definition kernel_ok :: "kstate \<Rightarrow> bool" where
  "kernel_ok s \<longleftrightarrow> kinv s \<and> (\<exists>hs. held_ok s hs) \<and> prio s CLOCK = PPRI_TASK
     \<and> (\<forall>t. p_int_held (procs s t) \<longrightarrow> istaskp (procs s t) \<and> isokprocn t)
     \<and> (\<exists>ts es. tmr_inv s ts es \<and> alarms s ts es) \<and> (\<forall>t. isokprocn (tmr_task (tmr s t)))"

lemma kernel_okI:
  assumes "kinv s" "held_ok s hs" "prio s CLOCK = PPRI_TASK"
    and "\<And>t. t \<in> set hs \<Longrightarrow> istaskp (procs s t) \<and> isokprocn t"
    and "tmr_inv s ts es" "alarms s ts es" "\<And>t. isokprocn (tmr_task (tmr s t))"
  shows "kernel_ok s"
  unfolding kernel_ok_def
proof (intro conjI allI impI)
  show "istaskp (procs s t)" "isokprocn t" if "p_int_held (procs s t)" for t
    using assms(2,4) that by (auto simp: held_ok_def)
qed (use assms in blast)+

lemma kernel_okE:
  assumes "kernel_ok s"
  obtains hs ts es where "kinv s" "held_ok s hs" "prio s CLOCK = PPRI_TASK"
    "\<And>t. t \<in> set hs \<Longrightarrow> istaskp (procs s t) \<and> isokprocn t"
    "tmr_inv s ts es" "alarms s ts es" "\<And>t. isokprocn (tmr_task (tmr s t))"
proof -
  obtain hs where hs: "held_ok s hs" using assms by (auto simp: kernel_ok_def)
  obtain ts es where "tmr_inv s ts es" "alarms s ts es" using assms by (auto simp: kernel_ok_def)
  moreover have "istaskp (procs s t) \<and> isokprocn t" if "t \<in> set hs" for t
    using assms hs that by (auto simp: kernel_ok_def held_ok_def)
  ultimately show thesis using that hs assms by (auto simp: kernel_ok_def)
qed

subsection \<open>Operations\<close>

datatype kop = SysCall int int u32 | Interrupt int | Unhold "int list list" | CauseSig int int | EndSig int
  | Xit int int | Fork int int int | NewMap int int u32 | SetAlarm int int | ClockTick | SetLevel u8

text \<open>\<open>SetLevel\<close> is the assembly code's count of nested kernel entries.  \<open>ClockTick\<close> is the clock
  task's handling of a \<^verbatim>\<open>HARD_INT\<close> message.\<close>

definition kexec :: "kop \<Rightarrow> kstate \<Rightarrow> kstate option" where
  "kexec op s = (case op of
     SysCall f d m \<Rightarrow> map_option snd (sys_call f d m s)
   | Interrupt t \<Rightarrow> interrupt t s
   | Unhold irqs \<Rightarrow> unhold irqs s
   | CauseSig p sg \<Rightarrow> cause_sig p sg s
   | EndSig p \<Rightarrow> map_option snd (do_endsig p s)
   | Xit parent p \<Rightarrow> map_option snd (do_xit parent p s)
   | Fork p c pid \<Rightarrow> map_option snd (do_fork p c pid s)
   | NewMap c k ptr \<Rightarrow> map_option snd (do_newmap c k ptr s)
   | SetAlarm p delta \<Rightarrow> map_option snd (do_setalarm p delta CLOCK CAUSE_ALARM s)
   | ClockTick \<Rightarrow> do_clocktick (\<lambda>_ _ _. None) 0 (transfer_ticks s)
   | SetLevel k \<Rightarrow> Some (s\<lparr>k_reenter := k\<rparr>))"

text \<open>What the callers see to.\<close>

definition kallowed :: "kop \<Rightarrow> kstate \<Rightarrow> bool" where
  "kallowed op s = (case op of
     SysCall f d m \<Rightarrow> isokprocn (proc_ptr s) \<and> proc_ptr s \<noteq> HARDWARE \<and> schedulable (prio s (proc_ptr s))
       \<and> flags s (proc_ptr s) = {} \<and> f \<in> {SEND, RECEIVE, BOTH}
       \<and> (f \<noteq> RECEIVE \<longrightarrow> \<not> isuserp (procs s (proc_ptr s)) \<longrightarrow> isokprocn d \<and> d \<noteq> proc_ptr s)
   | Interrupt t \<Rightarrow> isokprocn t \<and> istaskp (procs s t)
   | Unhold irqs \<Rightarrow> k_reenter s = 0 \<and> held_head s \<noteq> None
       \<and> (\<forall>t \<in> set (concat irqs). isokprocn t \<and> istaskp (procs s t))
   | CauseSig p sg \<Rightarrow> 0 \<le> p \<and> p < NR_PROCS \<and> isuserp (procs s p)
   | EndSig p \<Rightarrow> isokprocn p \<and> isuserp (procs s p)
       \<and> (p_pendcount (procs s p) \<noteq> 0 \<longrightarrow> SIG_PENDING \<in> flags s p)
       \<and> (p_pendcount (procs s p) = 1 \<longrightarrow> PENDING \<notin> flags s p)
   | Xit parent p \<Rightarrow> isokprocn parent \<and> isuserp (procs s parent) \<and> 0 \<le> p \<and> p < NR_PROCS \<and> isuserp (procs s p)
   | Fork p c pid \<Rightarrow> isokprocn p \<and> isuserp (procs s p) \<and> SENDING \<notin> flags s p \<and> RECEIVING \<in> flags s p
       \<and> p_callerq (procs s p) = None \<and> isokprocn c \<and> isemptyp (procs s c) \<and> senders s c = {}
       \<and> \<not> p_int_held (procs s p) \<and> p_exptimers (procs s p) = None \<and> p_exptimers (procs s c) = None
   | NewMap c k ptr \<Rightarrow> isokprocn k \<and> k \<noteq> HARDWARE \<and> schedulable (prio s k) \<and> isokprocn c
       \<and> umap (procs s c) SegD ptr 36 \<noteq> 0
   | SetAlarm p delta \<Rightarrow> 0 \<le> p \<and> p < NR_PROCS \<and> schedulable (prio s p) \<and> get_uptime s + delta \<noteq> TMR_NEVER
   | ClockTick \<Rightarrow> proc_ptr s = CLOCK \<and> flags s CLOCK = {} \<and> k_reenter s \<noteq> 0
   | SetLevel k \<Rightarrow> True)"

text \<open>An operation that leaves the timers and held interrupts alone and changes no priority.\<close>

lemma alarms_cong:
  "alarms s ts es \<Longrightarrow> (\<And>t. tmr_task (tmr s' t) = tmr_task (tmr s t) \<and> tmr_func (tmr s' t) = tmr_func (tmr s t)
      \<and> tmr_arg (tmr s' t) = tmr_arg (tmr s t)) \<Longrightarrow> (\<And>n. schedulable (prio s n) \<Longrightarrow> schedulable (prio s' n)) \<Longrightarrow>
   alarms s' ts es"
  unfolding alarms_def alarm_ok_def by auto

lemma kernel_ok_view:
  assumes ok: "kernel_ok s" and k: "kinv s'" and v: "tmr_view s' = tmr_view s" and pr: "\<forall>n. prio s' n = prio s n"
  shows "kernel_ok s'"
proof (rule kernel_okE [OF ok])
  fix hs ts es
  assume a: "kinv s" "held_ok s hs" "prio s CLOCK = PPRI_TASK" "\<And>t. t \<in> set hs \<Longrightarrow> istaskp (procs s t) \<and> isokprocn t"
    "tmr_inv s ts es" "alarms s ts es" "\<And>t. isokprocn (tmr_task (tmr s t))"
  have tm: "tmr s' = tmr s" using v by (simp add: tmr_view_def)
  show ?thesis
    by (rule kernel_okI [OF k tmr_view_held [OF a(2) v] _ _ tmr_view_inv [OF a(5) v] alarms_cong [OF a(6)]])
      (use a(3,4,7) pr tm in auto)
qed

lemma kernel_ok_interrupt:
  assumes ok: "kernel_ok s" and t: "isokprocn t" "istaskp (procs s t)"
  shows "\<exists>s'. interrupt t s = Some s' \<and> kernel_ok s'"
proof (rule kernel_okE [OF ok])
  fix hs ts es
  assume a: "kinv s" "held_ok s hs" "prio s CLOCK = PPRI_TASK" "\<And>t. t \<in> set hs \<Longrightarrow> istaskp (procs s t) \<and> isokprocn t"
    "tmr_inv s ts es" "alarms s ts es" "\<And>t. isokprocn (tmr_task (tmr s t))"
  have "\<exists>s' hs'. interrupt t s = Some s' \<and> kinv s' \<and> held_ok s' hs' \<and> set hs' \<subseteq> insert t (set hs)"
  proof (cases "k_reenter s = 0 \<and> \<not> switching s")
    case True
    with interrupt_direct [OF a(1) _ _ t(2,1)] a(2) show ?thesis by (auto simp: held_ok_def)
  next
    case False
    then have "interrupt t s = hold t s" by (auto simp: interrupt_def)
    moreover obtain s' where s': "hold t s = Some s'" "held_ok s' (hold_add t hs)" "held_frame s s'"
      using hold_spec [OF a(2), of t] by blast
    moreover have "set (hold_add t hs) \<subseteq> insert t (set hs)" by auto
    ultimately show ?thesis using held_frame_kinv [OF a(1) s'(3)]
      by (intro exI [of _ s'] exI [of _ "hold_add t hs"]) simp
  qed
  then obtain s' hs' where s': "interrupt t s = Some s'" "kinv s'" "held_ok s' hs'" "set hs' \<subseteq> insert t (set hs)" by blast
  note kv = interrupt_keep [OF s'(1)]
  have f: "tmr s' = tmr s" "timers s' = timers s" "next_timer s' = next_timer s"
    "p_exptimers (procs s' n) = p_exptimers (procs s n)" "prio s' n = prio s n" for n
    using kv by (simp_all add: keep_view_def fun_eq_iff)
  have ti: "tmr_inv s' ts es" by (rule tmr_inv_cong [OF a(5)]) (simp_all add: f)
  have "kernel_ok s'"
    by (rule kernel_okI [OF s'(2,3) _ _ ti alarms_cong [OF a(6)]]) (use a(3,4,7) t s'(4) in \<open>auto simp: f\<close>)
  with s'(1) show ?thesis by blast
qed

lemma kernel_ok_unhold:
  assumes ok: "kernel_ok s" and lvl: "k_reenter s = 0" "held_head s \<noteq> None"
    and irqs: "\<forall>t \<in> set (concat irqs). isokprocn t \<and> istaskp (procs s t)"
  shows "\<exists>s'. unhold irqs s = Some s' \<and> kernel_ok s'"
proof (cases "switching s")
  case True
  with ok show ?thesis by (simp add: unhold_def)
next
  case False
  show ?thesis
  proof (rule kernel_okE [OF ok])
    fix hs ts es
    assume a: "kinv s" "held_ok s hs" "prio s CLOCK = PPRI_TASK" "\<And>t. t \<in> set hs \<Longrightarrow> istaskp (procs s t) \<and> isokprocn t"
      "tmr_inv s ts es" "alarms s ts es" "\<And>t. isokprocn (tmr_task (tmr s t))"
    obtain t hs1 where hs: "held_head s = Some t" "hs = t # hs1" using a(2) lvl(2) by (cases hs) (auto simp: held_ok_def)
    have "all_tasks s (insert t (set hs1) \<union> set (concat irqs))" using a(4) irqs hs by (auto simp: all_tasks_def)
    then obtain s' where s': "unhold_loop irqs t s = Some s'" "kinv s'" "held_ok s' []"
      using unhold_loop_spec [OF a(1) _ lvl(1) False, of t hs1 irqs] a(2) hs by auto
    note kv = unhold_loop_keep [OF s'(1)]
    have f: "tmr s' = tmr s" "timers s' = timers s" "next_timer s' = next_timer s"
      "p_exptimers (procs s' n) = p_exptimers (procs s n)" "prio s' n = prio s n" for n
      using kv by (simp_all add: keep_view_def fun_eq_iff)
    have ti: "tmr_inv s' ts es" by (rule tmr_inv_cong [OF a(5)]) (simp_all add: f)
    have "kernel_ok s'"
      by (rule kernel_okI [OF s'(2,3) _ _ ti alarms_cong [OF a(6)]]) (use a(3,7) in \<open>auto simp: f\<close>)
    then show ?thesis using s'(1) False hs(1) by (simp add: unhold_def)
  qed
qed

lemma kernel_ok_xit:
  assumes ok: "kernel_ok s" and p: "isokprocn parent" "isuserp (procs s parent)" "0 \<le> pr" "pr < NR_PROCS" "isuserp (procs s pr)"
  shows "\<exists>s'. do_xit parent pr s = Some (OK, s') \<and> kernel_ok s'"
proof (rule kernel_okE [OF ok])
  fix hs ts es
  assume a: "kinv s" "held_ok s hs" "prio s CLOCK = PPRI_TASK" "\<And>t. t \<in> set hs \<Longrightarrow> istaskp (procs s t) \<and> isokprocn t"
    "tmr_inv s ts es" "alarms s ts es" "\<And>t. isokprocn (tmr_task (tmr s t))"
  obtain s' where s': "do_xit parent pr s = Some (OK, s')" "kinv s'"
    "tmr_inv s' (remove1 (nat pr) ts) (\<lambda>p. remove1 (nat pr) (es p))"
    "\<forall>n. prio s' n = (if n = pr then PPRI_NONE else prio s n)"
    "\<forall>t. tmr_task (tmr s' t) = tmr_task (tmr s t) \<and> tmr_func (tmr s' t) = tmr_func (tmr s t)
         \<and> tmr_arg (tmr s' t) = tmr_arg (tmr s t)"
    "\<forall>hs. held_ok s hs \<longrightarrow> held_ok s' hs"
    using do_xit_kinv [OF a(1,5) p a(7)] by blast
  have "alarms s' (remove1 (nat pr) ts) (\<lambda>p. remove1 (nat pr) (es p))"
    unfolding alarms_def
  proof (intro allI impI)
    fix t assume t: "t \<in> set (remove1 (nat pr) ts) \<or> t \<in> set (remove1 (nat pr) (es CLOCK))"
    have "t \<noteq> nat pr" using t remove1_never [OF a(5), of "nat pr"] by metis
    moreover have "t \<in> set ts \<or> t \<in> set (es CLOCK)" using t set_remove1_subset by fast
    then have "tmr_task (tmr s t) = CLOCK \<and> alarm_ok s t \<and> tmr_arg (tmr s t) = int t"
      using a(6) unfolding alarms_def by blast
    ultimately show "tmr_task (tmr s' t) = CLOCK \<and> alarm_ok s' t \<and> tmr_arg (tmr s' t) = int t"
      using s'(4,5) by (auto simp: alarm_ok_def)
  qed
  moreover have "istaskp (procs s' t) \<and> isokprocn t" if "t \<in> set hs" for t
    using a(4) [OF that] s'(4) p(5) by auto
  moreover have "held_ok s' hs" using s'(6) a(2) by blast
  ultimately have "kernel_ok s'" using s'(2-5) a(3,7) p(3) by (intro kernel_okI [of s' hs]) auto
  with s'(1) show ?thesis by blast
qed

lemma do_fork_fields:
  assumes "do_fork p c pid s = Some (OK, s')"
  shows "p_exptimers (procs s' n) = (if n = c then p_exptimers (procs s p) else p_exptimers (procs s n))"
    "p_nextheld (procs s' n) = (if n = c then p_nextheld (procs s p) else p_nextheld (procs s n))"
    "p_int_held (procs s' n) = (if n = c then p_int_held (procs s p) else p_int_held (procs s n))"
    "tmr s' = tmr s" "timers s' = timers s" "next_timer s' = next_timer s"
    "held_head s' = held_head s" "held_tail s' = held_tail s"
  using assms by (auto simp: do_fork_def Let_def upd_proc_def split: if_splits)

lemma kernel_ok_fork:
  assumes ok: "kernel_ok s" and al: "kallowed (Fork p c pid) s"
  shows "\<exists>s'. do_fork p c pid s = Some (OK, s') \<and> kernel_ok s'"
proof (rule kernel_okE [OF ok])
  fix hs ts es
  assume a: "kinv s" "held_ok s hs" "prio s CLOCK = PPRI_TASK" "\<And>t. t \<in> set hs \<Longrightarrow> istaskp (procs s t) \<and> isokprocn t"
    "tmr_inv s ts es" "alarms s ts es" "\<And>t. isokprocn (tmr_task (tmr s t))"
  have l: "isokprocn p" "isuserp (procs s p)" "SENDING \<notin> flags s p" "RECEIVING \<in> flags s p"
    "p_callerq (procs s p) = None" "isokprocn c" "isemptyp (procs s c)" "senders s c = {}"
    "\<not> p_int_held (procs s p)" "p_exptimers (procs s p) = None" "p_exptimers (procs s c) = None"
    using al by (simp_all add: kallowed_def)
  obtain s' where s': "do_fork p c pid s = Some (OK, s')" "kinv s'" "\<forall>n. n \<noteq> c \<longrightarrow> procs s' n = procs s n"
    "isuserp (procs s' c)"
    using do_fork_kinv [OF a(1) l(1-8)] by blast
  note f = do_fork_fields [OF s'(1)]
  have ch: "c \<notin> set hs" using a(4) [of c] l(7) by auto
  have pr: "prio s' n = (if n = c then PPRI_USER else prio s n)" for n using s'(3,4) by simp
  have "chain (nextheld s') (held_head s) hs \<longleftrightarrow> chain (nextheld s) (held_head s) hs"
    by (rule chain_cong) (use ch in \<open>auto simp: f\<close>)
  moreover have "p_int_held (procs s' t) \<longleftrightarrow> t \<in> set hs" for t using a(2) l(9) ch by (auto simp: held_ok_def f)
  ultimately have h: "held_ok s' hs" using a(2) by (simp add: held_ok_def f)
  have ti: "tmr_inv s' ts es" by (rule tmr_inv_cong [OF a(5)]) (use l in \<open>auto simp: f\<close>)
  have "kernel_ok s'"
  proof (rule kernel_okI [OF s'(2) h _ _ ti alarms_cong [OF a(6)]])
    show "prio s' CLOCK = PPRI_TASK" using a(3) l(7) by (auto simp: pr)
    show "istaskp (procs s' t) \<and> isokprocn t" if "t \<in> set hs" for t using a(4) [OF that] ch that pr [of t] by auto
    show "isokprocn (tmr_task (tmr s' t))" for t using a(7) f(4) by simp
  qed (auto simp: f pr schedulable_def)
  with s'(1) show ?thesis by blast
qed

lemma kernel_ok_clocktick:
  assumes ok: "kernel_ok s" and run: "proc_ptr s = CLOCK" "flags s CLOCK = {}" "k_reenter s \<noteq> 0"
  shows "\<exists>s'. do_clocktick drv mess (transfer_ticks s) = Some s' \<and> kernel_ok s'"
proof (rule kernel_okE [OF ok])
  fix hs ts es
  assume a: "kinv s" "held_ok s hs" "prio s CLOCK = PPRI_TASK" "\<And>t. t \<in> set hs \<Longrightarrow> istaskp (procs s t) \<and> isokprocn t"
    "tmr_inv s ts es" "alarms s ts es" "\<And>t. isokprocn (tmr_task (tmr s t))"
  define s1 where "s1 = transfer_ticks s"
  have f1: "procs s1 = procs s" "tmr s1 = tmr s" "timers s1 = timers s" "next_timer s1 = next_timer s"
    "k_reenter s1 = k_reenter s" "proc_ptr s1 = proc_ptr s" by (simp_all add: s1_def transfer_ticks_def)
  have k1: "kinv s1" by (rule kinv_frame [OF a(1)]) (simp_all add: s1_def transfer_ticks_def)
  have h1: "held_ok s1 hs" using a(2) by (simp add: held_ok_def s1_def transfer_ticks_def)
  have t1: "tmr_inv s1 ts es" by (rule tmr_inv_cong [OF a(5)]) (simp_all add: f1)
  have al1: "alarms s1 ts es" by (rule alarms_cong [OF a(6)]) (simp_all add: f1)
  show ?thesis
  proof (cases "next_timer s1 \<le> realtime s1")
    case False
    obtain s2 where s2: "quantum s1 = Some s2" "kinv s2" "tmr_view s2 = tmr_view s1" "\<forall>n. prio s2 n = prio s1 n"
      using quantum_kinv [OF k1] by blast
    have "kernel_ok s1" by (rule kernel_okI [OF k1 h1 _ _ t1 al1]) (use a in \<open>auto simp: f1\<close>)
    then have "kernel_ok s2" by (rule kernel_ok_view [OF _ s2(2-4)])
    with False s2(1) show ?thesis by (simp add: do_clocktick_def s1_def)
  next
    case True
    have al: "\<forall>t. t \<in> set (es CLOCK) \<or> t \<in> set ts \<and> tmr_task (tmr s1 t) = CLOCK \<longrightarrow> alarm_ok s1 t"
      using al1 by (auto simp: alarms_def)
    have pre: "k_reenter s1 \<noteq> 0" "proc_ptr s1 = CLOCK" "flags s1 CLOCK = {}" using run by (simp_all add: f1)
    let ?ts = "dropWhile (\<lambda>t. exp_at s1 t \<le> realtime s1) ts"
    obtain s2 es' hs' where s2: "do_clocktick drv mess s1 = Some s2" "kinv s2" "tmr_inv s2 ?ts es'" "es' CLOCK = []"
      "\<forall>n. prio s2 n = prio s1 n" "held_ok s2 hs'" "set hs' \<subseteq> set hs \<union> (\<lambda>t. tmr_task (tmr s1 t)) ` set ts"
      "\<forall>t. tmr_task (tmr s2 t) = tmr_task (tmr s1 t)"
      "\<forall>t \<in> set ?ts. tmr_func (tmr s2 t) = tmr_func (tmr s1 t) \<and> tmr_arg (tmr s2 t) = tmr_arg (tmr s1 t)"
      using do_clocktick_spec [OF t1 h1 pre(1) k1 pre(2,3) al True, of drv mess]
      by (elim exE conjE) (rule that; assumption)
    have "alarms s2 ?ts es'"
      using al1 s2(4,5,8,9) unfolding alarms_def alarm_ok_def by (auto dest: set_dropWhileD)
    moreover have "istaskp (procs s2 t) \<and> isokprocn t" if "t \<in> set hs'" for t
    proof -
      from that s2(7) consider "t \<in> set hs" | u where "u \<in> set ts" "t = tmr_task (tmr s1 u)" by blast
      then show ?thesis
      proof cases
        case 1
        with a(4) s2(5) show ?thesis by (simp add: f1)
      next
        case 2
        then have "t = CLOCK" using al1 by (auto simp: alarms_def)
        with a(3) s2(5) show ?thesis by (simp add: f1 isokprocn_def)
      qed
    qed
    ultimately have "kernel_ok s2" using s2 a(3,7) by (intro kernel_okI [of s2 hs' ?ts es']) (auto simp: f1)
    with s2(1) show ?thesis by (simp add: s1_def)
  qed
qed

lemma kernel_ok_setalarm:
  assumes ok: "kernel_ok s" and p: "0 \<le> p" "p < NR_PROCS" "schedulable (prio s p)" "get_uptime s + delta \<noteq> TMR_NEVER"
  shows "\<exists>r s'. do_setalarm p delta CLOCK CAUSE_ALARM s = Some (r, s') \<and> kernel_ok s'"
proof (rule kernel_okE [OF ok])
  fix hs ts es
  assume a: "kinv s" "held_ok s hs" "prio s CLOCK = PPRI_TASK" "\<And>t. t \<in> set hs \<Longrightarrow> istaskp (procs s t) \<and> isokprocn t"
    "tmr_inv s ts es" "alarms s ts es" "\<And>t. isokprocn (tmr_task (tmr s t))"
  let ?tp = "nat p"
  define s1 where "s1 = upd_tmr ?tp (\<lambda>t. t\<lparr>tmr_arg := p\<rparr>) s"
  have e1: "exp_at s1 = exp_at s" "tmr_chain s1 = tmr_chain s" by (auto simp: s1_def upd_tmr_def exp_at_def fun_eq_iff)
  have f1: "tmr_task (tmr s1 t) = tmr_task (tmr s t)" "tmr_func (tmr s1 t) = tmr_func (tmr s t)"
    "tmr_arg (tmr s1 t) = (if t = ?tp then p else tmr_arg (tmr s t))" "procs s1 = procs s" "timers s1 = timers s"
    "next_timer s1 = next_timer s" for t
    by (simp_all add: s1_def upd_tmr_def)
  have t1: "tmr_inv s1 ts es" using a(5) unfolding tmr_inv_def e1 f1 by simp
  have fr1: "exp_frame s s1" by (cases s) (simp add: exp_frame_def s1_def upd_tmr_def)
  have two: "\<exists>s2. (if delta = 0 then tmr_clrtimer ?tp s else tmr_settimer ?tp CLOCK (get_uptime s + delta) CAUSE_ALARM s1) = Some s2
    \<and> exp_frame s s2 \<and> (\<exists>ts'. tmr_inv s2 ts' (\<lambda>p. remove1 ?tp (es p)) \<and> alarms s2 ts' (\<lambda>p. remove1 ?tp (es p)))
    \<and> (\<forall>t. isokprocn (tmr_task (tmr s2 t)))"
  proof (cases "delta = 0")
    case True
    obtain s2 where s2: "tmr_clrtimer ?tp s = Some s2" "tmr_inv s2 (remove1 ?tp ts) (\<lambda>p. remove1 ?tp (es p))"
      "\<forall>t. tmr_task (tmr s2 t) = tmr_task (tmr s t) \<and> tmr_func (tmr s2 t) = tmr_func (tmr s t)
         \<and> tmr_arg (tmr s2 t) = tmr_arg (tmr s t)"
      "\<forall>n. (procs s2 n)\<lparr>p_exptimers := None\<rparr> = (procs s n)\<lparr>p_exptimers := None\<rparr>"
      "s2\<lparr>procs := procs s, tmr := tmr s, timers := timers s\<rparr> = s"
      using tmr_clrtimer_spec [OF a(5,7)] by blast
    have fr: "exp_frame s s2" by (rule clrtimer_exp_frame [OF s2(4,5)])
    have "alarms s (remove1 ?tp ts) (\<lambda>p. remove1 ?tp (es p))"
      using a(6) set_remove1_subset unfolding alarms_def by fast
    then have "alarms s2 (remove1 ?tp ts) (\<lambda>p. remove1 ?tp (es p))"
      by (rule alarms_cong) (use s2(3) exp_frame_fields(2) [OF fr] in auto)
    with True s2 fr a(7) show ?thesis by auto
  next
    case False
    have okc: "isokprocn CLOCK" by (simp add: isokprocn_def)
    have okt: "isokprocn (tmr_task (tmr s1 ?tp))" using a(7) f1 by simp
    obtain s2 where s2: "tmr_settimer ?tp CLOCK (get_uptime s + delta) CAUSE_ALARM s1 = Some s2"
      "tmr_inv s2 (settimer_list (exp_at s1) (get_uptime s + delta) ?tp (remove1 ?tp ts)) (\<lambda>p. remove1 ?tp (es p))"
      "tmr_task (tmr s2 ?tp) = CLOCK" "tmr_func (tmr s2 ?tp) = CAUSE_ALARM"
      "\<forall>t. tmr_arg (tmr s2 t) = tmr_arg (tmr s1 t)"
      "\<forall>t. t \<noteq> ?tp \<longrightarrow> tmr_task (tmr s2 t) = tmr_task (tmr s1 t) \<and> tmr_func (tmr s2 t) = tmr_func (tmr s1 t)"
      "\<forall>n. (procs s2 n)\<lparr>p_exptimers := None\<rparr> = (procs s1 n)\<lparr>p_exptimers := None\<rparr>"
      "s2\<lparr>procs := procs s1, tmr := tmr s1, timers := timers s1, next_timer := next_timer s1\<rparr> = s1"
      using tmr_settimer_spec [OF t1 okt okc p(4), of CAUSE_ALARM] by (elim exE conjE) (rule that; assumption)
    have "s2\<lparr>procs := procs s, tmr := tmr s, timers := timers s, next_timer := next_timer s\<rparr> = s"
      using arg_cong [OF s2(8), of "\<lambda>x. x\<lparr>procs := procs s, tmr := tmr s, timers := timers s, next_timer := next_timer s\<rparr>"]
        fr1 by (simp add: exp_frame_def)
    with s2(7) f1(4) have fr: "exp_frame s s2" by (simp add: exp_frame_def)
    let ?ts = "settimer_list (exp_at s1) (get_uptime s + delta) ?tp (remove1 ?tp ts)"
    have mem: "t \<in> set ?ts \<Longrightarrow> t = ?tp \<or> t \<in> set ts" for t
      by (auto simp: settimer_list_def dest!: set_takeWhileD set_dropWhileD dest: notin_set_remove1)
    have "alarms s2 ?ts (\<lambda>p. remove1 ?tp (es p))"
      unfolding alarms_def
    proof (intro allI impI)
      fix t assume t: "t \<in> set ?ts \<or> t \<in> set (remove1 ?tp (es CLOCK))"
      show "tmr_task (tmr s2 t) = CLOCK \<and> alarm_ok s2 t \<and> tmr_arg (tmr s2 t) = int t"
      proof (cases "t = ?tp")
        case True
        then show ?thesis using s2(3-5) p(1-3) exp_frame_fields(2) [OF fr] by (simp add: alarm_ok_def f1)
      next
        case False
        then have "t \<in> set ts \<or> t \<in> set (es CLOCK)" using t mem set_remove1_subset by fast
        then have "tmr_task (tmr s t) = CLOCK \<and> alarm_ok s t \<and> tmr_arg (tmr s t) = int t"
          using a(6) unfolding alarms_def by blast
        then show ?thesis using False s2(5,6) exp_frame_fields(2) [OF fr] by (auto simp: alarm_ok_def f1)
      qed
    qed
    moreover have "isokprocn (tmr_task (tmr s2 t))" for t
      using s2(3,6) a(7) okc by (cases "t = ?tp") (simp_all add: f1)
    ultimately show ?thesis using False s2(1,2) fr by auto
  qed
  then obtain s2 ts' where s2: "(if delta = 0 then tmr_clrtimer ?tp s else tmr_settimer ?tp CLOCK (get_uptime s + delta) CAUSE_ALARM s1) = Some s2"
    "exp_frame s s2" "tmr_inv s2 ts' (\<lambda>p. remove1 ?tp (es p))" "alarms s2 ts' (\<lambda>p. remove1 ?tp (es p))"
    "\<And>t. isokprocn (tmr_task (tmr s2 t))" by blast
  have "kernel_ok s2"
    by (rule kernel_okI [OF exp_frame_kinv [OF a(1) s2(2)] exp_frame_held [OF a(2) s2(2)] _ _ s2(3,4,5)])
      (use a(3,4) exp_frame_fields(2) [OF s2(2)] in auto)
  moreover have "\<exists>r. do_setalarm p delta CLOCK CAUSE_ALARM s = Some (r, s2)"
    unfolding do_setalarm_def Let_def s1_def [symmetric] s2(1) using p(1,2) by simp
  ultimately show ?thesis by blast
qed

subsection \<open>Reachable states\<close>

text \<open>Every operation its callers may invoke returns, and keeps the invariant.\<close>

lemma kexec_ok:
  assumes ok: "kernel_ok s" and al: "kallowed op s"
  shows "\<exists>s'. kexec op s = Some s' \<and> kernel_ok s'"
proof -
  have k: "kinv s" using ok by (simp add: kernel_ok_def)
  show ?thesis
  proof (cases op)
    case (SysCall f d m)
    with al have f: "f = SEND \<or> f = RECEIVE \<or> f = BOTH" by (simp add: kallowed_def)
    obtain r s' where s': "sys_call f d m s = Some (r, s')" "kinv s'" "\<forall>n. prio s' n = prio s n"
      using sys_call_any [OF k _ _ _ _ f, of d m] al SysCall by (auto simp: kallowed_def)
    then show ?thesis using SysCall kernel_ok_view [OF ok s'(2) sys_call_view [OF s'(1)] s'(3)] by (simp add: kexec_def)
  next
    case (Interrupt t)
    with kernel_ok_interrupt [OF ok, of t] al show ?thesis by (simp add: kexec_def kallowed_def)
  next
    case (Unhold irqs)
    with kernel_ok_unhold [OF ok, of irqs] al show ?thesis by (simp add: kexec_def kallowed_def)
  next
    case (CauseSig p sg)
    with al have p: "0 \<le> p" "p < NR_PROCS" "schedulable (prio s p)" by (simp_all add: kallowed_def schedulable_def)
    obtain s' where s': "cause_sig p sg s = Some s'" "kinv s'" "\<forall>n. prio s' n = prio s n"
      using cause_sig_inv [OF k p] by blast
    then show ?thesis using CauseSig kernel_ok_view [OF ok s'(2) cause_sig_view [OF s'(1)] s'(3)] by (simp add: kexec_def)
  next
    case (EndSig p)
    obtain s' where s': "do_endsig p s = Some (OK, s')" "kinv s'" "\<forall>n. prio s' n = prio s n"
      using do_endsig_kinv [OF k, of p] al EndSig by (auto simp: kallowed_def)
    then show ?thesis using EndSig kernel_ok_view [OF ok s'(2) do_endsig_view [OF s'(1)] s'(3)] by (simp add: kexec_def)
  next
    case (Xit parent p)
    with kernel_ok_xit [OF ok, of parent p] al show ?thesis by (auto simp: kexec_def kallowed_def)
  next
    case (Fork p c pid)
    with kernel_ok_fork [OF ok, of p c pid] al show ?thesis by (auto simp: kexec_def)
  next
    case (NewMap c k ptr)
    obtain s' where s': "do_newmap c k ptr s = Some (OK, s')" "kinv s'" "\<forall>n. prio s' n = prio s n"
      using do_newmap_kinv [OF \<open>kinv s\<close>, of k c ptr] al NewMap by (auto simp: kallowed_def)
    then show ?thesis using NewMap kernel_ok_view [OF ok s'(2) do_newmap_view [OF s'(1)] s'(3)] by (simp add: kexec_def)
  next
    case (SetAlarm p delta)
    obtain r s' where "do_setalarm p delta CLOCK CAUSE_ALARM s = Some (r, s')" "kernel_ok s'"
      using kernel_ok_setalarm [OF ok, of p delta] al SetAlarm by (auto simp: kallowed_def)
    then show ?thesis using SetAlarm by (simp add: kexec_def)
  next
    case ClockTick
    with kernel_ok_clocktick [OF ok] al show ?thesis by (simp add: kexec_def kallowed_def)
  next
    case (SetLevel lv)
    have v: "tmr_view (s\<lparr>k_reenter := lv\<rparr>) = tmr_view s" by (simp add: tmr_view_def)
    have "kinv (s\<lparr>k_reenter := lv\<rparr>)" by (rule kinv_frame [OF k]) simp_all
    with SetLevel kernel_ok_view [OF ok _ v] show ?thesis by (simp add: kexec_def)
  qed
qed

inductive kreach :: "kstate \<Rightarrow> kstate \<Rightarrow> bool" for s0 where
  kreach_boot: "kreach s0 s0"
| kreach_step: "kreach s0 s \<Longrightarrow> kallowed op s \<Longrightarrow> kexec op s = Some s' \<Longrightarrow> kreach s0 s'"

inductive_cases kreach_cases: "kreach s0 s"

lemma kreach_ok: "kreach s0 s \<Longrightarrow> kernel_ok s0 \<Longrightarrow> kernel_ok s"
proof (induction rule: kreach.induct)
  case kreach_boot
  then show ?case by simp
next
  case (kreach_step s op s')
  with kexec_ok [of s op] show ?case by auto
qed

text \<open>Nothing in \<^verbatim>\<open>main()\<close> touches the timers or the held interrupts.\<close>

lemma tmr_view_bill [simp]: "tmr_view (s\<lparr>bill_ptr := b\<rparr>) = tmr_view s"
  by (simp add: tmr_view_def)

lemma boot_slot_view: "boot_slot hdr tab t st = Some st' \<Longrightarrow> tmr_view (snd st') = tmr_view (snd st)"
proof -
  assume a: "boot_slot hdr tab t st = Some st'"
  have f: "tmr_view (snd (boot_fill hdr tab t st)) = tmr_view (snd st)"
    by (cases st) (simp add: boot_fill_def Let_def, simp add: tmr_view_def upd_proc_def fun_eq_iff)
  from a show ?thesis
    by (auto simp: boot_slot_def case_prod_beta bind_eq_Some_conv alloc_segments_def Let_def f
        split: if_splits dest!: lock_ready_view)
qed

lemma boot_slots_view: "boot_slots hdr tab ts st = Some st' \<Longrightarrow> tmr_view (snd st') = tmr_view (snd st)"
  by (induction ts arbitrary: st) (auto simp: bind_eq_Some_conv dest!: boot_slot_view)

lemma boot_main_view: "boot_main hdr tab t_stack s = Some s' \<Longrightarrow> tmr_view s' = tmr_view s"
  unfolding boot_main_def Let_def by (auto simp: bind_eq_Some_conv lock_view simp del: boot_slots.simps upto_rec_numeral
      dest!: boot_slots_view)

lemma boot_main_ok:
  assumes tab: "guarded_tab tab"
    and m: "sysm + 35 \<ge> sysm" "drop_bit CLICK_SHIFT (sysm + 35) < to_clicks (a_total (hdr 0))"
  shows "\<exists>s. boot_main hdr tab t_stack (bss mm base sysm chunks total_mem) = Some s \<and> kernel_ok s"
proof -
  let ?s0 = "bss mm base sysm chunks total_mem"
  obtain s where s: "boot_main hdr tab t_stack ?s0 = Some s" "kinv s"
    "\<forall>n. prio s n = (if n = IDLE then PPRI_IDLE else if n \<notin> {- NR_TASKS..INIT_PROC_NR} then PPRI_NONE
           else if n < 0 then PPRI_TASK else if n < INIT_PROC_NR then PPRI_SERVER else PPRI_USER)"
    using boot_main_kinv [where hdr = hdr, OF tab m] by blast
  note v = boot_main_view [OF s(1)]
  have "held_ok ?s0 []" by (simp add: held_ok_def bss_def zero_proc_def)
  then have h: "held_ok s []" using v by (rule tmr_view_held)
  have "tmr_inv ?s0 [] (\<lambda>_. [])" by (simp add: tmr_inv_def bss_def zero_proc_def)
  then have t: "tmr_inv s [] (\<lambda>_. [])" using v by (rule tmr_view_inv)
  have tm: "tmr s = tmr ?s0" using v by (simp add: tmr_view_def)
  have "kernel_ok s"
    by (rule kernel_okI [OF s(2) h _ _ t])
      (use s(3) in \<open>auto simp: alarms_def tm bss_def isokprocn_def\<close>)
  with s(1) show ?thesis by blast
qed

end
