(* ===== verification/Kernel_Copy.thy ===== *)
theory Kernel_Copy
  imports Kernel_Run
begin

text \<open>
  What the kernel's copies do to memory, byte for byte: messages, memory maps, signal frames, and the
  address translation all of them go through.
\<close>

subsection \<open>Regions\<close>

text \<open>The regions of \<open>n\<close> bytes at \<open>a\<close> and of \<open>k\<close> bytes at \<open>b\<close> do not meet.\<close>

definition disjoint_regions :: "u32 \<Rightarrow> nat \<Rightarrow> u32 \<Rightarrow> nat \<Rightarrow> bool" where
  "disjoint_regions a n b k \<longleftrightarrow> (\<forall>i < n. \<forall>j < k. a + of_nat i \<noteq> b + of_nat j)"

lemma disjoint_regions_sym: "disjoint_regions a n b k \<longleftrightarrow> disjoint_regions b k a n"
  unfolding disjoint_regions_def by metis

lemma put32_get32_other:
  assumes "disjoint_regions a 4 b 4"
  shows "get32 (put32 m b v) a = get32 m a"
proof -
  have o: "put32 m b v (a + of_nat i) = m (a + of_nat i)" if "i < 4" for i
  proof (rule put32_outside)
    have d: "a + of_nat i \<noteq> b + of_nat j" if "j < 4" for j
      using assms \<open>i < 4\<close> that unfolding disjoint_regions_def by blast
    show "a + of_nat i \<noteq> b" "a + of_nat i \<noteq> b + 1" "a + of_nat i \<noteq> b + 2" "a + of_nat i \<noteq> b + 3"
      using d [of 0] d [of 1] d [of 2] d [of 3] by simp_all
  qed
  from o [of 0] o [of 1] o [of 2] o [of 3] show ?thesis by (simp add: get32_def)
qed

text \<open>Words written one after the other are read back, and what lies elsewhere is kept.\<close>

lemma write_words_outside:
  "(\<forall>j < 4 * length ws. x \<noteq> a + of_nat j) \<Longrightarrow> write_words a ws m x = m x"
proof (induction ws arbitrary: a m)
  case Nil
  then show ?case by simp
next
  case (Cons w ws)
  have n: "x \<noteq> a + of_nat j" if "j < 4" for j using Cons.prems that by simp
  have "x \<noteq> (a + 4) + of_nat j" if "j < 4 * length ws" for j
  proof -
    have "x \<noteq> a + of_nat (4 + j)" using Cons.prems that by (simp del: of_nat_add)
    then show ?thesis by (simp add: add.assoc)
  qed
  then have "write_words (a + 4) ws (put32 m a w) x = put32 m a w x" by (intro Cons.IH) simp
  also have "\<dots> = m x"
    by (rule put32_outside) (use n [of 0] n [of 1] n [of 2] n [of 3] in simp_all)
  finally show ?case by simp
qed

lemma get32_cong: "(\<And>i. i < 4 \<Longrightarrow> m (a + of_nat i) = m' (a + of_nat i)) \<Longrightarrow> get32 m a = get32 m' a"
proof -
  assume h: "\<And>i. i < 4 \<Longrightarrow> m (a + of_nat i) = m' (a + of_nat i)"
  from h [of 0] h [of 1] h [of 2] h [of 3] show ?thesis by (simp add: get32_def)
qed

lemma read_words_cong:
  "(\<forall>i < 4 * n. m (a + of_nat i) = m' (a + of_nat i)) \<Longrightarrow> read_words a n m = read_words a n m'"
proof (induction n arbitrary: a)
  case 0
  then show ?case by simp
next
  case (Suc n)
  have "get32 m a = get32 m' a" by (rule get32_cong) (use Suc.prems in simp)
  moreover have "read_words (a + 4) n m = read_words (a + 4) n m'"
  proof (rule Suc.IH, intro allI impI)
    fix i assume "i < 4 * n"
    then have "m (a + of_nat (4 + i)) = m' (a + of_nat (4 + i))" using Suc.prems by (simp del: of_nat_add)
    then show "m (a + 4 + of_nat i) = m' (a + 4 + of_nat i)" by (simp add: add.assoc)
  qed
  ultimately show ?case by simp
qed

lemma word_offset_neq:
  "i < 4 \<Longrightarrow> j < 4 * n \<Longrightarrow> n < 2 ^ 29 \<Longrightarrow> (a :: u32) + of_nat i \<noteq> a + 4 + of_nat j"
proof
  assume a: "i < 4" "j < 4 * n" "n < 2 ^ 29" and e: "a + of_nat i = a + 4 + of_nat j"
  from e have "(of_nat i :: u32) = of_nat (4 + j)" by (simp add: add.assoc)
  then have "i = 4 + j" using of_nat32_eq [of i "4 + j"] a by simp
  with a show False by simp
qed

lemma read_write_words:
  "length ws < 2 ^ 29 \<Longrightarrow> read_words a (length ws) (write_words a ws m) = ws"
proof (induction ws arbitrary: a m)
  case Nil
  then show ?case by simp
next
  case (Cons w ws)
  have "get32 (write_words (a + 4) ws (put32 m a w)) a = get32 (put32 m a w) a"
  proof (rule get32_cong)
    fix i :: nat assume "i < 4"
    then show "write_words (a + 4) ws (put32 m a w) (a + of_nat i) = put32 m a w (a + of_nat i)"
      using Cons.prems word_offset_neq by (intro write_words_outside) auto
  qed
  with Cons show ?case by simp
qed

lemma read_write_words_other:
  assumes "disjoint_regions a (4 * n) b (4 * length ws)"
  shows "read_words a n (write_words b ws m) = read_words a n m"
  by (rule read_words_cong) (use assms write_words_outside in \<open>auto simp: disjoint_regions_def\<close>)

lemma length_read_words [simp]: "length (read_words a n m) = n"
  by (induction n arbitrary: a) simp_all

subsection \<open>Messages\<close>

text \<open>A message arrives with the number of its sender in the first word and the other 32 bytes as
  they were; no byte outside the receiver's buffer changes.\<close>

lemma cp_mess_spec:
  assumes "mess_disjoint si di" and si: "si = push_bit CLICK_SHIFT sc + so" and di: "di = push_bit CLICK_SHIFT dc + do'"
  shows "get32 (cp_mess p sc so dc do' m) di = word_of_int p"
    and "\<And>k. 4 \<le> k \<Longrightarrow> k < 36 \<Longrightarrow> cp_mess p sc so dc do' m (di + of_nat k) = m (si + of_nat k)"
    and "\<And>a. (\<forall>j < 36. a \<noteq> di + of_nat j) \<Longrightarrow> cp_mess p sc so dc do' m a = m a"
proof -
  let ?m0 = "put32 m di (word_of_int p)"
  have e: "cp_mess p sc so dc do' m
      = fold (\<lambda>i. movs32 (si + 4 + 4 * of_nat i) (di + 4 + 4 * of_nat i)) [0..<8] ?m0"
    by (simp add: cp_mess_def si di Let_def)
  have in_buf: "cp_mess p sc so dc do' m (di + of_nat k) = (if 4 \<le> k then ?m0 (si + of_nat k) else ?m0 (di + of_nat k))"
    if "k < 36" for k
    using cp_fold [OF assms(1), of 8 k ?m0] that unfolding e by simp
  have out: "cp_mess p sc so dc do' m a = ?m0 a" if "\<forall>j < 36. a \<noteq> di + of_nat j" for a
    using cp_fold [OF assms(1), of 8 0 ?m0] that unfolding e by simp
  have keep: "?m0 a = m a" if "\<forall>j < 4. a \<noteq> di + of_nat j" for a
  proof (rule put32_outside)
    have n: "a \<noteq> di + of_nat j" if "j < 4" for j using \<open>\<forall>j < 4. a \<noteq> di + of_nat j\<close> that by blast
    show "a \<noteq> di" "a \<noteq> di + 1" "a \<noteq> di + 2" "a \<noteq> di + 3"
      using n [of 0] n [of 1] n [of 2] n [of 3] by simp_all
  qed
  have "get32 (cp_mess p sc so dc do' m) di = get32 ?m0 di"
    by (rule get32_cong) (simp add: in_buf)
  then show "get32 (cp_mess p sc so dc do' m) di = word_of_int p" by simp
  show "cp_mess p sc so dc do' m (di + of_nat k) = m (si + of_nat k)" if "4 \<le> k" "k < 36" for k
  proof -
    have "si + of_nat k \<noteq> di + of_nat j" if "j < 4" for j
      using assms(1) \<open>k < 36\<close> that unfolding mess_disjoint_def by force
    then show ?thesis using in_buf [OF that(2)] that(1) keep by simp
  qed
  show "cp_mess p sc so dc do' m a = m a" if "\<forall>j < 36. a \<noteq> di + of_nat j" for a
    using out [OF that] keep [of a] that by simp
qed

subsection \<open>Memory maps\<close>

lemma words_map_words [simp]: "words_map (map_words mp) g = mp g"
  by (cases g) (simp_all add: words_map_def map_words_def)

lemma length_map_words [simp]: "length (map_words mp) = 9"
  by (simp add: map_words_def)

subsection \<open>Registers in a signal frame\<close>

text \<open>The segment registers are kept in 16 bits; the others come back as they were.\<close>

lemma words_reg_words:
  "words_reg (reg_words r) x = (if x \<in> {R_gs, R_fs, R_es, R_ds} then take_bit 16 (r x) else r x)"
proof -
  have "take_bit 16 (push_bit 16 b) = 0" "drop_bit 16 (take_bit 16 b) = 0"
    "drop_bit 16 (push_bit 16 b) = take_bit 16 b" for b :: u32
    by (rule bit_word_eqI; auto simp: bit_take_bit_iff bit_push_bit_iff bit_drop_bit_eq)+
  then show ?thesis by (cases x) (simp_all add: words_reg_def reg_words_def)
qed

lemma length_reg_words [simp]: "length (reg_words r) = 16"
  by (simp add: reg_words_def)

subsection \<open>Address translation\<close>

text \<open>The segment a nonempty range of the data segment is looked up in.\<close>

definition umap_seg :: "proc \<Rightarrow> seg \<Rightarrow> u32 \<Rightarrow> u32 \<Rightarrow> seg" where
  "umap_seg rp g vir n = (if g = SegT then SegT
     else if drop_bit CLICK_SHIFT (vir + n - 1) < mem_vir (p_map rp SegD) + mem_len (p_map rp SegD) then SegD else SegS)"

lemma umap_eq:
  "umap rp g vir n = (if n = 0 \<or> drop_bit CLICK_SHIFT vir \<ge> mem_vir (p_map rp (umap_seg rp g vir n)) + mem_len (p_map rp (umap_seg rp g vir n))
     then 0 else push_bit CLICK_SHIFT (mem_phys (p_map rp (umap_seg rp g vir n)))
       + (vir - push_bit CLICK_SHIFT (mem_vir (p_map rp (umap_seg rp g vir n)))))"
  by (simp add: umap_def umap_seg_def Let_def)

end
