(* ===== verification/Kernel_Example.thy ===== *)
theory Kernel_Example
  imports Kernel_Copy
begin

text \<open>
  A small system to evaluate the properties of the kernel on: every task and server waits for a
  message of anyone, INIT (process 2) runs.  The data of each process is at its own place in
  memory.
\<close>

definition idle_map :: "int \<Rightarrow> seg \<Rightarrow> mem_map" where
  "idle_map n = (\<lambda>g. \<lparr>mem_vir = 0, mem_phys = (if n < 0 then 0 else 100 + 10 * word_of_int n),
                    mem_len = (if g = SegT then 0 else if n < 0 then 100 else 10)\<rparr>)"

definition idle_proc :: "int \<Rightarrow> proc" where
  "idle_proc n = zero_proc\<lparr>p_map := idle_map n,
     p_priority := (if n = IDLE then PPRI_IDLE else if n < - NR_TASKS \<or> INIT_PROC_NR < n then PPRI_NONE
        else if n < 0 then PPRI_TASK else if n < INIT_PROC_NR then PPRI_SERVER else PPRI_USER),
     p_flags := (if n \<in> {- NR_TASKS..FS_PROC_NR} - {IDLE, HARDWARE} then {RECEIVING} else {}),
     p_getfrom := ANY, p_messbuf := 512, p_stguard := STACK_GUARD\<rparr>"

definition idle_system :: kstate where
  "idle_system = (bss (\<lambda>_. 0) 0 256 [(2, 10), (200, 50)] 60)\<lparr>procs := idle_proc,
     proc_ptr := INIT_PROC_NR, bill_ptr := INIT_PROC_NR,
     rdy_head := (\<lambda>_. None)(USER_Q := Some INIT_PROC_NR), rdy_tail := (\<lambda>_. None)(USER_Q := Some INIT_PROC_NR)\<rparr>"

lemma idle_proc_fields [simp]:
  "p_flags (idle_proc n) = (if n \<in> {- NR_TASKS..FS_PROC_NR} - {IDLE, HARDWARE} then {RECEIVING} else {})"
  "p_priority (idle_proc n) = (if n = IDLE then PPRI_IDLE else if n < - NR_TASKS \<or> INIT_PROC_NR < n then PPRI_NONE
        else if n < 0 then PPRI_TASK else if n < INIT_PROC_NR then PPRI_SERVER else PPRI_USER)"
  "p_getfrom (idle_proc n) = ANY" "p_messbuf (idle_proc n) = 512" "p_stguard (idle_proc n) = STACK_GUARD"
  "p_callerq (idle_proc n) = None" "p_nextready (idle_proc n) = None" "p_sendlink (idle_proc n) = None"
  "p_nextheld (idle_proc n) = None" "\<not> p_int_held (idle_proc n)" "\<not> p_int_blocked (idle_proc n)"
  "p_exptimers (idle_proc n) = None" "p_map (idle_proc n) = idle_map n" "p_pending (idle_proc n) = 0"
  "p_pendcount (idle_proc n) = 0"
  by (simp_all add: idle_proc_def zero_proc_def)

lemma idle_system_fields [simp]:
  "procs idle_system = idle_proc" "proc_ptr idle_system = INIT_PROC_NR" "bill_ptr idle_system = INIT_PROC_NR"
  "rdy_head idle_system = (\<lambda>_. None)(USER_Q := Some INIT_PROC_NR)"
  "rdy_tail idle_system = (\<lambda>_. None)(USER_Q := Some INIT_PROC_NR)"
  "held_head idle_system = None" "held_tail idle_system = None" "k_reenter idle_system = 0"
  "\<not> switching idle_system" "sig_procs idle_system = 0" "timers idle_system = None"
  "tmr idle_system t = \<lparr>tmr_next = None, tmr_task = 0, tmr_exp_time = 0, tmr_func = DRIVER_FUNC 0, tmr_arg = 0\<rparr>"
  "realtime idle_system = 0" "next_timer idle_system = 0" "pending_ticks idle_system = 0"
  "kmem idle_system = (\<lambda>_. 0)" "data_base idle_system = 0" "sys_m idle_system = 256"
  "mem idle_system = [(2, 10), (200, 50)]"
  by (simp_all add: idle_system_def bss_def)

text \<open>The running process alone is in the ready queues.\<close>

definition idle_rq :: "rdyq \<Rightarrow> int list" where
  "idle_rq q = (if q = USER_Q then [INIT_PROC_NR] else [])"

lemma idle_rq_ok: "rq_ok idle_system idle_rq"
  by (auto simp: rq_ok_def idle_rq_def class_of_def chain_Some)

lemma idle_queued: "rqs.queued idle_rq = runnable idle_system"
proof -
  have "{p. p = 2} = runnable idle_system"
    unfolding runnable_def by (rule Collect_cong) (auto simp: schedulable_def isokprocn_def split: if_splits)
  then show ?thesis by (auto simp: rqs.queued_def idle_rq_def split: if_splits)
qed

lemma idle_held: "held_ok idle_system []"
  by (simp add: held_ok_def)

lemma idle_tmr: "tmr_inv idle_system [] (\<lambda>_. [])"
  by (simp add: tmr_inv_def)

lemma idle_waits: "waits idle_system = {}"
  by (auto simp: waits_def)

lemma idle_senders: "senders idle_system d = {}"
  by (auto simp: senders_def)

lemma idle_cq: "cq_ok idle_system (\<lambda>_. [])"
  by (simp add: cq_ok_def idle_senders)

lemma idle_kinv: "kinv idle_system"
proof -
  have "sched_inv idle_system" using idle_rq_ok idle_queued by (auto simp: sched_inv_def)
  moreover have "queue_inv idle_system" using idle_cq by (auto simp: queue_inv_def)
  moreover have "acyclic (waits idle_system)" by (simp add: idle_waits acyclic_def)
  moreover have "mess_in_range (idle_proc HARDWARE) 256"
    by (simp add: mess_in_range_def idle_map_def)
  then have "sys_inv idle_system"
    by (auto simp: sys_inv_def guard_ok_def schedulable_def)
  moreover have "mm_inv idle_system" by (simp add: mm_inv_def)
  moreover have "PENDING \<notin> flags idle_system p" for p by simp
  then have "sig_inv idle_system" by (simp add: sig_inv_def del: idle_proc_fields)
  ultimately show ?thesis by (simp add: kinv_def table_inv_def)
qed

lemma idle_ok: "kernel_ok idle_system"
  by (rule kernel_okI [OF idle_kinv idle_held _ _ idle_tmr]) (auto simp: alarms_def isokprocn_def)

end
