(* ===== verification/Kernel_Theorems.thy ===== *)
theory Kernel_Theorems
  imports Kernel_Example
begin

text \<open>
  The properties of the kernel's core: the process table and the ready queues, messages, deadlock,
  interrupts.  Each is followed by an instance on \<open>idle_system\<close>.
\<close>

subsection \<open>The system never gets stuck\<close>



subsection \<open>Messages\<close>

text \<open>C2: \<^verbatim>\<open>mini_send()\<close> answers \<open>ELOCKED\<close> exactly when the destination already
  waits, through a chain of blocked senders of any length, for the caller: no deadlock among
  senders can form and no legal send is refused.\<close>

theorem send_refused_iff_deadlock:
  assumes "kinv s" "isokprocn dest" "dest \<noteq> caller" "schedulable (prio s dest)"
    and "isuserp (procs s caller) \<longrightarrow> issysentn dest" "mess_in_range (procs s caller) m"
    and "isokprocn caller" "caller \<noteq> HARDWARE" "schedulable (prio s caller)" "flags s caller = {}"
  shows "\<exists>r s'. mini_send caller dest m s = Some (r, s')
    \<and> (if (dest, caller) \<in> (waits s)\<^sup>+ then r = ELOCKED \<and> s' = s else r = OK \<and> acyclic (waits s'))"
proof -
  have t: "table_inv s" using assms(1) by (simp add: kinv_def)
  obtain r s' where s': "mini_send caller dest m s = Some (r, s')" "kinv s'"
    using mini_send_inv [OF assms(1,7,9), of dest m] assms by auto
  have rt: "(dest, caller) \<in> (waits s)\<^sup>* \<longleftrightarrow> (dest, caller) \<in> (waits s)\<^sup>+" using assms(3) by (simp add: rtrancl_eq_or_trancl)
  have ac: "acyclic (waits s')" using s'(2) by (simp add: kinv_def table_inv_def)
  have "\<not> isemptyp (procs s dest)" using assms(4) by (auto simp: schedulable_def)
  then have "if (dest, caller) \<in> (waits s)\<^sup>+ then r = ELOCKED \<and> s' = s else r = OK"
    using mini_send_cases [OF t assms(2,3), of m] s'(1) assms(5,6) rt
    by (auto simp: map_option_case split: if_splits option.splits)
  then show ?thesis using s'(1) ac by auto
qed

lemma send_refused_iff_deadlock_witness:
  "\<exists>r s'. mini_send 2 FS_PROC_NR 0 idle_system = Some (r, s') \<and> r = OK \<and> acyclic (waits s')"
  using send_refused_iff_deadlock [OF idle_kinv, of FS_PROC_NR 2 0]
  by (simp add: isokprocn_def schedulable_def issysentn_def mess_in_range_def idle_map_def idle_waits)

text \<open>C6: A message sent to a process that waits for it is delivered at once: the receiver is no
  longer waiting, its buffer holds the sender's number and the 32 bytes of the message, no other
  byte of memory changes, and the sender is not blocked.\<close>

theorem send_delivers:
  assumes "kinv s" "isokprocn dest" "dest \<noteq> caller"
    and "RECEIVING \<in> flags s dest" "SENDING \<notin> flags s dest" "p_getfrom (procs s dest) \<in> {ANY, caller}"
    and "isuserp (procs s caller) \<longrightarrow> issysentn dest" "\<not> isemptyp (procs s dest)"
    and "mess_in_range (procs s caller) m"
    and "si = push_bit CLICK_SHIFT (mem_phys (p_map (procs s caller) SegD)) + m"
    and "di = push_bit CLICK_SHIFT (mem_phys (p_map (procs s dest) SegD)) + p_messbuf (procs s dest)"
    and "mess_disjoint si di"
  shows "\<exists>s'. mini_send caller dest m s = Some (OK, s')
    \<and> (\<forall>n. flags s' n = (if n = dest then flags s n - {RECEIVING} else flags s n))
    \<and> get32 (kmem s') di = word_of_int caller
    \<and> (\<forall>k. 4 \<le> k \<and> k < 36 \<longrightarrow> kmem s' (di + of_nat k) = kmem s (si + of_nat k))
    \<and> (\<forall>a. (\<forall>j < 36. a \<noteq> di + of_nat j) \<longrightarrow> kmem s' a = kmem s a)"
proof -
  have t: "table_inv s" using assms(1) by (simp add: kinv_def)
  obtain s' where s': "send_deliver caller dest m s = Some s'"
    "\<forall>n. flags s' n = (if n = dest then flags s n - {RECEIVING} else flags s n)"
    "kmem s' = cp_mess caller (mem_phys (p_map (procs s caller) SegD)) m
          (mem_phys (p_map (procs s dest) SegD)) (p_messbuf (procs s dest)) (kmem s)"
    using send_deliver_inv [OF t assms(2,4,5), of caller m] by blast
  have "mini_send caller dest m s = Some (OK, s')"
    using mini_send_cases [OF t assms(2,3), of m] not_waiting [OF assms(5,3)] assms(4-9) s'(1) by auto
  then show ?thesis using s' cp_mess_spec [OF assms(12,10,11)] by auto
qed

lemma example_disjoint: "mess_disjoint 122944 113152"
  unfolding mess_disjoint_def
proof (intro allI impI)
  fix i j :: nat
  assume "i < 36" "j < 36"
  then have "122944 + i \<noteq> 113152 + j" "122944 + i < 2 ^ 32" "113152 + j < 2 ^ 32" by simp_all
  then show "(122944 :: u32) + of_nat i \<noteq> 113152 + of_nat j"
    using of_nat32_eq [of "122944 + i" "113152 + j"] by simp
qed

lemma send_delivers_witness:
  "\<exists>s'. mini_send 2 FS_PROC_NR 64 idle_system = Some (OK, s') \<and> get32 (kmem s') 113152 = 2"
    using send_delivers [OF idle_kinv, of FS_PROC_NR 2 64 122944 113152]
    example_disjoint by (auto simp: isokprocn_def issysentn_def mess_in_range_def idle_map_def)

text \<open>C7: Otherwise, when no deadlock closes, the sender blocks and joins the end of the
  destination's queue: the senders waiting for each process are a list of which the order of the
  calls is the order.\<close>

theorem send_queues_fifo:
  assumes "kinv s" "cq_ok s cq" "isokprocn dest" "dest \<noteq> caller" "\<not> isemptyp (procs s dest)"
    and "isokprocn caller" "caller \<noteq> HARDWARE" "schedulable (prio s caller)" "flags s caller = {}"
    and "isuserp (procs s caller) \<longrightarrow> issysentn dest" "mess_in_range (procs s caller) m"
    and "(dest, caller) \<notin> (waits s)\<^sup>*"
    and "\<not> (RECEIVING \<in> flags s dest \<and> SENDING \<notin> flags s dest \<and> p_getfrom (procs s dest) \<in> {ANY, caller})"
  shows "\<exists>s'. mini_send caller dest m s = Some (OK, s') \<and> cq_ok s' (cq(dest := cq dest @ [caller]))
    \<and> flags s' caller = {SENDING} \<and> caller \<notin> runnable s' \<and> p_messbuf (procs s' caller) = m
    \<and> (\<forall>n. n \<noteq> caller \<longrightarrow> flags s' n = flags s n) \<and> kmem s' = kmem s"
proof -
  have t: "table_inv s" using assms(1) by (simp add: kinv_def)
  have f: "SENDING \<notin> flags s caller" "RECEIVING \<notin> flags s caller" using assms(9) by auto
  obtain s' where s': "send_queue caller dest m s = Some s'" "\<forall>n. flags s' n = (if n = caller then insert SENDING (flags s n) else flags s n)"
      "kmem s' = kmem s" "p_messbuf (procs s' caller) = m"
      "\<forall>cq. cq_ok s cq \<longrightarrow> cq_ok s' (cq(dest := cq dest @ [caller]))"
    using send_queue_inv [OF t assms(6-8) f assms(3,12), of m] by blast
  have "mini_send caller dest m s = Some (OK, s')"
    using mini_send_cases [OF t assms(3,4), of m] assms s'(1) by auto
  then show ?thesis using s' assms(2,9) by (auto simp: runnable_def)
qed

text \<open>The idle system with the file system waiting for the clock task only.\<close>

definition busy_system :: kstate where
  "busy_system = upd_proc FS_PROC_NR (\<lambda>p. p\<lparr>p_getfrom := CLOCK\<rparr>) idle_system"

lemma busy_fields [simp]:
  "flags busy_system n = flags idle_system n" "prio busy_system n = prio idle_system n"
  "p_map (procs busy_system n) = idle_map n" "p_callerq (procs busy_system n) = None"
  "p_getfrom (procs busy_system n) = (if n = FS_PROC_NR then CLOCK else ANY)"
  "kmem busy_system = kmem idle_system"
  by (simp_all add: busy_system_def upd_proc_def)

lemma busy_kinv: "kinv busy_system"
proof -
  have k: "kinv idle_system" by (rule idle_kinv)
  have "sched_inv busy_system"
    by (rule sched_inv_cong [of idle_system]) (use k in \<open>auto simp: kinv_def table_inv_def busy_system_def upd_proc_def\<close>)
  moreover have "queue_inv busy_system"
    by (rule queue_inv_cong [of idle_system]) (use k in \<open>auto simp: kinv_def table_inv_def busy_system_def upd_proc_def\<close>)
  moreover have "waits busy_system = {}" by (auto simp: waits_def)
  moreover have "sys_inv busy_system"
    by (rule sys_inv_cong [of idle_system]) (use k in \<open>auto simp: kinv_def table_inv_def busy_system_def upd_proc_def sys_inv_def\<close>)
  moreover have "mm_inv busy_system" by (simp add: mm_inv_def)
  moreover have "sig_inv busy_system"
    by (rule sig_inv_cong [of idle_system]) (use k in \<open>auto simp: kinv_def busy_system_def upd_proc_def split: if_splits\<close>)
  ultimately show ?thesis by (simp add: kinv_def table_inv_def acyclic_def)
qed

lemma busy_cq: "cq_ok busy_system (\<lambda>_. [])"
  by (simp add: cq_ok_def senders_def)

lemma send_queues_fifo_witness:
  "\<exists>s'. mini_send INIT_PROC_NR FS_PROC_NR 0 busy_system = Some (OK, s') \<and> cq_ok s' ((\<lambda>_. [])(FS_PROC_NR := [INIT_PROC_NR]))"
proof -
  have "waits busy_system = {}" by (auto simp: waits_def)
  then show ?thesis
    using send_queues_fifo [OF busy_kinv busy_cq, of FS_PROC_NR INIT_PROC_NR 0]
    by (auto simp: isokprocn_def issysentn_def mess_in_range_def idle_map_def schedulable_def)
qed

text \<open>C4: \<^verbatim>\<open>mini_rec()\<close> takes the message of the first process in the queue that the receiver
  accepts, however far down it is: that process alone leaves the queue and is no longer sending,
  the order of the others is kept, and its message is delivered byte for byte.\<close>

theorem receive_takes_first:
  assumes "kinv s" "cq_ok s cq" "isokprocn rcv" "SENDING \<notin> flags s rcv"
    and "cq rcv = us @ c # vs" "\<forall>x \<in> set us. src \<noteq> ANY \<and> src \<noteq> x" "src \<in> {ANY, c}"
    and "si = push_bit CLICK_SHIFT (mem_phys (p_map (procs s c) SegD)) + p_messbuf (procs s c)"
    and "di = push_bit CLICK_SHIFT (mem_phys (p_map (procs s rcv) SegD)) + m"
    and "mess_disjoint si di"
  shows "\<exists>s'. mini_rec rcv src m s = Some (OK, s') \<and> cq_ok s' (cq(rcv := us @ vs))
    \<and> (\<forall>n. flags s' n = (if n = c then flags s n - {SENDING} else flags s n))
    \<and> get32 (kmem s') di = word_of_int c
    \<and> (\<forall>k. 4 \<le> k \<and> k < 36 \<longrightarrow> kmem s' (di + of_nat k) = kmem s (si + of_nat k))
    \<and> (\<forall>a. (\<forall>j < 36. a \<noteq> di + of_nat j) \<longrightarrow> kmem s' a = kmem s a)"
proof -
  let ?P = "\<lambda>c. src \<noteq> ANY \<and> src \<noteq> c"
  have t: "table_inv s" using assms(1) by (simp add: kinv_def)
  have tw: "takeWhile ?P (cq rcv) = us" "dropWhile ?P (cq rcv) = c # vs"
    using assms(6,7) by (auto simp: assms(5) takeWhile_append2 dropWhile_append2)
  have f: "(case p_callerq (procs s rcv) of None \<Rightarrow> Some None | Some q \<Rightarrow> find_sender (sendlink s) src None q)
        = Some (Some (if us = [] then None else Some (last us), c))"
    by (simp add: find_sender_scan [OF assms(2,3)] tw Let_def)
  obtain s' where s': "rec_accept rcv m (if us = [] then None else Some (last us)) c s = Some (OK, s')"
    "cq_ok s' (cq(rcv := us @ vs))" "\<forall>n. flags s' n = (if n = c then flags s n - {SENDING} else flags s n)"
    "kmem s' = cp_mess c (mem_phys (p_map (procs s c) SegD)) (p_messbuf (procs s c))
          (mem_phys (p_map (procs s rcv) SegD)) m (kmem s)"
    using rec_accept_inv [OF t assms(2,3,5) refl, of m] by blast
  have "mini_rec rcv src m s = Some (OK, s')"
    by (simp only: mini_rec_def f assms(4) not_False_eq_True if_True Option.bind.bind_lunit
        option.case prod.case s'(1))
  then show ?thesis using s' cp_mess_spec [OF assms(10,8,9)] by auto
qed

text \<open>A system in which INIT has sent to the file system, which was not waiting for it.\<close>

definition sent_system :: kstate where
  "sent_system = snd (the (mini_send INIT_PROC_NR FS_PROC_NR 64 busy_system))"

lemma sent_system_facts:
  "kinv sent_system" "cq_ok sent_system ((\<lambda>_. [])(FS_PROC_NR := [INIT_PROC_NR]))"
  "\<And>n. flags sent_system n = (if n = INIT_PROC_NR then {SENDING} else flags busy_system n)"
  "p_messbuf (procs sent_system INIT_PROC_NR) = 64"
  "\<And>n. p_map (procs sent_system n) = idle_map n"
proof -
  have t: "table_inv busy_system" using busy_kinv by (simp add: kinv_def)
  have w: "waits busy_system = {}" by (auto simp: waits_def)
  obtain s' where s': "mini_send INIT_PROC_NR FS_PROC_NR 64 busy_system = Some s'" "kinv (snd s')"
    using mini_send_inv [OF busy_kinv, of INIT_PROC_NR FS_PROC_NR 64]
    by (auto simp: isokprocn_def schedulable_def)
  have s2: "mini_send INIT_PROC_NR FS_PROC_NR 64 busy_system
      = map_option (Pair OK) (send_queue INIT_PROC_NR FS_PROC_NR 64 busy_system)"
    using mini_send_cases [OF t, of FS_PROC_NR INIT_PROC_NR 64] w
    by (simp add: isokprocn_def issysentn_def mess_in_range_def idle_map_def)
  obtain s1 where s1: "send_queue INIT_PROC_NR FS_PROC_NR 64 busy_system = Some s1"
    "\<forall>n. flags s1 n = (if n = INIT_PROC_NR then insert SENDING (flags busy_system n) else flags busy_system n)"
    "p_messbuf (procs s1 INIT_PROC_NR) = 64"
    "\<forall>cq. cq_ok busy_system cq \<longrightarrow> cq_ok s1 (cq(FS_PROC_NR := cq FS_PROC_NR @ [INIT_PROC_NR]))"
    "\<forall>n. p_map (procs s1 n) = p_map (procs busy_system n)"
    using send_queue_inv [OF t, of INIT_PROC_NR FS_PROC_NR 64] w
    by (auto simp: isokprocn_def schedulable_def)
  have e: "sent_system = s1" using s2 s1(1) by (simp add: sent_system_def)
  show "kinv sent_system" using s' by (simp add: sent_system_def)
  show "cq_ok sent_system ((\<lambda>_. [])(FS_PROC_NR := [INIT_PROC_NR]))" using s1(4) busy_cq e by fastforce
  show "flags sent_system n = (if n = INIT_PROC_NR then {SENDING} else flags busy_system n)" for n
    using s1(2) e by simp
  show "p_messbuf (procs sent_system INIT_PROC_NR) = 64" using s1(3) e by simp
  show "p_map (procs sent_system n) = idle_map n" for n using s1(5) e by simp
qed

lemma receive_takes_first_witness:
  "\<exists>s'. mini_rec FS_PROC_NR ANY 512 sent_system = Some (OK, s') \<and> get32 (kmem s') 113152 = 2"
  using receive_takes_first [OF sent_system_facts(1,2), of FS_PROC_NR "[]" INIT_PROC_NR "[]" ANY 122944 113152 512]
    example_disjoint
  by (auto simp: isokprocn_def sent_system_facts(3-5) idle_map_def)


subsection \<open>Interrupts\<close>



text \<open>C5: When the kernel is left, \<^verbatim>\<open>unhold()\<close> empties the queue of held-up interrupts
  whatever further interrupts arrive while it works, and every task that was on it has then been
  served: it runs or is marked.\<close>

theorem unhold_serves_all:
  assumes "kinv s" "held_ok s hs" "hs \<noteq> []" "k_reenter s = 0" "\<not> switching s"
    and "all_tasks s (set hs \<union> set (concat irqs))"
  shows "\<exists>s'. unhold irqs s = Some s' \<and> kinv s' \<and> held_head s' = None \<and> (\<forall>n. \<not> p_int_held (procs s' n))
    \<and> (\<forall>t \<in> set hs. p_int_blocked (procs s' t) \<or> flags s' t = {})"
proof -
  obtain t hs' where hs: "hs = t # hs'" using assms(3) by (cases hs) auto
  have h: "held_head s = Some t" using assms(2) by (auto simp: held_ok_def hs chain_hd)
  obtain s' where "unhold_loop irqs t s = Some s'" "kinv s'" "held_ok s' []" "\<forall>n \<in> insert t (set hs'). served s' n"
    using unhold_loop_spec [OF assms(1) assms(2) [unfolded hs] assms(4,5), of irqs] assms(6) by (auto simp: hs)
  then show ?thesis using h assms(5) by (auto simp: unhold_def hs held_ok_def served_def)
qed

definition held_system :: kstate where
  "held_system = the (interrupt CLOCK (idle_system\<lparr>k_reenter := 1\<rparr>))\<lparr>k_reenter := 0\<rparr>"

lemma held_system_facts:
  "kinv held_system" "held_ok held_system [CLOCK]" "k_reenter held_system = 0" "\<not> switching held_system"
  "prio held_system n = prio idle_system n"
proof -
  let ?s = "idle_system\<lparr>k_reenter := 1\<rparr>"
  have k: "kinv ?s" by (rule kinv_frame [OF idle_kinv]) auto
  have h: "held_ok ?s []" by (simp add: held_ok_def)
  obtain s' where s': "hold CLOCK ?s = Some s'" "held_ok s' [CLOCK]" "held_frame ?s s'"
    using hold_spec [OF h, of CLOCK] by auto
  have e: "held_system = s'\<lparr>k_reenter := 0\<rparr>" using s'(1) by (simp add: held_system_def interrupt_def)
  have "kinv s'" by (rule held_frame_kinv [OF k s'(3)])
  then show "kinv held_system" unfolding e by (rule kinv_frame) auto
  show "held_ok held_system [CLOCK]" using s'(2) by (simp add: e held_ok_def)
  show "k_reenter held_system = 0" by (simp add: e)
  show "\<not> switching held_system" "prio held_system n = prio idle_system n"
    using held_frame_fields [OF s'(3)] by (simp_all add: e)
qed

lemma unhold_serves_all_witness:
  "\<exists>s'. unhold [[SYSTASK]] held_system = Some s' \<and> held_head s' = None \<and> (p_int_blocked (procs s' CLOCK) \<or> flags s' CLOCK = {})"
  using unhold_serves_all [OF held_system_facts(1,2) _ held_system_facts(3,4), of "[[SYSTASK]]"]
  by (auto simp: all_tasks_def held_system_facts isokprocn_def)

lemma next_word_disjoint: "disjoint_regions (a :: u32) 4 (a + 4) 4"
  unfolding disjoint_regions_def
proof (intro allI impI)
  fix i j :: nat
  assume "i < 4" "j < 4"
  then have "(of_nat i :: u32) \<noteq> of_nat (4 + j)" using of_nat32_eq [of i "4 + j"] by simp
  then show "a + of_nat i \<noteq> a + 4 + of_nat j" by (simp add: add.assoc)
qed

text \<open>A marked task that receives and accepts hardware messages gets the interrupt unless a
  sender it accepts is queued: the receive returns at once with \<^verbatim>\<open>HARD_INT\<close> from
  \<^verbatim>\<open>HARDWARE\<close> and the mark is gone, so that one interrupt gives one message.\<close>

theorem receive_blocked_interrupt:
  assumes "cq_ok s cq" "isokprocn t" "SENDING \<notin> flags s t" "p_int_blocked (procs s t)" "isrxhardware src"
    and "\<forall>c \<in> set (cq t). src \<noteq> ANY \<and> src \<noteq> c"
  shows "\<exists>s'. mini_rec t src m s = Some (OK, s') \<and> \<not> p_int_blocked (procs s' t) \<and> (\<forall>n. flags s' n = flags s n)
    \<and> get32 (kmem s') (data_base s + m) = word_of_int HARDWARE \<and> get32 (kmem s') (data_base s + m + 4) = HARD_INT"
proof -
  have d: "dropWhile (\<lambda>c. src \<noteq> ANY \<and> src \<noteq> c) (cq t) = []" using assms(6) by simp
  have "mini_rec t src m s = Some (OK, upd_proc t (\<lambda>p. p\<lparr>p_int_blocked := False\<rparr>) (hard_int_mess m s))"
    using find_sender_scan [OF assms(1,2), of src] d assms(3,4,5)
    by (simp add: mini_rec_def del: dropWhile_eq_Nil_conv)
  moreover have "get32 (kmem (hard_int_mess m s)) (data_base s + m) = word_of_int HARDWARE"
    by (simp add: hard_int_mess_def kstore_def add.assoc [symmetric] put32_get32_other [OF next_word_disjoint])
  moreover have "get32 (kmem (hard_int_mess m s)) (data_base s + m + 4) = HARD_INT"
    by (simp add: hard_int_mess_def kstore_def add.assoc)
  ultimately show ?thesis by (auto simp: upd_proc_def hard_int_mess_def kstore_def)
qed

lemma receive_blocked_interrupt_witness:
  "\<exists>s'. mini_rec CLOCK ANY 64 (upd_proc CLOCK (\<lambda>p. p\<lparr>p_int_blocked := True\<rparr>) idle_system) = Some (OK, s')
    \<and> \<not> p_int_blocked (procs s' CLOCK)"
proof -
  let ?s = "upd_proc CLOCK (\<lambda>p. p\<lparr>p_int_blocked := True\<rparr>) idle_system"
  have "senders ?s d = {}" for d by (auto simp: senders_def upd_proc_def)
  then have "cq_ok ?s (\<lambda>_. [])" by (simp add: cq_ok_def upd_proc_def)
  from receive_blocked_interrupt [OF this, of CLOCK ANY 64] show ?thesis
    by (auto simp: isokprocn_def isrxhardware_def upd_proc_def)
qed

subsection \<open>Scheduling\<close>



text \<open>C9: User processes run in turn.  While no task or server is ready, each call of
  \<^verbatim>\<open>sched()\<close> puts the running user process at the end of the queue and the next one runs: the
  process at position \<open>k\<close> of the queue runs after \<open>k\<close> calls, and after as many
  calls as there are processes the queue is as it was.\<close>

lemma sched_rotates:
  assumes "rq_ok s rq" "rq USER_Q \<noteq> []"
  shows "\<exists>s'. sched s = Some s' \<and> rq_ok s' (rq(USER_Q := rotate1 (rq USER_Q)))
    \<and> proc_ptr s' = hd (rq TASK_Q @ rq SERVER_Q @ rotate1 (rq USER_Q))"
proof -
  let ?rq = "rq(USER_Q := rotate1 (rq USER_Q))"
  have r: "(case rq USER_Q of [] \<Rightarrow> [] | x # xs \<Rightarrow> xs @ [x]) = rotate1 (rq USER_Q)" by (cases "rq USER_Q") auto
  obtain s' where s': "sched s = Some s'" "rq_ok s' ?rq" using sched_refines [OF assms(1)] r by auto
  obtain x where x: "s' = pick_proc x"
    using s'(1) assms rq_ok_head [OF assms(1), of USER_Q] rq_ok_tail [OF assms(1), of USER_Q]
    by (auto simp: sched_def Let_def)
  have "rq_ok x ?rq" using s'(2) x by simp
  from pick_proc_choice(1) [OF this] assms(2) have "proc_ptr s' = hd (rq TASK_Q @ rq SERVER_Q @ rotate1 (rq USER_Q))"
    by (auto simp: x hd_append)
  with s' show ?thesis by blast
qed

lemma sched_turns:
  assumes "rq_ok s rq" "rq USER_Q \<noteq> []"
  shows "\<exists>s'. ((\<lambda>x. Option.bind x sched) ^^ Suc k) (Some s) = Some s' \<and> rq_ok s' (rq(USER_Q := rotate (Suc k) (rq USER_Q)))
    \<and> proc_ptr s' = hd (rq TASK_Q @ rq SERVER_Q @ rotate (Suc k) (rq USER_Q))"
proof (induction k)
  case 0
  then show ?case using sched_rotates [OF assms] by (simp add: fun_upd_def)
next
  case (Suc k)
  then obtain s1 where s1: "((\<lambda>x. Option.bind x sched) ^^ Suc k) (Some s) = Some s1"
    "rq_ok s1 (rq(USER_Q := rotate (Suc k) (rq USER_Q)))" by blast
  have "((\<lambda>x. Option.bind x sched) ^^ Suc (Suc k)) (Some s) = sched s1"
    using s1(1) by simp
  moreover have "rotate (Suc (Suc k)) xs = rotate1 (rotate (Suc k) xs)" for xs :: "int list" by simp
  moreover have "(rq(USER_Q := rotate (Suc k) (rq USER_Q))) USER_Q \<noteq> []" using assms(2) by simp
  note sched_rotates [OF s1(2) this, unfolded fun_upd_upd fun_upd_same fun_upd_other [OF rdyq.distinct(3)] fun_upd_other [OF rdyq.distinct(5)]]
  ultimately show ?case by (simp only:)
qed

theorem sched_round_robin:
  assumes "rq_ok s rq" "rq TASK_Q = []" "rq SERVER_Q = []" "k < length (rq USER_Q)" "0 < k"
  shows "(\<exists>s'. ((\<lambda>x. Option.bind x sched) ^^ k) (Some s) = Some s' \<and> proc_ptr s' = rq USER_Q ! k)
    \<and> (\<exists>s'. ((\<lambda>x. Option.bind x sched) ^^ length (rq USER_Q)) (Some s) = Some s' \<and> rq_ok s' rq)"
proof -
  have ne: "rq USER_Q \<noteq> []" using assms(4) by auto
  obtain j where j: "k = Suc j" using assms(5) by (cases k) auto
  have "hd (rotate k (rq USER_Q)) = rq USER_Q ! k"
    using assms(4) ne by (simp add: hd_rotate_conv_nth)
  then have 1: "\<exists>s'. ((\<lambda>x. Option.bind x sched) ^^ k) (Some s) = Some s' \<and> proc_ptr s' = rq USER_Q ! k"
    using sched_turns [OF assms(1) ne, of j] assms(2,3) unfolding j by auto
  obtain n where n: "length (rq USER_Q) = Suc n" using ne by (cases "rq USER_Q") auto
  have "rotate (Suc n) (rq USER_Q) = rq USER_Q" unfolding n [symmetric] by simp
  then have "\<exists>s'. ((\<lambda>x. Option.bind x sched) ^^ length (rq USER_Q)) (Some s) = Some s' \<and> rq_ok s' rq"
    using sched_turns [OF assms(1) ne, of n] unfolding n by (metis fun_upd_triv)
  with 1 show ?thesis by blast
qed


lemma sched_round_robin_witness:
  "\<exists>s'. ((\<lambda>x. Option.bind x sched) ^^ 1) (Some ((upd_proc 3 (\<lambda>p. p\<lparr>p_priority := PPRI_USER, p_nextready := Some 2\<rparr>)
      idle_system)\<lparr>rdy_head := (\<lambda>_. None)(USER_Q := Some 3)\<rparr>)) = Some s' \<and> proc_ptr s' = 2"
proof -
  let ?s = "(upd_proc 3 (\<lambda>p. p\<lparr>p_priority := PPRI_USER, p_nextready := Some 2\<rparr>)
      idle_system)\<lparr>rdy_head := (\<lambda>_. None)(USER_Q := Some 3)\<rparr>"
  have "rq_ok ?s (\<lambda>q. if q = USER_Q then [3, 2] else [])"
    by (auto simp: rq_ok_def class_of_def upd_proc_def chain_Some)
  from sched_round_robin [OF this, of 1] show ?thesis by simp
qed

subsection \<open>A flaw: sending to oneself\<close>

lemma send_chain_self:
  assumes "SENDING \<in> p_flags (tab c)" "p_sendto (tab c) = c" "d \<noteq> c"
  shows "send_chain tab d c = None"
proof -
  have "\<not> (tab' = tab \<and> d' = d \<and> n = c)" if r: "send_chain tab' d' n = Some y" for tab' d' n y
  proof (rule send_chain.raw_induct [where P = "\<lambda>tab' d' n y. \<not> (tab' = tab \<and> d' = d \<and> n = c)", OF _ r])
    fix f :: "(int \<Rightarrow> proc) \<Rightarrow> int \<Rightarrow> int \<Rightarrow> bool option" and tab' d' n y
    assume IH: "\<And>tab' d' n y. f tab' d' n = Some y \<Longrightarrow> \<not> (tab' = tab \<and> d' = d \<and> n = c)"
      and e: "(if n = d' then Some True else if SENDING \<in> p_flags (tab' n) then f tab' d' (p_sendto (tab' n)) else Some False) = Some y"
    show "\<not> (tab' = tab \<and> d' = d \<and> n = c)" using IH [of tab d c y] e assms by auto
  qed
  then show ?thesis by (cases "send_chain tab d c") auto
qed

text \<open>C16: A task or server that sends to itself is not refused: the deadlock check looks only at
  whether the destination is sending, so the process blocks on its own queue.  The next process
  that sends to it then follows the one-element cycle in the deadlock check for ever: the kernel
  hangs (\<open>None\<close>).\<close>

theorem send_to_self_hangs:
  assumes "kinv s" "isokprocn c" "c \<noteq> HARDWARE" "istaskp (procs s c) \<or> isservp (procs s c)" "flags s c = {}"
    and "mess_in_range (procs s c) m"
    and "d \<noteq> c" "isuserp (procs s d) \<longrightarrow> issysentn c" "mess_in_range (procs s d) m'"
  shows "\<exists>s'. mini_send c c m s = Some (OK, s') \<and> mini_send d c m' s' = None"
proof -
  have t: "table_inv s" using assms(1) by (simp add: kinv_def)
  note k = table_invD [OF t]
  define s1 where "s1 = upd_proc c (\<lambda>p. p\<lparr>p_messbuf := m\<rparr>) s"
  have si: "sched_inv s1" by (rule sched_inv_cong [OF k(1)]) (auto simp: s1_def upd_proc_def)
  have gu: "guard_ok s1 c" using k(4) assms(3) by (simp add: sys_inv_def guard_ok_def s1_def upd_proc_def)
  obtain s2 where s2: "unready c s1 = Some s2" "unqueued s2 = unqueued s1"
    using sched_inv_block [OF si gu] assms(5) by (auto simp: s1_def upd_proc_def)
  note u = unqueued_fields [OF s2(2)]
  define s3 where "s3 = upd_proc c (\<lambda>p. p\<lparr>p_flags := insert SENDING (p_flags p), p_sendto := c\<rparr>) s2"
  have s3f: "p_sendlink (procs s3 n) = p_sendlink (procs s n)" "p_callerq (procs s3 n) = p_callerq (procs s n)"
    "flags s3 n = (if n = c then {SENDING} else flags s n)" "prio s3 n = prio s n" "p_map (procs s3 n) = p_map (procs s n)"
    "p_sendto (procs s3 n) = (if n = c then c else p_sendto (procs s n))" for n
    using assms(5) by (simp_all add: s3_def upd_proc_def u s1_def)
  have "SENDING \<notin> flags s c" using assms(5) by simp
  moreover have "SENDING \<in> flags s3 n \<longleftrightarrow> n = c \<or> SENDING \<in> flags s n" for n
    using assms(5) by (simp add: s3f)
  ultimately obtain s4 where s4: "enqueue_sender c c s3 = Some s4" "relinked s3 s4"
    using queue_inv_send [OF k(2) _ assms(2,2), of s3] by (simp only: s3f) blast
  note r = relinked_fields [OF s4(2)]
  have ne: "\<not> isemptyp (procs s c)" "\<not> isuserp (procs s c)" using assms(4) by auto
  have q: "send_queue c c m s = Some s4"
    unfolding send_queue_def Let_def s1_def [symmetric]
    using s2(1) s4(1) assms(5) by (simp add: s1_def upd_proc_def s3_def)
  have 1: "mini_send c c m s = Some (OK, s4)" using assms(2,5,6) ne q by (simp add: mini_send_def)
  have "mess_in_range (procs s4 d) m'" using assms(9) by (simp add: mess_in_range_def r s3f)
  moreover have "send_chain (procs s4) d c = None"
    by (rule send_chain_self) (use assms(7) in \<open>auto simp: r s3f\<close>)
  ultimately have "mini_send d c m' s4 = None"
    using assms(2,8) ne by (simp add: mini_send_def r s3f)
  with 1 show ?thesis by blast
qed

text \<open>The system in which the file system runs.\<close>

definition fs_system :: kstate where
  "fs_system = snd (the (mini_send 2 FS_PROC_NR 64 idle_system))"

lemma fs_system_facts:
  "kinv fs_system" "\<And>n. flags fs_system n = (if n = FS_PROC_NR then {} else flags idle_system n)"
  "\<And>n. prio fs_system n = prio idle_system n" "\<And>n. p_map (procs fs_system n) = idle_map n"
proof -
  obtain r s' where s': "mini_send 2 FS_PROC_NR 64 idle_system = Some (r, s')" "kinv s'" "\<forall>n. prio s' n = prio idle_system n"
    using mini_send_inv [OF idle_kinv, of 2 FS_PROC_NR 64] by (auto simp: isokprocn_def schedulable_def)
  have e: "fs_system = s'" using s'(1) by (simp add: fs_system_def)
  have "(FS_PROC_NR, 2 :: int) \<notin> (waits idle_system)\<^sup>*" by (simp add: idle_waits)
  then have m: "mini_send 2 FS_PROC_NR 64 idle_system = map_option (Pair OK) (send_deliver 2 FS_PROC_NR 64 idle_system)"
    using idle_kinv mini_send_cases [of idle_system FS_PROC_NR 2 64]
    by (simp add: kinv_def isokprocn_def issysentn_def mess_in_range_def idle_map_def)
  obtain s1 where s1: "send_deliver 2 FS_PROC_NR 64 idle_system = Some s1"
    "\<forall>n. flags s1 n = (if n = FS_PROC_NR then flags idle_system n - {RECEIVING} else flags idle_system n)"
    using send_deliver_inv [of idle_system FS_PROC_NR 2 64] idle_kinv by (auto simp: kinv_def isokprocn_def)
  have e1: "s1 = s'" using m s1(1) s'(1) by simp
  show "kinv fs_system" "\<And>n. prio fs_system n = prio idle_system n" using s' e by simp_all
  show "flags fs_system n = (if n = FS_PROC_NR then {} else flags idle_system n)" for n
    using s1(2) e e1 by simp
  show "p_map (procs fs_system n) = idle_map n" for n
    using s1(1) by (auto simp: e e1 send_deliver_def ready_def copy_mess_def Let_def upd_proc_def split: if_splits option.splits)
qed

lemma send_to_self_hangs_witness:
  "\<exists>s'. mini_send FS_PROC_NR FS_PROC_NR 64 fs_system = Some (OK, s') \<and> mini_send 2 FS_PROC_NR 64 s' = None"
  using send_to_self_hangs [OF fs_system_facts(1), of FS_PROC_NR 64 2 64]
  by (simp add: isokprocn_def fs_system_facts mess_in_range_def idle_map_def issysentn_def)

end
