(* ===== verification/Task_Theorems.thy ===== *)
theory Task_Theorems
  imports Kernel_Example
begin

text \<open>
  The properties of the clock task and the system task, each followed by an instance on a small
  system.
\<close>

subsection \<open>Timers\<close>





text \<open>Setting a timer puts it, and it only, at its place in the list of active timers sorted by
  expiry, behind those of the same tick; a timer that was active or expired before is moved, never
  duplicated.  Clearing it takes it off both lists.\<close>

theorem timer_set_and_cleared:
  assumes "tmr_inv s ts es" "isokprocn (tmr_task (tmr s tp))" "isokprocn task" "e \<noteq> TMR_NEVER"
  shows "(\<exists>s'. tmr_settimer tp task e fp s = Some s' \<and> exp_at s' tp = e
      \<and> tmr_inv s' (takeWhile (\<lambda>t. exp_at s t \<le> e) (remove1 tp ts) @ tp # dropWhile (\<lambda>t. exp_at s t \<le> e) (remove1 tp ts))
           (\<lambda>p. remove1 tp (es p)) \<and> (\<forall>t. t \<noteq> tp \<longrightarrow> exp_at s' t = exp_at s t))
    \<and> (\<exists>s'. tmr_clrtimer tp s = Some s' \<and> exp_at s' tp = TMR_NEVER
      \<and> tmr_inv s' (remove1 tp ts) (\<lambda>p. remove1 tp (es p)) \<and> (\<forall>t. t \<noteq> tp \<longrightarrow> exp_at s' t = exp_at s t))"
  using tmr_settimer_spec [OF assms, of fp] tmr_clrtimer_spec [OF assms(1,2)] by (auto simp: settimer_list_def)

lemma timer_set_and_cleared_witness:
  "\<exists>s'. tmr_settimer 2 CLOCK 60 CAUSE_ALARM idle_system = Some s' \<and> tmr_inv s' [2] (\<lambda>_. [])"
  using timer_set_and_cleared [OF idle_tmr, of 2 CLOCK 60 CAUSE_ALARM] by (auto simp: isokprocn_def)

subsection \<open>Fork and exit\<close>

text \<open>C11: \<^verbatim>\<open>do_fork()\<close> changes the child's slot only: it is the parent's with return value
  0, no map yet and therefore not runnable, no pending signals, no trace stop and clocks at zero.\<close>

theorem fork_copies_parent:
  assumes "kinv s" "isokprocn p" "isuserp (procs s p)" "SENDING \<notin> flags s p" "RECEIVING \<in> flags s p"
    and "p_callerq (procs s p) = None" "isokprocn c" "isemptyp (procs s c)" "senders s c = {}"
  shows "\<exists>s'. do_fork p c pid s = Some (OK, s') \<and> kinv s' \<and> (\<forall>n. n \<noteq> c \<longrightarrow> procs s' n = procs s n)
    \<and> p_pid (procs s' c) = pid \<and> p_map (procs s' c) = p_map (procs s p) \<and> isuserp (procs s' c)
    \<and> p_reg (procs s' c) = (p_reg (procs s p))(R_retreg := 0)
    \<and> flags s' c = insert NO_MAP (flags s p - {PENDING, SIG_PENDING, P_STOP}) \<and> c \<notin> runnable s'
    \<and> p_pending (procs s' c) = 0 \<and> user_time (procs s' c) = 0 \<and> sys_time (procs s' c) = 0"
proof -
  obtain s' where s': "do_fork p c pid s = Some (OK, s')" "kinv s'" "\<forall>n. n \<noteq> c \<longrightarrow> procs s' n = procs s n"
    "flags s' c = insert NO_MAP (flags s p - {PENDING, SIG_PENDING, P_STOP})" "isuserp (procs s' c)"
    "p_map (procs s' c) = p_map (procs s p)" "\<forall>r. p_reg (procs s' c) r = (if r = R_retreg then 0 else p_reg (procs s p) r)"
    using do_fork_kinv [OF assms, of pid] by (elim exE conjE) (rule that; assumption)
  have "p_pid (procs s' c) = pid \<and> p_pending (procs s' c) = 0 \<and> user_time (procs s' c) = 0 \<and> sys_time (procs s' c) = 0"
    using s'(1) by (auto simp: do_fork_def Let_def upd_proc_def split: if_splits)
  with s' show ?thesis by (auto simp: runnable_def fun_eq_iff)
qed

text \<open>The system with INIT waiting, as while the memory manager works for it.\<close>

definition fork_system :: kstate where
  "fork_system = snd (the (mini_rec INIT_PROC_NR ANY 64 idle_system))"

lemma fork_system_facts:
  "kinv fork_system" "\<And>n. prio fork_system n = prio idle_system n"
  "\<And>n. flags fork_system n = (if n = INIT_PROC_NR then {RECEIVING} else flags idle_system n)"
  "\<And>n. p_callerq (procs fork_system n) = None" "tmr_view fork_system = tmr_view idle_system"
  "\<And>n. p_map (procs fork_system n) = idle_map n" "kmem fork_system = kmem idle_system"
proof -
  obtain s' where s': "mini_rec INIT_PROC_NR ANY 64 idle_system = Some (OK, s')" "kinv s'" "\<forall>n. prio s' n = prio idle_system n"
    using mini_rec_inv [OF idle_kinv, of INIT_PROC_NR ANY 64] by (auto simp: isokprocn_def schedulable_def)
  have e: "fork_system = s'" using s'(1) by (simp add: fork_system_def)
  from s' show "kinv fork_system" "\<And>n. prio fork_system n = prio idle_system n" by (simp_all add: e)
  have r: "s' = upd_proc 2 (\<lambda>p. p\<lparr>p_flags := insert RECEIVING (p_flags p)\<rparr>)
      (pick_proc (set_head USER_Q None (upd_proc 2 (\<lambda>p. p\<lparr>p_getfrom := ANY, p_messbuf := 64\<rparr>) idle_system)))"
    using s'(1) by (simp add: mini_rec_def rec_block_def unready_def Let_def upd_proc_def)
  show "flags fork_system n = (if n = INIT_PROC_NR then {RECEIVING} else flags idle_system n)"
    "p_callerq (procs fork_system n) = None" "p_map (procs fork_system n) = idle_map n" for n
    by (simp_all add: e r upd_proc_def)
  show "tmr_view fork_system = tmr_view idle_system" by (simp add: e mini_rec_view [OF s'(1)])
  show "kmem fork_system = kmem idle_system" by (simp add: e r upd_proc_def pick_proc_def)
qed

lemma fork_system_senders: "senders fork_system d = {}"
  by (auto simp: senders_def fork_system_facts split: if_splits)

lemma fork_copies_parent_witness:
  "\<exists>s'. do_fork 2 3 7 fork_system = Some (OK, s') \<and> p_pid (procs s' 3) = 7 \<and> flags s' 3 = {NO_MAP, RECEIVING}"
  using fork_copies_parent [OF fork_system_facts(1), of 2 3 7]
  by (auto simp: fork_system_facts fork_system_senders isokprocn_def)

text \<open>C12: \<^verbatim>\<open>do_xit()\<close> frees the slot whatever the process was doing: it is off every
  queue (ready, senders of anyone, timers, expired or not), its flags are clear, and nothing changes
  for the flags and queues of the others.\<close>

theorem exit_leaves_no_trace:
  assumes "kinv s" "tmr_inv s ts es" "isokprocn parent" "isuserp (procs s parent)"
    and "0 \<le> pr" "pr < NR_PROCS" "isuserp (procs s pr)" "isokprocn (tmr_task (tmr s (nat pr)))"
  shows "\<exists>s'. do_xit parent pr s = Some (OK, s') \<and> kinv s' \<and> isemptyp (procs s' pr) \<and> pr \<notin> runnable s'
    \<and> (\<forall>n. flags s' n = (if n = pr then {} else flags s n)) \<and> (\<forall>d. senders s' d = senders s d - {pr})
    \<and> tmr_inv s' (filter ((\<noteq>) (nat pr)) ts) (\<lambda>p. filter ((\<noteq>) (nat pr)) (es p))"
proof -
  obtain s' where s': "do_xit parent pr s = Some (OK, s')" "kinv s'"
    "tmr_inv s' (remove1 (nat pr) ts) (\<lambda>p. remove1 (nat pr) (es p))" "\<forall>n. prio s' n = (if n = pr then PPRI_NONE else prio s n)"
    "\<forall>n. flags s' n = (if n = pr then {} else flags s n)" "\<forall>d. senders s' d = senders s d - {pr}"
    using do_xit_kinv [OF assms] by (elim exE conjE) (rule that; assumption)
  have d: "distinct ts" using chain_distinct [OF tmr_invD(1) [OF assms(2)]] .
  have "distinct (es p)" for p
    using chain_distinct [OF tmr_invD(3) [OF assms(2)], of p] tmr_invD(4) [OF assms(2), of _ p] by (cases "es p") auto
  with s' d show ?thesis by (auto simp: runnable_def schedulable_def distinct_remove1_removeAll removeAll_filter_not_eq)
qed

text \<open>A system with a second user process.\<close>

definition child_system :: kstate where
  "child_system = snd (the (do_fork 2 3 7 fork_system))"

lemma child_system_facts:
  "kinv child_system" "\<And>n. prio child_system n = (if n = 3 then PPRI_USER else prio idle_system n)"
  "tmr_view child_system = tmr_view idle_system"
proof -
  obtain s' where s': "do_fork 2 3 7 fork_system = Some (OK, s')" "kinv s'" "\<forall>n. n \<noteq> 3 \<longrightarrow> procs s' n = procs fork_system n"
    "isuserp (procs s' 3)"
    using do_fork_kinv [OF fork_system_facts(1), of 2 3 7]
    by (auto simp: fork_system_facts fork_system_senders isokprocn_def)
  have e: "child_system = s'" using s'(1) by (simp add: child_system_def)
  show "kinv child_system" using s'(2) e by simp
  show "prio child_system n = (if n = 3 then PPRI_USER else prio idle_system n)" for n
    using s'(3,4) fork_system_facts(2) e by simp
  have v: "tmr_view fork_system = tmr_view idle_system" by (rule fork_system_facts)
  have pv: "p_exptimers (procs fork_system 2) = None \<and> p_nextheld (procs fork_system 2) = None \<and> \<not> p_int_held (procs fork_system 2)"
    "p_exptimers (procs fork_system 3) = None \<and> p_nextheld (procs fork_system 3) = None \<and> \<not> p_int_held (procs fork_system 3)"
    using v by (simp_all add: tmr_view_def fun_eq_iff)
  have "tmr_view s' = tmr_view fork_system"
    using s'(1) pv by (auto simp: do_fork_def Let_def tmr_view_def upd_proc_def fun_eq_iff split: if_splits)
  with v show "tmr_view child_system = tmr_view idle_system" by (simp add: e)
qed

lemma exit_leaves_no_trace_witness:
  "\<exists>s'. do_xit 2 3 child_system = Some (OK, s') \<and> isemptyp (procs s' 3) \<and> tmr_inv s' [] (\<lambda>_. [])"
proof -
  have "tmr child_system t = tmr idle_system t" for t using child_system_facts(3) by (simp add: tmr_view_def)
  then show ?thesis
    using exit_leaves_no_trace [OF child_system_facts(1) tmr_view_inv [OF idle_tmr child_system_facts(3)], of 2 3]
    by (auto simp: child_system_facts(2) isokprocn_def)
qed

subsection \<open>Signal frames\<close>

text \<open>C13: A signal frame built by \<^verbatim>\<open>do_sendsig()\<close> starts the handler on the user's stack,
  and \<^verbatim>\<open>do_sigreturn()\<close> from it gives every register its value before the signal (the
  four data segment registers as the 16 bits they are).\<close>

theorem signal_frame_round_trip:
  assumes "isokprocn p" "isuserp (procs s p)" "umap (procs s MM_PROC_NR) SegD ptr 20 = src" "src \<noteq> 0"
    and "words_sigmsg (read_words src 5 (kmem s)) = smsg" "sm_stkptr smsg - 72 = scp"
    and "umap (procs s p) SegD scp 72 = d1" "d1 \<noteq> 0" "umap (procs s p) SegD (scp - 28) 28 = d2" "d2 \<noteq> 0"
    and "disjoint_regions d1 72 d2 28"
  shows "\<exists>s1 s2. do_sendsig p ptr s = Some (OK, s1) \<and> p_reg (procs s1 p) R_pc = sm_sighandler smsg
    \<and> p_reg (procs s1 p) R_sp = scp - 28
    \<and> read_words d2 7 (kmem s1) = [sm_sigreturn smsg, sm_signo smsg, 0, scp, p_reg (procs s p) R_fp, p_reg (procs s p) R_pc, scp]
    \<and> do_sigreturn p scp s1 = Some (OK, s2)
    \<and> (\<forall>r. p_reg (procs s2 p) r = (if r \<in> {R_gs, R_fs, R_es, R_ds} then take_bit 16 (p_reg (procs s p) r)
           else p_reg (procs s p) r))"
proof -
  let ?regs = "p_reg (procs s p)"
  let ?sc = "[SC_SIGCONTEXT, sm_mask smsg] @ reg_words ?regs"
  let ?fr = "[sm_sigreturn smsg, sm_signo smsg, 0, scp, ?regs R_fp, ?regs R_pc, scp]"
  let ?m1 = "write_words d1 ?sc (kmem s)"
  let ?m2 = "write_words d2 ?fr ?m1"
  let ?s1 = "upd_proc p (\<lambda>q. q\<lparr>p_reg := (p_reg q)(R_sp := scp - 28, R_pc := sm_sighandler smsg)\<rparr>)
    ((upd_proc p (\<lambda>q. q\<lparr>p_reg := (p_reg q)(R_fp := scp - 28 + 16)\<rparr>) (s\<lparr>kmem := ?m1\<rparr>))\<lparr>kmem := ?m2\<rparr>)"
  have um: "umap (q\<lparr>p_reg := r\<rparr>) g v n = umap q g v n" for q r g v n by (simp add: umap_def Let_def)
  have 1: "do_sendsig p ptr s = Some (OK, ?s1)"
    using assms by (simp add: do_sendsig_def put_sigframe_def upd_proc_def um Let_def del: write_words.simps)
  have l: "length ?sc = 18" "length ?fr = 7" by simp_all
  have fr: "read_words d2 7 ?m2 = ?fr" using read_write_words [of ?fr d2 ?m1] unfolding l by simp
  have "read_words d1 18 ?m2 = read_words d1 18 ?m1"
    by (rule read_write_words_other) (use assms(11) in simp)
  also have "\<dots> = ?sc" using read_write_words [of ?sc d1 "kmem s"] unfolding l by simp
  finally have rd: "read_words d1 18 ?m2 = ?sc" .
  have u: "umap (procs ?s1 p) SegD scp 72 = d1" using assms(7) by (simp add: upd_proc_def um)
  have n0: "(2 :: u32) AND 2 \<noteq> 0" "(2 :: u32) AND 4 = 0" by simp_all
  have km: "kmem ?s1 = ?m2" by (simp add: upd_proc_def)
  have "\<exists>s2. do_sigreturn p scp ?s1 = Some (OK, s2) \<and> (\<forall>r. p_reg (procs s2 p) r =
      (if r \<in> {R_gs, R_fs, R_es, R_ds} then take_bit 16 (?regs r) else ?regs r))"
    unfolding do_sigreturn_def Let_def u
    using assms(1,2,8) n0
    unfolding km rd
    by (simp add: upd_proc_def words_reg_words fun_eq_iff del: read_words.simps write_words.simps)
  then show ?thesis using 1 fr by (auto simp: upd_proc_def simp del: read_words.simps write_words.simps)
qed

lemma words_disjoint:
  assumes "a + n \<le> b" "b + k < 2 ^ 32"
  shows "disjoint_regions (of_nat b) k (of_nat a) n"
  unfolding disjoint_regions_def
proof (intro allI impI)
  fix i j :: nat
  assume "i < k" "j < n"
  with assms have "b + i \<noteq> a + j" "b + i < 2 ^ 32" "a + j < 2 ^ 32" by simp_all
  then have "(of_nat (b + i) :: u32) \<noteq> of_nat (a + j)" using of_nat32_eq by blast
  then show "(of_nat b :: u32) + of_nat i \<noteq> of_nat a + of_nat j" by simp
qed

definition signal_system :: kstate where
  "signal_system = idle_system\<lparr>kmem := put32 (\<lambda>_. 0) 102416 2048\<rparr>"

lemma signal_system_facts:
  "procs signal_system = idle_proc" "words_sigmsg (read_words 102400 5 (kmem signal_system)) = \<lparr>sm_signo = 0, sm_mask = 0,
     sm_sighandler = 0, sm_sigreturn = 0, sm_stkptr = 2048\<rparr>"
  by (simp_all add: signal_system_def words_sigmsg_def numeral_eq_Suc)
    (simp_all add: get32_def put32_def)

lemma signal_frame_round_trip_witness:
  "\<exists>s1 s2. do_sendsig 2 0 signal_system = Some (OK, s1) \<and> do_sigreturn 2 1976 s1 = Some (OK, s2)
    \<and> p_reg (procs s2 2) R_pc = p_reg (procs signal_system 2) R_pc"
proof -
  have u: "umap (idle_proc 0) SegD 0 20 = 102400" "umap (idle_proc 2) SegD 1976 72 = 124856"
    "umap (idle_proc 2) SegD 1948 28 = 124828"
    by (simp_all add: umap_def idle_map_def word_le_nat_alt)
  show ?thesis
    using signal_frame_round_trip [of 2 signal_system 0 102400, OF _ _ _ _ signal_system_facts(2), of 1976 124856 124828]
      words_disjoint [of 124828 28 124856 72] u
    by (force simp: signal_system_facts(1) isokprocn_def)
qed

text \<open>C14: Whatever a user program puts into the frame it returns from, \<^verbatim>\<open>do_sigreturn()\<close>
  keeps the processor status word and the code, data and extra segment registers of the process.
  The stack segment is the exception: it is taken from the user's memory as it is.\<close>

theorem sigreturn_protects:
  assumes "isokprocn p" "isuserp (procs s p)" "umap (procs s p) SegD ptr 72 = src" "src \<noteq> 0"
    and "read_words src 18 (kmem s) = ws" "ws ! 0 AND SC_SIGCONTEXT \<noteq> 0" "ws ! 0 AND SC_NOREGLOCALS = 0"
  shows "\<exists>s'. do_sigreturn p ptr s = Some (OK, s') \<and> p_reg (procs s' p) R_ss = ws ! 17
    \<and> (\<forall>r \<in> {R_psw, R_cs}. p_reg (procs s' p) r = p_reg (procs s p) r)
    \<and> (\<forall>r \<in> {R_ds, R_es, R_fs, R_gs}. p_reg (procs s' p) r = take_bit 16 (p_reg (procs s p) r))
    \<and> (\<forall>n. n \<noteq> p \<longrightarrow> procs s' n = procs s n) \<and> kmem s' = kmem s"
proof -
  have l: "length ws = 18" using assms(5) length_read_words by metis
  show ?thesis
    unfolding do_sigreturn_def assms(3) Let_def using assms(1,2,4-7) l
    by (simp add: upd_proc_def words_reg_def nth_drop del: read_words.simps)
qed

lemma sigreturn_protects_witness:
  "\<exists>s'. do_sigreturn 2 0 (idle_system\<lparr>kmem := write_words 122880 (2 # replicate 16 0 @ [77]) (\<lambda>_. 0)\<rparr>) = Some (OK, s')
    \<and> p_reg (procs s' 2) R_ss = 77"
proof -
  let ?ws = "2 # replicate 16 0 @ [77] :: u32 list"
  have l: "length ?ws = 18" by simp
  have rd: "read_words 122880 18 (write_words 122880 ?ws (\<lambda>_. 0)) = ?ws"
    using read_write_words [of ?ws 122880 "\<lambda>_. 0"] unfolding l by simp
  have u: "umap (idle_proc 2) SegD 0 72 = 122880"
    by (simp add: umap_def idle_map_def word_le_nat_alt)
  show ?thesis
    using sigreturn_protects [of 2 "idle_system\<lparr>kmem := write_words 122880 ?ws (\<lambda>_. 0)\<rparr>" 0 122880 ?ws] u rd
    by (auto simp: isokprocn_def nth_Cons' nth_append simp del: read_words.simps write_words.simps)
qed

subsection \<open>Address translation and memory maps\<close>



text \<open>The map words of a map written down.\<close>

lemma map_words_map: "length ws = 9 \<Longrightarrow> map_words (words_map ws) = ws"
  by (auto simp: map_words_def words_map_def numeral_eq_Suc length_Suc_conv)

lemma lock_ready_map:
  "lock_ready k s = Some s' \<Longrightarrow> p_map (procs s' n) = p_map (procs s n) \<and> kmem s' = kmem s"
  by (auto simp: lock_ready_def ready_def Let_def upd_proc_def split: if_splits option.splits)

text \<open>A memory map installed by \<^verbatim>\<open>do_newmap()\<close> is the one read back by
  \<^verbatim>\<open>do_getmap()\<close>, word for word, wherever in the caller's data it is read from and put;
  a new process that waited for its map only is runnable.\<close>

theorem map_round_trip:
  assumes "kinv s" "isokprocn k" "k \<noteq> HARDWARE" "schedulable (prio s k)" "isokprocn c" "c \<noteq> k"
    and "umap (procs s c) SegD p1 36 = src" "src \<noteq> 0" "umap (procs s c) SegD p2 36 = dst" "dst \<noteq> 0"
  shows "\<exists>s1 s2. do_newmap c k p1 s = Some (OK, s1) \<and> kinv s1 \<and> (flags s k = {NO_MAP} \<longrightarrow> k \<in> runnable s1)
    \<and> do_getmap c k p2 s1 = Some (OK, s2) \<and> read_words dst 9 (kmem s2) = read_words src 9 (kmem s)"
proof -
  have nz: "umap (procs s c) SegD p1 36 \<noteq> 0" using assms(7,8) by simp
  obtain s1 where s1: "do_newmap c k p1 s = Some (OK, s1)" "kinv s1" "\<forall>n. prio s1 n = prio s n"
    "\<forall>n. flags s1 n = (if n = k then flags s n - {NO_MAP} else flags s n)"
    using do_newmap_kinv [OF assms(1-5) nz] by (elim exE conjE) (rule that; assumption)
  have m: "p_map (procs s1 k) = words_map (read_words src 9 (kmem s))" "p_map (procs s1 c) = p_map (procs s c)" "kmem s1 = kmem s"
    using s1(1) assms(6,7) lock_ready_map
    by (auto simp: do_newmap_def Let_def alloc_segments_def upd_proc_def split: if_splits simp del: read_words.simps dest!: lock_ready_map)
  let ?s2 = "s1\<lparr>kmem := write_words dst (read_words src 9 (kmem s)) (kmem s1)\<rparr>"
  have "umap (procs s1 c) SegD p2 36 = dst" unfolding umap_def m(2) by (rule assms(9) [unfolded umap_def])
  then have g: "do_getmap c k p2 s1 = Some (OK, ?s2)"
    using assms(2,5,10) by (simp add: do_getmap_def m(1) map_words_map del: read_words.simps)
  have "read_words dst 9 (kmem ?s2) = read_words src 9 (kmem s)"
    using read_write_words [of "read_words src 9 (kmem s)" dst "kmem s1"] by simp
  moreover have "k \<in> runnable s1" if "flags s k = {NO_MAP}"
    using that s1(3,4) assms(2-4) by (simp add: runnable_def)
  ultimately show ?thesis using s1(1,2) g by blast
qed

lemma map_round_trip_witness:
  "\<exists>s1 s2. do_newmap 0 2 0 idle_system = Some (OK, s1) \<and> do_getmap 0 2 64 s1 = Some (OK, s2) \<and>
     read_words 102464 9 (kmem s2) = read_words 102400 9 (kmem idle_system)"
proof -
  have "umap (idle_proc 0) SegD 0 36 = 102400" "umap (idle_proc 0) SegD 64 36 = 102464"
    by (simp_all add: umap_def idle_map_def word_le_nat_alt)
  then show ?thesis using map_round_trip [OF idle_kinv, of 2 0 0 102400 64 102464]
    by (auto simp: isokprocn_def schedulable_def simp del: read_words.simps)
qed

text \<open>The memory found at boot is given to the memory manager once: each \<^verbatim>\<open>SYS_MEM\<close>
  answers the next chunk that is not empty and takes it from the kernel's list, and when none is
  left the answer has size 0.\<close>

lemma mem_loop_chunks:
  "case filter (\<lambda>c. snd c \<noteq> 0) ms of
     [] \<Rightarrow> (ms \<noteq> [] \<longrightarrow> snd (fst (mem_loop ms r)) = 0) \<and> filter (\<lambda>c. snd c \<noteq> 0) (snd (mem_loop ms r)) = []
   | c # cs \<Rightarrow> fst (mem_loop ms r) = c \<and> filter (\<lambda>c. snd c \<noteq> 0) (snd (mem_loop ms r)) = cs"
proof (induction ms r rule: mem_loop.induct)
  case (2 memp memps r)
  then show ?case by (auto simp: case_prod_beta split: list.split list.splits)
qed simp

theorem mem_given_once:
  assumes "mem s \<noteq> []"
  shows "(filter (\<lambda>c. snd c \<noteq> 0) (mem s) = c # cs \<longrightarrow>
       fst (do_mem r s) = c \<and> filter (\<lambda>c. snd c \<noteq> 0) (mem (snd (do_mem r s))) = cs)
    \<and> (filter (\<lambda>c. snd c \<noteq> 0) (mem s) = [] \<longrightarrow> snd (fst (do_mem r s)) = 0)"
  using mem_loop_chunks [of "mem s" r] assms by (auto simp: do_mem_def case_prod_beta)

lemma mem_given_once_witness:
  "fst (do_mem (0, 0) idle_system) = (2, 10)"
  using mem_given_once [of idle_system "(2, 10)" "[(200, 50)]" "(0, 0)"] by simp

end
