(* ===== verification/MM_State.thy ===== *)
theory MM_State
  imports Minix_Prelude
begin

text \<open>
  The memory manager's state (\<^verbatim>\<open>src/mm\<close>): its process table \<^verbatim>\<open>mproc[]\<close>,
  the table of holes of \<^verbatim>\<open>alloc.c\<close>, the swap variables and the globals of
  \<^verbatim>\<open>glo.h\<close>.

  The memory manager talks to the kernel and the file system by messages.  Every such request is
  recorded in the history \<open>hist\<close>, latest first, and answered by the environment \<open>env\<close>,
  an arbitrary function of the history so far.
\<close>

subsection \<open>The process table\<close>

datatype mflag = IN_USE | WAITING | ZOMBIE | PAUSED | ALARM_ON | SEPARATE | TRACED | STOPPED
  | SIGSUSPENDED | REPLY | ONSWAP | SWAPIN

record sigaction =
  sa_handler :: u32
  sa_mask :: u32
  sa_flags :: u32

abbreviation SIG_DFL :: u32 where "SIG_DFL \<equiv> 0"
abbreviation SIG_IGN :: u32 where "SIG_IGN \<equiv> 1"
abbreviation SA_RESETHAND :: u32 where "SA_RESETHAND \<equiv> 2"
abbreviation SA_NODEFER :: u32 where "SA_NODEFER \<equiv> 4"

text \<open>The fields \<^verbatim>\<open>reply_res\<close>, \<^verbatim>\<open>reply_res2\<close>,
  \<^verbatim>\<open>reply_ptr\<close>, \<^verbatim>\<open>reply_mask\<close> and \<open>reply_l2\<close> are the members of
  \<^verbatim>\<open>mp_reply\<close> that are used; \<^verbatim>\<open>uid_t\<close> has 16 bits,
  \<^verbatim>\<open>gid_t\<close> 8.\<close>

record mproc =
  mp_seg :: "seg \<Rightarrow> mem_map"
  mp_exitstatus :: u8
  mp_sigstatus :: u8
  mp_pid :: int
  mp_procgrp :: int
  mp_wpid :: int
  mp_parent :: int
  mp_realuid :: u16
  mp_effuid :: u16
  mp_realgid :: u8
  mp_effgid :: u8
  mp_ino :: int
  mp_dev :: int
  mp_ctime :: int
  mp_ignore :: u32
  mp_catch :: u32
  mp_sigmask :: u32
  mp_sigmask2 :: u32
  mp_sigpending :: u32
  mp_sigact :: "int \<Rightarrow> sigaction"
  mp_sigreturn :: u32
  mp_flags :: "mflag set"
  mp_procargs :: u32
  mp_swapq :: "int option"
  reply_res :: int
  reply_res2 :: u32
  reply_ptr :: u32
  reply_mask :: u32
  reply_l2 :: u32

record hole =
  h_next :: "nat option"
  h_base :: u32
  h_len :: u32

subsection \<open>Requests and answers\<close>

datatype fs_event = FsChdir | FsExec | FsReboot | FsExit | FsFork | FsSetgid | FsSetsid | FsSetuid | FsUnpause

datatype mm_req =
    SysGetsp int
  | SysNewmap int "seg \<Rightarrow> mem_map"
  | SysGetmap int
  | SysCopyAbs u32 u32 u32
  | SysCopyIn int u32 u32
  | SysCopyOut int u32 "u32 list"
  | SysFork int int int
  | SysXit int int
  | SysSendsig int "u32 list"
  | SysSigreturn int u32
  | SysEndsig int
  | SysTrace int int u32 u32
  | SysSysctl int int bool u32
  | SysMem
  | SetAlarm int u32
  | TellFs fs_event int int int
  | OpenFile "u8 list"
  | Close int
  | Lseek int u32
  | RwSeg bool int int seg u32
  | CoreDump int
  | SysAbort int
  | Fstat int
  | AccessFile "u8 list" int
  | ReadFile int u32
  | LseekCur int u32
  | SysZero u32 u32
  | SysCopyStack int u32 "u8 list"
  | SysExec int u32 bool "u8 list" u32
  | Reply int int

text \<open>An answer: the result and the data that came with it.\<close>

record mm_ans =
  an_res :: int
  an_vals :: "u32 list"

record mm =
  mproctab :: "int \<Rightarrow> mproc"
  mp :: int
  procs_in_use :: int
  who :: int
  next_pid :: int
  holes :: "nat \<Rightarrow> hole"
  hole_head :: "nat option"
  free_slots :: "nat option"
  swap_fd :: int
  swap_offset :: u32
  swap_base :: u32
  swap_maxsize :: u32
  in_queue :: "int option"
  outswap :: int
  core_sset :: u32
  ign_sset :: u32
  hist :: "mm_req list"
  env :: "mm_req list \<Rightarrow> mm_ans"

definition tell :: "mm_req \<Rightarrow> mm \<Rightarrow> mm" where
  [code_defs]: "tell q s = s\<lparr>hist := q # hist s\<rparr>"

definition ask :: "mm_req \<Rightarrow> mm \<Rightarrow> mm_ans \<times> mm" where
  "ask q s = (env s (q # hist s), tell q s)"

definition upd_mp :: "int \<Rightarrow> (mproc \<Rightarrow> mproc) \<Rightarrow> mm \<Rightarrow> mm" where
  [code_defs]: "upd_mp n f s = s\<lparr>mproctab := (mproctab s)(n := f (mproctab s n))\<rparr>"

definition upd_hole :: "nat \<Rightarrow> (hole \<Rightarrow> hole) \<Rightarrow> mm \<Rightarrow> mm" where
  [code_defs]: "upd_hole n f s = s\<lparr>holes := (holes s)(n := f (holes s n))\<rparr>"

abbreviation mflags :: "mm \<Rightarrow> int \<Rightarrow> mflag set" where
  "mflags s n \<equiv> mp_flags (mproctab s n)"

abbreviation mseg :: "mm \<Rightarrow> int \<Rightarrow> seg \<Rightarrow> mem_map" where
  "mseg s n \<equiv> mp_seg (mproctab s n)"

definition set_flags :: "mflag set \<Rightarrow> int \<Rightarrow> mm \<Rightarrow> mm" where
  [code_defs]: "set_flags F n s = upd_mp n (\<lambda>p. p\<lparr>mp_flags := mp_flags p \<union> F\<rparr>) s"

definition clear_flags :: "mflag set \<Rightarrow> int \<Rightarrow> mm \<Rightarrow> mm" where
  [code_defs]: "clear_flags F n s = upd_mp n (\<lambda>p. p\<lparr>mp_flags := mp_flags p - F\<rparr>) s"

text \<open>A process that runs or can run: neither a free slot nor a zombie.\<close>

definition live :: "mm \<Rightarrow> int \<Rightarrow> bool" where
  "live s n \<longleftrightarrow> 0 \<le> n \<and> n < NR_PROCS \<and> IN_USE \<in> mflags s n \<and> ZOMBIE \<notin> mflags s n"

text \<open>\<^verbatim>\<open>NR_PROCS\<close> slots in order; the user processes start with INIT.\<close>

definition all_slots :: "int list" where "all_slots = [0..31]"
definition user_slots :: "int list" where "user_slots = [2..31]"

lemma mem_slots [simp]: "n \<in> set all_slots \<longleftrightarrow> 0 \<le> n \<and> n < NR_PROCS" "n \<in> set user_slots \<longleftrightarrow> 2 \<le> n \<and> n < NR_PROCS"
  unfolding all_slots_def user_slots_def set_upto by auto

end
