(* ===== verification/MM_Alloc.thy ===== *)
theory MM_Alloc
  imports MM_State
begin

text \<open>
  Memory allocation, \<^verbatim>\<open>src/mm/alloc.c\<close>: the table of holes and first-fit allocation,
  with swapping out as the last resort.  The holes are linked through the table; \<open>hole_inv\<close>
  relates the table to the list of holes, sorted by address and fully merged.  \<open>None\<close> is a null
  pointer, the panic of a full table, or a loop that does not end.
\<close>

abbreviation NO_MEM :: u32 where "NO_MEM \<equiv> 0"
abbreviation LOW_USER :: int where "LOW_USER \<equiv> 2"

subsection \<open>The list of holes\<close>

definition del_slot :: "nat option \<Rightarrow> nat \<Rightarrow> mm \<Rightarrow> mm option" where
  "del_slot prev_ptr hp s =
     do {
       s1 \<leftarrow> (if hole_head s = Some hp then Some (s\<lparr>hole_head := h_next (holes s hp)\<rparr>)
             else case prev_ptr of
               None \<Rightarrow> None
             | Some p \<Rightarrow> Some (upd_hole p (\<lambda>h. h\<lparr>h_next := h_next (holes s hp)\<rparr>) s));
       let s2 = upd_hole hp (\<lambda>h. h\<lparr>h_next := free_slots s1\<rparr>) s1;
       Some (s2\<lparr>free_slots := Some hp\<rparr>)
     }"

text \<open>One half of \<^verbatim>\<open>merge()\<close>: absorb the successor if it adjoins; the result is the hole
  to go on with.\<close>

definition merge_next :: "nat \<Rightarrow> mm \<Rightarrow> (nat option \<times> mm) option" where
  "merge_next hp s =
     (case h_next (holes s hp) of
        None \<Rightarrow> Some (None, s)
      | Some next_ptr \<Rightarrow>
          if h_base (holes s hp) + h_len (holes s hp) = h_base (holes s next_ptr)
          then map_option (Pair (Some hp))
                 (del_slot (Some hp) next_ptr
                   (upd_hole hp (\<lambda>h. h\<lparr>h_len := h_len h + h_len (holes s next_ptr)\<rparr>) s))
          else Some (Some next_ptr, s))"

definition merge :: "nat \<Rightarrow> mm \<Rightarrow> mm option" where
  "merge hp s =
     do {
       (r, s1) \<leftarrow> merge_next hp s;
       case r of None \<Rightarrow> Some s1 | Some hp' \<Rightarrow> map_option snd (merge_next hp' s1)
     }"

text \<open>The scan of \<^verbatim>\<open>free_mem()\<close> for the place of a block: the last hole below it.\<close>

partial_function (option) free_place :: "(nat \<Rightarrow> hole) \<Rightarrow> u32 \<Rightarrow> nat \<Rightarrow> nat option" where
  "free_place tab base hp =
     (case h_next (tab hp) of
        None \<Rightarrow> Some hp
      | Some hp' \<Rightarrow> if base > h_base (tab hp') then free_place tab base hp' else Some hp)"

definition free_mem :: "u32 \<Rightarrow> u32 \<Rightarrow> mm \<Rightarrow> mm option" where
  "free_mem base clicks s =
     (if clicks = 0 then Some s
      else case free_slots s of
        None \<Rightarrow> None
      | Some new_ptr \<Rightarrow>
          let s1 = upd_hole new_ptr (\<lambda>h. h\<lparr>h_base := base, h_len := clicks\<rparr>) s;
              s2 = s1\<lparr>free_slots := h_next (holes s1 new_ptr)\<rparr>
          in case hole_head s2 of
               None \<Rightarrow> merge new_ptr ((upd_hole new_ptr (\<lambda>h. h\<lparr>h_next := None\<rparr>) s2)\<lparr>hole_head := Some new_ptr\<rparr>)
             | Some hp \<Rightarrow>
                 if base \<le> h_base (holes s2 hp)
                 then merge new_ptr ((upd_hole new_ptr (\<lambda>h. h\<lparr>h_next := Some hp\<rparr>) s2)\<lparr>hole_head := Some new_ptr\<rparr>)
                 else do {
                   prev_ptr \<leftarrow> free_place (holes s2) base hp;
                   let s3 = upd_hole new_ptr (\<lambda>h. h\<lparr>h_next := h_next (holes s2 prev_ptr)\<rparr>) s2;
                   merge prev_ptr (upd_hole prev_ptr (\<lambda>h. h\<lparr>h_next := Some new_ptr\<rparr>) s3)
                 })"

text \<open>
  The scans of \<^verbatim>\<open>alloc_mem()\<close> and \<^verbatim>\<open>swap_out()\<close> for a hole: the loop goes on
  while \<open>go\<close> holds and stops at a \<open>hit\<close>; the result is the hole and its predecessor.
\<close>

partial_function (option) find_hole ::
    "(hole \<Rightarrow> bool) \<Rightarrow> (hole \<Rightarrow> bool) \<Rightarrow> (nat \<Rightarrow> hole) \<Rightarrow> nat option \<Rightarrow> nat \<Rightarrow> (nat option \<times> nat) option option" where
  "find_hole go hit tab prev hp =
     (if \<not> go (tab hp) then Some None
      else if hit (tab hp) then Some (Some (prev, hp))
      else case h_next (tab hp) of
        None \<Rightarrow> Some None
      | Some hp' \<Rightarrow> find_hole go hit tab (Some hp) hp')"

text \<open>Biting a piece off a hole, which goes when used up.\<close>

definition bite :: "nat option \<Rightarrow> nat \<Rightarrow> u32 \<Rightarrow> mm \<Rightarrow> mm option" where
  "bite prev_ptr hp clicks s =
     (let s1 = upd_hole hp (\<lambda>h. h\<lparr>h_base := h_base h + clicks, h_len := h_len h - clicks\<rparr>) s
      in if h_len (holes s1 hp) = 0 then del_slot prev_ptr hp s1 else Some s1)"

subsection \<open>Frame: the holes alone change\<close>

text \<open>The states agree on everything but the holes.\<close>

definition set_holes :: "(nat \<Rightarrow> hole) \<Rightarrow> nat option \<Rightarrow> nat option \<Rightarrow> mm \<Rightarrow> mm" where
  "set_holes t h f s = s\<lparr>holes := t, hole_head := h, free_slots := f\<rparr>"

definition holes_only :: "mm \<Rightarrow> mm \<Rightarrow> bool" where
  "holes_only s s' \<longleftrightarrow> s' = set_holes (holes s') (hole_head s') (free_slots s') s"

lemma holes_only_trans: "holes_only s s' \<Longrightarrow> holes_only s' s'' \<Longrightarrow> holes_only s s''"
  unfolding holes_only_def set_holes_def
  by (erule ssubst) (erule ssubst, simp)

lemma holes_only_refl [simp]: "holes_only s s"
  by (simp add: holes_only_def set_holes_def)

lemma holes_only_upd [simp]:
  "holes_only s (upd_hole i f s)" "holes_only s (s\<lparr>hole_head := h\<rparr>)" "holes_only s (s\<lparr>free_slots := f'\<rparr>)"
  by (simp_all add: holes_only_def set_holes_def upd_hole_def)

lemma holes_only_steps:
  "holes_only s s' \<Longrightarrow> holes_only s (upd_hole i f s')" "holes_only s s' \<Longrightarrow> holes_only s (s'\<lparr>hole_head := h\<rparr>)"
  "holes_only s s' \<Longrightarrow> holes_only s (s'\<lparr>free_slots := f'\<rparr>)"
  by (blast intro: holes_only_trans holes_only_upd)+

lemma del_slot_only: "del_slot prev_ptr hp s = Some s' \<Longrightarrow> holes_only s s'"
  unfolding del_slot_def Let_def
  by (auto split: if_splits option.splits simp: holes_only_steps bind_eq_Some_conv)

lemma merge_next_only: "merge_next hp s = Some (r, s') \<Longrightarrow> holes_only s s'"
  unfolding merge_next_def
  by (auto split: if_splits option.splits dest!: del_slot_only intro: holes_only_trans [OF holes_only_upd(1)])

lemma merge_only: "merge hp s = Some s' \<Longrightarrow> holes_only s s'"
  unfolding merge_def
  by (auto split: option.splits simp: bind_eq_Some_conv dest!: merge_next_only intro: holes_only_trans)

lemma free_mem_only: "free_mem base clicks s = Some s' \<Longrightarrow> holes_only s s'"
  unfolding free_mem_def Let_def
  by (auto split: option.splits if_splits simp: bind_eq_Some_conv dest!: merge_only
      intro: holes_only_trans [rotated] simp: holes_only_steps)

lemma bite_only: "bite prev_ptr hp clicks s = Some s' \<Longrightarrow> holes_only s s'"
  unfolding bite_def Let_def
  by (auto split: if_splits dest!: del_slot_only intro: holes_only_trans [OF holes_only_upd(1)])

lemma holes_onlyD:
  assumes "holes_only s s'"
  shows "mproctab s' = mproctab s" "swap_base s' = swap_base s" "hist s' = hist s" "env s' = env s" "outswap s' = outswap s"
    "swap_fd s' = swap_fd s" "swap_offset s' = swap_offset s" "ign_sset s' = ign_sset s" "next_pid s' = next_pid s" "mp s' = mp s" "who s' = who s"
  by (subst assms [unfolded holes_only_def], simp add: set_holes_def)+

subsection \<open>Swapping out\<close>

text \<open>The clicks of the data and stack segments with the gap between them.\<close>

definition image_clicks :: "(seg \<Rightarrow> mem_map) \<Rightarrow> u32" where
  "image_clicks m = mem_vir (m SegS) + mem_len (m SegS) - mem_vir (m SegD)"

definition relocate :: "u32 \<Rightarrow> (seg \<Rightarrow> mem_map) \<Rightarrow> seg \<Rightarrow> mem_map" where
  "relocate new_base m =
     m(SegD := (m SegD)\<lparr>mem_phys := new_base\<rparr>,
       SegS := (m SegS)\<lparr>mem_phys := new_base + (mem_vir (m SegS) - mem_vir (m SegD))\<rparr>)"

definition swap_candidate :: "mm \<Rightarrow> int \<Rightarrow> bool" where
  "swap_candidate s rmp \<longleftrightarrow> mflags s rmp \<inter> {PAUSED, WAITING, SIGSUSPENDED} \<noteq> {}
     \<and> mflags s rmp \<inter> {TRACED, REPLY, ONSWAP} = {}"

text \<open>The body of the loop of \<^verbatim>\<open>swap_out()\<close> once a swap hole is found.\<close>

definition swap_one :: "int \<Rightarrow> nat option \<Rightarrow> nat \<Rightarrow> mm \<Rightarrow> mm option" where
  "swap_one rmp prev_ptr hp s =
     do {
       let size = image_clicks (mseg s rmp);
       let new_base = h_base (holes s hp);
       s1 \<leftarrow> bite prev_ptr hp size s;
       let off = swap_offset s1 + push_bit CLICK_SHIFT (new_base - swap_base s1);
       let s2 = tell (RwSeg True (swap_fd s1) rmp SegD (push_bit CLICK_SHIFT size)) (tell (Lseek (swap_fd s1) off) s1);
       let old_base = mem_phys (mseg s2 rmp SegD);
       let s3 = upd_mp rmp (\<lambda>p. p\<lparr>mp_seg := relocate new_base (mp_seg p)\<rparr>) s2;
       s4 \<leftarrow> free_mem old_base size (tell (SysNewmap rmp (mseg s3 rmp)) s3);
       Some ((set_flags {ONSWAP} rmp s4)\<lparr>outswap := rmp\<rparr>)
     }"

fun swap_try :: "int list \<Rightarrow> mm \<Rightarrow> (bool \<times> mm) option" where
  "swap_try [] s = Some (False, s)"
| "swap_try (rmp # rest) s =
     (if \<not> swap_candidate s rmp then swap_try rest s
      else do {
        let size = image_clicks (mseg s rmp);
        found \<leftarrow> (case hole_head s of
                   None \<Rightarrow> Some None
                 | Some hp \<Rightarrow> find_hole (\<lambda>h. True) (\<lambda>h. h_base h \<ge> swap_base s \<and> h_len h \<ge> size) (holes s) None hp);
        case found of
          None \<Rightarrow> swap_try rest s
        | Some (prev_ptr, hp) \<Rightarrow> map_option (Pair True) (swap_one rmp prev_ptr hp s)
      })"

text \<open>The slots from the one after \<^verbatim>\<open>outswap\<close> round to \<^verbatim>\<open>outswap\<close> itself.\<close>

definition swap_order :: "int \<Rightarrow> int list" where
  "swap_order k = filter (\<lambda>n. n > k) user_slots @ filter (\<lambda>n. n \<le> k) user_slots"

definition swap_out :: "mm \<Rightarrow> (bool \<times> mm) option" where
  "swap_out s = swap_try (swap_order (outswap s)) s"

subsection \<open>Allocation\<close>

text \<open>Every round of \<^verbatim>\<open>alloc_mem()\<close> swaps a candidate out, so the loop ends.\<close>

definition swap_candidates :: "mm \<Rightarrow> int set" where
  "swap_candidates s = {n \<in> set user_slots. swap_candidate s n}"

lemma swap_one_tab:
  assumes "swap_one rmp prev_ptr hp s = Some s'"
  shows "\<forall>n. n \<noteq> rmp \<longrightarrow> mproctab s' n = mproctab s n" "mflags s' rmp = mflags s rmp \<union> {ONSWAP}"
  using assms unfolding swap_one_def Let_def
  by (auto simp: bind_eq_Some_conv code_defs dest!: bite_only free_mem_only holes_onlyD(1))

lemma swap_one_candidates:
  assumes "swap_one rmp prev_ptr hp s = Some s'" "swap_candidate s rmp" "rmp \<in> set user_slots"
  shows "swap_candidates s' = swap_candidates s - {rmp} \<and> rmp \<in> swap_candidates s"
proof -
  note t = swap_one_tab [OF assms(1)]
  have "swap_candidate s' n \<longleftrightarrow> n \<noteq> rmp \<and> swap_candidate s n" for n
  proof (cases "n = rmp")
    case True
    then show ?thesis using t(2) by (auto simp: swap_candidate_def)
  next
    case False
    then show ?thesis using t(1) by (simp add: swap_candidate_def)
  qed
  then show ?thesis using assms(2,3) unfolding swap_candidates_def by auto
qed

abbreviation swap_hit :: "mm \<Rightarrow> int \<Rightarrow> hole \<Rightarrow> bool" where
  "swap_hit s rmp \<equiv> \<lambda>h. h_base h \<ge> swap_base s \<and> h_len h \<ge> image_clicks (mseg s rmp)"

definition swap_found :: "mm \<Rightarrow> int \<Rightarrow> (nat option \<times> nat) option option" where
  "swap_found s rmp = (case hole_head s of None \<Rightarrow> Some None | Some hp \<Rightarrow> find_hole (\<lambda>h. True) (swap_hit s rmp) (holes s) None hp)"

lemma swap_try_Cons: "swap_try (rmp # rest) s =
    (if \<not> swap_candidate s rmp then swap_try rest s
     else case swap_found s rmp of None \<Rightarrow> None | Some None \<Rightarrow> swap_try rest s
       | Some (Some (prev_ptr, hp)) \<Rightarrow> map_option (Pair True) (swap_one rmp prev_ptr hp s))"
  by (cases "swap_found s rmp") (auto simp: swap_found_def Let_def split: option.splits)

lemma swap_try_elim:
  "swap_try ns s = Some (r, s') \<Longrightarrow> (\<not> r \<and> s' = s) \<or> (r \<and> (\<exists>rmp \<in> set ns. \<exists>prev_ptr hp. swap_candidate s rmp
     \<and> swap_found s rmp = Some (Some (prev_ptr, hp)) \<and> swap_one rmp prev_ptr hp s = Some s'))"
  by (induction ns) (auto simp: swap_try_Cons simp del: swap_try.simps(2) split: if_splits option.splits)

lemma swap_try_candidates:
  assumes "swap_try ns s = Some (True, s')" "set ns \<subseteq> set user_slots"
  shows "\<exists>rmp \<in> swap_candidates s. swap_candidates s' = swap_candidates s - {rmp}"
  using swap_try_elim [OF assms(1)] assms(2) swap_one_candidates by blast

lemma swap_order_set: "set (swap_order k) = set user_slots"
  by (auto simp: swap_order_def)

lemma swap_out_decreases:
  assumes "swap_out s = Some (True, s')"
  shows "card (swap_candidates s') < card (swap_candidates s)"
proof -
  obtain rmp where r: "rmp \<in> swap_candidates s" "swap_candidates s' = swap_candidates s - {rmp}"
    using swap_try_candidates assms swap_order_set unfolding swap_out_def by blast
  have "finite (swap_candidates s)" by (simp add: swap_candidates_def del: mem_slots)
  then show ?thesis using r by (simp only: r(2)) (rule card_Diff1_less)
qed

function alloc_mem :: "u32 \<Rightarrow> mm \<Rightarrow> (u32 \<times> mm) option" where
  "alloc_mem clicks s =
     do {
       found \<leftarrow> (case hole_head s of
                  None \<Rightarrow> Some None
                | Some hp \<Rightarrow> find_hole (\<lambda>h. h_base h < swap_base s) (\<lambda>h. h_len h \<ge> clicks) (holes s) None hp);
       case found of
         Some (prev_ptr, hp) \<Rightarrow> map_option (Pair (h_base (holes s hp))) (bite prev_ptr hp clicks s)
       | None \<Rightarrow>
           (case swap_out s of
              None \<Rightarrow> None
            | Some (swapped, s') \<Rightarrow> if swapped then alloc_mem clicks s' else Some (NO_MEM, s'))
     }"
  by pat_completeness auto
termination
  by (relation "measure (\<lambda>(clicks, s). card (swap_candidates s))") (auto simp: swap_out_decreases)

declare alloc_mem.simps [simp del]

subsection \<open>Initialisation\<close>

text \<open>\<^verbatim>\<open>mem_init()\<close>: the table of free slots, then one hole per chunk the kernel reports
  (base, size, total); it loops until a chunk of size 0.  \<open>chunks\<close> counts the answers looked at.\<close>

fun mem_chunks :: "nat \<Rightarrow> u32 \<Rightarrow> u32 \<Rightarrow> mm \<Rightarrow> (u32 \<times> u32 \<times> mm) option" where
  "mem_chunks 0 tot free s = None"
| "mem_chunks (Suc n) tot free s =
     (let (a, s1) = ask SysMem s
      in if an_res a \<noteq> OK then None
         else let base = an_vals a ! 0; size = an_vals a ! 1
         in if size = 0 then Some (tot, free, s1)
            else do {
              s2 \<leftarrow> free_mem base size s1;
              mem_chunks n (an_vals a ! 2) (free + size)
                (if swap_base s2 < base + size then s2\<lparr>swap_base := base + size\<rparr> else s2)
            })"

definition mem_init :: "nat \<Rightarrow> u32 \<Rightarrow> mm \<Rightarrow> (u32 \<times> u32 \<times> mm) option" where
  "mem_init fuel tot s =
     do {
       let s1 = s\<lparr>holes := (\<lambda>i. (holes s i)\<lparr>h_next := (if i + 1 < NR_HOLES then Some (i + 1) else None)\<rparr>),
                   hole_head := None, free_slots := Some 0\<rparr>;
       (tot, free, s2) \<leftarrow> mem_chunks fuel tot 0 s1;
       let s3 = s2\<lparr>swap_base := swap_base s2 + 1\<rparr>;
       Some (tot, free, s3\<lparr>swap_maxsize := 0 - swap_base s3\<rparr>)
     }"

end
