(* ===== verification/MM_Alloc_Inv.thy ===== *)
theory MM_Alloc_Inv
  imports MM_Alloc
begin

text \<open>
  The holes as a list of spans (base, length): sorted, not empty, apart from each other by at least
  one click, so that no two of them could be merged.  Allocation and freeing are set subtraction and
  union on the clicks covered.
\<close>

subsection \<open>Spans\<close>

type_synonym span = "nat \<times> nat"

definition span_ok :: "span \<Rightarrow> bool" where
  "span_ok p \<longleftrightarrow> 0 < fst p \<and> 0 < snd p \<and> fst p + snd p \<le> 2 ^ 32"

definition gaps :: "span list \<Rightarrow> bool" where
  "gaps = sorted_wrt (\<lambda>p q. fst p + snd p < fst q)"

definition weakly :: "span list \<Rightarrow> bool" where
  "weakly = sorted_wrt (\<lambda>p q. fst p + snd p \<le> fst q)"

definition block :: "nat \<Rightarrow> nat \<Rightarrow> nat set" where
  "block b n = {b..<b + n}"

definition cover :: "span list \<Rightarrow> nat set" where
  "cover xs = (\<Union>p \<in> set xs. block (fst p) (snd p))"

lemma cover_simps [simp]: "cover [] = {}" "cover (p # xs) = block (fst p) (snd p) \<union> cover xs"
  "cover (xs @ ys) = cover xs \<union> cover ys"
  by (auto simp: cover_def)

lemma block_empty [simp]: "block b n = {} \<longleftrightarrow> n = 0"
  by (auto simp: block_def)

lemma block_join: "block b n \<union> block (b + n) m = block b (n + m)"
  by (auto simp: block_def)

lemma block_split: "k \<le> n \<Longrightarrow> block b n - block b k = block (b + k) (n - k)"
  by (auto simp: block_def)

lemma block_disjoint: "0 < n \<Longrightarrow> 0 < m \<Longrightarrow> block b n \<inter> block c m = {} \<longleftrightarrow> b + n \<le> c \<or> c + m \<le> b"
proof
  assume a: "0 < n" "0 < m" "block b n \<inter> block c m = {}"
  have "max b c \<notin> block b n \<inter> block c m" using a(3) by simp
  then show "b + n \<le> c \<or> c + m \<le> b" using a(1,2) by (auto simp: block_def max_def split: if_splits)
qed (auto simp: block_def)

text \<open>\<^verbatim>\<open>merge()\<close> on spans: at most two absorptions from the first span on.\<close>

definition absorb :: "span list \<Rightarrow> span list" where
  "absorb xs = (case xs of p # q # r \<Rightarrow> if fst p + snd p = fst q then (fst p, snd p + snd q) # r else xs | _ \<Rightarrow> xs)"

definition merged :: "span list \<Rightarrow> span list" where
  "merged xs = (case xs of p # q # r \<Rightarrow> if fst p + snd p = fst q then absorb ((fst p, snd p + snd q) # r) else p # absorb (q # r) | _ \<Rightarrow> xs)"

lemma absorb_spec:
  assumes "weakly (p # xs)" "gaps xs" "\<forall>q \<in> set (p # xs). span_ok q"
  shows "gaps (absorb (p # xs)) \<and> cover (absorb (p # xs)) = cover (p # xs) \<and> (\<forall>q \<in> set (absorb (p # xs)). span_ok q)
    \<and> (\<exists>k ys. absorb (p # xs) = (fst p, k) # ys) \<and> (\<forall>q \<in> set (absorb (p # xs)). fst p \<le> fst q)"
proof (cases xs)
  case Nil
  then show ?thesis by (cases p) (use assms in \<open>auto simp: absorb_def gaps_def\<close>)
next
  case (Cons q r)
  have m: "fst p + snd p = fst q \<Longrightarrow> block (fst p) (snd p) \<union> block (fst q) (snd q) = block (fst p) (snd p + snd q)"
    using block_join [of "fst p" "snd p" "snd q"] by simp
  show ?thesis
  proof (cases "fst p + snd p = fst q")
    case True
    then have e: "absorb (p # xs) = (fst p, snd p + snd q) # r" by (simp add: absorb_def Cons)
    have "gaps ((fst p, snd p + snd q) # r)" using assms(2) True unfolding Cons gaps_def by (auto simp: add.assoc [symmetric])
    moreover have "cover ((fst p, snd p + snd q) # r) = cover (p # xs)"
      using m [OF True] by (simp add: Cons Un_assoc [symmetric])
    moreover have "\<forall>q \<in> set ((fst p, snd p + snd q) # r). span_ok q"
      using assms(3) True by (auto simp: Cons span_ok_def)
    moreover have "\<forall>q \<in> set ((fst p, snd p + snd q) # r). fst p \<le> fst q"
      using assms(1) by (auto simp: Cons weakly_def)
    ultimately show ?thesis by (simp add: e)
  next
    case False
    then have e: "absorb (p # xs) = p # xs" by (simp add: absorb_def Cons)
    have "fst p + snd p < fst q" using assms(1) False by (auto simp: Cons weakly_def)
    moreover have "fst q \<le> fst z" if "z \<in> set r" for z
      using assms(2) that by (auto simp: Cons gaps_def dest: add_leD1 less_imp_le_nat)
    ultimately have "gaps (p # xs)" using assms(2) by (fastforce simp: Cons gaps_def)
    moreover have "\<forall>q \<in> set (p # xs). fst p \<le> fst q" using assms(1) by (auto simp: weakly_def)
    moreover have "\<exists>k ys. p # xs = (fst p, k) # ys" by (cases p) auto
    ultimately show ?thesis using assms(3) unfolding e by blast
  qed
qed

lemma merged_spec:
  assumes "weakly (p # xs)" "gaps (tl xs)" "\<forall>q \<in> set (p # xs). span_ok q"
  shows "gaps (merged (p # xs)) \<and> cover (merged (p # xs)) = cover (p # xs) \<and> (\<forall>q \<in> set (merged (p # xs)). span_ok q)
    \<and> (\<exists>k ys. merged (p # xs) = (fst p, k) # ys) \<and> (\<forall>q \<in> set (merged (p # xs)). fst p \<le> fst q)"
proof (cases xs)
  case Nil
  then show ?thesis by (cases p) (use assms in \<open>auto simp: merged_def gaps_def\<close>)
next
  case (Cons q r)
  show ?thesis
  proof (cases "fst p + snd p = fst q")
    case True
    let ?p = "(fst p, snd p + snd q)"
    have e: "merged (p # xs) = absorb (?p # r)" using True by (simp add: merged_def Cons)
    have "weakly (?p # r)" "gaps r" "\<forall>q \<in> set (?p # r). span_ok q"
      using assms True by (auto simp: Cons weakly_def span_ok_def)
    from absorb_spec [OF this] show ?thesis
      using block_join [of "fst p" "snd p" "snd q"] True by (simp add: e [unfolded Cons] Cons Un_assoc [symmetric])
  next
    case False
    have e: "merged (p # xs) = p # absorb (q # r)" using False by (simp add: merged_def Cons)
    have a: "gaps (absorb (q # r))" "cover (absorb (q # r)) = cover (q # r)" "\<forall>z \<in> set (absorb (q # r)). span_ok z"
      "\<forall>z \<in> set (absorb (q # r)). fst q \<le> fst z"
      using absorb_spec [of q r] assms by (auto simp: Cons weakly_def)
    have lt: "fst p + snd p < fst q" using assms(1) False by (auto simp: Cons weakly_def)
    have "gaps (p # absorb (q # r))" using a(1,4) lt by (fastforce simp: gaps_def)
    moreover have "\<forall>z \<in> set (p # absorb (q # r)). fst p \<le> fst z" using a(4) lt by fastforce
    moreover have "\<exists>k ys. p # absorb (q # r) = (fst p, k) # ys" by (cases p) auto
    ultimately show ?thesis using a(2,3) assms(3) by (simp add: e [unfolded Cons] Cons)
  qed
qed

lemma gaps_weakly: "gaps xs \<Longrightarrow> weakly xs"
  unfolding gaps_def weakly_def by (rule sorted_wrt_mono_rel) auto

lemma gaps_append: "gaps (xs @ ys) \<longleftrightarrow> gaps xs \<and> gaps ys \<and> (\<forall>p \<in> set xs. \<forall>q \<in> set ys. fst p + snd p < fst q)"
  by (simp add: gaps_def sorted_wrt_append)


subsection \<open>The table of holes\<close>

abbreviation hnext :: "mm \<Rightarrow> nat \<Rightarrow> nat option" where
  "hnext s \<equiv> \<lambda>i. h_next (holes s i)"

definition hspan :: "mm \<Rightarrow> nat \<Rightarrow> span" where
  "hspan s i = (unat (h_base (holes s i)), unat (h_len (holes s i)))"

definition hole_links :: "mm \<Rightarrow> nat list \<Rightarrow> nat list \<Rightarrow> bool" where
  "hole_links s hs fs \<longleftrightarrow> chain (hnext s) (hole_head s) hs \<and> chain (hnext s) (free_slots s) fs
     \<and> set hs \<inter> set fs = {} \<and> set hs \<union> set fs = {..<NR_HOLES}"

definition hole_inv :: "mm \<Rightarrow> nat list \<Rightarrow> nat list \<Rightarrow> bool" where
  "hole_inv s hs fs \<longleftrightarrow> hole_links s hs fs \<and> gaps (map (hspan s) hs) \<and> (\<forall>i \<in> set hs. span_ok (hspan s i))"

definition free_clicks :: "mm \<Rightarrow> nat list \<Rightarrow> nat set" where
  "free_clicks s hs = cover (map (hspan s) hs)"

lemma hole_linksD:
  assumes "hole_links s hs fs"
  shows "chain (hnext s) (hole_head s) hs" "chain (hnext s) (free_slots s) fs" "set hs \<inter> set fs = {}"
    "distinct hs" "distinct fs" "set hs \<union> set fs = {..<NR_HOLES}"
  using assms chain_distinct unfolding hole_links_def by blast+

text \<open>Removing an entry: it goes to the free slots.\<close>

lemma del_slot_spec:
  assumes l: "hole_links s (us @ x # vs) fs" and p: "us \<noteq> [] \<Longrightarrow> prev = Some (last us)"
  shows "\<exists>s'. del_slot prev x s = Some s' \<and> hole_links s' (us @ vs) (x # fs) \<and> holes_only s s'
    \<and> (\<forall>i. hspan s' i = hspan s i)"
proof -
  note d = hole_linksD [OF l]
  show ?thesis
  proof (cases us rule: rev_cases)
    case Nil
    let ?s = "(upd_hole x (\<lambda>h. h\<lparr>h_next := free_slots s\<rparr>) (s\<lparr>hole_head := h_next (holes s x)\<rparr>))\<lparr>free_slots := Some x\<rparr>"
    have h: "hole_head s = Some x" using d(1) Nil by simp
    have n: "hnext ?s = (hnext s)(x := free_slots s)" by (auto simp: upd_hole_def)
    have "chain (hnext ?s) (hole_head ?s) vs"
      unfolding n using d(1,4) Nil by (simp add: chain_upd_other upd_hole_def)
    moreover have "chain (hnext ?s) (free_slots ?s) (x # fs)"
      unfolding n using d(2,3) Nil by (auto simp: chain_upd_other)
    ultimately have "hole_links ?s vs (x # fs)"
      unfolding hole_links_def using d(3,4,6) Nil by auto
    moreover have "del_slot prev x s = Some ?s" using h by (simp add: del_slot_def)
    moreover have "holes_only s ?s" by (simp add: holes_only_steps)
    moreover have "hspan ?s i = hspan s i" for i by (simp add: hspan_def upd_hole_def)
    ultimately show ?thesis using Nil by auto
  next
    case (snoc us' a)
    let ?s = "(upd_hole x (\<lambda>h. h\<lparr>h_next := free_slots s\<rparr>) (upd_hole a (\<lambda>h. h\<lparr>h_next := h_next (holes s x)\<rparr>) s))\<lparr>free_slots := Some x\<rparr>"
    have ne: "hole_head s \<noteq> Some x" using d(1,4) snoc chain_hd [OF d(1)] by (auto simp: hd_append split: if_splits)
    have ax: "a \<noteq> x" using d(4) snoc by auto
    have n: "hnext ?s = ((hnext s)(a := hnext s x))(x := free_slots s)" using ax by (auto simp: upd_hole_def)
    have "chain ((hnext s)(a := hnext s x)) (hole_head s) (us' @ a # vs)"
      by (rule chain_unlink) (use d(1) snoc in simp)
    then have "chain (hnext ?s) (hole_head ?s) (us @ vs)"
      unfolding n using d(4) snoc by (simp add: chain_upd_other upd_hole_def)
    moreover have "chain (hnext ?s) (free_slots ?s) (x # fs)"
      unfolding n using d(2,3) snoc by (auto simp: chain_upd_other)
    ultimately have "hole_links ?s (us @ vs) (x # fs)"
      unfolding hole_links_def using d(3,4,6) snoc by auto
    moreover have "del_slot prev x s = Some ?s" using ne p snoc by (simp add: del_slot_def upd_hole_def)
    moreover have "holes_only s ?s" by (simp add: holes_only_steps)
    moreover have "hspan ?s i = hspan s i" for i by (simp add: hspan_def upd_hole_def)
    ultimately show ?thesis by blast
  qed
qed

subsection \<open>Merging\<close>

lemma hspan_touch:
  assumes "span_ok (hspan s x)" "fst (hspan s x) + snd (hspan s x) \<le> fst (hspan s y)"
  shows "h_base (holes s x) + h_len (holes s x) = h_base (holes s y)
    \<longleftrightarrow> fst (hspan s x) + snd (hspan s x) = fst (hspan s y)"
proof -
  have "unat (h_base (holes s x)) + unat (h_len (holes s x)) < 2 ^ 32"
    using assms(2) unsigned_less [of "h_base (holes s y)", where ?'a = nat] by (simp add: hspan_def)
  then have "unat (h_base (holes s x) + h_len (holes s x)) = unat (h_base (holes s x)) + unat (h_len (holes s x))"
    by (subst unat_add_lem [symmetric]) simp
  then show ?thesis unfolding hspan_def by (simp add: word_unat_eq_iff)
qed

lemma merge_next_nil: "hole_links s (us @ [x]) fs \<Longrightarrow> merge_next x s = Some (None, s)"
  using chain_last_None [of "hnext s" "hole_head s" "us @ [x]"] by (simp add: merge_next_def hole_links_def)

lemma chain_next: "chain nx p (us @ x # y # vs) \<Longrightarrow> nx x = Some y"
  by (induction us arbitrary: p) auto

lemma merge_next_apart:
  assumes "hole_links s (us @ x # y # vs) fs" "span_ok (hspan s x)" "fst (hspan s x) + snd (hspan s x) < fst (hspan s y)"
  shows "merge_next x s = Some (Some y, s)"
proof -
  have "hnext s x = Some y" using chain_next [of "hnext s" "hole_head s" us x y vs] assms(1) by (simp add: hole_links_def)
  then show ?thesis using hspan_touch [of s x y] assms(2,3) by (simp add: merge_next_def)
qed

lemma merge_next_touch:
  assumes l: "hole_links s (us @ x # y # vs) fs" and o: "span_ok (hspan s x)" "span_ok (hspan s y)"
    and t: "fst (hspan s x) + snd (hspan s x) = fst (hspan s y)"
  shows "\<exists>s'. merge_next x s = Some (Some x, s') \<and> hole_links s' (us @ x # vs) (y # fs) \<and> holes_only s s'
    \<and> hspan s' = (hspan s)(x := (fst (hspan s x), snd (hspan s x) + snd (hspan s y)))"
proof -
  let ?s = "upd_hole x (\<lambda>h. h\<lparr>h_len := h_len h + h_len (holes s y)\<rparr>) s"
  have n: "hnext s x = Some y" using chain_next [of "hnext s" "hole_head s" us x y vs] l by (simp add: hole_links_def)
  have e: "hnext ?s = hnext s" "hole_head ?s = hole_head s" "free_slots ?s = free_slots s" by (auto simp: upd_hole_def)
  have l': "hole_links ?s ((us @ [x]) @ y # vs) fs" using l unfolding hole_links_def e by simp
  obtain s' where s': "del_slot (Some x) y ?s = Some s'" "hole_links s' ((us @ [x]) @ vs) (y # fs)" "holes_only ?s s'"
    "\<forall>i. hspan s' i = hspan ?s i"
    using del_slot_spec [OF l', of "Some x"] by auto
  have "merge_next x s = Some (Some x, s')"
    using n s'(1) hspan_touch [of s x y] o t by (simp add: merge_next_def)
  moreover have "holes_only s s'" using s'(3) holes_only_upd(1) holes_only_trans by blast
  moreover have "hspan s' = (hspan s)(x := (fst (hspan s x), snd (hspan s x) + snd (hspan s y)))"
  proof
    fix i
    have "unat (h_len (holes s x)) + unat (h_len (holes s y)) < 2 ^ 32"
      using o t unfolding hspan_def span_ok_def by simp
    then have "unat (h_len (holes s x) + h_len (holes s y)) = unat (h_len (holes s x)) + unat (h_len (holes s y))"
      by (subst unat_add_lem [symmetric]) simp
    then show "hspan s' i = ((hspan s)(x := (fst (hspan s x), snd (hspan s x) + snd (hspan s y)))) i"
      using s'(4) by (simp add: hspan_def upd_hole_def)
  qed
  ultimately show ?thesis using s'(2) by auto
qed

text \<open>The second half of \<^verbatim>\<open>merge()\<close>, and the whole.\<close>

lemma merge_next_spec:
  assumes l: "hole_links s (us @ x # vs) fs" and w: "weakly (map (hspan s) (x # vs))" and o: "\<forall>i \<in> set (x # vs). span_ok (hspan s i)"
  shows "\<exists>r s' vs' fs'. merge_next x s = Some (r, s') \<and> hole_links s' (us @ x # vs') fs' \<and> holes_only s s'
    \<and> map (hspan s') (x # vs') = absorb (map (hspan s) (x # vs)) \<and> (\<forall>i. i \<noteq> x \<longrightarrow> hspan s' i = hspan s i)"
proof (cases vs)
  case Nil
  then have "map (hspan s) (x # vs) = absorb (map (hspan s) (x # vs))" by (simp add: absorb_def)
  then show ?thesis using merge_next_nil [of s us x fs] l Nil holes_only_refl by blast
next
  case (Cons y ws)
  have le: "fst (hspan s x) + snd (hspan s x) \<le> fst (hspan s y)" using w by (simp add: Cons weakly_def)
  have d: "x \<notin> set ws" using hole_linksD(4) [OF l] Cons by auto
  show ?thesis
  proof (cases "fst (hspan s x) + snd (hspan s x) = fst (hspan s y)")
    case True
    obtain s' where s': "merge_next x s = Some (Some x, s')" "hole_links s' (us @ x # ws) (y # fs)" "holes_only s s'"
      "hspan s' = (hspan s)(x := (fst (hspan s x), snd (hspan s x) + snd (hspan s y)))"
      using merge_next_touch [of s us x y ws fs] l o True Cons by auto
    have "map (hspan s') (x # ws) = absorb (map (hspan s) (x # vs))"
      using True d by (simp add: s'(4) absorb_def Cons)
    then show ?thesis using s'(1-3) s'(4) by (intro exI [of _ "Some x"] exI [of _ s'] exI [of _ ws] exI [of _ "y # fs"]) auto
  next
    case False
    then have "merge_next x s = Some (Some y, s)" using merge_next_apart [of s us x y ws fs] l o le Cons by simp
    moreover have "map (hspan s) (x # vs) = absorb (map (hspan s) (x # vs))" using False by (simp add: absorb_def Cons)
    ultimately show ?thesis using l holes_only_refl by blast
  qed
qed

lemma merge_spec:
  assumes l: "hole_links s (us @ x # vs) fs" and w: "weakly (map (hspan s) (x # vs))" and o: "\<forall>i \<in> set (x # vs). span_ok (hspan s i)"
  shows "\<exists>s' vs' fs'. merge x s = Some s' \<and> hole_links s' (us @ x # vs') fs' \<and> holes_only s s'
    \<and> map (hspan s') (x # vs') = merged (map (hspan s) (x # vs)) \<and> (\<forall>i \<in> set us. hspan s' i = hspan s i)"
proof (cases vs)
  case Nil
  then have "map (hspan s) (x # vs) = merged (map (hspan s) (x # vs))" by (simp add: merged_def)
  moreover have "merge x s = Some s" using merge_next_nil [of s us x fs] l Nil by (simp add: merge_def)
  ultimately show ?thesis using l holes_only_refl by blast
next
  case (Cons y ws)
  have le: "fst (hspan s x) + snd (hspan s x) \<le> fst (hspan s y)" using w by (simp add: Cons weakly_def)
  have d: "x \<notin> set ws" "x \<notin> set us" "y \<notin> set us" using hole_linksD(4) [OF l] Cons by auto
  show ?thesis
  proof (cases "fst (hspan s x) + snd (hspan s x) = fst (hspan s y)")
    case True
    obtain s1 where s1: "merge_next x s = Some (Some x, s1)" "hole_links s1 (us @ x # ws) (y # fs)" "holes_only s s1"
      "hspan s1 = (hspan s)(x := (fst (hspan s x), snd (hspan s x) + snd (hspan s y)))"
      using merge_next_touch [of s us x y ws fs] l o True Cons by auto
    have m: "map (hspan s1) (x # ws) = (fst (hspan s x), snd (hspan s x) + snd (hspan s y)) # map (hspan s) ws"
      using d by (simp add: s1(4))
    have "weakly (map (hspan s1) (x # ws))" using w True unfolding m by (auto simp: Cons weakly_def)
    moreover have "\<forall>i \<in> set (x # ws). span_ok (hspan s1 i)"
      using o True by (auto simp: s1(4) Cons span_ok_def)
    ultimately obtain r s' vs' fs' where s': "merge_next x s1 = Some (r, s')" "hole_links s' (us @ x # vs') fs'" "holes_only s1 s'"
      "map (hspan s') (x # vs') = absorb (map (hspan s1) (x # ws))" "\<forall>i. i \<noteq> x \<longrightarrow> hspan s' i = hspan s1 i"
      using merge_next_spec [OF s1(2)] by blast
    have "merge x s = Some s'" using s1(1) s'(1) by (simp add: merge_def)
    moreover have "map (hspan s') (x # vs') = merged (map (hspan s) (x # vs))"
      using s'(4) True unfolding m by (simp add: merged_def Cons)
    moreover have "\<forall>i \<in> set us. hspan s' i = hspan s i" using s'(5) d(2) by (auto simp: s1(4))
    moreover have "holes_only s s'" using holes_only_trans s1(3) s'(3) by blast
    ultimately show ?thesis using s'(2) by blast
  next
    case False
    then have m1: "merge_next x s = Some (Some y, s)" using merge_next_apart [of s us x y ws fs] l o le Cons by simp
    obtain r s' vs' fs' where s': "merge_next y s = Some (r, s')" "hole_links s' ((us @ [x]) @ y # vs') fs'" "holes_only s s'"
      "map (hspan s') (y # vs') = absorb (map (hspan s) (y # ws))" "\<forall>i. i \<noteq> y \<longrightarrow> hspan s' i = hspan s i"
      using merge_next_spec [of s "us @ [x]" y ws fs] l o w unfolding Cons weakly_def by auto
    have xy: "x \<noteq> y" using hole_linksD(4) [OF l] Cons by auto
    have "merge x s = Some s'" using m1 s'(1) by (simp add: merge_def)
    moreover have "map (hspan s') (x # y # vs') = merged (map (hspan s) (x # vs))"
      using s'(4,5) False xy by (simp add: merged_def Cons)
    moreover have "\<forall>i \<in> set us. hspan s' i = hspan s i" using s'(5) d(3) by auto
    ultimately show ?thesis using s'(2,3) by (intro exI [of _ s'] exI [of _ "y # vs'"] exI [of _ fs']) auto
  qed
qed

subsection \<open>Freeing\<close>

lemma free_place_spec:
  assumes "chain (\<lambda>i. h_next (tab i)) (Some hp) hs" "h_base (tab hp) < base" "sorted_wrt (\<lambda>i j. h_base (tab i) < h_base (tab j)) hs"
  shows "\<exists>us x vs. free_place tab base hp = Some x \<and> hs = us @ x # vs \<and> (\<forall>i \<in> set (us @ [x]). h_base (tab i) < base)
    \<and> (\<forall>i \<in> set vs. base \<le> h_base (tab i))"
  using assms
proof (induction hs arbitrary: hp)
  case Nil
  then show ?case by simp
next
  case (Cons i hs)
  then have i: "i = hp" and ch: "chain (\<lambda>i. h_next (tab i)) (h_next (tab hp)) hs" by auto
  show ?case
  proof (cases "h_next (tab hp)")
    case None
    then have "hs = []" "free_place tab base hp = Some hp" using ch by (simp_all add: free_place.simps)
    then show ?thesis using i Cons.prems(2) by (intro exI [of _ "[]"] exI [of _ hp]) simp
  next
    case (Some hp')
    show ?thesis
    proof (cases "h_base (tab hp') < base")
      case True
      have "free_place tab base hp = free_place tab base hp'" using Some True by (subst free_place.simps) simp
      moreover obtain us x vs where "free_place tab base hp' = Some x" "hs = us @ x # vs" "\<forall>i \<in> set (us @ [x]). h_base (tab i) < base"
        "\<forall>i \<in> set vs. base \<le> h_base (tab i)"
        using Cons.IH [of hp'] ch Some True Cons.prems(3) by auto
      ultimately show ?thesis using i Cons.prems(2) by (intro exI [of _ "i # us"] exI [of _ x] exI [of _ vs]) auto
    next
      case False
      have e: "free_place tab base hp = Some hp" using Some False by (subst free_place.simps) simp
      obtain ys where "hs = hp' # ys" using ch Some by (cases hs) auto
      then have "\<forall>i \<in> set hs. base \<le> h_base (tab i)"
        using Cons.prems(3) False by (auto simp: word_le_nat_alt word_less_nat_alt)
      then show ?thesis using e i Cons.prems(2) by (intro exI [of _ "[]"] exI [of _ hp] exI [of _ hs]) simp
    qed
  qed
qed

text \<open>Linking a free slot in front of the list, or behind one of its members.\<close>

lemma hole_link_front:
  assumes l: "hole_links s hs (n # fs)"
    and s': "hnext s' = (hnext s)(n := hole_head s)" "hole_head s' = Some n" "free_slots s' = hnext s n"
  shows "hole_links s' (n # hs) fs"
proof -
  note d = hole_linksD [OF l]
  have "chain (hnext s') (hole_head s') (n # hs)" using d(1,3) by (simp add: s' chain_upd_other)
  moreover have "chain (hnext s') (free_slots s') fs" using d(2,5) by (simp add: s' chain_upd_other)
  ultimately show ?thesis unfolding hole_links_def using d(3-6) by auto
qed

lemma chain_link_behind:
  assumes "chain nx p (us @ x # vs)" "n \<notin> set (us @ x # vs)"
  shows "chain (nx(n := nx x, x := Some n)) p (us @ x # n # vs)"
  using assms chain_distinct [OF assms(1)] by (induction us arbitrary: p) (auto simp: chain_upd_other)

lemma hole_link_behind:
  assumes l: "hole_links s (us @ x # vs) (n # fs)"
    and s': "hnext s' = (hnext s)(n := hnext s x, x := Some n)" "hole_head s' = hole_head s" "free_slots s' = hnext s n"
  shows "hole_links s' (us @ x # n # vs) fs"
proof -
  note d = hole_linksD [OF l]
  have "chain (hnext s') (hole_head s') (us @ x # n # vs)" unfolding s' by (rule chain_link_behind [OF d(1)]) (use d(3) in auto)
  moreover have "x \<notin> set fs" "x \<noteq> n" using d(3) by auto
  then have "chain (hnext s') (free_slots s') fs" using d(2,5) by (simp add: s' chain_upd_other)
  ultimately show ?thesis unfolding hole_links_def using d(3-6) by auto
qed

lemma merge_inv:
  assumes l: "hole_links s (us @ x # vs) fs" and w: "weakly (map (hspan s) (x # vs))" "gaps (map (hspan s) (tl vs))"
    and o: "\<forall>i \<in> set (us @ x # vs). span_ok (hspan s i)" and u: "gaps (map (hspan s) (us @ [x]))"
  shows "\<exists>s' hs' fs'. merge x s = Some s' \<and> hole_inv s' hs' fs' \<and> free_clicks s' hs' = free_clicks s (us @ x # vs) \<and> holes_only s s'"
proof -
  obtain s' vs' fs' where s': "merge x s = Some s'" "hole_links s' (us @ x # vs') fs'" "holes_only s s'"
    "map (hspan s') (x # vs') = merged (map (hspan s) (x # vs))" "\<forall>i \<in> set us. hspan s' i = hspan s i"
    using merge_spec [OF l w(1)] o by auto
  have m: "gaps (map (hspan s') (x # vs'))" "cover (map (hspan s') (x # vs')) = cover (map (hspan s) (x # vs))"
    "\<forall>q \<in> set (map (hspan s') (x # vs')). span_ok q" "\<forall>q \<in> set (map (hspan s') (x # vs')). fst (hspan s x) \<le> fst q"
    using merged_spec [of "hspan s x" "map (hspan s) vs"] w o unfolding s'(4) by (auto simp: map_tl)
  have us: "map (hspan s') us = map (hspan s) us" using s'(5) by simp
  have "gaps (map (hspan s') (us @ x # vs'))"
    using m(1,4) u unfolding map_append us gaps_append by fastforce
  moreover have "\<forall>i \<in> set (us @ x # vs'). span_ok (hspan s' i)" using m(3) s'(5) o by auto
  ultimately have "hole_inv s' (us @ x # vs') fs'" using s'(2) unfolding hole_inv_def by blast
  moreover have "free_clicks s' (us @ x # vs') = free_clicks s (us @ x # vs)"
    using m(2) by (simp only: free_clicks_def map_append us cover_simps(3))
  ultimately show ?thesis using s'(1,3) by blast
qed

lemma free_mem_full: "free_slots s = None \<Longrightarrow> clicks \<noteq> 0 \<Longrightarrow> free_mem base clicks s = None"
  by (simp add: free_mem_def)

lemma span_apart:
  assumes "span_ok p" "0 < n" "block b n \<inter> block (fst p) (snd p) = {}"
  shows "b + n \<le> fst p \<or> fst p + snd p \<le> b"
  using assms block_disjoint [of n "snd p" b "fst p"] by (simp add: span_ok_def)

lemma gaps_bases: "gaps (map (hspan s) hs) \<Longrightarrow> sorted_wrt (\<lambda>i j. h_base (holes s i) < h_base (holes s j)) hs"
  unfolding gaps_def sorted_wrt_map by (rule sorted_wrt_mono_rel) (auto simp: hspan_def word_less_nat_alt)

lemma free_mem_front:
  assumes i: "hole_inv s hs (n # fs)" and b: "clicks \<noteq> 0" "base \<noteq> 0" "unat base + unat clicks \<le> 2 ^ 32"
    and d: "block (unat base) (unat clicks) \<inter> free_clicks s hs = {}" and h: "\<forall>i \<in> set hs. base \<le> h_base (holes s i)"
  shows "\<exists>s' hs' fs'. merge n ((upd_hole n (\<lambda>h. h\<lparr>h_next := hole_head s\<rparr>)
      ((upd_hole n (\<lambda>h. h\<lparr>h_base := base, h_len := clicks\<rparr>) s)\<lparr>free_slots := hnext s n\<rparr>))\<lparr>hole_head := Some n\<rparr>) = Some s'
    \<and> hole_inv s' hs' fs' \<and> free_clicks s' hs' = free_clicks s hs \<union> block (unat base) (unat clicks) \<and> holes_only s s'"
proof -
  let ?s = "(upd_hole n (\<lambda>h. h\<lparr>h_next := hole_head s\<rparr>) ((upd_hole n (\<lambda>h. h\<lparr>h_base := base, h_len := clicks\<rparr>) s)\<lparr>free_slots := hnext s n\<rparr>))\<lparr>hole_head := Some n\<rparr>"
  have l: "hole_links s hs (n # fs)" "gaps (map (hspan s) hs)" "\<forall>i \<in> set hs. span_ok (hspan s i)"
    using i unfolding hole_inv_def by blast+
  have nn: "n \<notin> set hs" using l(1) by (auto simp: hole_links_def)
  have sp: "hspan ?s = (hspan s)(n := (unat base, unat clicks))" by (auto simp: hspan_def upd_hole_def)
  have m: "map (hspan ?s) hs = map (hspan s) hs" using nn by (simp add: sp)
  have l': "hole_links ?s ([] @ n # hs) fs" unfolding append_Nil
    by (rule hole_link_front [OF l(1)]) (auto simp: upd_hole_def)
  have c: "0 < unat clicks" "0 < unat base" using b by (simp_all add: unat_gt_0)
  have "unat base + unat clicks \<le> fst (hspan s i)" if "i \<in> set hs" for i
  proof -
    have "block (unat base) (unat clicks) \<inter> block (fst (hspan s i)) (snd (hspan s i)) = {}"
      using d that unfolding free_clicks_def cover_def by auto
    moreover have "unat base \<le> fst (hspan s i)" "0 < snd (hspan s i)" using h l(3) that by (auto simp: hspan_def word_le_nat_alt span_ok_def)
    ultimately show ?thesis using span_apart [of "hspan s i" "unat clicks" "unat base"] l(3) that c(1) by auto
  qed
  then have "weakly (map (hspan ?s) (n # hs))" using gaps_weakly [OF l(2)] nn by (auto simp: sp weakly_def m)
  moreover have "gaps (map (hspan ?s) (tl hs))" using l(2) by (cases hs) (use nn in \<open>auto simp: sp gaps_def\<close>)
  moreover have "\<forall>i \<in> set ([] @ n # hs). span_ok (hspan ?s i)" using l(3) b c by (simp add: sp span_ok_def)
  moreover have "gaps (map (hspan ?s) ([] @ [n]))" by (simp add: gaps_def)
  ultimately obtain s' hs' fs' where s': "merge n ?s = Some s'" "hole_inv s' hs' fs'" "free_clicks s' hs' = free_clicks ?s ([] @ n # hs)" "holes_only ?s s'"
    using merge_inv [OF l'] by blast
  have "free_clicks ?s ([] @ n # hs) = free_clicks s hs \<union> block (unat base) (unat clicks)"
    using nn by (auto simp: free_clicks_def m sp)
  moreover have "holes_only s ?s" by (simp add: holes_only_steps)
  then have "holes_only s s'" using s'(4) by (rule holes_only_trans)
  ultimately show ?thesis using s'(1-3) by (intro exI [of _ s'] exI [of _ hs'] exI [of _ fs']) simp
qed

lemma free_mem_behind:
  assumes i: "hole_inv s (us @ x # vs) (n # fs)" and b: "clicks \<noteq> 0" "base \<noteq> 0" "unat base + unat clicks \<le> 2 ^ 32"
    and d: "block (unat base) (unat clicks) \<inter> free_clicks s (us @ x # vs) = {}"
    and h: "\<forall>i \<in> set vs. base \<le> h_base (holes s i)" "h_base (holes s x) < base"
  shows "\<exists>s' hs' fs'. merge x (upd_hole x (\<lambda>h. h\<lparr>h_next := Some n\<rparr>) (upd_hole n (\<lambda>h. h\<lparr>h_next := hnext s x\<rparr>)
      ((upd_hole n (\<lambda>h. h\<lparr>h_base := base, h_len := clicks\<rparr>) s)\<lparr>free_slots := hnext s n\<rparr>))) = Some s'
    \<and> hole_inv s' hs' fs' \<and> free_clicks s' hs' = free_clicks s (us @ x # vs) \<union> block (unat base) (unat clicks) \<and> holes_only s s'"
proof -
  let ?s = "upd_hole x (\<lambda>h. h\<lparr>h_next := Some n\<rparr>) (upd_hole n (\<lambda>h. h\<lparr>h_next := hnext s x\<rparr>)
      ((upd_hole n (\<lambda>h. h\<lparr>h_base := base, h_len := clicks\<rparr>) s)\<lparr>free_slots := hnext s n\<rparr>))"
  have l: "hole_links s (us @ x # vs) (n # fs)" "gaps (map (hspan s) (us @ x # vs))" "\<forall>i \<in> set (us @ x # vs). span_ok (hspan s i)"
    using i unfolding hole_inv_def by blast+
  have nn: "n \<notin> set (us @ x # vs)" using l(1) by (auto simp: hole_links_def)
  have sp: "hspan ?s = (hspan s)(n := (unat base, unat clicks))" using nn by (auto simp: hspan_def upd_hole_def)
  have l': "hole_links ?s (us @ x # n # vs) fs"
    by (rule hole_link_behind [OF l(1)]) (use nn in \<open>auto simp: upd_hole_def\<close>)
  have c: "0 < unat clicks" "0 < unat base" using b by (simp_all add: unat_gt_0)
  have ap: "unat base + unat clicks \<le> fst (hspan s i) \<or> fst (hspan s i) + snd (hspan s i) \<le> unat base" if "i \<in> set (us @ x # vs)" for i
  proof -
    have "block (unat base) (unat clicks) \<inter> block (fst (hspan s i)) (snd (hspan s i)) = {}"
      using d that unfolding free_clicks_def cover_def by auto
    then show ?thesis using span_apart [of "hspan s i" "unat clicks" "unat base"] l(3) that c(1) by auto
  qed
  have vs: "unat base + unat clicks \<le> fst (hspan s i)" if "i \<in> set vs" for i
  proof -
    have "unat base \<le> fst (hspan s i)" "0 < snd (hspan s i)" using h(1) l(3) that by (auto simp: hspan_def word_le_nat_alt span_ok_def)
    then show ?thesis using ap [of i] that by auto
  qed
  have x: "fst (hspan s x) + snd (hspan s x) \<le> unat base"
    using ap [of x] h(2) c(1) by (auto simp: hspan_def word_less_nat_alt)
  have m: "map (hspan ?s) vs = map (hspan s) vs" "map (hspan ?s) us = map (hspan s) us" "hspan ?s x = hspan s x" using nn by (auto simp: sp)
  have g: "gaps (map (hspan s) vs)" "gaps (map (hspan s) (us @ [x]))" using l(2) by (auto simp: gaps_def sorted_wrt_append)
  have "fst (hspan s x) + snd (hspan s x) \<le> fst (hspan s i)" if "i \<in> set vs" for i using vs [OF that] x by simp
  then have "weakly (map (hspan ?s) (x # n # vs))" using gaps_weakly [OF g(1)] vs x nn by (auto simp: sp weakly_def)
  moreover have "gaps (map (hspan ?s) (tl (n # vs)))" using g(1) by (simp only: m list.sel)
  moreover have "\<forall>i \<in> set (us @ x # n # vs). span_ok (hspan ?s i)" using l(3) b c by (simp add: sp span_ok_def)
  moreover have "gaps (map (hspan ?s) (us @ [x]))" using g(2) by (simp only: m map_append list.map)
  ultimately obtain s' hs' fs' where s': "merge x ?s = Some s'" "hole_inv s' hs' fs'" "free_clicks s' hs' = free_clicks ?s (us @ x # n # vs)" "holes_only ?s s'"
    using merge_inv [OF l'] by blast
  have "free_clicks ?s (us @ x # n # vs) = free_clicks s (us @ x # vs) \<union> block (unat base) (unat clicks)"
    using nn by (auto simp: free_clicks_def m sp)
  moreover have "holes_only s ?s" by (simp add: holes_only_steps)
  then have "holes_only s s'" using s'(4) by (rule holes_only_trans)
  ultimately show ?thesis using s'(1-3) by (intro exI [of _ s'] exI [of _ hs'] exI [of _ fs']) simp
qed

theorem free_mem_spec:
  assumes i: "hole_inv s hs fs" "fs \<noteq> []" and b: "clicks \<noteq> 0" "base \<noteq> 0" "unat base + unat clicks \<le> 2 ^ 32"
    and d: "block (unat base) (unat clicks) \<inter> free_clicks s hs = {}"
  shows "\<exists>s' hs' fs'. free_mem base clicks s = Some s' \<and> hole_inv s' hs' fs'
    \<and> free_clicks s' hs' = free_clicks s hs \<union> block (unat base) (unat clicks) \<and> holes_only s s'"
proof -
  obtain n fs1 where fs: "fs = n # fs1" using i(2) by (cases fs) auto
  have l: "hole_links s hs (n # fs1)" using i(1) fs unfolding hole_inv_def by simp
  have f: "free_slots s = Some n" using l by (simp add: hole_links_def)
  have nn: "n \<notin> set hs" using l by (auto simp: hole_links_def)
  let ?s2 = "(upd_hole n (\<lambda>h. h\<lparr>h_base := base, h_len := clicks\<rparr>) s)\<lparr>free_slots := hnext s n\<rparr>"
  have e2: "holes ?s2 i = holes s i" if "i \<noteq> n" for i using that by (simp add: upd_hole_def)
  have hn: "hnext ?s2 = hnext s" "hole_head ?s2 = hole_head s" by (auto simp: upd_hole_def)
  have ch: "chain (hnext s) (hole_head s) hs" using l by (simp add: hole_links_def)
  have a: "h_next (holes (upd_hole n (\<lambda>h. h\<lparr>h_base := base, h_len := clicks\<rparr>) s) n) = hnext s n" by (simp add: upd_hole_def)
  have fm: "free_mem base clicks s =
      (case hole_head s of
               None \<Rightarrow> merge n ((upd_hole n (\<lambda>h. h\<lparr>h_next := None\<rparr>) ?s2)\<lparr>hole_head := Some n\<rparr>)
             | Some hp \<Rightarrow>
                 if base \<le> h_base (holes ?s2 hp)
                 then merge n ((upd_hole n (\<lambda>h. h\<lparr>h_next := Some hp\<rparr>) ?s2)\<lparr>hole_head := Some n\<rparr>)
                 else do {
                   prev_ptr \<leftarrow> free_place (holes ?s2) base hp;
                   merge prev_ptr (upd_hole prev_ptr (\<lambda>h. h\<lparr>h_next := Some n\<rparr>) (upd_hole n (\<lambda>h. h\<lparr>h_next := hnext ?s2 prev_ptr\<rparr>) ?s2))
                 })"
    unfolding free_mem_def Let_def f option.case(2) a hn(2) using b(1) by (simp only: if_False)
  show ?thesis
  proof (cases "hole_head s")
    case None
    then have "hs = []" using ch by simp
    then show ?thesis using free_mem_front [OF i(1) [unfolded fs] b d] None fm by simp
  next
    case (Some hp)
    obtain ys where hs: "hs = hp # ys" using ch Some by (cases hs) auto
    have e: "holes ?s2 hp = holes s hp" by (rule e2) (use nn hs in auto)
    have so: "sorted_wrt (\<lambda>i j. h_base (holes s i) < h_base (holes s j)) hs" using gaps_bases i(1) unfolding hole_inv_def by blast
    show ?thesis
    proof (cases "base \<le> h_base (holes s hp)")
      case True
      then have "\<forall>i \<in> set hs. base \<le> h_base (holes s i)" using so hs by (auto simp: word_le_nat_alt word_less_nat_alt)
      from free_mem_front [OF i(1) [unfolded fs] b d this] show ?thesis using True Some fm e by simp
    next
      case False
      have "chain (hnext ?s2) (Some hp) hs" using ch Some hn by simp
      moreover have "h_base (holes ?s2 hp) < base" using False e by simp
      moreover have "sorted_wrt (\<lambda>i j. h_base (holes ?s2 i) < h_base (holes ?s2 j)) hs"
        by (rule sorted_wrt_mono_rel [OF _ so]) (use nn e2 in metis)
      ultimately obtain us x vs where u: "free_place (holes ?s2) base hp = Some x" "hs = us @ x # vs"
        "\<forall>i \<in> set (us @ [x]). h_base (holes ?s2 i) < base" "\<forall>i \<in> set vs. base \<le> h_base (holes ?s2 i)"
        using free_place_spec [of "holes ?s2" hp hs base] by blast
      have "\<forall>i \<in> set vs. base \<le> h_base (holes s i)" "h_base (holes s x) < base"
        using u(2-4) nn e2 by (metis Un_iff list.set_intros(1,2) set_append)+
      from free_mem_behind [OF i(1) [unfolded fs u(2)] b d [unfolded u(2)] this]
      show ?thesis using False Some fm e u(1,2) hn by (simp add: fun_eq_iff)
    qed
  qed
qed

subsection \<open>Searching and biting\<close>

lemma find_hole_spec:
  assumes "chain (\<lambda>i. h_next (tab i)) (Some hp) hs"
  shows "(\<exists>us x vs. hs = us @ x # vs \<and> find_hole go hit tab prev hp = Some (Some (if us = [] then prev else Some (last us), x))
      \<and> go (tab x) \<and> hit (tab x) \<and> (\<forall>u \<in> set us. go (tab u) \<and> \<not> hit (tab u)))
    \<or> (\<exists>us vs. hs = us @ vs \<and> find_hole go hit tab prev hp = Some None
      \<and> (\<forall>u \<in> set us. go (tab u) \<and> \<not> hit (tab u)) \<and> (vs \<noteq> [] \<longrightarrow> \<not> go (tab (hd vs))))"
    (is "?found prev hp hs \<or> ?fail prev hp hs")
  using assms
proof (induction hs arbitrary: prev hp)
  case Nil
  then show ?case by simp
next
  case (Cons i hs)
  then have i: "i = hp" and ch: "chain (\<lambda>i. h_next (tab i)) (h_next (tab hp)) hs" by auto
  consider "\<not> go (tab hp)" | "go (tab hp)" "hit (tab hp)" | "go (tab hp)" "\<not> hit (tab hp)" by blast
  then show ?case
  proof cases
    case 1
    then have "find_hole go hit tab prev hp = Some None" by (subst find_hole.simps) simp
    then have "?fail prev hp (i # hs)" using 1 i by (intro exI [of _ "[]"] exI [of _ "i # hs"]) simp
    then show ?thesis by blast
  next
    case 2
    then have "find_hole go hit tab prev hp = Some (Some (prev, hp))" by (subst find_hole.simps) simp
    then have "?found prev hp (i # hs)" using 2 i by (intro exI [of _ "[]"]) auto
    then show ?thesis by blast
  next
    case 3
    show ?thesis
    proof (cases "h_next (tab hp)")
      case None
      then have "find_hole go hit tab prev hp = Some None" "hs = []" using 3 ch by (simp_all add: find_hole.simps)
      then have "?fail prev hp (i # hs)" using 3 i by (intro exI [of _ "[hp]"] exI [of _ "[]"]) simp
      then show ?thesis by blast
    next
      case (Some hp')
      then have e: "find_hole go hit tab prev hp = find_hole go hit tab (Some hp) hp'" using 3 by (subst find_hole.simps) simp
      from Cons.IH [of hp' "Some hp"] ch Some have "?found (Some hp) hp' hs \<or> ?fail (Some hp) hp' hs" by simp
      then show ?thesis
      proof
        assume "?found (Some hp) hp' hs"
        then obtain us x vs where "hs = us @ x # vs" "find_hole go hit tab (Some hp) hp' = Some (Some (if us = [] then Some hp else Some (last us), x))"
          "go (tab x)" "hit (tab x)" "\<forall>u \<in> set us. go (tab u) \<and> \<not> hit (tab u)" by blast
        then have "?found prev hp (i # hs)" using 3 i e by (intro exI [of _ "hp # us"] exI [of _ x] exI [of _ vs]) auto
        then show ?thesis by blast
      next
        assume "?fail (Some hp) hp' hs"
        then obtain us vs where "hs = us @ vs" "find_hole go hit tab (Some hp) hp' = Some None"
          "\<forall>u \<in> set us. go (tab u) \<and> \<not> hit (tab u)" "vs \<noteq> [] \<longrightarrow> \<not> go (tab (hd vs))" by blast
        then have "?fail prev hp (i # hs)" using 3 i e by (intro exI [of _ "hp # us"] exI [of _ vs]) auto
        then show ?thesis by blast
      qed
    qed
  qed
qed

lemma gaps_shrink:
  assumes "gaps (us @ p # vs)" "\<forall>q \<in> set (us @ p # vs). span_ok q" "0 < k" "k \<le> snd p"
  shows "gaps (us @ (fst p + k, snd p - k) # vs)" "gaps (us @ vs)"
    "cover (us @ (fst p + k, snd p - k) # vs) = cover (us @ p # vs) - block (fst p) k"
    "k = snd p \<Longrightarrow> cover (us @ vs) = cover (us @ p # vs) - block (fst p) k"
proof -
  note g = assms(1) [unfolded gaps_def sorted_wrt_append]
  show "gaps (us @ (fst p + k, snd p - k) # vs)" using assms g unfolding gaps_def sorted_wrt_append by fastforce
  show "gaps (us @ vs)" using g unfolding gaps_def sorted_wrt_append by auto
  have u: "block (fst q) (snd q) \<inter> block (fst p) k = {}" if "q \<in> set us \<union> set vs" for q
  proof -
    have "fst q + snd q < fst p \<or> fst p + snd p < fst q" using g that by auto
    then show ?thesis using assms(4) by (auto simp: block_def)
  qed
  then have d: "cover us \<inter> block (fst p) k = {}" "cover vs \<inter> block (fst p) k = {}" unfolding cover_def by auto
  have b: "block (fst p + k) (snd p - k) = block (fst p) (snd p) - block (fst p) k" using block_split [OF assms(4)] by simp
  show c: "cover (us @ (fst p + k, snd p - k) # vs) = cover (us @ p # vs) - block (fst p) k"
    using d by (auto simp: b)
  show "cover (us @ vs) = cover (us @ p # vs) - block (fst p) k" if "k = snd p"
    using c that by (auto simp: block_def)
qed

theorem bite_spec:
  assumes i: "hole_inv s hs fs" and hs: "hs = us @ x # vs" and k: "clicks \<noteq> 0" "clicks \<le> h_len (holes s x)"
    and pr: "us \<noteq> [] \<Longrightarrow> prev = Some (last us)"
  shows "\<exists>s' hs' fs'. bite prev x clicks s = Some s' \<and> hole_inv s' hs' fs' \<and> holes_only s s'
    \<and> free_clicks s' hs' = free_clicks s hs - block (unat (h_base (holes s x))) (unat clicks) \<and> length fs \<le> length fs'"
proof -
  let ?s = "upd_hole x (\<lambda>h. h\<lparr>h_base := h_base h + clicks, h_len := h_len h - clicks\<rparr>) s"
  have l: "hole_links s hs fs" "gaps (map (hspan s) hs)" "\<forall>i \<in> set hs. span_ok (hspan s i)"
    using i unfolding hole_inv_def by blast+
  have dx: "x \<notin> set us" "x \<notin> set vs" using hole_linksD(4) [OF l(1)] hs by auto
  have c: "0 < unat clicks" "unat clicks \<le> snd (hspan s x)" using k by (auto simp: hspan_def word_le_nat_alt unat_gt_0)
  have ox: "span_ok (hspan s x)" using l(3) hs by simp
  have len: "unat (h_len (holes s x) - clicks) = unat (h_len (holes s x)) - unat clicks" using k(2) by (simp add: unat_sub word_le_nat_alt)
  have l': "hole_links ?s hs fs"
  proof -
    have "hnext ?s = hnext s" by (auto simp: upd_hole_def)
    then show ?thesis using l(1) unfolding hole_links_def by (simp add: upd_hole_def)
  qed
  note gg = l(2) [unfolded hs map_append list.map] and oo = l(3) [unfolded hs]
  have o2: "\<forall>q \<in> set (map (hspan s) us @ hspan s x # map (hspan s) vs). span_ok q" using oo by auto
  note G = gaps_shrink [OF gg o2 c]
  show ?thesis
  proof (cases "h_len (holes ?s x) = 0")
    case True
    then have e: "h_len (holes s x) = clicks" by (simp add: upd_hole_def)
    obtain s' where s': "del_slot prev x ?s = Some s'" "hole_links s' (us @ vs) (x # fs)" "holes_only ?s s'" "\<forall>i. hspan s' i = hspan ?s i"
      using del_slot_spec [OF l' [unfolded hs] pr] by blast
    have m: "map (hspan s') us = map (hspan s) us" "map (hspan s') vs = map (hspan s) vs"
      using s'(4) dx by (auto simp: hspan_def upd_hole_def)
    have "bite prev x clicks s = Some s'" using True s'(1) by (simp add: bite_def)
    moreover have "hole_inv s' (us @ vs) (x # fs)"
    proof -
      have "gaps (map (hspan s') (us @ vs))" using G(2) by (simp only: map_append m)
      moreover have "hspan s' i = hspan s i" if "i \<in> set (us @ vs)" for i using s'(4) dx that by (auto simp: hspan_def upd_hole_def)
      ultimately show ?thesis unfolding hole_inv_def using s'(2) oo by simp
    qed
    moreover have "free_clicks s' (us @ vs) = free_clicks s hs - block (unat (h_base (holes s x))) (unat clicks)"
      using G(4) unfolding free_clicks_def hs by (simp only: map_append list.map m) (simp add: hspan_def e)
    moreover have "holes_only s s'" by (rule holes_only_trans [OF holes_only_upd(1) s'(3)])
    ultimately show ?thesis by (intro exI [of _ s'] exI [of _ "us @ vs"] exI [of _ "x # fs"]) simp
  next
    case False
    then have b: "bite prev x clicks s = Some ?s" by (simp add: bite_def)
    have lt: "unat clicks < unat (h_len (holes s x))"
    proof (rule ccontr)
      assume "\<not> ?thesis"
      then have "h_len (holes s x) - clicks = 0" using c(2) by (simp add: word_unat_eq_iff hspan_def len)
      then show False using False by (simp add: upd_hole_def)
    qed
    have sx: "hspan ?s x = (fst (hspan s x) + unat clicks, snd (hspan s x) - unat clicks)"
    proof -
      have "unat (h_base (holes s x)) + unat clicks < 2 ^ 32" using ox lt by (simp add: span_ok_def hspan_def)
      then have "unat (h_base (holes s x) + clicks) = unat (h_base (holes s x)) + unat clicks"
        by (subst unat_add_lem [symmetric]) simp
      then show ?thesis using len by (simp add: hspan_def upd_hole_def)
    qed
    have m: "map (hspan ?s) us = map (hspan s) us" "map (hspan ?s) vs = map (hspan s) vs"
      using dx by (auto simp: hspan_def upd_hole_def)
    have "hole_inv ?s hs fs"
    proof -
      have "gaps (map (hspan ?s) hs)" using G(1) unfolding hs by (simp only: map_append list.map m sx)
      moreover have "span_ok (hspan ?s i)" if "i \<in> set hs" for i
      proof (cases "i = x")
        case True
        then show ?thesis using ox lt sx by (simp add: span_ok_def hspan_def)
      next
        case False
        then have "hspan ?s i = hspan s i" by (simp add: hspan_def upd_hole_def)
        then show ?thesis using l(3) that by simp
      qed
      ultimately show ?thesis using l' unfolding hole_inv_def by blast
    qed
    moreover have "free_clicks ?s hs = free_clicks s hs - block (unat (h_base (holes s x))) (unat clicks)"
      using G(3) unfolding free_clicks_def hs by (simp only: map_append list.map m sx) (simp add: hspan_def)
    ultimately show ?thesis using b holes_only_upd(1) by blast
  qed
qed

end
