(* ===== verification/MM_Break.thy ===== *)
theory MM_Break
  imports MM_Alloc_Inv
begin

text \<open>
  Growing and shrinking the data and stack segments inside a process' memory,
  \<^verbatim>\<open>src/mm/break.c\<close>.  Sizes and addresses are 32-bit clicks; \<^verbatim>\<open>long\<close>
  values are integers.
\<close>

abbreviation CLICK_SIZE :: u32 where "CLICK_SIZE \<equiv> 1024"
abbreviation SAFETY_CLICKS :: u32 where "SAFETY_CLICKS \<equiv> 2"

definition size_ok :: "u32 \<Rightarrow> u32 \<Rightarrow> u32 \<Rightarrow> u32 \<Rightarrow> u32 \<Rightarrow> int" where
  "size_ok tc dc sc dvir s_vir = (if dvir + dc > s_vir then ENOMEM else OK)"

text \<open>\<open>adjust\<close> works on the segment map of one process; \<open>adjust_segs\<close> is the map after the
  updates of the data length and of the stack's origin, length and address.\<close>

definition adjust_segs :: "u32 \<Rightarrow> int \<Rightarrow> (seg \<Rightarrow> mem_map) \<Rightarrow> seg \<Rightarrow> mem_map" where
  "adjust_segs data_clicks delta m =
     (let m1 = m(SegD := (m SegD)\<lparr>mem_len := data_clicks\<rparr>)
      in if delta > 0
         then m1(SegS := \<lparr>mem_vir = mem_vir (m SegS) - of_int delta,
                          mem_phys = mem_phys (m SegS) - of_int delta,
                          mem_len = mem_len (m SegS) + of_int delta\<rparr>)
         else m1)"

text \<open>What the end of \<^verbatim>\<open>adjust()\<close> puts back when the new sizes do not fit.\<close>

definition restore_segs :: "u32 \<Rightarrow> int \<Rightarrow> (seg \<Rightarrow> mem_map) \<Rightarrow> seg \<Rightarrow> mem_map" where
  "restore_segs old_clicks delta m =
     (let m1 = m(SegD := (m SegD)\<lparr>mem_len := old_clicks\<rparr>)
      in if delta > 0
         then m1(SegS := \<lparr>mem_vir = mem_vir (m SegS) + of_int delta,
                          mem_phys = mem_phys (m SegS) + of_int delta,
                          mem_len = mem_len (m SegS) - of_int delta\<rparr>)
         else m1)"

definition adjust :: "int \<Rightarrow> u32 \<Rightarrow> u32 \<Rightarrow> mm \<Rightarrow> int \<times> mm" where
  "adjust rmp data_clicks sp s =
     (let m = mseg s rmp;
          base_of_stack = mem_vir (m SegS) + mem_len (m SegS);
          sp_click = drop_bit CLICK_SHIFT sp;
          delta = sint (mem_vir (m SegS)) - sint sp_click;
          lower = (if delta > 0 then sp_click else mem_vir (m SegS));
          gap_base = mem_vir (m SegD) + data_clicks + SAFETY_CLICKS;
          m' = adjust_segs data_clicks delta m;
          changed = data_clicks \<noteq> mem_len (m SegD) \<or> delta > 0
      in if mem_len (m SegS) = 0 then (OK, s)
         else if sp_click \<ge> base_of_stack then (ENOMEM, s)
         else if lower < gap_base then (ENOMEM, s)
         else if size_ok (mem_len (m' SegT)) (mem_len (m' SegD)) (mem_len (m' SegS)) (mem_vir (m' SegD)) (mem_vir (m' SegS)) = OK
         then let s1 = upd_mp rmp (\<lambda>p. p\<lparr>mp_seg := m'\<rparr>) s
              in (OK, if changed then tell (SysNewmap rmp m') s1 else s1)
         else (ENOMEM, upd_mp rmp (\<lambda>p. p\<lparr>mp_seg := restore_segs (mem_len (m SegD)) delta m'\<rparr>) s))"

definition do_brk :: "u32 \<Rightarrow> mm \<Rightarrow> int \<times> mm" where
  "do_brk addr s =
     (let rmp = mp s;
          new_clicks = signed_drop_bit CLICK_SHIFT (addr + CLICK_SIZE - 1)
      in if new_clicks < mem_vir (mseg s rmp SegD)
         then (ENOMEM, upd_mp rmp (\<lambda>p. p\<lparr>reply_ptr := -1\<rparr>) s)
         else let (a, s1) = ask (SysGetsp (who s)) s;
                  (r, s2) = adjust rmp (new_clicks - mem_vir (mseg s rmp SegD)) (an_vals a ! 0) s1
              in (r, upd_mp rmp (\<lambda>p. p\<lparr>reply_ptr := (if r = OK then addr else -1)\<rparr>) s2))"

subsection \<open>Facts\<close>

lemma restore_adjust [simp]: "restore_segs (mem_len (m SegD)) delta (adjust_segs n delta m) = m"
  by (rule ext) (simp add: restore_segs_def adjust_segs_def Let_def)

lemma upd_mp_same [simp]: "upd_mp n (\<lambda>p. p\<lparr>mp_seg := mseg s n\<rparr>) s = s"
proof -
  have "(mproctab s n)\<lparr>mp_seg := mseg s n\<rparr> = mproctab s n" by simp
  then show ?thesis by (simp add: upd_mp_def fun_upd_idem)
qed

lemma adjust_segs_image [simp]:
  "image_clicks (adjust_segs n d m) = image_clicks m" "mem_phys (adjust_segs n d m SegD) = mem_phys (m SegD)"
  "mem_vir (adjust_segs n d m SegD) = mem_vir (m SegD)" "adjust_segs n d m SegT = m SegT"
  by (simp_all add: image_clicks_def adjust_segs_def Let_def)

lemma adjust_fails: "fst (adjust rmp n sp s) \<noteq> OK \<Longrightarrow> adjust rmp n sp s = (ENOMEM, s)"
  by (auto simp: adjust_def Let_def size_ok_def split: if_splits)

lemma adjust_result: "fst (adjust rmp n sp s) = OK \<or> fst (adjust rmp n sp s) = ENOMEM"
  by (auto simp: adjust_def Let_def size_ok_def)

text \<open>Whatever happens, only the map of the process changes, and its memory stays where it is.\<close>

lemma adjust_frame:
  "\<exists>m h. snd (adjust rmp n sp s) = (upd_mp rmp (\<lambda>p. p\<lparr>mp_seg := m\<rparr>) s)\<lparr>hist := h\<rparr>
     \<and> image_clicks m = image_clicks (mseg s rmp) \<and> mem_phys (m SegD) = mem_phys (mseg s rmp SegD) \<and> m SegT = mseg s rmp SegT"
proof (cases "fst (adjust rmp n sp s) = OK \<and> mem_len (mseg s rmp SegS) \<noteq> 0")
  case True
  let ?m = "adjust_segs n (sint (mem_vir (mseg s rmp SegS)) - sint (drop_bit CLICK_SHIFT sp)) (mseg s rmp)"
  have "snd (adjust rmp n sp s) = (upd_mp rmp (\<lambda>p. p\<lparr>mp_seg := ?m\<rparr>) s)\<lparr>hist := hist (snd (adjust rmp n sp s))\<rparr>"
    using True by (auto simp: adjust_def Let_def code_defs split: if_splits)
  then show ?thesis by (intro exI [of _ ?m] exI [of _ "hist (snd (adjust rmp n sp s))"]) simp
next
  case False
  have "mem_len (mseg s rmp SegS) = 0 \<Longrightarrow> adjust rmp n sp s = (OK, s)" by (simp add: adjust_def Let_def)
  then have "snd (adjust rmp n sp s) = s" using False adjust_fails [of rmp n sp s] by (metis snd_conv)
  then show ?thesis by (intro exI [of _ "mseg s rmp"] exI [of _ "hist s"]) simp
qed

end
