(* ===== verification/MM_Signal.thy ===== *)
theory MM_Signal
  imports MM_Break
begin

text \<open>
  Signals and exit: \<^verbatim>\<open>src/mm/signal.c\<close> with \<^verbatim>\<open>mm_exit()\<close>,
  \<^verbatim>\<open>cleanup()\<close> (\<^verbatim>\<open>forkexit.c\<close>), \<^verbatim>\<open>stop_proc()\<close>
  (\<^verbatim>\<open>trace.c\<close>), \<^verbatim>\<open>setreply()\<close> (\<^verbatim>\<open>main.c\<close>) and
  \<^verbatim>\<open>swap_inqueue()\<close> (\<^verbatim>\<open>alloc.c\<close>).

  \<^verbatim>\<open>sig_proc()\<close> may end a process by \<^verbatim>\<open>mm_exit()\<close>, which signals the parent
  and, for a session leader, its group through \<^verbatim>\<open>check_sig()\<close>, and so back to
  \<^verbatim>\<open>sig_proc()\<close>.  Each function of the cycle takes the next one as an argument; \<open>sig_proc\<close>
  closes the cycle with a bound on the depth of the recursion.  \<open>None\<close> is a panic, a broken table or a
  bound that was too small; the last never happens from the depth \<open>DEPTH\<close> on
  (\<open>MM_Signal_Inv\<close>).
\<close>

abbreviation HZ :: u32 where "HZ \<equiv> 60"
abbreviation SUPER_USER :: u16 where "SUPER_USER \<equiv> 0"
abbreviation SUSPEND :: int where "SUSPEND \<equiv> -998"
abbreviation INIT_PID :: int where "INIT_PID \<equiv> 1"

text \<open>\<^verbatim>\<open>sizeof(struct sigcontext) + 3 * sizeof(char *) + 2 * sizeof(int)\<close>\<close>
abbreviation SIGFRAME_ROOM :: u32 where "SIGFRAME_ROOM \<equiv> 92"

subsection \<open>Replies and the queue of processes to swap in\<close>

abbreviation swapq :: "mm \<Rightarrow> int \<Rightarrow> int option" where
  "swapq s \<equiv> \<lambda>n. mp_swapq (mproctab s n)"

definition swap_inqueue :: "int \<Rightarrow> mm \<Rightarrow> mm option" where
  "swap_inqueue rmp s =
     (if SWAPIN \<in> mflags s rmp then Some s
      else do {
        s1 \<leftarrow> (case in_queue s of
                None \<Rightarrow> Some (s\<lparr>in_queue := Some rmp\<rparr>)
              | Some h \<Rightarrow> do {
                  last_mp \<leftarrow> chain_last (swapq s) h;
                  Some (upd_mp last_mp (\<lambda>p. p\<lparr>mp_swapq := Some rmp\<rparr>) s)
                });
        let s2 = upd_mp rmp (\<lambda>p. p\<lparr>mp_swapq := None\<rparr>) s1;
        Some (set_flags {SWAPIN} rmp s2)
      })"

definition setreply :: "int \<Rightarrow> int \<Rightarrow> mm \<Rightarrow> mm option" where
  "setreply proc_nr result s =
     (let s1 = upd_mp proc_nr (\<lambda>p. p\<lparr>reply_res := result\<rparr>) s;
          s2 = set_flags {REPLY} proc_nr s1
      in if ONSWAP \<in> mflags s2 proc_nr then swap_inqueue proc_nr s2 else Some s2)"

subsection \<open>Alarms, waking up, stopping\<close>

text \<open>The clock task's answer is the number of seconds left on the previous alarm.\<close>

definition set_alarm :: "int \<Rightarrow> u32 \<Rightarrow> mm \<Rightarrow> (int \<times> mm) option" where
  "set_alarm proc_nr sec s =
     (let s1 = (if sec \<noteq> 0 then set_flags {ALARM_ON} proc_nr s else clear_flags {ALARM_ON} proc_nr s);
          ticks = HZ * sec;
          delta_ticks = (if ticks div HZ \<noteq> sec then 0x7FFFFFFF else ticks);
          (a, s2) = ask (SetAlarm proc_nr delta_ticks) s1
      in if an_res a \<noteq> OK then None
         else let remaining = sint (an_vals a ! 0)
              in Some (if remaining < 0 then 0x7FFFFFFF else remaining, s2))"

definition unpause :: "int \<Rightarrow> mm \<Rightarrow> mm option" where
  "unpause pro s =
     (if mflags s pro \<inter> {PAUSED, WAITING, SIGSUSPENDED} \<noteq> {}
      then setreply pro EINTR (clear_flags {PAUSED, WAITING, SIGSUSPENDED} pro s)
      else Some (tell (TellFs FsUnpause pro 0 0) s))"

definition stop_proc :: "int \<Rightarrow> int \<Rightarrow> mm \<Rightarrow> mm option" where
  "stop_proc rmp signo s =
     (let (a, s1) = ask (SysTrace (-1) rmp 0 0) s
      in if an_res a \<noteq> OK then Some s1
         else let s2 = set_flags {STOPPED} rmp s1;
                  parent = mp_parent (mproctab s2 rmp)
              in if WAITING \<in> mflags s2 parent
                 then let s3 = clear_flags {WAITING} parent s2;
                          s4 = upd_mp parent (\<lambda>p. p\<lparr>reply_res2 := 0x7F OR push_bit 8 (word_of_int signo)\<rparr>) s3
                      in setreply parent (mp_pid (mproctab s4 rmp)) s4
                 else Some (upd_mp rmp (\<lambda>p. p\<lparr>mp_sigstatus := word_of_int signo\<rparr>) s2))"

text \<open>The core image: refused to a process with foreign rights, else the status is marked, the stack
  segment brought up to date and the file written.\<close>

definition core_name :: "u8 list" where
  "core_name = [0x63, 0x6F, 0x72, 0x65]"

definition dump_core :: "int \<Rightarrow> mm \<Rightarrow> mm" where
  "dump_core slot s =
     (if mp_realuid (mproctab s slot) \<noteq> mp_effuid (mproctab s slot) then s
      else let (a, s1) = ask (OpenFile core_name) s
           in if an_res a < 0 then s1
              else let s2 = upd_mp slot (\<lambda>p. p\<lparr>mp_sigstatus := mp_sigstatus p OR 0x80\<rparr>) s1;
                       (b, s3) = ask (SysGetsp slot) s2;
                       s4 = snd (adjust slot (mem_len (mseg s3 slot SegD)) (an_vals b ! 0) s3)
                   in tell (CoreDump slot) s4)"

subsection \<open>Exit\<close>

definition find_share :: "int \<Rightarrow> int \<Rightarrow> int \<Rightarrow> int \<Rightarrow> mm \<Rightarrow> int option" where
  "find_share mp_ign ino dev ctime s =
     find (\<lambda>n. SEPARATE \<in> mflags s n \<and> n \<noteq> mp_ign \<and> mp_ino (mproctab s n) = ino
             \<and> mp_dev (mproctab s n) = dev \<and> mp_ctime (mproctab s n) = ctime) user_slots"

definition cleanup :: "int \<Rightarrow> mm \<Rightarrow> mm option" where
  "cleanup child s =
     (let parent = mp_parent (mproctab s child);
          exitstatus = push_bit 8 (scast (mp_exitstatus (mproctab s child)))
                         OR ucast (mp_sigstatus (mproctab s child)) :: u32;
          s1 = upd_mp parent (\<lambda>p. p\<lparr>reply_res2 := exitstatus\<rparr>) s
      in do {
        s2 \<leftarrow> setreply parent (mp_pid (mproctab s1 child)) s1;
        let s3 = clear_flags {WAITING} parent s2;
        let s4 = upd_mp child (\<lambda>p. p\<lparr>mp_flags := {}\<rparr>) s3;
        Some (s4\<lparr>procs_in_use := procs_in_use s4 - 1\<rparr>)
      })"

definition disinherit_one :: "int \<Rightarrow> int \<Rightarrow> mm \<Rightarrow> mm option" where
  "disinherit_one proc_nr rmp s =
     (if IN_USE \<in> mflags s rmp \<and> mp_parent (mproctab s rmp) = proc_nr
      then let s1 = upd_mp rmp (\<lambda>p. p\<lparr>mp_parent := INIT_PROC_NR\<rparr>) s
           in if WAITING \<in> mflags s1 INIT_PROC_NR \<and> ZOMBIE \<in> mflags s1 rmp then cleanup rmp s1 else Some s1
      else Some s)"

fun disinherit :: "int \<Rightarrow> int list \<Rightarrow> mm \<Rightarrow> mm option" where
  "disinherit proc_nr [] s = Some s"
| "disinherit proc_nr (rmp # rest) s = do { s1 \<leftarrow> disinherit_one proc_nr rmp s; disinherit proc_nr rest s1 }"

subsection \<open>The cycle of signalling\<close>

text \<open>Selection and permission in the loop of \<^verbatim>\<open>check_sig()\<close>.\<close>

definition sig_selected :: "int \<Rightarrow> int \<Rightarrow> int \<Rightarrow> mm \<Rightarrow> bool" where
  "sig_selected proc_id signo rmp s \<longleftrightarrow>
     IN_USE \<in> mflags s rmp \<and> \<not> (ZOMBIE \<in> mflags s rmp \<and> signo \<noteq> 0)
     \<and> \<not> (proc_id > 0 \<and> proc_id \<noteq> mp_pid (mproctab s rmp))
     \<and> \<not> (proc_id = 0 \<and> mp_procgrp (mproctab s (mp s)) \<noteq> mp_procgrp (mproctab s rmp))
     \<and> \<not> (proc_id = -1 \<and> mp_pid (mproctab s rmp) \<le> INIT_PID)
     \<and> \<not> (proc_id < -1 \<and> mp_procgrp (mproctab s rmp) \<noteq> - proc_id)"

definition sig_allowed :: "mproc \<Rightarrow> mproc \<Rightarrow> bool" where
  "sig_allowed c r \<longleftrightarrow> mp_effuid c = SUPER_USER \<or> mp_realuid c = mp_realuid r \<or> mp_effuid c = mp_realuid r
     \<or> mp_realuid c = mp_effuid r \<or> mp_effuid c = mp_effuid r"

fun check_sig_loop ::
    "(int \<Rightarrow> int \<Rightarrow> mm \<Rightarrow> mm option) \<Rightarrow> int \<Rightarrow> int \<Rightarrow> int list \<Rightarrow> nat \<Rightarrow> int \<Rightarrow> mm \<Rightarrow> (nat \<times> int \<times> mm) option" where
  "check_sig_loop sigp proc_id signo [] count err s = Some (count, err, s)"
| "check_sig_loop sigp proc_id signo (rmp # rest) count err s =
     (if \<not> sig_selected proc_id signo rmp s then check_sig_loop sigp proc_id signo rest count err s
      else if \<not> sig_allowed (mproctab s (mp s)) (mproctab s rmp)
           then check_sig_loop sigp proc_id signo rest count EPERM s
      else if signo = 0 then check_sig_loop sigp proc_id signo rest (count + 1) err s
      else do {
        s1 \<leftarrow> sigp rmp signo s;
        if proc_id > 0 then Some (count + 1, err, s1)
        else check_sig_loop sigp proc_id signo rest (count + 1) err s1
      })"

definition check_sig_with :: "(int \<Rightarrow> int \<Rightarrow> mm \<Rightarrow> mm option) \<Rightarrow> int \<Rightarrow> int \<Rightarrow> mm \<Rightarrow> (int \<times> mm) option" where
  "check_sig_with sigp proc_id signo s =
     (if signo < 0 \<or> signo > NSIG then Some (EINVAL, s)
      else if proc_id = INIT_PID \<and> signo = SIGKILL then Some (EINVAL, s)
      else do {
        (count, err, s1) \<leftarrow> check_sig_loop sigp proc_id signo user_slots 0 ESRCH s;
        Some (if \<not> live s1 (mp s1) then SUSPEND else if count > 0 then OK else err, s1)
      })"

text \<open>Releasing a process' memory: the text unless another process runs the same file, then data and
  stack.\<close>

definition exit_memory :: "int \<Rightarrow> mm \<Rightarrow> mm option" where
  "exit_memory rmp s =
     do {
       let r = mproctab s rmp;
       s1 \<leftarrow> (if find_share rmp (mp_ino r) (mp_dev r) (mp_ctime r) s = None
             then free_mem (mem_phys (mp_seg r SegT)) (mem_len (mp_seg r SegT)) s else Some s);
       free_mem (mem_phys (mp_seg r SegD)) (image_clicks (mp_seg r)) s1
     }"

definition right_child :: "int \<Rightarrow> mproc \<Rightarrow> bool" where
  "right_child pidarg r \<longleftrightarrow> pidarg = -1 \<or> pidarg = mp_pid r \<or> - pidarg = mp_procgrp r"

definition mm_exit_with :: "(int \<Rightarrow> int \<Rightarrow> mm \<Rightarrow> mm option) \<Rightarrow> int \<Rightarrow> int \<Rightarrow> mm \<Rightarrow> mm option" where
  "mm_exit_with sigp rmp exit_status s =
     do {
       let procgrp = (if mp_pid (mproctab s rmp) = mp_procgrp (mproctab s (mp s))
                      then mp_procgrp (mproctab s (mp s)) else 0);
       s1 \<leftarrow> (if ALARM_ON \<in> mflags s rmp then map_option snd (set_alarm rmp 0 s) else Some s);
       let s2 = tell (SysXit (mp_parent (mproctab s1 rmp)) rmp) (tell (TellFs FsExit rmp 0 0) s1);
       s3 \<leftarrow> exit_memory rmp s2;
       let s4 = upd_mp rmp (\<lambda>p. p\<lparr>mp_exitstatus := word_of_int exit_status\<rparr>) s3;
       let parent = mp_parent (mproctab s4 rmp);
       s5 \<leftarrow> (if WAITING \<in> mflags s4 parent \<and> right_child (mp_wpid (mproctab s4 parent)) (mproctab s4 rmp)
             then cleanup rmp s4
             else sigp parent SIGCHLD (upd_mp rmp (\<lambda>p. p\<lparr>mp_flags := {IN_USE, ZOMBIE}\<rparr>) s4));
       s6 \<leftarrow> disinherit rmp all_slots s5;
       if procgrp \<noteq> 0 then map_option snd (check_sig_with sigp (- procgrp) SIGHUP s6) else Some s6
     }"

text \<open>The message for the kernel and the changes to the masks when a signal is delivered.\<close>

definition catch_masks :: "int \<Rightarrow> mproc \<Rightarrow> mproc" where
  "catch_masks signo p =
     (let act = mp_sigact p signo;
          p1 = p\<lparr>mp_sigmask := mp_sigmask p OR sa_mask act\<rparr>;
          p2 = (if sa_flags act AND SA_NODEFER \<noteq> 0
                then p1\<lparr>mp_sigmask := sigdelset (mp_sigmask p1) signo\<rparr>
                else p1\<lparr>mp_sigmask := sigaddset (mp_sigmask p1) signo\<rparr>)
      in if sa_flags act AND SA_RESETHAND \<noteq> 0
         then p2\<lparr>mp_catch := sigdelset (mp_catch p2) signo,
                 mp_sigact := (mp_sigact p2)(signo := (mp_sigact p2 signo)\<lparr>sa_handler := SIG_DFL\<rparr>)\<rparr>
         else p2)"

definition pend :: "int \<Rightarrow> int \<Rightarrow> mm \<Rightarrow> mm" where
  "pend rmp signo s = upd_mp rmp (\<lambda>p. p\<lparr>mp_sigpending := sigaddset (mp_sigpending p) signo\<rparr>) s"

definition sig_terminate :: "(int \<Rightarrow> int \<Rightarrow> mm \<Rightarrow> mm option) \<Rightarrow> int \<Rightarrow> int \<Rightarrow> mm \<Rightarrow> mm option" where
  "sig_terminate exitp rmp signo s =
     (if sigismember (ign_sset s) signo \<noteq> 0 then Some s
      else let s1 = upd_mp rmp (\<lambda>p. p\<lparr>mp_sigstatus := word_of_int signo\<rparr>) s
           in if sigismember (core_sset s1) signo \<noteq> 0
              then if ONSWAP \<in> mflags s1 rmp then swap_inqueue rmp (pend rmp signo s1)
                   else exitp rmp 0 (dump_core rmp (tell (TellFs FsChdir rmp 0 0) s1))
              else exitp rmp 0 s1)"

definition sig_catch :: "(int \<Rightarrow> int \<Rightarrow> mm \<Rightarrow> mm option) \<Rightarrow> int \<Rightarrow> int \<Rightarrow> mm \<Rightarrow> mm option" where
  "sig_catch exitp rmp signo s =
     (if ONSWAP \<in> mflags s rmp then swap_inqueue rmp (pend rmp signo s)
      else let p = mproctab s rmp;
               sm_mask = (if SIGSUSPENDED \<in> mflags s rmp then mp_sigmask2 p else mp_sigmask p);
               (a, s1) = ask (SysGetsp rmp) s;
               sp = an_vals a ! 0;
               sm = [sm_mask, word_of_int signo, sa_handler (mp_sigact p signo), mp_sigreturn p, sp];
               (r, s2) = adjust rmp (mem_len (mseg s1 rmp SegD)) (sp - SIGFRAME_ROOM) s1
           in if r \<noteq> OK then sig_terminate exitp rmp signo s2
              else let s3 = upd_mp rmp (catch_masks signo) s2;
                       s4 = tell (SysSendsig rmp sm) s3;
                       s5 = upd_mp rmp (\<lambda>p. p\<lparr>mp_sigpending := sigdelset (mp_sigpending p) signo\<rparr>) s4
                   in unpause rmp s5)"

definition sig_proc_with :: "(int \<Rightarrow> int \<Rightarrow> mm \<Rightarrow> mm option) \<Rightarrow> int \<Rightarrow> int \<Rightarrow> mm \<Rightarrow> mm option" where
  "sig_proc_with exitp rmp signo s =
     (if \<not> live s rmp then None
      else if TRACED \<in> mflags s rmp \<and> signo \<noteq> SIGKILL then do { s1 \<leftarrow> unpause rmp s; stop_proc rmp signo s1 }
      else if sigismember (mp_ignore (mproctab s rmp)) signo \<noteq> 0 then Some s
      else if sigismember (mp_sigmask (mproctab s rmp)) signo \<noteq> 0 then Some (pend rmp signo s)
      else if sigismember (mp_catch (mproctab s rmp)) signo \<noteq> 0 then sig_catch exitp rmp signo s
      else sig_terminate exitp rmp signo s)"

fun sig_proc_fuel :: "nat \<Rightarrow> int \<Rightarrow> int \<Rightarrow> mm \<Rightarrow> mm option" where
  "sig_proc_fuel 0 rmp signo s = None"
| "sig_proc_fuel (Suc n) rmp signo s = sig_proc_with (mm_exit_with (sig_proc_fuel n)) rmp signo s"

abbreviation DEPTH :: nat where "DEPTH \<equiv> 33"

definition sig_proc :: "int \<Rightarrow> int \<Rightarrow> mm \<Rightarrow> mm option" where
  "sig_proc = sig_proc_fuel DEPTH"

definition mm_exit :: "int \<Rightarrow> int \<Rightarrow> mm \<Rightarrow> mm option" where
  "mm_exit = mm_exit_with sig_proc"

definition check_sig :: "int \<Rightarrow> int \<Rightarrow> mm \<Rightarrow> (int \<times> mm) option" where
  "check_sig = check_sig_with sig_proc"

definition check_pending :: "int \<Rightarrow> mm \<Rightarrow> mm option" where
  "check_pending rmp s =
     (case find (\<lambda>i. sigismember (mp_sigpending (mproctab s rmp)) i \<noteq> 0
                   \<and> sigismember (mp_sigmask (mproctab s rmp)) i = 0) [1..NSIG] of
        None \<Rightarrow> Some s
      | Some i \<Rightarrow> sig_proc rmp i (upd_mp rmp (\<lambda>p. p\<lparr>mp_sigpending := sigdelset (mp_sigpending p) i\<rparr>) s))"

subsection \<open>The system calls\<close>

definition do_mm_exit :: "int \<Rightarrow> mm \<Rightarrow> (int \<times> mm) option" where
  "do_mm_exit status s = map_option (Pair SUSPEND) (mm_exit (mp s) status s)"

definition sigaction_words :: "sigaction \<Rightarrow> u32 list" where
  "sigaction_words a = [sa_handler a, sa_mask a, sa_flags a]"

definition words_sigaction :: "u32 list \<Rightarrow> sigaction" where
  "words_sigaction ws = \<lparr>sa_handler = ws ! 0, sa_mask = ws ! 1, sa_flags = ws ! 2\<rparr>"

text \<open>Installing an action, the part of \<^verbatim>\<open>do_sigaction()\<close> after \<^verbatim>\<open>svec\<close> was read.\<close>

definition set_action :: "int \<Rightarrow> sigaction \<Rightarrow> u32 \<Rightarrow> mproc \<Rightarrow> mproc" where
  "set_action sig_nr svec sig_ret p =
     (let p1 = (if sa_handler svec = SIG_IGN
                then p\<lparr>mp_ignore := sigaddset (mp_ignore p) sig_nr,
                       mp_sigpending := sigdelset (mp_sigpending p) sig_nr,
                       mp_catch := sigdelset (mp_catch p) sig_nr\<rparr>
                else p\<lparr>mp_ignore := sigdelset (mp_ignore p) sig_nr,
                       mp_catch := (if sa_handler svec = SIG_DFL then sigdelset (mp_catch p) sig_nr
                                    else sigaddset (mp_catch p) sig_nr)\<rparr>)
      in p1\<lparr>mp_sigact := (mp_sigact p1)(sig_nr := svec\<lparr>sa_mask := sigdelset (sa_mask svec) SIGKILL\<rparr>),
            mp_sigreturn := sig_ret\<rparr>)"

definition do_sigaction :: "int \<Rightarrow> u32 \<Rightarrow> u32 \<Rightarrow> u32 \<Rightarrow> mm \<Rightarrow> int \<times> mm" where
  "do_sigaction sig_nr sig_osa sig_nsa sig_ret s =
     (if sig_nr = SIGKILL then (OK, s)
      else if sig_nr < 1 \<or> sig_nr > NSIG then (EINVAL, s)
      else let (r, s1) = (if sig_osa \<noteq> 0
                          then let (a, t) = ask (SysCopyOut (who s) sig_osa (sigaction_words (mp_sigact (mproctab s (mp s)) sig_nr))) s
                               in (an_res a, t)
                          else (OK, s))
           in if r \<noteq> OK then (r, s1)
              else if sig_nsa = 0 then (OK, s1)
              else let (b, s2) = ask (SysCopyIn (who s1) sig_nsa 12) s1
                   in if an_res b \<noteq> OK then (an_res b, s2)
                      else (OK, upd_mp (mp s2) (set_action sig_nr (words_sigaction (an_vals b)) sig_ret) s2))"

definition do_sigpending :: "mm \<Rightarrow> int \<times> mm" where
  "do_sigpending s = (OK, upd_mp (mp s) (\<lambda>p. p\<lparr>reply_mask := mp_sigpending p\<rparr>) s)"

abbreviation SIG_BLOCK :: int where "SIG_BLOCK \<equiv> 0"
abbreviation SIG_UNBLOCK :: int where "SIG_UNBLOCK \<equiv> 1"
abbreviation SIG_SETMASK :: int where "SIG_SETMASK \<equiv> 2"
abbreviation SIG_INQUIRE :: int where "SIG_INQUIRE \<equiv> 4"

definition add_members :: "u32 \<Rightarrow> u32 \<Rightarrow> u32" where
  "add_members sset msk = fold (\<lambda>i m. if sigismember sset i \<noteq> 0 then sigaddset m i else m) [1..NSIG] msk"

definition del_members :: "u32 \<Rightarrow> u32 \<Rightarrow> u32" where
  "del_members sset msk = fold (\<lambda>i m. if sigismember sset i \<noteq> 0 then sigdelset m i else m) [1..NSIG] msk"

definition do_sigprocmask :: "int \<Rightarrow> u32 \<Rightarrow> mm \<Rightarrow> (int \<times> mm) option" where
  "do_sigprocmask how sset s =
     (let s1 = upd_mp (mp s) (\<lambda>p. p\<lparr>reply_mask := mp_sigmask p\<rparr>) s
      in if how = SIG_BLOCK
         then Some (OK, upd_mp (mp s) (\<lambda>p. p\<lparr>mp_sigmask := add_members (sigdelset sset SIGKILL) (mp_sigmask p)\<rparr>) s1)
         else if how = SIG_UNBLOCK
         then map_option (Pair OK) (check_pending (mp s) (upd_mp (mp s) (\<lambda>p. p\<lparr>mp_sigmask := del_members sset (mp_sigmask p)\<rparr>) s1))
         else if how = SIG_SETMASK
         then map_option (Pair OK) (check_pending (mp s) (upd_mp (mp s) (\<lambda>p. p\<lparr>mp_sigmask := sigdelset sset SIGKILL\<rparr>) s1))
         else if how = SIG_INQUIRE then Some (OK, s1)
         else Some (EINVAL, s1))"

definition do_sigsuspend :: "u32 \<Rightarrow> mm \<Rightarrow> (int \<times> mm) option" where
  "do_sigsuspend sset s =
     (let s1 = upd_mp (mp s) (\<lambda>p. p\<lparr>mp_sigmask2 := mp_sigmask p\<rparr>) s;
          s2 = upd_mp (mp s) (\<lambda>p. p\<lparr>mp_sigmask := sigdelset sset SIGKILL\<rparr>) s1;
          s3 = set_flags {SIGSUSPENDED} (mp s) s2
      in map_option (Pair SUSPEND) (check_pending (mp s) s3))"

definition mm_do_sigreturn :: "u32 \<Rightarrow> u32 \<Rightarrow> mm \<Rightarrow> (int \<times> mm) option" where
  "mm_do_sigreturn sset context s =
     (let s1 = upd_mp (mp s) (\<lambda>p. p\<lparr>mp_sigmask := sigdelset sset SIGKILL\<rparr>) s;
          (a, s2) = ask (SysSigreturn (who s1) context) s1
      in map_option (Pair (an_res a)) (check_pending (mp s2) s2))"

definition mm_do_kill :: "int \<Rightarrow> int \<Rightarrow> mm \<Rightarrow> (int \<times> mm) option" where
  "mm_do_kill pid sig_nr s = check_sig pid sig_nr s"

text \<open>The loop of \<^verbatim>\<open>do_ksig()\<close> over the signals the kernel collected for a process.\<close>

definition ksig_one :: "int \<Rightarrow> int \<Rightarrow> int \<Rightarrow> mm \<Rightarrow> mm option" where
  "ksig_one proc_nr proc_id i s =
     (if i = SIGALRM \<and> ALARM_ON \<notin> mflags s proc_nr then Some s
      else let ident = (if i = SIGINT \<or> i = SIGQUIT then 0 else if i = SIGKILL then -1 else proc_id);
               s1 = (if i = SIGALRM then clear_flags {ALARM_ON} proc_nr s else s)
           in map_option (\<lambda>(r, s2). tell (SysEndsig proc_nr) s2) (check_sig ident i s1))"

fun ksig_loop :: "int \<Rightarrow> int \<Rightarrow> u32 \<Rightarrow> int list \<Rightarrow> mm \<Rightarrow> mm option" where
  "ksig_loop proc_nr proc_id sig_map [] s = Some s"
| "ksig_loop proc_nr proc_id sig_map (i # rest) s =
     (if sigismember sig_map i = 0 then ksig_loop proc_nr proc_id sig_map rest s
      else do { s1 \<leftarrow> ksig_one proc_nr proc_id i s; ksig_loop proc_nr proc_id sig_map rest s1 })"

definition do_ksig :: "int \<Rightarrow> u32 \<Rightarrow> mm \<Rightarrow> (int \<times> mm) option" where
  "do_ksig proc_nr sig_map s =
     (if who s \<noteq> HARDWARE then Some (EPERM, s)
      else if \<not> live s proc_nr then Some (SUSPEND, s)
      else let proc_id = mp_pid (mproctab s proc_nr);
               s1 = s\<lparr>mp := 0\<rparr>;
               s2 = upd_mp 0 (\<lambda>p. p\<lparr>mp_procgrp := mp_procgrp (mproctab s1 proc_nr)\<rparr>) s1
           in map_option (Pair SUSPEND) (ksig_loop proc_nr proc_id sig_map [1..NSIG] s2))"

definition do_alarm :: "u32 \<Rightarrow> mm \<Rightarrow> (int \<times> mm) option" where
  "do_alarm seconds s = set_alarm (who s) seconds s"

definition do_pause :: "mm \<Rightarrow> int \<times> mm" where
  "do_pause s = (SUSPEND, set_flags {PAUSED} (mp s) s)"

end
