(* ===== verification/MM_Signal_Inv.thy ===== *)
theory MM_Signal_Inv
  imports MM_Signal
begin

text \<open>
  What the signal and exit code leaves alone.  \<open>core_view\<close> is the state without the fields that waking,
  stopping, queueing and replying change; most operations keep it, and invariants over the rest of the
  state are inherited from it.  On top of it: the live processes only shrink, the recursion of
  \<^verbatim>\<open>sig_proc()\<close> is at most one deep per live process, and SIGKILL stays unblockable.
\<close>

subsection \<open>The state without its wake-up fields\<close>

definition core :: "mproc \<Rightarrow> mproc" where
  "core p = p\<lparr>mp_sigstatus := 0, mp_sigpending := 0, mp_swapq := None, reply_res := 0, reply_res2 := 0, reply_ptr := 0,
              reply_mask := 0, reply_l2 := 0, mp_flags := mp_flags p \<inter> {IN_USE, ZOMBIE, SEPARATE, TRACED, ONSWAP}\<rparr>"

definition core_view :: "mm \<Rightarrow> mm" where
  "core_view s = s\<lparr>mproctab := (\<lambda>n. core (mproctab s n)), in_queue := None, hist := []\<rparr>"

lemma core_view_upd:
  assumes "\<And>p. core (f p) = core p"
  shows "core_view (upd_mp n f s) = core_view s"
proof -
  have "(\<lambda>m. core (((mproctab s)(n := f (mproctab s n))) m)) = (\<lambda>m. core (mproctab s m))" by (rule ext) (simp add: assms)
  then show ?thesis by (simp add: core_view_def upd_mp_def del: fun_upd_apply)
qed

lemma core_view_tell [simp]: "core_view (tell q s) = core_view s"
  by (simp add: core_view_def tell_def)

lemma core_view_in_queue [simp]: "core_view (s\<lparr>in_queue := q\<rparr>) = core_view s"
  by (simp add: core_view_def)

lemma core_view_reply [simp]:
  "core_view (upd_mp n (\<lambda>p. p\<lparr>mp_sigstatus := f1 p\<rparr>) s) = core_view s"
  "core_view (upd_mp n (\<lambda>p. p\<lparr>mp_sigpending := f2 p\<rparr>) s) = core_view s"
  "core_view (upd_mp n (\<lambda>p. p\<lparr>mp_swapq := f3 p\<rparr>) s) = core_view s"
  "core_view (upd_mp n (\<lambda>p. p\<lparr>reply_res := f4 p\<rparr>) s) = core_view s"
  "core_view (upd_mp n (\<lambda>p. p\<lparr>reply_res2 := f5 p\<rparr>) s) = core_view s"
  "core_view (upd_mp n (\<lambda>p. p\<lparr>reply_ptr := f6 p\<rparr>) s) = core_view s"
  "core_view (upd_mp n (\<lambda>p. p\<lparr>reply_mask := f7 p\<rparr>) s) = core_view s"
  "core_view (upd_mp n (\<lambda>p. p\<lparr>reply_l2 := f8 p\<rparr>) s) = core_view s"
  by (rule core_view_upd, simp add: core_def)+

lemma core_view_flags [simp]:
  "F \<inter> {IN_USE, ZOMBIE, SEPARATE, TRACED, ONSWAP} = {} \<Longrightarrow> core_view (set_flags F n s) = core_view s"
  "F \<inter> {IN_USE, ZOMBIE, SEPARATE, TRACED, ONSWAP} = {} \<Longrightarrow> core_view (clear_flags F n s) = core_view s"
  unfolding set_flags_def clear_flags_def
  by (rule core_view_upd; auto simp: core_def Int_Un_distrib2 Diff_Int_distrib2; blast)+

lemma core_view_proc:
  assumes "core_view s' = core_view s"
  shows "core (mproctab s' n) = core (mproctab s n)"
proof -
  have "mproctab (core_view s') n = mproctab (core_view s) n" using assms by simp
  then show ?thesis by (simp add: core_view_def)
qed

lemma core_view_fields:
  assumes "core_view s' = core_view s"
  shows "mp s' = mp s" "holes s' = holes s" "hole_head s' = hole_head s" "free_slots s' = free_slots s" "swap_base s' = swap_base s"
    "core_sset s' = core_sset s" "ign_sset s' = ign_sset s" "env s' = env s" "who s' = who s" "next_pid s' = next_pid s"
    "procs_in_use s' = procs_in_use s" "outswap s' = outswap s" "swap_fd s' = swap_fd s"
proof -
  note e = arg_cong [OF assms]
  show "mp s' = mp s" "holes s' = holes s" "hole_head s' = hole_head s" "free_slots s' = free_slots s" "swap_base s' = swap_base s"
    "core_sset s' = core_sset s" "ign_sset s' = ign_sset s" "env s' = env s" "who s' = who s" "next_pid s' = next_pid s"
    "procs_in_use s' = procs_in_use s" "outswap s' = outswap s" "swap_fd s' = swap_fd s"
    using e [of mp] e [of holes] e [of hole_head] e [of free_slots] e [of swap_base] e [of core_sset] e [of ign_sset] e [of env]
      e [of who] e [of next_pid] e [of procs_in_use] e [of outswap] e [of swap_fd]
    by (simp_all add: core_view_def)
qed

lemma core_fields:
  assumes "core p' = core p"
  shows "mp_seg p' = mp_seg p" "mp_pid p' = mp_pid p" "mp_procgrp p' = mp_procgrp p" "mp_parent p' = mp_parent p"
    "mp_ino p' = mp_ino p" "mp_dev p' = mp_dev p" "mp_ctime p' = mp_ctime p" "mp_ignore p' = mp_ignore p" "mp_catch p' = mp_catch p"
    "mp_sigmask p' = mp_sigmask p" "mp_sigmask2 p' = mp_sigmask2 p" "mp_sigact p' = mp_sigact p" "mp_effuid p' = mp_effuid p"
    "mp_realuid p' = mp_realuid p" "mp_exitstatus p' = mp_exitstatus p"
    "x \<in> {IN_USE, ZOMBIE, SEPARATE, TRACED, ONSWAP} \<Longrightarrow> x \<in> mp_flags p' \<longleftrightarrow> x \<in> mp_flags p"
proof -
  note e = arg_cong [OF assms]
  show "mp_seg p' = mp_seg p" "mp_pid p' = mp_pid p" "mp_procgrp p' = mp_procgrp p" "mp_parent p' = mp_parent p"
    "mp_ino p' = mp_ino p" "mp_dev p' = mp_dev p" "mp_ctime p' = mp_ctime p" "mp_ignore p' = mp_ignore p" "mp_catch p' = mp_catch p"
    "mp_sigmask p' = mp_sigmask p" "mp_sigmask2 p' = mp_sigmask2 p" "mp_sigact p' = mp_sigact p" "mp_effuid p' = mp_effuid p"
    "mp_realuid p' = mp_realuid p" "mp_exitstatus p' = mp_exitstatus p"
    using e [of mp_seg] e [of mp_pid] e [of mp_procgrp] e [of mp_parent] e [of mp_ino] e [of mp_dev] e [of mp_ctime] e [of mp_ignore]
      e [of mp_catch] e [of mp_sigmask] e [of mp_sigmask2] e [of mp_sigact] e [of mp_effuid] e [of mp_realuid] e [of mp_exitstatus]
    by (simp_all add: core_def)
  show "x \<in> mp_flags p' \<longleftrightarrow> x \<in> mp_flags p" if "x \<in> {IN_USE, ZOMBIE, SEPARATE, TRACED, ONSWAP}"
    using e [of mp_flags] that by (auto simp: core_def)
qed

lemmas core_view_proc_fields = core_fields [OF core_view_proc]

lemma core_view_live: "core_view s' = core_view s \<Longrightarrow> live s' n = live s n"
  using core_view_proc_fields(16) [of s' s IN_USE n] core_view_proc_fields(16) [of s' s ZOMBIE n] by (simp add: live_def)

subsection \<open>Operations that keep the view\<close>

lemma swap_inqueue_core: "swap_inqueue n s = Some s' \<Longrightarrow> core_view s' = core_view s"
  by (auto simp: swap_inqueue_def Let_def bind_eq_Some_conv split: if_splits option.splits)

lemma setreply_core: "setreply n r s = Some s' \<Longrightarrow> core_view s' = core_view s"
  by (auto simp: setreply_def Let_def dest!: swap_inqueue_core split: if_splits)

lemma set_alarm_core: "set_alarm n t s = Some (r, s') \<Longrightarrow> core_view s' = core_view s"
  by (auto simp: set_alarm_def ask_def Let_def split: if_splits)

lemma unpause_core: "unpause n s = Some s' \<Longrightarrow> core_view s' = core_view s"
  by (auto simp: unpause_def dest!: setreply_core split: if_splits)

lemma stop_proc_core: "stop_proc n sig s = Some s' \<Longrightarrow> core_view s' = core_view s"
  by (auto simp: stop_proc_def ask_def Let_def dest!: setreply_core split: if_splits)

lemma pend_core [simp]: "core_view (pend n sig s) = core_view s"
  by (simp add: pend_def)

lemmas core_ops = swap_inqueue_core setreply_core set_alarm_core unpause_core stop_proc_core

lemma core_view_cong:
  assumes "core_view s' = core_view s" "\<And>p q. core p = core q \<Longrightarrow> core (f p) = core (f q)"
  shows "core_view (upd_mp n f s') = core_view (upd_mp n f s)"
proof -
  have e: "(\<lambda>m. core (((mproctab t)(n := f (mproctab t n))) m)) = (\<lambda>m. core (mproctab t m))(n := core (f (mproctab t n)))" for t
    by (rule ext) simp
  have v: "core_view (upd_mp n f t) = (core_view t)\<lparr>mproctab := (mproctab (core_view t))(n := core (f (mproctab t n)))\<rparr>" for t
    by (simp add: core_view_def upd_mp_def e del: fun_upd_apply)
  have "core (f (mproctab s' n)) = core (f (mproctab s n))" by (rule assms(2) [OF core_view_proc [OF assms(1)]])
  then show ?thesis unfolding v assms(1) by simp
qed

lemma core_view_in_use [simp]: "core_view (s\<lparr>procs_in_use := k\<rparr>) = (core_view s)\<lparr>procs_in_use := k\<rparr>"
  by (simp add: core_view_def)

lemma core_view_hist [simp]: "core_view (s\<lparr>hist := h\<rparr>) = core_view s"
  by (simp add: core_view_def)

lemma core_set_flags: "core p = core q \<Longrightarrow> core (p\<lparr>mp_flags := F\<rparr>) = core (q\<lparr>mp_flags := F\<rparr>)"
proof -
  have e: "core (p\<lparr>mp_flags := F\<rparr>) = (core p)\<lparr>mp_flags := F \<inter> {IN_USE, ZOMBIE, SEPARATE, TRACED, ONSWAP}\<rparr>" for p
    by (simp add: core_def)
  show "core p = core q \<Longrightarrow> ?thesis" unfolding e by simp
qed

lemma cleanup_core:
  assumes "cleanup c s = Some s'"
  shows "core_view s' = core_view ((upd_mp c (\<lambda>p. p\<lparr>mp_flags := {}\<rparr>) s)\<lparr>procs_in_use := procs_in_use s - 1\<rparr>)"
proof -
  let ?e = "push_bit 8 (scast (mp_exitstatus (mproctab s c))) OR ucast (mp_sigstatus (mproctab s c)) :: u32"
  let ?s1 = "upd_mp (mp_parent (mproctab s c)) (\<lambda>p. p\<lparr>reply_res2 := ?e\<rparr>) s"
  obtain s2 where r: "setreply (mp_parent (mproctab s c)) (mp_pid (mproctab ?s1 c)) ?s1 = Some s2"
    and s': "(upd_mp c (\<lambda>p. p\<lparr>mp_flags := {}\<rparr>) (clear_flags {WAITING} (mp_parent (mproctab s c)) s2))
      \<lparr>procs_in_use := procs_in_use (upd_mp c (\<lambda>p. p\<lparr>mp_flags := {}\<rparr>) (clear_flags {WAITING} (mp_parent (mproctab s c)) s2)) - 1\<rparr> = s'"
    using assms unfolding cleanup_def Let_def bind_eq_Some_conv option.inject by (elim exE conjE) (rule that; assumption)
  let ?s3 = "clear_flags {WAITING} (mp_parent (mproctab s c)) s2"
  have c3: "core_view ?s3 = core_view s" using setreply_core [OF r] by simp
  have "core_view (upd_mp c (\<lambda>p. p\<lparr>mp_flags := {}\<rparr>) ?s3) = core_view (upd_mp c (\<lambda>p. p\<lparr>mp_flags := {}\<rparr>) s)"
    by (rule core_view_cong [OF c3]) (rule core_set_flags)
  then show ?thesis using core_view_fields(11) [OF c3] by (simp add: s' [symmetric] Let_def upd_mp_def)
qed

subsection \<open>The live processes\<close>

definition live_set :: "mm \<Rightarrow> int set" where
  "live_set s = {n. live s n}"

lemma live_set_finite [simp]: "finite (live_set s)" and live_set_card: "card (live_set s) \<le> 32"
proof -
  have sub: "live_set s \<subseteq> {0..<32}" by (auto simp: live_set_def live_def)
  show "finite (live_set s)" using finite_subset [OF sub] by simp
  show "card (live_set s) \<le> 32" using card_mono [OF _ sub] by simp
qed

lemma live_set_upd: "(\<And>p. mp_flags (f p) = mp_flags p) \<Longrightarrow> live_set (upd_mp n f s) = live_set s"
  by (auto simp: live_set_def live_def upd_mp_def)

lemma core_view_live_set: "core_view s' = core_view s \<Longrightarrow> live_set s' = live_set s"
  by (simp add: live_set_def core_view_live [of s' s])

lemma live_set_fields [simp]:
  "live_set (s\<lparr>procs_in_use := k\<rparr>) = live_set s" "live_set (tell q s) = live_set s" "live_set (s\<lparr>hist := h\<rparr>) = live_set s"
  by (simp_all add: live_set_def live_def tell_def)

lemma live_set_other [simp]:
  "live_set (upd_mp n (\<lambda>p. p\<lparr>mp_exitstatus := x\<rparr>) s) = live_set s"
  "live_set (upd_mp n (\<lambda>p. p\<lparr>mp_sigstatus := y p\<rparr>) s) = live_set s"
  "live_set (upd_mp n (\<lambda>p. p\<lparr>mp_parent := z\<rparr>) s) = live_set s"
  "live_set (upd_mp n (\<lambda>p. p\<lparr>mp_seg := m\<rparr>) s) = live_set s"
  "live_set (upd_mp n (catch_masks sig) s) = live_set s"
  "live_set (upd_mp n (\<lambda>p. p\<lparr>mp_sigpending := f p\<rparr>) s) = live_set s"
  by (rule live_set_upd, simp add: catch_masks_def Let_def)+

lemma live_set_dead: "live_set (upd_mp n (\<lambda>p. p\<lparr>mp_flags := {}\<rparr>) s) = live_set s - {n}"
  "live_set (upd_mp n (\<lambda>p. p\<lparr>mp_flags := {IN_USE, ZOMBIE}\<rparr>) s) = live_set s - {n}"
  by (auto simp: live_set_def live_def upd_mp_def)

lemma cleanup_live: "cleanup c s = Some s' \<Longrightarrow> live_set s' = live_set s - {c}"
  using core_view_live_set [OF cleanup_core] by (simp add: live_set_dead)

lemma adjust_live [simp]: "live_set (snd (adjust n k sp s)) = live_set s"
  using adjust_frame [of n k sp s] by auto

lemma dump_core_live [simp]: "live_set (dump_core n s) = live_set s"
  by (simp add: dump_core_def ask_def Let_def)

lemma disinherit_one_live: "disinherit_one n r s = Some s' \<Longrightarrow> live_set s' \<subseteq> live_set s"
  unfolding disinherit_one_def Let_def
  by (split if_split_asm; (split if_split_asm)?; (drule cleanup_live)?; auto)

lemma disinherit_live: "disinherit n rs s = Some s' \<Longrightarrow> live_set s' \<subseteq> live_set s"
  by (induction rs arbitrary: s) (auto simp: bind_eq_Some_conv dest!: disinherit_one_live)

lemma exit_memory_live: "exit_memory n s = Some s' \<Longrightarrow> live_set s' = live_set s"
  by (auto simp: exit_memory_def Let_def bind_eq_Some_conv live_set_def live_def dest!: free_mem_only holes_onlyD(1) split: if_splits)

lemma check_sig_loop_preserves:
  assumes "\<And>r s s'. r \<in> A \<Longrightarrow> sigp r signo s = Some s' \<Longrightarrow> P s \<Longrightarrow> P s'"
    "check_sig_loop sigp pid signo ns count err s = Some (c, e, s')" "P s" "set ns \<subseteq> A"
  shows "P s'"
  using assms(2-4) by (induction ns arbitrary: count err s) (auto simp: bind_eq_Some_conv split: if_splits dest: assms(1))

lemma check_sig_with_preserves:
  assumes "\<And>r s s'. r \<in> set user_slots \<Longrightarrow> sigp r signo s = Some s' \<Longrightarrow> P s \<Longrightarrow> P s'" "check_sig_with sigp pid signo s = Some (x, s')" "P s"
  shows "P s'"
  using assms(2,3) check_sig_loop_preserves [where P = P and sigp = sigp and A = "set user_slots", OF assms(1) _ _ order_refl]
  by (auto simp: check_sig_with_def bind_eq_Some_conv split: if_splits simp del: mem_slots)

text \<open>The functions of the cycle never bring a process to life.\<close>

definition shrinks :: "(int \<Rightarrow> int \<Rightarrow> mm \<Rightarrow> mm option) \<Rightarrow> bool" where
  "shrinks k \<longleftrightarrow> (\<forall>r g s s'. k r g s = Some s' \<longrightarrow> live_set s' \<subseteq> live_set s)"

lemma shrinksD: "shrinks k \<Longrightarrow> k r g s = Some s' \<Longrightarrow> live_set s' \<subseteq> live_set s"
  by (simp add: shrinks_def)

text \<open>\<^verbatim>\<open>mm_exit()\<close> in two parts: up to the point where the process is no longer alive, and what
  follows.\<close>

definition exit_first :: "int \<Rightarrow> int \<Rightarrow> mm \<Rightarrow> mm option" where
  "exit_first rmp exit_status s =
     do {
       s1 \<leftarrow> (if ALARM_ON \<in> mflags s rmp then map_option snd (set_alarm rmp 0 s) else Some s);
       let s2 = tell (SysXit (mp_parent (mproctab s1 rmp)) rmp) (tell (TellFs FsExit rmp 0 0) s1);
       s3 \<leftarrow> exit_memory rmp s2;
       Some (upd_mp rmp (\<lambda>p. p\<lparr>mp_exitstatus := word_of_int exit_status\<rparr>) s3)
     }"

definition exit_parent :: "(int \<Rightarrow> int \<Rightarrow> mm \<Rightarrow> mm option) \<Rightarrow> int \<Rightarrow> mm \<Rightarrow> mm option" where
  "exit_parent sigp rmp s4 =
     (let parent = mp_parent (mproctab s4 rmp)
      in if WAITING \<in> mflags s4 parent \<and> right_child (mp_wpid (mproctab s4 parent)) (mproctab s4 rmp)
         then cleanup rmp s4
         else sigp parent SIGCHLD (upd_mp rmp (\<lambda>p. p\<lparr>mp_flags := {IN_USE, ZOMBIE}\<rparr>) s4))"

definition exit_group :: "int \<Rightarrow> mm \<Rightarrow> int" where
  "exit_group rmp s = (if mp_pid (mproctab s rmp) = mp_procgrp (mproctab s (mp s)) then mp_procgrp (mproctab s (mp s)) else 0)"

definition exit_last :: "(int \<Rightarrow> int \<Rightarrow> mm \<Rightarrow> mm option) \<Rightarrow> int \<Rightarrow> int \<Rightarrow> mm \<Rightarrow> mm option" where
  "exit_last sigp rmp procgrp s5 =
     do {
       s6 \<leftarrow> disinherit rmp all_slots s5;
       if procgrp \<noteq> 0 then map_option snd (check_sig_with sigp (- procgrp) SIGHUP s6) else Some s6
     }"

lemma mm_exit_parts: "mm_exit_with sigp rmp st s =
    Option.bind (exit_first rmp st s) (\<lambda>s4. Option.bind (exit_parent sigp rmp s4) (exit_last sigp rmp (exit_group rmp s)))"
  unfolding mm_exit_with_def exit_first_def exit_parent_def exit_last_def exit_group_def Let_def
  by (simp only: bind_assoc Option.bind.bind_lunit)

lemma exit_first_live: "exit_first r st s = Some s' \<Longrightarrow> live_set s' = live_set s"
proof -
  assume "exit_first r st s = Some s'"
  then obtain s1 s3 where a: "s1 = s \<or> (\<exists>x. set_alarm r 0 s = Some (x, s1))"
    and b: "exit_memory r (tell (SysXit (mp_parent (mproctab s1 r)) r) (tell (TellFs FsExit r 0 0) s1)) = Some s3"
    and c: "s' = upd_mp r (\<lambda>p. p\<lparr>mp_exitstatus := word_of_int st\<rparr>) s3"
    by (auto simp: exit_first_def Let_def bind_eq_Some_conv split: if_splits)
  have "live_set s1 = live_set s" using a set_alarm_core core_view_live_set by blast
  then show ?thesis using exit_memory_live [OF b] by (simp add: c)
qed

lemma exit_parent_live: "shrinks k \<Longrightarrow> exit_parent k r s = Some s' \<Longrightarrow> live_set s' \<subseteq> live_set s - {r}"
  unfolding exit_parent_def Let_def
  by (auto split: if_splits dest!: cleanup_live shrinksD simp: live_set_dead)

lemma exit_last_live: "shrinks k \<Longrightarrow> exit_last k r g s = Some s' \<Longrightarrow> live_set s' \<subseteq> live_set s"
proof -
  assume k: "shrinks k" and e: "exit_last k r g s = Some s'"
  then obtain s6 where d: "disinherit r all_slots s = Some s6"
    and f: "s' = s6 \<or> (\<exists>x. check_sig_with k (- g) SIGHUP s6 = Some (x, s'))"
    by (auto simp: exit_last_def bind_eq_Some_conv split: if_splits)
  have "live_set s' \<subseteq> live_set s6" using f
  proof
    assume "\<exists>x. check_sig_with k (- g) SIGHUP s6 = Some (x, s')"
    then show ?thesis using check_sig_with_preserves [where P = "\<lambda>t. live_set t \<subseteq> live_set s6" and sigp = k] shrinksD [OF k] by blast
  qed simp
  then show ?thesis using disinherit_live [OF d] by blast
qed

lemma mm_exit_with_live:
  assumes "shrinks k" "mm_exit_with k r st s = Some s'"
  shows "live_set s' \<subseteq> live_set s - {r}"
proof -
  obtain s4 s5 where "exit_first r st s = Some s4" "exit_parent k r s4 = Some s5" "exit_last k r (exit_group r s) s5 = Some s'"
    using assms(2) unfolding mm_exit_parts bind_eq_Some_conv by blast
  from exit_first_live [OF this(1)] exit_parent_live [OF assms(1) this(2)] exit_last_live [OF assms(1) this(3)]
  show ?thesis by blast
qed

lemma sig_terminate_cases:
  assumes "sig_terminate k r g s = Some s'"
  obtains "s' = s" | "ONSWAP \<in> mflags s r" "swap_inqueue r (pend r g (upd_mp r (\<lambda>p. p\<lparr>mp_sigstatus := word_of_int g\<rparr>) s)) = Some s'"
    | "k r 0 (dump_core r (tell (TellFs FsChdir r 0 0) (upd_mp r (\<lambda>p. p\<lparr>mp_sigstatus := word_of_int g\<rparr>) s))) = Some s'"
    | "k r 0 (upd_mp r (\<lambda>p. p\<lparr>mp_sigstatus := word_of_int g\<rparr>) s) = Some s'"
proof -
  let ?s1 = "upd_mp r (\<lambda>p. p\<lparr>mp_sigstatus := word_of_int g\<rparr>) s"
  have f: "mflags ?s1 r = mflags s r" by (simp add: upd_mp_def)
  show ?thesis using assms unfolding sig_terminate_def Let_def f
    by (split if_split_asm) (use that in \<open>simp_all split: if_split_asm\<close>)
qed

lemma sig_terminate_live:
  assumes k: "\<And>st t t'. k r st t = Some t' \<Longrightarrow> live_set t' \<subseteq> live_set t" and e: "sig_terminate k r g s = Some s'"
  shows "live_set s' \<subseteq> live_set s"
  using e
proof (cases rule: sig_terminate_cases)
  case 2
  then show ?thesis using core_view_live_set [OF swap_inqueue_core [OF 2(2)]] core_view_live_set [OF pend_core] by simp
next
  case 3
  from k [OF this] show ?thesis by simp
next
  case 4
  from k [OF this] show ?thesis by simp
qed simp

lemma sig_catch_cases:
  assumes "sig_catch k r g s = Some s'"
  obtains "ONSWAP \<in> mflags s r" "swap_inqueue r (pend r g s) = Some s'"
  | n sp where "ONSWAP \<notin> mflags s r" "fst (adjust r n sp (tell (SysGetsp r) s)) \<noteq> OK" "sig_terminate k r g (snd (adjust r n sp (tell (SysGetsp r) s))) = Some s'"
  | n sp sm where "ONSWAP \<notin> mflags s r" "fst (adjust r n sp (tell (SysGetsp r) s)) = OK"
      "unpause r (upd_mp r (\<lambda>p. p\<lparr>mp_sigpending := sigdelset (mp_sigpending p) g\<rparr>)
        (tell (SysSendsig r sm) (upd_mp r (catch_masks g) (snd (adjust r n sp (tell (SysGetsp r) s)))))) = Some s'"
proof (cases "ONSWAP \<in> mflags s r")
  case True
  then show ?thesis using assms that(1) by (simp add: sig_catch_def)
next
  case False
  let ?n = "mem_len (mseg (tell (SysGetsp r) s) r SegD)" and ?sp = "an_vals (fst (ask (SysGetsp r) s)) ! 0 - SIGFRAME_ROOM"
  obtain x t where a: "adjust r ?n ?sp (tell (SysGetsp r) s) = (x, t)" by (cases "adjust r ?n ?sp (tell (SysGetsp r) s)")
  show ?thesis
  proof (cases "x = OK")
    case True
    then show ?thesis using assms False that(3) [of ?n ?sp] a
      unfolding sig_catch_def Let_def ask_def by simp
  next
    case nok: False
    then show ?thesis using assms False that(2) [of ?n ?sp] a
      unfolding sig_catch_def Let_def ask_def by simp
  qed
qed

lemma sig_catch_live:
  assumes k: "\<And>st t t'. k r st t = Some t' \<Longrightarrow> live_set t' \<subseteq> live_set t" and e: "sig_catch k r g s = Some s'"
  shows "live_set s' \<subseteq> live_set s"
  using e
proof (cases rule: sig_catch_cases)
  case 1
  then show ?thesis using core_view_live_set [OF swap_inqueue_core [OF 1(2)]] core_view_live_set [OF pend_core] by simp
next
  case (2 n sp)
  from sig_terminate_live [OF k 2(3)] show ?thesis by simp
next
  case (3 n sp sm)
  from core_view_live_set [OF unpause_core [OF 3(3)]] show ?thesis by simp
qed

lemma sig_proc_with_cases:
  assumes "sig_proc_with k r g s = Some s'"
  obtains s1 where "live s r" "unpause r s = Some s1" "stop_proc r g s1 = Some s'"
  | "live s r" "s' = s" | "live s r" "s' = pend r g s"
  | "live s r" "sigismember (mp_catch (mproctab s r)) g \<noteq> 0" "sig_catch k r g s = Some s'"
  | "live s r" "sig_terminate k r g s = Some s'"
proof -
  have l: "live s r" using assms by (simp add: sig_proc_with_def split: if_split_asm)
  have e: "sig_proc_with k r g s = Some s'" by (rule assms)
  consider "TRACED \<in> mflags s r \<and> g \<noteq> SIGKILL" | "\<not> (TRACED \<in> mflags s r \<and> g \<noteq> SIGKILL)" "sigismember (mp_ignore (mproctab s r)) g \<noteq> 0"
    | "\<not> (TRACED \<in> mflags s r \<and> g \<noteq> SIGKILL)" "sigismember (mp_ignore (mproctab s r)) g = 0" "sigismember (mp_sigmask (mproctab s r)) g \<noteq> 0"
    | "\<not> (TRACED \<in> mflags s r \<and> g \<noteq> SIGKILL)" "sigismember (mp_ignore (mproctab s r)) g = 0" "sigismember (mp_sigmask (mproctab s r)) g = 0"
    by blast
  then show ?thesis
  proof cases
    case 1
    then show ?thesis using e l that(1) by (auto simp: sig_proc_with_def bind_eq_Some_conv)
  next
    case 2
    have "Some s = Some s'" using e l 2(2) unfolding sig_proc_with_def if_not_P [OF 2(1)] by simp
    then show ?thesis by (intro that(2) [OF l]) simp
  next
    case 3
    have "Some (pend r g s) = Some s'" using e l 3(2,3) unfolding sig_proc_with_def if_not_P [OF 3(1)] by simp
    then show ?thesis by (intro that(3) [OF l]) simp
  next
    case 4
    then show ?thesis using e l that(4,5) unfolding sig_proc_with_def if_not_P [OF 4(1)]
      by (cases "sigismember (mp_catch (mproctab s r)) g = 0") simp_all
  qed
qed

lemma sig_proc_with_live:
  assumes k: "\<And>st t t'. k r st t = Some t' \<Longrightarrow> live_set t' \<subseteq> live_set t" and e: "sig_proc_with k r g s = Some s'"
  shows "live_set s' \<subseteq> live_set s"
  using e
proof (cases rule: sig_proc_with_cases)
  case (1 s1)
  then have "core_view s' = core_view s" using unpause_core [of r s s1] stop_proc_core [of r g s1 s'] by simp
  then show ?thesis using core_view_live_set [of s' s] by simp
next
  case 3
  then show ?thesis using core_view_live_set [OF pend_core] by simp
next
  case 4
  from sig_catch_live [OF k 4(3)] show ?thesis .
next
  case 5
  from sig_terminate_live [OF k 5(2)] show ?thesis .
qed simp

lemma sig_proc_fuel_shrinks: "shrinks (sig_proc_fuel n)"
proof (induction n)
  case 0
  then show ?case by (simp add: shrinks_def)
next
  case (Suc n)
  have "live_set t' \<subseteq> live_set t" if "mm_exit_with (sig_proc_fuel n) r st t = Some t'" for r st t t'
    using mm_exit_with_live [OF Suc that] by blast
  then show ?case unfolding shrinks_def sig_proc_fuel.simps using sig_proc_with_live by blast
qed

subsection \<open>The recursion is bounded\<close>

definition agree :: "nat \<Rightarrow> (int \<Rightarrow> int \<Rightarrow> mm \<Rightarrow> mm option) \<Rightarrow> (int \<Rightarrow> int \<Rightarrow> mm \<Rightarrow> mm option) \<Rightarrow> bool" where
  "agree m k k' \<longleftrightarrow> (\<forall>r g s. card (live_set s) \<le> m \<longrightarrow> k r g s = k' r g s)"

lemma agreeD: "agree m k k' \<Longrightarrow> card (live_set s) \<le> m \<Longrightarrow> k r g s = k' r g s"
  by (simp add: agree_def)

lemma card_shrink: "live_set s' \<subseteq> live_set s \<Longrightarrow> card (live_set s) \<le> m \<Longrightarrow> card (live_set s') \<le> m"
  using card_mono [OF live_set_finite] by (rule order_trans)

lemma check_sig_loop_agree:
  assumes a: "agree m k k'" and sh: "shrinks k" and c: "card (live_set s) \<le> m"
  shows "check_sig_loop k pid g ns count err s = check_sig_loop k' pid g ns count err s"
  using c
proof (induction ns arbitrary: count err s)
  case Nil
  then show ?case by simp
next
  case (Cons r ns)
  have "k r g s = k' r g s" by (rule agreeD [OF a Cons.prems])
  moreover have "check_sig_loop k pid g ns count' err' s1 = check_sig_loop k' pid g ns count' err' s1" if "k r g s = Some s1" for s1 count' err'
    by (rule Cons.IH) (rule card_shrink [OF shrinksD [OF sh that] Cons.prems])
  ultimately show ?case using Cons.IH [OF Cons.prems] by (cases "k' r g s") auto
qed

lemma check_sig_with_agree:
  assumes "agree m k k'" "shrinks k" "card (live_set s) \<le> m"
  shows "check_sig_with k pid g s = check_sig_with k' pid g s"
  unfolding check_sig_with_def using check_sig_loop_agree [OF assms] by simp

lemma exit_last_agree:
  assumes "agree m k k'" "shrinks k" "card (live_set s) \<le> m"
  shows "exit_last k r g s = exit_last k' r g s"
proof (cases "disinherit r all_slots s")
  case None
  then show ?thesis by (simp add: exit_last_def)
next
  case (Some s6)
  then show ?thesis using check_sig_with_agree [OF assms(1,2) card_shrink [OF disinherit_live [OF Some] assms(3)]]
    by (simp add: exit_last_def)
qed

lemma mm_exit_agree:
  assumes a: "agree m k k'" and sh: "shrinks k" and c: "card (live_set s) \<le> Suc m" and l: "live s r"
  shows "mm_exit_with k r st s = mm_exit_with k' r st s"
proof (cases "exit_first r st s")
  case None
  then show ?thesis by (simp add: mm_exit_parts)
next
  case (Some s4)
  have "r \<in> live_set s" using l by (simp add: live_set_def)
  then have c': "card (live_set s - {r}) \<le> m" using c by (simp add: card_Diff_singleton)
  have l4: "live_set s4 = live_set s" by (rule exit_first_live [OF Some])
  have p: "exit_parent k r s4 = exit_parent k' r s4"
    unfolding exit_parent_def Let_def using agreeD [OF a] c' by (simp add: live_set_dead l4)
  show ?thesis
  proof (cases "exit_parent k r s4")
    case None
    then show ?thesis using Some p by (simp add: mm_exit_parts)
  next
    case s5: (Some s5)
    have "card (live_set s5) \<le> m"
      using exit_parent_live [OF sh s5] c' l4 card_mono [of "live_set s - {r}" "live_set s5"] by simp
    from exit_last_agree [OF a sh this] show ?thesis using Some p [symmetric] s5 by (simp add: mm_exit_parts)
  qed
qed

lemma live_set_iff: "r \<in> live_set s \<longleftrightarrow> live s r"
  by (simp add: live_set_def)

lemma sig_terminate_agree:
  assumes k: "\<And>st t. live t r \<Longrightarrow> card (live_set t) \<le> m \<Longrightarrow> k r st t = k' r st t" and c: "card (live_set s) \<le> m" "live s r"
  shows "sig_terminate k r g s = sig_terminate k' r g s"
proof -
  have e: "live_set t = live_set s \<Longrightarrow> k r 0 t = k' r 0 t" for t
    using k [of t] c by (simp add: live_set_iff [symmetric])
  show ?thesis unfolding sig_terminate_def Let_def by (simp add: e)
qed

lemma sig_catch_agree:
  assumes k: "\<And>st t. live t r \<Longrightarrow> card (live_set t) \<le> m \<Longrightarrow> k r st t = k' r st t" and c: "card (live_set s) \<le> m" "live s r"
  shows "sig_catch k r g s = sig_catch k' r g s"
proof -
  have e: "live_set t = live_set s \<Longrightarrow> sig_terminate k r g t = sig_terminate k' r g t" for t
    using sig_terminate_agree [where k = k and k' = k' and m = m and r = r, OF k] c by (simp add: live_set_iff [symmetric])
  have "sig_terminate k r g (snd (adjust r n sp (tell q s))) = sig_terminate k' r g (snd (adjust r n sp (tell q s)))" for n sp q
    by (rule e) simp
  then show ?thesis unfolding sig_catch_def Let_def ask_def by (simp add: case_prod_beta)
qed

lemma sig_proc_with_agree:
  assumes k: "\<And>st t. live t r \<Longrightarrow> card (live_set t) \<le> m \<Longrightarrow> k r st t = k' r st t" and c: "card (live_set s) \<le> m"
  shows "sig_proc_with k r g s = sig_proc_with k' r g s"
proof (cases "live s r")
  case True
  from sig_terminate_agree [where k = k and k' = k' and m = m and r = r, OF k c True]
    sig_catch_agree [where k = k and k' = k' and m = m and r = r, OF k c True]
  show ?thesis unfolding sig_proc_with_def by simp
qed (simp add: sig_proc_with_def)

lemma sig_proc_fuel_enough: "agree m (sig_proc_fuel (Suc m)) (sig_proc_fuel (Suc m + d))"
proof (induction m)
  case 0
  have "\<not> live s r" if "card (live_set s) \<le> 0" for s r
    using that live_set_iff [of r s] by auto
  then show ?case by (auto simp: agree_def sig_proc_with_def)
next
  case (Suc m)
  show ?case unfolding agree_def
  proof (intro allI impI)
    fix r g s assume c: "card (live_set s) \<le> Suc m"
    have "sig_proc_with (mm_exit_with (sig_proc_fuel (Suc m))) r g s = sig_proc_with (mm_exit_with (sig_proc_fuel (Suc m + d))) r g s"
      by (rule sig_proc_with_agree [OF _ c]) (rule mm_exit_agree [OF Suc sig_proc_fuel_shrinks])
    then show "sig_proc_fuel (Suc (Suc m)) r g s = sig_proc_fuel (Suc (Suc m) + d) r g s" by simp
  qed
qed

text \<open>No depth above \<open>DEPTH\<close> changes the result, and \<open>sig_proc\<close> satisfies the equation of the code.\<close>

theorem sig_proc_depth: "sig_proc_fuel (DEPTH + d) r g s = sig_proc r g s"
  using agreeD [OF sig_proc_fuel_enough [of 32 d] live_set_card] unfolding sig_proc_def by (simp add: numeral_eq_Suc)

theorem sig_proc_unfold: "sig_proc r g s = sig_proc_with mm_exit r g s"
proof -
  have "sig_proc r g s = sig_proc_fuel (Suc DEPTH) r g s" using sig_proc_depth [of 1 r g s] by simp
  then show ?thesis by (simp only: sig_proc_fuel.simps mm_exit_def sig_proc_def)
qed

end
