(* ===== verification/MM_Exec.thy ===== *)
theory MM_Exec
  imports MM_Signal
begin

text \<open>
  Execution of a file: \<^verbatim>\<open>src/mm/exec.c\<close>, and \<^verbatim>\<open>allowed()\<close> of
  \<^verbatim>\<open>utility.c\<close>.  The buffers inside the memory manager are byte memories with addresses
  from 0; the stack image holds \<^verbatim>\<open>ARG_MAX\<close> bytes, the name \<^verbatim>\<open>PATH_MAX\<close>.
  \<open>None\<close> is a panic or an access outside of a buffer.  \<open>RwSeg\<close> stands for a call of
  \<^verbatim>\<open>rw_seg()\<close>, whose result nobody looks at.
\<close>

abbreviation (input) ARG_BYTES :: u32 where "ARG_BYTES \<equiv> 16384"
abbreviation (input) PATH_MAX :: u32 where "PATH_MAX \<equiv> 255"
abbreviation (input) ENOEXEC :: int where "ENOEXEC \<equiv> -8"
abbreviation (input) ESCRIPT :: int where "ESCRIPT \<equiv> -2000"
abbreviation (input) PTRSIZE :: u32 where "PTRSIZE \<equiv> 4"
abbreviation (input) X_BIT :: int where "X_BIT \<equiv> 1"
abbreviation (input) A_MINHDR :: u32 where "A_MINHDR \<equiv> 32"

subsection \<open>Buffers\<close>

text \<open>Bytes that a request has read into a buffer.\<close>

definition ans_bytes :: "mm_ans \<Rightarrow> memory" where
  "ans_bytes a = (\<lambda>i. ucast (an_vals a ! unat i))"

definition fill_buf :: "u32 \<Rightarrow> mm_ans \<Rightarrow> memory \<Rightarrow> memory" where
  "fill_buf n a buf = (\<lambda>i. if i < n then ans_bytes a i else buf i)"

text \<open>The string at an offset of a buffer of \<open>n\<close> bytes, and its end.\<close>

definition str_end :: "memory \<Rightarrow> nat \<Rightarrow> nat \<Rightarrow> nat option" where
  "str_end buf off n = find (\<lambda>i. buf (of_nat i) = 0) [off..<n]"

definition c_str :: "memory \<Rightarrow> nat \<Rightarrow> nat \<Rightarrow> u8 list option" where
  "c_str buf off n = map_option (\<lambda>e. map (\<lambda>i. buf (of_nat i)) [off..<e]) (str_end buf off n)"

definition memmove :: "u32 \<Rightarrow> u32 \<Rightarrow> u32 \<Rightarrow> memory \<Rightarrow> memory" where
  "memmove dst src n buf = (\<lambda>i. if i - dst < n then buf (src + (i - dst)) else buf i)"

definition strcpy :: "u32 \<Rightarrow> u8 list \<Rightarrow> memory \<Rightarrow> memory" where
  "strcpy dst str buf = (\<lambda>i. if i - dst < of_nat (length str) then str ! unat (i - dst) else if i - dst = of_nat (length str) then 0 else buf i)"

subsection \<open>The stack image\<close>

text \<open>The loop of \<^verbatim>\<open>patch_ptr()\<close> over the words of the image, until two null pointers are
  passed.\<close>

fun patch_loop :: "nat list \<Rightarrow> nat \<Rightarrow> u32 \<Rightarrow> memory \<Rightarrow> memory" where
  "patch_loop [] flag base st = st"
| "patch_loop (i # is) flag base st =
     (if flag \<ge> 2 then st
      else let ap = PTRSIZE * of_nat i; v = get32 st ap
           in if v \<noteq> 0 then patch_loop is flag base (put32 st ap (v + base))
              else patch_loop is (flag + 1) base st)"

definition patch_ptr :: "u32 \<Rightarrow> memory \<Rightarrow> memory" where
  "patch_ptr base st = patch_loop [1..<4096] 0 base st"

text \<open>
  \<^verbatim>\<open>insert_arg()\<close>: the result, the image and its size.  The comparison of
  \<^verbatim>\<open>a0\<close> with \<^verbatim>\<open>4 * PTRSIZE\<close> is unsigned, the one with \<^verbatim>\<open>old_bytes\<close>
  signed, so a negative offset passes both and the function then leaves the image.
\<close>

definition insert_arg :: "memory \<Rightarrow> u32 \<Rightarrow> u8 list \<Rightarrow> bool \<Rightarrow> (bool \<times> memory \<times> u32) option" where
  "insert_arg st stk_bytes arg replace =
     (let old_bytes = stk_bytes;
          a = get32 st PTRSIZE
      in if a < 4 * PTRSIZE \<or> sint a \<ge> sint old_bytes then Some (False, st, stk_bytes)
         else if sint a < 0 then None
         else case (if replace then str_end st (unat a) (unat old_bytes) else Some 0) of
           None \<Rightarrow> Some (False, st, stk_bytes)
         | Some e \<Rightarrow>
             let len = of_nat (length arg) + 1 :: u32;
                 a0 = (if replace then a else a + PTRSIZE);
                 a1 = (if replace then of_nat e + 1 else a);
                 offset = (if replace then len - (a1 - a) else len + PTRSIZE);
                 stk1 = stk_bytes + offset
             in if stk1 > ARG_BYTES then Some (False, st, stk1)
                else let st1 = strcpy a0 arg (memmove (a1 + offset) a1 (old_bytes - a1) st);
                         st2 = (if replace then st1
                                else let st' = memmove (2 * PTRSIZE) PTRSIZE (a0 - 2 * PTRSIZE) st1
                                     in put32 st' 0 (get32 st' 0 + 1))
                     in Some (True, put32 (patch_ptr offset st2) PTRSIZE a0, stk1))"

subsection \<open>Scripts\<close>

definition blank :: "u8 \<Rightarrow> bool" where
  "blank c \<longleftrightarrow> c = 32 \<or> c = 9"

text \<open>The two inner loops of \<^verbatim>\<open>patch_stack()\<close>, which move \<^verbatim>\<open>sp\<close> backwards.\<close>

fun skip_blanks :: "memory \<Rightarrow> nat \<Rightarrow> nat" where
  "skip_blanks nm 0 = 0"
| "skip_blanks nm (Suc k) = (if blank (nm (of_nat k)) then skip_blanks nm k else k)"

fun word_start :: "memory \<Rightarrow> nat \<Rightarrow> nat" where
  "word_start nm 0 = 0"
| "word_start nm (Suc k) = (if \<not> blank (nm (of_nat k)) then word_start nm k else Suc k)"

lemma skip_blanks_less: "skip_blanks nm sp \<noteq> 0 \<Longrightarrow> skip_blanks nm sp < sp"
  by (induction nm sp rule: skip_blanks.induct) (auto split: if_splits)

lemma word_start_le: "word_start nm sp \<le> sp"
  by (induction nm sp rule: word_start.induct) auto

text \<open>The words of the line, last first, become arguments; the result is where the first word starts.\<close>

function script_args :: "memory \<Rightarrow> nat \<Rightarrow> nat option \<Rightarrow> memory \<Rightarrow> u32 \<Rightarrow> (bool \<times> nat option \<times> memory \<times> u32 \<times> memory) option" where
  "script_args nm sp interp st stk =
     (let q = skip_blanks nm sp
      in if q = 0 then Some (True, interp, st, stk, nm)
         else let nm1 = nm(of_nat q + 1 := 0); p = word_start nm1 q
              in do {
                arg \<leftarrow> c_str nm1 p (unat PATH_MAX);
                (ok, st1, stk1) \<leftarrow> insert_arg st stk arg False;
                if ok then script_args nm1 p (Some p) st1 stk1 else Some (False, None, st1, stk1, nm1)
              })"
  by pat_completeness auto
termination
proof (relation "measure (\<lambda>(nm, sp, _). sp)", goal_cases)
  case (2 nm sp interp st stk q nm1 p arg x ok y st1 stk1)
  then show ?case using skip_blanks_less [of nm sp] word_start_le [of nm1 q] by simp
qed simp

declare script_args.simps [simp del]

text \<open>The result is \<open>Some\<close> offset of the interpreter's name in the name buffer, or \<open>None\<close> for the null pointer.\<close>

definition patch_stack :: "int \<Rightarrow> memory \<Rightarrow> u32 \<Rightarrow> memory \<Rightarrow> mm \<Rightarrow> ((nat option \<times> memory \<times> u32 \<times> memory) \<times> mm) option" where
  "patch_stack fd st stk nm s =
     do {
       script \<leftarrow> c_str nm 0 (unat PATH_MAX);
       (ok, st1, stk1) \<leftarrow> insert_arg st stk script True;
       if \<not> ok then Some ((None, st1, stk1, nm), s)
       else let (a, s1) = ask (Lseek fd 2) s
            in if an_res a = -1 then Some ((None, st1, stk1, nm), s1)
               else let (b, s2) = ask (ReadFile fd PATH_MAX) s1; n = an_res b; nm1 = fill_buf (of_int n) b nm
                    in if n < 0 then Some ((None, st1, stk1, nm), s2)
                       else if n > uint PATH_MAX then None
                       else case find (\<lambda>i. nm1 (of_nat i) = 10) [0..<nat n] of
                         None \<Rightarrow> Some ((None, st1, stk1, nm1), s2)
                       | Some sp \<Rightarrow> do {
                           (ok, interp, st2, stk2, nm2) \<leftarrow> script_args nm1 sp None st1 stk1;
                           if \<not> ok then Some ((None, st2, stk2, nm2), s2)
                           else Some ((interp, st2, (stk2 + PTRSIZE - 1) div PTRSIZE * PTRSIZE, nm2), tell (Close fd) s2)
                         }
     }"

subsection \<open>The file\<close>

text \<open>The fields of \<^verbatim>\<open>struct stat\<close> that are used, in the order of the answer.\<close>

record fstatus =
  st_mode :: u16
  st_ino :: int
  st_dev :: int
  st_uid :: u16
  st_gid :: u16
  st_ctime :: int

definition stat_of :: "u32 list \<Rightarrow> fstatus" where
  "stat_of w = \<lparr>st_mode = ucast (w ! 0), st_ino = uint (ucast (w ! 1) :: u16), st_dev = sint (ucast (w ! 2) :: u16),
     st_uid = ucast (w ! 3), st_gid = ucast (w ! 4), st_ctime = sint (w ! 5)\<rparr>"

text \<open>\<^verbatim>\<open>allowed()\<close>; a failing request answers with the negated error number.\<close>

definition allowed :: "u8 list \<Rightarrow> int \<Rightarrow> mm \<Rightarrow> ((int + int \<times> fstatus) \<times> mm) option" where
  "allowed name amask s =
     (let (a, s1) = ask (AccessFile name amask) s
      in if an_res a < 0 then Some (Inl (an_res a), s1)
         else let (b, s2) = ask (OpenFile name) (tell (TellFs FsSetuid MM_PROC_NR 0 0) s1);
                  uid = sint (mp_effuid (mproctab s2 (mp s2)));
                  s3 = tell (TellFs FsSetuid MM_PROC_NR uid uid) s2;
                  fd = an_res b
              in if fd < 0 then Some (Inl fd, s3)
                 else let (c, s4) = ask (Fstat fd) s3; st = stat_of (an_vals c)
                      in if an_res c < 0 then None
                         else if amask = X_BIT \<and> st_mode st AND 0xF000 \<noteq> 0x8000 then Some (Inl EACCES, tell (Close fd) s4)
                         else Some (Inr (fd, st), s4))"

record aout_hdr =
  eh_sep :: bool
  eh_text :: u32
  eh_data :: u32
  eh_bss :: u32
  eh_tot :: u32
  eh_pc :: u32

definition round_clicks :: "u32 \<Rightarrow> u32" where
  "round_clicks n = drop_bit CLICK_SHIFT (n + CLICK_SIZE - 1)"

text \<open>The checks on the bytes of the header that come before the sizes.\<close>

definition bad_header :: "memory \<Rightarrow> bool" where
  "bad_header h \<longleftrightarrow> h 0 \<noteq> 0x01 \<or> h 1 \<noteq> 0x03 \<or> h 3 \<noteq> 0x10 \<or> h 2 AND NOT (0x02 OR 0x10 OR 0x20) \<noteq> 0"

definition header_of :: "memory \<Rightarrow> aout_hdr" where
  "header_of h =
     (let sep = (h 2 AND 0x20 \<noteq> 0); text = get32 h 8; data = get32 h 12
      in \<lparr>eh_sep = sep, eh_text = (if sep then text else 0), eh_data = (if sep then data else data + text),
          eh_bss = get32 h 16, eh_tot = get32 h 24, eh_pc = get32 h 20\<rparr>)"

definition read_header :: "int \<Rightarrow> u32 \<Rightarrow> mm \<Rightarrow> (int + aout_hdr) \<times> mm" where
  "read_header fd sc s =
     (let (a, s1) = ask (ReadFile fd A_MINHDR) s; m = an_res a; h = ans_bytes a; e = header_of h
      in if m < 2 then (Inl ENOEXEC, s1)
         else if h 0 = 0x23 \<and> h 1 = 0x21 then (Inl ESCRIPT, s1)
         else if m \<noteq> uint A_MINHDR then (Inl ENOEXEC, s1)
         else if bad_header h \<or> get32 h 24 = 0 then (Inl ENOEXEC, s1)
         else let tc = round_clicks (eh_text e); dc = round_clicks (eh_data e + eh_bss e); totc = round_clicks (eh_tot e)
              in if dc \<ge> totc then (Inl ENOEXEC, s1)
                 else let dvir = (if eh_sep e then 0 else tc);
                          r = size_ok tc dc sc dvir (dvir + (totc - sc));
                          s2 = (if uint (h 4) > 32 then tell (Lseek fd (ucast (h 4))) s1 else s1)
                      in (if r < 0 then Inl r else Inr e, s2))"

subsection \<open>Opening\<close>

text \<open>
  The arguments of the call: the message, what the two static buffers still hold from earlier calls, and the
  process, if any, that the pointer \<^verbatim>\<open>rmp\<close> of \<^verbatim>\<open>new_mem()\<close> points to
  when it is used before it is set.
\<close>

record exec_args =
  xa_stack_bytes :: u32
  xa_stack_ptr :: u32
  xa_len :: int
  xa_name :: u32
  xa_old_name :: memory
  xa_old_stack :: memory
  xa_stray :: "int option"

text \<open>What is known of the file once its header is read: the descriptor, the status of the file named by the call
  and of the one to be executed, the sizes, the stack image, and the name.\<close>

record exec_image =
  xi_fd :: int
  xi_stat0 :: fstatus
  xi_stat :: fstatus
  xi_hdr :: aout_hdr
  xi_stack :: memory
  xi_bytes :: u32
  xi_name :: "u8 list"

text \<open>The body of the loop of \<^verbatim>\<open>do_exec()\<close>.\<close>

definition exec_try :: "memory \<Rightarrow> nat \<Rightarrow> u32 \<Rightarrow> mm \<Rightarrow> ((int + int \<times> fstatus \<times> u8 list \<times> (int + aout_hdr)) \<times> mm) option" where
  "exec_try nm off stk s =
     do {
       name \<leftarrow> c_str nm off (unat PATH_MAX);
       (r, s1) \<leftarrow> allowed name X_BIT (tell (TellFs FsChdir (who s) 0 0) s);
       case r of
         Inl e \<Rightarrow> Some (Inl e, s1)
       | Inr (fd, st) \<Rightarrow> let (m, s2) = read_header fd (round_clicks stk) s1 in Some (Inr (fd, st, name, m), s2)
     }"

definition exec_fail :: "int \<Rightarrow> u32 \<Rightarrow> mm \<Rightarrow> (int + exec_image) \<times> mm" where
  "exec_fail fd stk s = (Inl (if stk > ARG_BYTES then ENOMEM else ENOEXEC), tell (Close fd) s)"

definition exec_find :: "memory \<Rightarrow> memory \<Rightarrow> u32 \<Rightarrow> mm \<Rightarrow> ((int + exec_image) \<times> mm) option" where
  "exec_find nm st stk s =
     do {
       (r, s1) \<leftarrow> exec_try nm 0 stk s;
       case r of
         Inl e \<Rightarrow> Some (Inl e, s1)
       | Inr (fd, stat0, name, Inr h) \<Rightarrow>
           Some (Inr \<lparr>xi_fd = fd, xi_stat0 = stat0, xi_stat = stat0, xi_hdr = h, xi_stack = st, xi_bytes = stk, xi_name = name\<rparr>, s1)
       | Inr (fd, stat0, name, Inl m) \<Rightarrow>
           if m \<noteq> ESCRIPT then Some (exec_fail fd stk s1)
           else do {
             ((interp, st2, stk2, nm2), s2) \<leftarrow> patch_stack fd st stk nm s1;
             case interp of
               None \<Rightarrow> Some (exec_fail fd stk2 s2)
             | Some off \<Rightarrow> do {
                 (r2, s3) \<leftarrow> exec_try nm2 off stk2 s2;
                 Some (case r2 of
                   Inl e \<Rightarrow> (Inl e, s3)
                 | Inr (fd2, stat1, name2, Inr h) \<Rightarrow>
                     (Inr \<lparr>xi_fd = fd2, xi_stat0 = stat0, xi_stat = stat1, xi_hdr = h, xi_stack = st2, xi_bytes = stk2, xi_name = name2\<rparr>, s3)
                 | Inr (fd2, stat1, name2, Inl m2) \<Rightarrow> exec_fail fd2 stk2 s3)
               }
           }
     }"

definition exec_open :: "exec_args \<Rightarrow> mm \<Rightarrow> ((int + exec_image) \<times> mm) option" where
  "exec_open x s =
     (let stk = xa_stack_bytes x
      in if stk > ARG_BYTES then Some (Inl ENOMEM, s)
         else if xa_len x \<le> 0 \<or> xa_len x > uint PATH_MAX then Some (Inl EINVAL, s)
         else let (a, s1) = ask (SysCopyIn (who s) (xa_name x) (of_int (xa_len x))) s
              in if an_res a \<noteq> OK then Some (Inl (an_res a), s1)
                 else let (b, s2) = ask (SysCopyIn (who s1) (xa_stack_ptr x) stk) s1
                      in if an_res b \<noteq> OK then Some (Inl EACCES, s2)
                         else exec_find (fill_buf (of_int (xa_len x)) a (xa_old_name x)) (fill_buf stk b (xa_old_stack x)) stk s2)"

subsection \<open>The new image\<close>

function zero_loop :: "u32 \<Rightarrow> u32 \<Rightarrow> mm \<Rightarrow> mm option" where
  "zero_loop base bytes s =
     (if bytes = 0 then Some s
      else let count = min bytes 1024; (a, s1) = ask (SysZero base count) s
           in if an_res a \<noteq> OK then None else zero_loop (base + count) (bytes - count) s1)"
  by pat_completeness auto
termination
proof (relation "measure (\<lambda>(base, bytes, s). unat bytes)", goal_cases)
  case (2 base bytes s count x a s1)
  then have c: "count \<le> bytes" "count \<noteq> 0" by (auto simp: min_def)
  then have "unat (bytes - count) < unat bytes" using unat_sub [OF c(1)] unat_gt_0 [of count] word_le_nat_alt [of count bytes] by linarith
  then show ?case by simp
qed simp

declare zero_loop.simps [simp del]

definition exec_segs :: "mem_map option \<Rightarrow> u32 \<Rightarrow> u32 \<Rightarrow> u32 \<Rightarrow> u32 \<Rightarrow> u32 \<Rightarrow> seg \<Rightarrow> mem_map" where
  "exec_segs sh new_base text data gap stack g =
     (case g of
        SegT \<Rightarrow> (case sh of Some m \<Rightarrow> m | None \<Rightarrow> \<lparr>mem_vir = 0, mem_phys = new_base, mem_len = text\<rparr>)
      | SegD \<Rightarrow> \<lparr>mem_vir = 0, mem_phys = new_base + text, mem_len = data\<rparr>
      | SegS \<Rightarrow> \<lparr>mem_vir = data + gap, mem_phys = new_base + text + data + gap, mem_len = stack\<rparr>)"

text \<open>The old text is freed unless it is shared, then the old data and stack: as when a process exits.\<close>

definition new_mem :: "int option \<Rightarrow> int option \<Rightarrow> aout_hdr \<Rightarrow> u32 \<Rightarrow> mm \<Rightarrow> (int \<times> mm) option" where
  "new_mem stray sh_mp h stk_bytes s =
     (let s0 = (case stray of Some n \<Rightarrow> set_flags {WAITING} n s | None \<Rightarrow> s);
          text = round_clicks (if sh_mp \<noteq> None then 0 else eh_text h);
          data = round_clicks (eh_data h + eh_bss h);
          stack = round_clicks stk_bytes;
          tot = round_clicks (eh_tot h);
          gap = tot - data - stack
      in if sint gap < 0 then Some (ENOMEM, s0)
         else do {
           (new_base, s1) \<leftarrow> alloc_mem (text + tot) s0;
           if new_base = NO_MEM then Some (ENOMEM, s1)
           else do {
             let rmp = mp s1;
             s2 \<leftarrow> exit_memory rmp s1;
             let m = exec_segs (map_option (\<lambda>n. mseg s2 n SegT) sh_mp) new_base text data gap stack;
             let s3 = tell (SysNewmap (who s2) m) (upd_mp rmp (\<lambda>p. p\<lparr>mp_seg := m\<rparr>) s2);
             let s4 = clear_flags {WAITING, ONSWAP, SWAPIN} rmp s3;
             let off = push_bit CLICK_SHIFT (drop_bit CLICK_SHIFT (eh_data h));
             s5 \<leftarrow> zero_loop (push_bit CLICK_SHIFT (mem_phys (m SegD)) + off) (push_bit CLICK_SHIFT (data + gap + stack) - off) s4;
             Some (OK, s5)
           }
         })"

subsection \<open>The call\<close>

text \<open>The set-uid and set-gid bits, unless the process is traced; they are those of the file that was named.\<close>

definition exec_ids :: "fstatus \<Rightarrow> mm \<Rightarrow> mm" where
  "exec_ids st s =
     (let r = mp s
      in if TRACED \<in> mflags s r then s
         else let s1 = (if st_mode st AND 0x0800 = 0 then s
                        else let t = upd_mp r (\<lambda>p. p\<lparr>mp_effuid := st_uid st\<rparr>) s; p = mproctab t r
                             in tell (TellFs FsSetuid (who s) (sint (mp_realuid p)) (sint (mp_effuid p))) t)
              in if st_mode st AND 0x0400 = 0 then s1
                 else let t = upd_mp r (\<lambda>p. p\<lparr>mp_effgid := ucast (st_gid st)\<rparr>) s1; p = mproctab t r
                      in tell (TellFs FsSetgid (who s) (sint (mp_realgid p)) (sint (mp_effgid p))) t)"

text \<open>Caught signals get their default again.\<close>

definition reset_caught :: "int \<Rightarrow> mproc \<Rightarrow> mproc" where
  "reset_caught sn p =
     (if sigismember (mp_catch p) sn \<noteq> 0
      then p\<lparr>mp_catch := sigdelset (mp_catch p) sn,
             mp_sigact := (mp_sigact p)(sn := (mp_sigact p sn)\<lparr>sa_handler := SIG_DFL, sa_mask := 0\<rparr>)\<rparr>
      else p)"

definition base_name :: "u8 list \<Rightarrow> u8 list" where
  "base_name name = rev (takeWhile (\<lambda>c. c \<noteq> 0x2F) (rev name))"

text \<open>After \<^verbatim>\<open>new_mem()\<close> has succeeded.\<close>

definition exec_load :: "bool \<Rightarrow> exec_image \<Rightarrow> mm \<Rightarrow> mm option" where
  "exec_load shared im s =
     (let r = mp s; st = xi_stat im; h = xi_hdr im;
          s1 = upd_mp r (\<lambda>p. p\<lparr>mp_ino := st_ino st, mp_dev := st_dev st, mp_ctime := st_ctime st\<rparr>) s;
          m = mseg s1 r SegS;
          vsp = push_bit CLICK_SHIFT (mem_vir m) + push_bit CLICK_SHIFT (mem_len m) - xi_bytes im;
          stack = patch_ptr vsp (xi_stack im);
          (a, s2) = ask (SysCopyStack (who s1) vsp (map (\<lambda>i. stack (of_nat i)) [0..<unat (xi_bytes im)])) s1
      in if an_res a \<noteq> OK then None
         else let s3 = (if shared then tell (LseekCur (xi_fd im) (eh_text h)) s2
                        else tell (RwSeg False (xi_fd im) (who s2) SegT (eh_text h)) s2);
                  s4 = tell (Close (xi_fd im)) (tell (RwSeg False (xi_fd im) (who s3) SegD (eh_data h)) s3);
                  s5 = exec_ids (xi_stat0 im) s4;
                  s6 = upd_mp r (\<lambda>p. p\<lparr>mp_procargs := vsp\<rparr>) s5;
                  s7 = upd_mp r (fold reset_caught [1..NSIG]) s6;
                  s8 = upd_mp r (\<lambda>p. p\<lparr>mp_flags := mp_flags p - {SEPARATE} \<union> (if eh_sep h then {SEPARATE} else {})\<rparr>) s7;
                  s9 = tell (TellFs FsExec (who s8) 0 0) s8
              in Some (tell (SysExec (who s9) vsp (TRACED \<in> mflags s9 r) (base_name (xi_name im)) (eh_pc h)) s9))"

definition mm_do_exec :: "exec_args \<Rightarrow> mm \<Rightarrow> (int \<times> mm) option" where
  "mm_do_exec x s =
     do {
       (r, s1) \<leftarrow> exec_open x s;
       case r of
         Inl e \<Rightarrow> Some (e, s1)
       | Inr im \<Rightarrow> do {
           let st = xi_stat im;
           let sh_mp = find_share (mp s1) (st_ino st) (st_dev st) (st_ctime st) s1;
           (e, s2) \<leftarrow> new_mem (xa_stray x) sh_mp (xi_hdr im) (xi_bytes im) s1;
           if e \<noteq> OK then Some (e, tell (Close (xi_fd im)) s2)
           else map_option (Pair SUSPEND) (exec_load (sh_mp \<noteq> None) im s2)
         }
     }"

end
