(* ===== verification/MM_Calls.thy ===== *)
theory MM_Calls
  imports MM_Exec
begin

text \<open>
  The other system calls of the memory manager: fork and wait (\<^verbatim>\<open>forkexit.c\<close>), identities
  (\<^verbatim>\<open>getset.c\<close>), tracing (\<^verbatim>\<open>trace.c\<close>), swapping in and the swap area
  (\<^verbatim>\<open>alloc.c\<close>), control and reboot (\<^verbatim>\<open>misc.c\<close>), and the main loop with
  its initialisation (\<^verbatim>\<open>main.c\<close>).
\<close>

subsection \<open>Fork\<close>

abbreviation LAST_FEW :: int where "LAST_FEW \<equiv> 2"

definition pid_taken :: "int \<Rightarrow> mm \<Rightarrow> bool" where
  "pid_taken np s \<longleftrightarrow> list_ex (\<lambda>n. mp_pid (mproctab s n) = np \<or> mp_procgrp (mproctab s n) = np) all_slots"

definition pid_succ :: "int \<Rightarrow> int" where
  "pid_succ p = (if p < 30000 then p + 1 else INIT_PID + 1)"

partial_function (option) pid_loop :: "int \<Rightarrow> mm \<Rightarrow> mm option" where
  "pid_loop rmc s =
     (let np = pid_succ (next_pid s);
          t = pid_taken np s;
          s1 = upd_mp rmc (\<lambda>p. p\<lparr>mp_pid := np\<rparr>) (s\<lparr>next_pid := np\<rparr>)
      in if t then pid_loop rmc s1 else Some s1)"

text \<open>The child's slot: a copy of the parent's with its own memory and few of the flags.\<close>

definition fork_slot :: "int \<Rightarrow> u32 \<Rightarrow> mproc \<Rightarrow> mproc" where
  "fork_slot parent child_base p =
     (let F = mp_flags p \<inter> {IN_USE, SEPARATE};
          m = mp_seg p;
          m1 = (if SEPARATE \<notin> F then m(SegT := (m SegT)\<lparr>mem_phys := child_base\<rparr>) else m)
      in p\<lparr>mp_parent := parent, mp_flags := F, mp_seg := relocate child_base m1, mp_exitstatus := 0, mp_sigstatus := 0\<rparr>)"

text \<open>The child has a slot and a pid: the kernel, the file system and the child are told.\<close>

definition fork_tell :: "int \<Rightarrow> mm \<Rightarrow> (int \<times> mm) option" where
  "fork_tell rmc s =
     (let pid = mp_pid (mproctab s rmc);
          s1 = tell (TellFs FsFork (who s) rmc pid) (tell (SysFork (who s) rmc pid) s);
          s2 = tell (SysNewmap rmc (mseg s1 rmc)) s1
      in map_option (\<lambda>s3. (next_pid s3, s3)) (setreply rmc 0 s2))"

text \<open>Memory was found: the image is copied and a slot filled.\<close>

definition fork_child :: "int \<Rightarrow> u32 \<Rightarrow> u32 \<Rightarrow> mm \<Rightarrow> (int \<times> mm) option" where
  "fork_child rmp child_base prog_clicks s =
     (let prog_bytes = push_bit CLICK_SHIFT prog_clicks;
          child_abs = push_bit CLICK_SHIFT child_base;
          parent_abs = push_bit CLICK_SHIFT (mem_phys (mseg s rmp SegD));
          (a, s1) = ask (SysCopyAbs parent_abs child_abs prog_bytes) s
      in if an_res a < 0 then None
         else case find (\<lambda>n. IN_USE \<notin> mflags s1 n) all_slots of
           None \<Rightarrow> None
         | Some rmc \<Rightarrow>
             let s2 = upd_mp rmc (\<lambda>_. fork_slot (who s1) child_base (mproctab s1 rmp))
                        (s1\<lparr>procs_in_use := procs_in_use s1 + 1\<rparr>)
             in Option.bind (pid_loop rmc s2) (fork_tell rmc))"

definition mm_do_fork :: "mm \<Rightarrow> (int \<times> mm) option" where
  "mm_do_fork s =
     (let rmp = mp s; prog_clicks = image_clicks (mseg s rmp)
      in if procs_in_use s = NR_PROCS then Some (EAGAIN, s)
         else if procs_in_use s \<ge> NR_PROCS - LAST_FEW \<and> mp_effuid (mproctab s rmp) \<noteq> 0 then Some (EAGAIN, s)
         else do {
           (child_base, s1) \<leftarrow> alloc_mem prog_clicks s;
           if child_base = NO_MEM then Some (ENOMEM, s1) else fork_child rmp child_base prog_clicks s1
         })"

subsection \<open>Wait\<close>

abbreviation WNOHANG :: int where "WNOHANG \<equiv> 1"

text \<open>A child that the argument of \<^verbatim>\<open>waitpid()\<close> selects.\<close>

definition wait_match :: "int \<Rightarrow> int \<Rightarrow> mm \<Rightarrow> bool" where
  "wait_match pidarg rp s \<longleftrightarrow> IN_USE \<in> mflags s rp \<and> mp_parent (mproctab s rp) = who s
     \<and> \<not> (pidarg > 0 \<and> pidarg \<noteq> mp_pid (mproctab s rp)) \<and> \<not> (pidarg < -1 \<and> - pidarg \<noteq> mp_procgrp (mproctab s rp))"

fun wait_loop :: "int \<Rightarrow> int list \<Rightarrow> nat \<Rightarrow> mm \<Rightarrow> (int \<times> mm + nat) option" where
  "wait_loop pidarg [] children s = Some (Inr children)"
| "wait_loop pidarg (rp # rest) children s =
     (if \<not> wait_match pidarg rp s then wait_loop pidarg rest children s
      else if ZOMBIE \<in> mflags s rp then map_option (\<lambda>s1. Inl (SUSPEND, s1)) (cleanup rp s)
      else if STOPPED \<in> mflags s rp \<and> mp_sigstatus (mproctab s rp) \<noteq> 0
      then let s1 = upd_mp (mp s) (\<lambda>p. p\<lparr>reply_res2 := 0x7F OR push_bit 8 (scast (mp_sigstatus (mproctab s rp)))\<rparr>) s;
               s2 = upd_mp rp (\<lambda>p. p\<lparr>mp_sigstatus := 0\<rparr>) s1
           in Some (Inl (mp_pid (mproctab s2 rp), s2))
      else wait_loop pidarg rest (children + 1) s)"

definition do_waitpid :: "int \<Rightarrow> int \<Rightarrow> mm \<Rightarrow> (int \<times> mm) option" where
  "do_waitpid pid options s =
     (let pidarg = (if pid = 0 then - mp_procgrp (mproctab s (mp s)) else pid)
      in do {
        r \<leftarrow> wait_loop pidarg all_slots 0 s;
        case r of
          Inl done \<Rightarrow> Some done
        | Inr children \<Rightarrow>
            Some (if children > 0
                  then if odd options then (OK, s)
                       else (SUSPEND, upd_mp (mp s) (\<lambda>p. p\<lparr>mp_flags := mp_flags p \<union> {WAITING}, mp_wpid := pidarg\<rparr>) s)
                  else (ECHILD, s))
      })"

subsection \<open>Identities\<close>

datatype getset_call = GETUID | GETGID | GETPID | SETUID u16 | SETGID u8 | SETSID | GETPGRP

definition do_getset :: "getset_call \<Rightarrow> mm \<Rightarrow> int \<times> mm" where
  "do_getset call s =
     (let rmp = mp s; p = mproctab s rmp
      in case call of
        GETUID \<Rightarrow> (sint (mp_realuid p), upd_mp rmp (\<lambda>p. p\<lparr>reply_res2 := scast (mp_effuid p)\<rparr>) s)
      | GETGID \<Rightarrow> (sint (mp_realgid p), upd_mp rmp (\<lambda>p. p\<lparr>reply_res2 := scast (mp_effgid p)\<rparr>) s)
      | GETPID \<Rightarrow> (mp_pid (mproctab s (who s)),
                   upd_mp rmp (\<lambda>p. p\<lparr>reply_res2 := word_of_int (mp_pid (mproctab s (mp_parent p)))\<rparr>) s)
      | SETUID uid \<Rightarrow>
          if mp_realuid p \<noteq> uid \<and> mp_effuid p \<noteq> SUPER_USER then (EPERM, s)
          else (OK, tell (TellFs FsSetuid (who s) (sint uid) (sint uid))
                      (upd_mp rmp (\<lambda>p. p\<lparr>mp_realuid := uid, mp_effuid := uid\<rparr>) s))
      | SETGID gid \<Rightarrow>
          if mp_realgid p \<noteq> gid \<and> mp_effuid p \<noteq> SUPER_USER then (EPERM, s)
          else (OK, tell (TellFs FsSetgid (who s) (sint gid) (sint gid))
                      (upd_mp rmp (\<lambda>p. p\<lparr>mp_realgid := gid, mp_effgid := gid\<rparr>) s))
      | SETSID \<Rightarrow>
          if mp_procgrp p = mp_pid p then (EPERM, s)
          else (mp_pid p, tell (TellFs FsSetsid (who s) 0 0) (upd_mp rmp (\<lambda>p. p\<lparr>mp_procgrp := mp_pid p\<rparr>) s))
      | GETPGRP \<Rightarrow> (mp_procgrp p, s))"

subsection \<open>Tracing\<close>

abbreviation T_OK :: int where "T_OK \<equiv> 0"
abbreviation T_RESUME :: int where "T_RESUME \<equiv> 7"
abbreviation T_EXIT :: int where "T_EXIT \<equiv> 8"
abbreviation T_STEP :: int where "T_STEP \<equiv> 9"

definition findproc :: "int \<Rightarrow> mm \<Rightarrow> int option" where
  "findproc lpid s = find (\<lambda>n. n > INIT_PROC_NR \<and> IN_USE \<in> mflags s n \<and> mp_pid (mproctab s n) = lpid) all_slots"

text \<open>Resuming a stopped child, with a signal if \<open>data\<close> says so.\<close>

definition trace_resume :: "int \<Rightarrow> int \<Rightarrow> mm \<Rightarrow> mm option" where
  "trace_resume child data s =
     map_option (clear_flags {STOPPED} child)
       (if data > 0 then map_option (set_flags {TRACED} child) (sig_proc child data (clear_flags {TRACED} child s))
        else Some s)"

text \<open>The kernel's part; \<open>errno\<close> is the library's error variable, which \<^verbatim>\<open>sys_trace()\<close> does
  not set.\<close>

definition trace_kernel :: "int \<Rightarrow> int \<Rightarrow> int \<Rightarrow> u32 \<Rightarrow> int \<Rightarrow> mm \<Rightarrow> int \<times> mm" where
  "trace_kernel errno request child taddr data s =
     (let (a, s1) = ask (SysTrace request child taddr (word_of_int data)) s
      in if an_res a \<noteq> OK then (- errno, s1)
         else (OK, upd_mp (mp s1) (\<lambda>p. p\<lparr>reply_l2 := an_vals a ! 0\<rparr>) s1))"

definition mm_do_trace :: "int \<Rightarrow> int \<Rightarrow> int \<Rightarrow> u32 \<Rightarrow> int \<Rightarrow> mm \<Rightarrow> (int \<times> mm) option" where
  "mm_do_trace errno request pid taddr data s =
     (if request = T_OK
      then Some (OK, upd_mp (mp s) (\<lambda>p. p\<lparr>mp_flags := mp_flags p \<union> {TRACED}, reply_l2 := 0\<rparr>) s)
      else case findproc pid s of
        None \<Rightarrow> Some (ESRCH, s)
      | Some child \<Rightarrow>
          if STOPPED \<notin> mflags s child then Some (ESRCH, s)
          else if request = T_EXIT
          then map_option (\<lambda>s1. (OK, upd_mp (mp s1) (\<lambda>p. p\<lparr>reply_l2 := 0\<rparr>) s1)) (mm_exit child data s)
          else if (request = T_RESUME \<or> request = T_STEP) \<and> (data < 0 \<or> data > NSIG) then Some (EIO, s)
          else map_option (trace_kernel errno request child taddr data)
                 (if request = T_RESUME \<or> request = T_STEP then trace_resume child data s else Some s))"

subsection \<open>Swapping in\<close>

text \<open>\<^verbatim>\<open>pmp\<close> points to the head of the queue (\<open>None\<close>) or to the link of a process.\<close>

definition queue_at :: "int option \<Rightarrow> mm \<Rightarrow> int option" where
  "queue_at pmp s = (case pmp of None \<Rightarrow> in_queue s | Some n \<Rightarrow> swapq s n)"

definition set_queue :: "int option \<Rightarrow> int option \<Rightarrow> mm \<Rightarrow> mm" where
  "set_queue pmp q s = (case pmp of None \<Rightarrow> s\<lparr>in_queue := q\<rparr> | Some n \<Rightarrow> upd_mp n (\<lambda>p. p\<lparr>mp_swapq := q\<rparr>) s)"

text \<open>A process for which memory was found: its image is read back and its swap space freed.\<close>

definition swap_in_one :: "int option \<Rightarrow> int \<Rightarrow> u32 \<Rightarrow> mm \<Rightarrow> mm option" where
  "swap_in_one pmp rmp new_base s =
     do {
       let size = image_clicks (mseg s rmp);
       let old_base = mem_phys (mseg s rmp SegD);
       let s1 = upd_mp rmp (\<lambda>p. p\<lparr>mp_seg := relocate new_base (mp_seg p)\<rparr>) s;
       let s2 = tell (SysNewmap rmp (mseg s1 rmp)) s1;
       let off = swap_offset s2 + push_bit CLICK_SHIFT (old_base - swap_base s2);
       let s3 = tell (RwSeg False (swap_fd s2) rmp SegD (push_bit CLICK_SHIFT size)) (tell (Lseek (swap_fd s2) off) s2);
       s4 \<leftarrow> free_mem old_base size s3;
       let s5 = clear_flags {ONSWAP, SWAPIN} rmp s4;
       check_pending rmp (set_queue pmp (swapq s5 rmp) s5)
     }"

partial_function (option) swap_in_loop :: "int option \<Rightarrow> mm \<Rightarrow> mm option" where
  "swap_in_loop pmp s =
     (case queue_at pmp s of
        None \<Rightarrow> Some s
      | Some rmp \<Rightarrow>
          if SWAPIN \<notin> mflags s rmp then swap_in_loop pmp (set_queue pmp (swapq s rmp) s)
          else Option.bind (alloc_mem (image_clicks (mseg s rmp)) s) (\<lambda>(new_base, s1).
                 if new_base = NO_MEM then swap_in_loop (Some rmp) s1
                 else Option.bind (swap_in_one pmp rmp new_base s1) (swap_in_loop pmp)))"

definition swap_in :: "mm \<Rightarrow> mm option" where
  "swap_in = swap_in_loop None"

text \<open>Turning swapping on.  The function has no value when it succeeds; \<open>r\<close> is what the caller finds.\<close>

definition swap_on :: "int \<Rightarrow> u8 list \<Rightarrow> u32 \<Rightarrow> u32 \<Rightarrow> mm \<Rightarrow> (int \<times> mm) option" where
  "swap_on r file offset nbytes s =
     (if swap_fd s \<noteq> -1 then Some (EBUSY, s)
      else let (a, s1) = ask (OpenFile file) (tell (TellFs FsChdir (who s) 0 0) s);
               s2 = s1\<lparr>swap_fd := (if an_res a < 0 then -1 else an_res a)\<rparr>
           in if an_res a < 0 then Some (an_res a, s2)
              else let s3 = s2\<lparr>swap_offset := offset\<rparr>;
                       size1 = drop_bit CLICK_SHIFT nbytes;
                       size2 = (if size1 > swap_maxsize s3 then swap_maxsize s3 else size1)
                   in map_option (Pair r) (if size2 > 0 then free_mem (swap_base s3) size2 s3 else Some s3))"

fun inqueue_all :: "int list \<Rightarrow> mm \<Rightarrow> mm option" where
  "inqueue_all [] s = Some s"
| "inqueue_all (n # ns) s = do { s1 \<leftarrow> (if ONSWAP \<in> mflags s n then swap_inqueue n s else Some s); inqueue_all ns s1 }"

text \<open>The loop of \<^verbatim>\<open>swap_off()\<close>: after a deletion it starts over at the head, but then still takes
  the step of the loop, so it follows a null pointer when the list has become empty.\<close>

partial_function (option) swap_off_loop :: "nat option \<Rightarrow> nat option \<Rightarrow> mm \<Rightarrow> mm option" where
  "swap_off_loop prev_ptr hp s =
     (case hp of
        None \<Rightarrow> Some s
      | Some h \<Rightarrow>
          if h_base (holes s h) \<ge> swap_base s
          then Option.bind (del_slot prev_ptr h s) (\<lambda>s1.
                 Option.bind (hole_head s1) (\<lambda>h1. swap_off_loop (Some h1) (h_next (holes s1 h1)) s1))
          else swap_off_loop (Some h) (h_next (holes s h)) s)"

definition swap_off :: "mm \<Rightarrow> (int \<times> mm) option" where
  "swap_off s =
     (if swap_fd s = -1 then Some (OK, s)
      else do {
        s1 \<leftarrow> inqueue_all user_slots s;
        s2 \<leftarrow> swap_in s1;
        if list_ex (\<lambda>n. ONSWAP \<in> mflags s2 n) user_slots then Some (ENOMEM, s2)
        else do {
          s3 \<leftarrow> swap_off_loop None (hole_head s2) s2;
          Some (OK, (tell (Close (swap_fd s3)) s3)\<lparr>swap_fd := -1\<rparr>)
        }
      })"

subsection \<open>Control and reboot\<close>

abbreviation RBT_MONITOR :: int where "RBT_MONITOR \<equiv> 3"

text \<open>The checks of \<^verbatim>\<open>do_reboot()\<close>: the monitor's code must fit 128 bytes and end in a
  null byte.\<close>

definition reboot_args :: "int \<Rightarrow> u32 \<Rightarrow> u32 \<Rightarrow> mm \<Rightarrow> int \<times> mm" where
  "reboot_args reboot_flag reboot_code reboot_size s =
     (if mp_effuid (mproctab s (mp s)) \<noteq> SUPER_USER then (EPERM, s)
      else if reboot_flag < 0 \<or> reboot_flag > 4 then (EINVAL, s)
      else if reboot_flag \<noteq> RBT_MONITOR then (OK, s)
      else if reboot_size \<ge> 128 then (EINVAL, s)
      else let (a, s1) = ask (SysCopyIn (who s) reboot_code (reboot_size + 1)) s
           in (if an_res a \<noteq> OK then EFAULT else if an_vals a ! unat reboot_size \<noteq> 0 then EINVAL else OK, s1))"

text \<open>The call up to the point where the kernel aborts.\<close>

definition do_reboot :: "int \<Rightarrow> u32 \<Rightarrow> u32 \<Rightarrow> mm \<Rightarrow> (int \<times> mm) option" where
  "do_reboot reboot_flag reboot_code reboot_size s =
     (let (r, s1) = reboot_args reboot_flag reboot_code reboot_size s
      in if r \<noteq> OK then Some (r, s1)
         else map_option (\<lambda>(x, s2). (OK, tell (SysAbort reboot_flag) (tell (TellFs FsReboot 0 0 0) s2)))
                (check_sig (-1) SIGKILL s1))"

text \<open>A process becomes a server: its parent is released and its children disinherited.\<close>

definition signon_release :: "int \<Rightarrow> mproc \<Rightarrow> mm \<Rightarrow> mm option" where
  "signon_release parent p s =
     (if WAITING \<in> mflags s parent \<and> right_child (mp_wpid (mproctab s parent)) p
      then map_option (clear_flags {WAITING} parent)
             (setreply parent (mp_pid p) (upd_mp parent (\<lambda>q. q\<lparr>reply_res2 := 0\<rparr>) s))
      else Some s)"

definition signon_orphan :: "int \<Rightarrow> mm \<Rightarrow> mm" where
  "signon_orphan n s =
     (if IN_USE \<in> mflags s n \<and> mp_parent (mproctab s n) = who s
      then upd_mp n (\<lambda>q. q\<lparr>mp_parent := INIT_PROC_NR\<rparr>) s else s)"

definition mm_signon :: "mm \<Rightarrow> (int \<times> mm) option" where
  "mm_signon s =
     (let c = mp s; p = mproctab s c; s1 = tell (TellFs FsExit (who s) 0 0) s
      in if mp_effuid p \<noteq> SUPER_USER then Some (EPERM, s)
         else map_option
                (\<lambda>s2. (OK, upd_mp c (\<lambda>q. q\<lparr>mp_pid := 0, mp_procgrp := 0, mp_parent := 0\<rparr>)
                             (fold signon_orphan all_slots s2)))
                (signon_release (mp_parent p) p s1))"

datatype svrctl_call = KernelCtl int | MmSignon | MmSwapon "u8 list" u32 u32 | MmSwapoff | OtherCtl

text \<open>The request's own bytes select the kernel; for \<open>MmSwapon\<close> the arguments are what is read at
  \<open>ptr\<close>, and \<open>r\<close> is as for \<open>swap_on\<close>.\<close>

definition mm_do_svrctl :: "int \<Rightarrow> svrctl_call \<Rightarrow> u32 \<Rightarrow> mm \<Rightarrow> (int \<times> mm) option" where
  "mm_do_svrctl r req ptr s =
     (let super = (mp_effuid (mproctab s (mp s)) = SUPER_USER)
      in case req of
        KernelCtl n \<Rightarrow> let (a, s1) = ask (SysSysctl (who s) n super ptr) s in Some (an_res a, s1)
      | MmSignon \<Rightarrow> mm_signon s
      | MmSwapon file offset n \<Rightarrow>
          if \<not> super then Some (EPERM, s)
          else let (a, s1) = ask (SysCopyIn (who s) ptr 136) s
               in if an_res a \<noteq> OK then Some (EFAULT, s1) else swap_on r file offset n s1
      | MmSwapoff \<Rightarrow> if \<not> super then Some (EPERM, s) else swap_off s
      | OtherCtl \<Rightarrow> Some (EINVAL, s))"

subsection \<open>The main loop\<close>

datatype mm_call =
    MExit int
  | MFork
  | MWait int int
  | MBrk u32
  | MExec exec_args
  | MGetset getset_call
  | MTrace int int int u32 int
  | MAlarm u32
  | MPause
  | MKill int int
  | MKsig int u32
  | MSigaction int u32 u32 u32
  | MSigsuspend u32
  | MSigpending
  | MSigprocmask int u32
  | MSigreturn u32 u32
  | MReboot int u32 u32
  | MSvrctl int svrctl_call u32
  | MNoSys
  | MBadCall

text \<open>\<open>MNoSys\<close> stands for the entries of the table without a handler, \<open>MBadCall\<close> for a number outside
  the table, which \<^verbatim>\<open>main()\<close> answers itself.\<close>

definition call_vec :: "mm_call \<Rightarrow> mm \<Rightarrow> (int \<times> mm) option" where
  "call_vec c s =
     (case c of
        MExit st \<Rightarrow> do_mm_exit st s
      | MFork \<Rightarrow> mm_do_fork s
      | MWait pid opt \<Rightarrow> do_waitpid pid opt s
      | MBrk a \<Rightarrow> Some (do_brk a s)
      | MExec x \<Rightarrow> mm_do_exec x s
      | MGetset g \<Rightarrow> Some (do_getset g s)
      | MTrace e req pid a d \<Rightarrow> mm_do_trace e req pid a d s
      | MAlarm sec \<Rightarrow> do_alarm sec s
      | MPause \<Rightarrow> Some (do_pause s)
      | MKill pid sig \<Rightarrow> mm_do_kill pid sig s
      | MKsig n sigs \<Rightarrow> do_ksig n sigs s
      | MSigaction sig osa nsa ret \<Rightarrow> Some (do_sigaction sig osa nsa ret s)
      | MSigsuspend sset \<Rightarrow> do_sigsuspend sset s
      | MSigpending \<Rightarrow> Some (do_sigpending s)
      | MSigprocmask how sset \<Rightarrow> do_sigprocmask how sset s
      | MSigreturn sset ctx \<Rightarrow> mm_do_sigreturn sset ctx s
      | MReboot f c n \<Rightarrow> do_reboot f c n s
      | MSvrctl r q ptr \<Rightarrow> mm_do_svrctl r q ptr s
      | MNoSys \<Rightarrow> Some (EINVAL, s)
      | MBadCall \<Rightarrow> Some (ENOSYS, s))"

definition get_work :: "int \<Rightarrow> mm \<Rightarrow> mm" where
  "get_work src s = s\<lparr>who := src, mp := (if src < 0 then MM_PROC_NR else src)\<rparr>"

fun send_replies :: "int list \<Rightarrow> mm \<Rightarrow> mm option" where
  "send_replies [] s = Some s"
| "send_replies (n # ns) s =
     (if REPLY \<in> mflags s n \<and> ONSWAP \<notin> mflags s n
      then let (a, s1) = ask (Reply n (reply_res (mproctab s n))) s
           in if an_res a \<noteq> OK then None else send_replies ns (clear_flags {REPLY} n s1)
      else send_replies ns s)"

definition mm_step :: "int \<Rightarrow> mm_call \<Rightarrow> mm \<Rightarrow> mm option" where
  "mm_step src c s =
     do {
       (result, s1) \<leftarrow> call_vec c (get_work src s);
       s2 \<leftarrow> (if result \<noteq> SUSPEND then setreply (who s1) result s1 else Some s1);
       s3 \<leftarrow> swap_in s2;
       send_replies all_slots s3
     }"

text \<open>Initialisation: the signal sets, the maps of the kernel and of the first processes, then the
  memory; \<open>fuel\<close> bounds the number of memory chunks asked for.\<close>

definition core_sigs :: "int list" where
  "core_sigs = [SIGQUIT, 4, SIGTRAP, 6, 7, 8, 10, 11, 12]"

definition words_map :: "u32 list \<Rightarrow> seg \<Rightarrow> mem_map" where
  "words_map ws g =
     (let i = (case g of SegT \<Rightarrow> 0 | SegD \<Rightarrow> 3 | SegS \<Rightarrow> 6)
      in \<lparr>mem_vir = ws ! i, mem_phys = ws ! (i + 1), mem_len = ws ! (i + 2)\<rparr>)"

fun init_slots :: "int list \<Rightarrow> u32 \<Rightarrow> mm \<Rightarrow> u32 \<times> mm" where
  "init_slots [] minix_clicks s = (minix_clicks, s)"
| "init_slots (n # ns) minix_clicks s =
     (let (a, s1) = ask (SysGetmap n) s;
          m = words_map (an_vals a);
          s2 = upd_mp n (\<lambda>p. p\<lparr>mp_seg := m, mp_flags := mp_flags p \<union> {IN_USE} \<union> (if mem_len (m SegT) \<noteq> 0 then {SEPARATE} else {})\<rparr>) s1
      in init_slots ns (minix_clicks + (mem_phys (m SegS) + mem_len (m SegS) - mem_phys (m SegT))) s2)"

definition mm_init :: "nat \<Rightarrow> mm \<Rightarrow> (u32 \<times> u32 \<times> mm) option" where
  "mm_init fuel s =
     (let s1 = s\<lparr>core_sset := fold (\<lambda>i m. sigaddset m i) core_sigs 0, ign_sset := sigaddset 0 SIGCHLD\<rparr>;
          (a, s2) = ask (SysGetmap SYSTASK) s1;
          m = words_map (an_vals a);
          (minix_clicks, s3) = init_slots [0..INIT_PROC_NR] (mem_phys (m SegS) + mem_len (m SegS) - mem_phys (m SegT)) s2;
          s4 = upd_mp INIT_PROC_NR (\<lambda>p. p\<lparr>mp_pid := INIT_PID, mp_ignore := 0, mp_catch := 0\<rparr>) s3;
          s5 = s4\<lparr>procs_in_use := LOW_USER + 1\<rparr>
      in mem_init fuel 0 s5)"

end
