(* ===== verification/MM_Sigkill.thy ===== *)
theory MM_Sigkill
  imports MM_Signal_Inv MM_Calls
begin

text \<open>
  SIGKILL cannot be ignored, caught or blocked: no operation of the memory manager lets it into the masks
  of a process, and so it always ends the process it is sent to.
\<close>

subsection \<open>The masks\<close>

definition kill_ok :: "mproc \<Rightarrow> bool" where
  "kill_ok p \<longleftrightarrow> \<not> bit (mp_ignore p) 9 \<and> \<not> bit (mp_catch p) 9 \<and> \<not> bit (mp_sigmask p) 9
     \<and> (\<forall>g. \<not> bit (sa_mask (mp_sigact p g)) 9)"

definition kill_inv :: "mm \<Rightarrow> bool" where
  "kill_inv s \<longleftrightarrow> (\<forall>n. kill_ok (mproctab s n))"

lemma kill_invD: "kill_inv s \<Longrightarrow> kill_ok (mproctab s n)"
  by (simp add: kill_inv_def)

lemma bit9_add: "bit (sigaddset m g) 9 \<longleftrightarrow> bit m 9 \<or> g = SIGKILL"
  by (auto simp: sigaddset_def bit_or_iff bit_exp_iff sigisvalid_def)

lemma bit9_del: "bit (sigdelset m g) 9 \<longleftrightarrow> bit m 9 \<and> g \<noteq> SIGKILL"
  by (auto simp: sigdelset_def bit_and_iff bit_not_iff bit_exp_iff sigisvalid_def)

lemma bit9_member: "sigismember m SIGKILL \<noteq> 0 \<longleftrightarrow> bit m 9"
  by (simp add: sigismember_bit sigisvalid_def)

lemma kill_ok_cong:
  "mp_ignore p' = mp_ignore p \<Longrightarrow> mp_catch p' = mp_catch p \<Longrightarrow> mp_sigmask p' = mp_sigmask p \<Longrightarrow> mp_sigact p' = mp_sigact p \<Longrightarrow>
   kill_ok p' = kill_ok p"
  by (simp add: kill_ok_def)

lemma kill_inv_upd: "kill_inv s \<Longrightarrow> kill_ok (f (mproctab s n)) \<Longrightarrow> kill_inv (upd_mp n f s)"
  by (simp add: kill_inv_def upd_mp_def)

lemma kill_inv_tab: "mproctab s' = mproctab s \<Longrightarrow> kill_inv s' = kill_inv s"
  by (simp add: kill_inv_def)

lemma kill_inv_tell [simp]: "kill_inv (tell q s) = kill_inv s"
  by (simp add: kill_inv_def tell_def)

lemma kill_inv_core: "core_view s' = core_view s \<Longrightarrow> kill_inv s' = kill_inv s"
proof -
  assume c: "core_view s' = core_view s"
  have "kill_ok (mproctab s' n) = kill_ok (mproctab s n)" for n
    by (rule kill_ok_cong) (rule core_view_proc_fields [OF c])+
  then show ?thesis by (simp add: kill_inv_def)
qed

lemma kill_inv_keep:
  assumes "kill_inv s" "\<And>p. mp_ignore (f p) = mp_ignore p \<and> mp_catch (f p) = mp_catch p \<and> mp_sigmask (f p) = mp_sigmask p \<and> mp_sigact (f p) = mp_sigact p"
  shows "kill_inv (upd_mp n f s)"
proof (rule kill_inv_upd [OF assms(1)])
  have "kill_ok (f (mproctab s n)) = kill_ok (mproctab s n)" by (rule kill_ok_cong) (simp_all only: assms(2))
  then show "kill_ok (f (mproctab s n))" using kill_invD [OF assms(1)] by simp
qed

lemma kill_inv_flags: "kill_inv s \<Longrightarrow> kill_inv (set_flags F n s)" "kill_inv s \<Longrightarrow> kill_inv (clear_flags F n s)"
  unfolding set_flags_def clear_flags_def by (rule kill_inv_keep; simp)+

lemma kill_inv_in_use [simp]: "kill_inv (s\<lparr>procs_in_use := k\<rparr>) = kill_inv s"
  by (simp add: kill_inv_def)

lemma kill_inv_adjust: "kill_inv s \<Longrightarrow> kill_inv (snd (adjust n k sp s))"
proof -
  assume i: "kill_inv s"
  obtain m h where m: "snd (adjust n k sp s) = (upd_mp n (\<lambda>p. p\<lparr>mp_seg := m\<rparr>) s)\<lparr>hist := h\<rparr>" using adjust_frame by blast
  have "kill_inv (upd_mp n (\<lambda>p. p\<lparr>mp_seg := m\<rparr>) s)" by (rule kill_inv_keep [OF i]) simp
  then show ?thesis unfolding m by (simp add: kill_inv_def)
qed

lemma kill_inv_dump: "kill_inv s \<Longrightarrow> kill_inv (dump_core n s)"
  unfolding dump_core_def ask_def Let_def by (auto intro!: kill_inv_adjust kill_inv_keep)

lemma kill_inv_catch: "kill_inv s \<Longrightarrow> sigismember (mp_catch (mproctab s n)) g \<noteq> 0 \<Longrightarrow> kill_inv t \<Longrightarrow> kill_inv (upd_mp n (catch_masks g) t)"
proof (rule kill_inv_upd)
  assume i: "kill_inv s" and g: "sigismember (mp_catch (mproctab s n)) g \<noteq> 0" and t: "kill_inv t"
  then have "g \<noteq> SIGKILL" using kill_invD [OF i, of n] bit9_member by (auto simp: kill_ok_def)
  then show "kill_ok (catch_masks g (mproctab t n))"
    using kill_invD [OF t, of n] by (auto simp: kill_ok_def catch_masks_def Let_def bit9_add bit9_del bit_or_iff)
qed

lemma kill_inv_kill: "kill_inv s \<Longrightarrow> kill_inv (upd_mp n (\<lambda>p. p\<lparr>mp_flags := F\<rparr>) s)"
  by (rule kill_inv_keep) simp_all

lemma cleanup_kill: "cleanup c s = Some s' \<Longrightarrow> kill_inv s \<Longrightarrow> kill_inv s'"
  using kill_inv_core [OF cleanup_core] kill_inv_kill by simp

lemma disinherit_kill: "disinherit n rs s = Some s' \<Longrightarrow> kill_inv s \<Longrightarrow> kill_inv s'"
proof (induction rs arbitrary: s)
  case (Cons r rs)
  let ?s1 = "upd_mp r (\<lambda>p. p\<lparr>mp_parent := INIT_PROC_NR\<rparr>) s"
  obtain t where t: "disinherit_one n r s = Some t" "disinherit n rs t = Some s'" using Cons.prems(1) by (auto simp: bind_eq_Some_conv)
  have k: "kill_inv ?s1" by (rule kill_inv_keep [OF Cons.prems(2)]) simp
  have "t = s \<or> t = ?s1 \<or> cleanup r ?s1 = Some t" using t(1) unfolding disinherit_one_def Let_def by (auto split: if_splits)
  then have "kill_inv t" using k Cons.prems(2) cleanup_kill by blast
  then show ?case using Cons.IH t(2) by blast
qed simp

subsection \<open>Signals and exit\<close>

definition keeps_kill :: "(int \<Rightarrow> int \<Rightarrow> mm \<Rightarrow> mm option) \<Rightarrow> bool" where
  "keeps_kill k \<longleftrightarrow> (\<forall>r g s s'. k r g s = Some s' \<longrightarrow> kill_inv s \<longrightarrow> kill_inv s')"

lemma keeps_killD: "keeps_kill k \<Longrightarrow> k r g s = Some s' \<Longrightarrow> kill_inv s \<Longrightarrow> kill_inv s'"
  unfolding keeps_kill_def by blast

lemma check_sig_with_kill: "keeps_kill k \<Longrightarrow> check_sig_with k pid g s = Some (x, s') \<Longrightarrow> kill_inv s \<Longrightarrow> kill_inv s'"
  by (rule check_sig_with_preserves [where P = kill_inv and sigp = k]) (blast intro: keeps_killD)+

lemma exit_memory_kill: "exit_memory r s = Some s' \<Longrightarrow> kill_inv s' = kill_inv s"
proof -
  assume "exit_memory r s = Some s'"
  then obtain s1 where "s1 = s \<or> (\<exists>b k. free_mem b k s = Some s1)" "\<exists>b k. free_mem b k s1 = Some s'"
    unfolding exit_memory_def Let_def bind_eq_Some_conv by (auto split: if_split_asm)
  then show ?thesis using free_mem_only holes_onlyD(1) kill_inv_tab by metis
qed

lemma exit_first_kill: "exit_first r st s = Some s' \<Longrightarrow> kill_inv s \<Longrightarrow> kill_inv s'"
proof -
  assume e: "exit_first r st s = Some s'" and i: "kill_inv s"
  then obtain s1 s3 where a: "s1 = s \<or> (\<exists>x. set_alarm r 0 s = Some (x, s1))"
    and b: "exit_memory r (tell (SysXit (mp_parent (mproctab s1 r)) r) (tell (TellFs FsExit r 0 0) s1)) = Some s3"
    and c: "s' = upd_mp r (\<lambda>p. p\<lparr>mp_exitstatus := word_of_int st\<rparr>) s3"
    by (auto simp: exit_first_def Let_def bind_eq_Some_conv split: if_splits)
  have "kill_inv s1" using a i kill_inv_core [OF set_alarm_core] by auto
  then have "kill_inv s3" using exit_memory_kill [OF b] by simp
  then show ?thesis unfolding c by (rule kill_inv_keep) simp
qed

lemma exit_parent_kill: "keeps_kill k \<Longrightarrow> exit_parent k r s = Some s' \<Longrightarrow> kill_inv s \<Longrightarrow> kill_inv s'"
  unfolding exit_parent_def Let_def by (split if_split_asm) (blast intro: cleanup_kill, blast intro: keeps_killD kill_inv_kill)

lemma exit_last_kill:
  assumes "keeps_kill k" "exit_last k r g s = Some s'" "kill_inv s"
  shows "kill_inv s'"
proof -
  obtain s6 where d: "disinherit r all_slots s = Some s6" and f: "s' = s6 \<or> (\<exists>x. check_sig_with k (- g) SIGHUP s6 = Some (x, s'))"
    using assms(2) by (auto simp: exit_last_def bind_eq_Some_conv split: if_splits)
  have "kill_inv s6" using disinherit_kill [OF d assms(3)] .
  then show ?thesis using f check_sig_with_kill [OF assms(1)] by blast
qed

lemma mm_exit_with_kill: "keeps_kill k \<Longrightarrow> keeps_kill (mm_exit_with k)"
  unfolding keeps_kill_def [of "mm_exit_with k"] mm_exit_parts bind_eq_Some_conv
  by (blast dest: exit_first_kill exit_parent_kill exit_last_kill)

lemma sig_terminate_kill:
  assumes k: "keeps_kill k" and i: "kill_inv s" and e: "sig_terminate k r g s = Some s'"
  shows "kill_inv s'"
proof -
  let ?s1 = "upd_mp r (\<lambda>p. p\<lparr>mp_sigstatus := word_of_int g\<rparr>) s"
  have i1: "kill_inv ?s1" by (rule kill_inv_keep [OF i]) simp
  from e show ?thesis
  proof (cases rule: sig_terminate_cases)
    case 1
    then show ?thesis using i by simp
  next
    case 2
    then show ?thesis using kill_inv_core [OF swap_inqueue_core [OF 2(2)]] kill_inv_core [OF pend_core, of r g ?s1] i1 by simp
  next
    case 3
    then show ?thesis using keeps_killD [OF k 3] kill_inv_dump i1 by simp
  next
    case 4
    then show ?thesis using keeps_killD [OF k 4 i1] by simp
  qed
qed

lemma sig_proc_with_kill:
  assumes k: "keeps_kill k"
  shows "keeps_kill (sig_proc_with k)"
  unfolding keeps_kill_def
proof (intro allI impI)
  fix r g s s' assume e: "sig_proc_with k r g s = Some s'" and i: "kill_inv s"
  from e show "kill_inv s'"
  proof (cases rule: sig_proc_with_cases)
    case (1 s1)
    then show ?thesis using kill_inv_core [OF unpause_core [OF 1(2)]] kill_inv_core [OF stop_proc_core [OF 1(3)]] i by simp
  next
    case 2
    then show ?thesis using i by simp
  next
    case 3
    then show ?thesis using kill_inv_core [OF pend_core, of r g s] i by simp
  next
    case 4
    from 4(3) show ?thesis
    proof (cases rule: sig_catch_cases)
      case 1
      then show ?thesis using kill_inv_core [OF swap_inqueue_core [OF 1(2)]] kill_inv_core [OF pend_core, of r g s] i by simp
    next
      case (2 n sp)
      have "kill_inv (snd (adjust r n sp (tell (SysGetsp r) s)))" using i by (intro kill_inv_adjust) simp
      then show ?thesis using sig_terminate_kill [OF k _ 2(3)] by blast
    next
      case (3 n sp sm)
      let ?t = "snd (adjust r n sp (tell (SysGetsp r) s))"
      have "kill_inv ?t" using i by (intro kill_inv_adjust) simp
      then have "kill_inv (upd_mp r (catch_masks g) ?t)" by (rule kill_inv_catch [OF i 4(2)])
      then have "kill_inv (upd_mp r (\<lambda>p. p\<lparr>mp_sigpending := sigdelset (mp_sigpending p) g\<rparr>)
          (tell (SysSendsig r sm) (upd_mp r (catch_masks g) ?t)))"
        by (intro kill_inv_keep) simp_all
      then show ?thesis using kill_inv_core [OF unpause_core [OF 3(3)]] by simp
    qed
  next
    case 5
    then show ?thesis using sig_terminate_kill [OF k i] by blast
  qed
qed

lemma sig_proc_fuel_kill: "keeps_kill (sig_proc_fuel n)"
proof (induction n)
  case 0
  then show ?case by (simp add: keeps_kill_def)
next
  case (Suc n)
  have "keeps_kill (sig_proc_with (mm_exit_with (sig_proc_fuel n)))" by (rule sig_proc_with_kill [OF mm_exit_with_kill [OF Suc]])
  then show ?case by (simp add: keeps_kill_def)
qed

lemma sig_proc_kill: "keeps_kill sig_proc" and mm_exit_kill: "keeps_kill mm_exit"
  using sig_proc_fuel_kill mm_exit_with_kill unfolding sig_proc_def mm_exit_def by blast+

lemma check_sig_kill: "check_sig pid g s = Some (x, s') \<Longrightarrow> kill_inv s \<Longrightarrow> kill_inv s'"
  using check_sig_with_kill [OF sig_proc_kill] unfolding check_sig_def by blast

lemma check_pending_kill: "check_pending r s = Some s' \<Longrightarrow> kill_inv s \<Longrightarrow> kill_inv s'"
proof -
  assume e: "check_pending r s = Some s'" and i: "kill_inv s"
  have "s' = s \<or> (\<exists>g. sig_proc r g (upd_mp r (\<lambda>p. p\<lparr>mp_sigpending := sigdelset (mp_sigpending p) g\<rparr>) s) = Some s')"
    using e unfolding check_pending_def by (auto split: option.splits)
  moreover have "kill_inv (upd_mp r (\<lambda>p. p\<lparr>mp_sigpending := sigdelset (mp_sigpending p) g\<rparr>) s)" for g
    by (rule kill_inv_keep [OF i]) simp
  ultimately show ?thesis using i keeps_killD [OF sig_proc_kill] by blast
qed

subsection \<open>SIGKILL ends a process\<close>

lemma sig_proc_sigkill:
  assumes k: "kill_ok (mproctab s r)" and g: "sigismember (ign_sset s) SIGKILL = 0" "sigismember (core_sset s) SIGKILL = 0" and l: "live s r"
  shows "sig_proc r SIGKILL s = mm_exit r 0 (upd_mp r (\<lambda>p. p\<lparr>mp_sigstatus := 9\<rparr>) s)"
proof -
  have "sigismember (mp_ignore (mproctab s r)) SIGKILL = 0" "sigismember (mp_sigmask (mproctab s r)) SIGKILL = 0"
    "sigismember (mp_catch (mproctab s r)) SIGKILL = 0"
    using k bit9_member unfolding kill_ok_def by blast+
  moreover have "core_sset (upd_mp r f s) = core_sset s" for f by (simp add: upd_mp_def)
  ultimately show ?thesis unfolding sig_proc_unfold sig_proc_with_def sig_terminate_def Let_def using g l by simp
qed

lemma sigkill_ends:
  assumes "kill_ok (mproctab s r)" "sigismember (ign_sset s) SIGKILL = 0" "sigismember (core_sset s) SIGKILL = 0" "live s r"
    "sig_proc r SIGKILL s = Some s'"
  shows "\<not> live s' r \<and> live_set s' \<subseteq> live_set s"
proof -
  have "mm_exit_with (sig_proc_fuel DEPTH) r 0 (upd_mp r (\<lambda>p. p\<lparr>mp_sigstatus := 9\<rparr>) s) = Some s'"
    using sig_proc_sigkill [OF assms(1-4)] assms(5) unfolding mm_exit_def sig_proc_def by simp
  from mm_exit_with_live [OF sig_proc_fuel_shrinks this] show ?thesis by (auto simp: live_set_iff [symmetric])
qed

end
