(* ===== verification/MM_Memory.thy ===== *)
theory MM_Memory
  imports MM_Signal_Inv MM_Calls
begin

text \<open>
  The memory of the system is never shared by accident: the free clicks, the data of every live
  process and the texts of the programs are disjoint, where two processes share a text only when they run
  the same file, and a process' data is below \<^verbatim>\<open>swap_base\<close> exactly when it is not swapped out.
  \<open>mem_ok\<close> says so of a view of the process table and a set of free clicks; \<open>mem_inv\<close> ties it to
  the state, and every operation keeps it.
\<close>

subsection \<open>Who owns which clicks\<close>

record pmem =
  pm_live :: bool
  pm_sep :: bool
  pm_swapped :: bool
  pm_data :: span
  pm_text :: span
  pm_file :: "int \<times> int \<times> int"

abbreviation data_of :: "pmem \<Rightarrow> nat set" where "data_of p \<equiv> block (fst (pm_data p)) (snd (pm_data p))"
abbreviation text_of :: "pmem \<Rightarrow> nat set" where "text_of p \<equiv> block (fst (pm_text p)) (snd (pm_text p))"

definition shares :: "pmem \<Rightarrow> pmem \<Rightarrow> bool" where
  "shares p q \<longleftrightarrow> pm_sep p \<and> pm_sep q \<and> pm_file p = pm_file q"

definition own_ok :: "nat \<Rightarrow> nat set \<Rightarrow> pmem \<Rightarrow> bool" where
  "own_ok sb F p \<longleftrightarrow> span_ok (pm_data p) \<and> (snd (pm_text p) \<noteq> 0 \<longrightarrow> span_ok (pm_text p) \<and> pm_sep p \<and> fst (pm_text p) + snd (pm_text p) < sb)
     \<and> data_of p \<inter> F = {} \<and> text_of p \<inter> F = {} \<and> text_of p \<inter> data_of p = {}
     \<and> (if pm_swapped p then sb \<le> fst (pm_data p) else fst (pm_data p) + snd (pm_data p) < sb)"

definition apart :: "pmem \<Rightarrow> pmem \<Rightarrow> bool" where
  "apart p q \<longleftrightarrow> data_of p \<inter> data_of q = {} \<and> data_of p \<inter> text_of q = {} \<and> text_of p \<inter> data_of q = {}
     \<and> (text_of p \<inter> text_of q = {} \<or> shares p q)"

definition mem_ok :: "(int \<Rightarrow> pmem) \<Rightarrow> nat \<Rightarrow> nat set \<Rightarrow> bool" where
  "mem_ok v sb F \<longleftrightarrow> sb - 1 \<notin> F
     \<and> (\<forall>n \<in> set user_slots. (pm_live (v n) \<longrightarrow> own_ok sb F (v n)) \<and> (pm_sep (v n) \<or> pm_swapped (v n) \<longrightarrow> pm_live (v n)))
     \<and> (\<forall>n \<in> set user_slots. \<forall>m \<in> set user_slots. n \<noteq> m \<longrightarrow> pm_live (v n) \<longrightarrow> pm_live (v m) \<longrightarrow> apart (v n) (v m))"

lemma block_0 [simp]: "block b 0 = {}"
  by simp

lemma apart_sym: "apart p q \<Longrightarrow> apart q p"
  unfolding apart_def shares_def by (auto simp: Int_commute)

lemma mem_okD:
  assumes "mem_ok v sb F" "n \<in> set user_slots" "pm_live (v n)"
  shows "own_ok sb F (v n)" "m \<in> set user_slots \<Longrightarrow> n \<noteq> m \<Longrightarrow> pm_live (v m) \<Longrightarrow> apart (v n) (v m)"
  using assms unfolding mem_ok_def by blast+

lemma own_ok_mono: "own_ok sb F p \<Longrightarrow> F' \<subseteq> F \<Longrightarrow> own_ok sb F' p"
  unfolding own_ok_def by blast

lemma mem_ok_mono: "mem_ok v sb F \<Longrightarrow> F' \<subseteq> F \<Longrightarrow> mem_ok v sb F'"
  unfolding mem_ok_def using own_ok_mono by blast

text \<open>Moving the data of a process to clicks that were free (or held back).\<close>

lemma mem_ok_move:
  assumes ok: "mem_ok v sb F" and n: "n \<in> set user_slots" "pm_live (v n)"
    and B: "block b k \<subseteq> F" "k = snd (pm_data (v n))" "span_ok (b, k)"
    and w: "if sw then sb \<le> b else b + k < sb" "0 < sb"
  shows "mem_ok (v(n := (v n)\<lparr>pm_data := (b, k), pm_swapped := sw\<rparr>)) sb ((F - block b k) \<union> data_of (v n))"
proof -
  let ?p = "(v n)\<lparr>pm_data := (b, k), pm_swapped := sw\<rparr>" and ?F = "(F - block b k) \<union> data_of (v n)"
  note o = mem_okD(1) [OF ok n]
  have gap: "sb - 1 \<notin> data_of (v n)"
    using o w(2) unfolding own_ok_def block_def by (auto split: if_splits)
  have g: "sb - 1 \<notin> ?F" using ok gap unfolding mem_ok_def by blast
  have on: "own_ok sb ?F ?p" using o B w(1) unfolding own_ok_def by (auto simp: Int_Un_distrib)
  have oth: "own_ok sb ?F (v m)" "apart ?p (v m)" if m: "m \<in> set user_slots" "m \<noteq> n" "pm_live (v m)" for m
  proof -
    have om: "own_ok sb F (v m)" and ap: "apart (v n) (v m)" using mem_okD [OF ok] n m by blast+
    show "own_ok sb ?F (v m)" using om ap unfolding own_ok_def apart_def by (auto simp: Int_Un_distrib)
    show "apart ?p (v m)" using om ap B(1) unfolding own_ok_def apart_def shares_def by auto
  qed
  show ?thesis
    unfolding mem_ok_def
  proof (intro conjI ballI impI)
    show "sb - 1 \<notin> ?F" by (rule g)
  next
    fix m assume "m \<in> set user_slots" "pm_live ((v(n := ?p)) m)"
    then show "own_ok sb ?F ((v(n := ?p)) m)" using on oth(1) by (cases "m = n") simp_all
  next
    fix m assume "m \<in> set user_slots" "pm_sep ((v(n := ?p)) m) \<or> pm_swapped ((v(n := ?p)) m)"
    then show "pm_live ((v(n := ?p)) m)" using ok n unfolding mem_ok_def by (cases "m = n") auto
  next
    fix m l assume h: "m \<in> set user_slots" "l \<in> set user_slots" "m \<noteq> l" "pm_live ((v(n := ?p)) m)" "pm_live ((v(n := ?p)) l)"
    consider "m = n" | "l = n" "m \<noteq> n" | "m \<noteq> n" "l \<noteq> n" by blast
    then show "apart ((v(n := ?p)) m) ((v(n := ?p)) l)"
    proof cases
      case 1
      then show ?thesis using h oth(2) [of l] by simp
    next
      case 2
      then show ?thesis using h oth(2) [of m] apart_sym by simp
    next
      case 3
      then show ?thesis using h mem_okD(2) [OF ok] by simp
    qed
  qed
qed

text \<open>A process goes: its data become free, and its text if nobody shares it.\<close>

lemma mem_ok_exit:
  assumes ok: "mem_ok v sb F" and n: "n \<in> set user_slots" "pm_live (v n)" and sb: "sb - 1 \<notin> T" "0 < sb"
    and T: "T = {} \<or> T = text_of (v n) \<and> (\<forall>m \<in> set user_slots. m \<noteq> n \<longrightarrow> pm_live (v m) \<longrightarrow> \<not> shares (v n) (v m))"
    and p: "\<not> pm_live p" "\<not> pm_sep p" "\<not> pm_swapped p"
  shows "mem_ok (v(n := p)) sb (F \<union> T \<union> data_of (v n))"
proof -
  note o = mem_okD(1) [OF ok n]
  have gap: "sb - 1 \<notin> data_of (v n)"
    using o sb(2) unfolding own_ok_def block_def by (auto split: if_splits)
  have oth: "own_ok sb (F \<union> T \<union> data_of (v n)) (v m)" if m: "m \<in> set user_slots" "m \<noteq> n" "pm_live (v m)" for m
  proof -
    have om: "own_ok sb F (v m)" and ap: "apart (v n) (v m)" using mem_okD [OF ok] n m by blast+
    have "text_of (v m) \<inter> T = {}" "data_of (v m) \<inter> T = {}" using T ap m unfolding apart_def by blast+
    then show ?thesis using om ap unfolding own_ok_def apart_def by (auto simp: Int_Un_distrib)
  qed
  show ?thesis
    using ok gap sb p oth unfolding mem_ok_def by auto
qed

text \<open>A new process gets free clicks for its data and shares its parent's text.\<close>

lemma mem_ok_fork:
  assumes ok: "mem_ok v sb F" and n: "n \<in> set user_slots" "pm_live (v n)" and c: "\<not> pm_live (v c)"
    and B: "block b k \<subseteq> F" "span_ok (b, k)" "b + k < sb" "p = (v n)\<lparr>pm_data := (b, k), pm_swapped := False, pm_text := t\<rparr>"
    and t: "t = pm_text (v n) \<or> snd (pm_text (v n)) = 0 \<and> snd t = 0"
  shows "mem_ok (v(c := p)) sb (F - block b k)"
proof -
  note o = mem_okD(1) [OF ok n]
  have tx: "text_of p \<subseteq> text_of (v n)" "snd (pm_text p) \<noteq> 0 \<Longrightarrow> pm_text p = pm_text (v n)" using t B(4) by (auto simp: block_def)
  have on: "own_ok sb (F - block b k) p"
    using o B tx unfolding own_ok_def by (cases "snd t = 0") auto
  have par: "apart p (v n)"
  proof (cases "snd (pm_text (v n)) = 0")
    case True
    then show ?thesis using o B tx unfolding own_ok_def apart_def by auto
  next
    case False
    then have "pm_sep (v n)" using o unfolding own_ok_def by blast
    then show ?thesis using o B tx unfolding own_ok_def apart_def shares_def by auto
  qed
  have oth: "apart p (v m)" if m: "m \<in> set user_slots" "pm_live (v m)" for m
  proof (cases "m = n")
    case False
    then have om: "own_ok sb F (v m)" and ap: "apart (v n) (v m)" using mem_okD [OF ok] n m by blast+
    then show ?thesis using B tx unfolding own_ok_def apart_def shares_def by auto
  qed (simp add: par)
  have nc: "n \<noteq> c" using n c by blast
  show ?thesis
    unfolding mem_ok_def
  proof (intro conjI ballI impI)
    show "sb - 1 \<notin> F - block b k" using ok unfolding mem_ok_def by blast
  next
    fix m assume "m \<in> set user_slots" "pm_live ((v(c := p)) m)"
    then show "own_ok sb (F - block b k) ((v(c := p)) m)"
      using on own_ok_mono [OF mem_okD(1) [OF ok, of m], of "F - block b k"] by (cases "m = c") auto
  next
    fix m assume "m \<in> set user_slots" "pm_sep ((v(c := p)) m) \<or> pm_swapped ((v(c := p)) m)"
    then show "pm_live ((v(c := p)) m)" using ok n B(4) unfolding mem_ok_def by (cases "m = c") auto
  next
    fix m l assume h: "m \<in> set user_slots" "l \<in> set user_slots" "m \<noteq> l" "pm_live ((v(c := p)) m)" "pm_live ((v(c := p)) l)"
    consider "m = c" | "l = c" "m \<noteq> c" | "m \<noteq> c" "l \<noteq> c" by blast
    then show "apart ((v(c := p)) m) ((v(c := p)) l)"
    proof cases
      case 1
      then show ?thesis using h oth [of l] by simp
    next
      case 2
      then show ?thesis using h oth [of m] apart_sym by simp
    next
      case 3
      then show ?thesis using h mem_okD(2) [OF ok] by simp
    qed
  qed
qed

subsection \<open>The invariant of the state\<close>

definition pmem_of :: "mm \<Rightarrow> int \<Rightarrow> pmem" where
  "pmem_of s n =
     \<lparr>pm_live = live s n, pm_sep = SEPARATE \<in> mflags s n, pm_swapped = ONSWAP \<in> mflags s n,
      pm_data = (unat (mem_phys (mseg s n SegD)), unat (image_clicks (mseg s n))),
      pm_text = (unat (mem_phys (mseg s n SegT)), unat (mem_len (mseg s n SegT))),
      pm_file = (mp_ino (mproctab s n), mp_dev (mproctab s n), mp_ctime (mproctab s n))\<rparr>"

lemma pmem_of_simps [simp]:
  "pm_live (pmem_of s n) = live s n" "pm_sep (pmem_of s n) = (SEPARATE \<in> mflags s n)" "pm_swapped (pmem_of s n) = (ONSWAP \<in> mflags s n)"
  "pm_data (pmem_of s n) = (unat (mem_phys (mseg s n SegD)), unat (image_clicks (mseg s n)))"
  "pm_text (pmem_of s n) = (unat (mem_phys (mseg s n SegT)), unat (mem_len (mseg s n SegT)))"
  "pm_file (pmem_of s n) = (mp_ino (mproctab s n), mp_dev (mproctab s n), mp_ctime (mproctab s n))"
  by (simp_all add: pmem_of_def)

definition flags_ok :: "mm \<Rightarrow> bool" where
  "flags_ok s \<longleftrightarrow> (\<forall>n. (n \<in> set user_slots \<longrightarrow> mflags s n \<inter> {PAUSED, WAITING, SIGSUSPENDED, STOPPED} \<noteq> {} \<longrightarrow> live s n)
     \<and> (SWAPIN \<in> mflags s n \<longrightarrow> ONSWAP \<in> mflags s n) \<and> (ONSWAP \<in> mflags s n \<longrightarrow> n \<in> set user_slots))"

text \<open>\<open>B\<close> is a set of clicks just allocated that nobody owns yet.\<close>

definition mem_hold :: "nat set \<Rightarrow> mm \<Rightarrow> bool" where
  "mem_hold B s \<longleftrightarrow> (\<exists>hs fs. hole_inv s hs fs \<and> B \<inter> free_clicks s hs = {} \<and> mem_ok (pmem_of s) (unat (swap_base s)) (free_clicks s hs \<union> B))
     \<and> flags_ok s \<and> 0 < unat (swap_base s) \<and> sigismember (ign_sset s) SIGCHLD = 1"

abbreviation mem_inv :: "mm \<Rightarrow> bool" where "mem_inv \<equiv> mem_hold {}"

lemma hole_inv_cong:
  assumes "holes s' = holes s" "hole_head s' = hole_head s" "free_slots s' = free_slots s"
  shows "hole_inv s' = hole_inv s" "free_clicks s' = free_clicks s"
  using assms unfolding hole_inv_def hole_links_def free_clicks_def hspan_def by (auto simp: fun_eq_iff)

lemma mem_holdI:
  assumes "mem_hold B s" "holes s' = holes s" "hole_head s' = hole_head s" "free_slots s' = free_slots s" "swap_base s' = swap_base s"
    "pmem_of s' = pmem_of s" "ign_sset s' = ign_sset s" "flags_ok s'"
  shows "mem_hold B s'"
  using assms(1,8) unfolding mem_hold_def hole_inv_cong [OF assms(2-4)] assms(5,6,7) by blast

text \<open>Flags of blocked processes only go away, or the process is dead; only a swapped out process is
  queued for swapping in.\<close>

abbreviation blocked_flags :: "mflag set" where "blocked_flags \<equiv> {PAUSED, WAITING, SIGSUSPENDED}"

definition fewer_blocked :: "mm \<Rightarrow> mm \<Rightarrow> bool" where
  "fewer_blocked s s' \<longleftrightarrow> (\<forall>n. (mflags s' n \<inter> blocked_flags = {} \<or> mflags s' n \<inter> blocked_flags \<subseteq> mflags s n \<and> live s' n = live s n)
     \<and> (SWAPIN \<in> mflags s' n \<longrightarrow> ONSWAP \<in> mflags s' n \<or> SWAPIN \<in> mflags s n \<and> ONSWAP \<notin> mflags s n)
     \<and> (ONSWAP \<in> mflags s' n \<longrightarrow> ONSWAP \<in> mflags s n)
     \<and> (STOPPED \<in> mflags s' n \<longrightarrow> live s' n \<or> STOPPED \<in> mflags s n \<and> \<not> live s n))"

lemma fewer_blocked_refl [simp]: "fewer_blocked s s"
  by (simp add: fewer_blocked_def)

lemma fewer_blocked_trans: "fewer_blocked s s' \<Longrightarrow> fewer_blocked s' s'' \<Longrightarrow> fewer_blocked s s''"
  unfolding fewer_blocked_def by blast

lemma fewer_flags_ok: "fewer_blocked s s' \<Longrightarrow> flags_ok s \<Longrightarrow> flags_ok s'"
  unfolding fewer_blocked_def flags_ok_def by blast

lemma fewer_blocked_upd:
  assumes "\<And>p. mp_flags (f p) \<inter> blocked_flags = {} \<or> mp_flags (f p) \<inter> blocked_flags \<subseteq> mp_flags p
      \<and> (IN_USE \<in> mp_flags (f p) \<longleftrightarrow> IN_USE \<in> mp_flags p) \<and> (ZOMBIE \<in> mp_flags (f p) \<longleftrightarrow> ZOMBIE \<in> mp_flags p)"
    and "\<And>p. SWAPIN \<in> mp_flags (f p) \<Longrightarrow> SWAPIN \<in> mp_flags p \<and> (ONSWAP \<in> mp_flags p \<longrightarrow> ONSWAP \<in> mp_flags (f p))"
    and "\<And>p. ONSWAP \<in> mp_flags (f p) \<Longrightarrow> ONSWAP \<in> mp_flags p"
    and "\<And>p. STOPPED \<in> mp_flags (f p) \<Longrightarrow> STOPPED \<in> mp_flags p \<and> (IN_USE \<in> mp_flags (f p) \<longleftrightarrow> IN_USE \<in> mp_flags p)
      \<and> (ZOMBIE \<in> mp_flags (f p) \<longleftrightarrow> ZOMBIE \<in> mp_flags p)"
  shows "fewer_blocked s (upd_mp n f s)"
  unfolding fewer_blocked_def
proof (intro allI)
  fix m
  show "(mflags (upd_mp n f s) m \<inter> blocked_flags = {} \<or> mflags (upd_mp n f s) m \<inter> blocked_flags \<subseteq> mflags s m \<and> live (upd_mp n f s) m = live s m)
     \<and> (SWAPIN \<in> mflags (upd_mp n f s) m \<longrightarrow> ONSWAP \<in> mflags (upd_mp n f s) m \<or> SWAPIN \<in> mflags s m \<and> ONSWAP \<notin> mflags s m)
     \<and> (ONSWAP \<in> mflags (upd_mp n f s) m \<longrightarrow> ONSWAP \<in> mflags s m)
     \<and> (STOPPED \<in> mflags (upd_mp n f s) m \<longrightarrow> live (upd_mp n f s) m \<or> STOPPED \<in> mflags s m \<and> \<not> live s m)"
    using assms(1) [of "mproctab s n"] assms(2) [of "mproctab s n"] assms(3) [of "mproctab s n"] assms(4) [of "mproctab s n"]
    by (cases "m = n") (auto simp: upd_mp_def live_def)
qed

lemma fewer_blocked_flags:
  "F \<inter> (blocked_flags \<union> {IN_USE, ZOMBIE, SWAPIN, ONSWAP, STOPPED}) = {} \<Longrightarrow> fewer_blocked s (set_flags F n s)"
  "F \<inter> {IN_USE, ZOMBIE, ONSWAP} = {} \<Longrightarrow> fewer_blocked s (clear_flags F n s)"
  unfolding set_flags_def clear_flags_def by (rule fewer_blocked_upd; auto)+

lemma fewer_blocked_stop: "live s n \<Longrightarrow> fewer_blocked s (set_flags {STOPPED} n s)"
  by (auto simp: fewer_blocked_def code_defs live_def)

lemma fewer_blocked_swapin: "ONSWAP \<in> mflags s n \<Longrightarrow> fewer_blocked s (set_flags {SWAPIN} n s)"
  by (auto simp: fewer_blocked_def code_defs live_def)

lemma fewer_blocked_same: "mproctab s' = mproctab s \<Longrightarrow> fewer_blocked s s'"
  by (simp add: fewer_blocked_def live_def)

text \<open>An operation that keeps the view and does not block anyone.\<close>

definition inert :: "mm \<Rightarrow> mm \<Rightarrow> bool" where
  "inert s s' \<longleftrightarrow> core_view s' = core_view s \<and> fewer_blocked s s'"

lemma inert_trans [trans]: "inert s s' \<Longrightarrow> inert s' s'' \<Longrightarrow> inert s s''"
  unfolding inert_def using fewer_blocked_trans by metis

lemma inert_refl [simp]: "inert s s"
  by (simp add: inert_def)

lemma inert_pmem: "inert s s' \<Longrightarrow> pmem_of s' = pmem_of s"
proof
  fix n assume "inert s s'"
  then have c: "core_view s' = core_view s" by (simp add: inert_def)
  note f = core_view_proc_fields(1-15) [OF c, of n]
  have "SEPARATE \<in> mflags s' n \<longleftrightarrow> SEPARATE \<in> mflags s n" "ONSWAP \<in> mflags s' n \<longleftrightarrow> ONSWAP \<in> mflags s n"
    using core_view_proc_fields(16) [OF c, of SEPARATE n] core_view_proc_fields(16) [OF c, of ONSWAP n] by simp_all
  then show "pmem_of s' n = pmem_of s n" unfolding pmem_of_def using f core_view_live [OF c, of n] by simp
qed

lemma inert_mem_hold: "inert s s' \<Longrightarrow> mem_hold B s \<Longrightarrow> mem_hold B s'"
proof -
  assume i: "inert s s'" and m: "mem_hold B s"
  then have c: "core_view s' = core_view s" by (simp add: inert_def)
  note f = core_view_fields [OF c]
  have "flags_ok s'" using i m fewer_flags_ok unfolding inert_def mem_hold_def by blast
  then show ?thesis using mem_holdI [OF m f(2-5) inert_pmem [OF i] f(7)] by blast
qed

lemma inert_tell [simp]: "inert s (tell q s)"
  by (simp add: inert_def fewer_blocked_same tell_def core_view_tell [unfolded tell_def])

lemma inert_fields [simp]:
  "inert s (upd_mp n (\<lambda>p. p\<lparr>mp_sigstatus := f1 p\<rparr>) s)" "inert s (upd_mp n (\<lambda>p. p\<lparr>mp_sigpending := f2 p\<rparr>) s)"
  "inert s (upd_mp n (\<lambda>p. p\<lparr>mp_swapq := f3 p\<rparr>) s)" "inert s (upd_mp n (\<lambda>p. p\<lparr>reply_res := f4 p\<rparr>) s)"
  "inert s (upd_mp n (\<lambda>p. p\<lparr>reply_res2 := f5 p\<rparr>) s)" "inert s (upd_mp n (\<lambda>p. p\<lparr>reply_ptr := f6 p\<rparr>) s)"
  "inert s (upd_mp n (\<lambda>p. p\<lparr>reply_mask := f7 p\<rparr>) s)" "inert s (upd_mp n (\<lambda>p. p\<lparr>reply_l2 := f8 p\<rparr>) s)"
  unfolding inert_def by (rule conjI, simp, rule fewer_blocked_upd, simp, simp, simp, simp)+

lemma inert_in_queue [simp]: "inert s (s\<lparr>in_queue := q\<rparr>)"
  by (simp add: inert_def fewer_blocked_same)

lemma inert_flags:
  "F \<inter> ({IN_USE, ZOMBIE, SEPARATE, TRACED, ONSWAP, SWAPIN, STOPPED} \<union> blocked_flags) = {} \<Longrightarrow> inert s (set_flags F n s)"
  "F \<inter> {IN_USE, ZOMBIE, SEPARATE, TRACED, ONSWAP} = {} \<Longrightarrow> inert s (clear_flags F n s)"
  unfolding inert_def
  by (rule conjI, rule core_view_flags, blast, rule fewer_blocked_flags, blast)+

lemma inert_steps:
  "inert s t \<Longrightarrow> inert s (tell q t)"
  "inert s t \<Longrightarrow> inert s (upd_mp n (\<lambda>p. p\<lparr>mp_sigstatus := f1 p\<rparr>) t)" "inert s t \<Longrightarrow> inert s (upd_mp n (\<lambda>p. p\<lparr>mp_sigpending := f2 p\<rparr>) t)"
  "inert s t \<Longrightarrow> inert s (upd_mp n (\<lambda>p. p\<lparr>mp_swapq := f3 p\<rparr>) t)" "inert s t \<Longrightarrow> inert s (upd_mp n (\<lambda>p. p\<lparr>reply_res := f4 p\<rparr>) t)"
  "inert s t \<Longrightarrow> inert s (upd_mp n (\<lambda>p. p\<lparr>reply_res2 := f5 p\<rparr>) t)" "inert s t \<Longrightarrow> inert s (upd_mp n (\<lambda>p. p\<lparr>reply_ptr := f6 p\<rparr>) t)"
  "inert s t \<Longrightarrow> inert s (upd_mp n (\<lambda>p. p\<lparr>reply_mask := f7 p\<rparr>) t)" "inert s t \<Longrightarrow> inert s (upd_mp n (\<lambda>p. p\<lparr>reply_l2 := f8 p\<rparr>) t)"
  "inert s t \<Longrightarrow> inert s (t\<lparr>in_queue := q'\<rparr>)"
  "inert s t \<Longrightarrow> F \<inter> ({IN_USE, ZOMBIE, SEPARATE, TRACED, ONSWAP, SWAPIN, STOPPED} \<union> blocked_flags) = {} \<Longrightarrow> inert s (set_flags F n t)"
  "inert s t \<Longrightarrow> F \<inter> {IN_USE, ZOMBIE, SEPARATE, TRACED, ONSWAP} = {} \<Longrightarrow> inert s (clear_flags F n t)"
  by (erule inert_trans, (rule inert_tell inert_fields inert_in_queue | erule inert_flags))+

lemma inert_swap_inqueue:
  assumes o: "ONSWAP \<in> mflags s n" and e: "swap_inqueue n s = Some s'"
  shows "inert s s'"
proof (cases "SWAPIN \<in> mflags s n")
  case True
  then show ?thesis using e by (simp add: swap_inqueue_def)
next
  case False
  obtain s1 where s1: "s1 = s\<lparr>in_queue := Some n\<rparr> \<or> (\<exists>l. s1 = upd_mp l (\<lambda>p. p\<lparr>mp_swapq := Some n\<rparr>) s)"
    and s': "s' = set_flags {SWAPIN} n (upd_mp n (\<lambda>p. p\<lparr>mp_swapq := None\<rparr>) s1)"
    using e False by (auto simp: swap_inqueue_def Let_def bind_eq_Some_conv split: option.splits)
  let ?t = "upd_mp n (\<lambda>p. p\<lparr>mp_swapq := None\<rparr>) s1"
  have i: "inert s ?t" using s1 by (auto intro: inert_steps(4) inert_fields(3) inert_in_queue)
  have "ONSWAP \<in> mflags ?t n" using o s1 by (auto simp: upd_mp_def)
  then have "fewer_blocked ?t s'" unfolding s' by (rule fewer_blocked_swapin)
  moreover have "core_view s' = core_view ?t" unfolding s' by (rule core_view_flags) simp
  ultimately have "inert ?t s'" unfolding inert_def by blast
  then show ?thesis using i inert_trans by blast
qed

lemma inert_setreply: "setreply n r s = Some s' \<Longrightarrow> inert s s'"
  unfolding setreply_def Let_def
  by (split if_split_asm, drule (1) inert_swap_inqueue, rule inert_trans [rotated], assumption) (auto intro!: inert_steps)

lemma inert_set_alarm: "set_alarm n t s = Some (r, s') \<Longrightarrow> inert s s'"
  by (auto simp: set_alarm_def ask_def Let_def inert_steps split: if_splits)

lemma inert_unpause: "unpause n s = Some s' \<Longrightarrow> inert s s'"
  by (auto simp: unpause_def inert_steps dest!: inert_setreply split: if_splits intro: inert_trans [rotated])

lemma inert_stop_proc:
  assumes l: "live s n" and e: "stop_proc n sig s = Some s'"
  shows "inert s s'"
proof -
  let ?s1 = "tell (SysTrace (-1) n 0 0) s"
  let ?s2 = "set_flags {STOPPED} n ?s1"
  have i1: "inert s ?s1" by simp
  have "live ?s1 n" using l by (simp add: tell_def live_def)
  then have "fewer_blocked ?s1 ?s2" by (rule fewer_blocked_stop)
  moreover have "core_view ?s2 = core_view ?s1" by (rule core_view_flags) simp
  ultimately have i2: "inert s ?s2" using i1 inert_trans unfolding inert_def by blast
  have "s' = ?s1 \<or> (\<exists>p x r. setreply p r (upd_mp p (\<lambda>q. q\<lparr>reply_res2 := x\<rparr>) (clear_flags {WAITING} p ?s2)) = Some s')
      \<or> (\<exists>x. s' = upd_mp n (\<lambda>p. p\<lparr>mp_sigstatus := x\<rparr>) ?s2)"
    using e unfolding stop_proc_def ask_def Let_def by (auto split: if_split_asm)
  then consider "s' = ?s1" | p x r where "setreply p r (upd_mp p (\<lambda>q. q\<lparr>reply_res2 := x\<rparr>) (clear_flags {WAITING} p ?s2)) = Some s'"
    | x where "s' = upd_mp n (\<lambda>p. p\<lparr>mp_sigstatus := x\<rparr>) ?s2" by blast
  then show ?thesis
  proof cases
    case 1
    then show ?thesis using i1 by simp
  next
    case (2 p x r)
    have "inert s (upd_mp p (\<lambda>q. q\<lparr>reply_res2 := x\<rparr>) (clear_flags {WAITING} p ?s2))"
      by (rule inert_steps(6), rule inert_steps(12) [OF i2]) simp
    then show ?thesis using inert_setreply [OF 2] inert_trans by blast
  next
    case (3 x)
    then show ?thesis using inert_steps(2) [OF i2] by simp
  qed
qed

lemma inert_pend [simp]: "inert s (pend n sig s)"
  by (simp add: pend_def)

subsection \<open>Operations that keep everybody's memory\<close>

definition mem_same :: "mm \<Rightarrow> mm \<Rightarrow> bool" where
  "mem_same s s' \<longleftrightarrow> holes s' = holes s \<and> hole_head s' = hole_head s \<and> free_slots s' = free_slots s \<and> swap_base s' = swap_base s
     \<and> pmem_of s' = pmem_of s \<and> ign_sset s' = ign_sset s \<and> fewer_blocked s s'"

lemma mem_same_trans: "mem_same s s' \<Longrightarrow> mem_same s' s'' \<Longrightarrow> mem_same s s''"
  unfolding mem_same_def using fewer_blocked_trans by metis

lemma mem_same_refl [simp]: "mem_same s s"
  by (simp add: mem_same_def)

lemma mem_same_hold: "mem_same s s' \<Longrightarrow> mem_hold B s \<Longrightarrow> mem_hold B s'"
proof -
  assume m: "mem_same s s'" and h: "mem_hold B s"
  have "flags_ok s'" using fewer_flags_ok m h unfolding mem_same_def mem_hold_def by blast
  then show ?thesis using mem_holdI [OF h] m unfolding mem_same_def by blast
qed

lemma inert_same: "inert s s' \<Longrightarrow> mem_same s s'"
proof -
  assume i: "inert s s'"
  then have c: "core_view s' = core_view s" by (simp add: inert_def)
  show ?thesis using core_view_fields(2-5,7) [OF c] inert_pmem [OF i] i unfolding mem_same_def inert_def by blast
qed

lemma mem_same_upd:
  assumes "\<And>p. mp_flags (f p) = mp_flags p" "\<And>p. mp_ino (f p) = mp_ino p \<and> mp_dev (f p) = mp_dev p \<and> mp_ctime (f p) = mp_ctime p"
    "mp_seg (f (mproctab s n)) SegT = mseg s n SegT" "mem_phys (mp_seg (f (mproctab s n)) SegD) = mem_phys (mseg s n SegD)"
    "image_clicks (mp_seg (f (mproctab s n))) = image_clicks (mseg s n)"
  shows "mem_same s (upd_mp n f s)"
  unfolding mem_same_def
proof (intro conjI)
  show "pmem_of (upd_mp n f s) = pmem_of s"
    using assms by (auto simp: fun_eq_iff pmem_of_def upd_mp_def live_def)
  show "fewer_blocked s (upd_mp n f s)" by (rule fewer_blocked_upd) (simp_all add: assms(1))
qed (simp_all add: upd_mp_def)

lemma mem_same_adjust: "mem_same s (snd (adjust n k sp s))"
proof -
  obtain m h where m: "snd (adjust n k sp s) = (upd_mp n (\<lambda>p. p\<lparr>mp_seg := m\<rparr>) s)\<lparr>hist := h\<rparr>" "image_clicks m = image_clicks (mseg s n)"
    "mem_phys (m SegD) = mem_phys (mseg s n SegD)" "m SegT = mseg s n SegT"
    using adjust_frame by blast
  have "mem_same s (upd_mp n (\<lambda>p. p\<lparr>mp_seg := m\<rparr>) s)" by (rule mem_same_upd) (use m in simp_all)
  moreover have "mem_same t (t\<lparr>hist := h\<rparr>)" for t
    by (simp add: mem_same_def fewer_blocked_same pmem_of_def fun_eq_iff live_def)
  ultimately show ?thesis unfolding m(1) using mem_same_trans by blast
qed

lemmas mem_same_tell = inert_same [OF inert_tell]

lemma mem_same_dump_core: "mem_same s (dump_core n s)"
proof -
  let ?s1 = "tell (OpenFile core_name) s"
  let ?s3 = "tell (SysGetsp n) (upd_mp n (\<lambda>p. p\<lparr>mp_sigstatus := mp_sigstatus p OR 0x80\<rparr>) ?s1)"
  have "inert s ?s3" by (intro inert_steps) simp
  then have "mem_same s ?s3" by (rule inert_same)
  then have "mem_same s (tell (CoreDump n) (snd (adjust n k sp ?s3)))" for k sp
    using mem_same_trans mem_same_adjust mem_same_tell by blast
  then show ?thesis using mem_same_tell by (simp add: dump_core_def ask_def Let_def)
qed

lemma mem_same_catch: "mem_same s (upd_mp n (catch_masks g) s)"
  by (rule mem_same_upd) (simp_all add: catch_masks_def Let_def)

subsection \<open>Swapping and allocation\<close>

lemma pmem_of_upd_other: "m \<noteq> n \<Longrightarrow> pmem_of (upd_mp n f s) m = pmem_of s m"
  by (simp add: pmem_of_def upd_mp_def live_def)

lemma pmem_of_cong: "mproctab s' = mproctab s \<Longrightarrow> pmem_of s' = pmem_of s"
  by (simp add: pmem_of_def fun_eq_iff live_def)

lemma relocate_simps [simp]:
  "image_clicks (relocate b m) = image_clicks m" "mem_phys (relocate b m SegD) = b" "relocate b m SegT = m SegT"
  by (simp_all add: relocate_def image_clicks_def)

lemma flags_ok_tab: "mproctab s' = mproctab s \<Longrightarrow> flags_ok s' = flags_ok s"
  by (simp add: flags_ok_def live_def)

lemma span_of_free:
  assumes "hole_inv s hs fs" "x \<in> set hs"
  shows "span_ok (hspan s x)" "block (fst (hspan s x)) (snd (hspan s x)) \<subseteq> free_clicks s hs"
  using assms unfolding hole_inv_def free_clicks_def cover_def by auto

lemma swap_one_mem:
  assumes inv: "mem_inv s" and c: "swap_candidate s rmp" "rmp \<in> set user_slots" and f: "swap_found s rmp = Some (Some (prev, hp))"
    and e: "swap_one rmp prev hp s = Some s'"
  shows "mem_inv s' \<and> swap_base s' = swap_base s"
proof -
  obtain hs fs where h: "hole_inv s hs fs" and ok: "mem_ok (pmem_of s) (unat (swap_base s)) (free_clicks s hs)"
    and bl: "flags_ok s" and sb: "0 < unat (swap_base s)" and ig: "sigismember (ign_sset s) SIGCHLD = 1"
    using inv unfolding mem_hold_def by auto
  let ?size = "image_clicks (mseg s rmp)" and ?nb = "h_base (holes s hp)" and ?old = "mem_phys (mseg s rmp SegD)"
  have lv: "live s rmp" using bl c unfolding flags_ok_def swap_candidate_def by blast
  then have own: "own_ok (unat (swap_base s)) (free_clicks s hs) (pmem_of s rmp)" using mem_okD(1) [OF ok c(2)] by simp
  then have sp: "span_ok (unat ?old, unat ?size)" unfolding own_ok_def by simp
  then have z: "?size \<noteq> 0" "?old \<noteq> 0" by (auto simp: span_ok_def)
  have nsw: "ONSWAP \<notin> mflags s rmp" using c(1) unfolding swap_candidate_def by blast
  obtain h0 where hh: "hole_head s = Some h0" using f by (cases "hole_head s") (auto simp: swap_found_def)
  have ch: "chain (\<lambda>i. h_next (holes s i)) (Some h0) hs" using h hh unfolding hole_inv_def hole_links_def by simp
  obtain us vs where hs: "hs = us @ hp # vs" and pr: "us \<noteq> [] \<Longrightarrow> prev = Some (last us)"
    and hit: "?nb \<ge> swap_base s" "h_len (holes s hp) \<ge> ?size"
    using find_hole_spec [OF ch, of "\<lambda>h. True" "swap_hit s rmp" None] f hh by (auto simp: swap_found_def split: if_splits)
  have sph: "span_ok (hspan s hp)" "block (fst (hspan s hp)) (snd (hspan s hp)) \<subseteq> free_clicks s hs"
    using span_of_free [OF h] hs by auto
  have bs: "block (unat ?nb) (unat ?size) \<subseteq> free_clicks s hs"
    using sph(2) hit(2) by (auto simp: block_def hspan_def word_le_nat_alt)
  have spn: "span_ok (unat ?nb, unat ?size)" using sph(1) hit(2) z(1) by (auto simp: span_ok_def hspan_def word_le_nat_alt unat_gt_0)
  obtain s1 hs1 fs1 where s1: "bite prev hp ?size s = Some s1" "hole_inv s1 hs1 fs1" "holes_only s s1"
    "free_clicks s1 hs1 = free_clicks s hs - block (unat ?nb) (unat ?size)"
    using bite_spec [OF h hs z(1) hit(2) pr] by blast
  note t1 = holes_onlyD [OF s1(3)]
  obtain s4 q where f4: "free_mem ?old ?size (s1\<lparr>mproctab := (mproctab s)(rmp := (mproctab s rmp)\<lparr>mp_seg := relocate ?nb (mseg s rmp)\<rparr>), hist := q\<rparr>) = Some s4"
    and s': "s' = (set_flags {ONSWAP} rmp s4)\<lparr>outswap := rmp\<rparr>"
    using e unfolding swap_one_def Let_def s1(1) t1(1)
    by (auto simp: bind_eq_Some_conv tell_def upd_mp_def t1)
  define s3 where "s3 = s1\<lparr>mproctab := (mproctab s)(rmp := (mproctab s rmp)\<lparr>mp_seg := relocate ?nb (mseg s rmp)\<rparr>), hist := q\<rparr>"
  have s3: "mproctab s3 = mproctab (upd_mp rmp (\<lambda>p. p\<lparr>mp_seg := relocate ?nb (mp_seg p)\<rparr>) s)" "swap_base s3 = swap_base s"
    "holes s3 = holes s1" "hole_head s3 = hole_head s1" "free_slots s3 = free_slots s1"
    by (simp_all add: s3_def upd_mp_def t1)
  have s4: "free_mem ?old ?size s3 = Some s4" using f4 by (simp add: s3_def)
  have hi3: "hole_inv s3 hs1 fs1" "free_clicks s3 hs1 = free_clicks s1 hs1" using s1(2) hole_inv_cong [OF s3(3-5)] by simp_all
  have nf: "fs1 \<noteq> []"
  proof
    assume "fs1 = []"
    then have "free_slots s3 = None" using hi3(1) unfolding hole_inv_def hole_links_def by simp
    then show False using s4 free_mem_full [OF _ z(1)] by simp
  qed
  have dj: "block (unat ?old) (unat ?size) \<inter> free_clicks s3 hs1 = {}"
    using own hi3(2) s1(4) unfolding own_ok_def by auto
  obtain hs4 fs4 where h4: "hole_inv s4 hs4 fs4" "free_clicks s4 hs4 = free_clicks s3 hs1 \<union> block (unat ?old) (unat ?size)" "holes_only s3 s4"
    using free_mem_spec [OF hi3(1) nf z _ dj] sp s4 unfolding span_ok_def by auto
  note t4 = holes_onlyD [OF h4(3)]
  have tab: "mproctab s' = mproctab (upd_mp rmp (\<lambda>p. p\<lparr>mp_seg := relocate ?nb (mp_seg p), mp_flags := mp_flags p \<union> {ONSWAP}\<rparr>) s)"
    by (simp add: s' code_defs t4(1) s3(1) fun_upd_def fun_eq_iff)
  have "pmem_of s' = (pmem_of s)(rmp := (pmem_of s rmp)\<lparr>pm_data := (unat ?nb, unat ?size), pm_swapped := True\<rparr>)"
    by (auto simp: fun_eq_iff pmem_of_def tab upd_mp_def live_def)
  moreover have "swap_base s' = swap_base s" by (simp add: s' code_defs t4 s3)
  moreover have e': "holes s' = holes s4" "hole_head s' = hole_head s4" "free_slots s' = free_slots s4" by (simp_all add: s' code_defs)
  moreover have "mem_ok ((pmem_of s)(rmp := (pmem_of s rmp)\<lparr>pm_data := (unat ?nb, unat ?size), pm_swapped := True\<rparr>)) (unat (swap_base s))
      ((free_clicks s hs - block (unat ?nb) (unat ?size)) \<union> data_of (pmem_of s rmp))"
    by (rule mem_ok_move [OF ok c(2)]) (use lv bs spn hit(1) sb in \<open>simp_all add: word_le_nat_alt\<close>)
  moreover have "flags_ok s'"
    using bl c(2) lv unfolding flags_ok_def tab live_def by (auto simp: upd_mp_def)
  moreover have "sigismember (ign_sset s') SIGCHLD = 1" using ig by (simp add: s' code_defs t4 s3_def t1)
  moreover have "free_clicks s4 hs4 = (free_clicks s hs - block (unat ?nb) (unat ?size)) \<union> data_of (pmem_of s rmp)"
    using h4(2) hi3(2) s1(4) by simp
  ultimately show ?thesis
    using h4(1) sb hole_inv_cong [OF e'] unfolding mem_hold_def by auto
qed

lemma swap_out_mem:
  assumes "mem_inv s" "swap_out s = Some (r, s')"
  shows "mem_inv s' \<and> swap_base s' = swap_base s"
proof -
  have "\<not> r \<and> s' = s \<or> r \<and> (\<exists>rmp \<in> set user_slots. \<exists>prev hp. swap_candidate s rmp \<and> swap_found s rmp = Some (Some (prev, hp)) \<and> swap_one rmp prev hp s = Some s')"
    using swap_try_elim [of "swap_order (outswap s)" s r s'] assms(2) unfolding swap_out_def swap_order_set by blast
  then show ?thesis using assms(1) swap_one_mem by blast
qed

text \<open>Allocation: the block it returns is real memory, was free, and is nobody's.\<close>

theorem alloc_mem_spec:
  assumes "mem_inv s" "clicks \<noteq> 0" "alloc_mem clicks s = Some (b, s')"
  shows "b = NO_MEM \<and> mem_inv s' \<or>
    b \<noteq> NO_MEM \<and> mem_hold (block (unat b) (unat clicks)) s' \<and> unat b + unat clicks < unat (swap_base s')"
  using assms
proof (induction clicks s rule: alloc_mem.induct)
  case (1 clicks s)
  obtain hs fs where h: "hole_inv s hs fs" and ok: "mem_ok (pmem_of s) (unat (swap_base s)) (free_clicks s hs)"
    and bl: "flags_ok s" and sb: "0 < unat (swap_base s)" and ig: "sigismember (ign_sset s) SIGCHLD = 1"
    using "1.prems"(1) unfolding mem_hold_def by auto
  let ?found = "case hole_head s of None \<Rightarrow> Some None
     | Some hp \<Rightarrow> find_hole (\<lambda>h. h_base h < swap_base s) (\<lambda>h. h_len h \<ge> clicks) (holes s) None hp"
  have ch: "chain (hnext s) (hole_head s) hs" using h unfolding hole_inv_def hole_links_def by simp
  have cases: "?found = Some None \<or> (\<exists>us x vs. hs = us @ x # vs \<and> ?found = Some (Some (if us = [] then None else Some (last us), x))
      \<and> h_base (holes s x) < swap_base s \<and> h_len (holes s x) \<ge> clicks)"
  proof (cases "hole_head s")
    case (Some h0)
    then show ?thesis using find_hole_spec [of "holes s" h0 hs "\<lambda>h. h_base h < swap_base s" "\<lambda>h. h_len h \<ge> clicks" None] ch by auto
  qed simp
  show ?case
  proof (cases "?found = Some None")
    case True
    obtain r s1 where o: "swap_out s = Some (r, s1)" and res: "if r then alloc_mem clicks s1 = Some (b, s') else b = NO_MEM \<and> s' = s1"
      using "1.prems"(3) True by (subst (asm) alloc_mem.simps) (auto split: option.splits if_splits prod.splits)
    have m1: "mem_inv s1" using swap_out_mem [OF "1.prems"(1) o] by blast
    show ?thesis
    proof (cases r)
      case False
      then show ?thesis using res m1 by simp
    next
      case t: True
      show ?thesis by (rule "1.IH" [OF True refl o refl t m1 "1.prems"(2)]) (use res t in simp)
    qed
  next
    case False
    then obtain us x vs where hs: "hs = us @ x # vs" and f: "?found = Some (Some (if us = [] then None else Some (last us), x))"
      and x: "h_base (holes s x) < swap_base s" "h_len (holes s x) \<ge> clicks" using cases by blast
    have b: "b = h_base (holes s x)" and bt: "bite (if us = [] then None else Some (last us)) x clicks s = Some s'"
      using "1.prems"(3) f by (subst (asm) alloc_mem.simps, auto)+
    obtain hs1 fs1 where s1: "hole_inv s' hs1 fs1" "holes_only s s'" "free_clicks s' hs1 = free_clicks s hs - block (unat b) (unat clicks)"
      using bite_spec [OF h hs "1.prems"(2) x(2), of "if us = [] then None else Some (last us)"] bt b by auto
    note t = holes_onlyD [OF s1(2)]
    have sph: "span_ok (hspan s x)" "block (fst (hspan s x)) (snd (hspan s x)) \<subseteq> free_clicks s hs"
      using span_of_free [OF h] hs by auto
    have sub: "block (unat b) (unat clicks) \<subseteq> free_clicks s hs"
      using sph(2) x(2) by (auto simp: block_def hspan_def word_le_nat_alt b)
    have gap: "unat (swap_base s) - 1 \<notin> free_clicks s hs" using ok unfolding mem_ok_def by blast
    then have "unat (swap_base s) - 1 \<notin> block (unat b) (unat (h_len (holes s x)))" using sph(2) by (auto simp: hspan_def b)
    then have "unat b + unat clicks < unat (swap_base s)"
      using x sb by (auto simp: block_def b word_less_nat_alt word_le_nat_alt)
    moreover have "b \<noteq> NO_MEM" using sph(1) by (auto simp: span_ok_def hspan_def b)
    moreover have "free_clicks s' hs1 \<union> block (unat b) (unat clicks) = free_clicks s hs" using s1(3) sub by blast
    moreover have "flags_ok s'" using bl flags_ok_tab [OF t(1)] by simp
    ultimately show ?thesis
      using s1(1,3) ok sb ig pmem_of_cong [OF t(1)] unfolding mem_hold_def t(2,8) by auto
  qed
qed

subsection \<open>Exit\<close>

definition dead :: "pmem \<Rightarrow> bool" where
  "dead p \<longleftrightarrow> \<not> pm_live p \<and> \<not> pm_sep p \<and> \<not> pm_swapped p"

lemma mem_ok_dead: "mem_ok v sb F \<Longrightarrow> \<not> pm_live (v n) \<Longrightarrow> dead p \<Longrightarrow> mem_ok (v(n := p)) sb F"
  unfolding mem_ok_def dead_def by auto

text \<open>The state between the release of a process' memory and the change of its flags.\<close>

definition mem_dying :: "int \<Rightarrow> mm \<Rightarrow> bool" where
  "mem_dying r s \<longleftrightarrow> (\<exists>hs fs. hole_inv s hs fs \<and> (\<forall>p. dead p \<longrightarrow> mem_ok ((pmem_of s)(r := p)) (unat (swap_base s)) (free_clicks s hs)))
     \<and> flags_ok s \<and> 0 < unat (swap_base s) \<and> sigismember (ign_sset s) SIGCHLD = 1"

text \<open>The same with clicks held back for the new image.\<close>

definition mem_dying_hold :: "nat set \<Rightarrow> int \<Rightarrow> mm \<Rightarrow> bool" where
  "mem_dying_hold B r s \<longleftrightarrow> (\<exists>hs fs. hole_inv s hs fs \<and> B \<inter> free_clicks s hs = {}
       \<and> (\<forall>p. dead p \<longrightarrow> mem_ok ((pmem_of s)(r := p)) (unat (swap_base s)) (free_clicks s hs \<union> B)))
     \<and> flags_ok s \<and> 0 < unat (swap_base s) \<and> sigismember (ign_sset s) SIGCHLD = 1"

lemma free_mem_Some_slots: "hole_inv s hs fs \<Longrightarrow> clicks \<noteq> 0 \<Longrightarrow> free_mem base clicks s = Some s' \<Longrightarrow> fs \<noteq> []"
  using free_mem_full [of s clicks base] unfolding hole_inv_def hole_links_def by auto

lemma find_share_None:
  "find_share r ino dev ct s = None \<longleftrightarrow> (\<forall>n \<in> set user_slots. n \<noteq> r \<longrightarrow> SEPARATE \<in> mflags s n \<longrightarrow>
     (mp_ino (mproctab s n), mp_dev (mproctab s n), mp_ctime (mproctab s n)) \<noteq> (ino, dev, ct))"
  unfolding find_share_def find_None_iff by auto

lemma free_text_spec:
  assumes h: "hole_inv s hs fs" and sp: "k \<noteq> 0 \<longrightarrow> span_ok (unat b, unat k)" and d: "block (unat b) (unat k) \<inter> free_clicks s hs = {}"
    and e: "free_mem b k s = Some s'"
  shows "\<exists>hs' fs'. hole_inv s' hs' fs' \<and> free_clicks s' hs' = free_clicks s hs \<union> block (unat b) (unat k) \<and> holes_only s s'"
proof (cases "k = 0")
  case True
  then have "s' = s" using e by (simp add: free_mem_def)
  then show ?thesis using h True by auto
next
  case False
  then have "span_ok (unat b, unat k)" using sp by blast
  then have "b \<noteq> 0" "unat b + unat k \<le> 2 ^ 32" by (auto simp: span_ok_def)
  then show ?thesis using free_mem_spec [OF h free_mem_Some_slots [OF h False e] False _ _ d] e by auto
qed

lemma exit_memory_hold:
  assumes inv: "mem_hold B s" and r: "r \<in> set user_slots" "live s r" and e: "exit_memory r s = Some s'"
  shows "mem_dying_hold B r s' \<and> holes_only s s'"
proof -
  obtain hs fs where h: "hole_inv s hs fs" and dB: "B \<inter> free_clicks s hs = {}"
    and ok: "mem_ok (pmem_of s) (unat (swap_base s)) (free_clicks s hs \<union> B)"
    and bl: "flags_ok s" and sb: "0 < unat (swap_base s)" and ig: "sigismember (ign_sset s) SIGCHLD = 1"
    using inv unfolding mem_hold_def by auto
  have own: "own_ok (unat (swap_base s)) (free_clicks s hs \<union> B) (pmem_of s r)" using mem_okD(1) [OF ok r(1)] r(2) by simp
  let ?p = "mproctab s r"
  let ?T = "block (unat (mem_phys (mseg s r SegT))) (unat (mem_len (mseg s r SegT)))"
  let ?D = "block (unat (mem_phys (mseg s r SegD))) (unat (image_clicks (mseg s r)))"
  obtain s1 where a: "(if find_share r (mp_ino ?p) (mp_dev ?p) (mp_ctime ?p) s = None
      then free_mem (mem_phys (mseg s r SegT)) (mem_len (mseg s r SegT)) s else Some s) = Some s1"
    and b: "free_mem (mem_phys (mseg s r SegD)) (image_clicks (mseg s r)) s1 = Some s'"
    using e unfolding exit_memory_def Let_def bind_eq_Some_conv by blast
  obtain T hs1 fs1 where t: "hole_inv s1 hs1 fs1" "free_clicks s1 hs1 = free_clicks s hs \<union> T" "holes_only s s1"
    "T = {} \<or> T = ?T \<and> find_share r (mp_ino ?p) (mp_dev ?p) (mp_ctime ?p) s = None"
  proof (cases "find_share r (mp_ino ?p) (mp_dev ?p) (mp_ctime ?p) s = None")
    case True
    then have "free_mem (mem_phys (mseg s r SegT)) (mem_len (mseg s r SegT)) s = Some s1" using a by simp
    moreover have "mem_len (mseg s r SegT) \<noteq> 0 \<longrightarrow> span_ok (unat (mem_phys (mseg s r SegT)), unat (mem_len (mseg s r SegT)))"
      using own unfolding own_ok_def by (auto simp: unat_eq_0)
    moreover have "?T \<inter> free_clicks s hs = {}" using own unfolding own_ok_def by auto
    ultimately show ?thesis using free_text_spec [OF h] True that [of _ _ ?T] by metis
  next
    case False
    have "s1 = s" using a unfolding if_not_P [OF False] by simp
    then show ?thesis using h that [of hs fs "{}"] by simp
  qed
  note t1 = holes_onlyD [OF t(3)]
  have dT: "?D \<inter> (free_clicks s hs \<union> T) = {}" using own t(4) unfolding own_ok_def by auto
  obtain hs2 fs2 where d: "hole_inv s' hs2 fs2" "free_clicks s' hs2 = free_clicks s hs \<union> T \<union> ?D" "holes_only s1 s'"
    using free_text_spec [OF t(1) _ _ b] own dT t(2) unfolding own_ok_def by auto
  have ho: "holes_only s s'" using t(3) d(3) holes_only_trans by blast
  note t2 = holes_onlyD [OF ho]
  have gap: "unat (swap_base s) - 1 \<notin> T"
    using t(4) own unfolding own_ok_def by (auto simp: block_def)
  have "mem_ok ((pmem_of s)(r := p)) (unat (swap_base s)) (free_clicks s hs \<union> B \<union> T \<union> ?D)" if "dead p" for p
  proof -
    have "T = {} \<or> T = text_of (pmem_of s r) \<and> (\<forall>m \<in> set user_slots. m \<noteq> r \<longrightarrow> pm_live (pmem_of s m) \<longrightarrow> \<not> shares (pmem_of s r) (pmem_of s m))"
      using t(4) unfolding find_share_None shares_def by auto
    from mem_ok_exit [OF ok r(1) _ gap sb this] that r(2) show ?thesis unfolding dead_def by simp
  qed
  moreover have "free_clicks s hs \<union> B \<union> T \<union> ?D = free_clicks s' hs2 \<union> B" using d(2) by blast
  ultimately have "\<forall>p. dead p \<longrightarrow> mem_ok ((pmem_of s')(r := p)) (unat (swap_base s')) (free_clicks s' hs2 \<union> B)"
    using pmem_of_cong [OF t2(1)] t2(2) by simp
  moreover have "B \<inter> free_clicks s' hs2 = {}" using dB own t(4) unfolding d(2) own_ok_def by auto
  ultimately show ?thesis using d(1) bl sb ig ho flags_ok_tab [OF t2(1)] t2(2,8) unfolding mem_dying_hold_def by auto
qed

lemma exit_memory_spec:
  assumes "mem_inv s" "r \<in> set user_slots" "live s r" "exit_memory r s = Some s'"
  shows "mem_dying r s' \<and> holes_only s s'"
  using exit_memory_hold [OF assms] unfolding mem_dying_hold_def mem_dying_def by simp

text \<open>A dead slot gets an image in clicks held back, with a text of its own, the text of another process
  that runs the same file, or none.\<close>

lemma mem_ok_enter:
  assumes ok: "mem_ok (v(r := q)) sb F0" and r: "r \<in> set user_slots" and F: "F \<subseteq> F0"
    and p: "pm_live p" "\<not> pm_swapped p" "span_ok (pm_data p)" "fst (pm_data p) + snd (pm_data p) < sb" "data_of p \<subseteq> F0" "data_of p \<inter> F = {}"
    and t: "snd (pm_text p) = 0
      \<or> span_ok (pm_text p) \<and> pm_sep p \<and> fst (pm_text p) + snd (pm_text p) < sb \<and> text_of p \<subseteq> F0 \<and> text_of p \<inter> F = {} \<and> text_of p \<inter> data_of p = {}
      \<or> (\<exists>n \<in> set user_slots. n \<noteq> r \<and> pm_live (v n) \<and> pm_text p = pm_text (v n) \<and> shares p (v n))"
  shows "mem_ok (v(r := p)) sb F"
proof -
  have oth: "own_ok sb F0 (v m)" if "m \<in> set user_slots" "m \<noteq> r" "pm_live (v m)" for m
    using mem_okD(1) [OF ok that(1)] that by simp
  have ap: "apart (v m) (v l)" if "m \<in> set user_slots" "l \<in> set user_slots" "m \<noteq> l" "m \<noteq> r" "l \<noteq> r" "pm_live (v m)" "pm_live (v l)" for m l
    using mem_okD(2) [OF ok that(1), of l] that by simp
  have own: "own_ok sb F p"
    using t
  proof (elim disjE)
    assume "\<exists>n \<in> set user_slots. n \<noteq> r \<and> pm_live (v n) \<and> pm_text p = pm_text (v n) \<and> shares p (v n)"
    then obtain n where n: "n \<in> set user_slots" "n \<noteq> r" "pm_live (v n)" "pm_text p = pm_text (v n)" "shares p (v n)" by blast
    note o = oth [OF n(1-3)]
    have "pm_sep p" using n(5) by (simp add: shares_def)
    then show ?thesis using o p F n(4) unfolding own_ok_def by auto
  qed (use p in \<open>auto simp: own_ok_def\<close>)
  have nd: "data_of p \<inter> data_of (v m) = {} \<and> data_of p \<inter> text_of (v m) = {}" if "m \<in> set user_slots" "m \<noteq> r" "pm_live (v m)" for m
    using oth [OF that] p(5) unfolding own_ok_def by blast
  have pm: "apart p (v m)" if m: "m \<in> set user_slots" "m \<noteq> r" "pm_live (v m)" for m
    using t
  proof (elim disjE)
    assume "snd (pm_text p) = 0"
    then show ?thesis using nd [OF m] by (simp add: apart_def)
  next
    assume "span_ok (pm_text p) \<and> pm_sep p \<and> fst (pm_text p) + snd (pm_text p) < sb \<and> text_of p \<subseteq> F0 \<and> text_of p \<inter> F = {} \<and> text_of p \<inter> data_of p = {}"
    then show ?thesis using nd [OF m] oth [OF m] unfolding own_ok_def apart_def by blast
  next
    assume "\<exists>n \<in> set user_slots. n \<noteq> r \<and> pm_live (v n) \<and> pm_text p = pm_text (v n) \<and> shares p (v n)"
    then obtain n where n: "n \<in> set user_slots" "n \<noteq> r" "pm_live (v n)" "pm_text p = pm_text (v n)" "shares p (v n)" by blast
    show ?thesis
    proof (cases "m = n")
      case True
      then show ?thesis using nd [OF m] oth [OF m] n(4,5) unfolding own_ok_def apart_def by auto
    next
      case False
      have "apart (v n) (v m)" using ap [OF n(1) m(1)] False n m by blast
      then show ?thesis using nd [OF m] n(4,5) unfolding apart_def shares_def by auto
    qed
  qed
  show ?thesis
    unfolding mem_ok_def
  proof (intro conjI ballI impI)
    show "sb - 1 \<notin> F" using ok F unfolding mem_ok_def by blast
  next
    fix m assume "m \<in> set user_slots" "pm_live ((v(r := p)) m)"
    then show "own_ok sb F ((v(r := p)) m)" using own own_ok_mono [OF oth F] by (cases "m = r") auto
  next
    fix m assume m: "m \<in> set user_slots" "pm_sep ((v(r := p)) m) \<or> pm_swapped ((v(r := p)) m)"
    have "pm_sep ((v(r := q)) m) \<or> pm_swapped ((v(r := q)) m) \<longrightarrow> pm_live ((v(r := q)) m)"
      using ok m(1) unfolding mem_ok_def by blast
    from this m(2) p(1) show "pm_live ((v(r := p)) m)" by (cases "m = r") auto
  next
    fix m l assume h: "m \<in> set user_slots" "l \<in> set user_slots" "m \<noteq> l" "pm_live ((v(r := p)) m)" "pm_live ((v(r := p)) l)"
    consider "m = r" | "l = r" "m \<noteq> r" | "m \<noteq> r" "l \<noteq> r" by blast
    then show "apart ((v(r := p)) m) ((v(r := p)) l)"
    proof cases
      case 1
      then show ?thesis using h pm [of l] by simp
    next
      case 2
      then show ?thesis using h pm [of m] apart_sym by simp
    next
      case 3
      then show ?thesis using h ap by simp
    qed
  qed
qed

definition dead_view :: "pmem \<Rightarrow> pmem" where
  "dead_view p = p\<lparr>pm_live := False, pm_sep := False, pm_swapped := False\<rparr>"

lemma dead_dead_view [simp]: "dead (dead_view p)"
  by (simp add: dead_def dead_view_def)

lemma pmem_of_kill:
  assumes "F \<inter> {SEPARATE, ONSWAP} = {}" "IN_USE \<notin> F \<or> ZOMBIE \<in> F"
  shows "pmem_of (upd_mp n (\<lambda>p. p\<lparr>mp_flags := F\<rparr>) s) = (pmem_of s)(n := dead_view (pmem_of s n))"
  using assms by (auto simp: fun_eq_iff pmem_of_def upd_mp_def live_def dead_view_def)

lemma pmem_of_core: "core_view s' = core_view s \<Longrightarrow> pmem_of s' = pmem_of s"
proof
  fix n assume c: "core_view s' = core_view s"
  note f = core_view_proc_fields(1-15) [OF c, of n]
  have "SEPARATE \<in> mflags s' n \<longleftrightarrow> SEPARATE \<in> mflags s n" "ONSWAP \<in> mflags s' n \<longleftrightarrow> ONSWAP \<in> mflags s n"
    using core_view_proc_fields(16) [OF c, of SEPARATE n] core_view_proc_fields(16) [OF c, of ONSWAP n] by simp_all
  then show "pmem_of s' n = pmem_of s n" unfolding pmem_of_def using f core_view_live [OF c, of n] by simp
qed

lemma cleanup_frame:
  assumes "cleanup c s = Some s'"
  shows "holes s' = holes s" "hole_head s' = hole_head s" "free_slots s' = free_slots s" "swap_base s' = swap_base s" "ign_sset s' = ign_sset s"
    "pmem_of s' = (pmem_of s)(c := dead_view (pmem_of s c))" "fewer_blocked s s'"
proof -
  note v = cleanup_core [OF assms]
  note f = core_view_fields [OF v]
  show "holes s' = holes s" "hole_head s' = hole_head s" "free_slots s' = free_slots s" "swap_base s' = swap_base s" "ign_sset s' = ign_sset s"
    using f by (simp_all add: upd_mp_def)
  have "pmem_of ((upd_mp c (\<lambda>p. p\<lparr>mp_flags := {}\<rparr>) s)\<lparr>procs_in_use := procs_in_use s - 1\<rparr>) = (pmem_of s)(c := dead_view (pmem_of s c))"
    using pmem_of_kill [of "{}" c s] pmem_of_cong [of "(upd_mp c (\<lambda>p. p\<lparr>mp_flags := {}\<rparr>) s)\<lparr>procs_in_use := procs_in_use s - 1\<rparr>" "upd_mp c (\<lambda>p. p\<lparr>mp_flags := {}\<rparr>) s"]
    by simp
  then show "pmem_of s' = (pmem_of s)(c := dead_view (pmem_of s c))" using pmem_of_core [OF v] by simp
  let ?e = "push_bit 8 (scast (mp_exitstatus (mproctab s c))) OR ucast (mp_sigstatus (mproctab s c)) :: u32"
  let ?s1 = "upd_mp (mp_parent (mproctab s c)) (\<lambda>p. p\<lparr>reply_res2 := ?e\<rparr>) s"
  obtain s2 where r: "setreply (mp_parent (mproctab s c)) (mp_pid (mproctab ?s1 c)) ?s1 = Some s2"
    and s': "(upd_mp c (\<lambda>p. p\<lparr>mp_flags := {}\<rparr>) (clear_flags {WAITING} (mp_parent (mproctab s c)) s2))
      \<lparr>procs_in_use := procs_in_use (upd_mp c (\<lambda>p. p\<lparr>mp_flags := {}\<rparr>) (clear_flags {WAITING} (mp_parent (mproctab s c)) s2)) - 1\<rparr> = s'"
    using assms unfolding cleanup_def Let_def bind_eq_Some_conv option.inject by (elim exE conjE) (rule that; assumption)
  let ?s3 = "clear_flags {WAITING} (mp_parent (mproctab s c)) s2"
  have "inert s ?s1" by simp
  then have "inert s s2" using inert_setreply [OF r] by (rule inert_trans)
  then have "inert s ?s3" by (rule inert_steps(12)) simp
  then have "fewer_blocked s ?s3" by (simp add: inert_def)
  moreover have "fewer_blocked ?s3 (upd_mp c (\<lambda>p. p\<lparr>mp_flags := {}\<rparr>) ?s3)" by (rule fewer_blocked_upd) simp_all
  moreover have "fewer_blocked (upd_mp c (\<lambda>p. p\<lparr>mp_flags := {}\<rparr>) ?s3) s'" by (rule fewer_blocked_same) (simp add: s' [symmetric])
  ultimately show "fewer_blocked s s'" using fewer_blocked_trans by blast
qed

lemma flags_ok_fewer: "fewer_blocked s s' \<Longrightarrow> flags_ok s \<Longrightarrow> flags_ok s'"
  by (rule fewer_flags_ok)

lemma cleanup_dying:
  assumes "mem_dying c s" "cleanup c s = Some s'"
  shows "mem_inv s'"
proof -
  note f = cleanup_frame [OF assms(2)]
  obtain hs fs where h: "hole_inv s hs fs" "\<forall>p. dead p \<longrightarrow> mem_ok ((pmem_of s)(c := p)) (unat (swap_base s)) (free_clicks s hs)"
    and m: "flags_ok s" "0 < unat (swap_base s)" "sigismember (ign_sset s) SIGCHLD = 1"
    using assms(1) unfolding mem_dying_def by blast
  have "mem_ok (pmem_of s') (unat (swap_base s')) (free_clicks s hs)" using h(2) unfolding f(4,6) by simp
  then show ?thesis using h(1) m f(4,5) flags_ok_fewer [OF f(7) m(1)] hole_inv_cong [OF f(1-3)] unfolding mem_hold_def by auto
qed

lemma zombie_dying:
  assumes "mem_dying c s"
  shows "mem_inv (upd_mp c (\<lambda>p. p\<lparr>mp_flags := {IN_USE, ZOMBIE}\<rparr>) s)"
proof -
  let ?s = "upd_mp c (\<lambda>p. p\<lparr>mp_flags := {IN_USE, ZOMBIE}\<rparr>) s"
  obtain hs fs where h: "hole_inv s hs fs" "\<forall>p. dead p \<longrightarrow> mem_ok ((pmem_of s)(c := p)) (unat (swap_base s)) (free_clicks s hs)"
    and m: "flags_ok s" "0 < unat (swap_base s)" "sigismember (ign_sset s) SIGCHLD = 1"
    using assms(1) unfolding mem_dying_def by blast
  have f: "holes ?s = holes s" "hole_head ?s = hole_head s" "free_slots ?s = free_slots s" "swap_base ?s = swap_base s" "ign_sset ?s = ign_sset s"
    by (simp_all add: upd_mp_def)
  have "fewer_blocked s ?s" by (rule fewer_blocked_upd) simp_all
  then have "flags_ok ?s" using m(1) flags_ok_fewer by blast
  moreover have "mem_ok (pmem_of ?s) (unat (swap_base ?s)) (free_clicks s hs)" using h(2) pmem_of_kill [of "{IN_USE, ZOMBIE}" c s] by (simp add: f)
  ultimately show ?thesis using h(1) m f(4,5) hole_inv_cong [OF f(1-3)] unfolding mem_hold_def by auto
qed

lemma cleanup_zombie:
  assumes "mem_inv s" "\<not> live s c" "cleanup c s = Some s'"
  shows "mem_inv s'"
proof -
  note f = cleanup_frame [OF assms(3)]
  obtain hs fs where h: "hole_inv s hs fs" "mem_ok (pmem_of s) (unat (swap_base s)) (free_clicks s hs)"
    and m: "flags_ok s" "0 < unat (swap_base s)" "sigismember (ign_sset s) SIGCHLD = 1"
    using assms(1) unfolding mem_hold_def by auto
  have "mem_ok (pmem_of s') (unat (swap_base s')) (free_clicks s hs)"
    using mem_ok_dead [OF h(2), of c] assms(2) unfolding f(4,6) by simp
  then show ?thesis using h(1) m f(4,5) flags_ok_fewer [OF f(7) m(1)] hole_inv_cong [OF f(1-3)] unfolding mem_hold_def by auto
qed

lemma mem_same_parent: "mem_same s (upd_mp n (\<lambda>p. p\<lparr>mp_parent := x\<rparr>) s)"
  by (rule mem_same_upd) simp_all

lemma disinherit_mem: "disinherit n rs s = Some s' \<Longrightarrow> mem_inv s \<Longrightarrow> mem_inv s'"
proof (induction rs arbitrary: s)
  case Nil
  then show ?case by simp
next
  case (Cons r rs)
  let ?s1 = "upd_mp r (\<lambda>p. p\<lparr>mp_parent := INIT_PROC_NR\<rparr>) s"
  obtain t where t: "disinherit_one n r s = Some t" "disinherit n rs t = Some s'"
    using Cons.prems(1) by (auto simp: bind_eq_Some_conv)
  have m1: "mem_inv ?s1" using mem_same_hold [OF mem_same_parent Cons.prems(2)] .
  have "t = s \<or> t = ?s1 \<or> ZOMBIE \<in> mflags ?s1 r \<and> cleanup r ?s1 = Some t"
    using t(1) unfolding disinherit_one_def Let_def by (auto split: if_splits)
  then have "mem_inv t" using m1 Cons.prems(2) cleanup_zombie [OF m1] by (auto simp: live_def)
  then show ?case using Cons.IH t(2) by blast
qed

end
