(* ===== verification/MM_Memory_Calls.thy ===== *)
theory MM_Memory_Calls
  imports MM_Memory
begin

text \<open>
  Every system call of the memory manager keeps the memory invariant \<open>mem_inv\<close>, for the caller a live
  user process: the signal code, fork, wait, brk, tracing, identities, swapping in and the replies of the
  main loop.
\<close>

subsection \<open>Signals and exit\<close>

lemma holes_only_tell: "holes_only s s' \<Longrightarrow> pmem_of s' = pmem_of s"
  using holes_onlyD(1) pmem_of_cong by blast

lemma mem_dying_exitstatus: "mem_dying r s \<Longrightarrow> mem_dying r (upd_mp n (\<lambda>p. p\<lparr>mp_exitstatus := x\<rparr>) s)"
proof -
  let ?s = "upd_mp n (\<lambda>p. p\<lparr>mp_exitstatus := x\<rparr>) s"
  assume d: "mem_dying r s"
  have m: "mem_same s ?s" by (rule mem_same_upd) simp_all
  then have "flags_ok ?s" using d fewer_flags_ok unfolding mem_dying_def mem_same_def by blast
  then show ?thesis using d m hole_inv_cong [of ?s s] unfolding mem_dying_def mem_same_def by simp
qed

lemma exit_first_mem:
  assumes "mem_inv s" "r \<in> set user_slots" "live s r" "exit_first r st s = Some s'"
  shows "mem_dying r s'"
proof -
  obtain s1 s3 where a: "s1 = s \<or> (\<exists>x. set_alarm r 0 s = Some (x, s1))"
    and b: "exit_memory r (tell (SysXit (mp_parent (mproctab s1 r)) r) (tell (TellFs FsExit r 0 0) s1)) = Some s3"
    and c: "s' = upd_mp r (\<lambda>p. p\<lparr>mp_exitstatus := word_of_int st\<rparr>) s3"
    using assms(4) by (auto simp: exit_first_def Let_def bind_eq_Some_conv split: if_splits)
  let ?s2 = "tell (SysXit (mp_parent (mproctab s1 r)) r) (tell (TellFs FsExit r 0 0) s1)"
  have "inert s s1" using a inert_set_alarm inert_refl by blast
  then have i: "inert s ?s2" by (intro inert_steps)
  then have "core_view ?s2 = core_view s" by (simp add: inert_def)
  then have "live ?s2 r" using core_view_live assms(3) by blast
  then have "mem_dying r s3" using exit_memory_spec [OF inert_mem_hold [OF i assms(1)] assms(2) _ b] by blast
  then show ?thesis unfolding c by (rule mem_dying_exitstatus)
qed

text \<open>What the cycle's functions must keep: for user processes, and for a parent that gets SIGCHLD.\<close>

definition keeps_mem :: "(int \<Rightarrow> int \<Rightarrow> mm \<Rightarrow> mm option) \<Rightarrow> bool" where
  "keeps_mem k \<longleftrightarrow> (\<forall>r g s s'. r \<in> set user_slots \<or> g = SIGCHLD \<longrightarrow> k r g s = Some s' \<longrightarrow> mem_inv s \<longrightarrow> mem_inv s')"

lemma keeps_memD: "keeps_mem k \<Longrightarrow> r \<in> set user_slots \<or> g = SIGCHLD \<Longrightarrow> k r g s = Some s' \<Longrightarrow> mem_inv s \<Longrightarrow> mem_inv s'"
  unfolding keeps_mem_def by blast

lemma exit_parent_mem: "keeps_mem k \<Longrightarrow> mem_dying r s \<Longrightarrow> exit_parent k r s = Some s' \<Longrightarrow> mem_inv s'"
  unfolding exit_parent_def Let_def
  by (split if_split_asm) (blast intro: cleanup_dying, blast intro: keeps_memD zombie_dying)

lemma check_sig_with_mem: "keeps_mem k \<Longrightarrow> check_sig_with k pid g s = Some (x, s') \<Longrightarrow> mem_inv s \<Longrightarrow> mem_inv s'"
  by (rule check_sig_with_preserves [where P = mem_inv and sigp = k]) (blast intro: keeps_memD)+

lemma exit_last_mem:
  assumes "keeps_mem k" "mem_inv s" "exit_last k r g s = Some s'"
  shows "mem_inv s'"
proof -
  obtain s6 where d: "disinherit r all_slots s = Some s6"
    and f: "s' = s6 \<or> (\<exists>x. check_sig_with k (- g) SIGHUP s6 = Some (x, s'))"
    using assms(3) by (auto simp: exit_last_def bind_eq_Some_conv split: if_splits)
  have "mem_inv s6" using disinherit_mem [OF d assms(2)] .
  then show ?thesis using f check_sig_with_mem [OF assms(1)] by blast
qed

lemma mm_exit_with_mem:
  assumes "keeps_mem k" "mem_inv s" "r \<in> set user_slots" "live s r" "mm_exit_with k r st s = Some s'"
  shows "mem_inv s'"
proof -
  obtain s4 s5 where e: "exit_first r st s = Some s4" "exit_parent k r s4 = Some s5" "exit_last k r (exit_group r s) s5 = Some s'"
    using assms(5) unfolding mm_exit_parts bind_eq_Some_conv by blast
  show ?thesis using exit_last_mem [OF assms(1) exit_parent_mem [OF assms(1) exit_first_mem [OF assms(2-4) e(1)] e(2)] e(3)] .
qed

lemma mem_hold_ign: "mem_hold B s \<Longrightarrow> sigismember (ign_sset s) SIGCHLD = 1"
  by (simp add: mem_hold_def)

definition exits_ok :: "(int \<Rightarrow> int \<Rightarrow> mm \<Rightarrow> mm option) \<Rightarrow> bool" where
  "exits_ok k \<longleftrightarrow> (\<forall>r st t t'. r \<in> set user_slots \<longrightarrow> live t r \<longrightarrow> mem_inv t \<longrightarrow> k r st t = Some t' \<longrightarrow> mem_inv t')"

lemma exits_okD: "exits_ok k \<Longrightarrow> r \<in> set user_slots \<Longrightarrow> live t r \<Longrightarrow> mem_inv t \<Longrightarrow> k r st t = Some t' \<Longrightarrow> mem_inv t'"
  unfolding exits_ok_def by blast

lemma sig_terminate_mem:
  assumes k: "exits_ok k"
    and g: "r \<in> set user_slots \<or> g = SIGCHLD" and l: "live s r" and m: "mem_inv s" and e: "sig_terminate k r g s = Some s'"
  shows "mem_inv s'"
proof (cases "g = SIGCHLD")
  case True
  then have "s' = s" using e mem_hold_ign [OF m] by (simp add: sig_terminate_def)
  then show ?thesis using m by simp
next
  case False
  then have u: "r \<in> set user_slots" using g by blast
  let ?s1 = "upd_mp r (\<lambda>p. p\<lparr>mp_sigstatus := word_of_int g\<rparr>) s"
  have i1: "inert s ?s1" by simp
  have l1: "live_set t = live_set s \<Longrightarrow> live t r" for t using l live_set_iff by blast
  from e show ?thesis
  proof (cases rule: sig_terminate_cases)
    case 1
    then show ?thesis using m by simp
  next
    case 2
    have "inert ?s1 s'" by (rule inert_trans [OF inert_pend inert_swap_inqueue [OF _ 2(2)]]) (use 2(1) in \<open>simp add: pend_def upd_mp_def\<close>)
    then show ?thesis using inert_mem_hold i1 m by blast
  next
    case 3
    have "mem_same s (dump_core r (tell (TellFs FsChdir r 0 0) ?s1))"
      using mem_same_dump_core mem_same_trans inert_same i1 mem_same_tell by blast
    then have "mem_inv (dump_core r (tell (TellFs FsChdir r 0 0) ?s1))" using mem_same_hold m by blast
    then show ?thesis by (intro exits_okD [OF k u l1 _ 3]) simp
  next
    case 4
    have "mem_inv ?s1" using inert_mem_hold i1 m by blast
    then show ?thesis by (intro exits_okD [OF k u l1 _ 4]) simp
  qed
qed

lemma sig_catch_mem:
  assumes k: "exits_ok k"
    and g: "r \<in> set user_slots \<or> g = SIGCHLD" and l: "live s r" and m: "mem_inv s" and e: "sig_catch k r g s = Some s'"
  shows "mem_inv s'"
  using e
proof (cases rule: sig_catch_cases)
  case 1
  have "inert s s'" by (rule inert_trans [OF inert_pend inert_swap_inqueue [OF _ 1(2)]]) (use 1(1) in \<open>simp add: pend_def upd_mp_def\<close>)
  then show ?thesis using inert_mem_hold m by blast
next
  case (2 n sp)
  let ?t = "snd (adjust r n sp (tell (SysGetsp r) s))"
  have "mem_same s ?t" using mem_same_adjust mem_same_tell mem_same_trans by blast
  then have "mem_inv ?t" using mem_same_hold m by blast
  moreover have "live ?t r" using l by (simp add: live_set_iff [symmetric])
  ultimately show ?thesis using sig_terminate_mem [OF k g _ _ 2(3)] by blast
next
  case (3 n sp sm)
  let ?t = "snd (adjust r n sp (tell (SysGetsp r) s))"
  have "mem_same s (upd_mp r (catch_masks g) ?t)"
    by (rule mem_same_trans [OF mem_same_trans [OF mem_same_tell mem_same_adjust] mem_same_catch])
  then have "mem_inv (upd_mp r (catch_masks g) ?t)" using mem_same_hold m by blast
  moreover have "inert (upd_mp r (catch_masks g) ?t) s'"
    by (rule inert_trans [OF _ inert_unpause [OF 3(3)]]) (intro inert_steps inert_refl)
  ultimately show ?thesis using inert_mem_hold by blast
qed

lemma sig_proc_with_mem:
  assumes k: "exits_ok k"
    and g: "r \<in> set user_slots \<or> g = SIGCHLD" and m: "mem_inv s" and e: "sig_proc_with k r g s = Some s'"
  shows "mem_inv s'"
  using e
proof (cases rule: sig_proc_with_cases)
  case (1 s1)
  have i: "inert s s1" by (rule inert_unpause [OF 1(2)])
  then have "live s1 r" using core_view_live [of s1 s r] 1(1) by (simp add: inert_def)
  then have "inert s s'" using inert_trans [OF i inert_stop_proc [OF _ 1(3)]] by blast
  then show ?thesis using inert_mem_hold m by blast
next
  case 2
  then show ?thesis using m by simp
next
  case 3
  then show ?thesis using m inert_mem_hold [OF inert_pend] by blast
next
  case 4
  then show ?thesis using sig_catch_mem [OF k g 4(1) m 4(3)] by blast
next
  case 5
  then show ?thesis using sig_terminate_mem [OF k g 5(1) m 5(2)] by blast
qed

lemma sig_proc_fuel_mem: "keeps_mem (sig_proc_fuel n)"
proof (induction n)
  case 0
  then show ?case by (simp add: keeps_mem_def)
next
  case (Suc n)
  show ?case unfolding keeps_mem_def sig_proc_fuel.simps
    using sig_proc_with_mem [of "mm_exit_with (sig_proc_fuel n)"] mm_exit_with_mem [OF Suc] unfolding exits_ok_def by blast
qed

lemma sig_proc_mem: "r \<in> set user_slots \<Longrightarrow> sig_proc r g s = Some s' \<Longrightarrow> mem_inv s \<Longrightarrow> mem_inv s'"
  using keeps_memD [OF sig_proc_fuel_mem] unfolding sig_proc_def by blast

lemma mm_exit_mem: "mem_inv s \<Longrightarrow> r \<in> set user_slots \<Longrightarrow> live s r \<Longrightarrow> mm_exit r st s = Some s' \<Longrightarrow> mem_inv s'"
  using mm_exit_with_mem [OF sig_proc_fuel_mem] unfolding mm_exit_def sig_proc_def by blast

lemma check_sig_mem: "check_sig pid g s = Some (x, s') \<Longrightarrow> mem_inv s \<Longrightarrow> mem_inv s'"
  using check_sig_with_mem [OF sig_proc_fuel_mem] unfolding check_sig_def sig_proc_def by blast

lemma check_pending_mem:
  assumes "r \<in> set user_slots" "check_pending r s = Some s'" "mem_inv s"
  shows "mem_inv s'"
proof -
  have "s' = s \<or> (\<exists>i. sig_proc r i (upd_mp r (\<lambda>p. p\<lparr>mp_sigpending := sigdelset (mp_sigpending p) i\<rparr>) s) = Some s')"
    using assms(2) unfolding check_pending_def by (auto split: option.splits)
  then show ?thesis
  proof
    assume "\<exists>i. sig_proc r i (upd_mp r (\<lambda>p. p\<lparr>mp_sigpending := sigdelset (mp_sigpending p) i\<rparr>) s) = Some s'"
    then obtain i where e: "sig_proc r i (upd_mp r (\<lambda>p. p\<lparr>mp_sigpending := sigdelset (mp_sigpending p) i\<rparr>) s) = Some s'" by blast
    show ?thesis by (rule sig_proc_mem [OF assms(1) e inert_mem_hold [OF inert_fields(2) assms(3)]])
  qed (use assms(3) in simp)
qed

subsection \<open>Small updates\<close>

lemma mem_same_upd_flags:
  assumes "\<And>p x. x \<in> {IN_USE, ZOMBIE, SEPARATE, ONSWAP} \<Longrightarrow> x \<in> mp_flags (f p) \<longleftrightarrow> x \<in> mp_flags p" "fewer_blocked s (upd_mp n f s)"
    "\<And>p. mp_seg (f p) = mp_seg p \<and> mp_ino (f p) = mp_ino p \<and> mp_dev (f p) = mp_dev p \<and> mp_ctime (f p) = mp_ctime p"
  shows "mem_same s (upd_mp n f s)"
proof -
  have "pmem_of (upd_mp n f s) m = pmem_of s m" for m
    using assms(3) [of "mproctab s m"] assms(1) [of IN_USE "mproctab s m"] assms(1) [of ZOMBIE "mproctab s m"]
      assms(1) [of SEPARATE "mproctab s m"] assms(1) [of ONSWAP "mproctab s m"]
    by (cases "m = n") (simp_all add: pmem_of_def upd_mp_def live_def)
  then have "pmem_of (upd_mp n f s) = pmem_of s" by blast
  then show ?thesis using assms(2) unfolding mem_same_def by (simp add: upd_mp_def)
qed

lemma mem_same_flags:
  "F \<inter> ({IN_USE, ZOMBIE, SEPARATE, ONSWAP, SWAPIN, STOPPED} \<union> blocked_flags) = {} \<Longrightarrow> mem_same s (set_flags F n s)"
  "F \<inter> {IN_USE, ZOMBIE, SEPARATE, ONSWAP} = {} \<Longrightarrow> mem_same s (clear_flags F n s)"
proof -
  assume F: "F \<inter> ({IN_USE, ZOMBIE, SEPARATE, ONSWAP, SWAPIN, STOPPED} \<union> blocked_flags) = {}"
  have "fewer_blocked s (set_flags F n s)" by (rule fewer_blocked_flags) (use F in blast)
  then show "mem_same s (set_flags F n s)"
    unfolding set_flags_def by (intro mem_same_upd_flags) (use F in auto)
next
  assume F: "F \<inter> {IN_USE, ZOMBIE, SEPARATE, ONSWAP} = {}"
  have "fewer_blocked s (clear_flags F n s)" by (rule fewer_blocked_flags) (use F in blast)
  then show "mem_same s (clear_flags F n s)"
    unfolding clear_flags_def by (intro mem_same_upd_flags) (use F in auto)
qed

lemma mem_same_id:
  assumes "\<And>p. mp_flags (f p) = mp_flags p" "\<And>p. mp_seg (f p) = mp_seg p \<and> mp_ino (f p) = mp_ino p \<and> mp_dev (f p) = mp_dev p \<and> mp_ctime (f p) = mp_ctime p"
  shows "mem_same s (upd_mp n f s)"
  by (rule mem_same_upd) (simp_all only: assms simp_thms)

lemma mem_same_then_tell: "mem_same s t \<Longrightarrow> mem_same s (tell q t)"
  using mem_same_trans mem_same_tell by blast

lemma mem_same_state:
  assumes "mproctab s' = mproctab s" "holes s' = holes s" "hole_head s' = hole_head s" "free_slots s' = free_slots s"
    "swap_base s' = swap_base s" "ign_sset s' = ign_sset s"
  shows "mem_same s s'"
  using assms pmem_of_cong [OF assms(1)] fewer_blocked_same [OF assms(1)] unfolding mem_same_def by simp

text \<open>A live process blocks.\<close>

lemma block_mem:
  assumes "mem_inv s" "live s n" "\<And>p. mp_flags (f p) = mp_flags p \<union> F" "F \<subseteq> blocked_flags"
    "\<And>p. mp_seg (f p) = mp_seg p \<and> mp_ino (f p) = mp_ino p \<and> mp_dev (f p) = mp_dev p \<and> mp_ctime (f p) = mp_ctime p"
  shows "mem_inv (upd_mp n f s)"
proof -
  let ?s = "upd_mp n f s"
  have e: "(x \<in> mflags ?s m) = (x \<in> mflags s m)" if "x \<in> {IN_USE, ZOMBIE, SEPARATE, ONSWAP, SWAPIN}" for x m
    using assms(3,4) that by (auto simp: upd_mp_def)
  have lv: "live ?s m = live s m" for m unfolding live_def using e [of IN_USE m] e [of ZOMBIE m] by simp
  have "flags_ok ?s"
  proof -
    have fo: "flags_ok s" using assms(1) by (simp add: mem_hold_def)
    have bl: "mflags ?s m \<inter> {PAUSED, WAITING, SIGSUSPENDED, STOPPED} \<noteq> {} \<Longrightarrow> m = n \<or> mflags s m \<inter> {PAUSED, WAITING, SIGSUSPENDED, STOPPED} \<noteq> {}" for m
      by (auto simp: upd_mp_def split: if_splits)
    show ?thesis
      unfolding flags_ok_def
    proof (intro allI conjI impI)
      fix m assume "m \<in> set user_slots" "mflags ?s m \<inter> {PAUSED, WAITING, SIGSUSPENDED, STOPPED} \<noteq> {}"
      then show "live ?s m" using bl fo assms(2) lv unfolding flags_ok_def by metis
    next
      fix m assume "SWAPIN \<in> mflags ?s m"
      then show "ONSWAP \<in> mflags ?s m" using e [of SWAPIN m] e [of ONSWAP m] fo unfolding flags_ok_def by simp
    next
      fix m assume "ONSWAP \<in> mflags ?s m"
      then show "m \<in> set user_slots" using e [of ONSWAP m] fo unfolding flags_ok_def by simp
    qed
  qed
  moreover have "pmem_of ?s = pmem_of s"
  proof
    fix m show "pmem_of ?s m = pmem_of s m"
      unfolding pmem_of_def lv e [of SEPARATE, simplified] e [of ONSWAP, simplified] using assms(5) by (simp add: upd_mp_def)
  qed
  ultimately show ?thesis by (intro mem_holdI [OF assms(1)]) (simp_all add: upd_mp_def)
qed

lemma mem_keep: "mem_inv s \<Longrightarrow> mem_same s s' \<Longrightarrow> mem_inv s'"
  by (rule mem_same_hold)

lemma mem_inert: "mem_inv s \<Longrightarrow> inert s s' \<Longrightarrow> mem_inv s'"
  by (rule inert_mem_hold)

subsection \<open>The calls\<close>

lemma do_brk_mem: "mem_inv s \<Longrightarrow> do_brk a s = (r, s') \<Longrightarrow> mem_inv s'"
proof -
  assume m: "mem_inv s" and e: "do_brk a s = (r, s')"
  have "inert s s' \<or> (\<exists>k sp x. s' = upd_mp (mp s) (\<lambda>p. p\<lparr>reply_ptr := x\<rparr>) (snd (adjust (mp s) k sp (tell (SysGetsp (who s)) s))))"
    using e unfolding do_brk_def Let_def ask_def by (auto split: if_splits prod.splits) (metis snd_conv)+
  then show ?thesis
  proof
    assume "\<exists>k sp x. s' = upd_mp (mp s) (\<lambda>p. p\<lparr>reply_ptr := x\<rparr>) (snd (adjust (mp s) k sp (tell (SysGetsp (who s)) s)))"
    then obtain k sp x where s': "s' = upd_mp (mp s) (\<lambda>p. p\<lparr>reply_ptr := x\<rparr>) (snd (adjust (mp s) k sp (tell (SysGetsp (who s)) s)))" by blast
    have "mem_same s s'" unfolding s'
      by (rule mem_same_trans [OF mem_same_trans [OF mem_same_tell mem_same_adjust] inert_same [OF inert_fields(6)]])
    then show ?thesis using m mem_keep by blast
  qed (use m mem_inert in blast)
qed

lemma do_getset_mem: "mem_inv s \<Longrightarrow> mem_inv (snd (do_getset g s))"
proof (rule mem_keep)
  show "mem_same s (snd (do_getset g s))"
    by (cases g) (auto simp: do_getset_def Let_def intro!: mem_same_then_tell mem_same_id)
qed

lemma do_waitpid_mem:
  assumes m: "mem_inv s" and l: "live s (mp s)" and e: "do_waitpid pid opt s = Some (r, s')"
  shows "mem_inv s'"
proof -
  have loop: "mem_inv t'" if "wait_loop p ns c t = Some (Inl (x, t'))" "mem_inv t" for p ns c t x t'
    using that
  proof (induction p ns c t rule: wait_loop.induct)
    case (2 p rp rest c t)
    let ?t1 = "upd_mp (mp t) (\<lambda>q. q\<lparr>reply_res2 := 0x7F OR push_bit 8 (scast (mp_sigstatus (mproctab t rp)))\<rparr>) t"
    consider "\<not> wait_match p rp t" | "wait_match p rp t" "ZOMBIE \<in> mflags t rp"
      | "wait_match p rp t" "ZOMBIE \<notin> mflags t rp" "STOPPED \<in> mflags t rp \<and> mp_sigstatus (mproctab t rp) \<noteq> 0"
      | "wait_match p rp t" "ZOMBIE \<notin> mflags t rp" "\<not> (STOPPED \<in> mflags t rp \<and> mp_sigstatus (mproctab t rp) \<noteq> 0)" by blast
    then show ?case
    proof cases
      case 1
      then show ?thesis using "2.IH"(1) "2.prems" by simp
    next
      case 2
      then have "\<not> live t rp" by (simp add: live_def)
      then show ?thesis using 2 "2.prems" cleanup_zombie by auto
    next
      case 3
      then have "t' = upd_mp rp (\<lambda>q. q\<lparr>mp_sigstatus := 0\<rparr>) ?t1" using "2.prems"(1) by (simp add: Let_def)
      then have "inert t t'" by (simp add: inert_steps)
      then show ?thesis using "2.prems"(2) mem_inert by blast
    next
      case 4
      then show ?thesis using "2.IH"(2) "2.prems" by auto
    qed
  qed simp
  let ?p = "if pid = 0 then - mp_procgrp (mproctab s (mp s)) else pid"
  obtain w where w: "wait_loop ?p all_slots 0 s = Some w" using e unfolding do_waitpid_def Let_def by (auto simp: bind_eq_Some_conv)
  show ?thesis
  proof (cases w)
    case (Inl d)
    then have "wait_loop ?p all_slots 0 s = Some (Inl (r, s'))" using e w unfolding do_waitpid_def Let_def by simp
    then show ?thesis using loop m by blast
  next
    case (Inr c)
    then have "s' = s \<or> s' = upd_mp (mp s) (\<lambda>p. p\<lparr>mp_flags := mp_flags p \<union> {WAITING}, mp_wpid := ?p\<rparr>) s"
      using e w unfolding do_waitpid_def Let_def by (simp split: if_split_asm)
    then show ?thesis using m block_mem [OF m l, of "\<lambda>p. p\<lparr>mp_flags := mp_flags p \<union> {WAITING}, mp_wpid := ?p\<rparr>" "{WAITING}"] by auto
  qed
qed

lemma do_pause_mem: "mem_inv s \<Longrightarrow> live s (mp s) \<Longrightarrow> mem_inv (snd (do_pause s))"
  unfolding do_pause_def set_flags_def by (simp add: block_mem [where F = "{PAUSED}"])

lemma do_sigaction_mem: "mem_inv s \<Longrightarrow> mem_inv (snd (do_sigaction sig osa nsa ret s))"
proof (rule mem_keep)
  have sa: "mem_same t (upd_mp n (set_action g v r) t)" for t n g v r
    by (rule mem_same_id) (simp_all add: set_action_def Let_def)
  show "mem_same s (snd (do_sigaction sig osa nsa ret s))"
    unfolding do_sigaction_def Let_def ask_def
    by (auto intro!: mem_same_then_tell intro: mem_same_trans [OF mem_same_tell sa] mem_same_trans [OF mem_same_then_tell [OF mem_same_tell] sa])
qed

lemma mask_mem: "mem_same s (upd_mp n (\<lambda>p. p\<lparr>mp_sigmask := f p\<rparr>) s)" "mem_same s (upd_mp n (\<lambda>p. p\<lparr>mp_sigmask2 := f p\<rparr>) s)"
  by (rule mem_same_id; simp)+

lemma do_sigprocmask_mem:
  assumes m: "mem_inv s" and u: "mp s \<in> set user_slots" and e: "do_sigprocmask how ss s = Some (r, s')"
  shows "mem_inv s'"
proof -
  let ?s1 = "upd_mp (mp s) (\<lambda>p. p\<lparr>reply_mask := mp_sigmask p\<rparr>) s"
  have m1: "mem_inv ?s1" by (rule mem_inert [OF m]) simp
  have m2: "mem_inv (upd_mp (mp s) (\<lambda>p. p\<lparr>mp_sigmask := f p\<rparr>) ?s1)" for f by (rule mem_keep [OF m1 mask_mem(1)])
  have "s' = ?s1 \<or> (\<exists>f. s' = upd_mp (mp s) (\<lambda>p. p\<lparr>mp_sigmask := f p\<rparr>) ?s1)
      \<or> (\<exists>f. check_pending (mp s) (upd_mp (mp s) (\<lambda>p. p\<lparr>mp_sigmask := f p\<rparr>) ?s1) = Some s')"
    using e unfolding do_sigprocmask_def Let_def by (auto split: if_split_asm)
  then show ?thesis using m1 m2 check_pending_mem [OF u] by blast
qed

lemma do_sigsuspend_mem:
  assumes m: "mem_inv s" and u: "mp s \<in> set user_slots" "live s (mp s)" and e: "do_sigsuspend ss s = Some (r, s')"
  shows "mem_inv s'"
proof -
  let ?s2 = "upd_mp (mp s) (\<lambda>p. p\<lparr>mp_sigmask := sigdelset ss SIGKILL\<rparr>) (upd_mp (mp s) (\<lambda>p. p\<lparr>mp_sigmask2 := mp_sigmask p\<rparr>) s)"
  have k: "mem_same s ?s2" by (rule mem_same_trans [OF mask_mem(2) mask_mem(1)])
  have "live ?s2 (mp s)" using u(2) by (simp add: live_def upd_mp_def)
  then have "mem_inv (set_flags {SIGSUSPENDED} (mp s) ?s2)"
    unfolding set_flags_def by (intro block_mem [OF mem_keep [OF m k], where F = "{SIGSUSPENDED}"]) simp_all
  then show ?thesis using e check_pending_mem [OF u(1)] unfolding do_sigsuspend_def Let_def by auto
qed

lemma mm_do_sigreturn_mem:
  assumes m: "mem_inv s" and u: "mp s \<in> set user_slots" and e: "mm_do_sigreturn ss ctx s = Some (r, s')"
  shows "mem_inv s'"
proof -
  let ?s1 = "upd_mp (mp s) (\<lambda>p. p\<lparr>mp_sigmask := sigdelset ss SIGKILL\<rparr>) s"
  have "mem_inv (tell q ?s1)" for q by (rule mem_keep [OF m mem_same_then_tell [OF mask_mem(1)]])
  moreover have "mp (tell q ?s1) = mp s" for q by (simp add: tell_def upd_mp_def)
  ultimately show ?thesis using e check_pending_mem u unfolding mm_do_sigreturn_def Let_def ask_def by auto
qed

lemma findproc_user: "findproc pid s = Some n \<Longrightarrow> n \<in> set user_slots"
  unfolding findproc_def find_Some_iff by (auto simp: nth_mem) (metis mem_slots(1) nth_mem)+

lemma stopped_trace_mem:
  assumes m: "mem_inv s" and u: "c \<in> set user_slots" and e: "sig_proc c g (clear_flags {TRACED} c s) = Some s1"
  shows "mem_inv (set_flags {TRACED} c s1)"
proof -
  have "mem_inv (clear_flags {TRACED} c s)" by (rule mem_keep [OF m mem_same_flags(2)]) simp
  then have "mem_inv s1" using sig_proc_mem [OF u e] by blast
  then show ?thesis by (rule mem_keep [OF _ mem_same_flags(1)]) simp
qed

lemma trace_ok_mem: "mem_same t (upd_mp n (\<lambda>p. p\<lparr>mp_flags := mp_flags p \<union> {TRACED}, reply_l2 := 0\<rparr>) t)"
proof (rule mem_same_upd_flags)
  show "fewer_blocked t (upd_mp n (\<lambda>p. p\<lparr>mp_flags := mp_flags p \<union> {TRACED}, reply_l2 := 0\<rparr>) t)"
    by (rule fewer_blocked_upd) auto
qed auto

text \<open>The cases of \<^verbatim>\<open>do_trace()\<close>.\<close>

lemma mm_do_trace_cases:
  assumes "mm_do_trace en req pid a d s = Some (r, s')"
  obtains "s' = s" | "s' = upd_mp (mp s) (\<lambda>p. p\<lparr>mp_flags := mp_flags p \<union> {TRACED}, reply_l2 := 0\<rparr>) s"
  | c s1 where "findproc pid s = Some c" "STOPPED \<in> mflags s c" "mm_exit c d s = Some s1" "s' = upd_mp (mp s1) (\<lambda>p. p\<lparr>reply_l2 := 0\<rparr>) s1"
  | c s1 q where "findproc pid s = Some c" "STOPPED \<in> mflags s c" "s1 = s \<or> trace_resume c d s = Some s1"
      "s' = tell q s1 \<or> (\<exists>x. s' = upd_mp (mp (tell q s1)) (\<lambda>p. p\<lparr>reply_l2 := x\<rparr>) (tell q s1))"
proof (cases "req = T_OK")
  case True
  then show ?thesis using assms that(2) by (simp add: mm_do_trace_def)
next
  case ok: False
  show ?thesis
  proof (cases "\<exists>c. findproc pid s = Some c \<and> STOPPED \<in> mflags s c")
    case False
    then have "Some (ESRCH, s) = Some (r, s')" using assms ok by (auto simp: mm_do_trace_def split: option.splits)
    then show ?thesis using that(1) by simp
  next
    case True
    then obtain c where c: "findproc pid s = Some c" "STOPPED \<in> mflags s c" by blast
    show ?thesis
    proof (cases "req = T_EXIT")
      case True
      then show ?thesis using assms ok c that(3) by (auto simp: mm_do_trace_def)
    next
      case ex: False
      show ?thesis
      proof (cases "(req = T_RESUME \<or> req = T_STEP) \<and> (d < 0 \<or> d > NSIG)")
        case True
        then have "Some (EIO, s) = Some (r, s')" using assms ok c ex by (simp add: mm_do_trace_def)
        then show ?thesis using that(1) by simp
      next
        case nio: False
        have "map_option (trace_kernel en req c a d) (if req = T_RESUME \<or> req = T_STEP then trace_resume c d s else Some s) = Some (r, s')"
          using assms unfolding mm_do_trace_def if_not_P [OF ok] c(1) option.case if_not_P [OF nio] if_not_P [OF ex]
          using c(2) by simp
        then obtain s1 where s1: "(if req = T_RESUME \<or> req = T_STEP then trace_resume c d s else Some s) = Some s1"
          and r: "trace_kernel en req c a d s1 = (r, s')" by blast
        have "s1 = s \<or> trace_resume c d s = Some s1" using s1 by (simp split: if_split_asm)
        moreover have "s' = tell (SysTrace req c a (word_of_int d)) s1
            \<or> (\<exists>x. s' = upd_mp (mp (tell (SysTrace req c a (word_of_int d)) s1)) (\<lambda>p. p\<lparr>reply_l2 := x\<rparr>) (tell (SysTrace req c a (word_of_int d)) s1))"
          using r unfolding trace_kernel_def ask_def Let_def by (auto split: if_split_asm)
        ultimately show ?thesis using that(4) [OF c] by blast
      qed
    qed
  qed
qed

lemma trace_resume_mem:
  assumes m: "mem_inv s" and u: "c \<in> set user_slots" and e: "trace_resume c d s = Some s'"
  shows "mem_inv s'"
proof -
  have st: "mem_inv t \<Longrightarrow> mem_inv (clear_flags {STOPPED} c t)" for t by (rule mem_keep [OF _ mem_same_flags(2)]) simp_all
  have "s' = clear_flags {STOPPED} c s \<or> (\<exists>s0. sig_proc c d (clear_flags {TRACED} c s) = Some s0 \<and> s' = clear_flags {STOPPED} c (set_flags {TRACED} c s0))"
    using e unfolding trace_resume_def by (auto split: if_split_asm)
  then show ?thesis using m st stopped_trace_mem [OF m u] by blast
qed

lemma mm_do_trace_mem:
  assumes m: "mem_inv s" and e: "mm_do_trace en req pid a d s = Some (r, s')"
  shows "mem_inv s'"
  using e
proof (cases rule: mm_do_trace_cases)
  case 1
  then show ?thesis using m by simp
next
  case 2
  then show ?thesis using mem_keep [OF m trace_ok_mem] by simp
next
  case (3 c s1)
  have u: "c \<in> set user_slots" using findproc_user [OF 3(1)] .
  then have "live s c" using m 3(2) unfolding mem_hold_def flags_ok_def by blast
  then have "mem_inv s1" using mm_exit_mem [OF m u _ 3(3)] by blast
  then show ?thesis unfolding 3(4) by (rule mem_inert) simp
next
  case (4 c s1 q)
  have "mem_inv s1" using 4(3) m trace_resume_mem [OF m findproc_user [OF 4(1)], of d s1] by auto
  then have "mem_inv (tell q s1)" by (rule mem_inert) simp
  then have i: "mem_inv (upd_mp (mp (tell q s1)) (\<lambda>p. p\<lparr>reply_l2 := x\<rparr>) (tell q s1))" for x
    by (rule mem_inert) simp
  show ?thesis using 4(4) i \<open>mem_inv (tell q s1)\<close> by (elim disjE exE) simp_all
qed

lemma ksig_one_mem:
  assumes m: "mem_inv s" and e: "ksig_one n pid i s = Some s'"
  shows "mem_inv s'"
proof (cases "i = SIGALRM \<and> ALARM_ON \<notin> mflags s n")
  case True
  then show ?thesis using e m by (simp add: ksig_one_def)
next
  case False
  let ?s1 = "if i = SIGALRM then clear_flags {ALARM_ON} n s else s"
  let ?d = "if i = SIGINT \<or> i = SIGQUIT then 0 else if i = SIGKILL then -1 else pid"
  have "map_option (\<lambda>(r, s2). tell (SysEndsig n) s2) (check_sig ?d i ?s1) = Some s'"
    using e unfolding ksig_one_def if_not_P [OF False] Let_def .
  then obtain r s2 where r: "check_sig ?d i ?s1 = Some (r, s2)" "s' = tell (SysEndsig n) s2" by auto
  have "mem_inv ?s1" using m mem_keep [OF m mem_same_flags(2) [of "{ALARM_ON}"]] by simp
  then have "mem_inv s2" using check_sig_mem [OF r(1)] by blast
  then show ?thesis unfolding r(2) by (rule mem_inert) simp
qed

lemma ksig_loop_mem: "ksig_loop n pid m ss s = Some s' \<Longrightarrow> mem_inv s \<Longrightarrow> mem_inv s'"
  by (induction ss arbitrary: s) (auto simp: bind_eq_Some_conv dest: ksig_one_mem split: if_split_asm)

subsection \<open>Fork\<close>

text \<open>What swapping out may change of a process: its place and the flag.\<close>

definition swap_rel :: "mproc \<Rightarrow> mproc \<Rightarrow> bool" where
  "swap_rel p p' \<longleftrightarrow> p'\<lparr>mp_seg := \<lambda>_. undefined, mp_flags := {}\<rparr> = p\<lparr>mp_seg := \<lambda>_. undefined, mp_flags := {}\<rparr>
     \<and> image_clicks (mp_seg p') = image_clicks (mp_seg p) \<and> mp_seg p' SegT = mp_seg p SegT
     \<and> mp_flags p' - {ONSWAP} = mp_flags p - {ONSWAP}"

definition swap_frame :: "mm \<Rightarrow> mm \<Rightarrow> bool" where
  "swap_frame s s' \<longleftrightarrow> (\<forall>n. swap_rel (mproctab s n) (mproctab s' n)) \<and> mp s' = mp s \<and> who s' = who s \<and> next_pid s' = next_pid s"

lemma swap_frame_refl [simp]: "swap_frame s s"
  by (simp add: swap_frame_def swap_rel_def)

lemma swap_frame_trans: "swap_frame s s' \<Longrightarrow> swap_frame s' s'' \<Longrightarrow> swap_frame s s''"
  unfolding swap_frame_def swap_rel_def by metis

lemma holes_only_frame: "holes_only s s' \<Longrightarrow> swap_frame s s'"
  using holes_onlyD [of s s'] unfolding swap_frame_def by (simp add: swap_rel_def)

lemma swap_one_frame:
  assumes "swap_one n prev hp s = Some s'"
  shows "swap_frame s s'"
proof -
  let ?nb = "h_base (holes s hp)"
  obtain s1 q s4 where b: "bite prev hp (image_clicks (mseg s n)) s = Some s1"
    and f: "free_mem (mem_phys (mseg s1 n SegD)) (image_clicks (mseg s n)) (s1\<lparr>mproctab := (mproctab s1)(n := (mproctab s1 n)\<lparr>mp_seg := relocate ?nb (mseg s1 n)\<rparr>), hist := q\<rparr>) = Some s4"
    and s': "s' = (set_flags {ONSWAP} n s4)\<lparr>outswap := n\<rparr>"
    using assms unfolding swap_one_def Let_def by (auto simp: bind_eq_Some_conv tell_def upd_mp_def)
  note t1 = holes_onlyD [OF bite_only [OF b]] and t4 = holes_onlyD [OF free_mem_only [OF f]]
  have "mproctab s' = (mproctab s)(n := (mproctab s n)\<lparr>mp_seg := relocate ?nb (mseg s n), mp_flags := mflags s n \<union> {ONSWAP}\<rparr>)"
    by (simp add: s' code_defs t4(1) t1(1))
  then have "swap_rel (mproctab s m) (mproctab s' m)" for m
    by (cases "m = n") (auto simp: swap_rel_def)
  then show ?thesis using t1 t4 unfolding swap_frame_def by (simp add: s' code_defs)
qed

lemma alloc_mem_frame: "alloc_mem k s = Some (b, s') \<Longrightarrow> swap_frame s s'"
proof (induction k s rule: alloc_mem.induct)
  case (1 k s)
  let ?found = "case hole_head s of None \<Rightarrow> Some None
     | Some hp \<Rightarrow> find_hole (\<lambda>h. h_base h < swap_base s) (\<lambda>h. h_len h \<ge> k) (holes s) None hp"
  show ?case
  proof (cases "?found = Some None")
    case True
    obtain r s1 where o: "swap_out s = Some (r, s1)" and res: "if r then alloc_mem k s1 = Some (b, s') else b = NO_MEM \<and> s' = s1"
      using "1.prems" True by (subst (asm) alloc_mem.simps) (auto split: option.splits if_splits prod.splits)
    have f: "swap_frame s s1"
      using swap_try_elim [OF o [unfolded swap_out_def]] swap_one_frame by auto
    show ?thesis
    proof (cases r)
      case t: True
      have "swap_frame s1 s'" by (rule "1.IH" [OF True refl o refl t]) (use res t in simp)
      then show ?thesis using f swap_frame_trans by blast
    qed (use res f in simp)
  next
    case False
    then obtain p x where "bite p x k s = Some s'"
      using "1.prems" by (subst (asm) alloc_mem.simps) (auto simp: bind_eq_Some_conv split: option.splits prod.splits)
    then show ?thesis using bite_only holes_only_frame by blast
  qed
qed

lemma swap_rel_flag: "swap_rel p p' \<Longrightarrow> x \<noteq> ONSWAP \<Longrightarrow> x \<in> mp_flags p' \<longleftrightarrow> x \<in> mp_flags p"
  unfolding swap_rel_def by blast

lemma swap_frame_live: "swap_frame s s' \<Longrightarrow> live s' n = live s n"
  unfolding swap_frame_def live_def using swap_rel_flag [of "mproctab s n" "mproctab s' n"] by simp

lemma pid_loop_same: "pid_loop c s = Some s' \<Longrightarrow> mem_same s s'"
proof -
  assume r: "pid_loop c s = Some s'"
  show "mem_same s s'"
  proof (rule pid_loop.raw_induct [where P = "\<lambda>c s s'. mem_same s s'", OF _ r])
    fix f c s s'
    assume IH: "\<And>c s s'. f c s = Some s' \<Longrightarrow> mem_same s s'"
      and e: "(let np = pid_succ (next_pid s); t = pid_taken np s; s1 = upd_mp c (\<lambda>p. p\<lparr>mp_pid := np\<rparr>) (s\<lparr>next_pid := np\<rparr>)
               in if t then f c s1 else Some s1) = Some s'"
    let ?s1 = "upd_mp c (\<lambda>p. p\<lparr>mp_pid := pid_succ (next_pid s)\<rparr>) (s\<lparr>next_pid := pid_succ (next_pid s)\<rparr>)"
    have "mem_same (s\<lparr>next_pid := pid_succ (next_pid s)\<rparr>) ?s1" by (rule mem_same_id) simp_all
    moreover have "mem_same s (s\<lparr>next_pid := pid_succ (next_pid s)\<rparr>)" by (rule mem_same_state) simp_all
    ultimately have m1: "mem_same s ?s1" using mem_same_trans by blast
    show "mem_same s s'" using e IH [of c ?s1 s'] m1 mem_same_trans unfolding Let_def by (auto split: if_split_asm)
  qed
qed

lemma swap_rel_fields:
  assumes "swap_rel p p'"
  shows "mp_ino p' = mp_ino p" "mp_dev p' = mp_dev p" "mp_ctime p' = mp_ctime p" "mp_pid p' = mp_pid p" "mp_effuid p' = mp_effuid p"
proof -
  have e: "p'\<lparr>mp_seg := \<lambda>_. undefined, mp_flags := {}\<rparr> = p\<lparr>mp_seg := \<lambda>_. undefined, mp_flags := {}\<rparr>" using assms by (simp add: swap_rel_def)
  note a = arg_cong [OF e]
  show "mp_ino p' = mp_ino p" "mp_dev p' = mp_dev p" "mp_ctime p' = mp_ctime p" "mp_pid p' = mp_pid p" "mp_effuid p' = mp_effuid p"
    using a [of mp_ino] a [of mp_dev] a [of mp_ctime] a [of mp_pid] a [of mp_effuid] by simp_all
qed

lemma fork_slot_mem:
  assumes m: "mem_hold (block (unat b) (unat k)) s" and u: "n \<in> set user_slots" "live s n" and k: "image_clicks (mseg s n) = k" "k \<noteq> 0"
    and b: "b \<noteq> NO_MEM" "unat b + unat k < unat (swap_base s)" and c: "IN_USE \<notin> mflags s c" "0 \<le> c" "c < NR_PROCS"
  shows "mem_inv (upd_mp c (\<lambda>_. fork_slot w b (mproctab s n)) (s\<lparr>procs_in_use := x\<rparr>))"
proof -
  let ?s = "upd_mp c (\<lambda>_. fork_slot w b (mproctab s n)) (s\<lparr>procs_in_use := x\<rparr>)"
  let ?B = "block (unat b) (unat k)"
  obtain hs fs where h: "hole_inv s hs fs" and d: "?B \<inter> free_clicks s hs = {}"
    and ok: "mem_ok (pmem_of s) (unat (swap_base s)) (free_clicks s hs \<union> ?B)"
    and fl: "flags_ok s" and sb: "0 < unat (swap_base s)" and ig: "sigismember (ign_sset s) SIGCHLD = 1"
    using m unfolding mem_hold_def by blast
  have own: "own_ok (unat (swap_base s)) (free_clicks s hs \<union> ?B) (pmem_of s n)" using mem_okD(1) [OF ok u(1)] u(2) by simp
  have sp: "span_ok (unat b, unat k)"
    using b k(2) unsigned_less [of "swap_base s", where ?'a = nat] by (simp add: span_ok_def unat_gt_0)
  let ?t = "if SEPARATE \<in> mflags s n then pm_text (pmem_of s n) else (unat b, unat (mem_len (mseg s n SegT)))"
  have t: "?t = pm_text (pmem_of s n) \<or> snd (pm_text (pmem_of s n)) = 0 \<and> snd ?t = 0"
    using own unfolding own_ok_def by auto
  let ?p = "(pmem_of s n)\<lparr>pm_data := (unat b, unat k), pm_swapped := False, pm_text := ?t\<rparr>"
  have nl: "\<not> pm_live (pmem_of s c)" using c(1) by (simp add: live_def)
  have "mem_ok ((pmem_of s)(c := ?p)) (unat (swap_base s)) (free_clicks s hs \<union> ?B - ?B)"
    by (rule mem_ok_fork [OF ok u(1) _ nl _ sp b(2) refl t]) (use u(2) in auto)
  moreover have "free_clicks s hs \<union> ?B - ?B = free_clicks s hs" using d by blast
  moreover have "pmem_of ?s = (pmem_of s)(c := ?p)"
  proof
    fix i show "pmem_of ?s i = ((pmem_of s)(c := ?p)) i"
    proof (cases "i = c")
      case True
      have "IN_USE \<in> mflags s n" "ZOMBIE \<notin> mflags s n" using u(2) by (simp_all add: live_def)
      then have "live ?s c" using c(2,3) by (simp add: live_def upd_mp_def fork_slot_def Let_def)
      moreover have "image_clicks (mseg ?s c) = k" using k(1) by (simp add: upd_mp_def fork_slot_def Let_def image_clicks_def relocate_def)
      ultimately show ?thesis using True u(2) by (simp add: pmem_of_def upd_mp_def fork_slot_def Let_def relocate_def)
    next
      case False
      then show ?thesis by (simp add: pmem_of_def upd_mp_def live_def)
    qed
  qed
  moreover have "flags_ok ?s"
  proof -
    have "fewer_blocked (s\<lparr>procs_in_use := x\<rparr>) ?s"
      by (rule fewer_blocked_upd) (auto simp: fork_slot_def Let_def)
    moreover have "flags_ok (s\<lparr>procs_in_use := x\<rparr>)" using fl flags_ok_tab [of "s\<lparr>procs_in_use := x\<rparr>" s] by simp
    ultimately show ?thesis using flags_ok_fewer by blast
  qed
  moreover have f: "holes ?s = holes s" "hole_head ?s = hole_head s" "free_slots ?s = free_slots s" "swap_base ?s = swap_base s" "ign_sset ?s = ign_sset s"
    by (simp_all add: upd_mp_def)
  ultimately show ?thesis using h sb ig hole_inv_cong [OF f(1-3)] unfolding mem_hold_def f(4,5) by auto
qed

lemma image_nonzero:
  assumes "mem_inv s" "n \<in> set user_slots" "live s n"
  shows "image_clicks (mseg s n) \<noteq> 0"
proof -
  obtain hs where "mem_ok (pmem_of s) (unat (swap_base s)) (free_clicks s hs)" using assms(1) unfolding mem_hold_def by auto
  then have "own_ok (unat (swap_base s)) (free_clicks s hs) (pmem_of s n)" using mem_okD(1) assms(2,3) by simp
  then show ?thesis unfolding own_ok_def span_ok_def by auto
qed

lemma mm_do_fork_mem:
  assumes m: "mem_inv s" and u: "mp s \<in> set user_slots" "live s (mp s)" and e: "mm_do_fork s = Some (r, s')"
  shows "mem_inv s'"
proof (cases "procs_in_use s = NR_PROCS \<or> (procs_in_use s \<ge> NR_PROCS - LAST_FEW \<and> mp_effuid (mproctab s (mp s)) \<noteq> 0)")
  case True
  have "mm_do_fork s = Some (EAGAIN, s)"
  proof (cases "procs_in_use s = NR_PROCS")
    case F: False
    with True have c: "procs_in_use s \<ge> NR_PROCS - LAST_FEW \<and> mp_effuid (mproctab s (mp s)) \<noteq> 0" by blast
    show ?thesis unfolding mm_do_fork_def Let_def if_not_P [OF F] if_P [OF c] ..
  qed (simp add: mm_do_fork_def Let_def)
  then show ?thesis using e m by simp
next
  case False
  let ?k = "image_clicks (mseg s (mp s))"
  have F: "procs_in_use s \<noteq> NR_PROCS" "\<not> (procs_in_use s \<ge> NR_PROCS - LAST_FEW \<and> mp_effuid (mproctab s (mp s)) \<noteq> 0)" using False by blast+
  note e' = e [unfolded mm_do_fork_def Let_def if_not_P [OF F(1)] if_not_P [OF F(2)]]
  obtain b s1 where a: "alloc_mem ?k s = Some (b, s1)"
    using e' by (auto simp: bind_eq_Some_conv)
  have k0: "?k \<noteq> 0" by (rule image_nonzero [OF m u])
  have f: "swap_frame s s1" by (rule alloc_mem_frame [OF a])
  note sp = alloc_mem_spec [OF m k0 a]
  show ?thesis
  proof (cases "b = NO_MEM")
    case True
    then have "s' = s1" using e' a by auto
    then show ?thesis using sp True by blast
  next
    case nb: False
    let ?q = "SysCopyAbs (push_bit CLICK_SHIFT (mem_phys (mseg s1 (mp s) SegD))) (push_bit CLICK_SHIFT b) (push_bit CLICK_SHIFT ?k)"
    have fc: "fork_child (mp s) b ?k s1 = Some (r, s')" using e' a nb by simp
    obtain rmc s4 where c: "find (\<lambda>n. IN_USE \<notin> mflags (tell ?q s1) n) all_slots = Some rmc"
      and p: "pid_loop rmc (upd_mp rmc (\<lambda>_. fork_slot (who (tell ?q s1)) b (mproctab (tell ?q s1) (mp s))) ((tell ?q s1)\<lparr>procs_in_use := procs_in_use (tell ?q s1) + 1\<rparr>)) = Some s4"
      and t: "fork_tell rmc s4 = Some (r, s')"
      using fc unfolding fork_child_def Let_def ask_def prod.case
      by (cases "find (\<lambda>n. IN_USE \<notin> mflags (tell ?q s1) n) all_slots") (auto simp: bind_eq_Some_conv split: if_split_asm)
    let ?s5 = "tell (TellFs FsFork (who s4) rmc (mp_pid (mproctab s4 rmc))) (tell (SysFork (who s4) rmc (mp_pid (mproctab s4 rmc))) s4)"
    let ?s6 = "tell (SysNewmap rmc (mseg ?s5 rmc)) ?s5"
    have r: "setreply rmc 0 ?s6 = Some s'" using t unfolding fork_tell_def Let_def by auto
    have s6: "inert s4 ?s6" by (intro inert_steps) simp
    define q where "q = ?q"
    note c = c [folded q_def] and p = p [folded q_def]
    have mf: "mflags (tell q s1) = mflags s1" by (simp add: tell_def)
    have "IN_USE \<notin> mflags (tell q s1) rmc" "rmc \<in> set all_slots" using c by (auto simp: find_Some_iff simp del: mem_slots)
    then have rc: "IN_USE \<notin> mflags s1 rmc" "0 \<le> rmc" "rmc < NR_PROCS" by (simp_all add: tell_def)
    have mh: "mem_hold (block (unat b) (unat ?k)) (tell q s1)"
      using sp nb inert_mem_hold [OF inert_tell] by blast
    have g: "mproctab (tell q s1) = mproctab s1" "swap_base (tell q s1) = swap_base s1" "mp s1 = mp s" "who (tell q s1) = who s1"
      using f by (simp_all add: tell_def swap_frame_def)
    have "live (tell q s1) (mp s)" using u(2) swap_frame_live [OF f, of "mp s"] by (simp add: tell_def live_def)
    moreover have "image_clicks (mseg (tell q s1) (mp s)) = ?k" using f unfolding g swap_frame_def swap_rel_def by blast
    moreover have "IN_USE \<notin> mflags (tell q s1) rmc" using rc(1) by (simp add: tell_def)
    ultimately have "mem_inv (upd_mp rmc (\<lambda>_. fork_slot (who (tell q s1)) b (mproctab (tell q s1) (mp s))) ((tell q s1)\<lparr>procs_in_use := procs_in_use (tell q s1) + 1\<rparr>))"
      using fork_slot_mem [OF mh u(1) _ _ k0 nb _ _ rc(2,3)] sp nb g(2) by simp
    then have "mem_inv s4" by (rule mem_keep [OF _ pid_loop_same [OF p]])
    then have "mem_inv ?s6" using mem_inert s6 by blast
    then show ?thesis using mem_inert [OF _ inert_setreply [OF r]] by blast
  qed
qed

subsection \<open>Swapping in and the main loop\<close>

lemma inert_set_queue: "inert s (set_queue p q s)"
  by (cases p) (simp_all add: set_queue_def)

lemma swap_in_one_mem:
  assumes m: "mem_hold (block (unat b) (unat k)) s" and k: "image_clicks (mseg s n) = k" "k \<noteq> 0" and w: "SWAPIN \<in> mflags s n"
    and b: "b \<noteq> NO_MEM" "unat b + unat k < unat (swap_base s)" and e: "swap_in_one p n b s = Some s'"
  shows "mem_inv s'"
proof -
  let ?B = "block (unat b) (unat k)" and ?old = "mem_phys (mseg s n SegD)"
  obtain hs fs where h: "hole_inv s hs fs" and d: "?B \<inter> free_clicks s hs = {}"
    and ok: "mem_ok (pmem_of s) (unat (swap_base s)) (free_clicks s hs \<union> ?B)"
    and fl: "flags_ok s" and sb: "0 < unat (swap_base s)" and ig: "sigismember (ign_sset s) SIGCHLD = 1"
    using m unfolding mem_hold_def by blast
  have os: "ONSWAP \<in> mflags s n" using fl w unfolding flags_ok_def by blast
  then have u: "n \<in> set user_slots" using fl unfolding flags_ok_def by blast
  then have lv: "live s n" using ok os unfolding mem_ok_def by auto
  have own: "own_ok (unat (swap_base s)) (free_clicks s hs \<union> ?B) (pmem_of s n)" using mem_okD(1) [OF ok u] lv by simp
  have sp: "span_ok (unat b, unat k)" "span_ok (unat ?old, unat k)"
    using b k own unsigned_less [of "swap_base s", where ?'a = nat] by (simp_all add: span_ok_def unat_gt_0 own_ok_def)
  obtain q s4 where f: "free_mem ?old k (s\<lparr>mproctab := (mproctab s)(n := (mproctab s n)\<lparr>mp_seg := relocate b (mseg s n)\<rparr>), hist := q\<rparr>) = Some s4"
    and c: "check_pending n (set_queue p (swapq (clear_flags {ONSWAP, SWAPIN} n s4) n) (clear_flags {ONSWAP, SWAPIN} n s4)) = Some s'"
    using e unfolding swap_in_one_def Let_def k(1) by (auto simp: bind_eq_Some_conv tell_def upd_mp_def)
  let ?s3 = "s\<lparr>mproctab := (mproctab s)(n := (mproctab s n)\<lparr>mp_seg := relocate b (mseg s n)\<rparr>), hist := q\<rparr>"
  have h3: "hole_inv ?s3 hs fs" "free_clicks ?s3 hs = free_clicks s hs" using h hole_inv_cong [of ?s3 s] by simp_all
  have dj: "block (unat ?old) (unat k) \<inter> free_clicks ?s3 hs = {}" using own k(1) unfolding h3(2) own_ok_def by auto
  obtain hs4 fs4 where h4: "hole_inv s4 hs4 fs4" "free_clicks s4 hs4 = free_clicks s hs \<union> block (unat ?old) (unat k)" "holes_only ?s3 s4"
    using free_text_spec [OF h3(1) _ dj f] sp(2) h3(2) by auto
  note t4 = holes_onlyD [OF h4(3)]
  let ?s5 = "clear_flags {ONSWAP, SWAPIN} n s4"
  have tab: "mproctab ?s5 = (mproctab s)(n := (mproctab s n)\<lparr>mp_seg := relocate b (mseg s n), mp_flags := mflags s n - {ONSWAP, SWAPIN}\<rparr>)"
    by (simp add: code_defs t4(1))
  have "pmem_of ?s5 = (pmem_of s)(n := (pmem_of s n)\<lparr>pm_data := (unat b, unat k), pm_swapped := False\<rparr>)"
    using k(1) by (auto simp: fun_eq_iff pmem_of_def tab live_def)
  moreover have "mem_ok ((pmem_of s)(n := (pmem_of s n)\<lparr>pm_data := (unat b, unat k), pm_swapped := False\<rparr>)) (unat (swap_base s))
      ((free_clicks s hs \<union> ?B - ?B) \<union> data_of (pmem_of s n))"
    by (rule mem_ok_move [OF ok u]) (use lv sp(1) b(2) sb k(1) in simp_all)
  moreover have "(free_clicks s hs \<union> ?B - ?B) \<union> data_of (pmem_of s n) = free_clicks s4 hs4" using h4(2) d k(1) by auto
  moreover have e5: "holes ?s5 = holes s4" "hole_head ?s5 = hole_head s4" "free_slots ?s5 = free_slots s4" "swap_base ?s5 = swap_base s" "ign_sset ?s5 = ign_sset s"
    using t4 by (simp_all add: code_defs)
  moreover have "flags_ok ?s5" using fl lv unfolding flags_ok_def tab live_def by auto
  ultimately have "mem_inv ?s5" using h4(1) sb ig hole_inv_cong [OF e5(1-3)] unfolding mem_hold_def e5(4,5) by auto
  then show ?thesis using check_pending_mem [OF u c] mem_inert [OF _ inert_set_queue] by blast
qed

lemma swap_in_mem:
  assumes "swap_in s = Some s'" "mem_inv s"
  shows "mem_inv s'"
proof -
  have "mem_inv s \<longrightarrow> mem_inv s'"
  proof (rule swap_in_loop.raw_induct [where P = "\<lambda>p s s'. mem_inv s \<longrightarrow> mem_inv s'", OF _ assms(1) [unfolded swap_in_def]])
    fix f p s s'
    assume IH: "\<And>p s s'. f p s = Some s' \<Longrightarrow> mem_inv s \<longrightarrow> mem_inv s'"
      and e: "(case queue_at p s of None \<Rightarrow> Some s
        | Some n \<Rightarrow> if SWAPIN \<notin> mflags s n then f p (set_queue p (swapq s n) s)
            else Option.bind (alloc_mem (image_clicks (mseg s n)) s) (\<lambda>(b, s1). if b = NO_MEM then f (Some n) s1 else Option.bind (swap_in_one p n b s1) (f p))) = Some s'"
    show "mem_inv s \<longrightarrow> mem_inv s'"
    proof
      assume m: "mem_inv s"
      show "mem_inv s'"
      proof (cases "queue_at p s")
        case None
        then show ?thesis using e m by simp
      next
        case (Some n)
        show ?thesis
        proof (cases "SWAPIN \<in> mflags s n")
          case False
          then have "f p (set_queue p (swapq s n) s) = Some s'" using e Some by simp
          then show ?thesis using IH m mem_inert [OF m inert_set_queue] by blast
        next
          case True
          let ?k = "image_clicks (mseg s n)"
          have fl: "flags_ok s" using m by (simp add: mem_hold_def)
          then have u: "n \<in> set user_slots" "ONSWAP \<in> mflags s n" using True unfolding flags_ok_def by blast+
          obtain hs where "mem_ok (pmem_of s) (unat (swap_base s)) (free_clicks s hs)" using m unfolding mem_hold_def by auto
          then have lv: "live s n" using u unfolding mem_ok_def by auto
          have k0: "?k \<noteq> 0" by (rule image_nonzero [OF m u(1) lv])
          obtain b s1 where a: "alloc_mem ?k s = Some (b, s1)" and r: "(if b = NO_MEM then f (Some n) s1 else Option.bind (swap_in_one p n b s1) (f p)) = Some s'"
            using e Some True by (auto simp: bind_eq_Some_conv)
          note sp = alloc_mem_spec [OF m k0 a] and fr = alloc_mem_frame [OF a]
          show ?thesis
          proof (cases "b = NO_MEM")
            case True
            then show ?thesis using r sp IH by auto
          next
            case nb: False
            obtain s2 where s2: "swap_in_one p n b s1 = Some s2" "f p s2 = Some s'" using r nb by (auto simp: bind_eq_Some_conv)
            have "image_clicks (mseg s1 n) = ?k" "SWAPIN \<in> mflags s1 n"
              using fr True swap_rel_flag [of "mproctab s n" "mproctab s1 n" SWAPIN] unfolding swap_frame_def swap_rel_def by auto
            then have "mem_inv s2" using swap_in_one_mem [OF _ _ k0 _ nb _ s2(1)] sp nb by blast
            then show ?thesis using IH [OF s2(2)] by blast
          qed
        qed
      qed
    qed
  qed
  then show ?thesis using assms(2) by blast
qed

lemma send_replies_mem: "send_replies ns s = Some s' \<Longrightarrow> mem_inv s \<Longrightarrow> mem_inv s'"
proof (induction ns arbitrary: s)
  case (Cons n ns)
  let ?t = "clear_flags {REPLY} n (tell (Reply n (reply_res (mproctab s n))) s)"
  have "inert s ?t" by (intro inert_steps) simp_all
  then have "mem_inv ?t" using Cons.prems(2) mem_inert by blast
  moreover have "send_replies ns ?t = Some s' \<or> send_replies ns s = Some s'"
    using Cons.prems(1) by (auto simp: ask_def Let_def split: if_split_asm)
  ultimately show ?case using Cons by blast
qed simp

lemma do_ksig_mem: "mem_inv s \<Longrightarrow> do_ksig n ss s = Some (r, s') \<Longrightarrow> mem_inv s'"
proof -
  assume m: "mem_inv s" and e: "do_ksig n ss s = Some (r, s')"
  let ?s2 = "upd_mp 0 (\<lambda>p. p\<lparr>mp_procgrp := mp_procgrp (mproctab (s\<lparr>mp := 0\<rparr>) n)\<rparr>) (s\<lparr>mp := 0\<rparr>)"
  have "mem_same s (s\<lparr>mp := 0\<rparr>)" by (rule mem_same_state) simp_all
  moreover have "mem_same (s\<lparr>mp := 0\<rparr>) ?s2" by (rule mem_same_id) simp_all
  ultimately have "mem_inv ?s2" using mem_keep [OF m] mem_same_trans by blast
  moreover have "s' = s \<or> ksig_loop n (mp_pid (mproctab s n)) ss [1..NSIG] ?s2 = Some s'"
    using e unfolding do_ksig_def Let_def by (auto simp del: upto_rec_numeral split: if_split_asm)
  ultimately show ?thesis using m ksig_loop_mem by blast
qed

lemma do_reboot_mem: "mem_inv s \<Longrightarrow> do_reboot f c n s = Some (r, s') \<Longrightarrow> mem_inv s'"
proof -
  assume m: "mem_inv s" and e: "do_reboot f c n s = Some (r, s')"
  obtain x s1 where a: "reboot_args f c n s = (x, s1)" by (cases "reboot_args f c n s")
  have i: "inert s s1" using a unfolding reboot_args_def Let_def ask_def by (auto split: if_split_asm)
  have m1: "mem_inv s1" by (rule mem_inert [OF m i])
  show ?thesis
  proof (cases "x = OK")
    case True
    then obtain y s2 where y: "check_sig (-1) SIGKILL s1 = Some (y, s2)" "s' = tell (SysAbort f) (tell (TellFs FsReboot 0 0 0) s2)"
      using e a unfolding do_reboot_def by auto
    have "mem_inv s2" by (rule check_sig_mem [OF y(1) m1])
    then show ?thesis unfolding y(2) by (rule mem_inert) (intro inert_steps inert_refl)
  next
    case False
    then show ?thesis using e a m1 unfolding do_reboot_def by simp
  qed
qed

lemma mem_same_fold: "(\<And>n t. mem_same t (f n t)) \<Longrightarrow> mem_same s (fold f ns s)"
proof (induction ns arbitrary: s)
  case (Cons n ns)
  have "mem_same s (f n s)" "mem_same (f n s) (fold f ns (f n s))" using Cons by blast+
  then show ?case using mem_same_trans [of s "f n s"] by simp
qed simp

lemma signon_release_inert:
  assumes "signon_release parent p s = Some s'"
  shows "inert s s'"
proof (cases "WAITING \<in> mflags s parent \<and> right_child (mp_wpid (mproctab s parent)) p")
  case True
  then obtain t where t: "setreply parent (mp_pid p) (upd_mp parent (\<lambda>q. q\<lparr>reply_res2 := 0\<rparr>) s) = Some t" "s' = clear_flags {WAITING} parent t"
    using assms unfolding signon_release_def if_P [OF True] by auto
  have "inert s t" by (rule inert_trans [OF inert_fields(5) inert_setreply [OF t(1)]])
  then show ?thesis unfolding t(2) by (rule inert_steps(12)) simp
next
  case False
  then show ?thesis using assms unfolding signon_release_def if_not_P [OF False] by simp
qed

lemma mm_signon_mem:
  assumes m: "mem_inv s" and e: "mm_signon s = Some (r, s')"
  shows "mem_inv s'"
proof (cases "mp_effuid (mproctab s (mp s)) = SUPER_USER")
  case True
  obtain s2 where b: "signon_release (mp_parent (mproctab s (mp s))) (mproctab s (mp s)) (tell (TellFs FsExit (who s) 0 0) s) = Some s2"
    "s' = upd_mp (mp s) (\<lambda>q. q\<lparr>mp_pid := 0, mp_procgrp := 0, mp_parent := 0\<rparr>) (fold signon_orphan all_slots s2)"
    using e True unfolding mm_signon_def Let_def by auto
  have "mem_inv s2" by (rule mem_inert [OF mem_inert [OF m inert_tell] signon_release_inert [OF b(1)]])
  moreover have "mem_same s2 (fold signon_orphan all_slots s2)"
    by (rule mem_same_fold) (auto simp: signon_orphan_def intro!: mem_same_id)
  ultimately have "mem_inv (fold signon_orphan all_slots s2)" using mem_keep by blast
  then show ?thesis unfolding b(2) by (rule mem_keep) (rule mem_same_id; simp)
next
  case False
  then show ?thesis using e m by (simp add: mm_signon_def Let_def)
qed

end
