(* ===== verification/MM_Memory_Exec.thy ===== *)
theory MM_Memory_Exec
  imports MM_Memory_Calls
begin

text \<open>
  Execution of a file keeps the memory invariant: the clicks of the new image are held back by
  \<^verbatim>\<open>alloc_mem()\<close>, the old image is given back, and the process enters its new image.
  With it, every call and every round of the main loop keeps the invariant.
\<close>

subsection \<open>Opening the file changes nothing of the processes\<close>

definition hist_only :: "mm \<Rightarrow> mm \<Rightarrow> bool" where
  "hist_only s s' \<longleftrightarrow> (\<exists>h. s' = s\<lparr>hist := h\<rparr>)"

lemma hist_only_refl [simp]: "hist_only s s"
proof -
  have "s = s\<lparr>hist := hist s\<rparr>" by simp
  then show ?thesis unfolding hist_only_def by blast
qed

lemma hist_only_tell: "hist_only s t \<Longrightarrow> hist_only s (tell q t)"
  by (auto simp: hist_only_def tell_def)

lemma hist_only_trans: "hist_only s t \<Longrightarrow> hist_only t u \<Longrightarrow> hist_only s u"
  by (auto simp: hist_only_def)

lemma hist_onlyD:
  assumes "hist_only s s'"
  shows "mproctab s' = mproctab s" "mp s' = mp s" "who s' = who s" "holes s' = holes s" "hole_head s' = hole_head s"
    "free_slots s' = free_slots s" "swap_base s' = swap_base s" "ign_sset s' = ign_sset s"
  using assms by (auto simp: hist_only_def)

lemma hist_only_mem: "hist_only s s' \<Longrightarrow> mem_inv s \<Longrightarrow> mem_inv s'"
  by (rule mem_keep) (auto intro: mem_same_state dest: hist_onlyD)

lemma allowed_hist: "allowed nm m s = Some (r, s') \<Longrightarrow> hist_only s s'"
  unfolding allowed_def ask_def Let_def by (auto intro!: hist_only_tell split: if_split_asm)

lemma read_header_hist: "read_header fd sc s = (r, s') \<Longrightarrow> hist_only s s'"
  unfolding read_header_def ask_def Let_def by (auto intro!: hist_only_tell split: if_split_asm)

lemma patch_stack_hist: "patch_stack fd st stk nm s = Some (r, s') \<Longrightarrow> hist_only s s'"
  unfolding patch_stack_def ask_def Let_def
  by (auto simp: bind_eq_Some_conv intro!: hist_only_tell split: if_split_asm option.split_asm)

lemma exec_try_parts:
  assumes "exec_try nm off stk s = Some (r, s')"
  obtains name e where "allowed name X_BIT (tell (TellFs FsChdir (who s) 0 0) s) = Some (Inl e, s')" "r = Inl e"
  | name fd st m s1 where "allowed name X_BIT (tell (TellFs FsChdir (who s) 0 0) s) = Some (Inr (fd, st), s1)"
      "read_header fd (round_clicks stk) s1 = (m, s')" "r = Inr (fd, st, name, m)"
proof -
  obtain name where c: "c_str nm off (unat PATH_MAX) = Some name" using assms unfolding exec_try_def by (cases "c_str nm off (unat PATH_MAX)") auto
  obtain r1 s1 where a: "allowed name X_BIT (tell (TellFs FsChdir (who s) 0 0) s) = Some (r1, s1)"
    using assms c unfolding exec_try_def by (cases "allowed name X_BIT (tell (TellFs FsChdir (who s) 0 0) s)") auto
  show ?thesis
  proof (cases r1)
    case (Inl e)
    then show ?thesis using assms c a that(1) [of name e] unfolding exec_try_def by simp
  next
    case (Inr b)
    obtain fd st where b: "b = (fd, st)" by (cases b)
    then show ?thesis using assms c a Inr that(2) [of name fd st s1] unfolding exec_try_def by (auto split: prod.split_asm)
  qed
qed

lemma exec_try_hist:
  assumes "exec_try nm off stk s = Some (r, s')"
  shows "hist_only s s'"
proof -
  have c: "hist_only s (tell (TellFs FsChdir (who s) 0 0) s)" by (simp add: hist_only_tell)
  from assms show ?thesis
    by (cases rule: exec_try_parts) (use hist_only_trans [OF c allowed_hist] hist_only_trans [OF _ read_header_hist] in blast)+
qed

text \<open>A result of the search was tried last.\<close>

definition tried :: "int + exec_image \<Rightarrow> mm \<Rightarrow> bool" where
  "tried r s' \<longleftrightarrow> (\<forall>im. r = Inr im \<longrightarrow> (\<exists>nm off stk s fd st name. exec_try nm off stk s = Some (Inr (fd, st, name, Inr (xi_hdr im)), s')))"

lemma exec_fail_facts: "exec_fail fd stk s = (r, s') \<Longrightarrow> hist_only s s' \<and> tried r s'"
  by (auto simp: exec_fail_def tried_def intro: hist_only_tell)

lemma exec_find_facts:
  assumes "exec_find nm st stk s = Some (r, s')"
  shows "hist_only s s' \<and> tried r s'"
proof -
  obtain r1 s1 where a: "exec_try nm 0 stk s = Some (r1, s1)" using assms unfolding exec_find_def by (cases "exec_try nm 0 stk s") auto
  note h1 = exec_try_hist [OF a]
  show ?thesis
  proof (cases r1)
    case (Inl e)
    then show ?thesis using assms a h1 unfolding exec_find_def by (auto simp: tried_def)
  next
    case (Inr q)
    obtain fd st0 name m where r1: "r1 = Inr (fd, st0, name, m)" using Inr by (cases q) auto
    show ?thesis
    proof (cases m)
      case (Inr h)
      then show ?thesis using assms a h1 r1 unfolding exec_find_def tried_def by (fastforce intro: exI [of _ nm])
    next
      case (Inl e)
      show ?thesis
      proof (cases "e = ESCRIPT")
        case False
        then have "exec_fail fd stk s1 = (r, s')" using assms a r1 Inl unfolding exec_find_def by simp
        then show ?thesis using exec_fail_facts h1 hist_only_trans by blast
      next
        case True
        obtain i st2 stk2 nm2 s2 where p: "patch_stack fd st stk nm s1 = Some ((i, st2, stk2, nm2), s2)"
          using assms a r1 Inl True unfolding exec_find_def by (cases "patch_stack fd st stk nm s1") auto
        note h2 = hist_only_trans [OF h1 patch_stack_hist [OF p]]
        show ?thesis
        proof (cases i)
          case None
          then have "exec_fail fd stk2 s2 = (r, s')" using assms a r1 Inl True p unfolding exec_find_def by simp
          then show ?thesis using exec_fail_facts h2 hist_only_trans by blast
        next
          case (Some off)
          obtain r2 s3 where t: "exec_try nm2 off stk2 s2 = Some (r2, s3)"
            using assms a r1 Inl True p Some unfolding exec_find_def by (cases "exec_try nm2 off stk2 s2") auto
          note h3 = hist_only_trans [OF h2 exec_try_hist [OF t]]
          have e: "(case r2 of Inl e \<Rightarrow> (Inl e, s3)
             | Inr (fd2, stat1, name2, Inr h) \<Rightarrow>
                 (Inr \<lparr>xi_fd = fd2, xi_stat0 = st0, xi_stat = stat1, xi_hdr = h, xi_stack = st2, xi_bytes = stk2, xi_name = name2\<rparr>, s3)
             | Inr (fd2, stat1, name2, Inl m2) \<Rightarrow> exec_fail fd2 stk2 s3) = (r, s')"
            using assms a r1 Inl True p Some t unfolding exec_find_def by simp
          then show ?thesis using t h3 hist_only_trans [OF h3] exec_fail_facts
            by (auto simp: tried_def split: sum.split_asm) blast+
        qed
      qed
    qed
  qed
qed

lemma exec_open_hist: "exec_open x s = Some (r, s') \<Longrightarrow> hist_only s s'"
  unfolding exec_open_def ask_def Let_def
  by (auto intro!: hist_only_tell dest!: exec_find_facts split: if_split_asm intro: hist_only_trans [rotated])

lemma zero_loop_hist: "zero_loop base bytes s = Some s' \<Longrightarrow> hist_only s s'"
proof (induction base bytes s rule: zero_loop.induct)
  case (1 base bytes s)
  show ?case
  proof (cases "bytes = 0")
    case True
    then show ?thesis using "1.prems" by (simp add: zero_loop.simps)
  next
    case False
    let ?t = "tell (SysZero base (min bytes 1024)) s"
    have "zero_loop (base + min bytes 1024) (bytes - min bytes 1024) ?t = Some s'"
      using "1.prems" False by (subst (asm) zero_loop.simps) (auto simp: ask_def Let_def split: if_split_asm)
    moreover have "an_res (env s (SysZero base (min bytes 1024) # hist s)) = OK"
      using "1.prems" False by (subst (asm) zero_loop.simps) (auto simp: ask_def Let_def split: if_split_asm)
    ultimately have "hist_only ?t s'" using "1.IH" [OF False refl] by (simp add: ask_def)
    then show ?thesis using hist_only_trans hist_only_tell [OF hist_only_refl] by blast
  qed
qed

subsection \<open>The sizes that the header gives\<close>

lemma read_header_sizes:
  assumes "read_header fd sc s = (Inr h, s')"
  shows "round_clicks (eh_data h + eh_bss h) < round_clicks (eh_tot h)" "eh_sep h \<or> eh_text h = 0"
proof -
  have "\<exists>b. h = header_of b" "round_clicks (eh_data h + eh_bss h) < round_clicks (eh_tot h)"
    using assms unfolding read_header_def ask_def Let_def by (auto split: if_split_asm)
  then show "round_clicks (eh_data h + eh_bss h) < round_clicks (eh_tot h)" "eh_sep h \<or> eh_text h = 0"
    by (auto simp: header_of_def Let_def)
qed

lemma exec_try_sizes:
  assumes "exec_try nm off stk s = Some (Inr (fd, st, name, Inr h), s')"
  shows "round_clicks (eh_data h + eh_bss h) < round_clicks (eh_tot h) \<and> (eh_sep h \<or> eh_text h = 0)"
  using assms by (cases rule: exec_try_parts) (use read_header_sizes in auto)

lemma exec_open_sizes:
  assumes "exec_open x s = Some (Inr im, s')"
  shows "round_clicks (eh_data (xi_hdr im) + eh_bss (xi_hdr im)) < round_clicks (eh_tot (xi_hdr im))" "eh_sep (xi_hdr im) \<or> eh_text (xi_hdr im) = 0"
proof -
  obtain nm st stk t where "exec_find nm st stk t = Some (Inr im, s')"
    using assms unfolding exec_open_def ask_def Let_def by (auto split: if_split_asm)
  then have "tried (Inr im) s'" using exec_find_facts by blast
  then show "round_clicks (eh_data (xi_hdr im) + eh_bss (xi_hdr im)) < round_clicks (eh_tot (xi_hdr im))"
    "eh_sep (xi_hdr im) \<or> eh_text (xi_hdr im) = 0" unfolding tried_def using exec_try_sizes by blast+
qed

lemma round_clicks_less: "unat (round_clicks n) < 2 ^ 22"
proof -
  have "unat (n + 1023) < 2 ^ 32" using unsigned_less [where ?'a = nat, of "n + 1023"] by simp
  then have "unat (n + 1023) div 1024 < 2 ^ 22" by simp
  moreover have "unat (round_clicks n) = unat (n + 1023) div 1024" 
    unfolding round_clicks_def unat_drop_bit_eq by (simp add: drop_bit_nat_def add.commute)
  ultimately show ?thesis by simp
qed

subsection \<open>The new image\<close>

text \<open>What the environment must grant: a file that runs already with separate text is read as such, and the
  process that \<^verbatim>\<open>rmp\<close> happens to point to when it is used before it is set, if it is a user slot, is
  live.\<close>

definition exec_grants :: "exec_args \<Rightarrow> mm \<Rightarrow> bool" where
  "exec_grants x s \<longleftrightarrow> (case xa_stray x of None \<Rightarrow> True | Some n \<Rightarrow> n \<in> set user_slots \<longrightarrow> live s n)
     \<and> (case exec_open x s of
          Some (Inr im, t) \<Rightarrow> find_share (mp t) (st_ino (xi_stat im)) (st_dev (xi_stat im)) (st_ctime (xi_stat im)) t \<noteq> None \<longrightarrow> eh_sep (xi_hdr im)
        | _ \<Rightarrow> True)"

lemma stray_mem:
  assumes "mem_inv s" "n \<in> set user_slots \<longrightarrow> live s n"
  shows "mem_inv (set_flags {WAITING} n s)"
proof (cases "live s n")
  case True
  then show ?thesis unfolding set_flags_def by (intro block_mem [OF assms(1) True, where F = "{WAITING}"]) simp_all
next
  case False
  then have n: "n \<notin> set user_slots" using assms(2) by blast
  have "flags_ok (set_flags {WAITING} n s)" using assms(1) n unfolding mem_hold_def flags_ok_def by (auto simp: code_defs live_def)
  moreover have "pmem_of (set_flags {WAITING} n s) = pmem_of s" by (auto simp: pmem_of_def code_defs live_def)
  ultimately show ?thesis by (intro mem_holdI [OF assms(1)]) (simp_all add: code_defs)
qed

text \<open>The process enters its new image.\<close>

lemma enter_mem:
  assumes d: "mem_dying_hold B r s" and r: "r \<in> set user_slots" and tab: "mproctab s' = (mproctab s)(r := q)"
    and same: "holes s' = holes s" "hole_head s' = hole_head s" "free_slots s' = free_slots s" "swap_base s' = swap_base s" "ign_sset s' = ign_sset s"
    and fl: "IN_USE \<in> mp_flags q" "mp_flags q \<inter> {ZOMBIE, ONSWAP, SWAPIN} = {}"
    and dt: "span_ok (pm_data (pmem_of s' r))" "fst (pm_data (pmem_of s' r)) + snd (pm_data (pmem_of s' r)) < unat (swap_base s)" "data_of (pmem_of s' r) \<subseteq> B"
    and tx: "snd (pm_text (pmem_of s' r)) = 0
      \<or> span_ok (pm_text (pmem_of s' r)) \<and> SEPARATE \<in> mp_flags q \<and> fst (pm_text (pmem_of s' r)) + snd (pm_text (pmem_of s' r)) < unat (swap_base s)
        \<and> text_of (pmem_of s' r) \<subseteq> B \<and> text_of (pmem_of s' r) \<inter> data_of (pmem_of s' r) = {}
      \<or> (\<exists>n \<in> set user_slots. n \<noteq> r \<and> live s n \<and> pm_text (pmem_of s' r) = pm_text (pmem_of s n) \<and> shares (pmem_of s' r) (pmem_of s n))"
  shows "mem_inv s'"
proof -
  obtain hs fs where h: "hole_inv s hs fs" "B \<inter> free_clicks s hs = {}"
    and ok: "\<forall>p. dead p \<longrightarrow> mem_ok ((pmem_of s)(r := p)) (unat (swap_base s)) (free_clicks s hs \<union> B)"
    and m: "flags_ok s" "0 < unat (swap_base s)" "sigismember (ign_sset s) SIGCHLD = 1"
    using d unfolding mem_dying_hold_def by blast
  let ?p = "pmem_of s' r"
  have lv: "pm_live ?p" "\<not> pm_swapped ?p" "pm_sep ?p = (SEPARATE \<in> mp_flags q)" using fl r by (auto simp: tab live_def)
  have "pmem_of s' = (pmem_of s)(r := ?p)" by (auto simp: fun_eq_iff pmem_of_def tab live_def)
  moreover have "mem_ok ((pmem_of s)(r := ?p)) (unat (swap_base s)) (free_clicks s hs)"
  proof (rule mem_ok_enter)
    show "mem_ok ((pmem_of s)(r := dead_view ?p)) (unat (swap_base s)) (free_clicks s hs \<union> B)" using ok by simp
  qed (use lv r dt tx h(2) in \<open>auto simp del: pmem_of_simps(4,5)\<close>)
  ultimately have "mem_ok (pmem_of s') (unat (swap_base s)) (free_clicks s hs)" by simp
  moreover have "flags_ok s'" using m(1) fl r unfolding flags_ok_def by (auto simp: tab live_def)
  ultimately show ?thesis using h(1) m hole_inv_cong [OF same(1-3)] unfolding mem_hold_def same(4,5) by auto
qed

text \<open>The slot of the process when the new program runs: the file, the identity, the signals.\<close>

definition exec_uid :: "fstatus \<Rightarrow> mproc \<Rightarrow> u16" where
  "exec_uid st p = (if TRACED \<in> mp_flags p \<or> st_mode st AND 0x0800 = 0 then mp_effuid p else st_uid st)"

definition exec_gid :: "fstatus \<Rightarrow> mproc \<Rightarrow> u8" where
  "exec_gid st p = (if TRACED \<in> mp_flags p \<or> st_mode st AND 0x0400 = 0 then mp_effgid p else ucast (st_gid st))"

definition exec_slot :: "exec_image \<Rightarrow> u32 \<Rightarrow> mproc \<Rightarrow> mproc" where
  "exec_slot im vsp p =
     (fold reset_caught [1..NSIG] p)\<lparr>mp_ino := st_ino (xi_stat im), mp_dev := st_dev (xi_stat im), mp_ctime := st_ctime (xi_stat im),
        mp_effuid := exec_uid (xi_stat0 im) p, mp_effgid := exec_gid (xi_stat0 im) p, mp_procargs := vsp,
        mp_flags := mp_flags p - {SEPARATE} \<union> (if eh_sep (xi_hdr im) then {SEPARATE} else {})\<rparr>"

text \<open>Only the slot \<open>r\<close> and the history change.\<close>

definition slot_set :: "int \<Rightarrow> mproc \<Rightarrow> mm \<Rightarrow> mm \<Rightarrow> bool" where
  "slot_set r q s s' \<longleftrightarrow> mproctab s' = (mproctab s)(r := q) \<and> s'\<lparr>mproctab := mproctab s, hist := hist s\<rparr> = s"

lemma slot_set_refl: "slot_set r (mproctab s r) s s"
  by (simp add: slot_set_def)

lemma slot_set_steps:
  "slot_set r q s t \<Longrightarrow> slot_set r q s (tell x t)"
  "slot_set r q s t \<Longrightarrow> slot_set r (f q) s (upd_mp r f t)"
  by (auto simp: slot_set_def code_defs)

lemma slot_setD:
  assumes "slot_set r q s t"
  shows "mproctab t = (mproctab s)(r := q)" "mp t = mp s" "who t = who s" "holes t = holes s" "hole_head t = hole_head s"
    "free_slots t = free_slots s" "swap_base t = swap_base s" "ign_sset t = ign_sset s"
    "in_queue t = in_queue s" "env t = env s"
proof -
  note e = conjunct2 [OF assms [unfolded slot_set_def]]
  show "mproctab t = (mproctab s)(r := q)" using assms by (simp add: slot_set_def)
  show "mp t = mp s" "who t = who s" "holes t = holes s" "hole_head t = hole_head s"
    "free_slots t = free_slots s" "swap_base t = swap_base s" "ign_sset t = ign_sset s" "in_queue t = in_queue s" "env t = env s"
    by (subst e [symmetric], simp)+
qed

lemma exec_ids_slot:
  assumes "slot_set (mp s) q s0 s"
  shows "slot_set (mp s) (q\<lparr>mp_effuid := exec_uid st q, mp_effgid := exec_gid st q\<rparr>) s0 (exec_ids st s)"
proof -
  have q: "mproctab s (mp s) = q" using slot_setD(1) [OF assms] by simp
  have m: "mp (upd_mp n f s) = mp s" "mp (tell x t) = mp t" for n f x t by (simp_all add: code_defs)
  have n: "q\<lparr>mp_effuid := mp_effuid q, mp_effgid := g\<rparr> = q\<lparr>mp_effgid := g\<rparr>" "q\<lparr>mp_effgid := mp_effgid q\<rparr> = q"
    "q\<lparr>mp_effuid := u, mp_effgid := mp_effgid q\<rparr> = q\<lparr>mp_effuid := u\<rparr>" for u g by simp_all
  note a = slot_set_steps(2) [OF assms]
  have u: "slot_set (mp s) (q\<lparr>mp_effuid := u\<rparr>) s0 (tell x (upd_mp (mp s) (\<lambda>p. p\<lparr>mp_effuid := u\<rparr>) s))" for u x
    by (rule slot_set_steps(1) [OF a])
  have g: "slot_set (mp s) (q\<lparr>mp_effgid := g\<rparr>) s0 (tell x (upd_mp (mp s) (\<lambda>p. p\<lparr>mp_effgid := g\<rparr>) s))" for g x
    by (rule slot_set_steps(1) [OF a])
  have ug: "slot_set (mp s) (q\<lparr>mp_effuid := u, mp_effgid := g\<rparr>) s0
     (tell y (upd_mp (mp s) (\<lambda>p. p\<lparr>mp_effgid := g\<rparr>) (tell x (upd_mp (mp s) (\<lambda>p. p\<lparr>mp_effuid := u\<rparr>) s))))" for u g x y
    by (rule slot_set_steps(1) [OF slot_set_steps(2) [OF u]])
  show ?thesis
    unfolding exec_ids_def exec_uid_def exec_gid_def Let_def q
    using assms u g ug by (simp add: q n m)
qed

lemma reset_frame:
  "mp_flags (reset_caught n p) = mp_flags p" "mp_seg (reset_caught n p) = mp_seg p"
  "reset_caught n (p\<lparr>mp_ino := i, mp_dev := d, mp_ctime := c\<rparr>) = (reset_caught n p)\<lparr>mp_ino := i, mp_dev := d, mp_ctime := c\<rparr>"
  "reset_caught n (p\<lparr>mp_effuid := u, mp_effgid := g\<rparr>) = (reset_caught n p)\<lparr>mp_effuid := u, mp_effgid := g\<rparr>"
  "reset_caught n (p\<lparr>mp_procargs := x\<rparr>) = (reset_caught n p)\<lparr>mp_procargs := x\<rparr>"
  by (simp_all add: reset_caught_def)

lemma fold_reset:
  "mp_flags (fold reset_caught sns p) = mp_flags p" "mp_seg (fold reset_caught sns p) = mp_seg p"
  "fold reset_caught sns (p\<lparr>mp_ino := i, mp_dev := d, mp_ctime := c\<rparr>) = (fold reset_caught sns p)\<lparr>mp_ino := i, mp_dev := d, mp_ctime := c\<rparr>"
  "fold reset_caught sns (p\<lparr>mp_effuid := u, mp_effgid := g\<rparr>) = (fold reset_caught sns p)\<lparr>mp_effuid := u, mp_effgid := g\<rparr>"
  "fold reset_caught sns (p\<lparr>mp_procargs := x\<rparr>) = (fold reset_caught sns p)\<lparr>mp_procargs := x\<rparr>"
  by (induction sns arbitrary: p) (simp_all add: reset_frame)

text \<open>Where the stack of the new program starts.\<close>

definition exec_sp :: "exec_image \<Rightarrow> mem_map \<Rightarrow> u32" where
  "exec_sp im m = push_bit CLICK_SHIFT (mem_vir m) + push_bit CLICK_SHIFT (mem_len m) - xi_bytes im"

lemma exec_load_exact:
  assumes "exec_load sh im s = Some s'"
  shows "slot_set (mp s) (exec_slot im (exec_sp im (mseg s (mp s) SegS)) (mproctab s (mp s))) s s'
    \<and> (\<exists>q. hist s' = SysExec (who s) (exec_sp im (mseg s (mp s) SegS)) (TRACED \<in> mflags s (mp s)) (base_name (xi_name im)) (eh_pc (xi_hdr im)) # q)"
proof -
  let ?vsp = "exec_sp im (mseg s (mp s) SegS)"
  let ?r = "mp s"
  let ?i = "\<lambda>p. p\<lparr>mp_ino := st_ino (xi_stat im), mp_dev := st_dev (xi_stat im), mp_ctime := st_ctime (xi_stat im)\<rparr>"
  let ?p = "?i (mproctab s ?r)"
  let ?e = "?p\<lparr>mp_effuid := exec_uid (xi_stat0 im) ?p, mp_effgid := exec_gid (xi_stat0 im) ?p\<rparr>"
  let ?f = "\<lambda>p. p\<lparr>mp_flags := mp_flags p - {SEPARATE} \<union> (if eh_sep (xi_hdr im) then {SEPARATE} else {})\<rparr>"
  let ?s1 = "upd_mp ?r ?i s"
  let ?v1 = "exec_sp im (mseg ?s1 ?r SegS)"
  let ?s9 = "\<lambda>q t. tell q (upd_mp ?r ?f (upd_mp ?r (fold reset_caught [1..NSIG]) (upd_mp ?r (\<lambda>p. p\<lparr>mp_procargs := ?v1\<rparr>) (exec_ids (xi_stat0 im) t))))"
  let ?e9 = "\<lambda>u. tell (SysExec (who u) ?v1 (TRACED \<in> mflags u ?r) (base_name (xi_name im)) (eh_pc (xi_hdr im))) u"
  have "\<exists>q a b c d. s' = ?e9 (?s9 q (tell a (tell b (tell c (tell d ?s1)))))"
    using assms unfolding exec_load_def Let_def ask_def prod.case exec_sp_def
    by (split if_split_asm, simp only: option.distinct, cases sh) (simp only: if_True if_False option.inject, blast)+
  then obtain q a b c d where e: "s' = ?e9 (?s9 q (tell a (tell b (tell c (tell d ?s1)))))" by blast
  have v1: "?v1 = ?vsp" by (simp add: upd_mp_def)
  define t where "t = tell a (tell b (tell c (tell d ?s1)))"
  define u where "u = ?s9 q t"
  have e: "s' = ?e9 u" unfolding u_def t_def by (rule e)
  have t: "slot_set ?r ?p s t" unfolding t_def by (intro slot_set_steps slot_set_refl)
  have m: "mp t = ?r" using slot_setD(2) [OF t] .
  have "slot_set ?r ?e s (exec_ids (xi_stat0 im) t)" using exec_ids_slot [of t ?p s "xi_stat0 im"] t m by simp
  then have "slot_set ?r (?f (fold reset_caught [1..NSIG] (?e\<lparr>mp_procargs := ?v1\<rparr>))) s u"
    unfolding u_def by (intro slot_set_steps)
  moreover have "?f (fold reset_caught [1..NSIG] (?e\<lparr>mp_procargs := ?v1\<rparr>)) = exec_slot im ?vsp (mproctab s ?r)"
    unfolding v1 by (simp only: exec_slot_def fold_reset) (simp add: exec_uid_def exec_gid_def fold_reset)
  ultimately have su: "slot_set ?r (exec_slot im ?vsp (mproctab s ?r)) s u" by simp
  then have "slot_set ?r (exec_slot im ?vsp (mproctab s ?r)) s s'" unfolding e by (rule slot_set_steps)
  moreover have "who u = who s" "TRACED \<in> mflags u ?r \<longleftrightarrow> TRACED \<in> mflags s ?r"
    using slot_setD(1,3) [OF su] by (simp_all add: exec_slot_def)
  then have "hist s' = SysExec (who s) ?vsp (TRACED \<in> mflags s ?r) (base_name (xi_name im)) (eh_pc (xi_hdr im)) # hist u"
    unfolding e v1 by (simp add: tell_def)
  ultimately show ?thesis by blast
qed

lemma exec_load_slot:
  assumes "exec_load sh im s = Some s'"
  shows "\<exists>vsp. slot_set (mp s) (exec_slot im vsp (mproctab s (mp s))) s s'"
  using exec_load_exact [OF assms] by blast

text \<open>What \<^verbatim>\<open>new_mem()\<close> gives back: its refusal keeps the invariant, its success leaves the
  process without memory but for its new segments.\<close>

definition new_image :: "nat set \<Rightarrow> aout_hdr \<Rightarrow> int option \<Rightarrow> mm \<Rightarrow> mproc \<Rightarrow> bool" where
  "new_image B h sh s q \<longleftrightarrow> mp_flags q \<inter> {WAITING, ONSWAP, SWAPIN} = {} \<and> (\<exists>nb text tot data gap stack.
     mp_seg q = exec_segs (map_option (\<lambda>n. mseg s n SegT) sh) nb text data gap stack
     \<and> text = round_clicks (if sh \<noteq> None then 0 else eh_text h) \<and> tot = round_clicks (eh_tot h) \<and> data + gap + stack = tot
     \<and> nb \<noteq> NO_MEM \<and> B = block (unat nb) (unat (text + tot)) \<and> unat nb + unat (text + tot) < unat (swap_base s))"

lemma new_imageI:
  assumes "mp_seg q = exec_segs (map_option (\<lambda>n. mseg s n SegT) sh) nb text data gap stack" "mp_flags q \<inter> {WAITING, ONSWAP, SWAPIN} = {}"
    "unat nb + unat (text + tot) < unat (swap_base s)" "text = round_clicks (if sh \<noteq> None then 0 else eh_text h)" "tot = round_clicks (eh_tot h)"
    "data + gap + stack = tot" "nb \<noteq> NO_MEM" "B = block (unat nb) (unat (text + tot))"
  shows "new_image B h sh s q"
  unfolding new_image_def using assms by blast

lemma new_mem_OK:
  assumes e: "new_mem stray sh h stk s = Some (OK, s')"
  defines "text_c \<equiv> round_clicks (if sh \<noteq> None then 0 else eh_text h)" and "data_c \<equiv> round_clicks (eh_data h + eh_bss h)"
    and "tot_c \<equiv> round_clicks (eh_tot h)" and "s0 \<equiv> (case stray of Some n \<Rightarrow> set_flags {WAITING} n s | None \<Rightarrow> s)"
  obtains nb s1 s2 where "alloc_mem (text_c + tot_c) s0 = Some (nb, s1)" "nb \<noteq> NO_MEM" "mp s1 = mp s" "exit_memory (mp s) s1 = Some s2"
    "slot_set (mp s) ((mproctab s2 (mp s))\<lparr>mp_seg := exec_segs (map_option (\<lambda>n. mseg s2 n SegT) sh) nb text_c data_c (tot_c - data_c - round_clicks stk) (round_clicks stk),
       mp_flags := mflags s2 (mp s) - {WAITING, ONSWAP, SWAPIN}\<rparr>) s2 s'"
proof -
  let ?gap = "tot_c - data_c - round_clicks stk"
  have gap: "\<not> sint ?gap < 0" using e unfolding new_mem_def Let_def data_c_def tot_c_def by auto
  obtain nb s1 where a: "alloc_mem (text_c + tot_c) s0 = Some (nb, s1)"
    using e gap unfolding new_mem_def Let_def text_c_def data_c_def tot_c_def s0_def
    by (cases "alloc_mem (round_clicks (if sh \<noteq> None then 0 else eh_text h) + round_clicks (eh_tot h)) (case stray of Some n \<Rightarrow> set_flags {WAITING} n s | None \<Rightarrow> s)") auto
  have nb: "nb \<noteq> NO_MEM" using e gap a unfolding new_mem_def Let_def text_c_def data_c_def tot_c_def s0_def by auto
  have "mp s0 = mp s" unfolding s0_def by (cases stray) (simp_all add: code_defs)
  then have r: "mp s1 = mp s" using alloc_mem_frame [OF a] unfolding swap_frame_def by simp
  obtain s2 where x: "exit_memory (mp s) s1 = Some s2"
    using e gap a nb r unfolding new_mem_def Let_def text_c_def data_c_def tot_c_def s0_def by (cases "exit_memory (mp s) s1") auto
  let ?m = "exec_segs (map_option (\<lambda>n. mseg s2 n SegT) sh) nb text_c data_c ?gap (round_clicks stk)"
  let ?s4 = "clear_flags {WAITING, ONSWAP, SWAPIN} (mp s) (tell (SysNewmap (who s2) ?m) (upd_mp (mp s) (\<lambda>p. p\<lparr>mp_seg := ?m\<rparr>) s2))"
  obtain off len where z: "zero_loop off len ?s4 = Some s'"
    using e gap a nb r x unfolding new_mem_def Let_def text_c_def data_c_def tot_c_def s0_def by (auto simp: bind_eq_Some_conv)
  have "slot_set (mp s) ((mproctab s2 (mp s))\<lparr>mp_seg := ?m, mp_flags := mflags s2 (mp s) - {WAITING, ONSWAP, SWAPIN}\<rparr>) s2 ?s4"
    by (simp add: slot_set_def code_defs)
  then have "slot_set (mp s) ((mproctab s2 (mp s))\<lparr>mp_seg := ?m, mp_flags := mflags s2 (mp s) - {WAITING, ONSWAP, SWAPIN}\<rparr>) s2 s'"
    using zero_loop_hist [OF z] by (auto simp: slot_set_def hist_only_def)
  then show thesis using that a nb r x by blast
qed

lemma new_mem_fails: "new_mem stray sh h stk s = Some (r, s') \<Longrightarrow> r \<noteq> OK \<Longrightarrow>
    s' = (case stray of Some n \<Rightarrow> set_flags {WAITING} n s | None \<Rightarrow> s)
  \<or> (\<exists>k. alloc_mem k (case stray of Some n \<Rightarrow> set_flags {WAITING} n s | None \<Rightarrow> s) = Some (NO_MEM, s'))"
  unfolding new_mem_def Let_def by (auto simp: bind_eq_Some_conv split: if_split_asm)

lemma new_mem_mem:
  assumes m: "mem_inv s" and st: "case stray of None \<Rightarrow> True | Some n \<Rightarrow> n \<in> set user_slots \<longrightarrow> live s n"
    and u: "mp s \<in> set user_slots" "live s (mp s)" and tot: "round_clicks (eh_tot h) \<noteq> 0"
    and e: "new_mem stray sh h stk s = Some (r, s')"
  shows "r \<noteq> OK \<and> mem_inv s' \<or> r = OK \<and> (\<exists>B t q. mem_dying_hold B (mp s) t \<and> slot_set (mp s) q t s' \<and> new_image B h sh t q
     \<and> mp_flags q - {WAITING, ONSWAP, SWAPIN} = mflags t (mp s) - {WAITING, ONSWAP, SWAPIN} \<and> mp t = mp s
     \<and> (\<forall>n x. x \<noteq> WAITING \<longrightarrow> x \<noteq> ONSWAP \<longrightarrow> (x \<in> mflags t n \<longleftrightarrow> x \<in> mflags s n))
     \<and> (\<forall>n. (mp_ino (mproctab t n), mp_dev (mproctab t n), mp_ctime (mproctab t n)) = (mp_ino (mproctab s n), mp_dev (mproctab s n), mp_ctime (mproctab s n))))"
proof -
  let ?s0 = "case stray of Some n \<Rightarrow> set_flags {WAITING} n s | None \<Rightarrow> s"
  let ?text = "round_clicks (if sh \<noteq> None then 0 else eh_text h)" and ?data = "round_clicks (eh_data h + eh_bss h)"
    and ?stack = "round_clicks stk" and ?tot = "round_clicks (eh_tot h)"
  let ?gap = "?tot - ?data - ?stack"
  have m0: "mem_inv ?s0" using m stray_mem st by (cases stray) simp_all
  have f0: "mp ?s0 = mp s" "mproctab ?s0 n\<lparr>mp_flags := {}\<rparr> = mproctab s n\<lparr>mp_flags := {}\<rparr>" "mflags ?s0 n - {WAITING} = mflags s n - {WAITING}" for n
    by (cases stray; simp add: code_defs)+
  have lt: "unat ?text < 2 ^ 22" "unat ?tot < 2 ^ 22" by (rule round_clicks_less)+
  then have sum: "unat (?text + ?tot) = unat ?text + unat ?tot" by (simp add: unat_word_ariths)
  then have k0: "?text + ?tot \<noteq> 0" using tot by (metis add_is_0 unat_0 unat_eq_0)
  show ?thesis
  proof (cases "r = OK")
    case False
    have "mem_inv s'" using e
    proof (cases "sint ?gap < 0")
      case True
      then show ?thesis using e m0 by (simp add: new_mem_def Let_def)
    next
      case gap: False
      then obtain nb where "alloc_mem (?text + ?tot) ?s0 = Some (nb, s')" "nb = NO_MEM"
        using e False unfolding new_mem_def Let_def by (auto simp: bind_eq_Some_conv split: if_split_asm)
      then show ?thesis using alloc_mem_spec [OF m0 k0] by blast
    qed
    then show ?thesis using False by simp
  next
    case True
    obtain nb s1 s2 where a: "alloc_mem (?text + ?tot) ?s0 = Some (nb, s1)" and nb: "nb \<noteq> NO_MEM" and r: "mp s1 = mp s"
      and x: "exit_memory (mp s) s1 = Some s2"
      and q: "slot_set (mp s) ((mproctab s2 (mp s))\<lparr>mp_seg := exec_segs (map_option (\<lambda>n. mseg s2 n SegT) sh) nb ?text ?data ?gap ?stack,
        mp_flags := mflags s2 (mp s) - {WAITING, ONSWAP, SWAPIN}\<rparr>) s2 s'"
      using e unfolding True by (rule new_mem_OK)
    let ?m = "exec_segs (map_option (\<lambda>n. mseg s2 n SegT) sh) nb ?text ?data ?gap ?stack"
    let ?q = "(mproctab s2 (mp s))\<lparr>mp_seg := ?m, mp_flags := mflags s2 (mp s) - {WAITING, ONSWAP, SWAPIN}\<rparr>"
    note fr = alloc_mem_frame [OF a]
    have hold: "mem_hold (block (unat nb) (unat (?text + ?tot))) s1" "unat nb + unat (?text + ?tot) < unat (swap_base s1)"
      using alloc_mem_spec [OF m0 k0 a] nb by blast+
    have l1: "live s1 (mp s)" using swap_frame_live [OF fr] u(2) f0(3) [of "mp s"] by (auto simp: live_def)
    have d: "mem_dying_hold (block (unat nb) (unat (?text + ?tot))) (mp s) s2" "holes_only s1 s2"
      using exit_memory_hold [OF hold(1) u(1) l1 x] by blast+
    note t2 = holes_onlyD [OF d(2)]
    have "new_image (block (unat nb) (unat (?text + ?tot))) h sh s2 ?q"
    proof (rule new_imageI)
      show "mp_seg ?q = exec_segs (map_option (\<lambda>n. mseg s2 n SegT) sh) nb ?text ?data ?gap ?stack" by simp
      show "mp_flags ?q \<inter> {WAITING, ONSWAP, SWAPIN} = {}" by auto
      show "unat nb + unat (?text + ?tot) < unat (swap_base s2)" using hold(2) t2(2) by simp
    qed (use nb in simp_all)
    moreover have "x \<in> mflags s2 n \<longleftrightarrow> x \<in> mflags s n" if "x \<noteq> WAITING" "x \<noteq> ONSWAP" for x n
    proof -
      have "swap_rel (mproctab ?s0 n) (mproctab s1 n)" using fr unfolding swap_frame_def by blast
      then have "x \<in> mflags s1 n \<longleftrightarrow> x \<in> mflags ?s0 n" using that(2) by (rule swap_rel_flag)
      moreover have "x \<in> mflags ?s0 n \<longleftrightarrow> x \<in> mflags s n" using f0(3) [of n] that(1) by blast
      ultimately show ?thesis unfolding t2(1) by simp
    qed
    moreover have "(mp_ino (mproctab s2 n), mp_dev (mproctab s2 n), mp_ctime (mproctab s2 n)) = (mp_ino (mproctab s n), mp_dev (mproctab s n), mp_ctime (mproctab s n))" for n
    proof -
      have "swap_rel (mproctab ?s0 n) (mproctab s1 n)" using fr unfolding swap_frame_def by blast
      note g = swap_rel_fields(1-3) [OF this]
      have "mp_ino (mproctab ?s0 n) = mp_ino (mproctab s n)" "mp_dev (mproctab ?s0 n) = mp_dev (mproctab s n)" "mp_ctime (mproctab ?s0 n) = mp_ctime (mproctab s n)"
        by (cases stray; simp add: code_defs)+
      then show ?thesis using g unfolding t2(1) by simp
    qed
    moreover have "mp s2 = mp s" using t2(10) r by simp
    ultimately show ?thesis using d(1) True q
      by (intro disjI2 conjI exI [of _ "block (unat nb) (unat (?text + ?tot))"] exI [of _ s2] exI [of _ ?q]) auto
  qed
qed

lemma slot_set_trans: "slot_set r q s t \<Longrightarrow> slot_set r q' t u \<Longrightarrow> slot_set r q' s u"
proof -
  assume a: "slot_set r q s t" "slot_set r q' t u"
  have "u\<lparr>mproctab := mproctab s, hist := hist s\<rparr> = (u\<lparr>mproctab := mproctab t, hist := hist t\<rparr>)\<lparr>mproctab := mproctab s, hist := hist s\<rparr>" by simp
  also have "u\<lparr>mproctab := mproctab t, hist := hist t\<rparr> = t" using a(2) by (simp only: slot_set_def)
  also have "t\<lparr>mproctab := mproctab s, hist := hist s\<rparr> = s" using a(1) by (simp only: slot_set_def)
  finally show ?thesis using a by (simp add: slot_set_def)
qed

lemma exec_slot_fields:
  "mp_seg (exec_slot im vsp q) = mp_seg q" "mp_ino (exec_slot im vsp q) = st_ino (xi_stat im)" "mp_dev (exec_slot im vsp q) = st_dev (xi_stat im)"
  "mp_ctime (exec_slot im vsp q) = st_ctime (xi_stat im)"
  "mp_flags (exec_slot im vsp q) = mp_flags q - {SEPARATE} \<union> (if eh_sep (xi_hdr im) then {SEPARATE} else {})"
  by (simp_all add: exec_slot_def fold_reset)

lemma exec_segs_data:
  "mem_phys (exec_segs sh nb text data gap stack SegD) = nb + text" "image_clicks (exec_segs sh nb text data gap stack) = data + gap + stack"
  by (simp_all add: exec_segs_def image_clicks_def)

text \<open>The new image in the terms of the invariant.\<close>

lemma new_image_spans:
  assumes n: "new_image B h sh s q" and tot: "round_clicks (eh_tot h) \<noteq> 0"
  obtains nb tx tot where "B = block nb (tx + tot)" "nb \<noteq> 0" "nb + tx + tot < unat (swap_base s)" "tot \<noteq> 0"
    "unat (mem_phys (mp_seg q SegD)) = nb + tx" "unat (image_clicks (mp_seg q)) = tot"
    "sh = None \<Longrightarrow> unat (mem_phys (mp_seg q SegT)) = nb \<and> unat (mem_len (mp_seg q SegT)) = tx \<and> tx = unat (round_clicks (eh_text h))"
    "\<And>m. sh = Some m \<Longrightarrow> mp_seg q SegT = mseg s m SegT"
proof -
  obtain nb tx tot data gap stack where q: "mp_seg q = exec_segs (map_option (\<lambda>n. mseg s n SegT) sh) nb tx data gap stack"
    and e: "tx = round_clicks (if sh \<noteq> None then 0 else eh_text h)" "tot = round_clicks (eh_tot h)" "data + gap + stack = tot"
    and b: "nb \<noteq> NO_MEM" "B = block (unat nb) (unat (tx + tot))" "unat nb + unat (tx + tot) < unat (swap_base s)"
    using n unfolding new_image_def by blast
  have "unat tx < 2 ^ 22" "unat tot < 2 ^ 22" unfolding e by (rule round_clicks_less)+
  then have sum: "unat (tx + tot) = unat tx + unat tot" by (simp add: unat_word_ariths)
  have sb: "unat (swap_base s) < 2 ^ 32" using unsigned_less [where ?'a = nat, of "swap_base s"] by simp
  have nt: "unat (nb + tx) = unat nb + unat tx" using b(3) sum sb by (simp add: unat_word_ariths)
  show thesis
  proof (rule that [of "unat nb" "unat tx" "unat tot"])
    show "B = block (unat nb) (unat tx + unat tot)" using b(2) sum by simp
    show "unat nb + unat tx + unat tot < unat (swap_base s)" using b(3) sum by simp
  qed (use b(1) tot e q nt in \<open>auto simp: exec_segs_data unat_eq_0 exec_segs_def\<close>)
qed

lemma mm_do_exec_mem:
  assumes m: "mem_inv s" and u: "mp s \<in> set user_slots" "live s (mp s)" and g: "exec_grants x s" and e: "mm_do_exec x s = Some (r, s')"
  shows "mem_inv s'"
proof -
  obtain z s1 where o: "exec_open x s = Some (z, s1)" using e by (cases "exec_open x s") (auto simp: mm_do_exec_def)
  note h1 = exec_open_hist [OF o] and m1 = hist_only_mem [OF exec_open_hist [OF o] m]
  note t1 = hist_onlyD [OF h1]
  show ?thesis
  proof (cases z)
    case (Inl y)
    then show ?thesis using e o m1 by (simp add: mm_do_exec_def)
  next
    case (Inr im)
    let ?h = "xi_hdr im" and ?st = "xi_stat im" and ?r = "mp s"
    define sh where "sh = find_share ?r (st_ino ?st) (st_dev ?st) (st_ctime ?st) s1"
    note sz = exec_open_sizes [OF o [unfolded Inr]]
    have tot: "round_clicks (eh_tot ?h) \<noteq> 0" using sz(1) by auto
    have st: "case xa_stray x of None \<Rightarrow> True | Some n \<Rightarrow> n \<in> set user_slots \<longrightarrow> live s1 n"
      using g unfolding exec_grants_def live_def t1(1) by blast
    have sep: "sh \<noteq> None \<longrightarrow> eh_sep ?h" using g o Inr t1(2) unfolding exec_grants_def sh_def by simp
    have u1: "mp s1 \<in> set user_slots" "live s1 (mp s1)" using u t1(1,2) by (simp_all add: live_def)
    obtain y s2 where n: "new_mem (xa_stray x) sh ?h (xi_bytes im) s1 = Some (y, s2)"
      using e o Inr t1(2) unfolding mm_do_exec_def sh_def by (cases "new_mem (xa_stray x) sh ?h (xi_bytes im) s1") (auto simp: sh_def)
    note nm = new_mem_mem [OF m1 st u1 tot n, unfolded t1(2)]
    show ?thesis
    proof (cases "y = OK")
      case False
      then have "s' = tell (Close (xi_fd im)) s2" using e o Inr n t1(2) unfolding mm_do_exec_def sh_def by simp
      moreover have "mem_inv s2" using nm False by blast
      ultimately show ?thesis by (simp add: mem_inert [OF _ inert_tell])
    next
      case True
      then have l: "exec_load (sh \<noteq> None) im s2 = Some s'" using e o Inr n t1(2) unfolding mm_do_exec_def sh_def by (auto simp: Let_def)
      obtain B t q where d: "mem_dying_hold B ?r t" and q: "slot_set ?r q t s2" "new_image B ?h sh t q"
        and f: "mp_flags q - {WAITING, ONSWAP, SWAPIN} = mflags t ?r - {WAITING, ONSWAP, SWAPIN}" "mp t = ?r"
          "\<forall>n x. x \<noteq> WAITING \<longrightarrow> x \<noteq> ONSWAP \<longrightarrow> (x \<in> mflags t n \<longleftrightarrow> x \<in> mflags s1 n)"
        and fi: "\<forall>n. (mp_ino (mproctab t n), mp_dev (mproctab t n), mp_ctime (mproctab t n)) = (mp_ino (mproctab s1 n), mp_dev (mproctab s1 n), mp_ctime (mproctab s1 n))"
        using nm True by blast
      have "mp s2 = ?r" "mproctab s2 ?r = q" using slot_setD(1,2) [OF q(1)] f(2) by simp_all
      then obtain vsp where "slot_set ?r (exec_slot im vsp q) s2 s'" using exec_load_slot [OF l] by auto
      then have v: "slot_set ?r (exec_slot im vsp q) t s'" using slot_set_trans [OF q(1)] by blast
      note vD = slot_setD [OF v]
      have pm: "pmem_of s' ?r = \<lparr>pm_live = live s' ?r, pm_sep = eh_sep ?h, pm_swapped = ONSWAP \<in> mp_flags q,
          pm_data = (unat (mem_phys (mp_seg q SegD)), unat (image_clicks (mp_seg q))),
          pm_text = (unat (mem_phys (mp_seg q SegT)), unat (mem_len (mp_seg q SegT))), pm_file = (st_ino ?st, st_dev ?st, st_ctime ?st)\<rparr>"
        by (simp add: pmem_of_def vD(1) exec_slot_fields)
      obtain nb tx tot' where B: "B = block nb (tx + tot')" "nb \<noteq> 0" "nb + tx + tot' < unat (swap_base t)" "tot' \<noteq> 0"
        and D: "unat (mem_phys (mp_seg q SegD)) = nb + tx" "unat (image_clicks (mp_seg q)) = tot'"
        and T: "sh = None \<Longrightarrow> unat (mem_phys (mp_seg q SegT)) = nb \<and> unat (mem_len (mp_seg q SegT)) = tx \<and> tx = unat (round_clicks (eh_text ?h))"
          "\<And>m. sh = Some m \<Longrightarrow> mp_seg q SegT = mseg t m SegT"
        using new_image_spans [OF q(2) tot] by blast
      have sb: "unat (swap_base t) < 2 ^ 32" using unsigned_less [where ?'a = nat, of "swap_base t"] by simp
      show ?thesis
      proof (rule enter_mem [OF d u(1) vD(1) vD(4-8)])
        have nq: "IN_USE \<in> mp_flags q" "ZOMBIE \<notin> mp_flags q"
          using f(1,3) u1 t1(2) unfolding live_def by auto
        then show "IN_USE \<in> mp_flags (exec_slot im vsp q)" by (simp add: exec_slot_fields)
        show "mp_flags (exec_slot im vsp q) \<inter> {ZOMBIE, ONSWAP, SWAPIN} = {}"
          using nq q(2) unfolding new_image_def by (auto simp: exec_slot_fields)
        show "span_ok (pm_data (pmem_of s' ?r))" "fst (pm_data (pmem_of s' ?r)) + snd (pm_data (pmem_of s' ?r)) < unat (swap_base t)"
          "data_of (pmem_of s' ?r) \<subseteq> B"
          unfolding pm using B D sb by (auto simp: span_ok_def block_def)
      next
        show "snd (pm_text (pmem_of s' ?r)) = 0
          \<or> span_ok (pm_text (pmem_of s' ?r)) \<and> SEPARATE \<in> mp_flags (exec_slot im vsp q) \<and> fst (pm_text (pmem_of s' ?r)) + snd (pm_text (pmem_of s' ?r)) < unat (swap_base t)
            \<and> text_of (pmem_of s' ?r) \<subseteq> B \<and> text_of (pmem_of s' ?r) \<inter> data_of (pmem_of s' ?r) = {}
          \<or> (\<exists>n \<in> set user_slots. n \<noteq> ?r \<and> live t n \<and> pm_text (pmem_of s' ?r) = pm_text (pmem_of t n) \<and> shares (pmem_of s' ?r) (pmem_of t n))"
        proof (cases sh)
          case None
          note T = T(1) [OF None]
          show ?thesis
          proof (cases "tx = 0")
            case True
            then show ?thesis unfolding pm using T by simp
          next
            case False
            then have "eh_sep ?h" using T sz(2) by (auto simp: round_clicks_def)
            then show ?thesis unfolding pm using T B D sb False by (auto simp: span_ok_def block_def exec_slot_fields)
          qed
        next
          case (Some n)
          then have n: "n \<in> set user_slots" "SEPARATE \<in> mflags s1 n" "n \<noteq> ?r" "mp_ino (mproctab s1 n) = st_ino ?st"
            "mp_dev (mproctab s1 n) = st_dev ?st" "mp_ctime (mproctab s1 n) = st_ctime ?st"
            unfolding sh_def find_share_def find_Some_iff by (auto simp: nth_mem simp del: mem_slots)
          have "SEPARATE \<in> mflags t n" using f(3) n(2) by simp
          moreover have "live t n"
          proof -
            obtain hs where "mem_ok (pmem_of s1) (unat (swap_base s1)) (free_clicks s1 hs)" using m1 unfolding mem_hold_def by auto
            then have "live s1 n" using n(1,2) unfolding mem_ok_def by auto
            then show ?thesis using f(3) unfolding live_def by simp
          qed
          moreover have "mp_seg q SegT = mseg t n SegT" using T(2) Some by blast
          moreover have "mp_ino (mproctab t n) = st_ino ?st" "mp_dev (mproctab t n) = st_dev ?st" "mp_ctime (mproctab t n) = st_ctime ?st"
            using fi n(4-6) by simp_all
          ultimately show ?thesis using n(1,3) sep Some unfolding pm by (intro disjI2 bexI [of _ n]) (auto simp: shares_def)
        qed
      qed
    qed
  qed
qed

subsection \<open>Every call\<close>

text \<open>The callers: a live user process, or the kernel with signals.\<close>

definition mm_caller :: "int \<Rightarrow> mm_call \<Rightarrow> mm \<Rightarrow> bool" where
  "mm_caller src c s \<longleftrightarrow> src \<in> set user_slots \<and> live s src \<or> src = HARDWARE \<and> (\<exists>n ss. c = MKsig n ss)"

text \<open>What the environment must grant to a call of \<^verbatim>\<open>execve()\<close>.\<close>

definition call_grants :: "int \<Rightarrow> mm_call \<Rightarrow> mm \<Rightarrow> bool" where
  "call_grants src c s \<longleftrightarrow> (case c of MExec x \<Rightarrow> exec_grants x (get_work src s) | _ \<Rightarrow> True)"

text \<open>Calls that change the swap area itself are left out.\<close>

definition swap_area_call :: "mm_call \<Rightarrow> bool" where
  "swap_area_call c \<longleftrightarrow> (case c of MSvrctl r q ptr \<Rightarrow> (case q of MmSwapon f off n \<Rightarrow> True | MmSwapoff \<Rightarrow> True | _ \<Rightarrow> False) | _ \<Rightarrow> False)"

text \<open>Any call of a legitimate caller.\<close>

lemma call_vec_mem:
  assumes m: "mem_inv s" and w: "mp s \<in> set user_slots \<and> live s (mp s) \<or> (\<exists>n ss. c = MKsig n ss)" and na: "\<not> swap_area_call c"
    and g: "\<And>x. c = MExec x \<Longrightarrow> exec_grants x s" and e: "call_vec c s = Some (r, s')"
  shows "mem_inv s'"
proof (cases c)
  case (MExit st)
  then have "mp s \<in> set user_slots" "live s (mp s)" "mm_exit (mp s) st s = Some s'" using w e by (auto simp: call_vec_def do_mm_exit_def)
  then show ?thesis using mm_exit_mem [OF m] by blast
next
  case MFork
  then show ?thesis using mm_do_fork_mem [OF m] w e by (auto simp: call_vec_def)
next
  case (MWait p o')
  then show ?thesis using do_waitpid_mem [OF m] w e by (auto simp: call_vec_def)
next
  case (MBrk a)
  then show ?thesis using do_brk_mem [OF m] e by (auto simp: call_vec_def)
next
  case (MGetset g)
  then show ?thesis using do_getset_mem [OF m, of g] e by (auto simp: call_vec_def)
next
  case (MTrace en req pid a d)
  then show ?thesis using mm_do_trace_mem [OF m] e by (auto simp: call_vec_def)
next
  case (MAlarm sec)
  then show ?thesis using mem_inert [OF m inert_set_alarm] e by (auto simp: call_vec_def do_alarm_def)
next
  case MPause
  then show ?thesis using do_pause_mem [OF m] w e by (auto simp: call_vec_def)
next
  case (MKill pid sig)
  then show ?thesis using check_sig_mem [OF _ m] e by (auto simp: call_vec_def mm_do_kill_def)
next
  case (MKsig n ss)
  then show ?thesis using do_ksig_mem [OF m] e by (auto simp: call_vec_def)
next
  case (MSigaction sig osa nsa ret)
  then show ?thesis using do_sigaction_mem [OF m, of sig osa nsa ret] e by (auto simp: call_vec_def)
next
  case (MSigsuspend ss)
  then show ?thesis using do_sigsuspend_mem [OF m] w e by (auto simp: call_vec_def)
next
  case MSigpending
  then have "inert s s'" using e by (auto simp: call_vec_def do_sigpending_def)
  then show ?thesis by (rule mem_inert [OF m])
next
  case (MSigprocmask how ss)
  then show ?thesis using do_sigprocmask_mem [OF m] w e by (auto simp: call_vec_def)
next
  case (MSigreturn ss ctx)
  then show ?thesis using mm_do_sigreturn_mem [OF m] w e by (auto simp: call_vec_def)
next
  case (MReboot f cd n)
  then show ?thesis using do_reboot_mem [OF m] e by (auto simp: call_vec_def)
next
  case (MSvrctl x q ptr)
  show ?thesis
  proof (cases q)
    case (KernelCtl n)
    then have "inert s s'" using e MSvrctl by (auto simp: call_vec_def mm_do_svrctl_def ask_def Let_def)
    then show ?thesis by (rule mem_inert [OF m])
  next
    case MmSignon
    then show ?thesis using mm_signon_mem [OF m] e MSvrctl by (auto simp: call_vec_def mm_do_svrctl_def)
  qed (use na e m MSvrctl in \<open>auto simp: swap_area_call_def call_vec_def mm_do_svrctl_def\<close>)
next
  case (MExec x)
  then show ?thesis using mm_do_exec_mem [OF m _ _ g] w e by (auto simp: call_vec_def)
next
  case MNoSys
  then show ?thesis using m e by (simp add: call_vec_def)
next
  case MBadCall
  then show ?thesis using m e by (simp add: call_vec_def)
qed

theorem mm_step_mem:
  assumes m: "mem_inv s" and w: "mm_caller src c s" and na: "\<not> swap_area_call c" and g: "call_grants src c s" and e: "mm_step src c s = Some s'"
  shows "mem_inv s'"
proof -
  let ?s = "get_work src s"
  have m0: "mem_inv ?s" by (rule mem_keep [OF m mem_same_state]) (simp_all add: get_work_def)
  obtain r s1 where c: "call_vec c ?s = Some (r, s1)"
    and b: "Option.bind (if r \<noteq> SUSPEND then setreply (who s1) r s1 else Some s1) (\<lambda>s2. Option.bind (swap_in s2) (send_replies all_slots)) = Some s'"
    using e unfolding mm_step_def by (cases "call_vec c ?s") auto
  obtain s2 s3 where r': "(if r \<noteq> SUSPEND then setreply (who s1) r s1 else Some s1) = Some s2"
    and i: "swap_in s2 = Some s3" and o: "send_replies all_slots s3 = Some s'"
    using b unfolding bind_eq_Some_conv by blast
  have r: "s2 = s1 \<or> setreply (who s1) r s1 = Some s2" using r' by (cases "r = SUSPEND") simp_all
  have gx: "exec_grants x ?s" if "c = MExec x" for x using g that by (simp add: call_grants_def)
  have "mp ?s \<in> set user_slots \<and> live ?s (mp ?s) \<or> (\<exists>n ss. c = MKsig n ss)"
    using w by (auto simp: mm_caller_def get_work_def live_def)
  then have "mem_inv s1" using call_vec_mem [OF m0 _ na gx c] by blast
  then have "mem_inv s2" using r mem_inert inert_setreply by blast
  then show ?thesis using send_replies_mem [OF o] swap_in_mem [OF i] by blast
qed

end
