(* ===== verification/MM_Sigkill_Calls.thy ===== *)
theory MM_Sigkill_Calls
  imports MM_Sigkill MM_Memory_Exec
begin

text \<open>
  Every system call, and so every step of the memory manager, keeps SIGKILL out of the masks of
  all processes (\<open>mm_step_kill\<close>).
\<close>

lemma kill_inv_ask [simp]: "kill_inv (snd (ask q s)) = kill_inv s"
  by (simp add: ask_def)

lemma kill_inv_fields [simp]:
  "kill_inv (s\<lparr>mp := a\<rparr>) = kill_inv s" "kill_inv (s\<lparr>who := a\<rparr>) = kill_inv s" "kill_inv (s\<lparr>next_pid := a\<rparr>) = kill_inv s"
  "kill_inv (s\<lparr>swap_fd := a\<rparr>) = kill_inv s" "kill_inv (s\<lparr>swap_offset := o'\<rparr>) = kill_inv s" "kill_inv (s\<lparr>in_queue := q\<rparr>) = kill_inv s"
  by (simp_all add: kill_inv_def)

lemma kill_inv_mask: "kill_inv s \<Longrightarrow> (\<And>p. \<not> bit (mp_sigmask p) 9 \<Longrightarrow> \<not> bit (f p) 9) \<Longrightarrow> kill_inv (upd_mp n (\<lambda>p. p\<lparr>mp_sigmask := f p\<rparr>) s)"
  by (rule kill_inv_upd) (auto simp: kill_ok_def dest: kill_invD [of s n])

subsection \<open>The calls on signals\<close>

lemma add_members_bit9:
  "bit (fold (\<lambda>i m. if sigismember ss i \<noteq> 0 then sigaddset m i else m) is m) 9 \<Longrightarrow> \<not> bit ss 9 \<Longrightarrow> bit m 9"
proof (induction "is" arbitrary: m)
  case (Cons i "is")
  then have "bit (if sigismember ss i \<noteq> 0 then sigaddset m i else m) 9" by simp
  then show ?case using Cons.prems(2) bit9_add [of m i] bit9_member [of ss] by (auto split: if_splits)
qed simp

lemma del_members_bit9:
  "bit (fold (\<lambda>i m. if sigismember ss i \<noteq> 0 then sigdelset m i else m) is m) 9 \<Longrightarrow> bit m 9"
proof (induction "is" arbitrary: m)
  case (Cons i "is")
  then have "bit (if sigismember ss i \<noteq> 0 then sigdelset m i else m) 9" by simp
  then show ?case using bit9_del [of m i] by (auto split: if_splits)
qed simp

lemma set_action_kill: "kill_ok p \<Longrightarrow> sig \<noteq> SIGKILL \<Longrightarrow> kill_ok (set_action sig svec ret p)"
  by (auto simp: kill_ok_def set_action_def Let_def bit9_add bit9_del)

lemma do_sigaction_kill: "kill_inv s \<Longrightarrow> kill_inv (snd (do_sigaction sig osa nsa ret s))"
  unfolding do_sigaction_def ask_def Let_def
  by (auto intro!: kill_inv_upd set_action_kill kill_invD)

lemma do_sigprocmask_kill: "do_sigprocmask how ss s = Some (r, s') \<Longrightarrow> kill_inv s \<Longrightarrow> kill_inv s'"
proof -
  assume e: "do_sigprocmask how ss s = Some (r, s')" and i: "kill_inv s"
  let ?s1 = "upd_mp (mp s) (\<lambda>p. p\<lparr>reply_mask := mp_sigmask p\<rparr>) s"
  have i1: "kill_inv ?s1" by (rule kill_inv_keep [OF i]) simp
  have "kill_inv (upd_mp (mp s) (\<lambda>p. p\<lparr>mp_sigmask := add_members (sigdelset ss SIGKILL) (mp_sigmask p)\<rparr>) ?s1)"
    "kill_inv (upd_mp (mp s) (\<lambda>p. p\<lparr>mp_sigmask := del_members ss (mp_sigmask p)\<rparr>) ?s1)"
    "kill_inv (upd_mp (mp s) (\<lambda>p. p\<lparr>mp_sigmask := sigdelset ss SIGKILL\<rparr>) ?s1)"
    by (rule kill_inv_mask [OF i1], unfold add_members_def, blast dest: add_members_bit9 bit9_del [THEN iffD1])
       (rule kill_inv_mask [OF i1], unfold del_members_def, blast dest: del_members_bit9,
        rule kill_inv_mask [OF i1], simp add: bit9_del)
  then show ?thesis using e i1 check_pending_kill unfolding do_sigprocmask_def Let_def
    by (auto simp del: upto_rec_numeral split: if_splits)
qed

lemma do_sigsuspend_kill: "do_sigsuspend ss s = Some (r, s') \<Longrightarrow> kill_inv s \<Longrightarrow> kill_inv s'"
proof -
  assume e: "do_sigsuspend ss s = Some (r, s')" and i: "kill_inv s"
  have "kill_inv (upd_mp (mp s) (\<lambda>p. p\<lparr>mp_sigmask2 := mp_sigmask p\<rparr>) s)" by (rule kill_inv_keep [OF i]) simp
  then have "kill_inv (upd_mp (mp s) (\<lambda>p. p\<lparr>mp_sigmask := sigdelset ss SIGKILL\<rparr>) (upd_mp (mp s) (\<lambda>p. p\<lparr>mp_sigmask2 := mp_sigmask p\<rparr>) s))"
    by (rule kill_inv_mask) (simp add: bit9_del)
  then show ?thesis using e check_pending_kill kill_inv_flags(1) unfolding do_sigsuspend_def Let_def by blast
qed

lemma mm_do_sigreturn_kill: "mm_do_sigreturn ss c s = Some (r, s') \<Longrightarrow> kill_inv s \<Longrightarrow> kill_inv s'"
proof -
  assume e: "mm_do_sigreturn ss c s = Some (r, s')" and i: "kill_inv s"
  have "kill_inv (upd_mp (mp s) (\<lambda>p. p\<lparr>mp_sigmask := sigdelset ss SIGKILL\<rparr>) s)" by (rule kill_inv_mask [OF i]) (simp add: bit9_del)
  then show ?thesis using e check_pending_kill kill_inv_tell unfolding mm_do_sigreturn_def ask_def Let_def by (auto; blast)
qed

lemma ksig_loop_kill: "ksig_loop n i m gs s = Some s' \<Longrightarrow> kill_inv s \<Longrightarrow> kill_inv s'"
proof (induction gs arbitrary: s)
  case (Cons g gs)
  have "kill_inv t" if o: "ksig_one n i g s = Some t" for t
  proof -
    let ?s1 = "if g = SIGALRM then clear_flags {ALARM_ON} n s else s"
    have "kill_inv ?s1" using Cons.prems(2) kill_inv_flags(2) by simp
    moreover have "t = s \<or> (\<exists>d r s2. check_sig d g ?s1 = Some (r, s2) \<and> t = tell (SysEndsig n) s2)"
      using o unfolding ksig_one_def Let_def by (auto split: if_split_asm)
    ultimately show ?thesis using Cons.prems(2) check_sig_kill kill_inv_tell by blast
  qed
  then show ?case using Cons by (auto simp: bind_eq_Some_conv split: if_splits)
qed simp

lemma do_ksig_kill: "do_ksig n ss s = Some (r, s') \<Longrightarrow> kill_inv s \<Longrightarrow> kill_inv s'"
proof -
  assume e: "do_ksig n ss s = Some (r, s')" and i: "kill_inv s"
  let ?s2 = "upd_mp 0 (\<lambda>p. p\<lparr>mp_procgrp := mp_procgrp (mproctab (s\<lparr>mp := 0\<rparr>) n)\<rparr>) (s\<lparr>mp := 0\<rparr>)"
  have "kill_inv ?s2" by (rule kill_inv_keep) (use i in simp_all)
  moreover have "s' = s \<or> ksig_loop n (mp_pid (mproctab s n)) ss [1..NSIG] ?s2 = Some s'"
    using e unfolding do_ksig_def Let_def by (auto simp del: upto_rec_numeral split: if_split_asm)
  ultimately show ?thesis using i ksig_loop_kill by blast
qed

subsection \<open>The other calls\<close>

lemma swap_frame_kill: "swap_frame s s' \<Longrightarrow> kill_inv s \<Longrightarrow> kill_inv s'"
  unfolding kill_inv_def
proof
  fix n assume f: "swap_frame s s'" and i: "\<forall>n. kill_ok (mproctab s n)"
  note e = f [unfolded swap_frame_def swap_rel_def, THEN conjunct1, rule_format, of n, THEN conjunct1]
  have "kill_ok (mproctab s' n) = kill_ok (mproctab s n)"
    using arg_cong [OF e, of mp_ignore] arg_cong [OF e, of mp_catch] arg_cong [OF e, of mp_sigmask] arg_cong [OF e, of mp_sigact]
    by (intro kill_ok_cong) simp_all
  then show "kill_ok (mproctab s' n)" using i by simp
qed

lemma pid_loop_kill: "pid_loop c s = Some s' \<Longrightarrow> kill_inv s \<longrightarrow> kill_inv s'"
proof (rule pid_loop.raw_induct [where P = "\<lambda>c s s'. kill_inv s \<longrightarrow> kill_inv s'"])
  fix f c s s'
  assume IH: "\<And>c s s'. f c s = Some s' \<Longrightarrow> kill_inv s \<longrightarrow> kill_inv s'"
    and e: "(let np = pid_succ (next_pid s); t = pid_taken np s; s1 = upd_mp c (\<lambda>p. p\<lparr>mp_pid := np\<rparr>) (s\<lparr>next_pid := np\<rparr>)
             in if t then f c s1 else Some s1) = Some s'"
  let ?s1 = "upd_mp c (\<lambda>p. p\<lparr>mp_pid := pid_succ (next_pid s)\<rparr>) (s\<lparr>next_pid := pid_succ (next_pid s)\<rparr>)"
  have "f c ?s1 = Some s' \<or> s' = ?s1" using e unfolding Let_def by (auto split: if_split_asm)
  moreover have "kill_inv ?s1" if "kill_inv s" by (rule kill_inv_keep) (use that in simp_all)
  ultimately show "kill_inv s \<longrightarrow> kill_inv s'" using IH by blast
qed

lemma inert_kill: "inert s s' \<Longrightarrow> kill_inv s \<Longrightarrow> kill_inv s'"
  using kill_inv_core unfolding inert_def by blast

lemma setreply_kill: "setreply n r s = Some s' \<Longrightarrow> kill_inv s \<Longrightarrow> kill_inv s'"
  using kill_inv_core [OF setreply_core] by blast

lemma fork_slot_kill: "kill_ok p \<Longrightarrow> kill_ok (fork_slot a b p)"
  by (simp add: fork_slot_def kill_ok_def Let_def)

lemma fork_child_kill: "fork_child n b k s = Some (r, s') \<Longrightarrow> kill_inv s \<Longrightarrow> kill_inv s'"
proof -
  assume e: "fork_child n b k s = Some (r, s')" and i: "kill_inv s"
  let ?q = "SysCopyAbs (push_bit CLICK_SHIFT (mem_phys (mseg s n SegD))) (push_bit CLICK_SHIFT b) (push_bit CLICK_SHIFT k)"
  obtain c s4 where p: "pid_loop c (upd_mp c (\<lambda>_. fork_slot (who (tell ?q s)) b (mproctab (tell ?q s) n)) ((tell ?q s)\<lparr>procs_in_use := procs_in_use (tell ?q s) + 1\<rparr>)) = Some s4"
    and t: "fork_tell c s4 = Some (r, s')"
    using e unfolding fork_child_def Let_def ask_def prod.case
    by (cases "find (\<lambda>n. IN_USE \<notin> mflags (tell ?q s) n) all_slots") (auto simp: bind_eq_Some_conv split: if_split_asm)
  have iq: "kill_inv (tell ?q s)" using i by simp
  have "kill_inv (upd_mp c (\<lambda>_. fork_slot (who (tell ?q s)) b (mproctab (tell ?q s) n)) ((tell ?q s)\<lparr>procs_in_use := procs_in_use (tell ?q s) + 1\<rparr>))"
    by (rule kill_inv_upd) (use iq fork_slot_kill [OF kill_invD [OF iq]] in simp_all)
  then have "kill_inv s4" using pid_loop_kill [OF p] by blast
  then show ?thesis using t setreply_kill unfolding fork_tell_def Let_def by auto
qed

lemma mm_do_fork_kill: "mm_do_fork s = Some (r, s') \<Longrightarrow> kill_inv s \<Longrightarrow> kill_inv s'"
proof -
  assume e: "mm_do_fork s = Some (r, s')" and i: "kill_inv s"
  then have "s' = s \<or> (\<exists>k b s1. alloc_mem k s = Some (b, s1) \<and> (s' = s1 \<or> fork_child (mp s) b k s1 = Some (r, s')))"
    unfolding mm_do_fork_def Let_def by (auto simp: bind_eq_Some_conv split: if_split_asm)
  then show ?thesis using i swap_frame_kill [OF alloc_mem_frame] fork_child_kill by blast
qed

lemma wait_loop_kill: "wait_loop p ns c s = Some (Inl (r, s')) \<Longrightarrow> kill_inv s \<Longrightarrow> kill_inv s'"
proof (induction ns arbitrary: c)
  case (Cons n ns)
  let ?s1 = "upd_mp (mp s) (\<lambda>p. p\<lparr>reply_res2 := 0x7F OR push_bit 8 (scast (mp_sigstatus (mproctab s n)))\<rparr>) s"
  have "kill_inv (upd_mp n (\<lambda>p. p\<lparr>mp_sigstatus := 0\<rparr>) ?s1)"
    using kill_inv_core [OF core_view_reply(1)] kill_inv_core [OF core_view_reply(5)] Cons.prems(2) by simp
  moreover have "wait_loop p ns c s = Some (Inl (r, s')) \<or> wait_loop p ns (c + 1) s = Some (Inl (r, s')) \<or> cleanup n s = Some s'
      \<or> s' = upd_mp n (\<lambda>p. p\<lparr>mp_sigstatus := 0\<rparr>) ?s1"
  proof (cases "wait_match p n s")
    case False
    show ?thesis using Cons.prems(1) [unfolded wait_loop.simps(2) if_P [OF False]] by blast
  next
    case True
    then have f: "\<not> \<not> wait_match p n s" by simp
    note e = Cons.prems(1) [unfolded wait_loop.simps(2) if_not_P [OF f] Let_def]
    show ?thesis
    proof (cases "ZOMBIE \<in> mflags s n")
      case True
      then show ?thesis using e by auto
    next
      case z: False
      show ?thesis
      proof (cases "STOPPED \<in> mflags s n \<and> mp_sigstatus (mproctab s n) \<noteq> 0")
        case True
        show ?thesis using e [unfolded if_not_P [OF z] if_P [OF True]] by (simp only: option.inject sum.inject prod.inject) blast
      next
        case False
        show ?thesis using e [unfolded if_not_P [OF z] if_not_P [OF False]] by blast
      qed
    qed
  qed
  ultimately show ?case using Cons.IH [of c] Cons.IH [of "c + 1"] Cons.prems(2) cleanup_kill [of n s s'] by blast
qed simp

lemma do_waitpid_kill: "do_waitpid p o' s = Some (r, s') \<Longrightarrow> kill_inv s \<Longrightarrow> kill_inv s'"
proof -
  assume e: "do_waitpid p o' s = Some (r, s')" and i: "kill_inv s"
  have w: "kill_inv (upd_mp n (\<lambda>p. p\<lparr>mp_flags := mp_flags p \<union> F, mp_wpid := q\<rparr>) s)" for n F q
    by (rule kill_inv_keep [OF i]) simp
  let ?q = "if p = 0 then - mp_procgrp (mproctab s (mp s)) else p"
  obtain x where x: "wait_loop ?q all_slots 0 s = Some x"
    and d: "(case x of Inl d \<Rightarrow> Some d | Inr c \<Rightarrow> Some (if c > 0
                  then if odd o' then (OK, s)
                       else (SUSPEND, upd_mp (mp s) (\<lambda>p. p\<lparr>mp_flags := mp_flags p \<union> {WAITING}, mp_wpid := ?q\<rparr>) s)
                  else (ECHILD, s))) = Some (r, s')"
    using e unfolding do_waitpid_def Let_def bind_eq_Some_conv by blast
  show ?thesis
  proof (cases x)
    case (Inl y)
    then show ?thesis using x d i wait_loop_kill [of ?q all_slots 0 s r s'] by simp
  next
    case (Inr c)
    then have "s' = s \<or> (\<exists>n F q. upd_mp n (\<lambda>p. p\<lparr>mp_flags := mp_flags p \<union> F, mp_wpid := q\<rparr>) s = s')"
      using d [unfolded Inr sum.case option.inject] by (cases "c > 0"; cases "odd o'") (simp_all only: if_True if_False prod.inject not_True_eq_False not_False_eq_True, blast+)
    then show ?thesis using i w by blast
  qed
qed

lemma do_brk_kill: "kill_inv s \<Longrightarrow> kill_inv (snd (do_brk a s))"
proof -
  assume i: "kill_inv s"
  have k: "kill_inv t \<Longrightarrow> kill_inv (upd_mp n (\<lambda>p. p\<lparr>reply_ptr := f p\<rparr>) t)" for t n f
    using kill_inv_core [OF core_view_reply(6)] by simp
  then show ?thesis using i kill_inv_adjust unfolding do_brk_def ask_def Let_def by (auto simp: split_beta)
qed

lemma do_getset_kill: "kill_inv s \<Longrightarrow> kill_inv (snd (do_getset g s))"
  by (cases g) (auto simp: do_getset_def Let_def intro: kill_inv_keep)

lemma mm_do_trace_kill: "mm_do_trace en req pid a d s = Some (r, s') \<Longrightarrow> kill_inv s \<Longrightarrow> kill_inv s'"
proof -
  assume e: "mm_do_trace en req pid a d s = Some (r, s')" and i: "kill_inv s"
  have k: "kill_inv t \<Longrightarrow> kill_inv (upd_mp n (\<lambda>p. p\<lparr>reply_l2 := f p\<rparr>) t)" for t n f
    using kill_inv_core [OF core_view_reply(8)] by simp
  have ker: "kill_inv s'" if "trace_kernel en req c a d t = (r, s')" "kill_inv t" for c t
    using that k unfolding trace_kernel_def ask_def Let_def by (auto split: if_split_asm)
  have res: "kill_inv t" if t: "trace_resume c d s = Some t" for c t
  proof (cases "d > 0")
    case True
    then obtain u where "sig_proc c d (clear_flags {TRACED} c s) = Some u" "t = clear_flags {STOPPED} c (set_flags {TRACED} c u)"
      using t unfolding trace_resume_def by auto
    then show ?thesis using kill_inv_flags i keeps_killD [OF sig_proc_kill] by blast
  next
    case False
    then show ?thesis using t i kill_inv_flags unfolding trace_resume_def by auto
  qed
  show ?thesis
  proof (cases "req = T_OK")
    case True
    then show ?thesis using e i by (auto simp: mm_do_trace_def intro: kill_inv_keep)
  next
    case False
    note e' = e [unfolded mm_do_trace_def if_not_P [OF False]]
    show ?thesis
    proof (cases "findproc pid s")
      case None
      then show ?thesis using e' i by simp
    next
      case (Some c)
      consider "s' = s" | t where "mm_exit c d s = Some t" "s' = upd_mp (mp t) (\<lambda>p. p\<lparr>reply_l2 := 0\<rparr>) t"
        | t where "t = s \<or> trace_resume c d s = Some t" "trace_kernel en req c a d t = (r, s')"
        using e' Some by (auto split: if_split_asm)
      then show ?thesis
      proof cases
        case 2
        then show ?thesis using k keeps_killD [OF mm_exit_kill] i by simp
      qed (use i ker res in blast)+
    qed
  qed
qed

lemma do_reboot_kill: "do_reboot f c n s = Some (r, s') \<Longrightarrow> kill_inv s \<Longrightarrow> kill_inv s'"
proof -
  assume e: "do_reboot f c n s = Some (r, s')" and i: "kill_inv s"
  obtain x s1 where a: "reboot_args f c n s = (x, s1)" by (cases "reboot_args f c n s")
  have i1: "kill_inv s1" using a i unfolding reboot_args_def Let_def ask_def by (auto split: if_split_asm)
  have "s' = s1 \<or> (\<exists>y s2. check_sig (-1) SIGKILL s1 = Some (y, s2) \<and> s' = tell (SysAbort f) (tell (TellFs FsReboot 0 0 0) s2))"
    using e a unfolding do_reboot_def by (auto split: if_split_asm)
  then show ?thesis using i1 check_sig_kill by auto
qed

lemma kill_inv_fold: "(\<And>n t. kill_inv t \<Longrightarrow> kill_inv (f n t)) \<Longrightarrow> kill_inv s \<Longrightarrow> kill_inv (fold f ns s)"
  by (induction ns arbitrary: s) auto

lemma mm_signon_kill: "mm_signon s = Some (r, s') \<Longrightarrow> kill_inv s \<Longrightarrow> kill_inv s'"
proof -
  assume e: "mm_signon s = Some (r, s')" and i: "kill_inv s"
  show ?thesis
  proof (cases "mp_effuid (mproctab s (mp s)) = SUPER_USER")
    case True
    obtain s2 where b: "signon_release (mp_parent (mproctab s (mp s))) (mproctab s (mp s)) (tell (TellFs FsExit (who s) 0 0) s) = Some s2"
      "s' = upd_mp (mp s) (\<lambda>q. q\<lparr>mp_pid := 0, mp_procgrp := 0, mp_parent := 0\<rparr>) (fold signon_orphan all_slots s2)"
      using e True unfolding mm_signon_def Let_def by auto
    have "kill_inv s2" by (rule inert_kill [OF signon_release_inert [OF b(1)]]) (use i in simp)
    then have "kill_inv (fold signon_orphan all_slots s2)"
      by (rule kill_inv_fold [rotated]) (auto simp: signon_orphan_def intro: kill_inv_keep)
    then show ?thesis unfolding b(2) by (rule kill_inv_keep) simp
  next
    case False
    then show ?thesis using e i by (simp add: mm_signon_def Let_def)
  qed
qed

subsection \<open>The swap area\<close>

lemma free_mem_kill: "free_mem b k s = Some s' \<Longrightarrow> kill_inv s \<Longrightarrow> kill_inv s'"
  using holes_onlyD(1) [OF free_mem_only] kill_inv_tab [of s' s] by blast

lemma swap_on_kill: "swap_on r file off n s = Some (x, s') \<Longrightarrow> kill_inv s \<Longrightarrow> kill_inv s'"
  unfolding swap_on_def ask_def Let_def
  by (auto split: if_split_asm dest: free_mem_kill simp: bind_eq_Some_conv)

lemma set_queue_kill: "kill_inv s \<Longrightarrow> kill_inv (set_queue p q s)"
  by (cases p) (auto simp: set_queue_def intro: kill_inv_keep)

lemma swap_in_one_kill: "swap_in_one p n b s = Some s' \<Longrightarrow> kill_inv s \<Longrightarrow> kill_inv s'"
proof -
  assume e: "swap_in_one p n b s = Some s'" and i: "kill_inv s"
  have t: "kill_inv (tell q1 (tell q2 (tell q3 (upd_mp n (\<lambda>p. p\<lparr>mp_seg := relocate b (mp_seg p)\<rparr>) s))))" for q1 q2 q3
    unfolding kill_inv_tell by (rule kill_inv_keep [OF i]) simp
  obtain q1 q2 q3 b' k s4 where f: "free_mem b' k (tell q1 (tell q2 (tell q3 (upd_mp n (\<lambda>p. p\<lparr>mp_seg := relocate b (mp_seg p)\<rparr>) s)))) = Some s4"
    and c: "check_pending n (set_queue p (swapq (clear_flags {ONSWAP, SWAPIN} n s4) n) (clear_flags {ONSWAP, SWAPIN} n s4)) = Some s'"
    using e unfolding swap_in_one_def Let_def bind_eq_Some_conv by blast
  show ?thesis
    by (rule check_pending_kill [OF c]) (intro set_queue_kill kill_inv_flags free_mem_kill [OF f] t)
qed

lemma swap_in_kill: "swap_in s = Some s' \<Longrightarrow> kill_inv s \<longrightarrow> kill_inv s'"
  unfolding swap_in_def
proof (rule swap_in_loop.raw_induct [where P = "\<lambda>p s s'. kill_inv s \<longrightarrow> kill_inv s'"])
  fix f p s s'
  assume IH: "\<And>p s s'. f p s = Some s' \<Longrightarrow> kill_inv s \<longrightarrow> kill_inv s'"
    and e: "(case queue_at p s of None \<Rightarrow> Some s
      | Some n \<Rightarrow> if SWAPIN \<notin> mflags s n then f p (set_queue p (swapq s n) s)
          else Option.bind (alloc_mem (image_clicks (mseg s n)) s) (\<lambda>(b, s1). if b = NO_MEM then f (Some n) s1 else Option.bind (swap_in_one p n b s1) (f p))) = Some s'"
  show "kill_inv s \<longrightarrow> kill_inv s'"
  proof
    assume i: "kill_inv s"
    consider "s' = s" | n where "f p (set_queue p (swapq s n) s) = Some s'"
      | n b s1 where "alloc_mem (image_clicks (mseg s n)) s = Some (b, s1)" "f (Some n) s1 = Some s' \<or> (\<exists>s2. swap_in_one p n b s1 = Some s2 \<and> f p s2 = Some s')"
    proof (cases "queue_at p s")
      case None
      then show thesis using e that(1) by simp
    next
      case (Some n)
      note e' = e [unfolded Some option.case]
      show thesis
      proof (cases "SWAPIN \<in> mflags s n")
        case True
        obtain b s1 where "alloc_mem (image_clicks (mseg s n)) s = Some (b, s1)"
          and "(if b = NO_MEM then f (Some n) s1 else Option.bind (swap_in_one p n b s1) (f p)) = Some s'"
          using e' True by (auto simp: bind_eq_Some_conv)
        then show thesis using that(3) by (auto simp: bind_eq_Some_conv split: if_split_asm)
      qed (use e' that(2) in auto)
    qed
    then show "kill_inv s'"
    proof cases
      case 2
      then show ?thesis using IH set_queue_kill [OF i] by blast
    next
      case (3 n b s1)
      have "kill_inv s1" by (rule swap_frame_kill [OF alloc_mem_frame [OF 3(1)] i])
      then show ?thesis using 3(2) IH swap_in_one_kill by blast
    qed (use i in simp)
  qed
qed

lemma swap_inqueue_kill: "swap_inqueue n s = Some s' \<Longrightarrow> kill_inv s \<Longrightarrow> kill_inv s'"
  using kill_inv_core [OF swap_inqueue_core] by blast

lemma inqueue_all_kill: "inqueue_all ns s = Some s' \<Longrightarrow> kill_inv s \<Longrightarrow> kill_inv s'"
proof (induction ns arbitrary: s)
  case (Cons n ns)
  obtain t where t: "(if ONSWAP \<in> mflags s n then swap_inqueue n s else Some s) = Some t" "inqueue_all ns t = Some s'"
    using Cons.prems(1) by (auto simp: bind_eq_Some_conv)
  have "t = s \<or> swap_inqueue n s = Some t" using t(1) by (auto split: if_split_asm)
  then show ?case using Cons.IH [OF t(2)] Cons.prems(2) swap_inqueue_kill by blast
qed simp

lemma swap_off_loop_kill: "swap_off_loop p h s = Some s' \<Longrightarrow> kill_inv s \<longrightarrow> kill_inv s'"
proof (rule swap_off_loop.raw_induct [where P = "\<lambda>p h s s'. kill_inv s \<longrightarrow> kill_inv s'"])
  fix f p h s s'
  assume IH: "\<And>p h s s'. f p h s = Some s' \<Longrightarrow> kill_inv s \<longrightarrow> kill_inv s'"
    and e: "(case h of None \<Rightarrow> Some s | Some h \<Rightarrow>
          if h_base (holes s h) \<ge> swap_base s
          then Option.bind (del_slot p h s) (\<lambda>s1. Option.bind (hole_head s1) (\<lambda>h1. f (Some h1) (h_next (holes s1 h1)) s1))
          else f (Some h) (h_next (holes s h)) s) = Some s'"
  have d: "kill_inv s \<longrightarrow> kill_inv s1" if "del_slot p h s = Some s1" for h s1
    using kill_inv_tab [OF holes_onlyD(1) [OF del_slot_only [OF that]]] by simp
  consider "s' = s" | p' h' where "f p' h' s = Some s'" | h s1 p' h' where "del_slot p h s = Some s1" "f p' h' s1 = Some s'"
  proof (cases h)
    case None
    then show thesis using e that(1) by simp
  next
    case (Some g)
    show thesis using e [unfolded Some option.case] that(2,3) by (cases "h_base (holes s g) \<ge> swap_base s") (auto simp: bind_eq_Some_conv)
  qed
  then show "kill_inv s \<longrightarrow> kill_inv s'"
  proof cases
    case (3 h s1 p' h')
    then show ?thesis using d [OF 3(1)] IH [OF 3(2)] by blast
  qed (use IH in blast)+
qed

lemma swap_off_kill: "swap_off s = Some (r, s') \<Longrightarrow> kill_inv s \<Longrightarrow> kill_inv s'"
proof -
  assume e: "swap_off s = Some (r, s')" and i: "kill_inv s"
  have "s' = s \<or> (\<exists>s1 s2. inqueue_all user_slots s = Some s1 \<and> swap_in s1 = Some s2 \<and> (s' = s2 \<or>
      (\<exists>s3. swap_off_loop None (hole_head s2) s2 = Some s3 \<and> s' = (tell (Close (swap_fd s3)) s3)\<lparr>swap_fd := -1\<rparr>)))"
    using e unfolding swap_off_def by (auto simp: bind_eq_Some_conv split: if_split_asm)
  then show ?thesis using i inqueue_all_kill swap_in_kill swap_off_loop_kill by fastforce
qed

subsection \<open>Execution\<close>

lemma reset_caught_kill: "kill_ok p \<Longrightarrow> kill_ok (reset_caught n p)"
  by (auto simp: kill_ok_def reset_caught_def bit9_del)

lemma fold_reset_kill: "kill_ok p \<Longrightarrow> kill_ok (fold reset_caught ns p)"
  by (induction ns arbitrary: p) (simp_all add: reset_caught_kill)

lemma exec_slot_kill: "kill_ok p \<Longrightarrow> kill_ok (exec_slot im vsp p)"
  using kill_ok_cong [of "exec_slot im vsp p" "fold reset_caught [1..NSIG] p"] fold_reset_kill by (simp add: exec_slot_def)

lemma slot_set_kill: "slot_set r q s t \<Longrightarrow> kill_inv s \<Longrightarrow> kill_ok q \<Longrightarrow> kill_inv t"
  using slot_setD(1) by (auto simp: kill_inv_def)

lemma exec_load_kill: "exec_load sh im s = Some s' \<Longrightarrow> kill_inv s \<Longrightarrow> kill_inv s'"
  using exec_load_slot slot_set_kill exec_slot_kill kill_invD by blast

lemma hist_only_kill: "hist_only s s' \<Longrightarrow> kill_inv s \<Longrightarrow> kill_inv s'"
  using kill_inv_tab hist_onlyD(1) by blast

lemma new_mem_kill:
  assumes i: "kill_inv s" and e: "new_mem stray sh h stk s = Some (r, s')"
  shows "kill_inv s'"
proof -
  let ?s0 = "case stray of Some n \<Rightarrow> set_flags {WAITING} n s | None \<Rightarrow> s"
  have i0: "kill_inv ?s0" using i kill_inv_flags(1) by (cases stray) simp_all
  have "s' = ?s0 \<or> (\<exists>k b s1. alloc_mem k ?s0 = Some (b, s1) \<and> (s' = s1
    \<or> (\<exists>s2 m q x y. exit_memory (mp s1) s1 = Some s2
      \<and> zero_loop x y (clear_flags {WAITING, ONSWAP, SWAPIN} (mp s1) (tell q (upd_mp (mp s1) (\<lambda>p. p\<lparr>mp_seg := m\<rparr>) s2))) = Some s')))"
    using e unfolding new_mem_def Let_def by (auto simp: bind_eq_Some_conv split: if_split_asm)
  then consider "s' = ?s0" | k b where "alloc_mem k ?s0 = Some (b, s')"
    | k b s1 s2 m q x y where "alloc_mem k ?s0 = Some (b, s1)" "exit_memory (mp s1) s1 = Some s2"
      "zero_loop x y (clear_flags {WAITING, ONSWAP, SWAPIN} (mp s1) (tell q (upd_mp (mp s1) (\<lambda>p. p\<lparr>mp_seg := m\<rparr>) s2))) = Some s'"
    by blast
  then show ?thesis
  proof cases
    case 1
    then show ?thesis using i0 by simp
  next
    case 2
    then show ?thesis using swap_frame_kill [OF alloc_mem_frame i0] by blast
  next
    case (3 k b s1 s2 m q x y)
    have "kill_inv s1" by (rule swap_frame_kill [OF alloc_mem_frame [OF 3(1)] i0])
    then have "kill_inv s2" using exit_memory_kill [OF 3(2)] by simp
    then have "kill_inv (clear_flags {WAITING, ONSWAP, SWAPIN} (mp s1) (tell q (upd_mp (mp s1) (\<lambda>p. p\<lparr>mp_seg := m\<rparr>) s2)))"
      by (intro kill_inv_flags(2)) (simp add: kill_inv_keep)
    then show ?thesis by (rule hist_only_kill [OF zero_loop_hist [OF 3(3)]])
  qed
qed

lemma mm_do_exec_kill:
  assumes i: "kill_inv s" and e: "mm_do_exec x s = Some (r, s')"
  shows "kill_inv s'"
proof -
  obtain z s1 where o: "exec_open x s = Some (z, s1)" using e by (cases "exec_open x s") (auto simp: mm_do_exec_def)
  have i1: "kill_inv s1" by (rule hist_only_kill [OF exec_open_hist [OF o] i])
  show ?thesis
  proof (cases z)
    case (Inl y)
    then show ?thesis using e o i1 by (simp add: mm_do_exec_def)
  next
    case (Inr im)
    have "\<exists>sh st h k y s2. new_mem st sh h k s1 = Some (y, s2) \<and> (s' = tell (Close (xi_fd im)) s2 \<or> (\<exists>b. exec_load b im s2 = Some s'))"
      using e o Inr unfolding mm_do_exec_def Let_def by (auto simp: bind_eq_Some_conv split: if_split_asm) blast+
    then show ?thesis using new_mem_kill [OF i1] exec_load_kill kill_inv_tell by blast
  qed
qed

subsection \<open>The main loop\<close>

lemma mm_do_svrctl_kill: "mm_do_svrctl x q ptr s = Some (r, s') \<Longrightarrow> kill_inv s \<Longrightarrow> kill_inv s'"
  using mm_signon_kill swap_off_kill swap_on_kill
  by (cases q) (auto simp: mm_do_svrctl_def ask_def Let_def split: if_split_asm)

lemma call_vec_kill: "call_vec c s = Some (r, s') \<Longrightarrow> kill_inv s \<Longrightarrow> kill_inv s'"
proof (cases c)
  case (MExec x)
  then show "call_vec c s = Some (r, s') \<Longrightarrow> kill_inv s \<Longrightarrow> kill_inv s'" using mm_do_exec_kill [of s x] by (auto simp: call_vec_def)
next
  case (MGetset g)
  then show "call_vec c s = Some (r, s') \<Longrightarrow> kill_inv s \<Longrightarrow> kill_inv s'" using do_getset_kill [of s g] by (auto simp: call_vec_def)
next
  case (MBrk a)
  then show "call_vec c s = Some (r, s') \<Longrightarrow> kill_inv s \<Longrightarrow> kill_inv s'" using do_brk_kill [of s a] by (auto simp: call_vec_def)
next
  case (MSigaction a b d e)
  then show "call_vec c s = Some (r, s') \<Longrightarrow> kill_inv s \<Longrightarrow> kill_inv s'" using do_sigaction_kill [of s a b d e] by (auto simp: call_vec_def)
qed (auto simp: call_vec_def do_mm_exit_def do_alarm_def do_pause_def mm_do_kill_def do_sigpending_def
    intro: keeps_killD [OF mm_exit_kill] mm_do_fork_kill do_waitpid_kill mm_do_trace_kill check_sig_kill do_ksig_kill do_sigsuspend_kill
      do_sigprocmask_kill mm_do_sigreturn_kill do_reboot_kill mm_do_svrctl_kill kill_inv_flags kill_inv_keep
    dest: kill_inv_core [OF set_alarm_core])

lemma send_replies_kill: "send_replies ns s = Some s' \<Longrightarrow> kill_inv s \<Longrightarrow> kill_inv s'"
proof (induction ns arbitrary: s)
  case (Cons n ns)
  have "kill_inv (clear_flags {REPLY} n (tell q s))" for q using Cons.prems(2) kill_inv_flags(2) by simp
  moreover have "(\<exists>q. send_replies ns (clear_flags {REPLY} n (tell q s)) = Some s') \<or> send_replies ns s = Some s'"
    using Cons.prems(1) by (auto simp: ask_def Let_def split: if_split_asm)
  ultimately show ?case using Cons by blast
qed simp

theorem mm_step_kill:
  assumes "kill_inv s" "mm_step src c s = Some s'"
  shows "kill_inv s'"
proof -
  obtain r s1 where c: "call_vec c (get_work src s) = Some (r, s1)"
    and b: "Option.bind (if r \<noteq> SUSPEND then setreply (who s1) r s1 else Some s1) (\<lambda>s2. Option.bind (swap_in s2) (send_replies all_slots)) = Some s'"
    using assms(2) unfolding mm_step_def by (cases "call_vec c (get_work src s)") auto
  obtain s2 s3 where r': "(if r \<noteq> SUSPEND then setreply (who s1) r s1 else Some s1) = Some s2"
    and i: "swap_in s2 = Some s3" and o: "send_replies all_slots s3 = Some s'"
    using b unfolding bind_eq_Some_conv by blast
  have "kill_inv s1" using call_vec_kill [OF c] assms(1) by (simp add: get_work_def)
  then have "kill_inv s2" using r' setreply_kill by (auto split: if_split_asm)
  then show ?thesis using swap_in_kill [OF i] send_replies_kill [OF o] by blast
qed

end
