(* ===== verification/MM_Example.thy ===== *)
theory MM_Example
  imports MM_Sigkill_Calls
begin

text \<open>
  A small state to evaluate the memory manager's properties on: INIT (process 2) with a child 3 and a
  grandchild 4, each with ten clicks of data and stack, and one hole of fifty clicks.
\<close>

definition ex_mproc :: "int \<Rightarrow> mproc" where
  "ex_mproc n = \<lparr>mp_seg = (\<lambda>g. case g of
        SegT \<Rightarrow> \<lparr>mem_vir = 0, mem_phys = 0, mem_len = 0\<rparr>
      | SegD \<Rightarrow> \<lparr>mem_vir = 0, mem_phys = (if n = 2 then 100 else if n = 3 then 120 else 140), mem_len = 4\<rparr>
      | SegS \<Rightarrow> \<lparr>mem_vir = 8, mem_phys = (if n = 2 then 108 else if n = 3 then 128 else 148), mem_len = 2\<rparr>),
    mp_exitstatus = 0, mp_sigstatus = 0,
    mp_pid = (if n = 2 then 1 else if n = 3 then 20 else if n = 4 then 30 else 0),
    mp_procgrp = (if n = 2 then 1 else if n = 3 then 20 else if n = 4 then 20 else 0),
    mp_wpid = 0, mp_parent = (if n = 3 then 2 else if n = 4 then 3 else 0),
    mp_realuid = (if n = 2 then 0 else 7), mp_effuid = (if n = 2 then 0 else 7), mp_realgid = 3, mp_effgid = 3,
    mp_ino = 0, mp_dev = 0, mp_ctime = 0, mp_ignore = 0, mp_catch = 0, mp_sigmask = 0, mp_sigmask2 = 0, mp_sigpending = 0,
    mp_sigact = (\<lambda>_. \<lparr>sa_handler = 0, sa_mask = 0, sa_flags = 0\<rparr>), mp_sigreturn = 0,
    mp_flags = (if n = 0 \<or> n = 1 \<or> n = 2 \<or> n = 3 \<or> n = 4 then {IN_USE} else {}), mp_procargs = 0, mp_swapq = None,
    reply_res = 0, reply_res2 = 0, reply_ptr = 0, reply_mask = 0, reply_l2 = 0\<rparr>"

definition ex_holes :: "nat \<Rightarrow> hole" where
  "ex_holes i = \<lparr>h_next = (if 0 < i \<and> i < 63 then Some (i + 1) else None), h_base = 10, h_len = (if i = 0 then 50 else 0)\<rparr>"

definition ex_mm :: mm where
  "ex_mm = \<lparr>mproctab = ex_mproc, mp = 3, procs_in_use = 5, who = 3, next_pid = 30, holes = ex_holes, hole_head = Some 0,
     free_slots = Some 1, swap_fd = -1, swap_offset = 0, swap_base = 1000, swap_maxsize = 0, in_queue = None, outswap = 2,
     core_sset = fold (\<lambda>i m. sigaddset m i) core_sigs 0, ign_sset = sigaddset 0 SIGCHLD, hist = [],
     env = (\<lambda>_. \<lparr>an_res = 0, an_vals = [0, 0, 0]\<rparr>)\<rparr>"

lemma ex_mproc_fields [simp]:
  "mp_pid (ex_mproc n) = (if n = 2 then 1 else if n = 3 then 20 else if n = 4 then 30 else 0)"
  "mp_procgrp (ex_mproc n) = (if n = 2 then 1 else if n = 3 then 20 else if n = 4 then 20 else 0)"
  "mp_parent (ex_mproc n) = (if n = 3 then 2 else if n = 4 then 3 else 0)" "mp_wpid (ex_mproc n) = 0"
  "mp_realuid (ex_mproc n) = (if n = 2 then 0 else 7)" "mp_effuid (ex_mproc n) = (if n = 2 then 0 else 7)"
  "mp_ino (ex_mproc n) = 0" "mp_dev (ex_mproc n) = 0" "mp_ctime (ex_mproc n) = 0"
  "mp_ignore (ex_mproc n) = 0" "mp_catch (ex_mproc n) = 0" "mp_sigmask (ex_mproc n) = 0" "mp_sigpending (ex_mproc n) = 0"
  "mp_sigact (ex_mproc n) = (\<lambda>_. \<lparr>sa_handler = 0, sa_mask = 0, sa_flags = 0\<rparr>)"
  "mp_sigstatus (ex_mproc n) = 0" "mp_exitstatus (ex_mproc n) = 0" "mp_swapq (ex_mproc n) = None"
  "mp_flags (ex_mproc n) = (if n = 0 \<or> n = 1 \<or> n = 2 \<or> n = 3 \<or> n = 4 then {IN_USE} else {})"
  "mp_seg (ex_mproc n) SegT = \<lparr>mem_vir = 0, mem_phys = 0, mem_len = 0\<rparr>"
  "mp_seg (ex_mproc n) SegD = \<lparr>mem_vir = 0, mem_phys = (if n = 2 then 100 else if n = 3 then 120 else 140), mem_len = 4\<rparr>"
  "mp_seg (ex_mproc n) SegS = \<lparr>mem_vir = 8, mem_phys = (if n = 2 then 108 else if n = 3 then 128 else 148), mem_len = 2\<rparr>"
  by (simp_all add: ex_mproc_def)

lemma ex_mm_fields [simp]:
  "mproctab ex_mm = ex_mproc" "mp ex_mm = 3" "procs_in_use ex_mm = 5" "who ex_mm = 3" "next_pid ex_mm = 30" "holes ex_mm = ex_holes"
  "hole_head ex_mm = Some 0" "free_slots ex_mm = Some 1" "swap_fd ex_mm = -1" "swap_base ex_mm = 1000" "in_queue ex_mm = None"
  "outswap ex_mm = 2" "env ex_mm q = \<lparr>an_res = 0, an_vals = [0, 0, 0]\<rparr>" "ign_sset ex_mm = 2 ^ 17"
  by (simp_all add: ex_mm_def sigaddset_def sigisvalid_def push_bit_eq_mult)

lemma ex_core_sset: "sigismember (core_sset ex_mm) g = (if g \<in> set core_sigs then 1 else if sigisvalid g then 0 else -1)"
  by (auto simp: ex_mm_def core_sigs_def sigismember_bit bit_sigaddset sigisvalid_def)

lemma ex_live: "live ex_mm n \<longleftrightarrow> n \<in> {0, 1, 2, 3, 4}"
  by (auto simp: live_def)

lemma chain_count: "(\<And>i. a \<le> i \<Longrightarrow> i < b \<Longrightarrow> nx i = (if i + 1 < b then Some (i + 1) else None)) \<Longrightarrow> a < b \<Longrightarrow>
    chain nx (Some a) [a..<b]"
proof (induction "b - a" arbitrary: a)
  case (Suc k)
  have u: "[a..<b] = a # [a + 1..<b]" using Suc.prems(2) by (simp add: upt_rec)
  show ?case
  proof (cases "a + 1 < b")
    case True
    have "chain nx (Some (a + 1)) [a + 1..<b]" using Suc True by simp
    then show ?thesis unfolding u using Suc.prems(1) [of a] True by simp
  next
    case False
    then show ?thesis unfolding u using Suc.prems by simp
  qed
qed simp

lemma ex_holes_ok: "hole_inv ex_mm [0] [1..<64]"
proof -
  have "chain (hnext ex_mm) (Some 1) [1..<64]" by (rule chain_count) (auto simp: ex_holes_def)
  then have "hole_links ex_mm [0] [1..<64]" unfolding hole_links_def by (auto simp: ex_holes_def simp del: upt_rec_numeral)
  then show ?thesis by (simp add: hole_inv_def gaps_def hspan_def ex_holes_def span_ok_def del: upt_rec_numeral)
qed

lemma ex_free: "free_clicks ex_mm [0] = {10..<60}"
  by (simp add: free_clicks_def hspan_def ex_holes_def block_def)

lemma ex_mem: "mem_inv ex_mm"
proof -
  have "mem_ok (pmem_of ex_mm) 1000 {10..<60}"
    unfolding mem_ok_def by (auto simp: ex_live own_ok_def apart_def pmem_of_def span_ok_def image_clicks_def block_def)
  moreover have "flags_ok ex_mm" by (simp add: flags_ok_def)
  ultimately have "\<exists>hs fs. hole_inv ex_mm hs fs \<and> {} \<inter> free_clicks ex_mm hs = {} \<and> mem_ok (pmem_of ex_mm) 1000 (free_clicks ex_mm hs \<union> {})"
    using ex_holes_ok ex_free by (intro exI [of _ "[0]"] exI [of _ "[1..<64]"]) simp
  moreover have "sigismember (ign_sset ex_mm) SIGCHLD = 1" by (simp add: sigismember_bit sigisvalid_def bit_exp_iff)
  ultimately show ?thesis unfolding mem_hold_def using \<open>flags_ok ex_mm\<close> by simp
qed

lemma ex_kill: "kill_inv ex_mm"
  by (simp add: kill_inv_def kill_ok_def)

end
