(* ===== verification/MM_Exec_Example.thy ===== *)
theory MM_Exec_Example
  imports MM_Example
begin

text \<open>
  An \<^verbatim>\<open>execve()\<close> on the example state: process 3 executes a small program with separate text
  (one click of text, one of data, four in all) whose file has the set-uid bit.
\<close>

definition ex_header :: "u32 list" where
  "ex_header = [1, 3, 0x20, 0x10, 32, 0, 0, 0, 0, 4, 0, 0, 100, 0, 0, 0, 0, 0, 0, 0, 0, 0, 0, 0, 0, 16, 0, 0, 0, 0, 0, 0]"

definition ex_answer :: "mm_req list \<Rightarrow> mm_ans" where
  "ex_answer qs = (case qs of
      SysCopyIn n addr len # _ \<Rightarrow> \<lparr>an_res = 0, an_vals = (if addr = 100 then [0x61, 0] else replicate 12 0)\<rparr>
    | OpenFile name # _ \<Rightarrow> \<lparr>an_res = 5, an_vals = []\<rparr>
    | Fstat fd # _ \<Rightarrow> \<lparr>an_res = 0, an_vals = [0x89ED, 9, 1, 11, 12, 50]\<rparr>
    | ReadFile fd n # _ \<Rightarrow> \<lparr>an_res = 32, an_vals = ex_header\<rparr>
    | _ \<Rightarrow> \<lparr>an_res = 0, an_vals = [0, 0, 0]\<rparr>)"

definition ex_exec :: mm where
  "ex_exec = ex_mm\<lparr>env := ex_answer\<rparr>"

definition ex_args :: exec_args where
  "ex_args = \<lparr>xa_stack_bytes = 12, xa_stack_ptr = 200, xa_len = 2, xa_name = 100, xa_old_name = (\<lambda>_. 0), xa_old_stack = (\<lambda>_. 0), xa_stray = None\<rparr>"

definition ex_stat :: fstatus where
  "ex_stat = \<lparr>st_mode = 0x89ED, st_ino = 9, st_dev = 1, st_uid = 11, st_gid = 12, st_ctime = 50\<rparr>"

definition ex_hdr :: aout_hdr where
  "ex_hdr = \<lparr>eh_sep = True, eh_text = 1024, eh_data = 100, eh_bss = 0, eh_tot = 4096, eh_pc = 0\<rparr>"

lemma ex_round: "round_clicks 1024 = 1" "round_clicks 100 = 1" "round_clicks 4096 = 4" "round_clicks 12 = 1" "round_clicks 0 = 0"
  by (simp_all add: round_clicks_def drop_bit_eq_div)

lemma ex_read_header: "env s = ex_answer \<Longrightarrow> read_header fd 1 s = (Inr ex_hdr, tell (ReadFile fd A_MINHDR) s)"
proof -
  assume e: "env s = ex_answer"
  let ?h = "ans_bytes \<lparr>an_res = 32, an_vals = ex_header\<rparr>"
  have b: "?h 0 = 1" "?h 1 = 3" "?h 2 = 0x20" "?h 3 = 0x10" "?h 4 = 32"
    by (simp_all add: ans_bytes_def ex_header_def)
  have w: "get32 ?h 8 = 1024" "get32 ?h 12 = 100" "get32 ?h 16 = 0" "get32 ?h 20 = 0" "get32 ?h 24 = 4096"
    by (simp_all add: get32_def ans_bytes_def ex_header_def)
  have hd: "header_of ?h = ex_hdr" by (simp add: header_of_def Let_def w b ex_hdr_def)
  have "\<not> bad_header ?h" by (simp add: bad_header_def b)
  then show ?thesis
    unfolding read_header_def ask_def Let_def e prod.case ex_answer_def list.case mm_req.case mm_ans.simps hd
    by (simp add: b w ex_hdr_def ex_round size_ok_def word_le_nat_alt)
qed

lemma ex_name: "c_str (fill_buf 2 \<lparr>an_res = 0, an_vals = [0x61, 0]\<rparr> (\<lambda>_. 0)) 0 (unat PATH_MAX) = Some [0x61]"
proof -
  let ?b = "fill_buf 2 \<lparr>an_res = 0, an_vals = [0x61, 0]\<rparr> (\<lambda>_. 0)"
  have b: "?b 0 = 0x61" "?b 1 = 0" by (simp_all add: fill_buf_def ans_bytes_def)
  have l: "[0..<255] = 0 # 1 # [2..<255]" by (simp add: upt_conv_Cons del: upt_rec_numeral)
  have "str_end ?b 0 255 = Some 1" unfolding str_end_def l using b by simp
  then show ?thesis by (simp add: c_str_def b)
qed

lemma ex_open: "\<exists>st h. exec_open ex_args ex_exec
   = Some (Inr \<lparr>xi_fd = 5, xi_stat0 = ex_stat, xi_stat = ex_stat, xi_hdr = ex_hdr, xi_stack = st, xi_bytes = 12, xi_name = [0x61]\<rparr>, ex_exec\<lparr>hist := h\<rparr>)"
proof -
  have e: "env ex_exec = ex_answer" "hist ex_exec = []" "who ex_exec = 3" "mp ex_exec = 3" "mproctab ex_exec = ex_mproc"
    by (simp_all add: ex_exec_def) (simp add: ex_mm_def)
  have st: "stat_of [0x89ED, 9, 1, 11, 12, 50] = ex_stat" by (simp add: stat_of_def ex_stat_def)
  have al: "\<exists>h. allowed [0x61] X_BIT s = Some (Inr (5, ex_stat), s\<lparr>hist := h\<rparr>)" if "env s = ex_answer" for s
    unfolding allowed_def ask_def Let_def using that by (auto simp: code_defs ex_answer_def st ex_stat_def)
  have tr: "\<exists>h. exec_try (fill_buf 2 \<lparr>an_res = 0, an_vals = [0x61, 0]\<rparr> (\<lambda>_. 0)) 0 12 s = Some (Inr (5, ex_stat, [0x61], Inr ex_hdr), s\<lparr>hist := h\<rparr>)"
    if v: "env s = ex_answer" for s
  proof -
    let ?s = "tell (TellFs FsChdir (who s) 0 0) s"
    obtain h where a: "allowed [0x61] X_BIT ?s = Some (Inr (5, ex_stat), ?s\<lparr>hist := h\<rparr>)" using al [of ?s] v by (auto simp: code_defs)
    have r: "read_header 5 1 (?s\<lparr>hist := h\<rparr>) = (Inr ex_hdr, tell (ReadFile 5 A_MINHDR) (?s\<lparr>hist := h\<rparr>))"
      by (rule ex_read_header) (simp add: v code_defs)
    show ?thesis unfolding exec_try_def using a r ex_name by (simp add: ex_round code_defs) blast
  qed
  let ?s2 = "tell (SysCopyIn 3 200 12) (tell (SysCopyIn 3 100 2) ex_exec)"
  obtain h where t: "exec_try (fill_buf 2 \<lparr>an_res = 0, an_vals = [0x61, 0]\<rparr> (\<lambda>_. 0)) 0 12 ?s2 = Some (Inr (5, ex_stat, [0x61], Inr ex_hdr), ?s2\<lparr>hist := h\<rparr>)"
    using tr [of ?s2] e by (auto simp: code_defs)
  have "exec_find (fill_buf 2 \<lparr>an_res = 0, an_vals = [0x61, 0]\<rparr> (\<lambda>_. 0)) st 12 ?s2
    = Some (Inr \<lparr>xi_fd = 5, xi_stat0 = ex_stat, xi_stat = ex_stat, xi_hdr = ex_hdr, xi_stack = st, xi_bytes = 12, xi_name = [0x61]\<rparr>, ?s2\<lparr>hist := h\<rparr>)" for st
    unfolding exec_find_def t by simp
  then have "\<exists>st. exec_open ex_args ex_exec
   = Some (Inr \<lparr>xi_fd = 5, xi_stat0 = ex_stat, xi_stat = ex_stat, xi_hdr = ex_hdr, xi_stack = st, xi_bytes = 12, xi_name = [0x61]\<rparr>, ?s2\<lparr>hist := h\<rparr>)"
    unfolding exec_open_def ask_def Let_def using e by (simp add: ex_args_def ex_answer_def code_defs)
  then show ?thesis by (auto simp: code_defs)
qed

text \<open>The clicks of the new image are found, and the old ones given back.\<close>

lemma zero_loop_ok:
  assumes "\<And>q b n. env s (SysZero b n # q) = \<lparr>an_res = 0, an_vals = [0, 0, 0]\<rparr>"
  shows "\<exists>h. zero_loop base bytes s = Some (s\<lparr>hist := h\<rparr>)"
  using assms
proof (induction base bytes s rule: zero_loop.induct)
  case (1 base bytes s)
  show ?case
  proof (cases "bytes = 0")
    case True
    have "s = s\<lparr>hist := hist s\<rparr>" by simp
    then show ?thesis using True by (subst zero_loop.simps) (metis (full_types))
  next
    case False
    let ?t = "tell (SysZero base (min bytes 1024)) s"
    have "\<exists>h. zero_loop (base + min bytes 1024) (bytes - min bytes 1024) ?t = Some (?t\<lparr>hist := h\<rparr>)"
      using "1.IH" [OF False refl] "1.prems" by (simp add: ask_def code_defs)
    then show ?thesis using False "1.prems" by (subst zero_loop.simps) (auto simp: ask_def Let_def code_defs)
  qed
qed

lemma ex_new_mem: "\<exists>s'. new_mem None None ex_hdr 12 (ex_exec\<lparr>hist := h\<rparr>) = Some (OK, s') \<and> env s' = ex_answer \<and> mp s' = 3 \<and> in_queue s' = None"
proof -
  let ?s = "ex_exec\<lparr>hist := h\<rparr>"
  have f: "holes ?s = holes ex_mm" "hole_head ?s = hole_head ex_mm" "free_slots ?s = free_slots ex_mm" "swap_base ?s = swap_base ex_mm"
    "mproctab ?s = ex_mproc" "env ?s = ex_answer" "mp ?s = 3" by (simp_all add: ex_exec_def)
  have h: "hole_inv ?s ([] @ 0 # []) [1..<64]" "free_clicks ?s ([] @ 0 # []) = {10..<60}"
    using ex_holes_ok ex_free hole_inv_cong [OF f(1-3)] by simp_all
  obtain s1 hs1 fs1 where b: "bite None 0 5 ?s = Some s1" "hole_inv s1 hs1 fs1" "holes_only ?s s1" "free_clicks s1 hs1 = {10..<60} - block 10 5"
      "length [1..<64] \<le> length fs1"
    using bite_spec [OF h(1) refl, of 5 None] h(2) by (auto simp: f ex_holes_def simp del: upt_rec_numeral)
  have a: "alloc_mem 5 ?s = Some (10, s1)"
    using b(1) by (subst alloc_mem.simps) (simp add: f ex_holes_def find_hole.simps)
  note t1 = holes_onlyD [OF b(3)]
  have sh: "find_share 3 0 0 0 s1 = None" by (simp add: find_share_def find_None_iff t1 f)
  have "fs1 \<noteq> []" using b(5) by auto
  then obtain s2 where s2: "free_mem 120 10 s1 = Some s2" "holes_only s1 s2"
    using free_mem_spec [OF b(2), of 10 120] b(4) by (auto simp: block_def)
  note t2 = holes_onlyD [OF s2(2)]
  have "free_mem 0 0 s1 = Some s1" by (simp add: free_mem_def)
  then have em: "exit_memory 3 s1 = Some s2" using s2(1) sh by (simp add: exit_memory_def t1 f image_clicks_def)
  let ?g = "4 - 1 - 1 :: u32"
  let ?m = "exec_segs None 10 1 1 ?g 1"
  let ?t = "clear_flags {WAITING, ONSWAP, SWAPIN} 3 (tell (SysNewmap (who s2) ?m) (upd_mp 3 (\<lambda>p. p\<lparr>mp_seg := ?m\<rparr>) s2))"
  have q: "in_queue t' = in_queue t" if "holes_only t t'" for t t'
    by (subst that [unfolded holes_only_def]) (simp add: set_holes_def)
  have e: "env ?t = ex_answer" "mp ?t = 3" "in_queue ?t = None" using q [OF b(3)] q [OF s2(2)] by (simp_all add: code_defs t1 t2 f ex_exec_def)
  obtain h' where z: "zero_loop (push_bit CLICK_SHIFT (mem_phys (?m SegD)) + push_bit CLICK_SHIFT (drop_bit CLICK_SHIFT 100))
      (push_bit CLICK_SHIFT (1 + ?g + 1) - push_bit CLICK_SHIFT (drop_bit CLICK_SHIFT 100)) ?t = Some (?t\<lparr>hist := h'\<rparr>)"
    using zero_loop_ok [of ?t] e(1) by (fastforce simp: ex_answer_def)
  have "new_mem None None ex_hdr 12 ?s = Some (OK, ?t\<lparr>hist := h'\<rparr>)"
    unfolding new_mem_def Let_def using a em z by (simp add: ex_hdr_def ex_round t1 f)
  then show ?thesis using e by auto
qed

lemma ex_exec_runs: "\<exists>s'. mm_do_exec ex_args ex_exec = Some (SUSPEND, s') \<and> env s' = ex_answer \<and> in_queue s' = None"
proof -
  obtain st h where o: "exec_open ex_args ex_exec
   = Some (Inr \<lparr>xi_fd = 5, xi_stat0 = ex_stat, xi_stat = ex_stat, xi_hdr = ex_hdr, xi_stack = st, xi_bytes = 12, xi_name = [0x61]\<rparr>, ex_exec\<lparr>hist := h\<rparr>)"
    using ex_open by blast
  obtain s1 where n: "new_mem None None ex_hdr 12 (ex_exec\<lparr>hist := h\<rparr>) = Some (OK, s1)" "env s1 = ex_answer" "in_queue s1 = None"
    using ex_new_mem by blast
  have sh: "find_share 3 9 1 50 (ex_exec\<lparr>hist := h\<rparr>) = None" by (simp add: find_share_def find_None_iff ex_exec_def)
  let ?im = "\<lparr>xi_fd = 5, xi_stat0 = ex_stat, xi_stat = ex_stat, xi_hdr = ex_hdr, xi_stack = st, xi_bytes = 12, xi_name = [0x61]\<rparr>"
  have "exec_load False ?im s1 \<noteq> None"
    unfolding exec_load_def Let_def ask_def using n(2) by (simp add: code_defs ex_answer_def)
  then obtain s' where l: "exec_load False ?im s1 = Some s'" by blast
  have m: "mp (ex_exec\<lparr>hist := h\<rparr>) = 3" "xa_stray ex_args = None" "st_ino ex_stat = 9" "st_dev ex_stat = 1" "st_ctime ex_stat = 50"
    by (simp_all add: ex_exec_def ex_args_def ex_stat_def)
  have "mm_do_exec ex_args ex_exec = Some (SUSPEND, s')"
    unfolding mm_do_exec_def o using n(1) l sh by (simp add: m Let_def)
  then show ?thesis using exec_load_slot [OF l] slot_setD(9,10) n(2,3) by metis
qed

lemma ex_exec_mem: "mem_inv ex_exec"
  by (rule mem_keep [OF ex_mem mem_same_state]) (simp_all add: ex_exec_def)

lemma ex_exec_grants: "exec_grants ex_args ex_exec"
proof -
  have "find_share 3 9 1 50 (ex_exec\<lparr>hist := h\<rparr>) = None" for h by (simp add: find_share_def find_None_iff ex_exec_def)
  moreover have "mp (ex_exec\<lparr>hist := h\<rparr>) = 3" "xa_stray ex_args = None" "st_ino ex_stat = 9" "st_dev ex_stat = 1" "st_ctime ex_stat = 50" for h
    by (simp_all add: ex_exec_def ex_args_def ex_stat_def)
  ultimately show ?thesis unfolding exec_grants_def using ex_open by auto
qed

lemma ex_step_exec: "\<exists>s'. mm_step 3 (MExec ex_args) ex_exec = Some s'"
proof -
  have g: "get_work 3 ex_exec = ex_exec" by (simp add: get_work_def ex_exec_def ex_mm_def)
  obtain s1 where c: "mm_do_exec ex_args ex_exec = Some (SUSPEND, s1)" "env s1 = ex_answer" "in_queue s1 = None" using ex_exec_runs by blast
  have i: "swap_in s1 = Some s1" unfolding swap_in_def by (subst swap_in_loop.simps) (simp add: queue_at_def c)
  have "send_replies ns u \<noteq> None" if "env u = ex_answer" for ns u
    using that by (induction ns arbitrary: u) (simp_all add: ask_def code_defs Let_def ex_answer_def)
  then obtain s' where "send_replies all_slots s1 = Some s'" using c(2) by blast
  then show ?thesis unfolding mm_step_def using c(1) i by (simp add: g call_vec_def)
qed

end
