(* ===== verification/MM_Memory_Theorems.thy ===== *)
theory MM_Memory_Theorems
  imports MM_Exec_Example
begin

text \<open>
  The properties of the memory manager's memory: who owns it, how it is allocated and given back, how
  the segments of a process grow.  Each is followed by an instance on \<open>ex_mm\<close>.
\<close>

subsection \<open>The free clicks determine the holes\<close>

lemma gaps_hd_min:
  assumes "gaps (p # xs)" "\<forall>q \<in> set (p # xs). span_ok q"
  shows "fst p \<in> cover (p # xs)" "\<forall>i \<in> cover (p # xs). fst p \<le> i" "fst p + snd p \<notin> cover (p # xs)" "cover xs = cover (p # xs) - block (fst p) (snd p)"
proof -
  have g: "fst p + snd p < fst q" if "q \<in> set xs" for q using assms(1) that unfolding gaps_def by auto
  show "fst p \<in> cover (p # xs)" using assms(2) by (auto simp: block_def span_ok_def)
  have c: "fst p + snd p < i" if "i \<in> cover xs" for i using that g unfolding cover_def block_def by force
  show "\<forall>i \<in> cover (p # xs). fst p \<le> i" using c by (force simp: block_def)
  show "fst p + snd p \<notin> cover (p # xs)" using c by (auto simp: block_def)
  show "cover xs = cover (p # xs) - block (fst p) (snd p)" using c by (fastforce simp: block_def)
qed

lemma gaps_hd_unique:
  assumes p: "gaps (p # xs)" "\<forall>r \<in> set (p # xs). span_ok r" and q: "gaps (q # ys)" "\<forall>r \<in> set (q # ys). span_ok r"
    and e: "cover (p # xs) = cover (q # ys)"
  shows "p = q"
proof -
  note hp = gaps_hd_min [OF p] and hq = gaps_hd_min [OF q]
  have f: "fst p = fst q" using hp(1,2) hq(1,2) e by (metis le_antisym)
  have "\<not> snd p < snd q"
  proof
    assume "snd p < snd q"
    then have "fst p + snd p \<in> cover (q # ys)" using f by (simp add: block_def)
    then show False using hp(3) unfolding e by blast
  qed
  moreover have "\<not> snd q < snd p"
  proof
    assume "snd q < snd p"
    then have "fst q + snd q \<in> cover (p # xs)" using f by (simp add: block_def)
    then show False using hq(3) unfolding e by blast
  qed
  ultimately show ?thesis using f by (simp add: prod_eq_iff)
qed

lemma gaps_unique:
  assumes "gaps xs" "\<forall>q \<in> set xs. span_ok q" "gaps ys" "\<forall>q \<in> set ys. span_ok q" "cover xs = cover ys"
  shows "xs = ys"
  using assms
proof (induction xs arbitrary: ys)
  case Nil
  show ?case
  proof (cases ys)
    case (Cons q ys')
    then show ?thesis using gaps_hd_min(1) [of q ys'] Nil.prems by simp
  qed simp
next
  case (Cons p xs)
  show ?case
  proof (cases ys)
    case Nil
    then show ?thesis using gaps_hd_min(1) [of p xs] Cons.prems by simp
  next
    case ys: (Cons q ys')
    have pq: "p = q" by (rule gaps_hd_unique [of p xs q ys']) (use Cons.prems ys in simp_all)
    have "cover xs = cover ys'"
      using gaps_hd_min(4) [of p xs] gaps_hd_min(4) [of q ys'] Cons.prems ys pq by simp
    then have "xs = ys'" by (intro Cons.IH) (use Cons.prems ys in \<open>auto simp: gaps_def\<close>)
    then show ?thesis using pq ys by simp
  qed
qed

subsection \<open>Allocation is first fit\<close>

definition fits :: "u32 \<Rightarrow> mm \<Rightarrow> nat \<Rightarrow> bool" where
  "fits clicks s x \<longleftrightarrow> h_base (holes s x) < swap_base s \<and> clicks \<le> h_len (holes s x)"

lemma gaps_below:
  assumes i: "hole_inv s (us @ x # vs) fs" and u: "u \<in> set us"
  shows "h_base (holes s u) < h_base (holes s x)"
  using i u unfolding hole_inv_def gaps_def sorted_wrt_map sorted_wrt_append hspan_def word_less_nat_alt by fastforce

lemma find_hole_first:
  assumes i: "hole_inv s (us @ x # vs) fs" and f: "fits clicks s x" "\<forall>u \<in> set us. \<not> fits clicks s u"
  shows "(case hole_head s of None \<Rightarrow> Some None
     | Some hp \<Rightarrow> find_hole (\<lambda>h. h_base h < swap_base s) (\<lambda>h. h_len h \<ge> clicks) (holes s) None hp)
     = Some (Some (if us = [] then None else Some (last us), x))"
proof -
  let ?go = "\<lambda>h. h_base h < swap_base s" and ?hit = "\<lambda>h. h_len h \<ge> clicks"
  have ch: "chain (hnext s) (hole_head s) (us @ x # vs)" using i unfolding hole_inv_def hole_links_def by blast
  then obtain hp where hp: "hole_head s = Some hp" by (cases us) auto
  have gu: "?go (holes s u) \<and> \<not> ?hit (holes s u)" if "u \<in> set us" for u
    using gaps_below [OF i that] f that unfolding fits_def by auto
  have d: "distinct (us @ x # vs)" by (rule chain_distinct [OF ch])
  consider us' y vs' where "us @ x # vs = us' @ y # vs'" "find_hole ?go ?hit (holes s) None hp = Some (Some (if us' = [] then None else Some (last us'), y))"
      "?go (holes s y)" "?hit (holes s y)" "\<forall>u \<in> set us'. ?go (holes s u) \<and> \<not> ?hit (holes s u)"
    | us' vs' where "us @ x # vs = us' @ vs'" "\<forall>u \<in> set us'. ?go (holes s u) \<and> \<not> ?hit (holes s u)" "vs' \<noteq> [] \<longrightarrow> \<not> ?go (holes s (hd vs'))"
    using find_hole_spec [OF ch [unfolded hp], of ?go ?hit None] by (elim disjE exE conjE) ((rule that(1), assumption+) | (rule that(2), assumption+))+
  then show ?thesis
  proof cases
    case 1
    have "x \<notin> set us'" using 1(5) f(1) unfolding fits_def by blast
    moreover have "y \<notin> set us" using gu 1(4) by blast
    ultimately have "us = us' \<and> x = y"
      using 1(1) by (auto simp: append_eq_append_conv2 Cons_eq_append_conv append_eq_Cons_conv)
    then show ?thesis using 1(2) hp by simp
  next
    case 2
    have "x \<notin> set us'" using 2(2) f(1) unfolding fits_def by blast
    then obtain ws where "us = us' @ ws" "vs' = ws @ x # vs" using 2(1) by (auto simp: append_eq_append_conv2 Cons_eq_append_conv)
    then have "hd vs' \<in> set us \<union> {x}" "vs' \<noteq> []" by (cases ws; simp)+
    then show ?thesis using 2(3) gu f(1) unfolding fits_def by blast
  qed
qed

lemma alloc_mem_found:
  assumes "(case hole_head s of None \<Rightarrow> Some None
     | Some hp \<Rightarrow> find_hole (\<lambda>h. h_base h < swap_base s) (\<lambda>h. h_len h \<ge> clicks) (holes s) None hp) = Some (Some (prev, x))"
  shows "alloc_mem clicks s = map_option (Pair (h_base (holes s x))) (bite prev x clicks s)"
  by (subst alloc_mem.simps) (simp add: assms)

text \<open>C22: First fit: when some hole below the swap area is large enough, \<^verbatim>\<open>alloc_mem()\<close> takes its
  clicks from the start of the first such hole, and from nowhere else; nobody is swapped out, and nothing
  but the holes changes.\<close>

theorem alloc_first_fit:
  assumes "hole_inv s (us @ x # vs) fs" "clicks \<noteq> 0" "fits clicks s x" "\<forall>u \<in> set us. \<not> fits clicks s u"
  shows "\<exists>s' hs' fs'. alloc_mem clicks s = Some (h_base (holes s x), s') \<and> hole_inv s' hs' fs' \<and> holes_only s s'
    \<and> free_clicks s' hs' = free_clicks s (us @ x # vs) - block (unat (h_base (holes s x))) (unat clicks)"
proof -
  let ?prev = "if us = [] then None else Some (last us)"
  obtain s' hs' fs' where b: "bite ?prev x clicks s = Some s'" "hole_inv s' hs' fs'" "holes_only s s'"
    "free_clicks s' hs' = free_clicks s (us @ x # vs) - block (unat (h_base (holes s x))) (unat clicks)"
    using bite_spec [OF assms(1) refl assms(2), of ?prev] assms(3) unfolding fits_def by auto
  then show ?thesis using alloc_mem_found [OF find_hole_first [OF assms(1,3,4)]] by auto
qed

lemma alloc_first_fit_witness:
  "\<exists>s'. alloc_mem 20 ex_mm = Some (10, s') \<and> (\<exists>hs'. free_clicks s' hs' = {10..<60} - {10..<30})"
  using alloc_first_fit [of ex_mm "[]" 0 "[]" "[1..<64]" 20] ex_holes_ok
  by (auto simp: fits_def ex_free block_def ex_holes_def simp del: upt_rec_numeral)

text \<open>C21: A block that was allocated without swapping and is freed again leaves the list of holes as it was:
  the same holes, in the same order, with the same bounds (the table slots that hold them may differ).\<close>

theorem alloc_free_round_trip:
  assumes "hole_inv s (us @ x # vs) fs" "fs \<noteq> []" "clicks \<noteq> 0" "fits clicks s x" "\<forall>u \<in> set us. \<not> fits clicks s u"
  shows "\<exists>s' s'' hs'' fs''. alloc_mem clicks s = Some (h_base (holes s x), s') \<and> free_mem (h_base (holes s x)) clicks s' = Some s''
    \<and> hole_inv s'' hs'' fs'' \<and> map (hspan s'') hs'' = map (hspan s) (us @ x # vs) \<and> holes_only s s''"
proof -
  let ?b = "h_base (holes s x)" and ?prev = "if us = [] then None else Some (last us)" and ?hs = "us @ x # vs"
  let ?B = "block (unat ?b) (unat clicks)"
  have c: "clicks \<le> h_len (holes s x)" using assms(4) unfolding fits_def by blast
  obtain s' hs' fs' where b: "bite ?prev x clicks s = Some s'" "hole_inv s' hs' fs'" "holes_only s s'"
    "free_clicks s' hs' = free_clicks s ?hs - ?B" "length fs \<le> length fs'"
    using bite_spec [OF assms(1) refl assms(3) c, of ?prev] by auto
  have a: "alloc_mem clicks s = Some (?b, s')" using alloc_mem_found [OF find_hole_first [OF assms(1,4,5)]] b(1) by simp
  have sp: "span_ok (hspan s x)" using assms(1) unfolding hole_inv_def by simp
  then have r: "?b \<noteq> 0" "unat ?b + unat clicks \<le> 2 ^ 32" using c unfolding span_ok_def hspan_def by (auto simp: word_le_nat_alt unat_gt_0)
  have sub: "?B \<subseteq> free_clicks s ?hs" using c by (auto simp: free_clicks_def hspan_def block_def word_le_nat_alt)
  have "fs' \<noteq> []" using b(5) assms(2) by auto
  moreover have "?B \<inter> free_clicks s' hs' = {}" using b(4) by blast
  ultimately obtain s'' hs'' fs'' where f: "free_mem ?b clicks s' = Some s''" "hole_inv s'' hs'' fs''" "holes_only s' s''"
    "free_clicks s'' hs'' = free_clicks s' hs' \<union> ?B"
    using free_mem_spec [OF b(2) _ assms(3) r] by blast
  have "map (hspan s'') hs'' = map (hspan s) ?hs"
    by (rule gaps_unique) (use f(2,4) b(4) sub assms(1) in \<open>auto simp: hole_inv_def free_clicks_def [symmetric] simp del: map_append list.map\<close>)
  then show ?thesis using a f holes_only_trans [OF b(3) f(3)] by blast
qed

lemma alloc_free_round_trip_witness:
  "\<exists>s' s'' hs''. alloc_mem 50 ex_mm = Some (10, s') \<and> free_mem 10 50 s' = Some s'' \<and> map (hspan s'') hs'' = [(10, 50)]"
proof -
  have h: "hole_inv ex_mm ([] @ 0 # []) [1..<64]" using ex_holes_ok by simp
  have n: "[1..<64] \<noteq> ([] :: nat list)" by simp
  have k: "(50 :: u32) \<noteq> 0" "fits 50 ex_mm 0" "\<forall>u \<in> set []. \<not> fits 50 ex_mm u" by (simp_all add: fits_def ex_holes_def)
  obtain s' s'' hs'' where r: "alloc_mem 50 ex_mm = Some (h_base (holes ex_mm 0), s')" "free_mem (h_base (holes ex_mm 0)) 50 s' = Some s''"
    "map (hspan s'') hs'' = map (hspan ex_mm) ([] @ 0 # [])"
    using alloc_free_round_trip [OF h n k] by blast
  have e: "h_base (holes ex_mm 0) = 10" "map (hspan ex_mm) ([] @ 0 # []) = [(10, 50)]" by (simp_all add: hspan_def ex_holes_def)
  show ?thesis
    by (rule exI [of _ s'], rule exI [of _ s''], rule exI [of _ hs'']) (intro conjI r [unfolded e])
qed

subsection \<open>Who owns the memory\<close>



text \<open>C23: What \<^verbatim>\<open>alloc_mem()\<close> hands out, after any number of processes were swapped out, belongs to
  nobody: it is apart from the holes that remain, from the data of every live process and from every text,
  and lies below the swap area.  The refusal leaves the memory sound as well.\<close>

theorem alloc_mem_unowned:
  assumes "mem_inv s" "clicks \<noteq> 0" "alloc_mem clicks s = Some (b, s')"
  shows "if b = NO_MEM then mem_inv s'
    else mem_hold (block (unat b) (unat clicks)) s' \<and> unat b + unat clicks < unat (swap_base s')
      \<and> (\<forall>n \<in> set user_slots. live s' n \<longrightarrow> block (unat b) (unat clicks) \<inter> (data_of (pmem_of s' n) \<union> text_of (pmem_of s' n)) = {})"
proof (cases "b = NO_MEM")
  case True
  then show ?thesis using alloc_mem_spec [OF assms] by simp
next
  case False
  have h: "mem_hold (block (unat b) (unat clicks)) s'" "unat b + unat clicks < unat (swap_base s')"
    using alloc_mem_spec [OF assms] False by blast+
  obtain hs where ok: "mem_ok (pmem_of s') (unat (swap_base s')) (free_clicks s' hs \<union> block (unat b) (unat clicks))"
    using h(1) unfolding mem_hold_def by blast
  have "block (unat b) (unat clicks) \<inter> (data_of (pmem_of s' n) \<union> text_of (pmem_of s' n)) = {}" if "n \<in> set user_slots" "live s' n" for n
    using mem_okD(1) [OF ok that(1)] that(2) unfolding own_ok_def by auto
  then show ?thesis using h False by simp
qed

lemma alloc_mem_unowned_witness: "\<exists>s'. mem_hold {10..<30} s'"
proof -
  obtain s' where a: "alloc_mem 20 ex_mm = Some (10, s')"
    using alloc_mem_found [OF find_hole_first [of ex_mm "[]" 0 "[]" "[1..<64]" 20]] bite_spec [of ex_mm "[0]" "[1..<64]" "[]" 0 "[]" 20 None] ex_holes_ok
    by (auto simp: fits_def ex_holes_def simp del: upt_rec_numeral)
  have "mem_hold (block (unat (10 :: u32)) (unat (20 :: u32))) s'" using alloc_mem_unowned [OF ex_mem _ a] by simp
  then show ?thesis by (auto simp: block_def)
qed

subsection \<open>Data and stack\<close>

lemma sint_small: "unat (w :: u32) < 2 ^ 31 \<Longrightarrow> sint w = int (unat w)"
proof -
  assume "unat w < 2 ^ 31"
  then have "int (unat w) < int (2 ^ 31)" by (simp only: of_nat_less_iff)
  then have "uint w < 2 ^ 31" by simp
  then have "signed_take_bit 31 (uint w) = uint w" by (intro signed_take_bit_int_eq_self) (simp_all add: order_trans [OF _ uint_ge_0])
  then show ?thesis by (simp add: sint_uint)
qed

text \<open>C27: \<^verbatim>\<open>adjust()\<close>, in whole numbers: for a process with a stack, the data segment
  may take its new size and the stack reach down to the stack pointer exactly when the pointer is below the
  top of the stack and the data with its two clicks of safety end at or below the old start of the stack and the
  click of the pointer.  Then the data have that size, the stack starts at the lower of the two clicks,
  its top, the start of the data and the text have not moved, neither in the address space of the process nor in
  memory, no other process is touched, and the kernel is told of the new map when there is a new one.
  Otherwise the answer is \<open>ENOMEM\<close> and nothing at all changes, also for sizes so large that
  the sums of the code wrap.\<close>

theorem adjust_keeps_apart:
  fixes s :: mm and n :: int and data_clicks sp :: u32
  defines "m \<equiv> mseg s n"
  defines "stop \<equiv> unat (mem_vir (m SegS)) + unat (mem_len (m SegS))"
    and "dend \<equiv> unat (mem_vir (m SegD)) + unat data_clicks"
    and "low \<equiv> min (unat (mem_vir (m SegS))) (unat sp div 1024)"
  assumes "mem_len (m SegS) \<noteq> 0" "stop < 2 ^ 31" "dend < 2 ^ 32"
  shows "case adjust n data_clicks sp s of (r, s') \<Rightarrow>
     if unat sp div 1024 < stop \<and> dend + 2 \<le> low
     then r = OK \<and> mem_len (mseg s' n SegD) = data_clicks \<and> unat (mem_vir (mseg s' n SegS)) = low
       \<and> unat (mem_vir (mseg s' n SegS)) + unat (mem_len (mseg s' n SegS)) = stop
       \<and> mem_phys (mseg s' n SegS) - mem_vir (mseg s' n SegS) = mem_phys (m SegS) - mem_vir (m SegS)
       \<and> mem_phys (mseg s' n SegD) = mem_phys (m SegD) \<and> mem_vir (mseg s' n SegD) = mem_vir (m SegD)
       \<and> mseg s' n SegT = m SegT \<and> (\<forall>k. k \<noteq> n \<longrightarrow> mproctab s' k = mproctab s k)
       \<and> hist s' = (if mseg s' n = m then hist s else SysNewmap n (mseg s' n) # hist s)
     else r = ENOMEM \<and> s' = s"
proof -
  define c where "c = drop_bit CLICK_SHIFT sp"
  define d where "d = sint (mem_vir (m SegS)) - sint c"
  define lower where "lower = (if d > 0 then c else mem_vir (m SegS))"
  let ?m' = "adjust_segs data_clicks d m"
  have c: "unat c = unat sp div 1024" unfolding c_def unat_drop_bit_eq by (simp add: drop_bit_nat_def)
  have c31: "unat c < 2 ^ 31" using c unsigned_less [where ?'a = nat, of sp] by simp
  have v31: "unat (mem_vir (m SegS)) < 2 ^ 31" using assms(6) unfolding stop_def by simp
  have dv: "d = int (unat (mem_vir (m SegS))) - int (unat c)" unfolding d_def sint_small [OF c31] sint_small [OF v31] ..
  have dp: "d > 0 \<longleftrightarrow> unat c < unat (mem_vir (m SegS))" unfolding dv by linarith
  have lo: "unat lower = low" unfolding lower_def low_def c [symmetric] dp by simp
  have bs: "unat (mem_vir (m SegS) + mem_len (m SegS)) = stop" using assms(6) unfolding stop_def by (simp add: unat_word_ariths)
  have he: "unat (mem_vir (m SegD) + data_clicks) = dend" using assms(7) unfolding dend_def by (simp add: unat_word_ariths)
  have l31: "low < 2 ^ 31" using v31 unfolding low_def by simp
  have od: "of_int d = mem_vir (m SegS) - c" unfolding d_def by simp
  have v': "mem_vir (?m' SegS) = lower" unfolding adjust_segs_def Let_def lower_def by (simp add: od)
  have gap: "\<not> lower < mem_vir (m SegD) + data_clicks + SAFETY_CLICKS \<and> \<not> mem_vir (m SegD) + data_clicks > lower \<longleftrightarrow> dend + 2 \<le> low"
  proof (cases "dend + 2 < 2 ^ 32")
    case True
    then have "unat (mem_vir (m SegD) + data_clicks + SAFETY_CLICKS) = dend + 2" using he by (simp add: unat_word_ariths)
    then show ?thesis using he lo by (auto simp: word_less_nat_alt)
  next
    case False
    then show ?thesis using he lo l31 by (auto simp: word_less_nat_alt)
  qed
  have eq: "adjust n data_clicks sp s = (if c < mem_vir (m SegS) + mem_len (m SegS) \<and> dend + 2 \<le> low
      then (OK, if data_clicks \<noteq> mem_len (m SegD) \<or> d > 0 then tell (SysNewmap n ?m') (upd_mp n (\<lambda>p. p\<lparr>mp_seg := ?m'\<rparr>) s)
        else upd_mp n (\<lambda>p. p\<lparr>mp_seg := ?m'\<rparr>) s)
      else (ENOMEM, s))"
  proof -
    have sd: "mem_len (?m' SegD) = data_clicks" "restore_segs (mem_len (m SegD)) d ?m' = m" "upd_mp n (\<lambda>p. p\<lparr>mp_seg := m\<rparr>) s = s"
      by (simp add: adjust_segs_def Let_def) (simp_all add: m_def)
    show ?thesis
      using assms(5) gap
      unfolding adjust_def Let_def m_def [symmetric] c_def [symmetric] d_def [symmetric] lower_def [symmetric] size_ok_def v' sd adjust_segs_image
      by (auto simp: not_le not_less)
  qed
  have ct: "c < mem_vir (m SegS) + mem_len (m SegS) \<longleftrightarrow> unat sp div 1024 < stop" unfolding word_less_nat_alt c bs ..
  show ?thesis
  proof (cases "unat sp div 1024 < stop \<and> dend + 2 \<le> low")
    case False
    show ?thesis unfolding eq ct if_not_P [OF False] by simp
  next
    case True
    let ?s' = "snd (adjust n data_clicks sp s)"
    have m': "mseg ?s' n = ?m'" "fst (adjust n data_clicks sp s) = OK" "\<forall>k. k \<noteq> n \<longrightarrow> mproctab ?s' k = mproctab s k"
      unfolding eq ct using True by (simp_all add: code_defs)
    have ne: "?m' = m \<longleftrightarrow> data_clicks = mem_len (m SegD) \<and> \<not> d > 0"
    proof
      assume a: "?m' = m"
      have "mem_len (?m' SegD) = data_clicks" by (simp add: adjust_segs_def Let_def)
      moreover have "lower = mem_vir (m SegS)" using v' a by simp
      ultimately show "data_clicks = mem_len (m SegD) \<and> \<not> d > 0" using a dv unfolding lower_def by (auto split: if_splits)
    qed (simp add: adjust_segs_def Let_def fun_eq_iff)
    have h: "hist ?s' = (if ?m' = m then hist s else SysNewmap n ?m' # hist s)"
      unfolding ne eq ct using True by (auto simp: code_defs)
    have tp: "mem_vir (?m' SegS) + mem_len (?m' SegS) = mem_vir (m SegS) + mem_len (m SegS)"
      "mem_phys (?m' SegS) - mem_vir (?m' SegS) = mem_phys (m SegS) - mem_vir (m SegS)" "mem_len (?m' SegD) = data_clicks"
      by (simp_all add: adjust_segs_def Let_def)
    have ll: "mem_len (?m' SegS) = (mem_vir (m SegS) + mem_len (m SegS)) - lower" using tp(1) v' by (metis add_diff_cancel_left')
    have "lower \<le> mem_vir (m SegS) + mem_len (m SegS)" unfolding word_le_nat_alt bs lo unfolding low_def stop_def by simp
    then have "unat lower + unat (mem_len (?m' SegS)) = stop" unfolding ll using unat_sub [of lower "mem_vir (m SegS) + mem_len (m SegS)"] bs
      by (simp add: word_le_nat_alt)
    then have top: "unat (mem_vir (?m' SegS)) + unat (mem_len (?m' SegS)) = stop" unfolding v' .
    obtain r s' where rs: "adjust n data_clicks sp s = (r, s')" by (cases "adjust n data_clicks sp s")
    note m' = m' [unfolded rs fst_conv snd_conv] and h = h [unfolded rs snd_conv]
    show ?thesis
      unfolding rs prod.case if_P [OF True]
      by (intro conjI) (unfold m'(1), insert m'(2,3) h tp v' lo top, simp_all only: adjust_segs_image)
  qed
qed

lemma adjust_keeps_apart_witness:
  "(case adjust 3 5 (8 * 1024 - 1) ex_mm of (r, s') \<Rightarrow> r = OK \<and> unat (mem_vir (mseg s' 3 SegS)) = 7
     \<and> unat (mem_len (mseg s' 3 SegS)) = 3 \<and> hist s' = [SysNewmap 3 (mseg s' 3)]) \<and>
   adjust 3 6 (8 * 1024 - 1) ex_mm = (ENOMEM, ex_mm) \<and> adjust 3 0xFFFFFFFF (8 * 1024 - 1) ex_mm = (ENOMEM, ex_mm)"
proof -
  have d: "unat (8 * 1024 - 1 :: u32) div 1024 = 7" by simp
  have m: "mem_len (mseg ex_mm 3 SegS) \<noteq> 0" "unat (mem_vir (mseg ex_mm 3 SegS)) + unat (mem_len (mseg ex_mm 3 SegS)) < 2 ^ 31" "hist ex_mm = []"
    by (simp_all, simp add: ex_mm_def)
  have k: "unat (mem_vir (mseg ex_mm 3 SegD)) + unat (5 :: u32) < 2 ^ 32" "unat (mem_vir (mseg ex_mm 3 SegD)) + unat (6 :: u32) < 2 ^ 32"
    "unat (mem_vir (mseg ex_mm 3 SegD)) + unat (0xFFFFFFFF :: u32) < 2 ^ 32" by simp_all
  have "case adjust 3 5 (8 * 1024 - 1) ex_mm of (r, s') \<Rightarrow> r = OK \<and> unat (mem_vir (mseg s' 3 SegS)) = 7
     \<and> unat (mem_len (mseg s' 3 SegS)) = 3 \<and> hist s' = [SysNewmap 3 (mseg s' 3)]"
    using adjust_keeps_apart [OF m(1,2) k(1), of "8 * 1024 - 1"] m(3) unfolding d by (auto simp: split_beta)
  moreover have "adjust 3 6 (8 * 1024 - 1) ex_mm = (ENOMEM, ex_mm)"
    using adjust_keeps_apart [OF m(1,2) k(2), of "8 * 1024 - 1"] unfolding d by (simp add: split_beta prod_eq_iff)
  moreover have "adjust 3 0xFFFFFFFF (8 * 1024 - 1) ex_mm = (ENOMEM, ex_mm)"
    using adjust_keeps_apart [OF m(1,2) k(3), of "8 * 1024 - 1"] unfolding d by (simp add: split_beta prod_eq_iff)
  ultimately show ?thesis by blast
qed

end
