(* ===== verification/MM_Process_Theorems.thy ===== *)
theory MM_Process_Theorems
  imports MM_Example
begin

text \<open>
  The properties of the memory manager's processes: pids, fork, exit and wait, signals.  Each is followed by
  an instance on \<open>ex_mm\<close>.
\<close>

subsection \<open>The search for a pid ends\<close>

text \<open>The numbers a child in slot \<open>c\<close> may not have.\<close>

definition used_pids :: "int \<Rightarrow> mm \<Rightarrow> int set" where
  "used_pids c s = {mp_pid (mproctab s n) | n. n \<in> set all_slots \<and> n \<noteq> c} \<union> {mp_procgrp (mproctab s n) | n. n \<in> set all_slots}"

lemma pid_taken_iff: "c \<in> set all_slots \<Longrightarrow> pid_taken p s \<longleftrightarrow> p \<in> used_pids c s \<or> p = mp_pid (mproctab s c)"
  unfolding pid_taken_def used_pids_def list_ex_iff by blast

lemma used_pids_upd: "used_pids c (upd_mp c (\<lambda>p. p\<lparr>mp_pid := x\<rparr>) (s\<lparr>next_pid := y\<rparr>)) = used_pids c s"
  unfolding used_pids_def upd_mp_def by (auto; metis)

lemma used_pids_finite: "finite (used_pids c s)" "card (used_pids c s) \<le> 64"
proof -
  have e: "used_pids c s = (\<lambda>n. mp_pid (mproctab s n)) ` (set all_slots - {c}) \<union> (\<lambda>n. mp_procgrp (mproctab s n)) ` set all_slots"
    unfolding used_pids_def by blast
  have k: "card (set all_slots) \<le> 32" by (rule order_trans [OF card_length]) (simp add: all_slots_def)
  show "finite (used_pids c s)" unfolding e by (simp del: mem_slots)
  have "card (used_pids c s) \<le> card (set all_slots - {c}) + card (set all_slots)"
    unfolding e by (rule order_trans [OF card_Un_le]) (intro add_mono card_image_le; simp del: mem_slots)
  also have "\<dots> \<le> card (set all_slots) + card (set all_slots)" by (intro add_mono card_mono) (auto simp del: mem_slots)
  finally show "card (used_pids c s) \<le> 64" using k by linarith
qed

lemma pid_succ_range: "1 \<le> p \<Longrightarrow> p \<le> 30000 \<Longrightarrow> 2 \<le> pid_succ p \<and> pid_succ p \<le> 30000 \<and> pid_succ p \<noteq> p"
  by (simp add: pid_succ_def)

lemma pid_succ_count: "1 \<le> p \<Longrightarrow> p + int k \<le> 30000 \<Longrightarrow> (pid_succ ^^ k) p = p + int k"
  by (induction k) (simp_all add: pid_succ_def)

text \<open>The successors run through all pids.\<close>

lemma pid_succ_all:
  assumes "1 \<le> p" "p \<le> 30000" "2 \<le> q" "q \<le> 30000"
  shows "\<exists>k. (pid_succ ^^ Suc k) p = q"
proof -
  have "(pid_succ ^^ nat (30000 - p)) p = 30000" using pid_succ_count [of p "nat (30000 - p)"] assms by simp
  then have "(pid_succ ^^ Suc (nat (30000 - p))) p = 2" by (simp add: pid_succ_def)
  moreover have "(pid_succ ^^ nat (q - 2)) 2 = q" using pid_succ_count [of 2 "nat (q - 2)"] assms by simp
  ultimately have "(pid_succ ^^ (nat (q - 2) + Suc (nat (30000 - p)))) p = q" unfolding funpow_add by simp
  then show ?thesis by (metis add_Suc_right)
qed

lemma pid_loop_ends:
  assumes "c \<in> set all_slots" "(pid_succ ^^ Suc k) (next_pid s) \<notin> used_pids c s" "1 \<le> next_pid s" "next_pid s \<le> 30000"
    "mp_pid (mproctab s c) \<in> used_pids c s \<or> mp_pid (mproctab s c) = next_pid s"
  shows "\<exists>p. pid_loop c s = Some (upd_mp c (\<lambda>q. q\<lparr>mp_pid := p\<rparr>) (s\<lparr>next_pid := p\<rparr>)) \<and> p \<notin> used_pids c s \<and> 2 \<le> p \<and> p \<le> 30000"
  using assms
proof (induction k arbitrary: s)
  case (0 s)
  let ?p = "pid_succ (next_pid s)"
  have r: "2 \<le> ?p \<and> ?p \<le> 30000 \<and> ?p \<noteq> next_pid s" by (rule pid_succ_range [OF 0(3,4)])
  have "?p \<noteq> mp_pid (mproctab s c)" using 0(2,5) r by auto
  then have "\<not> pid_taken ?p s" using pid_taken_iff [OF 0(1)] 0(2) by simp
  then have "pid_loop c s = Some (upd_mp c (\<lambda>q. q\<lparr>mp_pid := ?p\<rparr>) (s\<lparr>next_pid := ?p\<rparr>))" by (subst pid_loop.simps) (simp add: Let_def)
  then show ?case using r 0(2) by auto
next
  case (Suc k s)
  let ?p = "pid_succ (next_pid s)"
  let ?t = "upd_mp c (\<lambda>q. q\<lparr>mp_pid := ?p\<rparr>) (s\<lparr>next_pid := ?p\<rparr>)"
  have r: "2 \<le> ?p \<and> ?p \<le> 30000 \<and> ?p \<noteq> next_pid s" by (rule pid_succ_range [OF Suc.prems(3,4)])
  show ?case
  proof (cases "pid_taken ?p s")
    case False
    then have "pid_loop c s = Some ?t" by (subst pid_loop.simps) (simp add: Let_def)
    moreover have "?p \<notin> used_pids c s" using pid_taken_iff [OF Suc.prems(1)] False by blast
    ultimately show ?thesis using r by blast
  next
    case True
    then have l: "pid_loop c s = pid_loop c ?t" by (subst pid_loop.simps) (simp add: Let_def)
    have t: "next_pid ?t = ?p" "mp_pid (mproctab ?t c) = ?p" by (simp_all add: upd_mp_def)
    have "\<exists>p. pid_loop c ?t = Some (upd_mp c (\<lambda>q. q\<lparr>mp_pid := p\<rparr>) (?t\<lparr>next_pid := p\<rparr>)) \<and> p \<notin> used_pids c ?t \<and> 2 \<le> p \<and> p \<le> 30000"
      by (rule Suc.IH [OF Suc.prems(1)]) (use Suc.prems(2) r in \<open>simp_all add: t used_pids_upd funpow_swap1\<close>)
    moreover have "upd_mp c (\<lambda>q. q\<lparr>mp_pid := p\<rparr>) (?t\<lparr>next_pid := p\<rparr>) = upd_mp c (\<lambda>q. q\<lparr>mp_pid := p\<rparr>) (s\<lparr>next_pid := p\<rparr>)" for p
      by (simp add: upd_mp_def)
    ultimately show ?thesis unfolding l used_pids_upd by simp
  qed
qed

text \<open>C24: The loop of \<^verbatim>\<open>do_fork()\<close> that looks for a free pid always ends, whatever pids and
  process groups the table holds, and the pid it gives the child is between 2 and 30000, differs from the
  pid and the process group of every other slot, and becomes \<^verbatim>\<open>next_pid\<close>; nothing else
  changes.\<close>

theorem fork_pid_fresh:
  assumes "c \<in> set all_slots" "1 \<le> next_pid s" "next_pid s \<le> 30000"
    and "n \<in> set all_slots" "n \<noteq> c" "mp_pid (mproctab s c) = mp_pid (mproctab s n)"
  shows "\<exists>p. pid_loop c s = Some (upd_mp c (\<lambda>q. q\<lparr>mp_pid := p\<rparr>) (s\<lparr>next_pid := p\<rparr>)) \<and> 2 \<le> p \<and> p \<le> 30000
    \<and> (\<forall>m \<in> set all_slots. (m \<noteq> c \<longrightarrow> mp_pid (mproctab s m) \<noteq> p) \<and> mp_procgrp (mproctab s m) \<noteq> p)"
proof -
  have "\<not> {2..30000} \<subseteq> used_pids c s"
  proof
    assume "{2..30000} \<subseteq> used_pids c s"
    then have "card {2..30000 :: int} \<le> 64" using card_mono [OF used_pids_finite(1)] used_pids_finite(2) order_trans by blast
    then show False by simp
  qed
  then obtain q where "q \<in> {2..30000}" and n: "q \<notin> used_pids c s" by blast
  then have q: "2 \<le> q" "q \<le> 30000" "q \<notin> used_pids c s" using n by simp_all
  obtain k where k: "(pid_succ ^^ Suc k) (next_pid s) = q" using pid_succ_all [OF assms(2,3) q(1,2)] by blast
  have "mp_pid (mproctab s c) \<in> used_pids c s" using assms(4-6) unfolding used_pids_def by blast
  then obtain p where p: "pid_loop c s = Some (upd_mp c (\<lambda>q. q\<lparr>mp_pid := p\<rparr>) (s\<lparr>next_pid := p\<rparr>))" "p \<notin> used_pids c s" "2 \<le> p" "p \<le> 30000"
    using pid_loop_ends [OF assms(1) _ assms(2,3), of k] q(3) k by blast
  then show ?thesis unfolding used_pids_def by blast
qed

lemma fork_pid_fresh_witness:
  "\<exists>p. pid_loop 5 (upd_mp 5 (\<lambda>_. ex_mproc 3) ex_mm) = Some (upd_mp 5 (\<lambda>q. q\<lparr>mp_pid := p\<rparr>) ((upd_mp 5 (\<lambda>_. ex_mproc 3) ex_mm)\<lparr>next_pid := p\<rparr>))
    \<and> p \<noteq> 1 \<and> p \<noteq> 20 \<and> p \<noteq> 30"
proof -
  let ?s = "upd_mp 5 (\<lambda>_. ex_mproc 3) ex_mm"
  have t: "mproctab ?s = ex_mproc(5 := ex_mproc 3)" "next_pid ?s = 30" by (simp_all add: upd_mp_def)
  have s: "(5::int) \<in> set all_slots" "(3::int) \<in> set all_slots" "(2::int) \<in> set all_slots" "(4::int) \<in> set all_slots" by simp_all
  have "\<exists>p. pid_loop 5 ?s = Some (upd_mp 5 (\<lambda>q. q\<lparr>mp_pid := p\<rparr>) (?s\<lparr>next_pid := p\<rparr>)) \<and> 2 \<le> p \<and> p \<le> 30000
    \<and> (\<forall>m \<in> set all_slots. (m \<noteq> 5 \<longrightarrow> mp_pid (mproctab ?s m) \<noteq> p) \<and> mp_procgrp (mproctab ?s m) \<noteq> p)"
    by (rule fork_pid_fresh [of 5 ?s 3]) (simp_all add: t)
  then obtain p where p: "pid_loop 5 ?s = Some (upd_mp 5 (\<lambda>q. q\<lparr>mp_pid := p\<rparr>) (?s\<lparr>next_pid := p\<rparr>))"
    and f: "\<forall>m \<in> set all_slots. (m \<noteq> 5 \<longrightarrow> mp_pid (mproctab ?s m) \<noteq> p) \<and> mp_procgrp (mproctab ?s m) \<noteq> p" by blast
  have "p \<noteq> 1" "p \<noteq> 20" "p \<noteq> 30" using bspec [OF f s(3)] bspec [OF f s(2)] bspec [OF f s(4)] by (auto simp: t)
  then show ?thesis using p by blast
qed

subsection \<open>Signals\<close>


text \<open>C18: SIGKILL is never blocked, ignored or caught: a round of the main loop, whatever call is served for
  whomever, leaves it out of the masks of every process, of the masks saved for handlers, and of the set of
  signals with a handler.\<close>

theorem sigkill_never_masked:
  assumes "kill_inv s" "mm_step src c s = Some s'"
  shows "kill_inv s'"
  by (rule mm_step_kill [OF assms])

lemma ex_step_mask: "mm_step 3 (MSigprocmask SIG_SETMASK (-1)) ex_mm \<noteq> None"
proof -
  let ?s = "upd_mp 3 (\<lambda>p. p\<lparr>mp_sigmask := sigdelset (-1) SIGKILL\<rparr>) (upd_mp 3 (\<lambda>p. p\<lparr>reply_mask := mp_sigmask p\<rparr>) (get_work 3 ex_mm))"
  let ?t = "set_flags {REPLY} 3 (upd_mp 3 (\<lambda>p. p\<lparr>reply_res := OK\<rparr>) ?s)"
  have n: "find (\<lambda>i. sigismember (mp_sigpending (mproctab ?s 3)) i \<noteq> 0 \<and> sigismember (mp_sigmask (mproctab ?s 3)) i = 0) [1..NSIG] = None"
    unfolding find_None_iff by (auto simp: upd_mp_def get_work_def sigismember_bit sigisvalid_def simp del: upto_rec_numeral)
  have "check_pending 3 ?s = Some ?s" unfolding check_pending_def n by simp
  then have "call_vec (MSigprocmask SIG_SETMASK (-1)) (get_work 3 ex_mm) = Some (OK, ?s)"
    by (simp add: call_vec_def do_sigprocmask_def Let_def get_work_def)
  moreover have "setreply 3 OK ?s = Some ?t" by (simp add: setreply_def Let_def code_defs get_work_def)
  moreover have "who ?s = 3" by (simp add: upd_mp_def get_work_def)
  moreover have "swap_in ?t = Some ?t" unfolding swap_in_def by (subst swap_in_loop.simps) (simp add: queue_at_def code_defs get_work_def)
  moreover have "send_replies ns u \<noteq> None" if "\<And>q. env u q = \<lparr>an_res = 0, an_vals = [0, 0, 0]\<rparr>" for ns u
    using that by (induction ns arbitrary: u) (simp_all add: ask_def code_defs Let_def)
  moreover have "env ?t q = \<lparr>an_res = 0, an_vals = [0, 0, 0]\<rparr>" for q by (simp add: code_defs get_work_def)
  ultimately show ?thesis unfolding mm_step_def by simp
qed

lemma sigkill_never_masked_witness:
  "\<exists>s'. mm_step 3 (MSigprocmask SIG_SETMASK (-1)) ex_mm = Some s' \<and> kill_inv s'"
  using sigkill_never_masked [OF ex_kill, of 3 "MSigprocmask SIG_SETMASK (-1)"] ex_step_mask by blast

text \<open>C19: So SIGKILL always works: sent to a live process it goes straight to \<^verbatim>\<open>mm_exit()\<close>, with
  the signal as the cause of death and without a core, whether the process is traced, stopped, blocked or swapped
  out; if that returns, the process no longer lives and no process has come to life.\<close>

theorem sigkill_ends_process:
  assumes "kill_inv s" "live s r" "ign_sset s = sigaddset 0 SIGCHLD" "core_sset s = fold (\<lambda>i m. sigaddset m i) core_sigs 0"
  shows "sig_proc r SIGKILL s = mm_exit r 0 (upd_mp r (\<lambda>p. p\<lparr>mp_sigstatus := 9\<rparr>) s)
    \<and> (\<forall>s'. sig_proc r SIGKILL s = Some s' \<longrightarrow> \<not> live s' r \<and> live_set s' \<subseteq> live_set s)"
proof -
  have g: "sigismember (ign_sset s) SIGKILL = 0" "sigismember (core_sset s) SIGKILL = 0"
    unfolding assms(3,4) by (simp_all add: core_sigs_def sigismember_bit bit_sigaddset sigisvalid_def)
  show ?thesis
    using sig_proc_sigkill [OF kill_invD [OF assms(1)] g assms(2)] sigkill_ends [OF kill_invD [OF assms(1)] g assms(2)] by blast
qed

lemma sigkill_ends_process_witness:
  "sig_proc 4 SIGKILL ex_mm = mm_exit 4 0 (upd_mp 4 (\<lambda>p. p\<lparr>mp_sigstatus := 9\<rparr>) ex_mm)"
proof -
  have i: "ign_sset ex_mm = sigaddset 0 SIGCHLD" "core_sset ex_mm = fold (\<lambda>i m. sigaddset m i) core_sigs 0"
    by (simp_all only: ex_mm_def mm.simps)
  have "live ex_mm 4" by (simp add: ex_live)
  then show ?thesis using sigkill_ends_process [OF ex_kill _ i, of 4] by blast
qed

lemma find_split: "find P xs = Some x \<Longrightarrow> \<exists>us vs. xs = us @ x # vs \<and> P x \<and> (\<forall>u \<in> set us. \<not> P u)"
proof (induction xs)
  case (Cons a xs)
  show ?case
  proof (cases "P a")
    case True
    then show ?thesis using Cons.prems by (intro exI [of _ "[]"] exI [of _ xs]) simp
  next
    case False
    then obtain us vs where "xs = us @ x # vs" "P x" "\<forall>u \<in> set us. \<not> P u" using Cons by auto
    then show ?thesis using False by (intro exI [of _ "a # us"] exI [of _ vs]) simp
  qed
qed simp

lemma check_sig_skip: "\<forall>n \<in> set ns. \<not> sig_selected pid g n s \<Longrightarrow> check_sig_loop k pid g (ns @ ms) c e s = check_sig_loop k pid g ms c e s"
  by (induction ns) simp_all

lemma check_sig_none: "\<forall>n \<in> set ns. \<not> sig_selected pid g n s \<Longrightarrow> check_sig_loop k pid g ns c e s = Some (c, e, s)"
  by (induction ns) simp_all

text \<open>C26: \<^verbatim>\<open>kill()\<close> for one pid: without such a process it answers \<open>ESRCH\<close>, without the
  permission (super user, or one of the caller's user ids equal to one of the target's) \<open>EPERM\<close>, in both cases
  leaving the state alone; signal 0 only tests; otherwise exactly that process is signalled, once, and a caller
  that did not survive gets no answer.\<close>

theorem kill_one_process:
  assumes "0 < pid" "0 \<le> g" "g \<le> NSIG" "\<not> (pid = INIT_PID \<and> g = SIGKILL)" "live s (mp s)"
    and u: "\<forall>n \<in> set user_slots. \<forall>m \<in> set user_slots. sig_selected pid g n s \<and> sig_selected pid g m s \<longrightarrow> n = m"
  shows "mm_do_kill pid g s = (case find (\<lambda>n. sig_selected pid g n s) user_slots of
      None \<Rightarrow> Some (ESRCH, s)
    | Some r \<Rightarrow> if \<not> sig_allowed (mproctab s (mp s)) (mproctab s r) then Some (EPERM, s)
        else if g = 0 then Some (OK, s)
        else map_option (\<lambda>s'. (if live s' (mp s') then OK else SUSPEND, s')) (sig_proc r g s))"
proof -
  have d: "mm_do_kill pid g s = Option.bind (check_sig_loop sig_proc pid g user_slots 0 ESRCH s)
      (\<lambda>(count, err, s1). Some (if \<not> live s1 (mp s1) then SUSPEND else if count > 0 then OK else err, s1))"
    using assms(2-4) by (auto simp: mm_do_kill_def check_sig_def check_sig_with_def)
  show ?thesis
  proof (cases "find (\<lambda>n. sig_selected pid g n s) user_slots")
    case None
    then have "\<forall>n \<in> set user_slots. \<not> sig_selected pid g n s" by (simp only: find_None_iff) blast
    then show ?thesis using assms(5) by (simp add: d check_sig_none None)
  next
    case (Some r)
    obtain us vs where us: "user_slots = us @ r # vs" "sig_selected pid g r s" "\<forall>n \<in> set us. \<not> sig_selected pid g n s"
      using find_split [OF Some] by (elim exE conjE) (rule that)
    have dis: "distinct user_slots" by (simp add: user_slots_def)
    have vs: "\<forall>n \<in> set vs. \<not> sig_selected pid g n s"
    proof
      fix n assume n: "n \<in> set vs"
      have "n \<noteq> r" using dis n unfolding us(1) by auto
      moreover have "n \<in> set user_slots" "r \<in> set user_slots" using n unfolding us(1) by simp_all
      ultimately show "\<not> sig_selected pid g n s" using u us(2) by blast
    qed
    have l: "check_sig_loop sig_proc pid g user_slots 0 ESRCH s = check_sig_loop sig_proc pid g (r # vs) 0 ESRCH s"
      unfolding us(1) by (rule check_sig_skip [OF us(3)])
    show ?thesis
    proof (cases "sig_allowed (mproctab s (mp s)) (mproctab s r)")
      case False
      then show ?thesis using assms(5) us(2) by (simp add: d l Some check_sig_none [OF vs])
    next
      case True
      have "check_sig_loop sig_proc pid g (r # vs) 0 ESRCH s
        = (if g = 0 then Some (1, ESRCH, s) else map_option (\<lambda>s'. (1, ESRCH, s')) (sig_proc r g s))"
        using assms(1) us(2) True check_sig_none [OF vs, of sig_proc 1 ESRCH] by (cases "sig_proc r g s") auto
      then show ?thesis unfolding d l Some using assms(5) True by (cases "sig_proc r g s") auto
    qed
  qed
qed

lemma kill_one_process_witness:
  "mm_do_kill 1 SIGHUP ex_mm = Some (EPERM, ex_mm) \<and> mm_do_kill 77 SIGHUP ex_mm = Some (ESRCH, ex_mm)"
proof -
  have s: "sig_selected p SIGHUP n ex_mm \<longleftrightarrow> n \<in> {0, 1, 2, 3, 4} \<and> p = mp_pid (ex_mproc n)" if "0 < p" for p n
    using that by (auto simp: sig_selected_def)
  have u: "\<forall>n \<in> set user_slots. \<forall>m \<in> set user_slots. sig_selected p SIGHUP n ex_mm \<and> sig_selected p SIGHUP m ex_mm \<longrightarrow> n = m" if "0 < p" for p
    using that by (auto simp: s split: if_splits)
  have f: "find (\<lambda>n. sig_selected 1 SIGHUP n ex_mm) user_slots = Some 2" "find (\<lambda>n. sig_selected 77 SIGHUP n ex_mm) user_slots = None"
    by (simp add: s user_slots_def upto_rec1) (simp add: find_None_iff s)
  have a: "\<not> sig_allowed (ex_mproc 3) (ex_mproc 2)" by (simp add: sig_allowed_def)
  have l: "live ex_mm (mp ex_mm)" by (simp add: ex_live)
  show ?thesis
    using kill_one_process [of 1 SIGHUP ex_mm, OF _ _ _ _ l u] kill_one_process [of 77 SIGHUP ex_mm, OF _ _ _ _ l u]
    by (simp add: f a)
qed

subsection \<open>The order of wait and exit\<close>








subsection \<open>Signal masks\<close>




end
