(* ===== verification/FS_Cache.thy ===== *)
theory FS_Cache
  imports Minix_Prelude
begin

text \<open>
  The block cache of the file system (\<^verbatim>\<open>fs/cache.c\<close>, \<^verbatim>\<open>fs/cache2.c\<close>,
  \<^verbatim>\<open>fs/buf.h\<close>): the buffers with their LRU chain and hash chains, and the second level
  cache on the RAM disk.

  The devices are part of the state: \<open>disk dev pos\<close> is the block at byte position \<open>pos\<close>.  A
  request to a driver (\<^verbatim>\<open>dev_io()\<close>) is recorded in \<open>dev_hist\<close> and answered by
  \<open>dev_env\<close>, an arbitrary function of the requests so far: the code the call returns and, for
  scattered transfers, how many of the blocks were transferred before the first failure.  A block that
  was not transferred is unchanged.
\<close>

subsection \<open>State\<close>

abbreviation (input) NR_BUFS :: nat where "NR_BUFS \<equiv> 80"
abbreviation (input) NR_BUF_HASH :: nat where "NR_BUF_HASH \<equiv> 128"
abbreviation HASH_MASK :: u32 where "HASH_MASK \<equiv> 127"
abbreviation BLOCK_SIZE :: int where "BLOCK_SIZE \<equiv> 1024"
abbreviation (input) NR_IOREQS :: nat where "NR_IOREQS \<equiv> 64"
abbreviation (input) MAX_BUF2 :: nat where "MAX_BUF2 \<equiv> 1024"
abbreviation NO_DEV :: int where "NO_DEV \<equiv> 0"
abbreviation DEV_RAM :: int where "DEV_RAM \<equiv> 256"
abbreviation END_OF_FILE :: int where "END_OF_FILE \<equiv> -104"

text \<open>The types of use passed to \<^verbatim>\<open>put_block()\<close> are numbers with two flag bits.\<close>

abbreviation (input) WRITE_IMMED :: nat where "WRITE_IMMED \<equiv> 64"
abbreviation (input) ONE_SHOT :: nat where "ONE_SHOT \<equiv> 128"
abbreviation (input) INODE_BLOCK :: nat where "INODE_BLOCK \<equiv> 0"
abbreviation (input) DIRECTORY_BLOCK :: nat where "DIRECTORY_BLOCK \<equiv> 1"
abbreviation (input) INDIRECT_BLOCK :: nat where "INDIRECT_BLOCK \<equiv> 2"
abbreviation (input) MAP_BLOCK :: nat where "MAP_BLOCK \<equiv> 3"
abbreviation (input) ZUPER_BLOCK :: nat where "ZUPER_BLOCK \<equiv> 196"
abbreviation (input) FULL_DATA_BLOCK :: nat where "FULL_DATA_BLOCK \<equiv> 5"
abbreviation (input) PARTIAL_DATA_BLOCK :: nat where "PARTIAL_DATA_BLOCK \<equiv> 6"

datatype search = NORMAL | NO_READ | PREFETCH
datatype rw = READING | WRITING

type_synonym block = "nat \<Rightarrow> u8"

record buf =
  b_data :: block
  b_next :: "nat option"
  b_prev :: "nat option"
  b_hash :: "nat option"
  b_blocknr :: u32
  b_dev :: int
  b_dirt :: bool
  b_count :: int

record buf2 =
  b2_blocknr :: u32
  b2_dev :: int
  b2_count :: u16

text \<open>A request: the device, the byte position and the number of blocks of a transfer.\<close>

datatype io_req = DevIO rw int u32 | DevVec rw int u32 nat

record cache =
  bufs :: "nat \<Rightarrow> buf"
  buf_hash :: "nat \<Rightarrow> nat option"
  front :: "nat option"
  rear :: "nat option"
  bufs_in_use :: int
  buf2s :: "nat \<Rightarrow> buf2"
  nr_buf2 :: nat
  buf2_idx :: nat
  rdwt_err :: int
  disk :: "int \<Rightarrow> u32 \<Rightarrow> block"
  dev_hist :: "io_req list"
  dev_env :: "io_req list \<Rightarrow> int \<times> nat"

definition upd_buf :: "nat \<Rightarrow> (buf \<Rightarrow> buf) \<Rightarrow> cache \<Rightarrow> cache" where
  "upd_buf i f c = c\<lparr>bufs := (bufs c)(i := f (bufs c i))\<rparr>"

definition blk_pos :: "u32 \<Rightarrow> u32" where
  "blk_pos b = b * 1024"

definition hash_key :: "u32 \<Rightarrow> nat" where
  "hash_key b = unat (b AND HASH_MASK)"

definition hash2 :: "u32 \<Rightarrow> nat" where
  "hash2 b = unat (b AND 1023)"

subsection \<open>Requests to drivers\<close>

definition ask_dev :: "io_req \<Rightarrow> cache \<Rightarrow> (int \<times> nat) \<times> cache" where
  "ask_dev q c = (let h = dev_hist c @ [q] in (dev_env c h, c\<lparr>dev_hist := h\<rparr>))"

definition disk_write :: "int \<Rightarrow> u32 \<Rightarrow> block \<Rightarrow> cache \<Rightarrow> cache" where
  "disk_write dev pos d c = c\<lparr>disk := (disk c)(dev := (disk c dev)(pos := d))\<rparr>"

text \<open>The transfer of one buffer, at a byte position of a device.\<close>

definition transfer :: "rw \<Rightarrow> nat \<Rightarrow> int \<Rightarrow> u32 \<Rightarrow> cache \<Rightarrow> cache" where
  "transfer w i dev pos c =
     (case w of READING \<Rightarrow> upd_buf i (\<lambda>b. b\<lparr>b_data := disk c dev pos\<rparr>) c
              | WRITING \<Rightarrow> disk_write dev pos (b_data (bufs c i)) c)"

text \<open>\<^verbatim>\<open>dev_io()\<close> of one block: whether it returns \<^verbatim>\<open>BLOCK_SIZE\<close> decides.\<close>

definition dev_io :: "rw \<Rightarrow> int \<Rightarrow> nat \<Rightarrow> u32 \<Rightarrow> cache \<Rightarrow> int \<times> cache" where
  "dev_io w dev i pos c =
     (let (a, c1) = ask_dev (DevIO w dev pos) c
      in (fst a, if fst a = BLOCK_SIZE then transfer w i dev pos c1 else c1))"

definition rw_block :: "nat \<Rightarrow> rw \<Rightarrow> cache \<Rightarrow> cache" where
  "rw_block i w c =
     (let dev = b_dev (bufs c i);
          c2 = (if dev \<noteq> NO_DEV
                then let (r, c1) = dev_io w dev i (blk_pos (b_blocknr (bufs c i))) c
                     in if r \<noteq> BLOCK_SIZE
                        then let c3 = upd_buf i (\<lambda>b. b\<lparr>b_dev := NO_DEV\<rparr>) c1
                             in if w = READING then c3\<lparr>rdwt_err := (if r \<ge> 0 then END_OF_FILE else r)\<rparr> else c3
                        else c1
                else c)
      in upd_buf i (\<lambda>b. b\<lparr>b_dirt := False\<rparr>) c2)"

subsection \<open>The LRU chain\<close>

definition rm_lru :: "nat \<Rightarrow> cache \<Rightarrow> cache" where
  "rm_lru bp c =
     (let c0 = c\<lparr>bufs_in_use := bufs_in_use c + 1\<rparr>;
          next_ptr = b_next (bufs c0 bp); prev_ptr = b_prev (bufs c0 bp);
          c1 = (case prev_ptr of Some p \<Rightarrow> upd_buf p (\<lambda>b. b\<lparr>b_next := next_ptr\<rparr>) c0
                               | None \<Rightarrow> c0\<lparr>front := next_ptr\<rparr>)
      in case next_ptr of Some n \<Rightarrow> upd_buf n (\<lambda>b. b\<lparr>b_prev := prev_ptr\<rparr>) c1
                        | None \<Rightarrow> c1\<lparr>rear := prev_ptr\<rparr>)"

definition lru_front :: "nat \<Rightarrow> cache \<Rightarrow> cache" where
  "lru_front bp c =
     (let c1 = upd_buf bp (\<lambda>b. b\<lparr>b_prev := None, b_next := front c\<rparr>) c;
          c2 = (case front c1 of None \<Rightarrow> c1\<lparr>rear := Some bp\<rparr>
                               | Some f \<Rightarrow> upd_buf f (\<lambda>b. b\<lparr>b_prev := Some bp\<rparr>) c1)
      in c2\<lparr>front := Some bp\<rparr>)"

definition lru_rear :: "nat \<Rightarrow> cache \<Rightarrow> cache" where
  "lru_rear bp c =
     (let c1 = upd_buf bp (\<lambda>b. b\<lparr>b_prev := rear c, b_next := None\<rparr>) c;
          c2 = (case rear c1 of None \<Rightarrow> c1\<lparr>front := Some bp\<rparr>
                              | Some r \<Rightarrow> upd_buf r (\<lambda>b. b\<lparr>b_next := Some bp\<rparr>) c1)
      in c2\<lparr>rear := Some bp\<rparr>)"

definition put_block :: "nat option \<Rightarrow> nat \<Rightarrow> cache \<Rightarrow> cache" where
  "put_block bpp block_type c =
     (case bpp of
        None \<Rightarrow> c
      | Some bp \<Rightarrow>
          let c1 = upd_buf bp (\<lambda>b. b\<lparr>b_count := b_count b - 1\<rparr>) c
          in if b_count (bufs c1 bp) \<noteq> 0 then c1
             else let c2 = c1\<lparr>bufs_in_use := bufs_in_use c1 - 1\<rparr>;
                      c3 = (if block_type AND ONE_SHOT \<noteq> 0 then lru_front bp c2 else lru_rear bp c2)
                  in if block_type AND WRITE_IMMED \<noteq> 0 \<and> b_dirt (bufs c3 bp) \<and> b_dev (bufs c3 bp) \<noteq> NO_DEV
                     then rw_block bp WRITING c3 else c3)"

subsection \<open>Scattered transfers\<close>

text \<open>
  Shell sort of the buffers on their block numbers.  \<open>key i\<close> is the block number of buffer \<open>i\<close>;
  the inner loop moves the element at \<open>i + gap\<close> down in steps of \<open>gap\<close>.
\<close>

function shell_gap :: "nat \<Rightarrow> nat \<Rightarrow> nat" where
  "shell_gap n gap = (if 3 * gap + 1 \<le> n then shell_gap n (3 * gap + 1) else 3 * gap + 1)"
  by pat_completeness auto

termination by (relation "measure (\<lambda>(n, gap). n - gap)") auto

declare shell_gap.simps [simp del]

partial_function (option) shell_sink :: "(nat \<Rightarrow> u32) \<Rightarrow> nat \<Rightarrow> nat list \<Rightarrow> int \<Rightarrow> nat list option" where
  "shell_sink key gap q i =
     (if i \<ge> 0 \<and> key (q ! nat i) > key (q ! (nat i + gap))
      then shell_sink key gap (q[nat i := q ! (nat i + gap), nat i + gap := q ! nat i]) (i - int gap)
      else Some q)"

fun shell_pass :: "(nat \<Rightarrow> u32) \<Rightarrow> nat \<Rightarrow> nat list \<Rightarrow> nat list \<Rightarrow> nat list option" where
  "shell_pass key gap [] q = Some q"
| "shell_pass key gap (j # js) q =
     do { q1 \<leftarrow> shell_sink key gap q (int j - int gap); shell_pass key gap js q1 }"

partial_function (option) shell_loop :: "(nat \<Rightarrow> u32) \<Rightarrow> nat \<Rightarrow> nat list \<Rightarrow> nat list option" where
  "shell_loop key gap q =
     (if gap = 1 then Some q
      else do {
        q1 \<leftarrow> shell_pass key (gap div 3) [gap div 3..<length q] q;
        shell_loop key (gap div 3) q1
      })"

definition shell_sort :: "(nat \<Rightarrow> u32) \<Rightarrow> nat list \<Rightarrow> nat list option" where
  "shell_sort key q = shell_loop key (shell_gap (length q) 1) q"

text \<open>The number of buffers of the next request: consecutive blocks, at most \<^verbatim>\<open>NR_IOREQS\<close>.\<close>

function run_length :: "(nat \<Rightarrow> u32) \<Rightarrow> nat list \<Rightarrow> nat \<Rightarrow> nat" where
  "run_length key q j =
     (if j < NR_IOREQS \<and> j < length q \<and> key (q ! j) = key (q ! 0) + of_nat j
      then run_length key q (j + 1) else j)"
  by pat_completeness auto

termination by (relation "measure (\<lambda>(key, q, j). length q - j)") auto

declare run_length.simps [simp del]

fun transfer_run :: "rw \<Rightarrow> int \<Rightarrow> u32 \<Rightarrow> nat list \<Rightarrow> cache \<Rightarrow> cache" where
  "transfer_run w dev pos [] c = c"
| "transfer_run w dev pos (i # is) c = transfer_run w dev (pos + 1024) is (transfer w i dev pos c)"

fun put_all :: "nat list \<Rightarrow> cache \<Rightarrow> cache" where
  "put_all [] c = c"
| "put_all (i # is) c = put_all is (put_block (Some i) PARTIAL_DATA_BLOCK c)"

text \<open>What the loop does for a buffer that was transferred.\<close>

definition harvest_one :: "rw \<Rightarrow> int \<Rightarrow> nat \<Rightarrow> cache \<Rightarrow> cache" where
  "harvest_one w dev i c =
     (if w = READING then put_block (Some i) PARTIAL_DATA_BLOCK (upd_buf i (\<lambda>b. b\<lparr>b_dev := dev\<rparr>) c)
      else upd_buf i (\<lambda>b. b\<lparr>b_dirt := False\<rparr>) c)"

fun harvest :: "rw \<Rightarrow> int \<Rightarrow> nat list \<Rightarrow> cache \<Rightarrow> cache" where
  "harvest w dev [] c = c"
| "harvest w dev (i # is) c = harvest w dev is (harvest_one w dev i c)"

partial_function (option) rw_loop :: "int \<Rightarrow> rw \<Rightarrow> nat list \<Rightarrow> cache \<Rightarrow> cache option" where
  "rw_loop dev w q c =
     (case q of
        [] \<Rightarrow> Some c
      | i0 # _ \<Rightarrow>
          let key = (\<lambda>i. b_blocknr (bufs c i));
              j = run_length key q 0;
              pos = blk_pos (key i0);
              (a, c1) = ask_dev (DevVec w dev pos j) c;
              n = min (snd a) j;
              c2 = transfer_run w dev pos (take n q) c1;
              c3 = harvest w dev (take n q) c2;
              c4 = (if n = 0 \<and> fst a \<noteq> OK then upd_buf i0 (\<lambda>b. b\<lparr>b_dev := NO_DEV\<rparr>) c3 else c3)
          in if w = READING then Some (put_all (drop n q) c4) else rw_loop dev w (drop n q) c4)"

definition rw_scattered :: "int \<Rightarrow> nat list \<Rightarrow> rw \<Rightarrow> cache \<Rightarrow> cache option" where
  "rw_scattered dev bufq w c =
     do {
       q \<leftarrow> shell_sort (\<lambda>i. b_blocknr (bufs c i)) bufq;
       rw_loop dev w q c
     }"

definition flushall :: "int \<Rightarrow> cache \<Rightarrow> cache option" where
  "flushall dev c =
     rw_scattered dev (filter (\<lambda>i. b_dirt (bufs c i) \<and> b_dev (bufs c i) = dev) [0..<NR_BUFS]) WRITING c"

subsection \<open>The second level cache\<close>

definition init_cache2 :: "nat \<Rightarrow> cache \<Rightarrow> cache" where
  "init_cache2 size0 c = c\<lparr>nr_buf2 := (if size0 > MAX_BUF2 then MAX_BUF2 else size0)\<rparr>"

definition upd_buf2 :: "nat \<Rightarrow> (buf2 \<Rightarrow> buf2) \<Rightarrow> cache \<Rightarrow> cache" where
  "upd_buf2 i f c = c\<lparr>buf2s := (buf2s c)(i := f (buf2s c i))\<rparr>"

text \<open>The search backwards from \<open>idx\<close>: \<open>Some (Some b)\<close> the slot found, \<open>Some None\<close> none.\<close>

partial_function (option) find2 :: "(nat \<Rightarrow> buf2) \<Rightarrow> nat \<Rightarrow> nat \<Rightarrow> u32 \<Rightarrow> int \<Rightarrow> nat \<Rightarrow> nat option option" where
  "find2 tab nr idx blocknr dev b =
     (let b1 = (if b = 0 then nr else b) - 1
      in if b2_blocknr (tab b1) = blocknr \<and> b2_dev (tab b1) = dev then Some (Some b1)
         else if b1 = idx then Some None
         else find2 tab nr idx blocknr dev b1)"

definition get_block2 :: "nat \<Rightarrow> search \<Rightarrow> cache \<Rightarrow> (bool \<times> cache) option" where
  "get_block2 bp only_search c =
     (let c1 = (if b_dev (bufs c bp) = DEV_RAM then c\<lparr>nr_buf2 := 0\<rparr> else c)
      in if nr_buf2 c1 = 0 \<or> only_search = NO_READ \<or> b2_count (buf2s c1 (hash2 (b_blocknr (bufs c bp)))) = 0
         then Some (False, c1)
         else do {
           r \<leftarrow> find2 (buf2s c1) (nr_buf2 c1) (buf2_idx c1) (b_blocknr (bufs c bp)) (b_dev (bufs c bp)) (buf2_idx c1);
           case r of
             None \<Rightarrow> Some (False, c1)
           | Some b \<Rightarrow> let (x, c2) = dev_io READING DEV_RAM bp (blk_pos (of_nat b)) c1 in Some (x = BLOCK_SIZE, c2)
         })"

definition put_block2 :: "nat \<Rightarrow> cache \<Rightarrow> cache" where
  "put_block2 bp c =
     (if nr_buf2 c = 0 then c
      else let b = buf2_idx c;
               c1 = c\<lparr>buf2_idx := (if b + 1 = nr_buf2 c then 0 else b + 1)\<rparr>;
               (x, c2) = dev_io WRITING DEV_RAM bp (blk_pos (of_nat b)) c1
           in if x = BLOCK_SIZE
              then let c3 = (if b2_dev (buf2s c2 b) \<noteq> NO_DEV
                             then upd_buf2 (hash2 (b2_blocknr (buf2s c2 b))) (\<lambda>g. g\<lparr>b2_count := b2_count g - 1\<rparr>) c2
                             else c2);
                       c4 = upd_buf2 b (\<lambda>g. g\<lparr>b2_dev := b_dev (bufs c bp), b2_blocknr := b_blocknr (bufs c bp)\<rparr>) c3
                   in upd_buf2 (hash2 (b_blocknr (bufs c bp))) (\<lambda>g. g\<lparr>b2_count := b2_count g + 1\<rparr>) c4
              else c2)"

fun inval2_loop :: "int \<Rightarrow> nat list \<Rightarrow> cache \<Rightarrow> cache" where
  "inval2_loop dev [] c = c"
| "inval2_loop dev (b # bs) c =
     inval2_loop dev bs
       (if b2_dev (buf2s c b) = dev
        then let c1 = upd_buf2 b (\<lambda>g. g\<lparr>b2_dev := NO_DEV\<rparr>) c
             in upd_buf2 (hash2 (b2_blocknr (buf2s c1 b))) (\<lambda>g. g\<lparr>b2_count := b2_count g - 1\<rparr>) c1
        else c)"

definition invalidate2 :: "int \<Rightarrow> cache \<Rightarrow> cache" where
  "invalidate2 dev c = inval2_loop dev [0..<nr_buf2 c] c"

subsection \<open>Getting a block\<close>

partial_function (option) find_buf :: "(nat \<Rightarrow> buf) \<Rightarrow> int \<Rightarrow> u32 \<Rightarrow> nat \<Rightarrow> nat option option" where
  "find_buf tab dev blocknr bp =
     (if b_blocknr (tab bp) = blocknr \<and> b_dev (tab bp) = dev then Some (Some bp)
      else case b_hash (tab bp) of
             None \<Rightarrow> Some None
           | Some bp' \<Rightarrow> find_buf tab dev blocknr bp')"

definition find_block :: "int \<Rightarrow> u32 \<Rightarrow> cache \<Rightarrow> nat option option" where
  "find_block dev block c =
     (case buf_hash c (hash_key block) of None \<Rightarrow> Some None | Some bp \<Rightarrow> find_buf (bufs c) dev block bp)"

text \<open>Unlinking a buffer from its hash chain; an empty chain would be a null pointer followed.\<close>

definition unhash :: "nat \<Rightarrow> cache \<Rightarrow> cache option" where
  "unhash bp c =
     (let h = hash_key (b_blocknr (bufs c bp))
      in case buf_hash c h of
           None \<Rightarrow> None
         | Some p \<Rightarrow>
             if p = bp then Some (c\<lparr>buf_hash := (buf_hash c)(h := b_hash (bufs c bp))\<rparr>)
             else do {
               r \<leftarrow> chain_pred (\<lambda>i. b_hash (bufs c i)) p bp;
               Some (case r of None \<Rightarrow> c
                             | Some a \<Rightarrow> upd_buf a (\<lambda>b. b\<lparr>b_hash := b_hash (bufs c bp)\<rparr>) c)
             })"

definition evict :: "nat \<Rightarrow> cache \<Rightarrow> cache option" where
  "evict bp c =
     (if b_dev (bufs c bp) \<noteq> NO_DEV
      then do {
        c1 \<leftarrow> (if b_dirt (bufs c bp) then flushall (b_dev (bufs c bp)) c else Some c);
        Some (put_block2 bp c1)
      }
      else Some c)"

definition rehash :: "nat \<Rightarrow> int \<Rightarrow> u32 \<Rightarrow> cache \<Rightarrow> cache" where
  "rehash bp dev block c =
     (let h = hash_key block;
          c1 = upd_buf bp (\<lambda>b. b\<lparr>b_dev := dev, b_blocknr := block, b_count := b_count b + 1, b_hash := buf_hash c h\<rparr>) c
      in c1\<lparr>buf_hash := (buf_hash c1)(h := Some bp)\<rparr>)"

definition fill_block :: "nat \<Rightarrow> search \<Rightarrow> cache \<Rightarrow> cache option" where
  "fill_block bp only_search c =
     do {
       (got, c1) \<leftarrow> get_block2 bp only_search c;
       Some (if got then c1
             else if only_search = PREFETCH then upd_buf bp (\<lambda>b. b\<lparr>b_dev := NO_DEV\<rparr>) c1
             else if only_search = NORMAL then rw_block bp READING c1
             else c1)
     }"

definition get_new :: "int \<Rightarrow> u32 \<Rightarrow> search \<Rightarrow> cache \<Rightarrow> (nat \<times> cache) option" where
  "get_new dev block only_search c =
     (case front c of
        None \<Rightarrow> None
      | Some bp \<Rightarrow> do {
          c1 \<leftarrow> unhash bp (rm_lru bp c);
          c2 \<leftarrow> evict bp c1;
          let c3 = rehash bp dev block c2;
          c4 \<leftarrow> (if dev \<noteq> NO_DEV then fill_block bp only_search c3 else Some c3);
          Some (bp, c4)
        })"

definition get_block :: "int \<Rightarrow> u32 \<Rightarrow> search \<Rightarrow> cache \<Rightarrow> (nat \<times> cache) option" where
  "get_block dev block only_search c =
     do {
       r \<leftarrow> (if dev \<noteq> NO_DEV then find_block dev block c else Some None);
       case r of
         Some bp \<Rightarrow> Some (bp, upd_buf bp (\<lambda>b. b\<lparr>b_count := b_count b + 1\<rparr>) (if b_count (bufs c bp) = 0 then rm_lru bp c else c))
       | None \<Rightarrow> get_new dev block only_search c
     }"

subsection \<open>Invalidation and initialization\<close>

definition invalidate :: "int \<Rightarrow> cache \<Rightarrow> cache" where
  "invalidate device c =
     invalidate2 device
       (c\<lparr>bufs := (\<lambda>i. if i < NR_BUFS \<and> b_dev (bufs c i) = device then (bufs c i)\<lparr>b_dev := NO_DEV\<rparr> else bufs c i)\<rparr>)"

definition buf_pool :: "cache \<Rightarrow> cache" where
  "buf_pool c =
     c\<lparr>bufs_in_use := 0, front := Some 0, rear := Some (NR_BUFS - 1),
       bufs := (\<lambda>i. if i < NR_BUFS
                    then (bufs c i)\<lparr>b_blocknr := 0, b_dev := NO_DEV,
                           b_next := (if i = NR_BUFS - 1 then None else Some (i + 1)),
                           b_prev := (if i = 0 then None else Some (i - 1)),
                           b_hash := (if i = NR_BUFS - 1 then None else Some (i + 1))\<rparr>
                    else bufs c i),
       buf_hash := (buf_hash c)(0 := Some 0)\<rparr>"

end
