(* ===== verification/FS_Flush.thy ===== *)
theory FS_Flush
  imports FS_Cache "HOL-Library.Multiset"
begin

text \<open>
  Flushing the cache: the Shell sort of \<^verbatim>\<open>rw_scattered()\<close> sorts, and, when the driver makes
  progress on every request, \<^verbatim>\<open>flushall()\<close> ends and writes exactly the dirty blocks of its device.
\<close>

subsection \<open>The sort\<close>

lemma swap_mset: "i < length q \<Longrightarrow> j < length q \<Longrightarrow> mset (q[i := q ! j, j := q ! i]) = mset q"
  by (rule mset_swap)

lemma shell_sink_ends:
  assumes "0 < gap" "i + int gap < int (length q)"
  shows "\<exists>q'. shell_sink key gap q i = Some q' \<and> mset q' = mset q"
  using assms
proof (induction "nat (i + 1)" arbitrary: i q rule: less_induct)
  case less
  let ?c = "i \<ge> 0 \<and> key (q ! nat i) > key (q ! (nat i + gap))" and ?q = "q[nat i := q ! (nat i + gap), nat i + gap := q ! nat i]"
  show ?case
  proof (cases ?c)
    case True
    have m: "mset ?q = mset q" by (rule swap_mset) (use True less.prems in linarith)+
    have "nat (i - int gap + 1) < nat (i + 1)" "i - int gap + int gap < int (length ?q)" using True less.prems by auto
    from less.hyps [OF this(1) less.prems(1) this(2)] m True show ?thesis by (subst shell_sink.simps) auto
  next
    case False
    then show ?thesis by (subst shell_sink.simps) auto
  qed
qed

lemma shell_pass_ends:
  assumes "0 < gap" "\<forall>j \<in> set js. gap \<le> j \<and> j < length q"
  shows "\<exists>q'. shell_pass key gap js q = Some q' \<and> mset q' = mset q"
  using assms
proof (induction js arbitrary: q)
  case Nil
  then show ?case by simp
next
  case (Cons j js)
  obtain q1 where q1: "shell_sink key gap q (int j - int gap) = Some q1" "mset q1 = mset q"
    using shell_sink_ends [of gap "int j - int gap" q key] Cons.prems by auto
  have "length q1 = length q" using q1(2) by (rule mset_eq_length)
  then show ?case using Cons.IH [of q1] Cons.prems q1 by auto
qed

text \<open>\<open>ordered key q n\<close>: the first \<open>n\<close> elements are in order.\<close>

definition ordered :: "(nat \<Rightarrow> u32) \<Rightarrow> nat list \<Rightarrow> nat \<Rightarrow> bool" where
  "ordered key q n \<longleftrightarrow> (\<forall>a b. a < b \<longrightarrow> b < n \<longrightarrow> key (q ! a) \<le> key (q ! b))"

text \<open>The first \<open>n\<close> elements are in order but for the one at \<open>k\<close>, which may have to move down.\<close>

definition ordered_but :: "(nat \<Rightarrow> u32) \<Rightarrow> nat list \<Rightarrow> nat \<Rightarrow> nat \<Rightarrow> bool" where
  "ordered_but key q n k \<longleftrightarrow> (\<forall>a b. a < b \<longrightarrow> b < n \<longrightarrow> b \<noteq> k \<longrightarrow> key (q ! a) \<le> key (q ! b))"

lemma ordered_but_swap:
  assumes "ordered_but key q n (Suc k)" "key (q ! Suc k) < key (q ! k)" "Suc k < n" "n \<le> length q"
  shows "ordered_but key (q[k := q ! Suc k, Suc k := q ! k]) n k"
  unfolding ordered_but_def
proof (intro allI impI)
  fix a b
  assume ab: "a < b" "b < n" "b \<noteq> k"
  have o: "key (q ! x) \<le> key (q ! y)" if "x < y" "y < n" "y \<noteq> Suc k" for x y
    using assms(1) that unfolding ordered_but_def by blast
  have l: "key (q ! Suc k) \<le> key (q ! k)" using assms(2) by simp
  consider "b = Suc k" "a = k" | "b = Suc k" "a < k" | "b \<noteq> Suc k" "a = k" | "b \<noteq> Suc k" "a = Suc k" | "b \<noteq> Suc k" "a \<noteq> k" "a \<noteq> Suc k"
    using ab by linarith
  then show "key (q[k := q ! Suc k, Suc k := q ! k] ! a) \<le> key (q[k := q ! Suc k, Suc k := q ! k] ! b)"
    by cases (use ab assms o l in \<open>simp_all add: nth_list_update\<close>)
qed

lemma ordered_but_0: "ordered_but key q n 0 \<Longrightarrow> ordered key q n"
  by (simp add: ordered_def ordered_but_def)

lemma ordered_but_stop:
  assumes "ordered_but key q n (Suc k)" "key (q ! k) \<le> key (q ! Suc k)"
  shows "ordered key q n"
  unfolding ordered_def
proof (intro allI impI)
  fix a b
  assume ab: "a < b" "b < n"
  have o: "key (q ! x) \<le> key (q ! y)" if "x < y" "y < n" "y \<noteq> Suc k" for x y
    using assms(1) that unfolding ordered_but_def by blast
  show "key (q ! a) \<le> key (q ! b)"
  proof (cases "b = Suc k")
    case True
    then have "a = k \<or> a < k" using ab by linarith
    then show ?thesis
    proof
      assume "a < k"
      then have "key (q ! a) \<le> key (q ! k)" using o ab True by simp
      then show ?thesis using assms(2) True by simp
    qed (use True assms(2) in simp)
  qed (use o ab in blast)
qed

text \<open>With a gap of one the inner loop inserts an element into the sorted part before it.\<close>

lemma shell_sink_insert:
  assumes "ordered_but key q n k" "k < n" "n \<le> length q"
  shows "\<exists>q'. shell_sink key 1 q (int k - 1) = Some q' \<and> ordered key q' n"
  using assms
proof (induction k arbitrary: q)
  case 0
  then show ?case by (subst shell_sink.simps) (simp add: ordered_but_0)
next
  case (Suc k)
  let ?q = "q[k := q ! Suc k, Suc k := q ! k]"
  show ?case
  proof (cases "key (q ! k) > key (q ! Suc k)")
    case True
    have "\<exists>q'. shell_sink key 1 ?q (int k - 1) = Some q' \<and> ordered key q' n"
      by (rule Suc.IH [OF ordered_but_swap [OF Suc.prems(1) True Suc.prems(2,3)]]) (use Suc.prems in simp_all)
    then show ?thesis using True by (subst shell_sink.simps) simp
  next
    case False
    then have "key (q ! k) \<le> key (q ! Suc k)" by simp
    with ordered_but_stop [OF Suc.prems(1)] False show ?thesis by (subst shell_sink.simps) simp
  qed
qed

lemma ordered_extend: "ordered key q k \<Longrightarrow> ordered_but key q (Suc k) k"
  by (auto simp: ordered_def ordered_but_def less_Suc_eq)

lemma shell_pass_sorts:
  assumes "ordered key q k" "k + m = length q"
  shows "\<exists>q'. shell_pass key 1 [k..<k + m] q = Some q' \<and> ordered key q' (k + m) \<and> mset q' = mset q"
  using assms
proof (induction m arbitrary: k q)
  case 0
  then show ?case by simp
next
  case (Suc m)
  have k: "Suc k \<le> length q" using Suc.prems by simp
  obtain q1 where q1: "shell_sink key 1 q (int k - 1) = Some q1" "ordered key q1 (Suc k)"
    using shell_sink_insert [OF ordered_extend [OF Suc.prems(1)] lessI k] by blast
  have m: "mset q1 = mset q" using shell_sink_ends [of 1 "int k - 1" q key] k q1(1) by auto
  have "Suc k + m = length q1" using Suc.prems mset_eq_length [OF m] by simp
  then obtain q' where "shell_pass key 1 [Suc k..<Suc k + m] q1 = Some q'" "ordered key q' (Suc k + m)" "mset q' = mset q1"
    using Suc.IH [OF q1(2)] by blast
  moreover have "[k..<k + Suc m] = k # [Suc k..<Suc k + m]" by (simp add: upt_conv_Cons)
  ultimately show ?case using q1(1) m by simp
qed

lemma ordered_first: "ordered key q 1"
  by (simp add: ordered_def)

text \<open>The gaps are 1, 4, 13, ...: each is three times the one before, and one more.\<close>

inductive shell_gaps :: "nat \<Rightarrow> bool" where
  one: "shell_gaps 1"
| more: "shell_gaps g \<Longrightarrow> shell_gaps (3 * g + 1)"

lemma shell_gaps_pos: "shell_gaps g \<Longrightarrow> 0 < g"
  by (induction rule: shell_gaps.induct) auto

lemma shell_loop_step:
  "0 < g \<Longrightarrow> shell_loop key (3 * g + 1) q = do { q1 \<leftarrow> shell_pass key g [g..<length q] q; shell_loop key g q1 }"
proof -
  assume "0 < g"
  have "(3 * g + 1) div 3 = g" by presburger
  with \<open>0 < g\<close> show ?thesis by (subst shell_loop.simps) (simp only: if_False, simp)
qed

lemma shell_loop_last [simp]: "shell_loop key (Suc 0) q = Some q"
  by (subst shell_loop.simps) simp

lemma shell_loop_ends:
  assumes "shell_gaps g"
  shows "\<exists>q'. shell_loop key (3 * g + 1) q = Some q' \<and> ordered key q' (length q) \<and> mset q' = mset q"
  using assms
proof (induction g arbitrary: q)
  case one
  have "\<exists>q'. shell_pass key 1 [1..<length q] q = Some q' \<and> ordered key q' (length q) \<and> mset q' = mset q"
  proof (cases q)
    case Nil
    then show ?thesis by (simp add: ordered_def)
  next
    case (Cons x xs)
    then show ?thesis using shell_pass_sorts [OF ordered_first, of "length xs" q key] by simp
  qed
  then show ?case unfolding shell_loop_step [OF zero_less_one] by auto
next
  case (more g)
  obtain q1 where q1: "shell_pass key (3 * g + 1) [3 * g + 1..<length q] q = Some q1" "mset q1 = mset q"
    using shell_pass_ends [of "3 * g + 1" "[3 * g + 1..<length q]" q key] by auto
  have "length q1 = length q" using q1(2) by (rule mset_eq_length)
  moreover have "0 < 3 * g + 1" by simp
  ultimately show ?case using more.IH [of q1] q1 unfolding shell_loop_step [OF \<open>0 < 3 * g + 1\<close>] by simp
qed

lemma shell_gap_shape: "shell_gaps g \<Longrightarrow> \<exists>g'. shell_gaps g' \<and> shell_gap n g = 3 * g' + 1"
proof (induction n g rule: shell_gap.induct)
  case (1 n gap)
  show ?case
  proof (cases "3 * gap + 1 \<le> n")
    case True
    with 1 shell_gaps.more show ?thesis by (subst shell_gap.simps) simp
  next
    case False
    with 1 show ?thesis by (subst shell_gap.simps) auto
  qed
qed

lemma shell_sort_orders: "\<exists>q'. shell_sort key q = Some q' \<and> ordered key q' (length q) \<and> mset q' = mset q"
proof -
  obtain g where "shell_gaps g" "shell_gap (length q) 1 = 3 * g + 1" using shell_gap_shape [OF shell_gaps.one] by blast
  then show ?thesis using shell_loop_ends unfolding shell_sort_def by simp
qed

lemma ordered_sorted: "ordered key q (length q) \<Longrightarrow> sorted (map key q)"
  by (simp add: ordered_def sorted_iff_nth_mono_less)

lemma shell_sort_sort_key: "inj_on key (set q) \<Longrightarrow> shell_sort key q = Some (sort_key key q)"
proof -
  assume i: "inj_on key (set q)"
  obtain q' where q': "shell_sort key q = Some q'" "ordered key q' (length q)" "mset q' = mset q"
    using shell_sort_orders by blast
  have l: "length q' = length q" using q'(3) by (rule mset_eq_length)
  have "mset q = mset q'" using q'(3) by simp
  moreover have "inj_on key (set q)" by (rule i)
  moreover have "sorted (map key q')" using ordered_sorted q'(2) l by simp
  ultimately have "sort_key key q = q'" by (simp add: sort_key_inj_key_eq)
  with q'(1) show ?thesis by simp
qed

subsection \<open>Writing the dirty blocks\<close>

text \<open>
  What is asked of the drivers: they transfer a single block completely, and of a scattered request at
  least the first block.
\<close>

definition io_works :: "(io_req list \<Rightarrow> int \<times> nat) \<Rightarrow> bool" where
  "io_works env \<longleftrightarrow> (\<forall>h w d p. fst (env (h @ [DevIO w d p])) = BLOCK_SIZE)
     \<and> (\<forall>h w d p j. 0 < j \<longrightarrow> 0 < snd (env (h @ [DevVec w d p j])))"

definition bpos :: "cache \<Rightarrow> nat \<Rightarrow> u32" where
  "bpos c i = blk_pos (b_blocknr (bufs c i))"

text \<open>All but the buffers, the devices and the record of requests is as before.\<close>

definition rest_same :: "cache \<Rightarrow> cache \<Rightarrow> bool" where
  "rest_same c c' \<longleftrightarrow> buf_hash c' = buf_hash c \<and> front c' = front c \<and> rear c' = rear c
     \<and> bufs_in_use c' = bufs_in_use c \<and> buf2s c' = buf2s c \<and> nr_buf2 c' = nr_buf2 c
     \<and> buf2_idx c' = buf2_idx c \<and> rdwt_err c' = rdwt_err c \<and> dev_env c' = dev_env c"

lemma rest_same_refl [simp]: "rest_same c c"
  by (simp add: rest_same_def)

lemma rest_same_trans: "rest_same c c1 \<Longrightarrow> rest_same c1 c2 \<Longrightarrow> rest_same c c2"
  unfolding rest_same_def by simp

text \<open>\<open>flushed dev S c c'\<close>: from \<open>c\<close> to \<open>c'\<close> the buffers \<open>S\<close> were written to \<open>dev\<close> and made clean.\<close>

definition flushed :: "int \<Rightarrow> nat set \<Rightarrow> cache \<Rightarrow> cache \<Rightarrow> bool" where
  "flushed dev S c c' \<longleftrightarrow>
     bufs c' = (\<lambda>i. if i \<in> S then (bufs c i)\<lparr>b_dirt := False\<rparr> else bufs c i)
     \<and> (\<forall>i \<in> S. disk c' dev (bpos c i) = b_data (bufs c i))
     \<and> (\<forall>d p. \<not> (d = dev \<and> p \<in> bpos c ` S) \<longrightarrow> disk c' d p = disk c d p)
     \<and> rest_same c c'"

lemma flushed_none: "flushed dev {} c c"
  by (simp add: flushed_def)

lemma flushed_bpos: "flushed dev S c c' \<Longrightarrow> bpos c' = bpos c"
  by (auto simp: flushed_def bpos_def fun_eq_iff)

lemma flushed_rest: "flushed dev S c c' \<Longrightarrow> rest_same c c'"
  unfolding flushed_def by blast

lemma flushed_trans:
  assumes "flushed dev S c c1" "flushed dev T c1 c2" "S \<inter> T = {}" "inj_on (bpos c) (S \<union> T)"
  shows "flushed dev (S \<union> T) c c2"
proof -
  note p = flushed_bpos [OF assms(1)]
  have b1: "bufs c1 = (\<lambda>i. if i \<in> S then (bufs c i)\<lparr>b_dirt := False\<rparr> else bufs c i)" using assms(1) unfolding flushed_def by blast
  have b2: "bufs c2 = (\<lambda>i. if i \<in> T then (bufs c1 i)\<lparr>b_dirt := False\<rparr> else bufs c1 i)" using assms(2) unfolding flushed_def by blast
  have o1: "disk c1 d q = disk c d q" if "\<not> (d = dev \<and> q \<in> bpos c ` S)" for d q using assms(1) that unfolding flushed_def by blast
  have o2: "disk c2 d q = disk c1 d q" if "\<not> (d = dev \<and> q \<in> bpos c ` T)" for d q using assms(2) that unfolding flushed_def p by blast
  have d: "disk c2 dev (bpos c i) = b_data (bufs c i)" if "i \<in> S \<union> T" for i
  proof (cases "i \<in> T")
    case True
    then have "disk c2 dev (bpos c i) = b_data (bufs c1 i)" using assms(2) unfolding flushed_def p by blast
    then show ?thesis by (simp add: b1)
  next
    case False
    then have "i \<in> S" using that by blast
    moreover have "bpos c i \<notin> bpos c ` T" using inj_on_image_mem_iff [OF assms(4), of i T] that False by blast
    ultimately show ?thesis using o2 assms(1) unfolding flushed_def by simp
  qed
  have r: "rest_same c c2" using rest_same_trans [OF flushed_rest [OF assms(1)] flushed_rest [OF assms(2)]] .
  have b: "bufs c2 = (\<lambda>i. if i \<in> S \<union> T then (bufs c i)\<lparr>b_dirt := False\<rparr> else bufs c i)"
    unfolding b2 b1 by (auto simp: fun_eq_iff)
  have o: "disk c2 d' q = disk c d' q" if "\<not> (d' = dev \<and> q \<in> bpos c ` (S \<union> T))" for d' q
    using o1 o2 that by (simp add: image_Un)
  show ?thesis unfolding flushed_def using b d o r by blast
qed

lemma run_length_spec:
  "j \<le> length q \<Longrightarrow> j \<le> run_length key q j \<and> run_length key q j \<le> length q
    \<and> (\<forall>k. j \<le> k \<and> k < run_length key q j \<longrightarrow> key (q ! k) = key (q ! 0) + of_nat k)"
proof (induction key q j rule: run_length.induct)
  case (1 key q j)
  let ?c = "j < NR_IOREQS \<and> j < length q \<and> key (q ! j) = key (q ! 0) + of_nat j"
  show ?case
  proof (cases ?c)
    case True
    then have e: "run_length key q j = run_length key q (j + 1)" by (subst run_length.simps) simp
    have "j + 1 \<le> length q" using True by simp
    note IH = 1 (1) [OF True this]
    have "key (q ! k) = key (q ! 0) + of_nat k" if "j \<le> k" "k < run_length key q (j + 1)" for k
      using IH True that by (cases "k = j") simp_all
    then show ?thesis unfolding e using IH by auto
  next
    case False
    then have "run_length key q j = j" by (subst run_length.simps) (simp only: if_False)
    with 1 (2) show ?thesis by (simp add: not_less [symmetric])
  qed
qed

lemma run_length_pos: "q \<noteq> [] \<Longrightarrow> 0 < run_length key q 0"
  using run_length_spec [of 1 q key] by (subst run_length.simps) (cases q, auto)

lemma transfer_run_writes:
  assumes "\<forall>k < length is. bpos c (is ! k) = pos + 1024 * of_nat k" "inj_on (bpos c) (set is)" "distinct is"
  shows "bufs (transfer_run WRITING dev pos is c) = bufs c
    \<and> (\<forall>i \<in> set is. disk (transfer_run WRITING dev pos is c) dev (bpos c i) = b_data (bufs c i))
    \<and> (\<forall>d p. \<not> (d = dev \<and> p \<in> bpos c ` set is) \<longrightarrow> disk (transfer_run WRITING dev pos is c) d p = disk c d p)
    \<and> rest_same c (transfer_run WRITING dev pos is c)"
  using assms
proof (induction "is" arbitrary: pos c)
  case Nil
  then show ?case by simp
next
  case (Cons i "is")
  let ?c = "transfer WRITING i dev pos c"
  have t: "?c = c\<lparr>disk := (disk c)(dev := (disk c dev)(pos := b_data (bufs c i)))\<rparr>"
    by (simp add: transfer_def disk_write_def)
  have bp: "bpos ?c = bpos c" by (simp add: t bpos_def fun_eq_iff)
  have pos: "bpos c i = pos" using Cons.prems(1) by force
  have "\<forall>k < length is. bpos ?c (is ! k) = pos + 1024 + 1024 * of_nat k"
    unfolding bp using Cons.prems(1) by (fastforce simp: algebra_simps)
  moreover have "inj_on (bpos ?c) (set is)" "distinct is" using Cons.prems(2,3) unfolding bp by auto
  ultimately have IH: "bufs (transfer_run WRITING dev (pos + 1024) is ?c) = bufs ?c"
    "\<forall>i \<in> set is. disk (transfer_run WRITING dev (pos + 1024) is ?c) dev (bpos c i) = b_data (bufs ?c i)"
    "\<forall>d p. \<not> (d = dev \<and> p \<in> bpos c ` set is) \<longrightarrow> disk (transfer_run WRITING dev (pos + 1024) is ?c) d p = disk ?c d p"
    "rest_same ?c (transfer_run WRITING dev (pos + 1024) is ?c)"
    using Cons.IH [of ?c "pos + 1024"] unfolding bp by blast+
  have n: "bpos c i \<notin> bpos c ` set is" using Cons.prems(2,3) by auto
  have u: "bufs ?c = bufs c" by (simp add: t)
  have e: "rest_same c (transfer_run WRITING dev (pos + 1024) is ?c)"
    using IH(4) by (simp add: t rest_same_def)
  show ?case
  proof (intro conjI)
    show "\<forall>x \<in> set (i # is). disk (transfer_run WRITING dev pos (i # is) c) dev (bpos c x) = b_data (bufs c x)"
      using IH(2,3) n pos u by (simp add: t)
    show "\<forall>d p. \<not> (d = dev \<and> p \<in> bpos c ` set (i # is)) \<longrightarrow> disk (transfer_run WRITING dev pos (i # is) c) d p = disk c d p"
      using IH(3) pos by (simp add: t)
  qed (use IH(1) u e in simp_all)
qed

lemma harvest_writes:
  "harvest WRITING dev is c = c\<lparr>bufs := (\<lambda>i. if i \<in> set is then (bufs c i)\<lparr>b_dirt := False\<rparr> else bufs c i)\<rparr>"
proof (induction "is" arbitrary: c)
  case Nil
  then show ?case by simp
next
  case (Cons i "is")
  have "harvest_one WRITING dev i c = c\<lparr>bufs := (bufs c)(i := (bufs c i)\<lparr>b_dirt := False\<rparr>)\<rparr>"
    by (simp add: harvest_one_def upd_buf_def)
  then show ?case by (simp add: Cons.IH fun_eq_iff)
qed

text \<open>
  The loop writes every buffer of its list: each request makes progress, and the blocks of a request
  are consecutive, so that each buffer goes to its own position.
\<close>

lemma rw_loop_writes:
  assumes "io_works (dev_env c)" "distinct q" "inj_on (bpos c) (set q)"
  shows "\<exists>c'. rw_loop dev WRITING q c = Some c' \<and> flushed dev (set q) c c'"
  using assms
proof (induction "length q" arbitrary: q c rule: less_induct)
  case less
  show ?case
  proof (cases q)
    case Nil
    then show ?thesis by (subst rw_loop.simps) (simp add: flushed_none)
  next
    case (Cons i0 q0)
    define key where "key = (\<lambda>i. b_blocknr (bufs c i))"
    define j where "j = run_length key q 0"
    define a where "a = dev_env c (dev_hist c @ [DevVec WRITING dev (blk_pos (key i0)) j])"
    define c1 where "c1 = c\<lparr>dev_hist := dev_hist c @ [DevVec WRITING dev (blk_pos (key i0)) j]\<rparr>"
    define n where "n = min (snd a) j"
    define c3 where "c3 = harvest WRITING dev (take n q) (transfer_run WRITING dev (blk_pos (key i0)) (take n q) c1)"
    have j: "0 < j" "j \<le> length q" unfolding j_def using run_length_pos run_length_spec [of 0 q key] Cons by auto
    have "0 < snd a" using less.prems(1) j(1) unfolding a_def io_works_def by blast
    with j have n: "0 < n" "n \<le> j" "n \<le> length q" unfolding n_def by auto
    have b1: "bpos c1 = bpos c" "bufs c1 = bufs c" "disk c1 = disk c" "rest_same c c1"
      by (auto simp: c1_def bpos_def fun_eq_iff rest_same_def)
    have "key (q ! k) = key (q ! 0) + of_nat k" if "k < n" for k
    proof -
      have "0 \<le> k \<and> k < run_length key q 0" using that n unfolding j_def by simp
      with run_length_spec [of 0 q key] show ?thesis by blast
    qed
    then have k: "key (take n q ! i) = key i0 + of_nat i" if "i < n" for i using that Cons by simp
    have "\<forall>k < length (take n q). bpos c1 (take n q ! k) = blk_pos (key i0) + 1024 * of_nat k"
      unfolding b1(1) bpos_def blk_pos_def key_def [symmetric, THEN fun_cong]
      by (intro allI impI, subst k) (auto simp: algebra_simps)
    note t = transfer_run_writes [OF this inj_on_subset [OF less.prems(3) [folded b1(1)] set_take_subset] distinct_take [OF less.prems(2)]]
    define c2 where "c2 = transfer_run WRITING dev (blk_pos (key i0)) (take n q) c1"
    have c3: "c3 = c2\<lparr>bufs := (\<lambda>i. if i \<in> set (take n q) then (bufs c2 i)\<lparr>b_dirt := False\<rparr> else bufs c2 i)\<rparr>"
      unfolding c3_def harvest_writes c2_def ..
    have c2: "bufs c2 = bufs c" "\<forall>i \<in> set (take n q). disk c2 dev (bpos c i) = b_data (bufs c i)"
      "\<forall>d p. \<not> (d = dev \<and> p \<in> bpos c ` set (take n q)) \<longrightarrow> disk c2 d p = disk c d p" "rest_same c1 c2"
      using t [of dev] unfolding c2_def b1 by blast+
    have f1: "flushed dev (set (take n q)) c c3"
      unfolding flushed_def c3 c2(1) using c2(2,3) rest_same_trans [OF b1(4) c2(4)] by (simp add: rest_same_def)
    have i: "set (take n q) \<inter> set (drop n q) = {}" using set_take_disj_set_drop_if_distinct [OF less.prems(2) order_refl] .
    have u: "set (take n q) \<union> set (drop n q) = set q" by (metis append_take_drop_id set_append)
    have ih: "length (drop n q) < length q" "io_works (dev_env c3)" "distinct (drop n q)" "inj_on (bpos c3) (set (drop n q))"
      using n(1,3) less.prems flushed_rest [OF f1] flushed_bpos [OF f1] inj_on_subset [OF less.prems(3) set_drop_subset]
      by (simp_all add: rest_same_def)
    obtain c' where c': "rw_loop dev WRITING (drop n q) c3 = Some c'" "flushed dev (set (drop n q)) c3 c'"
      using less.hyps [OF ih] by blast
    have s: "rw_loop dev WRITING q c = rw_loop dev WRITING (drop n q) c3"
      using n(1) Cons by (subst rw_loop.simps) (simp add: Let_def ask_dev_def c3_def n_def a_def c1_def j_def key_def, auto simp: min_def split: if_splits)
    show ?thesis using c' s flushed_trans [OF f1 c'(2) i] less.prems(3) unfolding u by simp
  qed
qed

text \<open>The dirty buffers of a device, and the state in which no two cached blocks share a position.\<close>

definition dirty_set :: "int \<Rightarrow> cache \<Rightarrow> nat set" where
  "dirty_set dev c = {i. i < NR_BUFS \<and> b_dirt (bufs c i) \<and> b_dev (bufs c i) = dev}"

definition pos_inj :: "int \<Rightarrow> cache \<Rightarrow> bool" where
  "pos_inj dev c \<longleftrightarrow> inj_on (bpos c) {i. i < NR_BUFS \<and> b_dev (bufs c i) = dev}"

lemma flushall_writes:
  assumes "io_works (dev_env c)" "pos_inj dev c"
  shows "\<exists>c'. flushall dev c = Some c' \<and> flushed dev (dirty_set dev c) c c'"
proof -
  let ?q = "filter (\<lambda>i. b_dirt (bufs c i) \<and> b_dev (bufs c i) = dev) [0..<NR_BUFS]" and ?key = "\<lambda>i. b_blocknr (bufs c i)"
  have set: "set ?q = dirty_set dev c" by (auto simp: dirty_set_def simp del: upt_rec_numeral)
  have inj: "inj_on (bpos c) (set ?q)"
    using assms(2) unfolding pos_inj_def set by (rule inj_on_subset) (auto simp: dirty_set_def)
  obtain q where q: "shell_sort ?key ?q = Some q" "mset q = mset ?q" using shell_sort_orders by blast
  have sq: "set q = dirty_set dev c" using mset_eq_setD [OF q(2)] set by simp
  have "distinct ?q" by (simp del: upt_rec_numeral)
  then have "distinct q" using q(2) mset_eq_imp_distinct_iff by blast
  then obtain c' where "rw_loop dev WRITING q c = Some c'" "flushed dev (set q) c c'"
    using rw_loop_writes [OF assms(1), of q dev] inj unfolding set sq by blast
  then show ?thesis using q(1) sq unfolding flushall_def rw_scattered_def by simp
qed

end
