(* ===== verification/FS_Cache_Inv.thy ===== *)
theory FS_Cache_Inv
  imports FS_Flush
begin

text \<open>
  The structure of the block cache: the buffers not in use form the LRU chain, linked both ways, and
  every buffer is on the hash chain of its block number.  The operations on the chains are list
  operations.
\<close>

subsection \<open>Doubly linked chains\<close>

lemma buf_chain_next: "chain nx p (us @ x # vs) \<Longrightarrow> nx x = (if vs = [] then None else Some (hd vs))"
  by (drule chain_append) (auto dest: chain_hd)

lemma chain_start: "chain nx p (us @ x # vs) \<Longrightarrow> p = (if us = [] then Some x else Some (hd us))"
  by (cases us) auto

lemma chain_remove:
  assumes "chain nx p (us @ x # vs)"
  shows "chain (if us = [] then nx else nx(last us := nx x)) (if us = [] then nx x else p) (us @ vs)"
proof (cases us rule: rev_cases)
  case Nil
  then show ?thesis using assms by simp
next
  case (snoc ws a)
  then show ?thesis using chain_unlink [of nx p ws a x vs] assms by simp
qed

abbreviation nextf :: "cache \<Rightarrow> nat \<Rightarrow> nat option" where "nextf c \<equiv> \<lambda>i. b_next (bufs c i)"
abbreviation prevf :: "cache \<Rightarrow> nat \<Rightarrow> nat option" where "prevf c \<equiv> \<lambda>i. b_prev (bufs c i)"
abbreviation hashf :: "cache \<Rightarrow> nat \<Rightarrow> nat option" where "hashf c \<equiv> \<lambda>i. b_hash (bufs c i)"

definition dll :: "cache \<Rightarrow> nat list \<Rightarrow> bool" where
  "dll c xs \<longleftrightarrow> chain (nextf c) (front c) xs \<and> chain (prevf c) (rear c) (rev xs)"

lemma dll_distinct: "dll c xs \<Longrightarrow> distinct xs"
  unfolding dll_def by (blast dest: chain_distinct)

lemma dll_front: "dll c xs \<Longrightarrow> front c = (if xs = [] then None else Some (hd xs))"
  unfolding dll_def by (blast dest: chain_hd)

lemma dll_rear: "dll c xs \<Longrightarrow> rear c = (if xs = [] then None else Some (last xs))"
  unfolding dll_def by (auto dest: chain_hd simp: hd_rev)

text \<open>What a change of links leaves alone.\<close>

definition unlinked :: "buf \<Rightarrow> buf" where
  "unlinked b = b\<lparr>b_next := None, b_prev := None\<rparr>"

lemma unlinked_upd [simp]:
  "unlinked (b\<lparr>b_next := x\<rparr>) = unlinked b" "unlinked (b\<lparr>b_prev := x\<rparr>) = unlinked b"
  by (simp_all add: unlinked_def)

lemma unlinked_fields:
  assumes "unlinked b = unlinked b'"
  shows "b_data b = b_data b'" "b_hash b = b_hash b'" "b_blocknr b = b_blocknr b'" "b_dev b = b_dev b'"
    "b_dirt b = b_dirt b'" "b_count b = b_count b'"
  using arg_cong [OF assms, of b_data] arg_cong [OF assms, of b_hash] arg_cong [OF assms, of b_blocknr]
    arg_cong [OF assms, of b_dev] arg_cong [OF assms, of b_dirt] arg_cong [OF assms, of b_count]
  by (simp_all add: unlinked_def)

definition relinked :: "cache \<Rightarrow> cache \<Rightarrow> bool" where
  "relinked c c' \<longleftrightarrow> (\<forall>i. unlinked (bufs c' i) = unlinked (bufs c i)) \<and> buf_hash c' = buf_hash c
     \<and> buf2s c' = buf2s c \<and> nr_buf2 c' = nr_buf2 c \<and> buf2_idx c' = buf2_idx c \<and> rdwt_err c' = rdwt_err c
     \<and> disk c' = disk c \<and> dev_hist c' = dev_hist c \<and> dev_env c' = dev_env c"

lemma rm_lru_next: "nextf (rm_lru x c) = (case b_prev (bufs c x) of None \<Rightarrow> nextf c | Some p \<Rightarrow> (nextf c)(p := b_next (bufs c x)))"
  by (auto simp: rm_lru_def Let_def upd_buf_def fun_eq_iff split: option.splits)

lemma rm_lru_prev: "prevf (rm_lru x c) = (case b_next (bufs c x) of None \<Rightarrow> prevf c | Some n \<Rightarrow> (prevf c)(n := b_prev (bufs c x)))"
  by (auto simp: rm_lru_def Let_def upd_buf_def fun_eq_iff split: option.splits)

lemma rm_lru_ends:
  "front (rm_lru x c) = (case b_prev (bufs c x) of None \<Rightarrow> b_next (bufs c x) | Some p \<Rightarrow> front c)"
  "rear (rm_lru x c) = (case b_next (bufs c x) of None \<Rightarrow> b_prev (bufs c x) | Some p \<Rightarrow> rear c)"
  by (auto simp: rm_lru_def Let_def upd_buf_def split: option.splits)

lemma rm_lru_relinked: "relinked c (rm_lru x c)" "bufs_in_use (rm_lru x c) = bufs_in_use c + 1"
  by (auto simp: rm_lru_def relinked_def Let_def upd_buf_def split: option.splits)

lemma dll_links:
  assumes "dll c (us @ x # vs)"
  shows "b_next (bufs c x) = (if vs = [] then None else Some (hd vs))" "b_prev (bufs c x) = (if us = [] then None else Some (last us))"
proof -
  have "chain (prevf c) (rear c) (rev vs @ x # rev us)" using assms unfolding dll_def by simp
  from buf_chain_next [OF this] show "b_prev (bufs c x) = (if us = [] then None else Some (last us))" by (simp add: hd_rev)
  show "b_next (bufs c x) = (if vs = [] then None else Some (hd vs))"
    using buf_chain_next [of "nextf c"] assms unfolding dll_def by auto
qed

lemma rm_lru_dll:
  assumes "dll c (us @ x # vs)"
  shows "dll (rm_lru x c) (us @ vs)"
proof -
  note l = dll_links [OF assms]
  have "chain (nextf c) (front c) (us @ x # vs)" "chain (prevf c) (rear c) (rev vs @ x # rev us)"
    using assms unfolding dll_def by simp_all
  from this [THEN chain_remove] show ?thesis
    unfolding dll_def rm_lru_next rm_lru_prev rm_lru_ends l by (auto simp: last_rev split: if_splits)
qed

lemma lru_front_fields:
  "nextf (lru_front x c) = (nextf c)(x := front c)"
  "front c \<noteq> Some x \<Longrightarrow> prevf (lru_front x c) = (case front c of None \<Rightarrow> (prevf c)(x := None) | Some f \<Rightarrow> (prevf c)(x := None, f := Some x))"
  "front (lru_front x c) = Some x"
  "rear (lru_front x c) = (if front c = None then Some x else rear c)"
  by (auto simp: lru_front_def Let_def upd_buf_def fun_eq_iff split: option.splits)

lemma lru_front_relinked: "relinked c (lru_front x c)" "bufs_in_use (lru_front x c) = bufs_in_use c"
  by (auto simp: lru_front_def relinked_def Let_def upd_buf_def split: option.splits)

lemma lru_rear_fields:
  "rear c \<noteq> Some x \<Longrightarrow> nextf (lru_rear x c) = (case rear c of None \<Rightarrow> (nextf c)(x := None) | Some r \<Rightarrow> (nextf c)(x := None, r := Some x))"
  "prevf (lru_rear x c) = (prevf c)(x := rear c)"
  "rear (lru_rear x c) = Some x"
  "front (lru_rear x c) = (if rear c = None then Some x else front c)"
  by (auto simp: lru_rear_def Let_def upd_buf_def fun_eq_iff split: option.splits)

lemma lru_rear_relinked: "relinked c (lru_rear x c)" "bufs_in_use (lru_rear x c) = bufs_in_use c"
  by (auto simp: lru_rear_def relinked_def Let_def upd_buf_def split: option.splits)

lemma chain_swap_snoc:
  "chain nx p xs \<Longrightarrow> xs \<noteq> [] \<Longrightarrow> x \<notin> set xs \<Longrightarrow> chain (nx(x := None, last xs := Some x)) p (xs @ [x])"
  using chain_snoc [of nx p xs x] by (subst fun_upd_twist) auto

lemma lru_front_dll:
  assumes "dll c xs" "x \<notin> set xs"
  shows "dll (lru_front x c) (x # xs)"
proof (cases xs)
  case Nil
  then show ?thesis using assms(1) unfolding dll_def by (simp add: lru_front_fields)
next
  case (Cons y ys)
  have c: "chain (nextf c) (front c) xs" "chain (prevf c) (rear c) (rev xs)" using assms(1) unfolding dll_def by auto
  have f: "front c = Some y" using dll_front [OF assms(1)] Cons by simp
  have "y \<noteq> x" using assms(2) Cons by auto
  have "chain ((prevf c)(x := None, y := Some x)) (rear c) (rev xs @ [x])"
    using chain_swap_snoc [OF c(2), of x] assms(2) Cons by simp
  then show ?thesis
    using chain_push [OF c(1) assms(2)] f \<open>y \<noteq> x\<close> unfolding dll_def
    by (simp add: lru_front_fields del: fun_upd_apply)
qed

lemma lru_rear_dll:
  assumes "dll c xs" "x \<notin> set xs"
  shows "dll (lru_rear x c) (xs @ [x])"
proof (cases xs rule: rev_cases)
  case Nil
  then show ?thesis using assms(1) unfolding dll_def by (simp add: lru_rear_fields)
next
  case (snoc ys y)
  have c: "chain (nextf c) (front c) xs" "chain (prevf c) (rear c) (rev xs)" using assms(1) unfolding dll_def by auto
  have r: "rear c = Some y" using dll_rear [OF assms(1)] snoc by simp
  have "y \<noteq> x" using assms(2) snoc by auto
  have "chain ((nextf c)(x := None, y := Some x)) (front c) (xs @ [x])"
    using chain_swap_snoc [OF c(1), of x] assms(2) snoc by simp
  moreover have "chain ((prevf c)(x := rear c)) (Some x) (x # rev xs)" using chain_push [OF c(2)] assms(2) by simp
  ultimately show ?thesis
    using r \<open>y \<noteq> x\<close> unfolding dll_def by (simp add: lru_rear_fields del: fun_upd_apply)
qed

subsection \<open>Hash chains\<close>

text \<open>
  \<open>hash_ok c H V\<close>: \<open>H h\<close> lists the hash chain of \<open>h\<close>; the chains hold every buffer but \<open>V\<close>, each
  on the chain of its block number.
\<close>

definition hash_ok :: "cache \<Rightarrow> (nat \<Rightarrow> nat list) \<Rightarrow> nat set \<Rightarrow> bool" where
  "hash_ok c H V \<longleftrightarrow> (\<forall>h. chain (hashf c) (buf_hash c h) (H h))
     \<and> (\<forall>h i. i \<in> set (H h) \<longleftrightarrow> i < NR_BUFS \<and> i \<notin> V \<and> hash_key (b_blocknr (bufs c i)) = h)"

lemma hash_ok_cong:
  assumes "hash_ok c H V" "buf_hash c' = buf_hash c"
    "\<And>i. i < NR_BUFS \<Longrightarrow> b_hash (bufs c' i) = b_hash (bufs c i)" "\<And>i. i < NR_BUFS \<Longrightarrow> b_blocknr (bufs c' i) = b_blocknr (bufs c i)"
  shows "hash_ok c' H V"
proof -
  have m: "i \<in> set (H h) \<longleftrightarrow> i < NR_BUFS \<and> i \<notin> V \<and> hash_key (b_blocknr (bufs c i)) = h" for h i
    using assms(1) unfolding hash_ok_def by blast
  have "chain (hashf c') (buf_hash c' h) (H h)" for h
    using chain_cong [of "H h" "hashf c'" "hashf c"] assms m unfolding hash_ok_def by simp
  moreover have "i \<in> set (H h) \<longleftrightarrow> i < NR_BUFS \<and> i \<notin> V \<and> hash_key (b_blocknr (bufs c' i)) = h" for h i
    unfolding m using assms(4) by auto
  ultimately show ?thesis unfolding hash_ok_def by blast
qed

text \<open>The search of a hash chain.\<close>

definition is_block :: "cache \<Rightarrow> int \<Rightarrow> u32 \<Rightarrow> nat \<Rightarrow> bool" where
  "is_block c dev b i \<longleftrightarrow> b_blocknr (bufs c i) = b \<and> b_dev (bufs c i) = dev"

lemma find_buf_step:
  "find_buf (bufs c) dev b p = (if is_block c dev b p then Some (Some p)
     else case b_hash (bufs c p) of None \<Rightarrow> Some None | Some p' \<Rightarrow> find_buf (bufs c) dev b p')"
  by (subst find_buf.simps) (simp add: is_block_def)

lemma find_buf_chain:
  "chain (hashf c) (Some p) (p # xs) \<Longrightarrow> find_buf (bufs c) dev b p = Some (find (is_block c dev b) (p # xs))"
proof (induction xs arbitrary: p)
  case Nil
  then show ?case by (subst find_buf_step) simp
next
  case (Cons y ys)
  then have "chain (hashf c) (Some y) (y # ys)" "b_hash (bufs c p) = Some y" by simp_all
  with Cons.IH show ?case by (subst find_buf_step) simp
qed

lemma find_block_hash:
  assumes "hash_ok c H V"
  shows "find_block dev b c = Some (find (is_block c dev b) (H (hash_key b)))"
proof (cases "H (hash_key b)")
  case Nil
  then show ?thesis using assms unfolding find_block_def hash_ok_def by (metis chain.simps(1) find.simps(1) option.simps(4))
next
  case (Cons p xs)
  then have "chain (hashf c) (buf_hash c (hash_key b)) (p # xs)" using assms unfolding hash_ok_def by metis
  then have "buf_hash c (hash_key b) = Some p" "chain (hashf c) (Some p) (p # xs)" by simp_all
  with find_buf_chain show ?thesis unfolding find_block_def Cons by simp
qed

lemma find_block_Some:
  assumes "hash_ok c H {}"
  shows "\<exists>r. find_block dev b c = Some r \<and> (case r of None \<Rightarrow> \<forall>i < NR_BUFS. \<not> is_block c dev b i
     | Some i \<Rightarrow> i < NR_BUFS \<and> is_block c dev b i)"
proof -
  have m: "i \<in> set (H h) \<longleftrightarrow> i < NR_BUFS \<and> hash_key (b_blocknr (bufs c i)) = h" for h i
    using assms unfolding hash_ok_def by blast
  show ?thesis
  proof (cases "find (is_block c dev b) (H (hash_key b))")
    case None
    then have "\<forall>i < NR_BUFS. \<not> is_block c dev b i" using m unfolding find_None_iff is_block_def by metis
    then show ?thesis using find_block_hash [OF assms] None by simp
  next
    case (Some i)
    then have "i \<in> set (H (hash_key b))" "is_block c dev b i" by (auto simp: find_Some_iff)
    then show ?thesis using find_block_hash [OF assms] Some m by simp
  qed
qed

text \<open>Unlinking a buffer and linking it at the head of another chain.\<close>

lemma unhash_ok:
  assumes "hash_ok c H {}" "bp < NR_BUFS"
  shows "\<exists>c' H'. unhash bp c = Some c' \<and> hash_ok c' H' {bp} \<and> (\<exists>f g. c' = c\<lparr>bufs := f, buf_hash := g\<rparr>)
    \<and> (\<forall>i. \<exists>x. bufs c' i = (bufs c i)\<lparr>b_hash := x\<rparr>)"
proof -
  let ?h = "hash_key (b_blocknr (bufs c bp))"
  have m: "i \<in> set (H h) \<longleftrightarrow> i < NR_BUFS \<and> hash_key (b_blocknr (bufs c i)) = h" for h i
    using assms(1) unfolding hash_ok_def by blast
  have ch: "chain (hashf c) (buf_hash c h) (H h)" for h using assms(1) unfolding hash_ok_def by blast
  have "bp \<in> set (H ?h)" using m assms(2) by blast
  then obtain us vs where H: "H ?h = us @ bp # vs" by (auto simp: in_set_conv_decomp)
  have d: "distinct (H ?h)" using ch by (rule chain_distinct)
  let ?H = "H(?h := us @ vs)"
  have mem: "i \<in> set (?H h) \<longleftrightarrow> i < NR_BUFS \<and> i \<notin> {bp} \<and> hash_key (b_blocknr (bufs c i)) = h" for h i
    using m [of i h] m [of i ?h] d unfolding H by (cases "h = ?h") auto
  show ?thesis
  proof (cases us rule: rev_cases)
    case Nil
    let ?c = "c\<lparr>buf_hash := (buf_hash c)(?h := b_hash (bufs c bp))\<rparr>"
    have c: "chain (hashf c) (Some bp) (bp # vs)" "buf_hash c ?h = Some bp" using ch [of ?h] unfolding H Nil by auto
    then have "unhash bp c = Some ?c" unfolding unhash_def by simp
    moreover have "hash_ok ?c ?H {bp}" unfolding hash_ok_def using mem ch c Nil by simp
    moreover have "?c = c\<lparr>bufs := bufs c, buf_hash := (buf_hash c)(?h := b_hash (bufs c bp))\<rparr>" by simp
    moreover have "\<forall>i. \<exists>x. bufs ?c i = (bufs c i)\<lparr>b_hash := x\<rparr>" by (metis buf.surjective buf.update_convs(4) cache.select_convs(1) cache.surjective cache.update_convs(2))
    ultimately show ?thesis by blast
  next
    case (snoc ws a)
    let ?c = "upd_buf a (\<lambda>b. b\<lparr>b_hash := b_hash (bufs c bp)\<rparr>) c"
    have c: "chain (hashf c) (buf_hash c ?h) (ws @ a # bp # vs)" using ch [of ?h] unfolding H snoc by simp
    obtain p where p: "buf_hash c ?h = Some p" "p \<noteq> bp"
      using chain_hd [OF c] chain_distinct [OF c] by (cases ws) auto
    have "chain_pred (hashf c) p bp = Some (Some a)" using chain_pred_found c p by metis
    then have "unhash bp c = Some ?c" unfolding unhash_def using p by simp
    moreover have hf: "hashf ?c = (hashf c)(a := b_hash (bufs c bp))" by (auto simp: upd_buf_def fun_eq_iff)
    have "chain (hashf ?c) (buf_hash ?c h) (?H h)" for h
    proof (cases "h = ?h")
      case True
      then show ?thesis using chain_unlink [OF c] snoc unfolding hf by (simp add: upd_buf_def)
    next
      case False
      have "a \<notin> set (H h)" using m [of a ?h] m [of a h] False unfolding H snoc by auto
      then show ?thesis using ch [of h] False unfolding hf by (simp add: chain_upd_other upd_buf_def)
    qed
    then have "hash_ok ?c ?H {bp}" unfolding hash_ok_def using mem by (auto simp: upd_buf_def)
    moreover have "?c = c\<lparr>bufs := bufs ?c, buf_hash := buf_hash c\<rparr>" by (simp add: upd_buf_def)
    moreover have "\<exists>x. bufs ?c i = (bufs c i)\<lparr>b_hash := x\<rparr>" for i
      by (cases "i = a") (auto simp: upd_buf_def intro: exI [of _ "b_hash (bufs c i)"])
    ultimately show ?thesis by blast
  qed
qed

lemma rehash_hash_ok:
  assumes "hash_ok c H {bp}" "bp < NR_BUFS"
  shows "\<exists>H'. hash_ok (rehash bp dev b c) H' {}"
proof -
  let ?h = "hash_key b" and ?c = "rehash bp dev b c"
  have m: "i \<in> set (H h) \<longleftrightarrow> i < NR_BUFS \<and> i \<noteq> bp \<and> hash_key (b_blocknr (bufs c i)) = h" for h i
    using assms(1) unfolding hash_ok_def by blast
  have ch: "chain (hashf c) (buf_hash c h) (H h)" for h using assms(1) unfolding hash_ok_def by blast
  have nb: "bp \<notin> set (H h)" for h using m by blast
  have hf: "hashf ?c = (hashf c)(bp := buf_hash c ?h)" by (auto simp: rehash_def Let_def upd_buf_def fun_eq_iff)
  have bh: "buf_hash ?c = (buf_hash c)(?h := Some bp)" by (simp add: rehash_def Let_def upd_buf_def)
  have "chain (hashf ?c) (buf_hash ?c h) ((H(?h := bp # H ?h)) h)" for h
    unfolding hf bh using chain_push [OF ch nb] ch [of h] nb [of h] by (simp add: chain_upd_other)
  moreover have "i \<in> set ((H(?h := bp # H ?h)) h) \<longleftrightarrow> i < NR_BUFS \<and> i \<notin> {} \<and> hash_key (b_blocknr (bufs ?c i)) = h" for h i
    using m [of i h] assms(2) by (auto simp: rehash_def Let_def upd_buf_def)
  ultimately show ?thesis unfolding hash_ok_def by blast
qed

end
