(* ===== verification/FS_Cache_Data.thy ===== *)
theory FS_Cache_Data
  imports FS_Cache_Inv
begin

text \<open>
  What the cache holds: \<open>blk c dev b\<close> is the contents of a block, the buffer that caches it or else
  the device.  Flushing, evicting to the second level cache and refilling a buffer keep it.
\<close>

subsection \<open>Contents\<close>

definition blk :: "cache \<Rightarrow> int \<Rightarrow> u32 \<Rightarrow> block" where
  "blk c dev b = (case find (is_block c dev b) [0..<NR_BUFS] of
                    Some i \<Rightarrow> b_data (bufs c i) | None \<Rightarrow> disk c dev (blk_pos b))"

definition cached :: "cache \<Rightarrow> int \<Rightarrow> u32 \<Rightarrow> bool" where
  "cached c dev b \<longleftrightarrow> (\<exists>i < NR_BUFS. is_block c dev b i)"

text \<open>Positions on a device are 32 bits, so that block numbers below \<open>2 ^ 22\<close> can be told apart.\<close>

definition small :: "u32 \<Rightarrow> bool" where
  "small b \<longleftrightarrow> b < 4194304"

lemma blk_pos_inj: "small b \<Longrightarrow> small b' \<Longrightarrow> blk_pos b = blk_pos b' \<longleftrightarrow> b = b'"
proof -
  assume s: "small b" "small b'"
  have "unat (x * 1024) = unat x * 1024" if "small x" for x :: u32
    using that unfolding small_def by (simp add: unat_mult_lem [THEN iffD1] word_less_nat_alt unat_word_ariths)
  then show ?thesis using s unfolding blk_pos_def by (metis mult_cancel2 word_unat_eq_iff zero_neq_numeral)
qed

definition uniq :: "cache \<Rightarrow> bool" where
  "uniq c \<longleftrightarrow> (\<forall>i < NR_BUFS. \<forall>j < NR_BUFS. b_dev (bufs c i) \<noteq> NO_DEV \<longrightarrow> b_dev (bufs c i) = b_dev (bufs c j)
     \<longrightarrow> b_blocknr (bufs c i) = b_blocknr (bufs c j) \<longrightarrow> i = j)"

lemma uniqD: "uniq c \<Longrightarrow> is_block c dev b i \<Longrightarrow> is_block c dev b j \<Longrightarrow> i < NR_BUFS \<Longrightarrow> j < NR_BUFS \<Longrightarrow> dev \<noteq> NO_DEV \<Longrightarrow> i = j"
  unfolding uniq_def is_block_def by metis

lemma blk_cached:
  assumes "uniq c" "i < NR_BUFS" "is_block c dev b i" "dev \<noteq> NO_DEV"
  shows "blk c dev b = b_data (bufs c i)"
proof (cases "find (is_block c dev b) [0..<NR_BUFS]")
  case None
  then have "i \<notin> set [0..<NR_BUFS]" using assms(3) unfolding find_None_iff by blast
  with assms(2) show ?thesis by (simp del: upt_rec_numeral)
next
  case (Some j)
  then have "j \<in> set [0..<NR_BUFS]" "is_block c dev b j" by (metis find_Some_iff nth_mem)+
  then have "j = i" using uniqD [OF assms(1)] assms by (simp del: upt_rec_numeral)
  with Some show ?thesis unfolding blk_def by simp
qed

lemma blk_uncached: "\<not> cached c dev b \<Longrightarrow> blk c dev b = disk c dev (blk_pos b)"
proof -
  assume "\<not> cached c dev b"
  then have "find (is_block c dev b) [0..<NR_BUFS] = None"
    unfolding cached_def find_None_iff by (simp del: upt_rec_numeral)
  then show ?thesis unfolding blk_def by simp
qed

definition clean_ok :: "cache \<Rightarrow> nat \<Rightarrow> bool" where
  "clean_ok c i \<longleftrightarrow> (b_dev (bufs c i) \<noteq> NO_DEV \<longrightarrow> \<not> b_dirt (bufs c i) \<longrightarrow> b_data (bufs c i) = disk c (b_dev (bufs c i)) (bpos c i))"

text \<open>
  The buffers: no block is cached twice, clean buffers agree with the device, except for the buffers \<open>X\<close>
  a caller has in use and not filled yet.
\<close>

definition data_ok :: "cache \<Rightarrow> nat set \<Rightarrow> bool" where
  "data_ok c X \<longleftrightarrow> uniq c \<and> (\<forall>i < NR_BUFS. small (b_blocknr (bufs c i)) \<and> 0 \<le> b_count (bufs c i) \<and> (i \<notin> X \<longrightarrow> clean_ok c i))
     \<and> (\<forall>i \<in> X. b_count (bufs c i) \<noteq> 0)"

definition lru_ok :: "cache \<Rightarrow> nat list \<Rightarrow> nat set \<Rightarrow> bool" where
  "lru_ok c L W \<longleftrightarrow> dll c L \<and> set L = {i. i < NR_BUFS \<and> i \<notin> W \<and> b_count (bufs c i) = 0}
     \<and> bufs_in_use c = int NR_BUFS - int (length L)"

text \<open>
  The second level cache: a slot that \<^verbatim>\<open>get_block2()\<close> would find holds what the device holds,
  except for blocks that are cached (\<open>K\<close>); it is not in use once a block of the RAM disk is cached.
\<close>

definition slot_is :: "cache \<Rightarrow> int \<Rightarrow> u32 \<Rightarrow> nat \<Rightarrow> bool" where
  "slot_is c dev b j \<longleftrightarrow> b2_blocknr (buf2s c j) = b \<and> b2_dev (buf2s c j) = dev"

definition order2 :: "cache \<Rightarrow> nat list" where
  "order2 c = rev [0..<buf2_idx c] @ rev [buf2_idx c..<nr_buf2 c]"

definition coh2 :: "cache \<Rightarrow> (int \<Rightarrow> u32 \<Rightarrow> bool) \<Rightarrow> bool" where
  "coh2 c K \<longleftrightarrow> (nr_buf2 c \<noteq> 0 \<longrightarrow> (\<forall>dev b j. dev \<noteq> NO_DEV \<longrightarrow> dev \<noteq> DEV_RAM \<longrightarrow> small b \<longrightarrow> \<not> K dev b \<longrightarrow>
      find (slot_is c dev b) (order2 c) = Some j \<longrightarrow> disk c DEV_RAM (blk_pos (of_nat j)) = disk c dev (blk_pos b)))"

definition ram_ok :: "cache \<Rightarrow> bool" where
  "ram_ok c \<longleftrightarrow> (nr_buf2 c \<noteq> 0 \<longrightarrow> (\<forall>i < NR_BUFS. b_dev (bufs c i) \<noteq> DEV_RAM) \<and> buf2_idx c < nr_buf2 c \<and> nr_buf2 c \<le> MAX_BUF2)"

text \<open>The invariant, with one buffer possibly off the LRU chain (\<open>W\<close>) and the hash chains (\<open>V\<close>).\<close>

definition cache_mid :: "cache \<Rightarrow> nat list \<Rightarrow> nat set \<Rightarrow> (nat \<Rightarrow> nat list) \<Rightarrow> nat set \<Rightarrow> (int \<Rightarrow> u32 \<Rightarrow> bool) \<Rightarrow> nat set \<Rightarrow> bool" where
  "cache_mid c L W H V K X \<longleftrightarrow> lru_ok c L W \<and> hash_ok c H V \<and> data_ok c X \<and> ram_ok c \<and> coh2 c K \<and> io_works (dev_env c)"

definition cache_inv :: "cache \<Rightarrow> nat set \<Rightarrow> bool" where
  "cache_inv c X \<longleftrightarrow> (\<exists>L H. cache_mid c L {} H {} (cached c) X)"

text \<open>The devices whose contents the cache keeps: the RAM disk only when it is not the second level cache.\<close>

definition visible :: "cache \<Rightarrow> int \<Rightarrow> bool" where
  "visible c dev \<longleftrightarrow> dev \<noteq> NO_DEV \<and> (dev = DEV_RAM \<longrightarrow> nr_buf2 c = 0)"

definition blk_same :: "cache \<Rightarrow> cache \<Rightarrow> bool" where
  "blk_same c c' \<longleftrightarrow> (\<forall>dev b. visible c dev \<longrightarrow> small b \<longrightarrow> blk c' dev b = blk c dev b)"

subsection \<open>Changes of links only\<close>

definition same_data :: "cache \<Rightarrow> cache \<Rightarrow> bool" where
  "same_data c c' \<longleftrightarrow> (\<forall>i. b_data (bufs c' i) = b_data (bufs c i) \<and> b_blocknr (bufs c' i) = b_blocknr (bufs c i)
      \<and> b_dev (bufs c' i) = b_dev (bufs c i) \<and> b_dirt (bufs c' i) = b_dirt (bufs c i) \<and> b_count (bufs c' i) = b_count (bufs c i))
     \<and> buf2s c' = buf2s c \<and> nr_buf2 c' = nr_buf2 c \<and> buf2_idx c' = buf2_idx c \<and> disk c' = disk c \<and> dev_env c' = dev_env c"

lemma relinked_same_data: "relinked c c' \<Longrightarrow> same_data c c'"
  unfolding relinked_def same_data_def using unlinked_fields by meson

lemma same_data_facts:
  assumes "same_data c c'"
  shows "is_block c' = is_block c" "blk c' = blk c" "cached c' = cached c" "clean_ok c' = clean_ok c" "data_ok c' = data_ok c"
    "ram_ok c' = ram_ok c" "coh2 c' = coh2 c" "visible c' = visible c" "dev_env c' = dev_env c"
proof -
  have f: "b_data (bufs c' i) = b_data (bufs c i)" "b_blocknr (bufs c' i) = b_blocknr (bufs c i)"
     "b_dev (bufs c' i) = b_dev (bufs c i)" "b_dirt (bufs c' i) = b_dirt (bufs c i)" "b_count (bufs c' i) = b_count (bufs c i)"
     "buf2s c' = buf2s c" "nr_buf2 c' = nr_buf2 c" "buf2_idx c' = buf2_idx c" "disk c' = disk c" for i
    using assms unfolding same_data_def by blast+
  show b: "is_block c' = is_block c" by (simp add: fun_eq_iff is_block_def f)
  have "blk c' d q = blk c d q" for d q unfolding blk_def b f by (rule refl)
  then show "blk c' = blk c" by (simp add: fun_eq_iff)
  show "cached c' = cached c" by (simp add: fun_eq_iff cached_def b)
  have p: "bpos c' = bpos c" by (simp add: fun_eq_iff bpos_def f)
  show l: "clean_ok c' = clean_ok c" by (simp add: fun_eq_iff clean_ok_def p f)
  have "uniq c' = uniq c" by (simp add: uniq_def f)
  then show "data_ok c' = data_ok c" by (simp add: fun_eq_iff data_ok_def l f)
  show "ram_ok c' = ram_ok c" by (simp add: ram_ok_def f)
  have "slot_is c' = slot_is c" "order2 c' = order2 c" by (simp_all add: fun_eq_iff slot_is_def order2_def f)
  then have "coh2 c' K = coh2 c K" for K unfolding coh2_def f by simp
  then show "coh2 c' = coh2 c" by (simp add: fun_eq_iff)
  show "visible c' = visible c" by (simp add: fun_eq_iff visible_def f)
  show "dev_env c' = dev_env c" using assms unfolding same_data_def by blast
qed

subsection \<open>Flushing\<close>

lemma flushed_fields:
  assumes "flushed dev S c c'"
  shows "b_data (bufs c' i) = b_data (bufs c i)" "b_blocknr (bufs c' i) = b_blocknr (bufs c i)"
    "b_dev (bufs c' i) = b_dev (bufs c i)" "b_count (bufs c' i) = b_count (bufs c i)" "b_hash (bufs c' i) = b_hash (bufs c i)"
    "b_next (bufs c' i) = b_next (bufs c i)" "b_prev (bufs c' i) = b_prev (bufs c i)"
    "b_dirt (bufs c' i) \<longleftrightarrow> b_dirt (bufs c i) \<and> i \<notin> S"
  using assms unfolding flushed_def by auto

lemma flushed_is_block: "flushed dev S c c' \<Longrightarrow> is_block c' = is_block c"
  by (simp add: fun_eq_iff is_block_def flushed_fields)

lemma bpos_inj:
  assumes "data_ok c X" "i < NR_BUFS" "j < NR_BUFS" "b_dev (bufs c i) = b_dev (bufs c j)" "b_dev (bufs c i) \<noteq> NO_DEV" "bpos c i = bpos c j"
  shows "i = j"
proof -
  have "b_blocknr (bufs c i) = b_blocknr (bufs c j)"
    using assms blk_pos_inj unfolding data_ok_def bpos_def by blast
  then show ?thesis using assms unfolding data_ok_def uniq_def by blast
qed

lemma pos_inj_data: "data_ok c X \<Longrightarrow> dev \<noteq> NO_DEV \<Longrightarrow> pos_inj dev c"
  unfolding pos_inj_def by (rule inj_onI) (auto intro: bpos_inj)

definition dev_set :: "int \<Rightarrow> cache \<Rightarrow> nat set" where
  "dev_set dev c = {i. i < NR_BUFS \<and> b_dev (bufs c i) = dev}"

lemma dirty_dev_set: "dirty_set dev c \<subseteq> dev_set dev c"
  unfolding dirty_set_def dev_set_def by blast

text \<open>The position of a block that is not cached is none of those written.\<close>

lemma uncached_pos:
  assumes "data_ok c X" "\<not> cached c dev b" "small b" "S \<subseteq> dev_set dev c"
  shows "blk_pos b \<notin> bpos c ` S"
proof
  assume "blk_pos b \<in> bpos c ` S"
  then obtain i where i: "i < NR_BUFS" "b_dev (bufs c i) = dev" "blk_pos b = blk_pos (b_blocknr (bufs c i))"
    using assms(4) unfolding dev_set_def bpos_def by blast
  then have "b = b_blocknr (bufs c i)" using assms(1,3) blk_pos_inj unfolding data_ok_def by blast
  with i have "cached c dev b" unfolding cached_def is_block_def by blast
  with assms(2) show False by blast
qed

lemma flush_blk:
  assumes "data_ok c X" "flushed dev S c c'" "small b" "d \<noteq> NO_DEV" "S \<subseteq> dev_set dev c"
  shows "blk c' d b = blk c d b"
proof (cases "cached c d b")
  case True
  then obtain i where i: "i < NR_BUFS" "is_block c d b i" unfolding cached_def by blast
  have u: "uniq c" using assms(1) unfolding data_ok_def by blast
  then have "uniq c'" unfolding uniq_def flushed_fields [OF assms(2)] .
  with blk_cached i u assms(4) show ?thesis by (metis flushed_fields(1) flushed_is_block assms(2))
next
  case False
  then have n: "\<not> cached c' d b" unfolding cached_def flushed_is_block [OF assms(2)] .
  have "\<not> (d = dev \<and> blk_pos b \<in> bpos c ` S)" using uncached_pos [OF assms(1) _ assms(3,5)] False by blast
  then have "disk c' d (blk_pos b) = disk c d (blk_pos b)" using assms(2) unfolding flushed_def by blast
  then show ?thesis using blk_uncached False n by simp
qed

lemma flush_data_ok:
  assumes "data_ok c X" "flushed dev S c c'" "dev \<noteq> NO_DEV" "S \<subseteq> dev_set dev c"
  shows "data_ok c' X"
proof -
  note f = flushed_fields [OF assms(2)]
  have cl: "clean_ok c' i" if i: "i < NR_BUFS" "i \<notin> X" for i
    unfolding clean_ok_def f
  proof (intro impI)
    assume d: "b_dev (bufs c i) \<noteq> NO_DEV" "\<not> (b_dirt (bufs c i) \<and> i \<notin> S)"
    have p: "bpos c' i = bpos c i" by (simp add: bpos_def f)
    show "b_data (bufs c i) = disk c' (b_dev (bufs c i)) (bpos c' i)"
    proof (cases "i \<in> S")
      case True
      then have "b_dev (bufs c i) = dev" using assms(4) unfolding dev_set_def by blast
      with True show ?thesis using assms(2) unfolding flushed_def p by simp
    next
      case False
      have "\<not> (b_dev (bufs c i) = dev \<and> bpos c i \<in> bpos c ` S)"
      proof (rule notI, elim conjE imageE)
        fix j
        assume j: "b_dev (bufs c i) = dev" "bpos c i = bpos c j" "j \<in> S"
        then have "j < NR_BUFS" "b_dev (bufs c i) = b_dev (bufs c j)" using assms(4) unfolding dev_set_def by auto
        with bpos_inj [OF assms(1) i(1)] d(1) j(2) have "i = j" by blast
        with j(3) False show False by blast
      qed
      then have "disk c' (b_dev (bufs c i)) (bpos c i) = disk c (b_dev (bufs c i)) (bpos c i)"
        using assms(2) unfolding flushed_def by blast
      moreover have "clean_ok c i" using assms(1) i unfolding data_ok_def by blast
      ultimately show ?thesis using d False unfolding clean_ok_def p by simp
    qed
  qed
  have "uniq c'" using assms(1) unfolding data_ok_def uniq_def f by blast
  with cl show ?thesis using assms(1) unfolding data_ok_def f by simp
qed

lemma flush_coh2:
  assumes "data_ok c X" "flushed dev S c c'" "coh2 c (cached c)" "ram_ok c" "S \<subseteq> dev_set dev c"
  shows "coh2 c' (cached c')"
proof -
  have r: "buf2s c' = buf2s c" "nr_buf2 c' = nr_buf2 c" "buf2_idx c' = buf2_idx c"
    using flushed_rest [OF assms(2)] unfolding rest_same_def by blast+
  have e: "slot_is c' = slot_is c" "order2 c' = order2 c" "cached c' = cached c"
    by (simp_all add: fun_eq_iff slot_is_def order2_def r cached_def flushed_is_block [OF assms(2)])
  show ?thesis unfolding coh2_def r e
  proof (intro impI allI)
    fix d b j
    assume a: "nr_buf2 c \<noteq> 0" "d \<noteq> NO_DEV" "d \<noteq> DEV_RAM" "small b" "\<not> cached c d b" "find (slot_is c d b) (order2 c) = Some j"
    have o: "disk c' x p = disk c x p" if "\<not> (x = dev \<and> p \<in> bpos c ` S)" for x p
      using assms(2) that unfolding flushed_def by blast
    have "S = {}" if "dev = DEV_RAM" using assms(4,5) a(1) that unfolding ram_ok_def dev_set_def by blast
    then have "disk c' DEV_RAM (blk_pos (of_nat j)) = disk c DEV_RAM (blk_pos (of_nat j))" using o by (metis empty_iff image_empty)
    also have "\<dots> = disk c d (blk_pos b)" using assms(3) a unfolding coh2_def by blast
    also have "\<dots> = disk c' d (blk_pos b)" using o uncached_pos [OF assms(1) _ a(4) assms(5)] a(5) by metis
    finally show "disk c' DEV_RAM (blk_pos (of_nat j)) = disk c' d (blk_pos b)" .
  qed
qed

lemma flush_mid:
  assumes "cache_mid c L W H V (cached c) X" "dev \<noteq> NO_DEV" "flushed dev S c c'" "S \<subseteq> dev_set dev c"
  shows "cache_mid c' L W H V (cached c') X"
proof -
  note f = flushed_fields [OF assms(3)]
  have r: "rest_same c c'" using flushed_rest [OF assms(3)] .
  have d: "data_ok c X" using assms(1) unfolding cache_mid_def by blast
  have "lru_ok c' L W" using assms(1) r unfolding cache_mid_def lru_ok_def dll_def f rest_same_def by simp
  moreover have "hash_ok c' H V" by (rule hash_ok_cong [of c]) (use assms(1) r f in \<open>simp_all add: cache_mid_def rest_same_def\<close>)
  moreover have "ram_ok c'" using assms(1) r unfolding cache_mid_def ram_ok_def f rest_same_def by simp
  moreover have "io_works (dev_env c')" using assms(1) r unfolding cache_mid_def rest_same_def by simp
  ultimately show ?thesis
    using flush_data_ok [OF d assms(3,2,4)] flush_coh2 [OF d assms(3) _ _ assms(4)] assms(1) unfolding cache_mid_def by blast
qed

end
