(* ===== verification/FS_Cache_Get.thy ===== *)
theory FS_Cache_Get
  imports FS_Cache_Data
begin

text \<open>
  \<^verbatim>\<open>get_block()\<close> and \<^verbatim>\<open>put_block()\<close> keep the invariant of the cache and the contents of
  every block; the block got is the one asked for.
\<close>

subsection \<open>The second level cache\<close>

lemma dev_io_works:
  "io_works (dev_env c) \<Longrightarrow> dev_io w d i p c = (BLOCK_SIZE, transfer w i d p (c\<lparr>dev_hist := dev_hist c @ [DevIO w d p]\<rparr>))"
  unfolding io_works_def by (simp add: dev_io_def ask_dev_def Let_def)

lemma find2_down:
  assumes "idx < nr"
  shows "idx < b \<Longrightarrow> b \<le> nr \<Longrightarrow> find2 tab nr idx blocknr dev b
     = Some (find (\<lambda>j. b2_blocknr (tab j) = blocknr \<and> b2_dev (tab j) = dev) (rev [idx..<b]))"
proof (induction b)
  case 0
  then show ?case by simp
next
  case (Suc b)
  have u: "rev [idx..<Suc b] = b # rev [idx..<b]" using Suc.prems by simp
  show ?case
  proof (cases "b = idx")
    case True
    then show ?thesis by (subst find2.simps) (simp add: Let_def)
  next
    case False
    then have "idx < b" "b \<le> nr" using Suc.prems by simp_all
    with Suc.IH False show ?thesis unfolding u by (subst find2.simps) (simp add: Let_def)
  qed
qed

lemma find2_order:
  assumes "idx < nr"
  shows "b \<le> idx \<Longrightarrow> find2 tab nr idx blocknr dev b
     = Some (find (\<lambda>j. b2_blocknr (tab j) = blocknr \<and> b2_dev (tab j) = dev) (rev [0..<b] @ rev [idx..<nr]))"
proof (induction b)
  case 0
  have "find2 tab nr idx blocknr dev 0 = find2 tab nr idx blocknr dev nr"
    using assms by (subst (1 2) find2.simps) simp
  with find2_down [OF assms, of nr] assms show ?case by simp
next
  case (Suc b)
  then have "b \<noteq> idx" "b \<le> idx" by simp_all
  with Suc.IH show ?case by (subst find2.simps) (simp add: Let_def)
qed

lemma find2_finds:
  "buf2_idx c < nr_buf2 c \<Longrightarrow> find2 (buf2s c) (nr_buf2 c) (buf2_idx c) b dev (buf2_idx c) = Some (find (slot_is c dev b) (order2 c))"
  using find2_order [OF _ order_refl, of "buf2_idx c" "nr_buf2 c" "buf2s c" b dev] unfolding order2_def slot_is_def by simp

definition older2 :: "cache \<Rightarrow> nat list" where
  "older2 c = rev [0..<buf2_idx c] @ rev [Suc (buf2_idx c)..<nr_buf2 c]"

lemma order2_oldest: "buf2_idx c < nr_buf2 c \<Longrightarrow> order2 c = older2 c @ [buf2_idx c]"
  by (simp add: order2_def older2_def upt_conv_Cons)

lemma put_block2_spec:
  fixes bp :: nat
  assumes "io_works (dev_env c)" "nr_buf2 c \<noteq> 0" "buf2_idx c < nr_buf2 c"
  defines "c' \<equiv> put_block2 bp c"
  shows "bufs c' = bufs c" "buf_hash c' = buf_hash c" "front c' = front c" "rear c' = rear c" "bufs_in_use c' = bufs_in_use c"
    "nr_buf2 c' = nr_buf2 c" "dev_env c' = dev_env c" "buf2_idx c' < nr_buf2 c'"
    "disk c' = (disk c)(DEV_RAM := (disk c DEV_RAM)(blk_pos (of_nat (buf2_idx c)) := b_data (bufs c bp)))"
    "slot_is c' d b j = (if j = buf2_idx c then is_block c d b bp else slot_is c d b j)"
    "order2 c' = buf2_idx c # older2 c"
proof -
  have c: "c' = put_block2 bp c" unfolding c'_def ..
  note d = c put_block2_def dev_io_works [OF assms(1)] Let_def upd_buf2_def transfer_def disk_write_def
  show "bufs c' = bufs c" "buf_hash c' = buf_hash c" "front c' = front c" "rear c' = rear c" "bufs_in_use c' = bufs_in_use c"
    "nr_buf2 c' = nr_buf2 c" "dev_env c' = dev_env c"
    "disk c' = (disk c)(DEV_RAM := (disk c DEV_RAM)(blk_pos (of_nat (buf2_idx c)) := b_data (bufs c bp)))"
    using assms(1,2) by (simp_all add: d dev_io_works)
  show i: "buf2_idx c' < nr_buf2 c'" using assms(1-3) by (simp add: d dev_io_works)
  show "slot_is c' d b j = (if j = buf2_idx c then is_block c d b bp else slot_is c d b j)"
    using assms(1,2) by (auto simp: d dev_io_works slot_is_def is_block_def)
  have ix: "buf2_idx c' = (if buf2_idx c + 1 = nr_buf2 c then 0 else buf2_idx c + 1)" "nr_buf2 c' = nr_buf2 c"
    using assms(1,2) by (simp_all add: d dev_io_works)
  show "order2 c' = buf2_idx c # older2 c"
  proof (cases "Suc (buf2_idx c) = nr_buf2 c")
    case True
    then have "nr_buf2 c = Suc (buf2_idx c)" by simp
    then show ?thesis unfolding order2_def older2_def ix by simp
  next
    case False
    then show ?thesis unfolding order2_def older2_def ix using assms(3) by simp
  qed
qed

lemma older2_member: "j \<in> set (older2 c) \<Longrightarrow> j \<noteq> buf2_idx c \<and> (buf2_idx c < nr_buf2 c \<longrightarrow> j < nr_buf2 c)"
  unfolding older2_def by auto

text \<open>Storing a clean buffer makes the second level cache right for its block.\<close>

definition others :: "cache \<Rightarrow> nat \<Rightarrow> int \<Rightarrow> u32 \<Rightarrow> bool" where
  "others c bp d b \<longleftrightarrow> (\<exists>i < NR_BUFS. i \<noteq> bp \<and> is_block c d b i)"

lemma unat_slot: "j < MAX_BUF2 \<Longrightarrow> unat (of_nat j :: u32) = j"
  by (simp add: unsigned_of_nat take_bit_nat_eq_self)

lemma small_slot: "j < MAX_BUF2 \<Longrightarrow> small (of_nat j)"
  unfolding small_def by (simp add: word_less_nat_alt unat_slot)

lemma slot_pos: "j < MAX_BUF2 \<Longrightarrow> k < MAX_BUF2 \<Longrightarrow> blk_pos (of_nat j) = blk_pos (of_nat k) \<longleftrightarrow> j = k"
proof -
  assume l: "j < MAX_BUF2" "k < MAX_BUF2"
  then have "(of_nat j :: u32) = of_nat k \<longleftrightarrow> j = k"
    by (simp add: word_unat_eq_iff unat_slot)
  with blk_pos_inj [OF small_slot small_slot] l show ?thesis by blast
qed

lemma find_filtered: "(\<And>j. j \<in> set xs \<Longrightarrow> P j = Q j) \<Longrightarrow> find P xs = find Q xs"
  by (induction xs) auto

lemma find_append_Some: "find P xs = Some j \<Longrightarrow> find P (xs @ ys) = Some j"
  by (induction xs) (auto split: if_splits)

lemma put_block2_coh2:
  assumes "io_works (dev_env c)" "ram_ok c" "coh2 c (cached c)" "bp < NR_BUFS" "b_dev (bufs c bp) \<noteq> NO_DEV" "clean_ok c bp"
    "\<not> b_dirt (bufs c bp)"
  shows "coh2 (put_block2 bp c) (others c bp)"
proof (cases "nr_buf2 c = 0")
  case True
  then show ?thesis by (simp add: coh2_def put_block2_def)
next
  case False
  have ix: "buf2_idx c < nr_buf2 c" "nr_buf2 c \<le> MAX_BUF2" using assms(2) False unfolding ram_ok_def by auto
  note s = put_block2_spec [OF assms(1) False ix(1), of bp]
  let ?c = "put_block2 bp c"
  show ?thesis unfolding coh2_def
  proof (intro impI allI)
    fix d b j
    assume a: "d \<noteq> NO_DEV" "d \<noteq> DEV_RAM" "small b" "\<not> others c bp d b" "find (slot_is ?c d b) (order2 ?c) = Some j"
    have e: "disk ?c d (blk_pos b) = disk c d (blk_pos b)" using a(2) unfolding s(9) by simp
    show "disk ?c DEV_RAM (blk_pos (of_nat j)) = disk ?c d (blk_pos b)"
    proof (cases "is_block c d b bp")
      case True
      then have "j = buf2_idx c" using a(5) unfolding s(11) by (simp add: s(10))
      moreover have "b_data (bufs c bp) = disk c d (blk_pos b)"
        using assms(5-7) True unfolding clean_ok_def is_block_def bpos_def by simp
      ultimately show ?thesis unfolding e by (simp add: s(9))
    next
      case False
      then have f: "find (slot_is ?c d b) (older2 c) = Some j" using a(5) unfolding s(11) by (simp add: s(10))
      then have f': "find (slot_is c d b) (older2 c) = Some j"
        using find_filtered [of "older2 c" "slot_is ?c d b" "slot_is c d b"] older2_member by (simp add: s(10))
      have "j \<in> set (older2 c)" using f by (metis find_Some_iff nth_mem)
      then have j: "j \<noteq> buf2_idx c" "j < nr_buf2 c" using older2_member ix(1) by blast+
      have "\<not> cached c d b" using a(4) False unfolding cached_def others_def by blast
      then have "disk c DEV_RAM (blk_pos (of_nat j)) = disk c d (blk_pos b)"
        using assms(3) a(1-3) \<open>nr_buf2 c \<noteq> 0\<close> find_append_Some [OF f', of "[buf2_idx c]"] order2_oldest [OF ix(1)]
        unfolding coh2_def by metis
      moreover have "blk_pos (of_nat j) \<noteq> blk_pos (of_nat (buf2_idx c))" using slot_pos [of j "buf2_idx c"] j ix by simp
      ultimately show ?thesis unfolding e by (simp add: s(9))
    qed
  qed
qed

lemma coh2_mono: "coh2 c K \<Longrightarrow> (\<And>d b. d \<noteq> NO_DEV \<Longrightarrow> K d b \<Longrightarrow> K' d b) \<Longrightarrow> coh2 c K'"
  unfolding coh2_def by blast

subsection \<open>Evicting a buffer\<close>

text \<open>The buffers hold the same blocks, with the same contents and users.\<close>

definition kept :: "cache \<Rightarrow> cache \<Rightarrow> bool" where
  "kept c c' \<longleftrightarrow> (\<forall>i. b_data (bufs c' i) = b_data (bufs c i) \<and> b_blocknr (bufs c' i) = b_blocknr (bufs c i)
      \<and> b_dev (bufs c' i) = b_dev (bufs c i) \<and> b_count (bufs c' i) = b_count (bufs c i))
     \<and> nr_buf2 c' = nr_buf2 c \<and> bufs_in_use c' = bufs_in_use c"

lemma kept_refl [simp]: "kept c c"
  by (simp add: kept_def)

lemma kept_trans: "kept c c1 \<Longrightarrow> kept c1 c2 \<Longrightarrow> kept c c2"
  unfolding kept_def by simp

lemma kept_is_block: "kept c c' \<Longrightarrow> is_block c' = is_block c"
  unfolding kept_def is_block_def by (simp add: fun_eq_iff)

lemma kept_cached: "kept c c' \<Longrightarrow> cached c' = cached c"
  unfolding cached_def by (simp add: kept_is_block fun_eq_iff)

lemma kept_others: "kept c c' \<Longrightarrow> others c' = others c"
  unfolding others_def by (simp add: kept_is_block fun_eq_iff)

lemma blk_same_refl [simp]: "blk_same c c"
  by (simp add: blk_same_def)

lemma blk_same_trans: "blk_same c c1 \<Longrightarrow> blk_same c1 c2 \<Longrightarrow> nr_buf2 c1 = nr_buf2 c \<Longrightarrow> blk_same c c2"
  unfolding blk_same_def visible_def by simp

lemma put_block2_mid:
  assumes "cache_mid c L W H V (cached c) X" "bp < NR_BUFS" "b_dev (bufs c bp) \<noteq> NO_DEV" "bp \<notin> X" "\<not> b_dirt (bufs c bp)"
  shows "cache_mid (put_block2 bp c) L W H V (others (put_block2 bp c) bp) X \<and> kept c (put_block2 bp c)
    \<and> blk_same c (put_block2 bp c) \<and> \<not> b_dirt (bufs (put_block2 bp c) bp)"
proof -
  have m: "lru_ok c L W" "hash_ok c H V" "data_ok c X" "ram_ok c" "coh2 c (cached c)" "io_works (dev_env c)"
    using assms(1) unfolding cache_mid_def by blast+
  have cl: "clean_ok c bp" using m(3) assms(2,4) unfolding data_ok_def by blast
  note co = put_block2_coh2 [OF m(6,4,5) assms(2,3) cl assms(5)]
  show ?thesis
  proof (cases "nr_buf2 c = 0")
    case True
    then have e: "put_block2 bp c = c" by (simp add: put_block2_def)
    show ?thesis using m co assms(5) unfolding e cache_mid_def by simp
  next
    case False
    have ix: "buf2_idx c < nr_buf2 c" and nr: "\<forall>i < NR_BUFS. b_dev (bufs c i) \<noteq> DEV_RAM" using m(4) False unfolding ram_ok_def by auto
    let ?c = "put_block2 bp c"
    note s = put_block2_spec [OF m(6) False ix, of bp]
    have dk: "disk ?c d = disk c d" if "d \<noteq> DEV_RAM" for d using that unfolding s(9) by simp
    have k: "kept c ?c" unfolding kept_def by (simp add: s(1,5,6))
    have "clean_ok ?c i = clean_ok c i" if "i < NR_BUFS" for i
      using dk nr that unfolding clean_ok_def bpos_def s(1) by simp
    then have "data_ok ?c X" using m(3) unfolding data_ok_def uniq_def s(1) by simp
    moreover have "ram_ok ?c" using m(4) s(8) unfolding ram_ok_def s(1,6) by simp
    moreover have "lru_ok ?c L W" using m(1) unfolding lru_ok_def dll_def s(1,3,4,5) .
    moreover have "hash_ok ?c H V" using m(2) unfolding hash_ok_def s(1,2) .
    moreover have "blk_same c ?c"
      using dk False unfolding blk_same_def visible_def blk_def kept_is_block [OF k] s(1) by (auto split: option.split)
    ultimately show ?thesis using co m(6) k assms(5) kept_others [OF k] unfolding cache_mid_def s(1,7) by simp
  qed
qed

lemma evict_mid:
  assumes "cache_mid c L {bp} H {bp} (cached c) X" "bp < NR_BUFS" "bp \<notin> X"
  shows "\<exists>c'. evict bp c = Some c' \<and> cache_mid c' L {bp} H {bp} (others c' bp) X \<and> kept c c' \<and> blk_same c c'
    \<and> (b_dev (bufs c bp) \<noteq> NO_DEV \<longrightarrow> \<not> b_dirt (bufs c' bp))"
proof (cases "b_dev (bufs c bp) = NO_DEV")
  case True
  have "coh2 c (others c bp)"
    by (rule coh2_mono [of c "cached c"]) (use assms(1) True in \<open>auto simp: cache_mid_def cached_def others_def is_block_def\<close>)
  then show ?thesis using assms(1) True unfolding evict_def cache_mid_def by simp
next
  case False
  let ?dev = "b_dev (bufs c bp)"
  have m: "data_ok c X" "io_works (dev_env c)" using assms(1) unfolding cache_mid_def by blast+
  have "\<exists>c1. (if b_dirt (bufs c bp) then flushall ?dev c else Some c) = Some c1 \<and> cache_mid c1 L {bp} H {bp} (cached c1) X
     \<and> kept c c1 \<and> blk_same c c1 \<and> \<not> b_dirt (bufs c1 bp)"
  proof (cases "b_dirt (bufs c bp)")
    case True
    obtain c1 where c1: "flushall ?dev c = Some c1" "flushed ?dev (dirty_set ?dev c) c c1"
      using flushall_writes [OF m(2) pos_inj_data [OF m(1) False]] by blast
    have "kept c c1" using flushed_rest [OF c1(2)] unfolding kept_def rest_same_def by (simp add: flushed_fields [OF c1(2)])
    moreover have "bp \<in> dirty_set ?dev c" using True assms(2) unfolding dirty_set_def by simp
    then have "\<not> b_dirt (bufs c1 bp)" by (simp add: flushed_fields(8) [OF c1(2)])
    moreover have "blk_same c c1" using flush_blk [OF m(1) c1(2) _ _ dirty_dev_set] unfolding blk_same_def visible_def by blast
    ultimately show ?thesis using flush_mid [OF assms(1) False c1(2) dirty_dev_set] c1(1) True by simp
  qed (use assms(1) in simp)
  then obtain c1 where c1: "(if b_dirt (bufs c bp) then flushall ?dev c else Some c) = Some c1"
    "cache_mid c1 L {bp} H {bp} (cached c1) X" "kept c c1" "blk_same c c1" "\<not> b_dirt (bufs c1 bp)" by blast
  have d: "b_dev (bufs c1 bp) \<noteq> NO_DEV" using c1(3) False unfolding kept_def by simp
  note p = put_block2_mid [OF c1(2) assms(2) d assms(3) c1(5)]
  have "evict bp c = Some (put_block2 bp c1)" using c1(1) False unfolding evict_def by simp
  moreover have "nr_buf2 c1 = nr_buf2 c" using c1(3) unfolding kept_def by blast
  ultimately show ?thesis using p kept_trans [OF c1(3)] blk_same_trans [OF c1(4)] by blast
qed

subsection \<open>Naming a buffer\<close>

lemma rehash_fields:
  "bufs (rehash bp dev b c) i = (if i = bp then (bufs c bp)\<lparr>b_dev := dev, b_blocknr := b, b_count := b_count (bufs c bp) + 1,
      b_hash := buf_hash c (hash_key b)\<rparr> else bufs c i)"
  "front (rehash bp dev b c) = front c" "rear (rehash bp dev b c) = rear c" "bufs_in_use (rehash bp dev b c) = bufs_in_use c"
  "nr_buf2 (rehash bp dev b c) = nr_buf2 c" "buf2_idx (rehash bp dev b c) = buf2_idx c" "buf2s (rehash bp dev b c) = buf2s c"
  "disk (rehash bp dev b c) = disk c" "dev_env (rehash bp dev b c) = dev_env c"
  by (simp_all add: rehash_def Let_def upd_buf_def)

lemma rehash_mid:
  assumes "cache_mid c L {bp} H {bp} (others c bp) X" "bp < NR_BUFS" "bp \<notin> X" "b_count (bufs c bp) = 0"
    "dev = NO_DEV \<or> \<not> others c bp dev b" "small b" "dev = DEV_RAM \<longrightarrow> nr_buf2 c = 0"
  shows "\<exists>H'. cache_mid (rehash bp dev b c) L {} H' {} (others (rehash bp dev b c) bp) (insert bp X)"
proof -
  let ?c = "rehash bp dev b c"
  note f = rehash_fields [of bp dev b c]
  have m: "lru_ok c L {bp}" "hash_ok c H {bp}" "data_ok c X" "ram_ok c" "coh2 c (others c bp)" "io_works (dev_env c)"
    using assms(1) unfolding cache_mid_def by blast+
  obtain H' where h: "hash_ok ?c H' {}" using rehash_hash_ok [OF m(2) assms(2)] by blast
  have nx: "nextf ?c = nextf c" "prevf ?c = prevf c" by (auto simp: fun_eq_iff f)
  have "set L = {i. i < NR_BUFS \<and> i \<notin> {} \<and> b_count (bufs ?c i) = 0}"
    using m(1) assms(4) unfolding lru_ok_def f by (auto split: if_splits)
  then have l: "lru_ok ?c L {}" using m(1) unfolding lru_ok_def dll_def nx f(2-4) by blast
  have o: "others ?c bp = others c bp" unfolding others_def is_block_def f by (auto simp: fun_eq_iff)
  have u: "uniq ?c" unfolding uniq_def
  proof (intro allI impI)
    fix i j
    assume a: "i < NR_BUFS" "j < NR_BUFS" "b_dev (bufs ?c i) \<noteq> NO_DEV" "b_dev (bufs ?c i) = b_dev (bufs ?c j)" "b_blocknr (bufs ?c i) = b_blocknr (bufs ?c j)"
    have n: "is_block c dev b k \<Longrightarrow> k < NR_BUFS \<Longrightarrow> k \<noteq> bp \<Longrightarrow> dev = NO_DEV" for k using assms(5) unfolding others_def by blast
    show "i = j"
    proof (cases "i = bp \<or> j = bp")
      case True
      show ?thesis
      proof (rule ccontr)
        assume "i \<noteq> j"
        with True consider "i = bp" "j \<noteq> bp" | "j = bp" "i \<noteq> bp" by blast
        then show False using a n [of i] n [of j] unfolding f is_block_def by cases auto
      qed
    next
      case False
      then show ?thesis using a m(3) unfolding f data_ok_def uniq_def by simp
    qed
  qed
  have "clean_ok ?c i = clean_ok c i" if "i \<noteq> bp" for i using that unfolding clean_ok_def bpos_def f by simp
  then have "data_ok ?c (insert bp X)" using m(3) u assms(4,6) unfolding data_ok_def by (simp add: f(1))
  moreover have "ram_ok ?c" using m(4) assms(7) unfolding ram_ok_def f by auto
  moreover have "coh2 ?c (others ?c bp)"
  proof -
    have "slot_is ?c = slot_is c" "order2 ?c = order2 c" by (simp_all add: fun_eq_iff slot_is_def order2_def f)
    then show ?thesis using m(5) unfolding o coh2_def f by simp
  qed
  ultimately show ?thesis using l h m(6) unfolding cache_mid_def f by blast
qed

lemma cached_others: "cached c d b \<longleftrightarrow> others c bp d b \<or> (bp < NR_BUFS \<and> is_block c d b bp)"
  unfolding cached_def others_def by blast

text \<open>The other blocks keep their contents; the victim's block is now on the device only.\<close>

lemma rehash_blk:
  assumes "data_ok c X" "uniq (rehash bp dev b c)" "bp < NR_BUFS" "bp \<notin> X" "d \<noteq> NO_DEV" "(d, b') \<noteq> (dev, b)"
    "b_dev (bufs c bp) \<noteq> NO_DEV \<longrightarrow> \<not> b_dirt (bufs c bp)"
  shows "blk (rehash bp dev b c) d b' = blk c d b'"
proof -
  let ?c = "rehash bp dev b c"
  note f = rehash_fields [of bp dev b c]
  have i: "is_block ?c d b' k \<longleftrightarrow> k \<noteq> bp \<and> is_block c d b' k" for k
    using assms(6) unfolding is_block_def f by auto
  have o: "cached ?c d b' \<longleftrightarrow> others c bp d b'" unfolding cached_def others_def i by blast
  have u: "uniq c" using assms(1) unfolding data_ok_def by blast
  show ?thesis
  proof (cases "others c bp d b'")
    case True
    then obtain k where k: "k < NR_BUFS" "k \<noteq> bp" "is_block c d b' k" unfolding others_def by blast
    then have "is_block ?c d b' k" using i by blast
    with k blk_cached [OF u k(1,3) assms(5)] blk_cached [OF assms(2) k(1) _ assms(5)] show ?thesis by (simp add: f(1))
  next
    case False
    then have e: "blk ?c d b' = disk c d (blk_pos b')" using blk_uncached [of ?c d b'] o by (simp add: f)
    show ?thesis
    proof (cases "is_block c d b' bp")
      case True
      have "clean_ok c bp" using assms(1,3,4) unfolding data_ok_def by blast
      then have "b_data (bufs c bp) = disk c d (blk_pos b')"
        using True assms(5,7) unfolding clean_ok_def bpos_def is_block_def by auto
      with blk_cached [OF u assms(3) True assms(5)] e show ?thesis by simp
    next
      case False
      with \<open>\<not> others c bp d b'\<close> have "\<not> cached c d b'" using cached_others by blast
      with blk_uncached e show ?thesis by simp
    qed
  qed
qed

end
