(* ===== verification/FS_Cache_Spec.thy ===== *)
theory FS_Cache_Spec
  imports FS_Cache_Get
begin

text \<open>The contracts of \<^verbatim>\<open>get_block()\<close> and \<^verbatim>\<open>put_block()\<close>.\<close>

subsection \<open>Taking a buffer for a block that is not cached\<close>

text \<open>The buffer \<open>bp\<close> was free and is now named \<open>(dev, b)\<close>; nothing else changed hands.\<close>

definition taken :: "cache \<Rightarrow> nat \<Rightarrow> int \<Rightarrow> u32 \<Rightarrow> cache \<Rightarrow> bool" where
  "taken c bp dev b c' \<longleftrightarrow> bp < NR_BUFS \<and> b_count (bufs c bp) = 0 \<and> b_count (bufs c' bp) = 1 \<and> is_block c' dev b bp
     \<and> (\<forall>i. i \<noteq> bp \<longrightarrow> b_data (bufs c' i) = b_data (bufs c i) \<and> b_blocknr (bufs c' i) = b_blocknr (bufs c i)
          \<and> b_dev (bufs c' i) = b_dev (bufs c i) \<and> b_count (bufs c' i) = b_count (bufs c i))
     \<and> nr_buf2 c' = nr_buf2 c \<and> bufs_in_use c' = bufs_in_use c + 1"

lemma unhash_mid:
  assumes "cache_mid c L {bp} H {} (cached c) X" "bp < NR_BUFS"
  shows "\<exists>c' H'. unhash bp c = Some c' \<and> cache_mid c' L {bp} H' {bp} (cached c') X \<and> same_data c c' \<and> bufs_in_use c' = bufs_in_use c"
proof -
  have m: "lru_ok c L {bp}" "hash_ok c H {}" using assms(1) unfolding cache_mid_def by blast+
  obtain c' H' f g where u: "unhash bp c = Some c'" "hash_ok c' H' {bp}" "c' = c\<lparr>bufs := f, buf_hash := g\<rparr>"
    "\<forall>i. \<exists>x. bufs c' i = (bufs c i)\<lparr>b_hash := x\<rparr>"
    using unhash_ok [OF m(2) assms(2)] by blast
  have b: "b_data (bufs c' i) = b_data (bufs c i)" "b_blocknr (bufs c' i) = b_blocknr (bufs c i)" "b_dev (bufs c' i) = b_dev (bufs c i)"
    "b_dirt (bufs c' i) = b_dirt (bufs c i)" "b_count (bufs c' i) = b_count (bufs c i)" "b_next (bufs c' i) = b_next (bufs c i)"
    "b_prev (bufs c' i) = b_prev (bufs c i)" for i
    using u(4) [rule_format, of i] by (elim exE, simp)+
  have r: "front c' = front c" "rear c' = rear c" "bufs_in_use c' = bufs_in_use c" "buf2s c' = buf2s c" "nr_buf2 c' = nr_buf2 c"
    "buf2_idx c' = buf2_idx c" "disk c' = disk c" "dev_env c' = dev_env c"
    unfolding u(3) by simp_all
  have s: "same_data c c'" unfolding same_data_def by (simp add: b r)
  have "lru_ok c' L {bp}" using m(1) unfolding lru_ok_def dll_def by (simp add: b r)
  then have "cache_mid c' L {bp} H' {bp} (cached c') X"
    using u(2) assms(1) unfolding cache_mid_def same_data_facts [OF s] by blast
  then show ?thesis using u(1) s r(3) by blast
qed

lemma rm_lru_mid:
  assumes "cache_mid c (us @ bp # vs) {} H {} K X"
  shows "cache_mid (rm_lru bp c) (us @ vs) {bp} H {} K X \<and> same_data c (rm_lru bp c) \<and> bufs_in_use (rm_lru bp c) = bufs_in_use c + 1"
proof -
  have m: "lru_ok c (us @ bp # vs) {}" "hash_ok c H {}" using assms unfolding cache_mid_def by blast+
  have dl: "dll c (us @ bp # vs)" using m(1) unfolding lru_ok_def by blast
  note s = relinked_same_data [OF rm_lru_relinked(1) [of c bp]]
  note r = rm_lru_relinked [where c = c and x = bp]
  have d: "distinct (us @ bp # vs)" using dll_distinct [OF dl] .
  have h: "buf_hash (rm_lru bp c) = buf_hash c" "b_hash (bufs (rm_lru bp c) i) = b_hash (bufs c i)" for i
    using r(1) unlinked_fields(2) [of "bufs (rm_lru bp c) i" "bufs c i"] unfolding relinked_def by simp_all
  have cnt: "b_count (bufs (rm_lru bp c) i) = b_count (bufs c i)" for i using s unfolding same_data_def by blast
  have "set (us @ vs) = {i. i < NR_BUFS \<and> i \<notin> {bp} \<and> b_count (bufs (rm_lru bp c) i) = 0}"
    using m(1) d unfolding lru_ok_def cnt by auto
  then have "lru_ok (rm_lru bp c) (us @ vs) {bp}"
    using m(1) rm_lru_dll [OF dl] r(2) unfolding lru_ok_def by simp
  moreover have "hash_ok (rm_lru bp c) H {}"
    by (rule hash_ok_cong [OF m(2)]) (use h s in \<open>simp_all add: same_data_def\<close>)
  ultimately show ?thesis using s r(2) assms unfolding cache_mid_def same_data_facts [OF s] by blast
qed

lemma lru_free: "lru_ok c L {} \<Longrightarrow> bufs_in_use c < int NR_BUFS \<Longrightarrow> \<exists>bp vs. L = bp # vs \<and> front c = Some bp \<and> bp < NR_BUFS \<and> b_count (bufs c bp) = 0"
  using dll_front [of c L] unfolding lru_ok_def by (cases L) auto

lemma get_new_start:
  assumes "cache_inv c X" "bufs_in_use c < int NR_BUFS" "small b" "dev = NO_DEV \<or> \<not> cached c dev b" "dev = DEV_RAM \<longrightarrow> nr_buf2 c = 0"
  shows "\<exists>bp c' L H. get_new dev b s c = do { c4 \<leftarrow> (if dev \<noteq> NO_DEV then fill_block bp s c' else Some c'); Some (bp, c4) }
    \<and> taken c bp dev b c' \<and> bp \<notin> X \<and> cache_mid c' L {} H {} (others c' bp) (insert bp X)
    \<and> (\<forall>d b'. visible c d \<longrightarrow> small b' \<longrightarrow> (d, b') \<noteq> (dev, b) \<longrightarrow> blk c' d b' = blk c d b')
    \<and> (dev \<noteq> NO_DEV \<longrightarrow> disk c' dev (blk_pos b) = blk c dev b \<and> \<not> others c' bp dev b)"
proof -
  obtain L H where m: "cache_mid c L {} H {} (cached c) X" using assms(1) unfolding cache_inv_def by blast
  obtain bp vs where bp: "L = bp # vs" "front c = Some bp" "bp < NR_BUFS" "b_count (bufs c bp) = 0"
    using lru_free assms(2) m unfolding cache_mid_def by blast
  have X: "bp \<notin> X" using m bp(4) unfolding cache_mid_def data_ok_def by blast
  define c1 where "c1 = rm_lru bp c"
  have 1: "cache_mid c1 vs {bp} H {} (cached c) X" "same_data c c1" "bufs_in_use c1 = bufs_in_use c + 1"
    using rm_lru_mid [of c "[]" bp vs] m bp(1) unfolding c1_def by auto
  note f1 = same_data_facts [OF 1(2)]
  obtain c2 H2 where 2: "unhash bp c1 = Some c2" "cache_mid c2 vs {bp} H2 {bp} (cached c2) X" "same_data c1 c2" "bufs_in_use c2 = bufs_in_use c1"
    using unhash_mid [of c1] 1(1) bp(3) f1(3) by metis
  note f2 = same_data_facts [OF 2(3)]
  obtain c3 where 3: "evict bp c2 = Some c3" "cache_mid c3 vs {bp} H2 {bp} (others c3 bp) X" "kept c2 c3" "blk_same c2 c3"
    "b_dev (bufs c2 bp) \<noteq> NO_DEV \<longrightarrow> \<not> b_dirt (bufs c3 bp)"
    using evict_mid [OF 2(2) bp(3) X] by blast
  have k: "b_data (bufs c3 i) = b_data (bufs c i)" "b_blocknr (bufs c3 i) = b_blocknr (bufs c i)" "b_dev (bufs c3 i) = b_dev (bufs c i)"
    "b_count (bufs c3 i) = b_count (bufs c i)" "nr_buf2 c3 = nr_buf2 c" for i
    using 1(2) 2(3) 3(3) unfolding same_data_def kept_def by simp_all
  have ib: "is_block c3 = is_block c" by (simp add: fun_eq_iff is_block_def k)
  then have ca: "cached c3 = cached c" by (simp add: fun_eq_iff cached_def)
  define c' where "c' = rehash bp dev b c3"
  note f = rehash_fields [of bp dev b c3, folded c'_def]
  have n: "dev = NO_DEV \<or> \<not> others c3 bp dev b" using assms(4) cached_others [of c3] unfolding ca by blast
  obtain H' where 4: "cache_mid c' vs {} H' {} (others c' bp) (insert bp X)"
    using rehash_mid [OF 3(2) bp(3) X _ n assms(3)] assms(5) bp(4) unfolding c'_def k by blast
  have new: "get_new dev b s c = do { c4 \<leftarrow> (if dev \<noteq> NO_DEV then fill_block bp s c' else Some c'); Some (bp, c4) }"
    unfolding get_new_def by (simp add: bp(2) 2(1) [unfolded c1_def] 3(1) c'_def)
  have t: "taken c bp dev b c'"
    unfolding taken_def is_block_def using 1(3) 2(4) 3(3) bp(3,4) by (simp add: f k kept_def)
  have v: "blk c3 d b' = blk c d b'" if "visible c d" "small b'" for d b'
    using 3(4) that unfolding blk_same_def f2 f1 by blast
  have "blk c' d b' = blk c d b'" if a: "visible c d" "small b'" "(d, b') \<noteq> (dev, b)" for d b'
  proof -
    have "data_ok c3 X" "uniq c'" "d \<noteq> NO_DEV" using 3(2) 4 a(1) unfolding cache_mid_def data_ok_def visible_def by blast+
    moreover have "b_dev (bufs c3 bp) \<noteq> NO_DEV \<longrightarrow> \<not> b_dirt (bufs c3 bp)" using 3(3,5) unfolding kept_def by simp
    ultimately have "blk c' d b' = blk c3 d b'" using rehash_blk [OF _ _ bp(3) X _ a(3)] unfolding c'_def by blast
    then show ?thesis using v a(1,2) by simp
  qed
  moreover have "disk c' dev (blk_pos b) = blk c dev b \<and> \<not> others c' bp dev b" if d: "dev \<noteq> NO_DEV"
  proof -
    have vis: "visible c dev" using assms(5) d unfolding visible_def by blast
    have "\<not> cached c3 dev b" using assms(4) d unfolding ca by blast
    then have "disk c' dev (blk_pos b) = blk c3 dev b" using blk_uncached by (simp add: f)
    moreover have "\<not> others c' bp dev b" using n d unfolding others_def is_block_def f by auto
    ultimately show ?thesis using v [OF vis assms(3)] by simp
  qed
  ultimately show ?thesis using new t X 4 by blast
qed

subsection \<open>Filling the buffer\<close>

lemma get_block2_spec:
  assumes "cache_mid c L {} H {} (others c bp) X" "is_block c dev b bp" "\<not> others c bp dev b" "dev \<noteq> NO_DEV" "small b"
    "dev = DEV_RAM \<longrightarrow> nr_buf2 c = 0"
  shows "\<exists>got c'. get_block2 bp s c = Some (got, c') \<and> (\<not> got \<longrightarrow> c' = c)
    \<and> (got \<longrightarrow> s \<noteq> NO_READ \<and> (\<exists>h. c' = (upd_buf bp (\<lambda>x. x\<lparr>b_data := disk c dev (blk_pos b)\<rparr>) c)\<lparr>dev_hist := h\<rparr>))"
proof -
  have m: "ram_ok c" "coh2 c (others c bp)" "io_works (dev_env c)" using assms(1) unfolding cache_mid_def by blast+
  have id: "b_dev (bufs c bp) = dev" "b_blocknr (bufs c bp) = b" using assms(2) unfolding is_block_def by blast+
  have e: "(if dev = DEV_RAM then c\<lparr>nr_buf2 := 0\<rparr> else c) = c" using assms(6) by (cases c) auto
  let ?no = "nr_buf2 c = 0 \<or> s = NO_READ \<or> b2_count (buf2s c (hash2 b)) = 0"
  show ?thesis
  proof (cases ?no)
    case True
    then have "get_block2 bp s c = Some (False, c)" unfolding get_block2_def id by (simp add: e Let_def)
    then show ?thesis by blast
  next
    case False
    have ix: "buf2_idx c < nr_buf2 c" using m(1) False unfolding ram_ok_def by auto
    have g: "get_block2 bp s c = (case find (slot_is c dev b) (order2 c) of None \<Rightarrow> Some (False, c)
        | Some j \<Rightarrow> let (x, c2) = dev_io READING DEV_RAM bp (blk_pos (of_nat j)) c in Some (x = BLOCK_SIZE, c2))"
      unfolding get_block2_def id using False by (simp add: e Let_def find2_finds [OF ix] cong: option.case_cong)
    show ?thesis
    proof (cases "find (slot_is c dev b) (order2 c)")
      case None
      then have "get_block2 bp s c = Some (False, c)" using g by simp
      then show ?thesis by blast
    next
      case (Some j)
      have nr: "nr_buf2 c \<noteq> 0" using False by simp
      have "dev \<noteq> DEV_RAM" using assms(6) nr by blast
      then have d: "disk c DEV_RAM (blk_pos (of_nat j)) = disk c dev (blk_pos b)"
        using m(2) nr assms(3-5) Some unfolding coh2_def by blast
      have "get_block2 bp s c = Some (True, (upd_buf bp (\<lambda>x. x\<lparr>b_data := disk c dev (blk_pos b)\<rparr>) c)
          \<lparr>dev_hist := dev_hist c @ [DevIO READING DEV_RAM (blk_pos (of_nat j))]\<rparr>)"
        unfolding g using Some by (simp add: dev_io_works [OF m(3)] transfer_def upd_buf_def d)
      then show ?thesis using False by blast
    qed
  qed
qed

text \<open>\<open>refilled bp x c c'\<close>: \<open>bp\<close> was given the contents \<open>x\<close>.\<close>

definition refilled :: "nat \<Rightarrow> block \<Rightarrow> cache \<Rightarrow> cache \<Rightarrow> bool" where
  "refilled bp x c c' \<longleftrightarrow> (\<exists>y. bufs c' = (bufs c)(bp := (bufs c bp)\<lparr>b_data := x, b_dirt := y\<rparr>)) \<and> disk c' = disk c \<and> rest_same c c'"

lemma refilled_fields:
  assumes "refilled bp x c c'"
  shows "b_data (bufs c' i) = (if i = bp then x else b_data (bufs c i))" "b_blocknr (bufs c' i) = b_blocknr (bufs c i)"
    "b_dev (bufs c' i) = b_dev (bufs c i)" "b_count (bufs c' i) = b_count (bufs c i)" "b_hash (bufs c' i) = b_hash (bufs c i)"
    "b_next (bufs c' i) = b_next (bufs c i)" "b_prev (bufs c' i) = b_prev (bufs c i)"
    "i \<noteq> bp \<Longrightarrow> b_dirt (bufs c' i) = b_dirt (bufs c i)" "disk c' = disk c" "rest_same c c'"
  using assms unfolding refilled_def by auto

lemma fill_normal:
  assumes "cache_mid c L {} H {} (others c bp) X" "is_block c dev b bp" "\<not> others c bp dev b" "dev \<noteq> NO_DEV" "small b"
    "dev = DEV_RAM \<longrightarrow> nr_buf2 c = 0"
  shows "\<exists>c'. fill_block bp NORMAL c = Some c' \<and> refilled bp (disk c dev (blk_pos b)) c c'"
proof -
  obtain got c1 where g: "get_block2 bp NORMAL c = Some (got, c1)" "\<not> got \<longrightarrow> c1 = c"
    "got \<longrightarrow> (\<exists>h. c1 = (upd_buf bp (\<lambda>x. x\<lparr>b_data := disk c dev (blk_pos b)\<rparr>) c)\<lparr>dev_hist := h\<rparr>)"
    using get_block2_spec [OF assms, of NORMAL] by blast
  have w: "io_works (dev_env c)" using assms(1) unfolding cache_mid_def by blast
  show ?thesis
  proof (cases got)
    case True
    then obtain h where h: "c1 = (upd_buf bp (\<lambda>x. x\<lparr>b_data := disk c dev (blk_pos b)\<rparr>) c)\<lparr>dev_hist := h\<rparr>" using g(3) by blast
    have "refilled bp (disk c dev (blk_pos b)) c c1" unfolding refilled_def rest_same_def h
      by (auto simp: upd_buf_def intro!: exI [of _ "b_dirt (bufs c bp)"])
    then show ?thesis using g(1) True unfolding fill_block_def by simp
  next
    case False
    have "refilled bp (disk c dev (blk_pos b)) c (rw_block bp READING c)"
      using assms(2,4) unfolding refilled_def rest_same_def rw_block_def is_block_def
      by (auto simp: dev_io_works [OF w] transfer_def upd_buf_def intro!: exI [of _ False])
    then show ?thesis using g(1,2) False unfolding fill_block_def by simp
  qed
qed

lemma refilled_mid:
  assumes "cache_mid c L {} H {} (others c bp) (insert bp X)" "refilled bp x c c'" "is_block c dev b bp" "bp < NR_BUFS"
    "x = disk c dev (blk_pos b) \<and> X' = X \<or> X' = insert bp X"
  shows "cache_mid c' L {} H {} (cached c') X'"
proof -
  note f = refilled_fields [OF assms(2)]
  have r: "front c' = front c" "rear c' = rear c" "bufs_in_use c' = bufs_in_use c" "buf2s c' = buf2s c" "nr_buf2 c' = nr_buf2 c"
    "buf2_idx c' = buf2_idx c" "dev_env c' = dev_env c" "buf_hash c' = buf_hash c"
    using f(10) unfolding rest_same_def by blast+
  have m: "lru_ok c L {}" "hash_ok c H {}" "data_ok c (insert bp X)" "ram_ok c" "coh2 c (others c bp)" "io_works (dev_env c)"
    using assms(1) unfolding cache_mid_def by blast+
  have b: "is_block c' = is_block c" by (simp add: fun_eq_iff is_block_def f)
  have "lru_ok c' L {}" using m(1) unfolding lru_ok_def dll_def f r .
  moreover have "hash_ok c' H {}" by (rule hash_ok_cong [OF m(2)]) (simp_all add: f r)
  moreover have "ram_ok c'" using m(4) unfolding ram_ok_def f r .
  moreover have "coh2 c' (cached c')"
  proof -
    have "slot_is c' = slot_is c" "order2 c' = order2 c" by (simp_all add: fun_eq_iff slot_is_def order2_def r)
    then have "coh2 c' = coh2 c" unfolding coh2_def f r by simp
    moreover have "coh2 c (cached c')" by (rule coh2_mono [OF m(5)]) (auto simp: cached_def others_def b)
    ultimately show ?thesis by simp
  qed
  moreover have "data_ok c' X'"
  proof -
    have "clean_ok c' i" if i: "i < NR_BUFS" "i \<notin> X'" for i
    proof (cases "i = bp")
      case True
      then have "x = disk c dev (blk_pos b)" using assms(5) i by blast
      then show ?thesis using assms(3) True unfolding clean_ok_def bpos_def is_block_def by (simp add: f)
    next
      case False
      then have "clean_ok c i" using m(3) i assms(5) unfolding data_ok_def by blast
      then show ?thesis unfolding clean_ok_def bpos_def using False by (simp add: f)
    qed
    moreover have "X' \<subseteq> insert bp X" using assms(5) by blast
    ultimately show ?thesis using m(3) unfolding data_ok_def uniq_def f by blast
  qed
  ultimately show ?thesis using m(6) unfolding cache_mid_def r by blast
qed

lemma refilled_blk:
  assumes "uniq c" "refilled bp x c c'" "is_block c dev b bp" "(d, b') \<noteq> (dev, b)"
  shows "blk c' d b' = blk c d b'"
proof -
  note f = refilled_fields [OF assms(2)]
  have b: "is_block c' = is_block c" by (simp add: fun_eq_iff is_block_def f)
  have n: "\<not> is_block c d b' bp" using assms(3,4) unfolding is_block_def by auto
  have "i \<noteq> bp" if "find (is_block c d b') [0..<NR_BUFS] = Some i" for i using that n by (auto simp: find_Some_iff)
  then show ?thesis unfolding blk_def b f(9) by (auto simp: f(1) split: option.split)
qed

subsection \<open>The contract of get block\<close>

text \<open>
  \<open>got c dev b i c'\<close>: buffer \<open>i\<close> is the block \<open>(dev, b)\<close> and has one user more; blocks in use stay in
  their buffers, with their contents.
\<close>

definition got :: "cache \<Rightarrow> int \<Rightarrow> u32 \<Rightarrow> nat \<Rightarrow> cache \<Rightarrow> bool" where
  "got c dev b i c' \<longleftrightarrow> i < NR_BUFS \<and> is_block c' dev b i
     \<and> (\<forall>j < NR_BUFS. b_count (bufs c' j) = b_count (bufs c j) + (if j = i then 1 else 0))
     \<and> (\<forall>j < NR_BUFS. b_count (bufs c j) \<noteq> 0 \<longrightarrow> b_data (bufs c' j) = b_data (bufs c j)
           \<and> b_blocknr (bufs c' j) = b_blocknr (bufs c j) \<and> b_dev (bufs c' j) = b_dev (bufs c j))
     \<and> nr_buf2 c' = nr_buf2 c \<and> bufs_in_use c' = bufs_in_use c + (if b_count (bufs c i) = 0 then 1 else 0)"

lemma count_pos: "cache_inv c X \<Longrightarrow> i < NR_BUFS \<Longrightarrow> 0 \<le> b_count (bufs c i)"
  unfolding cache_inv_def cache_mid_def data_ok_def by blast

text \<open>A block that is cached.\<close>

lemma get_cached:
  assumes "cache_inv c X" "dev \<noteq> NO_DEV" "cached c dev b"
  shows "\<exists>i c'. get_block dev b s c = Some (i, c') \<and> got c dev b i c' \<and> cache_inv c' X \<and> blk_same c c'
    \<and> b_data (bufs c' i) = blk c dev b"
proof -
  obtain L H where m: "cache_mid c L {} H {} (cached c) X" using assms(1) unfolding cache_inv_def by blast
  then have m': "lru_ok c L {}" "hash_ok c H {}" "data_ok c X" unfolding cache_mid_def by blast+
  obtain r where "find_block dev b c = Some r" "case r of None \<Rightarrow> \<forall>i < NR_BUFS. \<not> is_block c dev b i | Some i \<Rightarrow> i < NR_BUFS \<and> is_block c dev b i"
    using find_block_Some [OF m'(2)] by blast
  then obtain i where i: "find_block dev b c = Some (Some i)" "i < NR_BUFS" "is_block c dev b i"
    using assms(3) unfolding cached_def by (cases r) auto
  define c1 where "c1 = (if b_count (bufs c i) = 0 then rm_lru i c else c)"
  define c' where "c' = upd_buf i (\<lambda>b. b\<lparr>b_count := b_count b + 1\<rparr>) c1"
  have g: "get_block dev b s c = Some (i, c')" unfolding get_block_def using i(1) assms(2) by (simp add: c'_def c1_def)
  obtain L1 where c1: "cache_mid c1 L1 (if b_count (bufs c i) = 0 then {i} else {}) H {} (cached c) X" "same_data c c1"
    "bufs_in_use c1 = bufs_in_use c + (if b_count (bufs c i) = 0 then 1 else 0)"
  proof (cases "b_count (bufs c i) = 0")
    case True
    then have "i \<in> set L" using m'(1) i(2) unfolding lru_ok_def by simp
    then obtain us vs where L: "L = us @ i # vs" by (auto simp: in_set_conv_decomp)
    from rm_lru_mid [OF m [unfolded L]] True that [of "us @ vs"] show ?thesis unfolding c1_def by simp
  next
    case False
    then show ?thesis using m that [of L] unfolding c1_def by (simp add: same_data_def)
  qed
  note f1 = same_data_facts [OF c1(2)]
  have b: "b_data (bufs c' j) = b_data (bufs c j)" "b_blocknr (bufs c' j) = b_blocknr (bufs c j)" "b_dev (bufs c' j) = b_dev (bufs c j)"
    "b_dirt (bufs c' j) = b_dirt (bufs c j)" "b_count (bufs c' j) = b_count (bufs c j) + (if j = i then 1 else 0)" for j
    using c1(2) unfolding c'_def same_data_def by (simp_all add: upd_buf_def)
  have l: "b_next (bufs c' j) = b_next (bufs c1 j)" "b_prev (bufs c' j) = b_prev (bufs c1 j)" "b_hash (bufs c' j) = b_hash (bufs c1 j)" for j
    unfolding c'_def by (simp_all add: upd_buf_def)
  have r1: "front c' = front c1" "rear c' = rear c1" "buf_hash c' = buf_hash c1" "bufs_in_use c' = bufs_in_use c1"
    unfolding c'_def by (simp_all add: upd_buf_def)
  have r: "buf2s c' = buf2s c" "nr_buf2 c' = nr_buf2 c" "buf2_idx c' = buf2_idx c" "disk c' = disk c" "dev_env c' = dev_env c"
    using c1(2) unfolding c'_def same_data_def by (simp_all add: upd_buf_def)
  have ib: "is_block c' = is_block c" by (simp add: fun_eq_iff is_block_def b)
  have bk: "blk c' d p = blk c d p" for d p unfolding blk_def ib b r by (rule refl)
  have ca: "cached c' = cached c" by (simp add: fun_eq_iff cached_def ib)
  have n: "0 \<le> b_count (bufs c i)" using count_pos [OF assms(1) i(2)] .
  have m1: "lru_ok c1 L1 (if b_count (bufs c i) = 0 then {i} else {})" "hash_ok c1 H {}" using c1(1) unfolding cache_mid_def by blast+
  have cnt1: "b_count (bufs c1 j) = b_count (bufs c j)" for j using c1(2) unfolding same_data_def by blast
  have "set L1 = {j. j < NR_BUFS \<and> j \<notin> {} \<and> b_count (bufs c' j) = 0}"
    using m1(1) n unfolding lru_ok_def b cnt1 by (auto split: if_splits)
  then have "lru_ok c' L1 {}" using m1(1) unfolding lru_ok_def dll_def l r1 by blast
  moreover have "hash_ok c' H {}"
    by (rule hash_ok_cong [OF m1(2) r1(3) l(3)]) (use c1(2) b in \<open>simp add: same_data_def\<close>)
  moreover have "clean_ok c' = clean_ok c" by (simp add: fun_eq_iff clean_ok_def bpos_def b r)
  then have "data_ok c' X" using m'(3) n unfolding data_ok_def uniq_def b by auto
  moreover have "ram_ok c'" using m unfolding cache_mid_def ram_ok_def b r by blast
  moreover have "coh2 c' (cached c')"
  proof -
    have "slot_is c' = slot_is c" "order2 c' = order2 c" by (simp_all add: fun_eq_iff slot_is_def order2_def r)
    then show ?thesis using m unfolding cache_mid_def coh2_def r ca by simp
  qed
  ultimately have "cache_inv c' X" using m unfolding cache_inv_def cache_mid_def r by blast
  moreover have "got c dev b i c'" unfolding got_def ib using i(2,3) by (simp add: b r r1(4) c1(3))
  moreover have "b_data (bufs c' i) = blk c dev b"
    using blk_cached [OF _ i(2,3) assms(2)] m'(3) unfolding b data_ok_def by simp
  ultimately show ?thesis using g bk unfolding blk_same_def by blast
qed

lemma get_uncached: "cache_inv c X \<Longrightarrow> dev = NO_DEV \<or> \<not> cached c dev b \<Longrightarrow> get_block dev b s c = get_new dev b s c"
proof -
  assume a: "cache_inv c X" "dev = NO_DEV \<or> \<not> cached c dev b"
  then obtain H where "hash_ok c H {}" unfolding cache_inv_def cache_mid_def by blast
  from find_block_Some [OF this, of dev b] obtain r where r: "find_block dev b c = Some r"
    "case r of None \<Rightarrow> \<forall>i < NR_BUFS. \<not> is_block c dev b i | Some i \<Rightarrow> i < NR_BUFS \<and> is_block c dev b i" by blast
  have "r = None" if "dev \<noteq> NO_DEV" using r(2) a(2) that unfolding cached_def by (cases r) auto
  then show ?thesis unfolding get_block_def using r(1) by simp
qed

lemma taken_got:
  assumes "taken c bp dev b c1" "\<And>i. i \<noteq> bp \<Longrightarrow> bufs c' i = bufs c1 i" "is_block c' dev b bp"
    "b_count (bufs c' bp) = b_count (bufs c1 bp)" "nr_buf2 c' = nr_buf2 c1" "bufs_in_use c' = bufs_in_use c1"
  shows "got c dev b bp c'"
  unfolding got_def
proof (intro conjI)
  show "\<forall>j < NR_BUFS. b_count (bufs c' j) = b_count (bufs c j) + (if j = bp then 1 else 0)"
    using assms(1,2,4) unfolding taken_def by simp
  show "\<forall>j < NR_BUFS. b_count (bufs c j) \<noteq> 0 \<longrightarrow> b_data (bufs c' j) = b_data (bufs c j)
           \<and> b_blocknr (bufs c' j) = b_blocknr (bufs c j) \<and> b_dev (bufs c' j) = b_dev (bufs c j)"
    using assms(1,2) unfolding taken_def by metis
qed (use assms in \<open>simp_all add: taken_def\<close>)

theorem get_block_normal:
  assumes "cache_inv c X" "visible c dev" "small b" "bufs_in_use c < int NR_BUFS"
  shows "\<exists>i c'. get_block dev b NORMAL c = Some (i, c') \<and> got c dev b i c' \<and> cache_inv c' X \<and> blk_same c c'
    \<and> b_data (bufs c' i) = blk c dev b"
proof (cases "cached c dev b")
  case True
  then show ?thesis using get_cached [OF assms(1)] assms(2) unfolding visible_def by blast
next
  case False
  have d: "dev \<noteq> NO_DEV" "dev = DEV_RAM \<longrightarrow> nr_buf2 c = 0" using assms(2) unfolding visible_def by auto
  obtain bp c1 L H where n: "get_new dev b NORMAL c = do { c4 \<leftarrow> (if dev \<noteq> NO_DEV then fill_block bp NORMAL c1 else Some c1); Some (bp, c4) }"
    "taken c bp dev b c1" "bp \<notin> X" "cache_mid c1 L {} H {} (others c1 bp) (insert bp X)"
    "\<forall>d b'. visible c d \<longrightarrow> small b' \<longrightarrow> (d, b') \<noteq> (dev, b) \<longrightarrow> blk c1 d b' = blk c d b'"
    "dev \<noteq> NO_DEV \<longrightarrow> disk c1 dev (blk_pos b) = blk c dev b \<and> \<not> others c1 bp dev b"
    using get_new_start [OF assms(1,4,3) disjI2 [OF False] d(2), of NORMAL] by blast
  have t: "bp < NR_BUFS" "is_block c1 dev b bp" "nr_buf2 c1 = nr_buf2 c" using n(2) unfolding taken_def by blast+
  obtain c' where c': "fill_block bp NORMAL c1 = Some c'" "refilled bp (disk c1 dev (blk_pos b)) c1 c'"
    using fill_normal [OF n(4) t(2) _ d(1) assms(3)] n(6) d t(3) by metis
  note f = refilled_fields [OF c'(2)]
  have ib: "is_block c' = is_block c1" by (simp add: fun_eq_iff is_block_def f)
  have i: "cache_inv c' X" using refilled_mid [OF n(4) c'(2) t(2,1) disjI1] unfolding cache_inv_def by blast
  have g: "got c dev b bp c'"
    by (rule taken_got [OF n(2)]) (use c'(2) f t ib in \<open>auto simp: refilled_def rest_same_def\<close>)
  have u: "uniq c1" "uniq c'" using n(4) i unfolding cache_inv_def cache_mid_def data_ok_def by blast+
  have data: "b_data (bufs c' bp) = blk c dev b" using n(6) d(1) by (simp add: f)
  have "blk c' d b' = blk c d b'" if a: "visible c d" "small b'" for d b'
  proof (cases "(d, b') = (dev, b)")
    case True
    then show ?thesis using blk_cached [OF u(2) t(1) _ d(1)] t(2) data unfolding ib by simp
  next
    case False
    then show ?thesis using refilled_blk [OF u(1) c'(2) t(2) False] n(5) a by simp
  qed
  then show ?thesis using get_uncached [OF assms(1) disjI2 [OF False]] n(1) c'(1) d(1) g i data unfolding blk_same_def by simp
qed

text \<open>
  A block that will be overwritten: its buffer may hold anything (\<open>X\<close> gains the buffer), the other blocks
  are as before.
\<close>

theorem get_block_no_read:
  assumes "cache_inv c X" "visible c dev" "small b" "bufs_in_use c < int NR_BUFS"
  shows "\<exists>i c'. get_block dev b NO_READ c = Some (i, c') \<and> got c dev b i c' \<and> cache_inv c' (insert i X)
    \<and> (\<forall>d b'. visible c d \<longrightarrow> small b' \<longrightarrow> (d, b') \<noteq> (dev, b) \<longrightarrow> blk c' d b' = blk c d b')"
proof (cases "cached c dev b")
  case True
  then obtain i c' where g: "get_block dev b NO_READ c = Some (i, c')" "got c dev b i c'" "cache_inv c' X" "blk_same c c'"
    using get_cached [OF assms(1)] assms(2) unfolding visible_def by blast
  have "b_count (bufs c' i) \<noteq> 0" using g(2) count_pos [OF assms(1), of i] unfolding got_def by auto
  then have "cache_inv c' (insert i X)" using g(3) unfolding cache_inv_def cache_mid_def data_ok_def by auto
  then show ?thesis using g unfolding blk_same_def by blast
next
  case False
  have d: "dev \<noteq> NO_DEV" "dev = DEV_RAM \<longrightarrow> nr_buf2 c = 0" using assms(2) unfolding visible_def by auto
  obtain bp c1 L H where n: "get_new dev b NO_READ c = do { c4 \<leftarrow> (if dev \<noteq> NO_DEV then fill_block bp NO_READ c1 else Some c1); Some (bp, c4) }"
    "taken c bp dev b c1" "cache_mid c1 L {} H {} (others c1 bp) (insert bp X)"
    "\<forall>d b'. visible c d \<longrightarrow> small b' \<longrightarrow> (d, b') \<noteq> (dev, b) \<longrightarrow> blk c1 d b' = blk c d b'"
    "\<not> others c1 bp dev b"
    using get_new_start [OF assms(1,4,3) disjI2 [OF False] d(2), of NO_READ] d(1) by blast
  have t: "bp < NR_BUFS" "is_block c1 dev b bp" "nr_buf2 c1 = nr_buf2 c" using n(2) unfolding taken_def by blast+
  have "fill_block bp NO_READ c1 = Some c1"
    using get_block2_spec [OF n(3) t(2) n(5) d(1) assms(3), of NO_READ] d(2) t(3) unfolding fill_block_def by auto
  moreover have "cache_mid c1 L {} H {} (cached c1) (insert bp X)"
    using n(3) coh2_mono [of c1 "others c1 bp" "cached c1"] cached_others [of c1] unfolding cache_mid_def by blast
  moreover have "got c dev b bp c1" by (rule taken_got [OF n(2)]) (use t in simp_all)
  ultimately show ?thesis using get_uncached [OF assms(1) disjI2 [OF False]] n(1,4) d(1) unfolding cache_inv_def by auto
qed

text \<open>A buffer without a name, to be filled with zeros.\<close>

theorem get_block_unnamed:
  assumes "cache_inv c X" "small b" "bufs_in_use c < int NR_BUFS"
  shows "\<exists>i c'. get_block NO_DEV b s c = Some (i, c') \<and> got c NO_DEV b i c' \<and> cache_inv c' X \<and> blk_same c c'"
proof -
  obtain bp c1 L H where n: "get_new NO_DEV b s c = Some (bp, c1)" "taken c bp NO_DEV b c1" "cache_mid c1 L {} H {} (others c1 bp) (insert bp X)"
    "\<forall>d b'. visible c d \<longrightarrow> small b' \<longrightarrow> (d, b') \<noteq> (NO_DEV, b) \<longrightarrow> blk c1 d b' = blk c d b'" "bp \<notin> X"
    using get_new_start [OF assms(1,3,2), of NO_DEV s] by auto
  have t: "bp < NR_BUFS" "is_block c1 NO_DEV b bp" using n(2) unfolding taken_def by blast+
  have "clean_ok c1 bp" using t(2) unfolding clean_ok_def is_block_def by simp
  then have "data_ok c1 X" using n(3) unfolding cache_mid_def data_ok_def by auto
  then have "cache_mid c1 L {} H {} (cached c1) X"
    using n(3) coh2_mono [of c1 "others c1 bp" "cached c1"] cached_others [of c1] unfolding cache_mid_def by blast
  moreover have "got c NO_DEV b bp c1" by (rule taken_got [OF n(2)]) (use t in simp_all)
  moreover have "blk_same c c1" using n(4) unfolding blk_same_def visible_def by simp
  ultimately show ?thesis using get_uncached [OF assms(1)] n(1) unfolding cache_inv_def by auto
qed

subsection \<open>The contract of put block\<close>

lemma rw_block_write:
  assumes "io_works (dev_env c)" "b_dev (bufs c i) \<noteq> NO_DEV"
  shows "flushed (b_dev (bufs c i)) {i} c (rw_block i WRITING c)"
  using assms(2) unfolding flushed_def rest_same_def rw_block_def bpos_def
  by (auto simp: Let_def dev_io_works [OF assms(1)] transfer_def disk_write_def upd_buf_def fun_eq_iff)

definition released :: "cache \<Rightarrow> nat \<Rightarrow> cache \<Rightarrow> bool" where
  "released c i c' \<longleftrightarrow> (\<forall>j. b_data (bufs c' j) = b_data (bufs c j) \<and> b_blocknr (bufs c' j) = b_blocknr (bufs c j)
       \<and> b_dev (bufs c' j) = b_dev (bufs c j) \<and> b_count (bufs c' j) = b_count (bufs c j) - (if j = i then 1 else 0))
     \<and> nr_buf2 c' = nr_buf2 c \<and> bufs_in_use c' = bufs_in_use c - (if b_count (bufs c i) = 1 then 1 else 0)"

lemma lru_push_mid:
  assumes "cache_mid c L {i} H {} K X" "i < NR_BUFS" "b_count (bufs c i) = 0" "bufs_in_use c = int NR_BUFS - int (length L)"
    "c' = lru_front i c \<and> L' = i # L \<or> c' = lru_rear i c \<and> L' = L @ [i]"
  shows "cache_mid (c'\<lparr>bufs_in_use := bufs_in_use c - 1\<rparr>) L' {} H {} K X"
proof -
  let ?c = "c'\<lparr>bufs_in_use := bufs_in_use c - 1\<rparr>"
  have m: "lru_ok c L {i}" "hash_ok c H {}" using assms(1) unfolding cache_mid_def by blast+
  have n: "i \<notin> set L" using m(1) unfolding lru_ok_def by blast
  have dl: "dll c L" using m(1) unfolding lru_ok_def by blast
  have d: "dll c' L'" using assms(5) lru_front_dll [OF dl n] lru_rear_dll [OF dl n] by blast
  have r: "relinked c c'" using assms(5) lru_front_relinked(1) lru_rear_relinked(1) by metis
  have s: "same_data c ?c" using relinked_same_data [OF r] unfolding same_data_def by simp
  have h: "buf_hash c' = buf_hash c" "b_hash (bufs c' j) = b_hash (bufs c j)" for j
    using r unlinked_fields(2) [of "bufs c' j" "bufs c j"] unfolding relinked_def by simp_all
  have cnt: "b_count (bufs ?c j) = b_count (bufs c j)" for j using s unfolding same_data_def by blast
  have "set L' = {j. j < NR_BUFS \<and> j \<notin> {} \<and> b_count (bufs ?c j) = 0}"
  proof -
    have "set L = {j. j < NR_BUFS \<and> j \<notin> {i} \<and> b_count (bufs c j) = 0}" using m(1) unfolding lru_ok_def by blast
    moreover have "set L' = insert i (set L)" using assms(5) by auto
    ultimately show ?thesis unfolding cnt using assms(2,3) by auto
  qed
  moreover have "dll ?c L'" using d unfolding dll_def by simp
  moreover have "length L' = Suc (length L)" using assms(5) by auto
  ultimately have "lru_ok ?c L' {}" using assms(4) unfolding lru_ok_def by simp
  moreover have "hash_ok ?c H {}" by (rule hash_ok_cong [OF m(2)]) (use h s in \<open>simp_all add: same_data_def\<close>)
  ultimately show ?thesis using assms(1) unfolding cache_mid_def same_data_facts [OF s] by blast
qed

lemma rest_released:
  "released c i c1 \<Longrightarrow> kept c1 c' \<Longrightarrow> released c i c'"
  unfolding released_def kept_def by simp

lemma uncount_inv:
  assumes "cache_inv c X" "i < NR_BUFS" "b_count (bufs c i) > 0" "i \<notin> X \<or> b_count (bufs c i) > 1"
  defines "c1 \<equiv> upd_buf i (\<lambda>b. b\<lparr>b_count := b_count b - 1\<rparr>) c"
  shows "\<exists>L H. cache_mid c1 L (if b_count (bufs c i) = 1 then {i} else {}) H {} (cached c1) X
     \<and> bufs_in_use c = int NR_BUFS - int (length L)" "blk_same c c1"
proof -
  have c1: "c1 = upd_buf i (\<lambda>b. b\<lparr>b_count := b_count b - 1\<rparr>) c" unfolding c1_def ..
  obtain L H where "cache_mid c L {} H {} (cached c) X" using assms(1) unfolding cache_inv_def by blast
  then have m: "lru_ok c L {}" "hash_ok c H {}" "data_ok c X" "ram_ok c" "coh2 c (cached c)" "io_works (dev_env c)"
    unfolding cache_mid_def by blast+
  have b: "b_data (bufs c1 j) = b_data (bufs c j)" "b_blocknr (bufs c1 j) = b_blocknr (bufs c j)" "b_dev (bufs c1 j) = b_dev (bufs c j)"
    "b_dirt (bufs c1 j) = b_dirt (bufs c j)" "b_hash (bufs c1 j) = b_hash (bufs c j)" "b_next (bufs c1 j) = b_next (bufs c j)"
    "b_prev (bufs c1 j) = b_prev (bufs c j)" "b_count (bufs c1 j) = b_count (bufs c j) - (if j = i then 1 else 0)" for j
    unfolding c1 by (simp_all add: upd_buf_def)
  have r: "front c1 = front c" "rear c1 = rear c" "bufs_in_use c1 = bufs_in_use c" "buf2s c1 = buf2s c" "nr_buf2 c1 = nr_buf2 c"
    "buf2_idx c1 = buf2_idx c" "disk c1 = disk c" "dev_env c1 = dev_env c" "buf_hash c1 = buf_hash c"
    unfolding c1 by (simp_all add: upd_buf_def)
  have ib: "is_block c1 = is_block c" by (simp add: fun_eq_iff is_block_def b)
  then have ca: "cached c1 = cached c" by (simp add: fun_eq_iff cached_def)
  have "blk c1 d p = blk c d p" for d p unfolding blk_def ib b r by (rule refl)
  then show "blk_same c c1" unfolding blk_same_def by simp
  let ?W = "if b_count (bufs c i) = 1 then {i} else {}"
  have "set L = {j. j < NR_BUFS \<and> j \<notin> ?W \<and> b_count (bufs c1 j) = 0}"
  proof -
    have "set L = {j. j < NR_BUFS \<and> j \<notin> {} \<and> b_count (bufs c j) = 0}" using m(1) unfolding lru_ok_def by blast
    moreover have "(j < NR_BUFS \<and> j \<notin> {} \<and> b_count (bufs c j) = 0) = (j < NR_BUFS \<and> j \<notin> ?W \<and> b_count (bufs c1 j) = 0)" for j
      using assms(3) by (cases "j = i") (simp_all add: b)
    ultimately show ?thesis by simp
  qed
  then have "lru_ok c1 L ?W" using m(1) unfolding lru_ok_def dll_def b r by blast
  moreover have "hash_ok c1 H {}" by (rule hash_ok_cong [OF m(2)]) (simp_all add: b r)
  moreover have "clean_ok c1 = clean_ok c" by (simp add: fun_eq_iff clean_ok_def bpos_def b r)
  then have "data_ok c1 X" using m(3) assms(3,4) unfolding data_ok_def uniq_def b by auto
  moreover have "ram_ok c1" using m(4) unfolding ram_ok_def b r .
  moreover have "slot_is c1 = slot_is c" "order2 c1 = order2 c" by (simp_all add: fun_eq_iff slot_is_def order2_def r)
  then have "coh2 c1 (cached c1)" using m(5) unfolding ca coh2_def r by simp
  moreover have "bufs_in_use c = int NR_BUFS - int (length L)" using m(1) unfolding lru_ok_def by blast
  ultimately show "\<exists>L H. cache_mid c1 L ?W H {} (cached c1) X \<and> bufs_in_use c = int NR_BUFS - int (length L)"
    using m(6) unfolding cache_mid_def r by blast
qed

theorem put_block_spec:
  assumes "cache_inv c X" "i < NR_BUFS" "b_count (bufs c i) > 0" "i \<notin> X \<or> b_count (bufs c i) > 1"
  shows "cache_inv (put_block (Some i) t c) X \<and> blk_same c (put_block (Some i) t c) \<and> released c i (put_block (Some i) t c)"
proof -
  let ?c = "upd_buf i (\<lambda>b. b\<lparr>b_count := b_count b - 1\<rparr>) c"
  obtain L H where m: "cache_mid ?c L (if b_count (bufs c i) = 1 then {i} else {}) H {} (cached ?c) X"
    "bufs_in_use c = int NR_BUFS - int (length L)" "blk_same c ?c"
    using uncount_inv [OF assms] by blast
  show ?thesis
  proof (cases "b_count (bufs c i) = 1")
    case False
    then have "put_block (Some i) t c = ?c" by (simp add: put_block_def upd_buf_def)
    moreover have "released c i ?c" using False unfolding released_def by (simp add: upd_buf_def)
    ultimately show ?thesis using m(1,3) False unfolding cache_inv_def by auto
  next
    case True
    define c2 where "c2 = ?c\<lparr>bufs_in_use := bufs_in_use ?c - 1\<rparr>"
    define c3 where "c3 = (if t AND ONE_SHOT \<noteq> 0 then lru_front i c2 else lru_rear i c2)"
    define c3' where "c3' = (if t AND ONE_SHOT \<noteq> 0 then lru_front i ?c else lru_rear i ?c)"
    have e: "c3 = c3'\<lparr>bufs_in_use := bufs_in_use ?c - 1\<rparr>"
      unfolding c3_def c3'_def c2_def by (simp add: lru_front_def lru_rear_def Let_def upd_buf_def split: option.split)
    have 0: "b_count (bufs ?c i) = 0" "bufs_in_use ?c = int NR_BUFS - int (length L)" using True m(2) by (simp_all add: upd_buf_def)
    have "\<exists>L'. cache_mid c3 L' {} H {} (cached ?c) X"
    proof (cases "t AND ONE_SHOT \<noteq> 0")
      case y: True
      then have "c3' = lru_front i ?c \<and> i # L = i # L" unfolding c3'_def by simp
      with lru_push_mid [OF _ assms(2) 0 disjI1, of H "cached ?c" X c3' "i # L"] m(1) True show ?thesis unfolding e by auto
    next
      case n: False
      then have "c3' = lru_rear i ?c \<and> L @ [i] = L @ [i]" unfolding c3'_def by simp
      with lru_push_mid [OF _ assms(2) 0 disjI2, of H "cached ?c" X c3' "L @ [i]"] m(1) True show ?thesis unfolding e by auto
    qed
    then obtain L' where L': "cache_mid c3 L' {} H {} (cached ?c) X" by blast
    have "relinked ?c c3'" unfolding c3'_def using lru_front_relinked(1) lru_rear_relinked(1) by simp
    then have s: "same_data ?c c3" using relinked_same_data unfolding e same_data_def by simp
    note f = same_data_facts [OF s]
    have iu: "bufs_in_use c3 = bufs_in_use c - 1" unfolding e by (simp add: upd_buf_def)
    have rel: "released c i c3" using s True iu unfolding released_def same_data_def by (simp add: upd_buf_def)
    have L3: "cache_mid c3 L' {} H {} (cached c3) X" using L' unfolding f(3) .
    have b3: "blk_same c c3" using m(3) unfolding blk_same_def f(2) .
    have p: "put_block (Some i) t c = (if t AND WRITE_IMMED \<noteq> 0 \<and> b_dirt (bufs c3 i) \<and> b_dev (bufs c3 i) \<noteq> NO_DEV then rw_block i WRITING c3 else c3)"
      unfolding put_block_def using 0(1) by (simp add: Let_def c3_def c2_def)
    show ?thesis
    proof (cases "t AND WRITE_IMMED \<noteq> 0 \<and> b_dirt (bufs c3 i) \<and> b_dev (bufs c3 i) \<noteq> NO_DEV")
      case False
      then show ?thesis using L3 b3 rel unfolding p if_not_P [OF False] cache_inv_def by blast
    next
      case T: True
      have d: "b_dev (bufs c3 i) \<noteq> NO_DEV" and w: "io_works (dev_env c3)" and da: "data_ok c3 X"
        using T L3 unfolding cache_mid_def by blast+
      note fl = rw_block_write [OF w d]
      have sub: "{i} \<subseteq> dev_set (b_dev (bufs c3 i)) c3" using assms(2) unfolding dev_set_def by simp
      have "cache_inv (rw_block i WRITING c3) X" using flush_mid [OF L3 d fl sub] unfolding cache_inv_def by blast
      moreover have "blk_same c3 (rw_block i WRITING c3)" using flush_blk [OF da fl _ _ sub] unfolding blk_same_def visible_def by blast
      then have "blk_same c (rw_block i WRITING c3)" using blk_same_trans [OF b3] rel unfolding released_def by blast
      moreover have "kept c3 (rw_block i WRITING c3)"
        using flushed_rest [OF fl] unfolding kept_def rest_same_def by (simp add: flushed_fields [OF fl])
      ultimately show ?thesis using rest_released [OF rel] unfolding p if_P [OF T] by blast
    qed
  qed
qed

end
