(* ===== verification/FS_Store.thy ===== *)
theory FS_Store
  imports FS_Cache_Spec
begin

text \<open>
  The cache as a store: what the rest of the file system relies on.  A block is accessed between
  \<^verbatim>\<open>get_block()\<close> and \<^verbatim>\<open>put_block()\<close>; the locale \<open>block_store\<close> states the contract of
  such an access, and the cache of \<open>FS_Cache\<close> satisfies it.
\<close>

subsection \<open>Changing a buffer\<close>

text \<open>The assignments \<^verbatim>\<open>bp->b_data[..] = ..; bp->b_dirt = DIRTY\<close> of a user of a buffer.\<close>

definition set_block :: "nat \<Rightarrow> block \<Rightarrow> cache \<Rightarrow> cache" where
  "set_block i x c = upd_buf i (\<lambda>b. b\<lparr>b_data := x, b_dirt := True\<rparr>) c"

lemma set_block_fields:
  "b_data (bufs (set_block i x c) j) = (if j = i then x else b_data (bufs c j))" "b_blocknr (bufs (set_block i x c) j) = b_blocknr (bufs c j)"
  "b_dev (bufs (set_block i x c) j) = b_dev (bufs c j)" "b_count (bufs (set_block i x c) j) = b_count (bufs c j)"
  "b_hash (bufs (set_block i x c) j) = b_hash (bufs c j)" "b_next (bufs (set_block i x c) j) = b_next (bufs c j)"
  "b_prev (bufs (set_block i x c) j) = b_prev (bufs c j)" "b_dirt (bufs (set_block i x c) j) \<longleftrightarrow> j = i \<or> b_dirt (bufs c j)"
  "front (set_block i x c) = front c" "rear (set_block i x c) = rear c" "bufs_in_use (set_block i x c) = bufs_in_use c"
  "nr_buf2 (set_block i x c) = nr_buf2 c" "buf2_idx (set_block i x c) = buf2_idx c" "buf2s (set_block i x c) = buf2s c"
  "disk (set_block i x c) = disk c" "dev_env (set_block i x c) = dev_env c" "buf_hash (set_block i x c) = buf_hash c"
  by (simp_all add: set_block_def upd_buf_def)

lemma set_block_is_block: "is_block (set_block i x c) = is_block c"
  by (simp add: fun_eq_iff is_block_def set_block_fields)

lemma set_block_inv:
  assumes "cache_inv c X" "X' = X \<or> X' = X - {i}"
  shows "cache_inv (set_block i x c) X'"
proof -
  let ?c = "set_block i x c"
  note f = set_block_fields [of i x c]
  obtain L H where "cache_mid c L {} H {} (cached c) X" using assms(1) unfolding cache_inv_def by blast
  then have m: "lru_ok c L {}" "hash_ok c H {}" "data_ok c X" "ram_ok c" "coh2 c (cached c)" "io_works (dev_env c)"
    unfolding cache_mid_def by blast+
  have ca: "cached ?c = cached c" by (simp add: fun_eq_iff cached_def set_block_is_block)
  have "lru_ok ?c L {}" using m(1) unfolding lru_ok_def dll_def f .
  moreover have "hash_ok ?c H {}" by (rule hash_ok_cong [OF m(2)]) (simp_all add: f)
  moreover have "clean_ok ?c j" if "j = i \<or> clean_ok c j" for j using that unfolding clean_ok_def bpos_def f by auto
  then have "data_ok ?c X'" using m(3) assms(2) unfolding data_ok_def uniq_def f by auto
  moreover have "ram_ok ?c" using m(4) unfolding ram_ok_def f .
  moreover have "coh2 ?c (cached ?c)"
  proof -
    have "slot_is ?c = slot_is c" "order2 ?c = order2 c" by (simp_all add: fun_eq_iff slot_is_def order2_def f)
    then show ?thesis using m(5) unfolding ca coh2_def f by simp
  qed
  ultimately show ?thesis using m(6) unfolding cache_inv_def cache_mid_def f by blast
qed

lemma cache_inv_uniq: "cache_inv c X \<Longrightarrow> uniq c"
  unfolding cache_inv_def cache_mid_def data_ok_def by blast

lemma set_block_blk:
  assumes "uniq c" "i < NR_BUFS" "is_block c dev b i" "d \<noteq> NO_DEV"
  shows "blk (set_block i x c) d b' = (if d = dev \<and> b' = b then x else blk c d b')"
proof (cases "d = dev \<and> b' = b")
  case True
  have "uniq (set_block i x c)" using assms(1) unfolding uniq_def set_block_fields .
  then show ?thesis using True blk_cached [OF _ assms(2), of "set_block i x c" dev b] assms(3,4)
    unfolding set_block_is_block by (simp add: set_block_fields)
next
  case False
  then have n: "\<not> is_block c d b' i" using assms(3) unfolding is_block_def by auto
  have "j \<noteq> i" if "find (is_block c d b') [0..<NR_BUFS] = Some j" for j using that n by (auto simp: find_Some_iff)
  then show ?thesis using False unfolding blk_def set_block_is_block set_block_fields(15)
    by (auto simp: set_block_fields(1) split: option.split)
qed

subsection \<open>Accesses to blocks\<close>

datatype access =
    Fetch int u32 nat
  | Modify int u32 "block \<Rightarrow> block" nat
  | Overwrite int u32 block nat

text \<open>An access with the type of use that is passed to \<^verbatim>\<open>put_block()\<close>; its value is what was read.\<close>

fun cache_access :: "access \<Rightarrow> cache \<Rightarrow> (block \<times> cache) option" where
  "cache_access (Fetch dev b t) c =
     do { (i, c1) \<leftarrow> get_block dev b NORMAL c; Some (b_data (bufs c1 i), put_block (Some i) t c1) }"
| "cache_access (Modify dev b f t) c =
     do { (i, c1) \<leftarrow> get_block dev b NORMAL c; let x = b_data (bufs c1 i);
          Some (x, put_block (Some i) t (set_block i (f x) c1)) }"
| "cache_access (Overwrite dev b x t) c =
     do { (i, c1) \<leftarrow> get_block dev b NO_READ c; Some (x, put_block (Some i) t (set_block i x c1)) }"

fun acc_dev :: "access \<Rightarrow> int" where
  "acc_dev (Fetch dev b t) = dev" | "acc_dev (Modify dev b f t) = dev" | "acc_dev (Overwrite dev b x t) = dev"

fun acc_blk :: "access \<Rightarrow> u32" where
  "acc_blk (Fetch dev b t) = b" | "acc_blk (Modify dev b f t) = b" | "acc_blk (Overwrite dev b x t) = b"

text \<open>The same access on a plain store.\<close>

type_synonym store = "int \<Rightarrow> u32 \<Rightarrow> block"

definition store_upd :: "store \<Rightarrow> int \<Rightarrow> u32 \<Rightarrow> block \<Rightarrow> store" where
  "store_upd m dev b x = m(dev := (m dev)(b := x))"

fun store_access :: "access \<Rightarrow> store \<Rightarrow> block \<times> store" where
  "store_access (Fetch dev b t) m = (m dev b, m)"
| "store_access (Modify dev b f t) m = (m dev b, store_upd m dev b (f (m dev b)))"
| "store_access (Overwrite dev b x t) m = (x, store_upd m dev b x)"

text \<open>Nothing is in use: the state between two accesses.\<close>

definition cache_idle :: "cache \<Rightarrow> bool" where
  "cache_idle c \<longleftrightarrow> cache_inv c {} \<and> bufs_in_use c < int NR_BUFS"

definition acc_ok :: "access \<Rightarrow> cache \<Rightarrow> bool" where
  "acc_ok a c \<longleftrightarrow> visible c (acc_dev a) \<and> small (acc_blk a)"

definition blk_agree :: "cache \<Rightarrow> store \<Rightarrow> bool" where
  "blk_agree c m \<longleftrightarrow> (\<forall>dev b. visible c dev \<longrightarrow> small b \<longrightarrow> blk c dev b = m dev b)"

lemma got_count: "cache_inv c X \<Longrightarrow> got c dev b i c' \<Longrightarrow> i < NR_BUFS \<and> 0 < b_count (bufs c' i) \<and> is_block c' dev b i \<and> nr_buf2 c' = nr_buf2 c"
  using count_pos [of c X i] unfolding got_def by auto

lemma visible_nr: "nr_buf2 c' = nr_buf2 c \<Longrightarrow> visible c' = visible c"
  by (simp add: fun_eq_iff visible_def)

lemma put_back:
  assumes "cache_inv c X" "got c dev b i c1" "c2 = c1 \<or> c2 = set_block i x c1" "cache_inv c2 X'" "i \<notin> X'"
  shows "cache_inv (put_block (Some i) t c2) X' \<and> blk_same c2 (put_block (Some i) t c2)
    \<and> bufs_in_use (put_block (Some i) t c2) = bufs_in_use c \<and> nr_buf2 (put_block (Some i) t c2) = nr_buf2 c
    \<and> (\<forall>j < NR_BUFS. b_count (bufs (put_block (Some i) t c2) j) = b_count (bufs c j))"
proof -
  note g = got_count [OF assms(1,2)]
  have cnt: "b_count (bufs c2 j) = b_count (bufs c1 j)" "bufs_in_use c2 = bufs_in_use c1" "nr_buf2 c2 = nr_buf2 c1" for j
    using assms(3) by (auto simp: set_block_fields)
  have "0 < b_count (bufs c2 i)" using g cnt by simp
  note p = put_block_spec [OF assms(4) conjunct1 [OF g] this disjI1 [OF assms(5)], of t]
  let ?c = "put_block (Some i) t c2"
  have c1: "b_count (bufs c1 j) = b_count (bufs c j) + (if j = i then 1 else 0)" if "j < NR_BUFS" for j
    using assms(2) that unfolding got_def by blast
  have iu: "bufs_in_use c1 = bufs_in_use c + (if b_count (bufs c i) = 0 then 1 else 0)" "i < NR_BUFS"
    using assms(2) unfolding got_def by blast+
  have rel: "b_count (bufs ?c j) = b_count (bufs c2 j) - (if j = i then 1 else 0)" "nr_buf2 ?c = nr_buf2 c2"
    "bufs_in_use ?c = bufs_in_use c2 - (if b_count (bufs c2 i) = 1 then 1 else 0)" for j
    using p unfolding released_def by blast+
  have "bufs_in_use ?c = bufs_in_use c" unfolding rel(3) cnt using iu c1 [OF iu(2)] by simp
  moreover have "b_count (bufs ?c j) = b_count (bufs c j)" if "j < NR_BUFS" for j unfolding rel(1) cnt using c1 [OF that] by simp
  moreover have "nr_buf2 ?c = nr_buf2 c" unfolding rel(2) cnt using g by blast
  ultimately show ?thesis using p g by blast
qed

lemma access_refines:
  assumes "cache_idle c" "acc_ok a c" "blk_agree c m"
  shows "\<exists>x c'. cache_access a c = Some (x, c') \<and> x = fst (store_access a m) \<and> cache_idle c' \<and> nr_buf2 c' = nr_buf2 c
    \<and> blk_agree c' (snd (store_access a m))"
proof -
  have i: "cache_inv c {}" "bufs_in_use c < int NR_BUFS" using assms(1) unfolding cache_idle_def by blast+
  have v: "visible c (acc_dev a)" "small (acc_blk a)" using assms(2) unfolding acc_ok_def by blast+
  have m: "blk c d b = m d b" if "visible c d" "small b" for d b using assms(3) that unfolding blk_agree_def by blast
  have nd: "d \<noteq> NO_DEV" if "visible c d" for d using that unfolding visible_def by blast
  show ?thesis
  proof (cases a)
    case (Fetch dev b t)
    then obtain i c1 where g: "get_block dev b NORMAL c = Some (i, c1)" "got c dev b i c1" "cache_inv c1 {}" "blk_same c c1"
      "b_data (bufs c1 i) = blk c dev b" using get_block_normal [OF i(1) v i(2)] by auto
    note p = put_back [OF i(1) g(2) disjI1 [OF refl] g(3), of t]
    have vis: "visible (put_block (Some i) t c1) = visible c" "visible c1 = visible c" using p got_count [OF i(1) g(2)] by (blast intro: visible_nr)+
    have "blk_agree (put_block (Some i) t c1) m"
      unfolding blk_agree_def vis
    proof (intro allI impI)
      fix d b' assume d: "visible c d" "small b'"
      have "blk (put_block (Some i) t c1) d b' = blk c1 d b'" using p d unfolding blk_same_def vis by blast
      also have "\<dots> = m d b'" using g(4) m d unfolding blk_same_def by simp
      finally show "blk (put_block (Some i) t c1) d b' = m d b'" .
    qed
    moreover have "cache_idle (put_block (Some i) t c1)" using p i(2) unfolding cache_idle_def by simp
    ultimately show ?thesis using g(1,5) p v Fetch m by simp
  next
    case (Modify dev b f t)
    then obtain i c1 where g: "get_block dev b NORMAL c = Some (i, c1)" "got c dev b i c1" "cache_inv c1 {}" "blk_same c c1"
      "b_data (bufs c1 i) = blk c dev b" using get_block_normal [OF i(1) v i(2)] by auto
    define c2 where "c2 = set_block i (f (blk c dev b)) c1"
    have "cache_inv c2 {}" unfolding c2_def using set_block_inv [OF g(3)] by blast
    note p = put_back [OF i(1) g(2) disjI2 [OF c2_def] this, of t]
    note gc = got_count [OF i(1) g(2)]
    have nr2: "nr_buf2 c2 = nr_buf2 c" using gc unfolding c2_def set_block_fields by blast
    have vis: "visible (put_block (Some i) t c2) = visible c" "visible c1 = visible c" "visible c2 = visible c"
      using p gc nr2 by (blast intro: visible_nr)+
    have b2: "blk c2 d b' = (if d = dev \<and> b' = b then f (blk c dev b) else blk c1 d b')" if "d \<noteq> NO_DEV" for d b'
      unfolding c2_def using set_block_blk [OF cache_inv_uniq [OF g(3)]] gc that by blast
    have "blk_agree (put_block (Some i) t c2) (store_upd m dev b (f (m dev b)))"
      unfolding blk_agree_def vis
    proof (intro allI impI)
      fix d b' assume d: "visible c d" "small b'"
      have "blk (put_block (Some i) t c2) d b' = blk c2 d b'" using p d unfolding blk_same_def vis by blast
      also have "\<dots> = (if d = dev \<and> b' = b then f (m dev b) else m d b')"
        using b2 [OF nd [OF d(1)]] g(4) d m v Modify unfolding blk_same_def by simp
      finally show "blk (put_block (Some i) t c2) d b' = store_upd m dev b (f (m dev b)) d b'" by (simp add: store_upd_def)
    qed
    moreover have "cache_idle (put_block (Some i) t c2)" using p i(2) unfolding cache_idle_def by simp
    ultimately show ?thesis using g(1,5) p v Modify m by (simp add: c2_def Let_def)
  next
    case (Overwrite dev b x t)
    then obtain i c1 where g: "get_block dev b NO_READ c = Some (i, c1)" "got c dev b i c1" "cache_inv c1 (insert i {})"
      "\<forall>d b'. visible c d \<longrightarrow> small b' \<longrightarrow> (d, b') \<noteq> (dev, b) \<longrightarrow> blk c1 d b' = blk c d b'"
      using get_block_no_read [OF i(1) v i(2)] by auto
    define c2 where "c2 = set_block i x c1"
    have "cache_inv c2 {}" unfolding c2_def by (rule set_block_inv [OF g(3)]) simp
    note p = put_back [OF i(1) g(2) disjI2 [OF c2_def] this, of t]
    note gc = got_count [OF i(1) g(2)]
    have nr2: "nr_buf2 c2 = nr_buf2 c" using gc unfolding c2_def set_block_fields by blast
    have vis: "visible (put_block (Some i) t c2) = visible c" "visible c2 = visible c"
      using p nr2 by (blast intro: visible_nr)+
    have b2: "blk c2 d b' = (if d = dev \<and> b' = b then x else blk c1 d b')" if "d \<noteq> NO_DEV" for d b'
      unfolding c2_def using set_block_blk [OF cache_inv_uniq [OF g(3)]] gc that by blast
    have "blk_agree (put_block (Some i) t c2) (store_upd m dev b x)"
      unfolding blk_agree_def vis
    proof (intro allI impI)
      fix d b' assume d: "visible c d" "small b'"
      have "blk (put_block (Some i) t c2) d b' = blk c2 d b'" using p d unfolding blk_same_def vis by blast
      also have "\<dots> = (if d = dev \<and> b' = b then x else m d b')"
        using b2 [OF nd [OF d(1)]] g(4) d m by auto
      finally show "blk (put_block (Some i) t c2) d b' = store_upd m dev b x d b'" by (simp add: store_upd_def)
    qed
    moreover have "cache_idle (put_block (Some i) t c2)" using p i(2) unfolding cache_idle_def by simp
    ultimately show ?thesis using g(1) p Overwrite by (simp add: c2_def)
  qed
qed

subsection \<open>The interface\<close>

text \<open>
  A store of blocks behind an access operation: in a state that is idle, an allowed access ends, returns
  what a plain store would, and leaves an idle state that agrees with the plain store.
\<close>

locale block_store =
  fixes acc :: "access \<Rightarrow> 'c \<Rightarrow> (block \<times> 'c) option"
    and idle :: "'c \<Rightarrow> bool" and allowed :: "access \<Rightarrow> 'c \<Rightarrow> bool" and agree :: "'c \<Rightarrow> store \<Rightarrow> bool"
  assumes access: "idle c \<Longrightarrow> allowed a c \<Longrightarrow> agree c m \<Longrightarrow> \<exists>x c'. acc a c = Some (x, c') \<and> x = fst (store_access a m)
      \<and> idle c' \<and> (\<forall>a'. allowed a' c' \<longleftrightarrow> allowed a' c) \<and> agree c' (snd (store_access a m))"
begin

fun run :: "access list \<Rightarrow> 'c \<Rightarrow> (block list \<times> 'c) option" where
  "run [] c = Some ([], c)"
| "run (a # as) c = do { (x, c1) \<leftarrow> acc a c; (xs, c2) \<leftarrow> run as c1; Some (x # xs, c2) }"

text \<open>Any sequence of accesses reads what the plain store would hold.\<close>

lemma run_refines:
  assumes "idle c" "\<forall>a \<in> set as. allowed a c" "agree c m"
  shows "\<exists>xs c'. run as c = Some (xs, c') \<and> idle c' \<and> xs = fst (fold (\<lambda>a (xs, m). (xs @ [fst (store_access a m)], snd (store_access a m))) as ([], m))
    \<and> agree c' (snd (fold (\<lambda>a (xs, m). (xs @ [fst (store_access a m)], snd (store_access a m))) as ([], m)))"
proof -
  let ?step = "\<lambda>a (xs, m). (xs @ [fst (store_access a m)], snd (store_access a m))"
  have pre: "fst (fold ?step as (ys @ zs, m)) = ys @ fst (fold ?step as (zs, m)) \<and> snd (fold ?step as (ys @ zs, m)) = snd (fold ?step as (zs, m))"
    for as ys zs m by (induction as arbitrary: zs m) auto
  show ?thesis using assms
  proof (induction as arbitrary: c m)
    case Nil
    then show ?case by simp
  next
    case (Cons a as)
    obtain x c1 where a: "acc a c = Some (x, c1)" "x = fst (store_access a m)" "idle c1" "\<forall>a'. allowed a' c1 \<longleftrightarrow> allowed a' c"
      "agree c1 (snd (store_access a m))" using access [OF Cons.prems(1) _ Cons.prems(3), of a] Cons.prems(2) by auto
    then obtain xs c' where r: "run as c1 = Some (xs, c')" "idle c'" "xs = fst (fold ?step as ([], snd (store_access a m)))"
      "agree c' (snd (fold ?step as ([], snd (store_access a m))))" using Cons.IH [of c1 "snd (store_access a m)"] Cons.prems(2) by auto
    then show ?case using a(1,2) pre [of as "[fst (store_access a m)]" "[]" "snd (store_access a m)"] by simp
  qed
qed

lemma fetch_reads:
  assumes "idle c" "allowed (Fetch dev b t) c" "agree c m"
  shows "\<exists>c'. acc (Fetch dev b t) c = Some (m dev b, c') \<and> idle c' \<and> agree c' m"
  using access [OF assms] by auto

end

interpretation bc: block_store cache_access cache_idle acc_ok blk_agree
proof
  fix c a m
  assume "cache_idle c" "acc_ok a c" "blk_agree c m"
  from access_refines [OF this] obtain x c' where "cache_access a c = Some (x, c')" "x = fst (store_access a m)" "cache_idle c'"
    "nr_buf2 c' = nr_buf2 c" "blk_agree c' (snd (store_access a m))" by blast
  moreover have "acc_ok a' c' \<longleftrightarrow> acc_ok a' c" for a' using \<open>nr_buf2 c' = nr_buf2 c\<close> unfolding acc_ok_def visible_def by simp
  ultimately show "\<exists>x c'. cache_access a c = Some (x, c') \<and> x = fst (store_access a m) \<and> cache_idle c'
      \<and> (\<forall>a'. acc_ok a' c' \<longleftrightarrow> acc_ok a' c) \<and> blk_agree c' (snd (store_access a m))" by blast
qed

subsection \<open>One access, as the code writes it\<close>

text \<open>\<open>blk_set dev b x c c'\<close>: only the contents of one block changed, to \<open>x\<close>.\<close>

definition blk_set :: "int \<Rightarrow> u32 \<Rightarrow> block \<Rightarrow> cache \<Rightarrow> cache \<Rightarrow> bool" where
  "blk_set dev b x c c' \<longleftrightarrow> (\<forall>d b'. visible c d \<longrightarrow> small b' \<longrightarrow> blk c' d b' = (if d = dev \<and> b' = b then x else blk c d b'))"

definition settled :: "cache \<Rightarrow> cache \<Rightarrow> bool" where
  "settled c c' \<longleftrightarrow> cache_idle c' \<and> nr_buf2 c' = nr_buf2 c"

lemma blk_agree_self: "blk_agree c (blk c)"
  by (simp add: blk_agree_def)

lemma blk_agree_same: "nr_buf2 c' = nr_buf2 c \<Longrightarrow> blk_agree c' (blk c) \<Longrightarrow> blk_same c c'"
  unfolding blk_agree_def blk_same_def visible_def by simp

lemma blk_agree_set: "nr_buf2 c' = nr_buf2 c \<Longrightarrow> blk_agree c' (store_upd (blk c) dev b x) \<Longrightarrow> blk_set dev b x c c'"
  unfolding blk_agree_def blk_set_def visible_def store_upd_def by auto

lemma get_then_put:
  assumes "cache_idle c" "visible c dev" "small b"
  obtains i c1 where "get_block dev b NORMAL c = Some (i, c1)" "b_data (bufs c1 i) = blk c dev b"
    "\<And>t. settled c (put_block (Some i) t c1) \<and> blk_same c (put_block (Some i) t c1)"
    "\<And>t x. settled c (put_block (Some i) t (set_block i x c1)) \<and> blk_set dev b x c (put_block (Some i) t (set_block i x c1))"
proof -
  obtain i c1 where g: "get_block dev b NORMAL c = Some (i, c1)" "b_data (bufs c1 i) = blk c dev b"
    using get_block_normal [of c "{}" dev b] assms unfolding cache_idle_def by blast
  have "settled c (put_block (Some i) t c1) \<and> blk_same c (put_block (Some i) t c1)" for t
  proof -
    have "acc_ok (Fetch dev b t) c" using assms unfolding acc_ok_def by simp
    from access_refines [OF assms(1) this blk_agree_self] obtain c' where
      "cache_access (Fetch dev b t) c = Some (blk c dev b, c')" "cache_idle c'" "nr_buf2 c' = nr_buf2 c" "blk_agree c' (blk c)" by auto
    then show ?thesis using g blk_agree_same unfolding settled_def by simp
  qed
  moreover have "settled c (put_block (Some i) t (set_block i x c1)) \<and> blk_set dev b x c (put_block (Some i) t (set_block i x c1))" for t x
  proof -
    have "acc_ok (Modify dev b (\<lambda>_. x) t) c" using assms unfolding acc_ok_def by simp
    from access_refines [OF assms(1) this blk_agree_self] obtain c' where
      "cache_access (Modify dev b (\<lambda>_. x) t) c = Some (blk c dev b, c')" "cache_idle c'" "nr_buf2 c' = nr_buf2 c"
      "blk_agree c' (store_upd (blk c) dev b x)" by auto
    then show ?thesis using g blk_agree_set unfolding settled_def by (simp add: Let_def)
  qed
  ultimately show thesis using that g by blast
qed

lemma settled_trans: "settled c c1 \<Longrightarrow> settled c1 c2 \<Longrightarrow> settled c c2"
  unfolding settled_def by simp

lemma settled_visible: "settled c c' \<Longrightarrow> visible c' = visible c"
  unfolding settled_def by (auto simp: visible_def fun_eq_iff)

lemma settled_same: "settled c c1 \<Longrightarrow> blk_same c c1 \<Longrightarrow> blk_same c1 c2 \<Longrightarrow> blk_same c c2"
  unfolding settled_def using blk_same_trans by blast

lemma settled_same_set: "settled c c1 \<Longrightarrow> blk_same c c1 \<Longrightarrow> blk_set dev b x c1 c2 \<Longrightarrow> blk_set dev b x c c2"
  unfolding settled_def blk_set_def blk_same_def visible_def by auto

end
