(* ===== verification/FS_Cache_Theorems.thy ===== *)
theory FS_Cache_Theorems
  imports FS_Store
begin

text \<open>The properties of the block cache, with instances on the cache that the file system starts with.\<close>

subsection \<open>The initial cache\<close>

lemma chain_up:
  assumes "\<forall>i < n. nx i = (if Suc i = n then None else Some (Suc i))"
  shows "k < n \<Longrightarrow> chain nx (Some k) [k..<n]"
proof (induction "n - k" arbitrary: k)
  case 0
  then show ?case by simp
next
  case (Suc m)
  have u: "[k..<n] = k # [Suc k..<n]" using Suc.prems by (simp add: upt_conv_Cons)
  show ?case
  proof (cases "Suc k = n")
    case True
    then show ?thesis using assms unfolding u by simp
  next
    case False
    then have "chain nx (Some (Suc k)) [Suc k..<n]" using Suc.hyps(1) [of "Suc k"] Suc.hyps(2) Suc.prems by simp
    then show ?thesis using assms False Suc.prems unfolding u by simp
  qed
qed

lemma chain_down:
  assumes "\<forall>i < n. pv i = (if i = 0 then None else Some (i - 1))"
  shows "k < n \<Longrightarrow> chain pv (Some k) (rev [0..<Suc k])"
proof (induction k)
  case 0
  then show ?case using assms by simp
next
  case (Suc k)
  then show ?case using assms by simp
qed

lemma hash_key_0: "hash_key 0 = 0"
  by (simp add: hash_key_def)

text \<open>The state at the start: nothing in use, no second level cache, and drivers that work.\<close>

definition boot_cache :: "cache \<Rightarrow> bool" where
  "boot_cache c \<longleftrightarrow> (\<forall>i < NR_BUFS. b_count (bufs c i) = 0) \<and> (\<forall>h. buf_hash c h = None) \<and> nr_buf2 c = 0 \<and> io_works (dev_env c)"

lemma buf_pool_idle:
  assumes "boot_cache c"
  shows "cache_idle (buf_pool c)" "\<not> cached (buf_pool c) dev b \<or> dev = NO_DEV" "nr_buf2 (buf_pool c) = 0" "disk (buf_pool c) = disk c"
proof -
  let ?c = "buf_pool c"
  have a: "b_count (bufs c i) = 0" "buf_hash c h = None" "nr_buf2 c = 0" "io_works (dev_env c)" if "i < NR_BUFS" for i h
    using assms that unfolding boot_cache_def by blast+
  have f: "b_blocknr (bufs ?c i) = 0" "b_dev (bufs ?c i) = NO_DEV" "b_count (bufs ?c i) = 0"
    "b_next (bufs ?c i) = (if Suc i = NR_BUFS then None else Some (Suc i))" "b_prev (bufs ?c i) = (if i = 0 then None else Some (i - 1))"
    "b_hash (bufs ?c i) = (if Suc i = NR_BUFS then None else Some (Suc i))" if "i < NR_BUFS" for i
    using that a(1) [OF that] by (auto simp: buf_pool_def)
  have r: "front ?c = Some 0" "rear ?c = Some (NR_BUFS - 1)" "bufs_in_use ?c = 0" "dev_env ?c = dev_env c"
    "buf_hash ?c h = (if h = 0 then Some 0 else None)" for h
    using assms by (auto simp: buf_pool_def boot_cache_def)
  show nr: "nr_buf2 ?c = 0" "disk ?c = disk c" using assms by (simp_all add: buf_pool_def boot_cache_def)
  have pos: "(0::nat) < NR_BUFS" "NR_BUFS - 1 < NR_BUFS" by simp_all
  have "chain (nextf ?c) (front ?c) [0..<NR_BUFS]" unfolding r by (rule chain_up) (use f(4) in simp_all)
  moreover have "chain (prevf ?c) (rear ?c) (rev [0..<Suc (NR_BUFS - 1)])"
    unfolding r by (rule chain_down [of NR_BUFS]) (use f(5) in simp_all)
  moreover have "Suc (NR_BUFS - 1) = NR_BUFS" by simp
  ultimately have dl: "dll ?c [0..<NR_BUFS]" unfolding dll_def by metis
  have "set [0..<NR_BUFS] = {i. i < NR_BUFS \<and> i \<notin> {} \<and> b_count (bufs ?c i) = 0}"
    using f(3) by (auto simp del: upt_rec_numeral)
  then have "lru_ok ?c [0..<NR_BUFS] {}" using dl r(3) unfolding lru_ok_def by (simp del: upt_rec_numeral)
  moreover have "hash_ok ?c (\<lambda>h. if h = 0 then [0..<NR_BUFS] else []) {}"
  proof -
    have "chain (hashf ?c) (buf_hash ?c 0) [0..<NR_BUFS]" unfolding r(5) if_P [OF refl] by (rule chain_up) (use f(6) in simp_all)
    then show ?thesis unfolding hash_ok_def using r(5) f(1) by (auto simp: hash_key_0 simp del: upt_rec_numeral)
  qed
  moreover have "data_ok ?c {}" unfolding data_ok_def uniq_def clean_ok_def using f by (simp add: small_def)
  moreover have "ram_ok ?c" "coh2 ?c (cached ?c)" unfolding ram_ok_def coh2_def nr by simp_all
  ultimately show "cache_idle ?c" using a(4) [OF pos(1)] r(3,4) unfolding cache_idle_def cache_inv_def cache_mid_def by auto
  show "\<not> cached ?c dev b \<or> dev = NO_DEV" unfolding cached_def is_block_def using f(2) by auto
qed

definition zero_buf :: buf where
  "zero_buf = \<lparr>b_data = (\<lambda>_. 0), b_next = None, b_prev = None, b_hash = None, b_blocknr = 0, b_dev = 0, b_dirt = False, b_count = 0\<rparr>"

text \<open>An instance: a device whose blocks are filled with their number, and a driver that does what it is asked.\<close>

definition good_env :: "io_req list \<Rightarrow> int \<times> nat" where
  "good_env h = (case last h of DevIO w d p \<Rightarrow> (BLOCK_SIZE, 1) | DevVec w d p j \<Rightarrow> (OK, j))"

definition ex_cache :: cache where
  "ex_cache = \<lparr>bufs = (\<lambda>_. zero_buf), buf_hash = (\<lambda>_. None), front = None, rear = None, bufs_in_use = 0,
     buf2s = (\<lambda>_. \<lparr>b2_blocknr = 0, b2_dev = 0, b2_count = 0\<rparr>), nr_buf2 = 0, buf2_idx = 0, rdwt_err = 0,
     disk = (\<lambda>d p n. ucast (p div 1024)), dev_hist = [], dev_env = good_env\<rparr>"

lemma good_env_works: "io_works good_env"
  by (simp add: io_works_def good_env_def)

lemma ex_cache_boot: "boot_cache ex_cache"
  by (simp add: boot_cache_def ex_cache_def zero_buf_def good_env_works)

lemma ex_cache_agrees: "blk_agree (buf_pool ex_cache) (\<lambda>d b. disk ex_cache d (blk_pos b))"
  using buf_pool_idle [OF ex_cache_boot] blk_uncached unfolding blk_agree_def visible_def by metis

subsection \<open>Properties\<close>

text \<open>C29: The block cache is transparent.  Whatever blocks are read, changed or overwritten through
  get_block and put_block, in whatever order and with whatever types of use, every access ends and reads
  what a plain store of blocks would hold at that point, although buffers are evicted, written back in
  groups, kept in the second level cache and read again; this for drivers that transfer what they are
  asked to, and blocks of devices below 4 GB.\<close>

theorem cache_refines_store:
  assumes "cache_idle c" "\<forall>a \<in> set as. acc_ok a c" "blk_agree c m"
  shows "\<exists>xs c'. bc.run as c = Some (xs, c') \<and> cache_idle c'
    \<and> xs = fst (fold (\<lambda>a (xs, m). (xs @ [fst (store_access a m)], snd (store_access a m))) as ([], m))
    \<and> blk_agree c' (snd (fold (\<lambda>a (xs, m). (xs @ [fst (store_access a m)], snd (store_access a m))) as ([], m)))"
  using bc.run_refines [OF assms] by blast

lemma cache_refines_store_witness:
  "\<exists>x xs c'. bc.run [Fetch 769 5 MAP_BLOCK, Modify 769 5 (\<lambda>d. d(0 := 7)) INODE_BLOCK, Fetch 769 5 ONE_SHOT] (buf_pool ex_cache)
     = Some (x # xs, c') \<and> x 3 = 5 \<and> (last xs) 0 = 7 \<and> cache_idle c'"
proof -
  let ?as = "[Fetch 769 5 MAP_BLOCK, Modify 769 5 (\<lambda>d. d(0 := 7)) INODE_BLOCK, Fetch 769 5 ONE_SHOT]"
  have ok: "\<forall>a \<in> set ?as. acc_ok a (buf_pool ex_cache)" by (simp add: acc_ok_def visible_def small_def)
  obtain xs c' where r: "bc.run ?as (buf_pool ex_cache) = Some (xs, c')" "cache_idle c'"
    "xs = fst (fold (\<lambda>a (xs, m). (xs @ [fst (store_access a m)], snd (store_access a m))) ?as ([], \<lambda>d b. disk ex_cache d (blk_pos b)))"
    using cache_refines_store [OF buf_pool_idle(1) [OF ex_cache_boot] ok ex_cache_agrees] by blast
  obtain x y z where xs: "xs = [x, y, z]" "x 3 = 5" "z 0 = 7"
    using r(3) by (simp add: store_upd_def ex_cache_def blk_pos_def)
  show ?thesis by (rule exI [of _ x], rule exI [of _ "[y, z]"], rule exI [of _ c']) (use r xs in simp)
qed

text \<open>C30: flushall writes the dirty blocks of a device, all of them and nothing else: it ends, no buffer of
  the device is dirty afterwards, each dirty buffer is on the device at its position, and everything
  else, on this and on other devices, is as before.\<close>

theorem flushall_cleans:
  assumes "cache_inv c X" "dev \<noteq> NO_DEV"
  shows "\<exists>c'. flushall dev c = Some c' \<and> (\<forall>i < NR_BUFS. b_dev (bufs c' i) = dev \<longrightarrow> \<not> b_dirt (bufs c' i))
    \<and> (\<forall>i < NR_BUFS. b_dev (bufs c i) = dev \<longrightarrow> b_dirt (bufs c i) \<longrightarrow> disk c' dev (bpos c i) = b_data (bufs c i))
    \<and> (\<forall>d p. d \<noteq> dev \<or> (\<forall>i < NR_BUFS. b_dev (bufs c i) = dev \<longrightarrow> b_dirt (bufs c i) \<longrightarrow> p \<noteq> bpos c i) \<longrightarrow> disk c' d p = disk c d p)
    \<and> cache_inv c' X \<and> blk_same c c'"
proof -
  obtain L H where m: "cache_mid c L {} H {} (cached c) X" using assms(1) unfolding cache_inv_def by blast
  then have d: "data_ok c X" "io_works (dev_env c)" unfolding cache_mid_def by blast+
  obtain c' where c': "flushall dev c = Some c'" "flushed dev (dirty_set dev c) c c'"
    using flushall_writes [OF d(2) pos_inj_data [OF d(1) assms(2)]] by blast
  have "cache_inv c' X" using flush_mid [OF m assms(2) c'(2) dirty_dev_set] unfolding cache_inv_def by blast
  moreover have "blk_same c c'" using flush_blk [OF d(1) c'(2) _ _ dirty_dev_set] unfolding blk_same_def visible_def by blast
  moreover have "\<forall>i < NR_BUFS. b_dev (bufs c' i) = dev \<longrightarrow> \<not> b_dirt (bufs c' i)"
    unfolding flushed_fields [OF c'(2)] dirty_set_def by blast
  moreover have "\<forall>i < NR_BUFS. b_dev (bufs c i) = dev \<longrightarrow> b_dirt (bufs c i) \<longrightarrow> disk c' dev (bpos c i) = b_data (bufs c i)"
    using c'(2) unfolding flushed_def dirty_set_def by blast
  moreover have "\<forall>d p. d \<noteq> dev \<or> (\<forall>i < NR_BUFS. b_dev (bufs c i) = dev \<longrightarrow> b_dirt (bufs c i) \<longrightarrow> p \<noteq> bpos c i) \<longrightarrow> disk c' d p = disk c d p"
    using c'(2) unfolding flushed_def dirty_set_def by blast
  ultimately show ?thesis using c'(1) by blast
qed

lemma flushall_cleans_witness: "\<exists>c'. flushall 769 (buf_pool ex_cache) = Some c' \<and> cache_inv c' {}"
proof -
  have "cache_inv (buf_pool ex_cache) {}" using buf_pool_idle(1) [OF ex_cache_boot] unfolding cache_idle_def by blast
  from flushall_cleans [OF this, of 769] show ?thesis by auto
qed

text \<open>C31: The Shell sort of rw_scattered ends and sorts: for buffers with different block numbers it is
  the stable sort of the library.\<close>

theorem shell_sort_sorts:
  assumes "inj_on key (set q)"
  shows "shell_sort key q = Some (sort_key key q)"
  using assms by (rule shell_sort_sort_key)

lemma shell_sort_sorts_witness:
  "shell_sort (\<lambda>i. if i = 3 then 9 else if i = 5 then 4 else 6) [3, 5, 7] = Some [5, 7, 3]"
  using shell_sort_sorts [of "\<lambda>i. if i = 3 then 9 else if i = 5 then 4 else 6" "[3, 5, 7]"] by (simp add: inj_on_def)

text \<open>A write that keeps failing at its first block.\<close>

lemma rw_loop_stuck:
  assumes "\<forall>h d p j. dev_env c (h @ [DevVec WRITING d p j]) = (EIO, 0)" "q \<noteq> []"
  shows "rw_loop dev WRITING q c = None"
proof -
  have "q \<noteq> [] \<longrightarrow> w = WRITING \<longrightarrow> (\<forall>h d p j. dev_env c (h @ [DevVec WRITING d p j]) = (EIO, 0)) \<longrightarrow> False"
    if "rw_loop dev w q c = Some r" for dev w q c r
  proof (rule rw_loop.raw_induct [where P = "\<lambda>dev w q c r. q \<noteq> [] \<longrightarrow> w = WRITING
        \<longrightarrow> (\<forall>h d p j. dev_env c (h @ [DevVec WRITING d p j]) = (EIO, 0)) \<longrightarrow> False", OF _ that])
    fix rec dev w q c r
    assume IH: "\<And>dev w q c r. rec dev w q c = Some r \<Longrightarrow> q \<noteq> [] \<longrightarrow> w = WRITING
        \<longrightarrow> (\<forall>h d p j. dev_env c (h @ [DevVec WRITING d p j]) = (EIO, 0)) \<longrightarrow> False"
      and r: "(case q of [] \<Rightarrow> Some c | i0 # _ \<Rightarrow>
          let key = (\<lambda>i. b_blocknr (bufs c i)); j = run_length key q 0; pos = blk_pos (key i0);
              (a, c1) = ask_dev (DevVec w dev pos j) c; n = min (snd a) j; c2 = transfer_run w dev pos (take n q) c1;
              c3 = harvest w dev (take n q) c2; c4 = (if n = 0 \<and> fst a \<noteq> OK then upd_buf i0 (\<lambda>b. b\<lparr>b_dev := NO_DEV\<rparr>) c3 else c3)
          in if w = READING then Some (put_all (drop n q) c4) else rec dev w (drop n q) c4) = Some r"
    show "q \<noteq> [] \<longrightarrow> w = WRITING \<longrightarrow> (\<forall>h d p j. dev_env c (h @ [DevVec WRITING d p j]) = (EIO, 0)) \<longrightarrow> False"
    proof (intro impI)
      assume q: "q \<noteq> []" and w: "w = WRITING" and e: "\<forall>h d p j. dev_env c (h @ [DevVec WRITING d p j]) = (EIO, 0)"
      obtain i0 q0 where qq: "q = i0 # q0" using q by (cases q) auto
      obtain h where "rec dev WRITING q (upd_buf i0 (\<lambda>b. b\<lparr>b_dev := NO_DEV\<rparr>) (c\<lparr>dev_hist := h\<rparr>)) = Some r"
        using r e unfolding qq w by (simp add: Let_def ask_dev_def)
      from IH [OF this] q e show False by (simp add: upd_buf_def)
    qed
  qed
  with assms show ?thesis by (cases "rw_loop dev WRITING q c") blast+
qed

text \<open>C32: A write error that persists hangs the file system: when the driver cannot write the first block
  of a request, flushall marks the buffer as no block, but does not take it off its list, and asks for it
  again for ever.\<close>

theorem failing_flush_hangs:
  assumes "\<forall>h d p j. dev_env c (h @ [DevVec WRITING d p j]) = (EIO, 0)" "i < NR_BUFS" "b_dev (bufs c i) = dev" "b_dirt (bufs c i)"
  shows "flushall dev c = None"
proof -
  let ?q = "filter (\<lambda>i. b_dirt (bufs c i) \<and> b_dev (bufs c i) = dev) [0..<NR_BUFS]" and ?key = "\<lambda>i. b_blocknr (bufs c i)"
  have "i \<in> set ?q" using assms(2-4) by (simp del: upt_rec_numeral)
  moreover obtain q where q: "shell_sort ?key ?q = Some q" "mset q = mset ?q" using shell_sort_orders by blast
  ultimately have "q \<noteq> []" using mset_eq_setD [OF q(2)] by (metis empty_iff list.set(1))
  then show ?thesis using rw_loop_stuck [OF assms(1)] q(1) unfolding flushall_def rw_scattered_def by (simp del: upt_rec_numeral)
qed

lemma failing_flush_hangs_witness:
  "flushall 769 (ex_cache\<lparr>dev_env := (\<lambda>h. (EIO, 0)), bufs := (\<lambda>_. zero_buf\<lparr>b_dev := 769, b_dirt := True\<rparr>)\<rparr>) = None"
  by (rule failing_flush_hangs [of _ 0]) simp_all

end
