(* ===== verification/FS_State.thy ===== *)
theory FS_State
  imports FS_Store
begin

text \<open>
  The tables of the file system (\<^verbatim>\<open>fs/fproc.h\<close>, \<^verbatim>\<open>fs/file.h\<close>,
  \<^verbatim>\<open>fs/inode.h\<close>, \<^verbatim>\<open>fs/super.h\<close>, \<^verbatim>\<open>fs/lock.h\<close>,
  \<^verbatim>\<open>fs/glo.h\<close>).  Pointers into a table are indices, \<open>None\<close> the null pointer.  The
  fields of the request message that an operation uses are its arguments; \<open>cfp\<close> is the caller's slot
  (\<^verbatim>\<open>fp\<close>).  What the file system asks of the kernel, of tasks and of the memory manager (copies
  to and from users, the time, signals, devices) is recorded in \<open>fs_hist\<close> and answered by \<open>fs_env\<close>, an
  arbitrary function of the requests so far.
\<close>

subsection \<open>Constants\<close>

abbreviation (input) OPEN_MAX :: nat where "OPEN_MAX \<equiv> 20"
abbreviation (input) NR_FILPS :: nat where "NR_FILPS \<equiv> 128"
abbreviation (input) NR_INODES :: nat where "NR_INODES \<equiv> 64"
abbreviation (input) NR_SUPERS :: nat where "NR_SUPERS \<equiv> 8"
abbreviation (input) NR_LOCKS :: nat where "NR_LOCKS \<equiv> 8"
abbreviation (input) NR_FPROCS :: nat where "NR_FPROCS \<equiv> 32"

abbreviation ENOTTY :: int where "ENOTTY \<equiv> -25"
abbreviation ENODEV :: int where "ENODEV \<equiv> -19"
abbreviation ENXIO :: int where "ENXIO \<equiv> -6"
abbreviation ENOTBLK :: int where "ENOTBLK \<equiv> -15"
abbreviation ESPIPE :: int where "ESPIPE \<equiv> -29"
abbreviation EPIPE :: int where "EPIPE \<equiv> -32"
abbreviation ENAMETOOLONG :: int where "ENAMETOOLONG \<equiv> -36"
abbreviation ENOTEMPTY :: int where "ENOTEMPTY \<equiv> -39"
abbreviation EGENERIC :: int where "EGENERIC \<equiv> -99"
abbreviation ENTERMOUNT :: int where "ENTERMOUNT \<equiv> -301"
abbreviation SUSPEND :: int where "SUSPEND \<equiv> -998"

abbreviation XPIPE :: int where "XPIPE \<equiv> -NR_TASKS - 1"
abbreviation XLOCK :: int where "XLOCK \<equiv> -NR_TASKS - 2"
abbreviation XPOPEN :: int where "XPOPEN \<equiv> -NR_TASKS - 3"

abbreviation (input) I_TYPE :: u16 where "I_TYPE \<equiv> 0xF000"
abbreviation (input) I_REGULAR :: u16 where "I_REGULAR \<equiv> 0x8000"
abbreviation (input) I_BLOCK_SPECIAL :: u16 where "I_BLOCK_SPECIAL \<equiv> 0x6000"
abbreviation (input) I_DIRECTORY :: u16 where "I_DIRECTORY \<equiv> 0x4000"
abbreviation (input) I_CHAR_SPECIAL :: u16 where "I_CHAR_SPECIAL \<equiv> 0x2000"
abbreviation (input) I_NAMED_PIPE :: u16 where "I_NAMED_PIPE \<equiv> 0x1000"
abbreviation (input) I_NOT_ALLOC :: u16 where "I_NOT_ALLOC \<equiv> 0"
abbreviation (input) I_SET_UID_BIT :: u16 where "I_SET_UID_BIT \<equiv> 0x800"
abbreviation (input) I_SET_GID_BIT :: u16 where "I_SET_GID_BIT \<equiv> 0x400"
abbreviation (input) ALL_MODES :: u16 where "ALL_MODES \<equiv> 0xDFF"
abbreviation (input) RWX_MODES :: u16 where "RWX_MODES \<equiv> 0x1FF"
abbreviation (input) R_BIT :: u16 where "R_BIT \<equiv> 4"
abbreviation (input) W_BIT :: u16 where "W_BIT \<equiv> 2"
abbreviation (input) X_BIT :: u16 where "X_BIT \<equiv> 1"

abbreviation (input) MAX_FILE_POS :: u32 where "MAX_FILE_POS \<equiv> 0xFFFFFFFF"

text \<open>The flags of \<^verbatim>\<open>open\<close> (\<^verbatim>\<open>include/fcntl.h\<close>).\<close>

abbreviation (input) O_NOCTTY :: u32 where "O_NOCTTY \<equiv> 0x100"
abbreviation (input) O_CREAT :: u32 where "O_CREAT \<equiv> 0x40"
abbreviation (input) O_EXCL :: u32 where "O_EXCL \<equiv> 0x80"
abbreviation (input) O_TRUNC :: u32 where "O_TRUNC \<equiv> 0x200"
abbreviation (input) O_APPEND :: u32 where "O_APPEND \<equiv> 0x400"
abbreviation (input) O_NONBLOCK :: u32 where "O_NONBLOCK \<equiv> 0x800"
abbreviation (input) O_ACCMODE :: u32 where "O_ACCMODE \<equiv> 3"

text \<open>The bits of \<^verbatim>\<open>i_update\<close>.\<close>

abbreviation (input) ATIME :: u8 where "ATIME \<equiv> 2"
abbreviation (input) CTIME :: u8 where "CTIME \<equiv> 4"
abbreviation (input) MTIME :: u8 where "MTIME \<equiv> 8"

subsection \<open>Tables\<close>

record inode =
  i_mode :: u16
  i_nlinks :: "16 word"
  i_uid :: u16
  i_gid :: u8
  i_size :: u32
  i_atime :: u32
  i_mtime :: u32
  i_ctime :: u32
  i_zone :: "nat \<Rightarrow> u32"
  i_dev :: int
  i_num :: u16
  i_count :: int
  i_ndzones :: nat
  i_nindirs :: nat
  i_sp :: "nat option"
  i_dirt :: bool
  i_pipe :: bool
  i_mount :: bool
  i_seek :: bool
  i_update :: u8

record super_block =
  s_ninodes :: u16
  s_nzones :: u16
  s_imap_blocks :: "16 word"
  s_zmap_blocks :: "16 word"
  s_firstdatazone :: u16
  s_log_zone_size :: "16 word"
  s_max_size :: u32
  s_magic :: u16
  s_zones :: u32
  s_isup :: "nat option"
  s_imount :: "nat option"
  s_inodes_per_block :: nat
  s_dev :: int
  s_rd_only :: bool
  s_native :: bool
  s_version :: nat
  s_ndzones :: nat
  s_nindirs :: nat
  s_isearch :: u32
  s_zsearch :: u32

record filp =
  filp_mode :: u16
  filp_flags :: u32
  filp_count :: int
  filp_ino :: "nat option"
  filp_pos :: u32

record fproc =
  fp_umask :: u16
  fp_workdir :: "nat option"
  fp_rootdir :: "nat option"
  fp_filp :: "nat \<Rightarrow> nat option"
  fp_realuid :: u16
  fp_effuid :: u16
  fp_realgid :: u8
  fp_effgid :: u8
  fp_tty :: int
  fp_fd :: int
  fp_buffer :: u32
  fp_nbytes :: int
  fp_cum_io_partial :: int
  fp_suspended :: bool
  fp_revived :: bool
  fp_task :: int
  fp_sesldr :: bool
  fp_pid :: int
  fp_cloexec :: u32

record file_lock =
  lock_type :: nat
  lock_pid :: int
  lock_inode :: "nat option"
  lock_first :: u32
  lock_last :: u32

text \<open>Requests to other processes.\<close>

datatype dev_op = DEV_OPEN | DEV_CLOSE | DEV_READ | DEV_WRITE | DEV_IOCTL | CANCEL

record task_msg =
  tm_op :: dev_op
  tm_device :: int
  tm_proc :: int
  tm_addr :: u32
  tm_pos :: u32
  tm_count :: int
  tm_flags :: u32

datatype fs_req =
    ReqTime
  | ReqSetTime u32
  | ReqTimes int
  | ReqCopyIn int u32 nat
  | ReqCopyOut int u32 nat
  | ReqReply int int
  | ReqKill int int
  | ReqTask int task_msg

text \<open>The device table (\<^verbatim>\<open>fs/dev.h\<close>): the routines are those of \<^verbatim>\<open>device.c\<close>.\<close>

datatype dev_opcl = NoDev | GenOpcl | TtyOpcl | CttyOpcl | CloneOpcl
datatype dev_rw = GenIo | CttyIo | NoIo

record dmap =
  dmap_opcl :: dev_opcl
  dmap_io :: dev_rw
  dmap_task :: int

text \<open>
  The state.  \<open>usr_mem\<close> is the memory of the other processes (process, segment, address), \<open>user_path\<close> the
  buffer of path names, with the bytes that follow it.  The environment consists of the answers to the
  requests so far (\<open>fs_env\<close>), other data in the answers (\<open>fs_data\<close>), and the messages that revive suspended
  processes and arrive while a task is called (\<open>fs_revives\<close>: process and result).
\<close>

record fs =
  cch :: cache
  inodes :: "nat \<Rightarrow> inode"
  supers :: "nat \<Rightarrow> super_block"
  filps :: "nat \<Rightarrow> filp"
  fprocs :: "nat \<Rightarrow> fproc"
  file_locks :: "nat \<Rightarrow> file_lock"
  cfp :: nat
  who :: int
  fs_call :: int
  err_code :: int
  root_dev :: int
  super_user :: bool
  susp_count :: int
  nr_locks :: int
  reviving :: int
  rdahedpos :: u32
  rdahed_inode :: "nat option"
  user_path :: "nat \<Rightarrow> u8"
  reply_l1 :: u32
  reply_i1 :: int
  reply_i2 :: int
  reply_t :: "nat \<Rightarrow> u32"
  dmap_tab :: "nat \<Rightarrow> dmap"
  usr_mem :: "int \<Rightarrow> int \<Rightarrow> u32 \<Rightarrow> u8"
  fs_hist :: "fs_req list"
  fs_env :: "fs_req list \<Rightarrow> int"
  fs_data :: "fs_req list \<Rightarrow> nat \<Rightarrow> u32"
  fs_revives :: "fs_req list \<Rightarrow> (int \<times> int) list"

definition upd_inode :: "nat \<Rightarrow> (inode \<Rightarrow> inode) \<Rightarrow> fs \<Rightarrow> fs" where
  "upd_inode i f s = s\<lparr>inodes := (inodes s)(i := f (inodes s i))\<rparr>"

definition upd_super :: "nat \<Rightarrow> (super_block \<Rightarrow> super_block) \<Rightarrow> fs \<Rightarrow> fs" where
  "upd_super i f s = s\<lparr>supers := (supers s)(i := f (supers s i))\<rparr>"

definition upd_filp :: "nat \<Rightarrow> (filp \<Rightarrow> filp) \<Rightarrow> fs \<Rightarrow> fs" where
  "upd_filp i f s = s\<lparr>filps := (filps s)(i := f (filps s i))\<rparr>"

definition upd_fproc :: "nat \<Rightarrow> (fproc \<Rightarrow> fproc) \<Rightarrow> fs \<Rightarrow> fs" where
  "upd_fproc i f s = s\<lparr>fprocs := (fprocs s)(i := f (fprocs s i))\<rparr>"

definition upd_lock :: "nat \<Rightarrow> (file_lock \<Rightarrow> file_lock) \<Rightarrow> fs \<Rightarrow> fs" where
  "upd_lock i f s = s\<lparr>file_locks := (file_locks s)(i := f (file_locks s i))\<rparr>"

text \<open>A request to another process, and an operation of the cache.\<close>

definition ask_fs :: "fs_req \<Rightarrow> fs \<Rightarrow> int \<times> fs" where
  "ask_fs q s = (let h = fs_hist s @ [q] in (fs_env s h, s\<lparr>fs_hist := h\<rparr>))"

definition on_cache :: "(cache \<Rightarrow> ('a \<times> cache) option) \<Rightarrow> fs \<Rightarrow> ('a \<times> fs) option" where
  "on_cache f s = map_option (\<lambda>(x, c). (x, s\<lparr>cch := c\<rparr>)) (f (cch s))"

lemmas upd_fs_defs = upd_inode_def upd_super_def upd_filp_def upd_fproc_def upd_lock_def

subsection \<open>The memory of users\<close>

abbreviation (input) SEG_T :: int where "SEG_T \<equiv> 0"
abbreviation (input) SEG_D :: int where "SEG_D \<equiv> 1"

definition copy_from_user :: "int \<Rightarrow> int \<Rightarrow> u32 \<Rightarrow> nat \<Rightarrow> fs \<Rightarrow> (int \<times> u8 list) \<times> fs" where
  "copy_from_user usr seg addr n s =
     (let (r, s1) = ask_fs (ReqCopyIn usr addr n) s
      in ((r, if r = OK then map (\<lambda>k. usr_mem s1 usr seg (addr + of_nat k)) [0..<n] else []), s1))"

definition store_bytes :: "u32 \<Rightarrow> u8 list \<Rightarrow> (u32 \<Rightarrow> u8) \<Rightarrow> u32 \<Rightarrow> u8" where
  "store_bytes addr bs m = (\<lambda>a. if unat (a - addr) < length bs then bs ! unat (a - addr) else m a)"

definition copy_to_user :: "int \<Rightarrow> int \<Rightarrow> u32 \<Rightarrow> u8 list \<Rightarrow> fs \<Rightarrow> int \<times> fs" where
  "copy_to_user usr seg addr bs s =
     (let (r, s1) = ask_fs (ReqCopyOut usr addr (length bs)) s
      in (r, if r = OK then s1\<lparr>usr_mem := (usr_mem s1)(usr := (usr_mem s1 usr)(seg := store_bytes addr bs (usr_mem s1 usr seg)))\<rparr> else s1))"

end
