(* ===== verification/FS_Suspend.thy ===== *)
theory FS_Suspend
  imports FS_State
begin

text \<open>
  Blocking a caller and waking it up (\<^verbatim>\<open>fs/pipe.c\<close>, \<^verbatim>\<open>fs/filedes.c\<close>,
  \<^verbatim>\<open>fs/main.c\<close>): suspension on pipes, locks and tasks, and the search for work.
\<close>

subsection \<open>File descriptors\<close>

fun first_fd :: "(nat \<Rightarrow> nat option) \<Rightarrow> nat list \<Rightarrow> nat option" where
  "first_fd tab [] = None"
| "first_fd tab (i # is) = (if tab i = None then Some i else first_fd tab is)"

fun first_free_filp :: "(nat \<Rightarrow> filp) \<Rightarrow> nat list \<Rightarrow> nat option" where
  "first_free_filp tab [] = None"
| "first_free_filp tab (f # fs) = (if filp_count (tab f) = 0 then Some f else first_free_filp tab fs)"

text \<open>\<^verbatim>\<open>get_fd(start, bits, &k, &fpt)\<close>: an error, or the descriptor and the slot.\<close>

definition get_fd :: "nat \<Rightarrow> u16 \<Rightarrow> fs \<Rightarrow> (int + nat \<times> nat) \<times> fs" where
  "get_fd start bits s =
     (case first_fd (fp_filp (fprocs s (cfp s))) [start..<OPEN_MAX] of
        None \<Rightarrow> (Inl EMFILE, s)
      | Some k \<Rightarrow>
          (case first_free_filp (filps s) [0..<NR_FILPS] of
             None \<Rightarrow> (Inl ENFILE, s)
           | Some f \<Rightarrow> (Inr (k, f), upd_filp f (\<lambda>x. x\<lparr>filp_mode := bits, filp_pos := 0, filp_flags := 0\<rparr>) s)))"

definition get_filp :: "int \<Rightarrow> fs \<Rightarrow> nat option \<times> fs" where
  "get_filp fild s =
     (let s1 = s\<lparr>err_code := EBADF\<rparr>
      in (if fild < 0 \<or> fild \<ge> int OPEN_MAX then None else fp_filp (fprocs s1 (cfp s1)) (nat fild), s1))"

definition find_filp :: "nat \<Rightarrow> u16 \<Rightarrow> fs \<Rightarrow> nat option" where
  "find_filp rip bits s =
     find (\<lambda>f. filp_count (filps s f) \<noteq> 0 \<and> filp_ino (filps s f) = Some rip \<and> filp_mode (filps s f) AND bits \<noteq> 0) [0..<NR_FILPS]"

subsection \<open>Suspending and reviving\<close>

text \<open>A reply; its result is ignored.\<close>

definition fs_reply :: "int \<Rightarrow> int \<Rightarrow> fs \<Rightarrow> fs" where
  "fs_reply whom result s = snd (ask_fs (ReqReply whom result) s)"

text \<open>
  \<^verbatim>\<open>suspend(task)\<close>; \<open>fild\<close>, \<open>buf\<close> and \<open>nb\<close> are the fields \<^verbatim>\<open>m1_i1\<close>,
  \<^verbatim>\<open>m1_p1\<close> (\<^verbatim>\<open>buffer\<close> and \<^verbatim>\<open>name1\<close>) and \<^verbatim>\<open>m1_i2\<close>
  (\<^verbatim>\<open>nbytes\<close> and \<^verbatim>\<open>request\<close>) of the message.
\<close>

definition suspend :: "int \<Rightarrow> int \<Rightarrow> u32 \<Rightarrow> int \<Rightarrow> fs \<Rightarrow> fs" where
  "suspend task fild buf nb s =
     (let s1 = (if task = XPIPE \<or> task = XPOPEN then s\<lparr>susp_count := susp_count s + 1\<rparr> else s)
      in upd_fproc (cfp s1) (\<lambda>p. p\<lparr>fp_suspended := True, fp_fd := fild * 256 + fs_call s1, fp_task := - task,
           fp_buffer := buf, fp_nbytes := nb\<rparr>) s1)"

definition revive :: "int \<Rightarrow> int \<Rightarrow> fs \<Rightarrow> fs option" where
  "revive proc_nr bytes s =
     (if proc_nr < 0 \<or> proc_nr \<ge> NR_PROCS then None
      else let rfp = nat proc_nr; p = fprocs s rfp; task = - fp_task p
           in if \<not> fp_suspended p \<or> fp_revived p then Some s
              else if task = XPIPE \<or> task = XLOCK
              then Some ((upd_fproc rfp (\<lambda>p. p\<lparr>fp_revived := True\<rparr>) s)\<lparr>reviving := reviving s + 1\<rparr>)
              else let s1 = upd_fproc rfp (\<lambda>p. p\<lparr>fp_suspended := False\<rparr>) s
                   in if task = XPOPEN then Some (fs_reply proc_nr (fp_fd p div 256) s1)
                      else Some (fs_reply proc_nr bytes (upd_fproc rfp (\<lambda>p. p\<lparr>fp_nbytes := bytes\<rparr>) s1)))"

text \<open>
  \<^verbatim>\<open>release()\<close>: \<open>None\<close> where the code would follow a null pointer (a process suspended on
  a descriptor that is not open).
\<close>

fun release_loop :: "nat list \<Rightarrow> nat \<Rightarrow> int \<Rightarrow> int \<Rightarrow> fs \<Rightarrow> fs option" where
  "release_loop [] ip call_nr cnt s = Some s"
| "release_loop (rp # rps) ip call_nr cnt s =
     (let p = fprocs s rp
      in if fp_suspended p \<and> \<not> fp_revived p \<and> fp_fd p mod 256 = call_nr
         then (case fp_filp p (nat (fp_fd p div 256)) of
                 None \<Rightarrow> None
               | Some f \<Rightarrow>
                   if filp_ino (filps s f) = Some ip
                   then do {
                     s1 \<leftarrow> revive (int rp) 0 s;
                     let s2 = s1\<lparr>susp_count := susp_count s1 - 1\<rparr>;
                     if cnt - 1 = 0 then Some s2 else release_loop rps ip call_nr (cnt - 1) s2
                   }
                   else release_loop rps ip call_nr cnt s)
         else release_loop rps ip call_nr cnt s)"

definition release :: "nat \<Rightarrow> int \<Rightarrow> int \<Rightarrow> fs \<Rightarrow> fs option" where
  "release ip call_nr cnt s = release_loop [0..<NR_FPROCS] ip call_nr cnt s"

text \<open>
  \<^verbatim>\<open>get_work()\<close>: a process to be revived goes first; its saved parameters (descriptor, buffer,
  count) are those of its call.  Otherwise the next message is \<open>msg\<close>, the caller and the number of the call.
\<close>

fun first_revived :: "(nat \<Rightarrow> fproc) \<Rightarrow> nat list \<Rightarrow> nat option" where
  "first_revived tab [] = None"
| "first_revived tab (p # ps) = (if fp_revived (tab p) then Some p else first_revived tab ps)"

definition fs_get_work :: "int \<times> int \<Rightarrow> fs \<Rightarrow> ((int \<times> u32 \<times> int) option \<times> fs) option" where
  "fs_get_work msg s =
     (if reviving s \<noteq> 0
      then (case first_revived (fprocs s) [0..<NR_FPROCS] of
              None \<Rightarrow> None
            | Some rp \<Rightarrow>
                let p = fprocs s rp;
                    s1 = s\<lparr>who := int rp, fs_call := fp_fd p mod 256, reviving := reviving s - 1\<rparr>
                in Some (Some ((fp_fd p div 256) mod 256, fp_buffer p, fp_nbytes p),
                     upd_fproc rp (\<lambda>p. p\<lparr>fp_suspended := False, fp_revived := False\<rparr>) s1))
      else Some (None, s\<lparr>who := fst msg, fs_call := snd msg\<rparr>))"

end
