(* ===== verification/FS_Lock.thy ===== *)
theory FS_Lock
  imports FS_Suspend
begin

text \<open>
  Advisory file locking (\<^verbatim>\<open>fs/lock.c\<close>).
\<close>

abbreviation (input) F_GETLK :: int where "F_GETLK \<equiv> 5"
abbreviation (input) F_SETLK :: int where "F_SETLK \<equiv> 6"
abbreviation (input) F_SETLKW :: int where "F_SETLKW \<equiv> 7"
abbreviation (input) F_RDLCK :: nat where "F_RDLCK \<equiv> 1"
abbreviation (input) F_WRLCK :: nat where "F_WRLCK \<equiv> 2"
abbreviation (input) F_UNLCK :: nat where "F_UNLCK \<equiv> 3"

record flock =
  l_type :: nat
  l_whence :: nat
  l_start :: u32
  l_len :: u32
  l_pid :: int

subsection \<open>Waking waiting processes\<close>

fun revive_locked :: "nat list \<Rightarrow> fs \<Rightarrow> fs option" where
  "revive_locked [] s = Some s"
| "revive_locked (p # ps) s =
     do {
       s1 \<leftarrow> (if fp_suspended (fprocs s p) \<and> - fp_task (fprocs s p) = XLOCK then revive (int p) 0 s else Some s);
       revive_locked ps s1
     }"

definition lock_revive :: "fs \<Rightarrow> fs option" where
  "lock_revive s = revive_locked [nat INIT_PROC_NR + 1..<NR_FPROCS] s"

subsection \<open>The table\<close>

text \<open>A request: its type, the inode, the region, the command, the caller's process id.\<close>

record lock_req =
  q_type :: nat
  q_ino :: "nat option"
  q_first :: u32
  q_last :: u32
  q_cmd :: int
  q_pid :: int

text \<open>Whether a slot of the table is passed over by the search for conflicts.\<close>

definition no_conflict :: "lock_req \<Rightarrow> file_lock \<Rightarrow> bool" where
  "no_conflict q l \<longleftrightarrow>
     lock_inode l \<noteq> q_ino q \<or> q_last q < lock_first l \<or> q_first q > lock_last l
     \<or> (q_type q = F_RDLCK \<and> lock_type l = F_RDLCK)
     \<or> (q_type q \<noteq> F_UNLCK \<and> lock_pid l = q_pid q)"

text \<open>How the search ends: by a return, at a conflicting lock (\<^verbatim>\<open>F_GETLK\<close>), or at the end of the table.\<close>

datatype lock_scan = ScanRet int | ScanFound nat | ScanEnd "nat option" bool

text \<open>
  Unlocking the region in one lock: the lock goes, or loses its beginning, its end, or its middle, in
  which case a free slot takes the rest.
\<close>

definition unlock_one :: "lock_req \<Rightarrow> nat \<Rightarrow> fs \<Rightarrow> (bool \<times> fs) option" where
  "unlock_one q i s =
     (let l = file_locks s i
      in if q_first q \<le> lock_first l \<and> q_last q \<ge> lock_last l
         then Some (True, (upd_lock i (\<lambda>l. l\<lparr>lock_type := 0\<rparr>) s)\<lparr>nr_locks := nr_locks s - 1\<rparr>)
         else if q_first q \<le> lock_first l then Some (True, upd_lock i (\<lambda>l. l\<lparr>lock_first := q_last q + 1\<rparr>) s)
         else if q_last q \<ge> lock_last l then Some (True, upd_lock i (\<lambda>l. l\<lparr>lock_last := q_first q - 1\<rparr>) s)
         else if nr_locks s = int NR_LOCKS then Some (False, s)
         else case find (\<lambda>j. lock_type (file_locks s j) = 0) [0..<NR_LOCKS] of
                None \<Rightarrow> None
              | Some j \<Rightarrow>
                  let s1 = upd_lock j (\<lambda>k. k\<lparr>lock_type := lock_type l, lock_pid := lock_pid l, lock_inode := lock_inode l,
                             lock_first := q_last q + 1, lock_last := lock_last l\<rparr>) s;
                      s2 = upd_lock i (\<lambda>l. l\<lparr>lock_last := q_first q - 1\<rparr>) s1
                  in Some (True, s2\<lparr>nr_locks := nr_locks s2 + 1\<rparr>))"

fun lock_loop :: "lock_req \<Rightarrow> (fs \<Rightarrow> fs) \<Rightarrow> nat list \<Rightarrow> nat option \<Rightarrow> bool \<Rightarrow> fs \<Rightarrow> (lock_scan \<times> fs) option" where
  "lock_loop q susp [] emp unlocking s = Some (ScanEnd emp unlocking, s)"
| "lock_loop q susp (i # is) emp unlocking s =
     (let l = file_locks s i
      in if lock_type l = 0 then lock_loop q susp is (if emp = None then Some i else emp) unlocking s
         else if no_conflict q l then lock_loop q susp is emp unlocking s
         else if q_cmd q = F_GETLK then Some (ScanFound i, s)
         else if q_type q = F_RDLCK \<or> q_type q = F_WRLCK
         then (if q_cmd q = F_SETLK then Some (ScanRet EAGAIN, s) else Some (ScanRet SUSPEND, susp s))
         else do {
           (ok, s1) \<leftarrow> unlock_one q i s;
           if ok then lock_loop q susp is emp True s1 else Some (ScanRet ENOLCK, s1)
         })"

subsection \<open>The operation\<close>

text \<open>The checks before the table is searched, and the region.\<close>

definition lock_refused :: "nat \<Rightarrow> nat \<Rightarrow> int \<Rightarrow> flock \<Rightarrow> fs \<Rightarrow> int option" where
  "lock_refused f ip req fl s =
     (let ltype = l_type fl; mo = filp_mode (filps s f)
      in if ltype \<noteq> F_UNLCK \<and> ltype \<noteq> F_RDLCK \<and> ltype \<noteq> F_WRLCK then Some EINVAL
         else if req = F_GETLK \<and> ltype = F_UNLCK then Some EINVAL
         else if i_mode (inodes s ip) AND I_TYPE \<noteq> I_REGULAR then Some EINVAL
         else if req \<noteq> F_GETLK \<and> ltype = F_RDLCK \<and> mo AND R_BIT = 0 then Some EBADF
         else if req \<noteq> F_GETLK \<and> ltype = F_WRLCK \<and> mo AND W_BIT = 0 then Some EBADF
         else if l_whence fl > 2 then Some EINVAL
         else None)"

definition lock_region :: "nat \<Rightarrow> nat \<Rightarrow> flock \<Rightarrow> fs \<Rightarrow> (u32 \<times> u32) option" where
  "lock_region f ip fl s =
     (let first0 = (if l_whence fl = 0 then 0 else if l_whence fl = 1 then filp_pos (filps s f) else i_size (inodes s ip))
      in if sint (l_start fl) > 0 \<and> first0 + l_start fl < first0 then None
         else if sint (l_start fl) < 0 \<and> first0 + l_start fl > first0 then None
         else let first = first0 + l_start fl;
                  last0 = (if l_len fl = 0 then MAX_FILE_POS else first + l_len fl - 1)
              in if last0 < first then None else Some (first, last0))"

text \<open>
  \<^verbatim>\<open>lock_op(f, req)\<close> on the structure \<open>fl\<close> that the user's address \<open>uaddr\<close> holds.  The caller's
  descriptor \<open>fild\<close> is kept for a suspended call.  What \<^verbatim>\<open>F_GETLK\<close> copies back is the second
  component of the result.
\<close>

definition lock_reply :: "flock \<Rightarrow> nat option \<Rightarrow> fs \<Rightarrow> flock" where
  "lock_reply fl found s =
     (case found of
        Some i \<Rightarrow> let l = file_locks s i
                  in fl\<lparr>l_type := lock_type l, l_whence := 0, l_start := lock_first l,
                        l_len := lock_last l - lock_first l + 1, l_pid := lock_pid l\<rparr>
      | None \<Rightarrow> fl\<lparr>l_type := F_UNLCK\<rparr>)"

definition lock_enter :: "lock_req \<Rightarrow> nat \<Rightarrow> fs \<Rightarrow> fs" where
  "lock_enter q e s =
     (upd_lock e (\<lambda>l. l\<lparr>lock_type := q_type q, lock_pid := q_pid q, lock_inode := q_ino q, lock_first := q_first q,
        lock_last := q_last q\<rparr>) s)\<lparr>nr_locks := nr_locks s + 1\<rparr>"

definition lock_table :: "lock_req \<Rightarrow> (fs \<Rightarrow> fs) \<Rightarrow> fs \<Rightarrow> (lock_scan \<times> fs) option" where
  "lock_table q susp s =
     do {
       (r, s1) \<leftarrow> lock_loop q susp [0..<NR_LOCKS] None False s;
       case r of
         ScanRet e \<Rightarrow> Some (ScanRet e, s1)
       | ScanFound i \<Rightarrow> Some (ScanFound i, s1)
       | ScanEnd emp unlocking \<Rightarrow> do {
           s2 \<leftarrow> (if unlocking then lock_revive s1 else Some s1);
           Some (if q_cmd q = F_GETLK then (ScanEnd emp unlocking, s2)
                 else if q_type q = F_UNLCK then (ScanRet OK, s2)
                 else case emp of None \<Rightarrow> (ScanRet ENOLCK, s2) | Some e \<Rightarrow> (ScanRet OK, lock_enter q e s2))
         }
     }"

definition lock_op :: "nat \<Rightarrow> int \<Rightarrow> int \<Rightarrow> u32 \<Rightarrow> flock \<Rightarrow> fs \<Rightarrow> (int \<times> flock option \<times> fs) option" where
  "lock_op f req fild uaddr fl s =
     (let (r, s0) = ask_fs (ReqCopyIn (who s) uaddr 16) s
      in if r \<noteq> OK then Some (EINVAL, None, s0)
         else case filp_ino (filps s0 f) of None \<Rightarrow> None | Some ip \<Rightarrow>
         case lock_refused f ip req fl s0 of Some e \<Rightarrow> Some (e, None, s0) | None \<Rightarrow>
         case lock_region f ip fl s0 of
           None \<Rightarrow> Some (EINVAL, None, s0)
         | Some (first, last0) \<Rightarrow>
             let q = \<lparr>q_type = l_type fl, q_ino = Some ip, q_first = first, q_last = last0, q_cmd = req,
                      q_pid = fp_pid (fprocs s0 (cfp s0))\<rparr>
             in do {
               (r, s1) \<leftarrow> lock_table q (suspend XLOCK fild uaddr req) s0;
               case r of
                 ScanRet e \<Rightarrow> Some (e, None, s1)
               | ScanFound i \<Rightarrow> let (r2, s2) = ask_fs (ReqCopyOut (who s1) uaddr 16) s1 in Some (r2, Some (lock_reply fl (Some i) s1), s2)
               | ScanEnd _ _ \<Rightarrow> let (r2, s2) = ask_fs (ReqCopyOut (who s1) uaddr 16) s1 in Some (r2, Some (lock_reply fl None s1), s2)
             })"

end
