(* ===== verification/FS_Example.thy ===== *)
theory FS_Example
  imports FS_Lock FS_Cache_Theorems
begin

text \<open>A small state of the file system, for instances of its properties.\<close>

definition zero_inode :: inode where
  "zero_inode = \<lparr>i_mode = 0, i_nlinks = 0, i_uid = 0, i_gid = 0, i_size = 0, i_atime = 0, i_mtime = 0, i_ctime = 0,
     i_zone = (\<lambda>_. 0), i_dev = 0, i_num = 0, i_count = 0, i_ndzones = 7, i_nindirs = 256, i_sp = None, i_dirt = False,
     i_pipe = False, i_mount = False, i_seek = False, i_update = 0\<rparr>"

definition zero_super :: super_block where
  "zero_super = \<lparr>s_ninodes = 0, s_nzones = 0, s_imap_blocks = 0, s_zmap_blocks = 0, s_firstdatazone = 0, s_log_zone_size = 0,
     s_max_size = 0, s_magic = 0, s_zones = 0, s_isup = None, s_imount = None, s_inodes_per_block = 0, s_dev = 0,
     s_rd_only = False, s_native = True, s_version = 2, s_ndzones = 7, s_nindirs = 256, s_isearch = 0, s_zsearch = 0\<rparr>"

definition zero_filp :: filp where
  "zero_filp = \<lparr>filp_mode = 0, filp_flags = 0, filp_count = 0, filp_ino = None, filp_pos = 0\<rparr>"

definition zero_fproc :: fproc where
  "zero_fproc = \<lparr>fp_umask = 0, fp_workdir = None, fp_rootdir = None, fp_filp = (\<lambda>_. None), fp_realuid = 0, fp_effuid = 0,
     fp_realgid = 0, fp_effgid = 0, fp_tty = 0, fp_fd = 0, fp_buffer = 0, fp_nbytes = 0, fp_cum_io_partial = 0,
     fp_suspended = False, fp_revived = False, fp_task = 0, fp_sesldr = False, fp_pid = 0, fp_cloexec = 0\<rparr>"

definition zero_lock :: file_lock where
  "zero_lock = \<lparr>lock_type = 0, lock_pid = 0, lock_inode = None, lock_first = 0, lock_last = 0\<rparr>"

text \<open>Process 3 with the process id 5 is the caller; the file of inode 2 is open in slot 0 of the table of open files.\<close>

definition ex_fs :: fs where
  "ex_fs = \<lparr>cch = buf_pool ex_cache,
     inodes = (\<lambda>_. zero_inode)(2 := zero_inode\<lparr>i_mode := 0x81A4, i_nlinks := 1, i_size := 100, i_dev := 769, i_num := 9, i_count := 1\<rparr>),
     supers = (\<lambda>_. zero_super),
     filps = (\<lambda>_. zero_filp)(0 := zero_filp\<lparr>filp_mode := 6, filp_count := 1, filp_ino := Some 2, filp_pos := 7\<rparr>),
     fprocs = (\<lambda>_. zero_fproc)(3 := zero_fproc\<lparr>fp_pid := 5, fp_filp := (\<lambda>_. None)(0 := Some 0)\<rparr>),
     file_locks = (\<lambda>_. zero_lock), cfp = 3, who = 3, fs_call = 0, err_code = 0, root_dev = 769, super_user = False,
     susp_count = 0, nr_locks = 0, reviving = 0, rdahedpos = 0, rdahed_inode = None, user_path = (\<lambda>_. 0),
     reply_l1 = 0, reply_i1 = 0, reply_i2 = 0, reply_t = (\<lambda>_. 0), dmap_tab = (\<lambda>_. \<lparr>dmap_opcl = NoDev, dmap_io = NoIo, dmap_task = 0\<rparr>),
     usr_mem = (\<lambda>_ _ _. 0), fs_hist = [], fs_env = (\<lambda>_. OK), fs_data = (\<lambda>_ _. 0), fs_revives = (\<lambda>_. [])\<rparr>"

text \<open>Process 7 holds bytes 10 to 19 of the file for writing.\<close>

definition ex_locked :: fs where
  "ex_locked = ex_fs\<lparr>file_locks := (\<lambda>_. zero_lock)(0 := \<lparr>lock_type = F_WRLCK, lock_pid = 7, lock_inode = Some 2, lock_first = 10, lock_last = 19\<rparr>),
     nr_locks := 1\<rparr>"

end
