(* ===== verification/FS_Lock_Theorems.thy ===== *)
theory FS_Lock_Theorems
  imports FS_Example
begin

text \<open>
  What the table of locks means: \<open>held s\<close> is the set of bytes locked, with the inode, the process and
  the kind of lock.  Setting a lock adds its bytes, unlocking takes the bytes of the region away, and no
  two processes ever hold conflicting locks on a byte.
\<close>

subsection \<open>Regions of bytes\<close>

lemma succ_le_word: "(l :: u32) < m \<Longrightarrow> l + 1 \<le> b \<longleftrightarrow> l < b"
proof -
  assume "l < m"
  then have "unat l < 2 ^ 32 - 1" using unsigned_less [of m, where ?'a = nat] by (simp add: word_less_nat_alt)
  then have "unat (l + 1) = unat l + 1" by (simp add: unat_word_ariths)
  then show ?thesis by (simp add: word_less_nat_alt word_le_nat_alt Suc_le_eq)
qed

lemma le_pred_word: "(l :: u32) < f \<Longrightarrow> b \<le> f - 1 \<longleftrightarrow> b < f"
proof -
  assume "l < f"
  then have "1 \<le> f" "0 < unat f" by (simp_all add: word_less_nat_alt word_le_nat_alt)
  then have "unat (f - 1) = unat f - 1" by (simp add: unat_sub)
  with \<open>0 < unat f\<close> show ?thesis by (auto simp: word_less_nat_alt word_le_nat_alt)
qed

type_synonym held_byte = "nat option \<times> int \<times> nat \<times> u32"

definition slot_bytes :: "file_lock \<Rightarrow> held_byte set" where
  "slot_bytes l = {(ino, p, t, b). lock_type l \<noteq> 0 \<and> ino = lock_inode l \<and> p = lock_pid l \<and> t = lock_type l
     \<and> lock_first l \<le> b \<and> b \<le> lock_last l}"

definition held :: "fs \<Rightarrow> held_byte set" where
  "held s = (\<Union>i < NR_LOCKS. slot_bytes (file_locks s i))"

text \<open>The bytes of a region of an inode, whoever holds them.\<close>

definition region :: "lock_req \<Rightarrow> held_byte set" where
  "region q = {(ino, p, t, b). ino = q_ino q \<and> q_first q \<le> b \<and> b \<le> q_last q}"

text \<open>Well-formed tables: the count is right, and every lock has a kind and a region that is not empty.\<close>

definition locks_ok :: "fs \<Rightarrow> bool" where
  "locks_ok s \<longleftrightarrow> nr_locks s = int (card {i. i < NR_LOCKS \<and> lock_type (file_locks s i) \<noteq> 0})
     \<and> (\<forall>i < NR_LOCKS. lock_type (file_locks s i) \<noteq> 0 \<longrightarrow> lock_type (file_locks s i) \<in> {F_RDLCK, F_WRLCK}
          \<and> lock_first (file_locks s i) \<le> lock_last (file_locks s i))"

text \<open>Two processes that hold a byte hold it for reading.\<close>

definition compatible :: "fs \<Rightarrow> bool" where
  "compatible s \<longleftrightarrow> (\<forall>ino p t p' t' b. (ino, p, t, b) \<in> held s \<longrightarrow> (ino, p', t', b) \<in> held s \<longrightarrow> p \<noteq> p'
     \<longrightarrow> t = F_RDLCK \<and> t' = F_RDLCK)"

lemma compatible_mono: "held s' \<subseteq> held s \<Longrightarrow> compatible s \<Longrightarrow> compatible s'"
  unfolding compatible_def by blast

definition lock_frame :: "fs \<Rightarrow> fs \<Rightarrow> bool" where
  "lock_frame s s' \<longleftrightarrow> s' = s\<lparr>file_locks := file_locks s', nr_locks := nr_locks s'\<rparr>"

lemma lock_frame_refl [simp]: "lock_frame s s"
  by (simp add: lock_frame_def)

lemma lock_frame_trans: "lock_frame s s1 \<Longrightarrow> lock_frame s1 s2 \<Longrightarrow> lock_frame s s2"
proof -
  assume a: "lock_frame s s1" "lock_frame s1 s2"
  have "s2 = s1\<lparr>file_locks := file_locks s2, nr_locks := nr_locks s2\<rparr>" using a(2) unfolding lock_frame_def .
  also have "\<dots> = s\<lparr>file_locks := file_locks s2, nr_locks := nr_locks s2\<rparr>"
    by (subst a(1) [unfolded lock_frame_def]) simp
  finally show ?thesis unfolding lock_frame_def .
qed

lemma card_slot:
  "i < n \<Longrightarrow> card {k. k < n \<and> P k} = card {k. k < n \<and> k \<noteq> i \<and> P k} + (if P i then 1 else 0)" for n :: nat
proof -
  assume "i < n"
  then have "{k. k < n \<and> P k} = (if P i then insert i {k. k < n \<and> k \<noteq> i \<and> P k} else {k. k < n \<and> k \<noteq> i \<and> P k})" by auto
  then show ?thesis by simp
qed

text \<open>Replacing one slot of a well-formed table.\<close>

lemma locks_ok_upd:
  assumes "locks_ok s" "i < NR_LOCKS" "lock_type l \<noteq> 0 \<longrightarrow> lock_type l \<in> {F_RDLCK, F_WRLCK} \<and> lock_first l \<le> lock_last l"
    "n = nr_locks s - (if lock_type (file_locks s i) \<noteq> 0 then 1 else 0) + (if lock_type l \<noteq> 0 then 1 else 0)"
  shows "locks_ok (s\<lparr>file_locks := (file_locks s)(i := l), nr_locks := n\<rparr>)"
proof -
  let ?s = "s\<lparr>file_locks := (file_locks s)(i := l), nr_locks := n\<rparr>"
  have "{k. k < NR_LOCKS \<and> k \<noteq> i \<and> lock_type (file_locks ?s k) \<noteq> 0} = {k. k < NR_LOCKS \<and> k \<noteq> i \<and> lock_type (file_locks s k) \<noteq> 0}" by auto
  then have "nr_locks ?s = int (card {k. k < NR_LOCKS \<and> lock_type (file_locks ?s k) \<noteq> 0})"
    using assms(1,4) card_slot [OF assms(2), of "\<lambda>k. lock_type (file_locks s k) \<noteq> 0"]
      card_slot [OF assms(2), of "\<lambda>k. lock_type (file_locks ?s k) \<noteq> 0"] unfolding locks_ok_def by simp
  then show ?thesis using assms(1,3) unfolding locks_ok_def by simp
qed

lemma held_upd:
  assumes "i < NR_LOCKS"
  shows "held (s\<lparr>file_locks := (file_locks s)(i := l), nr_locks := n\<rparr>) = slot_bytes l \<union> (\<Union>k \<in> {..<NR_LOCKS} - {i}. slot_bytes (file_locks s k))"
  using assms unfolding held_def by (auto split: if_splits)

lemma held_split:
  assumes "i < NR_LOCKS"
  shows "held s = slot_bytes (file_locks s i) \<union> (\<Union>k \<in> {..<NR_LOCKS} - {i}. slot_bytes (file_locks s k))"
  using assms unfolding held_def by auto

subsection \<open>Unlocking\<close>

definition cleared :: "lock_req \<Rightarrow> fs \<Rightarrow> nat \<Rightarrow> bool" where
  "cleared q s i \<longleftrightarrow> slot_bytes (file_locks s i) \<inter> region q = {}"

text \<open>The effect of unlocking on the table: bytes outside the region stay, cleared slots stay cleared.\<close>

definition unlocked :: "lock_req \<Rightarrow> fs \<Rightarrow> fs \<Rightarrow> bool" where
  "unlocked q s s' \<longleftrightarrow> locks_ok s' \<and> lock_frame s s' \<and> held s' \<subseteq> held s \<and> held s - region q \<subseteq> held s'
     \<and> (\<forall>i < NR_LOCKS. cleared q s i \<longrightarrow> cleared q s' i)"

lemma unlocked_refl: "locks_ok s \<Longrightarrow> unlocked q s s"
  unfolding unlocked_def by simp

lemma unlocked_trans: "unlocked q s s1 \<Longrightarrow> unlocked q s1 s2 \<Longrightarrow> unlocked q s s2"
  unfolding unlocked_def using lock_frame_trans by blast

text \<open>A slot replaced by a lock that is the old one less the region, with a count to match.\<close>

lemma unlocked_slot:
  assumes "locks_ok s" "i < NR_LOCKS" "slot_bytes l = slot_bytes (file_locks s i) - region q"
    "lock_type l \<noteq> 0 \<longrightarrow> lock_type l \<in> {F_RDLCK, F_WRLCK} \<and> lock_first l \<le> lock_last l"
    "n = nr_locks s - (if lock_type (file_locks s i) \<noteq> 0 then 1 else 0) + (if lock_type l \<noteq> 0 then 1 else 0)"
  shows "unlocked q s (s\<lparr>file_locks := (file_locks s)(i := l), nr_locks := n\<rparr>)
    \<and> cleared q (s\<lparr>file_locks := (file_locks s)(i := l), nr_locks := n\<rparr>) i"
  using locks_ok_upd [OF assms(1,2,4,5)] assms(3)
  unfolding unlocked_def held_upd [OF assms(2)] held_split [OF assms(2), of s]
  by (auto simp: lock_frame_def cleared_def)

lemma found_in_table: "find P [0..<n] = Some j \<Longrightarrow> j < n \<and> P j"
  by (auto simp: find_Some_iff simp del: upt_rec_numeral)

lemma unlock_one_spec:
  assumes "locks_ok s" "i < NR_LOCKS" "lock_type (file_locks s i) \<noteq> 0" "q_type q = F_UNLCK" "\<not> no_conflict q (file_locks s i)"
  shows "\<exists>ok s'. unlock_one q i s = Some (ok, s') \<and> unlocked q s s' \<and> (ok \<longrightarrow> cleared q s' i)"
proof -
  let ?l = "file_locks s i"
  have c: "lock_inode ?l = q_ino q" "lock_first ?l \<le> q_last q" "q_first q \<le> lock_last ?l"
    using assms(5) unfolding no_conflict_def by auto
  have l: "lock_type ?l \<in> {F_RDLCK, F_WRLCK}" "lock_first ?l \<le> lock_last ?l" using assms(1-3) unfolding locks_ok_def by blast+
  have e: "s\<lparr>file_locks := (file_locks s)(i := x)\<rparr> = s\<lparr>file_locks := (file_locks s)(i := x), nr_locks := nr_locks s\<rparr>" for x by simp
  consider (whole) "q_first q \<le> lock_first ?l" "q_last q \<ge> lock_last ?l"
    | (start) "q_first q \<le> lock_first ?l" "q_last q < lock_last ?l" | (stop) "lock_first ?l < q_first q" "q_last q \<ge> lock_last ?l"
    | (mid) "lock_first ?l < q_first q" "q_last q < lock_last ?l" by force
  then show ?thesis
  proof cases
    case whole
    let ?n = "?l\<lparr>lock_type := 0\<rparr>"
    have "slot_bytes ?n = slot_bytes ?l - region q" using whole c(1) by (auto simp: slot_bytes_def region_def)
    from unlocked_slot [OF assms(1,2) this] assms(3) whole show ?thesis by (auto simp: unlock_one_def Let_def upd_lock_def)
  next
    case start
    let ?n = "?l\<lparr>lock_first := q_last q + 1\<rparr>"
    note w = succ_le_word [OF start(2)]
    have t: "lock_first ?l \<le> b \<Longrightarrow> q_first q \<le> b" "q_last q < b \<Longrightarrow> lock_first ?l \<le> b" for b
      using start(1) c(2) by (blast intro: order_trans less_imp_le)+
    have "slot_bytes ?n = slot_bytes ?l - region q"
      by (rule set_eqI) (auto simp: slot_bytes_def region_def w c(1) not_le dest: t)
    moreover have "unlock_one q i s = Some (True, s\<lparr>file_locks := (file_locks s)(i := ?n), nr_locks := nr_locks s\<rparr>)"
      using start unfolding unlock_one_def by (simp add: Let_def upd_lock_def not_le e [symmetric])
    moreover have "lock_first ?n \<le> lock_last ?n" using w start(2) by simp
    ultimately show ?thesis using unlocked_slot [OF assms(1,2), of ?n q "nr_locks s"] assms(3) l(1)
      by (intro exI [of _ True] exI) simp
  next
    case stop
    let ?n = "?l\<lparr>lock_last := q_first q - 1\<rparr>"
    note w = le_pred_word [OF stop(1)]
    have t: "b \<le> lock_last ?l \<Longrightarrow> b \<le> q_last q" "b < q_first q \<Longrightarrow> b \<le> lock_last ?l" for b
      using stop(2) c(3) by (blast intro: order_trans less_imp_le)+
    have "slot_bytes ?n = slot_bytes ?l - region q"
      by (rule set_eqI) (auto simp: slot_bytes_def region_def w c(1) not_le dest: t)
    moreover have "unlock_one q i s = Some (True, s\<lparr>file_locks := (file_locks s)(i := ?n), nr_locks := nr_locks s\<rparr>)"
      using stop unfolding unlock_one_def by (simp add: Let_def upd_lock_def not_le e [symmetric])
    moreover have "lock_first ?n \<le> lock_last ?n" using w stop(1) by simp
    ultimately show ?thesis using unlocked_slot [OF assms(1,2), of ?n q "nr_locks s"] assms(3) l(1)
      by (intro exI [of _ True] exI) simp
  next
    case mid
    note w = succ_le_word [OF mid(2)] le_pred_word [OF mid(1)]
    show ?thesis
    proof (cases "nr_locks s = int NR_LOCKS")
      case True
      then have "unlock_one q i s = Some (False, s)" using mid by (simp add: unlock_one_def Let_def not_le)
      then show ?thesis using unlocked_refl [OF assms(1)] by blast
    next
      case False
      have "\<exists>j < NR_LOCKS. lock_type (file_locks s j) = 0"
      proof (rule ccontr)
        assume "\<not> ?thesis"
        then have "{j. j < NR_LOCKS \<and> lock_type (file_locks s j) \<noteq> 0} = {..<NR_LOCKS}" by auto
        with assms(1) False show False unfolding locks_ok_def by simp
      qed
      then have "find (\<lambda>j. lock_type (file_locks s j) = 0) [0..<NR_LOCKS] \<noteq> None"
        unfolding find_None_iff by (simp del: upt_rec_numeral)
      then obtain j where f: "find (\<lambda>j. lock_type (file_locks s j) = 0) [0..<NR_LOCKS] = Some j" by blast
      then have j: "j < NR_LOCKS" "lock_type (file_locks s j) = 0" using found_in_table [OF f] by blast+
      have ij: "i \<noteq> j" using j(2) assms(3) by auto
      define n where "n = (file_locks s j)\<lparr>lock_type := lock_type ?l, lock_pid := lock_pid ?l, lock_inode := lock_inode ?l,
          lock_first := q_last q + 1, lock_last := lock_last ?l\<rparr>"
      define m where "m = ?l\<lparr>lock_last := q_first q - 1\<rparr>"
      define s' where "s' = s\<lparr>file_locks := (file_locks s)(j := n, i := m), nr_locks := nr_locks s + 1\<rparr>"
      have r: "unlock_one q i s = Some (True, s')"
      proof -
        have "\<not> q_first q \<le> lock_first ?l" "\<not> lock_last ?l \<le> q_last q" using mid by simp_all
        then show ?thesis using False f ij by (simp add: unlock_one_def Let_def upd_lock_def s'_def n_def m_def)
      qed
      have "locks_ok (s\<lparr>file_locks := (file_locks s)(j := n), nr_locks := nr_locks s + 1\<rparr>)"
        by (rule locks_ok_upd [OF assms(1) j(1)]) (use assms(3) l j(2) mid w in \<open>auto simp: n_def\<close>)
      then have ok: "locks_ok s'"
        using locks_ok_upd [of "s\<lparr>file_locks := (file_locks s)(j := n), nr_locks := nr_locks s + 1\<rparr>" i m "nr_locks s + 1"]
          assms(2,3) l mid w ij by (auto simp: s'_def m_def)
      have b: "slot_bytes m \<union> slot_bytes n = slot_bytes ?l - region q"
      proof -
        have t: "b < q_first q \<Longrightarrow> b \<le> lock_last ?l" "q_last q < b \<Longrightarrow> lock_first ?l \<le> b" for b
          using c(2,3) by (blast intro: order_trans less_imp_le)+
        show ?thesis by (rule set_eqI) (auto simp: slot_bytes_def region_def n_def m_def w c(1) not_le assms(3) dest: t)
      qed
      have z: "slot_bytes (file_locks s j) = {}" using j(2) by (simp add: slot_bytes_def)
      have t: "slot_bytes (file_locks s' k) = (if k = i then slot_bytes m else if k = j then slot_bytes n else slot_bytes (file_locks s k))" for k
        using ij by (simp add: s'_def)
      have h: "x \<in> held s' \<longleftrightarrow> x \<in> slot_bytes m \<or> x \<in> slot_bytes n \<or> (\<exists>k < NR_LOCKS. k \<noteq> i \<and> x \<in> slot_bytes (file_locks s k))" for x
        unfolding held_def t using assms(2) j(1) ij z by auto
      have "unlocked q s s'" unfolding unlocked_def
      proof (intro conjI)
        show "held s' \<subseteq> held s" using h b assms(2) unfolding held_def by blast
        show "held s - region q \<subseteq> held s'"
        proof
          fix x assume x: "x \<in> held s - region q"
          then obtain k where "k < NR_LOCKS" "x \<in> slot_bytes (file_locks s k)" unfolding held_def by blast
          with x b h show "x \<in> held s'" by (cases "k = i") blast+
        qed
        show "\<forall>k < NR_LOCKS. cleared q s k \<longrightarrow> cleared q s' k" unfolding cleared_def t using b by auto
      qed (use ok in \<open>simp_all add: lock_frame_def s'_def\<close>)
      moreover have "cleared q s' i" unfolding cleared_def t using b by auto
      ultimately show ?thesis using r by blast
    qed
  qed
qed

lemma no_conflict_cleared:
  assumes "q_type q = F_UNLCK" "lock_type (file_locks s i) = 0 \<or> no_conflict q (file_locks s i)"
  shows "cleared q s i"
proof (cases "lock_type (file_locks s i) = 0")
  case True
  then show ?thesis by (auto simp: cleared_def slot_bytes_def)
next
  case False
  then have "lock_inode (file_locks s i) \<noteq> q_ino q \<or> q_last q < lock_first (file_locks s i) \<or> lock_last (file_locks s i) < q_first q"
    using assms(1,2) unfolding no_conflict_def by simp
  then show ?thesis unfolding cleared_def slot_bytes_def region_def
    by (elim disjE) (force dest: order.strict_trans1 order.strict_trans2)+
qed

lemma unlock_loop:
  assumes "locks_ok s" "\<forall>i \<in> set is. i < NR_LOCKS" "q_type q = F_UNLCK" "q_cmd q \<noteq> F_GETLK"
  shows "\<exists>r s'. lock_loop q susp is e u s = Some (r, s') \<and> unlocked q s s'
    \<and> (r = ScanRet ENOLCK \<or> (\<exists>e' u'. r = ScanEnd e' u') \<and> (\<forall>i \<in> set is. cleared q s' i))"
  using assms
proof (induction "is" arbitrary: s e u)
  case Nil
  then show ?case using unlocked_refl by simp
next
  case (Cons i "is")
  have i: "i < NR_LOCKS" using Cons.prems(2) by simp
  show ?case
  proof (cases "lock_type (file_locks s i) = 0 \<or> no_conflict q (file_locks s i)")
    case True
    let ?e = "if lock_type (file_locks s i) = 0 \<and> e = None then Some i else e"
    have s: "lock_loop q susp (i # is) e u s = lock_loop q susp is ?e u s" using True by (cases "lock_type (file_locks s i) = 0") (simp_all add: Let_def)
    obtain r s' where r: "lock_loop q susp is ?e u s = Some (r, s')" "unlocked q s s'"
      "r = ScanRet ENOLCK \<or> (\<exists>e' u'. r = ScanEnd e' u') \<and> (\<forall>i \<in> set is. cleared q s' i)"
      using Cons.IH [of s ?e u] Cons.prems by auto
    have "cleared q s' i" using no_conflict_cleared [OF Cons.prems(3) True] r(2) i unfolding unlocked_def by blast
    then show ?thesis using r unfolding s by auto
  next
    case False
    then obtain ok s1 where o: "unlock_one q i s = Some (ok, s1)" "unlocked q s s1" "ok \<longrightarrow> cleared q s1 i"
      using unlock_one_spec [OF Cons.prems(1) i _ Cons.prems(3)] by blast
    have s: "lock_loop q susp (i # is) e u s = (if ok then lock_loop q susp is e True s1 else Some (ScanRet ENOLCK, s1))"
      using False Cons.prems(3,4) o(1) by (simp add: Let_def)
    show ?thesis
    proof (cases ok)
      case True
      have ok1: "locks_ok s1" using o(2) unfolding unlocked_def by blast
      obtain r s' where r: "lock_loop q susp is e True s1 = Some (r, s')" "unlocked q s1 s'"
        "r = ScanRet ENOLCK \<or> (\<exists>e' u'. r = ScanEnd e' u') \<and> (\<forall>i \<in> set is. cleared q s' i)"
        using Cons.IH [of s1 e True] Cons.prems ok1 by auto
      have "cleared q s' i" using o(3) True r(2) i unfolding unlocked_def by blast
      then show ?thesis using r unlocked_trans [OF o(2)] True unfolding s by auto
    next
      case False
      then show ?thesis using o(2) unfolding s by auto
    qed
  qed
qed

text \<open>Slots that do not conflict are passed over.\<close>

lemma quiet_loop:
  "\<forall>i \<in> set is. lock_type (file_locks s i) = 0 \<or> no_conflict q (file_locks s i) \<Longrightarrow>
     \<exists>e'. lock_loop q susp is e u s = Some (ScanEnd e' u, s)"
proof (induction "is" arbitrary: e)
  case Nil
  then show ?case by simp
next
  case (Cons i "is")
  then have h: "\<exists>e'. lock_loop q susp is x u s = Some (ScanEnd e' u, s)" for x by simp
  have "lock_type (file_locks s i) = 0 \<or> no_conflict q (file_locks s i)" using Cons.prems by simp
  then show ?case using h [of e] h [of "if e = None then Some i else e"]
    by (cases "lock_type (file_locks s i) = 0") (simp_all add: Let_def)
qed

lemma unlocked_all:
  assumes "unlocked q s s'" "\<forall>i \<in> set [0..<NR_LOCKS]. cleared q s' i"
  shows "held s' = held s - region q"
proof -
  have "held s' \<inter> region q = {}" using assms(2) unfolding held_def cleared_def by (auto simp del: upt_rec_numeral)
  then show ?thesis using assms(1) unfolding unlocked_def by blast
qed

subsection \<open>Setting locks\<close>

lemma set_loop:
  assumes "q_type q \<noteq> F_UNLCK" "q_type q = F_RDLCK \<or> q_type q = F_WRLCK" "\<forall>i \<in> set is. i < NR_LOCKS"
    "\<forall>x. e = Some x \<longrightarrow> x < NR_LOCKS \<and> lock_type (file_locks s x) = 0"
  shows "\<exists>r s'. lock_loop q susp is e u s = Some (r, s')
    \<and> (r = ScanRet EAGAIN \<and> s' = s \<or> r = ScanRet SUSPEND \<and> s' = susp s \<or> (\<exists>i. i < NR_LOCKS \<and> r = ScanFound i \<and> q_cmd q = F_GETLK) \<and> s' = s
       \<or> (\<exists>e'. r = ScanEnd e' u \<and> (\<forall>x. e' = Some x \<longrightarrow> x < NR_LOCKS \<and> lock_type (file_locks s x) = 0)) \<and> s' = s
          \<and> (\<forall>i \<in> set is. lock_type (file_locks s i) \<noteq> 0 \<longrightarrow> no_conflict q (file_locks s i)))"
  using assms
proof (induction "is" arbitrary: e)
  case Nil
  then show ?case by simp
next
  case (Cons i "is")
  consider "lock_type (file_locks s i) = 0" | "lock_type (file_locks s i) \<noteq> 0" "no_conflict q (file_locks s i)"
    | "lock_type (file_locks s i) \<noteq> 0" "\<not> no_conflict q (file_locks s i)" by blast
  then show ?case
  proof cases
    case 1
    have "\<forall>x. (if e = None then Some i else e) = Some x \<longrightarrow> x < NR_LOCKS \<and> lock_type (file_locks s x) = 0"
      using 1 Cons.prems by auto
    from Cons.IH [OF Cons.prems(1,2) _ this] Cons.prems(3) 1 show ?thesis by (auto simp: Let_def)
  next
    case 2
    from Cons.IH [OF Cons.prems(1,2) _ Cons.prems(4)] Cons.prems(3) 2 show ?thesis by (auto simp: Let_def)
  next
    case 3
    then show ?thesis using Cons.prems by (auto simp: Let_def)
  qed
qed

lemma lock_enter_spec:
  assumes "locks_ok s" "e < NR_LOCKS" "lock_type (file_locks s e) = 0" "q_type q = F_RDLCK \<or> q_type q = F_WRLCK" "q_first q \<le> q_last q"
  shows "locks_ok (lock_enter q e s)"
    "held (lock_enter q e s) = held s \<union> {(ino, p, t, b). ino = q_ino q \<and> p = q_pid q \<and> t = q_type q \<and> q_first q \<le> b \<and> b \<le> q_last q}"
proof -
  let ?l = "(file_locks s e)\<lparr>lock_type := q_type q, lock_pid := q_pid q, lock_inode := q_ino q, lock_first := q_first q, lock_last := q_last q\<rparr>"
  have d: "lock_enter q e s = s\<lparr>file_locks := (file_locks s)(e := ?l), nr_locks := nr_locks s + 1\<rparr>"
    by (simp add: lock_enter_def upd_lock_def)
  show "locks_ok (lock_enter q e s)" unfolding d by (rule locks_ok_upd [OF assms(1,2)]) (use assms in auto)
  have z: "slot_bytes (file_locks s e) = {}" using assms(3) by (auto simp: slot_bytes_def)
  have n: "q_type q \<noteq> 0" using assms(4) by auto
  show "held (lock_enter q e s) = held s \<union> {(ino, p, t, b). ino = q_ino q \<and> p = q_pid q \<and> t = q_type q \<and> q_first q \<le> b \<and> b \<le> q_last q}"
    unfolding d held_upd [OF assms(2)] held_split [OF assms(2), of s] z using n by (auto simp: slot_bytes_def)
qed

text \<open>A lock for which the search finds no conflict can be held with those there are.\<close>

lemma no_conflict_compatible:
  assumes "compatible s" "\<forall>i < NR_LOCKS. lock_type (file_locks s i) \<noteq> 0 \<longrightarrow> no_conflict q (file_locks s i)" "q_type q \<noteq> F_UNLCK"
    "held s' = held s \<union> {(ino, p, t, b). ino = q_ino q \<and> p = q_pid q \<and> t = q_type q \<and> q_first q \<le> b \<and> b \<le> q_last q}"
  shows "compatible s'"
proof -
  have new: "t = F_RDLCK \<and> q_type q = F_RDLCK" if h: "(q_ino q, p, t, b) \<in> held s" "p \<noteq> q_pid q" "q_first q \<le> b" "b \<le> q_last q" for p t b
  proof -
    obtain i where i: "i < NR_LOCKS" "(q_ino q, p, t, b) \<in> slot_bytes (file_locks s i)" using h(1) unfolding held_def by blast
    then have l: "lock_type (file_locks s i) \<noteq> 0" "lock_inode (file_locks s i) = q_ino q" "lock_pid (file_locks s i) = p"
      "lock_type (file_locks s i) = t" "lock_first (file_locks s i) \<le> b" "b \<le> lock_last (file_locks s i)"
      unfolding slot_bytes_def by auto
    have "\<not> q_last q < lock_first (file_locks s i)" "\<not> q_first q > lock_last (file_locks s i)"
      using order_trans [OF l(5) h(4)] order_trans [OF h(3) l(6)] by simp_all
    then show ?thesis using assms(2) i(1) l(1-4) h(2) unfolding no_conflict_def by auto
  qed
  show ?thesis unfolding compatible_def assms(4)
  proof (intro allI impI)
    fix ino p t p' t' b
    let ?N = "{(ino, p, t, b). ino = q_ino q \<and> p = q_pid q \<and> t = q_type q \<and> q_first q \<le> b \<and> b \<le> q_last q}"
    assume a: "(ino, p, t, b) \<in> held s \<union> ?N" "(ino, p', t', b) \<in> held s \<union> ?N" "p \<noteq> p'"
    consider "(ino, p, t, b) \<in> held s" "(ino, p', t', b) \<in> held s" | "(ino, p, t, b) \<in> held s" "(ino, p', t', b) \<in> ?N"
      | "(ino, p, t, b) \<in> ?N" "(ino, p', t', b) \<in> held s" | "(ino, p, t, b) \<in> ?N" "(ino, p', t', b) \<in> ?N" using a by blast
    then show "t = F_RDLCK \<and> t' = F_RDLCK"
    proof cases
      case 1
      then show ?thesis using assms(1) a(3) unfolding compatible_def by blast
    next
      case 2
      then show ?thesis using new [of p t b] a(3) by auto
    next
      case 3
      then show ?thesis using new [of p' t' b] a(3) by auto
    next
      case 4
      then show ?thesis using a(3) by auto
    qed
  qed
qed

subsection \<open>Waking up\<close>

lemma revive_total: "0 \<le> p \<Longrightarrow> p < NR_PROCS \<Longrightarrow> \<exists>s'. revive p n s = Some s' \<and> file_locks s' = file_locks s \<and> nr_locks s' = nr_locks s"
  by (auto simp: revive_def Let_def fs_reply_def ask_fs_def upd_fproc_def)

lemma revive_locked_total:
  "\<forall>p \<in> set ps. p < NR_FPROCS \<Longrightarrow> \<exists>s'. revive_locked ps s = Some s' \<and> file_locks s' = file_locks s \<and> nr_locks s' = nr_locks s"
proof (induction ps arbitrary: s)
  case Nil
  then show ?case by simp
next
  case (Cons p ps)
  obtain s1 where s1: "(if fp_suspended (fprocs s p) \<and> - fp_task (fprocs s p) = XLOCK then revive (int p) 0 s else Some s) = Some s1"
    "file_locks s1 = file_locks s" "nr_locks s1 = nr_locks s"
    using revive_total [of "int p" 0 s] Cons.prems by (cases "fp_suspended (fprocs s p) \<and> - fp_task (fprocs s p) = XLOCK") auto
  then show ?case using Cons.IH [of s1] Cons.prems by simp
qed

lemma lock_revive_total: "\<exists>s'. lock_revive s = Some s' \<and> file_locks s' = file_locks s \<and> nr_locks s' = nr_locks s"
  unfolding lock_revive_def by (rule revive_locked_total) (simp del: upt_rec_numeral)

lemma same_table: "file_locks s' = file_locks s \<Longrightarrow> nr_locks s' = nr_locks s \<Longrightarrow> held s' = held s \<and> locks_ok s' = locks_ok s"
  by (simp add: held_def locks_ok_def)

subsection \<open>The operation\<close>

lemma lock_region_order: "lock_region f ip fl s = Some (a, b) \<Longrightarrow> a \<le> b"
proof -
  define x where "x = (if l_whence fl = 0 then 0 else if l_whence fl = 1 then filp_pos (filps s f) else i_size (inodes s ip))"
  define y where "y = (if l_len fl = 0 then MAX_FILE_POS else x + l_start fl + l_len fl - 1)"
  assume "lock_region f ip fl s = Some (a, b)"
  then have "(if sint (l_start fl) > 0 \<and> x + l_start fl < x then None else if sint (l_start fl) < 0 \<and> x + l_start fl > x then None
     else if y < x + l_start fl then None else Some (x + l_start fl, y)) = Some (a, b)"
    unfolding lock_region_def Let_def x_def [symmetric] y_def .
  then show ?thesis by (simp split: if_split_asm)
qed

lemma lock_refused_None: "lock_refused f ip req fl s = None \<Longrightarrow>
    (l_type fl = F_UNLCK \<or> l_type fl = F_RDLCK \<or> l_type fl = F_WRLCK) \<and> (req = F_GETLK \<longrightarrow> l_type fl \<noteq> F_UNLCK)"
  unfolding lock_refused_def Let_def by (simp split: if_split_asm)

definition added :: "lock_req \<Rightarrow> held_byte set" where
  "added q = {(ino, p, t, b). ino = q_ino q \<and> p = q_pid q \<and> t = q_type q \<and> q_first q \<le> b \<and> b \<le> q_last q}"

text \<open>How a request changes what is held.\<close>

lemma lock_table_spec:
  assumes "locks_ok s" "q_first q \<le> q_last q" "q_type q = F_UNLCK \<or> q_type q = F_RDLCK \<or> q_type q = F_WRLCK"
    "q_cmd q = F_GETLK \<longrightarrow> q_type q \<noteq> F_UNLCK" "\<And>s. file_locks (susp s) = file_locks s \<and> nr_locks (susp s) = nr_locks s"
  shows "\<exists>r s'. lock_table q susp s = Some (r, s') \<and> locks_ok s' \<and> (compatible s \<longrightarrow> compatible s')
    \<and> (r = ScanRet OK \<longrightarrow> held s' = (if q_type q = F_UNLCK then held s - region q else held s \<union> added q))
    \<and> ((\<exists>e. r = ScanRet e) \<or> q_cmd q = F_GETLK)"
proof (cases "q_type q = F_UNLCK")
  case True
  obtain r s1 where l: "lock_loop q susp [0..<NR_LOCKS] None False s = Some (r, s1)" "unlocked q s s1"
    "r = ScanRet ENOLCK \<or> (\<exists>e' u'. r = ScanEnd e' u') \<and> (\<forall>i \<in> set [0..<NR_LOCKS]. cleared q s1 i)"
    using unlock_loop [OF assms(1) _ True, of "[0..<NR_LOCKS]" susp None False] assms(4) True by (auto simp del: upt_rec_numeral)
  have u: "locks_ok s1" "held s1 \<subseteq> held s" using l(2) unfolding unlocked_def by blast+
  from l(3) show ?thesis
  proof
    assume r: "r = ScanRet ENOLCK"
    then have "lock_table q susp s = Some (r, s1)" unfolding lock_table_def using l(1) by (simp del: upt_rec_numeral)
    then show ?thesis using u compatible_mono r by auto
  next
    assume c: "(\<exists>e' u'. r = ScanEnd e' u') \<and> (\<forall>i \<in> set [0..<NR_LOCKS]. cleared q s1 i)"
    then obtain e' u' where r: "r = ScanEnd e' u'" by blast
    obtain s2 where s2: "(if u' then lock_revive s1 else Some s1) = Some s2" "file_locks s2 = file_locks s1" "nr_locks s2 = nr_locks s1"
      using lock_revive_total [of s1] by (cases u') auto
    have "lock_table q susp s = Some (ScanRet OK, s2)"
      unfolding lock_table_def using l(1) r s2(1) True assms(4) by (simp del: upt_rec_numeral)
    moreover have "held s1 = held s - region q" using unlocked_all [OF l(2)] c by blast
    ultimately show ?thesis using u True compatible_mono same_table [OF s2(2,3)] by auto
  qed
next
  case False
  then have t: "q_type q = F_RDLCK \<or> q_type q = F_WRLCK" using assms(3) by blast
  obtain r s1 where l: "lock_loop q susp [0..<NR_LOCKS] None False s = Some (r, s1)"
    "r = ScanRet EAGAIN \<and> s1 = s \<or> r = ScanRet SUSPEND \<and> s1 = susp s \<or> (\<exists>i. i < NR_LOCKS \<and> r = ScanFound i \<and> q_cmd q = F_GETLK) \<and> s1 = s
       \<or> (\<exists>e'. r = ScanEnd e' False \<and> (\<forall>x. e' = Some x \<longrightarrow> x < NR_LOCKS \<and> lock_type (file_locks s x) = 0)) \<and> s1 = s
          \<and> (\<forall>i \<in> set [0..<NR_LOCKS]. lock_type (file_locks s i) \<noteq> 0 \<longrightarrow> no_conflict q (file_locks s i))"
    using set_loop [OF False t, of "[0..<NR_LOCKS]" None s susp False] by (auto simp del: upt_rec_numeral)
  have su: "held (susp s) = held s" "locks_ok (susp s) = locks_ok s" using same_table assms(5) by blast+
  consider "r = ScanRet EAGAIN" "s1 = s" | "r = ScanRet SUSPEND" "s1 = susp s" | i where "r = ScanFound i" "s1 = s" "q_cmd q = F_GETLK"
    | e' where "r = ScanEnd e' False" "s1 = s" "\<forall>x. e' = Some x \<longrightarrow> x < NR_LOCKS \<and> lock_type (file_locks s x) = 0"
      "\<forall>i < NR_LOCKS. lock_type (file_locks s i) \<noteq> 0 \<longrightarrow> no_conflict q (file_locks s i)"
    using l(2) by (auto simp del: upt_rec_numeral)
  then show ?thesis
  proof cases
    case 1
    then have "lock_table q susp s = Some (ScanRet EAGAIN, s)" unfolding lock_table_def using l(1) by (simp del: upt_rec_numeral)
    then show ?thesis using assms(1) by auto
  next
    case 2
    then have "lock_table q susp s = Some (ScanRet SUSPEND, susp s)" unfolding lock_table_def using l(1) by (simp del: upt_rec_numeral)
    then show ?thesis using assms(1) su compatible_mono [of "susp s" s] by auto
  next
    case 3
    then have "lock_table q susp s = Some (ScanFound i, s)" unfolding lock_table_def using l(1) by (simp del: upt_rec_numeral)
    then show ?thesis using assms(1) 3(3) by auto
  next
    case 4
    have e: "lock_table q susp s = Some (if q_cmd q = F_GETLK then (ScanEnd e' False, s)
        else case e' of None \<Rightarrow> (ScanRet ENOLCK, s) | Some e \<Rightarrow> (ScanRet OK, lock_enter q e s))"
      unfolding lock_table_def using l(1) 4 False by (simp del: upt_rec_numeral)
    show ?thesis
    proof (cases "q_cmd q = F_GETLK \<or> e' = None")
      case True
      then show ?thesis using e assms(1) by (cases "q_cmd q = F_GETLK") auto
    next
      case n: False
      then obtain x where x: "e' = Some x" "x < NR_LOCKS" "lock_type (file_locks s x) = 0" using 4 by auto
      note en = lock_enter_spec [OF assms(1) x(2,3) t assms(2), folded added_def]
      have "compatible (lock_enter q x s)" if "compatible s"
        using no_conflict_compatible [OF that 4(4) False en(2) [unfolded added_def]] .
      then show ?thesis using e n x en False by simp
    qed
  qed
qed

lemma suspend_table: "file_locks (suspend t a b c s) = file_locks s \<and> nr_locks (suspend t a b c s) = nr_locks s"
  by (simp add: suspend_def Let_def upd_fproc_def)

lemma ask_table: "ask_fs q s = (r, s') \<Longrightarrow> file_locks s' = file_locks s \<and> nr_locks s' = nr_locks s \<and> filps s' = filps s
    \<and> inodes s' = inodes s \<and> fprocs s' = fprocs s \<and> cfp s' = cfp s"
  by (auto simp: ask_fs_def Let_def)

lemma lock_region_same:
  assumes "ask_fs q s = (r, s')"
  shows "lock_region f ip fl s' = lock_region f ip fl s" "lock_refused f ip req fl s' = lock_refused f ip req fl s"
proof -
  have e: "filps s' = filps s" "inodes s' = inodes s" using ask_table [OF assms] by blast+
  show "lock_region f ip fl s' = lock_region f ip fl s" unfolding lock_region_def e by (rule refl)
  show "lock_refused f ip req fl s' = lock_refused f ip req fl s" unfolding lock_refused_def e by (rule refl)
qed

text \<open>The part of the operation after the checks.\<close>

definition lock_answer :: "flock \<Rightarrow> u32 \<Rightarrow> lock_scan \<times> fs \<Rightarrow> int \<times> flock option \<times> fs" where
  "lock_answer fl ua rs =
     (case fst rs of
        ScanRet e \<Rightarrow> (e, None, snd rs)
      | ScanFound i \<Rightarrow> let (r2, s2) = ask_fs (ReqCopyOut (who (snd rs)) ua 16) (snd rs) in (r2, Some (lock_reply fl (Some i) (snd rs)), s2)
      | ScanEnd _ _ \<Rightarrow> let (r2, s2) = ask_fs (ReqCopyOut (who (snd rs)) ua 16) (snd rs) in (r2, Some (lock_reply fl None (snd rs)), s2))"

lemma lock_answer_table:
  assumes "lock_answer fl ua (r, s) = (e, out, s')"
  shows "file_locks s' = file_locks s \<and> nr_locks s' = nr_locks s" "r = ScanRet x \<Longrightarrow> e = x"
  using assms ask_table unfolding lock_answer_def
  by (cases r; auto split: prod.splits)+

lemma lock_op_steps:
  assumes "ask_fs (ReqCopyIn (who s) ua 16) s = (OK, s0)" "filp_ino (filps s f) = Some ip" "lock_refused f ip req fl s = None"
    "lock_region f ip fl s = Some (a, b)"
  shows "lock_op f req fild ua fl s = map_option (lock_answer fl ua) (lock_table
     \<lparr>q_type = l_type fl, q_ino = Some ip, q_first = a, q_last = b, q_cmd = req, q_pid = fp_pid (fprocs s (cfp s))\<rparr>
     (suspend XLOCK fild ua req) s0)"
  using assms(2-4) ask_table [OF assms(1)] unfolding lock_op_def assms(1)
  by (simp add: lock_region_same [OF assms(1)] lock_answer_def split: bind_split lock_scan.split prod.split)

lemma lock_op_spec:
  assumes "locks_ok s" "filp_ino (filps s f) = Some ip"
  shows "\<exists>r out s'. lock_op f req fild ua fl s = Some (r, out, s') \<and> locks_ok s' \<and> (compatible s \<longrightarrow> compatible s')
    \<and> (r = OK \<and> (req = F_SETLK \<or> req = F_SETLKW) \<longrightarrow> (\<exists>a b. lock_region f ip fl s = Some (a, b) \<and>
         held s' = (if l_type fl = F_UNLCK then held s - {(i, p, t, x). i = Some ip \<and> a \<le> x \<and> x \<le> b}
                    else held s \<union> {(i, p, t, x). i = Some ip \<and> p = fp_pid (fprocs s (cfp s)) \<and> t = l_type fl \<and> a \<le> x \<and> x \<le> b})))"
proof -
  obtain r0 s0 where s0: "ask_fs (ReqCopyIn (who s) ua 16) s = (r0, s0)" by force
  note t0 = ask_table [OF s0]
  have h0: "held s0 = held s" "locks_ok s0" using same_table [of s0 s] t0 assms(1) by simp_all
  have c0: "compatible s0 = compatible s" unfolding compatible_def h0 ..
  have f0: "filp_ino (filps s0 f) = Some ip" using assms(2) t0 by simp
  consider (bad) e where "lock_op f req fild ua fl s = Some (e, None, s0)" "e \<noteq> OK"
    | (good) a b where "r0 = OK" "lock_refused f ip req fl s = None" "lock_region f ip fl s = Some (a, b)"
  proof -
    have "lock_refused f ip req fl s \<noteq> Some OK" unfolding lock_refused_def Let_def by simp
    then show ?thesis using that f0 lock_region_same [OF s0] unfolding lock_op_def s0
      by (cases "r0 = OK"; cases "lock_refused f ip req fl s"; cases "lock_region f ip fl s") auto
  qed
  then show ?thesis
  proof cases
    case bad
    then show ?thesis using h0 c0 by auto
  next
    case (good a b)
    note s0 = s0 [unfolded good(1)]
    define q where "q = \<lparr>q_type = l_type fl, q_ino = Some ip, q_first = a, q_last = b, q_cmd = req, q_pid = fp_pid (fprocs s (cfp s))\<rparr>"
    obtain r1 s1 where l: "lock_table q (suspend XLOCK fild ua req) s0 = Some (r1, s1)" "locks_ok s1" "compatible s0 \<longrightarrow> compatible s1"
      "r1 = ScanRet OK \<longrightarrow> held s1 = (if q_type q = F_UNLCK then held s0 - region q else held s0 \<union> added q)"
      "(\<exists>e. r1 = ScanRet e) \<or> q_cmd q = F_GETLK"
      using lock_table_spec [of s0 q "suspend XLOCK fild ua req"] h0(2) lock_region_order [OF good(3)] lock_refused_None [OF good(2)] suspend_table
      unfolding q_def by auto
    obtain e out s' where a: "lock_answer fl ua (r1, s1) = (e, out, s')" by (cases "lock_answer fl ua (r1, s1)") auto
    have op: "lock_op f req fild ua fl s = Some (e, out, s')"
      using lock_op_steps [OF s0 assms(2) good(2,3)] l(1) a unfolding q_def by simp
    note an = lock_answer_table [OF a]
    note st = same_table [OF conjunct1 [OF an(1)] conjunct2 [OF an(1)]]
    have c: "compatible s' = compatible s1" unfolding compatible_def using st by simp
    have "held s' = (if l_type fl = F_UNLCK then held s - {(i, p, t, x). i = Some ip \<and> a \<le> x \<and> x \<le> b}
          else held s \<union> {(i, p, t, x). i = Some ip \<and> p = fp_pid (fprocs s (cfp s)) \<and> t = l_type fl \<and> a \<le> x \<and> x \<le> b})"
      if k: "e = OK" "req = F_SETLK \<or> req = F_SETLKW"
    proof -
      have "q_cmd q \<noteq> F_GETLK" using k(2) unfolding q_def by auto
      then have "r1 = ScanRet OK" using l(5) an(2) k(1) by auto
      then show ?thesis using l(4) st unfolding h0 region_def added_def q_def by simp
    qed
    then show ?thesis using op l(2,3) st c c0 good(3) by auto
  qed
qed

subsection \<open>Properties\<close>

lemma ex_locked_ok: "locks_ok ex_locked" "compatible ex_locked" "filp_ino (filps ex_locked 0) = Some 2"
proof -
  have "{i. i < NR_LOCKS \<and> lock_type (file_locks ex_locked i) \<noteq> 0} = {0}" by (auto simp: ex_locked_def zero_lock_def)
  then show "locks_ok ex_locked" unfolding locks_ok_def by (auto simp: ex_locked_def zero_lock_def)
  show "compatible ex_locked" unfolding compatible_def held_def slot_bytes_def by (auto simp: ex_locked_def zero_lock_def)
  show "filp_ino (filps ex_locked 0) = Some 2" by (simp add: ex_locked_def ex_fs_def)
qed

text \<open>C33: Advisory locks exclude each other.  Every locking request, F_GETLK, F_SETLK or F_SETLKW, setting or
  clearing, ends, whatever it returns; it keeps the table of locks well formed and its count right; and two
  different processes never hold the same byte of a file unless both hold it for reading.\<close>

theorem locks_exclusive:
  assumes "locks_ok s" "compatible s" "filp_ino (filps s f) = Some ip"
  shows "\<exists>r out s'. lock_op f req fild ua fl s = Some (r, out, s') \<and> locks_ok s' \<and> compatible s'"
  using lock_op_spec [OF assms(1,3)] assms(2) by blast

lemma locks_exclusive_witness:
  "\<exists>r out s'. lock_op 0 F_SETLKW 0 0 \<lparr>l_type = F_RDLCK, l_whence = 0, l_start = 15, l_len = 10, l_pid = 0\<rparr> ex_locked = Some (r, out, s')
    \<and> locks_ok s' \<and> compatible s'"
  by (rule locks_exclusive [OF ex_locked_ok])

text \<open>C34: What a granted request does.  Setting a lock adds exactly the bytes of its region for the caller.
  Clearing takes exactly the bytes of the region away, splitting locks that reach beyond it, and leaves
  other bytes and other files alone; it takes them from every process, not only from the caller.\<close>

theorem lock_effect:
  assumes "locks_ok s" "filp_ino (filps s f) = Some ip" "lock_op f req fild ua fl s = Some (OK, out, s')" "req = F_SETLK \<or> req = F_SETLKW"
  shows "\<exists>a b. lock_region f ip fl s = Some (a, b) \<and>
    held s' = (if l_type fl = F_UNLCK then held s - {(i, p, t, x). i = Some ip \<and> a \<le> x \<and> x \<le> b}
               else held s \<union> {(i, p, t, x). i = Some ip \<and> p = fp_pid (fprocs s (cfp s)) \<and> t = l_type fl \<and> a \<le> x \<and> x \<le> b})"
  using lock_op_spec [OF assms(1,2), of req fild ua fl] assms(3,4) by auto

text \<open>The caller, process 5, clears bytes 12 to 14; process 7 held them and loses them.\<close>

lemma lock_effect_witness:
  "\<exists>s'. lock_op 0 F_SETLK 0 0 \<lparr>l_type = F_UNLCK, l_whence = 1, l_start = 5, l_len = 3, l_pid = 0\<rparr> ex_locked = Some (OK, None, s')
    \<and> (Some 2, 7, F_WRLCK, 13) \<in> held ex_locked \<and> (Some 2, 7, F_WRLCK, 13) \<notin> held s' \<and> (Some 2, 7, F_WRLCK, 15) \<in> held s'"
proof -
  let ?fl = "\<lparr>l_type = F_UNLCK, l_whence = 1, l_start = 5, l_len = 3, l_pid = 0\<rparr>"
  have reg: "lock_region 0 2 ?fl ex_locked = Some (12, 14)" by (simp add: lock_region_def ex_locked_def ex_fs_def)
  have h: "(Some 2, 7, F_WRLCK, 13) \<in> held ex_locked" "(Some 2, 7, F_WRLCK, 15) \<in> held ex_locked"
    unfolding held_def slot_bytes_def by (auto simp: ex_locked_def intro!: bexI [of _ 0])
  define s0 where "s0 = ex_locked\<lparr>fs_hist := [ReqCopyIn 3 0 16]\<rparr>"
  have s0: "ask_fs (ReqCopyIn (who ex_locked) 0 16) ex_locked = (OK, s0)" by (simp add: s0_def ask_fs_def ex_locked_def ex_fs_def)
  have ref: "lock_refused 0 2 F_SETLK ?fl ex_locked = None" by (simp add: lock_refused_def ex_locked_def ex_fs_def)
  have lt: "file_locks s0 = (\<lambda>_. zero_lock)(0 := \<lparr>lock_type = F_WRLCK, lock_pid = 7, lock_inode = Some 2, lock_first = 10, lock_last = 19\<rparr>)"
    "nr_locks s0 = 1" by (simp_all add: s0_def ex_locked_def)
  let ?q = "\<lparr>q_type = F_UNLCK, q_ino = Some 2, q_first = 12, q_last = 14, q_cmd = F_SETLK, q_pid = 5\<rparr>"
  obtain s1 where s1: "unlock_one ?q 0 s0 = Some (True, s1)" "file_locks s1 = (file_locks s0)
      (1 := zero_lock\<lparr>lock_type := F_WRLCK, lock_pid := 7, lock_inode := Some 2, lock_first := 15, lock_last := 19\<rparr>,
       0 := (file_locks s0 0)\<lparr>lock_last := 11\<rparr>)"
  proof -
    have "find (\<lambda>j. lock_type (file_locks s0 j) = 0) [0..<NR_LOCKS] = Some 1" by (simp add: lt zero_lock_def upt_conv_Cons)
    then show ?thesis using that unfolding unlock_one_def by (simp add: Let_def lt upd_lock_def zero_lock_def del: upt_rec_numeral)
  qed
  have z: "\<forall>i \<in> set [1..<NR_LOCKS]. lock_type (file_locks s1 i) = 0 \<or> no_conflict ?q (file_locks s1 i)"
    unfolding s1(2) lt by (auto simp: no_conflict_def zero_lock_def)
  have "\<exists>e. lock_loop ?q (suspend XLOCK 0 0 F_SETLK) [0..<NR_LOCKS] None False s0 = Some (ScanEnd e True, s1)"
    using quiet_loop [OF z, of "suspend XLOCK 0 0 F_SETLK" None True] s1(1)
    by (simp add: upt_conv_Cons [of 0] lt no_conflict_def Let_def del: upt_rec_numeral)
  then obtain s2 where "lock_table ?q (suspend XLOCK 0 0 F_SETLK) s0 = Some (ScanRet OK, s2)"
    using lock_revive_total [of s1] unfolding lock_table_def by (auto simp del: upt_rec_numeral)
  moreover have "fp_pid (fprocs ex_locked (cfp ex_locked)) = 5" by (simp add: ex_locked_def ex_fs_def)
  ultimately have "\<exists>s'. lock_op 0 F_SETLK 0 0 ?fl ex_locked = Some (OK, None, s')"
    using lock_op_steps [OF s0 ex_locked_ok(3) ref reg, of 0] by (simp add: lock_answer_def)
  then obtain s' where s': "lock_op 0 F_SETLK 0 0 ?fl ex_locked = Some (OK, None, s')" by blast
  from lock_effect [OF ex_locked_ok(1,3) s'] reg h
  have "(Some 2, 7, F_WRLCK, 13) \<notin> held s'" "(Some 2, 7, F_WRLCK, 15) \<in> held s'" by auto
  with s' h show ?thesis by blast
qed

end
