(* ===== verification/FS_Super.thy ===== *)
theory FS_Super
  imports FS_State
begin

text \<open>
  Super blocks and the bit maps of inodes and zones (\<^verbatim>\<open>fs/super.c\<close>, the zone operations of
  \<^verbatim>\<open>fs/cache.c\<close>, the byte order conversions of \<^verbatim>\<open>fs/utility.c\<close>).
\<close>

subsection \<open>Byte order\<close>

definition conv2 :: "bool \<Rightarrow> u16 \<Rightarrow> u16" where
  "conv2 norm w = (if norm then w else push_bit 8 (w AND 0xFF) OR (drop_bit 8 w AND 0xFF))"

definition conv4 :: "bool \<Rightarrow> u32 \<Rightarrow> u32" where
  "conv4 norm x =
     (if norm then x
      else let lo = conv2 False (ucast x); hi = conv2 False (ucast (drop_bit 16 x))
           in push_bit 16 (ucast lo) OR ucast hi)"

text \<open>Fields of a block, in the byte order of the machine.\<close>

definition blk_get16 :: "block \<Rightarrow> nat \<Rightarrow> u16" where
  "blk_get16 d k = ucast (d k) OR push_bit 8 (ucast (d (k + 1)))"

definition blk_put16 :: "block \<Rightarrow> nat \<Rightarrow> u16 \<Rightarrow> block" where
  "blk_put16 d k v = d(k := ucast v, k + 1 := ucast (drop_bit 8 v))"

definition blk_get32 :: "block \<Rightarrow> nat \<Rightarrow> u32" where
  "blk_get32 d k = ucast (blk_get16 d k) OR push_bit 16 (ucast (blk_get16 d (k + 2)))"

definition blk_put32 :: "block \<Rightarrow> nat \<Rightarrow> u32 \<Rightarrow> block" where
  "blk_put32 d k v = blk_put16 (blk_put16 d k (ucast v)) (k + 2) (ucast (drop_bit 16 v))"

subsection \<open>Bit maps\<close>

abbreviation (input) BITMAP_CHUNKS :: nat where "BITMAP_CHUNKS \<equiv> 512"
abbreviation (input) BITCHUNK_BITS :: nat where "BITCHUNK_BITS \<equiv> 16"
abbreviation (input) BITS_PER_BLOCK :: nat where "BITS_PER_BLOCK \<equiv> 8192"
abbreviation (input) NO_BIT :: u32 where "NO_BIT \<equiv> 0"
abbreviation (input) NO_ZONE :: u32 where "NO_ZONE \<equiv> 0"

datatype bitmap = IMAP | ZMAP

definition map_start :: "super_block \<Rightarrow> bitmap \<Rightarrow> u32" where
  "map_start sp m = (case m of IMAP \<Rightarrow> 2 | ZMAP \<Rightarrow> 2 + scast (s_imap_blocks sp))"

definition map_bits :: "super_block \<Rightarrow> bitmap \<Rightarrow> u32" where
  "map_bits sp m = (case m of IMAP \<Rightarrow> ucast (s_ninodes sp) + 1 | ZMAP \<Rightarrow> s_zones sp - (ucast (s_firstdatazone sp) - 1))"

definition map_blocks :: "super_block \<Rightarrow> bitmap \<Rightarrow> nat" where
  "map_blocks sp m = unat (case m of IMAP \<Rightarrow> scast (s_imap_blocks sp) :: u32 | ZMAP \<Rightarrow> scast (s_zmap_blocks sp))"

text \<open>The loop \<^verbatim>\<open>for (i = 0; (k & (1 << i)) != 0; ++i)\<close>; a 16-bit word has no bit 16.\<close>

function low_zero :: "u16 \<Rightarrow> nat \<Rightarrow> nat" where
  "low_zero k i = (if i < 16 \<and> bit k i then low_zero k (i + 1) else i)"
  by pat_completeness auto

termination by (relation "measure (\<lambda>(k, i). 16 - i)") auto

declare low_zero.simps [simp del]

text \<open>
  The search of one block of the map from the word list \<open>ws\<close>: the word, the bit in it and the number of
  the first free bit; a free bit beyond the end of the map ends the search of the block.
\<close>

fun scan_words :: "bool \<Rightarrow> u32 \<Rightarrow> nat \<Rightarrow> block \<Rightarrow> nat list \<Rightarrow> (nat \<times> nat \<times> u32) option" where
  "scan_words native bits block d [] = None"
| "scan_words native bits block d (w # ws) =
     (if blk_get16 d (2 * w) = 0xFFFF then scan_words native bits block d ws
      else let k = conv2 native (blk_get16 d (2 * w));
               i = low_zero k 0;
               b = of_nat (block * BITS_PER_BLOCK + w * BITCHUNK_BITS + i)
           in if b \<ge> bits then None else Some (w, i, b))"

definition set_map_bit :: "bool \<Rightarrow> nat \<Rightarrow> nat \<Rightarrow> block \<Rightarrow> block" where
  "set_map_bit native w i d = blk_put16 d (2 * w) (conv2 native (conv2 native (blk_get16 d (2 * w)) OR push_bit i 1))"

definition clear_map_bit :: "bool \<Rightarrow> nat \<Rightarrow> nat \<Rightarrow> block \<Rightarrow> block" where
  "clear_map_bit native w i d = blk_put16 d (2 * w) (conv2 native (conv2 native (blk_get16 d (2 * w)) AND NOT (push_bit i 1)))"

text \<open>The loop over the blocks of the map; \<open>n\<close> is \<^verbatim>\<open>bcount\<close>.\<close>

fun alloc_loop :: "int \<Rightarrow> u32 \<Rightarrow> nat \<Rightarrow> u32 \<Rightarrow> bool \<Rightarrow> nat \<Rightarrow> nat \<Rightarrow> nat \<Rightarrow> cache \<Rightarrow> (u32 \<times> cache) option" where
  "alloc_loop dev start nb bits native 0 block word c = Some (NO_BIT, c)"
| "alloc_loop dev start nb bits native (Suc n) block word c =
     do {
       (i, c1) \<leftarrow> get_block dev (start + of_nat block) NORMAL c;
       case scan_words native bits block (b_data (bufs c1 i)) [word..<BITMAP_CHUNKS] of
         Some (w, j, b) \<Rightarrow>
           Some (b, put_block (Some i) MAP_BLOCK (set_block i (set_map_bit native w j (b_data (bufs c1 i))) c1))
       | None \<Rightarrow>
           alloc_loop dev start nb bits native n (if block + 1 \<ge> nb then 0 else block + 1) 0 (put_block (Some i) MAP_BLOCK c1)
     }"

definition alloc_bit :: "nat \<Rightarrow> bitmap \<Rightarrow> u32 \<Rightarrow> fs \<Rightarrow> (u32 \<times> fs) option" where
  "alloc_bit spi m origin0 s =
     (let sp = supers s spi
      in if s_rd_only sp then None
         else let origin = (if origin0 \<ge> map_bits sp m then 0 else origin0);
                  block = unat origin div BITS_PER_BLOCK;
                  word = (unat origin mod BITS_PER_BLOCK) div BITCHUNK_BITS
              in on_cache (alloc_loop (s_dev sp) (map_start sp m) (map_blocks sp m) (map_bits sp m) (s_native sp)
                   (map_blocks sp m + 1) block word) s)"

definition free_bit_cache :: "int \<Rightarrow> u32 \<Rightarrow> bool \<Rightarrow> u32 \<Rightarrow> cache \<Rightarrow> (unit \<times> cache) option" where
  "free_bit_cache dev start native b c =
     (let block = unat b div BITS_PER_BLOCK;
          word = (unat b mod BITS_PER_BLOCK) div BITCHUNK_BITS;
          i = unat b mod BITCHUNK_BITS
      in do {
        (bp, c1) \<leftarrow> get_block dev (start + of_nat block) NORMAL c;
        let d = b_data (bufs c1 bp);
        if \<not> bit (conv2 native (blk_get16 d (2 * word))) i then None
        else Some ((), put_block (Some bp) MAP_BLOCK (set_block bp (clear_map_bit native word i d) c1))
      })"

definition free_bit :: "nat \<Rightarrow> bitmap \<Rightarrow> u32 \<Rightarrow> fs \<Rightarrow> fs option" where
  "free_bit spi m b s =
     (let sp = supers s spi
      in if s_rd_only sp then None
         else map_option snd (on_cache (free_bit_cache (s_dev sp) (map_start sp m) (s_native sp) b) s))"

subsection \<open>Super blocks\<close>

definition get_super :: "int \<Rightarrow> fs \<Rightarrow> nat option" where
  "get_super dev s = find (\<lambda>i. s_dev (supers s i) = dev) [0..<NR_SUPERS]"

text \<open>\<open>zone_dev z\<close>: a zone number that holds a device number, \<^verbatim>\<open>(dev_t) i_zone[0]\<close>.\<close>

definition zone_dev :: "u32 \<Rightarrow> int" where
  "zone_dev z = sint (ucast z :: u16)"

definition mounted :: "nat \<Rightarrow> fs \<Rightarrow> bool" where
  "mounted rip s =
     (let dev = zone_dev (i_zone (inodes s rip) 0)
      in dev = root_dev s \<or> list_ex (\<lambda>i. s_dev (supers s i) = dev) [0..<NR_SUPERS])"

abbreviation (input) SUPER_MAGIC :: u16 where "SUPER_MAGIC \<equiv> 0x137F"
abbreviation (input) SUPER_V2 :: u16 where "SUPER_V2 \<equiv> 0x2468"

text \<open>
  The fields of a super block on the device; it ends with \<^verbatim>\<open>s_zones\<close> as far as the device is
  concerned, what follows is overwritten or restored by \<^verbatim>\<open>read_super()\<close> and its callers.
\<close>

definition super_from :: "block \<Rightarrow> super_block \<Rightarrow> super_block" where
  "super_from d sp =
     sp\<lparr>s_ninodes := blk_get16 d 0, s_nzones := blk_get16 d 2, s_imap_blocks := blk_get16 d 4, s_zmap_blocks := blk_get16 d 6,
        s_firstdatazone := blk_get16 d 8, s_log_zone_size := blk_get16 d 10, s_max_size := blk_get32 d 12,
        s_magic := blk_get16 d 16, s_zones := blk_get32 d 20, s_dev := NO_DEV\<rparr>"

definition super_version :: "u16 \<Rightarrow> (nat \<times> bool) option" where
  "super_version magic =
     (if magic = SUPER_MAGIC \<or> magic = conv2 False SUPER_MAGIC then Some (1, magic = SUPER_MAGIC)
      else if magic = SUPER_V2 \<or> magic = conv2 False SUPER_V2 then Some (2, magic = SUPER_V2)
      else None)"

definition super_convert :: "nat \<Rightarrow> bool \<Rightarrow> super_block \<Rightarrow> super_block" where
  "super_convert version native sp =
     (let sp1 = sp\<lparr>s_ninodes := conv2 native (s_ninodes sp), s_nzones := conv2 native (s_nzones sp),
                   s_imap_blocks := conv2 native (s_imap_blocks sp), s_zmap_blocks := conv2 native (s_zmap_blocks sp),
                   s_firstdatazone := conv2 native (s_firstdatazone sp), s_log_zone_size := conv2 native (s_log_zone_size sp),
                   s_max_size := conv4 native (s_max_size sp), s_zones := conv4 native (s_zones sp)\<rparr>;
          sp2 = (if version = 1
                 then sp1\<lparr>s_zones := ucast (s_nzones sp1), s_inodes_per_block := 32, s_ndzones := 7, s_nindirs := 512\<rparr>
                 else sp1\<lparr>s_inodes_per_block := 16, s_ndzones := 7, s_nindirs := 256\<rparr>)
      in sp2\<lparr>s_isearch := 0, s_zsearch := 0, s_version := version, s_native := native\<rparr>)"

definition read_super :: "nat \<Rightarrow> fs \<Rightarrow> (int \<times> fs) option" where
  "read_super spi s =
     (let dev = s_dev (supers s spi)
      in do {
        (i, c1) \<leftarrow> get_block dev 1 NORMAL (cch s);
        let sp = super_from (b_data (bufs c1 i)) (supers s spi);
        let s1 = upd_super spi (\<lambda>_. sp) (s\<lparr>cch := put_block (Some i) ZUPER_BLOCK c1\<rparr>);
        case super_version (s_magic sp) of
          None \<Rightarrow> Some (EINVAL, s1)
        | Some (version, native) \<Rightarrow>
            let sp' = super_convert version native sp;
                s2 = upd_super spi (\<lambda>_. sp') s1
            in if sint (s_imap_blocks sp') < 1 \<or> sint (s_zmap_blocks sp') < 1 \<or> s_ninodes sp' < 1 \<or> s_zones sp' < 1
                  \<or> (scast (s_log_zone_size sp') :: u32) > 4
               then Some (EINVAL, s2)
               else Some (OK, upd_super spi (\<lambda>p. p\<lparr>s_dev := dev\<rparr>) s2)
      })"

subsection \<open>Zones\<close>

text \<open>Zone numbers are bit numbers moved by \<^verbatim>\<open>s_firstdatazone - 1\<close>.\<close>

definition alloc_zone :: "int \<Rightarrow> u32 \<Rightarrow> fs \<Rightarrow> (u32 \<times> fs) option" where
  "alloc_zone dev z s =
     do {
       spi \<leftarrow> get_super dev s;
       let sp = supers s spi;
       let fdz = ucast (s_firstdatazone sp);
       let b0 = (if z = fdz then s_zsearch sp else z - (fdz - 1));
       (b, s1) \<leftarrow> alloc_bit spi ZMAP b0 s;
       if b = NO_BIT then Some (NO_ZONE, s1\<lparr>err_code := ENOSPC\<rparr>)
       else let s2 = (if z = fdz then upd_super spi (\<lambda>p. p\<lparr>s_zsearch := b\<rparr>) s1 else s1)
            in Some (fdz - 1 + b, s2)
     }"

definition free_zone :: "int \<Rightarrow> u32 \<Rightarrow> fs \<Rightarrow> fs option" where
  "free_zone dev numb s =
     do {
       spi \<leftarrow> get_super dev s;
       let sp = supers s spi;
       let fdz = ucast (s_firstdatazone sp);
       if numb < fdz \<or> numb \<ge> s_zones sp then Some s
       else do {
         let b = numb - (fdz - 1);
         s1 \<leftarrow> free_bit spi ZMAP b s;
         Some (if b < s_zsearch sp then upd_super spi (\<lambda>p. p\<lparr>s_zsearch := b\<rparr>) s1 else s1)
       }
     }"

end
