(* ===== verification/FS_Super_Theorems.thy ===== *)
theory FS_Super_Theorems
  imports FS_Super FS_Example
begin

text \<open>
  The bit maps: the search finds a free bit if there is one, takes it and no other; freeing undoes it.
\<close>

subsection \<open>Words\<close>

lemma bit_FF: "bit (0xFF :: u16) k \<longleftrightarrow> k < 8"
proof -
  have "bit (0xFF :: u16) k \<longleftrightarrow> bit (Bit_Operations.mask 8 :: u16) k" by (simp add: mask_eq_exp_minus_1)
  also have "\<dots> \<longleftrightarrow> k < 8" unfolding bit_mask_iff by (auto simp: possible_bit_word)
  finally show ?thesis .
qed

lemma bit_conv2: "n < 16 \<Longrightarrow> bit (conv2 norm w) n \<longleftrightarrow> bit w (if norm then n else if n < 8 then n + 8 else n - 8)"
proof -
  assume n: "n < 16"
  have "bit (push_bit 8 (w AND 0xFF) OR (drop_bit 8 w AND 0xFF)) n \<longleftrightarrow> bit w (if n < 8 then n + 8 else n - 8)"
    unfolding bit_or_iff bit_push_bit_iff bit_and_iff bit_drop_bit_eq bit_FF o_def using n by (auto simp: add.commute)
  then show ?thesis unfolding conv2_def by simp
qed

lemma u16_eqI: "(\<And>n. n < 16 \<Longrightarrow> bit (a :: u16) n = bit b n) \<Longrightarrow> a = b"
  by (rule bit_word_eqI) simp

lemma conv2_conv2 [simp]: "conv2 norm (conv2 norm w) = w"
  by (rule u16_eqI) (auto simp: bit_conv2)

lemma bit_ones: "bit (0xFFFF :: u16) n \<longleftrightarrow> n < 16"
proof -
  have "bit (0xFFFF :: u16) n \<longleftrightarrow> bit (Bit_Operations.mask 16 :: u16) n" by (simp add: mask_eq_exp_minus_1)
  also have "\<dots> \<longleftrightarrow> n < 16" unfolding bit_mask_iff by (auto simp: possible_bit_word)
  finally show ?thesis .
qed

lemma ones_iff: "(w :: u16) = 0xFFFF \<longleftrightarrow> (\<forall>n < 16. bit w n)"
  by (metis bit_ones u16_eqI)

lemma conv2_ones: "conv2 norm w = 0xFFFF \<longleftrightarrow> w = 0xFFFF"
proof
  assume a: "conv2 norm w = 0xFFFF"
  have "bit w n" if "n < 16" for n
  proof -
    have "bit (conv2 norm w) (if norm then n else if n < 8 then n + 8 else n - 8)" using a that by (auto simp: ones_iff)
    then show ?thesis using that by (auto simp: bit_conv2 split: if_splits)
  qed
  then show "w = 0xFFFF" by (simp add: ones_iff)
next
  assume "w = 0xFFFF"
  then have "\<forall>n < 16. bit w n" using ones_iff by blast
  then show "conv2 norm w = 0xFFFF" unfolding ones_iff by (simp add: bit_conv2)
qed

lemma low_zero_spec: "i \<le> 16 \<Longrightarrow> i \<le> low_zero k i \<and> low_zero k i \<le> 16 \<and> \<not> bit k (low_zero k i) \<and> (\<forall>j. i \<le> j \<longrightarrow> j < low_zero k i \<longrightarrow> bit k j)"
proof (induction k i rule: low_zero.induct)
  case (1 k i)
  show ?case
  proof (cases "i < 16 \<and> bit k i")
    case True
    have e: "low_zero k i = low_zero k (i + 1)" using True by (subst low_zero.simps) simp
    have IH: "i + 1 \<le> low_zero k (i + 1) \<and> low_zero k (i + 1) \<le> 16 \<and> \<not> bit k (low_zero k (i + 1))
        \<and> (\<forall>j. i + 1 \<le> j \<longrightarrow> j < low_zero k (i + 1) \<longrightarrow> bit k j)" using 1 (1) True by simp
    have "bit k j" if "i \<le> j" "j < low_zero k (i + 1)" for j using IH that True by (cases "j = i") auto
    then show ?thesis unfolding e using IH by auto
  next
    case False
    have e: "low_zero k i = i" unfolding low_zero.simps [of k i] if_not_P [OF False] ..
    have "\<not> bit k i" using False by (auto dest: bit_imp_le_length)
    then show ?thesis unfolding e using 1 (2) by simp
  qed
qed

lemma low_zero_free: "k \<noteq> 0xFFFF \<Longrightarrow> low_zero k 0 < 16 \<and> \<not> bit k (low_zero k 0)"
  using low_zero_spec [of 0 k] unfolding ones_iff by (metis le_eq_less_or_eq le0)

lemma blk_get16_put16: "blk_get16 (blk_put16 d k v) j = v" if "j = k"
proof -
  have "bit (ucast (ucast v :: u8) OR push_bit 8 (ucast (ucast (drop_bit 8 v) :: u8)) :: u16) n = bit v n" if "n < 16" for n
    using that by (cases "n < 8") (auto simp: bit_or_iff bit_push_bit_iff bit_ucast_iff bit_drop_bit_eq)
  then show ?thesis using that unfolding blk_get16_def blk_put16_def by (simp add: u16_eqI)
qed

lemma blk_get16_other: "j + 1 < k \<or> k + 1 < j \<Longrightarrow> blk_get16 (blk_put16 d k v) j = blk_get16 d j"
  by (auto simp: blk_get16_def blk_put16_def)

lemma get16_put16_word: "blk_get16 (blk_put16 d (2 * w) v) (2 * w') = (if w' = w then v else blk_get16 d (2 * w'))"
  using blk_get16_put16 [of "2 * w'" "2 * w" d v] blk_get16_other [of "2 * w'" "2 * w" d v] by (cases w w' rule: linorder_cases) auto

subsection \<open>Bits of a block of the map\<close>

definition map_bit :: "bool \<Rightarrow> block \<Rightarrow> nat \<Rightarrow> nat \<Rightarrow> bool" where
  "map_bit native d w i \<longleftrightarrow> bit (conv2 native (blk_get16 d (2 * w))) i"

lemma map_bit_set: "i < 16 \<Longrightarrow> i' < 16 \<Longrightarrow> map_bit native (set_map_bit native w i d) w' i' \<longleftrightarrow> map_bit native d w' i' \<or> (w' = w \<and> i' = i)"
  unfolding map_bit_def set_map_bit_def get16_put16_word by (auto simp: bit_or_iff bit_push_bit_iff bit_1_iff bit_exp_iff possible_bit_word)

lemma map_bit_clear: "i < 16 \<Longrightarrow> i' < 16 \<Longrightarrow> map_bit native (clear_map_bit native w i d) w' i' \<longleftrightarrow> map_bit native d w' i' \<and> \<not> (w' = w \<and> i' = i)"
  unfolding map_bit_def clear_map_bit_def get16_put16_word by (auto simp: bit_and_iff bit_not_iff bit_push_bit_iff bit_1_iff bit_exp_iff possible_bit_word)

lemma clear_after_set:
  assumes "\<not> map_bit native d w i" "i < 16"
  shows "clear_map_bit native w i (set_map_bit native w i d) = d"
proof -
  let ?k = "conv2 native (blk_get16 d (2 * w))"
  have "bit ((?k OR push_bit i 1) AND NOT (push_bit i 1)) n = bit ?k n" for n
    using assms unfolding map_bit_def by (auto simp: bit_and_iff bit_not_iff bit_or_iff bit_push_bit_iff bit_1_iff bit_exp_iff possible_bit_word dest: bit_imp_le_length)
  then have k: "(?k OR push_bit i 1) AND NOT (push_bit i 1) = ?k" by (simp add: bit_eq_iff)
  have h: "ucast (blk_get16 d j) = d j" "ucast (drop_bit 8 (blk_get16 d j)) = d (j + 1)" for j
  proof -
    have l: "\<not> bit (d n) m" if "8 \<le> m" for n m using that by (auto dest: bit_imp_le_length)
    show "ucast (blk_get16 d j) = d j"
      by (rule bit_word_eqI) (auto simp: blk_get16_def bit_or_iff bit_push_bit_iff bit_ucast_iff)
    show "ucast (drop_bit 8 (blk_get16 d j)) = d (j + 1)"
      by (rule bit_word_eqI) (auto simp: blk_get16_def bit_or_iff bit_push_bit_iff bit_ucast_iff bit_drop_bit_eq l)
  qed
  have "clear_map_bit native w i (set_map_bit native w i d) = blk_put16 (blk_put16 d (2 * w) (conv2 native (?k OR push_bit i 1))) (2 * w) (blk_get16 d (2 * w))"
    unfolding clear_map_bit_def set_map_bit_def get16_put16_word if_P [OF refl] conv2_conv2 k ..
  also have "\<dots> = d" unfolding blk_put16_def h by (auto simp: fun_eq_iff)
  finally show ?thesis .
qed

subsection \<open>The search\<close>

text \<open>Bit \<open>k\<close> of a map, in the block, the word and the place in the word that the code computes.\<close>

abbreviation (input) bblock :: "nat \<Rightarrow> nat" where "bblock k \<equiv> k div BITS_PER_BLOCK"
abbreviation (input) bword :: "nat \<Rightarrow> nat" where "bword k \<equiv> (k mod BITS_PER_BLOCK) div BITCHUNK_BITS"

definition mbit :: "cache \<Rightarrow> super_block \<Rightarrow> bitmap \<Rightarrow> nat \<Rightarrow> bool" where
  "mbit c sp m k \<longleftrightarrow> map_bit (s_native sp) (blk c (s_dev sp) (map_start sp m + of_nat (bblock k))) (bword k) (k mod BITCHUNK_BITS)"

lemma bit_place:
  "w < 512 \<Longrightarrow> i < 16 \<Longrightarrow> bblock (block * 8192 + w * 16 + i) = block"
  "w < 512 \<Longrightarrow> i < 16 \<Longrightarrow> bword (block * 8192 + w * 16 + i) = w"
  "i < 16 \<Longrightarrow> (block * 8192 + w * 16 + i) mod 16 = (i::nat)"
  "k = bblock k * 8192 + bword k * 16 + k mod (16::nat)" "bword k < 512"
proof -
  have m: "(w * 16 + i) div 16 = w" if "i < 16" for w i :: nat using that by simp
  have l: "w * 16 + i < 8192" if "w < 512" "i < 16" for w i :: nat using that by simp
  show "w < 512 \<Longrightarrow> i < 16 \<Longrightarrow> bblock (block * 8192 + w * 16 + i) = block" using l [of w i] by (simp add: add.assoc)
  show "w < 512 \<Longrightarrow> i < 16 \<Longrightarrow> bword (block * 8192 + w * 16 + i) = w" using l [of w i] m [of i w] by (simp only: add.assoc mod_mult_self3 mod_less)
  show "i < 16 \<Longrightarrow> (block * 8192 + w * 16 + i) mod 16 = i"
    using mod_mult_self1 [of i "block * 512 + w" 16] by (simp add: algebra_simps)
  have "k = bblock k * 8192 + k mod 8192" "k mod 8192 = bword k * 16 + k mod 8192 mod 16" by simp_all
  moreover have "k mod 8192 mod 16 = k mod 16" by (simp add: mod_mod_cancel)
  ultimately show "k = bblock k * 8192 + bword k * 16 + k mod 16" by linarith
  show "bword k < 512" by (simp add: less_mult_imp_div_less)
qed

lemma u32_nat: "k < 2 ^ 32 \<Longrightarrow> unat (of_nat k :: u32) = k"
  by (simp add: unsigned_of_nat take_bit_nat_eq_self)

lemma scan_some:
  "scan_words native bits block d ws = Some (w, i, b) \<Longrightarrow> (block + 1) * 8192 < 2 ^ 32 \<Longrightarrow> \<forall>w \<in> set ws. w < 512 \<Longrightarrow>
    w < 512 \<and> i < 16 \<and> \<not> map_bit native d w i \<and> b = of_nat (block * 8192 + w * 16 + i) \<and> block * 8192 + w * 16 + i < unat bits"
proof (induction ws)
  case (Cons v ws)
  show ?case
  proof (cases "blk_get16 d (2 * v) = 0xFFFF")
    case True
    then show ?thesis using Cons by simp
  next
    case False
    let ?j = "low_zero (conv2 native (blk_get16 d (2 * v))) 0"
    have j: "?j < 16 \<and> \<not> map_bit native d v ?j" unfolding map_bit_def using False by (intro low_zero_free) (simp add: conv2_ones)
    have "w = v \<and> i = ?j \<and> b = of_nat (block * 8192 + v * 16 + ?j) \<and> \<not> bits \<le> b"
      using Cons.prems(1) False by (auto simp: Let_def split: if_splits)
    moreover have "block * 8192 + v * 16 + ?j < 2 ^ 32" using Cons.prems(2,3) j by simp
    ultimately show ?thesis using j Cons.prems(3) by (metis list.set_intros(1) not_le u32_nat word_le_nat_alt)
  qed
qed simp

lemma scan_none:
  "scan_words native bits block d [lo..<512] = None \<Longrightarrow> (block + 1) * 8192 < 2 ^ 32 \<Longrightarrow> lo \<le> w \<Longrightarrow> w < 512 \<Longrightarrow> i < 16
    \<Longrightarrow> block * 8192 + w * 16 + i < unat bits \<Longrightarrow> map_bit native d w i"
proof (induction "512 - lo" arbitrary: lo)
  case (Suc n)
  have l: "[lo..<512] = lo # [Suc lo..<512]" using Suc.hyps(2) by (simp add: upt_rec del: upt_rec_numeral)
  show ?case
  proof (cases "blk_get16 d (2 * lo) = 0xFFFF")
    case True
    show ?thesis
    proof (cases "w = lo")
      case True
      then show ?thesis using \<open>blk_get16 d (2 * lo) = 0xFFFF\<close> \<open>i < 16\<close> conv2_ones [of native "0xFFFF"]
        unfolding map_bit_def by (simp only: bit_ones simp_thms)
    next
      case False
      have "scan_words native bits block d [Suc lo..<512] = None" using Suc.prems(1) True unfolding l by (simp del: upt_rec_numeral)
      moreover have "n = 512 - Suc lo" using Suc.hyps(2) by linarith
      moreover have "Suc lo \<le> w" using False Suc.prems(3) by linarith
      ultimately show ?thesis using Suc.hyps(1) Suc.prems by blast
    qed
  next
    case False
    let ?k = "conv2 native (blk_get16 d (2 * lo))"
    let ?j = "low_zero ?k 0"
    have j: "?j < 16" using False by (intro conjunct1 [OF low_zero_free]) (simp add: conv2_ones)
    have "bits \<le> of_nat (block * 8192 + lo * 16 + ?j)" using Suc.prems(1) False unfolding l
      by (simp add: Let_def del: upt_rec_numeral split: if_splits)
    moreover have "block * 8192 + lo * 16 + ?j < 2 ^ 32" using Suc j by simp
    ultimately have "unat bits \<le> block * 8192 + lo * 16 + ?j" using u32_nat unfolding word_le_nat_alt by metis
    then have b: "block * 8192 + w * 16 + i < block * 8192 + lo * 16 + ?j" using Suc.prems(6) by linarith
    have "w = lo" using Suc.prems(3) b j by linarith
    then have "w = lo \<and> i < ?j" using b by simp
    then show ?thesis using low_zero_spec [of 0 ?k] unfolding map_bit_def by simp
  qed
qed simp

text \<open>What the search leaves to say: a free bit that was taken, or none among those it has passed.\<close>

definition bit_taken :: "super_block \<Rightarrow> bitmap \<Rightarrow> u32 \<Rightarrow> cache \<Rightarrow> cache \<Rightarrow> bool" where
  "bit_taken sp m b c c' \<longleftrightarrow> b < map_bits sp m \<and> \<not> mbit c sp m (unat b)
     \<and> (let bn = map_start sp m + of_nat (bblock (unat b))
        in blk_set (s_dev sp) bn (set_map_bit (s_native sp) (bword (unat b)) (unat b mod BITCHUNK_BITS) (blk c (s_dev sp) bn)) c c')"

definition map_ok :: "super_block \<Rightarrow> bitmap \<Rightarrow> cache \<Rightarrow> bool" where
  "map_ok sp m c \<longleftrightarrow> cache_idle c \<and> visible c (s_dev sp) \<and> 0 < map_blocks sp m \<and> (map_blocks sp m + 1) * BITS_PER_BLOCK < 2 ^ 32
     \<and> unat (map_bits sp m) \<le> map_blocks sp m * BITS_PER_BLOCK \<and> unat (map_start sp m) + map_blocks sp m < 4194304"

lemma map_small: "map_ok sp m c \<Longrightarrow> n < map_blocks sp m \<Longrightarrow> small (map_start sp m + of_nat n)"
proof -
  assume a: "map_ok sp m c" "n < map_blocks sp m"
  then have "unat (map_start sp m) + n < 4194304" unfolding map_ok_def by linarith
  then have "unat (map_start sp m + of_nat n) = unat (map_start sp m) + n"
    by (simp add: unat_word_ariths unsigned_of_nat take_bit_nat_eq_self)
  then show ?thesis using \<open>unat (map_start sp m) + n < 4194304\<close> by (simp add: small_def word_less_nat_alt)
qed

lemma map_ok_settled: "map_ok sp m c \<Longrightarrow> settled c c' \<Longrightarrow> map_ok sp m c'"
  using settled_visible [of c c'] unfolding map_ok_def settled_def by simp

lemma mbit_same: "map_ok sp m c \<Longrightarrow> blk_same c c' \<Longrightarrow> bblock k < map_blocks sp m \<Longrightarrow> mbit c' sp m k = mbit c sp m k"
  using map_small [of sp m c "bblock k"] unfolding mbit_def blk_same_def map_ok_def by simp

text \<open>The bits that \<open>n\<close> rounds of the loop look at, from word \<open>word\<close> of block \<open>block\<close> on.\<close>

definition passed :: "nat \<Rightarrow> nat \<Rightarrow> nat \<Rightarrow> nat \<Rightarrow> nat set" where
  "passed nb n block word = {k. \<exists>j < n. bblock k = (block + j) mod nb \<and> (j = 0 \<longrightarrow> word \<le> bword k)}"

lemma passed_all: "block < nb \<Longrightarrow> k < nb * 8192 \<Longrightarrow> k \<in> passed nb (nb + 1) block word"
proof -
  assume a: "block < nb" "k < nb * 8192"
  then have k: "bblock k < nb" by (simp add: less_mult_imp_div_less)
  define j where "j = (if block < bblock k then bblock k - block else bblock k + nb - block)"
  have "j < nb + 1 \<and> j \<noteq> 0 \<and> (block + j) mod nb = bblock k" using a(1) k unfolding j_def by auto
  then show ?thesis unfolding passed_def by (metis (mono_tags, lifting) mem_Collect_eq)
qed

lemma passed_Suc: "block < nb \<Longrightarrow> k \<in> passed nb (Suc n) block word \<Longrightarrow>
    (bblock k = block \<and> word \<le> bword k) \<or> k \<in> passed nb n (if block + 1 \<ge> nb then 0 else block + 1) 0"
proof -
  assume a: "block < nb" "k \<in> passed nb (Suc n) block word"
  then obtain j where j: "j < Suc n" "bblock k = (block + j) mod nb" "j = 0 \<longrightarrow> word \<le> bword k" unfolding passed_def by blast
  show ?thesis
  proof (cases j)
    case 0
    then show ?thesis using j a(1) by simp
  next
    case (Suc i)
    have "((if block + 1 \<ge> nb then 0 else block + 1) + i) mod nb = (block + j) mod nb"
    proof (cases "block + 1 \<ge> nb")
      case True
      then have "block + j = i + nb" using a(1) Suc by simp
      then show ?thesis using True by simp
    qed (simp add: Suc)
    then show ?thesis using j(1,2) Suc unfolding passed_def by auto
  qed
qed

lemma alloc_loop_finds:
  assumes "map_ok sp m c" "block < map_blocks sp m"
  shows "\<exists>b c'. alloc_loop (s_dev sp) (map_start sp m) (map_blocks sp m) (map_bits sp m) (s_native sp) n block word c = Some (b, c')
    \<and> settled c c' \<and> (bit_taken sp m b c c'
      \<or> b = NO_BIT \<and> blk_same c c' \<and> (\<forall>k \<in> passed (map_blocks sp m) n block word. k < unat (map_bits sp m) \<longrightarrow> mbit c sp m k))"
  using assms
proof (induction n arbitrary: block word c)
  case 0
  then show ?case by (simp add: passed_def settled_def map_ok_def blk_same_def)
next
  case (Suc n)
  note mo = Suc.prems(1)
  let ?bn = "map_start sp m + of_nat block" and ?nx = "if block + 1 \<ge> map_blocks sp m then 0 else block + 1"
  have idle: "cache_idle c" "visible c (s_dev sp)" using mo unfolding map_ok_def by blast+
  obtain i c1 where g: "get_block (s_dev sp) ?bn NORMAL c = Some (i, c1)" "b_data (bufs c1 i) = blk c (s_dev sp) ?bn"
    "\<And>t. settled c (put_block (Some i) t c1) \<and> blk_same c (put_block (Some i) t c1)"
    "\<And>t x. settled c (put_block (Some i) t (set_block i x c1)) \<and> blk_set (s_dev sp) ?bn x c (put_block (Some i) t (set_block i x c1))"
    using get_then_put [OF idle map_small [OF mo Suc.prems(2)]] by blast
  let ?d = "blk c (s_dev sp) ?bn" and ?scan = "scan_words (s_native sp) (map_bits sp m) block (blk c (s_dev sp) ?bn) [word..<512]"
  have "(map_blocks sp m + 1) * 8192 < 2 ^ 32" using mo unfolding map_ok_def by blast
  then have big: "(block + 1) * 8192 < 2 ^ 32" using Suc.prems(2) by simp
  show ?case
  proof (cases ?scan)
    case (Some r)
    obtain w j b where r: "r = (w, j, b)" by (cases r) auto
    note f = scan_some [OF Some [unfolded r] big]
    have w: "w < 512" "j < 16" "\<not> map_bit (s_native sp) ?d w j" "b = of_nat (block * 8192 + w * 16 + j)"
      "block * 8192 + w * 16 + j < unat (map_bits sp m)" using f by simp_all
    have "block * 8192 + w * 16 + j < 2 ^ 32" using w(5) unsigned_less [of "map_bits sp m", where ?'a = nat] by simp
    then have k: "unat b = block * 8192 + w * 16 + j" unfolding w(4) by (rule u32_nat)
    have "b < map_bits sp m" using w(5) k by (simp add: word_less_nat_alt)
    then have "bit_taken sp m b c (put_block (Some i) MAP_BLOCK (set_block i (set_map_bit (s_native sp) w j ?d) c1))"
      unfolding bit_taken_def mbit_def Let_def k bit_place(1) [OF w(1,2)] bit_place(2) [OF w(1,2)] bit_place(3) [OF w(2)]
      using w(3) g(4) by blast
    then show ?thesis using g(1,2,4) Some r by auto
  next
    case None
    let ?c = "put_block (Some i) MAP_BLOCK c1"
    note s1 = g(3) [of MAP_BLOCK]
    have "?nx < map_blocks sp m" using Suc.prems(2) by auto
    from Suc.IH [OF map_ok_settled [OF mo conjunct1 [OF s1]] this, of 0] obtain b c' where
      r: "alloc_loop (s_dev sp) (map_start sp m) (map_blocks sp m) (map_bits sp m) (s_native sp) n ?nx 0 ?c = Some (b, c')"
      "settled ?c c'" "bit_taken sp m b ?c c'
        \<or> b = NO_BIT \<and> blk_same ?c c' \<and> (\<forall>k \<in> passed (map_blocks sp m) n ?nx 0. k < unat (map_bits sp m) \<longrightarrow> mbit ?c sp m k)" by blast
    have in_map: "bblock k < map_blocks sp m" if "k < unat (map_bits sp m)" for k
      using that mo unfolding map_ok_def by (simp add: less_mult_imp_div_less)
    have eq: "mbit ?c sp m k = mbit c sp m k" if "k < unat (map_bits sp m)" for k
      using mbit_same [OF mo conjunct2 [OF s1] in_map [OF that]] .
    have "bit_taken sp m b c c'" if "bit_taken sp m b ?c c'"
    proof -
      let ?n = "map_start sp m + of_nat (bblock (unat b))"
      have b: "b < map_bits sp m" "unat b < unat (map_bits sp m)" using that unfolding bit_taken_def by (auto simp: word_less_nat_alt)
      have "blk ?c (s_dev sp) ?n = blk c (s_dev sp) ?n"
        using conjunct2 [OF s1] map_small [OF mo in_map [OF b(2)]] idle(2) unfolding blk_same_def by blast
      then show ?thesis using that eq [OF b(2)] settled_same_set [OF conjunct1 [OF s1] conjunct2 [OF s1]]
        unfolding bit_taken_def Let_def by auto
    qed
    moreover have "mbit c sp m k" if n: "\<forall>k \<in> passed (map_blocks sp m) n ?nx 0. k < unat (map_bits sp m) \<longrightarrow> mbit ?c sp m k"
      and k: "k \<in> passed (map_blocks sp m) (Suc n) block word" "k < unat (map_bits sp m)" for k
    proof (cases "bblock k = block \<and> word \<le> bword k")
      case True
      then have "block * 8192 + bword k * 16 + k mod 16 < unat (map_bits sp m)" using k(2) bit_place(4) [of k] by simp
      then show ?thesis using scan_none [OF None big conjunct2 [OF True] bit_place(5), of "k mod 16"] True unfolding mbit_def by simp
    next
      case False
      then show ?thesis using passed_Suc [OF Suc.prems(2) k(1)] n k(2) eq by blast
    qed
    moreover have "settled c c'" using settled_trans [OF conjunct1 [OF s1] r(2)] .
    moreover have "blk_same c c'" if "blk_same ?c c'" using settled_same [OF conjunct1 [OF s1] conjunct2 [OF s1] that] .
    moreover have "alloc_loop (s_dev sp) (map_start sp m) (map_blocks sp m) (map_bits sp m) (s_native sp) (Suc n) block word c = Some (b, c')"
      using g(1,2) None r(1) by (simp del: upt_rec_numeral)
    ultimately show ?thesis using r(3) by blast
  qed
qed

lemma mbit_taken:
  assumes "map_ok sp m c" "bit_taken sp m b c c'" "k < map_blocks sp m * 8192"
  shows "mbit c' sp m k \<longleftrightarrow> mbit c sp m k \<or> k = unat b"
proof -
  let ?kb = "unat b"
  have b: "?kb < unat (map_bits sp m)" using assms(2) unfolding bit_taken_def by (auto simp: word_less_nat_alt)
  have kb: "bblock k < map_blocks sp m" "bblock ?kb < map_blocks sp m"
    using assms(1,3) b unfolding map_ok_def by (simp_all add: less_mult_imp_div_less)
  have "visible c (s_dev sp)" "(map_blocks sp m + 1) * 8192 < 2 ^ 32" using assms(1) unfolding map_ok_def by blast+
  then have vs: "visible c (s_dev sp)" "map_blocks sp m < 2 ^ 32" by (blast, simp)
  have "unat (of_nat (bblock k) :: u32) = bblock k" "unat (of_nat (bblock ?kb) :: u32) = bblock ?kb"
    using kb vs(2) by (intro u32_nat, linarith)+
  then have inj: "map_start sp m + of_nat (bblock k) = map_start sp m + of_nat (bblock ?kb) \<longleftrightarrow> bblock k = bblock ?kb"
    by (metis add_left_cancel)
  have st: "blk c' (s_dev sp) (map_start sp m + of_nat (bblock k)) = (if bblock k = bblock ?kb
      then set_map_bit (s_native sp) (bword ?kb) (?kb mod 16) (blk c (s_dev sp) (map_start sp m + of_nat (bblock ?kb)))
      else blk c (s_dev sp) (map_start sp m + of_nat (bblock k)))"
    using assms(2) map_small [OF assms(1) kb(1)] vs(1) inj unfolding bit_taken_def blk_set_def Let_def by simp
  show ?thesis
  proof (cases "bblock k = bblock ?kb")
    case True
    have same: "k = ?kb \<longleftrightarrow> bword k = bword ?kb \<and> k mod 16 = ?kb mod 16"
      using bit_place(4) [of k] bit_place(4) [of ?kb] True by metis
    show ?thesis unfolding mbit_def st if_P [OF True] same unfolding True by (rule map_bit_set) simp_all
  next
    case False
    then have "k \<noteq> ?kb" by blast
    then show ?thesis unfolding mbit_def st if_not_P [OF False] by blast
  qed
qed

lemma origin_block: "map_ok sp m c \<Longrightarrow> bblock (unat (if origin \<ge> map_bits sp m then 0 else origin)) < map_blocks sp m"
  unfolding map_ok_def by (auto simp: less_mult_imp_div_less word_le_nat_alt)

lemma alloc_bit_cases:
  assumes "map_ok (supers s spi) m (cch s)" "\<not> s_rd_only (supers s spi)"
  shows "\<exists>b c'. alloc_bit spi m origin s = Some (b, s\<lparr>cch := c'\<rparr>) \<and> settled (cch s) c'
    \<and> (bit_taken (supers s spi) m b (cch s) c'
      \<or> b = NO_BIT \<and> blk_same (cch s) c' \<and> (\<forall>k < unat (map_bits (supers s spi) m). mbit (cch s) (supers s spi) m k))"
proof -
  let ?sp = "supers s spi" and ?o = "if origin \<ge> map_bits (supers s spi) m then 0 else origin"
  let ?w = "(unat ?o mod 8192) div 16"
  have o: "bblock (unat ?o) < map_blocks ?sp m" by (rule origin_block [OF assms(1)])
  from alloc_loop_finds [OF assms(1) o, where n = "map_blocks ?sp m + 1" and word = ?w] obtain b c' where
    r: "alloc_loop (s_dev ?sp) (map_start ?sp m) (map_blocks ?sp m) (map_bits ?sp m) (s_native ?sp) (map_blocks ?sp m + 1)
        (bblock (unat ?o)) ?w (cch s) = Some (b, c')" "settled (cch s) c'"
      "bit_taken ?sp m b (cch s) c' \<or> b = NO_BIT \<and> blk_same (cch s) c'
        \<and> (\<forall>k \<in> passed (map_blocks ?sp m) (map_blocks ?sp m + 1) (bblock (unat ?o)) ?w. k < unat (map_bits ?sp m) \<longrightarrow> mbit (cch s) ?sp m k)" by blast
  have "k \<in> passed (map_blocks ?sp m) (map_blocks ?sp m + 1) (bblock (unat ?o)) ?w" if "k < unat (map_bits ?sp m)" for k
    using passed_all [OF o] that assms(1) unfolding map_ok_def by simp
  then have "bit_taken ?sp m b (cch s) c' \<or> b = NO_BIT \<and> blk_same (cch s) c' \<and> (\<forall>k < unat (map_bits ?sp m). mbit (cch s) ?sp m k)"
    using r(3) by blast
  moreover have "alloc_bit spi m origin s = Some (b, s\<lparr>cch := c'\<rparr>)"
    unfolding alloc_bit_def Let_def if_not_P [OF assms(2)] on_cache_def r(1) by simp
  ultimately show ?thesis using r(2) by blast
qed

lemma free_bit_clears:
  assumes "map_ok (supers s spi) m (cch s)" "\<not> s_rd_only (supers s spi)" "bblock (unat b) < map_blocks (supers s spi) m"
  shows "if mbit (cch s) (supers s spi) m (unat b)
    then \<exists>c'. free_bit spi m b s = Some (s\<lparr>cch := c'\<rparr>) \<and> settled (cch s) c'
      \<and> (let bn = map_start (supers s spi) m + of_nat (bblock (unat b))
         in blk_set (s_dev (supers s spi)) bn (clear_map_bit (s_native (supers s spi)) (bword (unat b)) (unat b mod BITCHUNK_BITS)
              (blk (cch s) (s_dev (supers s spi)) bn)) (cch s) c')
    else free_bit spi m b s = None"
proof -
  let ?sp = "supers s spi"
  let ?bn = "map_start ?sp m + of_nat (bblock (unat b))"
  have "cache_idle (cch s)" "visible (cch s) (s_dev ?sp)" using assms(1) unfolding map_ok_def by blast+
  then obtain i c1 where g:
    "get_block (s_dev ?sp) ?bn NORMAL (cch s) = Some (i, c1)" "b_data (bufs c1 i) = blk (cch s) (s_dev ?sp) ?bn"
    "\<And>t x. settled (cch s) (put_block (Some i) t (set_block i x c1)) \<and> blk_set (s_dev ?sp) ?bn x (cch s) (put_block (Some i) t (set_block i x c1))"
    by (rule get_then_put [OF _ _ map_small [OF assms(1,3)]]) rule
  let ?on = "mbit (cch s) ?sp m (unat b)"
  have r: "free_bit_cache (s_dev ?sp) (map_start ?sp m) (s_native ?sp) b (cch s) = (if \<not> ?on then None
      else Some ((), put_block (Some i) MAP_BLOCK
        (set_block i (clear_map_bit (s_native ?sp) (bword (unat b)) (unat b mod 16) (blk (cch s) (s_dev ?sp) ?bn)) c1)))"
    unfolding free_bit_cache_def Let_def mbit_def map_bit_def by (simp only: g(1,2) Option.bind.bind_lunit prod.case)
  show ?thesis
  proof (cases ?on)
    case True
    let ?c = "put_block (Some i) MAP_BLOCK (set_block i (clear_map_bit (s_native ?sp) (bword (unat b)) (unat b mod 16) (blk (cch s) (s_dev ?sp) ?bn)) c1)"
    have "free_bit spi m b s = Some (s\<lparr>cch := ?c\<rparr>)"
      unfolding free_bit_def Let_def if_not_P [OF assms(2)] on_cache_def r using True by simp
    then show ?thesis unfolding if_P [OF True] Let_def by (intro exI [of _ ?c] conjI g(3) [THEN conjunct1] g(3) [THEN conjunct2])
  next
    case False
    then show ?thesis unfolding if_not_P [OF False] free_bit_def Let_def if_not_P [OF assms(2)] on_cache_def r if_P [OF False] by simp
  qed
qed

subsection \<open>An example\<close>

text \<open>A file system with 95 zones on device 769; the first two bits of its zone map are set.\<close>

definition ex_mounted :: fs where
  "ex_mounted = ex_fs\<lparr>supers := (\<lambda>_. zero_super\<lparr>s_dev := NO_DEV\<rparr>)(0 := zero_super\<lparr>s_dev := 769, s_imap_blocks := 1, s_zmap_blocks := 1, s_ninodes := 64,
     s_firstdatazone := 5, s_zones := 100\<rparr>)\<rparr>"

lemma ex_mounted_maps: "map_blocks (supers ex_mounted 0) ZMAP = 1" "map_start (supers ex_mounted 0) ZMAP = 3" "map_bits (supers ex_mounted 0) ZMAP = 96"
  "s_dev (supers ex_mounted 0) = 769" "s_native (supers ex_mounted 0)" "\<not> s_rd_only (supers ex_mounted 0)" "get_super 769 ex_mounted = Some 0"
  "cch ex_mounted = buf_pool ex_cache"
  by (simp_all add: ex_mounted_def zero_super_def map_blocks_def map_start_def map_bits_def ex_fs_def get_super_def del: upt_rec_numeral)
    (simp add: upt_rec)?

lemma ex_mounted_ok: "map_ok (supers ex_mounted 0) ZMAP (cch ex_mounted)"
  unfolding map_ok_def ex_mounted_maps using buf_pool_idle(1) [OF ex_cache_boot] by (simp add: visible_def)

lemma ex_mounted_bit: "mbit (cch ex_mounted) (supers ex_mounted 0) ZMAP 0" "\<not> mbit (cch ex_mounted) (supers ex_mounted 0) ZMAP 2"
proof -
  have "visible (buf_pool ex_cache) 769 \<and> small 3" by (simp add: visible_def small_def)
  then have "blk (buf_pool ex_cache) 769 3 = disk ex_cache 769 (blk_pos 3)" using ex_cache_agrees unfolding blk_agree_def by blast
  also have "\<dots> = (\<lambda>_. 3)" by (simp add: ex_cache_def blk_pos_def)
  finally have "blk (cch ex_mounted) (s_dev (supers ex_mounted 0)) (map_start (supers ex_mounted 0) ZMAP + of_nat 0) = (\<lambda>_. 3)"
    unfolding ex_mounted_maps by simp
  then show "mbit (cch ex_mounted) (supers ex_mounted 0) ZMAP 0" "\<not> mbit (cch ex_mounted) (supers ex_mounted 0) ZMAP 2"
    unfolding mbit_def by (simp_all add: map_bit_def ex_mounted_maps conv2_def blk_get16_def)
qed

subsection \<open>Properties\<close>

text \<open>C35: alloc_bit searches a whole bit map, from wherever it is told to start, in the byte order of the
  file system: if some bit of the map is free it returns the number of a free bit below the end of the
  map, sets this bit and no other bit of the map; otherwise it returns NO_BIT and changes nothing.\<close>

theorem alloc_bit_finds:
  assumes "map_ok (supers s spi) m (cch s)" "\<not> s_rd_only (supers s spi)" "mbit (cch s) (supers s spi) m 0"
  shows "\<exists>b c'. alloc_bit spi m origin s = Some (b, s\<lparr>cch := c'\<rparr>) \<and> settled (cch s) c'
    \<and> (if \<exists>k < unat (map_bits (supers s spi) m). \<not> mbit (cch s) (supers s spi) m k
       then b \<noteq> NO_BIT \<and> b < map_bits (supers s spi) m \<and> \<not> mbit (cch s) (supers s spi) m (unat b)
         \<and> (\<forall>k < map_blocks (supers s spi) m * BITS_PER_BLOCK. mbit c' (supers s spi) m k \<longleftrightarrow> mbit (cch s) (supers s spi) m k \<or> k = unat b)
       else b = NO_BIT \<and> blk_same (cch s) c')"
proof -
  let ?sp = "supers s spi"
  obtain b c' where r: "alloc_bit spi m origin s = Some (b, s\<lparr>cch := c'\<rparr>)" "settled (cch s) c'"
    "bit_taken ?sp m b (cch s) c' \<or> b = NO_BIT \<and> blk_same (cch s) c' \<and> (\<forall>k < unat (map_bits ?sp m). mbit (cch s) ?sp m k)"
    using alloc_bit_cases [OF assms(1,2)] by blast
  show ?thesis
  proof (cases "bit_taken ?sp m b (cch s) c'")
    case True
    then have b: "b < map_bits ?sp m" "\<not> mbit (cch s) ?sp m (unat b)" unfolding bit_taken_def by blast+
    moreover have "b \<noteq> NO_BIT" using b(2) assms(3) by auto
    moreover have "unat b < unat (map_bits ?sp m)" using b(1) by (simp add: word_less_nat_alt)
    ultimately show ?thesis using r(1,2) mbit_taken [OF assms(1) True] by auto
  next
    case False
    then show ?thesis using r by auto
  qed
qed

lemma alloc_bit_finds_witness: "\<exists>b c'. alloc_bit 0 ZMAP 50 ex_mounted = Some (b, ex_mounted\<lparr>cch := c'\<rparr>) \<and> b \<noteq> NO_BIT \<and> b < 96"
proof -
  have "2 < unat (map_bits (supers ex_mounted 0) ZMAP)" unfolding ex_mounted_maps by simp
  then have "\<exists>k < unat (map_bits (supers ex_mounted 0) ZMAP). \<not> mbit (cch ex_mounted) (supers ex_mounted 0) ZMAP k" using ex_mounted_bit(2) by blast
  note e = this
  show ?thesis using alloc_bit_finds [OF ex_mounted_ok ex_mounted_maps(6) ex_mounted_bit(1), of 50] unfolding if_P [OF e] unfolding ex_mounted_maps(3) by blast
qed

lemma bit_round_trip:
  assumes "map_ok (supers s spi) m (cch s)" "\<not> s_rd_only (supers s spi)" "alloc_bit spi m origin s = Some (b, s1)" "b \<noteq> NO_BIT"
  shows "\<exists>c1 c2. s1 = s\<lparr>cch := c1\<rparr> \<and> b < map_bits (supers s spi) m \<and> settled c1 c2 \<and> blk_same (cch s) c2
    \<and> (\<forall>t x. supers t spi = (supers s spi)\<lparr>s_zsearch := x\<rparr> \<longrightarrow> cch t = c1 \<longrightarrow> free_bit spi m b t = Some (t\<lparr>cch := c2\<rparr>))"
proof -
  let ?sp = "supers s spi"
  obtain c1 where s1: "s1 = s\<lparr>cch := c1\<rparr>" "settled (cch s) c1" "bit_taken ?sp m b (cch s) c1"
    using alloc_bit_cases [OF assms(1,2), of origin] assms(3,4) by auto
  let ?bn = "map_start ?sp m + of_nat (bblock (unat b))" and ?w = "bword (unat b)" and ?i = "unat b mod 16"
  have b: "b < map_bits ?sp m" "\<not> mbit (cch s) ?sp m (unat b)"
    and set: "blk_set (s_dev ?sp) ?bn (set_map_bit (s_native ?sp) ?w ?i (blk (cch s) (s_dev ?sp) ?bn)) (cch s) c1"
    using s1(3) unfolding bit_taken_def Let_def by blast+
  have ub: "unat b < unat (map_bits ?sp m)" using b(1) by (simp add: word_less_nat_alt)
  then have "unat b < map_blocks ?sp m * 8192" "bblock (unat b) < map_blocks ?sp m"
    using assms(1) unfolding map_ok_def by (simp_all add: less_mult_imp_div_less)
  note ub = this
  have on: "mbit c1 ?sp m (unat b)" using mbit_taken [OF assms(1) s1(3) ub(1)] by blast
  have ok1: "map_ok ?sp m c1" by (rule map_ok_settled [OF assms(1) s1(2)])
  have v: "visible (cch s) (s_dev ?sp)" using assms(1) unfolding map_ok_def by blast
  have c1: "blk c1 (s_dev ?sp) ?bn = set_map_bit (s_native ?sp) ?w ?i (blk (cch s) (s_dev ?sp) ?bn)"
    using set v map_small [OF assms(1) ub(2)] unfolding blk_set_def by simp
  from free_bit_clears [of "s\<lparr>cch := c1\<rparr>" spi m b] ok1 assms(2) ub(2) on obtain c2 where
    f: "free_bit spi m b (s\<lparr>cch := c1\<rparr>) = Some (s\<lparr>cch := c2\<rparr>)" "settled c1 c2"
      "blk_set (s_dev ?sp) ?bn (clear_map_bit (s_native ?sp) ?w ?i (blk c1 (s_dev ?sp) ?bn)) c1 c2"
    unfolding Let_def by auto
  have old: "clear_map_bit (s_native ?sp) ?w ?i (blk c1 (s_dev ?sp) ?bn) = blk (cch s) (s_dev ?sp) ?bn"
    unfolding c1 by (rule clear_after_set) (use b(2) in \<open>simp_all add: mbit_def\<close>)
  have "blk_same (cch s) c2"
    using set f(3) settled_visible [OF s1(2)] unfolding old blk_same_def blk_set_def by simp
  moreover have "free_bit spi m b t = Some (t\<lparr>cch := c2\<rparr>)" if t: "supers t spi = ?sp\<lparr>s_zsearch := x\<rparr>" "cch t = c1" for t x
  proof -
    have "map_option snd (on_cache F (s\<lparr>cch := c1\<rparr>)) = Some (s\<lparr>cch := c2\<rparr>) \<Longrightarrow> map_option snd (on_cache F t) = Some (t\<lparr>cch := c2\<rparr>)" for F :: "cache \<Rightarrow> (unit \<times> cache) option"
      using t(2) unfolding on_cache_def by (cases "F c1") (auto dest: arg_cong [where f = cch])
    moreover have "map_start (?sp\<lparr>s_zsearch := x\<rparr>) m = map_start ?sp m" by (cases m) (simp_all add: map_start_def)
    ultimately show ?thesis using f(1) t(1) assms(2) unfolding free_bit_def Let_def by simp
  qed
  ultimately show ?thesis using s1(1) b(1) f(2) by blast
qed

text \<open>C36: Zones come back.  A zone that alloc_zone returns lies in the data area of the device, and free_zone
  of it undoes the allocation: it finds the bit set, and every block of every device, the maps included, is
  again what it was.\<close>

theorem zone_round_trip:
  assumes "get_super dev s = Some spi" "map_ok (supers s spi) ZMAP (cch s)" "\<not> s_rd_only (supers s spi)"
    "mbit (cch s) (supers s spi) ZMAP 0" "0 < s_firstdatazone (supers s spi)" "ucast (s_firstdatazone (supers s spi)) \<le> s_zones (supers s spi)"
    "alloc_zone dev z s = Some (n, s1)" "n \<noteq> NO_ZONE"
  shows "ucast (s_firstdatazone (supers s spi)) \<le> n \<and> n < s_zones (supers s spi)
    \<and> (\<exists>s2. free_zone dev n s1 = Some s2 \<and> cache_idle (cch s2) \<and> blk_same (cch s) (cch s2))"
proof -
  let ?sp = "supers s spi"
  let ?f = "ucast (s_firstdatazone ?sp) :: u32"
  let ?b0 = "if z = ?f then s_zsearch ?sp else z - (?f - 1)"
  obtain b c' where a: "alloc_bit spi ZMAP ?b0 s = Some (b, s\<lparr>cch := c'\<rparr>)" "b = NO_BIT \<or> bit_taken ?sp ZMAP b (cch s) c'"
    using alloc_bit_cases [OF assms(2,3), of ?b0] by blast
  note az = assms(7) [unfolded alloc_zone_def assms(1) Option.bind.bind_lunit Let_def a(1) prod.case]
  have b: "b \<noteq> NO_BIT" using az assms(8) by (auto split: if_splits)
  then have n: "n = ?f - 1 + b" "s1 = (if z = ?f then upd_super spi (\<lambda>p. p\<lparr>s_zsearch := b\<rparr>) (s\<lparr>cch := c'\<rparr>) else s\<lparr>cch := c'\<rparr>)"
    using az by (simp_all del: if_split)
  obtain c1 c2 where q: "s\<lparr>cch := c'\<rparr> = s\<lparr>cch := c1\<rparr>" and r: "b < map_bits ?sp ZMAP" "settled c1 c2" "blk_same (cch s) c2"
      "\<forall>t x. supers t spi = ?sp\<lparr>s_zsearch := x\<rparr> \<longrightarrow> cch t = c1 \<longrightarrow> free_bit spi ZMAP b t = Some (t\<lparr>cch := c2\<rparr>)"
    using bit_round_trip [OF assms(2,3) a(1) b] by blast
  have c1: "c1 = c'" using arg_cong [OF q, of cch] by simp
  have "unat ?f = unat (s_firstdatazone ?sp)" 
    using unsigned_less [of "s_firstdatazone ?sp", where ?'a = nat] by (simp add: unsigned_ucast_eq take_bit_nat_eq_self)
  then have "0 < unat ?f" using assms(5) by (simp add: word_less_nat_alt)
  then have f1: "unat (?f - 1) = unat ?f - 1" by (simp add: unat_minus_one word_gt_0_no unat_gt_0)
  have "?f - 1 \<le> s_zones ?sp" using assms(6) f1 by (simp add: word_le_nat_alt)
  then have "unat b < unat (s_zones ?sp) - (unat ?f - 1)" using r(1) f1 unfolding map_bits_def by (simp add: word_less_nat_alt unat_sub)
  moreover have "0 < unat b" using b by (simp add: unat_gt_0)
  moreover have "unat (?f - 1 + b) = unat (?f - 1) + unat b"
    using calculation f1 unsigned_less [of "s_zones ?sp", where ?'a = nat] by (simp add: unat_word_ariths)
  ultimately have range: "?f \<le> n" "n < s_zones ?sp" using \<open>0 < unat ?f\<close> f1 unfolding n(1) word_le_nat_alt word_less_nat_alt by linarith+
  define x where "x = (if z = ?f then b else s_zsearch ?sp)"
  have sp1: "supers s1 spi = ?sp\<lparr>s_zsearch := x\<rparr>" "cch s1 = c'" unfolding n(2) x_def by (simp_all add: upd_super_def)
  have dv: "s_dev (supers s1 i) = s_dev (supers s i)" for i unfolding n(2) by (simp add: upd_super_def)
  have gs: "get_super dev s1 = Some spi" using assms(1) unfolding get_super_def dv .
  have fb: "free_bit spi ZMAP (n - (?f - 1)) s1 = Some (s1\<lparr>cch := c2\<rparr>)" 
  proof -
    have "n - (?f - 1) = b" unfolding n(1) by simp
    then show ?thesis using r(4) sp1 unfolding c1 by metis
  qed
  let ?s2 = "if n - (?f - 1) < s_zsearch (supers s1 spi) then upd_super spi (\<lambda>p. p\<lparr>s_zsearch := n - (?f - 1)\<rparr>) (s1\<lparr>cch := c2\<rparr>) else s1\<lparr>cch := c2\<rparr>"
  have "\<not> (n < ?f \<or> n \<ge> s_zones ?sp)" using range by auto
  then have "free_zone dev n s1 = Some ?s2" unfolding free_zone_def gs Option.bind.bind_lunit Let_def using sp1 fb by simp
  moreover have "cch ?s2 = c2" by (simp add: upd_super_def)
  ultimately show ?thesis using range r(2,3) unfolding settled_def by metis
qed

lemma zone_round_trip_witness:
  "\<exists>n s1 s2. alloc_zone 769 5 ex_mounted = Some (n, s1) \<and> n \<noteq> NO_ZONE \<and> free_zone 769 n s1 = Some s2 \<and> blk_same (cch ex_mounted) (cch s2)"
proof -
  have z: "s_firstdatazone (supers ex_mounted 0) = 5" "s_zones (supers ex_mounted 0) = 100" "s_zsearch (supers ex_mounted 0) = 0"
    by (simp_all add: ex_mounted_def zero_super_def)
  obtain b c' where b: "alloc_bit 0 ZMAP 0 ex_mounted = Some (b, ex_mounted\<lparr>cch := c'\<rparr>)" "b = NO_BIT \<or> bit_taken (supers ex_mounted 0) ZMAP b (cch ex_mounted) c'"
    "b = NO_BIT \<Longrightarrow> \<forall>k < unat (map_bits (supers ex_mounted 0) ZMAP). mbit (cch ex_mounted) (supers ex_mounted 0) ZMAP k"
    using alloc_bit_cases [OF ex_mounted_ok ex_mounted_maps(6), of 0] ex_mounted_bit(1) unfolding bit_taken_def by (metis unsigned_0)
  have n: "b \<noteq> NO_BIT" using b(3) ex_mounted_bit(2) unfolding ex_mounted_maps by auto
  have "b < 96" using b(2) n unfolding bit_taken_def ex_mounted_maps by blast
  then have "unat (4 + b) = 4 + unat b" by (simp add: unat_word_ariths word_less_nat_alt)
  then have nz: "4 + b \<noteq> NO_ZONE" by (metis add_eq_0_iff_both_eq_0 unsigned_0 zero_neq_numeral)
  obtain s1 where a: "alloc_zone 769 5 ex_mounted = Some (4 + b, s1)"
    using b(1) n unfolding alloc_zone_def ex_mounted_maps by (simp add: z)
  from zone_round_trip [OF ex_mounted_maps(7) ex_mounted_ok ex_mounted_maps(6) ex_mounted_bit(1) _ _ a nz] a nz
  show ?thesis by (simp add: z) blast
qed

end
