(* ===== verification/FS_Inode.thy ===== *)
theory FS_Inode
  imports FS_Super
begin

text \<open>
  Inodes and the maps from file positions to blocks (\<^verbatim>\<open>fs/inode.c\<close>, the maps of
  \<^verbatim>\<open>fs/read.c\<close> and \<^verbatim>\<open>fs/write.c\<close>, \<^verbatim>\<open>truncate()\<close> of \<^verbatim>\<open>fs/link.c\<close>).
  A result \<open>None\<close> is a panic, a null pointer, an index outside of an array, or a loop that does not end.
\<close>

abbreviation (input) NO_BLOCK :: u32 where "NO_BLOCK \<equiv> 0"
abbreviation (input) V1_NR_TZONES :: nat where "V1_NR_TZONES \<equiv> 9"
abbreviation (input) V2_NR_TZONES :: nat where "V2_NR_TZONES \<equiv> 10"
abbreviation (input) PIPE_SIZE :: u32 where "PIPE_SIZE \<equiv> 7168"

subsection \<open>Buffers\<close>

definition fs_get :: "int \<Rightarrow> u32 \<Rightarrow> search \<Rightarrow> fs \<Rightarrow> (nat \<times> fs) option" where
  "fs_get dev b mode = on_cache (get_block dev b mode)"

definition fs_put :: "nat option \<Rightarrow> nat \<Rightarrow> fs \<Rightarrow> fs" where
  "fs_put bp t s = s\<lparr>cch := put_block bp t (cch s)\<rparr>"

definition fs_buf :: "nat \<Rightarrow> (buf \<Rightarrow> buf) \<Rightarrow> fs \<Rightarrow> fs" where
  "fs_buf bp f s = s\<lparr>cch := upd_buf bp f (cch s)\<rparr>"

definition zero_block :: "nat \<Rightarrow> fs \<Rightarrow> fs" where
  "zero_block bp s = fs_buf bp (\<lambda>b. b\<lparr>b_data := (\<lambda>_. 0), b_dirt := True\<rparr>) s"

text \<open>The answer of the clock task is the time; a failing \<^verbatim>\<open>sendrec()\<close> is not considered.\<close>

definition clock_time :: "fs \<Rightarrow> u32 \<times> fs" where
  "clock_time s = (let (t, s1) = ask_fs ReqTime s in (word_of_int t, s1))"

subsection \<open>Inodes on the disk\<close>

definition old_read :: "bool \<Rightarrow> block \<Rightarrow> nat \<Rightarrow> inode \<Rightarrow> inode" where
  "old_read norm d k p =
     (let mtime = conv4 norm (blk_get32 d (k + 8))
      in p\<lparr>i_mode := conv2 norm (blk_get16 d k), i_uid := conv2 norm (blk_get16 d (k + 2)), i_size := conv4 norm (blk_get32 d (k + 4)),
           i_mtime := mtime, i_atime := mtime, i_ctime := mtime, i_nlinks := ucast (d (k + 13)), i_gid := d (k + 12),
           i_ndzones := 7, i_nindirs := 512,
           i_zone := (\<lambda>i. if i < V1_NR_TZONES then ucast (conv2 norm (blk_get16 d (k + 14 + 2 * i))) else i_zone p i)\<rparr>)"

definition old_write :: "bool \<Rightarrow> inode \<Rightarrow> nat \<Rightarrow> block \<Rightarrow> block" where
  "old_write norm p k d =
     (let d1 = blk_put16 d k (conv2 norm (i_mode p));
          d2 = blk_put16 d1 (k + 2) (conv2 norm (i_uid p));
          d3 = blk_put32 d2 (k + 4) (conv4 norm (i_size p));
          d4 = blk_put32 d3 (k + 8) (conv4 norm (i_mtime p));
          d5 = d4(k + 13 := ucast (i_nlinks p), k + 12 := i_gid p)
      in fold (\<lambda>i d. blk_put16 d (k + 14 + 2 * i) (conv2 norm (ucast (i_zone p i)))) [0..<V1_NR_TZONES] d5)"

definition new_read :: "bool \<Rightarrow> block \<Rightarrow> nat \<Rightarrow> inode \<Rightarrow> inode" where
  "new_read norm d k p =
     p\<lparr>i_mode := conv2 norm (blk_get16 d k), i_uid := conv2 norm (blk_get16 d (k + 4)), i_nlinks := conv2 norm (blk_get16 d (k + 2)),
       i_gid := ucast (conv2 norm (blk_get16 d (k + 6))), i_size := conv4 norm (blk_get32 d (k + 8)),
       i_atime := conv4 norm (blk_get32 d (k + 12)), i_ctime := conv4 norm (blk_get32 d (k + 20)),
       i_mtime := conv4 norm (blk_get32 d (k + 16)), i_ndzones := 7, i_nindirs := 256,
       i_zone := (\<lambda>i. if i < V2_NR_TZONES then conv4 norm (blk_get32 d (k + 24 + 4 * i)) else i_zone p i)\<rparr>"

text \<open>The group of an inode is a signed character, which \<^verbatim>\<open>conv2()\<close> receives as an integer.\<close>

definition new_write :: "bool \<Rightarrow> inode \<Rightarrow> nat \<Rightarrow> block \<Rightarrow> block" where
  "new_write norm p k d =
     (let d1 = blk_put16 d k (conv2 norm (i_mode p));
          d2 = blk_put16 d1 (k + 4) (conv2 norm (i_uid p));
          d3 = blk_put16 d2 (k + 2) (conv2 norm (i_nlinks p));
          d4 = blk_put16 d3 (k + 6) (conv2 norm (scast (i_gid p)));
          d5 = blk_put32 d4 (k + 8) (conv4 norm (i_size p));
          d6 = blk_put32 d5 (k + 12) (conv4 norm (i_atime p));
          d7 = blk_put32 d6 (k + 20) (conv4 norm (i_ctime p));
          d8 = blk_put32 d7 (k + 16) (conv4 norm (i_mtime p))
      in fold (\<lambda>i d. blk_put32 d (k + 24 + 4 * i) (conv4 norm (i_zone p i))) [0..<V2_NR_TZONES] d8)"

definition update_times :: "nat \<Rightarrow> fs \<Rightarrow> fs option" where
  "update_times rip s =
     do {
       spi \<leftarrow> i_sp (inodes s rip);
       if s_rd_only (supers s spi) then Some s
       else let (now, s1) = clock_time s
            in Some (upd_inode rip (\<lambda>p. p\<lparr>
                 i_atime := (if i_update p AND ATIME \<noteq> 0 then now else i_atime p),
                 i_ctime := (if i_update p AND CTIME \<noteq> 0 then now else i_ctime p),
                 i_mtime := (if i_update p AND MTIME \<noteq> 0 then now else i_mtime p),
                 i_update := 0\<rparr>) s1)
     }"

text \<open>The block of an inode and its place there.\<close>

definition inode_block :: "super_block \<Rightarrow> u16 \<Rightarrow> u32" where
  "inode_block sp num = (ucast num - 1) div of_nat (s_inodes_per_block sp) + (scast (s_imap_blocks sp) + scast (s_zmap_blocks sp) + 2)"

definition inode_place :: "super_block \<Rightarrow> u16 \<Rightarrow> nat" where
  "inode_place sp num = (if s_version sp = 1 then unat ((ucast num :: u32) - 1) mod 32 * 32 else unat ((ucast num :: u32) - 1) mod 16 * 64)"

definition rw_inode :: "nat \<Rightarrow> rw \<Rightarrow> fs \<Rightarrow> fs option" where
  "rw_inode rip flag s =
     do {
       spi \<leftarrow> get_super (i_dev (inodes s rip)) s;
       let sp = supers s spi;
       let s1 = upd_inode rip (\<lambda>p. p\<lparr>i_sp := Some spi\<rparr>) s;
       if s_inodes_per_block sp = 0 then None
       else do {
         let p = inodes s1 rip;
         let k = inode_place sp (i_num p);
         (bp, s2) \<leftarrow> fs_get (i_dev p) (inode_block sp (i_num p)) NORMAL s1;
         s4 \<leftarrow> (if flag = WRITING
               then do {
                 s3 \<leftarrow> (if i_update (inodes s2 rip) \<noteq> 0 then update_times rip s2 else Some s2);
                 let q = inodes s3 rip;
                 Some (fs_buf bp (\<lambda>b. b\<lparr>
                   b_dirt := b_dirt b \<or> \<not> s_rd_only sp,
                   b_data := (if s_version sp = 1 then old_write (s_native sp) q k (b_data b) else new_write (s_native sp) q k (b_data b))\<rparr>) s3)
               }
               else let d = b_data (bufs (cch s2) bp)
                    in Some (upd_inode rip (\<lambda>p. if s_version sp = 1 then old_read (s_native sp) d k p else new_read (s_native sp) d k p) s2));
         Some (upd_inode rip (\<lambda>p. p\<lparr>i_dirt := False\<rparr>) (fs_put (Some bp) INODE_BLOCK s4))
       }
     }"

subsection \<open>The table of inodes\<close>

text \<open>The slot of (device, number) if it is in use; otherwise the last free slot.\<close>

definition find_inode :: "int \<Rightarrow> int \<Rightarrow> fs \<Rightarrow> nat option" where
  "find_inode dev numb s =
     find (\<lambda>i. i_count (inodes s i) > 0 \<and> i_dev (inodes s i) = dev \<and> uint (i_num (inodes s i)) = numb) [0..<NR_INODES]"

definition free_slot :: "fs \<Rightarrow> nat option" where
  "free_slot s = find (\<lambda>i. \<not> i_count (inodes s i) > 0) (rev [0..<NR_INODES])"

definition get_inode :: "int \<Rightarrow> int \<Rightarrow> fs \<Rightarrow> (nat option \<times> fs) option" where
  "get_inode dev numb s =
     (case find_inode dev numb s of
        Some i \<Rightarrow> Some (Some i, upd_inode i (\<lambda>p. p\<lparr>i_count := i_count p + 1\<rparr>) s)
      | None \<Rightarrow>
          (case free_slot s of
             None \<Rightarrow> Some (None, s\<lparr>err_code := ENFILE\<rparr>)
           | Some x \<Rightarrow>
               do {
                 let s1 = upd_inode x (\<lambda>p. p\<lparr>i_dev := dev, i_num := word_of_int numb, i_count := 1\<rparr>) s;
                 s2 \<leftarrow> (if dev \<noteq> NO_DEV then rw_inode x READING s1 else Some s1);
                 Some (Some x, upd_inode x (\<lambda>p. p\<lparr>i_update := 0\<rparr>) s2)
               }))"

definition dup_inode :: "nat \<Rightarrow> fs \<Rightarrow> fs" where
  "dup_inode ip s = upd_inode ip (\<lambda>p. p\<lparr>i_count := i_count p + 1\<rparr>) s"

definition wipe_inode :: "nat \<Rightarrow> fs \<Rightarrow> fs" where
  "wipe_inode rip s =
     upd_inode rip (\<lambda>p. p\<lparr>i_size := 0, i_update := ATIME OR CTIME OR MTIME, i_dirt := True,
       i_zone := (\<lambda>i. if i < V2_NR_TZONES then NO_ZONE else i_zone p i)\<rparr>) s"

definition free_inode :: "int \<Rightarrow> u16 \<Rightarrow> fs \<Rightarrow> fs option" where
  "free_inode dev inumb s =
     do {
       spi \<leftarrow> get_super dev s;
       if inumb = 0 \<or> inumb > s_ninodes (supers s spi) then Some s
       else do {
         s1 \<leftarrow> free_bit spi IMAP (ucast inumb) s;
         Some (if ucast inumb < s_isearch (supers s1 spi) then upd_super spi (\<lambda>p. p\<lparr>s_isearch := ucast inumb\<rparr>) s1 else s1)
       }
     }"

definition alloc_inode :: "int \<Rightarrow> u16 \<Rightarrow> fs \<Rightarrow> (nat option \<times> fs) option" where
  "alloc_inode dev mode s =
     do {
       spi \<leftarrow> get_super dev s;
       if s_rd_only (supers s spi) then Some (None, s\<lparr>err_code := EROFS\<rparr>)
       else do {
         (b, s1) \<leftarrow> alloc_bit spi IMAP (s_isearch (supers s spi)) s;
         if b = NO_BIT then Some (None, s1\<lparr>err_code := ENFILE\<rparr>)
         else do {
           (r, s2) \<leftarrow> get_inode NO_DEV (uint b) (upd_super spi (\<lambda>p. p\<lparr>s_isearch := b\<rparr>) s1);
           case r of
             None \<Rightarrow> map_option (Pair None) (free_bit spi IMAP b s2)
           | Some rip \<Rightarrow>
               let me = fprocs s2 (cfp s2); sp = supers s2 spi
               in Some (Some rip, wipe_inode rip (upd_inode rip (\<lambda>p. p\<lparr>i_mode := mode, i_nlinks := 0, i_uid := fp_effuid me,
                    i_gid := fp_effgid me, i_dev := dev, i_ndzones := s_ndzones sp, i_nindirs := s_nindirs sp, i_sp := Some spi\<rparr>) s2))
         }
       }
     }"

subsection \<open>From positions to blocks\<close>

text \<open>An entry of an indirect block; an illegal zone number is a panic.\<close>

definition ind_size :: "super_block \<Rightarrow> nat" where
  "ind_size sp = (if s_version sp = 1 then 512 else 256)"

definition ind_get :: "super_block \<Rightarrow> block \<Rightarrow> nat \<Rightarrow> u32" where
  "ind_get sp d i = (if s_version sp = 1 then ucast (conv2 (s_native sp) (blk_get16 d (2 * i))) else conv4 (s_native sp) (blk_get32 d (4 * i)))"

definition ind_put :: "super_block \<Rightarrow> nat \<Rightarrow> u32 \<Rightarrow> block \<Rightarrow> block" where
  "ind_put sp i z d = (if s_version sp = 1 then blk_put16 d (2 * i) (conv2 (s_native sp) (ucast z)) else blk_put32 d (4 * i) (conv4 (s_native sp) z))"

definition zone_ok :: "super_block \<Rightarrow> u32 \<Rightarrow> bool" where
  "zone_ok sp z \<longleftrightarrow> z = NO_ZONE \<or> ucast (s_firstdatazone sp) \<le> z \<and> z < s_zones sp"

definition rd_indir :: "nat \<Rightarrow> nat \<Rightarrow> fs \<Rightarrow> u32 option" where
  "rd_indir bp index s =
     do {
       spi \<leftarrow> get_super (b_dev (bufs (cch s) bp)) s;
       let sp = supers s spi;
       if index < ind_size sp
       then let z = ind_get sp (b_data (bufs (cch s) bp)) index in if zone_ok sp z then Some z else None
       else None
     }"

definition wr_indir :: "nat \<Rightarrow> nat \<Rightarrow> u32 \<Rightarrow> fs \<Rightarrow> fs option" where
  "wr_indir bp index z s =
     do {
       spi \<leftarrow> get_super (b_dev (bufs (cch s) bp)) s;
       let sp = supers s spi;
       if index < ind_size sp then Some (fs_buf bp (\<lambda>b. b\<lparr>b_data := ind_put sp index z (b_data b)\<rparr>) s) else None
     }"

definition zone_scale :: "nat \<Rightarrow> fs \<Rightarrow> nat option" where
  "zone_scale rip s = map_option (\<lambda>spi. unat (s_log_zone_size (supers s spi))) (i_sp (inodes s rip))"

text \<open>An entry of the indirect block in zone \<open>z\<close>.\<close>

definition ind_entry :: "nat \<Rightarrow> u32 \<Rightarrow> nat \<Rightarrow> nat \<Rightarrow> fs \<Rightarrow> (u32 \<times> fs) option" where
  "ind_entry rip z scale index s =
     do {
       (bp, s1) \<leftarrow> fs_get (i_dev (inodes s rip)) (push_bit scale z) NORMAL s;
       z1 \<leftarrow> rd_indir bp index s1;
       Some (z1, fs_put (Some bp) INDIRECT_BLOCK s1)
     }"

definition read_map :: "nat \<Rightarrow> u32 \<Rightarrow> fs \<Rightarrow> (u32 \<times> fs) option" where
  "read_map rip position s =
     do {
       scale \<leftarrow> zone_scale rip s;
       let p = inodes s rip;
       let block_pos = unat position div 1024;
       let zone = block_pos div 2 ^ scale;
       let boff = block_pos mod 2 ^ scale;
       let dzones = i_ndzones p;
       let nr = i_nindirs p;
       if zone < dzones
       then Some (if i_zone p zone = NO_ZONE then NO_BLOCK else push_bit scale (i_zone p zone) + of_nat boff, s)
       else do {
         let excess = zone - dzones;
         (z, ex, s1) \<leftarrow>
           (if excess < nr then Some (i_zone p dzones, excess, s)
            else if i_zone p (dzones + 1) = NO_ZONE then Some (NO_ZONE, 0, s)
            else do {
              (z1, s1) \<leftarrow> ind_entry rip (i_zone p (dzones + 1)) scale ((excess - nr) div nr) s;
              Some (z1, (excess - nr) mod nr, s1)
            });
         if z = NO_ZONE then Some (NO_BLOCK, s1)
         else do {
           (z2, s2) \<leftarrow> ind_entry rip z scale ex s1;
           Some (if z2 = NO_ZONE then NO_BLOCK else push_bit scale z2 + of_nat boff, s2)
         }
       }
     }"

subsection \<open>Truncation and release\<close>

partial_function (option) trunc_loop :: "nat \<Rightarrow> u32 \<Rightarrow> u32 \<Rightarrow> nat \<Rightarrow> fs \<Rightarrow> fs option" where
  "trunc_loop rip position zone_size scale s =
     (if position < i_size (inodes s rip)
      then do {
        (b, s1) \<leftarrow> read_map rip position s;
        s2 \<leftarrow> (if b \<noteq> NO_BLOCK then free_zone (i_dev (inodes s1 rip)) (drop_bit scale b) s1 else Some s1);
        trunc_loop rip (position + zone_size) zone_size scale s2
      }
      else Some s)"

fun free_entries :: "int \<Rightarrow> nat \<Rightarrow> nat list \<Rightarrow> fs \<Rightarrow> fs option" where
  "free_entries dev bp [] s = Some s"
| "free_entries dev bp (i # is) s = do { z1 \<leftarrow> rd_indir bp i s; s1 \<leftarrow> free_zone dev z1 s; free_entries dev bp is s1 }"

definition free_double :: "nat \<Rightarrow> nat \<Rightarrow> fs \<Rightarrow> fs option" where
  "free_double rip scale s =
     (let p = inodes s rip; z = i_zone p (i_ndzones p + 1)
      in if z = NO_ZONE then Some s
         else do {
           (bp, s1) \<leftarrow> fs_get (i_dev p) (push_bit scale z) NORMAL s;
           s2 \<leftarrow> free_entries (i_dev p) bp [0..<i_nindirs p] s1;
           free_zone (i_dev p) z (fs_put (Some bp) INDIRECT_BLOCK s2)
         })"

definition truncate :: "nat \<Rightarrow> fs \<Rightarrow> fs option" where
  "truncate rip s =
     (let ty = i_mode (inodes s rip) AND I_TYPE
      in if ty = I_CHAR_SPECIAL \<or> ty = I_BLOCK_SPECIAL then Some s
         else do {
           scale \<leftarrow> zone_scale rip s;
           let waspipe = i_pipe (inodes s rip);
           let s1 = (if waspipe then upd_inode rip (\<lambda>p. p\<lparr>i_size := PIPE_SIZE\<rparr>) s else s);
           s2 \<leftarrow> trunc_loop rip 0 (push_bit scale 1024) scale s1;
           let s3 = upd_inode rip (\<lambda>p. p\<lparr>i_dirt := True\<rparr>) s2;
           if waspipe then Some (wipe_inode rip s3)
           else do {
             let p = inodes s3 rip;
             s4 \<leftarrow> free_zone (i_dev p) (i_zone p (i_ndzones p)) s3;
             free_double rip scale s4
           }
         })"

definition put_inode :: "nat option \<Rightarrow> fs \<Rightarrow> fs option" where
  "put_inode ip s =
     (case ip of
        None \<Rightarrow> Some s
      | Some rip \<Rightarrow>
          let s1 = upd_inode rip (\<lambda>p. p\<lparr>i_count := i_count p - 1\<rparr>) s
          in if i_count (inodes s1 rip) \<noteq> 0 then Some s1
             else do {
               s3 \<leftarrow> (if i_nlinks (inodes s1 rip) = 0
                     then do {
                       s2 \<leftarrow> truncate rip s1;
                       let s2' = upd_inode rip (\<lambda>p. p\<lparr>i_mode := I_NOT_ALLOC, i_dirt := True\<rparr>) s2;
                       free_inode (i_dev (inodes s2' rip)) (i_num (inodes s2' rip)) s2'
                     }
                     else if i_pipe (inodes s1 rip) then truncate rip s1
                     else Some s1);
               let s4 = upd_inode rip (\<lambda>p. p\<lparr>i_pipe := False\<rparr>) s3;
               if i_dirt (inodes s4 rip) then rw_inode rip WRITING s4 else Some s4
             })"

end
