(* ===== verification/FS_Inode_Theorems.thy ===== *)
theory FS_Inode_Theorems
  imports FS_Inode FS_Super_Theorems
begin

text \<open>
  Inodes on the disk: what \<^verbatim>\<open>old_icopy()\<close> and \<^verbatim>\<open>new_icopy()\<close> write is what they read,
  in either byte order, and an inode is written without touching its neighbours.
\<close>

subsection \<open>Fields of a block\<close>

lemma bit_16_32: "bit (ucast (w :: u16) :: u32) n \<longleftrightarrow> bit w n"
  by (auto simp: bit_ucast_iff dest: bit_imp_le_length)

lemma u32_eqI: "(\<And>n. n < 32 \<Longrightarrow> bit (a :: u32) n = bit b n) \<Longrightarrow> a = b"
  by (rule bit_word_eqI) simp

lemma bit_conv4: "n < 32 \<Longrightarrow> bit (conv4 norm x) n \<longleftrightarrow>
  bit x (if norm then n else if n < 8 then 24 + n else if n < 16 then 8 + n else if n < 24 then n - 8 else n - 24)"
  by (auto simp: conv4_def Let_def bit_or_iff bit_push_bit_iff bit_16_32 bit_conv2 bit_ucast_iff bit_drop_bit_eq add.commute
      dest: bit_imp_le_length)

lemma conv4_conv4 [simp]: "conv4 norm (conv4 norm x) = x"
proof (rule u32_eqI)
  fix n :: nat assume "n < 32"
  then consider "n < 8" | "8 \<le> n" "n < 16" | "16 \<le> n" "n < 24" | "24 \<le> n" "n < 32" by linarith
  then show "bit (conv4 norm (conv4 norm x)) n = bit x n" by cases (auto simp: bit_conv4)
qed

lemma get32_put32_blk [simp]: "blk_get32 (blk_put32 d k v) k = v"
proof (rule u32_eqI)
  fix n :: nat assume "n < 32"
  then show "bit (blk_get32 (blk_put32 d k v) k) n = bit v n"
    by (cases "n < 16") (auto simp: blk_get32_def blk_put32_def blk_get16_put16 blk_get16_other bit_or_iff bit_push_bit_iff
        bit_16_32 bit_ucast_iff bit_drop_bit_eq)
qed

text \<open>Writing a field leaves the bytes of others alone.\<close>

lemma put16_byte: "j < k \<or> k + 2 \<le> j \<Longrightarrow> blk_put16 d k v j = d j"
  by (auto simp: blk_put16_def)

lemma put32_byte: "j < k \<or> k + 4 \<le> j \<Longrightarrow> blk_put32 d k v j = d j"
  by (auto simp: blk_put32_def put16_byte)

lemma blk16_cong: "d k = e k \<Longrightarrow> d (k + 1) = e (k + 1) \<Longrightarrow> blk_get16 d k = blk_get16 e k"
  by (simp add: blk_get16_def)

lemma blk32_cong: "\<forall>i < 4. d (k + i) = e (k + i) \<Longrightarrow> blk_get32 d k = blk_get32 e k"
  by (auto simp: blk_get32_def blk_get16_def numeral_eq_Suc less_Suc_eq all_conj_distrib)

lemma field_other:
  "j + 2 \<le> k \<or> k + 2 \<le> j \<Longrightarrow> blk_get16 (blk_put16 d k v) j = blk_get16 d j"
  "j + 2 \<le> k \<or> k + 4 \<le> j \<Longrightarrow> blk_get16 (blk_put32 d k w) j = blk_get16 d j"
  "j + 4 \<le> k \<or> k + 2 \<le> j \<Longrightarrow> blk_get32 (blk_put16 d k v) j = blk_get32 d j"
  "j + 4 \<le> k \<or> k + 4 \<le> j \<Longrightarrow> blk_get32 (blk_put32 d k w) j = blk_get32 d j"
  by (auto intro!: blk16_cong blk32_cong put16_byte put32_byte)

text \<open>The zone numbers of an inode.\<close>

lemma zones16_byte: "j < k \<or> k + 2 * n \<le> j \<Longrightarrow> fold (\<lambda>i d. blk_put16 d (k + 2 * i) (f i)) [0..<n] d j = d j"
  by (induction n) (auto simp: put16_byte)

lemma zones32_byte: "j < k \<or> k + 4 * n \<le> j \<Longrightarrow> fold (\<lambda>i d. blk_put32 d (k + 4 * i) (f i)) [0..<n] d j = d j"
  by (induction n) (auto simp: put32_byte)

lemma zones16_get: "i < n \<Longrightarrow> blk_get16 (fold (\<lambda>i d. blk_put16 d (k + 2 * i) (f i)) [0..<n] d) (k + 2 * i) = f i"
  by (induction n) (auto simp: less_Suc_eq blk_get16_put16 field_other)

lemma zones32_get: "i < n \<Longrightarrow> blk_get32 (fold (\<lambda>i d. blk_put32 d (k + 4 * i) (f i)) [0..<n] d) (k + 4 * i) = f i"
  by (induction n) (auto simp: less_Suc_eq field_other)

subsection \<open>Inodes\<close>

text \<open>What \<open>rw_inode\<close> does to the bytes of a block, and to the inode in memory, by the version of the file system.\<close>

definition icopy_write :: "super_block \<Rightarrow> inode \<Rightarrow> nat \<Rightarrow> block \<Rightarrow> block" where
  "icopy_write sp p k d = (if s_version sp = 1 then old_write (s_native sp) p k d else new_write (s_native sp) p k d)"

definition icopy_read :: "super_block \<Rightarrow> block \<Rightarrow> nat \<Rightarrow> inode \<Rightarrow> inode" where
  "icopy_read sp d k q = (if s_version sp = 1 then old_read (s_native sp) d k q else new_read (s_native sp) d k q)"

text \<open>
  The inode \<open>q\<close> with everything of \<open>p\<close> that a disk keeps.  Version 1 has one time, 9 zone numbers of 16 bits and a
  count of links of 8 bits; version 2 has three times and 10 zone numbers of 32 bits.
\<close>

definition disk_copy :: "super_block \<Rightarrow> inode \<Rightarrow> inode \<Rightarrow> inode" where
  "disk_copy sp p q = q\<lparr>i_mode := i_mode p, i_nlinks := i_nlinks p, i_uid := i_uid p, i_gid := i_gid p, i_size := i_size p,
     i_atime := (if s_version sp = 1 then i_mtime p else i_atime p), i_mtime := i_mtime p,
     i_ctime := (if s_version sp = 1 then i_mtime p else i_ctime p),
     i_ndzones := 7, i_nindirs := (if s_version sp = 1 then 512 else 256),
     i_zone := (\<lambda>i. if i < (if s_version sp = 1 then V1_NR_TZONES else V2_NR_TZONES) then i_zone p i else i_zone q i)\<rparr>"

definition disk_fits :: "super_block \<Rightarrow> inode \<Rightarrow> bool" where
  "disk_fits sp p \<longleftrightarrow> s_version sp = 1 \<longrightarrow> unat (i_nlinks p) < 256 \<and> (\<forall>i < V1_NR_TZONES. unat (i_zone p i) < 65536)"

definition icopy_size :: "super_block \<Rightarrow> nat" where
  "icopy_size sp = (if s_version sp = 1 then 32 else 64)"

lemma ucast_back16: "unat (z :: u32) < 65536 \<Longrightarrow> ucast (ucast z :: u16) = z"
  by (simp add: word_unat_eq_iff unsigned_ucast_eq take_bit_nat_eq_self unsigned_take_bit_eq)

lemma ucast_back8: "unat (z :: u16) < 256 \<Longrightarrow> ucast (ucast z :: u8) = z"
  by (simp add: word_unat_eq_iff unsigned_ucast_eq take_bit_nat_eq_self unsigned_take_bit_eq)

lemma ucast_back_gid: "ucast (scast (g :: u8) :: u16) = g"
  by (rule bit_word_eqI) (simp add: bit_ucast_iff bit_signed_iff bit_simps)

lemma zones_other:
  "j + 2 \<le> k \<Longrightarrow> blk_get16 (fold (\<lambda>i d. blk_put32 d (k + 4 * i) (f i)) is d) j = blk_get16 d j"
  "j + 4 \<le> k \<Longrightarrow> blk_get32 (fold (\<lambda>i d. blk_put32 d (k + 4 * i) (f i)) is d) j = blk_get32 d j"
  "j + 2 \<le> k \<Longrightarrow> blk_get16 (fold (\<lambda>i d. blk_put16 d (k + 2 * i) (g i)) is d) j = blk_get16 d j"
  "j + 4 \<le> k \<Longrightarrow> blk_get32 (fold (\<lambda>i d. blk_put16 d (k + 2 * i) (g i)) is d) j = blk_get32 d j"
  "j < k \<Longrightarrow> fold (\<lambda>i d. blk_put16 d (k + 2 * i) (g i)) is d j = d j"
  by (induction "is" arbitrary: d) (simp_all add: field_other put16_byte)

lemma new_round_trip:
  "new_read norm (new_write norm p k d) k q = q\<lparr>i_mode := i_mode p, i_nlinks := i_nlinks p, i_uid := i_uid p, i_gid := i_gid p,
     i_size := i_size p, i_atime := i_atime p, i_mtime := i_mtime p, i_ctime := i_ctime p, i_ndzones := 7, i_nindirs := 256,
     i_zone := (\<lambda>i. if i < V2_NR_TZONES then i_zone p i else i_zone q i)\<rparr>"
  by (simp add: new_read_def new_write_def Let_def zones_other zones32_get field_other blk_get16_put16 ucast_back_gid fun_eq_iff
      del: upt_rec_numeral fold_simps cong: if_cong)

lemma old_round_trip:
  assumes "unat (i_nlinks p) < 256" "\<forall>i < V1_NR_TZONES. unat (i_zone p i) < 65536"
  shows "old_read norm (old_write norm p k d) k q = q\<lparr>i_mode := i_mode p, i_nlinks := i_nlinks p, i_uid := i_uid p, i_gid := i_gid p,
     i_size := i_size p, i_atime := i_mtime p, i_mtime := i_mtime p, i_ctime := i_mtime p, i_ndzones := 7, i_nindirs := 512,
     i_zone := (\<lambda>i. if i < V1_NR_TZONES then i_zone p i else i_zone q i)\<rparr>"
proof -
  have b: "blk_get16 (e(k + 13 := x, k + 12 := y)) j = blk_get16 e j" if "j + 2 \<le> k + 12" for e x y j
    using that by (intro blk16_cong) auto
  have b4: "blk_get32 (e(k + 13 := x, k + 12 := y)) j = blk_get32 e j" if "j + 4 \<le> k + 12" for e x y j
    using that by (intro blk32_cong) auto
  show ?thesis
    using assms by (simp add: old_read_def old_write_def Let_def zones_other zones16_get field_other blk_get16_put16 b b4
        ucast_back8 ucast_back16 fun_eq_iff del: upt_rec_numeral fold_simps cong: if_cong)
qed

lemma new_write_byte: "j < k \<or> k + 64 \<le> j \<Longrightarrow> new_write norm p k d j = d j"
  by (auto simp: new_write_def Let_def zones32_byte put16_byte put32_byte simp del: upt_rec_numeral)

lemma old_write_byte: "j < k \<or> k + 32 \<le> j \<Longrightarrow> old_write norm p k d j = d j"
  by (auto simp: old_write_def Let_def zones16_byte put16_byte put32_byte simp del: upt_rec_numeral)

lemma new_read_cong:
  assumes "\<And>j. k \<le> j \<Longrightarrow> j < k + 64 \<Longrightarrow> d j = e j"
  shows "new_read norm d k q = new_read norm e k q"
proof -
  have g: "blk_get16 d (k + x) = blk_get16 e (k + x)" if "x < 63" for x using assms that by (intro blk16_cong) auto
  then have "blk_get16 d k = blk_get16 e k" "blk_get16 d (Suc (Suc k)) = blk_get16 e (Suc (Suc k))" using g [of 0] g [of 2] by simp_all
  moreover note g
  moreover have "blk_get32 d (k + x) = blk_get32 e (k + x)" if "x < 61" for x using assms that by (intro blk32_cong) auto
  moreover have "blk_get32 d (k + 24 + 4 * i) = blk_get32 e (k + 24 + 4 * i)" if "i < V2_NR_TZONES" for i
    using assms that by (intro blk32_cong) auto
  ultimately show ?thesis by (simp add: new_read_def fun_eq_iff cong: if_cong)
qed

lemma old_read_cong:
  assumes "\<And>j. k \<le> j \<Longrightarrow> j < k + 32 \<Longrightarrow> d j = e j"
  shows "old_read norm d k q = old_read norm e k q"
proof -
  have g: "blk_get16 d (k + x) = blk_get16 e (k + x)" if "x < 31" for x using assms that by (intro blk16_cong) auto
  then have "blk_get16 d k = blk_get16 e k" "blk_get16 d (Suc (Suc k)) = blk_get16 e (Suc (Suc k))" using g [of 0] g [of 2] by simp_all
  moreover note g
  moreover have "blk_get32 d (k + x) = blk_get32 e (k + x)" if "x < 29" for x using assms that by (intro blk32_cong) auto
  moreover have "blk_get16 d (k + 14 + 2 * i) = blk_get16 e (k + 14 + 2 * i)" if "i < V1_NR_TZONES" for i
    using assms that by (intro blk16_cong) auto
  ultimately show ?thesis using assms by (simp add: old_read_def fun_eq_iff cong: if_cong)
qed

subsection \<open>The places of the inodes of a block\<close>

lemma icopy_byte: "j < k \<or> k + icopy_size sp \<le> j \<Longrightarrow> icopy_write sp p k d j = d j"
  by (auto simp: icopy_write_def icopy_size_def old_write_byte new_write_byte split: if_split_asm)

lemma icopy_cong: "(\<And>j. k \<le> j \<Longrightarrow> j < k + icopy_size sp \<Longrightarrow> d j = e j) \<Longrightarrow> icopy_read sp d k q = icopy_read sp e k q"
  unfolding icopy_read_def icopy_size_def by (simp add: old_read_cong [of k d e] new_read_cong [of k d e])

lemma place_slot: "\<exists>n. inode_place sp a = n * icopy_size sp \<and> n * icopy_size sp + icopy_size sp \<le> 1024"
proof (cases "s_version sp = 1")
  case True
  have "unat ((ucast a :: u32) - 1) mod 32 < 32" by simp
  with True show ?thesis unfolding inode_place_def icopy_size_def by fastforce
next
  case False
  have "unat ((ucast a :: u32) - 1) mod 16 < 16" by simp
  with False show ?thesis unfolding inode_place_def icopy_size_def by fastforce
qed

lemma places_apart:
  assumes "inode_place sp a \<noteq> inode_place sp b"
  shows "inode_place sp a + icopy_size sp \<le> inode_place sp b \<or> inode_place sp b + icopy_size sp \<le> inode_place sp a"
proof -
  obtain n m where nm: "inode_place sp a = n * icopy_size sp" "inode_place sp b = m * icopy_size sp" using place_slot by metis
  with assms have "n < m \<or> m < n" by auto
  then have "Suc n * icopy_size sp \<le> m * icopy_size sp \<or> Suc m * icopy_size sp \<le> n * icopy_size sp"
    using mult_le_mono1 Suc_leI by metis
  then show ?thesis unfolding nm by (simp add: add.commute)
qed

text \<open>C39: An inode written to its place in a block of the inode table is read back from it: in either version of the file
  system and either byte order, every field the disk keeps comes back as it was, provided that in version 1 the
  links fit 8 bits and the zone numbers 16.  The inodes at the other places of the block keep every field, and no
  byte beyond the block is written.\<close>

theorem inode_round_trip:
  assumes "disk_fits sp p"
  shows "icopy_read sp (icopy_write sp p (inode_place sp a) d) (inode_place sp a) q = disk_copy sp p q
    \<and> (\<forall>b. inode_place sp b \<noteq> inode_place sp a \<longrightarrow>
         icopy_read sp (icopy_write sp p (inode_place sp a) d) (inode_place sp b) q = icopy_read sp d (inode_place sp b) q)
    \<and> (\<forall>j. 1024 \<le> j \<longrightarrow> icopy_write sp p (inode_place sp a) d j = d j)"
proof -
  have "icopy_read sp (icopy_write sp p (inode_place sp a) d) (inode_place sp a) q = disk_copy sp p q"
    using assms by (simp add: icopy_read_def icopy_write_def disk_copy_def disk_fits_def old_round_trip new_round_trip)
  moreover have "icopy_read sp (icopy_write sp p (inode_place sp a) d) (inode_place sp b) q = icopy_read sp d (inode_place sp b) q"
    if "inode_place sp b \<noteq> inode_place sp a" for b
    using places_apart [OF that] by (intro icopy_cong icopy_byte) auto
  moreover have "icopy_write sp p (inode_place sp a) d j = d j" if "1024 \<le> j" for j
    using place_slot [of sp a] that by (intro icopy_byte) auto
  ultimately show ?thesis by blast
qed

text \<open>A version 1 inode in the reversed byte order, written to the second place of an empty block.\<close>

lemma inode_round_trip_witness:
  "let sp = zero_super\<lparr>s_version := 1, s_native := False\<rparr>;
       p = zero_inode\<lparr>i_mode := 0x81A4, i_nlinks := 2, i_size := 100, i_zone := (\<lambda>_. 0)(0 := 0x1234)\<rparr>;
       d = icopy_write sp p 32 (\<lambda>_. 0)
   in inode_place sp 2 = 32 \<and> icopy_read sp d 32 zero_inode = disk_copy sp p zero_inode \<and> icopy_read sp d 0 zero_inode = icopy_read sp (\<lambda>_. 0) 0 zero_inode"
proof -
  define sp where "sp = zero_super\<lparr>s_version := 1, s_native := False\<rparr>"
  define p where "p = zero_inode\<lparr>i_mode := 0x81A4, i_nlinks := 2, i_size := 100, i_zone := (\<lambda>_. 0)(0 := 0x1234)\<rparr>"
  have pl: "inode_place sp 2 = 32" "inode_place sp 1 = 0" by (simp_all add: inode_place_def sp_def)
  have "disk_fits sp p" by (simp add: disk_fits_def p_def)
  from inode_round_trip [OF this, of 2 "\<lambda>_. 0" zero_inode] pl
  have "icopy_read sp (icopy_write sp p 32 (\<lambda>_. 0)) 32 zero_inode = disk_copy sp p zero_inode"
    "icopy_read sp (icopy_write sp p 32 (\<lambda>_. 0)) 0 zero_inode = icopy_read sp (\<lambda>_. 0) 0 zero_inode" by (metis zero_neq_numeral)+
  with pl show ?thesis by (simp add: Let_def sp_def p_def)
qed

end
