(* ===== verification/FS_Write.thy ===== *)
theory FS_Write
  imports FS_Inode
begin

text \<open>
  Entering new zones in an inode, and new blocks (\<^verbatim>\<open>fs/write.c\<close>).
\<close>

subsection \<open>Indirect blocks\<close>

text \<open>
  The double indirect block: its zone (allocated if there is none), the buffer of the block, the index in it,
  and the zone of the single indirect block.  An error is the left value of the sum.
\<close>

definition double_zone :: "nat \<Rightarrow> fs \<Rightarrow> ((u32 \<times> bool) option \<times> fs) option" where
  "double_zone rip s =
     (let p = inodes s rip; z = i_zone p (i_ndzones p + 1)
      in if z \<noteq> NO_ZONE then Some (Some (z, False), s)
         else do {
           (z1, s1) \<leftarrow> alloc_zone (i_dev p) (i_zone p 0) s;
           if z1 = NO_ZONE then Some (None, s1)
           else Some (Some (z1, True), upd_inode rip (\<lambda>p. p\<lparr>i_zone := (i_zone p)(i_ndzones p + 1 := z1)\<rparr>) s1)
         })"

definition map_double :: "nat \<Rightarrow> nat \<Rightarrow> nat \<Rightarrow> fs \<Rightarrow> ((int + nat \<times> u32) \<times> fs) option" where
  "map_double rip scale ind_ex s =
     do {
       (d, s1) \<leftarrow> double_zone rip s;
       case d of
         None \<Rightarrow> Some (Inl (err_code s1), s1)
       | Some (z, new_dbl) \<Rightarrow>
           if ind_ex \<ge> i_nindirs (inodes s1 rip) then Some (Inl EFBIG, s1)
           else do {
             (bp, s2) \<leftarrow> fs_get (i_dev (inodes s1 rip)) (push_bit scale z) (if new_dbl then NO_READ else NORMAL) s1;
             let s3 = (if new_dbl then zero_block bp s2 else s2);
             z1 \<leftarrow> rd_indir bp ind_ex s3;
             Some (Inr (bp, z1), s3)
           }
     }"

text \<open>
  The single indirect block: allocated if there is none and entered in the inode or, if \<open>dbl\<close> holds the
  buffer and the index, in the double indirect block.  The result is its zone and whether it is new.
\<close>

definition single_zone :: "nat \<Rightarrow> (nat \<times> nat) option \<Rightarrow> u32 \<Rightarrow> fs \<Rightarrow> ((u32 \<times> bool) option \<times> fs) option" where
  "single_zone rip dbl z1 s =
     (let bp = map_option fst dbl
      in if z1 \<noteq> NO_ZONE then Some (Some (z1, False), fs_put bp INDIRECT_BLOCK s)
         else do {
           (z, s1) \<leftarrow> alloc_zone (i_dev (inodes s rip)) (i_zone (inodes s rip) 0) s;
           s2 \<leftarrow> (case dbl of
                   None \<Rightarrow> Some (upd_inode rip (\<lambda>p. p\<lparr>i_zone := (i_zone p)(i_ndzones p := z)\<rparr>) s1)
                 | Some (b, ind_ex) \<Rightarrow> map_option (fs_buf b (\<lambda>b. b\<lparr>b_dirt := True\<rparr>)) (wr_indir b ind_ex z s1));
           let s3 = fs_put bp INDIRECT_BLOCK s2;
           Some (if z = NO_ZONE then None else Some (z, True), s3)
         })"

definition enter_single :: "nat \<Rightarrow> nat \<Rightarrow> u32 \<Rightarrow> bool \<Rightarrow> nat \<Rightarrow> u32 \<Rightarrow> fs \<Rightarrow> fs option" where
  "enter_single rip scale z1 new_ind ex new_zone s =
     do {
       (bp, s1) \<leftarrow> fs_get (i_dev (inodes s rip)) (push_bit scale z1) (if new_ind then NO_READ else NORMAL) s;
       let s2 = (if new_ind then zero_block bp s1 else s1);
       s3 \<leftarrow> wr_indir bp ex new_zone s2;
       Some (fs_put (Some bp) INDIRECT_BLOCK (fs_buf bp (\<lambda>b. b\<lparr>b_dirt := True\<rparr>) s3))
     }"

definition write_map :: "nat \<Rightarrow> u32 \<Rightarrow> u32 \<Rightarrow> fs \<Rightarrow> (int \<times> fs) option" where
  "write_map rip position new_zone s0 =
     (let s = upd_inode rip (\<lambda>p. p\<lparr>i_dirt := True\<rparr>) s0
      in do {
        scale \<leftarrow> zone_scale rip s;
        let p = inodes s rip;
        let zone = unat position div 1024 div 2 ^ scale;
        let zones = i_ndzones p;
        let nr = i_nindirs p;
        if zone < zones then Some (OK, upd_inode rip (\<lambda>p. p\<lparr>i_zone := (i_zone p)(zone := new_zone)\<rparr>) s)
        else do {
          let excess = zone - zones;
          (r, s1) \<leftarrow>
            (if excess < nr then Some (Inr (None, i_zone p zones, excess), s)
             else do {
               (d, s1) \<leftarrow> map_double rip scale ((excess - nr) div nr) s;
               Some (case d of Inl e \<Rightarrow> Inl e | Inr (bp, z1) \<Rightarrow> Inr (Some (bp, (excess - nr) div nr), z1, (excess - nr) mod nr), s1)
             });
          case r of
            Inl e \<Rightarrow> Some (e, s1)
          | Inr (dbl, z1, ex) \<Rightarrow>
              do {
                (d, s2) \<leftarrow> single_zone rip dbl z1 s1;
                case d of
                  None \<Rightarrow> Some (err_code s2, s2)
                | Some (z, new_ind) \<Rightarrow> map_option (Pair OK) (enter_single rip scale z new_ind ex new_zone s2)
              }
        }
      })"

subsection \<open>New blocks\<close>

fun zero_blocks :: "int \<Rightarrow> u32 list \<Rightarrow> fs \<Rightarrow> fs option" where
  "zero_blocks dev [] s = Some s"
| "zero_blocks dev (b # bs) s =
     do { (bp, s1) \<leftarrow> fs_get dev b NO_READ s; zero_blocks dev bs (fs_put (Some bp) FULL_DATA_BLOCK (zero_block bp s1)) }"

text \<open>\<^verbatim>\<open>clear_zone(rip, pos, flag)\<close>; \<open>whole\<close> is \<^verbatim>\<open>flag == 1\<close>.\<close>

definition clear_zone :: "nat \<Rightarrow> u32 \<Rightarrow> bool \<Rightarrow> fs \<Rightarrow> fs option" where
  "clear_zone rip pos0 whole s =
     do {
       scale \<leftarrow> zone_scale rip s;
       if scale = 0 then Some s
       else do {
         let zone_size = (push_bit scale 1024 :: u32);
         let pos = (if whole then pos0 div zone_size * zone_size else pos0);
         let next = pos + 1023;
         if next div zone_size \<noteq> pos div zone_size then Some s
         else do {
           (blo, s1) \<leftarrow> read_map rip next s;
           if blo = NO_BLOCK then Some s1
           else let bhi = push_bit scale (drop_bit scale blo + 1) - 1
                in zero_blocks (i_dev (inodes s1 rip)) (map of_nat [unat blo..<Suc (unat bhi)]) s1
         }
       }
     }"

definition new_block :: "nat \<Rightarrow> u32 \<Rightarrow> fs \<Rightarrow> (nat option \<times> fs) option" where
  "new_block rip position s =
     do {
       (b, s1) \<leftarrow> read_map rip position s;
       (r, s4) \<leftarrow>
         (if b \<noteq> NO_BLOCK then Some (Some b, s1)
          else do {
            let p = inodes s1 rip;
            z0 \<leftarrow> (if i_zone p 0 = NO_ZONE then map_option (\<lambda>spi. ucast (s_firstdatazone (supers s1 spi))) (i_sp p) else Some (i_zone p 0));
            (z, s2) \<leftarrow> alloc_zone (i_dev p) z0 s1;
            if z = NO_ZONE then Some (None, s2)
            else do {
              (e, s3) \<leftarrow> write_map rip position z s2;
              if e \<noteq> OK then do { s4 \<leftarrow> free_zone (i_dev (inodes s3 rip)) z s3; Some (None, s4\<lparr>err_code := e\<rparr>) }
              else do {
                s4 \<leftarrow> (if position \<noteq> i_size (inodes s3 rip) then clear_zone rip position True s3 else Some s3);
                scale \<leftarrow> zone_scale rip s4;
                let zone_size = (push_bit scale 1024 :: u32);
                Some (Some (push_bit scale z + (position mod zone_size) div 1024), s4)
              }
            }
          });
       case r of
         None \<Rightarrow> Some (None, s4)
       | Some b1 \<Rightarrow> do { (bp, s5) \<leftarrow> fs_get (i_dev (inodes s4 rip)) b1 NO_READ s4; Some (Some bp, zero_block bp s5) }
     }"

end
