(* ===== verification/FS_Device.thy ===== *)
theory FS_Device
  imports FS_Inode FS_Suspend
begin

text \<open>
  Devices (\<^verbatim>\<open>fs/device.c\<close>), as the calls of the file system see them; the transfers of the block
  cache are in \<open>FS_Cache\<close>.  A task that is called answers; messages with which it revives suspended
  processes may come first.
\<close>

definition major_of :: "int \<Rightarrow> nat" where
  "major_of dev = nat (dev div 256 mod 256)"

definition minor_of :: "int \<Rightarrow> int" where
  "minor_of dev = dev mod 256"

abbreviation (input) max_major :: nat where "max_major \<equiv> 15"

subsection \<open>Calling a task\<close>

fun revive_all :: "(int \<times> int) list \<Rightarrow> fs \<Rightarrow> fs option" where
  "revive_all [] s = Some s"
| "revive_all ((p, r) # rs) s = do { s1 \<leftarrow> revive p r s; revive_all rs s1 }"

definition gen_io :: "int \<Rightarrow> task_msg \<Rightarrow> fs \<Rightarrow> (int \<times> fs) option" where
  "gen_io task msg s =
     (let (r, s1) = ask_fs (ReqTask task msg) s
      in map_option (Pair r) (revive_all (fs_revives s1 (fs_hist s1)) s1))"

text \<open>\<^verbatim>\<open>ctty_io()\<close>: the controlling terminal takes the place of the device.\<close>

definition ctty_io :: "task_msg \<Rightarrow> fs \<Rightarrow> (int \<times> fs) option" where
  "ctty_io msg s =
     (let tty = fp_tty (fprocs s (cfp s))
      in if tty = 0 then Some (EIO, s)
         else let dp = dmap_tab s (major_of tty)
              in case dmap_io dp of
                   GenIo \<Rightarrow> gen_io (dmap_task dp) (msg\<lparr>tm_device := minor_of tty\<rparr>) s
                 | _ \<Rightarrow> None)"

definition call_task :: "dmap \<Rightarrow> task_msg \<Rightarrow> fs \<Rightarrow> (int \<times> fs) option" where
  "call_task dp msg s =
     (case dmap_io dp of GenIo \<Rightarrow> gen_io (dmap_task dp) msg s | CttyIo \<Rightarrow> ctty_io msg s | NoIo \<Rightarrow> None)"

subsection \<open>Reading, writing and control\<close>

text \<open>\<open>fild\<close>, \<open>buf\<close>, \<open>nb\<close>: what the message of the call holds, for \<^verbatim>\<open>suspend()\<close>.\<close>

definition dev_rw :: "dev_op \<Rightarrow> int \<Rightarrow> int \<Rightarrow> u32 \<Rightarrow> u32 \<Rightarrow> int \<Rightarrow> u32 \<Rightarrow> int \<Rightarrow> u32 \<Rightarrow> int \<Rightarrow> fs \<Rightarrow> (int \<times> fs) option" where
  "dev_rw oper dev proc addr pos bytes flags fild buf nb s =
     (let dp = dmap_tab s (major_of dev);
          msg = \<lparr>tm_op = oper, tm_device = minor_of dev, tm_proc = proc, tm_addr = addr, tm_pos = pos, tm_count = bytes, tm_flags = flags\<rparr>
      in do {
        (r, s1) \<leftarrow> call_task dp msg s;
        if r \<noteq> SUSPEND then Some (r, s1)
        else if flags AND O_NONBLOCK \<noteq> 0
        then do { (r2, s2) \<leftarrow> call_task dp (msg\<lparr>tm_op := CANCEL\<rparr>) s1; Some (if r2 = EINTR then EAGAIN else r2, s2) }
        else Some (SUSPEND, suspend (dmap_task dp) fild buf nb s1)
      })"

subsection \<open>Opening and closing\<close>

definition gen_opcl :: "dev_op \<Rightarrow> int \<Rightarrow> int \<Rightarrow> u32 \<Rightarrow> fs \<Rightarrow> (int \<times> fs) option" where
  "gen_opcl oper dev proc flags s =
     call_task (dmap_tab s (major_of dev))
       \<lparr>tm_op = oper, tm_device = minor_of dev, tm_proc = proc, tm_addr = 0, tm_pos = 0, tm_count = uint flags, tm_flags = 0\<rparr> s"

definition tty_opcl :: "dev_op \<Rightarrow> int \<Rightarrow> int \<Rightarrow> u32 \<Rightarrow> fs \<Rightarrow> (int \<times> fs) option" where
  "tty_opcl oper dev proc flags s =
     (let me = fprocs s (cfp s);
          taken = \<not> fp_sesldr me \<or> fp_tty me \<noteq> 0 \<or> list_ex (\<lambda>p. fp_tty (fprocs s p) = dev) [nat INIT_PROC_NR..<NR_FPROCS]
      in do {
        (r, s1) \<leftarrow> gen_opcl oper dev proc (if taken then flags OR O_NOCTTY else flags) s;
        Some (if r = 1 then (OK, upd_fproc (cfp s1) (\<lambda>p. p\<lparr>fp_tty := dev\<rparr>) s1) else (r, s1))
      })"

text \<open>
  \<^verbatim>\<open>clone_opcl()\<close>: a device whose opening yields a new minor device, for which a temporary inode
  takes the place of the one that was opened; \<open>fild\<close> is the descriptor of the call.  If there is no
  inode, the new device is closed again.
\<close>

definition clone_dev :: "int \<Rightarrow> int \<Rightarrow> int" where
  "clone_dev dev minor = sint ((word_of_int dev AND NOT 0xFF) OR word_of_int minor :: 16 word)"

definition clone_opcl :: "dev_op \<Rightarrow> int \<Rightarrow> int \<Rightarrow> u32 \<Rightarrow> int \<Rightarrow> fs \<Rightarrow> (int \<times> fs) option" where
  "clone_opcl oper dev proc flags fild s =
     do {
       (r, s1) \<leftarrow> gen_opcl oper dev proc flags s;
       if oper = DEV_OPEN \<and> r \<ge> 0
       then (if r = minor_of dev then Some (OK, s1)
             else do {
               let newdev = clone_dev dev r;
               (ip, s2) \<leftarrow> alloc_inode (root_dev s1) (ALL_MODES OR I_CHAR_SPECIAL) s1;
               case ip of
                 None \<Rightarrow> do { (r3, s3) \<leftarrow> gen_opcl DEV_CLOSE newdev proc 0 s2; Some (err_code s3, s3) }
               | Some i \<Rightarrow> do {
                   let s3 = upd_inode i (\<lambda>p. p\<lparr>i_zone := (i_zone p)(0 := word_of_int newdev)\<rparr>) s2;
                   f \<leftarrow> fp_filp (fprocs s3 (cfp s3)) (nat fild);
                   s4 \<leftarrow> put_inode (filp_ino (filps s3 f)) s3;
                   Some (OK, upd_filp f (\<lambda>x. x\<lparr>filp_ino := Some i\<rparr>) s4)
                 }
             })
       else Some (r, s1)
     }"

definition call_opcl :: "dev_opcl \<Rightarrow> dev_op \<Rightarrow> int \<Rightarrow> int \<Rightarrow> u32 \<Rightarrow> int \<Rightarrow> fs \<Rightarrow> (int \<times> fs) option" where
  "call_opcl f oper dev proc flags fild s =
     (case f of
        NoDev \<Rightarrow> Some (ENODEV, s)
      | GenOpcl \<Rightarrow> gen_opcl oper dev proc flags s
      | TtyOpcl \<Rightarrow> tty_opcl oper dev proc flags s
      | CttyOpcl \<Rightarrow> Some (if fp_tty (fprocs s (cfp s)) = 0 then ENXIO else OK, s)
      | CloneOpcl \<Rightarrow> clone_opcl oper dev proc flags fild s)"

definition dev_open :: "int \<Rightarrow> int \<Rightarrow> u32 \<Rightarrow> int \<Rightarrow> fs \<Rightarrow> (int \<times> fs) option" where
  "dev_open dev proc flags fild s =
     (let major = (if major_of dev \<ge> max_major then 0 else major_of dev)
      in do {
        (r, s1) \<leftarrow> call_opcl (dmap_opcl (dmap_tab s major)) DEV_OPEN dev proc flags fild s;
        if r = SUSPEND then None else Some (r, s1)
      })"

definition dev_close :: "int \<Rightarrow> fs \<Rightarrow> fs option" where
  "dev_close dev s = map_option snd (call_opcl (dmap_opcl (dmap_tab s (major_of dev))) DEV_CLOSE dev 0 0 0 s)"

subsection \<open>Calls\<close>

text \<open>\<^verbatim>\<open>do_setsid()\<close> does not return a value when it succeeds: the caller gets an arbitrary one.\<close>

definition do_setsid :: "int \<Rightarrow> fs \<Rightarrow> (int \<times> fs) option" where
  "do_setsid slot1 s =
     (if who s \<noteq> MM_PROC_NR then Some (ENOSYS, s)
      else if slot1 < 0 \<or> slot1 \<ge> NR_PROCS then None
      else Some (fs_env s (fs_hist s), upd_fproc (nat slot1) (\<lambda>p. p\<lparr>fp_sesldr := True, fp_tty := 0\<rparr>) s))"

definition do_ioctl :: "int \<Rightarrow> u32 \<Rightarrow> int \<Rightarrow> int \<Rightarrow> u32 \<Rightarrow> int \<Rightarrow> fs \<Rightarrow> (int \<times> fs) option" where
  "do_ioctl ls_fd addr req fild buf nb s =
     (case get_filp ls_fd s of
        (None, s1) \<Rightarrow> Some (err_code s1, s1)
      | (Some f, s1) \<Rightarrow>
          do {
            ip \<leftarrow> filp_ino (filps s1 f);
            let ty = i_mode (inodes s1 ip) AND I_TYPE;
            if ty \<noteq> I_CHAR_SPECIAL \<and> ty \<noteq> I_BLOCK_SPECIAL then Some (ENOTTY, s1)
            else dev_rw DEV_IOCTL (zone_dev (i_zone (inodes s1 ip) 0)) (who s1) addr 0 req (filp_flags (filps s1 f)) fild buf nb s1
          })"

definition do_revive :: "int \<Rightarrow> int \<Rightarrow> fs \<Rightarrow> (int \<times> fs) option" where
  "do_revive proc_nr status s =
     (if who s \<ge> INIT_PROC_NR \<and> fp_pid (fprocs s (cfp s)) \<noteq> -1 then Some (EPERM, s)
      else map_option (Pair SUSPEND) (revive proc_nr status s))"

text \<open>\<^verbatim>\<open>do_unpause()\<close>; a process that waits for a device has its request cancelled.\<close>

definition do_unpause :: "int \<Rightarrow> fs \<Rightarrow> (int \<times> fs) option" where
  "do_unpause pro s =
     (if who s > MM_PROC_NR then Some (EPERM, s)
      else if pro < 0 \<or> pro \<ge> NR_PROCS then None
      else let rfp = nat pro; p = fprocs s rfp; task = - fp_task p
           in if \<not> fp_suspended p then Some (OK, s)
              else do {
                s1 \<leftarrow> (if task = XPIPE \<or> task = XLOCK \<or> task = XPOPEN then Some s
                      else let fild = (fp_fd p div 256) mod 256
                           in if fild \<ge> int OPEN_MAX then None
                              else do {
                                f \<leftarrow> fp_filp p (nat fild);
                                ip \<leftarrow> filp_ino (filps s f);
                                let dev = zone_dev (i_zone (inodes s ip) 0);
                                let dp = dmap_tab s (major_of dev);
                                map_option snd (call_task (dp\<lparr>dmap_task := task\<rparr>)
                                  \<lparr>tm_op = CANCEL, tm_device = minor_of dev, tm_proc = pro, tm_addr = 0, tm_pos = 0,
                                   tm_count = (if fp_fd p mod 256 = 3 then 4 else 2), tm_flags = 0\<rparr> (s\<lparr>cfp := rfp\<rparr>))
                              });
                Some (OK, fs_reply pro EINTR (upd_fproc rfp (\<lambda>p. p\<lparr>fp_suspended := False\<rparr>) s1))
              })"

text \<open>A server signs on as the driver of a device (\<^verbatim>\<open>do_svrctl()\<close> with \<^verbatim>\<open>FSSIGNON\<close>).\<close>

abbreviation (input) ANY_TASK :: int where "ANY_TASK \<equiv> 31438"

definition do_svrctl :: "bool \<Rightarrow> u32 \<Rightarrow> int \<Rightarrow> int \<Rightarrow> fs \<Rightarrow> int \<times> fs" where
  "do_svrctl signon argp dev style s =
     (if \<not> signon then (EINVAL, s)
      else if fp_effuid (fprocs s (cfp s)) \<noteq> 0 then (EPERM, s)
      else let (r, s1) = ask_fs (ReqCopyIn (who s) argp 8) s; major = major_of dev
           in if r \<noteq> OK then (r, s1)
              else if major \<ge> max_major then (ENODEV, s1)
              else if dmap_task (dmap_tab s1 major) \<noteq> ANY_TASK then (EBUSY, s1)
              else if style \<noteq> 0 \<and> style \<noteq> 2 \<and> style \<noteq> 3 then (EINVAL, s1)
              else (OK, upd_fproc (cfp s1) (\<lambda>p. p\<lparr>fp_pid := -1\<rparr>)
                     (s1\<lparr>dmap_tab := (dmap_tab s1)(major := \<lparr>dmap_opcl = (if style = 0 then GenOpcl else if style = 2 then TtyOpcl else CloneOpcl),
                        dmap_io = GenIo, dmap_task = who s1\<rparr>)\<rparr>)))"

end
