(* ===== verification/FS_Path.thy ===== *)
theory FS_Path
  imports FS_Write FS_Device
begin

text \<open>
  Permissions (\<^verbatim>\<open>fs/protect.c\<close>) and path names (\<^verbatim>\<open>fs/path.c\<close>, \<^verbatim>\<open>fetch_name()\<close>).
\<close>

subsection \<open>Permissions\<close>

abbreviation (input) CALL_ACCESS :: int where "CALL_ACCESS \<equiv> 33"
abbreviation (input) ROOT_INODE :: int where "ROOT_INODE \<equiv> 1"

definition read_only :: "nat \<Rightarrow> fs \<Rightarrow> int option" where
  "read_only ip s = map_option (\<lambda>spi. if s_rd_only (supers s spi) then EROFS else OK) (i_sp (inodes s ip))"

text \<open>The permission bits of the caller for an inode.\<close>

definition perm_bits :: "inode \<Rightarrow> fproc \<Rightarrow> bool \<Rightarrow> u16" where
  "perm_bits p me real =
     (let bits = i_mode p;
          uid = (if real then fp_realuid me else fp_effuid me);
          gid = (if real then fp_realgid me else fp_effgid me)
      in if uid = 0
         then (if bits AND I_TYPE = I_DIRECTORY \<or> bits AND 0x49 \<noteq> 0 then 7 else 6)
         else let shift = (if uid = i_uid p then 6 else if gid = i_gid p then 3 else 0)
              in drop_bit shift bits AND 7)"

definition forbidden :: "nat \<Rightarrow> u16 \<Rightarrow> fs \<Rightarrow> (int \<times> fs) option" where
  "forbidden old_rip access s =
     do {
       (rip, s1) \<leftarrow>
         (if i_mount (inodes s old_rip)
          then (case find (\<lambda>i. s_imount (supers s i) = Some old_rip) [1..<NR_SUPERS] of
                  None \<Rightarrow> Some (old_rip, s)
                | Some i \<Rightarrow> do { (r, s1) \<leftarrow> get_inode (s_dev (supers s i)) ROOT_INODE s; rip \<leftarrow> r; Some (rip, s1) })
          else Some (old_rip, s));
       let bits = perm_bits (inodes s1 rip) (fprocs s1 (cfp s1)) (fs_call s1 = CALL_ACCESS);
       r \<leftarrow> (if bits OR access \<noteq> bits then Some EACCES
             else if access AND W_BIT \<noteq> 0 then read_only rip s1 else Some OK);
       s2 \<leftarrow> (if rip \<noteq> old_rip then put_inode (Some rip) s1 else Some s1);
       Some (r, s2)
     }"

subsection \<open>Fetching and splitting names\<close>

abbreviation (input) PATH_MAX :: nat where "PATH_MAX \<equiv> 255"
abbreviation (input) NAME_MAX :: nat where "NAME_MAX \<equiv> 14"

definition set_path :: "u8 list \<Rightarrow> fs \<Rightarrow> fs" where
  "set_path bs s = s\<lparr>user_path := (\<lambda>i. if i < length bs then bs ! i else user_path s i)\<rparr>"

text \<open>\<^verbatim>\<open>fetch_name(path, len, flag)\<close>; \<open>inmsg\<close> is the string in the message when \<^verbatim>\<open>flag == M3\<close>.\<close>

definition fetch_name :: "u32 \<Rightarrow> int \<Rightarrow> u8 list option \<Rightarrow> fs \<Rightarrow> int \<times> fs" where
  "fetch_name path len inmsg s =
     (if len \<le> 0 then (EGENERIC, s\<lparr>err_code := EINVAL\<rparr>)
      else if len > int PATH_MAX then (EGENERIC, s\<lparr>err_code := ENAMETOOLONG\<rparr>)
      else case inmsg of
             Some bs \<Rightarrow>
               if len \<le> 14 then (OK, set_path (take (nat len) bs) s)
               else (let ((r, bs), s1) = copy_from_user (who s) SEG_D path (nat len) s in (r, set_path bs s1))
           | None \<Rightarrow> let ((r, bs), s1) = copy_from_user (who s) SEG_D path (nat len) s in (r, set_path bs s1))"

text \<open>
  \<^verbatim>\<open>get_name()\<close>: the next component, cut to 14 characters, and the position of the rest.  Only the
  second loop and the third are bounded; a path is an address in the memory behind \<open>m\<close>.
\<close>

abbreviation (input) SLASH :: u8 where "SLASH \<equiv> 47"

partial_function (option) skip_slashes :: "(nat \<Rightarrow> u8) \<Rightarrow> nat \<Rightarrow> nat option" where
  "skip_slashes m r = (if m r = SLASH then skip_slashes m (r + 1) else Some r)"

function copy_name :: "(nat \<Rightarrow> u8) \<Rightarrow> nat \<Rightarrow> nat \<Rightarrow> u8 list \<Rightarrow> u8 list \<times> nat" where
  "copy_name m lim r w =
     (if r < lim \<and> m r \<noteq> SLASH \<and> m r \<noteq> 0 then copy_name m lim (r + 1) (if length w < NAME_MAX then w @ [m r] else w) else (w, r))"
  by pat_completeness auto

termination by (relation "measure (\<lambda>(m, lim, r, w). lim - r)") auto

function trail_slashes :: "(nat \<Rightarrow> u8) \<Rightarrow> nat \<Rightarrow> nat \<Rightarrow> nat" where
  "trail_slashes m lim r = (if m r = SLASH \<and> r < lim then trail_slashes m lim (r + 1) else r)"
  by pat_completeness auto

termination by (relation "measure (\<lambda>(m, lim, r). lim - r)") auto

declare copy_name.simps [simp del] trail_slashes.simps [simp del]

definition get_name :: "(nat \<Rightarrow> u8) \<Rightarrow> nat \<Rightarrow> (u8 list \<times> nat) option option" where
  "get_name m old =
     do {
       r0 \<leftarrow> skip_slashes m old;
       let (w, r1) = copy_name m (old + PATH_MAX) r0 [];
       let r2 = trail_slashes m (old + PATH_MAX) r1;
       Some (if r2 \<ge> old + PATH_MAX then None else Some (w, r2))
     }"

subsection \<open>Searching a directory\<close>

text \<open>
  A component: its characters, and whether it is one of the strings \<^verbatim>\<open>dot1\<close> and \<^verbatim>\<open>dot2\<close> that
  the file system itself passes and that bypass the check of permissions.
\<close>

datatype comp = Comp (comp_sys: bool) (comp_chars: "u8 list")

abbreviation (input) DOT :: u8 where "DOT \<equiv> 46"

definition dot1 :: comp where "dot1 = Comp True [DOT]"
definition dot2 :: comp where "dot2 = Comp True [DOT, DOT]"

datatype dirflag = LOOK_UP | ENTER | DELETE | IS_EMPTY

text \<open>Entries of a directory block: 64 of 16 bytes, the inode number in the byte order of the device.\<close>

definition dir_ino :: "block \<Rightarrow> nat \<Rightarrow> u16" where
  "dir_ino d i = blk_get16 d (16 * i)"

definition dir_name :: "block \<Rightarrow> nat \<Rightarrow> u8 list" where
  "dir_name d i = takeWhile (\<lambda>c. c \<noteq> 0) (map (\<lambda>k. d (16 * i + 2 + k)) [0..<NAME_MAX])"

definition erase_entry :: "nat \<Rightarrow> block \<Rightarrow> block" where
  "erase_entry i d = blk_put16 (blk_put16 d (16 * i + 14) (dir_ino d i)) (16 * i) 0"

definition fill_entry :: "nat \<Rightarrow> u8 list \<Rightarrow> u16 \<Rightarrow> block \<Rightarrow> block" where
  "fill_entry i w ino d =
     blk_put16 (\<lambda>j. if 16 * i + 2 \<le> j \<and> j < 16 * i + 16
                    then (if j - (16 * i + 2) < length w then w ! (j - (16 * i + 2)) else 0) else d j) (16 * i) ino"

datatype scan_dir = Match nat | Room nat nat | Through nat

text \<open>The scan of one block; the numbers are those of the entry and of the slots seen.\<close>

fun scan_block :: "dirflag \<Rightarrow> u8 list \<Rightarrow> nat \<Rightarrow> block \<Rightarrow> nat list \<Rightarrow> nat \<Rightarrow> scan_dir" where
  "scan_block flag w old_slots d [] seen = Through seen"
| "scan_block flag w old_slots d (i # is) seen =
     (if seen + 1 > old_slots then (if flag = ENTER then Room i (seen + 1) else Through (seen + 1))
      else if flag \<noteq> ENTER \<and> dir_ino d i \<noteq> 0
              \<and> (if flag = IS_EMPTY then dir_name d i \<noteq> [DOT] \<and> dir_name d i \<noteq> [DOT, DOT] else dir_name d i = w)
      then Match i
      else if flag = ENTER \<and> dir_ino d i = 0 then Room i (seen + 1)
      else scan_block flag w old_slots d is (seen + 1))"

text \<open>The search through the blocks: the buffer of the block that ends it, with its scan.\<close>

partial_function (option) search_blocks ::
  "nat \<Rightarrow> dirflag \<Rightarrow> u8 list \<Rightarrow> nat \<Rightarrow> u32 \<Rightarrow> nat \<Rightarrow> fs \<Rightarrow> ((nat option \<times> scan_dir) \<times> fs) option" where
  "search_blocks dir flag w old_slots pos seen s =
     (if pos < i_size (inodes s dir)
      then do {
        (b, s1) \<leftarrow> read_map dir pos s;
        (bp, s2) \<leftarrow> fs_get (i_dev (inodes s1 dir)) b NORMAL s1;
        case scan_block flag w old_slots (b_data (bufs (cch s2) bp)) [0..<64] seen of
          Through n \<Rightarrow> search_blocks dir flag w old_slots (pos + 1024) n (fs_put (Some bp) DIRECTORY_BLOCK s2)
        | r \<Rightarrow> Some ((Some bp, r), s2)
      }
      else Some ((None, Through seen), s))"

definition dir_changed :: "nat \<Rightarrow> fs \<Rightarrow> fs" where
  "dir_changed dir s = upd_inode dir (\<lambda>p. p\<lparr>i_update := i_update p OR CTIME OR MTIME, i_dirt := True\<rparr>) s"

text \<open>Entering a name: in the free entry that the search found, or in a new block.\<close>

definition dir_enter :: "nat \<Rightarrow> u8 list \<Rightarrow> u16 \<Rightarrow> nat \<Rightarrow> (nat \<times> nat \<times> nat) option \<Rightarrow> nat \<Rightarrow> fs \<Rightarrow> (int \<times> fs) option" where
  "dir_enter dir w numb old_slots room seen s =
     do {
       (r, s1) \<leftarrow>
         (case room of
            Some (bp, i, n) \<Rightarrow> Some (Inr (bp, i, n, False), s)
          | None \<Rightarrow>
              if (of_nat (seen + 1) :: u32) = 0 then Some (Inl EFBIG, s)
              else do {
                (r, s1) \<leftarrow> new_block dir (i_size (inodes s dir)) s;
                Some (case r of None \<Rightarrow> Inl (err_code s1) | Some bp \<Rightarrow> Inr (bp, 0, seen + 1, True), s1)
              });
       case r of
         Inl e \<Rightarrow> Some (e, s1)
       | Inr (bp, i, n, extended) \<Rightarrow>
           do {
             spi \<leftarrow> i_sp (inodes s1 dir);
             let ino = conv2 (s_native (supers s1 spi)) numb;
             let s2 = fs_buf bp (\<lambda>b. b\<lparr>b_data := fill_entry i w ino (b_data b), b_dirt := True\<rparr>) s1;
             let s3 = dir_changed dir (fs_put (Some bp) DIRECTORY_BLOCK s2);
             if n > old_slots
             then let s4 = upd_inode dir (\<lambda>p. p\<lparr>i_size := of_nat n * 16\<rparr>) s3
                  in map_option (Pair OK) (if extended then rw_inode dir WRITING s4 else Some s4)
             else Some (OK, s3)
           }
     }"

text \<open>\<^verbatim>\<open>search_dir()\<close>: the result and the inode number, which only a successful look-up sets.\<close>

definition search_dir :: "nat \<Rightarrow> comp \<Rightarrow> u16 \<Rightarrow> dirflag \<Rightarrow> fs \<Rightarrow> (int \<times> u16 \<times> fs) option" where
  "search_dir dir c numb flag s =
     (if i_mode (inodes s dir) AND I_TYPE \<noteq> I_DIRECTORY then Some (ENOTDIR, numb, s)
      else do {
        (r, s1) \<leftarrow>
          (if flag = IS_EMPTY then Some (OK, s)
           else if comp_sys c then (if flag \<noteq> LOOK_UP then map_option (\<lambda>r. (r, s)) (read_only dir s) else Some (OK, s))
           else forbidden dir (if flag = LOOK_UP then X_BIT else W_BIT OR X_BIT) s);
        if r \<noteq> OK then Some (r, numb, s1)
        else do {
          let old_slots = unat (i_size (inodes s1 dir)) div 16;
          ((hit, scan), s2) \<leftarrow> search_blocks dir flag (comp_chars c) old_slots 0 0 s1;
          case (hit, scan) of
            (Some bp, Match i) \<Rightarrow>
              (case flag of
                 IS_EMPTY \<Rightarrow> Some (ENOTEMPTY, numb, fs_put (Some bp) DIRECTORY_BLOCK s2)
               | DELETE \<Rightarrow>
                   Some (OK, numb, fs_put (Some bp) DIRECTORY_BLOCK (dir_changed dir
                     (fs_buf bp (\<lambda>b. b\<lparr>b_data := erase_entry i (b_data b), b_dirt := True\<rparr>) s2)))
               | _ \<Rightarrow> do {
                   spi \<leftarrow> i_sp (inodes s2 dir);
                   Some (OK, conv2 (s_native (supers s2 spi)) (dir_ino (b_data (bufs (cch s2) bp)) i), fs_put (Some bp) DIRECTORY_BLOCK s2)
                 })
          | (Some bp, Room i n) \<Rightarrow> map_option (\<lambda>(r, s3). (r, numb, s3)) (dir_enter dir (comp_chars c) numb old_slots (Some (bp, i, n)) n s2)
          | (_, Through n) \<Rightarrow>
              if flag = ENTER then map_option (\<lambda>(r, s3). (r, numb, s3)) (dir_enter dir (comp_chars c) numb old_slots None n s2)
              else Some (if flag = IS_EMPTY then OK else ENOENT, numb, s2)
          | _ \<Rightarrow> None
        }
      })"

subsection \<open>Walking a path\<close>

partial_function (option) cross_mounts :: "nat option \<Rightarrow> fs \<Rightarrow> (nat option \<times> fs) option" where
  "cross_mounts ip s =
     (case ip of
        None \<Rightarrow> Some (None, s)
      | Some rip \<Rightarrow>
          if i_mount (inodes s rip)
          then (case find (\<lambda>i. s_imount (supers s i) = Some rip) [0..<NR_SUPERS] of
                  None \<Rightarrow> cross_mounts ip s
                | Some i \<Rightarrow> do {
                    s1 \<leftarrow> put_inode (Some rip) s;
                    (r, s2) \<leftarrow> get_inode (s_dev (supers s1 i)) ROOT_INODE s1;
                    cross_mounts r s2
                  })
          else Some (Some rip, s))"

text \<open>The root of a mounted file system, looked up as \<^verbatim>\<open>..\<close>: the super block it is mounted with.\<close>

definition upward :: "nat \<Rightarrow> nat \<Rightarrow> u8 list \<Rightarrow> fs \<Rightarrow> nat option" where
  "upward dirp rip w s =
     (if i_num (inodes s rip) = 1 \<and> i_num (inodes s dirp) = 1 \<and> length w > 1 \<and> w ! 1 = DOT
      then find (\<lambda>i. s_dev (supers s i) = i_dev (inodes s rip)) [1..<NR_SUPERS] else None)"

partial_function (option) advance :: "nat option \<Rightarrow> comp \<Rightarrow> fs \<Rightarrow> (nat option \<times> fs) option" where
  "advance dp c s =
     (case dp of
        None \<Rightarrow> if comp_chars c = [] then None else Some (None, s)
      | Some dirp \<Rightarrow>
          if comp_chars c = [] then get_inode (i_dev (inodes s dirp)) (uint (i_num (inodes s dirp))) s
          else do {
            (r, numb, s1) \<leftarrow> search_dir dirp c 0 LOOK_UP s;
            if r \<noteq> OK then Some (None, s1\<lparr>err_code := r\<rparr>)
            else if Some dirp = fp_rootdir (fprocs s1 (cfp s1)) \<and> comp_chars c = [DOT, DOT] \<and> \<not> comp_sys c
            then get_inode (i_dev (inodes s1 dirp)) (uint (i_num (inodes s1 dirp))) s1
            else do {
              (ip, s2) \<leftarrow> get_inode (i_dev (inodes s1 dirp)) (uint numb) s1;
              case ip of
                None \<Rightarrow> Some (None, s2)
              | Some rip \<Rightarrow>
                  do {
                    (ip1, s3) \<leftarrow>
                      (case upward dirp rip (comp_chars c) s2 of
                         None \<Rightarrow> Some (Some rip, s2)
                       | Some i \<Rightarrow> do {
                           s3 \<leftarrow> put_inode (Some rip) s2;
                           im \<leftarrow> s_imount (supers s3 i);
                           (rip2, s4) \<leftarrow> get_inode (i_dev (inodes s3 im)) (uint (i_num (inodes s3 im))) s3;
                           (r1, s5) \<leftarrow> advance rip2 c s4;
                           s6 \<leftarrow> put_inode rip2 s5;
                           Some (r1, s6)
                         });
                    cross_mounts ip1 s3
                  }
            }
          })"

text \<open>The walk down to the last directory: the inode, and the last component.\<close>

partial_function (option) walk :: "nat \<Rightarrow> nat \<Rightarrow> fs \<Rightarrow> ((nat \<times> u8 list) option \<times> fs) option" where
  "walk path rip s =
     do {
       g \<leftarrow> get_name (user_path s) path;
       case g of
         None \<Rightarrow> map_option (\<lambda>s1. (None, s1)) (put_inode (Some rip) (s\<lparr>err_code := ENAMETOOLONG\<rparr>))
       | Some (w, new_name) \<Rightarrow>
           if user_path s new_name = 0
           then (if i_mode (inodes s rip) AND I_TYPE = I_DIRECTORY then Some (Some (rip, w), s)
                 else map_option (\<lambda>s1. (None, s1\<lparr>err_code := ENOTDIR\<rparr>)) (put_inode (Some rip) s))
           else do {
             (new_ip, s1) \<leftarrow> advance (Some rip) (Comp False w) s;
             s2 \<leftarrow> put_inode (Some rip) s1;
             case new_ip of None \<Rightarrow> Some (None, s2) | Some ip \<Rightarrow> walk new_name ip s2
           }
     }"

definition last_dir :: "fs \<Rightarrow> ((nat \<times> u8 list) option \<times> fs) option" where
  "last_dir s =
     do {
       let me = fprocs s (cfp s);
       rip \<leftarrow> (if user_path s 0 = SLASH then fp_rootdir me else fp_workdir me);
       if i_nlinks (inodes s rip) = 0 \<or> user_path s 0 = 0 then Some (None, s\<lparr>err_code := ENOENT\<rparr>)
       else walk 0 rip (dup_inode rip s)
     }"

definition eat_path :: "fs \<Rightarrow> (nat option \<times> fs) option" where
  "eat_path s =
     do {
       (l, s1) \<leftarrow> last_dir s;
       case l of
         None \<Rightarrow> Some (None, s1)
       | Some (ldip, w) \<Rightarrow>
           if w = [] then Some (Some ldip, s1)
           else do {
             (rip, s2) \<leftarrow> advance (Some ldip) (Comp False w) s1;
             s3 \<leftarrow> put_inode (Some ldip) s2;
             Some (rip, s3)
           }
     }"

end
