(* ===== verification/FS_File.thy ===== *)
theory FS_File
  imports FS_Path FS_Lock
begin

text \<open>
  Open files: closing, positions, descriptors, and what fork, exec and exit do to them
  (\<^verbatim>\<open>do_close()\<close> and \<^verbatim>\<open>do_lseek()\<close> of \<^verbatim>\<open>fs/open.c\<close>,
  \<^verbatim>\<open>fs/misc.c\<close>, \<^verbatim>\<open>do_umask()\<close>).
\<close>

subsection \<open>Writing everything back\<close>

fun sync_inodes :: "nat list \<Rightarrow> fs \<Rightarrow> fs option" where
  "sync_inodes [] s = Some s"
| "sync_inodes (i # is) s =
     do { s1 \<leftarrow> (if i_count (inodes s i) > 0 \<and> i_dirt (inodes s i) then rw_inode i WRITING s else Some s); sync_inodes is s1 }"

fun sync_blocks :: "nat list \<Rightarrow> cache \<Rightarrow> cache option" where
  "sync_blocks [] c = Some c"
| "sync_blocks (i # is) c =
     do { c1 \<leftarrow> (if b_dev (bufs c i) \<noteq> NO_DEV \<and> b_dirt (bufs c i) then flushall (b_dev (bufs c i)) c else Some c); sync_blocks is c1 }"

definition do_sync :: "fs \<Rightarrow> fs option" where
  "do_sync s =
     do {
       s1 \<leftarrow> sync_inodes [0..<NR_INODES] s;
       c \<leftarrow> sync_blocks [0..<NR_BUFS] (cch s1);
       Some (s1\<lparr>cch := c\<rparr>)
     }"

subsection \<open>Closing\<close>

text \<open>The last close of a special file.\<close>

definition close_special :: "nat \<Rightarrow> fs \<Rightarrow> fs option" where
  "close_special rip s =
     (let ty = i_mode (inodes s rip) AND I_TYPE; dev = zone_dev (i_zone (inodes s rip) 0)
      in if ty = I_CHAR_SPECIAL \<or> ty = I_BLOCK_SPECIAL
         then do {
           s1 \<leftarrow> (if ty = I_BLOCK_SPECIAL \<and> \<not> mounted rip s
                 then map_option (\<lambda>s1. s1\<lparr>cch := invalidate dev (cch s1)\<rparr>) (do_sync s) else Some s);
           dev_close dev s1
         }
         else Some s)"

text \<open>The locks of the caller on the file.\<close>

fun drop_locks :: "nat list \<Rightarrow> nat option \<Rightarrow> int \<Rightarrow> fs \<Rightarrow> fs" where
  "drop_locks [] rip pid s = s"
| "drop_locks (i # is) rip pid s =
     (let l = file_locks s i
      in drop_locks is rip pid
           (if lock_type l \<noteq> 0 \<and> lock_inode l = rip \<and> lock_pid l = pid
            then (upd_lock i (\<lambda>l. l\<lparr>lock_type := 0\<rparr>) s)\<lparr>nr_locks := nr_locks s - 1\<rparr> else s))"

abbreviation (input) FILP_CLOSED :: u16 where "FILP_CLOSED \<equiv> 0"
abbreviation (input) CALL_READ :: int where "CALL_READ \<equiv> 3"
abbreviation (input) CALL_WRITE :: int where "CALL_WRITE \<equiv> 4"

definition close_filp :: "nat \<Rightarrow> nat \<Rightarrow> fs \<Rightarrow> fs option" where
  "close_filp f rip s =
     (let s1 = upd_filp f (\<lambda>x. x\<lparr>filp_count := filp_count x - 1\<rparr>) s
      in if filp_count (filps s1 f) = 0
         then put_inode (Some rip)
           (if i_pipe (inodes s1 rip) \<and> i_count (inodes s1 rip) > 1
            then upd_inode rip (\<lambda>p. p\<lparr>i_zone := (i_zone p)((if filp_mode (filps s1 f) = R_BIT then 7 else 8) := filp_pos (filps s1 f))\<rparr>) s1
            else s1)
         else Some s1)"

definition do_close :: "int \<Rightarrow> fs \<Rightarrow> (int \<times> fs) option" where
  "do_close fd s0 =
     (case get_filp fd s0 of
        (None, s) \<Rightarrow> Some (err_code s, s)
      | (Some f, s) \<Rightarrow>
          do {
            rip \<leftarrow> filp_ino (filps s f);
            s1 \<leftarrow> (if filp_count (filps s f) - 1 = 0 \<and> filp_mode (filps s f) \<noteq> FILP_CLOSED then close_special rip s else Some s);
            s2 \<leftarrow> (if i_pipe (inodes s1 rip)
                  then release rip (if filp_mode (filps s1 f) AND R_BIT \<noteq> 0 then CALL_WRITE else CALL_READ) NR_PROCS s1
                  else Some s1);
            s3 \<leftarrow> close_filp f rip s2;
            let s4 = upd_fproc (cfp s3) (\<lambda>p. p\<lparr>fp_cloexec := fp_cloexec p AND NOT (push_bit (nat fd) 1), fp_filp := (fp_filp p)(nat fd := None)\<rparr>) s3;
            if nr_locks s4 = 0 then Some (OK, s4)
            else do {
              let s5 = drop_locks [0..<NR_LOCKS] (Some rip) (fp_pid (fprocs s4 (cfp s4))) s4;
              s6 \<leftarrow> (if nr_locks s5 < nr_locks s4 then lock_revive s5 else Some s5);
              Some (OK, s6)
            }
          })"

fun close_all :: "nat list \<Rightarrow> fs \<Rightarrow> fs option" where
  "close_all [] s = Some s"
| "close_all (i # is) s = do { (r, s1) \<leftarrow> do_close (int i) s; close_all is s1 }"

subsection \<open>Positions\<close>

definition do_lseek :: "int \<Rightarrow> u32 \<Rightarrow> int \<Rightarrow> fs \<Rightarrow> (int \<times> fs) option" where
  "do_lseek ls_fd off whence s0 =
     (case get_filp ls_fd s0 of
        (None, s) \<Rightarrow> Some (err_code s, s)
      | (Some f, s) \<Rightarrow>
          do {
            rip \<leftarrow> filp_ino (filps s f);
            if i_pipe (inodes s rip) then Some (ESPIPE, s)
            else if whence < 0 \<or> whence > 2 then Some (EINVAL, s)
            else do {
              let pos = (if whence = 0 then 0 else if whence = 1 then filp_pos (filps s f) else i_size (inodes s rip));
              if sint off > 0 \<and> sint (pos + off) < sint pos then Some (EINVAL, s)
              else if sint off < 0 \<and> sint (pos + off) > sint pos then Some (EINVAL, s)
              else let s1 = (if pos + off \<noteq> filp_pos (filps s f) then upd_inode rip (\<lambda>p. p\<lparr>i_seek := True\<rparr>) s else s);
                       s2 = upd_filp f (\<lambda>x. x\<lparr>filp_pos := pos + off\<rparr>) s1
                   in Some (OK, s2\<lparr>reply_l1 := pos + off\<rparr>)
            }
          })"

subsection \<open>Descriptors\<close>

definition share_filp :: "nat \<Rightarrow> nat \<Rightarrow> fs \<Rightarrow> fs" where
  "share_filp f k s =
     upd_fproc (cfp s) (\<lambda>p. p\<lparr>fp_filp := (fp_filp p)(k := Some f)\<rparr>) (upd_filp f (\<lambda>x. x\<lparr>filp_count := filp_count x + 1\<rparr>) s)"

text \<open>\<^verbatim>\<open>dup\<close> and \<^verbatim>\<open>dup2\<close>: the bit \<^verbatim>\<open>DUP_MASK\<close> (64) of the descriptor tells which.\<close>

definition do_dup :: "int \<Rightarrow> int \<Rightarrow> fs \<Rightarrow> (int \<times> fs) option" where
  "do_dup fd fd2 s0 =
     (let rfd = (if fd div 64 mod 2 = 1 then fd - 64 else fd)
      in case get_filp rfd s0 of
           (None, s) \<Rightarrow> Some (err_code s, s)
         | (Some f, s) \<Rightarrow>
             if fd = rfd
             then (case get_fd 0 0 s of
                     (Inl e, s1) \<Rightarrow> Some (e, s1)
                   | (Inr (k, g), s1) \<Rightarrow> Some (int k, share_filp f k s1))
             else if fd2 < 0 \<or> fd2 \<ge> int OPEN_MAX then Some (EBADF, s)
             else if rfd = fd2 then Some (fd2, s)
             else map_option (\<lambda>(r, s1). (fd2, share_filp f (nat fd2) s1)) (do_close fd2 s))"

text \<open>
  \<^verbatim>\<open>do_fcntl()\<close>; \<open>addr\<close> is the third argument as an integer, \<open>name1\<close> as an address, at which the user
  has the structure \<open>fl\<close>.
\<close>

definition do_fcntl :: "int \<Rightarrow> int \<Rightarrow> int \<Rightarrow> u32 \<Rightarrow> flock \<Rightarrow> fs \<Rightarrow> (int \<times> flock option \<times> fs) option" where
  "do_fcntl fd req addr name1 fl s0 =
     (case get_filp fd s0 of
        (None, s) \<Rightarrow> Some (err_code s, None, s)
      | (Some f, s) \<Rightarrow>
          let me = fprocs s (cfp s) in
          if req = 0
          then (if addr < 0 \<or> addr \<ge> int OPEN_MAX then Some (EINVAL, None, s)
                else case get_fd (nat addr) 0 s of
                       (Inl e, s1) \<Rightarrow> Some (e, None, s1)
                     | (Inr (k, g), s1) \<Rightarrow> Some (int k, None, share_filp f k s1))
          else if req = 1 then Some (if bit (fp_cloexec me) (nat fd) then 1 else 0, None, s)
          else if req = 2
          then let clo = push_bit (nat fd) 1
               in Some (OK, None, upd_fproc (cfp s) (\<lambda>p. p\<lparr>fp_cloexec := (fp_cloexec p AND NOT clo) OR (if odd addr then clo else 0)\<rparr>) s)
          else if req = 3 then Some (uint (filp_flags (filps s f) AND (O_NONBLOCK OR O_APPEND OR O_ACCMODE)), None, s)
          else if req = 4
          then let fl = O_NONBLOCK OR O_APPEND
               in Some (OK, None, upd_filp f (\<lambda>x. x\<lparr>filp_flags := (filp_flags x AND NOT fl) OR (word_of_int addr AND fl)\<rparr>) s)
          else if req = F_GETLK \<or> req = F_SETLK \<or> req = F_SETLKW then lock_op f req fd name1 fl s
          else Some (EINVAL, None, s))"

subsection \<open>Processes\<close>

definition do_umask :: "u16 \<Rightarrow> fs \<Rightarrow> int \<times> fs" where
  "do_umask co_mode s =
     (uint (NOT (fp_umask (fprocs s (cfp s)))), upd_fproc (cfp s) (\<lambda>p. p\<lparr>fp_umask := NOT (co_mode AND RWX_MODES)\<rparr>) s)"

definition proc_nr_ok :: "int \<Rightarrow> bool" where
  "proc_nr_ok p \<longleftrightarrow> 0 \<le> p \<and> p < NR_PROCS"

fun inherit :: "(nat \<Rightarrow> nat option) \<Rightarrow> nat list \<Rightarrow> fs \<Rightarrow> fs" where
  "inherit tab [] s = s"
| "inherit tab (i # is) s =
     inherit tab is (case tab i of None \<Rightarrow> s | Some f \<Rightarrow> upd_filp f (\<lambda>x. x\<lparr>filp_count := filp_count x + 1\<rparr>) s)"

definition fs_do_fork :: "int \<Rightarrow> int \<Rightarrow> int \<Rightarrow> fs \<Rightarrow> (int \<times> fs) option" where
  "fs_do_fork parent child pid s =
     (if who s \<noteq> MM_PROC_NR then Some (EGENERIC, s)
      else if \<not> proc_nr_ok parent \<or> \<not> proc_nr_ok child then None
      else do {
        let cp = fprocs s (nat parent);
        let s1 = upd_fproc (nat child) (\<lambda>_. cp) s;
        let s2 = inherit (fp_filp cp) [0..<OPEN_MAX] s1;
        let s3 = upd_fproc (nat child) (\<lambda>p. p\<lparr>fp_pid := pid, fp_sesldr := False\<rparr>) s2;
        rd \<leftarrow> fp_rootdir cp;
        wd \<leftarrow> fp_workdir cp;
        Some (OK, dup_inode wd (dup_inode rd s3))
      })"

fun close_marked :: "u32 \<Rightarrow> nat list \<Rightarrow> fs \<Rightarrow> fs option" where
  "close_marked bitmap [] s = Some s"
| "close_marked bitmap (i # is) s =
     do { s1 \<leftarrow> (if bit bitmap i then map_option snd (do_close (int i) s) else Some s); close_marked bitmap is s1 }"

definition fs_do_exec :: "int \<Rightarrow> fs \<Rightarrow> (int \<times> fs) option" where
  "fs_do_exec slot1 s =
     (if who s \<noteq> MM_PROC_NR then Some (EGENERIC, s)
      else if \<not> proc_nr_ok slot1 then None
      else let s1 = s\<lparr>cfp := nat slot1\<rparr>; bitmap = fp_cloexec (fprocs s1 (cfp s1))
           in if bitmap = 0 then Some (OK, s1) else map_option (Pair OK) (close_marked bitmap [0..<OPEN_MAX] s1))"

text \<open>A session leader that exits takes its terminal from everybody.\<close>

fun revoke_fds :: "int \<Rightarrow> nat \<Rightarrow> nat list \<Rightarrow> fs \<Rightarrow> fs option" where
  "revoke_fds dev p [] s = Some s"
| "revoke_fds dev p (i # is) s =
     do {
       s1 \<leftarrow>
         (case fp_filp (fprocs s p) i of
            None \<Rightarrow> Some s
          | Some f \<Rightarrow>
              if filp_mode (filps s f) = FILP_CLOSED then Some s
              else do {
                rip \<leftarrow> filp_ino (filps s f);
                if i_mode (inodes s rip) AND I_TYPE \<noteq> I_CHAR_SPECIAL \<or> zone_dev (i_zone (inodes s rip) 0) \<noteq> dev then Some s
                else map_option (upd_filp f (\<lambda>x. x\<lparr>filp_mode := FILP_CLOSED\<rparr>)) (dev_close dev s)
              });
       revoke_fds dev p is s1
     }"

fun revoke_tty :: "int \<Rightarrow> nat list \<Rightarrow> fs \<Rightarrow> fs option" where
  "revoke_tty dev [] s = Some s"
| "revoke_tty dev (p # ps) s =
     do {
       s1 \<leftarrow> revoke_fds dev p [0..<OPEN_MAX] (if fp_tty (fprocs s p) = dev then upd_fproc p (\<lambda>x. x\<lparr>fp_tty := 0\<rparr>) s else s);
       revoke_tty dev ps s1
     }"

definition fs_do_exit :: "int \<Rightarrow> fs \<Rightarrow> (int \<times> fs) option" where
  "fs_do_exit slot1 s =
     (if who s \<noteq> MM_PROC_NR then Some (EGENERIC, s)
      else if \<not> proc_nr_ok slot1 then None
      else do {
        let s1 = s\<lparr>cfp := nat slot1\<rparr>;
        let p = fprocs s1 (cfp s1);
        s3 \<leftarrow>
          (if fp_suspended p
           then do {
             (r, s2) \<leftarrow> do_unpause slot1 (if - fp_task p = XPIPE \<or> - fp_task p = XPOPEN then s1\<lparr>susp_count := susp_count s1 - 1\<rparr> else s1);
             Some (upd_fproc (cfp s2) (\<lambda>p. p\<lparr>fp_suspended := False\<rparr>) s2)
           }
           else Some s1);
        s4 \<leftarrow> close_all [0..<OPEN_MAX] s3;
        s5 \<leftarrow> put_inode (fp_rootdir (fprocs s4 (cfp s4))) s4;
        s6 \<leftarrow> put_inode (fp_workdir (fprocs s5 (cfp s5))) s5;
        let s7 = upd_fproc (cfp s6) (\<lambda>p. p\<lparr>fp_rootdir := None, fp_workdir := None\<rparr>) s6;
        let q = fprocs s7 (cfp s7);
        if \<not> fp_sesldr q then Some (OK, s7)
        else do {
          let s8 = upd_fproc (cfp s7) (\<lambda>p. p\<lparr>fp_sesldr := False\<rparr>) s7;
          if fp_tty q = 0 then Some (OK, s8)
          else map_option (\<lambda>s9. (OK, upd_fproc (cfp s9) (\<lambda>p. p\<lparr>fp_pid := 0\<rparr>) s9)) (revoke_tty (fp_tty q) [nat INIT_PROC_NR..<NR_FPROCS] s8)
        }
      })"

text \<open>\<^verbatim>\<open>do_set()\<close>: the calls 23 (\<^verbatim>\<open>SETUID\<close>) and 46 (\<^verbatim>\<open>SETGID\<close>).\<close>

definition do_set :: "int \<Rightarrow> int \<Rightarrow> int \<Rightarrow> fs \<Rightarrow> (int \<times> fs) option" where
  "do_set slot1 rid eid s =
     (if who s \<noteq> MM_PROC_NR then Some (EGENERIC, s)
      else if \<not> proc_nr_ok slot1 then None
      else Some (OK, upd_fproc (nat slot1) (\<lambda>p.
        if fs_call s = 23 then p\<lparr>fp_realuid := word_of_int rid, fp_effuid := word_of_int eid\<rparr>
        else if fs_call s = 46 then p\<lparr>fp_effgid := word_of_int eid, fp_realgid := word_of_int rid\<rparr> else p) s))"

end
