(* ===== verification/FS_Read.thy ===== *)
theory FS_Read
  imports FS_Write FS_Device
begin

text \<open>
  Pipes (\<^verbatim>\<open>fs/pipe.c\<close>) and reading and writing of files (\<^verbatim>\<open>fs/read.c\<close>).  The descriptor, the
  buffer and the count of a call are arguments; the code keeps them in the message and updates them there.
\<close>

abbreviation (input) SIGPIPE :: int where "SIGPIPE \<equiv> 13"
abbreviation (input) RELEASE_READ :: int where "RELEASE_READ \<equiv> 3"
abbreviation (input) RELEASE_WRITE :: int where "RELEASE_WRITE \<equiv> 4"

subsection \<open>Pipes\<close>

definition claim_fd :: "nat \<Rightarrow> nat \<Rightarrow> fs \<Rightarrow> fs" where
  "claim_fd k f s =
     upd_filp f (\<lambda>x. x\<lparr>filp_count := 1\<rparr>) (upd_fproc (cfp s) (\<lambda>p. p\<lparr>fp_filp := (fp_filp p)(k := Some f)\<rparr>) s)"

definition unclaim_fd :: "nat \<Rightarrow> nat \<Rightarrow> fs \<Rightarrow> fs" where
  "unclaim_fd k f s =
     upd_filp f (\<lambda>x. x\<lparr>filp_count := 0\<rparr>) (upd_fproc (cfp s) (\<lambda>p. p\<lparr>fp_filp := (fp_filp p)(k := None)\<rparr>) s)"

definition do_pipe :: "fs \<Rightarrow> (int \<times> fs) option" where
  "do_pipe s =
     (case get_fd 0 R_BIT s of
        (Inl e, s1) \<Rightarrow> Some (e, s1)
      | (Inr (k0, f0), s1) \<Rightarrow>
          let s2 = claim_fd k0 f0 s1 in
          (case get_fd 0 W_BIT s2 of
             (Inl e, s3) \<Rightarrow> Some (e, unclaim_fd k0 f0 s3)
           | (Inr (k1, f1), s3) \<Rightarrow>
               do {
                 let s4 = claim_fd k1 f1 s3;
                 (ip, s5) \<leftarrow> alloc_inode (root_dev s4) I_REGULAR s4;
                 case ip of
                   None \<Rightarrow> Some (err_code s5, unclaim_fd k1 f1 (unclaim_fd k0 f0 s5))
                 | Some rip \<Rightarrow>
                     do {
                       spi \<leftarrow> i_sp (inodes s5 rip);
                       if s_rd_only (supers s5 spi) then None
                       else do {
                         let s6 = upd_inode rip (\<lambda>p. p\<lparr>i_pipe := True, i_mode := (i_mode p AND NOT I_REGULAR) OR I_NAMED_PIPE\<rparr>) s5;
                         let s7 = upd_filp f0 (\<lambda>x. x\<lparr>filp_ino := Some rip, filp_flags := 0\<rparr>) s6;
                         let s8 = upd_filp f1 (\<lambda>x. x\<lparr>filp_ino := Some rip, filp_flags := 1\<rparr>) (dup_inode rip s7);
                         s9 \<leftarrow> rw_inode rip WRITING s8;
                         Some (OK, upd_inode rip (\<lambda>p. p\<lparr>i_update := ATIME OR CTIME OR MTIME\<rparr>) (s9\<lparr>reply_i1 := int k0, reply_i2 := int k1\<rparr>))
                       }
                     }
               }))"

text \<open>\<^verbatim>\<open>pipe_check()\<close>: the result and \<^verbatim>\<open>*canwrite\<close>, which only a result above 0 sets.\<close>

definition pipe_check :: "nat \<Rightarrow> rw \<Rightarrow> u32 \<Rightarrow> int \<Rightarrow> u32 \<Rightarrow> int \<Rightarrow> u32 \<Rightarrow> int \<Rightarrow> fs \<Rightarrow> ((int \<times> int) \<times> fs) option" where
  "pipe_check rip flag oflags bytes position fild buf nb s =
     (if flag = READING
      then (if position \<ge> i_size (inodes s rip)
            then (if find_filp rip W_BIT s = None then Some ((0, 0), s)
                  else do {
                    let s1 = (if oflags AND O_NONBLOCK \<noteq> 0 then s else suspend XPIPE fild buf nb s);
                    let r = (if oflags AND O_NONBLOCK \<noteq> 0 then EAGAIN else SUSPEND);
                    s2 \<leftarrow> (if susp_count s1 > 0 then release rip RELEASE_WRITE (susp_count s1) s1 else Some s1);
                    Some ((r, 0), s2)
                  })
            else Some ((1, 0), s))
      else if find_filp rip R_BIT s = None then Some ((EPIPE, 0), snd (ask_fs (ReqKill (int (cfp s)) SIGPIPE) s))
      else let room = sint (PIPE_SIZE - position); nonblock = oflags AND O_NONBLOCK \<noteq> 0
           in if position + word_of_int bytes > PIPE_SIZE
              then (if nonblock \<and> bytes < 7168 then Some ((EAGAIN, 0), s)
                    else if bytes > 7168 \<and> room > 0
                    then map_option (Pair (1, room)) (release rip RELEASE_READ (susp_count s) s)
                    else if nonblock \<and> bytes > 7168 then Some ((EAGAIN, room), s)
                    else Some ((SUSPEND, room), suspend XPIPE fild buf nb s))
              else map_option (Pair (1, 0)) (if position = 0 then release rip RELEASE_READ (susp_count s) s else Some s))"

subsection \<open>Reading ahead\<close>

text \<open>Empty buffers for the blocks that follow; a block that is in the cache ends the queue.\<close>

partial_function (option) ahead_loop :: "int \<Rightarrow> u32 \<Rightarrow> u32 \<Rightarrow> nat list \<Rightarrow> fs \<Rightarrow> (nat list \<times> fs) option" where
  "ahead_loop dev block blocks_ahead q s =
     (if blocks_ahead - 1 = 0 \<or> bufs_in_use (cch s) \<ge> int NR_BUFS - 4 then Some (q, s)
      else do {
        (bp, s1) \<leftarrow> fs_get dev (block + 1) PREFETCH s;
        if b_dev (bufs (cch s1) bp) \<noteq> NO_DEV then Some (q, fs_put (Some bp) FULL_DATA_BLOCK s1)
        else ahead_loop dev (block + 1) (blocks_ahead - 1) (q @ [bp]) s1
      })"

definition file_dev :: "inode \<Rightarrow> int" where
  "file_dev p = (if i_mode p AND I_TYPE = I_BLOCK_SPECIAL then zone_dev (i_zone p 0) else i_dev p)"

text \<open>How many blocks to fetch.\<close>

definition blocks_wanted :: "inode \<Rightarrow> nat \<Rightarrow> u32 \<Rightarrow> u32 \<Rightarrow> u32" where
  "blocks_wanted p scale position0 bytes0 =
     (let fragment = position0 mod 1024;
          position = position0 - fragment;
          ahead0 = (bytes0 + fragment + 1023) div 1024;
          special = (i_mode p AND I_TYPE = I_BLOCK_SPECIAL);
          left0 = (if special \<and> i_size p = 0 then 64 else (i_size p - position + 1023) div 1024);
          ind1_pos = of_nat (i_ndzones p) * push_bit scale 1024;
          near = (\<not> special \<and> position \<le> ind1_pos \<and> i_size p > ind1_pos);
          ahead1 = (if near then ahead0 + 1 else ahead0);
          left = (if near then left0 + 1 else left0);
          ahead2 = (if ahead1 > 64 then 64 else ahead1);
          ahead3 = (if ahead2 < 32 \<and> \<not> i_seek p then 32 else ahead2)
      in if ahead3 > left then left else ahead3)"

definition rahead :: "nat \<Rightarrow> u32 \<Rightarrow> u32 \<Rightarrow> u32 \<Rightarrow> fs \<Rightarrow> (nat \<times> fs) option" where
  "rahead rip baseblock position bytes_ahead s =
     do {
       let p = inodes s rip;
       let dev = file_dev p;
       (bp, s1) \<leftarrow> fs_get dev baseblock PREFETCH s;
       if b_dev (bufs (cch s1) bp) \<noteq> NO_DEV then Some (bp, s1)
       else do {
         scale \<leftarrow> (if i_mode p AND I_TYPE = I_BLOCK_SPECIAL then Some 0 else zone_scale rip s1);
         (q, s2) \<leftarrow> ahead_loop dev baseblock (blocks_wanted p scale position bytes_ahead) [bp] s1;
         c \<leftarrow> rw_scattered dev q READING (cch s2);
         fs_get dev baseblock NORMAL (s2\<lparr>cch := c\<rparr>)
       }
     }"

definition read_ahead :: "fs \<Rightarrow> fs option" where
  "read_ahead s0 =
     do {
       rip \<leftarrow> rdahed_inode s0;
       let s = s0\<lparr>rdahed_inode := None\<rparr>;
       (b, s1) \<leftarrow> read_map rip (rdahedpos s) s;
       if b = NO_BLOCK then Some s1
       else do {
         (bp, s2) \<leftarrow> rahead rip b (rdahedpos s1) 1024 s1;
         Some (fs_put (Some bp) PARTIAL_DATA_BLOCK s2)
       }
     }"

subsection \<open>Chunks\<close>

definition buf_bytes :: "block \<Rightarrow> nat \<Rightarrow> nat \<Rightarrow> u8 list" where
  "buf_bytes d off n = map (\<lambda>k. d (off + k)) [0..<n]"

definition set_bytes :: "block \<Rightarrow> nat \<Rightarrow> u8 list \<Rightarrow> block" where
  "set_bytes d off bs = (\<lambda>k. if off \<le> k \<and> k - off < length bs then bs ! (k - off) else d k)"

text \<open>The buffer for a chunk: \<open>Inl\<close> if there is no room for a new block.\<close>

definition chunk_block :: "nat \<Rightarrow> u32 \<Rightarrow> nat \<Rightarrow> nat \<Rightarrow> u32 \<Rightarrow> rw \<Rightarrow> fs \<Rightarrow> ((int + nat) \<times> fs) option" where
  "chunk_block rip position off chunk left flag s =
     do {
       let special = (i_mode (inodes s rip) AND I_TYPE = I_BLOCK_SPECIAL);
       (b, s1) \<leftarrow> (if special then Some (position div 1024, s) else read_map rip position s);
       if \<not> special \<and> b = NO_BLOCK
       then (if flag = READING
             then do { (bp, s2) \<leftarrow> fs_get NO_DEV NO_BLOCK NORMAL s1; Some (Inr bp, zero_block bp s2) }
             else do { (r, s2) \<leftarrow> new_block rip position s1; Some (case r of None \<Rightarrow> Inl (err_code s2) | Some bp \<Rightarrow> Inr bp, s2) })
       else if flag = READING then map_option (\<lambda>(bp, s2). (Inr bp, s2)) (rahead rip b position left s1)
       else map_option (\<lambda>(bp, s2). (Inr bp, s2))
              (fs_get (file_dev (inodes s1 rip)) b
                (if chunk = 1024 \<or> \<not> special \<and> off = 0 \<and> position \<ge> i_size (inodes s1 rip) then NO_READ else NORMAL) s1)
     }"

definition rw_chunk :: "nat \<Rightarrow> u32 \<Rightarrow> nat \<Rightarrow> nat \<Rightarrow> u32 \<Rightarrow> rw \<Rightarrow> u32 \<Rightarrow> int \<Rightarrow> int \<Rightarrow> fs \<Rightarrow> (int \<times> fs) option" where
  "rw_chunk rip position off chunk left flag buff seg usr s =
     do {
       (r, s1) \<leftarrow> chunk_block rip position off chunk left flag s;
       case r of
         Inl e \<Rightarrow> Some (e, s1)
       | Inr bp \<Rightarrow>
           let special = (i_mode (inodes s1 rip) AND I_TYPE = I_BLOCK_SPECIAL);
               s2 = (if flag = WRITING \<and> chunk \<noteq> 1024 \<and> \<not> special \<and> position \<ge> i_size (inodes s1 rip) \<and> off = 0 then zero_block bp s1 else s1);
               (r, s3) = (if flag = READING then copy_to_user usr seg buff (buf_bytes (b_data (bufs (cch s2) bp)) off chunk) s2
                          else let ((r, bs), s3) = copy_from_user usr seg buff chunk s2
                               in (r, fs_buf bp (\<lambda>b. b\<lparr>b_data := set_bytes (b_data b) off bs, b_dirt := True\<rparr>) s3))
           in Some (r, fs_put (Some bp) (if off + chunk = 1024 then FULL_DATA_BLOCK else PARTIAL_DATA_BLOCK) s3)
     }"

subsection \<open>The calls\<close>

text \<open>The progress of a transfer.\<close>

record xfer =
  x_buffer :: u32
  x_nbytes :: int
  x_position :: u32
  x_cum :: int
  x_partial :: int
  x_result :: int

partial_function (option) rw_loop_file :: "nat \<Rightarrow> rw \<Rightarrow> u32 \<Rightarrow> bool \<Rightarrow> int \<Rightarrow> int \<Rightarrow> xfer \<Rightarrow> fs \<Rightarrow> (xfer \<times> fs) option" where
  "rw_loop_file rip flag f_size partial_pipe seg usr x s =
     (if x_nbytes x = 0 then Some (x, s)
      else let off = unat (x_position x) mod 1024;
               chunk0 = min (if partial_pipe then x_partial x else x_nbytes x) (1024 - int off)
           in if flag = READING \<and> x_position x \<ge> f_size then Some (x, s)
              else do {
                let chunk = (if flag = READING \<and> chunk0 > uint (f_size - x_position x) then uint (f_size - x_position x) else chunk0);
                (r, s1) \<leftarrow> rw_chunk rip (x_position x) off (nat chunk) (word_of_int (x_nbytes x)) flag (x_buffer x) seg usr s;
                if r \<noteq> OK \<or> rdwt_err (cch s1) < 0 then Some (x\<lparr>x_result := r\<rparr>, s1)
                else let y = \<lparr>x_buffer = x_buffer x + word_of_int chunk, x_nbytes = x_nbytes x - chunk,
                              x_position = x_position x + word_of_int chunk, x_cum = x_cum x + chunk,
                              x_partial = (if partial_pipe then x_partial x - chunk else x_partial x), x_result = r\<rparr>
                     in if partial_pipe \<and> x_partial y \<le> 0 then Some (y, s1)
                        else rw_loop_file rip flag f_size partial_pipe seg usr y s1
              })"

text \<open>The transfer of a file, block special file or pipe; \<open>Inl\<close> where the code returns at once.\<close>

definition rw_file :: "nat \<Rightarrow> rw \<Rightarrow> u32 \<Rightarrow> u32 \<Rightarrow> bool \<Rightarrow> int \<Rightarrow> int \<Rightarrow> int \<Rightarrow> xfer \<Rightarrow> fs \<Rightarrow> ((int + bool \<times> xfer) \<times> fs) option" where
  "rw_file rip flag f_size oflags special fd seg usr x s =
     do {
       (r, s1) \<leftarrow>
         (if flag = WRITING \<and> \<not> special
          then do {
            spi \<leftarrow> i_sp (inodes s rip);
            if x_position x > s_max_size (supers s spi) - word_of_int (x_nbytes x) then Some (Inl EFBIG, s)
            else let pos = (if oflags AND O_APPEND \<noteq> 0 then f_size else x_position x)
                 in map_option (Pair (Inr pos)) (if pos > f_size then clear_zone rip f_size False s else Some s)
          }
          else Some (Inr (x_position x), s));
       case r of
         Inl e \<Rightarrow> Some (Inl e, s1)
       | Inr pos \<Rightarrow>
           do {
             ((r, room), s2) \<leftarrow>
               (if i_pipe (inodes s1 rip) then pipe_check rip flag oflags (x_nbytes x) pos fd (x_buffer x) (x_nbytes x) s1 else Some ((1, 0), s1));
             if r \<le> 0 then Some (Inl r, s2)
             else map_option (\<lambda>(y, s3). (Inr (room > 0, y), s3))
                    (rw_loop_file rip flag f_size (room > 0) seg usr (x\<lparr>x_position := pos, x_partial := room\<rparr>) s2)
           }
     }"

definition set_err :: "int \<Rightarrow> fs \<Rightarrow> fs" where
  "set_err e s = s\<lparr>cch := (cch s)\<lparr>rdwt_err := e\<rparr>\<rparr>"

text \<open>After the transfer: size, positions, read ahead, times, the count returned.\<close>

definition rw_finish :: "nat \<Rightarrow> nat \<Rightarrow> rw \<Rightarrow> u32 \<Rightarrow> u32 \<Rightarrow> bool \<Rightarrow> int \<Rightarrow> xfer \<Rightarrow> fs \<Rightarrow> int \<times> fs" where
  "rw_finish f rip flag f_size oflags partial_pipe fd x s =
     (let ty = i_mode (inodes s rip) AND I_TYPE;
          regular = (ty = I_REGULAR \<or> ty = I_NAMED_PIPE);
          empty = (flag = READING \<and> i_pipe (inodes s rip) \<and> x_position x \<ge> i_size (inodes s rip));
          position = (if empty then 0 else x_position x);
          s1 = (if flag = WRITING \<and> (regular \<or> ty = I_DIRECTORY) \<and> x_position x > f_size
                then upd_inode rip (\<lambda>p. p\<lparr>i_size := x_position x\<rparr>) s
                else if empty
                then (let s' = upd_inode rip (\<lambda>p. p\<lparr>i_size := 0\<rparr>) s
                      in case find_filp rip W_BIT s' of None \<Rightarrow> s' | Some g \<Rightarrow> upd_filp g (\<lambda>x. x\<lparr>filp_pos := 0\<rparr>) s')
                else s);
          s2 = upd_filp f (\<lambda>x. x\<lparr>filp_pos := position\<rparr>) s1;
          s3 = (if flag = READING \<and> \<not> i_seek (inodes s2 rip) \<and> position mod 1024 = 0 \<and> (regular \<or> ty = I_DIRECTORY)
                then s2\<lparr>rdahed_inode := Some rip, rdahedpos := position\<rparr> else s2);
          s4 = upd_inode rip (\<lambda>p. p\<lparr>i_seek := False\<rparr>) s3;
          e = rdwt_err (cch s4);
          r = (if e = END_OF_FILE then OK else if e \<noteq> OK then e else x_result x)
      in if r \<noteq> OK then (r, s4)
         else let s5 = upd_inode rip (\<lambda>p. p\<lparr>i_update := i_update p OR (if flag = READING then ATIME else CTIME OR MTIME), i_dirt := True\<rparr>) s4
              in if partial_pipe \<and> oflags AND O_NONBLOCK = 0
                 then (SUSPEND, suspend XPIPE fd (x_buffer x) (x_nbytes x) (upd_fproc (cfp s5) (\<lambda>p. p\<lparr>fp_cum_io_partial := x_cum x\<rparr>) s5))
                 else (x_cum x, upd_fproc (cfp s5) (\<lambda>p. p\<lparr>fp_cum_io_partial := 0\<rparr>) s5))"

text \<open>MM loads segments with the process and the segment in the upper bits of the descriptor.\<close>

definition rw_target :: "int \<Rightarrow> fs \<Rightarrow> int \<times> int \<times> int" where
  "rw_target fd s = (if who s = MM_PROC_NR \<and> fd div 256 \<noteq> 0 then (fd mod 32, fd div 32 mod 4, fd div 128) else (fd, SEG_D, who s))"

definition read_write :: "rw \<Rightarrow> int \<Rightarrow> u32 \<Rightarrow> int \<Rightarrow> fs \<Rightarrow> (int \<times> fs) option" where
  "read_write flag fd0 buffer nbytes s0 =
     (let (fd, seg, usr) = rw_target fd0 s0
      in if nbytes < 0 then Some (EINVAL, s0)
         else case get_filp fd s0 of
           (None, s) \<Rightarrow> Some (err_code s, s)
         | (Some f, s) \<Rightarrow>
             if filp_mode (filps s f) AND (if flag = READING then R_BIT else W_BIT) = 0
             then Some (if filp_mode (filps s f) = 0 then EIO else EBADF, s)
             else if nbytes = 0 then Some (0, s)
             else do {
               rip \<leftarrow> filp_ino (filps s f);
               let p = inodes s rip;
               let ty = i_mode p AND I_TYPE;
               let oflags = filp_flags (filps s f);
               let f_size = (if ty = I_BLOCK_SPECIAL then 0x7FFFFFFF else i_size p);
               let x = \<lparr>x_buffer = buffer, x_nbytes = nbytes, x_position = filp_pos (filps s f),
                        x_cum = (if i_pipe p then fp_cum_io_partial (fprocs s (cfp s)) else 0), x_partial = 0, x_result = OK\<rparr>;
               let s1 = set_err OK s;
               if ty = I_CHAR_SPECIAL
               then do {
                 (r, s2) \<leftarrow> dev_rw (if flag = READING then DEV_READ else DEV_WRITE) (zone_dev (i_zone p 0)) usr buffer (x_position x) nbytes oflags
                             fd buffer nbytes s1;
                 let y = (if r \<ge> 0 then x\<lparr>x_cum := r, x_position := x_position x + word_of_int r, x_result := OK\<rparr> else x\<lparr>x_result := r\<rparr>);
                 Some (rw_finish f rip flag f_size oflags False fd y s2)
               }
               else do {
                 (r, s2) \<leftarrow> rw_file rip flag f_size oflags (ty = I_BLOCK_SPECIAL) fd seg usr x s1;
                 Some (case r of Inl e \<Rightarrow> (e, s2) | Inr (partial_pipe, y) \<Rightarrow> rw_finish f rip flag f_size oflags partial_pipe fd y s2)
               }
             })"

end
