(* ===== verification/FS_Open.thy ===== *)
theory FS_Open
  imports FS_File FS_Read
begin

text \<open>
  Opening and creating (\<^verbatim>\<open>fs/open.c\<close>), links (\<^verbatim>\<open>fs/link.c\<close>).  Names in
  messages and their addresses are arguments; see \<open>fetch_name\<close>.
\<close>

text \<open>A name argument: its address, its length, and the string in the message if the format has one.\<close>

type_synonym name_arg = "u32 \<times> int \<times> u8 list option"

definition fetch :: "name_arg \<Rightarrow> fs \<Rightarrow> int \<times> fs" where
  "fetch n s = (case n of (path, len, inmsg) \<Rightarrow> fetch_name path len inmsg s)"

subsection \<open>New nodes\<close>

text \<open>\<^verbatim>\<open>new_node()\<close> always leaves a result in \<^verbatim>\<open>err_code\<close>.\<close>

definition new_node :: "u16 \<Rightarrow> u32 \<Rightarrow> fs \<Rightarrow> (nat option \<times> fs) option" where
  "new_node bits z0 s =
     do {
       (l, s1) \<leftarrow> last_dir s;
       case l of
         None \<Rightarrow> Some (None, s1)
       | Some (dir, w) \<Rightarrow>
           do {
             (ip, s2) \<leftarrow> advance (Some dir) (Comp False w) s1;
             if ip = None \<and> err_code s2 = ENOENT
             then do {
               (np, s3) \<leftarrow> alloc_inode (i_dev (inodes s2 dir)) bits s2;
               case np of
                 None \<Rightarrow> map_option (Pair None) (put_inode (Some dir) s3)
               | Some rip \<Rightarrow>
                   do {
                     let s4 = upd_inode rip (\<lambda>p. p\<lparr>i_nlinks := i_nlinks p + 1, i_zone := (i_zone p)(0 := z0)\<rparr>) s3;
                     s5 \<leftarrow> rw_inode rip WRITING s4;
                     (r, _, s6) \<leftarrow> search_dir dir (Comp False w) (i_num (inodes s5 rip)) ENTER s5;
                     s7 \<leftarrow> put_inode (Some dir) s6;
                     if r \<noteq> OK
                     then do {
                       s8 \<leftarrow> put_inode (Some rip) (upd_inode rip (\<lambda>p. p\<lparr>i_nlinks := i_nlinks p - 1, i_dirt := True\<rparr>) s7);
                       Some (None, s8\<lparr>err_code := r\<rparr>)
                     }
                     else Some (Some rip, s7\<lparr>err_code := r\<rparr>)
                   }
             }
             else do {
               let r = (if ip \<noteq> None then EEXIST else err_code s2);
               s3 \<leftarrow> put_inode (Some dir) s2;
               Some (ip, s3\<lparr>err_code := r\<rparr>)
             }
           }
     }"

subsection \<open>Opening\<close>

definition pipe_open :: "nat \<Rightarrow> u16 \<Rightarrow> u32 \<Rightarrow> int \<Rightarrow> u32 \<Rightarrow> int \<Rightarrow> fs \<Rightarrow> (int \<times> fs) option" where
  "pipe_open rip bits oflags fd buf nb s0 =
     (let s = upd_inode rip (\<lambda>p. p\<lparr>i_pipe := True\<rparr>) s0
      in if find_filp rip (if bits AND W_BIT \<noteq> 0 then R_BIT else W_BIT) s = None
         then (if oflags AND O_NONBLOCK \<noteq> 0 then Some (if bits AND W_BIT \<noteq> 0 then ENXIO else OK, s)
               else Some (SUSPEND, suspend XPOPEN fd buf nb s))
         else if susp_count s > 0
         then do { s1 \<leftarrow> release rip 5 (susp_count s) s; s2 \<leftarrow> release rip 8 (susp_count s1) s1; Some (OK, s2) }
         else Some (OK, s))"

text \<open>A named pipe shares the slot of another reader or writer.\<close>

definition open_fifo :: "nat \<Rightarrow> nat \<Rightarrow> nat \<Rightarrow> u16 \<Rightarrow> u32 \<Rightarrow> u32 \<Rightarrow> int \<Rightarrow> fs \<Rightarrow> (int \<times> nat \<times> fs) option" where
  "open_fifo k f rip bits oflags0 buf nb s0 =
     (let oflags = oflags0 OR O_APPEND; s = upd_filp f (\<lambda>x. x\<lparr>filp_flags := oflags\<rparr>) s0
      in do {
        (r, s1) \<leftarrow> pipe_open rip bits oflags (int k) buf nb s;
        if r = ENXIO then Some (r, f, s1)
        else let b = (if bits AND R_BIT \<noteq> 0 then R_BIT else W_BIT);
                 s2 = upd_filp f (\<lambda>x. x\<lparr>filp_count := 0\<rparr>) s1
             in case find_filp rip b s2 of
                  Some g \<Rightarrow>
                    let s3 = upd_fproc (cfp s2) (\<lambda>p. p\<lparr>fp_filp := (fp_filp p)(k := Some g)\<rparr>) s2;
                        s4 = upd_filp g (\<lambda>x. x\<lparr>filp_count := filp_count x + 1, filp_ino := Some rip, filp_flags := oflags\<rparr>) s3
                    in Some (r, f, upd_inode rip (\<lambda>p. p\<lparr>i_count := i_count p - 1\<rparr>) s4)
                | None \<Rightarrow>
                    Some (r, f, upd_filp f (\<lambda>x. x\<lparr>filp_count := 1,
                      filp_pos := i_zone (inodes s2 rip) (if b = R_BIT then 7 else 8)\<rparr>) s2)
      })"

text \<open>Opening a file that exists, after the check of the permissions.\<close>

definition open_kind :: "nat \<Rightarrow> nat \<Rightarrow> nat \<Rightarrow> u16 \<Rightarrow> u32 \<Rightarrow> u32 \<Rightarrow> int \<Rightarrow> fs \<Rightarrow> (int \<times> fs) option" where
  "open_kind k f rip bits oflags buf nb s =
     (let ty = i_mode (inodes s rip) AND I_TYPE
      in if ty = I_REGULAR
         then (if oflags AND O_TRUNC = 0 then Some (OK, s)
               else do {
                 (r, s1) \<leftarrow> forbidden rip W_BIT s;
                 if r \<noteq> OK then Some (r, s1)
                 else do { s2 \<leftarrow> FS_Inode.truncate rip s1; map_option (Pair r) (rw_inode rip WRITING (wipe_inode rip s2)) }
               })
         else if ty = I_DIRECTORY then Some (if bits AND W_BIT \<noteq> 0 then EISDIR else OK, s)
         else if ty = I_CHAR_SPECIAL \<or> ty = I_BLOCK_SPECIAL
         then dev_open (zone_dev (i_zone (inodes s rip) 0)) (who s) (ucast bits OR (oflags AND NOT O_ACCMODE)) (int k) s
         else if ty = I_NAMED_PIPE then map_option (\<lambda>(r, _, s1). (r, s1)) (open_fifo k f rip bits oflags buf nb s)
         else Some (OK, s))"

definition mode_map :: "u32 \<Rightarrow> u16" where
  "mode_map acc = (if acc = 0 then R_BIT else if acc = 1 then W_BIT else if acc = 2 then R_BIT OR W_BIT else 0)"

definition open_inode :: "u32 \<Rightarrow> u16 \<Rightarrow> fs \<Rightarrow> ((int + nat \<times> bool \<times> int) \<times> fs) option" where
  "open_inode oflags omode s =
     (if oflags AND O_CREAT \<noteq> 0
      then do {
        (ip, s1) \<leftarrow> new_node (I_REGULAR OR (omode AND ALL_MODES AND fp_umask (fprocs s (cfp s)))) NO_ZONE s;
        let r = err_code s1;
        if r \<noteq> OK \<and> r \<noteq> EEXIST then Some (Inl r, s1)
        else do { rip \<leftarrow> ip; Some (Inr (rip, r \<noteq> OK \<and> oflags AND O_EXCL = 0, r), s1) }
      }
      else do {
        (ip, s1) \<leftarrow> eat_path s;
        Some (case ip of None \<Rightarrow> Inl (err_code s1) | Some rip \<Rightarrow> Inr (rip, True, OK), s1)
      })"

definition common_open :: "u32 \<Rightarrow> u16 \<Rightarrow> u32 \<Rightarrow> int \<Rightarrow> fs \<Rightarrow> (int \<times> fs) option" where
  "common_open oflags omode buf nb s =
     (let bits = mode_map (oflags AND O_ACCMODE)
      in case get_fd 0 bits s of
           (Inl e, s1) \<Rightarrow> Some (e, s1)
         | (Inr (k, f), s1) \<Rightarrow>
             do {
               (r, s2) \<leftarrow> open_inode oflags omode s1;
               case r of
                 Inl e \<Rightarrow> Some (e, s2)
               | Inr (rip, exist, r0) \<Rightarrow>
                   do {
                     let s3 = upd_filp f (\<lambda>x. x\<lparr>filp_ino := Some rip, filp_flags := oflags\<rparr>) (claim_fd k f s2);
                     (r1, s4) \<leftarrow>
                       (if exist
                        then do { (r1, s4) \<leftarrow> forbidden rip bits s3; if r1 = OK then open_kind k f rip bits oflags buf nb s4 else Some (r1, s4) }
                        else Some (r0, s3));
                     if r1 = OK then Some (int k, s4)
                     else if r1 = SUSPEND then Some (r1, s4)
                     else map_option (Pair r1) (put_inode (Some rip) (unclaim_fd k f s4))
                   }
             })"

definition do_creat :: "name_arg \<Rightarrow> u16 \<Rightarrow> u32 \<Rightarrow> int \<Rightarrow> fs \<Rightarrow> (int \<times> fs) option" where
  "do_creat n omode buf nb s =
     (let (r, s1) = fetch n s
      in if r \<noteq> OK then Some (err_code s1, s1) else common_open (1 OR O_CREAT OR O_TRUNC) omode buf nb s1)"

definition do_open :: "name_arg \<Rightarrow> name_arg \<Rightarrow> u32 \<Rightarrow> u16 \<Rightarrow> u32 \<Rightarrow> int \<Rightarrow> fs \<Rightarrow> (int \<times> fs) option" where
  "do_open n c_n oflags c_mode buf nb s =
     (let creating = (oflags AND O_CREAT \<noteq> 0); (r, s1) = fetch (if creating then c_n else n) s
      in if r \<noteq> OK then Some (err_code s1, s1) else common_open oflags (if creating then c_mode else 0) buf nb s1)"

definition do_mknod :: "name_arg \<Rightarrow> u16 \<Rightarrow> u32 \<Rightarrow> fs \<Rightarrow> (int \<times> fs) option" where
  "do_mknod n mode_bits z0 s =
     (if \<not> super_user s \<and> mode_bits AND I_TYPE \<noteq> I_NAMED_PIPE then Some (EPERM, s)
      else let (r, s1) = fetch n s
           in if r \<noteq> OK then Some (err_code s1, s1)
              else do {
                (ip, s2) \<leftarrow> new_node ((mode_bits AND I_TYPE) OR (mode_bits AND ALL_MODES AND fp_umask (fprocs s1 (cfp s1)))) z0 s1;
                s3 \<leftarrow> put_inode ip s2;
                Some (err_code s3, s3)
              })"

definition link_max :: "nat \<Rightarrow> fs \<Rightarrow> int option" where
  "link_max rip s = map_option (\<lambda>spi. if s_version (supers s spi) = 1 then 127 else 32767) (i_sp (inodes s rip))"

definition do_mkdir :: "name_arg \<Rightarrow> u16 \<Rightarrow> fs \<Rightarrow> (int \<times> fs) option" where
  "do_mkdir n mode s =
     (let (r, s1) = fetch n s
      in if r \<noteq> OK then Some (err_code s1, s1)
         else do {
           (l, s2) \<leftarrow> last_dir s1;
           case l of
             None \<Rightarrow> Some (err_code s2, s2)
           | Some (ldirp, w) \<Rightarrow>
               do {
                 lm \<leftarrow> link_max ldirp s2;
                 if sint (i_nlinks (inodes s2 ldirp)) \<ge> lm then map_option (Pair EMLINK) (put_inode (Some ldirp) s2)
                 else do {
                   let bits = I_DIRECTORY OR (mode AND RWX_MODES AND fp_umask (fprocs s2 (cfp s2)));
                   (ip, s3) \<leftarrow> new_node bits 0 s2;
                   if ip = None \<or> err_code s3 = EEXIST
                   then do { s4 \<leftarrow> put_inode ip s3; s5 \<leftarrow> put_inode (Some ldirp) s4; Some (err_code s5, s5) }
                   else do {
                     rip \<leftarrow> ip;
                     let dotdot = i_num (inodes s3 ldirp);
                     let dot = i_num (inodes s3 rip);
                     let s4 = upd_inode rip (\<lambda>p. p\<lparr>i_mode := bits\<rparr>) s3;
                     (r1, _, s5) \<leftarrow> search_dir rip dot1 dot ENTER s4;
                     (r2, _, s6) \<leftarrow> search_dir rip dot2 dotdot ENTER s5;
                     s7 \<leftarrow>
                       (if r1 = OK \<and> r2 = OK
                        then Some (upd_inode ldirp (\<lambda>p. p\<lparr>i_nlinks := i_nlinks p + 1, i_dirt := True\<rparr>)
                               (upd_inode rip (\<lambda>p. p\<lparr>i_nlinks := i_nlinks p + 1\<rparr>) s6))
                        else do {
                          (_, _, s7) \<leftarrow> search_dir ldirp (Comp False w) 0 DELETE s6;
                          Some (upd_inode rip (\<lambda>p. p\<lparr>i_nlinks := i_nlinks p - 1\<rparr>) s7)
                        });
                     s8 \<leftarrow> put_inode (Some ldirp) (upd_inode rip (\<lambda>p. p\<lparr>i_dirt := True\<rparr>) s7);
                     s9 \<leftarrow> put_inode (Some rip) s8;
                     Some (err_code s9, s9)
                   }
                 }
               }
         })"

subsection \<open>Links\<close>

definition do_link :: "name_arg \<Rightarrow> name_arg \<Rightarrow> fs \<Rightarrow> (int \<times> fs) option" where
  "do_link n1 n2 s =
     (let (r, s1) = fetch n1 s
      in if r \<noteq> OK then Some (err_code s1, s1)
         else do {
           (ip1, s2) \<leftarrow> eat_path s1;
           case ip1 of
             None \<Rightarrow> Some (err_code s2, s2)
           | Some rip \<Rightarrow>
               do {
                 lm \<leftarrow> link_max rip s2;
                 let r = (if sint (i_nlinks (inodes s2 rip)) \<ge> lm then EMLINK
                          else if i_mode (inodes s2 rip) AND I_TYPE = I_DIRECTORY \<and> \<not> super_user s2 then EPERM else OK);
                 if r \<noteq> OK then map_option (Pair r) (put_inode (Some rip) s2)
                 else do {
                   let (r, s3) = fetch n2 s2;
                   if r \<noteq> OK then do { s4 \<leftarrow> put_inode (Some rip) s3; Some (err_code s4, s4) }
                   else do {
                     (l, s4) \<leftarrow> last_dir s3;
                     (r, s5) \<leftarrow>
                       (case l of
                          None \<Rightarrow> Some (err_code s4, s4)
                        | Some (ip, w) \<Rightarrow>
                            do {
                              (new_ip, s5) \<leftarrow> advance (Some ip) (Comp False w) s4;
                              (r, s6) \<leftarrow> (if new_ip = None then Some (if err_code s5 = ENOENT then OK else err_code s5, s5)
                                         else map_option (Pair EEXIST) (put_inode new_ip s5));
                              if r \<noteq> OK then Some (r, s6)
                              else if i_dev (inodes s6 rip) \<noteq> i_dev (inodes s6 ip) then Some (EXDEV, s6)
                              else map_option (\<lambda>(r, _, s7). (r, s7)) (search_dir ip (Comp False w) (i_num (inodes s6 rip)) ENTER s6)
                            });
                     let s6 = (if r = OK then upd_inode rip (\<lambda>p. p\<lparr>i_nlinks := i_nlinks p + 1, i_update := i_update p OR CTIME, i_dirt := True\<rparr>) s5 else s5);
                     s7 \<leftarrow> put_inode (Some rip) s6;
                     s8 \<leftarrow> put_inode (map_option fst l) s7;
                     Some (r, s8)
                   }
                 }
               }
         })"

definition unlink_file :: "nat \<Rightarrow> nat option \<Rightarrow> comp \<Rightarrow> fs \<Rightarrow> (int \<times> fs) option" where
  "unlink_file dirp ip c s =
     do {
       (ip1, s1) \<leftarrow>
         (case ip of
            Some rip \<Rightarrow> Some (Some rip, dup_inode rip s)
          | None \<Rightarrow>
              do {
                (e, numb, s1) \<leftarrow> search_dir dirp c 0 LOOK_UP s;
                let s2 = s1\<lparr>err_code := e\<rparr>;
                if e = OK then get_inode (i_dev (inodes s2 dirp)) (uint numb) s2 else Some (None, s2)
              });
       case ip1 of
         None \<Rightarrow> Some (err_code s1, s1)
       | Some rip \<Rightarrow>
           do {
             (r, _, s2) \<leftarrow> search_dir dirp c 0 DELETE s1;
             let s3 = (if r = OK then upd_inode rip (\<lambda>p. p\<lparr>i_nlinks := i_nlinks p - 1, i_update := i_update p OR CTIME, i_dirt := True\<rparr>) s2 else s2);
             s4 \<leftarrow> put_inode (Some rip) s3;
             Some (r, s4)
           }
     }"

definition remove_dir :: "nat \<Rightarrow> nat \<Rightarrow> u8 list \<Rightarrow> fs \<Rightarrow> (int \<times> fs) option" where
  "remove_dir rldirp rip w s =
     do {
       (r, _, s1) \<leftarrow> search_dir rip (Comp False []) 0 IS_EMPTY s;
       if r \<noteq> OK then Some (r, s1)
       else if w = [DOT] \<or> w = [DOT, DOT] then Some (EINVAL, s1)
       else if i_num (inodes s1 rip) = 1 then Some (EBUSY, s1)
       else if list_ex (\<lambda>p. fp_workdir (fprocs s1 p) = Some rip \<or> fp_rootdir (fprocs s1 p) = Some rip) [nat INIT_PROC_NR + 1..<NR_FPROCS]
       then Some (EBUSY, s1)
       else do {
         (r, s2) \<leftarrow> unlink_file rldirp (Some rip) (Comp False w) s1;
         if r \<noteq> OK then Some (r, s2)
         else do { (_, s3) \<leftarrow> unlink_file rip None dot1 s2; (_, s4) \<leftarrow> unlink_file rip None dot2 s3; Some (OK, s4) }
       }
     }"

abbreviation (input) CALL_UNLINK :: int where "CALL_UNLINK \<equiv> 10"

definition do_unlink :: "name_arg \<Rightarrow> fs \<Rightarrow> (int \<times> fs) option" where
  "do_unlink n s =
     (let (r, s1) = fetch n s
      in if r \<noteq> OK then Some (err_code s1, s1)
         else do {
           (l, s2) \<leftarrow> last_dir s1;
           case l of
             None \<Rightarrow> Some (err_code s2, s2)
           | Some (dir, w) \<Rightarrow>
               do {
                 (ip, s3) \<leftarrow> advance (Some dir) (Comp False w) s2;
                 case ip of
                   None \<Rightarrow> if err_code s3 \<noteq> OK then map_option (Pair (err_code s3)) (put_inode (Some dir) s3) else None
                 | Some rip \<Rightarrow>
                     if i_num (inodes s3 rip) = 1
                     then do { s4 \<leftarrow> put_inode (Some dir) s3; map_option (Pair EBUSY) (put_inode (Some rip) s4) }
                     else do {
                       (r, s4) \<leftarrow>
                         (if fs_call s3 = CALL_UNLINK
                          then (if i_mode (inodes s3 rip) AND I_TYPE = I_DIRECTORY \<and> \<not> super_user s3 then Some (EPERM, s3)
                                else unlink_file dir (Some rip) (Comp False w) s3)
                          else remove_dir dir rip w s3);
                       s5 \<leftarrow> put_inode (Some rip) s4;
                       s6 \<leftarrow> put_inode (Some dir) s5;
                       Some (r, s6)
                     }
               }
         })"

end
