(* ===== verification/FS_Dirs.thy ===== *)
theory FS_Dirs
  imports FS_Open
begin

text \<open>
  Renaming (\<^verbatim>\<open>fs/link.c\<close>), directories and status (\<^verbatim>\<open>fs/stadir.c\<close>), modes and owners
  (\<^verbatim>\<open>fs/protect.c\<close>), times (\<^verbatim>\<open>fs/time.c\<close>), mounting (\<^verbatim>\<open>fs/mount.c\<close>) and the
  end of the system (\<^verbatim>\<open>do_reboot()\<close> of \<^verbatim>\<open>fs/misc.c\<close>).
\<close>

subsection \<open>Renaming\<close>

abbreviation (input) SAME :: int where "SAME \<equiv> 1000"

text \<open>
  The walk up from the new directory; it may not end in a damaged file system.  The result is whether the
  old inode was met, and the inode that is still held.
\<close>

partial_function (option) climb :: "nat \<Rightarrow> nat \<Rightarrow> fs \<Rightarrow> ((int \<times> nat option) \<times> fs) option" where
  "climb old_ip d s =
     (if d = old_ip then Some ((EINVAL, Some d), s)
      else do {
        (nx, s1) \<leftarrow> advance (Some d) dot2 s;
        s2 \<leftarrow> put_inode (Some d) s1;
        if nx = Some d then Some ((OK, Some d), s2)
        else case nx of None \<Rightarrow> Some ((EINVAL, None), s2) | Some e \<Rightarrow> climb old_ip e s2
      })"

definition is_dots :: "u8 list \<Rightarrow> bool" where
  "is_dots w \<longleftrightarrow> w = [DOT] \<or> w = [DOT, DOT]"

definition is_dir :: "nat \<Rightarrow> fs \<Rightarrow> bool" where
  "is_dir i s \<longleftrightarrow> i_mode (inodes s i) AND I_TYPE = I_DIRECTORY"

text \<open>The tests before anything is changed; later tests overwrite the result of earlier ones.\<close>

definition rename_tests :: "nat \<Rightarrow> nat \<Rightarrow> u8 list \<Rightarrow> nat \<Rightarrow> nat option \<Rightarrow> u8 list \<Rightarrow> fs \<Rightarrow> (int \<times> fs) option" where
  "rename_tests old_dirp old_ip old_name new_dirp new_ip new_name s =
     do {
       let odir = is_dir old_ip s;
       let same = (old_dirp = new_dirp);
       (r0, s1) \<leftarrow>
         (if odir \<and> \<not> same
          then do {
            ((r, held), s1) \<leftarrow> climb old_ip new_dirp (dup_inode new_dirp s);
            map_option (Pair r) (put_inode held s1)
          }
          else Some (OK, s));
       let r1 = (if is_dots old_name \<or> is_dots new_name then EINVAL else r0);
       let r2 = (if i_dev (inodes s1 old_dirp) \<noteq> i_dev (inodes s1 new_dirp) then EXDEV else r1);
       (f1, s2) \<leftarrow> forbidden old_dirp (W_BIT OR X_BIT) s1;
       (f2, s3) \<leftarrow> (if f1 \<noteq> OK then Some (f1, s2) else forbidden new_dirp (W_BIT OR X_BIT) s2);
       let r3 = (if f2 \<noteq> OK then f2 else r2);
       r4 \<leftarrow>
         (case new_ip of
            None \<Rightarrow>
              (let r = (if i_dev (inodes s3 old_ip) \<noteq> i_dev (inodes s3 old_dirp) then EXDEV else r3)
               in if odir
                  then map_option (\<lambda>lm. if sint (i_nlinks (inodes s3 new_dirp)) \<ge> lm \<and> \<not> same \<and> r = OK then EMLINK else r) (link_max new_dirp s3)
                  else Some r)
          | Some n \<Rightarrow>
              let ra = (if old_ip = n then SAME else r3);
                  rb = (if i_dev (inodes s3 old_ip) \<noteq> i_dev (inodes s3 n) then EXDEV else ra);
                  ndir = is_dir n s3
              in Some (if odir \<and> \<not> ndir then ENOTDIR else if \<not> odir \<and> ndir then EISDIR else rb));
       Some (r4, s3)
     }"

text \<open>The change of the directories.\<close>

definition rename_enter :: "nat \<Rightarrow> nat \<Rightarrow> u8 list \<Rightarrow> nat \<Rightarrow> u8 list \<Rightarrow> fs \<Rightarrow> (int \<times> fs) option" where
  "rename_enter old_dirp old_ip old_name new_dirp new_name s =
     (let numb = i_num (inodes s old_ip)
      in if old_dirp = new_dirp
         then do {
           (r, _, s1) \<leftarrow> search_dir old_dirp (Comp False old_name) 0 DELETE s;
           if r = OK then map_option (\<lambda>(_, _, s2). (r, s2)) (search_dir old_dirp (Comp False new_name) numb ENTER s1) else Some (r, s1)
         }
         else do {
           (r, _, s1) \<leftarrow> search_dir new_dirp (Comp False new_name) numb ENTER s;
           if r = OK then map_option (\<lambda>(_, _, s2). (r, s2)) (search_dir old_dirp (Comp False old_name) 0 DELETE s1) else Some (r, s1)
         })"

text \<open>The entry \<^verbatim>\<open>..\<close> of a directory that has moved.\<close>

definition rename_dotdot :: "nat \<Rightarrow> nat \<Rightarrow> fs \<Rightarrow> fs option" where
  "rename_dotdot old_ip new_dirp s =
     (let numb = i_num (inodes s new_dirp)
      in do {
        (_, s1) \<leftarrow> unlink_file old_ip None dot2 s;
        (r, _, s2) \<leftarrow> search_dir old_ip dot2 numb ENTER s1;
        Some (if r = OK then upd_inode new_dirp (\<lambda>p. p\<lparr>i_nlinks := i_nlinks p + 1, i_dirt := True\<rparr>) s2 else s2)
      })"

definition rename_work :: "nat \<Rightarrow> nat \<Rightarrow> u8 list \<Rightarrow> nat \<Rightarrow> nat option \<Rightarrow> u8 list \<Rightarrow> fs \<Rightarrow> (int \<times> fs) option" where
  "rename_work old_dirp old_ip old_name new_dirp new_ip new_name s =
     do {
       let odir = is_dir old_ip s;
       (r, s1) \<leftarrow> rename_tests old_dirp old_ip old_name new_dirp new_ip new_name s;
       (r, s2) \<leftarrow>
         (if r \<noteq> OK then Some (r, s1)
          else case new_ip of
                 None \<Rightarrow> Some (OK, s1)
               | Some n \<Rightarrow> if odir then remove_dir new_dirp n new_name s1 else unlink_file new_dirp (Some n) (Comp False new_name) s1);
       (r, s3) \<leftarrow> (if r \<noteq> OK then Some (r, s2) else rename_enter old_dirp old_ip old_name new_dirp new_name s2);
       s4 \<leftarrow> (if r = OK \<and> odir \<and> old_dirp \<noteq> new_dirp then rename_dotdot old_ip new_dirp s3 else Some s3);
       Some (r, s4)
     }"

text \<open>
  \<^verbatim>\<open>do_rename()\<close>.  When the new directory cannot be opened the code still passes a null pointer to
  \<^verbatim>\<open>advance()\<close>, with a name that may not have been set (\<open>junk\<close>).
\<close>

definition do_rename :: "name_arg \<Rightarrow> name_arg \<Rightarrow> u8 list \<Rightarrow> fs \<Rightarrow> (int \<times> fs) option" where
  "do_rename n1 n2 junk s =
     (let (r, s1) = fetch n1 s
      in if r \<noteq> OK then Some (err_code s1, s1)
         else do {
           (l1, s2) \<leftarrow> last_dir s1;
           case l1 of
             None \<Rightarrow> Some (err_code s2, s2)
           | Some (old_dirp, old_name) \<Rightarrow>
               do {
                 (old_ip, s3) \<leftarrow> advance (Some old_dirp) (Comp False old_name) s2;
                 let ra = (if old_ip = None then err_code s3 else OK);
                 let (e, s4) = fetch n2 s3;
                 let rb = (if e \<noteq> OK then err_code s4 else ra);
                 (l2, s5) \<leftarrow> last_dir s4;
                 let rc = (if l2 = None then err_code s5 else rb);
                 (new_ip, s6) \<leftarrow> advance (map_option fst l2) (Comp False (case l2 of None \<Rightarrow> junk | Some (_, w) \<Rightarrow> w)) s5;
                 (r, s7) \<leftarrow>
                   (if rc \<noteq> OK then Some (rc, s6)
                    else case (old_ip, l2) of
                           (Some o1, Some (new_dirp, new_name)) \<Rightarrow> rename_work old_dirp o1 old_name new_dirp new_ip new_name s6
                         | _ \<Rightarrow> None);
                 s8 \<leftarrow> put_inode (Some old_dirp) s7;
                 s9 \<leftarrow> put_inode old_ip s8;
                 s10 \<leftarrow> put_inode (map_option fst l2) s9;
                 s11 \<leftarrow> put_inode new_ip s10;
                 Some (if r = SAME then OK else r, s11)
               }
         })"

subsection \<open>Working and root directory\<close>

text \<open>\<^verbatim>\<open>change()\<close>, for the working directory or the root.\<close>

definition change :: "bool \<Rightarrow> name_arg \<Rightarrow> fs \<Rightarrow> (int \<times> fs) option" where
  "change root n s =
     (let (r, s1) = fetch n s
      in if r \<noteq> OK then Some (err_code s1, s1)
         else do {
           (ip, s2) \<leftarrow> eat_path s1;
           case ip of
             None \<Rightarrow> Some (err_code s2, s2)
           | Some rip \<Rightarrow>
               do {
                 (r, s3) \<leftarrow> (if \<not> is_dir rip s2 then Some (ENOTDIR, s2) else forbidden rip X_BIT s2);
                 if r \<noteq> OK then map_option (Pair r) (put_inode (Some rip) s3)
                 else do {
                   let me = fprocs s3 (cfp s3);
                   s4 \<leftarrow> put_inode (if root then fp_rootdir me else fp_workdir me) s3;
                   Some (OK, upd_fproc (cfp s4) (\<lambda>p. if root then p\<lparr>fp_rootdir := Some rip\<rparr> else p\<lparr>fp_workdir := Some rip\<rparr>) s4)
                 }
               }
         })"

text \<open>\<^verbatim>\<open>do_chdir()\<close>; the memory manager takes over the directories and identity of a user.\<close>

definition do_chdir :: "int \<Rightarrow> name_arg \<Rightarrow> fs \<Rightarrow> (int \<times> fs) option" where
  "do_chdir slot1 n s =
     (if who s = MM_PROC_NR
      then (if \<not> proc_nr_ok slot1 then None
            else do {
              s1 \<leftarrow> put_inode (fp_rootdir (fprocs s (cfp s))) s;
              let r = nat slot1;
              rd \<leftarrow> fp_rootdir (fprocs s1 r);
              let s2 = dup_inode rd (upd_fproc (cfp s1) (\<lambda>p. p\<lparr>fp_rootdir := Some rd\<rparr>) s1);
              s3 \<leftarrow> put_inode (fp_workdir (fprocs s2 (cfp s2))) s2;
              wd \<leftarrow> fp_workdir (fprocs s3 r);
              let s4 = dup_inode wd (upd_fproc (cfp s3) (\<lambda>p. p\<lparr>fp_workdir := Some wd\<rparr>) s3);
              let u = fprocs s4 r;
              Some (OK, upd_fproc (cfp s4) (\<lambda>p. p\<lparr>fp_effuid := fp_effuid u, fp_realuid := fp_effuid u,
                fp_effgid := fp_effgid u, fp_realgid := fp_effgid u, fp_umask := fp_umask u\<rparr>) s4)
            })
      else change False n s)"

definition do_chroot :: "name_arg \<Rightarrow> fs \<Rightarrow> (int \<times> fs) option" where
  "do_chroot n s = (if \<not> super_user s then Some (EPERM, s) else change True n s)"

subsection \<open>Status\<close>

text \<open>The structure \<^verbatim>\<open>struct stat\<close> as bytes; two bytes of padding follow the first seven fields.\<close>

definition bytes16 :: "u16 \<Rightarrow> u8 list" where
  "bytes16 w = [ucast w, ucast (drop_bit 8 w)]"

definition bytes32 :: "u32 \<Rightarrow> u8 list" where
  "bytes32 w = bytes16 (ucast w) @ bytes16 (ucast (drop_bit 16 w))"

definition stat_bytes :: "inode \<Rightarrow> filp option \<Rightarrow> u16 \<Rightarrow> u8 list" where
  "stat_bytes p f pad =
     (let special = (i_mode p AND I_TYPE = I_CHAR_SPECIAL \<or> i_mode p AND I_TYPE = I_BLOCK_SPECIAL);
          mode = (if i_pipe p then i_mode p AND NOT I_REGULAR else i_mode p);
          size = (case f of Some x \<Rightarrow> if i_pipe p \<and> filp_mode x AND R_BIT \<noteq> 0 then i_size p - filp_pos x else i_size p | None \<Rightarrow> i_size p)
      in bytes16 (word_of_int (i_dev p)) @ bytes16 (i_num p) @ bytes16 mode @ bytes16 (i_nlinks p) @ bytes16 (i_uid p)
         @ bytes16 (scast (i_gid p)) @ bytes16 (if special then ucast (i_zone p 0) else 0) @ bytes16 pad
         @ bytes32 size @ bytes32 (i_atime p) @ bytes32 (i_mtime p) @ bytes32 (i_ctime p))"

definition stat_inode :: "nat \<Rightarrow> nat option \<Rightarrow> u32 \<Rightarrow> u16 \<Rightarrow> fs \<Rightarrow> (int \<times> fs) option" where
  "stat_inode rip f user_addr pad s =
     do {
       s1 \<leftarrow> (if i_update (inodes s rip) \<noteq> 0 then update_times rip s else Some s);
       Some (copy_to_user (who s1) SEG_D user_addr (stat_bytes (inodes s1 rip) (map_option (filps s1) f) pad) s1)
     }"

definition do_stat :: "name_arg \<Rightarrow> u32 \<Rightarrow> u16 \<Rightarrow> fs \<Rightarrow> (int \<times> fs) option" where
  "do_stat n addr pad s =
     (let (r, s1) = fetch n s
      in if r \<noteq> OK then Some (err_code s1, s1)
         else do {
           (ip, s2) \<leftarrow> eat_path s1;
           case ip of
             None \<Rightarrow> Some (err_code s2, s2)
           | Some rip \<Rightarrow> do { (r, s3) \<leftarrow> stat_inode rip None addr pad s2; map_option (Pair r) (put_inode (Some rip) s3) }
         })"

definition do_fstat :: "int \<Rightarrow> u32 \<Rightarrow> u16 \<Rightarrow> fs \<Rightarrow> (int \<times> fs) option" where
  "do_fstat fd addr pad s0 =
     (case get_filp fd s0 of
        (None, s) \<Rightarrow> Some (err_code s, s)
      | (Some f, s) \<Rightarrow> do { rip \<leftarrow> filp_ino (filps s f); stat_inode rip (Some f) addr pad s })"

subsection \<open>Modes and owners\<close>

text \<open>A call on the file of a name, which is released again.\<close>

definition on_file :: "name_arg \<Rightarrow> (nat \<Rightarrow> fs \<Rightarrow> (int \<times> fs) option) \<Rightarrow> fs \<Rightarrow> (int \<times> fs) option" where
  "on_file n f s =
     (let (r, s1) = fetch n s
      in if r \<noteq> OK then Some (err_code s1, s1)
         else do {
           (ip, s2) \<leftarrow> eat_path s1;
           case ip of
             None \<Rightarrow> Some (err_code s2, s2)
           | Some rip \<Rightarrow> do { (r, s3) \<leftarrow> f rip s2; map_option (Pair r) (put_inode (Some rip) s3) }
         })"

definition chmod_inode :: "u16 \<Rightarrow> nat \<Rightarrow> fs \<Rightarrow> (int \<times> fs) option" where
  "chmod_inode mode rip s =
     do {
       let p = inodes s rip;
       let me = fprocs s (cfp s);
       r \<leftarrow> (if i_uid p \<noteq> fp_effuid me \<and> \<not> super_user s then Some EPERM else read_only rip s);
       if r \<noteq> OK then Some (r, s)
       else let m = (i_mode p AND NOT ALL_MODES) OR (mode AND ALL_MODES);
                m' = (if \<not> super_user s \<and> i_gid p \<noteq> fp_effgid me then m AND NOT I_SET_GID_BIT else m)
            in Some (OK, upd_inode rip (\<lambda>p. p\<lparr>i_mode := m', i_update := i_update p OR CTIME, i_dirt := True\<rparr>) s)
     }"

definition do_chmod :: "name_arg \<Rightarrow> u16 \<Rightarrow> fs \<Rightarrow> (int \<times> fs) option" where
  "do_chmod n mode s = on_file n (chmod_inode mode) s"

text \<open>The owner and the group of the message are integers.\<close>

definition chown_inode :: "int \<Rightarrow> int \<Rightarrow> nat \<Rightarrow> fs \<Rightarrow> (int \<times> fs) option" where
  "chown_inode owner grp rip s =
     do {
       let p = inodes s rip;
       let me = fprocs s (cfp s);
       r0 \<leftarrow> read_only rip s;
       let r = (if r0 \<noteq> OK \<or> super_user s then r0
                else if i_uid p \<noteq> fp_effuid me \<or> sint (i_uid p) \<noteq> owner \<or> sint (fp_effgid me) \<noteq> grp then EPERM else OK);
       if r \<noteq> OK then Some (r, s)
       else Some (OK, upd_inode rip (\<lambda>p. p\<lparr>i_uid := (if super_user s then word_of_int owner else i_uid p), i_gid := word_of_int grp,
              i_mode := i_mode p AND NOT (I_SET_UID_BIT OR I_SET_GID_BIT), i_update := i_update p OR CTIME, i_dirt := True\<rparr>) s)
     }"

definition do_chown :: "name_arg \<Rightarrow> int \<Rightarrow> int \<Rightarrow> fs \<Rightarrow> (int \<times> fs) option" where
  "do_chown n owner grp s = on_file n (chown_inode owner grp) s"

definition do_access :: "name_arg \<Rightarrow> int \<Rightarrow> fs \<Rightarrow> (int \<times> fs) option" where
  "do_access n mode s =
     (if mode < 0 \<or> mode > 7 then Some (EINVAL, s) else on_file n (\<lambda>rip s. forbidden rip (word_of_int mode) s) s)"

subsection \<open>Times\<close>

text \<open>\<open>utime_length\<close> is 0 if the caller gave no times; the length of the name is then elsewhere in the message.\<close>

definition utime_inode :: "bool \<Rightarrow> u32 \<Rightarrow> u32 \<Rightarrow> nat \<Rightarrow> fs \<Rightarrow> (int \<times> fs) option" where
  "utime_inode now actime modtime rip s =
     do {
       let r = (if i_uid (inodes s rip) \<noteq> fp_effuid (fprocs s (cfp s)) \<and> \<not> super_user s then EPERM else OK);
       (r, s1) \<leftarrow> (if now \<and> r \<noteq> OK then forbidden rip W_BIT s else Some (r, s));
       ro \<leftarrow> read_only rip s1;
       if ro \<noteq> OK then Some (EROFS, s1)
       else if r \<noteq> OK then Some (r, s1)
       else let (t, s2) = (if now then clock_time s1 else (0, s1))
            in Some (OK, upd_inode rip (\<lambda>p. p\<lparr>i_atime := (if now then t else actime), i_mtime := (if now then t else modtime),
                 i_update := CTIME, i_dirt := True\<rparr>) s2)
     }"

definition do_utime :: "u32 \<Rightarrow> int \<Rightarrow> int \<Rightarrow> u32 \<Rightarrow> u32 \<Rightarrow> fs \<Rightarrow> (int \<times> fs) option" where
  "do_utime file utime_length m2_i2 actime modtime s =
     on_file (file, if utime_length = 0 then m2_i2 else utime_length, None) (utime_inode (utime_length = 0) actime modtime) s"

definition do_time :: "fs \<Rightarrow> int \<times> fs" where
  "do_time s = (let (t, s1) = clock_time s in (OK, s1\<lparr>reply_l1 := t\<rparr>))"

definition do_stime :: "u32 \<Rightarrow> fs \<Rightarrow> int \<times> fs" where
  "do_stime t s = (if \<not> super_user s then (EPERM, s) else (OK, snd (ask_fs (ReqSetTime t) s)))"

definition do_tims :: "fs \<Rightarrow> int \<times> fs" where
  "do_tims s = (let s1 = snd (ask_fs (ReqTimes (who s)) s) in (OK, s1\<lparr>reply_t := fs_data s1 (fs_hist s1)\<rparr>))"

subsection \<open>Mounting\<close>

text \<open>The device of a block special file; \<open>NO_DEV\<close> if the name does not denote one.\<close>

definition name_to_dev :: "fs \<Rightarrow> (int \<times> fs) option" where
  "name_to_dev s =
     do {
       (ip, s1) \<leftarrow> eat_path s;
       case ip of
         None \<Rightarrow> Some (NO_DEV, s1)
       | Some rip \<Rightarrow>
           if i_mode (inodes s1 rip) AND I_TYPE \<noteq> I_BLOCK_SPECIAL
           then map_option (Pair NO_DEV) (put_inode (Some rip) (s1\<lparr>err_code := ENOTBLK\<rparr>))
           else map_option (Pair (zone_dev (i_zone (inodes s1 rip) 0))) (put_inode (Some rip) s1)
     }"

text \<open>The inode to be mounted on and the root inode of the device; on an error both are released.\<close>

definition mount_inodes :: "int \<Rightarrow> nat \<Rightarrow> fs \<Rightarrow> ((int \<times> nat option) \<times> fs) option" where
  "mount_inodes dev rip s =
     do {
       let ty = i_mode (inodes s rip) AND I_TYPE;
       let r0 = (if ty = I_BLOCK_SPECIAL \<or> ty = I_CHAR_SPECIAL then ENOTDIR else if i_count (inodes s rip) > 1 then EBUSY else OK);
       (root_ip, s1) \<leftarrow> (if r0 = OK then get_inode dev ROOT_INODE s else Some (None, s));
       let r1 = (case root_ip of
                   None \<Rightarrow> if r0 = OK then err_code s1 else r0
                 | Some i \<Rightarrow> if i_mode (inodes s1 i) = 0 then EINVAL else r0);
       r \<leftarrow> (if r1 \<noteq> OK then Some r1
            else do { i \<leftarrow> root_ip; Some (if \<not> is_dir rip s1 \<and> is_dir i s1 then EISDIR else OK) });
       Some ((r, root_ip), s1)
     }"

definition do_mount :: "name_arg \<Rightarrow> name_arg \<Rightarrow> bool \<Rightarrow> fs \<Rightarrow> (int \<times> fs) option" where
  "do_mount n1 n2 rd_only s =
     (if \<not> super_user s then Some (EPERM, s)
      else let (r, s1) = fetch n1 s
      in if r \<noteq> OK then Some (err_code s1, s1)
      else do {
        (dev, s2) \<leftarrow> name_to_dev s1;
        if dev = NO_DEV then Some (err_code s2, s2)
        else if list_ex (\<lambda>i. s_dev (supers s2 i) = dev) [0..<NR_SUPERS] then Some (EBUSY, s2)
        else case find (\<lambda>i. s_dev (supers s2 i) = NO_DEV) (rev [0..<NR_SUPERS]) of
          None \<Rightarrow> Some (ENFILE, s2)
        | Some sp \<Rightarrow>
            do {
              (r, s3) \<leftarrow> dev_open dev (who s2) (if rd_only then 4 else 6) 0 s2;
              if r \<noteq> OK then Some (EINVAL, s3)
              else do {
                (r, s4) \<leftarrow> read_super sp (upd_super sp (\<lambda>x. x\<lparr>s_dev := dev\<rparr>) s3);
                if r \<noteq> OK then map_option (Pair r) (dev_close dev s4)
                else do {
                  let (r, s5) = fetch n2 s4;
                  (ip, s6) \<leftarrow> (if r \<noteq> OK then Some (None, s5) else eat_path s5);
                  case ip of
                    None \<Rightarrow> do { s7 \<leftarrow> dev_close dev (upd_super sp (\<lambda>x. x\<lparr>s_dev := NO_DEV\<rparr>) s6); Some (err_code s7, s7) }
                  | Some rip \<Rightarrow>
                      do {
                        ((r, root_ip), s7) \<leftarrow> mount_inodes dev rip s6;
                        if r \<noteq> OK
                        then do {
                          s8 \<leftarrow> put_inode (Some rip) s7;
                          s9 \<leftarrow> put_inode root_ip s8;
                          s10 \<leftarrow> do_sync s9;
                          map_option (Pair r) (dev_close dev (s10\<lparr>cch := invalidate dev (cch s10)\<rparr>))
                        }
                        else Some (OK, upd_super sp (\<lambda>x. x\<lparr>s_imount := Some rip, s_isup := root_ip, s_rd_only := rd_only\<rparr>)
                               (upd_inode rip (\<lambda>p. p\<lparr>i_mount := True\<rparr>) s7))
                      }
                }
              }
            }
      })"

definition unmount :: "int \<Rightarrow> fs \<Rightarrow> (int \<times> fs) option" where
  "unmount dev s =
     (if sum_list (map (\<lambda>i. if i_count (inodes s i) > 0 \<and> i_dev (inodes s i) = dev then i_count (inodes s i) else 0) [0..<NR_INODES]) > 1
      then Some (EBUSY, s)
      else do {
        s1 \<leftarrow> do_sync s;
        let s2 = s1\<lparr>cch := invalidate dev (cch s1)\<rparr>;
        case find (\<lambda>i. s_dev (supers s i) = dev) [0..<NR_SUPERS] of
          None \<Rightarrow> Some (EINVAL, s2)
        | Some sp \<Rightarrow>
            do {
              s3 \<leftarrow> dev_close dev s2;
              im \<leftarrow> s_imount (supers s3 sp);
              s4 \<leftarrow> put_inode (Some im) (upd_inode im (\<lambda>p. p\<lparr>i_mount := False\<rparr>) s3);
              s5 \<leftarrow> put_inode (s_isup (supers s4 sp)) s4;
              Some (OK, upd_super sp (\<lambda>x. x\<lparr>s_imount := None, s_dev := NO_DEV\<rparr>) s5)
            }
      })"

definition do_umount :: "name_arg \<Rightarrow> fs \<Rightarrow> (int \<times> fs) option" where
  "do_umount n s =
     (if \<not> super_user s then Some (EPERM, s)
      else let (r, s1) = fetch n s
      in if r \<noteq> OK then Some (err_code s1, s1)
      else do { (dev, s2) \<leftarrow> name_to_dev s1; if dev = NO_DEV then Some (err_code s2, s2) else unmount dev s2 })"

subsection \<open>Shutting down\<close>

fun exit_all :: "nat list \<Rightarrow> fs \<Rightarrow> fs option" where
  "exit_all [] s = Some s"
| "exit_all (p # ps) s = do { (r, s1) \<leftarrow> fs_do_exit (int p) s; exit_all ps s1 }"

fun unmount_all :: "nat list \<Rightarrow> fs \<Rightarrow> fs option" where
  "unmount_all [] s = Some s"
| "unmount_all (i # is) s =
     do { s1 \<leftarrow> (if s_dev (supers s i) \<noteq> NO_DEV then map_option snd (unmount (s_dev (supers s i)) s) else Some s); unmount_all is s1 }"

text \<open>The root is put on an inode outside of the table, which slot 64 stands for.\<close>

definition fs_do_reboot :: "fs \<Rightarrow> (int \<times> fs) option" where
  "fs_do_reboot s =
     (if who s \<noteq> MM_PROC_NR then Some (EGENERIC, s)
      else do {
        s1 \<leftarrow> exit_all [0..<NR_FPROCS] s;
        s2 \<leftarrow> put_inode (s_imount (supers s1 0)) s1;
        let s3 = upd_inode NR_INODES (\<lambda>p. p\<lparr>i_count := 2\<rparr>) (upd_super 0 (\<lambda>x. x\<lparr>s_imount := Some NR_INODES\<rparr>) s2);
        s4 \<leftarrow> unmount_all (concat (replicate NR_SUPERS [0..<NR_SUPERS])) s3;
        Some (OK, s4)
      })"

end
