(* ===== verification/FS_Keeps.thy ===== *)
theory FS_Keeps
  imports FS_Dirs
begin

text \<open>
  What the operations below the calls leave alone.  The locale \<open>fs_core\<close> is the contract of a property
  of the state that does not depend on the cache, on inodes, on what a super block holds beside its device, on
  positions and flags of open files, and on processes beside their descriptors.  Every operation that changes
  only these keeps such a property; the lemmas say so once, for the tables of descriptors, of locks and of
  mounted devices alike.
\<close>

text \<open>Inversion of a sequence of steps.\<close>

lemma bindE: "Option.bind m f = Some y \<Longrightarrow> (\<And>x. m = Some x \<Longrightarrow> f x = Some y \<Longrightarrow> Q) \<Longrightarrow> Q"
  by (cases m) auto

locale fs_core =
  fixes P :: "fs \<Rightarrow> bool"
  assumes k_cch: "P (s\<lparr>cch := c\<rparr>) = P s"
    and k_inode: "P (upd_inode i fi s) = P s"
    and k_super: "s_dev (fs (supers s i)) = s_dev (supers s i) \<Longrightarrow> P (upd_super i fs s) = P s"
    and k_filp: "filp_count (ff (filps s i)) = filp_count (filps s i) \<Longrightarrow> filp_ino (ff (filps s i)) = filp_ino (filps s i) \<Longrightarrow>
      P (upd_filp i ff s) = P s"
    and k_ino: "P s \<Longrightarrow> P (upd_filp i (\<lambda>x. x\<lparr>filp_ino := Some r\<rparr>) s)"
    and k_fproc: "fp_filp (fp (fprocs s i)) = fp_filp (fprocs s i) \<Longrightarrow> P (upd_fproc i fp s) = P s"
    and k_err: "P (s\<lparr>err_code := e\<rparr>) = P s"
    and k_hist: "P (s\<lparr>fs_hist := h\<rparr>) = P s"
    and k_susp: "P (s\<lparr>susp_count := n\<rparr>) = P s"
    and k_reviving: "P (s\<lparr>reviving := n\<rparr>) = P s"
    and k_ahead: "P (s\<lparr>rdahedpos := x\<rparr>) = P s"
    and k_rahead: "P (s\<lparr>rdahed_inode := io\<rparr>) = P s"
    and k_path: "P (s\<lparr>user_path := p\<rparr>) = P s"
    and k_l1: "P (s\<lparr>reply_l1 := x\<rparr>) = P s"
    and k_i1: "P (s\<lparr>reply_i1 := n\<rparr>) = P s"
    and k_i2: "P (s\<lparr>reply_i2 := n\<rparr>) = P s"
    and k_t: "P (s\<lparr>reply_t := t\<rparr>) = P s"
    and k_mem: "P (s\<lparr>usr_mem := u\<rparr>) = P s"
    and k_dmap: "P (s\<lparr>dmap_tab := d\<rparr>) = P s"
begin

lemmas prims = k_cch k_inode k_super k_filp k_fproc k_err k_hist k_susp k_reviving k_ahead k_rahead k_path k_l1 k_i1 k_i2 k_t
  k_mem k_dmap k_ino

lemmas splits = if_split_asm option.split_asm prod.split_asm sum.split_asm

lemmas steps = Let_def prims

subsection \<open>Requests and buffers\<close>

lemma ask_keeps: "ask_fs q s = (r, s') \<Longrightarrow> P s' = P s"
  by (auto simp: ask_fs_def steps)

lemma get_keeps: "fs_get dev b m s = Some (bp, s') \<Longrightarrow> P s \<longrightarrow> P s'"
  by (auto simp: fs_get_def on_cache_def steps)

lemma put_keeps: "P (fs_put bp t s) = P s"
  by (simp add: fs_put_def prims)

lemma buf_keeps: "P (fs_buf bp f s) = P s"
  by (simp add: fs_buf_def prims)

lemma zero_keeps: "P (zero_block bp s) = P s"
  by (simp add: zero_block_def buf_keeps)

lemma snd_ask_keeps: "P (snd (ask_fs q s)) = P s"
  by (simp add: ask_fs_def steps)

lemma reply_keeps: "P (fs_reply w r s) = P s"
  by (simp add: fs_reply_def snd_ask_keeps)

lemma clock_keeps: "clock_time s = (t, s') \<Longrightarrow> P s' = P s"
  by (auto simp: clock_time_def steps elim!: bindE split: splits dest!: ask_keeps)

lemma from_user_keeps: "copy_from_user u seg a n s = (r, s') \<Longrightarrow> P s' = P s"
  by (auto simp: copy_from_user_def steps elim!: bindE split: splits dest!: ask_keeps)

lemma to_user_keeps: "copy_to_user u seg a bs s = (r, s') \<Longrightarrow> P s' = P s"
  by (auto simp: copy_to_user_def steps elim!: bindE split: splits dest!: ask_keeps)

lemmas buffer_keeps = put_keeps buf_keeps zero_keeps snd_ask_keeps reply_keeps

lemmas request_keeps = ask_keeps get_keeps clock_keeps from_user_keeps to_user_keeps

subsection \<open>Suspended processes\<close>

lemma get_filp_keeps: "get_filp fd s = (f, s') \<Longrightarrow> P s' = P s"
  by (auto simp: get_filp_def steps)

lemma suspend_keeps: "P (suspend task fd buf nb s) = P s"
  by (simp add: suspend_def steps)

lemma revive_keeps: "revive p r s = Some s' \<Longrightarrow> P s \<longrightarrow> P s'"
  by (auto simp: revive_def steps buffer_keeps elim!: bindE split: splits)

lemma release_loop_keeps: "release_loop ps ip nr n s = Some s' \<Longrightarrow> P s \<longrightarrow> P s'"
proof (induction ps arbitrary: n s)
  case (Cons p ps)
  show ?case
    using Cons.prems Cons.IH by (fastforce simp: steps elim!: bindE split: splits dest!: revive_keeps)
qed simp

lemma release_keeps: "release ip nr n s = Some s' \<Longrightarrow> P s \<longrightarrow> P s'"
  by (simp add: release_def release_loop_keeps)

lemma revive_locked_keeps: "revive_locked ps s = Some s' \<Longrightarrow> P s \<longrightarrow> P s'"
  by (induction ps arbitrary: s) (auto simp: steps elim!: bindE split: splits dest!: revive_keeps)

lemma lock_revive_keeps: "lock_revive s = Some s' \<Longrightarrow> P s \<longrightarrow> P s'"
  unfolding lock_revive_def by (rule revive_locked_keeps)

lemmas suspend_all_keeps = revive_keeps release_keeps lock_revive_keeps get_filp_keeps

subsection \<open>Bit maps and inodes\<close>

lemma alloc_bit_keeps: "alloc_bit spi m b s = Some (r, s') \<Longrightarrow> P s \<longrightarrow> P s'"
  by (auto simp: alloc_bit_def on_cache_def steps elim!: bindE split: splits)

lemma free_bit_keeps: "free_bit spi m b s = Some s' \<Longrightarrow> P s \<longrightarrow> P s'"
  by (auto simp: free_bit_def on_cache_def steps elim!: bindE split: splits)

lemma alloc_zone_keeps: "alloc_zone dev z s = Some (r, s') \<Longrightarrow> P s \<longrightarrow> P s'"
  by (auto simp: alloc_zone_def steps elim!: bindE split: splits dest!: alloc_bit_keeps)

lemma free_zone_keeps: "free_zone dev z s = Some s' \<Longrightarrow> P s \<longrightarrow> P s'"
  by (auto simp: free_zone_def steps elim!: bindE split: splits dest!: free_bit_keeps)

lemma update_times_keeps: "update_times rip s = Some s' \<Longrightarrow> P s \<longrightarrow> P s'"
  by (auto simp: update_times_def steps elim!: bindE split: splits dest!: clock_keeps)

lemma rw_inode_keeps: "rw_inode rip flag s = Some s' \<Longrightarrow> P s \<longrightarrow> P s'"
  by (auto simp: rw_inode_def steps buffer_keeps elim!: bindE split: splits dest!: update_times_keeps get_keeps)

lemma get_inode_keeps: "get_inode dev n s = Some (r, s') \<Longrightarrow> P s \<longrightarrow> P s'"
  by (auto simp: get_inode_def steps elim!: bindE split: splits dest!: rw_inode_keeps)

lemma dup_inode_keeps: "P (dup_inode i s) = P s"
  by (simp add: dup_inode_def prims)

lemma wipe_inode_keeps: "P (wipe_inode i s) = P s"
  by (simp add: wipe_inode_def prims)

lemma free_inode_keeps: "free_inode dev n s = Some s' \<Longrightarrow> P s \<longrightarrow> P s'"
  by (auto simp: free_inode_def steps elim!: bindE split: splits dest!: free_bit_keeps)

lemma alloc_inode_keeps: "alloc_inode dev mode s = Some (r, s') \<Longrightarrow> P s \<longrightarrow> P s'"
  by (auto simp: alloc_inode_def steps wipe_inode_keeps elim!: bindE split: splits dest!: alloc_bit_keeps free_bit_keeps get_inode_keeps)

lemmas zone_keeps = alloc_zone_keeps free_zone_keeps

subsection \<open>Zones\<close>

lemma wr_indir_keeps: "wr_indir bp i z s = Some s' \<Longrightarrow> P s \<longrightarrow> P s'"
  by (auto simp: wr_indir_def steps buffer_keeps elim!: bindE split: splits)

lemma ind_entry_keeps: "ind_entry rip z sc i s = Some (r, s') \<Longrightarrow> P s \<longrightarrow> P s'"
  by (auto simp: ind_entry_def steps buffer_keeps elim!: bindE split: splits dest!: get_keeps)

lemma read_map_keeps: "read_map rip pos s = Some (r, s') \<Longrightarrow> P s \<longrightarrow> P s'"
  by (auto simp: read_map_def steps elim!: bindE split: splits dest!: ind_entry_keeps)

lemma trunc_loop_keeps: "trunc_loop rip pos zs sc s = Some s' \<Longrightarrow> P s \<longrightarrow> P s'"
  by (rule trunc_loop.raw_induct [where P = "\<lambda>rip pos zs sc s s'. P s \<longrightarrow> P s'"])
    (auto simp: steps elim!: bindE split: splits dest!: read_map_keeps free_zone_keeps)

lemma free_entries_keeps: "free_entries dev bp is s = Some s' \<Longrightarrow> P s \<longrightarrow> P s'"
  by (induction "is" arbitrary: s) (auto simp: steps elim!: bindE split: splits dest!: free_zone_keeps)

lemma free_double_keeps: "free_double rip sc s = Some s' \<Longrightarrow> P s \<longrightarrow> P s'"
  by (auto simp: free_double_def steps buffer_keeps elim!: bindE split: splits dest!: free_zone_keeps free_entries_keeps get_keeps)

lemma truncate_keeps: "FS_Inode.truncate rip s = Some s' \<Longrightarrow> P s \<longrightarrow> P s'"
  by (auto simp: FS_Inode.truncate_def steps wipe_inode_keeps elim!: bindE split: splits dest!: trunc_loop_keeps free_zone_keeps free_double_keeps)

lemma put_inode_keeps: "put_inode ip s = Some s' \<Longrightarrow> P s \<longrightarrow> P s'"
  by (auto simp: put_inode_def steps elim!: bindE split: splits dest!: truncate_keeps free_inode_keeps rw_inode_keeps)

lemmas inode_keeps = update_times_keeps rw_inode_keeps get_inode_keeps alloc_inode_keeps truncate_keeps put_inode_keeps read_map_keeps
lemmas inode_simps = dup_inode_keeps wipe_inode_keeps suspend_keeps

end

end
