(* ===== verification/FS_Keeps_Paths.thy ===== *)
theory FS_Keeps_Paths
  imports FS_Keeps
begin

text \<open>
  The contract of \<open>fs_core\<close> for new blocks, devices, paths, directories and transfers.
\<close>

context fs_core
begin

subsection \<open>New blocks\<close>

lemma double_zone_keeps: "double_zone rip s = Some (r, s') \<Longrightarrow> P s \<longrightarrow> P s'"
  by (auto simp: double_zone_def steps elim!: bindE split: splits dest!: alloc_zone_keeps)

lemma map_double_keeps: "map_double rip sc i s = Some (r, s') \<Longrightarrow> P s \<longrightarrow> P s'"
  by (auto simp: map_double_def steps buffer_keeps elim!: bindE split: splits dest!: double_zone_keeps get_keeps)

lemma single_zone_keeps: "single_zone rip dbl z s = Some (r, s') \<Longrightarrow> P s \<longrightarrow> P s'"
  by (auto simp: single_zone_def steps buffer_keeps elim!: bindE split: splits dest!: alloc_zone_keeps wr_indir_keeps)

lemma enter_single_keeps: "enter_single rip sc z new ex nz s = Some s' \<Longrightarrow> P s \<longrightarrow> P s'"
  by (auto simp: enter_single_def steps buffer_keeps elim!: bindE split: splits dest!: get_keeps wr_indir_keeps)

lemma write_map_keeps: "write_map rip pos z s = Some (r, s') \<Longrightarrow> P s \<longrightarrow> P s'"
  by (auto simp: write_map_def steps elim!: bindE split: splits dest!: map_double_keeps single_zone_keeps enter_single_keeps)

lemma zero_blocks_keeps: "zero_blocks dev bs s = Some s' \<Longrightarrow> P s \<longrightarrow> P s'"
proof (induction bs arbitrary: s)
  case (Cons b bs)
  show ?case using Cons.prems Cons.IH by (fastforce simp: steps buffer_keeps elim!: bindE split: splits dest!: get_keeps)
qed simp

lemma clear_zone_keeps: "clear_zone rip pos w s = Some s' \<Longrightarrow> P s \<longrightarrow> P s'"
  by (auto simp: clear_zone_def steps simp del: upt_Suc upt_rec_numeral elim!: bindE split: splits dest!: read_map_keeps zero_blocks_keeps)

lemma new_block_keeps: "new_block rip pos s = Some (r, s') \<Longrightarrow> P s \<longrightarrow> P s'"
  by (auto simp: new_block_def steps buffer_keeps elim!: bindE split: splits
      dest!: read_map_keeps zone_keeps write_map_keeps clear_zone_keeps get_keeps)

subsection \<open>Devices\<close>

lemma revive_all_keeps: "revive_all rs s = Some s' \<Longrightarrow> P s \<longrightarrow> P s'"
proof (induction rs arbitrary: s)
  case (Cons r rs)
  show ?case using Cons.prems Cons.IH by (cases r) (fastforce simp: steps elim!: bindE split: splits dest!: revive_keeps)
qed simp

lemma gen_io_keeps: "gen_io task m s = Some (r, s') \<Longrightarrow> P s \<longrightarrow> P s'"
  by (auto simp: gen_io_def steps elim!: bindE split: splits dest!: ask_keeps revive_all_keeps)

lemma call_task_keeps: "call_task dp m s = Some (r, s') \<Longrightarrow> P s \<longrightarrow> P s'"
  by (auto simp: call_task_def ctty_io_def steps elim!: bindE split: splits dev_rw.split_asm dest!: gen_io_keeps)

lemma dev_rw_keeps: "dev_rw oper dev p a pos n fl fd buf nb s = Some (r, s') \<Longrightarrow> P s \<longrightarrow> P s'"
  by (auto simp: dev_rw_def steps suspend_keeps elim!: bindE split: splits dest!: call_task_keeps)

lemma gen_opcl_keeps: "gen_opcl oper dev p fl s = Some (r, s') \<Longrightarrow> P s \<longrightarrow> P s'"
  by (auto simp: gen_opcl_def dest!: call_task_keeps)

lemma tty_opcl_keeps: "tty_opcl oper dev p fl s = Some (r, s') \<Longrightarrow> P s \<longrightarrow> P s'"
  by (auto simp: tty_opcl_def steps simp del: upt_rec_numeral elim!: bindE split: splits dest!: gen_opcl_keeps)

lemma clone_opcl_keeps: "clone_opcl oper dev p fl fd s = Some (r, s') \<Longrightarrow> P s \<longrightarrow> P s'"
  by (auto simp: clone_opcl_def steps elim!: bindE split: splits dest!: gen_opcl_keeps inode_keeps intro!: k_ino)

lemma call_opcl_keeps: "call_opcl f oper dev p fl fd s = Some (r, s') \<Longrightarrow> P s \<longrightarrow> P s'"
  by (auto simp: call_opcl_def split: dev_opcl.split_asm dest!: gen_opcl_keeps tty_opcl_keeps clone_opcl_keeps)

lemma dev_open_keeps: "dev_open dev p fl fd s = Some (r, s') \<Longrightarrow> P s \<longrightarrow> P s'"
  by (auto simp: dev_open_def steps elim!: bindE split: splits dest!: call_opcl_keeps)

lemma dev_close_keeps: "dev_close dev s = Some s' \<Longrightarrow> P s \<longrightarrow> P s'"
  by (auto simp: dev_close_def dest!: call_opcl_keeps)

subsection \<open>Directories\<close>

lemma forbidden_keeps: "forbidden rip a s = Some (r, s') \<Longrightarrow> P s \<longrightarrow> P s'"
  by (auto simp: forbidden_def steps elim!: bindE split: splits dest!: inode_keeps)

lemma set_path_keeps: "P (set_path bs s) = P s"
  by (simp add: set_path_def prims)

lemma fetch_keeps: "fetch n s = (r, s') \<Longrightarrow> P s' = P s"
  by (auto simp: fetch_def fetch_name_def steps set_path_keeps elim!: bindE split: splits dest!: from_user_keeps)

lemma search_blocks_keeps: "search_blocks dir fl w n pos k s = Some (r, s') \<Longrightarrow> P s \<longrightarrow> P s'"
proof -
  have "search_blocks dir fl w n pos k s = Some x \<Longrightarrow> P s \<longrightarrow> P (snd x)" for x
    by (rule search_blocks.raw_induct [where P = "\<lambda>dir fl w n pos k s x. P s \<longrightarrow> P (snd x)"])
      (auto simp: buffer_keeps elim!: bindE split: splits scan_dir.split_asm dest!: read_map_keeps get_keeps)
  then show "search_blocks dir fl w n pos k s = Some (r, s') \<Longrightarrow> P s \<longrightarrow> P s'" by fastforce
qed

lemma dir_changed_keeps: "P (dir_changed d s) = P s"
  by (simp add: dir_changed_def prims)

lemma dir_enter_keeps: "dir_enter d w n os room seen s = Some (r, s') \<Longrightarrow> P s \<longrightarrow> P s'"
  by (auto simp: dir_enter_def steps buffer_keeps dir_changed_keeps elim!: bindE split: splits dest!: new_block_keeps rw_inode_keeps)

lemma search_dir_keeps: "search_dir d c n fl s = Some (r, k, s') \<Longrightarrow> P s \<longrightarrow> P s'"
  by (auto simp: search_dir_def steps buffer_keeps dir_changed_keeps elim!: bindE split: splits scan_dir.split_asm dirflag.split_asm
      dest!: forbidden_keeps search_blocks_keeps dir_enter_keeps)

subsection \<open>Paths\<close>

lemma cross_mounts_keeps: "cross_mounts ip s = Some (r, s') \<Longrightarrow> P s \<longrightarrow> P s'"
proof -
  have "cross_mounts ip s = Some x \<Longrightarrow> P s \<longrightarrow> P (snd x)" for x
    by (rule cross_mounts.raw_induct [where P = "\<lambda>ip s x. P s \<longrightarrow> P (snd x)"])
      (auto simp: prims simp del: upt_rec_numeral elim!: bindE split: splits dest!: inode_keeps)
  then show "cross_mounts ip s = Some (r, s') \<Longrightarrow> P s \<longrightarrow> P s'" by fastforce
qed

lemma advance_keeps: "advance dp c s = Some (r, s') \<Longrightarrow> P s \<longrightarrow> P s'"
proof -
  have "advance dp c s = Some x \<Longrightarrow> P s \<longrightarrow> P (snd x)" for x
    by (rule advance.raw_induct [where P = "\<lambda>dp c s x. P s \<longrightarrow> P (snd x)"])
      (auto simp: prims simp del: upt_rec_numeral elim!: bindE split: splits dest!: search_dir_keeps inode_keeps cross_mounts_keeps)
  then show "advance dp c s = Some (r, s') \<Longrightarrow> P s \<longrightarrow> P s'" by fastforce
qed

lemma walk_keeps: "walk path rip s = Some (r, s') \<Longrightarrow> P s \<longrightarrow> P s'"
proof -
  have "walk path rip s = Some x \<Longrightarrow> P s \<longrightarrow> P (snd x)" for x
    by (rule walk.raw_induct [where P = "\<lambda>path rip s x. P s \<longrightarrow> P (snd x)"])
      (auto simp: prims simp del: upt_rec_numeral elim!: bindE split: splits dest!: inode_keeps advance_keeps)
  then show "walk path rip s = Some (r, s') \<Longrightarrow> P s \<longrightarrow> P s'" by fastforce
qed

lemma last_dir_keeps: "last_dir s = Some (r, s') \<Longrightarrow> P s \<longrightarrow> P s'"
  by (auto simp: last_dir_def steps inode_simps elim!: bindE split: splits dest!: walk_keeps)

lemma eat_path_keeps: "eat_path s = Some (r, s') \<Longrightarrow> P s \<longrightarrow> P s'"
  by (auto simp: eat_path_def steps elim!: bindE split: splits dest!: last_dir_keeps advance_keeps inode_keeps)

lemmas path_keeps = fetch_keeps forbidden_keeps search_dir_keeps advance_keeps last_dir_keeps eat_path_keeps

end

end
