(* ===== verification/FS_Main.thy ===== *)
theory FS_Main
  imports FS_Dirs
begin

text \<open>
  The main loop of the file system and its start (\<^verbatim>\<open>fs/main.c\<close>, \<^verbatim>\<open>fs/table.c\<close>).
\<close>

subsection \<open>Messages\<close>

text \<open>
  The body of a message is a sequence of words that the formats share; the fields of
  \<^verbatim>\<open>param.h\<close> are views of it.
\<close>

type_synonym fs_msg = "nat \<Rightarrow> u32"

definition msg_int :: "nat \<Rightarrow> fs_msg \<Rightarrow> int" where
  "msg_int k m = sint (m k)"

text \<open>The string \<^verbatim>\<open>m3_ca1\<close> of 14 characters starts at the fourth word.\<close>

definition msg_string :: "fs_msg \<Rightarrow> u8 list" where
  "msg_string m = map (\<lambda>i. ucast (drop_bit (8 * (i mod 4)) (m (3 + i div 4)))) [0..<14]"

definition name_m1 :: "fs_msg \<Rightarrow> name_arg" where
  "name_m1 m = (m 3, msg_int 0 m, None)"

definition name2_m1 :: "fs_msg \<Rightarrow> name_arg" where
  "name2_m1 m = (m 4, msg_int 1 m, None)"

definition name_m3 :: "fs_msg \<Rightarrow> name_arg" where
  "name_m3 m = (m 2, msg_int 0 m, Some (msg_string m))"

text \<open>Structures in the memory of the caller.\<close>

definition user16 :: "int \<Rightarrow> u32 \<Rightarrow> fs \<Rightarrow> u16" where
  "user16 p a s = ucast (usr_mem s p SEG_D a) OR push_bit 8 (ucast (usr_mem s p SEG_D (a + 1)))"

definition user32 :: "int \<Rightarrow> u32 \<Rightarrow> fs \<Rightarrow> u32" where
  "user32 p a s = ucast (user16 p a s) OR push_bit 16 (ucast (user16 p (a + 2) s))"

definition user_flock :: "u32 \<Rightarrow> fs \<Rightarrow> flock" where
  "user_flock a s =
     \<lparr>l_type = unat (user16 (who s) a s), l_whence = unat (user16 (who s) (a + 2) s), l_start = user32 (who s) (a + 4) s,
      l_len = user32 (who s) (a + 8) s, l_pid = sint (user32 (who s) (a + 12) s)\<rparr>"

definition flock_bytes :: "flock \<Rightarrow> u8 list" where
  "flock_bytes fl = bytes16 (of_nat (l_type fl)) @ bytes16 (of_nat (l_whence fl)) @ bytes32 (l_start fl) @ bytes32 (l_len fl)
     @ bytes32 (word_of_int (l_pid fl))"

definition fcntl_call :: "fs_msg \<Rightarrow> fs \<Rightarrow> (int \<times> fs) option" where
  "fcntl_call m s =
     do {
       (r, fl, s1) \<leftarrow> do_fcntl (msg_int 0 m) (msg_int 1 m) (msg_int 2 m) (m 3) (user_flock (m 3) s) s;
       Some (r, case fl of
                  Some x \<Rightarrow> if r = OK then s1\<lparr>usr_mem := (usr_mem s1)(who s := (usr_mem s1 (who s))(SEG_D := store_bytes (m 3) (flock_bytes x) (usr_mem s1 (who s) SEG_D)))\<rparr> else s1
                | None \<Rightarrow> s1)
     }"

text \<open>What the stack holds: padding, and names that were not set.\<close>

definition junk :: "fs \<Rightarrow> nat \<Rightarrow> u32" where
  "junk s = fs_data s (fs_hist s)"

subsection \<open>The table of calls\<close>

definition ret :: "int \<times> fs \<Rightarrow> (int \<times> fs) option" where
  "ret r = Some r"

definition fs_calls :: "fs_msg \<Rightarrow> (int \<times> (fs \<Rightarrow> (int \<times> fs) option)) list" where
  "fs_calls m =
     [(1, fs_do_exit (msg_int 0 m)),
      (2, fs_do_fork (msg_int 0 m) (msg_int 1 m) (msg_int 2 m)),
      (3, read_write READING (msg_int 0 m) (m 3) (msg_int 1 m)),
      (4, read_write WRITING (msg_int 0 m) (m 3) (msg_int 1 m)),
      (5, do_open (name_m3 m) (name_m1 m) (m 1) (ucast (m 2)) (m 3) (msg_int 1 m)),
      (6, do_close (msg_int 0 m)),
      (8, do_creat (name_m3 m) (ucast (m 1)) (m 3) (msg_int 1 m)),
      (9, do_link (name_m1 m) (name2_m1 m)),
      (10, do_unlink (name_m3 m)),
      (12, do_chdir (msg_int 0 m) (name_m3 m)),
      (13, \<lambda>s. ret (do_time s)),
      (14, do_mknod (name_m1 m) (ucast (m 1)) (m 2)),
      (15, do_chmod (name_m3 m) (ucast (m 1))),
      (16, do_chown (name_m1 m) (msg_int 1 m) (msg_int 2 m)),
      (18, \<lambda>s. do_stat (name_m1 m) (m 4) (ucast (junk s 0)) s),
      (19, do_lseek (msg_int 0 m) (m 3) (msg_int 1 m)),
      (21, do_mount (name_m1 m) (name2_m1 m) (m 2 \<noteq> 0)),
      (22, do_umount (name_m3 m)),
      (23, do_set (msg_int 0 m) (msg_int 1 m) (msg_int 2 m)),
      (25, \<lambda>s. ret (do_stime (m 3) s)),
      (28, \<lambda>s. do_fstat (msg_int 0 m) (m 3) (ucast (junk s 0)) s),
      (30, do_utime (m 5) (msg_int 0 m) (msg_int 1 m) (m 3) (m 4)),
      (33, do_access (name_m3 m) (msg_int 1 m)),
      (36, \<lambda>s. map_option (Pair OK) (do_sync s)),
      (38, \<lambda>s. do_rename (name_m1 m) (name2_m1 m) (takeWhile (\<lambda>c. c \<noteq> 0) (map (\<lambda>i. ucast (junk s i)) [0..<NAME_MAX])) s),
      (39, do_mkdir (name_m1 m) (ucast (m 1))),
      (40, do_unlink (name_m3 m)),
      (41, do_dup (msg_int 0 m) (msg_int 1 m)),
      (42, do_pipe),
      (43, \<lambda>s. ret (do_tims s)),
      (46, do_set (msg_int 0 m) (msg_int 1 m) (msg_int 2 m)),
      (54, do_ioctl (msg_int 0 m) (m 5) (msg_int 2 m) (msg_int 0 m) (m 3) (msg_int 1 m)),
      (55, fcntl_call m),
      (59, fs_do_exec (msg_int 0 m)),
      (60, \<lambda>s. ret (do_umask (ucast (m 0)) s)),
      (61, do_chroot (name_m3 m)),
      (62, do_setsid (msg_int 0 m)),
      (65, do_unpause (msg_int 0 m)),
      (67, do_revive (msg_int 0 m) (msg_int 1 m)),
      (76, fs_do_reboot),
      (77, \<lambda>s. ret (do_svrctl (m 0 = 0x40084602) (m 5) (sint (user16 (who s) (m 5) s)) (sint (user32 (who s) (m 5 + 4) s)) s))]"

definition fs_call_vec :: "int \<Rightarrow> fs_msg \<Rightarrow> fs \<Rightarrow> (int \<times> fs) option" where
  "fs_call_vec nr m s =
     (if nr < 0 \<or> nr \<ge> 78 then Some (ENOSYS, s)
      else case map_of (fs_calls m) nr of None \<Rightarrow> Some (EINVAL, s) | Some f \<Rightarrow> f s)"

subsection \<open>The main loop\<close>

text \<open>
  One round: the new message \<open>inp\<close> (sender, call, body) is received if no process is to be revived.  The
  message of the round is kept, since a revived call replaces only three of its words.  Messages of tasks
  (negative numbers) have no slot in the process table, to which the code lets \<^verbatim>\<open>fp\<close> point
  nevertheless; the model follows it only for the call that uses nothing of the slot.
\<close>

definition fs_step :: "int \<times> int \<times> fs_msg \<Rightarrow> fs_msg \<times> fs \<Rightarrow> (fs_msg \<times> fs) option" where
  "fs_step inp st =
     (let (m0, s0) = st; (w, nr, m1) = inp
      in do {
        (saved, s1) \<leftarrow> fs_get_work (w, nr) s0;
        let m = (case saved of Some (fd, buf, nb) \<Rightarrow> m0(0 := word_of_int fd, 3 := buf, 1 := word_of_int nb) | None \<Rightarrow> m1);
        if who s1 \<ge> NR_PROCS \<or> who s1 < 0 \<and> fs_call s1 \<noteq> 67 then None
        else do {
          let s2 = s1\<lparr>cfp := nat (who s1)\<rparr>;
          let s3 = s2\<lparr>super_user := (fp_effuid (fprocs s2 (cfp s2)) = 0)\<rparr>;
          (e, s4) \<leftarrow> fs_call_vec (fs_call s3) m s3;
          let s5 = (if e \<noteq> SUSPEND then fs_reply (who s4) e s4 else s4);
          s6 \<leftarrow> (if rdahed_inode s5 \<noteq> None then read_ahead s5 else Some s5);
          Some (m, s6)
        }
      })"

text \<open>The loop, for a sequence of messages.\<close>

fun fs_run :: "(int \<times> int \<times> fs_msg) list \<Rightarrow> fs_msg \<times> fs \<Rightarrow> (fs_msg \<times> fs) option" where
  "fs_run [] st = Some st"
| "fs_run (inp # inps) st = do { st1 \<leftarrow> fs_step inp st; fs_run inps st1 }"

subsection \<open>The start\<close>

definition load_super :: "int \<Rightarrow> fs \<Rightarrow> fs option" where
  "load_super dev s0 =
     (let s = upd_super 0 (\<lambda>x. x\<lparr>s_dev := dev\<rparr>) (s0\<lparr>supers := (\<lambda>i. if i < NR_SUPERS then (supers s0 i)\<lparr>s_dev := NO_DEV\<rparr> else supers s0 i)\<rparr>)
      in do {
        (r, s1) \<leftarrow> read_super 0 s;
        if r \<noteq> OK then None
        else do {
          (ip, s2) \<leftarrow> get_inode dev ROOT_INODE s1;
          rip \<leftarrow> ip;
          if \<not> is_dir rip s2 \<or> sint (i_nlinks (inodes s2 rip)) < 3 then None
          else Some (upd_super 0 (\<lambda>x. x\<lparr>s_imount := Some rip, s_isup := Some rip, s_rd_only := False\<rparr>) (dup_inode rip s2))
        }
      })"

abbreviation (input) MEM_TASK :: int where "MEM_TASK \<equiv> -4"

text \<open>Copying the image to the RAM disk; inode 0 stands for the image device.\<close>

fun load_blocks :: "u32 list \<Rightarrow> fs \<Rightarrow> fs option" where
  "load_blocks [] s = Some s"
| "load_blocks (b # bs) s =
     do {
       (bp, s1) \<leftarrow> rahead 0 b (1024 * b) 1024 s;
       (bp1, s2) \<leftarrow> fs_get (root_dev s1) b NO_READ s1;
       let s3 = fs_buf bp1 (\<lambda>x. x\<lparr>b_data := b_data (bufs (cch s2) bp), b_dirt := True\<rparr>) s2;
       load_blocks bs (fs_put (Some bp1) FULL_DATA_BLOCK (fs_put (Some bp) FULL_DATA_BLOCK s3))
     }"

text \<open>The size of the RAM disk: at least that of the image, at most what its zone map can describe.\<close>

definition ram_blocks :: "super_block \<Rightarrow> u32 \<Rightarrow> u32" where
  "ram_blocks sp ram_size =
     (let scale = unat (s_log_zone_size sp);
          lcount = push_bit scale (s_zones sp);
          r1 = (if ram_size < lcount then lcount else ram_size);
          fsmax = push_bit scale (scast (s_zmap_blocks sp) * 8192 + (ucast (s_firstdatazone sp) - 1))
      in if r1 > fsmax then fsmax else r1)"

text \<open>\<^verbatim>\<open>load_ram()\<close> with the boot environment's \<open>rootdev\<close>, \<open>ramimagedev\<close> and \<open>ramsize\<close>.\<close>

definition load_ram :: "int \<Rightarrow> int \<Rightarrow> u32 \<Rightarrow> fs \<Rightarrow> fs option" where
  "load_ram rootdev img ramsize s0 =
     do {
       (r, s1) \<leftarrow> dev_open rootdev FS_PROC_NR 6 0 (s0\<lparr>root_dev := rootdev\<rparr>);
       if r \<noteq> OK then None
       else do {
         (ram_size, s2) \<leftarrow>
           (if rootdev \<noteq> DEV_RAM then Some (ramsize, s1)
            else do {
              (r, s2) \<leftarrow> dev_open img FS_PROC_NR 4 0 s1;
              if r \<noteq> OK then None
              else do {
                (r, s3) \<leftarrow> read_super 0 (upd_super 0 (\<lambda>x. x\<lparr>s_dev := img\<rparr>) s2);
                if r \<noteq> OK then None else Some (ram_blocks (supers s3 0) ramsize, s3)
              }
            });
         let (r, s3) = ask_fs (ReqTask MEM_TASK \<lparr>tm_op = DEV_IOCTL, tm_device = 0, tm_proc = FS_PROC_NR, tm_addr = 0, tm_pos = ram_size,
                                 tm_count = 0, tm_flags = 0\<rparr>) s2;
         if r \<noteq> OK then None
         else do {
           let (_, s4) = ask_fs (ReqReply MM_PROC_NR (sint (signed_drop_bit CLICK_SHIFT (1024 * ram_size)))) s3;
           let s5 = s4\<lparr>cch := init_cache2 (unat ram_size) (cch s4)\<rparr>;
           if rootdev \<noteq> DEV_RAM then Some s5
           else do {
             let sp = supers s5 0;
             let scale = unat (s_log_zone_size sp);
             let s6 = upd_inode 0 (\<lambda>p. p\<lparr>i_mode := I_BLOCK_SPECIAL, i_size := 0x7FFFFFFF, i_dev := img,
                        i_zone := (i_zone p)(0 := word_of_int img)\<rparr>) s5;
             s7 \<leftarrow> load_blocks (map of_nat [0..<unat (push_bit scale (s_zones sp))]) s6;
             s8 \<leftarrow> dev_close img (s7\<lparr>cch := invalidate img (cch s7)\<rparr>);
             (bp, s9) \<leftarrow> fs_get rootdev 1 NORMAL s8;
             let zones = drop_bit scale ram_size;
             let s10 = fs_buf bp (\<lambda>b. b\<lparr>b_data := blk_put32 (blk_put16 (b_data b) 2 (conv2 (s_native sp) (ucast zones))) 20 (conv4 (s_native sp) zones),
                         b_dirt := True\<rparr>) s9;
             Some (fs_put (Some bp) ZUPER_BLOCK s10)
           }
         }
       }
     }"

text \<open>The processes up to INIT start in the root directory.\<close>

fun init_procs :: "nat list \<Rightarrow> fs \<Rightarrow> fs option" where
  "init_procs [] s = Some s"
| "init_procs (i # is) s =
     (if int i = FS_PROC_NR then init_procs is s
      else do {
        (ip, s1) \<leftarrow> get_inode (root_dev s) ROOT_INODE (s\<lparr>cfp := i\<rparr>);
        rip \<leftarrow> ip;
        init_procs is (upd_fproc i (\<lambda>p. p\<lparr>fp_rootdir := Some rip, fp_workdir := Some rip, fp_realuid := 0, fp_effuid := 0, fp_realgid := 0,
          fp_effgid := 0, fp_umask := 0xFFFF, fp_pid := (if int i < INIT_PROC_NR then -1 else 1)\<rparr>) (dup_inode rip s1))
      })"

definition fs_init :: "int \<Rightarrow> int \<Rightarrow> u32 \<Rightarrow> fs \<Rightarrow> fs option" where
  "fs_init rootdev img ramsize s =
     do {
       s1 \<leftarrow> load_ram rootdev img ramsize (s\<lparr>who := FS_PROC_NR, cch := buf_pool (cch s)\<rparr>);
       s2 \<leftarrow> load_super (root_dev s1) s1;
       s3 \<leftarrow> init_procs [0..<nat INIT_PROC_NR + 1] s2;
       Some (snd (ask_fs (ReqTask MEM_TASK \<lparr>tm_op = DEV_IOCTL, tm_device = 0, tm_proc = FS_PROC_NR, tm_addr = 0, tm_pos = 0, tm_count = 0, tm_flags = 0\<rparr>) s3))
     }"

end
