(* ===== verification/FS_Keeps_Calls.thy ===== *)
theory FS_Keeps_Calls
  imports FS_Keeps_Paths FS_Main
begin

text \<open>
  The contract of \<open>fs_core\<close> for reading and writing, and for the calls on names.
\<close>

context fs_core
begin

subsection \<open>Writing back and transfers\<close>

lemma sync_inodes_keeps: "sync_inodes is s = Some s' \<Longrightarrow> P s \<longrightarrow> P s'"
proof (induction "is" arbitrary: s)
  case (Cons i "is")
  show ?case using Cons.prems Cons.IH by (fastforce elim!: bindE split: splits dest!: rw_inode_keeps)
qed simp

lemma do_sync_keeps: "do_sync s = Some s' \<Longrightarrow> P s \<longrightarrow> P s'"
  by (auto simp: do_sync_def steps simp del: upt_rec_numeral elim!: bindE dest!: sync_inodes_keeps)

lemma close_special_keeps: "close_special rip s = Some s' \<Longrightarrow> P s \<longrightarrow> P s'"
  by (auto simp: close_special_def steps elim!: bindE split: splits dest!: do_sync_keeps dev_close_keeps)

lemma pipe_check_keeps: "pipe_check rip fl ofl n pos fd buf nb s = Some (r, s') \<Longrightarrow> P s \<longrightarrow> P s'"
  by (auto simp: pipe_check_def steps buffer_keeps suspend_keeps elim!: bindE split: splits dest!: release_keeps)

lemma ahead_loop_keeps: "ahead_loop dev b n q s = Some (r, s') \<Longrightarrow> P s \<longrightarrow> P s'"
proof -
  have "ahead_loop dev b n q s = Some x \<Longrightarrow> P s \<longrightarrow> P (snd x)" for x
    by (rule ahead_loop.raw_induct [where P = "\<lambda>dev b n q s x. P s \<longrightarrow> P (snd x)"])
      (auto simp: buffer_keeps elim!: bindE split: splits dest!: get_keeps)
  then show "ahead_loop dev b n q s = Some (r, s') \<Longrightarrow> P s \<longrightarrow> P s'" by fastforce
qed

lemma rahead_keeps: "rahead rip b pos n s = Some (r, s') \<Longrightarrow> P s \<longrightarrow> P s'"
  by (auto simp: rahead_def steps elim!: bindE split: splits dest!: get_keeps ahead_loop_keeps)

lemma read_ahead_keeps: "read_ahead s = Some s' \<Longrightarrow> P s \<longrightarrow> P s'"
  by (auto simp: read_ahead_def steps buffer_keeps elim!: bindE split: splits dest!: read_map_keeps rahead_keeps)

lemma chunk_block_keeps: "chunk_block rip pos off n left fl s = Some (r, s') \<Longrightarrow> P s \<longrightarrow> P s'"
  by (auto simp: chunk_block_def steps buffer_keeps elim!: bindE split: splits dest!: get_keeps read_map_keeps rahead_keeps new_block_keeps)

lemma rw_chunk_keeps: "rw_chunk rip pos off n left fl buf seg usr s = Some (r, s') \<Longrightarrow> P s \<longrightarrow> P s'"
  by (auto simp: rw_chunk_def steps buffer_keeps elim!: bindE split: splits dest!: chunk_block_keeps from_user_keeps to_user_keeps)

lemma rw_loop_keeps: "rw_loop_file rip fl fs pp seg usr x s = Some (r, s') \<Longrightarrow> P s \<longrightarrow> P s'"
proof -
  have "rw_loop_file rip fl fs pp seg usr x s = Some y \<Longrightarrow> P s \<longrightarrow> P (snd y)" for y
    by (rule rw_loop_file.raw_induct [where P = "\<lambda>rip fl fs pp seg usr x s y. P s \<longrightarrow> P (snd y)"
          and xa = "(((((((rip, fl), fs), pp), seg), usr), x), s)", unfolded prod.case])
      (auto simp: Let_def elim!: bindE split: splits dest!: rw_chunk_keeps)
  then show "rw_loop_file rip fl fs pp seg usr x s = Some (r, s') \<Longrightarrow> P s \<longrightarrow> P s'" by fastforce
qed

lemma rw_file_keeps: "rw_file rip fl fs ofl sp fd seg usr x s = Some (r, s') \<Longrightarrow> P s \<longrightarrow> P s'"
  by (auto simp: rw_file_def steps elim!: bindE split: splits dest!: clear_zone_keeps pipe_check_keeps rw_loop_keeps)

lemma rw_finish_keeps:
  assumes "rw_finish f rip fl fs ofl pp fd x s = (r, s')"
  shows "P s' = P s"
proof -
  have "P (snd (rw_finish f rip fl fs ofl pp fd x s)) = P s"
    by (simp add: rw_finish_def steps suspend_keeps split: option.split)
  then show ?thesis using assms by simp
qed

lemma read_write_keeps: "read_write fl fd buf n s = Some (r, s') \<Longrightarrow> P s \<longrightarrow> P s'"
  by (auto simp: read_write_def set_err_def steps elim!: bindE split: splits dest!: get_filp_keeps dev_rw_keeps rw_file_keeps rw_finish_keeps)

lemma do_lseek_keeps: "do_lseek fd off w s = Some (r, s') \<Longrightarrow> P s \<longrightarrow> P s'"
  by (auto simp: do_lseek_def steps elim!: bindE split: splits dest!: get_filp_keeps)

lemma do_ioctl_keeps: "do_ioctl fd a q fild buf nb s = Some (r, s') \<Longrightarrow> P s \<longrightarrow> P s'"
  by (auto simp: do_ioctl_def steps elim!: bindE split: splits dest!: get_filp_keeps dev_rw_keeps)

subsection \<open>New nodes, links and directories\<close>

lemma new_node_keeps: "new_node bits z s = Some (r, s') \<Longrightarrow> P s \<longrightarrow> P s'"
  by (auto simp: new_node_def steps elim!: bindE split: splits dest!: path_keeps inode_keeps)

lemma pipe_open_keeps: "pipe_open rip bits fl fd buf nb s = Some (r, s') \<Longrightarrow> P s \<longrightarrow> P s'"
  by (auto simp: pipe_open_def steps suspend_keeps elim!: bindE split: splits dest!: release_keeps)

lemma open_inode_keeps: "open_inode fl mode s = Some (r, s') \<Longrightarrow> P s \<longrightarrow> P s'"
  by (auto simp: open_inode_def steps elim!: bindE split: splits dest!: new_node_keeps eat_path_keeps)

lemma do_mknod_keeps: "do_mknod n m z s = Some (r, s') \<Longrightarrow> P s \<longrightarrow> P s'"
  by (auto simp: do_mknod_def steps elim!: bindE split: splits dest!: fetch_keeps new_node_keeps put_inode_keeps)

lemma do_mkdir_keeps: "do_mkdir n m s = Some (r, s') \<Longrightarrow> P s \<longrightarrow> P s'"
  by (auto simp: do_mkdir_def steps elim!: bindE split: splits dest!: path_keeps new_node_keeps put_inode_keeps)

lemma do_link_keeps: "do_link n1 n2 s = Some (r, s') \<Longrightarrow> P s \<longrightarrow> P s'"
  by (auto simp: do_link_def steps elim!: bindE split: splits dest!: path_keeps put_inode_keeps)

lemma unlink_file_keeps: "unlink_file d ip c s = Some (r, s') \<Longrightarrow> P s \<longrightarrow> P s'"
  by (auto simp: unlink_file_def steps inode_simps elim!: bindE split: splits dest!: path_keeps inode_keeps)

lemma remove_dir_keeps: "remove_dir d rip w s = Some (r, s') \<Longrightarrow> P s \<longrightarrow> P s'"
  by (auto simp: remove_dir_def steps simp del: upt_rec_numeral elim!: bindE split: splits dest!: path_keeps unlink_file_keeps)

lemma do_unlink_keeps: "do_unlink n s = Some (r, s') \<Longrightarrow> P s \<longrightarrow> P s'"
  by (auto simp: do_unlink_def steps elim!: bindE split: splits dest!: path_keeps put_inode_keeps unlink_file_keeps remove_dir_keeps)

subsection \<open>Renaming\<close>

lemma climb_keeps: "climb oi d s = Some (r, s') \<Longrightarrow> P s \<longrightarrow> P s'"
proof -
  have "climb oi d s = Some y \<Longrightarrow> P s \<longrightarrow> P (snd y)" for y
    by (rule climb.raw_induct [where P = "\<lambda>oi d s y. P s \<longrightarrow> P (snd y)"])
      (auto elim!: bindE split: splits dest!: advance_keeps put_inode_keeps)
  then show "climb oi d s = Some (r, s') \<Longrightarrow> P s \<longrightarrow> P s'" by fastforce
qed

lemma rename_tests_keeps: "rename_tests od oi on nd ni nn s = Some (r, s') \<Longrightarrow> P s \<longrightarrow> P s'"
  by (auto simp: rename_tests_def steps inode_simps elim!: bindE split: splits dest!: climb_keeps forbidden_keeps put_inode_keeps)

lemma rename_enter_keeps: "rename_enter od oi on nd nn s = Some (r, s') \<Longrightarrow> P s \<longrightarrow> P s'"
  by (auto simp: rename_enter_def steps elim!: bindE split: splits dest!: search_dir_keeps)

lemma rename_dotdot_keeps: "rename_dotdot oi nd s = Some s' \<Longrightarrow> P s \<longrightarrow> P s'"
  by (auto simp: rename_dotdot_def steps elim!: bindE split: splits dest!: search_dir_keeps unlink_file_keeps)

lemma rename_work_keeps: "rename_work od oi on nd ni nn s = Some (r, s') \<Longrightarrow> P s \<longrightarrow> P s'"
  by (auto simp: rename_work_def steps elim!: bindE split: splits
      dest!: rename_tests_keeps rename_enter_keeps rename_dotdot_keeps remove_dir_keeps unlink_file_keeps)

lemma do_rename_keeps: "do_rename n1 n2 j s = Some (r, s') \<Longrightarrow> P s \<longrightarrow> P s'"
  by (auto simp: do_rename_def steps elim!: bindE split: splits dest!: path_keeps put_inode_keeps rename_work_keeps)

subsection \<open>Directories of processes, status, modes and times\<close>

lemma change_keeps: "change root n s = Some (r, s') \<Longrightarrow> P s \<longrightarrow> P s'"
  by (auto simp: change_def steps elim!: bindE split: splits dest!: path_keeps put_inode_keeps)

lemma do_chdir_keeps: "do_chdir slot n s = Some (r, s') \<Longrightarrow> P s \<longrightarrow> P s'"
  by (auto simp: do_chdir_def steps inode_simps elim!: bindE split: splits dest!: change_keeps put_inode_keeps)

lemma do_chroot_keeps: "do_chroot n s = Some (r, s') \<Longrightarrow> P s \<longrightarrow> P s'"
  by (auto simp: do_chroot_def split: splits dest!: change_keeps)

lemma stat_inode_keeps: "stat_inode rip f a pad s = Some (r, s') \<Longrightarrow> P s \<longrightarrow> P s'"
  by (auto simp: stat_inode_def elim!: bindE split: splits dest!: update_times_keeps to_user_keeps)

lemma do_stat_keeps: "do_stat n a pad s = Some (r, s') \<Longrightarrow> P s \<longrightarrow> P s'"
  by (auto simp: do_stat_def steps elim!: bindE split: splits dest!: path_keeps stat_inode_keeps put_inode_keeps)

lemma do_fstat_keeps: "do_fstat fd a pad s = Some (r, s') \<Longrightarrow> P s \<longrightarrow> P s'"
  by (auto simp: do_fstat_def steps elim!: bindE split: splits dest!: get_filp_keeps stat_inode_keeps)

lemma on_file_keeps:
  assumes "\<And>rip s r s'. f rip s = Some (r, s') \<Longrightarrow> P s \<longrightarrow> P s'"
  shows "on_file n f s = Some (r, s') \<Longrightarrow> P s \<longrightarrow> P s'"
  by (auto simp: on_file_def steps elim!: bindE split: splits dest!: path_keeps put_inode_keeps assms)

lemma do_chmod_keeps: "do_chmod n m s = Some (r, s') \<Longrightarrow> P s \<longrightarrow> P s'"
  unfolding do_chmod_def by (erule on_file_keeps [rotated]) (auto simp: chmod_inode_def steps elim!: bindE split: splits)

lemma do_chown_keeps: "do_chown n ow g s = Some (r, s') \<Longrightarrow> P s \<longrightarrow> P s'"
  unfolding do_chown_def by (erule on_file_keeps [rotated]) (auto simp: chown_inode_def steps elim!: bindE split: splits)

lemma do_access_keeps: "do_access n m s = Some (r, s') \<Longrightarrow> P s \<longrightarrow> P s'"
  unfolding do_access_def by (auto elim!: on_file_keeps [rotated, THEN mp] split: splits dest!: forbidden_keeps)

lemma utime_inode_keeps: "utime_inode now a m rip s = Some (r, s') \<Longrightarrow> P s \<longrightarrow> P s'"
  by (auto simp: utime_inode_def steps elim!: bindE split: splits dest!: forbidden_keeps clock_keeps)

lemma do_utime_keeps: "do_utime f l m2 a m s = Some (r, s') \<Longrightarrow> P s \<longrightarrow> P s'"
  unfolding do_utime_def by (erule on_file_keeps [rotated]) (erule utime_inode_keeps)

lemma do_time_keeps: "do_time s = (r, s') \<Longrightarrow> P s' = P s"
  by (auto simp: do_time_def steps split: splits dest!: clock_keeps)

lemma do_stime_keeps: "do_stime t s = (r, s') \<Longrightarrow> P s' = P s"
  by (auto simp: do_stime_def snd_ask_keeps split: splits)

lemma do_tims_keeps: "do_tims s = (r, s') \<Longrightarrow> P s' = P s"
  by (auto simp: do_tims_def steps snd_ask_keeps split: splits)

lemma name_to_dev_keeps: "name_to_dev s = Some (r, s') \<Longrightarrow> P s \<longrightarrow> P s'"
  by (auto simp: name_to_dev_def steps elim!: bindE split: splits dest!: eat_path_keeps put_inode_keeps)

lemma mount_inodes_keeps: "mount_inodes dev rip s = Some (r, s') \<Longrightarrow> P s \<longrightarrow> P s'"
  by (auto simp: mount_inodes_def steps elim!: bindE split: splits dest!: get_inode_keeps)

subsection \<open>Processes and servers\<close>

lemma do_umask_keeps: "do_umask m s = (r, s') \<Longrightarrow> P s' = P s"
  by (auto simp: do_umask_def steps)

lemma do_set_keeps: "do_set sl rid eid s = Some (r, s') \<Longrightarrow> P s \<longrightarrow> P s'"
  by (auto simp: do_set_def steps split: splits)

lemma do_setsid_keeps: "do_setsid sl s = Some (r, s') \<Longrightarrow> P s \<longrightarrow> P s'"
  by (auto simp: do_setsid_def steps split: splits)

lemma do_revive_keeps: "do_revive p r0 s = Some (r, s') \<Longrightarrow> P s \<longrightarrow> P s'"
  by (auto simp: do_revive_def split: splits dest!: revive_keeps)

lemma do_svrctl_keeps: "do_svrctl b a d st s = (r, s') \<Longrightarrow> P s' = P s"
  by (auto simp: do_svrctl_def steps split: splits dest!: ask_keeps)

lemmas call_keeps = do_sync_keeps read_write_keeps do_lseek_keeps do_ioctl_keeps do_mknod_keeps do_mkdir_keeps do_link_keeps do_unlink_keeps
  do_rename_keeps do_chdir_keeps do_chroot_keeps do_stat_keeps do_fstat_keeps do_chmod_keeps do_chown_keeps do_access_keeps
  do_utime_keeps do_set_keeps do_setsid_keeps do_revive_keeps

lemmas pure_keeps = do_time_keeps do_stime_keeps do_tims_keeps do_umask_keeps do_svrctl_keeps

end

end
