(* ===== verification/FS_Keeps_Tables.thy ===== *)
theory FS_Keeps_Tables
  imports FS_Keeps_Calls
begin

text \<open>
  Two extensions of the contract: properties that do not depend on the lock table, and properties that do
  not depend on the devices of super blocks.
\<close>

subsection \<open>The steps of closing and of exit\<close>

definition cleared_fd :: "int \<Rightarrow> fs \<Rightarrow> fs" where
  "cleared_fd fd s =
     upd_fproc (cfp s) (\<lambda>p. p\<lparr>fp_cloexec := fp_cloexec p AND NOT (push_bit (nat fd) 1), fp_filp := (fp_filp p)(nat fd := None)\<rparr>) s"

lemma do_close_steps:
  assumes "do_close fd s0 = Some (r, s')"
  obtains s where "get_filp fd s0 = (None, s)" "s' = s"
  | f s rip s1 s2 s3 where "get_filp fd s0 = (Some f, s)"
    "s1 = s \<or> close_special rip s = Some s1"
    "s2 = s1 \<or> (\<exists>nr n. release rip nr n s1 = Some s2)"
    "close_filp f rip s2 = Some s3"
    "s' = cleared_fd fd s3 \<or> s' = drop_locks [0..<NR_LOCKS] (Some rip) (fp_pid (fprocs (cleared_fd fd s3) (cfp (cleared_fd fd s3)))) (cleared_fd fd s3)
     \<or> lock_revive (drop_locks [0..<NR_LOCKS] (Some rip) (fp_pid (fprocs (cleared_fd fd s3) (cfp (cleared_fd fd s3)))) (cleared_fd fd s3)) = Some s'"
proof (cases "fst (get_filp fd s0)")
  case None
  then show ?thesis using that(1) assms by (cases "get_filp fd s0") (auto simp: do_close_def)
next
  case (Some f)
  then obtain s where g: "get_filp fd s0 = (Some f, s)" by (cases "get_filp fd s0") auto
  with assms obtain rip s1 s2 s3 where
    1: "(if filp_count (filps s f) - 1 = 0 \<and> filp_mode (filps s f) \<noteq> FILP_CLOSED then close_special rip s else Some s) = Some s1"
    and 2: "(if i_pipe (inodes s1 rip)
             then release rip (if filp_mode (filps s1 f) AND R_BIT \<noteq> 0 then CALL_WRITE else CALL_READ) NR_PROCS s1
             else Some s1) = Some s2"
    and 3: "close_filp f rip s2 = Some s3"
    and 4: "(let s4 = cleared_fd fd s3
             in if nr_locks s4 = 0 then Some (OK, s4)
                else do {
                  let s5 = drop_locks [0..<NR_LOCKS] (Some rip) (fp_pid (fprocs s4 (cfp s4))) s4;
                  s6 \<leftarrow> (if nr_locks s5 < nr_locks s4 then lock_revive s5 else Some s5);
                  Some (OK, s6)
                }) = Some (r, s')"
    unfolding do_close_def cleared_fd_def by (auto elim!: bindE simp del: upt_rec_numeral)
  have "s1 = s \<or> close_special rip s = Some s1" using 1 by (auto split: if_split_asm)
  moreover have "s2 = s1 \<or> (\<exists>nr n. release rip nr n s1 = Some s2)" using 2 by (auto split: if_split_asm)
  ultimately show ?thesis
    by (rule that(2) [OF g _ _ 3]) (use 4 in \<open>auto simp: Let_def simp del: upt_rec_numeral elim!: bindE split: if_split_asm\<close>)
qed

lemma do_exit_steps:
  assumes e: "fs_do_exit slot s = Some (r, s')" and w: "who s = MM_PROC_NR"
  obtains s3 s4 s5 s6 where "proc_nr_ok slot"
    "s3 = s\<lparr>cfp := nat slot\<rparr> \<or> (\<exists>n r s2. do_unpause slot (s\<lparr>cfp := nat slot, susp_count := n\<rparr>) = Some (r, s2)
       \<and> s3 = upd_fproc (cfp s2) (\<lambda>p. p\<lparr>fp_suspended := False\<rparr>) s2)"
    "close_all [0..<OPEN_MAX] s3 = Some s4"
    "put_inode (fp_rootdir (fprocs s4 (cfp s4))) s4 = Some s5"
    "put_inode (fp_workdir (fprocs s5 (cfp s5))) s5 = Some s6"
    "let s7 = upd_fproc (cfp s6) (\<lambda>p. p\<lparr>fp_rootdir := None, fp_workdir := None\<rparr>) s6;
         s8 = upd_fproc (cfp s7) (\<lambda>p. p\<lparr>fp_sesldr := False\<rparr>) s7
     in s' = s7 \<or> s' = s8 \<or> (\<exists>dev s9. revoke_tty dev [nat INIT_PROC_NR..<NR_FPROCS] s8 = Some s9
          \<and> s' = upd_fproc (cfp s9) (\<lambda>p. p\<lparr>fp_pid := 0\<rparr>) s9)"
proof -
  from e w have slot: "proc_nr_ok slot" by (auto simp: fs_do_exit_def split: if_split_asm)
  let ?s1 = "s\<lparr>cfp := nat slot\<rparr>"
  from e w slot obtain s3 s4 s5 s6 where
    3: "(if fp_suspended (fprocs ?s1 (cfp ?s1))
         then do {
           (r, s2) \<leftarrow> do_unpause slot (if - fp_task (fprocs ?s1 (cfp ?s1)) = XPIPE \<or> - fp_task (fprocs ?s1 (cfp ?s1)) = XPOPEN
             then ?s1\<lparr>susp_count := susp_count ?s1 - 1\<rparr> else ?s1);
           Some (upd_fproc (cfp s2) (\<lambda>p. p\<lparr>fp_suspended := False\<rparr>) s2)
         }
         else Some ?s1) = Some s3"
    and 4: "close_all [0..<OPEN_MAX] s3 = Some s4"
    and 5: "put_inode (fp_rootdir (fprocs s4 (cfp s4))) s4 = Some s5"
    and 6: "put_inode (fp_workdir (fprocs s5 (cfp s5))) s5 = Some s6"
    and 7: "(let s7 = upd_fproc (cfp s6) (\<lambda>p. p\<lparr>fp_rootdir := None, fp_workdir := None\<rparr>) s6;
                 q = fprocs s7 (cfp s7)
             in if \<not> fp_sesldr q then Some (OK, s7)
                else let s8 = upd_fproc (cfp s7) (\<lambda>p. p\<lparr>fp_sesldr := False\<rparr>) s7
                     in if fp_tty q = 0 then Some (OK, s8)
                        else map_option (\<lambda>s9. (OK, upd_fproc (cfp s9) (\<lambda>p. p\<lparr>fp_pid := 0\<rparr>) s9))
                               (revoke_tty (fp_tty q) [nat INIT_PROC_NR..<NR_FPROCS] s8)) = Some (r, s')"
    unfolding fs_do_exit_def Let_def by (auto simp del: upt_rec_numeral elim!: bindE)
  have same: "?s1 = s\<lparr>cfp := nat slot, susp_count := susp_count s\<rparr>" by simp
  have 8: "s3 = ?s1 \<or> (\<exists>n r s2. do_unpause slot (s\<lparr>cfp := nat slot, susp_count := n\<rparr>) = Some (r, s2)
       \<and> s3 = upd_fproc (cfp s2) (\<lambda>p. p\<lparr>fp_suspended := False\<rparr>) s2)"
  proof (cases "fp_suspended (fprocs ?s1 (cfp ?s1))")
    case True
    obtain n where n: "(if - fp_task (fprocs ?s1 (cfp ?s1)) = XPIPE \<or> - fp_task (fprocs ?s1 (cfp ?s1)) = XPOPEN
             then ?s1\<lparr>susp_count := susp_count ?s1 - 1\<rparr> else ?s1) = s\<lparr>cfp := nat slot, susp_count := n\<rparr>"
    proof (cases "- fp_task (fprocs ?s1 (cfp ?s1)) = XPIPE \<or> - fp_task (fprocs ?s1 (cfp ?s1)) = XPOPEN")
      case True
      then show ?thesis by (intro that [of "susp_count s - 1"]) simp
    next
      case False
      then show ?thesis by (intro that [of "susp_count s"]) simp
    qed
    show ?thesis using 3 True unfolding n by (auto elim!: bindE)
  next
    case False
    then show ?thesis using 3 by simp
  qed
  show ?thesis
    by (rule that [OF slot 8 4 5 6]) (use 7 in \<open>auto simp: Let_def simp del: upt_rec_numeral split: if_split_asm\<close>)
qed

subsection \<open>The contracts\<close>

locale fs_locks = fs_core +
  assumes k_lock: "P (upd_lock i fl s) = P s"
    and k_nr: "P (s\<lparr>nr_locks := n\<rparr>) = P s"
begin

lemma drop_locks_keeps: "P (drop_locks is rip pid s) = P s"
  by (induction "is" arbitrary: s) (simp_all add: Let_def k_lock k_nr)

lemma unlock_one_keeps: "unlock_one q i s = Some (r, s') \<Longrightarrow> P s' = P s"
  by (auto simp: unlock_one_def Let_def k_lock k_nr simp del: upt_rec_numeral split: splits)

lemma lock_loop_keeps:
  assumes "\<And>s. P (susp s) = P s"
  shows "lock_loop q susp is e u s = Some (r, s') \<Longrightarrow> P s' = P s"
proof (induction "is" arbitrary: e u s)
  case (Cons i "is")
  show ?case using Cons.prems Cons.IH by (fastforce simp: Let_def assms elim!: bindE split: splits dest!: unlock_one_keeps)
qed simp

lemma lock_table_keeps:
  assumes "\<And>s. P (susp s) = P s"
  shows "lock_table q susp s = Some (r, s') \<Longrightarrow> P s \<longrightarrow> P s'"
  by (auto simp: lock_table_def lock_enter_def k_lock k_nr simp del: upt_rec_numeral elim!: bindE
      split: splits lock_scan.split_asm dest!: lock_loop_keeps [OF assms] lock_revive_keeps)

lemma lock_op_keeps: "lock_op f req fd a fl s = Some (r, fo, s') \<Longrightarrow> P s \<longrightarrow> P s'"
  by (auto simp: lock_op_def Let_def elim!: bindE split: splits lock_scan.split_asm
      dest!: ask_keeps lock_table_keeps [of "suspend t b c d" for t b c d, OF suspend_keeps])

end

locale fs_mounts = fs_core +
  assumes k_anysuper: "P (upd_super i fs s) = P s"
    and k_root: "P (s\<lparr>root_dev := d\<rparr>) = P s"
begin

lemma read_super_keeps: "read_super i s = Some (r, s') \<Longrightarrow> P s \<longrightarrow> P s'"
  by (auto simp: read_super_def steps k_anysuper elim!: bindE split: splits)

lemma do_mount_keeps: "do_mount n1 n2 ro s = Some (r, s') \<Longrightarrow> P s \<longrightarrow> P s'"
  by (auto simp: do_mount_def steps k_anysuper simp del: upt_rec_numeral elim!: bindE split: splits
      dest!: path_keeps put_inode_keeps dev_open_keeps dev_close_keeps read_super_keeps do_sync_keeps name_to_dev_keeps mount_inodes_keeps)

lemma unmount_keeps: "unmount dev s = Some (r, s') \<Longrightarrow> P s \<longrightarrow> P s'"
  by (auto simp: unmount_def steps k_anysuper simp del: upt_rec_numeral elim!: bindE split: splits
      dest!: put_inode_keeps dev_close_keeps do_sync_keeps)

lemma do_umount_keeps: "do_umount n s = Some (r, s') \<Longrightarrow> P s \<longrightarrow> P s'"
  by (auto simp: do_umount_def steps elim!: bindE split: splits dest!: path_keeps name_to_dev_keeps unmount_keeps)

lemma unmount_all_keeps: "unmount_all is s = Some s' \<Longrightarrow> P s \<longrightarrow> P s'"
proof (induction "is" arbitrary: s)
  case (Cons i "is")
  show ?case using Cons.prems Cons.IH by (fastforce elim!: bindE split: splits dest!: unmount_keeps)
qed simp

lemma load_blocks_keeps: "load_blocks bs s = Some s' \<Longrightarrow> P s \<longrightarrow> P s'"
proof (induction bs arbitrary: s)
  case (Cons b bs)
  show ?case using Cons.prems Cons.IH by (fastforce simp: Let_def buffer_keeps elim!: bindE split: splits dest!: rahead_keeps get_keeps)
qed simp

lemma load_ram_keeps: "load_ram rd img n s = Some s' \<Longrightarrow> P s \<longrightarrow> P s'"
  by (auto simp: load_ram_def steps k_anysuper k_root buffer_keeps elim!: bindE split: splits
      dest!: ask_keeps dev_open_keeps dev_close_keeps read_super_keeps load_blocks_keeps get_keeps)

end

end
