(* ===== verification/FS_Keeps_Procs.thy ===== *)
theory FS_Keeps_Procs
  imports FS_Keeps_Tables
begin

text \<open>
  Properties that depend neither on processes nor on open files, only on what the lock table and the rest
  of the state hold: if closing and \<^verbatim>\<open>fcntl()\<close> keep them, every call and every run of the main loop does.
\<close>

locale fs_procs = fs_mounts +
  assumes k_anyproc: "P (upd_fproc i fp s) = P s"
    and k_anyfilp: "P (upd_filp i ff s) = P s"
    and k_who: "P (s\<lparr>who := w\<rparr>) = P s"
    and k_call: "P (s\<lparr>fs_call := n\<rparr>) = P s"
    and k_cfp: "P (s\<lparr>cfp := c\<rparr>) = P s"
    and k_su: "P (s\<lparr>super_user := b\<rparr>) = P s"
    and k_drop: "P s \<Longrightarrow> P (drop_locks [0..<NR_LOCKS] rip pid s)"
    and k_lock_op: "lock_op f req fd a fl s = Some (r, fo, s') \<Longrightarrow> P s \<longrightarrow> P s'"
begin

lemmas frees = k_anyproc k_anyfilp k_who k_call k_cfp k_su

subsection \<open>Descriptors\<close>

lemma get_fd_keeps: "get_fd st bits s = (r, s') \<Longrightarrow> P s' = P s"
  by (auto simp: get_fd_def k_anyfilp simp del: upt_rec_numeral split: option.split_asm)

lemma share_keeps: "P (share_filp f k s) = P s"
  by (simp add: share_filp_def frees)

lemma claim_keeps: "P (claim_fd k f s) = P s" "P (unclaim_fd k f s) = P s"
  by (simp_all add: claim_fd_def unclaim_fd_def frees)

lemma close_filp_keeps: "close_filp f rip s = Some s' \<Longrightarrow> P s \<longrightarrow> P s'"
  by (auto simp: close_filp_def Let_def frees k_inode split: splits dest!: put_inode_keeps)

lemma do_close_keeps: "do_close fd s = Some (r, s') \<Longrightarrow> P s \<longrightarrow> P s'"
proof (erule do_close_steps)
  fix t assume "get_filp fd s = (None, t)" "s' = t"
  then show ?thesis by (auto dest!: get_filp_keeps)
next
  fix f t rip s1 s2 s3
  let ?d = "drop_locks [0..<NR_LOCKS] (Some rip) (fp_pid (fprocs (cleared_fd fd s3) (cfp (cleared_fd fd s3)))) (cleared_fd fd s3)"
  assume g: "get_filp fd s = (Some f, t)" and 1: "s1 = t \<or> close_special rip t = Some s1"
    and 2: "s2 = s1 \<or> (\<exists>nr n. release rip nr n s1 = Some s2)" and 3: "close_filp f rip s2 = Some s3"
    and 4: "s' = cleared_fd fd s3 \<or> s' = ?d \<or> lock_revive ?d = Some s'"
  have "P s \<longrightarrow> P s1" using get_filp_keeps [OF g] 1 close_special_keeps by blast
  moreover have "P s1 \<longrightarrow> P s3" using 2 release_keeps close_filp_keeps [OF 3] by blast
  moreover have "P (cleared_fd fd s3) = P s3" by (simp add: cleared_fd_def k_anyproc)
  ultimately show ?thesis using 4 k_drop lock_revive_keeps [of ?d s'] by blast
qed

lemma close_all_keeps: "close_all ks s = Some s' \<Longrightarrow> P s \<longrightarrow> P s'"
proof (induction ks arbitrary: s)
  case (Cons k ks)
  show ?case using Cons.prems Cons.IH by (fastforce elim!: bindE split: splits dest!: do_close_keeps)
qed simp

lemma close_marked_keeps: "close_marked b ks s = Some s' \<Longrightarrow> P s \<longrightarrow> P s'"
proof (induction ks arbitrary: s)
  case (Cons k ks)
  show ?case using Cons.prems Cons.IH by (fastforce elim!: bindE split: splits dest!: do_close_keeps)
qed simp

lemma do_dup_keeps: "do_dup fd fd2 s = Some (r, s') \<Longrightarrow> P s \<longrightarrow> P s'"
  by (auto simp: do_dup_def Let_def share_keeps split: splits dest!: get_filp_keeps get_fd_keeps do_close_keeps)

lemma do_fcntl_keeps: "do_fcntl fd q a n fl s = Some (r, fo, s') \<Longrightarrow> P s \<longrightarrow> P s'"
  by (auto simp: do_fcntl_def Let_def share_keeps frees split: splits dest!: get_filp_keeps get_fd_keeps k_lock_op)

lemma do_pipe_keeps: "do_pipe s = Some (r, s') \<Longrightarrow> P s \<longrightarrow> P s'"
  by (auto simp: do_pipe_def Let_def claim_keeps frees prims inode_simps elim!: bindE split: splits dest!: get_fd_keeps inode_keeps)

lemma open_fifo_keeps: "open_fifo k f rip bits fl buf nb s = Some (r, f', s') \<Longrightarrow> P s \<longrightarrow> P s'"
  by (auto simp: open_fifo_def Let_def frees k_inode elim!: bindE split: splits dest!: pipe_open_keeps)

lemma open_kind_keeps: "open_kind k f rip bits fl buf nb s = Some (r, s') \<Longrightarrow> P s \<longrightarrow> P s'"
  by (auto simp: open_kind_def Let_def wipe_inode_keeps elim!: bindE split: splits
      dest!: forbidden_keeps truncate_keeps rw_inode_keeps dev_open_keeps open_fifo_keeps)

lemma common_open_keeps: "common_open fl m buf nb s = Some (r, s') \<Longrightarrow> P s \<longrightarrow> P s'"
  by (auto simp: common_open_def Let_def claim_keeps frees elim!: bindE split: splits
      dest!: get_fd_keeps open_inode_keeps forbidden_keeps open_kind_keeps put_inode_keeps)

lemma do_creat_keeps: "do_creat n m buf nb s = Some (r, s') \<Longrightarrow> P s \<longrightarrow> P s'"
  by (auto simp: do_creat_def split: splits dest!: fetch_keeps common_open_keeps)

lemma do_open_keeps: "do_open n cn fl m buf nb s = Some (r, s') \<Longrightarrow> P s \<longrightarrow> P s'"
  by (auto simp: do_open_def Let_def split: splits dest!: fetch_keeps common_open_keeps)

subsection \<open>Processes\<close>

lemma inherit_keeps: "P (inherit tab ks s) = P s"
  by (induction ks arbitrary: s) (auto simp: k_anyfilp split: option.split)

lemma do_fork_keeps: "fs_do_fork p c pid s = Some (r, s') \<Longrightarrow> P s \<longrightarrow> P s'"
  by (auto simp: fs_do_fork_def Let_def inherit_keeps frees dup_inode_keeps simp del: upt_rec_numeral elim!: bindE split: splits)

lemma do_exec_keeps: "fs_do_exec sl s = Some (r, s') \<Longrightarrow> P s \<longrightarrow> P s'"
  by (auto simp: fs_do_exec_def Let_def frees simp del: upt_rec_numeral split: splits dest!: close_marked_keeps)

lemma do_unpause_keeps: "do_unpause p s = Some (r, s') \<Longrightarrow> P s \<longrightarrow> P s'"
  by (auto simp: do_unpause_def Let_def frees reply_keeps elim!: bindE split: splits dest!: call_task_keeps)

lemma revoke_fds_keeps: "revoke_fds dev p ks s = Some s' \<Longrightarrow> P s \<longrightarrow> P s'"
proof (induction ks arbitrary: s)
  case (Cons k ks)
  show ?case using Cons.prems Cons.IH by (fastforce simp: frees elim!: bindE split: splits dest!: dev_close_keeps)
qed simp

lemma revoke_tty_keeps: "revoke_tty dev ps s = Some s' \<Longrightarrow> P s \<longrightarrow> P s'"
proof (induction ps arbitrary: s)
  case (Cons p ps)
  let ?s = "if fp_tty (fprocs s p) = dev then upd_fproc p (\<lambda>x. x\<lparr>fp_tty := 0\<rparr>) s else s"
  from Cons.prems obtain s1 where 1: "revoke_fds dev p [0..<OPEN_MAX] ?s = Some s1" and 2: "revoke_tty dev ps s1 = Some s'"
    by (auto simp del: upt_rec_numeral elim!: bindE)
  show ?case using revoke_fds_keeps [OF 1] Cons.IH [OF 2] by (simp add: frees)
qed simp

lemma do_exit_keeps: "fs_do_exit sl s = Some (r, s') \<Longrightarrow> P s \<longrightarrow> P s'"
proof (cases "who s = MM_PROC_NR")
  case True
  assume "fs_do_exit sl s = Some (r, s')"
  then show ?thesis
  proof (rule do_exit_steps [OF _ True])
    fix s3 s4 s5 s6
    assume 3: "s3 = s\<lparr>cfp := nat sl\<rparr> \<or> (\<exists>n r s2. do_unpause sl (s\<lparr>cfp := nat sl, susp_count := n\<rparr>) = Some (r, s2)
         \<and> s3 = upd_fproc (cfp s2) (\<lambda>p. p\<lparr>fp_suspended := False\<rparr>) s2)"
      and 4: "close_all [0..<OPEN_MAX] s3 = Some s4"
      and 5: "put_inode (fp_rootdir (fprocs s4 (cfp s4))) s4 = Some s5"
      and 6: "put_inode (fp_workdir (fprocs s5 (cfp s5))) s5 = Some s6"
      and 7: "let s7 = upd_fproc (cfp s6) (\<lambda>p. p\<lparr>fp_rootdir := None, fp_workdir := None\<rparr>) s6;
         s8 = upd_fproc (cfp s7) (\<lambda>p. p\<lparr>fp_sesldr := False\<rparr>) s7
     in s' = s7 \<or> s' = s8 \<or> (\<exists>dev s9. revoke_tty dev [nat INIT_PROC_NR..<NR_FPROCS] s8 = Some s9
          \<and> s' = upd_fproc (cfp s9) (\<lambda>p. p\<lparr>fp_pid := 0\<rparr>) s9)"
    have "P s \<longrightarrow> P s3" using 3 by (auto simp: frees k_susp dest!: do_unpause_keeps)
    moreover have "P s3 \<longrightarrow> P s6" using close_all_keeps [OF 4] put_inode_keeps [OF 5] put_inode_keeps [OF 6] by blast
    ultimately show ?thesis using 7 by (auto simp: Let_def frees simp del: upt_rec_numeral dest!: revoke_tty_keeps)
  qed
qed (auto simp: fs_do_exit_def)

lemma exit_all_keeps: "exit_all ps s = Some s' \<Longrightarrow> P s \<longrightarrow> P s'"
proof (induction ps arbitrary: s)
  case (Cons p ps)
  show ?case using Cons.prems Cons.IH by (fastforce elim!: bindE split: splits dest!: do_exit_keeps)
qed simp

lemma do_reboot_keeps: "fs_do_reboot s = Some (r, s') \<Longrightarrow> P s \<longrightarrow> P s'"
  by (auto simp: fs_do_reboot_def Let_def k_inode k_anysuper simp del: upt_rec_numeral elim!: bindE split: splits
      dest!: exit_all_keeps put_inode_keeps unmount_all_keeps)

lemma fcntl_call_keeps: "fcntl_call m s = Some (r, s') \<Longrightarrow> P s \<longrightarrow> P s'"
  by (auto simp: fcntl_call_def k_mem elim!: bindE split: splits dest!: do_fcntl_keeps)

subsection \<open>The main loop\<close>

lemma fs_call_keeps: "(n, f) \<in> set (fs_calls m) \<Longrightarrow> f s = Some (r, s') \<Longrightarrow> P s \<longrightarrow> P s'"
proof -
  have "list_all (\<lambda>(n, f). f s = Some (r, s') \<longrightarrow> P s \<longrightarrow> P s') (fs_calls m)"
    unfolding fs_calls_def list.pred_inject prod.case
    using do_sync_keeps
    by (auto simp: ret_def dest!: call_keeps pure_keeps do_exit_keeps do_fork_keeps do_close_keeps do_dup_keeps do_pipe_keeps
        do_open_keeps do_creat_keeps do_exec_keeps do_unpause_keeps do_reboot_keeps fcntl_call_keeps do_mount_keeps do_umount_keeps)
  then show "(n, f) \<in> set (fs_calls m) \<Longrightarrow> f s = Some (r, s') \<Longrightarrow> P s \<longrightarrow> P s'" by (auto simp: list_all_iff)
qed

lemma call_vec_keeps: "fs_call_vec nr m s = Some (r, s') \<Longrightarrow> P s \<longrightarrow> P s'"
  by (auto simp: fs_call_vec_def split: splits dest!: map_of_SomeD dest: fs_call_keeps)

lemma get_work_keeps: "fs_get_work msg s = Some (x, s') \<Longrightarrow> P s' = P s"
  by (auto simp: fs_get_work_def Let_def frees k_reviving simp del: upt_rec_numeral split: splits)

lemma step_keeps: "fs_step inp st = Some st' \<Longrightarrow> P (snd st) \<longrightarrow> P (snd st')"
  by (cases st, cases inp)
    (auto simp: fs_step_def Let_def frees reply_keeps elim!: bindE split: splits dest!: get_work_keeps call_vec_keeps read_ahead_keeps)

lemma run_keeps: "fs_run inps st = Some st' \<Longrightarrow> P (snd st) \<longrightarrow> P (snd st')"
proof (induction inps arbitrary: st)
  case (Cons i "is")
  show ?case using Cons.prems Cons.IH by (fastforce elim!: bindE dest!: step_keeps)
qed simp

end

end
