(* ===== verification/FS_Main_Example.thy ===== *)
theory FS_Main_Example
  imports FS_Main FS_Example
begin

text \<open>Rounds of the main loop on the states of \<open>FS_Example\<close>.\<close>

text \<open>A round of the main loop with a call that is answered at once.\<close>

lemma fs_step_call:
  assumes "reviving s = 0" "0 \<le> w" "w < NR_PROCS"
    and "fs_call_vec nr m (s\<lparr>who := w, fs_call := nr, cfp := nat w, super_user := (fp_effuid (fprocs s (nat w)) = 0)\<rparr>) = Some (r, s2)"
    and "r \<noteq> SUSPEND" "rdahed_inode s2 = None"
  shows "fs_step (w, nr, m) (m0, s) = Some (m, fs_reply (who s2) r s2)"
  using assms by (simp add: fs_step_def fs_get_work_def fs_reply_def ask_fs_def Let_def)

text \<open>Process 3 has a \<^verbatim>\<open>struct flock\<close> at address 0, a write lock on 5 bytes, and calls \<^verbatim>\<open>fcntl(0, F_SETLK, 0)\<close>.\<close>

definition ex_flock :: fs where
  "ex_flock = ex_locked\<lparr>usr_mem := (\<lambda>_ _ _. 0)(3 := (\<lambda>_ _. 0)(SEG_D := (\<lambda>_. 0)(0 := 2, 8 := 5)))\<rparr>"

definition ex_setlk :: fs_msg where
  "ex_setlk = (\<lambda>_. 0)(1 := 6)"

lemma ex_setlk_run:
  "\<exists>m s. fs_run [(3, 55, ex_setlk)] (\<lambda>_. 0, ex_flock) = Some (m, s)
     \<and> file_locks s 0 = \<lparr>lock_type = F_WRLCK, lock_pid = 7, lock_inode = Some 2, lock_first = 10, lock_last = 19\<rparr>
     \<and> file_locks s 1 = \<lparr>lock_type = F_WRLCK, lock_pid = 5, lock_inode = Some 2, lock_first = 0, lock_last = 4\<rparr>"
proof -
  let ?fl = "\<lparr>l_type = F_WRLCK, l_whence = 0, l_start = 0, l_len = 5, l_pid = 0\<rparr>"
  let ?q = "\<lparr>q_type = F_WRLCK, q_ino = Some 2, q_first = 0, q_last = 4, q_cmd = F_SETLK, q_pid = 5\<rparr>"
  define s1 where "s1 = ex_flock\<lparr>who := 3, fs_call := 55, cfp := nat 3, super_user := (fp_effuid (fprocs ex_flock (nat 3)) = 0)\<rparr>"
  define s2 where "s2 = snd (ask_fs (ReqCopyIn 3 0 16) (s1\<lparr>err_code := EBADF\<rparr>))"
  define s3 where "s3 = lock_enter ?q 1 s2"
  have t: "file_locks s2 = (\<lambda>_. zero_lock)(0 := \<lparr>lock_type = F_WRLCK, lock_pid = 7, lock_inode = Some 2, lock_first = 10, lock_last = 19\<rparr>)"
    "nr_locks s2 = 1" "filps s2 = filps ex_fs" "inodes s2 = inodes ex_fs" "fprocs s2 = fprocs ex_fs" "cfp s2 = 3" "who s2 = 3"
    "rdahed_inode s2 = None"
    by (simp_all add: s2_def s1_def ex_flock_def ex_locked_def ask_fs_def Let_def ex_fs_def)
  have fl: "user_flock 0 s1 = ?fl"
    by (simp add: user_flock_def user16_def user32_def s1_def ex_flock_def)
  have "lock_loop ?q su [0..<NR_LOCKS] None False s2 = Some (ScanEnd (Some 1) False, s2)" for su
    by (simp add: upt_conv_Cons t no_conflict_def Let_def zero_lock_def)
  then have table: "lock_table ?q su s2 = Some (ScanRet OK, s3)" for su
    by (simp add: lock_table_def s3_def del: upt_rec_numeral)
  have ref: "lock_refused 0 2 F_SETLK ?fl s2 = None"
    by (simp add: lock_refused_def t ex_fs_def)
  have reg: "lock_region 0 2 ?fl s2 = Some (0, 4)"
    by (simp add: lock_region_def t ex_fs_def)
  have ask: "ask_fs (ReqCopyIn 3 0 16) (s1\<lparr>err_code := EBADF\<rparr>) = (OK, s2)"
    by (simp add: s2_def s1_def ask_fs_def Let_def ex_flock_def ex_locked_def ex_fs_def)
  have who: "who (s1\<lparr>err_code := EBADF\<rparr>) = 3" by (simp add: s1_def)
  have f: "filp_ino (filps s2 0) = Some 2" "fp_pid (fprocs s2 (cfp s2)) = 5" using t by (simp_all add: ex_fs_def)
  have op: "lock_op 0 F_SETLK 0 0 ?fl (s1\<lparr>err_code := EBADF\<rparr>) = Some (OK, None, s3)"
    unfolding lock_op_def who ask prod.case Let_def f ref reg option.case
    using table by simp
  have g: "get_filp 0 s1 = (Some 0, s1\<lparr>err_code := EBADF\<rparr>)"
    by (simp add: get_filp_def s1_def ex_flock_def ex_locked_def ex_fs_def)
  have "fs_call_vec 55 ex_setlk s1 = fcntl_call ex_setlk s1"
    by (simp add: fs_call_vec_def fs_calls_def)
  also have "\<dots> = Some (OK, s3)"
    by (simp add: fcntl_call_def ex_setlk_def msg_int_def fl do_fcntl_def g op)
  finally have c: "fs_call_vec 55 ex_setlk s1 = Some (OK, s3)" .
  have w: "who s3 = 3" "rdahed_inode s3 = None" "reviving ex_flock = 0"
    by (simp_all add: s3_def lock_enter_def upd_lock_def t ex_flock_def ex_locked_def ex_fs_def)
  have "fs_run [(3, 55, ex_setlk)] (\<lambda>_. 0, ex_flock) = Some (ex_setlk, fs_reply 3 OK s3)"
    using fs_step_call [of ex_flock 3 55 ex_setlk OK s3 "\<lambda>_. 0", folded s1_def, OF _ _ _ c] w by simp
  moreover have "file_locks (fs_reply 3 OK s3) = file_locks s3"
    by (simp add: fs_reply_def ask_fs_def Let_def)
  ultimately show ?thesis by (simp add: s3_def lock_enter_def upd_lock_def t)
qed

end
