(* ===== verification/FS_Lock_Run.thy ===== *)
theory FS_Lock_Run
  imports FS_Keeps_Procs FS_Lock_Theorems FS_Main_Example
begin

text \<open>
  The table of locks through every call and every run of the main loop: it stays well formed, and no two
  processes ever hold conflicting locks.  The contract \<open>fs_procs\<close> is interpreted on this invariant; what is
  left to show is what \<^verbatim>\<open>close()\<close> does when it drops the locks of a process, and \<open>lock_op_spec\<close>.
\<close>

definition locks_inv :: "fs \<Rightarrow> bool" where
  "locks_inv s \<longleftrightarrow> locks_ok s \<and> compatible s"

lemma locks_inv_same: "file_locks s' = file_locks s \<Longrightarrow> nr_locks s' = nr_locks s \<Longrightarrow> locks_inv s' = locks_inv s"
  by (frule (1) same_table) (simp add: locks_inv_def compatible_def)

lemma drop_one_ok:
  assumes "locks_inv s" "i < NR_LOCKS" "lock_type (file_locks s i) \<noteq> 0"
  shows "locks_inv ((upd_lock i (\<lambda>l. l\<lparr>lock_type := 0\<rparr>) s)\<lparr>nr_locks := nr_locks s - 1\<rparr>)"
proof -
  let ?l = "(file_locks s i)\<lparr>lock_type := 0\<rparr>"
  let ?s = "s\<lparr>file_locks := (file_locks s)(i := ?l), nr_locks := nr_locks s - 1\<rparr>"
  have "locks_ok ?s" using locks_ok_upd [of s i ?l "nr_locks s - 1"] assms by (simp add: locks_inv_def)
  moreover have "held ?s \<subseteq> held s"
    unfolding held_upd [OF assms(2)] held_split [OF assms(2), of s] by (auto simp: slot_bytes_def)
  ultimately have "locks_inv ?s" using assms(1) compatible_mono unfolding locks_inv_def by blast
  then show ?thesis by (simp add: upd_lock_def)
qed

lemma drop_locks_ok: "\<forall>i \<in> set is. i < NR_LOCKS \<Longrightarrow> locks_inv s \<Longrightarrow> locks_inv (drop_locks is rip pid s)"
proof (induction "is" arbitrary: s)
  case (Cons i "is")
  then show ?case using drop_one_ok [of s i] by (simp add: Let_def)
qed simp

lemma lock_op_ok:
  assumes "lock_op f req fd ua fl s = Some (r, out, s')" "locks_inv s"
  shows "locks_inv s'"
proof (cases "filp_ino (filps s f)")
  case (Some ip)
  then show ?thesis using lock_op_spec [of s f ip req fd ua fl] assms by (auto simp: locks_inv_def)
next
  case None
  obtain r0 s0 where a: "ask_fs (ReqCopyIn (who s) ua 16) s = (r0, s0)" by force
  with None assms(1) ask_table [OF a] have "s' = s0" by (auto simp: lock_op_def split: if_split_asm)
  with ask_table [OF a] assms(2) locks_inv_same [of s0 s] show ?thesis by blast
qed

interpretation lkp: fs_core locks_inv
  by unfold_locales ((rule locks_inv_same | subst locks_inv_same); simp add: upd_fs_defs)+

interpretation lkp: fs_mounts locks_inv
  by unfold_locales (rule locks_inv_same; simp add: upd_fs_defs)+

interpretation lkp: fs_procs locks_inv
proof unfold_locales
  fix s rip pid assume "locks_inv s"
  then show "locks_inv (drop_locks [0..<NR_LOCKS] rip pid s)" by (rule drop_locks_ok [rotated]) (simp del: upt_rec_numeral)
qed ((rule locks_inv_same; simp add: upd_fs_defs) | blast intro: lock_op_ok)+

text \<open>C38: Whatever calls arrive in whatever order, two processes never hold conflicting locks on a byte of a
  file, and the count of locks is the number of locks in the table: the main loop of the file system, with
  every open, close, fork, exec, exit and fcntl it serves, keeps the table of locks well formed and exclusive.\<close>

theorem locks_always_exclusive:
  assumes "locks_ok (snd st)" "compatible (snd st)" "fs_run inps st = Some (m', s')"
  shows "locks_ok s' \<and> compatible s'"
  using lkp.run_keeps [OF assms(3)] assms(1,2) by (simp add: locks_inv_def)

text \<open>Process 3 sets a lock on bytes 0 to 4, beside the lock of process 7.\<close>

lemma locks_always_exclusive_witness:
  "\<exists>m s. fs_run [(3, 55, ex_setlk)] (\<lambda>_. 0, ex_flock) = Some (m, s) \<and> compatible s
     \<and> (Some 2, 5, F_WRLCK, 4) \<in> held s \<and> (Some 2, 7, F_WRLCK, 10) \<in> held s"
proof -
  obtain m s where r: "fs_run [(3, 55, ex_setlk)] (\<lambda>_. 0, ex_flock) = Some (m, s)"
    and h: "file_locks s 0 = \<lparr>lock_type = F_WRLCK, lock_pid = 7, lock_inode = Some 2, lock_first = 10, lock_last = 19\<rparr>"
      "file_locks s 1 = \<lparr>lock_type = F_WRLCK, lock_pid = 5, lock_inode = Some 2, lock_first = 0, lock_last = 4\<rparr>"
    using ex_setlk_run by blast
  have "locks_ok (snd (\<lambda>_. 0, ex_flock))" "compatible (snd (\<lambda>_. 0, ex_flock))"
    using ex_locked_ok(1,2) locks_inv_same [of ex_flock ex_locked] by (simp_all add: ex_flock_def locks_inv_def)
  from locks_always_exclusive [OF this r] have "compatible s" by simp
  moreover have "(Some 2, 5, F_WRLCK, 4) \<in> held s" "(Some 2, 7, F_WRLCK, 10) \<in> held s"
    unfolding held_def slot_bytes_def using h by (auto intro: bexI [of _ 0] bexI [of _ 1])
  ultimately show ?thesis using r by blast
qed

end
