(* ===== verification/FS_Descriptors.thy ===== *)
theory FS_Descriptors
  imports FS_Keeps_Tables
begin

text \<open>
  The typing of file descriptors: a descriptor that is set denotes a slot of the table of open files
  that has an inode, and no slot has more descriptors than its counter says.  In particular a slot that
  counts as free (\<open>filp_count\<close> 0) is the value of no descriptor.
\<close>

subsection \<open>The invariant\<close>

definition tab_refs :: "(nat \<Rightarrow> nat option) \<Rightarrow> nat \<Rightarrow> nat" where
  "tab_refs tab f = length (filter (\<lambda>k. tab k = Some f) [0..<OPEN_MAX])"

definition fd_refs :: "fs \<Rightarrow> nat \<Rightarrow> nat" where
  "fd_refs s f = (\<Sum>p\<leftarrow>[0..<NR_FPROCS]. tab_refs (fp_filp (fprocs s p)) f)"

definition filp_set :: "fs \<Rightarrow> nat \<Rightarrow> bool" where
  "filp_set s f \<longleftrightarrow> f < NR_FILPS \<and> filp_ino (filps s f) \<noteq> None"

definition fds_ok :: "fs \<Rightarrow> bool" where
  "fds_ok s \<longleftrightarrow>
     list_all (\<lambda>p. list_all (\<lambda>k. case fp_filp (fprocs s p) k of None \<Rightarrow> True | Some f \<Rightarrow> filp_set s f) [0..<OPEN_MAX]) [0..<NR_FPROCS]
     \<and> list_all (\<lambda>f. int (fd_refs s f) \<le> filp_count (filps s f)) [0..<NR_FILPS]"

lemma fds_ok_iff:
  "fds_ok s \<longleftrightarrow>
     (\<forall>p k f. p < NR_FPROCS \<longrightarrow> k < OPEN_MAX \<longrightarrow> fp_filp (fprocs s p) k = Some f \<longrightarrow> filp_set s f)
     \<and> (\<forall>f < NR_FILPS. int (fd_refs s f) \<le> filp_count (filps s f))"
  unfolding fds_ok_def by (auto simp: list_all_iff simp del: upt_rec_numeral split: option.split)

lemma fds_typed: "fds_ok s \<Longrightarrow> p < NR_FPROCS \<Longrightarrow> k < OPEN_MAX \<Longrightarrow> fp_filp (fprocs s p) k = Some f \<Longrightarrow> filp_set s f"
  by (simp add: fds_ok_iff)

lemma fds_counted: "fds_ok s \<Longrightarrow> f < NR_FILPS \<Longrightarrow> int (fd_refs s f) \<le> filp_count (filps s f)"
  by (simp add: fds_ok_iff)

lemma fds_okI:
  "(\<And>p k f. p < NR_FPROCS \<Longrightarrow> k < OPEN_MAX \<Longrightarrow> fp_filp (fprocs s p) k = Some f \<Longrightarrow> filp_set s f) \<Longrightarrow>
   (\<And>f. f < NR_FILPS \<Longrightarrow> int (fd_refs s f) \<le> filp_count (filps s f)) \<Longrightarrow> fds_ok s"
  by (simp add: fds_ok_iff)

subsection \<open>Counting\<close>

lemma tab_refs_card: "tab_refs tab f = card {k. k < OPEN_MAX \<and> tab k = Some f}"
  unfolding tab_refs_def by (subst distinct_length_filter) (auto intro: arg_cong [where f = card])

lemma fd_refs_sum: "fd_refs s f = (\<Sum>p<NR_FPROCS. tab_refs (fp_filp (fprocs s p)) f)"
  unfolding fd_refs_def by (simp only: interv_sum_list_conv_sum_set_nat atLeast0LessThan set_upt)

lemma tab_refs_clear: "k < OPEN_MAX \<Longrightarrow> tab k = Some f \<Longrightarrow> tab_refs tab f = Suc (tab_refs (tab(k := None)) f)"
proof -
  assume "k < OPEN_MAX" "tab k = Some f"
  then have "{j. j < OPEN_MAX \<and> tab j = Some f} = insert k {j. j < OPEN_MAX \<and> (tab(k := None)) j = Some f}"
    by auto
  then show ?thesis unfolding tab_refs_card by (simp add: card_insert_if)
qed

lemma tab_refs_set: "k < OPEN_MAX \<Longrightarrow> tab k = None \<Longrightarrow> tab_refs (tab(k := Some f)) f = Suc (tab_refs tab f)"
  using tab_refs_clear [of k "tab(k := Some f)" f] by (simp add: fun_upd_idem)

lemma tab_refs_other: "tab k \<noteq> Some f \<Longrightarrow> x \<noteq> Some f \<Longrightarrow> tab_refs (tab(k := x)) f = tab_refs tab f"
  unfolding tab_refs_card by (rule arg_cong [where f = card]) auto

lemma tab_refs_outside: "\<not> k < OPEN_MAX \<Longrightarrow> tab_refs (tab(k := x)) f = tab_refs tab f"
  unfolding tab_refs_card by (rule arg_cong [where f = card]) auto

lemma fd_refs_cong: "(\<And>p. p < NR_FPROCS \<Longrightarrow> fp_filp (fprocs s p) = fp_filp (fprocs t p)) \<Longrightarrow> fd_refs s = fd_refs t"
  unfolding fd_refs_sum by auto

lemma fd_refs_filps [simp]: "fd_refs (s\<lparr>filps := x\<rparr>) = fd_refs s"
  by (rule fd_refs_cong) simp

lemma fd_refs_upd:
  assumes "c < NR_FPROCS"
  shows "fd_refs (upd_fproc c g s) f + tab_refs (fp_filp (fprocs s c)) f = fd_refs s f + tab_refs (fp_filp (g (fprocs s c))) f"
proof -
  have c: "c \<in> {..<NR_FPROCS}" using assms by simp
  show ?thesis unfolding fd_refs_sum
    by (subst (1 2) sum.remove [OF _ c]) (auto simp: upd_fproc_def intro: sum.cong)
qed

lemma refs_pos:
  assumes "p < NR_FPROCS" "k < OPEN_MAX" "fp_filp (fprocs s p) k = Some f"
  shows "0 < fd_refs s f"
proof -
  have "tab_refs (fp_filp (fprocs s p)) f > 0" using tab_refs_clear [of k "fp_filp (fprocs s p)" f] assms(2,3) by simp
  moreover have "tab_refs (fp_filp (fprocs s p)) f \<le> fd_refs s f"
    unfolding fd_refs_sum using assms(1) by (intro member_le_sum) auto
  ultimately show ?thesis by linarith
qed

subsection \<open>What the other operations leave alone\<close>

definition fds_same :: "fs \<Rightarrow> fs \<Rightarrow> bool" where
  "fds_same t s \<longleftrightarrow> (\<forall>p. fp_filp (fprocs s p) = fp_filp (fprocs t p)) \<and> (\<forall>f. filp_count (filps s f) = filp_count (filps t f))
     \<and> (\<forall>f. filp_ino (filps t f) \<noteq> None \<longrightarrow> filp_ino (filps s f) \<noteq> None) \<and> cfp s = cfp t"

interpretation fdt: fs_core "fds_same t" for t
  by unfold_locales (auto simp: fds_same_def upd_fs_defs)

interpretation fdt: fs_locks "fds_same t" for t
  by unfold_locales (auto simp: fds_same_def upd_fs_defs)

interpretation fdt: fs_mounts "fds_same t" for t
  by unfold_locales (auto simp: fds_same_def upd_fs_defs)

lemma fds_same_refl: "fds_same s s"
  by (simp add: fds_same_def)

lemma fds_same_trans: "fds_same s t \<Longrightarrow> fds_same t u \<Longrightarrow> fds_same s u"
  by (simp add: fds_same_def)

lemma fds_same_refs: "fds_same t s \<Longrightarrow> fd_refs s = fd_refs t"
  by (rule fd_refs_cong) (simp add: fds_same_def)

lemma fds_same_ok: "fds_same t s \<Longrightarrow> fds_ok t \<Longrightarrow> fds_ok s"
  by (frule fds_same_refs) (auto simp: fds_ok_iff fds_same_def filp_set_def)

lemma fds_same_set: "fds_same t s \<Longrightarrow> filp_set t f \<Longrightarrow> filp_set s f"
  by (auto simp: fds_same_def filp_set_def)

lemma fds_ok_cong: "fds_same t s \<Longrightarrow> fds_same s t \<Longrightarrow> fds_ok s = fds_ok t"
  using fds_same_ok by blast

interpretation fdo: fs_core fds_ok
proof unfold_locales
  fix s i r assume "fds_ok s"
  then show "fds_ok (upd_filp i (\<lambda>x. x\<lparr>filp_ino := Some r\<rparr>) s)"
    by (rule fds_same_ok [rotated]) (simp add: fds_same_def upd_filp_def)
qed (rule fds_ok_cong; simp add: fds_same_def upd_fs_defs)+

interpretation fdo: fs_locks fds_ok
  by unfold_locales (rule fds_ok_cong; simp add: fds_same_def upd_fs_defs)+

interpretation fdo: fs_mounts fds_ok
  by unfold_locales (rule fds_ok_cong; simp add: fds_same_def upd_fs_defs)+

text \<open>Nor does it depend on the current process, the caller, or the call.\<close>

lemma fds_ok_eq: "fprocs s = fprocs t \<Longrightarrow> filps s = filps t \<Longrightarrow> fds_ok s = fds_ok t"
  using fds_same_ok [of "s\<lparr>cfp := 0\<rparr>" "t\<lparr>cfp := 0\<rparr>"] by (simp add: fds_ok_iff filp_set_def fd_refs_cong [of s t])

lemma fds_ok_current [simp]:
  "fds_ok (s\<lparr>cfp := c\<rparr>) = fds_ok s" "fds_ok (s\<lparr>who := w\<rparr>) = fds_ok s" "fds_ok (s\<lparr>fs_call := n\<rparr>) = fds_ok s"
  "fds_ok (s\<lparr>super_user := b\<rparr>) = fds_ok s"
  by (rule fds_ok_eq; simp)+

subsection \<open>Changing one descriptor\<close>

lemma set_descriptor_ok:
  assumes ok: "fds_ok s" and c: "c < NR_FPROCS" and k: "k < OPEN_MAX" and free: "fp_filp (fprocs s c) k = None"
    and f: "filp_set s f" and room: "int (fd_refs s f) < filp_count (filps s f)"
  shows "fds_ok (upd_fproc c (\<lambda>p. p\<lparr>fp_filp := (fp_filp p)(k := Some f)\<rparr>) s)" (is "fds_ok ?t")
proof (rule fds_okI)
  show "filp_set ?t g" if "p < NR_FPROCS" "j < OPEN_MAX" "fp_filp (fprocs ?t p) j = Some g" for p j g
    using that fds_typed [OF ok, of p j g] f by (auto simp: upd_fproc_def filp_set_def split: if_split_asm)
  fix g assume g: "g < NR_FILPS"
  have "fd_refs ?t g = (if g = f then Suc (fd_refs s g) else fd_refs s g)"
    using fd_refs_upd [OF c, of "\<lambda>p. p\<lparr>fp_filp := (fp_filp p)(k := Some f)\<rparr>" s g] free
      tab_refs_set [of k "fp_filp (fprocs s c)" f] tab_refs_other [of "fp_filp (fprocs s c)" k g "Some f"] k
    by (auto split: if_split_asm)
  then show "int (fd_refs ?t g) \<le> filp_count (filps ?t g)"
    using fds_counted [OF ok g] room by (auto simp: upd_fproc_def)
qed

lemma clear_descriptor_refs:
  assumes c: "c < NR_FPROCS" and k: "k < OPEN_MAX" and old: "fp_filp (fprocs s c) k = Some f"
  shows "fd_refs s g = fd_refs (upd_fproc c (\<lambda>p. p\<lparr>fp_filp := (fp_filp p)(k := None)\<rparr>) s) g + (if g = f then 1 else 0)"
  using fd_refs_upd [OF c, of "\<lambda>p. p\<lparr>fp_filp := (fp_filp p)(k := None)\<rparr>" s g] old
    tab_refs_clear [of k "fp_filp (fprocs s c)" f] tab_refs_other [of "fp_filp (fprocs s c)" k g None] k
  by (auto split: if_split_asm)

lemma clear_descriptor_typed:
  assumes "fds_ok s" "p < NR_FPROCS" "j < OPEN_MAX"
    "fp_filp (fprocs (upd_fproc c (\<lambda>p. p\<lparr>fp_filp := (fp_filp p)(k := None)\<rparr>) s) p) j = Some g"
  shows "filp_set s g"
  using assms fds_typed [of s p j g] by (auto simp: upd_fproc_def split: if_split_asm)

text \<open>A change of a counter or of the inode of a slot.\<close>

lemma set_count_ok:
  assumes ok: "fds_ok s" and n: "f < NR_FILPS \<Longrightarrow> int (fd_refs s f) \<le> filp_count (h (filps s f))"
    and ino: "filp_ino (filps s f) \<noteq> None \<Longrightarrow> filp_ino (h (filps s f)) \<noteq> None"
  shows "fds_ok (upd_filp f h s)" (is "fds_ok ?t")
proof (rule fds_okI)
  show "filp_set ?t g" if "p < NR_FPROCS" "j < OPEN_MAX" "fp_filp (fprocs ?t p) j = Some g" for p j g
    using that fds_typed [OF ok, of p j g] ino by (auto simp: upd_filp_def filp_set_def)
  show "int (fd_refs ?t g) \<le> filp_count (filps ?t g)" if "g < NR_FILPS" for g
    using fds_counted [OF ok that] n that by (auto simp: upd_filp_def)
qed

lemma share_filp_ok:
  assumes "fds_ok s" "cfp s < NR_FPROCS" "k < OPEN_MAX" "fp_filp (fprocs s (cfp s)) k = None" "filp_set s f"
  shows "fds_ok (share_filp f k s)"
proof -
  let ?t = "upd_filp f (\<lambda>x. x\<lparr>filp_count := filp_count x + 1\<rparr>) s"
  have le: "int (fd_refs s f) \<le> filp_count (filps s f)" using fds_counted assms(1,5) by (simp add: filp_set_def)
  have t: "fds_ok ?t" using le by (intro set_count_ok [OF assms(1)]) auto
  have "fds_ok (upd_fproc (cfp s) (\<lambda>p. p\<lparr>fp_filp := (fp_filp p)(k := Some f)\<rparr>) ?t)"
    using assms le by (intro set_descriptor_ok [OF t assms(2,3)]) (auto simp: upd_filp_def filp_set_def)
  then show ?thesis by (simp add: share_filp_def)
qed

lemma unclaim_ok:
  assumes ok: "fds_ok s" and c: "cfp s < NR_FPROCS" and k: "k < OPEN_MAX" and old: "fp_filp (fprocs s (cfp s)) k = Some f"
    and one: "filp_count (filps s f) = 1"
  shows "fds_ok (unclaim_fd k f s)"
proof (rule fds_okI)
  let ?u = "upd_fproc (cfp s) (\<lambda>p. p\<lparr>fp_filp := (fp_filp p)(k := None)\<rparr>) s"
  have r: "fd_refs (unclaim_fd k f s) = fd_refs ?u"
    by (rule fd_refs_cong) (simp add: unclaim_fd_def upd_filp_def)
  note R = clear_descriptor_refs [OF c k old]
  show "filp_set (unclaim_fd k f s) g" if "p < NR_FPROCS" "j < OPEN_MAX" "fp_filp (fprocs (unclaim_fd k f s) p) j = Some g" for p j g
    using clear_descriptor_typed [OF ok that(1,2), of "cfp s" k g] that(3)
    by (auto simp: unclaim_fd_def upd_filp_def upd_fproc_def filp_set_def)
  have f: "f < NR_FILPS" using fds_typed [OF ok c k old] by (simp add: filp_set_def)
  show "int (fd_refs (unclaim_fd k f s) g) \<le> filp_count (filps (unclaim_fd k f s) g)" if g: "g < NR_FILPS" for g
    using R [of g] fds_counted [OF ok g] fds_counted [OF ok f] one unfolding r
    by (auto simp: unclaim_fd_def upd_filp_def upd_fproc_def split: if_split_asm)
qed

end
