(* ===== verification/FS_Descriptor_Calls.thy ===== *)
theory FS_Descriptor_Calls
  imports FS_Descriptors
begin

text \<open>
  The calls that change descriptors keep them typed and counted.
\<close>

lemma cfp_upd [simp]: "cfp (upd_fproc i h s) = cfp s"
  by (simp add: upd_fproc_def)

subsection \<open>Finding a descriptor\<close>

lemma first_fd_SomeD: "first_fd tab ks = Some k \<Longrightarrow> k \<in> set ks \<and> tab k = None"
  by (induction ks) (auto split: if_splits)

lemma first_free_SomeD: "first_free_filp tab gs = Some f \<Longrightarrow> f \<in> set gs \<and> filp_count (tab f) = 0"
  by (induction gs) (auto split: if_splits)

lemma get_fd_InrD:
  assumes "get_fd start bits s = (Inr (k, f), s1)"
  shows "k < OPEN_MAX \<and> fp_filp (fprocs s (cfp s)) k = None \<and> f < NR_FILPS \<and> filp_count (filps s f) = 0
    \<and> s1 = upd_filp f (\<lambda>x. x\<lparr>filp_mode := bits, filp_pos := 0, filp_flags := 0\<rparr>) s"
  using assms unfolding get_fd_def
  by (auto simp del: upt_rec_numeral split: option.split_asm dest!: first_fd_SomeD first_free_SomeD)

lemma get_fd_only: "get_fd start bits s = (r, s1) \<Longrightarrow> fds_same s s1"
  unfolding get_fd_def
  by (auto simp: fdt.k_filp fds_same_refl upd_filp_def fds_same_def simp del: upt_rec_numeral split: option.split_asm)

lemma get_filp_SomeD:
  "get_filp fd s = (Some f, s1) \<Longrightarrow> 0 \<le> fd \<and> fd < int OPEN_MAX \<and> fp_filp (fprocs s (cfp s)) (nat fd) = Some f \<and> s1 = s\<lparr>err_code := EBADF\<rparr>"
  by (auto simp: get_filp_def Let_def split: if_split_asm)

lemma get_filp_NoneD:
  "get_filp fd s = (None, s1) \<Longrightarrow> (0 \<le> fd \<longrightarrow> fd < int OPEN_MAX \<longrightarrow> fp_filp (fprocs s (cfp s)) (nat fd) = None) \<and> s1 = s\<lparr>err_code := EBADF\<rparr>"
  by (auto simp: get_filp_def Let_def split: if_split_asm)

subsection \<open>Closing\<close>

lemma drop_descriptor_ok:
  assumes ok: "fds_ok s" and c: "c < NR_FPROCS" and k: "k < OPEN_MAX" and old: "fp_filp (fprocs s c) k = Some f"
    and t: "fds_same (upd_filp f (\<lambda>x. x\<lparr>filp_count := filp_count x - 1\<rparr>) s) t"
    and h: "fp_filp (h (fprocs t c)) = (fp_filp (fprocs t c))(k := None)"
  shows "fds_ok (upd_fproc c h t)" (is "fds_ok ?u")
proof (rule fds_okI)
  let ?v = "upd_fproc c (\<lambda>p. p\<lparr>fp_filp := (fp_filp p)(k := None)\<rparr>) s"
  have tab: "fp_filp (fprocs ?u p) = fp_filp (fprocs ?v p)" for p
    using t h by (simp add: fds_same_def upd_filp_def upd_fproc_def)
  have r: "fd_refs ?u = fd_refs ?v" by (rule fd_refs_cong) (rule tab)
  show "filp_set ?u g" if g: "p < NR_FPROCS" "j < OPEN_MAX" "fp_filp (fprocs ?u p) j = Some g" for p j g
  proof -
    have "filp_set s g" using clear_descriptor_typed [OF ok g(1,2), of c k g] g(3) unfolding tab .
    then have "filp_set t g" by (intro fds_same_set [OF t]) (auto simp: filp_set_def upd_filp_def)
    then show ?thesis by (simp add: filp_set_def upd_fproc_def)
  qed
  show "int (fd_refs ?u g) \<le> filp_count (filps ?u g)" if g: "g < NR_FILPS" for g
    using clear_descriptor_refs [OF c k old, of g] fds_counted [OF ok g] t unfolding r
    by (auto simp: fds_same_def upd_filp_def upd_fproc_def split: if_split_asm)
qed

lemma close_filp_only:
  assumes "close_filp f rip s = Some s'"
  shows "fds_same (upd_filp f (\<lambda>x. x\<lparr>filp_count := filp_count x - 1\<rparr>) s) s'"
proof -
  let ?s = "upd_filp f (\<lambda>x. x\<lparr>filp_count := filp_count x - 1\<rparr>) s"
  show ?thesis
    using assms unfolding close_filp_def Let_def
    by (auto simp: fdt.k_inode fds_same_refl split: if_split_asm dest!: fdt.put_inode_keeps [where t = ?s])
qed

lemma do_close_ok:
  assumes ok: "fds_ok s0" and c: "cfp s0 < NR_FPROCS" and e: "do_close fd s0 = Some (r, s')"
  shows "fds_ok s'" and "cfp s' = cfp s0"
    and "0 \<le> fd \<Longrightarrow> fd < int OPEN_MAX \<Longrightarrow> fp_filp (fprocs s' (cfp s0)) (nat fd) = None"
    and "(p, k) \<noteq> (cfp s0, nat fd) \<Longrightarrow> fp_filp (fprocs s' p) k = fp_filp (fprocs s0 p) k"
proof -
  have main: "fds_ok s' \<and> cfp s' = cfp s0 \<and> (0 \<le> fd \<longrightarrow> fd < int OPEN_MAX \<longrightarrow> fp_filp (fprocs s' (cfp s0)) (nat fd) = None)
      \<and> (\<forall>p k. (p, k) \<noteq> (cfp s0, nat fd) \<longrightarrow> fp_filp (fprocs s' p) k = fp_filp (fprocs s0 p) k)"
    using e
  proof (rule do_close_steps)
    fix s assume g: "get_filp fd s0 = (None, s)" "s' = s"
    then show ?thesis using get_filp_NoneD [OF g(1)] ok by (simp add: fdo.k_err)
  next
    fix f s rip s1 s2 s3
    let ?u = "cleared_fd fd s3"
    let ?d = "drop_locks [0..<NR_LOCKS] (Some rip) (fp_pid (fprocs ?u (cfp ?u))) ?u"
    assume g: "get_filp fd s0 = (Some f, s)" and 1: "s1 = s \<or> close_special rip s = Some s1"
      and 2: "s2 = s1 \<or> (\<exists>nr n. release rip nr n s1 = Some s2)" and 3: "close_filp f rip s2 = Some s3"
      and 4: "s' = ?u \<or> s' = ?d \<or> lock_revive ?d = Some s'"
    note G = get_filp_SomeD [OF g]
    have k1: "fds_same s s1" using 1 fdt.close_special_keeps [of rip s s1 s] fds_same_refl by blast
    have k2: "fds_same s s2" using 2 k1 fdt.release_keeps [where s = s1 and s' = s2 and t = s] by blast
    have "fds_same ?u ?d" using fds_same_refl by (simp only: fdt.drop_locks_keeps)
    then have k4: "fds_same ?u s'" using 4 fds_same_refl fdt.lock_revive_keeps [of ?d s' ?u] by blast
    note k3 = close_filp_only [OF 3]
    have c3: "cfp s3 = cfp s0" using k3 k2 G by (simp add: fds_same_def upd_filp_def)
    have tab2: "fp_filp (fprocs s2 p) = fp_filp (fprocs s0 p)" for p using k2 G by (simp add: fds_same_def)
    have ok2: "fds_ok s2" using fds_same_ok [OF k2] ok G by (simp add: fdo.k_err)
    have "fds_ok ?u"
      unfolding cleared_fd_def c3 by (rule drop_descriptor_ok [OF ok2 c _ _ k3, of "nat fd"]) (use G tab2 in auto)
    moreover have "fp_filp (fprocs s3 p) = fp_filp (fprocs s0 p)" for p using k3 tab2 by (simp add: fds_same_def upd_filp_def)
    ultimately show ?thesis
      using k4 fds_same_ok [OF k4] by (auto simp: fds_same_def cleared_fd_def upd_fproc_def c3)
  qed
  show "fds_ok s'" "cfp s' = cfp s0" using main by blast+
  show "0 \<le> fd \<Longrightarrow> fd < int OPEN_MAX \<Longrightarrow> fp_filp (fprocs s' (cfp s0)) (nat fd) = None" using main by blast
  show "(p, k) \<noteq> (cfp s0, nat fd) \<Longrightarrow> fp_filp (fprocs s' p) k = fp_filp (fprocs s0 p) k" using main by blast
qed

lemma close_all_ok: "close_all ks s = Some s' \<Longrightarrow> fds_ok s \<Longrightarrow> cfp s < NR_FPROCS \<Longrightarrow> fds_ok s' \<and> cfp s' = cfp s"
proof (induction ks arbitrary: s)
  case (Cons i ks)
  from Cons.prems(1) obtain r s1 where 1: "do_close (int i) s = Some (r, s1)" and 2: "close_all ks s1 = Some s'"
    by (auto elim!: bindE)
  show ?case using Cons.IH [OF 2] do_close_ok(1,2) [OF Cons.prems(2,3) 1] Cons.prems(3) by simp
qed simp

lemma close_marked_ok: "close_marked b ks s = Some s' \<Longrightarrow> fds_ok s \<Longrightarrow> cfp s < NR_FPROCS \<Longrightarrow> fds_ok s' \<and> cfp s' = cfp s"
proof (induction ks arbitrary: s)
  case (Cons i ks)
  from Cons.prems(1) obtain s1 where 1: "(if bit b i then map_option snd (do_close (int i) s) else Some s) = Some s1"
    and 2: "close_marked b ks s1 = Some s'" by (auto elim!: bindE)
  have "fds_ok s1 \<and> cfp s1 = cfp s"
    using 1 Cons.prems do_close_ok(1,2) [OF Cons.prems(2,3)] by (auto split: if_split_asm)
  then show ?case using Cons.IH [OF 2] Cons.prems(3) by simp
qed simp

subsection \<open>Sharing\<close>

lemma do_dup_ok:
  assumes ok: "fds_ok s0" and c: "cfp s0 < NR_FPROCS" and e: "do_dup fd fd2 s0 = Some (r, s')"
  shows "fds_ok s'"
proof -
  define rfd where "rfd = (if fd div 64 mod 2 = 1 then fd - 64 else fd)"
  note e = e [unfolded do_dup_def, folded rfd_def, unfolded Let_def]
  show ?thesis
  proof (cases "fst (get_filp rfd s0)")
    case None
    then obtain s where g: "get_filp rfd s0 = (None, s)" by (cases "get_filp rfd s0") auto
    then show ?thesis using e get_filp_NoneD [OF g] ok by (auto simp: fdo.k_err)
  next
    case (Some f)
    then obtain s where g: "get_filp rfd s0 = (Some f, s)" by (cases "get_filp rfd s0") auto
    note G = get_filp_SomeD [OF g]
    have ok1: "fds_ok s" and c1: "cfp s < NR_FPROCS" using G ok c by (simp_all add: fdo.k_err)
    have rfd: "nat rfd < OPEN_MAX" "fp_filp (fprocs s (cfp s)) (nat rfd) = Some f" using G by auto
    have f: "filp_set s f" using fds_typed [OF ok1 c1 rfd] .
    show ?thesis
    proof (cases "fd = rfd")
      case True
      show ?thesis
      proof (cases "get_fd 0 0 s")
        case (Pair q s1)
        note get = this
        have k: "fds_same s s1" by (rule get_fd_only [OF get])
        show ?thesis
        proof (cases q)
          case (Inl x)
          then show ?thesis using e g True get fds_same_ok [OF k ok1] by auto
        next
          case (Inr kg)
          then obtain j h where kg: "kg = (j, h)" by force
          note D = get_fd_InrD [OF get [unfolded Inr kg]]
          have "fds_ok (share_filp f j s1)"
          proof (rule share_filp_ok)
            show "fds_ok s1" by (rule fds_same_ok [OF k ok1])
            show "cfp s1 < NR_FPROCS" "fp_filp (fprocs s1 (cfp s1)) j = None" using k c1 D by (simp_all add: fds_same_def)
            show "j < OPEN_MAX" using D by simp
            show "filp_set s1 f" by (rule fds_same_set [OF k f])
          qed
          then show ?thesis using e g True get Inr kg by simp
        qed
      qed
    next
      case False
      show ?thesis
      proof (cases "fd2 < 0 \<or> fd2 \<ge> int OPEN_MAX \<or> rfd = fd2")
        case True
        then show ?thesis using e g False ok1 by (auto split: if_split_asm)
      next
        case in_range: False
        then obtain r1 s1 where cl: "do_close fd2 s = Some (r1, s1)" and s': "s' = share_filp f (nat fd2) s1"
          using e g False by (auto split: if_split_asm)
        note C = do_close_ok [OF ok1 c1 cl]
        have "fds_ok (share_filp f (nat fd2) s1)"
        proof (rule share_filp_ok)
          show "fds_ok s1" "cfp s1 < NR_FPROCS" using C(1,2) c1 by simp_all
          show "nat fd2 < OPEN_MAX" using in_range by auto
          show "fp_filp (fprocs s1 (cfp s1)) (nat fd2) = None" using C(2,3) in_range by simp
          have "fp_filp (fprocs s1 (cfp s)) (nat rfd) = Some f" using C(4) [of "cfp s" "nat rfd"] rfd in_range G by auto
          then show "filp_set s1 f" using fds_typed [OF C(1) c1 rfd(1)] by blast
        qed
        then show ?thesis using s' by simp
      qed
    qed
  qed
qed

lemma do_fcntl_ok:
  assumes ok: "fds_ok s0" and c: "cfp s0 < NR_FPROCS" and e: "do_fcntl fd req addr n1 fl s0 = Some (r, fo, s')"
  shows "fds_ok s'"
proof (cases "fst (get_filp fd s0)")
  case None
  then obtain s where g: "get_filp fd s0 = (None, s)" by (cases "get_filp fd s0") auto
  then show ?thesis using e get_filp_NoneD [OF g] ok by (auto simp: do_fcntl_def fdo.k_err)
next
  case (Some f)
  then obtain s where g: "get_filp fd s0 = (Some f, s)" by (cases "get_filp fd s0") auto
  note G = get_filp_SomeD [OF g]
  have ok1: "fds_ok s" and c1: "cfp s < NR_FPROCS" using G ok c by (simp_all add: fdo.k_err)
  have fd: "nat fd < OPEN_MAX" "fp_filp (fprocs s (cfp s)) (nat fd) = Some f" using G by auto
  have f: "filp_set s f" using fds_typed [OF ok1 c1 fd] .
  show ?thesis
  proof (cases "req = 0")
    case True
    show ?thesis
    proof (cases "addr < 0 \<or> addr \<ge> int OPEN_MAX")
      case True
      then show ?thesis using e g \<open>req = 0\<close> ok1 by (auto simp: do_fcntl_def)
    next
      case False
      show ?thesis
      proof (cases "get_fd (nat addr) 0 s")
        case (Pair q s1)
        note get = this
        have k: "fds_same s s1" by (rule get_fd_only [OF get])
        show ?thesis
        proof (cases q)
          case (Inl x)
          then show ?thesis using e g True False get fds_same_ok [OF k ok1] by (auto simp: do_fcntl_def)
        next
          case (Inr kg)
          then obtain j h where kg: "kg = (j, h)" by force
          note D = get_fd_InrD [OF get [unfolded Inr kg]]
          have "fds_ok (share_filp f j s1)"
          proof (rule share_filp_ok)
            show "fds_ok s1" by (rule fds_same_ok [OF k ok1])
            show "cfp s1 < NR_FPROCS" "fp_filp (fprocs s1 (cfp s1)) j = None" using k c1 D by (simp_all add: fds_same_def)
            show "j < OPEN_MAX" using D by simp
            show "filp_set s1 f" by (rule fds_same_set [OF k f])
          qed
          then show ?thesis using e g True False get Inr kg by (auto simp: do_fcntl_def)
        qed
      qed
    qed
  next
    case False
    then show ?thesis using e g ok1
      by (auto simp: do_fcntl_def Let_def fdo.k_fproc fdo.k_filp split: if_split_asm dest!: fdo.lock_op_keeps)
  qed
qed

subsection \<open>Processes\<close>

lemma inherit_filps:
  "inherit tab ks s = s\<lparr>filps := (\<lambda>f. (filps s f)\<lparr>filp_count := filp_count (filps s f) + int (length (filter (\<lambda>k. tab k = Some f) ks))\<rparr>)\<rparr>"
proof (induction ks arbitrary: s)
  case (Cons k ks)
  have u: "f = g \<Longrightarrow> s\<lparr>filps := f\<rparr> = s\<lparr>filps := g\<rparr>" for f g by simp
  show ?case
    by (auto simp: Cons.IH upd_filp_def split: option.split intro!: u)
qed simp

lemma do_fork_ok:
  assumes ok: "fds_ok s" and e: "fs_do_fork parent child pid s = Some (r, s')"
  shows "fds_ok s'"
proof (cases "who s = MM_PROC_NR")
  case True
  with e have p: "nat parent < NR_FPROCS" "nat child < NR_FPROCS"
    by (auto simp: fs_do_fork_def proc_nr_ok_def split: if_split_asm)
  let ?cp = "fprocs s (nat parent)"
  let ?t = "inherit (fp_filp ?cp) [0..<OPEN_MAX] (upd_fproc (nat child) (\<lambda>_. ?cp) s)"
  have "fds_ok ?t"
  proof (rule fds_okI)
    have fp: "fprocs ?t = (fprocs s)(nat child := ?cp)" and ino: "filp_ino (filps ?t f) = filp_ino (filps s f)" for f
      by (simp_all add: inherit_filps upd_fproc_def del: upt_rec_numeral)
    show "filp_set ?t f" if "q < NR_FPROCS" "k < OPEN_MAX" "fp_filp (fprocs ?t q) k = Some f" for q k f
      using that fds_typed [OF ok _ that(2), of "if q = nat child then nat parent else q" f] p(1) unfolding fp filp_set_def ino
      by (auto split: if_split_asm)
    fix f assume f: "f < NR_FILPS"
    have "fd_refs ?t f = fd_refs (upd_fproc (nat child) (\<lambda>_. ?cp) s) f"
      by (simp add: inherit_filps del: upt_rec_numeral)
    moreover have "filp_count (filps ?t f) = filp_count (filps s f) + int (tab_refs (fp_filp ?cp) f)"
      by (simp add: inherit_filps tab_refs_def upd_fproc_def del: upt_rec_numeral)
    ultimately show "int (fd_refs ?t f) \<le> filp_count (filps ?t f)"
      using fd_refs_upd [OF p(2), of "\<lambda>_. ?cp" s f] fds_counted [OF ok f] by linarith
  qed
  with e True show ?thesis
    by (auto simp: fs_do_fork_def Let_def fdo.dup_inode_keeps fdo.k_fproc simp del: upt_rec_numeral elim!: bindE split: if_split_asm)
next
  case False
  with e ok show ?thesis by (auto simp: fs_do_fork_def)
qed

lemma do_exec_ok:
  assumes "fds_ok s" "fs_do_exec slot s = Some (r, s')"
  shows "fds_ok s'"
  using assms
  by (auto simp: fs_do_exec_def Let_def proc_nr_ok_def simp del: upt_rec_numeral split: if_split_asm dest!: close_marked_ok)

lemma do_unpause_ok:
  assumes ok: "fds_ok s" and e: "do_unpause p s = Some (r, s')"
  shows "fds_ok s' \<and> (cfp s' = cfp s \<or> cfp s' = nat p)"
proof -
  let ?u = "\<lambda>t. fs_reply p EINTR (upd_fproc (nat p) (\<lambda>p. p\<lparr>fp_suspended := False\<rparr>) t)"
  have u: "fds_ok (?u t) = fds_ok t" "cfp (?u t) = cfp t" for t
    by (simp_all add: fdo.reply_keeps fdo.k_fproc) (simp add: fs_reply_def ask_fs_def Let_def upd_fproc_def)
  have "s' = s \<or> s' = ?u s \<or> (\<exists>dp m r t. call_task dp m (s\<lparr>cfp := nat p\<rparr>) = Some (r, t) \<and> s' = ?u t)"
    using e unfolding do_unpause_def Let_def by (clarsimp elim!: bindE split: if_split_asm; blast)
  then consider "s' = s" | "s' = ?u s" | dp m r t where "call_task dp m (s\<lparr>cfp := nat p\<rparr>) = Some (r, t)" "s' = ?u t" by blast
  then show ?thesis
  proof cases
    case 3
    have "fds_ok t" using fdo.call_task_keeps [OF 3(1)] ok by simp
    moreover have "cfp t = nat p"
      using fdt.call_task_keeps [OF 3(1), of "s\<lparr>cfp := nat p\<rparr>"] by (simp add: fds_same_refl) (simp add: fds_same_def)
    ultimately show ?thesis using 3(2) u by simp
  qed (use ok u in simp_all)
qed

lemma revoke_fds_ok: "revoke_fds dev p ks s = Some s' \<Longrightarrow> fds_ok s \<longrightarrow> fds_ok s'"
proof (induction ks arbitrary: s)
  case (Cons k ks)
  show ?case using Cons.prems Cons.IH
    by (fastforce simp: fdo.k_filp elim!: bindE split: option.split_asm if_split_asm dest!: fdo.dev_close_keeps)
qed simp

lemma revoke_tty_ok: "revoke_tty dev ps s = Some s' \<Longrightarrow> fds_ok s \<longrightarrow> fds_ok s'"
proof (induction ps arbitrary: s)
  case (Cons p ps)
  let ?s = "if fp_tty (fprocs s p) = dev then upd_fproc p (\<lambda>x. x\<lparr>fp_tty := 0\<rparr>) s else s"
  from Cons.prems obtain s1 where 1: "revoke_fds dev p [0..<OPEN_MAX] ?s = Some s1" and 2: "revoke_tty dev ps s1 = Some s'"
    by (auto simp del: upt_rec_numeral elim!: bindE)
  have "fds_ok ?s = fds_ok s" by (simp add: fdo.k_fproc)
  then show ?case using revoke_fds_ok [OF 1] Cons.IH [OF 2] by blast
qed simp

lemma do_exit_ok:
  assumes ok: "fds_ok s" and e: "fs_do_exit slot s = Some (r, s')"
  shows "fds_ok s'"
proof (cases "who s = MM_PROC_NR")
  case True
  show ?thesis
    using e True
  proof (rule do_exit_steps)
    fix s3 s4 s5 s6
    assume slot: "proc_nr_ok slot"
      and 3: "s3 = s\<lparr>cfp := nat slot\<rparr> \<or> (\<exists>n r s2. do_unpause slot (s\<lparr>cfp := nat slot, susp_count := n\<rparr>) = Some (r, s2)
         \<and> s3 = upd_fproc (cfp s2) (\<lambda>p. p\<lparr>fp_suspended := False\<rparr>) s2)"
      and 4: "close_all [0..<OPEN_MAX] s3 = Some s4"
      and 5: "put_inode (fp_rootdir (fprocs s4 (cfp s4))) s4 = Some s5"
      and 6: "put_inode (fp_workdir (fprocs s5 (cfp s5))) s5 = Some s6"
      and 7: "let s7 = upd_fproc (cfp s6) (\<lambda>p. p\<lparr>fp_rootdir := None, fp_workdir := None\<rparr>) s6;
         s8 = upd_fproc (cfp s7) (\<lambda>p. p\<lparr>fp_sesldr := False\<rparr>) s7
     in s' = s7 \<or> s' = s8 \<or> (\<exists>dev s9. revoke_tty dev [nat INIT_PROC_NR..<NR_FPROCS] s8 = Some s9
          \<and> s' = upd_fproc (cfp s9) (\<lambda>p. p\<lparr>fp_pid := 0\<rparr>) s9)"
    have "fds_ok (s\<lparr>cfp := nat slot, susp_count := n\<rparr>)" for n
      using ok fdo.k_susp [of n "s\<lparr>cfp := nat slot\<rparr>"] by simp
    then have "cfp s3 = nat slot \<and> fds_ok s3"
      using 3 ok by (auto simp: fdo.k_fproc dest!: do_unpause_ok [rotated])
    moreover have "nat slot < NR_FPROCS" using slot by (simp add: proc_nr_ok_def nat_less_iff)
    ultimately have "fds_ok s4" using close_all_ok [OF 4] by simp
    then have "fds_ok s6" using fdo.put_inode_keeps [OF 5] fdo.put_inode_keeps [OF 6] by blast
    then show ?thesis
      using 7 by (auto simp: Let_def fdo.k_fproc simp del: upt_rec_numeral dest!: revoke_tty_ok)
  qed
next
  case False
  with e ok show ?thesis by (auto simp: fs_do_exit_def)
qed

end
