(* ===== verification/FS_Descriptor_Opens.thy ===== *)
theory FS_Descriptor_Opens
  imports FS_Descriptor_Calls
begin

text \<open>
  New descriptors: \<^verbatim>\<open>pipe()\<close>, \<^verbatim>\<open>open()\<close> and \<^verbatim>\<open>creat()\<close>.
\<close>

subsection \<open>Claiming a descriptor\<close>

lemma upd_commute: "upd_filp f h (upd_fproc i g s) = upd_fproc i g (upd_filp f h s)"
  by (simp add: upd_fs_defs)

lemma claim_fd_ok:
  assumes ok: "fds_ok s" and c: "cfp s < NR_FPROCS" and k: "k < OPEN_MAX" and free: "fp_filp (fprocs s (cfp s)) k = None"
    and f: "filp_set s f" and unused: "filp_count (filps s f) = 0"
  shows "fds_ok (claim_fd k f s)"
proof -
  let ?t = "upd_filp f (\<lambda>x. x\<lparr>filp_count := 1\<rparr>) s"
  have r0: "fd_refs s f = 0" using fds_counted [OF ok, of f] f unused by (simp add: filp_set_def)
  have t: "fds_ok ?t" using r0 by (intro set_count_ok [OF ok]) auto
  have "fds_ok (upd_fproc (cfp s) (\<lambda>p. p\<lparr>fp_filp := (fp_filp p)(k := Some f)\<rparr>) ?t)"
    using f free r0 by (intro set_descriptor_ok [OF t c k]) (auto simp: upd_filp_def filp_set_def)
  then show ?thesis by (simp add: claim_fd_def upd_commute)
qed

lemma unclaim_claim:
  assumes "fp_filp (fprocs s (cfp s)) k = None" "filp_count (filps s f) = 0" "fds_same (claim_fd k f s) t"
  shows "fds_same s (unclaim_fd k f t)"
  using assms by (auto simp: fds_same_def claim_fd_def unclaim_fd_def upd_fs_defs fun_eq_iff split: if_split_asm)

subsection \<open>Pipes\<close>

lemma do_pipe_ok:
  assumes ok: "fds_ok s" and c: "cfp s < NR_FPROCS" and e: "do_pipe s = Some (r, s')"
  shows "fds_ok s'"
proof (cases "get_fd 0 R_BIT s")
  case (Pair q s1)
  note g0 = this
  note k0 = get_fd_only [OF g0]
  have ok1: "fds_ok s1" and c1: "cfp s1 = cfp s" using fds_same_ok [OF k0 ok] k0 by (auto simp: fds_same_def)
  show ?thesis
  proof (cases q)
    case (Inl x)
    then show ?thesis using e g0 ok1 by (simp add: do_pipe_def)
  next
    case (Inr kf)
    then obtain j0 f0 where kf: "kf = (j0, f0)" by force
    note D0 = get_fd_InrD [OF g0 [unfolded Inr kf]]
    have free0: "fp_filp (fprocs s1 (cfp s1)) j0 = None" "filp_count (filps s1 f0) = 0"
      using D0 by (simp_all add: upd_filp_def)
    let ?s2 = "claim_fd j0 f0 s1"
    show ?thesis
    proof (cases "get_fd 0 W_BIT ?s2")
      case (Pair q1 s3)
      note g1 = this
      note k1 = get_fd_only [OF g1]
      show ?thesis
      proof (cases q1)
        case (Inl x)
        then have "s' = unclaim_fd j0 f0 s3" using e g0 g1 Inr kf by (simp add: do_pipe_def)
        then show ?thesis using fds_same_ok [OF unclaim_claim [OF free0 k1] ok1] by simp
      next
        case Inr1: (Inr kf1)
        then obtain j1 f1 where kf1: "kf1 = (j1, f1)" by force
        note D1 = get_fd_InrD [OF g1 [unfolded Inr1 kf1]]
        have free1: "fp_filp (fprocs s3 (cfp s3)) j1 = None" "filp_count (filps s3 f1) = 0"
          using D1 by (simp_all add: upd_filp_def)
        have ne: "j1 \<noteq> j0" "f1 \<noteq> f0" using D1 by (auto simp: claim_fd_def upd_fs_defs)
        let ?s4 = "claim_fd j1 f1 s3"
        from e g0 g1 Inr kf Inr1 kf1 obtain ip s5 where al: "alloc_inode (root_dev ?s4) I_REGULAR ?s4 = Some (ip, s5)"
          by (auto simp: do_pipe_def Let_def elim!: bindE)
        have k5: "fds_same ?s4 s5" using fdt.alloc_inode_keeps [OF al] fds_same_refl by blast
        show ?thesis
        proof (cases ip)
          case None
          then have s': "s' = unclaim_fd j1 f1 (unclaim_fd j0 f0 s5) \<or> s' = unclaim_fd j1 f1 (unclaim_fd j0 f0 s5)"
            using e g0 g1 Inr kf Inr1 kf1 al by (auto simp: do_pipe_def Let_def)
          have "fds_same s1 (unclaim_fd j1 f1 (unclaim_fd j0 f0 s5))"
            using k5 k1 free0 free1 ne by (auto simp: fds_same_def claim_fd_def unclaim_fd_def upd_fs_defs fun_eq_iff split: if_split_asm)
          then show ?thesis using s' fds_same_ok [OF _ ok1] by auto
        next
          case (Some rip)
          define i0 where "i0 = upd_filp f0 (\<lambda>x. x\<lparr>filp_ino := Some rip\<rparr>) (upd_filp f1 (\<lambda>x. x\<lparr>filp_ino := Some rip\<rparr>) s1)"
          define t where "t = claim_fd j1 f1 (claim_fd j0 f0 i0)"
          have ok0: "fds_ok i0" using ok1 by (simp add: i0_def fdo.k_ino)
          have i0: "cfp i0 = cfp s" "fp_filp (fprocs i0 p) = fp_filp (fprocs s1 p)" "filp_count (filps i0 f) = filp_count (filps s1 f)" for p f
            by (auto simp: i0_def upd_filp_def c1)
          have okc: "fds_ok (claim_fd j0 f0 i0)"
            using D0 free0 c c1 by (intro claim_fd_ok [OF ok0]) (auto simp: i0 i0_def filp_set_def upd_filp_def)
          have "fds_ok t" unfolding t_def
            using D1 free1 k1 c c1 ne
            by (intro claim_fd_ok [OF okc]) (auto simp: i0 filp_set_def claim_fd_def upd_fs_defs fds_same_def i0_def split: if_split_asm)
          moreover have "fds_same t s'"
          proof -
            let ?s7 = "upd_filp f0 (\<lambda>x. x\<lparr>filp_ino := Some rip, filp_flags := 0\<rparr>)
              (upd_inode rip (\<lambda>p. p\<lparr>i_pipe := True, i_mode := (i_mode p AND NOT I_REGULAR) OR I_NAMED_PIPE\<rparr>) s5)"
            let ?s8 = "upd_filp f1 (\<lambda>x. x\<lparr>filp_ino := Some rip, filp_flags := 1\<rparr>) (dup_inode rip ?s7)"
            obtain s9 where rw: "rw_inode rip WRITING ?s8 = Some s9"
              and s': "s' = upd_inode rip (\<lambda>p. p\<lparr>i_update := ATIME OR CTIME OR MTIME\<rparr>) (s9\<lparr>reply_i1 := int j0, reply_i2 := int j1\<rparr>)"
              using e g0 g1 Inr kf Inr1 kf1 al Some by (auto simp: do_pipe_def Let_def elim!: bindE split: if_split_asm)
            have "fds_same ?s8 s9" using fdt.rw_inode_keeps [OF rw] fds_same_refl by blast
            then have "fds_same ?s8 s'" by (simp add: s' fdt.k_inode fdt.k_i1 fdt.k_i2)
            moreover have "fds_same t ?s8"
              using k5 k1 ne by (auto simp: t_def i0_def fds_same_def claim_fd_def dup_inode_def upd_fs_defs fun_eq_iff split: if_split_asm)
            ultimately show ?thesis using fds_same_trans by blast
          qed
          ultimately show ?thesis using fds_same_ok by blast
        qed
      qed
    qed
  qed
qed

subsection \<open>Opening\<close>

lemma find_filp_SomeD:
  "find_filp rip b s = Some g \<Longrightarrow> g < NR_FILPS \<and> filp_count (filps s g) \<noteq> 0 \<and> filp_ino (filps s g) = Some rip"
  unfolding find_filp_def by (auto simp: find_Some_iff simp del: upt_rec_numeral)

lemma pipe_open_result: "pipe_open rip bits fl fd buf nb s = Some (r, s') \<Longrightarrow> r = OK \<or> r = ENXIO \<or> r = SUSPEND"
  by (auto simp: pipe_open_def Let_def elim!: bindE split: if_split_asm)

text \<open>A descriptor moves to another slot, and its own slot becomes free.\<close>

lemma move_descriptor_ok:
  assumes ok: "fds_ok s" and c: "cfp s < NR_FPROCS" and k: "k < OPEN_MAX" and old: "fp_filp (fprocs s (cfp s)) k = Some f"
    and one: "filp_count (filps s f) = 1" and g: "filp_set s g" "g \<noteq> f"
  shows "fds_ok (upd_filp g (\<lambda>x. x\<lparr>filp_count := filp_count x + 1\<rparr>)
    (upd_fproc (cfp s) (\<lambda>p. p\<lparr>fp_filp := (fp_filp p)(k := Some g)\<rparr>) (upd_filp f (\<lambda>x. x\<lparr>filp_count := 0\<rparr>) s)))" (is "fds_ok ?t")
proof -
  let ?d = "upd_filp f (\<lambda>x. x\<lparr>filp_count := filp_count x - 1\<rparr>) s"
  let ?u = "upd_fproc (cfp s) (\<lambda>p. p\<lparr>fp_filp := (fp_filp p)(k := None)\<rparr>) ?d"
  have u: "fds_ok ?u" by (rule drop_descriptor_ok [OF ok c k old fds_same_refl]) simp
  have "fds_ok (share_filp g k ?u)"
    using c k g by (intro share_filp_ok [OF u]) (auto simp: upd_fs_defs filp_set_def)
  moreover have "fds_same (share_filp g k ?u) ?t"
    using one g(2) by (auto simp: fds_same_def share_filp_def upd_fs_defs)
  ultimately show ?thesis using fds_same_ok by blast
qed

text \<open>The state of a descriptor that is being opened, and what opening does with it.\<close>

definition being_opened :: "nat \<Rightarrow> nat \<Rightarrow> fs \<Rightarrow> bool" where
  "being_opened k f s \<longleftrightarrow> fds_ok s \<and> cfp s < NR_FPROCS \<and> k < OPEN_MAX \<and> fp_filp (fprocs s (cfp s)) k = Some f \<and> filp_count (filps s f) = 1"

lemma opening_same: "being_opened k f s \<Longrightarrow> fds_same s t \<Longrightarrow> being_opened k f t"
  using fds_same_ok by (auto simp: being_opened_def fds_same_def)

lemma opening_unclaim: "being_opened k f s \<Longrightarrow> fds_ok (unclaim_fd k f s)"
  by (auto simp: being_opened_def intro: unclaim_ok)

lemma open_fifo_ok:
  assumes op: "being_opened k f s0" and e: "open_fifo k f rip bits fl buf nb s0 = Some (r, f', s')"
  shows "fds_ok s' \<and> (r \<noteq> OK \<longrightarrow> r \<noteq> SUSPEND \<longrightarrow> being_opened k f s')"
proof -
  let ?s = "upd_filp f (\<lambda>x. x\<lparr>filp_flags := fl OR O_APPEND\<rparr>) s0"
  have k0: "fds_same s0 ?s" by (simp add: fds_same_def upd_filp_def)
  from e obtain s1 where po: "pipe_open rip bits (fl OR O_APPEND) (int k) buf nb ?s = Some (r, s1)"
    by (auto simp: open_fifo_def Let_def elim!: bindE split: if_split_asm option.split_asm)
  have k1: "fds_same s0 s1" using fdt.pipe_open_keeps [OF po] k0 by blast
  note o1 = opening_same [OF op k1]
  show ?thesis
  proof (cases "r = ENXIO")
    case True
    then have "s' = s1" using e po by (auto simp: open_fifo_def Let_def)
    then show ?thesis using o1 by (simp add: being_opened_def)
  next
    case False
    define b where "b = (if bits AND R_BIT \<noteq> 0 then R_BIT else W_BIT)"
    let ?s2 = "upd_filp f (\<lambda>x. x\<lparr>filp_count := 0\<rparr>) s1"
    have "fds_ok s'"
    proof (cases "find_filp rip b ?s2")
      case None
      then have "fds_same s1 s'" using e po False o1
        by (auto simp: open_fifo_def Let_def b_def being_opened_def fds_same_def upd_filp_def)
      then show ?thesis using o1 fds_same_ok by (auto simp: being_opened_def)
    next
      case (Some g)
      note F = find_filp_SomeD [OF Some]
      have g: "filp_set s1 g" "g \<noteq> f" using F by (auto simp: filp_set_def upd_filp_def split: if_split_asm)
      let ?t = "upd_filp g (\<lambda>x. x\<lparr>filp_count := filp_count x + 1\<rparr>)
        (upd_fproc (cfp s1) (\<lambda>p. p\<lparr>fp_filp := (fp_filp p)(k := Some g)\<rparr>) ?s2)"
      have t: "fds_ok ?t" using o1 g by (intro move_descriptor_ok) (auto simp: being_opened_def)
      have "fds_same ?t s'" using e po False Some
        by (auto simp: open_fifo_def Let_def b_def fds_same_def upd_fs_defs)
      then show ?thesis using t fds_same_ok by blast
    qed
    then show ?thesis using pipe_open_result [OF po] False by auto
  qed
qed

lemma open_kind_ok:
  assumes op: "being_opened k f s0" and e: "open_kind k f rip bits fl buf nb s0 = Some (r, s')"
  shows "fds_ok s' \<and> (r \<noteq> OK \<longrightarrow> r \<noteq> SUSPEND \<longrightarrow> being_opened k f s')"
proof (cases "i_mode (inodes s0 rip) AND I_TYPE = I_NAMED_PIPE")
  case True
  then obtain f' where "open_fifo k f rip bits fl buf nb s0 = Some (r, f', s')"
    using e by (auto simp: open_kind_def Let_def)
  then show ?thesis by (rule open_fifo_ok [OF op])
next
  case False
  have "fds_same s0 s'"
    using e False fds_same_refl
    by (auto simp: open_kind_def Let_def fdt.wipe_inode_keeps elim!: bindE split: if_split_asm prod.split_asm
        dest!: fdt.forbidden_keeps [where t = s0] fdt.truncate_keeps [where t = s0] fdt.rw_inode_keeps [where t = s0]
          fdt.dev_open_keeps [where t = s0])
  then show ?thesis using opening_same [OF op] by (auto simp: being_opened_def)
qed

lemma common_open_ok:
  assumes ok: "fds_ok s" and c: "cfp s < NR_FPROCS" and e: "common_open fl mode buf nb s = Some (r, s')"
  shows "fds_ok s'"
proof -
  define bits where "bits = mode_map (fl AND O_ACCMODE)"
  note e = e [unfolded common_open_def Let_def, folded bits_def]
  show ?thesis
  proof (cases "get_fd 0 bits s")
    case (Pair q s1)
    note get = this
    note k1 = get_fd_only [OF get]
    have ok1: "fds_ok s1" and c1: "cfp s1 = cfp s" using fds_same_ok [OF k1 ok] k1 by (auto simp: fds_same_def)
    show ?thesis
    proof (cases q)
      case (Inl x)
      then show ?thesis using e get ok1 by simp
    next
      case (Inr kf)
      then obtain k f where kf: "kf = (k, f)" by force
      note D = get_fd_InrD [OF get [unfolded Inr kf]]
      from e get Inr kf obtain q2 s2 where oi: "open_inode fl mode s1 = Some (q2, s2)"
        by (auto elim!: bindE)
      have k2: "fds_same s1 s2" using fdt.open_inode_keeps [OF oi] fds_same_refl by blast
      have ok2: "fds_ok s2" by (rule fds_same_ok [OF k2 ok1])
      show ?thesis
      proof (cases q2)
        case (Inl x)
        then show ?thesis using e get Inr kf oi ok2 by simp
      next
        case Inr2: (Inr rest)
        obtain rip exist r0 where rest: "rest = (rip, exist, r0)" by (cases rest) auto
        let ?s3 = "upd_filp f (\<lambda>x. x\<lparr>filp_ino := Some rip, filp_flags := fl\<rparr>) (claim_fd k f s2)"
        let ?i = "upd_filp f (\<lambda>x. x\<lparr>filp_ino := Some rip\<rparr>) s2"
        have "fds_ok ?i" using ok2 by (rule fdo.k_ino)
        then have "fds_ok (claim_fd k f ?i)"
          by (rule claim_fd_ok) (use D k2 c c1 in \<open>auto simp: filp_set_def upd_filp_def fds_same_def\<close>)
        moreover have "fds_same (claim_fd k f ?i) ?s3" by (auto simp: fds_same_def claim_fd_def upd_fs_defs)
        ultimately have ok3: "fds_ok ?s3" using fds_same_ok by blast
        have "fp_filp (fprocs ?s3 (cfp ?s3)) k = Some f" "filp_count (filps ?s3 f) = 1" "cfp ?s3 = cfp s2"
          by (simp_all add: claim_fd_def upd_fs_defs)
        then have o3: "being_opened k f ?s3"
          using ok3 D c c1 k2 by (simp add: being_opened_def fds_same_def)
        from e get Inr kf oi Inr2 rest obtain r1 s4 where
          4: "(if exist
               then do { (r1, s4) \<leftarrow> forbidden rip bits ?s3; if r1 = OK then open_kind k f rip bits fl buf nb s4 else Some (r1, s4) }
               else Some (r0, ?s3)) = Some (r1, s4)"
          and 5: "(if r1 = OK then Some (int k, s4) else if r1 = SUSPEND then Some (r1, s4)
                   else map_option (Pair r1) (put_inode (Some rip) (unclaim_fd k f s4))) = Some (r, s')"
          by (auto elim!: bindE)
        have "fds_ok s4 \<and> (r1 \<noteq> OK \<longrightarrow> r1 \<noteq> SUSPEND \<longrightarrow> being_opened k f s4)"
        proof (cases exist)
          case True
          then obtain r2 s5 where fb: "forbidden rip bits ?s3 = Some (r2, s5)"
            and ki: "(if r2 = OK then open_kind k f rip bits fl buf nb s5 else Some (r2, s5)) = Some (r1, s4)"
            using 4 by (auto elim!: bindE)
          have "fds_same ?s3 s5" using fdt.forbidden_keeps [OF fb] fds_same_refl by blast
          note o5 = opening_same [OF o3 this]
          show ?thesis using ki open_kind_ok [OF o5] o5 by (auto simp: being_opened_def split: if_split_asm)
        next
          case False
          then show ?thesis using 4 o3 by (auto simp: being_opened_def)
        qed
        then show ?thesis
          using 5 by (auto split: if_split_asm dest!: opening_unclaim fdo.put_inode_keeps)
      qed
    qed
  qed
qed

lemma fetch_ok: "fetch n s = (r, s') \<Longrightarrow> fds_ok s \<Longrightarrow> cfp s < NR_FPROCS \<Longrightarrow> fds_ok s' \<and> cfp s' < NR_FPROCS"
  using fdt.fetch_keeps [of n s r s' s] fds_same_refl fds_same_ok by (auto simp: fds_same_def)

lemma do_creat_ok: "fds_ok s \<Longrightarrow> cfp s < NR_FPROCS \<Longrightarrow> do_creat n m buf nb s = Some (r, s') \<Longrightarrow> fds_ok s'"
  by (auto simp: do_creat_def split: prod.split_asm if_split_asm dest: fetch_ok common_open_ok [rotated 2])

lemma do_open_ok: "fds_ok s \<Longrightarrow> cfp s < NR_FPROCS \<Longrightarrow> do_open n cn fl m buf nb s = Some (r, s') \<Longrightarrow> fds_ok s'"
  by (auto simp: do_open_def Let_def split: prod.split_asm if_split_asm dest: fetch_ok common_open_ok [rotated 2])

end
