(* ===== verification/FS_Run.thy ===== *)
theory FS_Run
  imports FS_Descriptor_Opens
begin

text \<open>
  Descriptors through every call, the main loop and the start of the file system.
\<close>

subsection \<open>The calls\<close>

lemma exit_all_ok: "exit_all ps s = Some s' \<Longrightarrow> fds_ok s \<Longrightarrow> fds_ok s'"
  by (induction ps arbitrary: s) (auto elim!: bindE dest: do_exit_ok split: prod.split_asm)

lemma do_reboot_ok: "fds_ok s \<Longrightarrow> fs_do_reboot s = Some (r, s') \<Longrightarrow> fds_ok s'"
  by (auto simp: fs_do_reboot_def Let_def fdo.k_inode fdo.k_anysuper simp del: upt_rec_numeral elim!: bindE split: if_split_asm
      dest!: exit_all_ok fdo.put_inode_keeps fdo.unmount_all_keeps)

lemma fcntl_call_ok: "fds_ok s \<Longrightarrow> cfp s < NR_FPROCS \<Longrightarrow> fcntl_call m s = Some (r, s') \<Longrightarrow> fds_ok s'"
  by (auto simp: fcntl_call_def fdo.k_mem elim!: bindE split: prod.split_asm option.split_asm if_split_asm dest: do_fcntl_ok)

lemma call_ok:
  assumes "fds_ok s" "cfp s < NR_FPROCS" "(n, f) \<in> set (fs_calls m)" "f s = Some (r, s')"
  shows "fds_ok s'"
proof -
  have "list_all (\<lambda>(n, f). f s = Some (r, s') \<longrightarrow> fds_ok s') (fs_calls m)"
    unfolding fs_calls_def list.pred_inject prod.case
    using assms(1,2) fdo.do_sync_keeps
    by (auto simp: ret_def dest: fdo.call_keeps fdo.pure_keeps do_exit_ok do_fork_ok do_close_ok(1) do_dup_ok do_pipe_ok do_open_ok do_creat_ok
        do_exec_ok do_unpause_ok do_reboot_ok fcntl_call_ok fdo.do_mount_keeps fdo.do_umount_keeps)
  then show ?thesis using assms(3,4) by (auto simp: list_all_iff)
qed

lemma call_vec_ok:
  assumes "fds_ok s" "cfp s < NR_FPROCS" "fs_call_vec nr m s = Some (r, s')"
  shows "fds_ok s'"
  using assms by (auto simp: fs_call_vec_def split: if_split_asm option.split_asm dest!: map_of_SomeD intro: call_ok)

subsection \<open>The main loop\<close>

lemma get_work_ok: "fs_get_work msg s = Some (x, s') \<Longrightarrow> fds_ok s' = fds_ok s"
  by (auto simp: fs_get_work_def Let_def fdo.k_fproc fdo.k_reviving simp del: upt_rec_numeral split: if_split_asm option.split_asm)

lemma step_ok:
  assumes ok: "fds_ok (snd st)" and e: "fs_step inp st = Some st'"
  shows "fds_ok (snd st')"
proof -
  obtain m0 s0 w nr m1 where st: "st = (m0, s0)" "inp = (w, nr, m1)" by (cases st, cases inp)
  from e st obtain sv s1 where g: "fs_get_work (w, nr) s0 = Some (sv, s1)"
    by (auto simp: fs_step_def elim!: bindE)
  define m where "m = (case sv of Some (fd, buf, nb) \<Rightarrow> m0(0 := word_of_int fd, 3 := buf, 1 := word_of_int nb) | None \<Rightarrow> m1)"
  define s3 where "s3 = (let s2 = s1\<lparr>cfp := nat (who s1)\<rparr> in s2\<lparr>super_user := (fp_effuid (fprocs s2 (cfp s2)) = 0)\<rparr>)"
  from e st g have w: "who s1 < NR_PROCS" by (auto simp: fs_step_def Let_def split: if_split_asm)
  from e st g obtain r s4 s6 where c: "fs_call_vec (fs_call s3) m s3 = Some (r, s4)"
    and 6: "(let s5 = (if r \<noteq> SUSPEND then fs_reply (who s4) r s4 else s4)
             in (if rdahed_inode s5 \<noteq> None then read_ahead s5 else Some s5)) = Some s6" and st': "st' = (m, s6)"
    by (auto simp: fs_step_def m_def s3_def Let_def elim!: bindE split: if_split_asm)
  have "fds_ok s3" using ok get_work_ok [OF g] by (simp add: st s3_def Let_def)
  moreover have "cfp s3 < NR_FPROCS" using w by (simp add: s3_def Let_def nat_less_iff)
  ultimately have "fds_ok s4" using c by (rule call_vec_ok)
  then show ?thesis using 6 by (auto simp: st' Let_def fdo.reply_keeps split: if_split_asm dest!: fdo.read_ahead_keeps)
qed

lemma init_procs_ok: "init_procs ps s = Some s' \<Longrightarrow> fds_ok s \<longrightarrow> fds_ok s'"
proof (induction ps arbitrary: s)
  case (Cons p ps)
  show ?case
  proof (cases "int p = FS_PROC_NR")
    case True
    then show ?thesis using Cons by simp
  next
    case False
    with Cons.prems obtain rip s1 where 1: "get_inode (root_dev s) ROOT_INODE (s\<lparr>cfp := p\<rparr>) = Some (Some rip, s1)"
      and 2: "init_procs ps (upd_fproc p (\<lambda>p'. p'\<lparr>fp_rootdir := Some rip, fp_workdir := Some rip, fp_realuid := 0, fp_effuid := 0, fp_realgid := 0,
          fp_effgid := 0, fp_umask := 0xFFFF, fp_pid := (if int p < INIT_PROC_NR then -1 else 1)\<rparr>) (dup_inode rip s1)) = Some s'"
      by (auto elim!: bindE split: option.split_asm)
    show ?thesis using Cons.IH [OF 2] fdo.get_inode_keeps [OF 1] by (simp add: fdo.k_fproc fdo.dup_inode_keeps)
  qed
qed simp

lemma load_super_ok: "load_super dev s = Some s' \<Longrightarrow> fds_ok s \<longrightarrow> fds_ok s'"
proof -
  have u: "fds_ok (s\<lparr>supers := x\<rparr>) = fds_ok s" for x by (rule fds_ok_eq) simp_all
  show "load_super dev s = Some s' \<Longrightarrow> fds_ok s \<longrightarrow> fds_ok s'"
    by (auto simp: load_super_def Let_def fdo.k_anysuper fdo.dup_inode_keeps u elim!: bindE split: if_split_asm prod.split_asm option.split_asm
        dest!: fdo.read_super_keeps fdo.get_inode_keeps)
qed

lemma init_ok: "fs_init rd img n s = Some s' \<Longrightarrow> fds_ok s \<Longrightarrow> fds_ok s'"
  by (auto simp: fs_init_def fdo.snd_ask_keeps fdo.k_cch simp del: upt_rec_numeral elim!: bindE
      dest!: fdo.load_ram_keeps load_super_ok init_procs_ok)

end
