(* ===== verification/FS_File_Theorems.thy ===== *)
theory FS_File_Theorems
  imports FS_Run FS_Main_Example
begin

text \<open>
  Properties of files and descriptors, with instances on the state of \<open>FS_Example\<close>.
\<close>

subsection \<open>Descriptors\<close>

text \<open>C37: Whatever calls arrive in whatever order, every file descriptor of every process denotes an existing,
  used slot of the table of open files with an inode: the main loop of the file system keeps the typing and the
  counting of descriptors.\<close>

theorem descriptors_typed:
  assumes "fds_ok (snd st)" "fs_run inps st = Some (m', s')"
  shows "fds_ok s' \<and> (\<forall>p k f. p < NR_FPROCS \<longrightarrow> k < OPEN_MAX \<longrightarrow> fp_filp (fprocs s' p) k = Some f \<longrightarrow>
    f < NR_FILPS \<and> 0 < filp_count (filps s' f) \<and> filp_ino (filps s' f) \<noteq> None)"
proof -
  have "fds_ok (snd st')" if "fs_run inps st = Some st'" "fds_ok (snd st)" for st'
    using that by (induction inps arbitrary: st) (auto elim!: bindE dest: step_ok)
  from this [OF assms(2,1)] have ok: "fds_ok s'" by simp
  moreover have "f < NR_FILPS \<and> 0 < filp_count (filps s' f) \<and> filp_ino (filps s' f) \<noteq> None"
    if "p < NR_FPROCS" "k < OPEN_MAX" "fp_filp (fprocs s' p) k = Some f" for p k f
    using fds_typed [OF ok that] fds_counted [OF ok, of f] refs_pos [OF that] by (simp add: filp_set_def)
  ultimately show ?thesis by blast
qed

lemma ex_fs_fds: "fds_ok ex_fs"
proof -
  define s where "s = ex_fs\<lparr>fprocs := (\<lambda>_. zero_fproc)(3 := zero_fproc\<lparr>fp_pid := 5\<rparr>)\<rparr>"
  have none: "fp_filp (fprocs s p) k = None" for p k by (simp add: s_def zero_fproc_def)
  have refs: "fd_refs s f = 0" for f
    unfolding fd_refs_sum tab_refs_def none by simp
  have f: "0 \<le> filp_count (filps s f)" "filp_count (filps s 0) = 1" "filp_ino (filps s 0) = Some 2" for f
    by (simp_all add: s_def ex_fs_def zero_filp_def)
  have "fds_ok s" by (rule fds_okI) (simp_all add: none refs f)
  then have "fds_ok (upd_fproc 3 (\<lambda>p. p\<lparr>fp_filp := (fp_filp p)(0 := Some 0)\<rparr>) s)"
    by (rule set_descriptor_ok) (simp_all add: none refs f filp_set_def)
  moreover have "upd_fproc 3 (\<lambda>p. p\<lparr>fp_filp := (fp_filp p)(0 := Some 0)\<rparr>) s = ex_fs"
    by (simp add: s_def upd_fproc_def ex_fs_def zero_fproc_def)
  ultimately show ?thesis by simp
qed

lemma ex_get_fd:
  assumes "fp_filp (fprocs s (cfp s)) = [0 \<mapsto> 0]" "filp_count (filps s 0) = 1" "filp_count (filps s 1) = 0"
  shows "get_fd 0 b s = (Inr (1, 1), upd_filp 1 (\<lambda>x. x\<lparr>filp_mode := b, filp_pos := 0, filp_flags := 0\<rparr>) s)"
  using assms by (simp add: get_fd_def upt_conv_Cons del: upt_rec_numeral)

text \<open>Process 3 duplicates its descriptor 0 and closes the old one.\<close>

lemma ex_dup:
  "\<exists>m s. fs_run [(3, 41, \<lambda>_. 0), (3, 6, \<lambda>_. 0)] (\<lambda>_. 0, ex_fs) = Some (m, s) \<and> fp_filp (fprocs s 3) 1 = Some 0"
proof -
  define s1 where "s1 = ex_fs\<lparr>who := 3, fs_call := 41, cfp := nat 3, super_user := (fp_effuid (fprocs ex_fs (nat 3)) = 0)\<rparr>"
  define s2 where "s2 = share_filp 0 1 (upd_filp 1 (\<lambda>x. x\<lparr>filp_mode := 0, filp_pos := 0, filp_flags := 0\<rparr>) (s1\<lparr>err_code := EBADF\<rparr>))"
  have "fs_call_vec 41 (\<lambda>_. 0) s1 = do_dup 0 0 s1" by (simp add: fs_call_vec_def fs_calls_def msg_int_def)
  also have "\<dots> = Some (1, s2)"
    by (simp add: do_dup_def get_filp_def ex_get_fd s1_def s2_def ex_fs_def zero_filp_def)
  finally have c1: "fs_call_vec 41 (\<lambda>_. 0) s1 = Some (1, s2)" .
  have "reviving ex_fs = 0" "who s2 = 3" "rdahed_inode s2 = None"
    by (simp_all add: s2_def s1_def share_filp_def upd_fs_defs ex_fs_def)
  then have 1: "fs_step (3, 41, \<lambda>_. 0) (\<lambda>_. 0, ex_fs) = Some (\<lambda>_. 0, fs_reply 3 1 s2)"
    using fs_step_call [of ex_fs 3 41 "\<lambda>_. 0" 1 s2 "\<lambda>_. 0", folded s1_def, OF _ _ _ c1] by simp
  define t1 where "t1 = (fs_reply 3 1 s2)\<lparr>who := 3, fs_call := 6, cfp := nat 3, super_user := (fp_effuid (fprocs (fs_reply 3 1 s2) (nat 3)) = 0)\<rparr>"
  have t1: "fp_filp (fprocs t1 3) = [0 \<mapsto> 0, 1 \<mapsto> 0]" "filp_count (filps t1 0) = 2" "filp_ino (filps t1 0) = Some 2" "cfp t1 = 3"
    "\<not> i_pipe (inodes t1 2)" "nr_locks t1 = 0" "rdahed_inode t1 = None" "who t1 = 3"
    by (simp_all add: t1_def s2_def s1_def fs_reply_def ask_fs_def share_filp_def upd_fs_defs ex_fs_def zero_fproc_def zero_filp_def zero_inode_def fun_eq_iff)
  define t2 where "t2 = upd_fproc 3 (\<lambda>p. p\<lparr>fp_cloexec := fp_cloexec p AND NOT 1, fp_filp := (fp_filp p)(0 := None)\<rparr>)
    (upd_filp 0 (\<lambda>x. x\<lparr>filp_count := filp_count x - 1\<rparr>) (t1\<lparr>err_code := EBADF\<rparr>))"
  have "fs_call_vec 6 (\<lambda>_. 0) t1 = do_close 0 t1" by (simp add: fs_call_vec_def fs_calls_def msg_int_def)
  also have "\<dots> = Some (OK, t2)"
    using t1 by (simp add: do_close_def get_filp_def close_filp_def upd_fs_defs t2_def)
  finally have c2: "fs_call_vec 6 (\<lambda>_. 0) t1 = Some (OK, t2)" .
  have "reviving (fs_reply 3 1 s2) = 0" "who t2 = 3" "rdahed_inode t2 = None"
    by (simp_all add: t2_def t1_def s2_def s1_def fs_reply_def ask_fs_def share_filp_def upd_fs_defs ex_fs_def)
  then have 2: "fs_step (3, 6, \<lambda>_. 0) (\<lambda>_. 0, fs_reply 3 1 s2) = Some (\<lambda>_. 0, fs_reply 3 0 t2)"
    using fs_step_call [of "fs_reply 3 1 s2" 3 6 "\<lambda>_. 0" OK t2 "\<lambda>_. 0", folded t1_def, OF _ _ _ c2] by simp
  have "fp_filp (fprocs (fs_reply 3 0 t2) 3) 1 = Some 0"
    using t1 by (simp add: fs_reply_def ask_fs_def Let_def t2_def upd_fs_defs)
  then show ?thesis using 1 2 by simp
qed

lemma descriptors_typed_witness:
  "\<exists>m s. fs_run [(3, 41, \<lambda>_. 0), (3, 6, \<lambda>_. 0)] (\<lambda>_. 0, ex_fs) = Some (m, s) \<and> fds_ok s \<and> fp_filp (fprocs s 3) 1 = Some 0
     \<and> 0 < filp_count (filps s 0)"
proof -
  obtain m s where r: "fs_run [(3, 41, \<lambda>_. 0), (3, 6, \<lambda>_. 0)] (\<lambda>_. 0, ex_fs) = Some (m, s)" and d: "fp_filp (fprocs s 3) 1 = Some 0"
    using ex_dup by blast
  have "fds_ok (snd (\<lambda>_. 0, ex_fs))" using ex_fs_fds by simp
  from descriptors_typed [OF this r] have "fds_ok s" "3 < NR_FPROCS \<longrightarrow> 1 < OPEN_MAX \<longrightarrow> 0 < filp_count (filps s 0)"
    using d by blast+
  then have "fds_ok s" "0 < filp_count (filps s 0)" by simp_all
  then show ?thesis using r d by blast
qed

subsection \<open>Permissions\<close>

text \<open>
  The rule of POSIX: one class of bits decides, the owner's, the group's or the others', and the
  superuser may do everything but execute a file that nobody may execute.  The bits are 2 for reading, 1 for writing and 0
  for executing and searching.
\<close>

definition posix_grants :: "inode \<Rightarrow> u16 \<Rightarrow> u8 \<Rightarrow> nat \<Rightarrow> bool" where
  "posix_grants p uid gid b \<longleftrightarrow>
     (if uid = 0 then b \<noteq> 0 \<or> i_mode p AND I_TYPE = I_DIRECTORY \<or> bit (i_mode p) 6 \<or> bit (i_mode p) 3 \<or> bit (i_mode p) 0
      else if uid = i_uid p then bit (i_mode p) (b + 6)
      else if gid = i_gid p then bit (i_mode p) (b + 3)
      else bit (i_mode p) b)"

lemma bit_seven: "bit (7 :: u16) n \<longleftrightarrow> n < 3"
proof -
  have "bit (7 :: u16) n \<longleftrightarrow> bit (Bit_Operations.mask 3 :: u16) n" by (simp add: mask_eq_exp_minus_1)
  also have "\<dots> \<longleftrightarrow> n < 3" unfolding bit_mask_iff by (auto simp: possible_bit_word)
  finally show ?thesis .
qed

lemma bit_six: "bit (6 :: u16) n \<longleftrightarrow> n = 1 \<or> n = 2"
proof -
  have "(6 :: u16) = 7 AND NOT 1" by simp
  then have "bit (6 :: u16) n \<longleftrightarrow> bit (7 AND NOT 1 :: u16) n" by simp
  also have "\<dots> \<longleftrightarrow> n = 1 \<or> n = 2"
    unfolding bit_and_iff bit_seven bit_not_iff bit_1_iff by (auto simp: possible_bit_word)
  finally show ?thesis .
qed

lemma and_some: "(a :: u16) AND c \<noteq> 0 \<longleftrightarrow> (\<exists>n. bit a n \<and> bit c n)"
proof
  assume "a AND c \<noteq> 0"
  then obtain n where "bit (a AND c) n" using bit_word_eqI [of "a AND c" 0] by auto
  then show "\<exists>n. bit a n \<and> bit c n" by (auto simp: bit_and_iff)
next
  assume "\<exists>n. bit a n \<and> bit c n"
  then have "\<exists>n. bit (a AND c) n" by (auto simp: bit_and_iff)
  then show "a AND c \<noteq> 0" by (metis bit_0_eq bot_apply bot_bool_def)
qed

lemma or_more: "(a :: u16) OR c \<noteq> a \<longleftrightarrow> (\<exists>n. bit c n \<and> \<not> bit a n)"
  by (metis bit_or_iff bit_word_eqI)

lemma bit_73: "bit (0x49 :: u16) n \<longleftrightarrow> n = 6 \<or> n = 3 \<or> n = 0"
proof -
  have e: "(0x49 :: u16) = push_bit 6 1 OR push_bit 3 1 OR 1" by simp
  show ?thesis unfolding e bit_or_iff bit_push_bit_iff bit_1_iff by (auto simp: possible_bit_word)
qed

lemma x_bits: "(w :: u16) AND 0x49 \<noteq> 0 \<longleftrightarrow> bit w 6 \<or> bit w 3 \<or> bit w 0"
  unfolding and_some bit_73 by blast

lemma bit_two: "bit (2 :: u16) n \<longleftrightarrow> n = 1"
proof -
  have e: "(2 :: u16) = push_bit 1 1" by simp
  show ?thesis unfolding e bit_push_bit_iff bit_1_iff by (auto simp: possible_bit_word)
qed

lemma perm_bits_posix:
  "bit (perm_bits p me real) b \<longleftrightarrow> b < 3 \<and>
     posix_grants p (if real then fp_realuid me else fp_effuid me) (if real then fp_realgid me else fp_effgid me) b"
proof -
  have f: "bit (drop_bit k (i_mode p) AND 7) b \<longleftrightarrow> b < 3 \<and> bit (i_mode p) (b + k)" for k
    unfolding bit_and_iff bit_drop_bit_eq bit_seven o_def by (simp add: add.commute conj_commute)
  have "b = 1 \<or> b = 2 \<longleftrightarrow> b < 3 \<and> b \<noteq> 0" by auto
  then show ?thesis
    unfolding perm_bits_def posix_grants_def Let_def x_bits if_distrib [of bit] if_distribR f bit_seven bit_six
    using f [of 0] by (simp split: if_split)
qed

text \<open>C40: Permission is granted by the rule of POSIX, with the effective identity of the caller, or the real one
  for access(): the answer is EACCES exactly if some requested bit is not granted; a granted
  request to write is answered EROFS on a file system mounted read-only; nothing else is refused, and nothing
  changes.\<close>

theorem forbidden_posix:
  assumes "\<not> i_mount (inodes s ip)" "i_sp (inodes s ip) = Some spi"
  shows "forbidden ip access s =
    Some (let me = fprocs s (cfp s);
              uid = (if fs_call s = CALL_ACCESS then fp_realuid me else fp_effuid me);
              gid = (if fs_call s = CALL_ACCESS then fp_realgid me else fp_effgid me)
          in if \<exists>b. bit access b \<and> \<not> (b < 3 \<and> posix_grants (inodes s ip) uid gid b) then EACCES
             else if bit access 1 \<and> s_rd_only (supers s spi) then EROFS else OK, s)"
proof -
  have w: "access AND W_BIT \<noteq> 0 \<longleftrightarrow> bit access 1" unfolding and_some bit_two by blast
  show ?thesis
    using assms unfolding forbidden_def Let_def or_more w perm_bits_posix by (simp add: read_only_def)
qed

text \<open>Process 3, not the owner and not of the group, may read the file of inode 2, but not write it.\<close>

lemma forbidden_posix_witness:
  "let s = upd_fproc 3 (\<lambda>p. p\<lparr>fp_effuid := 8, fp_effgid := 9\<rparr>) (upd_inode 2 (\<lambda>p. p\<lparr>i_sp := Some 0\<rparr>) ex_fs)
   in forbidden 2 4 s = Some (OK, s) \<and> forbidden 2 2 s = Some (EACCES, s)"
proof -
  define s where "s = upd_fproc 3 (\<lambda>p. p\<lparr>fp_effuid := 8, fp_effgid := 9\<rparr>) (upd_inode 2 (\<lambda>p. p\<lparr>i_sp := Some 0\<rparr>) ex_fs)"
  have e: "(4 :: u16) = push_bit 2 1" by simp
  have four: "bit (4 :: u16) n \<longleftrightarrow> n = 2" for n unfolding e bit_push_bit_iff bit_1_iff by (auto simp: possible_bit_word)
  have m: "\<not> i_mount (inodes s 2)" "i_sp (inodes s 2) = Some 0"
    by (simp_all add: s_def upd_fs_defs ex_fs_def zero_inode_def)
  have g: "posix_grants (inodes s 2) 8 9 b \<longleftrightarrow> bit (0x81A4 :: u16) b" for b
    by (simp add: posix_grants_def s_def upd_fs_defs ex_fs_def zero_inode_def)
  have u: "fs_call s = 0" "fp_effuid (fprocs s (cfp s)) = 8" "fp_effgid (fprocs s (cfp s)) = 9"
    by (simp_all add: s_def upd_fs_defs ex_fs_def)
  have "forbidden 2 4 s = Some (OK, s) \<and> forbidden 2 2 s = Some (EACCES, s)"
    unfolding forbidden_posix [OF m] Let_def four bit_two u by (simp add: g)
  then show ?thesis unfolding s_def Let_def .
qed

end
