(* ===== verification/Spec2Isabelle.thy ===== *)
theory Spec2Isabelle
  imports Kernel_Theorems Task_Theorems MM_Memory_Theorems MM_Process_Theorems
    FS_Cache_Theorems FS_Lock_Theorems FS_Super_Theorems FS_Inode_Theorems FS_Lock_Run FS_File_Theorems
begin

text \<open>
  A verification library for the MINIX 2.0 operating system (kernel, memory manager, file system).

  \<^bold>\<open>The program.\<close> The kernel (\<^verbatim>\<open>src/kernel\<close>) multiplexes the processor among tasks,
  servers and user processes and passes messages between them; the clock task and the system task run
  inside it.  The memory manager (\<^verbatim>\<open>src/mm\<close>) and the file system (\<^verbatim>\<open>src/fs\<close>) are
  servers: processes that receive a request, change their tables, ask the kernel for what only it
  can do, and reply.

  \<^bold>\<open>Kernel.\<close>
  \<^item> \<open>Kernel_Sched\<close>: the process table (\<^verbatim>\<open>struct proc\<close>), the kernel's
    variables (record \<open>kstate\<close>) and the three ready queues of \<^verbatim>\<open>proc.c\<close>.  The
    queues are linked through the process slots as in the code; \<open>rq_ok\<close> relates them to lists, and
    the locale \<open>ready_queues\<close>, interpreted as \<open>rqs\<close>, is all the message code relies on.
  \<^item> \<open>Kernel_IPC\<close>: \<^verbatim>\<open>mini_send()\<close>, \<^verbatim>\<open>mini_rec()\<close>,
    \<^verbatim>\<open>sys_call()\<close>, \<^verbatim>\<open>interrupt()\<close>, \<^verbatim>\<open>unhold()\<close>, signals to the memory
    manager, exit, and the invariant \<open>kinv\<close>: the ready queues hold exactly the runnable
    processes, every queue of senders holds exactly the processes blocked on its owner, the relation
    ``waits for'' has no cycle, and the count of processes with signals for the memory manager is right.
    \<open>Kernel_IPC_Inv\<close> and \<open>Kernel_Props\<close> prove it of every operation.
  \<^item> \<open>Kernel_Boot\<close>: \<^verbatim>\<open>main()\<close> and the task table establish it.
  \<^item> \<open>Kernel_Clock\<close>, \<open>Kernel_Clock_Inv\<close>: timers, alarms, the quantum and the
    handler of \<^verbatim>\<open>clock.c\<close>; the linked timers as sorted lists (\<open>tmr_inv\<close>).
  \<^item> \<open>Kernel_System\<close>, \<open>Kernel_Steps\<close>, \<open>Kernel_Copy\<close>: the request handlers of
    \<^verbatim>\<open>system.c\<close> over physical memory as a function from addresses to bytes.
  \<^item> \<open>Kernel_Run\<close>: sequences of operations from boot.
  \<^item> \<open>Kernel_Theorems\<close>, \<open>Task_Theorems\<close>: the properties, with instances on the
    small system of \<open>Kernel_Example\<close>.

  \<^bold>\<open>Memory manager.\<close>
  \<^item> \<open>MM_State\<close>: the process table \<^verbatim>\<open>mproc[]\<close>, the table of holes and the globals
    (record \<open>mm\<close>).  Requests to the kernel and the file system are recorded in \<open>hist\<close> and answered by
    \<open>env\<close>, an arbitrary function of the history.
  \<^item> \<open>MM_Alloc\<close>: \<^verbatim>\<open>alloc.c\<close>; \<open>MM_Alloc_Inv\<close>: the linked holes as a
    sorted list of spans, on which allocation is set difference and freeing is union.
  \<^item> \<open>MM_Break\<close>: \<^verbatim>\<open>break.c\<close>.  \<open>MM_Signal\<close>: \<^verbatim>\<open>signal.c\<close> and
    the exit of a process; \<^verbatim>\<open>sig_proc()\<close>, \<^verbatim>\<open>mm_exit()\<close> and
    \<^verbatim>\<open>check_sig()\<close> call each other, so the cycle is closed with a depth of \<open>DEPTH\<close>, one
    more than there are processes; each level ends a live process, so the depth suffices
    (\<open>MM_Signal_Inv\<close>).
  \<^item> \<open>MM_Calls\<close>: fork, wait, identities, tracing, swapping in, the swap area, control, reboot and
    the main loop.
  \<^item> \<open>MM_Memory\<close>, \<open>MM_Memory_Calls\<close>: the invariant \<open>mem_inv\<close> on who owns which clicks, kept
    by every call.  \<open>MM_Sigkill\<close>, \<open>MM_Sigkill_Calls\<close>: SIGKILL cannot be masked.
  \<^item> \<open>MM_Memory_Theorems\<close>, \<open>MM_Process_Theorems\<close>: the properties, with instances on
    the state of \<open>MM_Example\<close>.

  \<^bold>\<open>File system: the cache.\<close>
  \<^item> \<open>FS_Cache\<close>, \<open>FS_Flush\<close>: \<^verbatim>\<open>cache.c\<close> and \<^verbatim>\<open>cache2.c\<close>, the hash chains and the
    LRU chain linked through the buffers, the block device an arbitrary answer to each request.
    \<open>FS_Cache_Inv\<close>, \<open>FS_Cache_Data\<close>, \<open>FS_Cache_Get\<close>: the chains are consistent and every block read is
    the one last written; \<open>FS_Cache_Spec\<close> states the contracts of taking and returning a block, and \<open>FS_Store\<close>
    the locale \<open>block_store\<close> of an access to a block, which the cache satisfies.

  \<^bold>\<open>File system: tables and calls.\<close>
  \<^item> \<open>FS_State\<close>: the tables of inodes, super blocks, open files, processes and locks, and the globals (record
    \<open>fs\<close>).  Requests to tasks, to the memory manager and to the memory of users are recorded in \<open>fs_hist\<close>;
    the field \<open>fs_env\<close> answers them, \<open>fs_data\<close> gives the bytes that come back and
    \<open>fs_revives\<close> the processes a task revives before it answers, all arbitrary functions of the history.
  \<^item> \<open>FS_Suspend\<close> (\<^verbatim>\<open>pipe.c\<close>, \<^verbatim>\<open>main.c\<close>), \<open>FS_Super\<close>
    (\<^verbatim>\<open>super.c\<close>, byte order), \<open>FS_Lock\<close> (\<^verbatim>\<open>lock.c\<close>), \<open>FS_Inode\<close>
    (\<^verbatim>\<open>inode.c\<close>, reading the map of zones, truncation), \<open>FS_Write\<close> (\<^verbatim>\<open>write.c\<close>),
    \<open>FS_Device\<close> (\<^verbatim>\<open>device.c\<close>), \<open>FS_Path\<close> (\<^verbatim>\<open>path.c\<close>,
    \<^verbatim>\<open>protect.c\<close>), \<open>FS_File\<close> (\<^verbatim>\<open>filedes.c\<close>, \<^verbatim>\<open>misc.c\<close>, closing),
    \<open>FS_Read\<close> (\<^verbatim>\<open>read.c\<close>, pipes), \<open>FS_Open\<close> (\<^verbatim>\<open>open.c\<close>,
    \<^verbatim>\<open>link.c\<close>), \<open>FS_Dirs\<close> (renaming, \<^verbatim>\<open>stadir.c\<close>, \<^verbatim>\<open>time.c\<close>,
    \<^verbatim>\<open>mount.c\<close>), \<open>FS_Main\<close> (\<^verbatim>\<open>table.c\<close>, \<^verbatim>\<open>main.c\<close>:
    \<open>fs_step\<close> is one round of the main loop, \<open>fs_run\<close> a sequence of rounds on arbitrary messages).
  \<^item> \<open>FS_Keeps\<close>, \<open>FS_Keeps_Paths\<close>, \<open>FS_Keeps_Calls\<close>, \<open>FS_Keeps_Tables\<close>,
    \<open>FS_Keeps_Procs\<close>: contracts for properties of the state.  The locale \<open>fs_core\<close> says what a property does not
    depend on, and its lemmas that every operation which changes only that keeps it; \<open>fs_locks\<close>, \<open>fs_mounts\<close> and
    \<open>fs_procs\<close> extend it to the lock table, to mounting and to processes and open files.
  \<^item> \<open>FS_Descriptors\<close>, \<open>FS_Descriptor_Calls\<close>, \<open>FS_Descriptor_Opens\<close>, \<open>FS_Run\<close>: the typing
    of descriptors \<open>fds_ok\<close>, kept by every call, by the main loop and by the start.  \<open>FS_Lock_Run\<close>: the
    same for the table of locks, by an interpretation of \<open>fs_procs\<close>.
  \<^item> \<open>FS_Cache_Theorems\<close>, \<open>FS_Super_Theorems\<close>, \<open>FS_Lock_Theorems\<close>,
    \<open>FS_Inode_Theorems\<close>, \<open>FS_File_Theorems\<close>: the properties, with instances on the states of
    \<open>FS_Example\<close> and \<open>FS_Main_Example\<close>.

  \<^bold>\<open>Conventions.\<close>  Process numbers are integers and the process table a function from them,
  as \<^verbatim>\<open>proc_addr()\<close> is; pointers to processes are numbers, \<open>None\<close> the null
  pointer.  An operation returns \<open>None\<close> where the code panics, fails an assertion, follows a null
  pointer, leaves an array or does not terminate; loops over linked lists are
  \<^verbatim>\<open>partial_function\<close>s, so that a result is a proof of termination.  Addresses, clicks and
  times kept in unsigned fields are 32-bit words that wrap.  The configuration is that of
  \<^verbatim>\<open>include/minix/config.h\<close> for a 32-bit Intel machine.  What is not under the sources or
  is hardware (the timer chip, the drivers' timer functions, the boot monitor's headers and chunks
  of memory) is an argument.

  \<^bold>\<open>Not modelled.\<close>  Device drivers and port I/O, the assembly code that saves registers and
  switches address spaces, descriptor tables, console output.  In the file system: messages a device
  sends that are neither its answer nor a revival, a failing \<^verbatim>\<open>sendrec()\<close> to a task, printing, and the
  compatibility code behind \<^verbatim>\<open>ENABLE_BINCOMPAT\<close>, which the configuration leaves out.  A run of the file
  system that reaches a panic, a null pointer or a loop that does not end is \<open>None\<close>; the theorems about runs speak of
  those that go on.  The commands, the libraries and the boot programs are not part of the development.
\<close>

end
